(* ===== verification/Prelude.thy ===== *)
theory Prelude
  imports Main "HOL-Library.Word"
begin

text \<open>
  Shared vocabulary of the development: the kernel's integer types of
  \<^verbatim>\<open>sdk/include/ke/types.h\<close>, its status codes (\<^verbatim>\<open>sdk/include/ntstatus.h\<close>), the
  helper macros of \<^verbatim>\<open>sdk/include/ke/defs.h\<close>, and the outcome type by which every
  operation of the model reports a bug check or a memory fault as a value.
\<close>

unbundle bit_operations_syntax

named_theorems status_simps \<open>the numeric values of the NT status codes\<close>
named_theorems bits_simps \<open>how the bitmap macros read and write single bits\<close>

section \<open>Integer types\<close>

type_synonym uchar = "8 word"
type_synonym ushort = "16 word"
type_synonym ulong = "32 word"
type_synonym uquad = "64 word"
type_synonym usize = "64 word"
type_synonym ulong_ptr = "64 word"
type_synonym ntstatus = "32 word"

section \<open>Outcomes\<close>

text \<open>
  \<open>Done\<close> is a normal return. \<open>Panic\<close> is a call of \<^verbatim>\<open>keBugCheck\<close>, which never returns.
  \<open>Fault\<close> is an access the C program does not define: an array index out of range, a
  NULL dereference, a signed overflow, a division by zero.
\<close>

datatype 'a outcome = Done 'a | Panic string | Fault

primrec andthen :: "'a outcome \<Rightarrow> ('a \<Rightarrow> 'b outcome) \<Rightarrow> 'b outcome" where
  "andthen (Done x) f = f x"
| "andthen (Panic s) f = Panic s"
| "andthen Fault f = Fault"

primrec is_done :: "'a outcome \<Rightarrow> bool" where
  "is_done (Done x) = True"
| "is_done (Panic s) = False"
| "is_done Fault = False"

primrec result_of :: "'a outcome \<Rightarrow> 'a option" where
  "result_of (Done x) = Some x"
| "result_of (Panic s) = None"
| "result_of Fault = None"

lemma andthen_Done_iff [simp]:
  "andthen m f = Done y \<longleftrightarrow> (\<exists>x. m = Done x \<and> f x = Done y)"
  by (cases m) auto

lemma andthen_assoc: "andthen (andthen m f) g = andthen m (\<lambda>x. andthen (f x) g)"
  by (cases m) auto

lemma andthen_Done_right [simp]: "andthen m Done = m"
  by (cases m) auto

lemma andthen_cong [fundef_cong]:
  "m = m' \<Longrightarrow> (\<And>x. m' = Done x \<Longrightarrow> f x = g x) \<Longrightarrow> andthen m f = andthen m' g"
  by (cases m') auto

section \<open>Status codes\<close>

definition STATUS_SUCCESS :: ntstatus where [status_simps]: "STATUS_SUCCESS = 0x00000000"
definition STATUS_NO_MEMORY :: ntstatus where [status_simps]: "STATUS_NO_MEMORY = 0xC0000017"
definition STATUS_BAD_OBJNAME :: ntstatus where [status_simps]: "STATUS_BAD_OBJNAME = 0xC0000033"
definition STATUS_INVALID_HANDLE :: ntstatus where [status_simps]: "STATUS_INVALID_HANDLE = 0xC0000008"
definition STATUS_BAD_OBJ_TYPE :: ntstatus where [status_simps]: "STATUS_BAD_OBJ_TYPE = 0xC0000024"
definition STATUS_OBJECT_NOTFOUND :: ntstatus where [status_simps]: "STATUS_OBJECT_NOTFOUND = 0xC0000034"
definition STATUS_NOT_DIRECTORY :: ntstatus where [status_simps]: "STATUS_NOT_DIRECTORY = 0xC0000039"
definition STATUS_FILE_UNAVL :: ntstatus where [status_simps]: "STATUS_FILE_UNAVL = 0xC0000467"
definition STATUS_NOT_MAPPED :: ntstatus where [status_simps]: "STATUS_NOT_MAPPED = 0xC0000019"
definition STATUS_NOT_SUPPORTED :: ntstatus where [status_simps]: "STATUS_NOT_SUPPORTED = 0xC00000BB"
definition STATUS_INVALID_PARAM :: ntstatus where [status_simps]: "STATUS_INVALID_PARAM = 0xC00000EF"
definition STATUS_PROC_NOTFOUND :: ntstatus where [status_simps]: "STATUS_PROC_NOTFOUND = 0x000000F0"
definition STATUS_PROC_NOEXEC :: ntstatus where [status_simps]: "STATUS_PROC_NOEXEC = 0x000000F1"
definition STATUS_NO_SPACE :: ntstatus where [status_simps]: "STATUS_NO_SPACE = 0x000000F2"

section \<open>Alignment\<close>

text \<open>
  \<^verbatim>\<open>ALIGN_DOWN\<close> and \<^verbatim>\<open>ALIGN_UP\<close> at the width of the value: the addition of
  \<^verbatim>\<open>ALIGN_UP\<close> wraps at that width.
\<close>

definition ALIGN_DOWN :: "'a::len word \<Rightarrow> 'a word \<Rightarrow> 'a word" where
  "ALIGN_DOWN value align = value AND NOT (align - 1)"

definition ALIGN_UP :: "'a::len word \<Rightarrow> 'a word \<Rightarrow> 'a word" where
  "ALIGN_UP value align = (value + align - 1) AND NOT (align - 1)"

definition PAGESIZE :: usize where "PAGESIZE = 4096"

lemma uint_quad_less [simp]: "uint (x :: uquad) < 18446744073709551616"
  using unsigned_less [where 'a = int, of x] by simp

lemma unat_quad_less [simp]: "unat (x :: uquad) < 18446744073709551616"
  using unsigned_less [where 'a = nat, of x] by simp

lemma unat_plus_small:
  "unat x + unat y < 2 ^ LENGTH('a) \<Longrightarrow> unat (x + y) = unat x + unat y" for x y :: "'a::len word"
  by (simp add: unat_word_ariths)

lemma unat_mult_small:
  "unat x * unat y < 2 ^ LENGTH('a) \<Longrightarrow> unat (x * y) = unat x * unat y" for x y :: "'a::len word"
  by (simp add: unat_word_ariths)

lemma unat_of_nat_quad: "n < 2 ^ 64 \<Longrightarrow> unat (of_nat n :: uquad) = n"
  by (simp add: unat_of_nat take_bit_nat_eq_self)

lemma unat_div_mult_less: "unat x div 2 ^ n * 2 ^ n < 2 ^ LENGTH('a)"
  for x :: "'a::len word"
  by (meson div_times_less_eq_dividend le_less_trans unsigned_less)

lemma and_not_mask_eq: "x AND NOT (mask n) = push_bit n (drop_bit n x)"
  for x :: "'a::len word"
  by (rule bit_word_eqI) (auto simp: bit_simps)

lemma unat_and_not_mask: "unat (x AND NOT (mask n)) = unat x div 2 ^ n * 2 ^ n"
  for x :: "'a::len word"
proof -
  have "unat (x AND NOT (mask n)) = take_bit LENGTH('a) (push_bit n (drop_bit n (unat x)))"
    by (simp only: and_not_mask_eq unsigned_push_bit_eq unat_drop_bit_eq)
  then show ?thesis
    by (simp only: push_bit_eq_mult drop_bit_eq_div take_bit_nat_eq_self unat_div_mult_less)
qed

lemma page_mask: "(4095 :: 'a::len word) = mask 12"
  by (simp add: mask_eq_exp_minus_1)

lemma unat_ALIGN_DOWN_page:
  "unat (ALIGN_DOWN x PAGESIZE) = unat x div 4096 * 4096"
  by (simp add: ALIGN_DOWN_def PAGESIZE_def page_mask unat_and_not_mask)

lemma unat_ALIGN_UP_page:
  "unat x + 4095 < 2 ^ 64 \<Longrightarrow> unat (ALIGN_UP x PAGESIZE) = (unat x + 4095) div 4096 * 4096"
proof -
  assume h: "unat x + 4095 < 2 ^ 64"
  have "x + 4096 - 1 = x + 4095" by simp
  moreover have "unat (x + 4095) = unat x + 4095"
    using h by (simp add: unat_word_ariths)
  moreover have "ALIGN_UP x PAGESIZE = (x + 4096 - 1) AND NOT (mask 12)"
    by (simp add: ALIGN_UP_def PAGESIZE_def flip: page_mask)
  ultimately show ?thesis by (simp only: unat_and_not_mask) simp
qed

definition page_aligned :: "usize \<Rightarrow> bool" where
  "page_aligned a \<longleftrightarrow> a AND 4095 = 0"

lemma page_aligned_dvd: "page_aligned a \<longleftrightarrow> 4096 dvd unat a"
proof -
  have "a AND 4095 = take_bit 12 a" by (simp add: page_mask take_bit_eq_mask)
  moreover have "take_bit 12 a = 0 \<longleftrightarrow> unat (take_bit 12 a) = 0"
    by (simp add: unsigned_eq_0_iff)
  moreover have "unat (take_bit 12 a) = unat a mod 4096"
    by (simp only: unsigned_take_bit_eq) (simp add: take_bit_eq_mod)
  ultimately show ?thesis by (simp add: page_aligned_def dvd_eq_mod_eq_0)
qed

lemma page_aligned_ALIGN_DOWN [simp, intro]: "page_aligned (ALIGN_DOWN x PAGESIZE)"
  by (simp add: page_aligned_dvd unat_ALIGN_DOWN_page)

lemma ALIGN_DOWN_page_id [simp]: "page_aligned x \<Longrightarrow> ALIGN_DOWN x PAGESIZE = x"
  by (rule word_unat_eq_iff [THEN iffD2])
     (simp add: unat_ALIGN_DOWN_page page_aligned_dvd)

section \<open>Bitmaps\<close>

text \<open>
  \<^verbatim>\<open>setBit\<close>, \<^verbatim>\<open>clrBit\<close> and \<^verbatim>\<open>testBit\<close> on a byte array. The bit number is the value of
  the unsigned expression the macro is given, so \<^verbatim>\<open>(b) >> 3\<close> is its quotient by eight.
  An index beyond the array is a fault.
\<close>

definition setBit :: "uchar list \<Rightarrow> nat \<Rightarrow> uchar list outcome" where
  "setBit a b = (if b div 8 < length a
     then Done (a[b div 8 := a ! (b div 8) OR push_bit (b mod 8) 1]) else Fault)"

definition clrBit :: "uchar list \<Rightarrow> nat \<Rightarrow> uchar list outcome" where
  "clrBit a b = (if b div 8 < length a
     then Done (a[b div 8 := a ! (b div 8) AND NOT (push_bit (b mod 8) 1)]) else Fault)"

definition testBit :: "uchar list \<Rightarrow> nat \<Rightarrow> bool outcome" where
  "testBit a b = (if b div 8 < length a
     then Done (a ! (b div 8) AND push_bit (b mod 8) 1 \<noteq> 0) else Fault)"

text \<open>The value of one bit of the array, and what the macros do to every bit.\<close>

definition bitAt :: "uchar list \<Rightarrow> nat \<Rightarrow> bool" where
  "bitAt a b \<longleftrightarrow> b div 8 < length a \<and> bit (a ! (b div 8)) (b mod 8)"

lemma and_push_bit_1: "w AND push_bit n 1 \<noteq> 0 \<longleftrightarrow> bit w n" for w :: "'a::len word"
  by (metis and_exp_eq_0_iff_not_bit push_bit_of_1)

lemma testBit_Done [bits_simps]: "b < 8 * length a \<Longrightarrow> testBit a b = Done (bitAt a b)"
  by (simp only: testBit_def bitAt_def and_push_bit_1)
     (simp add: less_mult_imp_div_less mult.commute)

lemma testBit_Fault [bits_simps]: "\<not> b < 8 * length a \<Longrightarrow> testBit a b = Fault"
  by (auto simp: testBit_def)

lemma setBit_Done [bits_simps]:
  "setBit a b = Done a' \<Longrightarrow> length a' = length a \<and> bitAt a' c = (c = b \<or> bitAt a c)"
proof -
  assume h: "setBit a b = Done a'"
  have "c = b \<longleftrightarrow> c div 8 = b div 8 \<and> c mod 8 = b mod 8"
    by (metis div_mult_mod_eq)
  with h show ?thesis
    by (auto simp: setBit_def bitAt_def nth_list_update bit_simps split: if_splits)
qed

lemma clrBit_Done [bits_simps]:
  "clrBit a b = Done a' \<Longrightarrow> length a' = length a \<and> bitAt a' c = (c \<noteq> b \<and> bitAt a c)"
proof -
  assume h: "clrBit a b = Done a'"
  have "c = b \<longleftrightarrow> c div 8 = b div 8 \<and> c mod 8 = b mod 8"
    by (metis div_mult_mod_eq)
  with h show ?thesis
    by (auto simp: clrBit_def bitAt_def nth_list_update bit_simps split: if_splits)
qed

lemma setBit_ok: "b < 8 * length a \<Longrightarrow> \<exists>a'. setBit a b = Done a'"
  by (simp add: setBit_def less_mult_imp_div_less mult.commute)

lemma clrBit_ok: "b < 8 * length a \<Longrightarrow> \<exists>a'. clrBit a b = Done a'"
  by (simp add: clrBit_def less_mult_imp_div_less mult.commute)

end
