(* ===== verification/PhysMem.thy ===== *)
theory PhysMem
  imports Prelude
begin

text \<open>
  The physical memory manager, \<^verbatim>\<open>ntos/mm/phys.c\<close>: the frame bitmap built from the
  bootloader's memory map, the first-fit search for a run of frames, and the release of
  frames. The static variables of the file are the fields of the record \<open>phys\<close>; memory is
  a map from the kernel virtual address of an aligned eight-byte cell to its contents, and
  \<open>kernelBase\<close> is the value of \<^verbatim>\<open>keGetKernelBase()\<close> (the direct map of
  \<^verbatim>\<open>PHYS_TO_VIRT\<close>). The bitmap's bytes are kept as a list of their own, not as cells of
  \<open>memory\<close>. \<^verbatim>\<open>keAcquireSpinLock\<close> around each operation is the subject of the spin lock
  theory: here an operation runs alone.
\<close>

section \<open>State\<close>

text \<open>\<^verbatim>\<open>struct limine_memmap_entry\<close>; type 0 is \<^verbatim>\<open>LIMINE_MEMMAP_USABLE\<close>.\<close>

record memmap_entry =
  meBase :: uquad
  meLength :: uquad
  meType :: uquad

text \<open>
  What the hardware holds: memory, the direct-map offset, the processor's CR3 register and
  its translation cache: for the base address of a virtual page the entry it keeps, if any.
\<close>

record machine =
  memory :: "uquad \<Rightarrow> uquad"
  kernelBase :: ulong_ptr
  cr3 :: uquad
  tlb :: "ulong_ptr \<Rightarrow> uquad option"

record phys = machine +
  highestFrameIdx :: usize
  bitmapSize :: usize
  framesUsed :: usize
  framesFree :: usize
  bitmapFreeStart :: usize
  lastIdx :: usize
  bitmap :: "uchar list"
  entries :: "memmap_entry list"

definition LIMINE_MEMMAP_USABLE :: uquad where "LIMINE_MEMMAP_USABLE = 0"

definition PHYS_TO_VIRT :: "phys \<Rightarrow> ulong_ptr \<Rightarrow> ulong_ptr" where
  "PHYS_TO_VIRT st pa = pa + kernelBase st"

definition VIRT_TO_PHYS :: "phys \<Rightarrow> ulong_ptr \<Rightarrow> ulong_ptr" where
  "VIRT_TO_PHYS st va = va - kernelBase st"

lemma VIRT_TO_PHYS_TO_VIRT [simp]: "VIRT_TO_PHYS st (PHYS_TO_VIRT st pa) = pa"
  by (simp add: VIRT_TO_PHYS_def PHYS_TO_VIRT_def)

text \<open>\<^verbatim>\<open>rtlMemset(a, 0, n)\<close> on the cells of memory, for an aligned base and length.\<close>

definition zeroRange :: "ulong_ptr \<Rightarrow> usize \<Rightarrow> (uquad \<Rightarrow> uquad) \<Rightarrow> uquad \<Rightarrow> uquad" where
  "zeroRange a n m = (\<lambda>x. if x - a < n then 0 else m x)"

section \<open>Initialisation\<close>

function clearPages :: "uquad \<Rightarrow> nat \<Rightarrow> nat \<Rightarrow> uchar list \<Rightarrow> uchar list outcome" where
  "clearPages base len j bm =
     (if j < len
      then andthen (clrBit bm (unat ((base + of_nat j) div PAGESIZE)))
             (\<lambda>bm'. clearPages base len (j + 4096) bm')
      else Done bm)"
  by pat_completeness auto
termination
  by (relation "measure (\<lambda>(base, len, j, bm). len - j)") auto

declare clearPages.simps [simp del]

fun populateEntries :: "memmap_entry list \<Rightarrow> phys \<Rightarrow> phys outcome" where
  "populateEntries [] st = Done st"
| "populateEntries (memEntry # rest) st =
     (if meType memEntry \<noteq> LIMINE_MEMMAP_USABLE
      then populateEntries rest
             (st\<lparr>framesUsed := framesUsed st + meLength memEntry div PAGESIZE\<rparr>)
      else
        let st1 = (if bitmapFreeStart st = 0
                   then st\<lparr>bitmapFreeStart := meBase memEntry div PAGESIZE\<rparr> else st)
        in andthen (clearPages (meBase memEntry) (unat (meLength memEntry)) 0 (bitmap st1))
             (\<lambda>bm. populateEntries rest
                (st1\<lparr>bitmap := bm,
                     framesFree := framesFree st1 + meLength memEntry div PAGESIZE\<rparr>)))"

definition mmPopulateBitmap :: "phys \<Rightarrow> phys outcome" where
  "mmPopulateBitmap st = populateEntries (entries st) st"

text \<open>
  The first usable entry that can hold the bitmap gives up its first \<open>bitmapSize\<close> bytes.
  With no such entry the bitmap stays NULL, here the empty list.
\<close>

fun carveBitmap :: "usize \<Rightarrow> memmap_entry list \<Rightarrow> memmap_entry list option" where
  "carveBitmap sz [] = None"
| "carveBitmap sz (memEntry # rest) =
     (if meType memEntry = LIMINE_MEMMAP_USABLE \<and> sz \<le> meLength memEntry
      then Some (memEntry\<lparr>meLength := meLength memEntry - sz, meBase := meBase memEntry + sz\<rparr> # rest)
      else map_option ((#) memEntry) (carveBitmap sz rest))"

definition mmAllocBitmap :: "phys \<Rightarrow> phys" where
  "mmAllocBitmap st =
     (case carveBitmap (bitmapSize st) (entries st) of
        None \<Rightarrow> st
      | Some es \<Rightarrow> st\<lparr>bitmap := replicate (unat (bitmapSize st)) 0xFF, entries := es\<rparr>)"

fun highestUsable :: "memmap_entry list \<Rightarrow> ulong_ptr \<Rightarrow> ulong_ptr" where
  "highestUsable [] highestAddr = highestAddr"
| "highestUsable (memEntry # rest) highestAddr =
     highestUsable rest
       (if meType memEntry \<noteq> LIMINE_MEMMAP_USABLE then highestAddr
        else max highestAddr (meBase memEntry + meLength memEntry))"

text \<open>
  \<^verbatim>\<open>highestAddr\<close> is an uninitialised local of \<^verbatim>\<open>mmInitBitmap\<close>: the value the stack
  happens to hold is the argument \<open>junk\<close>.
\<close>

definition mmInitBitmap :: "ulong_ptr \<Rightarrow> phys \<Rightarrow> phys outcome" where
  "mmInitBitmap junk st =
     (let highestAddr = highestUsable (entries st) junk;
          hi = highestAddr div PAGESIZE;
          st1 = st\<lparr>highestFrameIdx := hi, bitmapSize := ALIGN_UP (hi div 8) PAGESIZE\<rparr>
      in mmPopulateBitmap (mmAllocBitmap st1))"

definition mmPhysInit :: "ulong_ptr \<Rightarrow> memmap_entry list \<Rightarrow> phys \<Rightarrow> phys outcome" where
  "mmPhysInit junk response st = mmInitBitmap junk (st\<lparr>entries := response\<rparr>)"

section \<open>Allocation and release\<close>

text \<open>
  The search loop of \<^verbatim>\<open>mmDoAllocFrames\<close>: \<open>idx\<close> is the \<^verbatim>\<open>QUAD\<close> start of the current run
  (or -1) and \<open>nFrames\<close> the \<^verbatim>\<open>LONG\<close> count of its frames, so incrementing past the largest
  \<^verbatim>\<open>LONG\<close> is undefined. The comparison with \<^verbatim>\<open>count\<close> is unsigned.
\<close>

function mmScan :: "uchar list \<Rightarrow> nat \<Rightarrow> usize \<Rightarrow> nat \<Rightarrow> int \<Rightarrow> int \<Rightarrow> (int \<times> int) outcome" where
  "mmScan bm hi count i idx nFrames =
     (if i < hi
      then andthen (testBit bm i) (\<lambda>used.
        if \<not> used then
          let idx1 = (if idx < 0 then int i else idx) in
          if nFrames = 2147483647 then Fault
          else if uint count \<le> nFrames then Done (idx1, nFrames + 1)
          else mmScan bm hi count (Suc i) idx1 (nFrames + 1)
        else mmScan bm hi count (Suc i) (-1) 0)
      else Done (idx, nFrames))"
  by pat_completeness auto
termination
  by (relation "measure (\<lambda>(bm, hi, count, i, idx, n). hi - i)") auto

declare mmScan.simps [simp del]

function markFrames :: "nat \<Rightarrow> nat \<Rightarrow> uchar list \<Rightarrow> uchar list outcome" where
  "markFrames i stop bm =
     (if i < stop then andthen (setBit bm i) (\<lambda>bm'. markFrames (Suc i) stop bm') else Done bm)"
  by pat_completeness auto
termination
  by (relation "measure (\<lambda>(i, stop, bm). stop - i)") auto

declare markFrames.simps [simp del]

definition mmDoAllocFrames :: "usize \<Rightarrow> phys \<Rightarrow> (ulong_ptr \<times> phys) outcome" where
  "mmDoAllocFrames count st =
     andthen (mmScan (bitmap st) (unat (highestFrameIdx st)) count 0 (-1) 0) (\<lambda>(idx, nFrames).
       if idx < 0 \<or> (nFrames - 1) mod 2 ^ 64 < uint count then Done (0, st)
       else
         andthen (markFrames (nat idx) (unat (word_of_int idx + count)) (bitmap st)) (\<lambda>bm.
           let ret = word_of_int idx * PAGESIZE in
           Done (ret, st\<lparr>bitmap := bm, lastIdx := word_of_int idx,
             memory := zeroRange (PHYS_TO_VIRT st ret) (count * PAGESIZE) (memory st)\<rparr>)))"

definition mmAllocFrame :: "usize \<Rightarrow> phys \<Rightarrow> (ulong_ptr \<times> phys) outcome" where
  "mmAllocFrame count st =
     (let st1 = st\<lparr>framesUsed := framesUsed st + count, framesFree := framesFree st - count\<rparr>
      in andthen (mmDoAllocFrames count st1) (\<lambda>(ret, st2).
           if ret = 0 then mmDoAllocFrames count (st2\<lparr>lastIdx := 0\<rparr>)
           else Done (ret, st2)))"

function releaseFrames :: "nat \<Rightarrow> nat \<Rightarrow> uchar list \<Rightarrow> uchar list outcome" where
  "releaseFrames p stop_at bm =
     (if p < stop_at
      then andthen (clrBit bm (p div 4096)) (\<lambda>bm'. releaseFrames (p + 4096) stop_at bm')
      else Done bm)"
  by pat_completeness auto
termination
  by (relation "measure (\<lambda>(p, stop_at, bm). stop_at - p)") auto

declare releaseFrames.simps [simp del]

definition mmFreeFrame :: "ulong_ptr \<Rightarrow> usize \<Rightarrow> phys \<Rightarrow> phys outcome" where
  "mmFreeFrame base count st =
     (let p = ALIGN_UP base PAGESIZE;
          stop_at = p + count * PAGESIZE
      in andthen (releaseFrames (unat p) (unat stop_at) (bitmap st))
           (\<lambda>bm. Done (st\<lparr>bitmap := bm\<rparr>)))"

section \<open>The search loop against a reference\<close>

text \<open>
  \<open>is_run bm hi c s\<close>: frames \<open>s, \<dots>, s + c\<close> (one more than \<open>c\<close>, which is what the code
  asks for) are all below \<open>hi\<close> and free. \<open>first_run\<close> is the least such start.
\<close>

definition is_run :: "uchar list \<Rightarrow> nat \<Rightarrow> nat \<Rightarrow> nat \<Rightarrow> bool" where
  "is_run bm hi c s \<longleftrightarrow> s + c < hi \<and> list_all (\<lambda>j. \<not> bitAt bm j) [s ..< s + c + 1]"

definition first_run :: "uchar list \<Rightarrow> nat \<Rightarrow> nat \<Rightarrow> nat option" where
  "first_run bm hi c = List.find (is_run bm hi c) [0 ..< hi]"

lemma is_run_iff: "is_run bm hi c s \<longleftrightarrow> s + c < hi \<and> (\<forall>j. s \<le> j \<and> j \<le> s + c \<longrightarrow> \<not> bitAt bm j)"
  by (auto simp: is_run_def list_all_iff)

lemma first_run_Some_iff:
  "first_run bm hi c = Some s \<longleftrightarrow> is_run bm hi c s \<and> (\<forall>t < s. \<not> is_run bm hi c t)"
proof
  assume "first_run bm hi c = Some s"
  then obtain i where "i < hi" "is_run bm hi c i" "s = i" "\<forall>j < i. \<not> is_run bm hi c j"
    by (auto simp: first_run_def find_Some_iff)
  then show "is_run bm hi c s \<and> (\<forall>t < s. \<not> is_run bm hi c t)" by simp
next
  assume h: "is_run bm hi c s \<and> (\<forall>t < s. \<not> is_run bm hi c t)"
  then have "s < hi" by (simp add: is_run_def)
  with h show "first_run bm hi c = Some s"
    unfolding first_run_def find_Some_iff
    by (intro exI [of _ s]) auto
qed

lemma first_run_None_iff: "first_run bm hi c = None \<longleftrightarrow> (\<forall>s. \<not> is_run bm hi c s)"
  by (auto simp: first_run_def find_None_iff is_run_def)

text \<open>What the loop knows when it reaches frame \<open>i\<close>.\<close>

definition scan_inv :: "uchar list \<Rightarrow> nat \<Rightarrow> nat \<Rightarrow> int \<Rightarrow> int \<Rightarrow> bool" where
  "scan_inv bm c i idx n \<longleftrightarrow>
     (idx = -1 \<and> n = 0 \<and> (i = 0 \<or> bitAt bm (i - 1)) \<or>
      (\<exists>s. idx = int s \<and> s < i \<and> n = int (i - s) \<and> n \<le> int c \<and>
           (\<forall>j. s \<le> j \<and> j < i \<longrightarrow> \<not> bitAt bm j) \<and> (s = 0 \<or> bitAt bm (s - 1)))
     ) \<and> (\<forall>s. s + c < i \<longrightarrow> (\<exists>j. s \<le> j \<and> j \<le> s + c \<and> bitAt bm j))"

lemma scan_inv_0: "scan_inv bm c 0 (-1) 0"
  by (simp add: scan_inv_def)

lemma scan_inv_used:
  assumes inv: "scan_inv bm c i idx n" and used: "bitAt bm i"
  shows "scan_inv bm c (Suc i) (-1) 0"
proof -
  have "\<exists>j. s \<le> j \<and> j \<le> s + c \<and> bitAt bm j" if "s + c < Suc i" for s
  proof (cases "s + c < i")
    case True
    with inv show ?thesis by (simp add: scan_inv_def)
  next
    case False
    with that used show ?thesis by (intro exI [of _ i]) auto
  qed
  with used show ?thesis by (simp add: scan_inv_def)
qed

text \<open>At a free frame the current run is \<open>s, \<dots>, i\<close> for the \<open>s\<close> the loop computes.\<close>

lemma scan_inv_free:
  assumes inv: "scan_inv bm c i idx n" and free: "\<not> bitAt bm i"
  obtains s where "(if idx < 0 then int i else idx) = int s" "s \<le> i" "n = int (i - s)" "n \<le> int c"
    "\<forall>j. s \<le> j \<and> j \<le> i \<longrightarrow> \<not> bitAt bm j" "s = 0 \<or> bitAt bm (s - 1)"
proof -
  show thesis
  proof (cases "idx < 0")
    case True
    with inv have "n = 0" "i = 0 \<or> bitAt bm (i - 1)" by (auto simp: scan_inv_def)
    moreover have "\<forall>j. i \<le> j \<and> j \<le> i \<longrightarrow> \<not> bitAt bm j"
      using free le_antisym by blast
    ultimately show thesis using True that [of i] by auto
  next
    case False
    with inv obtain s where s: "idx = int s" "s < i" "n = int (i - s)" "n \<le> int c"
        "\<forall>j. s \<le> j \<and> j < i \<longrightarrow> \<not> bitAt bm j" "s = 0 \<or> bitAt bm (s - 1)"
      by (auto simp: scan_inv_def)
    have "\<not> bitAt bm j" if "s \<le> j \<and> j \<le> i" for j
      using s(5) free that by (cases "j = i") auto
    with s that [of s] show thesis by simp
  qed
qed

lemma scan_inv_free_step:
  assumes "scan_inv bm c i idx n" "\<not> bitAt bm i" "n < int c"
  shows "scan_inv bm c (Suc i) (if idx < 0 then int i else idx) (n + 1)"
proof -
  obtain s where s: "(if idx < 0 then int i else idx) = int s" "s \<le> i" "n = int (i - s)"
    "\<forall>j. s \<le> j \<and> j \<le> i \<longrightarrow> \<not> bitAt bm j" "s = 0 \<or> bitAt bm (s - 1)"
    using assms(1,2) by (rule scan_inv_free)
  have "\<exists>j. t \<le> j \<and> j \<le> t + c \<and> bitAt bm j" if "t + c < Suc i" for t
  proof (cases "t + c < i")
    case True
    with assms(1) show ?thesis by (simp add: scan_inv_def)
  next
    case False
    with that s(2,3) assms(3) have "t < s" "s - 1 \<le> t + c" by auto
    with s(5) show ?thesis by (intro exI [of _ "s - 1"]) auto
  qed
  moreover have "\<exists>s'. int s = int s' \<and> s' < Suc i \<and> n + 1 = int (Suc i - s') \<and> n + 1 \<le> int c \<and>
      (\<forall>j. s' \<le> j \<and> j < Suc i \<longrightarrow> \<not> bitAt bm j) \<and> (s' = 0 \<or> bitAt bm (s' - 1))"
    using s assms(3) by (intro exI [of _ s]) auto
  ultimately show ?thesis
    unfolding scan_inv_def s(1) by blast
qed

lemma scan_inv_found:
  assumes "scan_inv bm c i idx n" "\<not> bitAt bm i" "\<not> n < int c" "i < hi"
  shows "\<exists>s. first_run bm hi c = Some s \<and> (if idx < 0 then int i else idx) = int s \<and> n = int c"
proof -
  obtain s where s: "(if idx < 0 then int i else idx) = int s" "s \<le> i" "n = int (i - s)"
    "n \<le> int c" "\<forall>j. s \<le> j \<and> j \<le> i \<longrightarrow> \<not> bitAt bm j" "s = 0 \<or> bitAt bm (s - 1)"
    using assms(1,2) by (rule scan_inv_free)
  with assms(3) have n: "n = int c" and i: "i = s + c" by auto
  have "is_run bm hi c s" using s(5) i assms(4) by (auto simp: is_run_iff)
  moreover have "\<not> is_run bm hi c t" if "t < s" for t
  proof (cases "t + c < i")
    case True
    with assms(1) show ?thesis by (auto simp: scan_inv_def is_run_iff)
  next
    case False
    with that s(6) i show ?thesis by (auto simp: is_run_iff intro!: exI [of _ "s - 1"])
  qed
  ultimately have "first_run bm hi c = Some s" by (simp add: first_run_Some_iff)
  with s(1) n show ?thesis by blast
qed

lemma mmScan_spec:
  assumes "scan_inv bm (unat count) i idx n" "i \<le> hi" "hi \<le> 8 * length bm" "hi < 2 ^ 31"
  shows "\<exists>x m. mmScan bm hi count i idx n = Done (x, m) \<and>
    (case first_run bm hi (unat count) of
       Some s \<Rightarrow> x = int s \<and> m = uint count + 1
     | None \<Rightarrow> x = -1 \<and> m = 0 \<or> 0 < m \<and> m \<le> uint count)"
  using assms
proof (induction bm hi count i idx n rule: mmScan.induct)
  case (1 bm hi count i idx n)
  let ?c = "unat count"
  show ?case
  proof (cases "i < hi")
    case False
    with "1.prems" have i: "i = hi" by simp
    have "first_run bm hi ?c = None"
      using "1.prems"(1) i by (auto simp: first_run_None_iff is_run_iff scan_inv_def)
    moreover have "idx = -1 \<and> n = 0 \<or> 0 < n \<and> n \<le> int ?c"
      using "1.prems"(1) by (auto simp: scan_inv_def)
    ultimately show ?thesis using False by (subst mmScan.simps) simp
  next
    case True
    with "1.prems"(3) have t: "testBit bm i = Done (bitAt bm i)" by (simp add: testBit_Done)
    show ?thesis
    proof (cases "bitAt bm i")
      case used: True
      have "scan_inv bm ?c (Suc i) (-1) 0" using "1.prems"(1) used by (rule scan_inv_used)
      with "1.IH"(2) [OF True t] used "1.prems" True show ?thesis
        by (subst mmScan.simps) (simp add: t)
    next
      case free: False
      have big: "n \<noteq> 2147483647"
        using "1.prems"(1,2,4) True by (auto simp: scan_inv_def)
      show ?thesis
      proof (cases "n < int ?c")
        case False
        have "\<exists>s. first_run bm hi ?c = Some s \<and> (if idx < 0 then int i else idx) = int s \<and> n = int ?c"
          using "1.prems"(1) free False True by (rule scan_inv_found)
        with True free big show ?thesis
          by (subst mmScan.simps) (auto simp: t Let_def)
      next
        case less: True
        have "scan_inv bm ?c (Suc i) (if idx < 0 then int i else idx) (n + 1)"
          using "1.prems"(1) free less by (rule scan_inv_free_step)
        with "1.IH"(1) [OF True t _ refl big] free less "1.prems" True big show ?thesis
          by (subst mmScan.simps) (simp add: t Let_def)
      qed
    qed
  qed
qed

lemma markFrames_spec:
  "stop \<le> 8 * length bm \<Longrightarrow>
    \<exists>bm'. markFrames i stop bm = Done bm' \<and> length bm' = length bm \<and>
      (\<forall>k. bitAt bm' k \<longleftrightarrow> i \<le> k \<and> k < stop \<or> bitAt bm k)"
proof (induction i stop bm rule: markFrames.induct)
  case (1 i stop bm)
  show ?case
  proof (cases "i < stop")
    case False
    then show ?thesis by (subst markFrames.simps) auto
  next
    case True
    with "1.prems" obtain bm1 where b: "setBit bm i = Done bm1"
      using setBit_ok [of i bm] by auto
    note b' = setBit_Done [OF b]
    with "1.IH" [OF True b] "1.prems" obtain bm' where
      "markFrames (Suc i) stop bm1 = Done bm'" "length bm' = length bm1"
      "\<forall>k. bitAt bm' k \<longleftrightarrow> Suc i \<le> k \<and> k < stop \<or> bitAt bm1 k"
      by auto
    moreover have "i \<le> k \<and> k < stop \<longleftrightarrow> k = i \<or> Suc i \<le> k \<and> k < stop" for k
      using True by auto
    ultimately show ?thesis
      using True b b' by (auto simp: markFrames.simps [of i stop bm])
  qed
qed

section \<open>What an allocation returns\<close>

text \<open>
  The state in which the manager runs: the bitmap covers every frame below
  \<open>highestFrameIdx\<close>, and there are fewer than \<open>2 ^ 31\<close> of them (8 TiB), so the \<^verbatim>\<open>LONG\<close>
  counter of the search cannot overflow. Frame 0 is normally reserved by the firmware.
\<close>

definition wf_phys :: "phys \<Rightarrow> bool" where
  "wf_phys st \<longleftrightarrow> unat (highestFrameIdx st) \<le> 8 * length (bitmap st) \<and>
     unat (highestFrameIdx st) < 2 ^ 31"

definition frame0_reserved :: "phys \<Rightarrow> bool" where
  "frame0_reserved st \<longleftrightarrow> bitAt (bitmap st) 0"

abbreviation firstRun :: "phys \<Rightarrow> usize \<Rightarrow> nat option" where
  "firstRun st count \<equiv> first_run (bitmap st) (unat (highestFrameIdx st)) (unat count)"

text \<open>\<open>allocated st count s bm'\<close>: the state after frames \<open>s, \<dots>, s + count - 1\<close> are taken.\<close>

definition allocated :: "phys \<Rightarrow> usize \<Rightarrow> nat \<Rightarrow> uchar list \<Rightarrow> phys" where
  "allocated st count s bm' = st\<lparr>bitmap := bm', lastIdx := of_nat s,
     memory := zeroRange (PHYS_TO_VIRT st (of_nat s * PAGESIZE)) (count * PAGESIZE) (memory st)\<rparr>"

lemma mmDoAllocFrames_None:
  assumes "wf_phys st" "firstRun st count = None"
  shows "mmDoAllocFrames count st = Done (0, st)"
proof -
  obtain x m where "mmScan (bitmap st) (unat (highestFrameIdx st)) count 0 (-1) 0 = Done (x, m)"
    "x = -1 \<and> m = 0 \<or> 0 < m \<and> m \<le> uint count"
    using mmScan_spec [OF scan_inv_0, of "unat (highestFrameIdx st)" "bitmap st" count] assms
    by (auto simp: wf_phys_def)
  moreover have "(m - 1) mod 2 ^ 64 < uint count" if "0 < m" "m \<le> uint count"
  proof -
    have "0 \<le> m - 1" "m - 1 < 2 ^ 64"
      using that le_less_trans [OF that(2) uint_quad_less] by simp_all
    then have "(m - 1) mod 2 ^ 64 = m - 1" by (rule mod_pos_pos_trivial)
    with that show ?thesis by linarith
  qed
  ultimately show ?thesis by (auto simp: mmDoAllocFrames_def)
qed

lemma mmDoAllocFrames_Some:
  assumes "wf_phys st" "firstRun st count = Some s"
  shows "\<exists>bm'. mmDoAllocFrames count st = Done (of_nat s * PAGESIZE, allocated st count s bm') \<and>
    length bm' = length (bitmap st) \<and>
    (\<forall>k. bitAt bm' k \<longleftrightarrow> s \<le> k \<and> k < s + unat count \<or> bitAt (bitmap st) k)"
proof -
  let ?hi = "unat (highestFrameIdx st)"
  have scan: "mmScan (bitmap st) ?hi count 0 (-1) 0 = Done (int s, uint count + 1)"
    using mmScan_spec [OF scan_inv_0, of ?hi "bitmap st" count] assms by (auto simp: wf_phys_def)
  have s: "s + unat count < ?hi"
    using assms(2) by (simp add: first_run_Some_iff is_run_iff)
  have big: "?hi < 2 ^ 31" "?hi \<le> 8 * length (bitmap st)"
    using assms(1) by (simp_all add: wf_phys_def)
  have stop: "unat (word_of_int (int s) + count) = s + unat count"
    using s big by (simp add: unat_word_ariths unat_of_nat)
  have c: "uint count mod 2 ^ 64 = uint count"
    by simp
  obtain bm' where "markFrames s (s + unat count) (bitmap st) = Done bm'"
    "length bm' = length (bitmap st)"
    "\<forall>k. bitAt bm' k \<longleftrightarrow> s \<le> k \<and> k < s + unat count \<or> bitAt (bitmap st) k"
    using markFrames_spec [of "s + unat count" "bitmap st" s] s big by auto
  with scan stop c show ?thesis
    by (auto simp: mmDoAllocFrames_def allocated_def Let_def)
qed

lemma run_start_address:
  assumes "wf_phys st" "s < unat (highestFrameIdx st)"
  shows "unat (of_nat s * PAGESIZE :: usize) = s * 4096"
  using assms by (simp add: wf_phys_def PAGESIZE_def unat_word_ariths unat_of_nat)

lemma firstRun_pos: "frame0_reserved st \<Longrightarrow> firstRun st count = Some s \<Longrightarrow> 0 < s"
  by (auto simp: frame0_reserved_def first_run_Some_iff is_run_iff intro: gr0I)

lemma run_address_nonzero:
  assumes "wf_phys st" "frame0_reserved st" "firstRun st count = Some s"
  shows "of_nat s * PAGESIZE \<noteq> (0 :: usize)"
proof
  assume "of_nat s * PAGESIZE = (0 :: usize)"
  moreover have "s < unat (highestFrameIdx st)"
    using assms(3) by (simp add: first_run_Some_iff is_run_iff)
  ultimately have "s * 4096 = 0" using run_start_address [OF assms(1), of s] by simp
  with firstRun_pos [OF assms(2,3)] show False by simp
qed

definition accounted :: "usize \<Rightarrow> phys \<Rightarrow> phys" where
  "accounted count st = st\<lparr>framesUsed := framesUsed st + count, framesFree := framesFree st - count\<rparr>"

lemma accounted_simps [simp]:
  "bitmap (accounted count st) = bitmap st"
  "highestFrameIdx (accounted count st) = highestFrameIdx st"
  "memory (accounted count st) = memory st"
  "kernelBase (accounted count st) = kernelBase st"
  "cr3 (accounted count st) = cr3 st"
  "tlb (accounted count st) = tlb st"
  "framesFree (accounted count st) = framesFree st - count"
  "framesUsed (accounted count st) = framesUsed st + count"
  "wf_phys (accounted count st) = wf_phys st"
  "frame0_reserved (accounted count st) = frame0_reserved st"
  by (simp_all add: accounted_def wf_phys_def frame0_reserved_def)

lemma mmAllocFrame_Some:
  assumes "wf_phys st" "frame0_reserved st" "firstRun st count = Some s"
  shows "\<exists>bm'. mmAllocFrame count st =
      Done (of_nat s * PAGESIZE, allocated (accounted count st) count s bm') \<and>
    length bm' = length (bitmap st) \<and>
    (\<forall>k. bitAt bm' k \<longleftrightarrow> s \<le> k \<and> k < s + unat count \<or> bitAt (bitmap st) k)"
  using mmDoAllocFrames_Some [of "accounted count st" count s] run_address_nonzero [of st count s] assms
  by (auto simp: mmAllocFrame_def Let_def simp flip: accounted_def)

lemma mmAllocFrame_None:
  assumes "wf_phys st" "firstRun st count = None"
  shows "mmAllocFrame count st = Done (0, (accounted count st)\<lparr>lastIdx := 0\<rparr>)"
  using mmDoAllocFrames_None [of "accounted count st" count]
    mmDoAllocFrames_None [of "(accounted count st)\<lparr>lastIdx := 0\<rparr>" count] assms
  by (simp add: mmAllocFrame_def Let_def wf_phys_def flip: accounted_def)

lemma allocated_simps [simp]:
  "bitmap (allocated st count s bm) = bm"
  "highestFrameIdx (allocated st count s bm) = highestFrameIdx st"
  "kernelBase (allocated st count s bm) = kernelBase st"
  "framesFree (allocated st count s bm) = framesFree st"
  "framesUsed (allocated st count s bm) = framesUsed st"
  "cr3 (allocated st count s bm) = cr3 st"
  "tlb (allocated st count s bm) = tlb st"
  "memory (allocated st count s bm) =
     zeroRange (PHYS_TO_VIRT st (of_nat s * PAGESIZE)) (count * PAGESIZE) (memory st)"
  by (simp_all add: allocated_def)

section \<open>Release\<close>

lemma releaseFrames_spec:
  "4096 dvd p \<Longrightarrow> 4096 dvd stop \<Longrightarrow> stop \<le> 8 * length bm * 4096 \<Longrightarrow>
    \<exists>bm'. releaseFrames p stop bm = Done bm' \<and> length bm' = length bm \<and>
      (\<forall>k. bitAt bm' k \<longleftrightarrow> \<not> (p div 4096 \<le> k \<and> k < stop div 4096) \<and> bitAt bm k)"
proof (induction p stop bm rule: releaseFrames.induct)
  case (1 p stop bm)
  show ?case
  proof (cases "p < stop")
    case False
    then have "stop div 4096 \<le> p div 4096" by (simp add: div_le_mono)
    with False show ?thesis by (subst releaseFrames.simps) auto
  next
    case True
    from "1.prems" obtain a b where ab: "p = 4096 * a" "stop = 4096 * b" by (auto elim!: dvdE)
    with True "1.prems" have "a < 8 * length bm" by auto
    with ab obtain bm1 where b: "clrBit bm (p div 4096) = Done bm1"
      using clrBit_ok [of a bm] by auto
    note b' = clrBit_Done [OF b]
    with "1.IH" [OF True b] "1.prems" obtain bm' where
      "releaseFrames (p + 4096) stop bm1 = Done bm'" "length bm' = length bm1"
      "\<forall>k. bitAt bm' k \<longleftrightarrow> \<not> ((p + 4096) div 4096 \<le> k \<and> k < stop div 4096) \<and> bitAt bm1 k"
      by auto
    moreover have "a \<le> k \<and> k < b \<longleftrightarrow> k = a \<or> Suc a \<le> k \<and> k < b" for k
      using True ab by auto
    ultimately show ?thesis
      using True b b' ab by (auto simp: releaseFrames.simps [of "4096 * a" "4096 * b" bm])
  qed
qed

lemma mmFreeFrame_spec:
  assumes "page_aligned base" "unat base div 4096 + unat count \<le> 8 * length (bitmap st)"
    "8 * length (bitmap st) < 2 ^ 52"
  shows "\<exists>bm'. mmFreeFrame base count st = Done (st\<lparr>bitmap := bm'\<rparr>) \<and>
    length bm' = length (bitmap st) \<and>
    (\<forall>k. bitAt bm' k \<longleftrightarrow>
       \<not> (unat base div 4096 \<le> k \<and> k < unat base div 4096 + unat count) \<and> bitAt (bitmap st) k)"
proof -
  from assms(1) obtain b where b: "unat base = 4096 * b"
    by (auto simp: page_aligned_dvd elim!: dvdE)
  have "unat base + 4095 < 2 ^ 64" using b assms by simp
  then have up: "unat (ALIGN_UP base PAGESIZE) = 4096 * b"
    using b by (simp add: unat_ALIGN_UP_page)
  then have "ALIGN_UP base PAGESIZE = base" using b by (simp add: word_unat_eq_iff)
  moreover have "unat (base + count * PAGESIZE) = 4096 * (b + unat count)"
  proof -
    have "b + unat count < 2 ^ 52" using b assms by simp
    then have "unat count * 4096 < 2 ^ 64" "4096 * b + unat count * 4096 < 2 ^ 64" by simp_all
    then show ?thesis
      using b by (simp add: PAGESIZE_def unat_plus_small unat_mult_small)
  qed
  ultimately show ?thesis
    using releaseFrames_spec [of "4096 * b" "4096 * (b + unat count)" "bitmap st"] b assms
    by (auto simp: mmFreeFrame_def Let_def)
qed

section \<open>The contract of a frame allocator\<close>

text \<open>
  What the page-table code relies on when it calls \<^verbatim>\<open>mmAllocFrame(1)\<close>: the call returns,
  a nonzero result is a page nobody held, it is zeroed, it lies below \<open>2 ^ 52\<close> (so it fits
  the address field of a table entry), and nothing else in memory changes. \<open>taken st a\<close>
  says that the page at \<open>a\<close> is not available to the allocator, and \<open>spare k st\<close> that the
  next \<open>k\<close> calls will succeed.
\<close>

locale frame_allocator =
  fixes al :: "phys \<Rightarrow> (ulong_ptr \<times> phys) outcome"
    and inv :: "phys \<Rightarrow> bool"
    and taken :: "phys \<Rightarrow> ulong_ptr \<Rightarrow> bool"
    and spare :: "nat \<Rightarrow> phys \<Rightarrow> bool"
  assumes al_returns: "inv st \<Longrightarrow> \<exists>a st'. al st = Done (a, st')"
    and al_inv: "inv st \<Longrightarrow> al st = Done (a, st') \<Longrightarrow> inv st'"
    and al_grows: "inv st \<Longrightarrow> al st = Done (a, st') \<Longrightarrow> taken st b \<Longrightarrow> taken st' b"
    and al_fresh: "inv st \<Longrightarrow> al st = Done (a, st') \<Longrightarrow> a \<noteq> 0 \<Longrightarrow>
      \<not> taken st a \<and> taken st' a \<and> page_aligned a \<and> unat a < 2 ^ 52"
    and al_zeroed: "inv st \<Longrightarrow> al st = Done (a, st') \<Longrightarrow> a \<noteq> 0 \<Longrightarrow>
      x - PHYS_TO_VIRT st a < 4096 \<Longrightarrow> memory st' x = 0"
    and al_memory: "inv st \<Longrightarrow> al st = Done (a, st') \<Longrightarrow>
      a = 0 \<or> \<not> x - PHYS_TO_VIRT st a < 4096 \<Longrightarrow> memory st' x = memory st x"
    and al_machine: "inv st \<Longrightarrow> al st = Done (a, st') \<Longrightarrow>
      kernelBase st' = kernelBase st \<and> cr3 st' = cr3 st \<and> tlb st' = tlb st"
    and inv_memory: "inv (st\<lparr>memory := m\<rparr>) = inv st"
    and taken_memory: "taken (st\<lparr>memory := m\<rparr>) = taken st"
    and inv_tlb: "inv (st\<lparr>tlb := t\<rparr>) = inv st"
    and taken_tlb: "taken (st\<lparr>tlb := t\<rparr>) = taken st"
    and al_spare: "inv st \<Longrightarrow> al st = Done (a, st') \<Longrightarrow> spare (Suc k) st \<Longrightarrow> a \<noteq> 0 \<and> spare k st'"
    and spare_less: "spare (Suc k) st \<Longrightarrow> spare k st"
    and spare_memory: "spare k (st\<lparr>memory := m\<rparr>) = spare k st"
    and spare_tlb: "spare k (st\<lparr>tlb := t\<rparr>) = spare k st"

definition pool_ready :: "phys \<Rightarrow> bool" where
  "pool_ready st \<longleftrightarrow> wf_phys st \<and> frame0_reserved st"

definition frame_taken :: "phys \<Rightarrow> ulong_ptr \<Rightarrow> bool" where
  "frame_taken st a \<longleftrightarrow> bitAt (bitmap st) (unat a div 4096) \<or>
     unat (highestFrameIdx st) \<le> unat a div 4096"

lemma mmAllocFrame_cases:
  assumes "pool_ready st" "mmAllocFrame count st = Done (a, st')"
  obtains (none) "firstRun st count = None" "a = 0" "st' = (accounted count st)\<lparr>lastIdx := 0\<rparr>"
  | (some) s bm' where "firstRun st count = Some s" "a = of_nat s * PAGESIZE" "a \<noteq> 0"
      "st' = allocated (accounted count st) count s bm'" "length bm' = length (bitmap st)"
      "\<And>k. bitAt bm' k \<longleftrightarrow> s \<le> k \<and> k < s + unat count \<or> bitAt (bitmap st) k"
      "s + unat count < unat (highestFrameIdx st)" "unat a = s * 4096"
      "\<And>k. s \<le> k \<Longrightarrow> k \<le> s + unat count \<Longrightarrow> \<not> bitAt (bitmap st) k"
proof (cases "firstRun st count")
  case None
  with assms none show thesis by (simp add: pool_ready_def mmAllocFrame_None)
next
  case (Some s)
  with assms(1) obtain bm' where bm: "mmAllocFrame count st =
      Done (of_nat s * PAGESIZE, allocated (accounted count st) count s bm')"
    "length bm' = length (bitmap st)"
    "\<forall>k. bitAt bm' k \<longleftrightarrow> s \<le> k \<and> k < s + unat count \<or> bitAt (bitmap st) k"
    using mmAllocFrame_Some [of st count s] by (auto simp: pool_ready_def)
  have run: "s + unat count < unat (highestFrameIdx st)"
    "\<And>k. s \<le> k \<Longrightarrow> k \<le> s + unat count \<Longrightarrow> \<not> bitAt (bitmap st) k"
    using Some by (auto simp: first_run_Some_iff is_run_iff)
  show thesis
    using some [OF Some] bm run assms run_address_nonzero [OF _ _ Some]
      run_start_address [of st s] by (auto simp: pool_ready_def)
qed

lemma mmAllocFrame_returns: "pool_ready st \<Longrightarrow> \<exists>a st'. mmAllocFrame count st = Done (a, st')"
  using mmAllocFrame_None [of st count] mmAllocFrame_Some [of st count]
  by (cases "firstRun st count") (auto simp: pool_ready_def)

lemma pool_ready_accounted [simp]:
  "pool_ready ((accounted count st)\<lparr>lastIdx := i\<rparr>) = pool_ready st"
  by (simp add: pool_ready_def wf_phys_def frame0_reserved_def)

lemma pool_ready_allocated:
  "pool_ready st \<Longrightarrow> length bm = length (bitmap st) \<Longrightarrow> bitAt bm 0 \<Longrightarrow>
    pool_ready (allocated (accounted count st) count s bm)"
  by (simp add: pool_ready_def wf_phys_def frame0_reserved_def)

text \<open>Enough for \<open>k\<close> allocations of one frame: a run of \<open>k + 1\<close> free frames.\<close>

definition spare_frames :: "nat \<Rightarrow> phys \<Rightarrow> bool" where
  "spare_frames k st \<longleftrightarrow> k = 0 \<or>
     (\<exists>s < unat (highestFrameIdx st). is_run (bitmap st) (unat (highestFrameIdx st)) k s)"

lemma mmAllocFrame_spare:
  assumes "pool_ready st" "mmAllocFrame 1 st = Done (a, st')" "spare_frames (Suc k) st"
  shows "a \<noteq> 0 \<and> spare_frames k st'"
proof -
  let ?hi = "unat (highestFrameIdx st)"
  obtain s where s: "is_run (bitmap st) ?hi (Suc k) s" using assms(3) by (auto simp: spare_frames_def)
  then have one: "is_run (bitmap st) ?hi 1 s" by (auto simp: is_run_iff)
  from assms(1,2) show ?thesis
  proof (cases rule: mmAllocFrame_cases)
    case none
    with one show ?thesis by (auto simp: first_run_None_iff)
  next
    case (some s0 bm)
    have le: "s0 \<le> s" using some(1) one by (auto simp: first_run_Some_iff not_less [symmetric])
    have "is_run bm ?hi k (if s0 = s then Suc s else s)"
      using s some(6) le by (auto simp: is_run_iff)
    moreover have "(if s0 = s then Suc s else s) < ?hi" using s by (auto simp: is_run_iff)
    ultimately show ?thesis using some(3,4) by (auto simp: spare_frames_def)
  qed
qed

lemma spare_frames_less: "spare_frames (Suc k) st \<Longrightarrow> spare_frames k st"
  by (auto simp: spare_frames_def is_run_iff)

interpretation frames: frame_allocator "mmAllocFrame 1" pool_ready frame_taken spare_frames
proof unfold_locales
  fix st a st' x b m t
  show "pool_ready st \<Longrightarrow> \<exists>a st'. mmAllocFrame 1 st = Done (a, st')"
    by (rule mmAllocFrame_returns)
  show "pool_ready (st\<lparr>memory := m\<rparr>) = pool_ready st"
    "frame_taken (st\<lparr>memory := m\<rparr>) = frame_taken st"
    "pool_ready (st\<lparr>tlb := t\<rparr>) = pool_ready st"
    "frame_taken (st\<lparr>tlb := t\<rparr>) = frame_taken st"
    by (auto simp: pool_ready_def wf_phys_def frame0_reserved_def frame_taken_def)
  fix k
  show "spare_frames (Suc k) st \<Longrightarrow> spare_frames k st" by (rule spare_frames_less)
  show "spare_frames k (st\<lparr>memory := m\<rparr>) = spare_frames k st" "spare_frames k (st\<lparr>tlb := t\<rparr>) = spare_frames k st"
    by (simp_all add: spare_frames_def)
  assume ready: "pool_ready st" and al: "mmAllocFrame 1 st = Done (a, st')"
  show "spare_frames (Suc k) st \<Longrightarrow> a \<noteq> 0 \<and> spare_frames k st'" by (rule mmAllocFrame_spare [OF ready al])
  show "pool_ready st'"
  proof -
    from ready have "bitAt (bitmap st) 0" by (simp add: pool_ready_def frame0_reserved_def)
    with ready al ready show ?thesis
      by (cases rule: mmAllocFrame_cases) (auto intro!: pool_ready_allocated)
  qed
  show "frame_taken st b \<Longrightarrow> frame_taken st' b"
    using ready al by (cases rule: mmAllocFrame_cases) (auto simp: frame_taken_def)
  show "a \<noteq> 0 \<Longrightarrow> \<not> frame_taken st a \<and> frame_taken st' a \<and> page_aligned a \<and> unat a < 2 ^ 52"
  proof -
    from ready have "unat (highestFrameIdx st) < 2 ^ 31" by (simp add: pool_ready_def wf_phys_def)
    with ready al show "a \<noteq> 0 \<Longrightarrow> ?thesis"
      by (cases rule: mmAllocFrame_cases) (auto simp: frame_taken_def page_aligned_dvd)
  qed
  show "a \<noteq> 0 \<Longrightarrow> x - PHYS_TO_VIRT st a < 4096 \<Longrightarrow> memory st' x = 0"
    using ready al by (cases rule: mmAllocFrame_cases)
      (auto simp: zeroRange_def PHYS_TO_VIRT_def PAGESIZE_def)
  show "a = 0 \<or> \<not> x - PHYS_TO_VIRT st a < 4096 \<Longrightarrow> memory st' x = memory st x"
    using ready al by (cases rule: mmAllocFrame_cases)
      (auto simp: zeroRange_def PHYS_TO_VIRT_def PAGESIZE_def)
  show "kernelBase st' = kernelBase st \<and> cr3 st' = cr3 st \<and> tlb st' = tlb st"
    using ready al by (cases rule: mmAllocFrame_cases) auto
qed

section \<open>Properties\<close>

text \<open>
  C2 (first fit, exactly). In a ready state \<^verbatim>\<open>mmAllocFrame\<close> always returns. It returns 0,
  having only touched the counters, when no run of \<open>count + 1\<close> free frames exists below
  \<open>highestFrameIdx\<close>; otherwise it returns the byte address of the lowest such run, marks
  exactly the \<open>count\<close> frames from there as used and clears their memory.
\<close>

theorem mmAllocFrame_first_fit:
  assumes "pool_ready st"
  shows "case first_run (bitmap st) (unat (highestFrameIdx st)) (unat count) of
      None \<Rightarrow> mmAllocFrame count st = Done (0, st\<lparr>framesUsed := framesUsed st + count,
        framesFree := framesFree st - count, lastIdx := 0\<rparr>)
    | Some s \<Rightarrow> \<exists>a st'. mmAllocFrame count st = Done (a, st') \<and> unat a = s * 4096 \<and> a \<noteq> 0 \<and>
        (\<forall>k. bitAt (bitmap st') k = (s \<le> k \<and> k < s + unat count \<or> bitAt (bitmap st) k)) \<and>
        memory st' = zeroRange (PHYS_TO_VIRT st a) (count * 4096) (memory st)"
proof (cases "firstRun st count")
  case None
  with assms show ?thesis by (simp add: pool_ready_def mmAllocFrame_None accounted_def)
next
  case (Some s)
  obtain a st' where al: "mmAllocFrame count st = Done (a, st')"
    using mmAllocFrame_returns [OF assms] by blast
  from assms al show ?thesis
  proof (cases rule: mmAllocFrame_cases)
    case none
    with Some show ?thesis by simp
  next
    case (some t bm')
    with Some al show ?thesis
      by (auto simp: PHYS_TO_VIRT_def PAGESIZE_def intro!: exI [of _ a] exI [of _ st'])
  qed
qed

text \<open>A ten-frame machine whose frames 0 to 2 and 6 are taken: the smallest state with a choice.\<close>

definition demo_phys :: phys where
  "demo_phys = \<lparr>memory = (\<lambda>_. 7), kernelBase = 0xFFFF800000000000, cr3 = 0, tlb = (\<lambda>_. None),
     highestFrameIdx = 10, bitmapSize = 4096, framesUsed = 4, framesFree = 6,
     bitmapFreeStart = 3, lastIdx = 0, bitmap = [0x47, 0xFC], entries = []\<rparr>"

lemma demo_phys_simps [simp]:
  "bitmap demo_phys = [0x47, 0xFC]" "highestFrameIdx demo_phys = 10"
  "framesFree demo_phys = 6" "framesUsed demo_phys = 4" "kernelBase demo_phys = 0xFFFF800000000000"
  by (simp_all add: demo_phys_def)

lemma demo_phys_ready: "pool_ready demo_phys"
  by (simp add: pool_ready_def wf_phys_def frame0_reserved_def bitAt_def)

lemma demo_phys_runs:
  "first_run [0x47, 0xFC] 10 2 = Some 3" "first_run [0x47, 0xFC] 10 3 = None"
  by code_simp+

theorem mmAllocFrame_first_fit_witness:
  "\<exists>a st'. mmAllocFrame 2 demo_phys = Done (a, st') \<and> unat a = 3 * 4096"
  using mmAllocFrame_first_fit [OF demo_phys_ready, of 2] by (auto simp: demo_phys_runs)

text \<open>
  C24 (release undoes an allocation, but not its accounting). In a ready state of less than 2 ^ 52 frames, freeing what \<^verbatim>\<open>mmAllocFrame\<close>
  returned, when that is not 0, restores every bit of the bitmap; \<^verbatim>\<open>framesUsed\<close> and \<^verbatim>\<open>framesFree\<close> keep the
  values the allocation gave them, so the counters drift by \<open>count\<close> with every such pair.
\<close>

theorem mmFreeFrame_undoes_mmAllocFrame:
  assumes "pool_ready st" "length (bitmap st) < 2 ^ 49"
    and "mmAllocFrame count st = Done (a, st')" "a \<noteq> 0"
  shows "\<exists>st''. mmFreeFrame a count st' = Done st'' \<and>
    (\<forall>k. bitAt (bitmap st'') k = bitAt (bitmap st) k) \<and>
    framesFree st'' = framesFree st - count \<and> framesUsed st'' = framesUsed st + count"
  using assms(1,3)
proof (cases rule: mmAllocFrame_cases)
  case none
  with assms(4) show ?thesis by simp
next
  case (some s bm')
  have hi: "unat (highestFrameIdx st) \<le> 8 * length (bitmap st)"
    using assms(1) by (simp add: pool_ready_def wf_phys_def)
  have "page_aligned a" "unat a div 4096 + unat count \<le> 8 * length (bitmap st')"
    "8 * length (bitmap st') < 2 ^ 52"
    using some hi assms(2) by (simp_all add: page_aligned_dvd)
  from mmFreeFrame_spec [OF this] obtain bm'' where bm'':
    "mmFreeFrame a count st' = Done (st'\<lparr>bitmap := bm''\<rparr>)"
    "\<And>k. bitAt bm'' k \<longleftrightarrow> \<not> (s \<le> k \<and> k < s + unat count) \<and> bitAt (bitmap st') k"
    using some by auto
  have "bitAt bm'' k = bitAt (bitmap st) k" for k
    using bm''(2) [of k] some by auto
  with bm''(1) some show ?thesis by auto
qed

lemma demo_alloc_result: "\<exists>a st'. mmAllocFrame 2 demo_phys = Done (a, st') \<and> a \<noteq> 0"
  using mmAllocFrame_Some [of demo_phys 2 3] demo_phys_ready run_address_nonzero [of demo_phys 2 3]
  by (auto simp: pool_ready_def demo_phys_runs)

theorem mmFreeFrame_undoes_mmAllocFrame_witness:
  "\<exists>a st' st''. mmAllocFrame 2 demo_phys = Done (a, st') \<and> mmFreeFrame a 2 st' = Done st'' \<and>
    (\<forall>k. bitAt (bitmap st'') k = bitAt [0x47, 0xFC] k) \<and> framesFree st'' = 4"
proof -
  obtain a st' where al: "mmAllocFrame 2 demo_phys = Done (a, st')" "a \<noteq> 0"
    using demo_alloc_result by blast
  from mmFreeFrame_undoes_mmAllocFrame [OF demo_phys_ready _ al] al(1) show ?thesis by auto
qed

text \<open>
  An exact fit is refused. Frames 3, 4, 5 of the demonstration machine are free, as
  are 7, 8 and 9, yet a request for three frames fails: the search only accepts a run of
  one frame more than was asked for. The failed call still books the three frames as used.
\<close>

theorem mmAllocFrame_refuses_exact_fit:
  "list_all (\<lambda>k. \<not> bitAt (bitmap demo_phys) k) [3, 4, 5, 7, 8, 9] \<and>
   (\<exists>st'. mmAllocFrame 3 demo_phys = Done (0, st') \<and>
      framesFree st' = 3 \<and> framesUsed st' = 7 \<and> bitmap st' = bitmap demo_phys)"
proof -
  have "mmAllocFrame 3 demo_phys = Done (0, (accounted 3 demo_phys)\<lparr>lastIdx := 0\<rparr>)"
    using demo_phys_ready by (intro mmAllocFrame_None) (simp_all add: pool_ready_def demo_phys_runs)
  moreover have "list_all (\<lambda>k. \<not> bitAt (bitmap demo_phys) k) [3, 4, 5, 7, 8, 9]"
    unfolding demo_phys_simps by code_simp
  ultimately show ?thesis by simp
qed

section \<open>The bitmap after initialisation\<close>

definition entry_usable :: "memmap_entry \<Rightarrow> bool" where
  "entry_usable e \<longleftrightarrow> meType e = LIMINE_MEMMAP_USABLE"

text \<open>\<open>entry_has e k\<close>: frame \<open>k\<close> lies inside the entry.\<close>

definition entry_has :: "memmap_entry \<Rightarrow> nat \<Rightarrow> bool" where
  "entry_has e k \<longleftrightarrow> entry_usable e \<and> unat (meBase e) div 4096 \<le> k \<and>
     k < (unat (meBase e) + unat (meLength e)) div 4096"

text \<open>Usable entries are page aligned and end below \<open>2 ^ 52\<close> (the bootloader's contract).\<close>

definition entry_ok :: "memmap_entry \<Rightarrow> bool" where
  "entry_ok e \<longleftrightarrow> \<not> entry_usable e \<or> page_aligned (meBase e) \<and> page_aligned (meLength e) \<and>
     unat (meBase e) + unat (meLength e) < 2 ^ 52"

lemma clearPages_spec:
  "unat base = 4096 * b \<Longrightarrow> q \<le> m \<Longrightarrow> b + m \<le> 8 * length bm \<Longrightarrow> b + m < 2 ^ 40 \<Longrightarrow>
    \<exists>bm'. clearPages base (4096 * m) (4096 * q) bm = Done bm' \<and> length bm' = length bm \<and>
      (\<forall>k. bitAt bm' k \<longleftrightarrow> \<not> (b + q \<le> k \<and> k < b + m) \<and> bitAt bm k)"
proof (induction "m - q" arbitrary: q bm)
  case 0
  then show ?case by (subst clearPages.simps) auto
next
  case (Suc d)
  then have less: "4096 * q < 4096 * m" by simp
  have "unat (base + of_nat (4096 * q)) = 4096 * (b + q)"
  proof -
    have "unat (of_nat (4096 * q) :: usize) = 4096 * q"
      using Suc.prems less by (intro unat_of_nat_quad) simp
    then show ?thesis
      using Suc.prems less by (simp add: unat_plus_small del: of_nat_mult)
  qed
  then have frame: "unat ((base + of_nat (4096 * q)) div PAGESIZE) = b + q"
    by (simp add: PAGESIZE_def unat_div)
  obtain bm1 where b: "clrBit bm (b + q) = Done bm1"
    using clrBit_ok [of "b + q" bm] Suc.prems less by auto
  note b' = clrBit_Done [OF b]
  have "d = m - Suc q" "Suc q \<le> m" using Suc.hyps(2) by auto
  with Suc.hyps(1) [of "Suc q" bm1] Suc.prems b' obtain bm' where
    "clearPages base (4096 * m) (4096 * Suc q) bm1 = Done bm'" "length bm' = length bm1"
    "\<forall>k. bitAt bm' k \<longleftrightarrow> \<not> (b + Suc q \<le> k \<and> k < b + m) \<and> bitAt bm1 k"
    by auto
  moreover have "b + q \<le> k \<and> k < b + m \<longleftrightarrow> k = b + q \<or> b + Suc q \<le> k \<and> k < b + m" for k
    using less by auto
  ultimately show ?case
    using less b b' frame
    by (auto simp: clearPages.simps [of base "4096 * m" "4096 * q" bm] add.commute)
qed

lemma entry_ok_usable:
  assumes "entry_ok e" "entry_usable e"
  obtains b m where "unat (meBase e) = 4096 * b" "unat (meLength e) = 4096 * m" "b + m < 2 ^ 40"
    "\<And>k. entry_has e k \<longleftrightarrow> b \<le> k \<and> k < b + m"
proof -
  from assms obtain b m where "unat (meBase e) = 4096 * b" "unat (meLength e) = 4096 * m"
    by (auto simp: entry_ok_def page_aligned_dvd elim!: dvdE)
  with assms that [of b m] show thesis by (auto simp: entry_ok_def entry_has_def)
qed

lemma populateEntries_spec:
  assumes "list_all entry_ok es"
    "\<forall>e \<in> set es. \<forall>k. entry_has e k \<longrightarrow> k < 8 * length (bitmap st)"
  shows "\<exists>st'. populateEntries es st = Done st' \<and> length (bitmap st') = length (bitmap st) \<and>
    highestFrameIdx st' = highestFrameIdx st \<and>
    (\<forall>k. bitAt (bitmap st') k \<longleftrightarrow> bitAt (bitmap st) k \<and> (\<forall>e \<in> set es. \<not> entry_has e k))"
  using assms
proof (induction es arbitrary: st)
  case Nil
  then show ?case by simp
next
  case (Cons e es)
  show ?case
  proof (cases "entry_usable e")
    case False
    then have "meType e \<noteq> LIMINE_MEMMAP_USABLE" by (simp add: entry_usable_def)
    moreover from False have "\<not> entry_has e k" for k by (simp add: entry_has_def)
    ultimately show ?thesis
      using Cons.IH [of "st\<lparr>framesUsed := framesUsed st + meLength e div PAGESIZE\<rparr>"] Cons.prems
      by simp
  next
    case True
    from Cons.prems(1) have "entry_ok e" by simp
    from this True obtain b m where bm: "unat (meBase e) = 4096 * b" "unat (meLength e) = 4096 * m"
      "b + m < 2 ^ 40" "\<And>k. entry_has e k \<longleftrightarrow> b \<le> k \<and> k < b + m"
      by (rule entry_ok_usable) blast
    define st1 where "st1 = (if bitmapFreeStart st = 0
      then st\<lparr>bitmapFreeStart := meBase e div PAGESIZE\<rparr> else st)"
    have st1: "bitmap st1 = bitmap st" "highestFrameIdx st1 = highestFrameIdx st"
      by (simp_all add: st1_def)
    have "m = 0 \<or> b + m \<le> 8 * length (bitmap st)"
      using Cons.prems(2) bm(4) [of "b + m - 1"] by auto
    then obtain bm' where b': "clearPages (meBase e) (4096 * m) 0 (bitmap st) = Done bm'"
      "length bm' = length (bitmap st)"
      "\<forall>k. bitAt bm' k \<longleftrightarrow> \<not> (b \<le> k \<and> k < b + m) \<and> bitAt (bitmap st) k"
    proof
      assume "m = 0"
      with that show thesis by (simp add: clearPages.simps)
    next
      assume "b + m \<le> 8 * length (bitmap st)"
      with that show thesis
        using clearPages_spec [of "meBase e" b 0 m "bitmap st"] bm by auto
    qed
    from True have "meType e = LIMINE_MEMMAP_USABLE" by (simp add: entry_usable_def)
    moreover from Cons.IH [of "st1\<lparr>bitmap := bm',
        framesFree := framesFree st1 + meLength e div PAGESIZE\<rparr>"] Cons.prems b'(2) st1
    obtain st' where "populateEntries es (st1\<lparr>bitmap := bm',
        framesFree := framesFree st1 + meLength e div PAGESIZE\<rparr>) = Done st'"
      "length (bitmap st') = length (bitmap st)" "highestFrameIdx st' = highestFrameIdx st"
      "\<forall>k. bitAt (bitmap st') k \<longleftrightarrow> bitAt bm' k \<and> (\<forall>e \<in> set es. \<not> entry_has e k)"
      by auto
    ultimately show ?thesis
      using b' bm by (auto simp: Let_def st1 simp flip: st1_def)
  qed
qed

lemma carveBitmap_spec:
  assumes "carveBitmap sz es = Some es'" "list_all entry_ok es" "page_aligned sz"
  shows "list_all entry_ok es' \<and> (\<forall>e' \<in> set es'. \<forall>k. entry_has e' k \<longrightarrow> (\<exists>e \<in> set es. entry_has e k))"
  using assms
proof (induction es arbitrary: es')
  case Nil
  then show ?case by simp
next
  case (Cons e es)
  show ?case
  proof (cases "meType e = LIMINE_MEMMAP_USABLE \<and> sz \<le> meLength e")
    case False
    with Cons.prems(1) obtain es1 where "carveBitmap sz es = Some es1" "es' = e # es1" by auto
    with Cons.IH [of es1] Cons.prems show ?thesis by auto
  next
    case True
    then have le: "unat sz \<le> unat (meLength e)" by (simp add: word_le_nat_alt)
    let ?e = "e\<lparr>meLength := meLength e - sz, meBase := meBase e + sz\<rparr>"
    from Cons.prems(2) True have ok: "page_aligned (meBase e)" "page_aligned (meLength e)"
      "unat (meBase e) + unat (meLength e) < 2 ^ 52"
      by (auto simp: entry_ok_def entry_usable_def)
    with le have "unat (meLength e - sz) = unat (meLength e) - unat sz"
      "unat (meBase e + sz) = unat (meBase e) + unat sz"
      by (simp_all add: unat_sub word_le_nat_alt unat_plus_small)
    with ok le Cons.prems(3) have "entry_ok ?e" "\<And>k. entry_has ?e k \<Longrightarrow> entry_has e k"
      by (auto simp: entry_ok_def entry_has_def entry_usable_def page_aligned_dvd)
    with True Cons.prems show ?thesis by auto
  qed
qed

lemma highestUsable_ge: "h \<le> highestUsable es h"
  by (induction es arbitrary: h) (auto intro: order_trans [OF max.cobounded1])

lemma highestUsable_bound:
  "e \<in> set es \<Longrightarrow> entry_usable e \<Longrightarrow> meBase e + meLength e \<le> highestUsable es h"
proof (induction es arbitrary: h)
  case (Cons x es)
  then show ?case
    by (auto simp: entry_usable_def intro: order_trans [OF max.cobounded2 highestUsable_ge])
qed simp

lemma bitAt_full: "bitAt (replicate n 0xFF) k \<longleftrightarrow> k < 8 * n"
proof -
  have "(0xFF :: uchar) = - 1" by simp
  then have "bit (0xFF :: uchar) (k mod 8)" by (simp only: bit_minus_1_iff) simp
  then show ?thesis by (auto simp: bitAt_def)
qed

text \<open>The values \<^verbatim>\<open>mmInitBitmap\<close> computes from a memory map when its uninitialised local holds \<open>junk\<close>.\<close>

definition frame_count :: "ulong_ptr \<Rightarrow> memmap_entry list \<Rightarrow> usize" where
  "frame_count junk es = highestUsable es junk div PAGESIZE"

definition bitmap_bytes :: "ulong_ptr \<Rightarrow> memmap_entry list \<Rightarrow> usize" where
  "bitmap_bytes junk es = ALIGN_UP (frame_count junk es div 8) PAGESIZE"

lemma entry_has_below:
  assumes "entry_ok e" "entry_usable e" "meBase e + meLength e \<le> h" "entry_has e k"
  shows "k < unat (h div PAGESIZE)"
proof -
  have "unat (meBase e + meLength e) = unat (meBase e) + unat (meLength e)"
    using assms(1,2) by (simp add: entry_ok_def unat_plus_small)
  with assms(3) have "unat (meBase e) + unat (meLength e) \<le> unat h"
    by (simp add: word_le_nat_alt)
  then have "(unat (meBase e) + unat (meLength e)) div 4096 \<le> unat h div 4096"
    by (rule div_le_mono)
  with assms(4) show ?thesis by (simp add: entry_has_def PAGESIZE_def unat_div)
qed

lemma populateEntries_kernelBase: "populateEntries es st = Done st' \<Longrightarrow> kernelBase st' = kernelBase st"
  by (induction es st rule: populateEntries.induct) (auto simp: Let_def split: if_splits)

lemma mmPhysInit_frames:
  assumes ok: "list_all entry_ok es" and carve: "carveBitmap (bitmap_bytes junk es) es = Some es'"
    and cover: "unat (frame_count junk es) \<le> 8 * unat (bitmap_bytes junk es)"
    and small: "unat (frame_count junk es) < 2 ^ 31"
  shows "\<exists>st'. mmPhysInit junk es st = Done st' \<and> wf_phys st' \<and>
    highestFrameIdx st' = frame_count junk es \<and> kernelBase st' = kernelBase st \<and>
    (\<forall>k < unat (frame_count junk es). \<not> bitAt (bitmap st') k \<longleftrightarrow> (\<exists>e \<in> set es'. entry_has e k)) \<and>
    (\<forall>e k. e \<in> set es' \<longrightarrow> entry_has e k \<longrightarrow> k < unat (frame_count junk es) \<and> (\<exists>x \<in> set es. entry_has x k))"
proof -
  let ?sz = "bitmap_bytes junk es"
  let ?st = "st\<lparr>highestFrameIdx := frame_count junk es, bitmapSize := ?sz,
    bitmap := replicate (unat ?sz) 0xFF, entries := es'\<rparr>"
  have "unat (frame_count junk es div 8) + 4095 < 2 ^ 64" using small by (simp add: unat_div)
  then have aligned: "page_aligned ?sz"
    by (simp add: bitmap_bytes_def page_aligned_dvd unat_ALIGN_UP_page)
  note es' = carveBitmap_spec [OF carve ok aligned]
  have below: "k < unat (frame_count junk es)" if "e \<in> set es'" "entry_has e k" for e k
  proof -
    from that es' obtain x where x: "x \<in> set es" "entry_has x k" by blast
    with ok have "entry_ok x" "entry_usable x" by (auto simp: list_all_iff entry_has_def)
    with x show ?thesis
      unfolding frame_count_def by (blast intro: entry_has_below highestUsable_bound)
  qed
  obtain st' where st': "populateEntries es' ?st = Done st'"
    "length (bitmap st') = unat ?sz" "highestFrameIdx st' = frame_count junk es"
    "\<forall>k. bitAt (bitmap st') k \<longleftrightarrow> k < 8 * unat ?sz \<and> (\<forall>e \<in> set es'. \<not> entry_has e k)"
    using populateEntries_spec [of es' ?st] es' below cover by (fastforce simp: bitAt_full)
  moreover have "mmPhysInit junk es st = populateEntries es' ?st"
    using carve by (simp add: mmPhysInit_def mmInitBitmap_def mmAllocBitmap_def mmPopulateBitmap_def
        Let_def frame_count_def bitmap_bytes_def)
  moreover have "wf_phys st'" using st' cover small by (simp add: wf_phys_def)
  moreover have "kernelBase st' = kernelBase st" using populateEntries_kernelBase [OF st'(1)] by simp
  moreover have "\<forall>e k. e \<in> set es' \<longrightarrow> entry_has e k \<longrightarrow> k < unat (frame_count junk es) \<and> (\<exists>x \<in> set es. entry_has x k)"
    using below es' by blast
  moreover have "\<forall>k < unat (frame_count junk es). \<not> bitAt (bitmap st') k \<longleftrightarrow> (\<exists>e \<in> set es'. entry_has e k)"
    using st'(4) cover by auto
  ultimately show ?thesis by auto
qed

text \<open>
  C28 (the bitmap after initialisation). Let \<open>junk\<close> be what the uninitialised local \<^verbatim>\<open>highestAddr\<close> of \<^verbatim>\<open>mmInitBitmap\<close>
  holds; the highest frame is the larger one of the map's and that of \<open>junk\<close>. When the memory map is page aligned, has room for
  the bitmap, the bitmap covers every frame and there are less than 2 ^ 31 of them, \<^verbatim>\<open>mmPhysInit\<close> returns a well-formed state
  in which a frame is free exactly if it lies in a usable entry of the map, the pages given
  to the bitmap itself excepted.
\<close>

theorem mmPhysInit_bitmap:
  assumes ok: "list_all entry_ok es" and carve: "carveBitmap (bitmap_bytes junk es) es = Some es'"
    and cover: "unat (frame_count junk es) \<le> 8 * unat (bitmap_bytes junk es)"
    and small: "unat (frame_count junk es) < 2 ^ 31"
  shows "\<exists>st'. mmPhysInit junk es st = Done st' \<and> wf_phys st' \<and>
    highestFrameIdx st' = frame_count junk es \<and>
    (\<forall>k < unat (frame_count junk es). \<not> bitAt (bitmap st') k \<longleftrightarrow> (\<exists>e \<in> set es'. entry_has e k))"
  using mmPhysInit_frames [OF assms] by blast

definition demo_map :: "memmap_entry list" where
  "demo_map = [\<lparr>meBase = 0, meLength = 0x1000, meType = 1\<rparr>,
               \<lparr>meBase = 0x1000, meLength = 0xF000, meType = 0\<rparr>]"

lemma demo_map_values:
  "frame_count 0 demo_map = 16" "bitmap_bytes 0 demo_map = 4096"
  "carveBitmap 4096 demo_map = Some [\<lparr>meBase = 0, meLength = 0x1000, meType = 1\<rparr>,
     \<lparr>meBase = 0x2000, meLength = 0xE000, meType = 0\<rparr>]"
proof -
  show fc: "frame_count 0 demo_map = 16" by code_simp
  show "bitmap_bytes 0 demo_map = 4096" by code_simp
  show "carveBitmap 4096 demo_map = Some [\<lparr>meBase = 0, meLength = 0x1000, meType = 1\<rparr>,
     \<lparr>meBase = 0x2000, meLength = 0xE000, meType = 0\<rparr>]"
    by (simp add: demo_map_def LIMINE_MEMMAP_USABLE_def)
qed

lemma demo_map_ok: "list_all entry_ok demo_map"
  by (simp add: demo_map_def entry_ok_def entry_usable_def LIMINE_MEMMAP_USABLE_def page_aligned_def)

theorem mmPhysInit_bitmap_witness:
  "\<exists>st'. mmPhysInit 0 demo_map demo_phys = Done st' \<and> bitAt (bitmap st') 1 \<and> \<not> bitAt (bitmap st') 2"
proof -
  let ?es' = "[\<lparr>meBase = 0, meLength = 0x1000, meType = 1\<rparr>,
     \<lparr>meBase = 0x2000, meLength = 0xE000, meType = 0\<rparr>]"
  have carve: "carveBitmap (bitmap_bytes 0 demo_map) demo_map = Some ?es'"
    by (simp only: demo_map_values)
  have cover: "unat (frame_count 0 demo_map) \<le> 8 * unat (bitmap_bytes 0 demo_map)"
    and small: "unat (frame_count 0 demo_map) < 2 ^ 31"
    by (simp_all add: demo_map_values)
  obtain st' where st': "mmPhysInit 0 demo_map demo_phys = Done st'"
    and free: "\<forall>k < unat (frame_count 0 demo_map).
      \<not> bitAt (bitmap st') k \<longleftrightarrow> (\<exists>e \<in> set ?es'. entry_has e k)"
    using mmPhysInit_bitmap [OF demo_map_ok carve cover small, of demo_phys] by blast
  have "unat (frame_count 0 demo_map) = 16" by (simp add: demo_map_values)
  with free [rule_format, of 1] free [rule_format, of 2] st' show ?thesis
    by (simp add: entry_has_def entry_usable_def LIMINE_MEMMAP_USABLE_def)
qed

text \<open>
  The bitmap can be one byte short. \<^verbatim>\<open>bitmapSize\<close> is computed from the quotient
  \<^verbatim>\<open>highestFrameIdx / 8\<close>. When memory ends at frame 32769 the quotient is exactly one page
  and the last frame has no bit: clearing it writes outside the bitmap.
\<close>

theorem mmPhysInit_bitmap_overrun:
  "mmPhysInit 0 [\<lparr>meBase = 0x7FFF000, meLength = 0x2000, meType = 0\<rparr>] st = Fault"
proof -
  have sz: "ALIGN_UP (0x8001 div 8) PAGESIZE = (4096 :: usize)" by code_simp
  show ?thesis
    by (simp add: mmPhysInit_def mmInitBitmap_def mmAllocBitmap_def mmPopulateBitmap_def
        LIMINE_MEMMAP_USABLE_def Let_def PAGESIZE_def clearPages.simps clrBit_def
        sz [unfolded PAGESIZE_def, simplified])
qed

end
