(* ===== verification/Mmu.thy ===== *)
theory Mmu
  imports PhysMem
begin

text \<open>
  Page tables: \<^verbatim>\<open>ntos/platform/amd64/cpu/mmu.c\<close> and the region mapper of
  \<^verbatim>\<open>ntos/mm/page.c\<close>. The table code calls \<^verbatim>\<open>mmAllocFrame(1)\<close> for a new table; here the
  frame source is the argument \<open>al\<close>, the lemmas are proved under the contract
  \<open>frame_allocator\<close> of the physical memory manager, and the properties instantiate it with
  \<open>mmAllocFrame 1\<close>. A \<^verbatim>\<open>MMU_VAS *\<close> is \<open>None\<close> for NULL or \<open>Some\<close> of its \<^verbatim>\<open>cr3\<close> field.
  The reference the code is compared with is the four-level walk the processor does: \<open>translate\<close> is its leaf,
  \<open>effective\<close> the leaf with the rights of all four levels, and \<open>procEntry\<close> what the processor uses, the translation cache included.
\<close>

section \<open>Table entries\<close>

definition PTE_ADDR_MASK :: uquad where "PTE_ADDR_MASK = 0x000FFFFFFFFFF000"
definition PTE_P :: uquad where "PTE_P = 0x1"
definition PTE_RW :: uquad where "PTE_RW = 0x2"
definition PTE_US :: uquad where "PTE_US = 0x4"
definition PTE_PS :: uquad where "PTE_PS = 0x80"
definition PTE_NX :: uquad where "PTE_NX = 0x8000000000000000"

definition PAGE_READONLY :: ushort where "PAGE_READONLY = 0"
definition PAGE_READWRITE :: ushort where "PAGE_READWRITE = 1"
definition PAGE_EXECUTE_READ :: ushort where "PAGE_EXECUTE_READ = 2"
definition PAGE_USER_READONLY :: ushort where "PAGE_USER_READONLY = 3"
definition PAGE_USER_READWRITE :: ushort where "PAGE_USER_READWRITE = 4"
definition PAGE_USER_EXEC_READ :: ushort where "PAGE_USER_EXEC_READ = 5"

lemmas pte_defs = PTE_ADDR_MASK_def PTE_P_def PTE_RW_def PTE_US_def PTE_PS_def PTE_NX_def
lemmas page_prot_defs = PAGE_READONLY_def PAGE_READWRITE_def PAGE_EXECUTE_READ_def
  PAGE_USER_READONLY_def PAGE_USER_READWRITE_def PAGE_USER_EXEC_READ_def

section \<open>Levels\<close>

datatype map_level = MAP_LEVEL_PT | MAP_LEVEL_PD | MAP_LEVEL_PDPT | MAP_LEVEL_PML4 | MAP_LEVEL_MAX

fun level_num :: "map_level \<Rightarrow> nat" where
  "level_num MAP_LEVEL_PT = 0"
| "level_num MAP_LEVEL_PD = 1"
| "level_num MAP_LEVEL_PDPT = 2"
| "level_num MAP_LEVEL_PML4 = 3"
| "level_num MAP_LEVEL_MAX = 4"

text \<open>The enumeration's C order.\<close>

instantiation map_level :: linorder
begin

definition less_eq_map_level :: "map_level \<Rightarrow> map_level \<Rightarrow> bool" where
  "less_eq_map_level a b \<longleftrightarrow> level_num a \<le> level_num b"

definition less_map_level :: "map_level \<Rightarrow> map_level \<Rightarrow> bool" where
  "less_map_level a b \<longleftrightarrow> level_num a < level_num b"

instance
proof
  fix x y z :: map_level
  show "x < y \<longleftrightarrow> x \<le> y \<and> \<not> y \<le> x"
    by (auto simp: less_eq_map_level_def less_map_level_def)
  show "x \<le> x" by (simp add: less_eq_map_level_def)
  show "x \<le> y \<Longrightarrow> y \<le> z \<Longrightarrow> x \<le> z" by (simp add: less_eq_map_level_def)
  show "x \<le> y \<Longrightarrow> y \<le> x \<Longrightarrow> x = y"
    by (cases x; cases y; simp add: less_eq_map_level_def)
  show "x \<le> y \<or> y \<le> x" by (auto simp: less_eq_map_level_def)
qed

end

text \<open>\<^verbatim>\<open>--curLevel\<close>, which the loop only does above the lowest level.\<close>

fun prev_level :: "map_level \<Rightarrow> map_level" where
  "prev_level MAP_LEVEL_MAX = MAP_LEVEL_PML4"
| "prev_level MAP_LEVEL_PML4 = MAP_LEVEL_PDPT"
| "prev_level MAP_LEVEL_PDPT = MAP_LEVEL_PD"
| "prev_level MAP_LEVEL_PD = MAP_LEVEL_PT"
| "prev_level MAP_LEVEL_PT = MAP_LEVEL_PT"

lemma level_num_prev: "level_num (prev_level l) = level_num l - 1"
  by (cases l) auto

section \<open>The code\<close>

fun mmuGetLevelIdx :: "ulong_ptr \<Rightarrow> map_level \<Rightarrow> ushort outcome" where
  "mmuGetLevelIdx virtAddr MAP_LEVEL_PT = Done (ucast (drop_bit 12 virtAddr AND 0x1FF))"
| "mmuGetLevelIdx virtAddr MAP_LEVEL_PD = Done (ucast (drop_bit 21 virtAddr AND 0x1FF))"
| "mmuGetLevelIdx virtAddr MAP_LEVEL_PDPT = Done (ucast (drop_bit 30 virtAddr AND 0x1FF))"
| "mmuGetLevelIdx virtAddr MAP_LEVEL_PML4 = Done (ucast (drop_bit 39 virtAddr AND 0x1FF))"
| "mmuGetLevelIdx virtAddr MAP_LEVEL_MAX = Panic ''bad level in mmuGetLevelIdx()''"

text \<open>Address of entry \<open>idx\<close> of a table of eight-byte entries.\<close>

definition slot :: "ulong_ptr \<Rightarrow> ushort \<Rightarrow> ulong_ptr" where
  "slot table idx = table + 8 * ucast idx"

definition store :: "ulong_ptr \<Rightarrow> uquad \<Rightarrow> phys \<Rightarrow> phys" where
  "store a v st = st\<lparr>memory := (memory st)(a := v)\<rparr>"

function mmuDescend :: "(phys \<Rightarrow> (ulong_ptr \<times> phys) outcome) \<Rightarrow> ulong_ptr \<Rightarrow> map_level \<Rightarrow> bool \<Rightarrow>
    map_level \<Rightarrow> ulong_ptr \<Rightarrow> phys \<Rightarrow> (ulong_ptr \<times> phys) outcome" where
  "mmuDescend al virtAddr level alloc curLevel curTable st =
     (if level < curLevel then
        andthen (mmuGetLevelIdx virtAddr curLevel) (\<lambda>levelIdx.
          let tmpVal = memory st (slot curTable levelIdx) in
          if tmpVal AND PTE_P \<noteq> 0
          then mmuDescend al virtAddr level alloc (prev_level curLevel)
                 (PHYS_TO_VIRT st (tmpVal AND PTE_ADDR_MASK)) st
          else if \<not> alloc then Done (0, st)
          else andthen (al st) (\<lambda>(frame, st1).
            if frame = 0 then Done (0, st1)
            else
              let st2 = store (slot curTable levelIdx) frame st1;
                  st3 = store (slot curTable levelIdx)
                          (memory st2 (slot curTable levelIdx) OR (PTE_P OR PTE_RW OR PTE_US)) st2
              in mmuDescend al virtAddr level alloc (prev_level curLevel)
                   (PHYS_TO_VIRT st3 frame) st3))
      else Done (VIRT_TO_PHYS st curTable, st))"
  by pat_completeness auto
termination
  by (relation "measure (\<lambda>(al, va, level, alloc, cur, t, st). level_num cur)")
     (auto simp: less_map_level_def level_num_prev)

declare mmuDescend.simps [simp del]

definition mmuGetLevelPhys :: "(phys \<Rightarrow> (ulong_ptr \<times> phys) outcome) \<Rightarrow> uquad option \<Rightarrow>
    ulong_ptr \<Rightarrow> map_level \<Rightarrow> bool \<Rightarrow> phys \<Rightarrow> (ulong_ptr \<times> phys) outcome" where
  "mmuGetLevelPhys al vas virtAddr level alloc st =
     (case vas of None \<Rightarrow> Done (0, st)
      | Some root \<Rightarrow>
          if MAP_LEVEL_MAX \<le> level then Done (0, st)
          else mmuDescend al virtAddr level alloc MAP_LEVEL_PML4 (PHYS_TO_VIRT st root) st)"

definition mmuGetTableFlags :: "ushort \<Rightarrow> uquad" where
  "mmuGetTableFlags mapType =
     (let pteFlags = PTE_P OR PTE_NX in
      if mapType = PAGE_READONLY then pteFlags
      else if mapType = PAGE_READWRITE then pteFlags OR PTE_RW
      else if mapType = PAGE_EXECUTE_READ then pteFlags AND NOT PTE_NX
      else if mapType = PAGE_USER_READONLY then pteFlags OR PTE_US
      else if mapType = PAGE_USER_READWRITE then pteFlags OR (PTE_RW OR PTE_US)
      else if mapType = PAGE_USER_EXEC_READ then (pteFlags AND NOT PTE_NX) OR PTE_US
      else pteFlags)"

text \<open>\<^verbatim>\<open>invlpg\<close> drops the cached entry of the page.\<close>

definition mmuTlbFlush :: "ulong_ptr \<Rightarrow> phys \<Rightarrow> phys" where
  "mmuTlbFlush vaddr st = st\<lparr>tlb := (tlb st)(ALIGN_DOWN vaddr PAGESIZE := None)\<rparr>"

definition mmuMapSingle :: "(phys \<Rightarrow> (ulong_ptr \<times> phys) outcome) \<Rightarrow> uquad option \<Rightarrow>
    ulong_ptr \<Rightarrow> ulong_ptr \<Rightarrow> ushort \<Rightarrow> phys \<Rightarrow> (ntstatus \<times> phys) outcome" where
  "mmuMapSingle al vas vBase pBase mFlags st =
     (if vas = None then Done (STATUS_INVALID_HANDLE, st)
      else
        let v = ALIGN_DOWN vBase PAGESIZE; p = ALIGN_DOWN pBase PAGESIZE in
        andthen (mmuGetLevelPhys al vas v MAP_LEVEL_PT True st) (\<lambda>(ptePhys, st1).
          if ptePhys = 0 then Done (STATUS_NOT_MAPPED, st1)
          else andthen (mmuGetLevelIdx v MAP_LEVEL_PT) (\<lambda>pteIdx.
            let st2 = store (slot (PHYS_TO_VIRT st1 ptePhys) pteIdx)
                        (p OR mmuGetTableFlags mFlags) st1
            in Done (STATUS_SUCCESS, mmuTlbFlush v st2))))"

definition mmuUnmapSingle :: "(phys \<Rightarrow> (ulong_ptr \<times> phys) outcome) \<Rightarrow> uquad option \<Rightarrow>
    ulong_ptr \<Rightarrow> phys \<Rightarrow> (ntstatus \<times> phys) outcome" where
  "mmuUnmapSingle al vas vBase st =
     (if vas = None then Done (STATUS_INVALID_HANDLE, st)
      else
        let v = ALIGN_DOWN vBase PAGESIZE in
        andthen (mmuGetLevelPhys al vas v MAP_LEVEL_PT False st) (\<lambda>(ptePhys, st1).
          if ptePhys = 0 then Done (STATUS_SUCCESS, st1)
          else andthen (mmuGetLevelIdx v MAP_LEVEL_PT) (\<lambda>pteIdx.
            let st2 = store (slot (PHYS_TO_VIRT st1 ptePhys) pteIdx) 0 st1
            in Done (STATUS_SUCCESS, mmuTlbFlush v st2))))"

text \<open>Moving to CR3 drops every cached translation (no entry of this kernel is global).\<close>

definition mmuWriteVas :: "uquad \<Rightarrow> phys \<Rightarrow> ntstatus \<times> phys" where
  "mmuWriteVas vas st = (STATUS_SUCCESS, st\<lparr>cr3 := vas, tlb := (\<lambda>_. None)\<rparr>)"

definition mmuReadVas :: "phys \<Rightarrow> ntstatus \<times> uquad" where
  "mmuReadVas st = (STATUS_SUCCESS, cr3 st)"

definition mmGetCurrentVas :: "phys \<Rightarrow> uquad" where
  "mmGetCurrentVas st = snd (mmuReadVas st)"

fun copyRoot :: "ulong_ptr \<Rightarrow> ulong_ptr \<Rightarrow> nat \<Rightarrow> phys \<Rightarrow> phys" where
  "copyRoot vBase vBaseSrc 0 st = st"
| "copyRoot vBase vBaseSrc (Suc n) st =
     (let st1 = copyRoot vBase vBaseSrc n st in
      store (slot vBase (of_nat n)) (if n < 256 then 0 else memory st1 (slot vBaseSrc (of_nat n))) st1)"

text \<open>The new address space's \<^verbatim>\<open>cr3\<close> is the second component; it is set on success only.\<close>

definition mmuCreateVas :: "(phys \<Rightarrow> (ulong_ptr \<times> phys) outcome) \<Rightarrow> phys \<Rightarrow>
    (ntstatus \<times> uquad option \<times> phys) outcome" where
  "mmuCreateVas al st =
     (let vBaseSrc = PHYS_TO_VIRT st (snd (mmuReadVas st) AND PTE_ADDR_MASK) in
      andthen (al st) (\<lambda>(pBase, st1).
        if pBase = 0 then Done (STATUS_NO_MEMORY, None, st1)
        else Done (STATUS_SUCCESS, Some pBase, copyRoot (PHYS_TO_VIRT st1 pBase) vBaseSrc 512 st1)))"

text \<open>
  \<^verbatim>\<open>mmFreePages\<close> computes the physical address from its own uninitialised local \<^verbatim>\<open>pBase\<close>
  and not from \<^verbatim>\<open>base\<close>: the stack's content is the argument \<open>junk\<close>.
\<close>

definition mmAllocPage :: "usize \<Rightarrow> phys \<Rightarrow> (ulong_ptr \<times> phys) outcome" where
  "mmAllocPage count st =
     andthen (mmAllocFrame count st) (\<lambda>(pBase, st1).
       if pBase = 0 then Done (0, st1) else Done (PHYS_TO_VIRT st1 pBase, st1))"

definition mmFreePages :: "ulong_ptr \<Rightarrow> ulong_ptr \<Rightarrow> usize \<Rightarrow> phys \<Rightarrow> phys outcome" where
  "mmFreePages junk base count st =
     (if base = 0 then Done st else mmFreeFrame (VIRT_TO_PHYS st junk) count st)"

record MM_REGION =
  rgPBase :: ulong_ptr
  rgVBase :: ulong_ptr
  rgByteCount :: usize

function mapPages :: "(phys \<Rightarrow> (ulong_ptr \<times> phys) outcome) \<Rightarrow> uquad option \<Rightarrow> ulong_ptr \<Rightarrow>
    ulong_ptr \<Rightarrow> ushort \<Rightarrow> nat \<Rightarrow> nat \<Rightarrow> phys \<Rightarrow> (bool \<times> phys) outcome" where
  "mapPages al vas vBase pBase prot off byteCount st =
     (if off < byteCount then
        andthen (mmuMapSingle al vas (vBase + of_nat off) (pBase + of_nat off) prot st)
          (\<lambda>(status, st1).
            if status \<noteq> STATUS_SUCCESS then Done (False, st1)
            else mapPages al vas vBase pBase prot (off + 4096) byteCount st1)
      else Done (True, st))"
  by pat_completeness auto
termination
  by (relation "measure (\<lambda>(al, vas, v, p, prot, off, n, st). n - off)") auto

declare mapPages.simps [simp del]

text \<open>
  Returns the virtual base (0 for NULL) and the region with its fields aligned, as the
  code leaves it in the caller's structure.
\<close>

definition mmMapPages :: "(phys \<Rightarrow> (ulong_ptr \<times> phys) outcome) \<Rightarrow> uquad option \<Rightarrow>
    MM_REGION option \<Rightarrow> ushort \<Rightarrow> phys \<Rightarrow> (ulong_ptr \<times> MM_REGION option \<times> phys) outcome" where
  "mmMapPages al vas region prot st =
     (case region of None \<Rightarrow> Done (0, None, st)
      | Some r \<Rightarrow>
          let r' = \<lparr>rgPBase = ALIGN_DOWN (rgPBase r) PAGESIZE,
                    rgVBase = ALIGN_DOWN (rgVBase r) PAGESIZE,
                    rgByteCount = ALIGN_UP (rgByteCount r) PAGESIZE\<rparr>
          in andthen (mapPages al vas (rgVBase r') (rgPBase r') prot 0 (unat (rgByteCount r')) st)
               (\<lambda>(ok, st1). Done (if ok then rgVBase r' else 0, Some r', st1)))"

section \<open>The processor's walk\<close>

text \<open>
  Depth 0 is the root table, depth 3 the page table. \<open>pfx d va\<close> is the part of a 48-bit
  address that the walk has consumed at depth \<open>d\<close>; \<open>hwIdx d va\<close> the index it uses there.
  An entry leads to a lower table when it is present and does not map a large page.
\<close>

definition pfx :: "nat \<Rightarrow> ulong_ptr \<Rightarrow> nat" where
  "pfx d va = (unat va mod 2 ^ 48) div 2 ^ (48 - 9 * d)"

definition hwIdx :: "nat \<Rightarrow> ulong_ptr \<Rightarrow> nat" where
  "hwIdx d va = unat va div 2 ^ (39 - 9 * d) mod 512"

definition entryAt :: "phys \<Rightarrow> uquad \<Rightarrow> nat \<Rightarrow> uquad" where
  "entryAt st t i = memory st (t + kernelBase st + 8 * of_nat i)"

fun tableAt :: "phys \<Rightarrow> uquad \<Rightarrow> ulong_ptr \<Rightarrow> nat \<Rightarrow> uquad option" where
  "tableAt st root va 0 = Some root"
| "tableAt st root va (Suc d) =
     (case tableAt st root va d of None \<Rightarrow> None
      | Some t \<Rightarrow>
          let e = entryAt st t (hwIdx d va) in
          if e AND PTE_P \<noteq> 0 \<and> e AND PTE_PS = 0 then Some (e AND PTE_ADDR_MASK) else None)"

text \<open>The leaf entry of the walk, when every level is present: where the address leads, not yet who may use it.\<close>

definition translate :: "phys \<Rightarrow> uquad \<Rightarrow> ulong_ptr \<Rightarrow> uquad option" where
  "translate st root va =
     (case tableAt st root va 3 of None \<Rightarrow> None
      | Some t \<Rightarrow> let e = entryAt st t (hwIdx 3 va) in if e AND PTE_P \<noteq> 0 then Some e else None)"

text \<open>
  What the processor makes of the walk. An access needs its right at every level: \<open>limit_by u e\<close> is
  the entry \<open>e\<close> with the rights it has below an entry \<open>u\<close>, writing and user mode only when both allow
  them, execution only when neither forbids it. \<open>effective\<close> is the leaf with the rights of the whole
  path. The translation cache keeps effective entries; a canonical address is looked up there first.
\<close>

definition levelEntry :: "phys \<Rightarrow> uquad \<Rightarrow> ulong_ptr \<Rightarrow> nat \<Rightarrow> uquad" where
  "levelEntry st root va d =
     (case tableAt st root va d of None \<Rightarrow> 0 | Some t \<Rightarrow> entryAt st t (hwIdx d va))"

definition limit_by :: "uquad \<Rightarrow> uquad \<Rightarrow> uquad" where
  "limit_by u e = (e AND NOT (PTE_RW OR PTE_US)) OR (e AND u AND (PTE_RW OR PTE_US)) OR (u AND PTE_NX)"

definition effective :: "phys \<Rightarrow> uquad \<Rightarrow> ulong_ptr \<Rightarrow> uquad option" where
  "effective st root va =
     (case translate st root va of None \<Rightarrow> None
      | Some e \<Rightarrow> Some (limit_by (levelEntry st root va 0) (limit_by (levelEntry st root va 1)
          (limit_by (levelEntry st root va 2) e))))"

definition canonical :: "ulong_ptr \<Rightarrow> bool" where
  "canonical va \<longleftrightarrow> unat va < 2 ^ 47 \<or> 2 ^ 64 - 2 ^ 47 \<le> unat va"

definition procEntry :: "phys \<Rightarrow> uquad \<Rightarrow> ulong_ptr \<Rightarrow> uquad option" where
  "procEntry st root va =
     (if canonical va then
        case tlb st (ALIGN_DOWN va PAGESIZE) of Some e \<Rightarrow> Some e | None \<Rightarrow> effective st root va
      else None)"

text \<open>Whatever the cache holds for the current root is what a walk would find.\<close>

definition tlb_coherent :: "phys \<Rightarrow> uquad \<Rightarrow> bool" where
  "tlb_coherent st root \<longleftrightarrow> (\<forall>va e. canonical va \<longrightarrow> tlb st (ALIGN_DOWN va PAGESIZE) = Some e \<longrightarrow>
     effective st root va = Some e)"

text \<open>
  The present entries above the leaf allow everything, as those that \<^verbatim>\<open>mmuGetLevelPhys\<close> makes do.
\<close>

definition opens :: "uquad \<Rightarrow> bool" where
  "opens u \<longleftrightarrow> u AND (PTE_RW OR PTE_US OR PTE_NX) = PTE_RW OR PTE_US"

definition open_path :: "phys \<Rightarrow> uquad \<Rightarrow> ulong_ptr \<Rightarrow> bool" where
  "open_path st root va \<longleftrightarrow>
     (\<forall>d \<in> {..< 3}. levelEntry st root va d AND PTE_P \<noteq> 0 \<longrightarrow> opens (levelEntry st root va d))"

text \<open>What no operation that maps or unmaps takes away: open paths, and pages missing in the cache.\<close>

definition access_kept :: "phys \<Rightarrow> uquad \<Rightarrow> phys \<Rightarrow> bool" where
  "access_kept st root st' \<longleftrightarrow> (\<forall>va. open_path st root va \<longrightarrow> open_path st' root va) \<and>
     (\<forall>v. tlb st v = None \<longrightarrow> tlb st' v = None)"

lemma access_kept_refl: "access_kept st root st"
  by (simp add: access_kept_def)

lemma access_kept_trans: "access_kept st root st1 \<Longrightarrow> access_kept st1 root st2 \<Longrightarrow> access_kept st root st2"
  by (simp add: access_kept_def)

lemma limit_by_open: "opens u \<Longrightarrow> limit_by u e = e"
proof -
  assume u: "opens u"
  have "u AND (PTE_RW OR PTE_US) = (u AND (PTE_RW OR PTE_US OR PTE_NX)) AND (PTE_RW OR PTE_US)"
    "u AND PTE_NX = (u AND (PTE_RW OR PTE_US OR PTE_NX)) AND PTE_NX"
    by (simp_all add: and.assoc pte_defs)
  then have "u AND (PTE_RW OR PTE_US) = PTE_RW OR PTE_US" "u AND PTE_NX = 0"
    using u by (simp_all add: opens_def pte_defs)
  moreover have "(x AND NOT k) OR (x AND k) = x" for x k :: uquad
    by (simp flip: bit.conj_disj_distrib)
  ultimately show ?thesis by (simp only: limit_by_def and.assoc or.right_neutral)
qed

section \<open>Arithmetic of indices and slots\<close>

lemma unat_and_1FF: "unat (x AND 0x1FF) = unat x mod 512" for x :: uquad
proof -
  have "x AND 0x1FF = take_bit 9 x" by (simp add: take_bit_eq_mask mask_eq_exp_minus_1)
  then show ?thesis by (simp only: unsigned_take_bit_eq) (simp add: take_bit_eq_mod)
qed

lemma unat_index: "unat (ucast (drop_bit s x AND 0x1FF) :: ushort) = unat x div 2 ^ s mod 512"
  for x :: uquad
proof -
  have "unat (drop_bit s x) = unat x div 2 ^ s"
    by (subst unat_drop_bit_eq) (simp add: drop_bit_eq_div)
  then have "unat (drop_bit s x AND 0x1FF) = unat x div 2 ^ s mod 512"
    by (simp only: unat_and_1FF)
  moreover have "unat x div 2 ^ s mod 512 < 2 ^ 16"
    by (rule less_trans [OF mod_less_divisor]) simp_all
  ultimately show ?thesis
    by (simp only: unsigned_ucast_eq) (simp add: take_bit_nat_eq_self)
qed

fun level_at :: "nat \<Rightarrow> map_level" where
  "level_at d = (if d = 0 then MAP_LEVEL_PML4 else if d = 1 then MAP_LEVEL_PDPT
     else if d = 2 then MAP_LEVEL_PD else MAP_LEVEL_PT)"

lemma depth_cases: "d \<le> 3 \<Longrightarrow> d = 0 \<or> d = 1 \<or> d = 2 \<or> d = (3 :: nat)"
  by auto

lemma prev_level_at: "d < 3 \<Longrightarrow> prev_level (level_at d) = level_at (Suc d)"
  using depth_cases [of d] by auto

lemma level_at_gt: "d \<le> 3 \<Longrightarrow> MAP_LEVEL_PT < level_at d \<longleftrightarrow> d < 3"
  using depth_cases [of d] by (auto simp: less_map_level_def)

lemma mmuGetLevelIdx_hw:
  "d \<le> 3 \<Longrightarrow> \<exists>i. mmuGetLevelIdx va (level_at d) = Done i \<and> unat i = hwIdx d va"
  using depth_cases [of d] by (auto simp: hwIdx_def unat_index)

declare level_at.simps [simp del]

lemma hwIdx_less: "hwIdx d va < 512"
  by (simp add: hwIdx_def)

lemma slot_hw:
  "unat i = n \<Longrightarrow> slot (PHYS_TO_VIRT st t) i = t + kernelBase st + 8 * of_nat n"
  by (auto simp: slot_def PHYS_TO_VIRT_def)

lemma pfx_div: "d \<le> 3 \<Longrightarrow> pfx d va = pfx (Suc d) va div 512"
  using depth_cases [of d] by (auto simp: pfx_def simp flip: div_mult2_eq)

lemma bits_below_48:
  "s + 9 \<le> 48 \<Longrightarrow> (n mod 2 ^ 48) div 2 ^ s mod 512 = n div 2 ^ s mod (512 :: nat)"
proof -
  assume "s + 9 \<le> 48"
  then have "take_bit 9 (drop_bit s (take_bit 48 n)) = take_bit 9 (drop_bit s n)"
    by (intro bit_eqI) (auto simp: bit_simps)
  then show ?thesis by (simp add: take_bit_eq_mod drop_bit_eq_div)
qed

lemma pfx_mod: "d \<le> 3 \<Longrightarrow> hwIdx d va = pfx (Suc d) va mod 512"
proof -
  assume "d \<le> 3"
  then have "39 - 9 * d + 9 \<le> 48" "48 - 9 * Suc d = 39 - 9 * d" by simp_all
  then show ?thesis unfolding hwIdx_def pfx_def by (simp only: bits_below_48)
qed

lemma pfx_Suc_eq_iff:
  "d \<le> 3 \<Longrightarrow> pfx (Suc d) va = pfx (Suc d) va' \<longleftrightarrow> pfx d va = pfx d va' \<and> hwIdx d va = hwIdx d va'"
  by (metis div_mult_mod_eq pfx_div pfx_mod)

lemma page_aligned_room: "page_aligned t \<Longrightarrow> unat t \<le> 2 ^ 64 - 4096"
proof -
  assume "page_aligned t"
  then obtain k where "unat t = 4096 * k" by (auto simp: page_aligned_dvd elim!: dvdE)
  with unat_quad_less [of t] show ?thesis by (auto simp del: unat_quad_less)
qed

lemma unat_slot_offset: "i < 512 \<Longrightarrow> unat (8 * of_nat i :: uquad) = 8 * i"
  by (simp add: unat_mult_small unat_of_nat_quad)

lemma unat_slot: "page_aligned t \<Longrightarrow> i < 512 \<Longrightarrow> unat (t + 8 * of_nat i) = unat t + 8 * i"
  using page_aligned_room [of t] by (simp add: unat_plus_small unat_slot_offset)

lemma slot_eq_iff:
  assumes "page_aligned t" "page_aligned t'" "i < 512" "j < 512"
  shows "t + kb + 8 * of_nat i = t' + kb + 8 * of_nat j \<longleftrightarrow> t = t' \<and> i = j"
proof
  assume "t + kb + 8 * of_nat i = t' + kb + 8 * of_nat j"
  then have "t + 8 * of_nat i + kb = t' + 8 * of_nat j + kb" by (simp only: ac_simps)
  then have "t + 8 * of_nat i = t' + 8 * of_nat j" by (simp only: add_right_cancel)
  then have eq: "unat t + 8 * i = unat t' + 8 * j"
    using assms by (metis unat_slot)
  from assms obtain a b where ab: "unat t = 4096 * a" "unat t' = 4096 * b"
    by (auto simp: page_aligned_dvd elim!: dvdE)
  with eq assms have "a = b" by auto
  with eq ab show "t = t' \<and> i = j" by (auto simp: word_unat_eq_iff)
qed auto

lemma slot_in_page:
  assumes "page_aligned t" "page_aligned f" "i < 512"
  shows "t + kb + 8 * of_nat i - (f + kb) < 4096 \<longleftrightarrow> t = f"
proof
  assume less: "t + kb + 8 * of_nat i - (f + kb) < 4096"
  define x where "x = t + 8 * of_nat i"
  have "t + kb + 8 * of_nat i - (f + kb) = x - f" unfolding x_def by (simp only: algebra_simps)
  with less have l: "x - f < 4096" by simp
  have ux: "unat x = unat t + 8 * i" using assms by (simp add: x_def unat_slot)
  from assms obtain a b where ab: "unat t = 4096 * a" "unat f = 4096 * b"
    by (auto simp: page_aligned_dvd elim!: dvdE)
  from l have "unat (x - f) < 4096" by (simp add: word_less_nat_alt)
  moreover have "unat f + 4095 < 2 ^ 64" using page_aligned_room [OF assms(2)] by simp
  ultimately have "unat (f + (x - f)) = unat f + unat (x - f)"
    by (intro unat_plus_small) simp
  then have "unat x = unat f + unat (x - f)" by simp
  with ux ab assms(3) \<open>unat (x - f) < 4096\<close> have "a = b" by auto
  with ab show "t = f" by (simp add: word_unat_eq_iff)
next
  assume "t = f"
  then have "t + kb + 8 * of_nat i - (f + kb) = 8 * of_nat i" by (simp only: add_diff_cancel_left')
  then show "t + kb + 8 * of_nat i - (f + kb) < 4096"
    using assms(3) by (simp add: word_less_nat_alt unat_slot_offset)
qed

lemma masked_aligned: "page_aligned (x AND PTE_ADDR_MASK)"
proof -
  have "PTE_ADDR_MASK AND 4095 = 0" by (simp add: PTE_ADDR_MASK_def)
  then show ?thesis by (simp add: page_aligned_def and.assoc)
qed

lemma new_entry:
  assumes "page_aligned f" "unat f < 2 ^ 52"
  shows "(f OR (PTE_P OR PTE_RW OR PTE_US)) AND PTE_ADDR_MASK = f"
    "(f OR (PTE_P OR PTE_RW OR PTE_US)) AND PTE_P \<noteq> 0"
    "(f OR (PTE_P OR PTE_RW OR PTE_US)) AND PTE_PS = 0"
proof -
  have m: "PTE_ADDR_MASK = mask 52 AND NOT (mask 12)"
    by (simp add: PTE_ADDR_MASK_def mask_eq_exp_minus_1)
  have "take_bit 52 f = f"
    using assms(2) by (simp add: word_unat_eq_iff unsigned_take_bit_eq take_bit_nat_eq_self)
  then have f52: "f AND mask 52 = f" by (simp add: take_bit_eq_mask)
  have "take_bit 12 f = 0"
    using assms(1) by (simp add: page_aligned_def page_mask take_bit_eq_mask)
  with bits_ident [of 12 f] have "f AND NOT (mask 12) = f" by (simp add: and_not_mask_eq)
  with f52 have "f AND PTE_ADDR_MASK = f" by (simp add: m flip: and.assoc)
  moreover have "(PTE_P OR PTE_RW OR PTE_US) AND PTE_ADDR_MASK = 0"
    by (simp add: pte_defs)
  ultimately show "(f OR (PTE_P OR PTE_RW OR PTE_US)) AND PTE_ADDR_MASK = f"
    by (simp add: bit.conj_disj_distrib2)
  have "(PTE_P OR PTE_RW OR PTE_US) AND PTE_P = 1" "PTE_P = 1"
    by (simp_all add: pte_defs)
  then show "(f OR (PTE_P OR PTE_RW OR PTE_US)) AND PTE_P \<noteq> 0"
    by (simp add: bit.conj_disj_distrib2 or_eq_0_iff)
  have "f AND PTE_PS = f AND (4095 AND PTE_PS)" by (simp add: pte_defs)
  also have "\<dots> = (f AND 4095) AND PTE_PS" by (simp only: and.assoc)
  finally have "f AND PTE_PS = 0" using assms(1) by (simp add: page_aligned_def)
  moreover have "(PTE_P OR PTE_RW OR PTE_US) AND PTE_PS = 0" by (simp add: pte_defs)
  ultimately show "(f OR (PTE_P OR PTE_RW OR PTE_US)) AND PTE_PS = 0"
    by (simp add: bit.conj_disj_distrib2)
qed

lemma new_entry_opens:
  assumes "page_aligned f" "unat f < 2 ^ 52"
  shows "opens (f OR (PTE_P OR PTE_RW OR PTE_US))"
proof -
  have "take_bit 52 f = f"
    using assms(2) by (simp add: word_unat_eq_iff unsigned_take_bit_eq take_bit_nat_eq_self)
  then have "f AND PTE_NX = f AND (mask 52 AND PTE_NX)" by (simp add: take_bit_eq_mask flip: and.assoc)
  moreover have "mask 52 AND PTE_NX = 0" by (simp add: PTE_NX_def mask_eq_exp_minus_1)
  ultimately have "f AND PTE_NX = 0" by simp
  moreover have "f AND (PTE_RW OR PTE_US) = (f AND 4095) AND (PTE_RW OR PTE_US)"
    by (simp add: and.assoc pte_defs)
  then have "f AND (PTE_RW OR PTE_US) = 0" using assms(1) by (simp add: page_aligned_def)
  ultimately have "f AND (PTE_RW OR PTE_US OR PTE_NX) = 0"
    by (simp add: bit.conj_disj_distrib or_eq_0_iff)
  moreover have "(PTE_P OR PTE_RW OR PTE_US) AND (PTE_RW OR PTE_US OR PTE_NX) = PTE_RW OR PTE_US"
    by (simp add: pte_defs)
  ultimately show ?thesis by (simp add: opens_def bit.conj_disj_distrib2)
qed

text \<open>A canonical address is given by its low 48 bits.\<close>

lemma canonical_page:
  assumes "canonical w"
  shows "unat w div 4096 = pfx 4 w + (if pfx 4 w < 2 ^ 35 then 0 else 2 ^ 52 - 2 ^ 36)"
proof (cases "unat w < 2 ^ 47")
  case True
  then have "unat w div 4096 < 2 ^ 35" by (simp add: div_less_iff_less_mult)
  with True show ?thesis by (simp add: pfx_def)
next
  case False
  with assms have "2 ^ 48 * (2 ^ 16 - 1) + 2 ^ 47 \<le> unat w" by (simp add: canonical_def)
  then obtain k where k: "unat w = 2 ^ 48 * (2 ^ 16 - 1) + (2 ^ 47 + k)" by (auto dest: le_Suc_ex)
  have less: "2 ^ 47 + k < 2 ^ 48" using unat_quad_less [of w] k by (simp del: unat_quad_less)
  have "unat w mod 2 ^ 48 = (2 ^ 47 + k) mod 2 ^ 48" unfolding k by (rule mod_mult_self4)
  also have "\<dots> = 2 ^ 47 + k" using less by (rule mod_less)
  finally have p: "pfx 4 w = (2 ^ 47 + k) div 4096" by (simp add: pfx_def)
  then have "pfx 4 w = 2 ^ 35 + k div 4096" by simp
  moreover have "unat w div 4096 = 2 ^ 52 - 2 ^ 36 + (2 ^ 35 + k div 4096)" unfolding k by simp
  ultimately show ?thesis by simp
qed

lemma canonical_same_page:
  assumes "canonical va" "canonical vb" "pfx 4 va = pfx 4 vb"
  shows "ALIGN_DOWN va PAGESIZE = ALIGN_DOWN vb PAGESIZE"
proof -
  have "unat (ALIGN_DOWN va PAGESIZE) = unat (ALIGN_DOWN vb PAGESIZE)"
    unfolding unat_ALIGN_DOWN_page canonical_page [OF assms(1)] canonical_page [OF assms(2)] assms(3) ..
  then show ?thesis by (simp only: word_unat_eq_iff)
qed

section \<open>The shape of a page-table tree\<close>

text \<open>
  \<open>pt_inv taken st root\<close>: every table the walk can reach is a page the allocator has given
  out, none is at address 0, no page serves as two tables, and no inner entry maps a large page.
\<close>

definition pt_inv :: "(phys \<Rightarrow> ulong_ptr \<Rightarrow> bool) \<Rightarrow> phys \<Rightarrow> uquad \<Rightarrow> bool" where
  "pt_inv taken st root \<longleftrightarrow>
     page_aligned root \<and>
     (\<forall>va d t. d \<le> 3 \<longrightarrow> tableAt st root va d = Some t \<longrightarrow> taken st t) \<and>
     (\<forall>va va' d d' t. d \<le> 3 \<longrightarrow> d' \<le> 3 \<longrightarrow> tableAt st root va d = Some t \<longrightarrow>
        tableAt st root va' d' = Some t \<longrightarrow> d = d' \<and> pfx d va = pfx d va') \<and>
     (\<forall>va d t. d < 3 \<longrightarrow> tableAt st root va d = Some t \<longrightarrow>
        entryAt st t (hwIdx d va) AND PTE_P \<noteq> 0 \<longrightarrow> entryAt st t (hwIdx d va) AND PTE_PS = 0) \<and>
     (\<forall>va d. d \<le> 3 \<longrightarrow> tableAt st root va d \<noteq> Some 0)"

lemma pt_invD:
  assumes "pt_inv taken st root"
  shows "page_aligned root"
    "d \<le> 3 \<Longrightarrow> tableAt st root va d = Some t \<Longrightarrow> taken st t"
    "d \<le> 3 \<Longrightarrow> d' \<le> 3 \<Longrightarrow> tableAt st root va d = Some t \<Longrightarrow> tableAt st root va' d' = Some t \<Longrightarrow>
      d = d' \<and> pfx d va = pfx d va'"
    "d < 3 \<Longrightarrow> tableAt st root va d = Some t \<Longrightarrow> entryAt st t (hwIdx d va) AND PTE_P \<noteq> 0 \<Longrightarrow>
      entryAt st t (hwIdx d va) AND PTE_PS = 0"
    "d \<le> 3 \<Longrightarrow> tableAt st root va d \<noteq> Some 0"
  using assms unfolding pt_inv_def by blast+

lemma tableAt_aligned: "page_aligned root \<Longrightarrow> tableAt st root va d = Some t \<Longrightarrow> page_aligned t"
  by (induction d arbitrary: t)
     (auto simp: masked_aligned Let_def split: option.splits if_splits)

lemma tableAt_pfx: "pfx d va = pfx d va' \<Longrightarrow> d \<le> 3 \<Longrightarrow> tableAt st root va d = tableAt st root va' d"
proof (induction d)
  case 0
  then show ?case by simp
next
  case (Suc d)
  then have "pfx d va = pfx d va'" "hwIdx d va = hwIdx d va'"
    using pfx_Suc_eq_iff [of d va va'] by auto
  moreover have "tableAt st root va d = tableAt st root va' d"
    using Suc calculation by simp
  ultimately show ?case by (simp split: option.split)
qed

lemma tableAt_None_mono: "tableAt st root va d = None \<Longrightarrow> d \<le> e \<Longrightarrow> tableAt st root va e = None"
proof (induction e)
  case (Suc e)
  then show ?case by (cases "d = Suc e") auto
qed simp

lemma translate_pfx: "pfx 4 va = pfx 4 va' \<Longrightarrow> translate st root va = translate st root va'"
proof -
  assume "pfx 4 va = pfx 4 va'"
  then have "pfx 3 va = pfx 3 va'" "hwIdx 3 va = hwIdx 3 va'"
    using pfx_Suc_eq_iff [of 3 va va'] by simp_all
  moreover from this have "tableAt st root va 3 = tableAt st root va' 3" by (intro tableAt_pfx) simp_all
  ultimately show ?thesis by (simp add: translate_def split: option.split)
qed

lemma levelEntry_absent: "tableAt st root va d = None \<Longrightarrow> levelEntry st root va d = 0"
  by (simp add: levelEntry_def)

text \<open>Above a leaf every level is present; where every present level is open, so is the leaf's right.\<close>

lemma levelEntry_present:
  assumes "translate st root va = Some e" "d < 3"
  shows "\<exists>t. tableAt st root va d = Some t \<and> levelEntry st root va d = entryAt st t (hwIdx d va) \<and>
    levelEntry st root va d AND PTE_P \<noteq> 0"
proof -
  have "tableAt st root va 3 \<noteq> None" using assms(1) by (simp add: translate_def split: option.splits)
  then have "tableAt st root va (Suc d) \<noteq> None"
    using tableAt_None_mono [of st root va "Suc d" 3] assms(2) by fastforce
  moreover from this have "tableAt st root va d \<noteq> None" by (simp split: option.splits)
  ultimately show ?thesis by (auto simp: levelEntry_def Let_def split: if_splits)
qed

lemma open_effective: "open_path st root va \<Longrightarrow> effective st root va = translate st root va"
proof (cases "translate st root va")
  case (Some e)
  assume o: "open_path st root va"
  have "opens (levelEntry st root va d)" if "d < 3" for d
    using levelEntry_present [OF Some that] o that by (auto simp: open_path_def)
  then show ?thesis using Some by (simp add: effective_def limit_by_open)
qed (simp add: effective_def)

text \<open>Two states with the same leaf and the same entries above it give the same rights.\<close>

lemma effective_cong:
  assumes "translate st' root' va = translate st root va"
    and "\<And>e d. translate st root va = Some e \<Longrightarrow> d < 3 \<Longrightarrow> levelEntry st' root' va d = levelEntry st root va d"
  shows "effective st' root' va = effective st root va"
  using assms(1) assms(2) [of _ 0] assms(2) [of _ 1] assms(2) [of _ 2]
  by (auto simp: effective_def split: option.split)

lemma procEntry_effective: "canonical va \<Longrightarrow> tlb st (ALIGN_DOWN va PAGESIZE) = None \<Longrightarrow>
    procEntry st root va = effective st root va"
  by (simp add: procEntry_def)

lemma procEntry_coherent: "tlb_coherent st root \<Longrightarrow> canonical va \<Longrightarrow> procEntry st root va = effective st root va"
  by (auto simp: procEntry_def tlb_coherent_def split: option.split)

text \<open>Two walks read the same slot exactly when they agree down to that entry.\<close>

lemma same_slot_iff:
  assumes "pt_inv taken st root" "d \<le> 3" "d' \<le> 3"
    and "tableAt st root va d = Some t" "tableAt st root va' d' = Some t'"
  shows "t + kb + 8 * of_nat (hwIdx d va) = t' + kb + 8 * of_nat (hwIdx d' va') \<longleftrightarrow>
    d = d' \<and> pfx (Suc d) va = pfx (Suc d) va'"
proof -
  have al: "page_aligned t" "page_aligned t'"
    using assms pt_invD(1) tableAt_aligned by blast+
  have tt: "t = t' \<longleftrightarrow> d = d' \<and> pfx d va = pfx d va'"
  proof
    assume "t = t'"
    with assms(5) show "d = d' \<and> pfx d va = pfx d va'"
      by (intro pt_invD(3) [OF assms(1-4)]) simp
  next
    assume h: "d = d' \<and> pfx d va = pfx d va'"
    with assms(2) have "tableAt st root va d = tableAt st root va' d" by (intro tableAt_pfx) auto
    with h assms(4,5) show "t = t'" by simp
  qed
  have "t + kb + 8 * of_nat (hwIdx d va) = t' + kb + 8 * of_nat (hwIdx d' va') \<longleftrightarrow>
      t = t' \<and> hwIdx d va = hwIdx d' va'"
    by (rule slot_eq_iff [OF al hwIdx_less hwIdx_less])
  then show ?thesis
    unfolding tt pfx_Suc_eq_iff [OF assms(2)] by blast
qed

text \<open>
  A state in which only a page outside the tree differs has the same walks. This covers an
  allocation, which clears a page no table uses.
\<close>

lemma tableAt_cong:
  assumes inv: "pt_inv taken st root" and kb: "kernelBase st' = kernelBase st"
    and same: "\<And>t i. taken st t \<Longrightarrow> page_aligned t \<Longrightarrow> i < 512 \<Longrightarrow> entryAt st' t i = entryAt st t i"
  shows "d \<le> 3 \<Longrightarrow> tableAt st' root va d = tableAt st root va d"
proof (induction d)
  case 0
  then show ?case by simp
next
  case (Suc d)
  then have IH: "tableAt st' root va d = tableAt st root va d" by simp
  show ?case
  proof (cases "tableAt st root va d")
    case None
    with IH show ?thesis by simp
  next
    case (Some t)
    with Suc.prems inv have "taken st t" by (intro pt_invD(2) [OF inv, of d va]) auto
    moreover have "page_aligned t" using tableAt_aligned [OF pt_invD(1) [OF inv] Some] .
    ultimately have "entryAt st' t (hwIdx d va) = entryAt st t (hwIdx d va)"
      by (intro same hwIdx_less)
    with Some IH show ?thesis by simp
  qed
qed

lemma translate_cong:
  assumes "pt_inv taken st root" "kernelBase st' = kernelBase st"
    "\<And>t i. taken st t \<Longrightarrow> page_aligned t \<Longrightarrow> i < 512 \<Longrightarrow> entryAt st' t i = entryAt st t i"
  shows "translate st' root va = translate st root va"
  using tableAt_cong [OF assms, of 3 va] assms(3) [OF pt_invD(2) [OF assms(1), of 3 va]
      tableAt_aligned [OF pt_invD(1) [OF assms(1)]] hwIdx_less]
  by (auto simp: translate_def Let_def split: option.splits)

lemma levelEntry_cong:
  assumes inv: "pt_inv taken st root" and kb: "kernelBase st' = kernelBase st"
    and same: "\<And>t i. taken st t \<Longrightarrow> page_aligned t \<Longrightarrow> i < 512 \<Longrightarrow> entryAt st' t i = entryAt st t i"
    and d: "d \<le> 3"
  shows "levelEntry st' root va d = levelEntry st root va d"
proof -
  have w: "tableAt st' root va d = tableAt st root va d" using inv kb same d by (rule tableAt_cong)
  show ?thesis
    using same [OF pt_invD(2) [OF inv d] tableAt_aligned [OF pt_invD(1) [OF inv]] hwIdx_less]
    by (simp add: levelEntry_def w split: option.split)
qed

lemma pt_inv_cong:
  assumes inv: "pt_inv taken st root" and kb: "kernelBase st' = kernelBase st"
    and same: "\<And>t i. taken st t \<Longrightarrow> page_aligned t \<Longrightarrow> i < 512 \<Longrightarrow> entryAt st' t i = entryAt st t i"
    and grows: "\<And>t. taken st t \<Longrightarrow> taken st' t"
  shows "pt_inv taken st' root"
  unfolding pt_inv_def
proof (intro conjI allI impI)
  have walk: "tableAt st' root va e = tableAt st root va e" if "e \<le> 3" for va e
    using inv kb same that by (rule tableAt_cong)
  show "page_aligned root" by (rule pt_invD(1) [OF inv])
  show "taken st' x" if "e \<le> 3" "tableAt st' root va' e = Some x" for va' e x
    using that pt_invD(2) [OF inv, of e va' x] grows by (simp add: walk)
  show "tableAt st' root va' e \<noteq> Some 0" if "e \<le> 3" for va' e
    using pt_invD(5) [OF inv that] by (simp add: walk that)
  show "entryAt st' x (hwIdx e va') AND PTE_PS = 0"
    if "e < 3" "tableAt st' root va' e = Some x" "entryAt st' x (hwIdx e va') AND PTE_P \<noteq> 0" for va' e x
  proof -
    have x: "tableAt st root va' e = Some x" using that by (simp add: walk)
    with that(1) have "entryAt st' x (hwIdx e va') = entryAt st x (hwIdx e va')"
      using pt_invD(2) [OF inv, of e va' x] tableAt_aligned [OF pt_invD(1) [OF inv] x]
      by (intro same hwIdx_less) auto
    with that x pt_invD(4) [OF inv, of e va' x] show ?thesis by simp
  qed
  fix va1 va2 d1 d2 x
  assume "d1 \<le> 3" "d2 \<le> 3" "tableAt st' root va1 d1 = Some x" "tableAt st' root va2 d2 = Some x"
  then show "d1 = d2" "pfx d1 va1 = pfx d1 va2"
    using pt_invD(3) [OF inv, of d1 d2 va1 x va2] by (auto simp: walk)
qed

lemma entryAt_store:
  "entryAt (store a v st) t i = (if t + kernelBase st + 8 * of_nat i = a then v else entryAt st t i)"
  by (simp add: entryAt_def store_def)

lemma store_simps [simp]:
  "kernelBase (store a v st) = kernelBase st" "cr3 (store a v st) = cr3 st"
  "tlb (store a v st) = tlb st" "memory (store a v st) = (memory st)(a := v)"
  by (simp_all add: store_def)

lemma mmuTlbFlush_simps [simp]:
  "kernelBase (mmuTlbFlush a st) = kernelBase st" "memory (mmuTlbFlush a st) = memory st"
  "cr3 (mmuTlbFlush a st) = cr3 st"
  by (simp_all add: mmuTlbFlush_def)

text \<open>The walks read memory and the base of the direct map only.\<close>

lemma same_walks:
  assumes "memory st' = memory st" "kernelBase st' = kernelBase st"
  shows "entryAt st' t i = entryAt st t i" "tableAt st' root va d = tableAt st root va d"
    "translate st' root va = translate st root va" "levelEntry st' root va e = levelEntry st root va e"
    "effective st' root va = effective st root va" "open_path st' root va = open_path st root va"
    "taken st' = taken st \<Longrightarrow> pt_inv taken st' root = pt_inv taken st root"
proof -
  show e: "entryAt st' t i = entryAt st t i" for t i by (simp add: entryAt_def assms)
  show w: "tableAt st' root va d = tableAt st root va d" for va d
    by (induction d) (simp_all add: e split: option.split)
  show t: "translate st' root va = translate st root va" by (simp add: translate_def w e split: option.split)
  show l: "levelEntry st' root va e = levelEntry st root va e" for e by (simp add: levelEntry_def w e split: option.split)
  show "effective st' root va = effective st root va" by (simp add: effective_def t l split: option.split)
  show "open_path st' root va = open_path st root va" by (simp add: open_path_def l)
  show "pt_inv taken st' root = pt_inv taken st root" if "taken st' = taken st" by (simp add: pt_inv_def w e that)
qed

lemmas flush_walks [simp] = same_walks(1-6) [OF mmuTlbFlush_simps(2,1)]

section \<open>Linking a fresh table\<close>

text \<open>
  \<open>f\<close> is an aligned, zeroed page that is no table of the tree, and the entry of \<open>t\<close> that
  the walk of \<open>va\<close> uses at depth \<open>d\<close> is not present.
\<close>

definition linkable :: "(phys \<Rightarrow> ulong_ptr \<Rightarrow> bool) \<Rightarrow> phys \<Rightarrow> uquad \<Rightarrow> ulong_ptr \<Rightarrow> nat \<Rightarrow> uquad \<Rightarrow> uquad \<Rightarrow> bool" where
  "linkable taken st root va d t f \<longleftrightarrow>
     pt_inv taken st root \<and> d < 3 \<and> tableAt st root va d = Some t \<and>
     entryAt st t (hwIdx d va) AND PTE_P = 0 \<and>
     page_aligned f \<and> unat f < 2 ^ 52 \<and> taken st f \<and> f \<noteq> 0 \<and>
     (\<forall>va' d'. d' \<le> 3 \<longrightarrow> tableAt st root va' d' \<noteq> Some f) \<and>
     (\<forall>i < 512. entryAt st f i = 0)"

definition link_table :: "uquad \<Rightarrow> nat \<Rightarrow> uquad \<Rightarrow> phys \<Rightarrow> phys" where
  "link_table t i f st = store (t + kernelBase st + 8 * of_nat i) (f OR (PTE_P OR PTE_RW OR PTE_US)) st"

lemma linkableD:
  assumes "linkable taken st root va d t f"
  shows "pt_inv taken st root" "d < 3" "d \<le> 3" "tableAt st root va d = Some t"
    "entryAt st t (hwIdx d va) AND PTE_P = 0" "page_aligned f" "unat f < 2 ^ 52" "taken st f"
    "d' \<le> 3 \<Longrightarrow> tableAt st root va' d' \<noteq> Some f" "i < 512 \<Longrightarrow> entryAt st f i = 0" "f \<noteq> 0"
  using assms unfolding linkable_def by auto

lemma entryAt_link:
  assumes lk: "linkable taken st root va d t f" and "e \<le> 3" "tableAt st root va' e = Some t'"
  shows "entryAt (link_table t (hwIdx d va) f st) t' (hwIdx e va') =
    (if e = d \<and> pfx (Suc e) va' = pfx (Suc e) va then f OR (PTE_P OR PTE_RW OR PTE_US)
     else entryAt st t' (hwIdx e va'))"
  using same_slot_iff [OF linkableD(1) [OF lk] assms(2) linkableD(3) [OF lk] assms(3)
      linkableD(4) [OF lk], of "kernelBase st"]
  by (simp add: link_table_def entryAt_store)

lemma entryAt_link_fresh:
  assumes lk: "linkable taken st root va d t f" and "i < 512"
  shows "entryAt (link_table t (hwIdx d va) f st) f i = 0"
proof -
  have "f \<noteq> t" using linkableD(3,4,9) [OF lk] by blast
  then have "f + kernelBase st + 8 * of_nat i \<noteq> t + kernelBase st + 8 * of_nat (hwIdx d va)"
    using slot_eq_iff [OF linkableD(6) [OF lk] tableAt_aligned
        [OF pt_invD(1) [OF linkableD(1) [OF lk]] linkableD(4) [OF lk]] assms(2) hwIdx_less,
        of "kernelBase st"] by blast
  then show ?thesis using linkableD(10) [OF lk assms(2)] by (simp add: link_table_def entryAt_store)
qed

text \<open>The walk after linking: the new table appears below the entry, nothing else changes.\<close>

lemma tableAt_link:
  assumes lk: "linkable taken st root va d t f"
  shows "e \<le> 3 \<Longrightarrow> tableAt (link_table t (hwIdx d va) f st) root va' e =
    (if e = Suc d \<and> pfx (Suc d) va' = pfx (Suc d) va then Some f else tableAt st root va' e)"
proof (induction e)
  case 0
  then show ?case by simp
next
  case (Suc e)
  let ?st = "link_table t (hwIdx d va) f st"
  show ?case
  proof (cases "e = Suc d \<and> pfx (Suc d) va' = pfx (Suc d) va")
    case True
    with Suc have "tableAt ?st root va' e = Some f" by simp
    then have "tableAt ?st root va' (Suc e) = None"
      using entryAt_link_fresh [OF lk hwIdx_less] by simp
    moreover have "tableAt st root va' e = None"
    proof -
      have "tableAt st root va' d = Some t"
        using True linkableD(3,4) [OF lk] tableAt_pfx [of d va' va st root]
          pfx_Suc_eq_iff [of d va' va] by auto
      moreover have "hwIdx d va' = hwIdx d va"
        using True linkableD(3) [OF lk] pfx_Suc_eq_iff [of d va' va] by auto
      ultimately show ?thesis using True linkableD(5) [OF lk] by simp
    qed
    ultimately show ?thesis using True by simp
  next
    case False
    with Suc have IH: "tableAt ?st root va' e = tableAt st root va' e" by auto
    show ?thesis
    proof (cases "tableAt st root va' e")
      case None
      have "\<not> (e = d \<and> pfx (Suc d) va' = pfx (Suc d) va)"
        using None linkableD(3,4) [OF lk] tableAt_pfx [of d va' va st root]
          pfx_Suc_eq_iff [of d va' va] by auto
      with None IH show ?thesis by simp
    next
      case (Some t')
      with Suc.prems entryAt_link [OF lk _ Some] IH new_entry [OF linkableD(6,7) [OF lk]]
      show ?thesis by (auto simp: Let_def)
    qed
  qed
qed

lemma translate_link:
  assumes lk: "linkable taken st root va d t f"
  shows "translate (link_table t (hwIdx d va) f st) root va' = translate st root va'"
proof (cases "Suc d = 3 \<and> pfx (Suc d) va' = pfx (Suc d) va")
  case True
  then have d: "d = 2" by simp
  have "tableAt st root va' 2 = Some t" "hwIdx 2 va' = hwIdx 2 va"
    using True linkableD(4) [OF lk] tableAt_pfx [of 2 va' va st root] pfx_Suc_eq_iff [of 2 va' va]
    by (auto simp: d)
  then have "tableAt st root va' 3 = None"
    using linkableD(5) [OF lk] by (simp add: d numeral_3_eq_3 numeral_2_eq_2 Let_def)
  moreover from True tableAt_link [OF lk, of 3 va']
  have "tableAt (link_table t (hwIdx d va) f st) root va' 3 = Some f" by (auto simp: d)
  ultimately show ?thesis
    using entryAt_link_fresh [OF lk hwIdx_less] by (simp add: translate_def)
next
  case False
  with tableAt_link [OF lk, of 3 va']
  have same: "tableAt (link_table t (hwIdx d va) f st) root va' 3 = tableAt st root va' 3" by auto
  show ?thesis
  proof (cases "tableAt st root va' 3")
    case None
    with same show ?thesis by (simp add: translate_def)
  next
    case (Some t')
    with same entryAt_link [OF lk _ Some] linkableD(2) [OF lk] show ?thesis
      by (simp add: translate_def)
  qed
qed

lemma levelEntry_link:
  assumes lk: "linkable taken st root va d t f" and e: "e \<le> 3"
  shows "levelEntry (link_table t (hwIdx d va) f st) root va' e =
    (if e = d \<and> pfx (Suc d) va' = pfx (Suc d) va then f OR (PTE_P OR PTE_RW OR PTE_US)
     else levelEntry st root va' e)"
proof (cases "e = Suc d \<and> pfx (Suc d) va' = pfx (Suc d) va")
  case True
  then have p: "pfx d va' = pfx d va" "hwIdx d va' = hwIdx d va"
    using linkableD(3) [OF lk] pfx_Suc_eq_iff [of d va' va] by auto
  then have "tableAt st root va' d = Some t"
    using linkableD(3,4) [OF lk] tableAt_pfx [of d va' va st root] by simp
  then have "tableAt st root va' e = None" using True p linkableD(5) [OF lk] by simp
  then show ?thesis
    using True tableAt_link [OF lk e, of va'] entryAt_link_fresh [OF lk hwIdx_less]
    by (simp add: levelEntry_def)
next
  case False
  then have w: "tableAt (link_table t (hwIdx d va) f st) root va' e = tableAt st root va' e"
    using tableAt_link [OF lk e, of va'] by auto
  show ?thesis
  proof (cases "tableAt st root va' e")
    case (Some t')
    with w entryAt_link [OF lk e Some] show ?thesis by (auto simp: levelEntry_def)
  next
    case None
    have "\<not> (e = d \<and> pfx (Suc d) va' = pfx (Suc d) va)"
      using None linkableD(3,4) [OF lk] tableAt_pfx [of d va' va st root] pfx_Suc_eq_iff [of d va' va] by auto
    with w None show ?thesis by (auto simp: levelEntry_def)
  qed
qed

lemma effective_link:
  assumes lk: "linkable taken st root va d t f"
  shows "effective (link_table t (hwIdx d va) f st) root va' = effective st root va'"
proof (rule effective_cong [OF translate_link [OF lk]])
  fix e d' assume "translate st root va' = Some e" "d' < (3 :: nat)"
  from levelEntry_present [OF this] obtain t' where t': "tableAt st root va' d' = Some t'"
    "levelEntry st root va' d' = entryAt st t' (hwIdx d' va')" "levelEntry st root va' d' AND PTE_P \<noteq> 0" by blast
  have "\<not> (d' = d \<and> pfx (Suc d) va' = pfx (Suc d) va)"
  proof
    assume h: "d' = d \<and> pfx (Suc d) va' = pfx (Suc d) va"
    then have "pfx d va' = pfx d va" "hwIdx d va' = hwIdx d va"
      using linkableD(3) [OF lk] pfx_Suc_eq_iff [of d va' va] by auto
    with h t' linkableD(3-5) [OF lk] tableAt_pfx [of d va' va st root] show False by auto
  qed
  with \<open>d' < 3\<close> show "levelEntry (link_table t (hwIdx d va) f st) root va' d' = levelEntry st root va' d'"
    by (auto simp: levelEntry_link [OF lk])
qed

lemma open_path_link:
  assumes lk: "linkable taken st root va d t f" and "open_path st root va'"
  shows "open_path (link_table t (hwIdx d va) f st) root va'"
  using assms(2) new_entry_opens [OF linkableD(6,7) [OF lk]]
  by (auto simp: open_path_def levelEntry_link [OF lk])

section \<open>Writing a leaf\<close>

definition set_leaf :: "uquad \<Rightarrow> nat \<Rightarrow> uquad \<Rightarrow> phys \<Rightarrow> phys" where
  "set_leaf t i e st = store (t + kernelBase st + 8 * of_nat i) e st"

lemma entryAt_leaf:
  assumes "pt_inv taken st root" "tableAt st root va 3 = Some t" "e \<le> 3"
    "tableAt st root va' e = Some t'"
  shows "entryAt (set_leaf t (hwIdx 3 va) v st) t' (hwIdx e va') =
    (if e = 3 \<and> pfx 4 va' = pfx 4 va then v else entryAt st t' (hwIdx e va'))"
  using same_slot_iff [OF assms(1,3) order_refl assms(4,2), of "kernelBase st"]
  by (auto simp: set_leaf_def entryAt_store)

lemma tableAt_leaf:
  assumes "pt_inv taken st root" "tableAt st root va 3 = Some t"
  shows "e \<le> 3 \<Longrightarrow> tableAt (set_leaf t (hwIdx 3 va) v st) root va' e = tableAt st root va' e"
proof (induction e)
  case (Suc e)
  then have IH: "tableAt (set_leaf t (hwIdx 3 va) v st) root va' e = tableAt st root va' e"
    and "e < 3" by simp_all
  then show ?case
    using entryAt_leaf [OF assms, of e va'] by (simp split: option.split)
qed simp

lemma translate_leaf:
  assumes "pt_inv taken st root" "tableAt st root va 3 = Some t"
  shows "translate (set_leaf t (hwIdx 3 va) v st) root va' =
    (if pfx 4 va' = pfx 4 va then if v AND PTE_P \<noteq> 0 then Some v else None
     else translate st root va')"
proof (cases "tableAt st root va' 3")
  case None
  have "pfx 4 va' \<noteq> pfx 4 va"
  proof
    assume "pfx 4 va' = pfx 4 va"
    then have "pfx 3 va' = pfx 3 va" using pfx_Suc_eq_iff [of 3 va' va] by simp
    then have "tableAt st root va' 3 = tableAt st root va 3" by (intro tableAt_pfx) simp_all
    with None assms(2) show False by simp
  qed
  with None tableAt_leaf [OF assms, of 3 v va'] show ?thesis by (simp add: translate_def)
next
  case (Some t')
  with tableAt_leaf [OF assms, of 3 v va'] entryAt_leaf [OF assms _ Some, of v]
  show ?thesis by (simp add: translate_def Let_def)
qed

lemma levelEntry_leaf:
  assumes "pt_inv taken st root" "tableAt st root va 3 = Some t" "e < 3"
  shows "levelEntry (set_leaf t (hwIdx 3 va) v st) root va' e = levelEntry st root va' e"
  using tableAt_leaf [OF assms(1,2), of e v va'] entryAt_leaf [OF assms(1,2), of e va' _ v] assms(3)
  by (simp add: levelEntry_def split: option.split)

lemma open_path_leaf:
  assumes "pt_inv taken st root" "tableAt st root va 3 = Some t"
  shows "open_path (set_leaf t (hwIdx 3 va) v st) root va' = open_path st root va'"
  by (simp add: open_path_def levelEntry_leaf [OF assms])

lemma effective_leaf:
  assumes "pt_inv taken st root" "tableAt st root va 3 = Some t" "pfx 4 va' \<noteq> pfx 4 va"
  shows "effective (set_leaf t (hwIdx 3 va) v st) root va' = effective st root va'"
  by (rule effective_cong) (simp_all add: levelEntry_leaf [OF assms(1,2)] translate_leaf [OF assms(1,2)] assms(3))

lemma pt_inv_leaf:
  assumes "pt_inv taken st root" "tableAt st root va 3 = Some t"
    and "taken (set_leaf t (hwIdx 3 va) v st) = taken st"
  shows "pt_inv taken (set_leaf t (hwIdx 3 va) v st) root"
proof -
  let ?st = "set_leaf t (hwIdx 3 va) v st"
  have walk: "tableAt ?st root va' e = Some t' \<longleftrightarrow> tableAt st root va' e = Some t'" if "e \<le> 3" for va' e t'
    using tableAt_leaf [OF assms(1,2) that] by simp
  show ?thesis
    unfolding pt_inv_def
  proof (intro conjI allI impI)
    show "page_aligned root" by (rule pt_invD(1) [OF assms(1)])
    show "taken ?st t'" if "e \<le> 3" "tableAt ?st root va' e = Some t'" for va' e t'
      using that pt_invD(2) [OF assms(1)] by (simp add: walk assms(3))
    show "tableAt ?st root va' e \<noteq> Some 0" if "e \<le> 3" for va' e
      using pt_invD(5) [OF assms(1) that] by (simp add: walk that)
    show "entryAt ?st t' (hwIdx e va') AND PTE_PS = 0"
      if "e < 3" "tableAt ?st root va' e = Some t'" "entryAt ?st t' (hwIdx e va') AND PTE_P \<noteq> 0"
      for va' e t'
      using that pt_invD(4) [OF assms(1), of e va' t'] entryAt_leaf [OF assms(1,2), of e va' t' v]
      by (simp add: walk)
    fix va1 va2 d1 d2 t'
    assume "d1 \<le> 3" "d2 \<le> 3" "tableAt ?st root va1 d1 = Some t'" "tableAt ?st root va2 d2 = Some t'"
    then show "d1 = d2" "pfx d1 va1 = pfx d1 va2"
      using pt_invD(3) [OF assms(1), of d1 d2 va1 t' va2] by (auto simp: walk)
  qed
qed

lemma flags_present: "(p OR mmuGetTableFlags fl) AND PTE_P \<noteq> 0"
proof -
  have "mmuGetTableFlags fl AND PTE_P = 1"
    by (simp add: mmuGetTableFlags_def pte_defs)
  then show ?thesis by (simp add: bit.conj_disj_distrib2 or_eq_0_iff)
qed

lemma pfx_page: "pfx 4 (ALIGN_DOWN v PAGESIZE) = pfx 4 v"
proof -
  have "drop_bit 12 (take_bit 48 (push_bit 12 (drop_bit 12 n))) = drop_bit 12 (take_bit 48 n)" for n :: nat
    by (intro bit_eqI) (auto simp: bit_simps)
  from this [of "unat v"] show ?thesis
    by (simp add: pfx_def unat_ALIGN_DOWN_page take_bit_eq_mod drop_bit_eq_div push_bit_eq_mult)
qed

lemma pfx_pages: "pfx 4 (v + of_nat (4096 * j)) = (pfx 4 v + j) mod 2 ^ 36"
proof -
  have m: "x mod 2 ^ 48 div 4096 = x div 4096 mod 2 ^ 36" for x :: nat
  proof -
    have "drop_bit 12 (take_bit 48 x) = take_bit 36 (drop_bit 12 x)"
      by (intro bit_eqI) (auto simp: bit_simps)
    then show ?thesis by (simp add: take_bit_eq_mod drop_bit_eq_div)
  qed
  have "unat (v + of_nat (4096 * j)) mod 2 ^ 48 = (unat v + 4096 * j) mod 2 ^ 48"
    by (simp add: unat_word_ariths unat_of_nat take_bit_eq_mod mod_simps mod_mod_cancel del: of_nat_mult)
  then have "pfx 4 (v + of_nat (4096 * j)) = (unat v + 4096 * j) div 4096 mod 2 ^ 36"
    using m [of "unat v + 4096 * j"] by (simp add: pfx_def)
  also have "(unat v + 4096 * j) div 4096 = unat v div 4096 + j" by simp
  finally show ?thesis using m [of "unat v"] by (simp add: pfx_def mod_simps)
qed

lemma pages_distinct:
  assumes "pfx 4 (v + of_nat (4096 * i)) = pfx 4 (v + of_nat (4096 * j))"
    "i < m" "j < m" "m \<le> 2 ^ 36"
  shows "i = j"
proof -
  from assms(1) have "(pfx 4 v + i) mod 2 ^ 36 = (pfx 4 v + j) mod 2 ^ 36" by (simp only: pfx_pages)
  then have "i mod 2 ^ 36 = j mod 2 ^ 36" by (simp only: nat_mod_eq_iff) auto
  with assms(2-4) show ?thesis by simp
qed

lemma copyRoot_simps [simp]: "kernelBase (copyRoot a b n st) = kernelBase st"
  by (induction n) (simp_all add: Let_def)

lemma copyRoot_entries:
  assumes "page_aligned a" "page_aligned src" "src \<noteq> a"
  shows "n \<le> 512 \<Longrightarrow> page_aligned t \<Longrightarrow> i < 512 \<Longrightarrow>
    entryAt (copyRoot (PHYS_TO_VIRT st a) (PHYS_TO_VIRT st src) n st) t i =
      (if t = a \<and> i < n then if i < 256 then 0 else entryAt st src i else entryAt st t i)"
proof (induction n arbitrary: t i)
  case (Suc n)
  let ?c = "copyRoot (PHYS_TO_VIRT st a) (PHYS_TO_VIRT st src) n st"
  have n: "n < 512" using Suc.prems by simp
  then have u: "unat (of_nat n :: ushort) = n" by (simp add: unat_of_nat take_bit_nat_eq_self)
  have "memory ?c (slot (PHYS_TO_VIRT st src) (of_nat n)) = entryAt ?c src n"
    by (simp add: entryAt_def slot_hw [OF u])
  also have "\<dots> = entryAt st src n" using Suc.IH [of src n] n assms by simp
  finally have "entryAt (copyRoot (PHYS_TO_VIRT st a) (PHYS_TO_VIRT st src) (Suc n) st) t i =
      (if t + kernelBase st + 8 * of_nat i = a + kernelBase st + 8 * of_nat n
       then if n < 256 then 0 else entryAt st src n else entryAt ?c t i)"
    by (simp add: Let_def entryAt_store slot_hw [OF u])
  then show ?case
    using Suc.IH [of t i] Suc.prems slot_eq_iff [OF Suc.prems(2) assms(1) Suc.prems(3) n]
    by (auto simp: less_Suc_eq simp del: copyRoot.simps)
qed simp

section \<open>The table code under the allocator's contract\<close>

context frame_allocator
begin

lemma taken_store [simp]: "taken (store a v st) = taken st"
  by (simp add: store_def taken_memory)

lemma inv_store [simp]: "inv (store a v st) = inv st"
  by (simp add: store_def inv_memory)

lemma spare_store [simp]: "spare k (store a v st) = spare k st"
  by (simp add: store_def spare_memory)

lemma spare_flush [simp]: "spare k (mmuTlbFlush a st) = spare k st"
  by (simp add: mmuTlbFlush_def spare_tlb)

lemma spare_link [simp]: "spare k (link_table t i f st) = spare k st"
  by (simp add: link_table_def)

lemma taken_flush [simp]: "taken (mmuTlbFlush a st) = taken st"
  by (simp add: mmuTlbFlush_def taken_tlb)

lemma inv_flush [simp]: "inv (mmuTlbFlush a st) = inv st"
  by (simp add: mmuTlbFlush_def inv_tlb)

lemma inv_link [simp]: "inv (link_table t i f st) = inv st"
  by (simp add: link_table_def)

lemma pt_inv_flush [simp]: "pt_inv taken (mmuTlbFlush a st) root = pt_inv taken st root"
  by (simp add: pt_inv_def)

lemma pt_inv_link:
  assumes lk: "linkable taken st root va d t f"
  shows "pt_inv taken (link_table t (hwIdx d va) f st) root"
proof -
  let ?st = "link_table t (hwIdx d va) f st"
  have tk: "taken ?st = taken st" by (simp add: link_table_def)
  note inv = linkableD(1) [OF lk]
  note walk = tableAt_link [OF lk]
  have new: "tableAt st root va' e \<noteq> Some f" if "e \<le> 3" for va' e using linkableD(9) [OF lk that] .
  show ?thesis
    unfolding pt_inv_def
  proof (intro conjI allI impI)
    show "page_aligned root" by (rule pt_invD(1) [OF inv])
    show "taken ?st x" if "e \<le> 3" "tableAt ?st root va' e = Some x" for va' e x
      using that pt_invD(2) [OF inv, of e va' x] linkableD(8) [OF lk]
      by (auto simp: walk tk split: if_splits)
    show "tableAt ?st root va' e \<noteq> Some 0" if "e \<le> 3" for va' e
      using that pt_invD(5) [OF inv that] linkableD(11) [OF lk] by (simp add: walk)
    show "entryAt ?st x (hwIdx e va') AND PTE_PS = 0"
      if "e < 3" "tableAt ?st root va' e = Some x" "entryAt ?st x (hwIdx e va') AND PTE_P \<noteq> 0"
      for va' e x
      using that pt_invD(4) [OF inv, of e va' x] entryAt_link [OF lk, of e va' x]
        entryAt_link_fresh [OF lk hwIdx_less] new_entry(3) [OF linkableD(6,7) [OF lk]]
      by (auto simp: walk split: if_splits)
    fix va1 va2 d1 d2 x
    assume "d1 \<le> 3" "d2 \<le> 3" "tableAt ?st root va1 d1 = Some x" "tableAt ?st root va2 d2 = Some x"
    then show "d1 = d2" "pfx d1 va1 = pfx d1 va2"
      using pt_invD(3) [OF inv, of d1 d2 va1 x va2] new
      by (auto simp: walk split: if_splits)
  qed
qed

text \<open>One call of the allocator leaves every walk as it was.\<close>

lemma entryAt_al:
  assumes "inv st" "al st = Done (a, st')" "page_aligned t" "i < 512" "a = 0 \<or> t \<noteq> a"
  shows "entryAt st' t i = entryAt st t i"
proof -
  have "a = 0 \<or> \<not> t + kernelBase st + 8 * of_nat i - PHYS_TO_VIRT st a < 4096"
    using slot_in_page [OF assms(3) _ assms(4)] al_fresh [OF assms(1,2)] assms(5)
    by (auto simp: PHYS_TO_VIRT_def)
  then show ?thesis
    using al_memory [OF assms(1,2)] al_machine [OF assms(1,2)] by (simp add: entryAt_def)
qed

lemma al_tree:
  assumes "inv st" "al st = Done (a, st')" "pt_inv taken st root"
  shows "e \<le> 3 \<Longrightarrow> tableAt st' root va e = tableAt st root va e"
    "translate st' root va = translate st root va"
    "pt_inv taken st' root"
    "d \<le> 3 \<Longrightarrow> levelEntry st' root va d = levelEntry st root va d"
proof -
  have kb: "kernelBase st' = kernelBase st" using al_machine [OF assms(1,2)] by simp
  have same: "entryAt st' t i = entryAt st t i" if "taken st t" "page_aligned t" "i < 512" for t i
    using that al_fresh [OF assms(1,2)] by (intro entryAt_al [OF assms(1,2)]) auto
  have walk: "tableAt st' root va e = tableAt st root va e" if "e \<le> 3" for va e
    using assms(3) kb same that by (rule tableAt_cong)
  then show "e \<le> 3 \<Longrightarrow> tableAt st' root va e = tableAt st root va e" .
  show "translate st' root va = translate st root va"
    using assms(3) kb same by (rule translate_cong)
  show "pt_inv taken st' root"
    by (rule pt_inv_cong [OF assms(3) kb same]) (use al_grows [OF assms(1,2)] in auto)
  show "levelEntry st' root va d = levelEntry st root va d" if "d \<le> 3"
    using assms(3) kb same that by (rule levelEntry_cong)
qed

lemma al_access:
  assumes "inv st" "al st = Done (a, st')" "pt_inv taken st root"
  shows "effective st' root va = effective st root va" "access_kept st root st'"
proof -
  show "effective st' root va = effective st root va"
    by (rule effective_cong) (simp_all add: al_tree(2,4) [OF assms])
  show "access_kept st root st'"
    using al_machine [OF assms(1,2)] by (simp add: access_kept_def open_path_def al_tree(4) [OF assms])
qed

lemma al_linkable:
  assumes "inv st" "al st = Done (a, st')" "pt_inv taken st root" "a \<noteq> 0"
    and "d < 3" "tableAt st root va d = Some t" "entryAt st t (hwIdx d va) AND PTE_P = 0"
  shows "linkable taken st' root va d t a"
  unfolding linkable_def
proof (intro conjI allI impI)
  note walk = al_tree(1) [OF assms(1-3)]
  have t: "page_aligned t" "taken st t"
    using tableAt_aligned [OF pt_invD(1) [OF assms(3)] assms(6)] pt_invD(2) [OF assms(3) _ assms(6)]
      assms(5) by auto
  show "pt_inv taken st' root" by (rule al_tree(3) [OF assms(1-3)])
  show "d < 3" by fact
  show "tableAt st' root va d = Some t" using assms(5,6) by (simp add: walk)
  show "page_aligned a" "unat a < 2 ^ 52" "taken st' a" using al_fresh [OF assms(1,2,4)] by auto
  show "a \<noteq> 0" by (rule assms(4))
  show "entryAt st' t (hwIdx d va) AND PTE_P = 0"
    using assms(7) t al_fresh [OF assms(1,2,4)]
    by (subst entryAt_al [OF assms(1,2) t(1) hwIdx_less]) auto
  show "tableAt st' root va' e \<noteq> Some a" if "e \<le> 3" for va' e
    using that al_fresh [OF assms(1,2,4)] pt_invD(2) [OF assms(3) that, of va' a] by (auto simp: walk)
  fix i :: nat assume "i < 512"
  moreover have "page_aligned a" using al_fresh [OF assms(1,2,4)] by simp
  ultimately have "a + kernelBase st + 8 * of_nat i - PHYS_TO_VIRT st a < 4096"
    using slot_in_page [of a a i "kernelBase st"] by (simp add: PHYS_TO_VIRT_def)
  then show "entryAt st' a i = 0"
    using al_zeroed [OF assms(1,2,4)] al_machine [OF assms(1,2)] by (simp add: entryAt_def)
qed

text \<open>
  The walk of \<^verbatim>\<open>mmuGetLevelPhys\<close> with \<^verbatim>\<open>alloc\<close> set: it returns the page table of the
  address, or 0 after a refused allocation, and no translation changes on the way. With one
  spare page for every level still to go nothing is refused.
\<close>

definition descends :: "phys \<Rightarrow> uquad \<Rightarrow> ulong_ptr \<Rightarrow> phys \<Rightarrow> bool" where
  "descends st root va st' \<longleftrightarrow> inv st' \<and> pt_inv taken st' root \<and>
     kernelBase st' = kernelBase st \<and> cr3 st' = cr3 st \<and> tlb st' = tlb st \<and>
     (\<forall>b. taken st b \<longrightarrow> taken st' b) \<and> access_kept st root st' \<and>
     (\<forall>va'. translate st' root va' = translate st root va' \<and> effective st' root va' = effective st root va')"

lemma descends_refl: "inv st \<Longrightarrow> pt_inv taken st root \<Longrightarrow> descends st root va st"
  by (simp add: descends_def access_kept_refl)

lemma descends_trans: "descends st root va st1 \<Longrightarrow> descends st1 root va st2 \<Longrightarrow> descends st root va st2"
  by (auto simp: descends_def elim: access_kept_trans)

lemma descends_al:
  assumes "inv st" "al st = Done (a, st')" "pt_inv taken st root"
  shows "descends st root va st'"
  using al_inv [OF assms(1,2)] al_tree(2,3) [OF assms] al_machine [OF assms(1,2)] al_access [OF assms]
    al_grows [OF assms(1,2)] by (auto simp: descends_def)

lemma descends_link:
  assumes "linkable taken st root va d t f" "inv st"
  shows "descends st root va (link_table t (hwIdx d va) f st)"
  using assms pt_inv_link [OF assms(1)] translate_link [OF assms(1)] effective_link [OF assms(1)]
    open_path_link [OF assms(1)]
  by (simp add: descends_def access_kept_def) (simp add: link_table_def)

lemma store_store: "store a v (store a f st) = store a v st"
  by (simp add: store_def)

lemma mmuDescend_alloc:
  assumes "inv st" "pt_inv taken st root" "d \<le> 3" "tableAt st root va d = Some t"
  shows "\<exists>a st'. mmuDescend al va MAP_LEVEL_PT True (level_at d) (PHYS_TO_VIRT st t) st = Done (a, st') \<and>
    descends st root va st' \<and> (a = 0 \<or> tableAt st' root va 3 = Some a) \<and>
    (\<forall>k. spare (k + (3 - d)) st \<longrightarrow> a \<noteq> 0 \<and> spare k st')"
  using assms
proof (induction "3 - d" arbitrary: d t st)
  case 0
  then have d: "d = 3" by simp
  with 0 show ?case
    using pt_invD(5) [OF 0(3), of 3 va]
    by (subst mmuDescend.simps) (auto simp: level_at.simps less_map_level_def descends_refl)
next
  case (Suc k)
  then have d: "d < 3" "d \<le> 3" "k = 3 - Suc d" "Suc d \<le> 3" by auto
  obtain i where i: "mmuGetLevelIdx va (level_at d) = Done i" "unat i = hwIdx d va"
    using mmuGetLevelIdx_hw [OF d(2), of va] by blast
  let ?e = "entryAt st t (hwIdx d va)"
  have ent: "memory st (slot (PHYS_TO_VIRT st t) i) = ?e"
    by (simp add: slot_hw [OF i(2)] entryAt_def)
  have less: "MAP_LEVEL_PT < level_at d" using level_at_gt [OF d(2)] d(1) by simp
  have down: "prev_level (level_at d) = level_at (Suc d)" using d(1) by (rule prev_level_at)
  have more: "n + (3 - d) = Suc (n + (3 - Suc d))" for n using d(1) by simp
  show ?case
  proof (cases "?e AND PTE_P = 0")
    case False
    with Suc.prems(4) pt_invD(4) [OF Suc.prems(2) d(1) Suc.prems(4)]
    have next_t: "tableAt st root va (Suc d) = Some (?e AND PTE_ADDR_MASK)" by (simp add: Let_def)
    from Suc.hyps(1) [OF d(3) Suc.prems(1,2) d(4) next_t] obtain a st' where
      "mmuDescend al va MAP_LEVEL_PT True (level_at (Suc d)) (PHYS_TO_VIRT st (?e AND PTE_ADDR_MASK)) st = Done (a, st')"
      "descends st root va st'" "a = 0 \<or> tableAt st' root va 3 = Some a"
      "\<And>n. spare (n + (3 - Suc d)) st \<Longrightarrow> a \<noteq> 0 \<and> spare n st'" by blast
    with False show ?thesis
      by (subst mmuDescend.simps) (auto simp: less i ent down Let_def more dest: spare_less)
  next
    case True
    obtain f st1 where f: "al st = Done (f, st1)" using al_returns [OF Suc.prems(1)] by blast
    note al_st = Suc.prems(1) f Suc.prems(2)
    have to1: "descends st root va st1" by (rule descends_al [OF al_st])
    show ?thesis
    proof (cases "f = 0")
      case f0: True
      have "\<not> spare (n + (3 - d)) st" for n
        using al_spare [OF Suc.prems(1) f, of "n + (3 - Suc d)"] f0 unfolding more by blast
      with True f0 to1 f show ?thesis
        by (subst mmuDescend.simps) (simp add: less i ent Let_def)
    next
      case f1: False
      note lk = al_linkable [OF al_st f1 d(1) Suc.prems(4) True]
      let ?st2 = "link_table t (hwIdx d va) f st1"
      have to2: "descends st root va ?st2"
        using to1 descends_link [OF lk] al_inv [OF Suc.prems(1) f] by (blast intro: descends_trans)
      have walk: "tableAt ?st2 root va (Suc d) = Some f"
        using tableAt_link [OF lk d(4), of va] by simp
      have kb: "kernelBase st1 = kernelBase st" using to1 by (simp add: descends_def)
      from to2 have "inv ?st2" "pt_inv taken ?st2 root" by (simp_all add: descends_def)
      from Suc.hyps(1) [OF d(3) this d(4) walk] obtain a st' where
        "mmuDescend al va MAP_LEVEL_PT True (level_at (Suc d)) (PHYS_TO_VIRT ?st2 f) ?st2 = Done (a, st')"
        "descends ?st2 root va st'" "a = 0 \<or> tableAt st' root va 3 = Some a"
        "\<And>n. spare (n + (3 - Suc d)) ?st2 \<Longrightarrow> a \<noteq> 0 \<and> spare n st'"
        by blast
      moreover have "spare (n + (3 - Suc d)) ?st2" if "spare (n + (3 - d)) st" for n
        using al_spare [OF Suc.prems(1) f] that unfolding more by simp
      moreover have "mmuDescend al va MAP_LEVEL_PT True (level_at d) (PHYS_TO_VIRT st t) st =
          mmuDescend al va MAP_LEVEL_PT True (level_at (Suc d)) (PHYS_TO_VIRT ?st2 f) ?st2"
        using True f1 f by (subst mmuDescend.simps)
          (simp add: less i down Let_def store_store slot_hw [OF i(2)] link_table_def kb flip: entryAt_def)
      ultimately show ?thesis using to2 descends_trans by metis
    qed
  qed
qed

text \<open>Without \<^verbatim>\<open>alloc\<close> the walk only reads.\<close>

lemma mmuDescend_lookup:
  assumes "pt_inv taken st root" "d \<le> 3" "tableAt st root va d = Some t"
  shows "mmuDescend al va MAP_LEVEL_PT False (level_at d) (PHYS_TO_VIRT st t) st =
    Done (case tableAt st root va 3 of None \<Rightarrow> 0 | Some a \<Rightarrow> a, st)"
  using assms
proof (induction "3 - d" arbitrary: d t)
  case 0
  then have d: "d = 3" by simp
  with 0 show ?case by (subst mmuDescend.simps) (auto simp: level_at.simps less_map_level_def)
next
  case (Suc k)
  then have d: "d < 3" "d \<le> 3" "k = 3 - Suc d" "Suc d \<le> 3" by auto
  obtain i where i: "mmuGetLevelIdx va (level_at d) = Done i" "unat i = hwIdx d va"
    using mmuGetLevelIdx_hw [OF d(2), of va] by blast
  let ?e = "entryAt st t (hwIdx d va)"
  have ent: "memory st (slot (PHYS_TO_VIRT st t) i) = ?e"
    by (simp add: slot_hw [OF i(2)] entryAt_def)
  have less: "MAP_LEVEL_PT < level_at d" using level_at_gt [OF d(2)] d(1) by simp
  have down: "prev_level (level_at d) = level_at (Suc d)" using d(1) by (rule prev_level_at)
  show ?case
  proof (cases "?e AND PTE_P = 0")
    case False
    with Suc.prems pt_invD(4) [OF Suc.prems(1) d(1) Suc.prems(3)]
    have next_t: "tableAt st root va (Suc d) = Some (?e AND PTE_ADDR_MASK)" by (simp add: Let_def)
    with Suc.hyps(1) [OF d(3) Suc.prems(1) d(4) next_t] False show ?thesis
      by (subst mmuDescend.simps) (simp add: less i ent down Let_def)
  next
    case True
    with Suc.prems have "tableAt st root va (Suc d) = None" by (simp add: Let_def)
    then have "tableAt st root va 3 = None" by (rule tableAt_None_mono) (use d in simp)
    with True show ?thesis
      by (subst mmuDescend.simps) (simp add: less i ent Let_def)
  qed
qed

definition mapped :: "phys \<Rightarrow> uquad \<Rightarrow> ulong_ptr \<Rightarrow> uquad option \<Rightarrow> phys \<Rightarrow> bool" where
  "mapped st root v e st' \<longleftrightarrow> inv st' \<and> pt_inv taken st' root \<and>
     kernelBase st' = kernelBase st \<and> cr3 st' = cr3 st \<and> (\<forall>b. taken st b \<longrightarrow> taken st' b) \<and>
     tlb st' = (tlb st)(ALIGN_DOWN v PAGESIZE := None) \<and> access_kept st root st' \<and>
     (\<forall>va. translate st' root va = (if pfx 4 va = pfx 4 v then e else translate st root va)) \<and>
     (\<forall>va. pfx 4 va \<noteq> pfx 4 v \<longrightarrow> effective st' root va = effective st root va)"

lemma mapped_leaf:
  assumes "descends st root w st1" "w = ALIGN_DOWN v PAGESIZE" "tableAt st1 root w 3 = Some a"
  shows "mapped st root v (if e AND PTE_P \<noteq> 0 then Some e else None)
    (mmuTlbFlush w (store (a + kernelBase st1 + 8 * of_nat (hwIdx 3 w)) e st1))"
proof -
  from assms(1) have inv: "pt_inv taken st1 root" by (simp add: descends_def)
  have "pt_inv taken (set_leaf a (hwIdx 3 w) e st1) root"
    by (rule pt_inv_leaf [OF inv assms(3)]) (simp add: set_leaf_def)
  moreover have "access_kept st root (mmuTlbFlush w (set_leaf a (hwIdx 3 w) e st1))"
    using assms(1) by (simp add: access_kept_def descends_def open_path_leaf [OF inv assms(3)])
      (simp add: set_leaf_def mmuTlbFlush_def)
  ultimately show ?thesis
    using assms(1) translate_leaf [OF inv assms(3), of e] effective_leaf [OF inv assms(3), of _ e] pfx_page [of v]
    by (simp add: mapped_def descends_def assms(2) flip: set_leaf_def)
       (simp add: set_leaf_def mmuTlbFlush_def)
qed

lemma mmuGetLevelPhys_root:
  "mmuGetLevelPhys al (Some root) va MAP_LEVEL_PT b st =
    mmuDescend al va MAP_LEVEL_PT b (level_at 0) (PHYS_TO_VIRT st root) st"
  by (simp add: mmuGetLevelPhys_def level_at.simps less_eq_map_level_def)

lemma leafIdx: "\<exists>i. mmuGetLevelIdx va MAP_LEVEL_PT = Done i \<and> unat i = hwIdx 3 va"
  using mmuGetLevelIdx_hw [of 3 va] by (simp add: level_at.simps)

lemma mmuMapSingle_spec:
  assumes "inv st" "pt_inv taken st root"
  shows "\<exists>status st'. mmuMapSingle al (Some root) v p fl st = Done (status, st') \<and>
    (status = STATUS_SUCCESS \<and>
       mapped st root v (Some (ALIGN_DOWN p PAGESIZE OR mmuGetTableFlags fl)) st' \<or>
     status = STATUS_NOT_MAPPED \<and> descends st root (ALIGN_DOWN v PAGESIZE) st') \<and>
    (\<forall>k. spare (k + 3) st \<longrightarrow> status = STATUS_SUCCESS \<and> spare k st')"
proof -
  let ?v = "ALIGN_DOWN v PAGESIZE" and ?e = "ALIGN_DOWN p PAGESIZE OR mmuGetTableFlags fl"
  obtain a st1 where d: "mmuGetLevelPhys al (Some root) ?v MAP_LEVEL_PT True st = Done (a, st1)"
    "descends st root ?v st1" "a = 0 \<or> tableAt st1 root ?v 3 = Some a"
    "\<And>k. spare (k + 3) st \<Longrightarrow> a \<noteq> 0 \<and> spare k st1"
    using mmuDescend_alloc [OF assms, of 0 ?v root] by (auto simp: mmuGetLevelPhys_root)
  obtain i where i: "mmuGetLevelIdx ?v MAP_LEVEL_PT = Done i" "unat i = hwIdx 3 ?v"
    using leafIdx by blast
  show ?thesis
  proof (cases "a = 0")
    case True
    with d show ?thesis by (fastforce simp: mmuMapSingle_def Let_def)
  next
    case False
    with d(3) have "tableAt st1 root ?v 3 = Some a" by simp
    from mapped_leaf [OF d(2) refl this, of ?e] False d(1,4) i flags_present show ?thesis
      by (simp add: mmuMapSingle_def Let_def slot_hw [OF i(2)])
  qed
qed

lemma mmuUnmapSingle_spec:
  assumes "inv st" "pt_inv taken st root"
  shows "\<exists>st'. mmuUnmapSingle al (Some root) v st = Done (STATUS_SUCCESS, st') \<and>
    (mapped st root v None st' \<or> translate st root v = None \<and> st' = st)"
proof -
  let ?v = "ALIGN_DOWN v PAGESIZE"
  have d: "mmuGetLevelPhys al (Some root) ?v MAP_LEVEL_PT False st =
      Done (case tableAt st root ?v 3 of None \<Rightarrow> 0 | Some a \<Rightarrow> a, st)"
    using mmuDescend_lookup [OF assms(2), of 0 ?v root] by (simp add: mmuGetLevelPhys_root)
  obtain i where i: "mmuGetLevelIdx ?v MAP_LEVEL_PT = Done i" "unat i = hwIdx 3 ?v"
    using leafIdx by blast
  show ?thesis
  proof (cases "tableAt st root ?v 3")
    case None
    have "pfx 3 ?v = pfx 3 v" using pfx_page [of v] pfx_Suc_eq_iff [of 3 ?v v] by simp
    then have "tableAt st root v 3 = None" using None tableAt_pfx [of 3 v ?v st root] by simp
    with None d show ?thesis by (simp add: mmuUnmapSingle_def Let_def translate_def)
  next
    case (Some a)
    from mapped_leaf [OF descends_refl [OF assms(1,2)] refl Some, of 0] Some d i pt_invD(5) [OF assms(2), of 3 ?v] show ?thesis
      by (simp add: mmuUnmapSingle_def Let_def slot_hw [OF i(2)])
  qed
qed

text \<open>
  The new root of \<^verbatim>\<open>mmuCreateVas\<close>: below it the lower half is empty and the upper half has
  the tables of the current root, whose entries are unchanged.
\<close>

lemma taken_copyRoot [simp]: "taken (copyRoot x y n st) = taken st"
  by (induction n) (simp_all add: Let_def)

lemma spare_copyRoot [simp]: "spare k (copyRoot x y n st) = spare k st"
  by (induction n) (simp_all add: Let_def)

lemma inv_copyRoot [simp]: "inv (copyRoot x y n st) = inv st"
  by (induction n) (simp_all add: Let_def)

lemma copyRoot_walk:
  assumes "inv st" "al st = Done (a, st1)" "a \<noteq> 0" "pt_inv taken st src"
    and "st' = copyRoot (PHYS_TO_VIRT st1 a) (PHYS_TO_VIRT st1 src) 512 st1"
  shows "i < 512 \<Longrightarrow> entryAt st' a i = (if i < 256 then 0 else entryAt st src i)"
    and "e \<le> 3 \<Longrightarrow> tableAt st src va e = Some t \<Longrightarrow> i < 512 \<Longrightarrow> entryAt st' t i = entryAt st t i"
    and "hwIdx 0 va < 256 \<Longrightarrow> tableAt st' a va (Suc e) = None"
    and "\<not> hwIdx 0 va < 256 \<Longrightarrow> e \<le> 2 \<Longrightarrow> tableAt st' a va (Suc e) = tableAt st src va (Suc e)"
proof -
  note al_st = assms(1,2,4)
  note fresh = al_fresh [OF assms(1,2,3)]
  have src: "page_aligned src" "taken st src"
    using pt_invD(1) [OF assms(4)] pt_invD(2) [OF assms(4), of 0] by auto
  with fresh have "src \<noteq> a" by auto
  note entries = copyRoot_entries [OF _ src(1) this order_refl, of _ _ st1, folded assms(5)]
  have tbl: "page_aligned t \<and> t \<noteq> a \<and> taken st t" if "e \<le> 3" "tableAt st src va e = Some t" for va e t
    using tableAt_aligned [OF src(1) that(2)] pt_invD(2) [OF assms(4) that] fresh by auto
  have old: "entryAt st1 t i = entryAt st t i" if "page_aligned t" "t \<noteq> a" "i < 512" for t i
    using that by (intro entryAt_al [OF assms(1,2)]) auto
  show root: "entryAt st' a i = (if i < 256 then 0 else entryAt st src i)" if "i < 512" for i
    using entries [of a i] fresh that old [OF src(1) \<open>src \<noteq> a\<close>] by simp
  show same: "entryAt st' t i = entryAt st t i" if "e \<le> 3" "tableAt st src va e = Some t" "i < 512" for va e t i
    using entries [of t i] fresh tbl [OF that(1,2)] old [of t i] that(3) by simp
  show "tableAt st' a va (Suc e) = None" if "hwIdx 0 va < 256" for va e
  proof (rule tableAt_None_mono)
    show "tableAt st' a va (Suc 0) = None" using that root [OF hwIdx_less] by simp
  qed simp
  show "tableAt st' a va (Suc e) = tableAt st src va (Suc e)" if "\<not> hwIdx 0 va < 256" "e \<le> 2" for va e
    using that(2)
  proof (induction e)
    case 0
    with that(1) root [OF hwIdx_less, of 0 va] show ?case by simp
  next
    case (Suc e)
    then have IH: "tableAt st' a va (Suc e) = tableAt st src va (Suc e)" by simp
    show ?case
    proof (cases "tableAt st src va (Suc e)")
      case None
      with IH show ?thesis by (simp only: tableAt.simps(2) [of _ _ _ "Suc e"] option.case)
    next
      case (Some t)
      with Suc.prems have "entryAt st' t (hwIdx (Suc e) va) = entryAt st t (hwIdx (Suc e) va)"
        by (intro same [of "Suc e" va] hwIdx_less) auto
      with IH Some show ?thesis by (simp only: tableAt.simps(2) [of _ _ _ "Suc e"] option.case)
    qed
  qed
qed

lemma copyRoot_tree:
  assumes "inv st" "al st = Done (a, st1)" "a \<noteq> 0" "pt_inv taken st src"
    and "st' = copyRoot (PHYS_TO_VIRT st1 a) (PHYS_TO_VIRT st1 src) 512 st1"
  shows "pt_inv taken st' a"
proof -
  note walk = copyRoot_walk [OF assms]
  note fresh = al_fresh [OF assms(1-3)]
  note old = pt_invD [OF assms(4)]
  have takes: "taken st' t" if "taken st t" for t
    using that al_grows [OF assms(1,2)] by (simp add: assms(5))
  have up: "\<not> hwIdx 0 va < 256 \<and> tableAt st src va (Suc e) = Some t"
    if "Suc e \<le> 3" "tableAt st' a va (Suc e) = Some t" for va e t
    using that walk(3,4) [of va e] by (cases "hwIdx 0 va < 256") auto
  have notroot: "t \<noteq> a" if "Suc e \<le> 3" "tableAt st' a va (Suc e) = Some t" for va e t
    using up [OF that] old(2) [OF that(1), of va t] fresh by auto
  show ?thesis
    unfolding pt_inv_def
  proof (intro conjI allI impI)
    show "page_aligned a" using fresh by simp
    show "taken st' t" if "d \<le> 3" "tableAt st' a va d = Some t" for va d t
    proof (cases d)
      case 0
      with that fresh show ?thesis by (simp add: assms(5))
    next
      case (Suc e)
      with that show ?thesis using up [of e va t] old(2) [of "Suc e" va t] takes by simp
    qed
    show "tableAt st' a va d \<noteq> Some 0" if "d \<le> 3" for va d
      using that assms(3) up [of "d - 1" va 0] old(5) [of d va] by (cases d) auto
    show "entryAt st' t (hwIdx d va) AND PTE_PS = 0"
      if "d < 3" "tableAt st' a va d = Some t" "entryAt st' t (hwIdx d va) AND PTE_P \<noteq> 0" for va d t
    proof (cases d)
      case 0
      with that walk(1) [OF hwIdx_less, of 0 va] old(4) [of 0 va src] show ?thesis by (auto split: if_splits)
    next
      case (Suc e)
      with that have "tableAt st src va d = Some t" using up [of e va t] by simp
      with that walk(2) [of d va t, OF _ _ hwIdx_less] old(4) [of d va t] show ?thesis by simp
    qed
    fix va va' d d' t
    assume "d \<le> 3" "d' \<le> 3" "tableAt st' a va d = Some t" "tableAt st' a va' d' = Some t"
    then have "d = d' \<and> pfx d va = pfx d va'"
      using notroot [of "d - 1" va t] notroot [of "d' - 1" va' t] up [of "d - 1" va t] up [of "d' - 1" va' t]
        old(3) [of d d' va t va']
      by (cases d; cases d') (auto simp: pfx_def)
    then show "d = d'" "pfx d va = pfx d va'" by auto
  qed
qed

lemma mmuCreateVas_spec:
  assumes "inv st" "pt_inv taken st (cr3 st AND PTE_ADDR_MASK)"
  shows "\<exists>a st1. al st = Done (a, st1) \<and>
    (a = 0 \<and> mmuCreateVas al st = Done (STATUS_NO_MEMORY, None, st1) \<or>
     a \<noteq> 0 \<and> page_aligned a \<and> \<not> taken st a \<and>
     (\<exists>st'. mmuCreateVas al st = Done (STATUS_SUCCESS, Some a, st') \<and> inv st' \<and> pt_inv taken st' a \<and>
       (\<forall>va. translate st' a va = (if hwIdx 0 va < 256 then None
          else translate st (cr3 st AND PTE_ADDR_MASK) va)) \<and>
       (\<forall>va. hwIdx 0 va < 256 \<longrightarrow> open_path st' a va) \<and> (\<forall>k. spare (Suc k) st \<longrightarrow> spare k st'))) \<and>
    (spare 1 st \<longrightarrow> a \<noteq> 0)"
proof -
  let ?src = "cr3 st AND PTE_ADDR_MASK"
  obtain a st1 where a: "al st = Done (a, st1)" using al_returns [OF assms(1)] by blast
  have enough: "spare (Suc k) st \<Longrightarrow> a \<noteq> 0 \<and> spare k st1" for k by (rule al_spare [OF assms(1) a])
  have kb: "kernelBase st1 = kernelBase st" using al_machine [OF assms(1) a] by simp
  show ?thesis
  proof (cases "a = 0")
    case True
    with a enough [of 0] show ?thesis by (auto simp: mmuCreateVas_def Let_def)
  next
    case False
    note fresh = al_fresh [OF assms(1) a False]
    let ?st' = "copyRoot (PHYS_TO_VIRT st1 a) (PHYS_TO_VIRT st1 ?src) 512 st1"
    note walk = copyRoot_walk [OF assms(1) a False assms(2) refl]
    have run: "mmuCreateVas al st = Done (STATUS_SUCCESS, Some a, ?st')"
      using a False by (simp add: mmuCreateVas_def Let_def mmuReadVas_def PHYS_TO_VIRT_def kb)
    have "translate ?st' a va = (if hwIdx 0 va < 256 then None else translate st ?src va)" for va
    proof (cases "hwIdx 0 va < 256")
      case True
      with walk(3) [of va 2] show ?thesis by (simp add: translate_def numeral_3_eq_3 numeral_2_eq_2)
    next
      case False
      with walk(4) [of va 2] have up: "tableAt ?st' a va 3 = tableAt st ?src va 3"
        by (simp add: numeral_3_eq_3 numeral_2_eq_2)
      show ?thesis
      proof (cases "tableAt st ?src va 3")
        case None
        with up False show ?thesis by (simp add: translate_def)
      next
        case (Some t)
        then have "entryAt ?st' t (hwIdx 3 va) = entryAt st t (hwIdx 3 va)" by (intro walk(2) hwIdx_less) auto
        with up Some False show ?thesis by (simp add: translate_def)
      qed
    qed
    moreover have "open_path ?st' a va" if low: "hwIdx 0 va < 256" for va
    proof -
      have "levelEntry ?st' a va d = 0" for d
        using walk(1) [OF hwIdx_less, of 0 va] walk(3) [OF low, of "d - 1"] low
        by (cases d) (simp_all add: levelEntry_def)
      then show ?thesis by (simp add: open_path_def)
    qed
    moreover have "inv ?st'" using al_inv [OF assms(1) a] by simp
    moreover have "spare (Suc k) st \<longrightarrow> spare k ?st'" for k using enough by simp
    ultimately show ?thesis using run a False fresh copyRoot_tree [OF assms(1) a False assms(2) refl] by blast
  qed
qed

lemma mapPages_spec:
  assumes "inv st" "pt_inv taken st root" "page_aligned p" "m \<le> 2 ^ 36"
  shows "\<exists>ok st'. mapPages al (Some root) v p prot (4096 * k) (4096 * m) st = Done (ok, st') \<and>
    inv st' \<and> pt_inv taken st' root \<and> (\<forall>n. spare (n + 3 * (m - k)) st \<longrightarrow> ok \<and> spare n st') \<and>
    access_kept st root st' \<and>
    (ok \<longrightarrow> (\<forall>j. k \<le> j \<and> j < m \<longrightarrow> tlb st' (ALIGN_DOWN (v + of_nat (4096 * j)) PAGESIZE) = None) \<and>
      (\<forall>j va. k \<le> j \<and> j < m \<and> pfx 4 va = pfx 4 (v + of_nat (4096 * j)) \<longrightarrow>
         translate st' root va = Some ((p + of_nat (4096 * j)) OR mmuGetTableFlags prot)) \<and>
      (\<forall>va. (\<forall>j. k \<le> j \<and> j < m \<longrightarrow> pfx 4 va \<noteq> pfx 4 (v + of_nat (4096 * j))) \<longrightarrow>
         translate st' root va = translate st root va))"
  using assms(1,2)
proof (induction "m - k" arbitrary: k st)
  case 0
  then have "mapPages al (Some root) v p prot (4096 * k) (4096 * m) st = Done (True, st)"
    by (subst mapPages.simps) simp
  with 0 show ?case by (intro exI [of _ True] exI [of _ st]) (auto simp: access_kept_refl)
next
  case (Suc n)
  then have k: "k < m" "n = m - Suc k" by auto
  let ?leaf = "\<lambda>j. (p + of_nat (4096 * j)) OR mmuGetTableFlags prot"
  let ?va = "\<lambda>j. v + of_nat (4096 * j)"
  have al: "ALIGN_DOWN (p + of_nat (4096 * k)) PAGESIZE = p + of_nat (4096 * k)"
  proof (intro ALIGN_DOWN_page_id)
    have "4096 dvd unat (p + of_nat (4096 * k))"
      using assms(3) by (simp add: page_aligned_dvd unat_word_ariths unat_of_nat take_bit_eq_mod
          mod_simps dvd_mod_iff del: of_nat_mult)
    then show "page_aligned (p + of_nat (4096 * k))" by (simp only: page_aligned_dvd)
  qed
  obtain status st1 where m: "mmuMapSingle al (Some root) (?va k) (p + of_nat (4096 * k)) prot st = Done (status, st1)"
    "status = STATUS_SUCCESS \<and> mapped st root (?va k) (Some (?leaf k)) st1 \<or>
     status = STATUS_NOT_MAPPED \<and> descends st root (ALIGN_DOWN (?va k) PAGESIZE) st1"
    "\<And>n. spare (n + 3) st \<Longrightarrow> status = STATUS_SUCCESS \<and> spare n st1"
    using mmuMapSingle_spec [OF Suc.prems, of "?va k" "p + of_nat (4096 * k)" prot]
    unfolding al by blast
  have need: "3 * (m - k) = 3 * (m - Suc k) + 3" using k by simp
  show ?case
  proof (cases "status = STATUS_SUCCESS")
    case False
    have "\<not> spare (n + 3 * (m - k)) st" for n
      using m(3) [of "n + 3 * (m - Suc k)"] False unfolding need add.assoc [symmetric] by blast
    moreover have "inv st1" "pt_inv taken st1 root" "access_kept st root st1"
      using m(2) False by (simp_all add: descends_def)
    ultimately show ?thesis
      using m(1) k False by (intro exI [of _ False] exI [of _ st1]) (subst mapPages.simps, simp)
  next
    case True
    with m(2) have st1: "inv st1" "pt_inv taken st1 root"
      "\<And>va. translate st1 root va = (if pfx 4 va = pfx 4 (?va k) then Some (?leaf k) else translate st root va)"
      "access_kept st root st1" "tlb st1 (ALIGN_DOWN (?va k) PAGESIZE) = None"
      by (auto simp: mapped_def status_simps)
    from Suc.hyps(1) [OF k(2) st1(1,2)] obtain ok st' where r:
      "mapPages al (Some root) v p prot (4096 * Suc k) (4096 * m) st1 = Done (ok, st')"
      "inv st'" "pt_inv taken st' root" "\<And>n. spare (n + 3 * (m - Suc k)) st1 \<Longrightarrow> ok \<and> spare n st'"
      "ok \<Longrightarrow> Suc k \<le> j \<Longrightarrow> j < m \<Longrightarrow> pfx 4 va = pfx 4 (?va j) \<Longrightarrow> translate st' root va = Some (?leaf j)"
      "ok \<Longrightarrow> (\<And>j. Suc k \<le> j \<Longrightarrow> j < m \<Longrightarrow> pfx 4 va \<noteq> pfx 4 (?va j)) \<Longrightarrow>
         translate st' root va = translate st1 root va"
      "access_kept st1 root st'"
      "ok \<Longrightarrow> Suc k \<le> j \<Longrightarrow> j < m \<Longrightarrow> tlb st' (ALIGN_DOWN (?va j) PAGESIZE) = None" for j va
      by blast
    have "tlb st' (ALIGN_DOWN (?va j) PAGESIZE) = None" if ok "k \<le> j" "j < m" for j
      using that r(7) r(8) [of j] st1(5) by (cases "j = k") (simp_all add: access_kept_def)
    moreover have "access_kept st root st'" by (rule access_kept_trans [OF st1(4) r(7)])
    moreover
    have "translate st' root va = Some (?leaf j)"
      if ok "k \<le> j" "j < m" "pfx 4 va = pfx 4 (?va j)" for j va
    proof (cases "j = k")
      case False
      with that r(5) show ?thesis by simp
    next
      case j: True
      have "translate st' root va = translate st1 root va"
      proof (rule r(6) [OF that(1)])
        fix i assume "Suc k \<le> i" "i < m"
        then show "pfx 4 va \<noteq> pfx 4 (?va i)"
          using pages_distinct [of v j i m] that j assms(4) by auto
      qed
      with that j st1(3) show ?thesis by simp
    qed
    moreover have "translate st' root va = translate st root va"
      if ok "\<forall>j. k \<le> j \<and> j < m \<longrightarrow> pfx 4 va \<noteq> pfx 4 (?va j)" for va
      using that r(6) [of va] st1(3) [of va] k by simp
    moreover have "mapPages al (Some root) v p prot (4096 * k) (4096 * m) st = Done (ok, st')"
      using k m(1) True r(1) by (subst mapPages.simps) (simp add: add.commute)
    moreover have "spare (n + 3 * (m - k)) st \<longrightarrow> ok \<and> spare n st'" for n
      using m(3) [of "n + 3 * (m - Suc k)"] r(4) [of n] unfolding need add.assoc [symmetric] by blast
    ultimately show ?thesis using r(2,3) by blast
  qed
qed

end

text \<open>
  When the tables lose a page and the cache drops its entry, the two agree again. Where the
  tables had no entry there was none in the cache.
\<close>

lemma flush_coherent:
  assumes "canonical v" "tlb_coherent st root"
    and "\<And>va. effective st' root va = (if pfx 4 va = pfx 4 v then None else effective st root va)"
    and "tlb st' = tlb st \<and> translate st root v = None \<or> tlb st' = (tlb st)(ALIGN_DOWN v PAGESIZE := None)"
  shows "tlb_coherent st' root"
  unfolding tlb_coherent_def
proof (intro allI impI)
  fix va e assume va: "canonical va" "tlb st' (ALIGN_DOWN va PAGESIZE) = Some e"
  then have old: "tlb st (ALIGN_DOWN va PAGESIZE) = Some e" using assms(4) by (auto split: if_splits)
  with assms(2) va(1) have eff: "effective st root va = Some e" by (simp add: tlb_coherent_def)
  have "pfx 4 va \<noteq> pfx 4 v"
  proof
    assume p: "pfx 4 va = pfx 4 v"
    with translate_pfx [OF this, of st root] eff have "translate st root v \<noteq> None"
      by (auto simp: effective_def split: option.splits)
    with assms(4) va(2) canonical_same_page [OF va(1) assms(1) p] show False by simp
  qed
  with eff assms(3) show "effective st' root va = Some e" by simp
qed

section \<open>Properties\<close>

text \<open>
  C3 (a mapping is what the processor then finds). For a ready pool and a well-formed tree,
  \<^verbatim>\<open>mmuMapSingle\<close> returns. On \<^verbatim>\<open>STATUS_SUCCESS\<close> the processor's walk of every address in
  the page finds exactly the entry made of the frame and the protection flags, every other
  page translates as before, and the stale TLB entry is gone; otherwise the status is
  \<^verbatim>\<open>STATUS_NOT_MAPPED\<close> and no translation has changed. With three frames to spare, one for
  each table that may be missing, it succeeds. The tree and the pool stay well formed.
\<close>

theorem mmuMapSingle_walk:
  assumes "pool_ready st" "pt_inv frame_taken st root"
  shows "\<exists>status st'. mmuMapSingle (mmAllocFrame 1) (Some root) vBase pBase mFlags st = Done (status, st') \<and>
    pool_ready st' \<and> pt_inv frame_taken st' root \<and>
    (status = STATUS_SUCCESS \<and> tlb st' = (tlb st)(ALIGN_DOWN vBase PAGESIZE := None) \<and>
       (\<forall>va. translate st' root va =
          (if pfx 4 va = pfx 4 vBase then Some (ALIGN_DOWN pBase PAGESIZE OR mmuGetTableFlags mFlags)
           else translate st root va)) \<or>
     status = STATUS_NOT_MAPPED \<and> tlb st' = tlb st \<and> \<not> spare_frames 3 st \<and>
       (\<forall>va. translate st' root va = translate st root va))"
proof -
  obtain status st' where s: "mmuMapSingle (mmAllocFrame 1) (Some root) vBase pBase mFlags st = Done (status, st')"
    "status = STATUS_SUCCESS \<and>
       frames.mapped st root vBase (Some (ALIGN_DOWN pBase PAGESIZE OR mmuGetTableFlags mFlags)) st' \<or>
     status = STATUS_NOT_MAPPED \<and> frames.descends st root (ALIGN_DOWN vBase PAGESIZE) st'"
    "\<forall>k. spare_frames (k + 3) st \<longrightarrow> status = STATUS_SUCCESS \<and> spare_frames k st'"
    using frames.mmuMapSingle_spec [OF assms, of vBase pBase mFlags] by blast
  from s(3) [rule_format, of 0] s(1,2) show ?thesis
    by (auto simp: frames.mapped_def frames.descends_def status_simps)
qed

text \<open>The small machine again, with cleared memory and an empty root table in frame 2.\<close>

definition demo_mmu :: phys where
  "demo_mmu = demo_phys\<lparr>memory := (\<lambda>_. 0), cr3 := 0x2000\<rparr>"

lemma demo_mmu_ready: "pool_ready demo_mmu"
  using demo_phys_ready by (simp add: demo_mmu_def pool_ready_def wf_phys_def frame0_reserved_def)

lemma demo_mmu_walk [simp]: "tableAt demo_mmu root va (Suc d) = None"
  by (induction d) (simp_all add: entryAt_def demo_mmu_def split: option.split)

lemma demo_mmu_tree: "pt_inv frame_taken demo_mmu 0x2000"
proof -
  have taken: "frame_taken demo_mmu 0x2000"
    by (simp add: frame_taken_def bitAt_def demo_mmu_def)
  have walk: "tableAt demo_mmu 0x2000 va d = Some t \<longleftrightarrow> d = 0 \<and> t = 0x2000" for va d t
    by (cases d) (auto simp del: tableAt.simps(2))
  have "entryAt demo_mmu t i = 0" for t i by (simp add: entryAt_def demo_mmu_def)
  then show ?thesis
    unfolding pt_inv_def walk by (auto simp: taken page_aligned_def pfx_def)
qed

theorem mmuMapSingle_walk_witness:
  "\<exists>st'. mmuMapSingle (mmAllocFrame 1) (Some 0x2000) 0x40000000 0x5000 PAGE_READWRITE demo_mmu =
      Done (STATUS_SUCCESS, st') \<and> translate st' 0x2000 0x40000123 = Some 0x8000000000005003"
proof -
  let ?run = "mmuMapSingle (mmAllocFrame 1) (Some 0x2000) 0x40000000 0x5000 PAGE_READWRITE demo_mmu"
  have run: "(case ?run of Done (s, _) \<Rightarrow> s = STATUS_SUCCESS | _ \<Rightarrow> False)"
    unfolding demo_mmu_def demo_phys_def by code_simp
  have page: "pfx 4 0x40000123 = pfx 4 0x40000000"
    and leaf: "ALIGN_DOWN 0x5000 PAGESIZE OR mmuGetTableFlags PAGE_READWRITE = 0x8000000000005003"
    by (simp add: pfx_def) code_simp
  from mmuMapSingle_walk [OF demo_mmu_ready demo_mmu_tree, of "0x40000000" "0x5000" PAGE_READWRITE] run
  show ?thesis unfolding leaf by (auto simp: page status_simps)
qed

text \<open>
  C23 (unmapping). In a state whose pool is ready and whose tables form a proper tree,
  \<^verbatim>\<open>mmuUnmapSingle\<close> succeeds and keeps both. Afterwards the walk finds nothing for any address of
  the page and what it found before for all others. If moreover the address is canonical and the translation cache agreed
  with the tables before, then it agrees with them again, so what the processor uses, its cache
  included, is no entry for the page and the same entry as before, with the same rights, for every other.
\<close>

theorem mmuUnmapSingle_walk:
  assumes "pool_ready st" "pt_inv frame_taken st root"
  shows "\<exists>st'. mmuUnmapSingle (mmAllocFrame 1) (Some root) vBase st = Done (STATUS_SUCCESS, st') \<and>
    pool_ready st' \<and> pt_inv frame_taken st' root \<and>
    (\<forall>va. translate st' root va = (if pfx 4 va = pfx 4 vBase then None else translate st root va)) \<and>
    (canonical vBase \<longrightarrow> tlb_coherent st root \<longrightarrow> tlb_coherent st' root \<and>
      (\<forall>va. procEntry st' root va = (if pfx 4 va = pfx 4 vBase then None else procEntry st root va)))"
proof -
  obtain st' where st': "mmuUnmapSingle (mmAllocFrame 1) (Some root) vBase st = Done (STATUS_SUCCESS, st')"
    "frames.mapped st root vBase None st' \<or> translate st root vBase = None \<and> st' = st"
    using frames.mmuUnmapSingle_spec [OF assms] by blast
  have none: "translate st root va = None" if "translate st root vBase = None" "pfx 4 va = pfx 4 vBase" for va
    using translate_pfx [OF that(2)] that(1) by simp
  have tr: "\<forall>va. translate st' root va = (if pfx 4 va = pfx 4 vBase then None else translate st root va)"
    and inv: "pool_ready st' \<and> pt_inv frame_taken st' root"
    using st'(2) assms none unfolding frames.mapped_def by auto
  have eff: "effective st' root va = (if pfx 4 va = pfx 4 vBase then None else effective st root va)" for va
    using st'(2) tr none unfolding frames.mapped_def by (auto simp: effective_def)
  have co: "tlb_coherent st' root \<and>
      (\<forall>va. procEntry st' root va = (if pfx 4 va = pfx 4 vBase then None else procEntry st root va))"
    if "canonical vBase" "tlb_coherent st root"
  proof -
    have t': "tlb st' = tlb st \<and> translate st root vBase = None \<or> tlb st' = (tlb st)(ALIGN_DOWN vBase PAGESIZE := None)"
      using st'(2) unfolding frames.mapped_def by blast
    from that have c: "tlb_coherent st' root" by (rule flush_coherent [OF _ _ eff t'])
    have "procEntry st' root va = (if pfx 4 va = pfx 4 vBase then None else procEntry st root va)" for va
      using procEntry_coherent [OF c, of va] procEntry_coherent [OF that(2), of va] eff [of va]
      by (cases "canonical va") (simp_all add: procEntry_def)
    with c show ?thesis by blast
  qed
  with st'(1) tr inv show ?thesis by blast
qed

text \<open>The small machine after one page was mapped.\<close>

definition demo_mapped :: phys where
  "demo_mapped = (case mmuMapSingle (mmAllocFrame 1) (Some 0x2000) 0x40000000 0x5000 PAGE_READWRITE demo_mmu
     of Done (_, st) \<Rightarrow> st | _ \<Rightarrow> demo_mmu)"

lemma demo_map_run: "case mmuMapSingle (mmAllocFrame 1) (Some 0x2000) 0x40000000 0x5000 PAGE_READWRITE demo_mmu
    of Done (s, _) \<Rightarrow> s = STATUS_SUCCESS | _ \<Rightarrow> False"
  unfolding demo_mmu_def demo_phys_def by code_simp

lemma demo_mapped_state:
  "pool_ready demo_mapped" "pt_inv frame_taken demo_mapped 0x2000"
  "translate demo_mapped 0x2000 0x40000123 = Some 0x8000000000005003" "open_path demo_mapped 0x2000 va"
proof -
  have "open_path demo_mmu 0x2000 va"
  proof -
    have "levelEntry demo_mmu 0x2000 va d = 0" for d
      by (simp add: levelEntry_def split: option.split) (simp add: entryAt_def demo_mmu_def)
    then show ?thesis by (simp add: open_path_def)
  qed
  then have o: "access_kept demo_mmu 0x2000 st \<Longrightarrow> open_path st 0x2000 va" for st by (simp add: access_kept_def)
  have leaf: "ALIGN_DOWN 0x5000 PAGESIZE OR mmuGetTableFlags PAGE_READWRITE = 0x8000000000005003"
    and base: "ALIGN_DOWN 0x40000000 PAGESIZE = 0x40000000" by code_simp+
  have page: "pfx 4 0x40000123 = pfx 4 0x40000000" by (simp add: pfx_def)
  note spec = frames.mmuMapSingle_spec [OF demo_mmu_ready demo_mmu_tree,
      of "0x40000000" "0x5000" PAGE_READWRITE, unfolded leaf base]
  from spec demo_map_run show "pool_ready demo_mapped" "pt_inv frame_taken demo_mapped 0x2000"
    "translate demo_mapped 0x2000 0x40000123 = Some 0x8000000000005003" "open_path demo_mapped 0x2000 va"
    by (auto simp: demo_mapped_def frames.mapped_def page status_simps intro: o)
qed

text \<open>The same machine after an access to the page: the translation cache holds its entry.\<close>

definition demo_cached :: phys where
  "demo_cached = demo_mapped\<lparr>tlb := [0x40000000 \<mapsto> 0x8000000000005003]\<rparr>"

lemma demo_cached_walks: "translate demo_cached root va = translate demo_mapped root va"
    "effective demo_cached root va = effective demo_mapped root va"
    "pt_inv frame_taken demo_cached root = pt_inv frame_taken demo_mapped root" "pool_ready demo_cached = pool_ready demo_mapped"
  unfolding demo_cached_def
  by (rule same_walks, simp_all)+ (simp_all add: frames.taken_tlb frames.inv_tlb)

lemma demo_cached_state:
  "pool_ready demo_cached" "pt_inv frame_taken demo_cached 0x2000" "tlb_coherent demo_cached 0x2000"
  "canonical va \<Longrightarrow> ALIGN_DOWN va PAGESIZE = 0x40000000 \<Longrightarrow> procEntry demo_cached 0x2000 va = Some 0x8000000000005003"
proof -
  show "pool_ready demo_cached" "pt_inv frame_taken demo_cached 0x2000"
    using demo_mapped_state(1,2) by (simp_all add: demo_cached_walks)
  have page: "effective demo_cached 0x2000 va = Some 0x8000000000005003" if "ALIGN_DOWN va PAGESIZE = 0x40000000" for va
  proof -
    have "pfx 4 va = pfx 4 0x40000000" using pfx_page [of va] unfolding that by simp
    then have "translate demo_mapped 0x2000 va = Some 0x8000000000005003"
      using demo_mapped_state(3) translate_pfx [of va "0x40000123" demo_mapped "0x2000"] by (simp add: pfx_def)
    then show ?thesis using open_effective [OF demo_mapped_state(4)] by (simp add: demo_cached_walks)
  qed
  then show "tlb_coherent demo_cached 0x2000"
    by (auto simp: tlb_coherent_def) (simp add: demo_cached_def split: if_splits)
  show "canonical va \<Longrightarrow> ALIGN_DOWN va PAGESIZE = 0x40000000 \<Longrightarrow> procEntry demo_cached 0x2000 va = Some 0x8000000000005003"
    by (simp add: procEntry_def demo_cached_def)
qed

theorem mmuUnmapSingle_walk_witness:
  "procEntry demo_cached 0x2000 0x40000123 = Some 0x8000000000005003 \<and>
   (\<exists>st'. mmuUnmapSingle (mmAllocFrame 1) (Some 0x2000) 0x40000FFF demo_cached = Done (STATUS_SUCCESS, st') \<and>
     translate st' 0x2000 0x40000123 = None \<and> procEntry st' 0x2000 0x40000123 = None)"
proof -
  have page: "pfx 4 0x40000123 = pfx 4 0x40000FFF" by (simp add: pfx_def)
  have base: "ALIGN_DOWN 0x40000123 PAGESIZE = 0x40000000" by code_simp
  have can: "canonical 0x40000123" "canonical 0x40000FFF" by (simp_all add: canonical_def)
  from mmuUnmapSingle_walk [OF demo_cached_state(1,2), of "0x40000FFF"] can(2) demo_cached_state(3)
    demo_cached_state(4) [OF can(1) base]
  show ?thesis by (auto simp: page)
qed

text \<open>
  C27 (a new address space shares the kernel half). With a ready pool and a well-formed current tree, \<^verbatim>\<open>mmuCreateVas\<close> either reports
  \<^verbatim>\<open>STATUS_NO_MEMORY\<close> because the allocator returned 0, or returns a root that was free
  before, under which no address of the lower half translates and every address of the upper
  half translates as under the current root. The new tables form a proper tree again. With a
  frame to spare the allocator does not return 0.
\<close>

theorem mmuCreateVas_halves:
  assumes "pool_ready st" "pt_inv frame_taken st (cr3 st AND PTE_ADDR_MASK)"
  shows "\<exists>a st1. mmAllocFrame 1 st = Done (a, st1) \<and>
    (a = 0 \<and> mmuCreateVas (mmAllocFrame 1) st = Done (STATUS_NO_MEMORY, None, st1) \<or>
     a \<noteq> 0 \<and> page_aligned a \<and> \<not> frame_taken st a \<and>
     (\<exists>st'. mmuCreateVas (mmAllocFrame 1) st = Done (STATUS_SUCCESS, Some a, st') \<and>
       pool_ready st' \<and> pt_inv frame_taken st' a \<and>
       (\<forall>va. translate st' a va = (if hwIdx 0 va < 256 then None
          else translate st (cr3 st AND PTE_ADDR_MASK) va)))) \<and>
    (spare_frames 1 st \<longrightarrow> a \<noteq> 0)"
  using frames.mmuCreateVas_spec [OF assms] by blast

theorem mmuCreateVas_halves_witness:
  "\<exists>st'. mmuCreateVas (mmAllocFrame 1) demo_mmu = Done (STATUS_SUCCESS, Some 0x3000, st') \<and>
     translate st' 0x3000 0x1000 = None"
proof -
  have cr3: "cr3 demo_mmu AND PTE_ADDR_MASK = 0x2000" by (simp add: demo_mmu_def PTE_ADDR_MASK_def)
  have al: "(case mmAllocFrame 1 demo_mmu of Done (a, _) \<Rightarrow> a = 0x3000 | _ \<Rightarrow> False)"
    unfolding demo_mmu_def demo_phys_def by code_simp
  have idx: "hwIdx 0 0x1000 < 256" by (simp add: hwIdx_def)
  from mmuCreateVas_halves [OF demo_mmu_ready, unfolded cr3, OF demo_mmu_tree] al
  show ?thesis using idx by auto
qed

lemma mmMapPages_run:
  assumes "pool_ready st" "pt_inv frame_taken st root"
    and "unat (ALIGN_UP (rgByteCount r) PAGESIZE) = 4096 * m" "m \<le> 2 ^ 36"
  shows "\<exists>ok st'. mmMapPages (mmAllocFrame 1) (Some root) (Some r) prot st =
      Done (if ok then ALIGN_DOWN (rgVBase r) PAGESIZE else 0,
        Some \<lparr>rgPBase = ALIGN_DOWN (rgPBase r) PAGESIZE, rgVBase = ALIGN_DOWN (rgVBase r) PAGESIZE,
              rgByteCount = ALIGN_UP (rgByteCount r) PAGESIZE\<rparr>, st') \<and>
    pool_ready st' \<and> pt_inv frame_taken st' root \<and> (\<forall>n. spare_frames (n + 3 * m) st \<longrightarrow> ok \<and> spare_frames n st') \<and>
    access_kept st root st' \<and>
    (ok \<longrightarrow> (\<forall>j < m. tlb st' (ALIGN_DOWN (ALIGN_DOWN (rgVBase r) PAGESIZE + of_nat (4096 * j)) PAGESIZE) = None) \<and>
      (\<forall>j < m. \<forall>va. pfx 4 va = pfx 4 (ALIGN_DOWN (rgVBase r) PAGESIZE + of_nat (4096 * j)) \<longrightarrow>
         translate st' root va =
           Some ((ALIGN_DOWN (rgPBase r) PAGESIZE + of_nat (4096 * j)) OR mmuGetTableFlags prot)) \<and>
      (\<forall>va. (\<forall>j < m. pfx 4 va \<noteq> pfx 4 (ALIGN_DOWN (rgVBase r) PAGESIZE + of_nat (4096 * j))) \<longrightarrow>
         translate st' root va = translate st root va))"
proof -
  from frames.mapPages_spec [OF assms(1,2) page_aligned_ALIGN_DOWN assms(4),
      of "ALIGN_DOWN (rgVBase r) PAGESIZE" "rgPBase r" prot 0]
  obtain ok st' where m:
    "mapPages (mmAllocFrame 1) (Some root) (ALIGN_DOWN (rgVBase r) PAGESIZE)
       (ALIGN_DOWN (rgPBase r) PAGESIZE) prot 0 (4096 * m) st = Done (ok, st')"
    "pool_ready st'" "pt_inv frame_taken st' root" "\<forall>n. spare_frames (n + 3 * (m - 0)) st \<longrightarrow> ok \<and> spare_frames n st'"
    "access_kept st root st'"
    "ok \<longrightarrow> (\<forall>j. 0 \<le> j \<and> j < m \<longrightarrow>
         tlb st' (ALIGN_DOWN (ALIGN_DOWN (rgVBase r) PAGESIZE + of_nat (4096 * j)) PAGESIZE) = None) \<and>
       (\<forall>j va. 0 \<le> j \<and> j < m \<and>
         pfx 4 va = pfx 4 (ALIGN_DOWN (rgVBase r) PAGESIZE + of_nat (4096 * j)) \<longrightarrow>
         translate st' root va =
           Some ((ALIGN_DOWN (rgPBase r) PAGESIZE + of_nat (4096 * j)) OR mmuGetTableFlags prot)) \<and>
      (\<forall>va. (\<forall>j. 0 \<le> j \<and> j < m \<longrightarrow>
           pfx 4 va \<noteq> pfx 4 (ALIGN_DOWN (rgVBase r) PAGESIZE + of_nat (4096 * j))) \<longrightarrow>
         translate st' root va = translate st root va)"
    unfolding mult_0_right by (elim exE conjE) (rule that)
  then show ?thesis
    by (intro exI [of _ ok] exI [of _ st']) (simp add: mmMapPages_def Let_def assms(3))
qed

text \<open>
  A region maps page by page. For a region of at most \<open>2 ^ 36\<close> pages \<^verbatim>\<open>mmMapPages\<close>
  returns; when it returns the (aligned) virtual base, page \<open>j\<close> of the virtual region leads
  to page \<open>j\<close> of the physical region with the flags asked for, and every page outside
  translates as before. The other result is 0, after a refused page; with three frames to spare
  for every page nothing is refused.
\<close>

theorem mmMapPages_region:
  assumes "pool_ready st" "pt_inv frame_taken st root"
    and "unat (ALIGN_UP (rgByteCount r) PAGESIZE) = 4096 * m" "m \<le> 2 ^ 36"
  shows "\<exists>ok st'. mmMapPages (mmAllocFrame 1) (Some root) (Some r) prot st =
      Done (if ok then ALIGN_DOWN (rgVBase r) PAGESIZE else 0,
        Some \<lparr>rgPBase = ALIGN_DOWN (rgPBase r) PAGESIZE, rgVBase = ALIGN_DOWN (rgVBase r) PAGESIZE,
              rgByteCount = ALIGN_UP (rgByteCount r) PAGESIZE\<rparr>, st') \<and>
    pool_ready st' \<and> pt_inv frame_taken st' root \<and> (\<forall>n. spare_frames (n + 3 * m) st \<longrightarrow> ok \<and> spare_frames n st') \<and>
    (ok \<longrightarrow>
      (\<forall>j < m. \<forall>va. pfx 4 va = pfx 4 (ALIGN_DOWN (rgVBase r) PAGESIZE + of_nat (4096 * j)) \<longrightarrow>
         translate st' root va =
           Some ((ALIGN_DOWN (rgPBase r) PAGESIZE + of_nat (4096 * j)) OR mmuGetTableFlags prot)) \<and>
      (\<forall>va. (\<forall>j < m. pfx 4 va \<noteq> pfx 4 (ALIGN_DOWN (rgVBase r) PAGESIZE + of_nat (4096 * j))) \<longrightarrow>
         translate st' root va = translate st root va))"
  using mmMapPages_run [OF assms, of prot] by blast

theorem mmMapPages_region_witness:
  "\<exists>region st'. mmMapPages (mmAllocFrame 1) (Some 0x2000)
      (Some \<lparr>rgPBase = 0x5000, rgVBase = 0x40000123, rgByteCount = 0xFFF\<rparr>) PAGE_READONLY demo_mmu =
      Done (0x40000000, region, st') \<and> translate st' 0x2000 0x40000234 = Some 0x8000000000005001"
proof -
  let ?r = "\<lparr>rgPBase = 0x5000, rgVBase = 0x40000123, rgByteCount = 0xFFF\<rparr>"
  let ?run = "mmMapPages (mmAllocFrame 1) (Some 0x2000) (Some ?r) PAGE_READONLY demo_mmu"
  have run: "(case ?run of Done (v, _) \<Rightarrow> v = 0x40000000 | _ \<Rightarrow> False)"
    unfolding demo_mmu_def demo_phys_def by code_simp
  have vb: "ALIGN_DOWN 0x40000123 PAGESIZE = 0x40000000" by code_simp
  have pb: "ALIGN_DOWN 0x5000 PAGESIZE = 0x5000" by code_simp
  have size: "unat (ALIGN_UP (rgByteCount ?r) PAGESIZE) = 4096 * 1" by code_simp
  have leaf: "(0x5000 + of_nat (4096 * 0)) OR mmuGetTableFlags PAGE_READONLY = 0x8000000000005001"
    by code_simp
  have page: "pfx 4 0x40000234 = pfx 4 (0x40000000 + of_nat (4096 * 0))" by (simp add: pfx_def)
  have small: "(1 :: nat) \<le> 2 ^ 36" by simp
  obtain ok st' where r: "?run = Done (if ok then ALIGN_DOWN (rgVBase ?r) PAGESIZE else 0,
      Some \<lparr>rgPBase = ALIGN_DOWN (rgPBase ?r) PAGESIZE, rgVBase = ALIGN_DOWN (rgVBase ?r) PAGESIZE,
            rgByteCount = ALIGN_UP (rgByteCount ?r) PAGESIZE\<rparr>, st')"
    "ok \<longrightarrow> (\<forall>j < 1. \<forall>va. pfx 4 va = pfx 4 (ALIGN_DOWN (rgVBase ?r) PAGESIZE + of_nat (4096 * j)) \<longrightarrow>
         translate st' 0x2000 va =
           Some ((ALIGN_DOWN (rgPBase ?r) PAGESIZE + of_nat (4096 * j)) OR mmuGetTableFlags PAGE_READONLY)) \<and>
      (\<forall>va. (\<forall>j < 1. pfx 4 va \<noteq> pfx 4 (ALIGN_DOWN (rgVBase ?r) PAGESIZE + of_nat (4096 * j))) \<longrightarrow>
         translate st' 0x2000 va = translate demo_mmu 0x2000 va)"
    using mmMapPages_region [OF demo_mmu_ready demo_mmu_tree size small, of PAGE_READONLY]
    by (elim exE conjE) (rule that)
  from r(1) have r1: "?run = Done (if ok then 0x40000000 else 0,
      Some \<lparr>rgPBase = 0x5000, rgVBase = 0x40000000, rgByteCount = ALIGN_UP 0xFFF PAGESIZE\<rparr>, st')"
    by (simp add: vb pb)
  with run have "ok" by (cases ok) auto
  moreover from r(2) [THEN mp, OF this, THEN conjunct1, rule_format, of 0 "0x40000234"] page leaf
  have "translate st' 0x2000 0x40000234 = Some 0x8000000000005001"
    by (simp add: vb pb)
  ultimately show ?thesis using r1 by auto
qed

end
