(* ===== verification/PageKeep.thy ===== *)
theory PageKeep
  imports Mmu
begin

text \<open>
  What mapping pages and allocating frames leave alone: the content of all pages that are in use
  and are no page tables, the direct map's base, and the tables of other trees. Shared by the
  creation of processes and the program loader.
\<close>

section \<open>Pages that are no tables\<close>

lemma pages_apart:
  assumes "page_aligned g" "page_aligned f" "x - (g + kb) < 4096" "x - (f + kb) < (4096 :: uquad)"
  shows "g = f"
proof -
  define y where "y = x - (g + kb)"
  have y: "unat y < 4096" using assms(3) by (simp add: y_def word_less_nat_alt)
  have eq: "x - (f + kb) = g + y - f" by (simp add: y_def algebra_simps)
  have l: "unat (g + y - f) < 4096" using assms(4) unfolding eq word_less_nat_alt by simp
  obtain a b where ab: "unat g = 4096 * a" "unat f = 4096 * b"
    using assms(1,2) by (auto simp: page_aligned_dvd elim!: dvdE)
  have "unat (f + (g + y - f)) = unat f + unat (g + y - f)"
    using l page_aligned_room [OF assms(2)] by (intro unat_plus_small) simp
  moreover have "unat (g + y) = unat g + unat y"
    using y page_aligned_room [OF assms(1)] by (intro unat_plus_small) simp
  ultimately have "4096 * a + unat y = 4096 * b + unat (g + y - f)" using ab by simp
  with y l have "a = b" by linarith
  with ab show ?thesis by (simp add: word_unat_eq_iff)
qed

definition data_page :: "(phys \<Rightarrow> ulong_ptr \<Rightarrow> bool) \<Rightarrow> phys \<Rightarrow> uquad \<Rightarrow> ulong_ptr \<Rightarrow> bool" where
  "data_page taken st root g \<longleftrightarrow> taken st g \<and> page_aligned g \<and> (\<forall>va d. d \<le> 3 \<longrightarrow> tableAt st root va d \<noteq> Some g)"

definition keeps :: "(phys \<Rightarrow> ulong_ptr \<Rightarrow> bool) \<Rightarrow> uquad \<Rightarrow> phys \<Rightarrow> phys \<Rightarrow> bool" where
  "keeps taken root st st' \<longleftrightarrow> kernelBase st' = kernelBase st \<and>
     (\<forall>g. data_page taken st root g \<longrightarrow> data_page taken st' root g \<and>
       (\<forall>x. x - PHYS_TO_VIRT st g < 4096 \<longrightarrow> memory st' x = memory st x))"

lemma keeps_refl: "keeps taken root st st"
  by (simp add: keeps_def)

lemma keeps_trans: "keeps taken root st st1 \<Longrightarrow> keeps taken root st1 st2 \<Longrightarrow> keeps taken root st st2"
  by (auto simp: keeps_def PHYS_TO_VIRT_def)

lemma data_pageD:
  assumes "data_page taken st root g"
  shows "taken st g" "page_aligned g" "d \<le> 3 \<Longrightarrow> tableAt st root va d \<noteq> Some g"
  using assms unfolding data_page_def by blast+

text \<open>The walk's tables are no data pages, so a write to a table's slot is outside of them.\<close>

lemma slot_outside:
  assumes "data_page taken st root g" "pt_inv taken st root" "d \<le> 3" "tableAt st root va d = Some t" "i < 512"
  shows "\<not> t + kernelBase st + 8 * of_nat i - PHYS_TO_VIRT st g < 4096"
proof -
  have "page_aligned t" by (rule tableAt_aligned [OF pt_invD(1) [OF assms(2)] assms(4)])
  moreover have "t \<noteq> g" using data_pageD(3) [OF assms(1,3)] assms(4) by blast
  ultimately show ?thesis
    using slot_in_page [OF _ data_pageD(2) [OF assms(1)] assms(5)] by (simp add: PHYS_TO_VIRT_def)
qed

lemma keeps_leaf:
  assumes "pt_inv taken st root" "tableAt st root w 3 = Some t"
    and "taken (set_leaf t (hwIdx 3 w) v st) = taken st"
  shows "keeps taken root st (set_leaf t (hwIdx 3 w) v st)"
  unfolding keeps_def
proof (intro conjI allI impI)
  show "kernelBase (set_leaf t (hwIdx 3 w) v st) = kernelBase st" by (simp add: set_leaf_def)
  fix g assume g: "data_page taken st root g"
  then show "data_page taken (set_leaf t (hwIdx 3 w) v st) root g"
    using tableAt_leaf [OF assms(1,2)] assms(3) by (simp add: data_page_def)
  fix x :: uquad assume "x - PHYS_TO_VIRT st g < 4096"
  with slot_outside [OF g assms(1) _ assms(2) hwIdx_less [of 3 w]]
  show "memory (set_leaf t (hwIdx 3 w) v st) x = memory st x"
    by (auto simp: set_leaf_def)
qed

context frame_allocator
begin

lemma keeps_al:
  assumes "inv st" "al st = Done (a, st')" "pt_inv taken st root"
  shows "keeps taken root st st'"
  unfolding keeps_def
proof (intro conjI allI impI)
  show "kernelBase st' = kernelBase st" using al_machine [OF assms(1,2)] by simp
  fix g assume g: "data_page taken st root g"
  show "data_page taken st' root g"
    using data_pageD [OF g] al_grows [OF assms(1,2)] al_tree(1) [OF assms] by (simp add: data_page_def)
  fix x assume x: "x - PHYS_TO_VIRT st g < 4096"
  have "a = 0 \<or> \<not> x - PHYS_TO_VIRT st a < 4096"
    using pages_apart [OF data_pageD(2) [OF g], of a x "kernelBase st"] x al_fresh [OF assms(1,2)] data_pageD(1) [OF g]
    by (auto simp: PHYS_TO_VIRT_def)
  then show "memory st' x = memory st x" by (rule al_memory [OF assms(1,2)])
qed

lemma keeps_link:
  assumes lk: "linkable taken st root va d t f"
    and g: "data_page taken st root g" "g \<noteq> f"
  shows "data_page taken (link_table t (hwIdx d va) f st) root g"
    "x - PHYS_TO_VIRT st g < 4096 \<Longrightarrow> memory (link_table t (hwIdx d va) f st) x = memory st x"
proof -
  have "taken (link_table t (hwIdx d va) f st) = taken st" by (simp add: link_table_def)
  then show "data_page taken (link_table t (hwIdx d va) f st) root g"
    using data_pageD [OF g(1)] g(2) tableAt_link [OF lk] by (simp add: data_page_def)
  show "x - PHYS_TO_VIRT st g < 4096 \<Longrightarrow> memory (link_table t (hwIdx d va) f st) x = memory st x"
    using slot_outside [OF g(1) linkableD(1,3,4) [OF lk] hwIdx_less [of d va]] by (auto simp: link_table_def)
qed

lemma keeps_al_link:
  assumes "inv st" "al st = Done (f, st1)" "pt_inv taken st root" "f \<noteq> 0"
    and lk: "linkable taken st1 root va d t f"
  shows "keeps taken root st (link_table t (hwIdx d va) f st1)"
proof -
  have k: "keeps taken root st st1" by (rule keeps_al [OF assms(1-3)])
  have "g \<noteq> f" if "data_page taken st root g" for g
    using data_pageD(1) [OF that] al_fresh [OF assms(1,2,4)] by blast
  then show ?thesis
    using k keeps_link [OF lk] by (auto simp: keeps_def PHYS_TO_VIRT_def) (auto simp: link_table_def)
qed

lemma mmuDescend_keeps:
  assumes "inv st" "pt_inv taken st root" "d \<le> 3" "tableAt st root va d = Some t"
    and "mmuDescend al va MAP_LEVEL_PT True (level_at d) (PHYS_TO_VIRT st t) st = Done (a, st')"
  shows "keeps taken root st st'"
  using assms
proof (induction "3 - d" arbitrary: d t st)
  case 0
  then have "d = 3" by simp
  with 0(6) have "st' = st" by (subst (asm) mmuDescend.simps) (auto simp: level_at.simps less_map_level_def)
  then show ?case by (simp add: keeps_refl)
next
  case (Suc k)
  then have d: "d < 3" "d \<le> 3" "k = 3 - Suc d" "Suc d \<le> 3" by auto
  obtain i where i: "mmuGetLevelIdx va (level_at d) = Done i" "unat i = hwIdx d va"
    using mmuGetLevelIdx_hw [OF d(2), of va] by blast
  let ?e = "entryAt st t (hwIdx d va)"
  have ent: "memory st (slot (PHYS_TO_VIRT st t) i) = ?e"
    by (simp add: slot_hw [OF i(2)] entryAt_def)
  have less: "MAP_LEVEL_PT < level_at d" using level_at_gt [OF d(2)] d(1) by simp
  have down: "prev_level (level_at d) = level_at (Suc d)" using d(1) by (rule prev_level_at)
  show ?case
  proof (cases "?e AND PTE_P = 0")
    case False
    with Suc.prems(4) pt_invD(4) [OF Suc.prems(2) d(1) Suc.prems(4)]
    have next_t: "tableAt st root va (Suc d) = Some (?e AND PTE_ADDR_MASK)" by (simp add: Let_def)
    from False Suc.prems(5)
    have "mmuDescend al va MAP_LEVEL_PT True (level_at (Suc d)) (PHYS_TO_VIRT st (?e AND PTE_ADDR_MASK)) st = Done (a, st')"
      by (subst (asm) mmuDescend.simps) (auto simp: less i ent down Let_def)
    then show ?thesis by (rule Suc.hyps(1) [OF d(3) Suc.prems(1,2) d(4) next_t])
  next
    case True
    obtain f st1 where f: "al st = Done (f, st1)" using al_returns [OF Suc.prems(1)] by blast
    note al_st = Suc.prems(1) f Suc.prems(2)
    show ?thesis
    proof (cases "f = 0")
      case f0: True
      with True f Suc.prems(5) have "st' = st1"
        by (subst (asm) mmuDescend.simps) (simp add: less i ent Let_def)
      then show ?thesis using keeps_al [OF al_st] by simp
    next
      case f1: False
      note lk = al_linkable [OF al_st f1 d(1) Suc.prems(4) True]
      let ?st2 = "link_table t (hwIdx d va) f st1"
      have kb: "kernelBase st1 = kernelBase st" using al_machine [OF Suc.prems(1) f] by simp
      have "mmuDescend al va MAP_LEVEL_PT True (level_at (Suc d)) (PHYS_TO_VIRT ?st2 f) ?st2 = Done (a, st')"
        using True f1 f Suc.prems(5) by (subst (asm) mmuDescend.simps)
          (simp add: less i down Let_def store_store slot_hw [OF i(2)] link_table_def kb flip: entryAt_def)
      moreover have "tableAt ?st2 root va (Suc d) = Some f" using tableAt_link [OF lk d(4), of va] by simp
      moreover have "inv ?st2" "pt_inv taken ?st2 root"
        using al_inv [OF Suc.prems(1) f] pt_inv_link [OF lk] by simp_all
      ultimately have "keeps taken root ?st2 st'" using Suc.hyps(1) [OF d(3) _ _ d(4)] by blast
      then show ?thesis by (rule keeps_trans [OF keeps_al_link [OF al_st f1 lk]])
    qed
  qed
qed

lemma keeps_flush: "keeps taken root st st' \<Longrightarrow> keeps taken root st (mmuTlbFlush v st')"
  by (simp add: keeps_def data_page_def)

lemma mmuMapSingle_keeps:
  assumes "inv st" "pt_inv taken st root" "mmuMapSingle al (Some root) v p fl st = Done (status, st')"
  shows "keeps taken root st st'"
proof -
  let ?v = "ALIGN_DOWN v PAGESIZE"
  obtain a st1 where d: "mmuDescend al ?v MAP_LEVEL_PT True (level_at 0) (PHYS_TO_VIRT st root) st = Done (a, st1)"
    "descends st root ?v st1" "a = 0 \<or> tableAt st1 root ?v 3 = Some a"
    using mmuDescend_alloc [OF assms(1,2), of 0 ?v root] by auto
  have k: "keeps taken root st st1" by (rule mmuDescend_keeps [OF assms(1,2) _ _ d(1)]) simp_all
  obtain i where i: "mmuGetLevelIdx ?v MAP_LEVEL_PT = Done i" "unat i = hwIdx 3 ?v" using leafIdx by blast
  show ?thesis
  proof (cases "a = 0")
    case True
    with assms(3) d(1) k show ?thesis by (simp add: mmuMapSingle_def Let_def mmuGetLevelPhys_root)
  next
    case False
    with d(3) have t: "tableAt st1 root ?v 3 = Some a" by simp
    have pt: "pt_inv taken st1 root" using d(2) by (simp add: descends_def)
    let ?e = "ALIGN_DOWN p PAGESIZE OR mmuGetTableFlags fl"
    have "keeps taken root st1 (set_leaf a (hwIdx 3 ?v) ?e st1)"
      by (rule keeps_leaf [OF pt t]) (simp add: set_leaf_def)
    moreover have "st' = mmuTlbFlush ?v (set_leaf a (hwIdx 3 ?v) ?e st1)"
      using assms(3) d(1) i(1) False
      by (simp add: mmuMapSingle_def Let_def mmuGetLevelPhys_root slot_hw [OF i(2)] set_leaf_def)
    ultimately show ?thesis using keeps_trans [OF k] keeps_flush by blast
  qed
qed

lemma mapPages_keeps:
  assumes "inv st" "pt_inv taken st root" "mapPages al (Some root) v p prot (4096 * k) (4096 * m) st = Done (ok, st')"
  shows "keeps taken root st st'"
  using assms
proof (induction "m - k" arbitrary: k st)
  case 0
  then have "st' = st" by (subst (asm) mapPages.simps) simp
  then show ?case by (simp add: keeps_refl)
next
  case (Suc n)
  then have k: "k < m" "n = m - Suc k" by auto
  obtain status st1 where m: "mmuMapSingle al (Some root) (v + of_nat (4096 * k)) (p + of_nat (4096 * k)) prot st = Done (status, st1)"
    "inv st1" "pt_inv taken st1 root"
    using mmuMapSingle_spec [OF Suc.prems(1,2), of "v + of_nat (4096 * k)" "p + of_nat (4096 * k)" prot]
    by (auto simp: mapped_def descends_def)
  have k1: "keeps taken root st st1" by (rule mmuMapSingle_keeps [OF Suc.prems(1,2) m(1)])
  show ?case
  proof (cases "status = STATUS_SUCCESS")
    case False
    with Suc.prems(3) m(1) k(1) have "st' = st1" by (subst (asm) mapPages.simps) simp
    with k1 show ?thesis by simp
  next
    case True
    with Suc.prems(3) m(1) k(1) have "mapPages al (Some root) v p prot (4096 * Suc k) (4096 * m) st1 = Done (ok, st')"
      by (subst (asm) mapPages.simps) (simp add: add.commute)
    from Suc.hyps(1) [OF k(2) m(2,3) this] show ?thesis by (rule keeps_trans [OF k1])
  qed
qed

end

lemma mmuCreateVas_base:
  assumes "pool_ready st" "mmuCreateVas (mmAllocFrame 1) st = Done (status, vas, st')"
  shows "kernelBase st' = kernelBase st"
proof -
  obtain a st1 where a: "mmAllocFrame 1 st = Done (a, st1)" using frames.al_returns [OF assms(1)] by blast
  with assms(2) frames.al_machine [OF assms(1) a] show ?thesis
    by (auto simp: mmuCreateVas_def Let_def split: if_splits)
qed

lemma mmMapPages_keeps:
  assumes "pool_ready st" "pt_inv frame_taken st root" "unat (ALIGN_UP (rgByteCount r) PAGESIZE) = 4096 * m"
    and "mmMapPages (mmAllocFrame 1) (Some root) (Some r) prot st = Done (v, rg, st')"
  shows "keeps frame_taken root st st'"
proof -
  obtain ok where "mapPages (mmAllocFrame 1) (Some root) (ALIGN_DOWN (rgVBase r) PAGESIZE) (ALIGN_DOWN (rgPBase r) PAGESIZE)
      prot 0 (4096 * m) st = Done (ok, st')"
    using assms(3,4) by (auto simp: mmMapPages_def Let_def)
  then show ?thesis
    using frames.mapPages_keeps [OF assms(1,2), of "ALIGN_DOWN (rgVBase r) PAGESIZE" _ prot 0 m ok st'] by simp
qed

section \<open>Allocating a run of frames\<close>

lemma mmAllocFrame_run:
  assumes "pool_ready st" "spare_frames (unat c + k) st" "0 < unat c"
  shows "\<exists>a st'. mmAllocFrame c st = Done (a, st') \<and> a \<noteq> 0 \<and> page_aligned a \<and> unat a + 4096 * unat c < 2 ^ 43 \<and>
    pool_ready st' \<and> spare_frames k st' \<and> kernelBase st' = kernelBase st \<and> cr3 st' = cr3 st \<and>
    (\<forall>b. frame_taken st b \<longrightarrow> frame_taken st' b) \<and>
    (\<forall>j < unat c. \<not> frame_taken st (a + of_nat (4096 * j)) \<and> frame_taken st' (a + of_nat (4096 * j))) \<and>
    memory st' = zeroRange (PHYS_TO_VIRT st a) (c * PAGESIZE) (memory st)"
proof -
  let ?hi = "unat (highestFrameIdx st)" and ?c = "unat c"
  obtain s where s: "is_run (bitmap st) ?hi (?c + k) s" using assms(2,3) by (auto simp: spare_frames_def)
  then have c_run: "is_run (bitmap st) ?hi ?c s" by (auto simp: is_run_iff)
  have small: "?hi < 2 ^ 31" using assms(1) by (simp add: pool_ready_def wf_phys_def)
  obtain a st' where al: "mmAllocFrame c st = Done (a, st')" using mmAllocFrame_returns [OF assms(1)] by blast
  from assms(1) al show ?thesis
  proof (cases rule: mmAllocFrame_cases)
    case none
    with c_run show ?thesis by (auto simp: first_run_None_iff)
  next
    case (some s0 bm)
    have le: "s0 \<le> s" using some(1) c_run by (auto simp: first_run_Some_iff not_less [symmetric])
    have "is_run bm ?hi k (s + ?c)" using s some(6) le by (auto simp: is_run_iff)
    moreover have "s + ?c < ?hi" using c_run by (auto simp: is_run_iff)
    ultimately have spare: "spare_frames k st'" using some(4) by (auto simp: spare_frames_def)
    have "4096 * (s0 + ?c) < 4096 * 2 ^ 31" using some(7) small by simp
    then have room: "unat a + 4096 * ?c < 2 ^ 43" using some(8) by simp
    have frame: "unat (a + of_nat (4096 * j)) div 4096 = s0 + j" if "j < ?c" for j
    proof -
      have "4096 * j < 4096 * ?c" using that by simp
      then have "unat (of_nat (4096 * j) :: uquad) = 4096 * j" using room by (intro unat_of_nat_quad) simp
      moreover have "unat a + 4096 * j < 2 ^ 64" using room that by simp
      ultimately have "unat (a + of_nat (4096 * j)) = unat a + 4096 * j" by (simp add: unat_plus_small del: of_nat_mult)
      with some(8) show ?thesis by simp
    qed
    have "pool_ready st'"
    proof -
      have "bitAt (bitmap st) 0" using assms(1) by (simp add: pool_ready_def frame0_reserved_def)
      with some(4-6) assms(1) show ?thesis by (auto intro!: pool_ready_allocated)
    qed
    moreover have "\<forall>j < ?c. \<not> frame_taken st (a + of_nat (4096 * j)) \<and> frame_taken st' (a + of_nat (4096 * j))"
      using some(4,6,7,9) frame by (simp add: frame_taken_def)
    moreover have "\<forall>b. frame_taken st b \<longrightarrow> frame_taken st' b" using some(4,6) by (auto simp: frame_taken_def)
    moreover have "memory st' = zeroRange (PHYS_TO_VIRT st a) (c * PAGESIZE) (memory st)"
      using some(2,4) by (simp add: PHYS_TO_VIRT_def)
    moreover have "page_aligned a" using some(8) by (simp add: page_aligned_dvd)
    ultimately show ?thesis using al spare some(3,4) room by auto
  qed
qed

end
