(* ===== verification/Tailq.thy ===== *)
theory Tailq
  imports Prelude
begin

text \<open>
  The intrusive tail queue of \<^verbatim>\<open>ntos/include/rtl/queue.h\<close>, at the level of its pointers.
  A cell that holds a pointer to an element is either the \<^verbatim>\<open>tqh_first\<close> field of a head or the
  \<^verbatim>\<open>tqe_next\<close> field of an element; \<^verbatim>\<open>tqh_last\<close> and \<^verbatim>\<open>tqe_prev\<close> hold the address of such a
  cell. Elements and heads are named by numbers, NULL is \<open>None\<close>. The macros are shown to
  implement the obvious operations on lists, and the clients (the run queues, the object
  directories and the pointer boxes) use that contract only.
\<close>

section \<open>Cells and the store\<close>

type_synonym elem = nat
type_synonym head = nat

datatype cell = First_of head | Next_of elem

record links =
  tqe_next :: "elem \<Rightarrow> elem option"
  tqe_prev :: "elem \<Rightarrow> cell"
  tqh_first :: "head \<Rightarrow> elem option"
  tqh_last :: "head \<Rightarrow> cell"
  nelem :: "head \<Rightarrow> usize"

text \<open>\<^verbatim>\<open>*p\<close> and \<^verbatim>\<open>*p = v\<close> for the address \<open>p\<close> of a cell.\<close>

fun readCell :: "links \<Rightarrow> cell \<Rightarrow> elem option" where
  "readCell h (First_of q) = tqh_first h q"
| "readCell h (Next_of e) = tqe_next h e"

fun writeCell :: "cell \<Rightarrow> elem option \<Rightarrow> links \<Rightarrow> links" where
  "writeCell (First_of q) v h = h\<lparr>tqh_first := (tqh_first h)(q := v)\<rparr>"
| "writeCell (Next_of e) v h = h\<lparr>tqe_next := (tqe_next h)(e := v)\<rparr>"

definition set_prev :: "elem \<Rightarrow> cell \<Rightarrow> links \<Rightarrow> links" where
  "set_prev e c h = h\<lparr>tqe_prev := (tqe_prev h)(e := c)\<rparr>"

definition set_last :: "head \<Rightarrow> cell \<Rightarrow> links \<Rightarrow> links" where
  "set_last q c h = h\<lparr>tqh_last := (tqh_last h)(q := c)\<rparr>"

definition add_nelem :: "head \<Rightarrow> usize \<Rightarrow> links \<Rightarrow> links" where
  "add_nelem q k h = h\<lparr>nelem := (nelem h)(q := nelem h q + k)\<rparr>"

text \<open>
  \<^verbatim>\<open>TAILQ_LAST\<close> reads a cell's address as the address of a head: the field after the cell is
  \<^verbatim>\<open>tqh_last\<close> in a head and \<^verbatim>\<open>tqe_prev\<close> in an element.
\<close>

fun peerCell :: "links \<Rightarrow> cell \<Rightarrow> cell" where
  "peerCell h (First_of q) = tqh_last h q"
| "peerCell h (Next_of e) = tqe_prev h e"

section \<open>The macros\<close>

definition TAILQ_NELEM :: "links \<Rightarrow> head \<Rightarrow> usize" where
  "TAILQ_NELEM h q = nelem h q"

definition TAILQ_FIRST :: "links \<Rightarrow> head \<Rightarrow> elem option" where
  "TAILQ_FIRST h q = tqh_first h q"

definition TAILQ_NEXT :: "links \<Rightarrow> elem \<Rightarrow> elem option" where
  "TAILQ_NEXT h e = tqe_next h e"

definition TAILQ_EMPTY :: "links \<Rightarrow> head \<Rightarrow> bool" where
  "TAILQ_EMPTY h q \<longleftrightarrow> TAILQ_FIRST h q = None"

definition TAILQ_LAST :: "links \<Rightarrow> head \<Rightarrow> elem option" where
  "TAILQ_LAST h q = readCell h (peerCell h (tqh_last h q))"

definition TAILQ_PREV :: "links \<Rightarrow> elem \<Rightarrow> elem option" where
  "TAILQ_PREV h e = readCell h (peerCell h (tqe_prev h e))"

definition TAILQ_INIT :: "head \<Rightarrow> links \<Rightarrow> links" where
  "TAILQ_INIT q h =
     h\<lparr>tqh_first := (tqh_first h)(q := None), tqh_last := (tqh_last h)(q := First_of q),
       nelem := (nelem h)(q := 0)\<rparr>"

definition TAILQ_INSERT_HEAD :: "head \<Rightarrow> elem \<Rightarrow> links \<Rightarrow> links" where
  "TAILQ_INSERT_HEAD q e h =
     (let h1 = writeCell (Next_of e) (tqh_first h q) h;
          h2 = (case tqh_first h q of
                  Some f \<Rightarrow> set_prev f (Next_of e) h1
                | None \<Rightarrow> set_last q (Next_of e) h1);
          h3 = writeCell (First_of q) (Some e) h2;
          h4 = set_prev e (First_of q) h3
      in add_nelem q 1 h4)"

definition TAILQ_INSERT_TAIL :: "head \<Rightarrow> elem \<Rightarrow> links \<Rightarrow> links" where
  "TAILQ_INSERT_TAIL q e h =
     (let h1 = writeCell (Next_of e) None h;
          h2 = set_prev e (tqh_last h1 q) h1;
          h3 = writeCell (tqh_last h2 q) (Some e) h2;
          h4 = set_last q (Next_of e) h3
      in add_nelem q 1 h4)"

definition TAILQ_INSERT_AFTER :: "head \<Rightarrow> elem \<Rightarrow> elem \<Rightarrow> links \<Rightarrow> links" where
  "TAILQ_INSERT_AFTER q l e h =
     (let h1 = writeCell (Next_of e) (tqe_next h l) h;
          h2 = (case tqe_next h l of
                  Some n \<Rightarrow> set_prev n (Next_of e) h1
                | None \<Rightarrow> set_last q (Next_of e) h1);
          h3 = writeCell (Next_of l) (Some e) h2;
          h4 = set_prev e (Next_of l) h3
      in add_nelem q 1 h4)"

text \<open>
  \<^verbatim>\<open>TAILQ_INSERT_BEFORE\<close> has no parameter for the head and counts in whatever \<^verbatim>\<open>head\<close> is in
  scope where the macro is used: \<open>q\<close> is that variable.
\<close>

definition TAILQ_INSERT_BEFORE :: "head \<Rightarrow> elem \<Rightarrow> elem \<Rightarrow> links \<Rightarrow> links" where
  "TAILQ_INSERT_BEFORE q l e h =
     (let h1 = set_prev e (tqe_prev h l) h;
          h2 = writeCell (Next_of e) (Some l) h1;
          h3 = writeCell (tqe_prev h2 l) (Some e) h2;
          h4 = set_prev l (Next_of e) h3
      in add_nelem q 1 h4)"

definition TAILQ_REMOVE :: "head \<Rightarrow> elem \<Rightarrow> links \<Rightarrow> links" where
  "TAILQ_REMOVE q e h =
     (let h1 = (case tqe_next h e of
                  Some n \<Rightarrow> set_prev n (tqe_prev h e) h
                | None \<Rightarrow> set_last q (tqe_prev h e) h);
          h2 = writeCell (tqe_prev h1 e) (tqe_next h1 e) h1
      in add_nelem q (- 1) h2)"

definition TAILQ_REPLACE :: "head \<Rightarrow> elem \<Rightarrow> elem \<Rightarrow> links \<Rightarrow> links" where
  "TAILQ_REPLACE q e e2 h =
     (let h1 = writeCell (Next_of e2) (tqe_next h e) h;
          h2 = (case tqe_next h e of
                  Some n \<Rightarrow> set_prev n (Next_of e2) h1
                | None \<Rightarrow> set_last q (Next_of e2) h1);
          h3 = set_prev e2 (tqe_prev h2 e) h2
      in writeCell (tqe_prev h3 e2) (Some e2) h3)"

definition TAILQ_CONCAT :: "head \<Rightarrow> head \<Rightarrow> links \<Rightarrow> links" where
  "TAILQ_CONCAT q1 q2 h =
     (case TAILQ_FIRST h q2 of None \<Rightarrow> h
      | Some f \<Rightarrow>
          let h1 = writeCell (tqh_last h q1) (tqh_first h q2) h;
              h2 = set_prev f (tqh_last h1 q1) h1;
              h3 = set_last q1 (tqh_last h2 q2) h2
          in TAILQ_INIT q2 h3)"

text \<open>The elements \<^verbatim>\<open>TAILQ_FOREACH\<close> visits; \<open>None\<close> when it is still going after \<open>fuel\<close> steps.\<close>

fun TAILQ_FOREACH :: "nat \<Rightarrow> links \<Rightarrow> elem option \<Rightarrow> elem list option" where
  "TAILQ_FOREACH fuel h None = Some []"
| "TAILQ_FOREACH 0 h (Some e) = None"
| "TAILQ_FOREACH (Suc fuel) h (Some e) = map_option ((#) e) (TAILQ_FOREACH fuel h (TAILQ_NEXT h e))"

section \<open>What a queue represents\<close>

fun seg :: "links \<Rightarrow> cell \<Rightarrow> elem list \<Rightarrow> cell \<Rightarrow> bool" where
  "seg h c [] d \<longleftrightarrow> c = d"
| "seg h c (x # xs) d \<longleftrightarrow> readCell h c = Some x \<and> tqe_prev h x = c \<and> seg h (Next_of x) xs d"

definition chain :: "links \<Rightarrow> head \<Rightarrow> elem list \<Rightarrow> bool" where
  "chain h q xs \<longleftrightarrow> distinct xs \<and> seg h (First_of q) xs (tqh_last h q) \<and> readCell h (tqh_last h q) = None"

definition queue_rep :: "links \<Rightarrow> head \<Rightarrow> elem list \<Rightarrow> bool" where
  "queue_rep h q xs \<longleftrightarrow> chain h q xs \<and> nelem h q = of_nat (length xs)"

text \<open>The cell after the last element of a segment.\<close>

fun end_cell :: "cell \<Rightarrow> elem list \<Rightarrow> cell" where
  "end_cell c [] = c"
| "end_cell c (x # xs) = end_cell (Next_of x) xs"

lemma end_cell_append [simp]: "end_cell c (xs @ ys) = end_cell (end_cell c xs) ys"
  by (induction xs arbitrary: c) auto

lemma end_cell_cases: "end_cell c xs = c \<and> xs = [] \<or> (\<exists>x \<in> set xs. end_cell c xs = Next_of x)"
  by (induction xs arbitrary: c) auto

lemma seg_end: "seg h c xs d \<Longrightarrow> d = end_cell c xs"
  by (induction xs arbitrary: c) auto

lemma seg_append: "seg h c (xs @ ys) d \<longleftrightarrow> seg h c xs (end_cell c xs) \<and> seg h (end_cell c xs) ys d"
  by (induction xs arbitrary: c) auto

text \<open>A segment only depends on the cells it reads and the back links of its elements.\<close>

lemma seg_frame:
  assumes "seg h c xs d"
    and "\<And>x. x \<in> set xs \<Longrightarrow> tqe_prev h' x = tqe_prev h x"
    and "\<And>b. b \<noteq> d \<Longrightarrow> b \<in> insert c (Next_of ` set xs) \<Longrightarrow> readCell h' b = readCell h b"
    and "distinct xs" "c \<notin> Next_of ` set xs"
  shows "seg h' c xs d"
  using assms
proof (induction xs arbitrary: c)
  case (Cons x xs)
  have "c \<noteq> d"
    using seg_end [OF Cons.prems(1)] Cons.prems(5) end_cell_cases [of "Next_of x" xs] by auto
  with Cons.prems(1,3) have "readCell h' c = Some x" by simp
  moreover have "seg h' (Next_of x) xs d"
    using Cons.prems by (intro Cons.IH) auto
  ultimately show ?case using Cons.prems(1,2) by simp
qed simp

lemma chain_frame:
  assumes "chain h q xs" "tqh_last h' q = tqh_last h q"
    and first: "readCell h' (First_of q) = readCell h (First_of q)"
    and elems: "\<And>x. x \<in> set xs \<Longrightarrow> readCell h' (Next_of x) = readCell h (Next_of x) \<and> tqe_prev h' x = tqe_prev h x"
  shows "chain h' q xs"
proof -
  have same: "readCell h' b = readCell h b" if "b \<in> insert (First_of q) (Next_of ` set xs)" for b
    using that first elems by auto
  from assms(1) have d: "tqh_last h q \<in> insert (First_of q) (Next_of ` set xs)"
    using seg_end end_cell_cases [of "First_of q" xs] by (fastforce simp: chain_def)
  have "seg h' (First_of q) xs (tqh_last h q)"
    by (rule seg_frame [of h]) (use assms(1) elems same in \<open>auto simp: chain_def\<close>)
  with assms(1,2) d same show ?thesis by (simp add: chain_def)
qed

text \<open>Two segments that meet at a cell which is the address stored in \<^verbatim>\<open>tqh_last\<close>.\<close>

lemma chain_append_iff:
  "chain h q (xs @ ys) \<longleftrightarrow> distinct (xs @ ys) \<and>
     seg h (First_of q) xs (end_cell (First_of q) xs) \<and>
     seg h (end_cell (First_of q) xs) ys (tqh_last h q) \<and> readCell h (tqh_last h q) = None"
  by (auto simp: chain_def seg_append)

lemma readCell_writeCell [simp]: "readCell (writeCell c v h) d = (if d = c then v else readCell h d)"
  by (cases c; cases d) auto

lemma writeCell_simps [simp]:
  "tqe_prev (writeCell c v h) = tqe_prev h" "tqh_last (writeCell c v h) = tqh_last h"
  "nelem (writeCell c v h) = nelem h"
  by (cases c; simp)+

lemma set_prev_simps [simp]:
  "readCell (set_prev e c h) d = readCell h d" "tqh_last (set_prev e c h) = tqh_last h"
  "nelem (set_prev e c h) = nelem h" "tqe_prev (set_prev e c h) = (tqe_prev h)(e := c)"
  "tqe_next (set_prev e c h) = tqe_next h" "tqh_first (set_prev e c h) = tqh_first h"
  by (cases d; simp add: set_prev_def)+

lemma set_last_simps [simp]:
  "readCell (set_last q c h) d = readCell h d" "tqh_last (set_last q c h) = (tqh_last h)(q := c)"
  "nelem (set_last q c h) = nelem h" "tqe_prev (set_last q c h) = tqe_prev h"
  "tqe_next (set_last q c h) = tqe_next h" "tqh_first (set_last q c h) = tqh_first h"
  by (cases d; simp add: set_last_def)+

lemma add_nelem_simps [simp]:
  "readCell (add_nelem q k h) d = readCell h d" "tqh_last (add_nelem q k h) = tqh_last h"
  "tqe_prev (add_nelem q k h) = tqe_prev h" "tqe_next (add_nelem q k h) = tqe_next h"
  "tqh_first (add_nelem q k h) = tqh_first h"
  "nelem (add_nelem q k h) = (nelem h)(q := nelem h q + k)"
  by (cases d; simp add: add_nelem_def)+

lemma tqe_next_readCell: "tqe_next h e = readCell h (Next_of e)" by simp
lemma tqh_first_readCell: "tqh_first h q = readCell h (First_of q)" by simp

lemmas as_cells = tqe_next_readCell tqh_first_readCell

declare readCell.simps [simp del] writeCell.simps [simp del]

section \<open>Each macro on the represented list\<close>

lemma last_cell:
  "chain h q xs \<Longrightarrow> tqh_last h q = end_cell (First_of q) xs"
  unfolding chain_def by (blast dest: seg_end)

lemma end_cell_not: "e \<notin> set xs \<Longrightarrow> end_cell (First_of q) xs \<noteq> Next_of e"
  using end_cell_cases [of "First_of q" xs] by auto

text \<open>The parts of a queue on both sides of one of its elements.\<close>

lemma chain_at:
  "chain h q (xs @ e # ys) \<longleftrightarrow> distinct (xs @ e # ys) \<and>
     seg h (First_of q) xs (end_cell (First_of q) xs) \<and>
     readCell h (end_cell (First_of q) xs) = Some e \<and> tqe_prev h e = end_cell (First_of q) xs \<and>
     seg h (Next_of e) ys (tqh_last h q) \<and> readCell h (tqh_last h q) = None"
  by (auto simp: chain_append_iff)

lemma prefix_frame:
  assumes "seg h (First_of q) xs (end_cell (First_of q) xs)" "distinct xs"
    and "\<And>x. x \<in> set xs \<Longrightarrow> tqe_prev h' x = tqe_prev h x"
    and "\<And>b. b \<noteq> end_cell (First_of q) xs \<Longrightarrow> b \<in> insert (First_of q) (Next_of ` set xs) \<Longrightarrow>
      readCell h' b = readCell h b"
  shows "seg h' (First_of q) xs (end_cell (First_of q) xs)"
  by (rule seg_frame [OF assms(1,3,4)]) (use assms(2) in auto)

lemma suffix_frame:
  assumes "seg h (Next_of e) ys d" "distinct (e # ys)"
    and "\<And>x. x \<in> set ys \<Longrightarrow> tqe_prev h' x = tqe_prev h x"
    and "\<And>b. b \<noteq> d \<Longrightarrow> b \<in> insert (Next_of e) (Next_of ` set ys) \<Longrightarrow> readCell h' b = readCell h b"
  shows "seg h' (Next_of e) ys d"
  by (rule seg_frame [OF assms(1,3,4)]) (use assms(2) in auto)

lemma TAILQ_INIT_chain: "chain (TAILQ_INIT q h) q []"
  by (simp add: chain_def TAILQ_INIT_def readCell.simps)

lemma TAILQ_INSERT_TAIL_chain:
  assumes "chain h q xs" "e \<notin> set xs"
  shows "chain (TAILQ_INSERT_TAIL q e h) q (xs @ [e])"
proof -
  let ?h = "TAILQ_INSERT_TAIL q e h" and ?c = "end_cell (First_of q) xs"
  have c: "tqh_last h q = ?c" "?c \<noteq> Next_of e"
    using last_cell [OF assms(1)] end_cell_not [OF assms(2)] by auto
  have cells: "readCell ?h b = (if b = ?c then Some e else if b = Next_of e then None else readCell h b)"
    "tqe_prev ?h = (tqe_prev h)(e := ?c)" "tqh_last ?h q = Next_of e" for b
    using c by (auto simp: TAILQ_INSERT_TAIL_def Let_def)
  have "seg ?h (First_of q) xs ?c"
    by (rule prefix_frame [of h]) (use assms c in \<open>auto simp: chain_def cells\<close>)
  moreover from assms(1) have "distinct xs" by (simp add: chain_def)
  ultimately show ?thesis using assms(2) c by (auto simp: chain_append_iff cells)
qed

lemma TAILQ_INSERT_HEAD_chain:
  assumes "chain h q xs" "e \<notin> set xs"
  shows "chain (TAILQ_INSERT_HEAD q e h) q (e # xs)"
proof (cases xs)
  case Nil
  with assms have "tqh_last h q = First_of q" "readCell h (First_of q) = None"
    by (simp_all add: chain_def)
  with Nil show ?thesis
    by (simp add: chain_def TAILQ_INSERT_HEAD_def Let_def as_cells)
next
  case (Cons x ys)
  let ?h = "TAILQ_INSERT_HEAD q e h"
  have first: "tqh_first h q = Some x" using assms(1) Cons by (simp add: chain_def readCell.simps)
  have cells: "readCell ?h b = (if b = First_of q then Some e else if b = Next_of e then Some x else readCell h b)"
    "tqe_prev ?h = (tqe_prev h)(x := Next_of e, e := First_of q)" "tqh_last ?h = tqh_last h" for b
    by (auto simp: TAILQ_INSERT_HEAD_def Let_def first)
  have at: "seg h (Next_of x) ys (tqh_last h q)" "distinct (x # ys)" "readCell h (tqh_last h q) = None"
    "tqh_last h q \<noteq> First_of q" "tqh_last h q \<noteq> Next_of e"
    using assms Cons last_cell [OF assms(1)] end_cell_cases [of "Next_of x" ys]
    by (auto simp: chain_def)
  have "seg ?h (Next_of x) ys (tqh_last h q)"
    by (rule suffix_frame [of h]) (use at assms Cons in \<open>auto simp: cells\<close>)
  with at assms Cons show ?thesis by (auto simp: chain_def cells)
qed

lemma TAILQ_REMOVE_chain:
  assumes "chain h q (xs @ e # ys)"
  shows "chain (TAILQ_REMOVE q e h) q (xs @ ys)"
proof -
  let ?h = "TAILQ_REMOVE q e h" and ?c = "end_cell (First_of q) xs"
  from assms have d: "distinct (xs @ e # ys)" and pre: "seg h (First_of q) xs ?c"
    and e: "readCell h ?c = Some e" "tqe_prev h e = ?c"
    and suf: "seg h (Next_of e) ys (tqh_last h q)" "readCell h (tqh_last h q) = None"
    by (auto simp: chain_at)
  show ?thesis
  proof (cases ys)
    case Nil
    then have next_e: "tqe_next h e = None" using suf by (simp add: as_cells)
    have cells: "readCell ?h b = (if b = ?c then None else readCell h b)"
      "tqe_prev ?h = tqe_prev h" "tqh_last ?h q = ?c" for b
      using e by (auto simp: TAILQ_REMOVE_def Let_def next_e)
    have "seg ?h (First_of q) xs ?c"
      by (rule prefix_frame [OF pre]) (use d in \<open>auto simp: cells\<close>)
    with Nil d show ?thesis by (simp add: chain_def cells)
  next
    case (Cons y zs)
    then have next_e: "tqe_next h e = Some y" and zs: "seg h (Next_of y) zs (tqh_last h q)"
      using suf by (auto simp: as_cells)
    have c: "?c \<notin> Next_of ` set ys"
      using d end_cell_cases [of "First_of q" xs] by auto
    have l: "tqh_last h q \<noteq> ?c" using e suf by auto
    have "y \<noteq> e" using d Cons by auto
    then have cells: "readCell ?h b = (if b = ?c then Some y else readCell h b)"
      "tqe_prev ?h = (tqe_prev h)(y := ?c)" "tqh_last ?h q = tqh_last h q" for b
      using e by (auto simp: TAILQ_REMOVE_def Let_def next_e)
    have "seg ?h (First_of q) xs ?c"
      by (rule prefix_frame [OF pre]) (use d Cons in \<open>auto simp: cells\<close>)
    moreover have "seg ?h (Next_of y) zs (tqh_last h q)"
      by (rule suffix_frame [OF zs]) (use d c Cons in \<open>auto simp: cells\<close>)
    ultimately show ?thesis using Cons d suf l by (simp add: chain_append_iff cells)
  qed
qed

lemma TAILQ_INSERT_AFTER_chain:
  assumes "chain h q (xs @ l # ys)" "e \<notin> set (xs @ l # ys)"
  shows "chain (TAILQ_INSERT_AFTER q l e h) q (xs @ l # e # ys)"
proof -
  let ?h = "TAILQ_INSERT_AFTER q l e h" and ?c = "end_cell (First_of q) xs"
  from assms have d: "distinct (xs @ l # ys)" and pre: "seg h (First_of q) xs ?c"
    and e: "readCell h ?c = Some l" "tqe_prev h l = ?c"
    and suf: "seg h (Next_of l) ys (tqh_last h q)" "readCell h (tqh_last h q) = None"
    by (auto simp: chain_at)
  have c: "?c \<noteq> Next_of l" "?c \<noteq> Next_of e" "?c \<notin> Next_of ` set ys"
    using d assms(2) end_cell_cases [of "First_of q" xs] by auto
  show ?thesis
  proof (cases ys)
    case Nil
    then have next_l: "tqe_next h l = None" using suf by (simp add: as_cells)
    have cells: "readCell ?h b = (if b = Next_of l then Some e else if b = Next_of e then None else readCell h b)"
      "tqe_prev ?h = (tqe_prev h)(e := Next_of l)" "tqh_last ?h q = Next_of e" for b
      by (auto simp: TAILQ_INSERT_AFTER_def Let_def next_l)
    have "seg ?h (First_of q) xs ?c"
      by (rule prefix_frame [OF pre]) (use d assms(2) in \<open>auto simp: cells\<close>)
    with Nil d c e assms(2) show ?thesis by (auto simp: chain_append_iff cells)
  next
    case (Cons y zs)
    then have next_l: "tqe_next h l = Some y" and zs: "seg h (Next_of y) zs (tqh_last h q)"
      using suf by (auto simp: as_cells)
    have cells: "readCell ?h b = (if b = Next_of l then Some e else if b = Next_of e then Some y else readCell h b)"
      "tqe_prev ?h = (tqe_prev h)(y := Next_of e, e := Next_of l)" "tqh_last ?h q = tqh_last h q" for b
      by (auto simp: TAILQ_INSERT_AFTER_def Let_def next_l)
    have last: "tqh_last h q \<noteq> Next_of l" "tqh_last h q \<noteq> Next_of e"
      using seg_end [OF zs] end_cell_cases [of "Next_of y" zs] d assms(2) Cons by auto
    have "seg ?h (First_of q) xs ?c"
      by (rule prefix_frame [OF pre]) (use d assms(2) Cons in \<open>auto simp: cells\<close>)
    moreover have "seg ?h (Next_of y) zs (tqh_last h q)"
      by (rule suffix_frame [OF zs]) (use d assms(2) Cons in \<open>auto simp: cells\<close>)
    ultimately show ?thesis using Cons d suf e c last assms(2)
      by (auto simp: chain_append_iff cells)
  qed
qed

lemma TAILQ_INSERT_BEFORE_chain:
  assumes "chain h q (xs @ l # ys)" "e \<notin> set (xs @ l # ys)"
  shows "chain (TAILQ_INSERT_BEFORE q' l e h) q (xs @ e # l # ys)"
proof -
  let ?h = "TAILQ_INSERT_BEFORE q' l e h" and ?c = "end_cell (First_of q) xs"
  from assms have d: "distinct (xs @ l # ys)" and pre: "seg h (First_of q) xs ?c"
    and e: "readCell h ?c = Some l" "tqe_prev h l = ?c"
    and suf: "seg h (Next_of l) ys (tqh_last h q)" "readCell h (tqh_last h q) = None"
    by (auto simp: chain_at)
  have c: "?c \<noteq> Next_of l" "?c \<noteq> Next_of e" "?c \<notin> Next_of ` set ys" "tqh_last h q \<noteq> ?c"
    using d e suf assms(2) end_cell_cases [of "First_of q" xs] by auto
  have le: "l \<noteq> e" using assms(2) by auto
  have cells: "readCell ?h b = (if b = ?c then Some e else if b = Next_of e then Some l else readCell h b)"
    "tqe_prev ?h = (tqe_prev h)(e := ?c, l := Next_of e)" "tqh_last ?h q = tqh_last h q" for b
    using e c le by (auto simp: TAILQ_INSERT_BEFORE_def Let_def)
  have last: "tqh_last h q \<noteq> Next_of e"
    using seg_end [OF suf(1)] end_cell_cases [of "Next_of l" ys] assms(2) by auto
  have "seg ?h (First_of q) xs ?c"
    by (rule prefix_frame [OF pre]) (use d assms(2) in \<open>auto simp: cells\<close>)
  moreover have "seg ?h (Next_of l) ys (tqh_last h q)"
    by (rule suffix_frame [OF suf(1)]) (use d c assms(2) in \<open>auto simp: cells image_iff\<close>)
  ultimately show ?thesis using d suf c le last assms(2)
    by (auto simp: chain_append_iff cells)
qed

lemma TAILQ_REPLACE_chain:
  assumes "chain h q (xs @ e # ys)" "e2 \<notin> set (xs @ e # ys)"
  shows "chain (TAILQ_REPLACE q e e2 h) q (xs @ e2 # ys)"
proof -
  let ?h = "TAILQ_REPLACE q e e2 h" and ?c = "end_cell (First_of q) xs"
  from assms have d: "distinct (xs @ e # ys)" and pre: "seg h (First_of q) xs ?c"
    and e: "readCell h ?c = Some e" "tqe_prev h e = ?c"
    and suf: "seg h (Next_of e) ys (tqh_last h q)" "readCell h (tqh_last h q) = None"
    by (auto simp: chain_at)
  have c: "?c \<noteq> Next_of e2" "?c \<notin> Next_of ` set ys" "?c \<noteq> Next_of e"
    using d assms(2) end_cell_cases [of "First_of q" xs] by auto
  have ne: "e \<noteq> e2" using assms(2) by auto
  show ?thesis
  proof (cases ys)
    case Nil
    then have next_e: "tqe_next h e = None" using suf by (simp add: as_cells)
    have cells: "readCell ?h b = (if b = ?c then Some e2 else if b = Next_of e2 then None else readCell h b)"
      "tqe_prev ?h = (tqe_prev h)(e2 := ?c)" "tqh_last ?h q = Next_of e2" for b
      using e by (auto simp: TAILQ_REPLACE_def Let_def next_e)
    have "seg ?h (First_of q) xs ?c"
      by (rule prefix_frame [OF pre]) (use d assms(2) in \<open>auto simp: cells\<close>)
    with Nil d c e assms(2) show ?thesis by (auto simp: chain_append_iff cells)
  next
    case (Cons y zs)
    then have next_e: "tqe_next h e = Some y" and zs: "seg h (Next_of y) zs (tqh_last h q)"
      using suf by (auto simp: as_cells)
    have "y \<noteq> e" using d Cons by auto
    then have cells: "readCell ?h b = (if b = ?c then Some e2 else if b = Next_of e2 then Some y else readCell h b)"
      "tqe_prev ?h = (tqe_prev h)(y := Next_of e2, e2 := ?c)" "tqh_last ?h q = tqh_last h q" for b
      using e by (auto simp: TAILQ_REPLACE_def Let_def next_e)
    have last: "tqh_last h q \<noteq> ?c" "tqh_last h q \<noteq> Next_of e2"
      using seg_end [OF zs] end_cell_cases [of "Next_of y" zs] d e suf assms(2) Cons by auto
    have "seg ?h (First_of q) xs ?c"
      by (rule prefix_frame [OF pre]) (use d assms(2) Cons in \<open>auto simp: cells\<close>)
    moreover have "seg ?h (Next_of y) zs (tqh_last h q)"
      by (rule suffix_frame [OF zs]) (use d c assms(2) Cons in \<open>auto simp: cells image_iff\<close>)
    ultimately show ?thesis using Cons d suf e c last assms(2)
      by (auto simp: chain_append_iff cells)
  qed
qed

section \<open>Counts, traversal and the queues beside\<close>

lemma nelem_simps [simp]:
  "nelem (TAILQ_INIT q h) = (nelem h)(q := 0)"
  "nelem (TAILQ_INSERT_HEAD q e h) = (nelem h)(q := nelem h q + 1)"
  "nelem (TAILQ_INSERT_TAIL q e h) = (nelem h)(q := nelem h q + 1)"
  "nelem (TAILQ_INSERT_AFTER q l e h) = (nelem h)(q := nelem h q + 1)"
  "nelem (TAILQ_INSERT_BEFORE q l e h) = (nelem h)(q := nelem h q + 1)"
  "nelem (TAILQ_REMOVE q e h) = (nelem h)(q := nelem h q - 1)"
  "nelem (TAILQ_REPLACE q e e2 h) = nelem h"
  by (simp_all add: TAILQ_INIT_def TAILQ_INSERT_HEAD_def TAILQ_INSERT_TAIL_def TAILQ_INSERT_AFTER_def
      TAILQ_INSERT_BEFORE_def TAILQ_REMOVE_def TAILQ_REPLACE_def Let_def split: option.split)

lemma queue_rep_distinct: "queue_rep h q xs \<Longrightarrow> distinct xs"
  by (simp add: queue_rep_def chain_def)

lemma TAILQ_FIRST_rep: "queue_rep h q xs \<Longrightarrow> TAILQ_FIRST h q = (case xs of [] \<Rightarrow> None | x # _ \<Rightarrow> Some x)"
  by (auto simp: queue_rep_def chain_def TAILQ_FIRST_def as_cells split: list.split)

lemma TAILQ_LAST_rep: "queue_rep h q xs \<Longrightarrow> TAILQ_LAST h q = (if xs = [] then None else Some (last xs))"
proof (cases xs rule: rev_cases)
  case Nil
  moreover assume "queue_rep h q xs"
  ultimately have "tqh_last h q = First_of q" "readCell h (First_of q) = None"
    by (simp_all add: queue_rep_def chain_def)
  with Nil show ?thesis by (simp add: TAILQ_LAST_def)
next
  case (snoc ys y)
  moreover assume "queue_rep h q xs"
  ultimately have "chain h q (ys @ [y])" by (simp add: queue_rep_def)
  then have "tqh_last h q = Next_of y" "tqe_prev h y = end_cell (First_of q) ys"
    "readCell h (end_cell (First_of q) ys) = Some y"
    by (auto simp: chain_append_iff)
  with snoc show ?thesis by (simp add: TAILQ_LAST_def)
qed

lemma TAILQ_FOREACH_seg:
  "seg h c xs d \<Longrightarrow> readCell h d = None \<Longrightarrow> length xs \<le> fuel \<Longrightarrow>
    TAILQ_FOREACH fuel h (readCell h c) = Some xs"
proof (induction xs arbitrary: c fuel)
  case (Cons x xs)
  then obtain n where "fuel = Suc n" "length xs \<le> n" by (cases fuel) auto
  with Cons show ?case by (simp add: TAILQ_NEXT_def as_cells)
qed simp

lemma TAILQ_FOREACH_rep:
  "queue_rep h q xs \<Longrightarrow> length xs \<le> fuel \<Longrightarrow> TAILQ_FOREACH fuel h (TAILQ_FIRST h q) = Some xs"
  using TAILQ_FOREACH_seg [of h "First_of q" xs "tqh_last h q" fuel]
  by (simp add: queue_rep_def chain_def TAILQ_FIRST_def as_cells)

lemma TAILQ_INSERT_TAIL_cells:
  assumes "queue_rep h q xs" "e \<notin> set xs"
  shows "readCell (TAILQ_INSERT_TAIL q e h) b =
      (if b = end_cell (First_of q) xs then Some e else if b = Next_of e then None else readCell h b)"
    "tqe_prev (TAILQ_INSERT_TAIL q e h) = (tqe_prev h)(e := end_cell (First_of q) xs)"
    "tqh_last (TAILQ_INSERT_TAIL q e h) = (tqh_last h)(q := Next_of e)"
proof -
  have c: "tqh_last h q = end_cell (First_of q) xs"
    using assms(1) by (auto simp: queue_rep_def intro: last_cell)
  with end_cell_not [OF assms(2)] show
    "readCell (TAILQ_INSERT_TAIL q e h) b =
      (if b = end_cell (First_of q) xs then Some e else if b = Next_of e then None else readCell h b)"
    "tqe_prev (TAILQ_INSERT_TAIL q e h) = (tqe_prev h)(e := end_cell (First_of q) xs)"
    "tqh_last (TAILQ_INSERT_TAIL q e h) = (tqh_last h)(q := Next_of e)"
    by (auto simp: TAILQ_INSERT_TAIL_def Let_def)
qed

lemma TAILQ_INSERT_TAIL_frame:
  assumes q: "queue_rep h q xs" "e \<notin> set xs" and p: "queue_rep h p ys" "p \<noteq> q"
    and disj: "set xs \<inter> set ys = {}" "e \<notin> set ys"
  shows "queue_rep (TAILQ_INSERT_TAIL q e h) p ys"
proof -
  let ?c = "end_cell (First_of q) xs"
  have other: "First_of p \<noteq> ?c" "\<And>y. y \<in> set ys \<Longrightarrow> Next_of y \<noteq> ?c"
    using p(2) disj(1) end_cell_cases [of "First_of q" xs] by auto
  have "chain (TAILQ_INSERT_TAIL q e h) p ys"
  proof (rule chain_frame)
    show "chain h p ys" using p(1) by (simp add: queue_rep_def)
    show "tqh_last (TAILQ_INSERT_TAIL q e h) p = tqh_last h p"
      using p(2) by (simp add: TAILQ_INSERT_TAIL_cells [OF q])
    show "readCell (TAILQ_INSERT_TAIL q e h) (First_of p) = readCell h (First_of p)"
      using other by (simp add: TAILQ_INSERT_TAIL_cells [OF q])
    show "readCell (TAILQ_INSERT_TAIL q e h) (Next_of y) = readCell h (Next_of y) \<and>
        tqe_prev (TAILQ_INSERT_TAIL q e h) y = tqe_prev h y" if "y \<in> set ys" for y
      using that other disj(2) by (auto simp: TAILQ_INSERT_TAIL_cells [OF q])
  qed
  with p show ?thesis by (simp add: queue_rep_def)
qed

lemma TAILQ_REMOVE_frame:
  assumes q: "queue_rep h q (xs @ e # zs)" and p: "queue_rep h p ys" "p \<noteq> q"
    and disj: "set (xs @ e # zs) \<inter> set ys = {}"
  shows "queue_rep (TAILQ_REMOVE q e h) p ys"
proof -
  let ?c = "end_cell (First_of q) xs"
  have at: "tqe_prev h e = ?c" "seg h (Next_of e) zs (tqh_last h q)" "e \<notin> set zs"
    "readCell h (tqh_last h q) = None"
    using q by (auto simp: queue_rep_def chain_at)
  have other: "First_of p \<noteq> ?c" "\<And>y. y \<in> set ys \<Longrightarrow> Next_of y \<noteq> ?c"
    using p(2) disj end_cell_cases [of "First_of q" xs] by auto
  have next_e: "tqe_next h e = (case zs of [] \<Rightarrow> None | z # _ \<Rightarrow> Some z)"
    using at by (auto simp: as_cells split: list.split)
  have cells: "readCell (TAILQ_REMOVE q e h) b = (if b = ?c then tqe_next h e else readCell h b)"
    "tqh_last (TAILQ_REMOVE q e h) p = tqh_last h p"
    "y \<notin> set zs \<Longrightarrow> tqe_prev (TAILQ_REMOVE q e h) y = tqe_prev h y" for b y
    using at(1,3) p(2) by (cases zs; auto simp: TAILQ_REMOVE_def Let_def next_e)+
  have "chain (TAILQ_REMOVE q e h) p ys"
  proof (rule chain_frame)
    show "chain h p ys" using p(1) by (simp add: queue_rep_def)
    show "tqh_last (TAILQ_REMOVE q e h) p = tqh_last h p" by (rule cells)
    show "readCell (TAILQ_REMOVE q e h) (First_of p) = readCell h (First_of p)"
      using other by (simp add: cells)
    show "readCell (TAILQ_REMOVE q e h) (Next_of y) = readCell h (Next_of y) \<and>
        tqe_prev (TAILQ_REMOVE q e h) y = tqe_prev h y" if "y \<in> set ys" for y
    proof -
      have "y \<notin> set zs" using that disj by auto
      with that other show ?thesis by (simp add: cells)
    qed
  qed
  with p show ?thesis by (simp add: queue_rep_def)
qed

section \<open>The contract of a queue\<close>

text \<open>
  What the clients rely on. \<open>rep h q xs\<close>: queue \<open>q\<close> of store \<open>h\<close> holds the elements \<open>xs\<close>
  in order.
\<close>

locale fifo =
  fixes init :: "head \<Rightarrow> 'h \<Rightarrow> 'h"
    and put :: "head \<Rightarrow> elem \<Rightarrow> 'h \<Rightarrow> 'h"
    and drop_elem :: "head \<Rightarrow> elem \<Rightarrow> 'h \<Rightarrow> 'h"
    and front :: "'h \<Rightarrow> head \<Rightarrow> elem option"
    and rep :: "'h \<Rightarrow> head \<Rightarrow> elem list \<Rightarrow> bool"
  assumes rep_init: "rep (init q h) q []"
    and rep_put: "rep h q xs \<Longrightarrow> e \<notin> set xs \<Longrightarrow> rep (put q e h) q (xs @ [e])"
    and rep_drop: "rep h q (xs @ e # ys) \<Longrightarrow> rep (drop_elem q e h) q (xs @ ys)"
    and front_rep: "rep h q xs \<Longrightarrow> front h q = (case xs of [] \<Rightarrow> None | x # _ \<Rightarrow> Some x)"
    and rep_distinct: "rep h q xs \<Longrightarrow> distinct xs"
    and put_frame: "rep h q xs \<Longrightarrow> e \<notin> set xs \<Longrightarrow> rep h p ys \<Longrightarrow> p \<noteq> q \<Longrightarrow> set xs \<inter> set ys = {} \<Longrightarrow>
      e \<notin> set ys \<Longrightarrow> rep (put q e h) p ys"
    and drop_frame: "rep h q (xs @ e # zs) \<Longrightarrow> rep h p ys \<Longrightarrow> p \<noteq> q \<Longrightarrow>
      set (xs @ e # zs) \<inter> set ys = {} \<Longrightarrow> rep (drop_elem q e h) p ys"
begin

lemma put_all:
  "rep h q xs \<Longrightarrow> distinct es \<Longrightarrow> set es \<inter> set xs = {} \<Longrightarrow> rep (fold (put q) es h) q (xs @ es)"
proof (induction es arbitrary: h xs)
  case (Cons e es)
  then have "rep (put q e h) q (xs @ [e])" by (intro rep_put) auto
  from Cons.IH [OF this] Cons.prems show ?case by simp
qed simp

lemma take_front: "rep h q (x # xs) \<Longrightarrow> front h q = Some x \<and> rep (drop_elem q x h) q xs"
  using front_rep [of h q "x # xs"] rep_drop [of h q "[]" x xs] by simp

end

lemma queue_rep_step:
  "queue_rep h q xs \<longleftrightarrow> chain h q xs \<and> nelem h q = of_nat (length xs)"
  by (simp add: queue_rep_def)

interpretation tq: fifo TAILQ_INIT TAILQ_INSERT_TAIL TAILQ_REMOVE TAILQ_FIRST queue_rep
proof unfold_locales
  fix q p e h xs ys zs
  show "queue_rep (TAILQ_INIT q h) q []" by (simp add: queue_rep_def TAILQ_INIT_chain)
  show "queue_rep h q xs \<Longrightarrow> e \<notin> set xs \<Longrightarrow> queue_rep (TAILQ_INSERT_TAIL q e h) q (xs @ [e])"
    by (simp add: queue_rep_def TAILQ_INSERT_TAIL_chain)
  show "queue_rep h q (xs @ e # ys) \<Longrightarrow> queue_rep (TAILQ_REMOVE q e h) q (xs @ ys)"
    by (simp add: queue_rep_def TAILQ_REMOVE_chain)
  show "queue_rep h q xs \<Longrightarrow> TAILQ_FIRST h q = (case xs of [] \<Rightarrow> None | x # _ \<Rightarrow> Some x)"
    by (rule TAILQ_FIRST_rep)
  show "queue_rep h q xs \<Longrightarrow> distinct xs" by (rule queue_rep_distinct)
  show "queue_rep h q xs \<Longrightarrow> e \<notin> set xs \<Longrightarrow> queue_rep h p ys \<Longrightarrow> p \<noteq> q \<Longrightarrow> set xs \<inter> set ys = {} \<Longrightarrow>
      e \<notin> set ys \<Longrightarrow> queue_rep (TAILQ_INSERT_TAIL q e h) p ys"
    by (rule TAILQ_INSERT_TAIL_frame)
  show "queue_rep h q (xs @ e # zs) \<Longrightarrow> queue_rep h p ys \<Longrightarrow> p \<noteq> q \<Longrightarrow>
      set (xs @ e # zs) \<inter> set ys = {} \<Longrightarrow> queue_rep (TAILQ_REMOVE q e h) p ys"
    by (rule TAILQ_REMOVE_frame)
qed

section \<open>Properties\<close>

text \<open>
  C18 (the macros implement the list operations). On a queue that represents
  \<open>xs @ l # ys\<close> with a new element \<open>e\<close>, each insertion, removal and replacement macro leaves
  a queue that represents the list with the corresponding change, its element count included.
\<close>

theorem TAILQ_refines_lists:
  assumes "queue_rep h q (xs @ l # ys)" "e \<notin> set (xs @ l # ys)"
  shows "queue_rep (TAILQ_INSERT_HEAD q e h) q (e # xs @ l # ys) \<and>
    queue_rep (TAILQ_INSERT_TAIL q e h) q (xs @ l # ys @ [e]) \<and>
    queue_rep (TAILQ_INSERT_AFTER q l e h) q (xs @ l # e # ys) \<and>
    queue_rep (TAILQ_INSERT_BEFORE q l e h) q (xs @ e # l # ys) \<and>
    queue_rep (TAILQ_REMOVE q l h) q (xs @ ys) \<and>
    queue_rep (TAILQ_REPLACE q l e h) q (xs @ e # ys) \<and>
    TAILQ_FOREACH (length (xs @ l # ys)) h (TAILQ_FIRST h q) = Some (xs @ l # ys) \<and>
    TAILQ_LAST h q = Some (last (l # ys))"
proof -
  note c = assms(1) [unfolded queue_rep_step, THEN conjunct1]
  note n = assms(1) [unfolded queue_rep_step, THEN conjunct2]
  show ?thesis
    unfolding queue_rep_step
    using TAILQ_INSERT_HEAD_chain [OF c assms(2)] TAILQ_INSERT_TAIL_chain [OF c assms(2)]
      TAILQ_INSERT_AFTER_chain [OF c assms(2)] TAILQ_INSERT_BEFORE_chain [OF c assms(2)]
      TAILQ_REMOVE_chain [OF c] TAILQ_REPLACE_chain [OF c assms(2)]
      TAILQ_FOREACH_rep [OF assms(1)] TAILQ_LAST_rep [OF assms(1)] n
    by (simp add: last_append)
qed

definition demo_queue :: links where
  "demo_queue = fold (TAILQ_INSERT_TAIL 0) [10, 20]
     (TAILQ_INIT 0 \<lparr>tqe_next = (\<lambda>_. None), tqe_prev = (\<lambda>_. First_of 9), tqh_first = (\<lambda>_. None),
        tqh_last = (\<lambda>_. First_of 9), nelem = (\<lambda>_. 5)\<rparr>)"

lemma demo_queue_rep: "queue_rep demo_queue 0 [10, 20]"
  using tq.put_all [OF tq.rep_init, of "[10, 20]" 0] by (simp add: demo_queue_def)

theorem TAILQ_refines_lists_witness:
  "queue_rep (TAILQ_REMOVE 0 10 demo_queue) 0 [20] \<and>
   queue_rep (TAILQ_INSERT_AFTER 0 10 30 demo_queue) 0 [10, 30, 20]"
  using TAILQ_refines_lists [of demo_queue 0 "[]" 10 "[20]" 30] demo_queue_rep by simp

text \<open>The elements \<open>n\<close> removals at the front deliver.\<close>

fun take_fronts :: "nat \<Rightarrow> head \<Rightarrow> links \<Rightarrow> elem list \<times> links" where
  "take_fronts 0 q h = ([], h)"
| "take_fronts (Suc n) q h =
     (case TAILQ_FIRST h q of None \<Rightarrow> ([], h)
      | Some e \<Rightarrow> (case take_fronts n q (TAILQ_REMOVE q e h) of (es, h') \<Rightarrow> (e # es, h')))"

lemma take_fronts_rep:
  "queue_rep h q xs \<Longrightarrow> \<exists>h'. take_fronts (length xs) q h = (xs, h') \<and> queue_rep h' q []"
proof (induction xs arbitrary: h)
  case (Cons x xs)
  note x = tq.take_front [OF Cons.prems]
  from Cons.IH [of "TAILQ_REMOVE q x h"] x obtain h' where
    "take_fronts (length xs) q (TAILQ_REMOVE q x h) = (xs, h')" "queue_rep h' q []" by blast
  with x show ?case by simp
qed simp

text \<open>
  First in, first out. Elements inserted at the tail of a fresh queue leave it in the
  order they came, and the queue is empty afterwards.
\<close>

theorem TAILQ_fifo:
  assumes "distinct es"
  shows "\<exists>h'. take_fronts (length es) q (fold (TAILQ_INSERT_TAIL q) es (TAILQ_INIT q h)) = (es, h') \<and>
    TAILQ_EMPTY h' q"
proof -
  have "queue_rep (fold (TAILQ_INSERT_TAIL q) es (TAILQ_INIT q h)) q es"
    using tq.put_all [OF tq.rep_init assms, of q h] by simp
  from take_fronts_rep [OF this] show ?thesis
    using TAILQ_FIRST_rep by (fastforce simp: TAILQ_EMPTY_def)
qed

theorem TAILQ_fifo_witness:
  "\<exists>h'. take_fronts 3 5 (fold (TAILQ_INSERT_TAIL 5) [7, 3, 4] (TAILQ_INIT 5 demo_queue)) = ([7, 3, 4], h')"
  using TAILQ_fifo [of "[7, 3, 4]" 5 demo_queue] by (auto simp: eval_nat_numeral)

text \<open>
  \<^verbatim>\<open>TAILQ_CONCAT\<close> forgets the count. Concatenation moves all elements to the first
  queue and empties the second, but \<^verbatim>\<open>nelem\<close> of the first queue stays what it was, so it no
  longer counts the elements.
\<close>

theorem TAILQ_CONCAT_count:
  assumes "queue_rep h q1 xs" "queue_rep h q2 ys" "q1 \<noteq> q2" "set xs \<inter> set ys = {}" "ys \<noteq> []"
  shows "chain (TAILQ_CONCAT q1 q2 h) q1 (xs @ ys) \<and> queue_rep (TAILQ_CONCAT q1 q2 h) q2 [] \<and>
    nelem (TAILQ_CONCAT q1 q2 h) q1 = of_nat (length xs)"
proof -
  from assms(5) obtain y zs where ys: "ys = y # zs" by (cases ys) auto
  let ?h = "TAILQ_CONCAT q1 q2 h" and ?c = "end_cell (First_of q1) xs"
  have last1: "tqh_last h q1 = ?c" using assms(1) by (auto simp: queue_rep_def intro: last_cell)
  with assms(1) have xs: "tqh_last h q1 = ?c" "seg h (First_of q1) xs ?c" "distinct xs"
    by (auto simp: queue_rep_def chain_def)
  from assms(2) ys have y: "tqh_first h q2 = Some y" "seg h (Next_of y) zs (tqh_last h q2)"
    "distinct (y # zs)" "readCell h (tqh_last h q2) = None"
    by (auto simp: queue_rep_def chain_def as_cells)
  have first2: "TAILQ_FIRST h q2 = Some y" using y(1) by (simp add: TAILQ_FIRST_def)
  have init: "readCell (TAILQ_INIT q2 g) b = (if b = First_of q2 then None else readCell g b)"
    "tqe_prev (TAILQ_INIT q2 g) = tqe_prev g"
    "tqh_last (TAILQ_INIT q2 g) = (tqh_last g)(q2 := First_of q2)" for g b
    by (cases b; simp add: TAILQ_INIT_def readCell.simps)+
  have cells: "readCell ?h b = (if b = First_of q2 then None else if b = ?c then Some y else readCell h b)"
    "tqe_prev ?h = (tqe_prev h)(y := ?c)"
    "tqh_last ?h = (tqh_last h)(q1 := tqh_last h q2, q2 := First_of q2)" for b
    using assms(3) by (auto simp: TAILQ_CONCAT_def first2 Let_def init xs y)
  have c: "?c \<notin> Next_of ` set ys" "?c \<noteq> First_of q2" "tqh_last h q2 \<noteq> ?c" "tqh_last h q2 \<noteq> First_of q2"
    using assms(3,4) end_cell_cases [of "First_of q1" xs] end_cell_cases [of "Next_of y" zs]
      seg_end [OF y(2)] ys by auto
  have "seg ?h (First_of q1) xs ?c"
    by (rule prefix_frame [OF xs(2,3)]) (use assms(3,4) ys in \<open>auto simp: cells\<close>)
  moreover have "seg ?h (Next_of y) zs (tqh_last h q2)"
    by (rule suffix_frame [OF y(2,3)]) (use c y ys in \<open>auto simp: cells image_iff\<close>)
  ultimately have "chain ?h q1 (xs @ ys)"
    using assms(3,4) xs y c ys by (simp add: chain_append_iff cells)
  moreover have "queue_rep ?h q2 []"
    by (simp add: TAILQ_CONCAT_def first2 Let_def tq.rep_init)
  moreover have "nelem ?h q1 = of_nat (length xs)"
    using assms(1,3) by (simp add: TAILQ_CONCAT_def first2 Let_def queue_rep_def)
  ultimately show ?thesis by simp
qed

theorem TAILQ_CONCAT_count_witness:
  "nelem (TAILQ_CONCAT 1 0 (TAILQ_INIT 1 demo_queue)) 1 = 0 \<and>
   chain (TAILQ_CONCAT 1 0 (TAILQ_INIT 1 demo_queue)) 1 [10, 20]"
proof -
  have "chain demo_queue 0 [10, 20]" using demo_queue_rep by (simp add: queue_rep_def)
  then have "chain (TAILQ_INIT 1 demo_queue) 0 [10, 20]"
    by (rule chain_frame) (auto simp: TAILQ_INIT_def readCell.simps)
  moreover have "nelem demo_queue 0 = 2" using demo_queue_rep by (simp add: queue_rep_def)
  ultimately have "queue_rep (TAILQ_INIT 1 demo_queue) 0 [10, 20]"
    by (simp add: queue_rep_def)
  from TAILQ_CONCAT_count [OF tq.rep_init this] show ?thesis by simp
qed

end
