(* ===== verification/Sched.thy ===== *)
theory Sched
  imports Tailq
begin

text \<open>
  The scheduler: the processor table of \<^verbatim>\<open>platform/amd64/cpu/mp.c\<close> and \<^verbatim>\<open>ke/kpcr.c\<close>, the
  processor arbiter \<^verbatim>\<open>ke/parb.c\<close>, the run queues \<^verbatim>\<open>ke/sched.c\<close> and the timer interrupt
  \<^verbatim>\<open>halSchedSwitch\<close> of \<^verbatim>\<open>platform/amd64/ke/process.c\<close>. A \<^verbatim>\<open>KPCR\<close> and the head of its run
  queue have the same number; processes are elements of the tail queues. The spin lock
  around the queue operations is the subject of its own theory: here they run alone.
\<close>

section \<open>State\<close>

record trapFrame =
  tf_trapno :: uquad
  tf_rax :: uquad  tf_rcx :: uquad  tf_rdx :: uquad  tf_rbx :: uquad
  tf_rsi :: uquad  tf_rdi :: uquad  tf_rbp :: uquad
  tf_r8 :: uquad   tf_r9 :: uquad   tf_r10 :: uquad  tf_r11 :: uquad
  tf_r12 :: uquad  tf_r13 :: uquad  tf_r14 :: uquad  tf_r15 :: uquad
  tf_error_code :: uquad
  tf_rip :: uquad  tf_cs :: uquad  tf_rflags :: uquad  tf_rsp :: uquad  tf_ss :: uquad

record PCB =
  vas_cr3 :: uquad
  stackPhysBase :: uquad
  pcb_tf :: trapFrame

datatype KPARB_METHOD = KPARB_ROUND_ROBIN

record KPARB =
  parb_method :: KPARB_METHOD
  semaphore :: ushort

text \<open>The processor table: \<^verbatim>\<open>bspKpcr\<close>, \<^verbatim>\<open>apList\<close> and \<^verbatim>\<open>nAp\<close>.\<close>

type_synonym core = nat

record cpu_table =
  bspKpcr :: "core option"
  apList :: "core option list"
  nAp :: usize

text \<open>What the interrupt handler does to the local APIC: end of interrupt, and arming the timer.\<close>

datatype apic_event = Eoi core | Oneshot core usize

record sched =
  cpus :: cpu_table
  coreArbiter :: KPARB
  links :: links
  pcb_of :: "elem \<Rightarrow> PCB"
  curProc :: "core \<Rightarrow> elem option"
  core_cr3 :: "core \<Rightarrow> uquad"
  apic_log :: "apic_event list"

definition SCHED_QUANTUM :: usize where "SCHED_QUANTUM = 5000"
definition SCHED_SHORT_QUANTUM :: usize where "SCHED_SHORT_QUANTUM = 500"
definition AP_MAX :: nat where "AP_MAX = 256"

section \<open>The processor table\<close>

definition halCpuCount :: "cpu_table \<Rightarrow> usize" where
  "halCpuCount m = nAp m + 1"

definition halCpuGet :: "ushort \<Rightarrow> cpu_table \<Rightarrow> core option outcome" where
  "halCpuGet cpuIdx m =
     (if cpuIdx = 0 then Done (bspKpcr m)
      else if unat (cpuIdx - 1) < length (apList m) then Done (apList m ! unat (cpuIdx - 1))
      else Fault)"

definition keCpuGet :: "usize \<Rightarrow> cpu_table \<Rightarrow> core option outcome" where
  "keCpuGet index m = halCpuGet (ucast index) m"

definition keCpuCount :: "cpu_table \<Rightarrow> usize" where
  "keCpuCount m = halCpuCount m"

text \<open>
  The registration of an application processor in \<^verbatim>\<open>mpApEntry\<close>: its \<^verbatim>\<open>KPCR\<close> is stored
  and counted, then the count is asserted to be below \<^verbatim>\<open>AP_MAX\<close>.
\<close>

definition registerAp :: "core \<Rightarrow> cpu_table \<Rightarrow> cpu_table outcome" where
  "registerAp kpcr m =
     (if unat (nAp m) < length (apList m)
      then let m' = m\<lparr>apList := (apList m)[unat (nAp m) := Some kpcr], nAp := nAp m + 1\<rparr>
           in if unat (nAp m') < AP_MAX then Done m' else Panic ''nAp < AP_MAX''
      else Fault)"

section \<open>The processor arbiter\<close>

definition keParbReset :: "KPARB_METHOD \<Rightarrow> KPARB option \<Rightarrow> ntstatus \<times> KPARB option" where
  "keParbReset mode result =
     (case result of None \<Rightarrow> (STATUS_INVALID_HANDLE, None)
      | Some r \<Rightarrow> (STATUS_SUCCESS, Some (r\<lparr>parb_method := mode, semaphore := 0\<rparr>)))"

definition keParbCycle :: "cpu_table \<Rightarrow> KPARB \<Rightarrow> (core option \<times> KPARB) outcome" where
  "keParbCycle m arbiter =
     (case parb_method arbiter of KPARB_ROUND_ROBIN \<Rightarrow>
        andthen (keCpuGet (ucast (semaphore arbiter)) m) (\<lambda>retval.
          let s = semaphore arbiter + 1;
              s' = (if keCpuCount m \<le> ucast s then 0 else s)
          in Done (retval, arbiter\<lparr>semaphore := s'\<rparr>)))"

section \<open>Run queues\<close>

definition schedulerGetQueue :: "sched \<Rightarrow> (head option \<times> sched) outcome" where
  "schedulerGetQueue st =
     andthen (keParbCycle (cpus st) (coreArbiter st)) (\<lambda>(kpcr, arb).
       Done (kpcr, st\<lparr>coreArbiter := arb\<rparr>))"

definition keScheduleProc :: "head option \<Rightarrow> elem option \<Rightarrow> sched \<Rightarrow> (ntstatus \<times> sched) outcome" where
  "keScheduleProc queue process st =
     (case process of None \<Rightarrow> Done (STATUS_INVALID_HANDLE, st)
      | Some p \<Rightarrow>
          andthen (case queue of None \<Rightarrow> schedulerGetQueue st | Some q \<Rightarrow> Done (Some q, st))
            (\<lambda>(queue', st1).
               case queue' of None \<Rightarrow> Panic ''failed to acquire next scheduler queue''
               | Some q \<Rightarrow> Done (STATUS_SUCCESS, st1\<lparr>links := TAILQ_INSERT_TAIL q p (links st1)\<rparr>)))"

text \<open>
  The first test of \<^verbatim>\<open>keDequeueProc\<close> reads its local \<^verbatim>\<open>process\<close> before any assignment: the
  value the stack happens to hold is the argument \<open>junk\<close>. The result is what is stored
  through \<^verbatim>\<open>*result\<close>, \<open>None\<close> when nothing is.
\<close>

definition keDequeueProc :: "elem option \<Rightarrow> head option \<Rightarrow> links \<Rightarrow> ntstatus \<times> elem option \<times> links" where
  "keDequeueProc junk queue h =
     (case queue of None \<Rightarrow> (STATUS_INVALID_HANDLE, None, h)
      | Some q \<Rightarrow>
          if junk = None then (STATUS_INVALID_HANDLE, None, h)
          else if nelem h q = 0 then (STATUS_PROC_NOTFOUND, None, h)
          else case TAILQ_FIRST h q of None \<Rightarrow> (STATUS_PROC_NOTFOUND, None, h)
               | Some process \<Rightarrow> (STATUS_SUCCESS, Some process, TAILQ_REMOVE q process h))"

definition kiSchedInit :: "bool \<Rightarrow> sched \<Rightarrow> sched outcome" where
  "kiSchedInit timerFound st =
     (if \<not> timerFound then Panic ''failed to get scheduler timer''
      else case keParbReset KPARB_ROUND_ROBIN (Some (coreArbiter st)) of
             (status, Some arb) \<Rightarrow>
               if status \<noteq> STATUS_SUCCESS then Panic ''failed to reset scheduler core arbiter''
               else Done (st\<lparr>coreArbiter := arb\<rparr>)
           | (status, None) \<Rightarrow> Panic ''failed to reset scheduler core arbiter'')"

section \<open>The timer interrupt\<close>

text \<open>
  The label \<^verbatim>\<open>done\<close>: end the interrupt and arm the next one. The log has the two calls; \<^verbatim>\<open>g_schedTimer\<close> is taken
  to be the descriptor \<^verbatim>\<open>kiSchedInit\<close> requires, whose callback \<^verbatim>\<open>keTimerOneshotUsec\<close> calls. Its result is ignored by the code.
\<close>

definition sched_done :: "core \<Rightarrow> sched \<Rightarrow> sched" where
  "sched_done c st = st\<lparr>apic_log := apic_log st @ [Eoi c, Oneshot c SCHED_QUANTUM]\<rparr>"

definition loadNext :: "elem option \<Rightarrow> core \<Rightarrow> trapFrame \<Rightarrow> sched \<Rightarrow> trapFrame \<times> sched" where
  "loadNext junk c frame st =
     (case keDequeueProc junk (Some c) (links st) of
        (status, result, h) \<Rightarrow>
          (case result of
             Some p \<Rightarrow>
               if status = STATUS_SUCCESS
               then (pcb_tf (pcb_of st p),
                     sched_done c (st\<lparr>links := h, curProc := (curProc st)(c := Some p),
                       core_cr3 := (core_cr3 st)(c := vas_cr3 (pcb_of st p))\<rparr>))
               else (frame, sched_done c (st\<lparr>links := h\<rparr>))
           | None \<Rightarrow> (frame, sched_done c (st\<lparr>links := h\<rparr>))))"

text \<open>The core the interrupt arrives on is \<open>core\<close>, \<open>None\<close> when \<^verbatim>\<open>keGetCore\<close> returns NULL.\<close>

definition halSchedSwitch :: "elem option \<Rightarrow> core option \<Rightarrow> trapFrame \<Rightarrow> sched \<Rightarrow> (trapFrame \<times> sched) outcome" where
  "halSchedSwitch junk core frame st =
     (case core of None \<Rightarrow> Done (frame, st)
      | Some c \<Rightarrow>
          (case curProc st c of
             None \<Rightarrow> Done (loadNext junk c frame st)
           | Some self \<Rightarrow>
               andthen (keScheduleProc (Some c) (Some self) st) (\<lambda>(status, st1).
                 if status \<noteq> STATUS_SUCCESS then Done (frame, sched_done c st1)
                 else
                   let pcb = pcb_of st1 self;
                       st2 = st1\<lparr>pcb_of := (pcb_of st1)(self := pcb\<lparr>pcb_tf := frame\<rparr>)\<rparr>
                   in Done (loadNext junk c frame st2))))"

definition halSchedEnter :: "core \<Rightarrow> sched \<Rightarrow> sched" where
  "halSchedEnter c st = st\<lparr>apic_log := apic_log st @ [Oneshot c SCHED_SHORT_QUANTUM]\<rparr>"

section \<open>The arbiter visits the processors in turn\<close>

text \<open>Processor \<open>i\<close> of a table with \<open>n\<close> registered application processors.\<close>

definition core_at :: "cpu_table \<Rightarrow> nat \<Rightarrow> core option" where
  "core_at m i = (if i = 0 then bspKpcr m else apList m ! (i - 1))"

definition wf_cpus :: "cpu_table \<Rightarrow> bool" where
  "wf_cpus m \<longleftrightarrow> length (apList m) = AP_MAX \<and> unat (nAp m) < AP_MAX"

lemma keCpuCount_unat: "wf_cpus m \<Longrightarrow> unat (keCpuCount m) = unat (nAp m) + 1"
  by (simp add: wf_cpus_def AP_MAX_def keCpuCount_def halCpuCount_def unat_plus_small)

lemma keCpuGet_core_at:
  assumes "wf_cpus m" "i < unat (keCpuCount m)" "unat s = i"
  shows "keCpuGet (ucast (s :: ushort)) m = Done (core_at m i)"
proof -
  have s: "ucast (ucast s :: usize) = s" by (rule bit_word_eqI) (auto simp: bit_simps)
  have "i \<noteq> 0 \<Longrightarrow> unat (s - 1) = i - 1" 
    using assms(3) unat_sub [of 1 s] by (simp add: word_le_nat_alt)
  moreover have "s = 0 \<longleftrightarrow> i = 0" using assms(3) by (auto simp: unat_eq_0)
  ultimately show ?thesis
    using assms keCpuCount_unat [OF assms(1)]
    by (auto simp: keCpuGet_def halCpuGet_def core_at_def s wf_cpus_def)
qed

lemma keParbCycle_step:
  assumes "wf_cpus m" "unat (semaphore a) < unat (keCpuCount m)"
  shows "\<exists>a'. keParbCycle m a = Done (core_at m (unat (semaphore a)), a') \<and>
    unat (semaphore a') = (unat (semaphore a) + 1) mod unat (keCpuCount m)"
proof -
  note n = keCpuCount_unat [OF assms(1)]
  have "unat (keCpuCount m) \<le> 256" using assms(1) n by (simp add: wf_cpus_def AP_MAX_def)
  then have s: "unat (semaphore a + 1) = unat (semaphore a) + 1"
    using assms(2) by (simp add: unat_plus_small)
  then have "unat (ucast (semaphore a + 1) :: usize) = unat (semaphore a) + 1"
    using assms(2) \<open>unat (keCpuCount m) \<le> 256\<close> by (simp add: unsigned_ucast_eq take_bit_nat_eq_self)
  then have le: "keCpuCount m \<le> ucast (semaphore a + 1) \<longleftrightarrow> unat (keCpuCount m) \<le> unat (semaphore a) + 1"
    by (simp add: word_le_nat_alt)
  have get: "keCpuGet (ucast (semaphore a)) m = Done (core_at m (unat (semaphore a)))"
    using keCpuGet_core_at [OF assms refl] .
  show ?thesis
  proof (cases "unat (keCpuCount m) \<le> unat (semaphore a) + 1")
    case True
    with assms(2) have "unat (semaphore a) + 1 = unat (keCpuCount m)" by simp
    with True get le show ?thesis
      by (cases "parb_method a") (simp add: keParbCycle_def Let_def)
  next
    case False
    with get le s show ?thesis
      by (cases "parb_method a") (simp add: keParbCycle_def Let_def)
  qed
qed

text \<open>The results of \<open>n\<close> consecutive calls.\<close>

fun cycles :: "nat \<Rightarrow> cpu_table \<Rightarrow> KPARB \<Rightarrow> core option list outcome" where
  "cycles 0 m a = Done []"
| "cycles (Suc n) m a =
     andthen (keParbCycle m a) (\<lambda>(c, a'). andthen (cycles n m a') (\<lambda>cs. Done (c # cs)))"

lemma cycles_from:
  "wf_cpus m \<Longrightarrow> unat (semaphore a) < unat (keCpuCount m) \<Longrightarrow>
    cycles n m a = Done (List.map (\<lambda>k. core_at m ((unat (semaphore a) + k) mod unat (keCpuCount m))) [0 ..< n])"
proof (induction n arbitrary: a)
  case (Suc n)
  let ?N = "unat (keCpuCount m)"
  obtain a' where a': "keParbCycle m a = Done (core_at m (unat (semaphore a)), a')"
    "unat (semaphore a') = (unat (semaphore a) + 1) mod ?N"
    using keParbCycle_step [OF Suc.prems] by blast
  have "unat (semaphore a') < ?N" using a'(2) Suc.prems(2) by (metis gr_zeroI mod_less_divisor not_less0)
  from Suc.IH [OF Suc.prems(1) this] have "cycles n m a' = Done
      (List.map (\<lambda>k. core_at m ((unat (semaphore a) + Suc k) mod ?N)) [0 ..< n])"
    by (simp add: a'(2) mod_simps)
  moreover have "[0 ..< Suc n] = 0 # List.map Suc [0 ..< n]"
    by (simp add: upt_conv_Cons map_Suc_upt del: upt_Suc)
  ultimately show ?case
    using a'(1) Suc.prems(2) by (simp del: upt_Suc)
qed simp

section \<open>The scheduler's invariant\<close>

text \<open>
  \<open>wf_sched\<close>: every processor's queue represents a list, no process is in two queues or both
  queued and running, and no queue holds \<open>2 ^ 64\<close> processes.
\<close>

definition wf_sched :: "sched \<Rightarrow> (core \<Rightarrow> elem list) \<Rightarrow> bool" where
  "wf_sched st Q \<longleftrightarrow>
     (\<forall>c. queue_rep (links st) c (Q c) \<and> length (Q c) < 2 ^ 63) \<and>
     (\<forall>c d. c \<noteq> d \<longrightarrow> set (Q c) \<inter> set (Q d) = {}) \<and>
     (\<forall>c d p. curProc st c = Some p \<longrightarrow> p \<notin> set (Q d)) \<and>
     (\<forall>c d p. curProc st c = Some p \<longrightarrow> curProc st d = Some p \<longrightarrow> c = d)"

lemma wf_schedD:
  assumes "wf_sched st Q"
  shows "queue_rep (links st) c (Q c)" "length (Q c) < 2 ^ 63"
    "c \<noteq> d \<Longrightarrow> set (Q c) \<inter> set (Q d) = {}" "curProc st c = Some p \<Longrightarrow> p \<notin> set (Q d)"
    "curProc st c = Some p \<Longrightarrow> curProc st d = Some p \<Longrightarrow> c = d" "distinct (Q c)"
  using assms tq.rep_distinct unfolding wf_sched_def by blast+

lemma nelem_zero:
  assumes "queue_rep h q xs" "length xs < 2 ^ 63"
  shows "nelem h q = 0 \<longleftrightarrow> xs = []"
proof -
  have "unat (of_nat (length xs) :: usize) = length xs"
    using assms(2) by (intro unat_of_nat_quad) simp
  then show ?thesis using assms(1) by (metis length_0_conv queue_rep_def unat_eq_0 of_nat_0)
qed

lemma keScheduleProc_on:
  "keScheduleProc (Some q) (Some p) st = Done (STATUS_SUCCESS, st\<lparr>links := TAILQ_INSERT_TAIL q p (links st)\<rparr>)"
  by (simp add: keScheduleProc_def)

text \<open>Putting a process that is nowhere else at the tail of one queue.\<close>

lemma put_queues:
  assumes "\<forall>c. queue_rep h c (Q c)" "\<forall>c d. c \<noteq> d \<longrightarrow> set (Q c) \<inter> set (Q d) = {}" "\<forall>c. p \<notin> set (Q c)"
  shows "queue_rep (TAILQ_INSERT_TAIL q p h) c ((Q(q := Q q @ [p])) c)"
proof (cases "c = q")
  case True
  with assms show ?thesis by (simp add: tq.rep_put)
next
  case False
  have "set (Q q) \<inter> set (Q c) = {}" using assms(2) False by blast
  then show ?thesis
    using assms False tq.put_frame [of h q "Q q" p c "Q c"] by simp
qed

lemma drop_queues:
  assumes "\<forall>c. queue_rep h c (Q c)" "\<forall>c d. c \<noteq> d \<longrightarrow> set (Q c) \<inter> set (Q d) = {}" "Q q = p # ps"
  shows "queue_rep (TAILQ_REMOVE q p h) c ((Q(q := ps)) c)"
proof (cases "c = q")
  case True
  have "queue_rep h q (p # ps)" using assms(1) [rule_format, of q] assms(3) by simp
  from tq.take_front [OF this] True show ?thesis by simp
next
  case False
  have q: "queue_rep h q ([] @ p # ps)" using assms(1) [rule_format, of q] assms(3) by simp
  have "set ([] @ p # ps) \<inter> set (Q c) = {}" using assms(2) [rule_format, of q c] False assms(3) by simp
  from tq.drop_frame [OF q assms(1) [rule_format, of c] False this] False show ?thesis by simp
qed

lemma keDequeueProc_rep:
  assumes "queue_rep h q xs" "length xs < 2 ^ 63" "junk \<noteq> None"
  shows "keDequeueProc junk (Some q) h =
    (case xs of [] \<Rightarrow> (STATUS_PROC_NOTFOUND, None, h)
     | x # _ \<Rightarrow> (STATUS_SUCCESS, Some x, TAILQ_REMOVE q x h))"
  using assms nelem_zero [OF assms(1,2)] TAILQ_FIRST_rep [OF assms(1)]
  by (auto simp: keDequeueProc_def split: list.split)

text \<open>The processes a processor holds, the next to run first.\<close>

definition ready :: "sched \<Rightarrow> (core \<Rightarrow> elem list) \<Rightarrow> core \<Rightarrow> elem list" where
  "ready st Q c = Q c @ (case curProc st c of None \<Rightarrow> [] | Some p \<Rightarrow> [p])"

text \<open>What one timer interrupt does on a well-formed state with an initialised local.\<close>

lemma halSchedSwitch_none:
  assumes "wf_sched st Q" "curProc st c = None" "Q c = []" "junk \<noteq> None"
  shows "halSchedSwitch junk (Some c) frame st = Done (frame, sched_done c st)"
  using keDequeueProc_rep [OF wf_schedD(1,2) [OF assms(1)] assms(4), of c] assms(2,3)
  by (simp add: halSchedSwitch_def loadNext_def)

lemma halSchedSwitch_next:
  assumes wf: "wf_sched st Q" and rd: "ready st Q c = p # ps" and j: "junk \<noteq> None"
    and len: "length (Q c) < 2 ^ 62"
  shows "\<exists>st'. halSchedSwitch junk (Some c) frame st =
      Done (pcb_tf (pcb_of st' p), st') \<and>
    wf_sched st' (Q(c := ps)) \<and> curProc st' = (curProc st)(c := Some p) \<and>
    pcb_of st' = (case curProc st c of None \<Rightarrow> pcb_of st
       | Some s \<Rightarrow> (pcb_of st)(s := (pcb_of st s)\<lparr>pcb_tf := frame\<rparr>)) \<and>
    core_cr3 st' = (core_cr3 st)(c := vas_cr3 (pcb_of st p)) \<and>
    apic_log st' = apic_log st @ [Eoi c, Oneshot c SCHED_QUANTUM]"
proof -
  note q = wf_schedD(1) [OF wf] and disj = wf_schedD(3) [OF wf] and cur = wf_schedD(4) [OF wf]
  define R where "R = (case curProc st c of None \<Rightarrow> Q | Some s \<Rightarrow> Q(c := Q c @ [s]))"
  define h where "h = (case curProc st c of None \<Rightarrow> links st | Some s \<Rightarrow> TAILQ_INSERT_TAIL c s (links st))"
  have Rc: "R c = p # ps" and RQ: "\<And>d. d \<noteq> c \<Longrightarrow> R d = Q d"
    using rd by (auto simp: R_def ready_def split: option.splits)
  have rep: "\<forall>d. queue_rep h d (R d)"
  proof (cases "curProc st c")
    case None
    with q show ?thesis by (simp add: R_def h_def)
  next
    case (Some s)
    have "queue_rep (TAILQ_INSERT_TAIL c s (links st)) d ((Q(c := Q c @ [s])) d)" for d
      by (rule put_queues) (use q disj cur [OF Some] in auto)
    with Some show ?thesis by (simp add: R_def h_def)
  qed
  have sets: "set (R d) = set (Q d) \<union> (if d = c then set_option (curProc st c) else {})" for d
    by (auto simp: R_def split: option.split)
  have Rdisj: "\<forall>d e. d \<noteq> e \<longrightarrow> set (R d) \<inter> set (R e) = {}"
    using disj cur unfolding sets by (fastforce split: if_splits)
  have "length (R c) < 2 ^ 63" using len by (auto simp: R_def split: option.split)
  with rep have deq: "keDequeueProc junk (Some c) h = (STATUS_SUCCESS, Some p, TAILQ_REMOVE c p h)"
    using keDequeueProc_rep [OF rep [rule_format, of c] _ j] Rc by simp
  define st' where "st' = sched_done c (st\<lparr>
    links := TAILQ_REMOVE c p h,
    pcb_of := (case curProc st c of None \<Rightarrow> pcb_of st
       | Some s \<Rightarrow> (pcb_of st)(s := (pcb_of st s)\<lparr>pcb_tf := frame\<rparr>)),
    curProc := (curProc st)(c := Some p),
    core_cr3 := (core_cr3 st)(c := vas_cr3 (pcb_of st p))\<rparr>)"
  have run: "halSchedSwitch junk (Some c) frame st = Done (pcb_tf (pcb_of st' p), st')"
    using deq by (auto simp: halSchedSwitch_def loadNext_def keScheduleProc_on st'_def h_def
        sched_done_def Let_def split: option.splits)
  have psd: "set ps \<subseteq> set (R c)" "p \<in> set (R c)" "p \<notin> set ps"
    using Rc tq.rep_distinct [OF rep [rule_format, of c]] by auto
  have "wf_sched st' (Q(c := ps))"
    unfolding wf_sched_def
  proof (intro conjI allI impI)
    fix d e x
    have "(R(c := ps)) d = (Q(c := ps)) d" using RQ by simp
    with drop_queues [OF rep Rdisj Rc, of d]
    show "queue_rep (links st') d ((Q(c := ps)) d)" by (simp add: st'_def sched_done_def)
    show "length ((Q(c := ps)) d) < 2 ^ 63"
      using wf_schedD(2) [OF wf, of d] \<open>length (R c) < 2 ^ 63\<close> Rc by auto
    show "d \<noteq> e \<Longrightarrow> set ((Q(c := ps)) d) \<inter> set ((Q(c := ps)) e) = {}"
      using Rdisj [rule_format, of d e] Rdisj [rule_format, of e d] psd RQ by (auto split: if_splits)
    assume x: "curProc st' d = Some x"
    then have x': "d = c \<and> x = p \<or> d \<noteq> c \<and> curProc st d = Some x"
      by (auto simp: st'_def sched_done_def split: if_splits)
    show "x \<notin> set ((Q(c := ps)) e)"
    proof (cases "d = c")
      case True
      with x' have "x = p" by simp
      then show ?thesis using psd Rdisj [rule_format, of c e] RQ [of e] by (cases "e = c") auto
    next
      case False
      with x' have cd: "curProc st d = Some x" by simp
      have "x \<notin> set (R e)"
        using cur [OF cd] wf_schedD(5) [OF wf cd] False
        by (auto simp: sets split: if_splits)
      then show ?thesis using psd RQ [of e] by (cases "e = c") auto
    qed
    assume y: "curProc st' e = Some x"
    then have y': "e = c \<and> x = p \<or> e \<noteq> c \<and> curProc st e = Some x"
      by (auto simp: st'_def sched_done_def split: if_splits)
    have other: "curProc st d \<noteq> Some p" if "d \<noteq> c" for d
    proof
      assume cd: "curProc st d = Some p"
      have "p \<notin> set (R c)"
        using cur [OF cd] wf_schedD(5) [OF wf cd] that by (auto simp: sets)
      with psd show False by simp
    qed
    show "d = e" using x' y' other wf_schedD(5) [OF wf] by blast
  qed
  with run show ?thesis
    by (intro exI [of _ st']) (simp add: st'_def sched_done_def split: option.split)
qed

section \<open>Properties\<close>

text \<open>
  The arbiter is round robin. After a reset, the \<open>k\<close>-th call of \<^verbatim>\<open>keParbCycle\<close> returns
  processor \<open>k\<close> modulo the number of processors, and never leaves the table, for every number
  of processors the table can hold.
\<close>

theorem keParbCycle_round_robin:
  assumes "wf_cpus m" "keParbReset KPARB_ROUND_ROBIN (Some r) = (STATUS_SUCCESS, Some a)"
  shows "cycles n m a = Done (List.map (\<lambda>k. core_at m (k mod (unat (nAp m) + 1))) [0 ..< n])"
proof -
  have s: "semaphore a = 0" using assms(2) by (auto simp: keParbReset_def)
  then have "unat (semaphore a) < unat (keCpuCount m)"
    using keCpuCount_unat [OF assms(1)] by simp
  from cycles_from [OF assms(1) this] show ?thesis
    by (simp add: s keCpuCount_unat [OF assms(1)])
qed

definition demo_cpus :: cpu_table where
  "demo_cpus = \<lparr>bspKpcr = Some 100, apList = [Some 101, Some 102] @ replicate 254 None, nAp = 2\<rparr>"

theorem keParbCycle_round_robin_witness:
  "cycles 5 demo_cpus \<lparr>parb_method = KPARB_ROUND_ROBIN, semaphore = 0\<rparr> =
     Done [Some 100, Some 101, Some 102, Some 100, Some 101]"
proof -
  have wf: "wf_cpus demo_cpus" by (simp add: wf_cpus_def demo_cpus_def AP_MAX_def)
  have reset: "keParbReset KPARB_ROUND_ROBIN (Some \<lparr>parb_method = KPARB_ROUND_ROBIN, semaphore = 7\<rparr>) =
      (STATUS_SUCCESS, Some \<lparr>parb_method = KPARB_ROUND_ROBIN, semaphore = 0\<rparr>)"
    by (simp add: keParbReset_def)
  show ?thesis
    using keParbCycle_round_robin [OF wf reset, of 5]
    by (simp add: core_at_def demo_cpus_def upt_rec)
qed

text \<open>
  C10 (one timer interrupt). On a well-formed state with a process to run and less than 2 ^ 62 queued, \<^verbatim>\<open>halSchedSwitch\<close>
  (its callee's uninitialised local being other than NULL) saves the interrupted frame in the running
  process, moves that process to the tail of the queue, loads the frame and the address space
  of the process at the front, and arms the next interrupt; no process is lost or duplicated.
\<close>

theorem halSchedSwitch_step:
  assumes "wf_sched st Q" "ready st Q c = p # ps" "junk \<noteq> None" "length (Q c) < 2 ^ 62"
  shows "\<exists>st'. halSchedSwitch junk (Some c) frame st = Done (pcb_tf (pcb_of st' p), st') \<and>
    wf_sched st' (Q(c := ps)) \<and> ready st' (Q(c := ps)) c = ps @ [p] \<and>
    curProc st' = (curProc st)(c := Some p) \<and>
    (\<forall>s. pcb_tf (pcb_of st' s) = (if curProc st c = Some s then frame else pcb_tf (pcb_of st s))) \<and>
    core_cr3 st' = (core_cr3 st)(c := vas_cr3 (pcb_of st p)) \<and>
    apic_log st' = apic_log st @ [Eoi c, Oneshot c SCHED_QUANTUM]"
proof -
  obtain st' where st': "halSchedSwitch junk (Some c) frame st = Done (pcb_tf (pcb_of st' p), st')"
    "wf_sched st' (Q(c := ps))" "curProc st' = (curProc st)(c := Some p)"
    "pcb_of st' = (case curProc st c of None \<Rightarrow> pcb_of st
       | Some s \<Rightarrow> (pcb_of st)(s := (pcb_of st s)\<lparr>pcb_tf := frame\<rparr>))"
    "core_cr3 st' = (core_cr3 st)(c := vas_cr3 (pcb_of st p))"
    "apic_log st' = apic_log st @ [Eoi c, Oneshot c SCHED_QUANTUM]"
    using halSchedSwitch_next [OF assms, of frame] by blast
  then show ?thesis
    by (intro exI [of _ st']) (simp add: ready_def split: option.split)
qed

text \<open>A machine with processes 1 and 2 queued on processor 0 and process 3 running there.\<close>

definition zero_frame :: trapFrame where
  "zero_frame = \<lparr>tf_trapno = 0, tf_rax = 0, tf_rcx = 0, tf_rdx = 0, tf_rbx = 0, tf_rsi = 0,
     tf_rdi = 0, tf_rbp = 0, tf_r8 = 0, tf_r9 = 0, tf_r10 = 0, tf_r11 = 0, tf_r12 = 0,
     tf_r13 = 0, tf_r14 = 0, tf_r15 = 0, tf_error_code = 0, tf_rip = 0, tf_cs = 0,
     tf_rflags = 0, tf_rsp = 0, tf_ss = 0\<rparr>"

definition empty_links :: links where
  "empty_links = \<lparr>tqe_next = (\<lambda>_. None), tqe_prev = (\<lambda>_. First_of 0), tqh_first = (\<lambda>_. None),
     tqh_last = First_of, nelem = (\<lambda>_. 0)\<rparr>"

definition demo_sched :: sched where
  "demo_sched = \<lparr>cpus = demo_cpus, coreArbiter = \<lparr>parb_method = KPARB_ROUND_ROBIN, semaphore = 0\<rparr>,
     links = fold (TAILQ_INSERT_TAIL 0) [1, 2] empty_links,
     pcb_of = (\<lambda>p. \<lparr>vas_cr3 = of_nat (4096 * p), stackPhysBase = 0,
       pcb_tf = zero_frame\<lparr>tf_rip := of_nat p\<rparr>\<rparr>),
     curProc = (\<lambda>_. None)(0 := Some 3), core_cr3 = (\<lambda>_. 0), apic_log = []\<rparr>"

definition demo_ready :: "core \<Rightarrow> elem list" where
  "demo_ready = (\<lambda>_. [])(0 := [1, 2])"

lemma empty_links_rep: "queue_rep empty_links q []"
  by (simp add: queue_rep_def chain_def empty_links_def readCell.simps)

lemma demo_sched_wf: "wf_sched demo_sched demo_ready"
proof -
  have "queue_rep (fold (TAILQ_INSERT_TAIL 0) [1, 2] empty_links) c (demo_ready c)" for c
  proof (cases "c = 0")
    case True
    with tq.put_all [OF empty_links_rep, of "[1, 2]" 0] show ?thesis by (simp add: demo_ready_def)
  next
    case False
    have "queue_rep (TAILQ_INSERT_TAIL 0 1 empty_links) c []"
      by (rule tq.put_frame [OF empty_links_rep _ empty_links_rep]) (use False in auto)
    moreover have "queue_rep (TAILQ_INSERT_TAIL 0 1 empty_links) 0 [1]"
      using tq.rep_put [OF empty_links_rep, of 1 0] by simp
    ultimately have "queue_rep (TAILQ_INSERT_TAIL 0 2 (TAILQ_INSERT_TAIL 0 1 empty_links)) c []"
      using False by (intro tq.put_frame [of _ 0 "[1]" 2 c "[]"]) auto
    with False show ?thesis by (simp add: demo_ready_def)
  qed
  then show ?thesis
    by (auto simp: wf_sched_def demo_sched_def) (auto simp: demo_ready_def split: if_splits)
qed

theorem halSchedSwitch_step_witness:
  "\<exists>frame' st'. halSchedSwitch (Some 9) (Some 0) (zero_frame\<lparr>tf_rip := 77\<rparr>) demo_sched = Done (frame', st') \<and>
     tf_rip frame' = 1 \<and> curProc st' 0 = Some 1 \<and> tf_rip (pcb_tf (pcb_of st' 3)) = 77 \<and>
     ready st' (demo_ready(0 := [2, 3])) 0 = [2, 3, 1]"
proof -
  have rd: "ready demo_sched demo_ready 0 = 1 # [2, 3]"
    by (simp add: ready_def demo_sched_def demo_ready_def)
  have len: "length (demo_ready 0) < 2 ^ 62" by (simp add: demo_ready_def)
  have "curProc demo_sched 0 = Some 3" "tf_rip (pcb_tf (pcb_of demo_sched 1)) = 1"
    by (simp_all add: demo_sched_def)
  then show ?thesis
    using halSchedSwitch_step [OF demo_sched_wf rd _ len, of "Some 9" "zero_frame\<lparr>tf_rip := 77\<rparr>"]
    by auto
qed

text \<open>
  \<open>n\<close> interrupts in a row on one processor; \<open>exec\<close> is what the running process does to its
  registers between two of them. Listed are the process and the frame each interrupt loads.
\<close>

fun ticks :: "nat \<Rightarrow> (elem option \<Rightarrow> trapFrame \<Rightarrow> trapFrame) \<Rightarrow> elem option \<Rightarrow> core \<Rightarrow> trapFrame \<Rightarrow>
    sched \<Rightarrow> (elem option \<times> trapFrame) list outcome" where
  "ticks 0 exec junk c frame st = Done []"
| "ticks (Suc n) exec junk c frame st =
     andthen (halSchedSwitch junk (Some c) frame st) (\<lambda>(frame', st').
       andthen (ticks n exec junk c (exec (curProc st' c) frame') st') (\<lambda>rest.
         Done ((curProc st' c, frame') # rest)))"

lemma ready_len: "wf_sched st Q \<Longrightarrow> length (Q c) \<le> length (ready st Q c)"
  by (simp add: ready_def)

lemma ticks_rotate:
  assumes "wf_sched st Q" "ready st Q c = xs" "xs \<noteq> []" "length xs < 2 ^ 62" "junk \<noteq> None"
  shows "\<exists>ts. ticks n exec junk c frame st = Done ts \<and>
    List.map fst ts = List.map (\<lambda>k. Some (xs ! (k mod length xs))) [0 ..< n]"
  using assms(1-4)
proof (induction n arbitrary: st Q xs frame)
  case (Suc n)
  from Suc.prems obtain p ps where xs: "xs = p # ps" by (cases xs) auto
  have "length (Q c) < 2 ^ 62" using ready_len [OF Suc.prems(1), of c] Suc.prems(2,4) by simp
  from halSchedSwitch_next [OF Suc.prems(1) Suc.prems(2) [unfolded xs] assms(5) this, of frame]
  obtain st' where st': "halSchedSwitch junk (Some c) frame st = Done (pcb_tf (pcb_of st' p), st')"
    "wf_sched st' (Q(c := ps))" "curProc st' = (curProc st)(c := Some p)"
    by blast
  then have "ready st' (Q(c := ps)) c = rotate1 xs" by (simp add: ready_def xs)
  from Suc.IH [OF st'(2) this, of "exec (curProc st' c) (pcb_tf (pcb_of st' p))"] Suc.prems(3,4) obtain ts where
    ts: "ticks n exec junk c (exec (curProc st' c) (pcb_tf (pcb_of st' p))) st' = Done ts"
    "List.map fst ts = List.map (\<lambda>k. Some (rotate1 xs ! (k mod length xs))) [0 ..< n]"
    by auto
  have "rotate1 xs ! (k mod length xs) = xs ! (Suc k mod length xs)" for k
    using Suc.prems(3) by (simp add: nth_rotate1 mod_Suc_eq)
  with ts have "List.map fst ((curProc st' c, pcb_tf (pcb_of st' p)) # ts) =
      List.map (\<lambda>k. Some (xs ! (k mod length xs))) (0 # List.map Suc [0 ..< n])"
    using st'(3) by (simp add: xs)
  moreover have "0 # List.map Suc [0 ..< n] = [0 ..< Suc n]"
    by (simp add: upt_conv_Cons map_Suc_upt del: upt_Suc)
  ultimately show ?case using st'(1) ts(1) by (simp del: upt_Suc)
qed simp

text \<open>
  C31 (fair rotation). Suppose the uninitialised local of \<^verbatim>\<open>keDequeueProc\<close>, which it tests against NULL, does not hold NULL
  by chance (\<open>junk\<close>; with NULL no switch takes place). With a non-empty ready list \<open>xs\<close> of a processor, of less than 2 ^ 62 processes in well-formed run queues, the \<open>k\<close>-th of any number of
  consecutive timer interrupts runs process \<open>xs ! (k mod length xs)\<close>, whatever the processes
  do to their registers in between: every ready process runs once in each round.
\<close>

theorem halSchedSwitch_fair:
  assumes "wf_sched st Q" "ready st Q c \<noteq> []" "length (ready st Q c) < 2 ^ 62" "junk \<noteq> None"
  shows "\<exists>ts. ticks n exec junk c frame st = Done ts \<and>
    List.map fst ts = List.map (\<lambda>k. Some (ready st Q c ! (k mod length (ready st Q c)))) [0 ..< n]"
  using ticks_rotate [OF assms(1) refl assms(2-4)] .

theorem halSchedSwitch_fair_witness:
  "\<exists>ts. ticks 4 (\<lambda>_ f. f) (Some 9) 0 zero_frame demo_sched = Done ts \<and>
     List.map fst ts = [Some 1, Some 2, Some 3, Some 1]"
proof -
  have rd: "ready demo_sched demo_ready 0 = [1, 2, 3]"
    by (simp add: ready_def demo_sched_def demo_ready_def)
  then have h: "ready demo_sched demo_ready 0 \<noteq> []" "length (ready demo_sched demo_ready 0) < 2 ^ 62"
    by simp_all
  have "[0 ..< 4] = [0, 1, 2, 3]" by (simp add: upt_rec)
  then show ?thesis
    using halSchedSwitch_fair [OF demo_sched_wf h, of "Some 9" 4 "\<lambda>_ f. f" zero_frame]
    by (simp add: rd)
qed

lemma ticks_queued:
  assumes "wf_sched st Q" "Q c = ys @ s # zs" "length (Q c) < 2 ^ 61" "junk \<noteq> None"
  shows "\<exists>ts. ticks (Suc (length ys)) exec junk c frame st = Done ts \<and>
    last ts = (Some s, pcb_tf (pcb_of st s))"
  using assms(1-3)
proof (induction ys arbitrary: st Q frame zs)
  case Nil
  then have rd: "ready st Q c = s # (zs @ (case curProc st c of None \<Rightarrow> [] | Some p \<Rightarrow> [p]))"
    by (simp add: ready_def)
  have ns: "curProc st c \<noteq> Some s" using wf_schedD(4) [OF Nil(1), of c s c] Nil(2) by auto
  from Nil(3) have len: "length (Q c) < 2 ^ 62" by simp
  obtain st' where "halSchedSwitch junk (Some c) frame st = Done (pcb_tf (pcb_of st' s), st')"
    "curProc st' = (curProc st)(c := Some s)"
    "pcb_of st' = (case curProc st c of None \<Rightarrow> pcb_of st
       | Some p \<Rightarrow> (pcb_of st)(p := (pcb_of st p)\<lparr>pcb_tf := frame\<rparr>))"
    using halSchedSwitch_next [OF Nil(1) rd assms(4) len, of frame] by blast
  with ns show ?case by (auto split: option.splits)
next
  case (Cons y ys)
  let ?tail = "case curProc st c of None \<Rightarrow> [] | Some p \<Rightarrow> [p]"
  from Cons.prems have rd: "ready st Q c = y # (ys @ s # zs @ ?tail)"
    by (simp add: ready_def)
  have ns: "curProc st c \<noteq> Some s" using wf_schedD(4) [OF Cons.prems(1), of c s c] Cons.prems(2) by auto
  from Cons.prems(3) have len: "length (Q c) < 2 ^ 62" by simp
  obtain st' where st': "halSchedSwitch junk (Some c) frame st = Done (pcb_tf (pcb_of st' y), st')"
    "wf_sched st' (Q(c := ys @ s # zs @ ?tail))" "curProc st' = (curProc st)(c := Some y)"
    "pcb_of st' = (case curProc st c of None \<Rightarrow> pcb_of st
       | Some p \<Rightarrow> (pcb_of st)(p := (pcb_of st p)\<lparr>pcb_tf := frame\<rparr>))"
    using halSchedSwitch_next [OF Cons.prems(1) rd assms(4) len, of frame] by blast
  have len': "length ((Q(c := ys @ s # zs @ ?tail)) c) < 2 ^ 61"
    using Cons.prems(2,3) by (auto split: option.split)
  obtain ts where ts: "ticks (Suc (length ys)) exec junk c (exec (curProc st' c) (pcb_tf (pcb_of st' y))) st' = Done ts"
    "last ts = (Some s, pcb_tf (pcb_of st' s))"
    using Cons.IH [OF st'(2) _ len', of "zs @ ?tail" "exec (curProc st' c) (pcb_tf (pcb_of st' y))"] by auto
  then have "ts \<noteq> []" by auto
  moreover have "pcb_of st' s = pcb_of st s" using st'(4) ns by (auto split: option.split)
  ultimately show ?case using st'(1,3) ts by auto
qed

text \<open>
  C32 (preemption is invisible to a process). Suppose the uninitialised local of \<^verbatim>\<open>keDequeueProc\<close>, which it tests against NULL,
  does not hold NULL by chance (\<open>junk\<close>; with NULL no switch takes place), and the run queues are well formed, this one with less than 2 ^ 60 processes. A process \<open>s\<close> interrupted with frame \<open>f\<close> while
  \<open>n\<close> others are queued on its processor is resumed by the \<open>n + 1\<close>-th interrupt from then on,
  and the frame that is loaded is exactly \<open>f\<close>.
\<close>

theorem halSchedSwitch_resumes:
  assumes "wf_sched st Q" "curProc st c = Some s" "length (Q c) < 2 ^ 60" "junk \<noteq> None"
  shows "\<exists>ts. ticks (Suc (length (Q c))) exec junk c f st = Done ts \<and> last ts = (Some s, f)"
proof (cases "Q c")
  case Nil
  with assms(2) have rd: "ready st Q c = s # []" by (simp add: ready_def)
  from assms(3) have len: "length (Q c) < 2 ^ 62" by simp
  obtain st' where "halSchedSwitch junk (Some c) f st = Done (pcb_tf (pcb_of st' s), st')"
    "curProc st' = (curProc st)(c := Some s)"
    "pcb_of st' = (pcb_of st)(s := (pcb_of st s)\<lparr>pcb_tf := f\<rparr>)"
    using halSchedSwitch_next [OF assms(1) rd assms(4) len, of f] assms(2) by auto
  with Nil show ?thesis by simp
next
  case (Cons y ys)
  with assms(2) have rd: "ready st Q c = y # (ys @ [s])" by (simp add: ready_def)
  from assms(3) have len: "length (Q c) < 2 ^ 62" by simp
  obtain st' where st': "halSchedSwitch junk (Some c) f st = Done (pcb_tf (pcb_of st' y), st')"
    "wf_sched st' (Q(c := ys @ [s]))" "curProc st' = (curProc st)(c := Some y)"
    "pcb_of st' = (pcb_of st)(s := (pcb_of st s)\<lparr>pcb_tf := f\<rparr>)"
    using halSchedSwitch_next [OF assms(1) rd assms(4) len, of f] assms(2) by auto
  have len': "length ((Q(c := ys @ [s])) c) < 2 ^ 61" using Cons assms(3) by simp
  obtain ts where ts: "ticks (Suc (length ys)) exec junk c (exec (curProc st' c) (pcb_tf (pcb_of st' y))) st' = Done ts"
    "last ts = (Some s, pcb_tf (pcb_of st' s))"
    using ticks_queued [OF st'(2) _ len' assms(4), of ys s "[]" exec
        "exec (curProc st' c) (pcb_tf (pcb_of st' y))"] by auto
  then have "ts \<noteq> []" by auto
  with st' ts Cons show ?thesis by auto
qed

theorem halSchedSwitch_resumes_witness:
  "\<exists>ts. ticks 3 (\<lambda>_ f. f\<lparr>tf_rax := 5\<rparr>) (Some 9) 0 (zero_frame\<lparr>tf_rip := 77\<rparr>) demo_sched = Done ts \<and>
     last ts = (Some 3, zero_frame\<lparr>tf_rip := 77\<rparr>)"
proof -
  have cur: "curProc demo_sched 0 = Some 3" by (simp add: demo_sched_def)
  have q: "length (demo_ready 0) = 2" by (simp add: demo_ready_def)
  then have len: "length (demo_ready 0) < 2 ^ 60" by simp
  show ?thesis
    using halSchedSwitch_resumes [OF demo_sched_wf cur len, of "Some 9" "\<lambda>_ f. f\<lparr>tf_rax := 5\<rparr>"
        "zero_frame\<lparr>tf_rip := 77\<rparr>"] q
    by (simp add: numeral_3_eq_3)
qed

text \<open>
  The uninitialised local of \<^verbatim>\<open>keDequeueProc\<close>. When the stack happens to hold zero in
  \<^verbatim>\<open>process\<close>, nothing is ever dequeued: the timer interrupt puts the running process into the
  queue and then resumes it, so the process is queued and running at once.
\<close>

theorem keDequeueProc_uninitialised:
  assumes "wf_sched st Q" "curProc st c = Some s"
  shows "\<exists>st'. halSchedSwitch None (Some c) frame st = Done (frame, st') \<and>
    curProc st' c = Some s \<and> queue_rep (links st') c (Q c @ [s])"
proof -
  have "queue_rep (TAILQ_INSERT_TAIL c s (links st)) c (Q c @ [s])"
    using wf_schedD(1,4) [OF assms(1)] assms(2) by (blast intro: tq.rep_put)
  then show ?thesis
    using assms(2)
    by (simp add: halSchedSwitch_def keScheduleProc_on loadNext_def keDequeueProc_def sched_done_def Let_def)
qed

theorem keDequeueProc_uninitialised_witness:
  "\<exists>st'. halSchedSwitch None (Some 0) zero_frame demo_sched = Done (zero_frame, st') \<and>
     curProc st' 0 = Some 3 \<and> queue_rep (links st') 0 [1, 2, 3]"
proof -
  have cur: "curProc demo_sched 0 = Some 3" by (simp add: demo_sched_def)
  show ?thesis
    using keDequeueProc_uninitialised [OF demo_sched_wf cur, of zero_frame]
    by (simp add: demo_ready_def)
qed

end
