(* ===== verification/RtlString.thy ===== *)
theory RtlString
  imports Prelude
begin

text \<open>
  The kernel's string library: \<^verbatim>\<open>ntos/rtl/string.c\<close> and \<^verbatim>\<open>ntos/rtl/itoa.c\<close>. A buffer is
  the list of its bytes; reading or writing an index beyond it is a fault. A C string is a
  byte list read up to its first zero byte, and reading on past the end of the list is a
  fault too. A \<^verbatim>\<open>va_list\<close> is the list of the remaining arguments.
\<close>

section \<open>Bytes\<close>

definition byte :: "char \<Rightarrow> uchar" where "byte c = of_char c"

definition bytes :: "string \<Rightarrow> uchar list" where "bytes s = List.map byte s"

definition put :: "uchar list \<Rightarrow> nat \<Rightarrow> uchar \<Rightarrow> uchar list outcome" where
  "put buf i c = (if i < length buf then Done (buf[i := c]) else Fault)"

definition get :: "uchar list \<Rightarrow> nat \<Rightarrow> uchar outcome" where
  "get buf i = (if i < length buf then Done (buf ! i) else Fault)"

text \<open>The text of a C string: what comes before its terminating zero.\<close>

definition cstr :: "uchar list \<Rightarrow> uchar list" where
  "cstr s = takeWhile (\<lambda>c. c \<noteq> 0) s"

definition terminated :: "uchar list \<Rightarrow> bool" where
  "terminated s \<longleftrightarrow> 0 \<in> set s"

section \<open>Memory and string functions\<close>

fun memcpyFrom :: "nat \<Rightarrow> nat \<Rightarrow> uchar list \<Rightarrow> uchar list \<Rightarrow> uchar list outcome" where
  "memcpyFrom 0 i dest src = Done dest"
| "memcpyFrom (Suc k) i dest src =
     andthen (get src i) (\<lambda>c. andthen (put dest i c) (\<lambda>dest'. memcpyFrom k (Suc i) dest' src))"

definition rtlMemcpy :: "uchar list \<Rightarrow> uchar list \<Rightarrow> usize \<Rightarrow> uchar list outcome" where
  "rtlMemcpy dest src n = memcpyFrom (unat n) 0 dest src"

fun memsetFrom :: "nat \<Rightarrow> nat \<Rightarrow> uchar list \<Rightarrow> uchar \<Rightarrow> uchar list outcome" where
  "memsetFrom 0 i s c = Done s"
| "memsetFrom (Suc k) i s c = andthen (put s i c) (\<lambda>s'. memsetFrom k (Suc i) s' c)"

definition rtlMemset :: "uchar list \<Rightarrow> int \<Rightarrow> usize \<Rightarrow> uchar list outcome" where
  "rtlMemset s c n = memsetFrom (unat n) 0 s (word_of_int c)"

definition memset :: "uchar list \<Rightarrow> int \<Rightarrow> usize \<Rightarrow> uchar list outcome" where
  "memset s c n = rtlMemset s c n"

fun memcmpFrom :: "nat \<Rightarrow> uchar list \<Rightarrow> uchar list \<Rightarrow> int outcome" where
  "memcmpFrom 0 s1 s2 = Done 0"
| "memcmpFrom (Suc n) (c # s1) (d # s2) = (if c \<noteq> d then Done (uint c - uint d) else memcmpFrom n s1 s2)"
| "memcmpFrom (Suc n) s1 s2 = Fault"

definition rtlMemcmp :: "uchar list \<Rightarrow> uchar list \<Rightarrow> usize \<Rightarrow> int outcome" where
  "rtlMemcmp s1 s2 n = memcmpFrom (unat n) s1 s2"

fun rtlStrcmp :: "uchar list \<Rightarrow> uchar list \<Rightarrow> int outcome" where
  "rtlStrcmp (c # s1) (d # s2) =
     (if c = d then (if c = 0 then Done 0 else rtlStrcmp s1 s2) else Done (uint c - uint d))"
| "rtlStrcmp s1 s2 = Fault"

fun strlenFrom :: "uchar list \<Rightarrow> usize \<Rightarrow> usize outcome" where
  "strlenFrom [] i = Fault"
| "strlenFrom (c # s) i = (if c \<noteq> 0 then strlenFrom s (i + 1) else Done (i + 1 - 1))"

definition rtlStrlen :: "uchar list option \<Rightarrow> usize outcome" where
  "rtlStrlen str = (case str of None \<Rightarrow> Done 0 | Some s \<Rightarrow> strlenFrom s 0)"

definition IS_DIGIT :: "uchar \<Rightarrow> bool" where
  "IS_DIGIT c \<longleftrightarrow> 48 \<le> c \<and> c \<le> 57"

text \<open>Signed arithmetic on a \<^verbatim>\<open>LONG\<close> that leaves its range is undefined.\<close>

definition long_range :: "int \<Rightarrow> bool" where
  "long_range n \<longleftrightarrow> - (2 ^ 31) \<le> n \<and> n < 2 ^ 31"

fun digitLoop :: "int \<Rightarrow> uchar list \<Rightarrow> int outcome" where
  "digitLoop n [] = Fault"
| "digitLoop n (c # s) =
     (if IS_DIGIT c
      then let n' = 10 * n + (uint c - 48) in
           if long_range (10 * n) \<and> long_range n' then digitLoop n' s else Fault
      else Done n)"

fun skipBlanks :: "uchar list \<Rightarrow> uchar list outcome" where
  "skipBlanks [] = Fault"
| "skipBlanks (c # s) = (if c = 32 then skipBlanks s else Done (c # s))"

definition rtlToInt32 :: "uchar list \<Rightarrow> int outcome" where
  "rtlToInt32 s =
     andthen (skipBlanks s) (\<lambda>s1.
       let sign = (if hd s1 = 45 then - 1 else 1);
           s2 = (if hd s1 = 43 \<or> hd s1 = 45 then tl s1 else s1)
       in andthen (digitLoop 0 s2) (\<lambda>n. Done (sign * n)))"

section \<open>Number conversion\<close>

function emit10 :: "usize \<Rightarrow> uchar list \<Rightarrow> nat \<Rightarrow> (uchar list \<times> nat) outcome" where
  "emit10 value buf i =
     (if 0 < value
      then andthen (put buf i (48 + ucast (value mod 10))) (\<lambda>buf'. emit10 (value div 10) buf' (Suc i))
      else Done (buf, i))"
  by pat_completeness auto
termination
  by (relation "measure (\<lambda>(v, buf, i). unat v)") (auto simp: word_less_nat_alt unat_div)

text \<open>The loop that reverses the bytes between \<open>j\<close> and \<open>i\<close>.\<close>

function swapEnds :: "nat \<Rightarrow> nat \<Rightarrow> uchar list \<Rightarrow> uchar list outcome" where
  "swapEnds j i buf =
     (if j < i
      then andthen (get buf j) (\<lambda>tmp. andthen (get buf i) (\<lambda>c.
             andthen (put buf j c) (\<lambda>buf1. andthen (put buf1 i tmp) (\<lambda>buf2.
               swapEnds (Suc j) (i - 1) buf2))))
      else Done buf)"
  by pat_completeness auto
termination
  by (relation "measure (\<lambda>(j, i, buf). i - j)") auto

declare emit10.simps [simp del] swapEnds.simps [simp del]

text \<open>
  The test \<^verbatim>\<open>value < 0\<close> of an unsigned value is never true, so the branch that negates the
  value and the one that writes a minus sign are dead.
\<close>

definition itoaBase10Convert :: "usize \<Rightarrow> uchar list \<Rightarrow> uchar list outcome" where
  "itoaBase10Convert value buf =
     (if value = 0
      then andthen (put buf 0 48) (\<lambda>buf'. put buf' 1 0)
      else andthen (emit10 value buf 0) (\<lambda>(buf1, i).
             andthen (put buf1 i 0) (\<lambda>buf2. swapEnds 0 (i - 1) buf2)))"

definition ascii_nums :: "uchar list" where
  "ascii_nums = bytes ''0123456789ABCDEF''"

function emit16 :: "usize \<Rightarrow> uchar list \<Rightarrow> nat \<Rightarrow> (uchar list \<times> nat) outcome" where
  "emit16 n buf i =
     (if 0 < n
      then andthen (put buf i (ascii_nums ! unat (n AND 0x0F)))
             (\<lambda>buf'. emit16 (drop_bit 4 n) buf' (Suc i))
      else Done (buf, i))"
  by pat_completeness auto
termination
  by (relation "measure (\<lambda>(v, buf, i). unat v)")
     (auto simp: word_less_nat_alt unat_drop_bit_eq drop_bit_eq_div unat_div)

declare emit16.simps [simp del]

definition itoaConvertBase16 :: "usize \<Rightarrow> uchar list \<Rightarrow> uchar list outcome" where
  "itoaConvertBase16 n buffer =
     (if n = 0 then rtlMemcpy buffer (bytes ''0x00'' @ [0, 0]) 5
      else
        andthen (emit16 n buffer 0) (\<lambda>(buf1, i1).
        andthen (if n < 0x10 then andthen (put buf1 i1 48) (\<lambda>b. Done (b, Suc i1)) else Done (buf1, i1))
          (\<lambda>(buf2, i2).
            andthen (put buf2 i2 120) (\<lambda>buf3.
            andthen (put buf3 (i2 + 1) 48) (\<lambda>buf4.
            andthen (put buf4 (i2 + 2) 0) (\<lambda>buf5. swapEnds 0 (i2 + 1) buf5))))))"

text \<open>The result is NULL, here \<open>None\<close>, for another base.\<close>

definition rtlItoa :: "usize \<Rightarrow> uchar list \<Rightarrow> int \<Rightarrow> uchar list option outcome" where
  "rtlItoa value buf base =
     (if base = 10 then andthen (itoaBase10Convert value buf) (\<lambda>b. Done (Some b))
      else if base = 16 then andthen (itoaConvertBase16 value buf) (\<lambda>b. Done (Some b))
      else Done None)"

section \<open>Formatted output\<close>

definition printC :: "usize \<Rightarrow> uchar \<Rightarrow> uchar list \<times> usize \<Rightarrow> (uchar list \<times> usize) outcome" where
  "printC sz c = (\<lambda>(buf, off).
     andthen (if off < sz - 1
              then andthen (put buf (unat off) c) (\<lambda>b. Done (b, off + 1))
              else Done (buf, off))
       (\<lambda>(b, off'). andthen (put b (unat off') 0) (\<lambda>b'. Done (b', off'))))"

fun printStrLoop :: "usize \<Rightarrow> uchar list \<Rightarrow> uchar list \<times> usize \<Rightarrow> (uchar list \<times> usize) outcome" where
  "printStrLoop sz [] (buf, off) = (if off < sz - 1 then Fault else Done (buf, off))"
| "printStrLoop sz (c # s) (buf, off) =
     (if off < sz - 1 \<and> c \<noteq> 0
      then andthen (put buf (unat off) c) (\<lambda>b. printStrLoop sz s (b, off + 1))
      else Done (buf, off))"

definition printStr :: "usize \<Rightarrow> uchar list \<Rightarrow> uchar list \<times> usize \<Rightarrow> (uchar list \<times> usize) outcome" where
  "printStr sz s p =
     andthen (printStrLoop sz s p) (\<lambda>(b, off). andthen (put b (unat off) 0) (\<lambda>b'. Done (b', off)))"

fun printPad :: "nat \<Rightarrow> usize \<Rightarrow> uchar list \<times> usize \<Rightarrow> (uchar list \<times> usize) outcome" where
  "printPad 0 sz p = Done p"
| "printPad (Suc k) sz p = andthen (printC sz 48 p) (\<lambda>p'. printPad k sz p')"

datatype va_value = Int_arg uquad | Str_arg "uchar list"

fun va_int :: "va_value list \<Rightarrow> (uquad \<times> va_value list) outcome" where
  "va_int (Int_arg n # ap) = Done (n, ap)"
| "va_int ap = Fault"

fun va_str :: "va_value list \<Rightarrow> (uchar list \<times> va_value list) outcome" where
  "va_str (Str_arg s # ap) = Done (s, ap)"
| "va_str ap = Fault"

text \<open>The literal text up to the next percent sign or the end of the format.\<close>

fun printLit :: "usize \<Rightarrow> uchar list \<Rightarrow> uchar list \<times> usize \<Rightarrow> (uchar list \<times> (uchar list \<times> usize)) outcome" where
  "printLit sz [] p = Fault"
| "printLit sz (c # fmt) p =
     (if c \<noteq> 0 \<and> c \<noteq> 37
      then andthen (printC sz c p) (\<lambda>p'. printLit sz fmt p')
      else Done (c # fmt, p))"

fun padDigits :: "uchar list \<Rightarrow> uchar \<Rightarrow> (uchar list \<times> uchar) outcome" where
  "padDigits [] w = Fault"
| "padDigits (c # fmt) w =
     (if IS_DIGIT c then padDigits fmt (w * 10 + (c - 48)) else Done (c # fmt, w))"

definition padWidth :: "uchar list \<Rightarrow> uchar \<Rightarrow> (uchar list \<times> uchar) outcome" where
  "padWidth fmt w =
     (case fmt of [] \<Rightarrow> Fault | c # fmt' \<Rightarrow> if c = 48 then padDigits fmt' w else Done (fmt, w))"

definition numText :: "uquad \<Rightarrow> int \<Rightarrow> uchar list outcome" where
  "numText num base =
     andthen (rtlItoa num (replicate 256 0) base) (\<lambda>r. case r of None \<Rightarrow> Fault | Some b \<Rightarrow> Done b)"

text \<open>One conversion: the buffer and offset, the remaining arguments and the pad width left.\<close>

definition convert :: "usize \<Rightarrow> uchar \<Rightarrow> uchar \<Rightarrow> va_value list \<Rightarrow> uchar list \<times> usize \<Rightarrow>
    ((uchar list \<times> usize) \<times> va_value list \<times> uchar) outcome" where
  "convert sz c pad ap p =
     (if c = 99 then
        andthen (va_int ap) (\<lambda>(n, ap'). andthen (printC sz (ucast n) p) (\<lambda>p'. Done (p', ap', pad)))
      else if c = 37 then andthen (printC sz c p) (\<lambda>p'. Done (p', ap, pad))
      else if c = 120 then
        andthen (va_int ap) (\<lambda>(num, ap'). andthen (numText num 16) (\<lambda>numBuf.
          andthen (printStr sz (drop 2 numBuf) p) (\<lambda>p'. Done (p', ap', pad))))
      else if c = 112 then
        andthen (va_int ap) (\<lambda>(num, ap'). andthen (numText num 16) (\<lambda>numBuf.
          andthen (rtlStrlen (Some numBuf)) (\<lambda>tmpLen.
          andthen (printC sz 48 p) (\<lambda>p1. andthen (printC sz 120 p1) (\<lambda>p2.
          andthen (printPad (unat (18 - tmpLen)) sz p2) (\<lambda>p3.
          andthen (printStr sz (drop 2 numBuf) p3) (\<lambda>p4. Done (p4, ap', pad))))))))
      else if c = 100 \<or> c = 117 then
        andthen (va_int ap) (\<lambda>(num, ap'). andthen (numText num 10) (\<lambda>numBuf.
          andthen (if 0 < pad
                   then andthen (rtlStrlen (Some numBuf)) (\<lambda>num_len.
                          printPad (unat pad - unat num_len) sz p)
                   else Done p) (\<lambda>p1.
          andthen (printStr sz numBuf p1) (\<lambda>p2. Done (p2, ap', 0)))))
      else if c = 115 then
        andthen (va_str ap) (\<lambda>(s, ap'). andthen (printStr sz s p) (\<lambda>p'. Done (p', ap', pad)))
      else Done (p, ap, pad))"

text \<open>The result is the returned number and the buffer.\<close>

lemma printLit_len: "printLit sz fmt p = Done (rest, p') \<Longrightarrow> length rest \<le> length fmt"
  by (induction sz fmt p rule: printLit.induct) (auto split: if_splits intro: le_SucI)

lemma padDigits_len: "padDigits fmt w = Done (rest, w') \<Longrightarrow> length rest \<le> length fmt"
  by (induction fmt w rule: padDigits.induct) (auto split: if_splits intro: le_SucI)

lemma padWidth_len: "padWidth fmt w = Done (rest, w') \<Longrightarrow> length rest \<le> length fmt"
  by (auto simp: padWidth_def split: list.splits if_splits dest: padDigits_len)

function printfLoop :: "usize \<Rightarrow> uchar list \<Rightarrow> va_value list \<Rightarrow> uchar \<Rightarrow> uchar list \<times> usize \<Rightarrow>
    (usize \<times> uchar list) outcome" where
  "printfLoop sz fmt ap pad p =
     (if snd p < sz - 1 then
        andthen (printLit sz fmt p) (\<lambda>(fmt1, p1).
          case fmt1 of [] \<Rightarrow> Fault
          | c0 # fmt2 \<Rightarrow>
              if c0 = 0 \<or> snd p1 = sz - 1 then Done (snd p1, fst p1)
              else andthen (padWidth fmt2 pad) (\<lambda>(fmt3, pad1).
                case fmt3 of [] \<Rightarrow> Fault
                | c # fmt4 \<Rightarrow>
                    andthen (convert sz c pad1 ap p1) (\<lambda>(p2, ap2, pad2).
                      printfLoop sz fmt4 ap2 pad2 p2)))
      else Done (0, fst p))"
  by pat_completeness auto
termination
proof (relation "measure (\<lambda>(sz, fmt, ap, pad, p). length fmt)")
  fix sz :: usize and fmt :: "uchar list" and ap :: "va_value list" and pad :: uchar
    and p :: "uchar list \<times> usize" and x y x2 xa xb x22 xaa xab x21a fmt4 z xc yc xd yd
  assume "printLit sz fmt p = Done x" "(y, x2) = x" "y = x22 # xa"
    "padWidth xa pad = Done xaa" "(xab, x21a) = xaa" "xab = xb # fmt4"
  then show "((sz, fmt4, xc, yc, xd), sz, fmt, ap, pad, p)
      \<in> measure (\<lambda>(sz, fmt, ap, pad, p). length fmt)"
    using printLit_len [of sz fmt p y x2] padWidth_len [of xa pad xab x21a] by auto
qed auto

declare printfLoop.simps [simp del]

definition rtlBufPrintfV :: "uchar list \<Rightarrow> usize \<Rightarrow> uchar list \<Rightarrow> va_value list \<Rightarrow> (usize \<times> uchar list) outcome" where
  "rtlBufPrintfV s sz fmt ap = printfLoop sz fmt ap 0 (s, 0)"

definition rtlBufPrintf :: "uchar list \<Rightarrow> usize \<Rightarrow> uchar list \<Rightarrow> va_value list \<Rightarrow> (usize \<times> uchar list) outcome" where
  "rtlBufPrintf s sz fmt ap = rtlBufPrintfV s sz fmt ap"

section \<open>Reference texts of numbers\<close>

fun decs :: "nat \<Rightarrow> uchar list" where
  "decs n = (if n = 0 then [] else decs (n div 10) @ [48 + of_nat (n mod 10)])"

fun hexs :: "nat \<Rightarrow> uchar list" where
  "hexs n = (if n = 0 then [] else hexs (n div 16) @ [ascii_nums ! (n mod 16)])"

declare decs.simps [simp del] hexs.simps [simp del]

definition dec_text :: "nat \<Rightarrow> uchar list" where
  "dec_text n = (if n = 0 then [48] else decs n)"

definition hex_text :: "nat \<Rightarrow> uchar list" where
  "hex_text n = [48, 120] @ (if n = 0 then [48, 48] else if n < 16 then 48 # hexs n else hexs n)"

lemma decs_len: "n < 10 ^ k \<Longrightarrow> length (decs n) \<le> k"
proof (induction n arbitrary: k rule: decs.induct)
  case (1 n)
  then show ?case
  proof (cases "n = 0")
    case False
    then obtain j where k: "k = Suc j" using 1(2) by (cases k) auto
    with 1 False have "length (decs (n div 10)) \<le> j" by auto
    with False k show ?thesis by (simp add: decs.simps [of n])
  qed (simp add: decs.simps)
qed

lemma hexs_len: "n < 16 ^ k \<Longrightarrow> length (hexs n) \<le> k"
proof (induction n arbitrary: k rule: hexs.induct)
  case (1 n)
  then show ?case
  proof (cases "n = 0")
    case False
    then obtain j where k: "k = Suc j" using 1(2) by (cases k) auto
    with 1 False have "length (hexs (n div 16)) \<le> j" by auto
    with False k show ?thesis by (simp add: hexs.simps [of n])
  qed (simp add: hexs.simps)
qed

lemma dec_text_len: "length (dec_text (unat (v :: usize))) \<le> 20"
  using decs_len [of "unat v" 20] unat_quad_less [of v] by (simp add: dec_text_def)

lemma hex_text_len: "length (hex_text (unat (v :: usize))) \<le> 18"
  using hexs_len [of "unat v" 16] hexs_len [of "unat v" 1] unat_quad_less [of v]
  by (auto simp: hex_text_def)

lemma put_at: "put (pre @ c # post) (length pre) d = Done (pre @ d # post)"
  by (simp add: put_def)

lemma put_end: "post \<noteq> [] \<Longrightarrow> put (pre @ post) (length pre) d = Done (pre @ d # tl post)"
  by (cases post) (auto simp: put_at)

lemma emit10_spec:
  "length (decs (unat v)) \<le> length post \<Longrightarrow>
    emit10 v (pre @ post) (length pre) =
      Done (pre @ rev (decs (unat v)) @ drop (length (decs (unat v))) post, length pre + length (decs (unat v)))"
proof (induction "unat v" arbitrary: v pre post rule: decs.induct)
  case 1
  show ?case
  proof (cases "v = 0")
    case True
    then show ?thesis by (simp add: emit10.simps decs.simps)
  next
    case False
    then have pos: "0 < v" "unat v \<noteq> 0" by (auto simp: word_gt_0 unat_eq_0)
    have dv: "unat (v div 10) = unat v div 10" "unat (v mod 10) = unat v mod 10"
      by (simp_all add: unat_div unat_mod)
    let ?d = "48 + ucast (v mod 10) :: uchar"
    have d: "?d = 48 + of_nat (unat v mod 10)"
      by (simp add: dv flip: dv(2))
    have decs: "decs (unat v) = decs (unat (v div 10)) @ [?d]"
      unfolding d dv using decs.simps [of "unat v"] pos by simp
    from 1(2) decs obtain c post' where post: "post = c # post'" by (cases post) auto
    from 1(2) have len: "length (decs (unat (v div 10))) \<le> length post'" by (simp add: decs post)
    have "put (pre @ post) (length pre) ?d = Done ((pre @ [?d]) @ post')" by (simp add: post put_at)
    moreover from 1(1) [OF pos(2) dv(1) [symmetric] len, of "pre @ [?d]"]
    have "emit10 (v div 10) ((pre @ [?d]) @ post') (Suc (length pre)) =
        Done ((pre @ [?d]) @ rev (decs (unat (v div 10))) @ drop (length (decs (unat (v div 10)))) post',
          Suc (length pre) + length (decs (unat (v div 10))))"
      by simp
    ultimately show ?thesis
      using pos by (simp add: emit10.simps [of v] decs post)
  qed
qed

lemma swapEnds_spec:
  "swapEnds (length pre) (length pre + length xs - 1) (pre @ xs @ post) = Done (pre @ rev xs @ post)"
proof (induction "length xs" arbitrary: xs pre post rule: less_induct)
  case less
  consider "xs = []" | x where "xs = [x]" | x ys y where "xs = x # ys @ [y]"
    by (metis rev_exhaust append_Cons neq_Nil_conv append_Nil)
  then show ?case
  proof cases
    case 1
    then show ?thesis by (subst swapEnds.simps) auto
  next
    case 2
    then show ?thesis by (subst swapEnds.simps) auto
  next
    case 3
    then have len: "length pre + length xs - 1 = length pre + Suc (length ys)" by simp
    have i: "(pre @ xs @ post) ! (length pre + Suc (length ys)) = y"
      by (simp add: 3 nth_append)
    have upd: "((pre @ xs @ post)[length pre := y])[length pre + Suc (length ys) := x] =
        (pre @ [y]) @ ys @ ([x] @ post)"
      by (simp add: 3 list_update_append)
    have "swapEnds (length (pre @ [y])) (length (pre @ [y]) + length ys - 1) ((pre @ [y]) @ ys @ ([x] @ post)) =
        Done ((pre @ [y]) @ rev ys @ ([x] @ post))"
      by (rule less) (simp add: 3)
    then have "swapEnds (Suc (length pre)) (length pre + length ys) ((pre @ [y]) @ ys @ ([x] @ post)) =
        Done (pre @ rev xs @ post)"
      by (simp add: 3)
    with i upd show ?thesis
      unfolding len
      by (subst swapEnds.simps) (simp add: get_def put_def 3 nth_append)
  qed
qed

lemma itoaBase10Convert_spec:
  assumes "21 \<le> length buf"
  shows "itoaBase10Convert v buf =
    Done (dec_text (unat v) @ 0 # drop (length (dec_text (unat v)) + 1) buf)"
proof (cases "v = 0")
  case True
  from assms obtain a b rest where "buf = a # b # rest"
    by (cases buf; cases "tl buf") auto
  with True show ?thesis by (simp add: itoaBase10Convert_def put_def dec_text_def)
next
  case False
  let ?D = "decs (unat v)"
  have D: "dec_text (unat v) = ?D" using False by (simp add: dec_text_def unat_eq_0)
  have len: "length ?D \<le> 20" using dec_text_len [of v] D by simp
  have e: "emit10 v buf 0 = Done (rev ?D @ drop (length ?D) buf, length ?D)"
    using emit10_spec [of v buf "[]"] len assms by simp
  have "drop (length ?D) buf \<noteq> []" using len assms by auto
  from put_end [OF this, of "rev ?D" 0]
  have p: "put (rev ?D @ drop (length ?D) buf) (length ?D) 0 =
      Done (rev ?D @ 0 # drop (length ?D + 1) buf)"
    by (simp add: drop_Suc tl_drop)
  have s: "swapEnds 0 (length ?D - 1) (rev ?D @ 0 # drop (length ?D + 1) buf) =
      Done (?D @ 0 # drop (length ?D + 1) buf)"
    using swapEnds_spec [of "[]" "rev ?D" "0 # drop (length ?D + 1) buf"] by simp
  show ?thesis using False D e p s by (simp add: itoaBase10Convert_def)
qed

lemma emit16_spec:
  "length (hexs (unat v)) \<le> length post \<Longrightarrow>
    emit16 v (pre @ post) (length pre) =
      Done (pre @ rev (hexs (unat v)) @ drop (length (hexs (unat v))) post, length pre + length (hexs (unat v)))"
proof (induction "unat v" arbitrary: v pre post rule: hexs.induct)
  case 1
  show ?case
  proof (cases "v = 0")
    case True
    then show ?thesis by (simp add: emit16.simps hexs.simps)
  next
    case False
    then have pos: "0 < v" "unat v \<noteq> 0" by (auto simp: word_gt_0 unat_eq_0)
    have shift: "unat (drop_bit 4 v) = unat v div 16"
      by (simp add: drop_bit_eq_div unat_div)
    have "v AND 0x0F = take_bit 4 v" by (simp add: take_bit_eq_mask mask_eq_exp_minus_1)
    then have low: "unat (v AND 0x0F) = unat v mod 16"
      by (simp only: unsigned_take_bit_eq) (simp add: take_bit_eq_mod)
    let ?d = "ascii_nums ! unat (v AND 0x0F)"
    have hexs: "hexs (unat v) = hexs (unat (drop_bit 4 v)) @ [?d]"
      unfolding shift low using hexs.simps [of "unat v"] pos by simp
    from 1(2) hexs obtain c post' where post: "post = c # post'" by (cases post) auto
    from 1(2) have len: "length (hexs (unat (drop_bit 4 v))) \<le> length post'"
      by (simp only: hexs post) simp
    have "put (pre @ post) (length pre) ?d = Done ((pre @ [?d]) @ post')" by (simp add: post put_at)
    moreover from 1(1) [OF pos(2) shift [symmetric] len, of "pre @ [?d]"]
    have "emit16 (drop_bit 4 v) ((pre @ [?d]) @ post') (Suc (length pre)) =
        Done ((pre @ [?d]) @ rev (hexs (unat (drop_bit 4 v))) @ drop (length (hexs (unat (drop_bit 4 v)))) post',
          Suc (length pre) + length (hexs (unat (drop_bit 4 v))))"
      by simp
    ultimately show ?thesis
      using pos(1) unfolding hexs post by (subst emit16.simps) simp
  qed
qed

lemma memcpyFrom_spec:
  "i + k \<le> length dest \<Longrightarrow> i + k \<le> length src \<Longrightarrow>
    memcpyFrom k i dest src = Done (take i dest @ take k (drop i src) @ drop (i + k) dest)"
proof (induction k arbitrary: i dest)
  case (Suc k)
  then have "put dest i (src ! i) = Done (dest[i := src ! i])" by (simp add: put_def)
  moreover have "memcpyFrom k (Suc i) (dest[i := src ! i]) src =
      Done (take (Suc i) (dest[i := src ! i]) @ take k (drop (Suc i) src) @ drop (Suc i + k) (dest[i := src ! i]))"
    using Suc.prems by (intro Suc.IH) auto
  moreover have "take (Suc i) (dest[i := src ! i]) = take i dest @ [src ! i]"
    using Suc.prems by (simp add: take_Suc_conv_app_nth)
  moreover have "take (Suc k) (drop i src) = src ! i # take k (drop (Suc i) src)"
    using Suc.prems by (simp add: Cons_nth_drop_Suc [symmetric])
  ultimately show ?case using Suc.prems by (simp add: get_def)
qed simp

lemma itoaConvertBase16_spec:
  assumes "21 \<le> length buf"
  shows "itoaConvertBase16 v buf =
    Done (hex_text (unat v) @ 0 # drop (length (hex_text (unat v)) + 1) buf)"
proof (cases "v = 0")
  case True
  have "bytes ''0x00'' @ [0, 0] = [48, 120, 48, 48, 0, 0 :: uchar]" by (simp add: bytes_def byte_def)
  moreover have "hex_text 0 = [48, 120, 48, 48]" by (simp add: hex_text_def)
  ultimately show ?thesis
    using True assms by (simp add: itoaConvertBase16_def rtlMemcpy_def memcpyFrom_spec)
      (simp add: eval_nat_numeral)
next
  case False
  define H where "H = (if v < 0x10 then 48 # hexs (unat v) else hexs (unat v))"
  let ?X = "hexs (unat v)"
  have small: "v < 0x10 \<longleftrightarrow> unat v < 16" by (simp add: word_less_nat_alt)
  have H: "hex_text (unat v) = [48, 120] @ H"
    using False by (simp add: hex_text_def H_def small unat_eq_0)
  have lenH: "length H \<le> 16" using hex_text_len [of v] by (simp add: H)
  have lenX: "length ?X \<le> length H" by (simp add: H_def)
  have e: "emit16 v buf 0 = Done (rev ?X @ drop (length ?X) buf, length ?X)"
    using emit16_spec [of v buf "[]"] lenX lenH assms by simp
  have pad: "(if v < 0x10 then andthen (put (rev ?X @ drop (length ?X) buf) (length ?X) 48)
        (\<lambda>b. Done (b, Suc (length ?X))) else Done (rev ?X @ drop (length ?X) buf, length ?X)) =
      Done (rev H @ drop (length H) buf, length H)"
  proof (cases "v < 0x10")
    case True
    have "drop (length ?X) buf \<noteq> []" using lenX lenH assms by auto
    from put_end [OF this, of "rev ?X" 48] True show ?thesis
      by (simp add: H_def drop_Suc tl_drop)
  qed (simp add: H_def)
  obtain a b c rest where d: "drop (length H) buf = a # b # c # rest"
  proof -
    have "3 \<le> length (drop (length H) buf)" using lenH assms by simp
    then show thesis using that
      by (cases "drop (length H) buf"; cases "tl (drop (length H) buf)"; cases "tl (tl (drop (length H) buf))") auto
  qed
  have "rest = drop 3 (drop (length H) buf)" unfolding d by simp
  then have rest: "rest = drop (Suc (Suc (Suc (length H)))) buf"
    by (simp add: drop_drop numeral_3_eq_3)
  have p1: "put (rev H @ a # b # c # rest) (length H) 120 = Done (rev H @ 120 # b # c # rest)"
    using put_at [of "rev H"] by simp
  have p2: "put (rev H @ 120 # b # c # rest) (length H + 1) 48 = Done (rev H @ 120 # 48 # c # rest)"
    using put_at [of "rev H @ [120]"] by simp
  have p3: "put (rev H @ 120 # 48 # c # rest) (length H + 2) 0 = Done (rev H @ 120 # 48 # 0 # rest)"
    using put_at [of "rev H @ [120, 48]"] by simp
  have s: "swapEnds 0 (length H + 1) (rev H @ 120 # 48 # 0 # rest) = Done ([48, 120] @ H @ 0 # rest)"
    using swapEnds_spec [of "[]" "rev H @ [120, 48]" "0 # rest"] by simp
  show ?thesis
    using False e pad p1 p2 p3 s
    by (simp add: itoaConvertBase16_def d H rest)
qed

section \<open>Parsing what was printed\<close>

lemma digit_byte: "n < 10 \<Longrightarrow> IS_DIGIT (48 + of_nat n)"
  "n < 10 \<Longrightarrow> uint (48 + of_nat n :: uchar) - 48 = int n"
proof -
  assume "n < 10"
  then have "unat (48 + of_nat n :: uchar) = 48 + n"
    by (simp add: unat_plus_small unat_of_nat take_bit_nat_eq_self)
  with \<open>n < 10\<close> show "IS_DIGIT (48 + of_nat n)" "uint (48 + of_nat n :: uchar) - 48 = int n"
    by (simp_all add: IS_DIGIT_def word_le_nat_alt uint_nat)
qed

lemma digitLoop_decs:
  "0 \<le> a \<Longrightarrow> a * 10 ^ length (decs m) + int m < 2 ^ 31 \<Longrightarrow>
    digitLoop a (decs m @ ys) = digitLoop (a * 10 ^ length (decs m) + int m) ys"
proof (induction m arbitrary: a ys rule: decs.induct)
  case (1 m)
  show ?case
  proof (cases "m = 0")
    case True
    then show ?thesis by (simp add: decs.simps)
  next
    case False
    let ?L = "length (decs (m div 10))"
    have decs: "decs m = decs (m div 10) @ [48 + of_nat (m mod 10)]"
      using False by (subst decs.simps) simp
    let ?b = "a * 10 ^ ?L + int (m div 10)"
    have tot: "a * 10 ^ length (decs m) + int m = 10 * ?b + int (m mod 10)"
      by (simp add: decs algebra_simps flip: of_nat_mult of_nat_add) presburger
    have b: "0 \<le> ?b" "10 * ?b + int (m mod 10) < 2 ^ 31"
      using 1(2,3) tot by simp_all
    moreover have "c < 2 ^ 31" if "0 \<le> c" "10 * c + int r < 2 ^ 31" for c :: int and r :: nat
      using that by simp
    ultimately have "?b < 2 ^ 31" by blast
    from 1(1) [OF False 1(2) this, of "(48 + of_nat (m mod 10)) # ys"]
    have "digitLoop a (decs m @ ys) = digitLoop ?b ((48 + of_nat (m mod 10)) # ys)"
      by (simp add: decs)
    also have "\<dots> = digitLoop (10 * ?b + int (m mod 10)) ys"
    proof -
      have "long_range (10 * ?b)" "long_range (10 * ?b + int (m mod 10))"
        using b by (simp_all add: long_range_def)
      then show ?thesis using digit_byte [of "m mod 10"] by (simp add: Let_def)
    qed
    finally show ?thesis by (simp only: tot)
  qed
qed

lemma decs_head: "0 < n \<Longrightarrow> \<exists>d ds. decs n = (48 + of_nat d) # ds \<and> d < 10"
proof (induction n rule: decs.induct)
  case (1 n)
  show ?case
  proof (cases "n div 10 = 0")
    case True
    with 1(2) have "decs n = [48 + of_nat (n mod 10)]"
      by (subst decs.simps) (simp add: decs.simps)
    then show ?thesis by (auto intro!: exI [of _ "n mod 10"])
  next
    case False
    with 1 obtain d ds where "decs (n div 10) = (48 + of_nat d) # ds" "d < 10" by auto
    with 1(2) show ?thesis by (subst decs.simps) auto
  qed
qed

lemma digit_not_sign:
  "d < 10 \<Longrightarrow> (48 + of_nat d :: uchar) \<noteq> 32 \<and> (48 + of_nat d :: uchar) \<noteq> 43 \<and> (48 + of_nat d :: uchar) \<noteq> 45"
proof -
  assume "d < 10"
  then have "unat (48 + of_nat d :: uchar) = 48 + d"
    by (simp add: unat_plus_small unat_of_nat take_bit_nat_eq_self)
  then show ?thesis by (auto simp: word_unat_eq_iff)
qed

lemma rtlToInt32_dec_text:
  assumes "n < 2 ^ 31"
  shows "rtlToInt32 (dec_text n @ 0 # rest) = Done (int n)"
proof (cases "n = 0")
  case True
  then show ?thesis
    by (simp add: dec_text_def rtlToInt32_def IS_DIGIT_def long_range_def word_le_nat_alt)
next
  case False
  then obtain d ds where d: "decs n = (48 + of_nat d) # ds" "d < 10" using decs_head [of n] by auto
  have skip: "skipBlanks (decs n @ 0 # rest) = Done (decs n @ 0 # rest)"
    using d digit_not_sign [OF d(2)] by simp
  have hd: "hd (decs n @ 0 # rest) \<noteq> 45" "hd (decs n @ 0 # rest) \<noteq> 43"
    using d digit_not_sign [OF d(2)] by simp_all
  have "digitLoop 0 (decs n @ 0 # rest) = digitLoop (int n) (0 # rest)"
    using digitLoop_decs [of 0 n "0 # rest"] assms by simp
  also have "\<dots> = Done (int n)" by (simp add: IS_DIGIT_def word_le_nat_alt)
  finally show ?thesis
    using False skip hd by (simp add: dec_text_def rtlToInt32_def Let_def)
qed

text \<open>
  C33 (number conversion and its inverse). With room for 21 bytes, \<^verbatim>\<open>rtlItoa\<close> in base 10 or
  16 writes exactly the number's text and a terminating zero, touching nothing behind it, and
  \<^verbatim>\<open>rtlToInt32\<close> reads the decimal text back as the number when that is below 2 ^ 31, the range of its result.
\<close>

theorem rtlItoa_roundtrip:
  assumes "21 \<le> length buf"
  shows "rtlItoa v buf 10 = Done (Some (dec_text (unat v) @ 0 # drop (length (dec_text (unat v)) + 1) buf)) \<and>
    rtlItoa v buf 16 = Done (Some (hex_text (unat v) @ 0 # drop (length (hex_text (unat v)) + 1) buf)) \<and>
    (unat v < 2 ^ 31 \<longrightarrow>
      (\<exists>text. rtlItoa v buf 10 = Done (Some text) \<and> rtlToInt32 text = Done (int (unat v))))"
  using itoaBase10Convert_spec [OF assms, of v] itoaConvertBase16_spec [OF assms, of v]
    rtlToInt32_dec_text [of "unat v"]
  by (simp add: rtlItoa_def)

theorem rtlItoa_roundtrip_witness:
  "\<exists>text. rtlItoa 4096 (replicate 21 7) 10 = Done (Some text) \<and> rtlToInt32 text = Done 4096"
  using rtlItoa_roundtrip [of "replicate 21 7" 4096] by auto

section \<open>Comparison and bounds\<close>

text \<open>The order of byte strings.\<close>

fun text_less :: "uchar list \<Rightarrow> uchar list \<Rightarrow> bool" where
  "text_less xs [] = False"
| "text_less [] (y # ys) = True"
| "text_less (x # xs) (y # ys) = (x < y \<or> x = y \<and> text_less xs ys)"

lemma rtlStrcmp_spec:
  "terminated s1 \<Longrightarrow> terminated s2 \<Longrightarrow>
    \<exists>r. rtlStrcmp s1 s2 = Done r \<and> (r = 0 \<longleftrightarrow> cstr s1 = cstr s2) \<and>
      (r < 0 \<longleftrightarrow> text_less (cstr s1) (cstr s2))"
proof (induction s1 s2 rule: rtlStrcmp.induct)
  case (1 c s1 d s2)
  consider "c = d" "c = 0" | "c = d" "c \<noteq> 0" | "c \<noteq> d" by blast
  then show ?case
  proof cases
    case 2
    with 1 show ?thesis by (auto simp: terminated_def cstr_def)
  next
    case 3
    moreover have "uint c \<noteq> uint d" using 3 by (simp add: word_uint_eq_iff)
    moreover have "uint c < uint d \<longleftrightarrow> c < d" by (simp add: word_less_def)
    ultimately show ?thesis
      using word_neq_0_conv by (auto simp: cstr_def)
  qed (auto simp: cstr_def)
qed (auto simp: terminated_def)

lemma rtlStrcmp_zero:
  "terminated s1 \<Longrightarrow> terminated s2 \<Longrightarrow> \<exists>r. rtlStrcmp s1 s2 = Done r \<and> (r = 0 \<longleftrightarrow> cstr s1 = cstr s2)"
  using rtlStrcmp_spec by blast

lemma memsetFrom_len: "i + k \<le> length s \<Longrightarrow> \<exists>s'. memsetFrom k i s c = Done s' \<and> length s' = length s"
proof (induction k arbitrary: i s)
  case (Suc k)
  then have "put s i c = Done (s[i := c])" by (simp add: put_def)
  with Suc.IH [of "Suc i" "s[i := c]"] Suc.prems show ?case by simp
qed simp

lemma cstr_zero: "0 \<notin> set w \<Longrightarrow> cstr (w @ 0 # rest) = w"
  unfolding cstr_def by (induction w) auto

lemma strlenFrom_text: "0 \<notin> set n \<Longrightarrow> strlenFrom (n @ 0 # rest) i = Done (i + of_nat (length n))"
  by (induction n arbitrary: i) (auto simp: algebra_simps)

text \<open>
  String comparison. On terminated strings \<^verbatim>\<open>rtlStrcmp\<close> returns, its result is zero
  exactly for equal texts and negative exactly when the first text comes first in the order
  of its unsigned bytes.
\<close>

theorem rtlStrcmp_order:
  assumes "terminated s1" "terminated s2"
  shows "\<exists>r. rtlStrcmp s1 s2 = Done r \<and> (r = 0 \<longleftrightarrow> cstr s1 = cstr s2) \<and>
    (r < 0 \<longleftrightarrow> text_less (cstr s1) (cstr s2))"
  using rtlStrcmp_spec [OF assms] .

theorem rtlStrcmp_order_witness:
  "\<exists>r. rtlStrcmp [104, 105, 0, 9] [104, 200, 0] = Done r \<and> r < 0"
proof -
  have "terminated [104, 105, 0, 9]" "terminated [104, 200, 0]"
    by (simp_all add: terminated_def)
  from rtlStrcmp_order [OF this] show ?thesis
    by (auto simp: cstr_def)
qed

text \<open>\<open>within sz s p\<close>: the output position is inside the first \<open>sz\<close> bytes and nothing behind them changed.\<close>

definition within :: "usize \<Rightarrow> uchar list \<Rightarrow> uchar list \<times> usize \<Rightarrow> bool" where
  "within sz s p \<longleftrightarrow> length (fst p) = length s \<and> snd p \<le> sz - 1 \<and>
     drop (unat sz) (fst p) = drop (unat sz) s"

lemma put_within:
  assumes "put b (unat i) c = Done b'" "i \<le> sz - 1" "0 < sz" "length b = length s"
    "drop (unat sz) b = drop (unat sz) s"
  shows "length b' = length s" "drop (unat sz) b' = drop (unat sz) s"
proof -
  have "unat i < unat sz"
    using assms(2,3) by (simp add: word_le_nat_alt word_less_nat_alt unat_minus_one)
  with assms(1,4,5) show "length b' = length s" "drop (unat sz) b' = drop (unat sz) s"
    by (auto simp: put_def split: if_splits)
qed

lemma inc_le: "off < m \<Longrightarrow> off + 1 \<le> m" for off m :: usize
  by (simp add: inc_le)

lemma printC_within:
  assumes "within sz s p" "0 < sz" "printC sz c p = Done p'"
  shows "within sz s p'"
proof -
  obtain b off b' off' where p: "p = (b, off)" "p' = (b', off')" by (cases p; cases p') auto
  with assms(3) obtain b1 where b1:
    "(if off < sz - 1 then andthen (put b (unat off) c) (\<lambda>b. Done (b, off + 1)) else Done (b, off)) = Done (b1, off')"
    "put b1 (unat off') 0 = Done b'"
    by (auto simp: printC_def split: if_splits)
  have o: "off' \<le> sz - 1" "length b1 = length s" "drop (unat sz) b1 = drop (unat sz) s"
    using b1(1) assms(1,2) p put_within [of b off c b1 sz s]
    by (auto simp: within_def inc_le split: if_splits)
  with put_within [OF b1(2) o(1) assms(2) o(2,3)] p show ?thesis by (simp add: within_def)
qed

lemma printStrLoop_within:
  "within sz s (b, off) \<Longrightarrow> 0 < sz \<Longrightarrow> printStrLoop sz t (b, off) = Done p' \<Longrightarrow> within sz s p'"
proof (induction t arbitrary: b off)
  case Nil
  then show ?case by (auto split: if_splits)
next
  case (Cons c t)
  show ?case
  proof (cases "off < sz - 1 \<and> c \<noteq> 0")
    case True
    with Cons.prems(3) obtain b1 where b1: "put b (unat off) c = Done b1"
      "printStrLoop sz t (b1, off + 1) = Done p'" by auto
    have "within sz s (b1, off + 1)"
      using put_within [OF b1(1) _ Cons.prems(2)] Cons.prems(1) True by (auto simp: within_def inc_le)
    from Cons.IH [OF this Cons.prems(2) b1(2)] show ?thesis .
  next
    case False
    with Cons.prems show ?thesis by auto
  qed
qed

lemma printStr_within:
  assumes "within sz s p" "0 < sz" "printStr sz t p = Done p'"
  shows "within sz s p'"
proof -
  obtain b off where p: "p = (b, off)" by (cases p)
  from assms(3) obtain b1 off1 b2 where r: "printStrLoop sz t (b, off) = Done (b1, off1)"
    "put b1 (unat off1) 0 = Done b2" "p' = (b2, off1)"
    by (auto simp: printStr_def p)
  from printStrLoop_within [OF assms(1) [unfolded p] assms(2) r(1)] r(2,3) assms(2) show ?thesis
    using put_within [OF r(2) _ assms(2)] by (simp add: within_def)
qed

lemma printPad_within:
  "within sz s p \<Longrightarrow> 0 < sz \<Longrightarrow> printPad k sz p = Done p' \<Longrightarrow> within sz s p'"
  by (induction k arbitrary: p) (auto dest: printC_within)

lemma printLit_within:
  "within sz s p \<Longrightarrow> 0 < sz \<Longrightarrow> printLit sz fmt p = Done (rest, p') \<Longrightarrow> within sz s p'"
  by (induction fmt arbitrary: p) (auto split: if_splits dest: printC_within)

lemma pointer_within:
  assumes w: "within sz s p" and sz: "0 < sz" and r: "convert sz 112 pad ap p = Done (p', ap', pad')"
  shows "within sz s p'"
proof -
  from r have "\<exists>k x p1 p2 p3. printC sz 48 p = Done p1 \<and> printC sz 120 p1 = Done p2 \<and>
      printPad k sz p2 = Done p3 \<and> printStr sz (drop 2 x) p3 = Done p'"
    by (simp add: convert_def) blast
  then obtain k x p1 p2 p3 where s: "printC sz 48 p = Done p1" "printC sz 120 p1 = Done p2"
      "printPad k sz p2 = Done p3" "printStr sz (drop 2 x) p3 = Done p'" by blast
  note w1 = printC_within [OF w sz s(1)]
  note w2 = printC_within [OF w1 sz s(2)]
  note w3 = printPad_within [OF w2 sz s(3)]
  show ?thesis by (rule printStr_within [OF w3 sz s(4)])
qed

lemma number_within:
  assumes w: "within sz s p" and sz: "0 < sz" and c: "c = 100 \<or> c = 117"
    and r: "convert sz c pad ap p = Done (p', ap', pad')"
  shows "within sz s p'"
proof -
  from r c obtain x p1 where p1: "printStr sz x p1 = Done p'"
    "p1 = p \<or> (\<exists>k. printPad k sz p = Done p1)"
    by (auto simp: convert_def split: if_splits)
  with printPad_within [OF w sz] w have "within sz s p1" by blast
  from printStr_within [OF this sz p1(1)] show ?thesis .
qed

lemma convert_within:
  assumes w: "within sz s p" and sz: "0 < sz" and r: "convert sz c pad ap p = Done (p', ap', pad')"
  shows "within sz s p'"
proof -
  consider "c = 112" | "c = 100 \<or> c = 117" | "c \<noteq> 112" "c \<noteq> 100" "c \<noteq> 117" by blast
  then show ?thesis
  proof cases
    case 1
    with pointer_within [OF w sz] r show ?thesis by simp
  next
    case 2
    with number_within [OF w sz] r show ?thesis by blast
  next
    case 3
    with r have "p' = p \<or> (\<exists>d. printC sz d p = Done p') \<or> (\<exists>t. printStr sz t p = Done p')"
      by (auto simp: convert_def split: if_splits)
    with printC_within [OF w sz] printStr_within [OF w sz] w show ?thesis by blast
  qed
qed

lemma printfLoop_within:
  "within sz s p \<Longrightarrow> 0 < sz \<Longrightarrow> printfLoop sz fmt ap pad p = Done (r, b) \<Longrightarrow>
    length b = length s \<and> drop (unat sz) b = drop (unat sz) s"
proof (induction sz fmt ap pad p rule: printfLoop.induct)
  case (1 sz fmt ap pad p)
  show ?case
  proof (cases "snd p < sz - 1")
    case False
    with 1(2-) show ?thesis by (auto simp: printfLoop.simps [of sz fmt] within_def)
  next
    case True
    with 1(4) obtain fmt1 p1 where l: "printLit sz fmt p = Done (fmt1, p1)"
      by (auto simp: printfLoop.simps [of sz fmt])
    have w1: "within sz s p1" using printLit_within [OF 1(2,3) l] .
    show ?thesis
    proof (cases fmt1)
      case Nil
      with 1(4) True l show ?thesis by (auto simp: printfLoop.simps [of sz fmt])
    next
      case (Cons c0 fmt2)
      show ?thesis
      proof (cases "c0 = 0 \<or> snd p1 = sz - 1")
        case True
        with 1(4) \<open>snd p < sz - 1\<close> l Cons w1 show ?thesis
          by (auto simp: printfLoop.simps [of sz fmt] within_def)
      next
        case False
        with 1(4) \<open>snd p < sz - 1\<close> l Cons obtain fmt3 pad1 where
          pw: "padWidth fmt2 pad = Done (fmt3, pad1)"
          and rest: "(case fmt3 of [] \<Rightarrow> Fault | c # fmt4 \<Rightarrow>
            andthen (convert sz c pad1 ap p1) (\<lambda>(p2, ap2, pad2). printfLoop sz fmt4 ap2 pad2 p2)) =
            Done (r, b)"
          by (auto simp: printfLoop.simps [of sz fmt])
        from rest obtain c fmt4 where fmt3: "fmt3 = c # fmt4" by (cases fmt3) auto
        with rest obtain p2 ap2 pad2 where
          "convert sz c pad1 ap p1 = Done (p2, ap2, pad2)" "printfLoop sz fmt4 ap2 pad2 p2 = Done (r, b)"
          by auto
        note r = pw fmt3 this
        from convert_within [OF w1 1(3) r(3)] have w2: "within sz s p2" .
        show ?thesis
          using 1(1) [OF True l refl Cons False r(1) refl r(2,3) refl refl w2 1(3) r(4)] by simp
      qed
    qed
  qed
qed

text \<open>
  C34 (formatted output stays in its buffer). Whatever the format and the arguments, when
  \<^verbatim>\<open>rtlBufPrintfV\<close> is told a nonzero size and returns, no byte at or behind that size has
  changed.
\<close>

theorem rtlBufPrintfV_bounds:
  assumes "0 < sz" "rtlBufPrintfV s sz fmt ap = Done (r, b)"
  shows "length b = length s \<and> drop (unat sz) b = drop (unat sz) s"
proof -
  have "within sz s (s, 0)" by (simp add: within_def)
  from printfLoop_within [OF this assms(1)] assms(2) show ?thesis by (simp add: rtlBufPrintfV_def)
qed

theorem rtlBufPrintfV_bounds_witness:
  "\<exists>r b. rtlBufPrintfV [1, 2, 3, 4, 5] 3 (bytes ''a%dz'' @ [0]) [Int_arg 765] = Done (r, b) \<and>
     b = [97, 55, 0, 4, 5]"
proof -
  have run: "rtlBufPrintfV [1, 2, 3, 4, 5] 3 (bytes ''a%dz'' @ [0]) [Int_arg 765] = Done (0, [97, 55, 0, 4, 5])"
    by code_simp
  from rtlBufPrintfV_bounds [OF _ run] run show ?thesis by simp
qed

text \<open>
  Three surprises of the formatter. A negative \<^verbatim>\<open>%d\<close> argument is printed as the unsigned
  number, because \<^verbatim>\<open>rtlItoa\<close> takes an unsigned value; a percent sign at the end of the format
  makes the formatter read behind its end; an empty format leaves the buffer without a
  terminating zero.
\<close>

theorem rtlBufPrintf_surprises:
  "rtlBufPrintf (replicate 24 7) 24 (bytes ''%d'' @ [0]) [Int_arg (- 1)] =
     Done (20, bytes ''18446744073709551615'' @ [0, 7, 7, 7]) \<and>
   rtlBufPrintf [7, 7, 7, 7] 4 (bytes ''a%'' @ [0]) [] = Fault \<and>
   rtlBufPrintf [7, 7, 7, 7] 4 [0] [] = Done (0, [7, 7, 7, 7])"
  by (intro conjI; code_simp)

end
