(* ===== verification/Cpu.thy ===== *)
theory Cpu
  imports PhysMem
begin

text \<open>
  The processor side of the kernel: interrupt request levels (\<^verbatim>\<open>ke/irql.c\<close> and
  \<^verbatim>\<open>cpu/irql.c\<close>), the interrupt descriptor table (\<^verbatim>\<open>cpu/idt.c\<close>), the segment table
  (\<^verbatim>\<open>cpu/gdt.c\<close>), the task state segment (\<^verbatim>\<open>cpu/tss.c\<close>), the core lookup and the system call
  registers (\<^verbatim>\<open>cpu/cpuInit.c\<close>). The trap and system call entries are in theory \<open>Trap\<close>. Bit fields of the packed structures are words of their width. The
  instructions that load a register (\<^verbatim>\<open>lgdt\<close>, \<^verbatim>\<open>lidt\<close>, \<^verbatim>\<open>ltr\<close>, \<^verbatim>\<open>mov cr8\<close>, \<^verbatim>\<open>wrmsr\<close>) set a field of
  the processor's record.
\<close>

section \<open>State\<close>

record GDT_ENTRY =
  ge_limit :: ushort
  ge_baseLow :: ushort
  ge_baseMid :: uchar
  ge_attributes :: ushort
  ge_baseHi :: uchar

record GDT_GDTR =
  gr_limit :: ushort
  gr_offset :: ulong_ptr

record TSS_DESC =
  td_seglimit :: ushort
  td_baseLo16 :: ushort
  td_baseMid8 :: uchar
  td_type :: "4 word"
  td_zero :: "1 word"
  td_dpl :: "2 word"
  td_p :: "1 word"
  td_seglimitHi :: "4 word"
  td_avl :: "1 word"
  td_unused :: "2 word"
  td_g :: "1 word"
  td_baseHiMid8 :: uchar
  td_baseHi32 :: ulong
  td_reserved :: ulong

text \<open>The stack pointers \<^verbatim>\<open>ist1\<close> to \<^verbatim>\<open>ist7\<close> are the list \<open>ists\<close> of their low and high halves.\<close>

record TSS_ENTRY =
  rsp0Lo :: ulong
  rsp0Hi :: ulong
  ists :: "(ulong \<times> ulong) list"
  iobase :: ushort
  iomap :: "uchar list"

record MCB =
  syscallStack :: ulong_ptr
  syscallStackSave :: ulong_ptr
  lapicBase :: ulong_ptr
  hwId :: ushort
  lapicTmrFreq :: usize
  hasX2Apic :: bool
  gdt :: "GDT_ENTRY list"
  gdtr :: GDT_GDTR
  tss :: TSS_ENTRY

record KPCR =
  core :: MCB
  vId :: ushort
  self :: ulong_ptr

record idtGate =
  offsetLow :: ushort
  codeSeg :: ushort
  ist :: "3 word"
  zero :: "5 word"
  gtype :: "4 word"
  zero1 :: "1 word"
  dpl :: "2 word"
  present :: "1 word"
  offsetMid :: ushort
  offsetHigh :: ulong
  reserved :: ulong

text \<open>
  One processor and what it shares: its registers (\<open>gdtr_reg\<close>, \<open>idtr_reg\<close> and \<open>task_reg\<close> are what
  \<^verbatim>\<open>lgdt\<close>, \<^verbatim>\<open>lidt\<close> and \<^verbatim>\<open>ltr\<close> loaded), its answers to \<^verbatim>\<open>cpuid\<close> (eax, ebx, ecx, edx), the \<^verbatim>\<open>KPCR\<close>
  structures by address, the interrupt table, and the frame allocator's state.
\<close>

record cpu =
  cr8 :: uquad
  msr :: "ulong \<Rightarrow> uquad"
  cpuid :: "ulong \<Rightarrow> ulong \<times> ulong \<times> ulong \<times> ulong"
  gdtr_reg :: "GDT_GDTR option"
  idtr_reg :: "(ushort \<times> ulong_ptr) option"
  task_reg :: "ushort option"
  kpcrs :: "ulong_ptr \<Rightarrow> KPCR option"
  idt :: "idtGate list"
  idtAddr :: ulong_ptr
  pmem :: phys

definition modKpcr :: "ulong_ptr \<Rightarrow> (KPCR \<Rightarrow> KPCR) \<Rightarrow> cpu \<Rightarrow> cpu outcome" where
  "modKpcr a f st = (case kpcrs st a of None \<Rightarrow> Fault | Some k \<Rightarrow> Done (st\<lparr>kpcrs := (kpcrs st)(a \<mapsto> f k)\<rparr>))"

definition getMcb :: "ulong_ptr \<Rightarrow> cpu \<Rightarrow> MCB outcome" where
  "getMcb a st = (case kpcrs st a of None \<Rightarrow> Fault | Some k \<Rightarrow> Done (core k))"

definition modMcb :: "ulong_ptr \<Rightarrow> (MCB \<Rightarrow> MCB) \<Rightarrow> cpu \<Rightarrow> cpu outcome" where
  "modMcb a f st = modKpcr a (\<lambda>k. k\<lparr>core := f (core k)\<rparr>) st"

section \<open>Interrupt request levels\<close>

definition PASSIVE_LEVEL :: uchar where "PASSIVE_LEVEL = 0x1"
definition DISPATCH_LEVEL :: uchar where "DISPATCH_LEVEL = 0x2"
definition CLOCK_LEVEL :: uchar where "CLOCK_LEVEL = 0x3"
definition IPI_LEVEL :: uchar where "IPI_LEVEL = 0xD"
definition POWER_LEVEL :: uchar where "POWER_LEVEL = 0xE"
definition HIGH_LEVEL :: uchar where "HIGH_LEVEL = 0xF"

definition readCr8 :: "cpu \<Rightarrow> ulong" where
  "readCr8 st = ucast (cr8 st)"

definition writeCr8 :: "ulong \<Rightarrow> cpu \<Rightarrow> cpu" where
  "writeCr8 value st = st\<lparr>cr8 := ucast value\<rparr>"

definition halGetIrql :: "cpu \<Rightarrow> ulong" where
  "halGetIrql st = readCr8 st AND 0xF"

definition halSetIrql :: "ulong \<Rightarrow> cpu \<Rightarrow> cpu" where
  "halSetIrql irql st = writeCr8 ((readCr8 st AND NOT 0xF) OR (irql AND 0xF)) st"

definition isIrqlValid :: "uchar \<Rightarrow> bool" where
  "isIrqlValid irql \<longleftrightarrow>
     irql = PASSIVE_LEVEL \<or> irql = DISPATCH_LEVEL \<or> irql = CLOCK_LEVEL \<or>
     irql = IPI_LEVEL \<or> irql = POWER_LEVEL \<or> irql = HIGH_LEVEL"

definition keGetIrql :: "cpu \<Rightarrow> ulong" where
  "keGetIrql st = halGetIrql st"

definition keIrqlRaise :: "uchar \<Rightarrow> cpu \<Rightarrow> (uchar \<times> cpu) outcome" where
  "keIrqlRaise irql st =
     (if \<not> isIrqlValid irql then Panic ''got bad IRQL''
      else let curIrql = keGetIrql st in
        if ucast irql < curIrql then Panic ''IRQL less than current''
        else Done (ucast curIrql, halSetIrql (ucast irql) st))"

definition keIrqlLower :: "uchar \<Rightarrow> cpu \<Rightarrow> (uchar \<times> cpu) outcome" where
  "keIrqlLower irql st =
     (if \<not> isIrqlValid irql then Panic ''got bad IRQL''
      else let curIrql = keGetIrql st in
        if curIrql < ucast irql then Panic ''IRQL greater than current''
        else Done (ucast curIrql, halSetIrql (ucast irql) st))"

section \<open>Segments\<close>

definition KERNEL_CS :: ushort where "KERNEL_CS = 0x08"
definition KERNEL_DS :: ushort where "KERNEL_DS = 0x10"
definition USER_CS :: ushort where "USER_CS = 0x18"
definition USER_DS :: ushort where "USER_DS = 0x20"
definition GDT_TSS_INDEX :: nat where "GDT_TSS_INDEX = 5"
definition GDT_ENTRY_COUNT :: nat where "GDT_ENTRY_COUNT = 7"

definition GDT_ATTRIBUTE_EXECUTABLE :: ushort where "GDT_ATTRIBUTE_EXECUTABLE = push_bit 3 1"
definition GDT_ATTRIBUTE_NONSYSTEM :: ushort where "GDT_ATTRIBUTE_NONSYSTEM = push_bit 4 1"
definition GDT_ATTRIBUTE_PRESENT :: ushort where "GDT_ATTRIBUTE_PRESENT = push_bit 7 1"
definition GDT_ATTRIBUTE_64BIT_CODE :: ushort where "GDT_ATTRIBUTE_64BIT_CODE = push_bit 13 1"
definition GDT_ATTRIBUTE_READABLE :: ushort where "GDT_ATTRIBUTE_READABLE = push_bit 1 1"
definition GDT_ATTRIBUTE_WRITABLE :: ushort where "GDT_ATTRIBUTE_WRITABLE = push_bit 1 1"
definition GDT_ATTRIBUTE_DPL0 :: ushort where "GDT_ATTRIBUTE_DPL0 = 0"
definition GDT_ATTRIBUTE_DPL3 :: ushort where "GDT_ATTRIBUTE_DPL3 = push_bit 5 3"

definition segment :: "ushort \<Rightarrow> GDT_ENTRY" where
  "segment attr = \<lparr>ge_limit = 0, ge_baseLow = 0, ge_baseMid = 0, ge_attributes = attr, ge_baseHi = 0\<rparr>"

definition g_gdtData :: "GDT_ENTRY list" where
  "g_gdtData =
     [segment 0,
      segment (GDT_ATTRIBUTE_64BIT_CODE OR GDT_ATTRIBUTE_PRESENT OR GDT_ATTRIBUTE_DPL0 OR GDT_ATTRIBUTE_NONSYSTEM OR
        GDT_ATTRIBUTE_EXECUTABLE OR GDT_ATTRIBUTE_READABLE),
      segment (GDT_ATTRIBUTE_PRESENT OR GDT_ATTRIBUTE_DPL0 OR GDT_ATTRIBUTE_NONSYSTEM OR GDT_ATTRIBUTE_WRITABLE),
      segment (GDT_ATTRIBUTE_64BIT_CODE OR GDT_ATTRIBUTE_PRESENT OR GDT_ATTRIBUTE_DPL3 OR GDT_ATTRIBUTE_NONSYSTEM OR
        GDT_ATTRIBUTE_EXECUTABLE OR GDT_ATTRIBUTE_READABLE),
      segment (GDT_ATTRIBUTE_PRESENT OR GDT_ATTRIBUTE_DPL3 OR GDT_ATTRIBUTE_NONSYSTEM OR GDT_ATTRIBUTE_WRITABLE),
      segment 0, segment 0]"

definition kiGdtLoad :: "GDT_GDTR \<Rightarrow> cpu \<Rightarrow> cpu" where
  "kiGdtLoad r st = st\<lparr>gdtr_reg := Some r\<rparr>"

text \<open>
  \<^verbatim>\<open>cpuInitGdt\<close> of the \<^verbatim>\<open>MCB\<close> inside the \<^verbatim>\<open>KPCR\<close> at address \<open>a\<close>; the packed table starts 41 bytes into it
  (\<open>None\<close> is a NULL pointer). An entry of the table has 8 bytes.
\<close>

definition gdt_offset :: ulong_ptr where "gdt_offset = 41"

definition cpuInitGdt :: "ulong_ptr option \<Rightarrow> cpu \<Rightarrow> cpu outcome" where
  "cpuInitGdt mcb st =
     (case mcb of None \<Rightarrow> Done st
      | Some a \<Rightarrow>
          let r = \<lparr>gr_limit = of_nat (8 * GDT_ENTRY_COUNT) - 1, gr_offset = a + gdt_offset\<rparr>
          in andthen (modMcb a (\<lambda>m. m\<lparr>gdt := g_gdtData, gdtr := r\<rparr>) st) (\<lambda>st1. Done (kiGdtLoad r st1)))"

section \<open>Interrupt gates\<close>

definition IDT_INT_GATE :: uchar where "IDT_INT_GATE = 0x8E"
definition IDT_TRAP_GATE :: uchar where "IDT_TRAP_GATE = 0x8F"
definition IDT_USER_GATE :: uchar where "IDT_USER_GATE = 0xEE"

definition kiIdtSetEntry :: "uchar \<Rightarrow> uchar \<Rightarrow> ulong_ptr \<Rightarrow> uchar \<Rightarrow> cpu \<Rightarrow> cpu outcome" where
  "kiIdtSetEntry vec type isr istNo st =
     (if 255 \<le> vec then Done st
      else if unat vec < length (idt st)
      then Done (st\<lparr>idt := (idt st)[unat vec :=
        \<lparr>offsetLow = ucast (isr AND 0xFFFF), codeSeg = KERNEL_CS, ist = ucast istNo, zero = 0, gtype = ucast type,
         zero1 = 0, dpl = (if type = IDT_USER_GATE then 3 else 0), present = 1,
         offsetMid = ucast (drop_bit 16 isr AND 0xFFFF), offsetHigh = ucast (drop_bit 32 isr AND 0xFFFFFFFF),
         reserved = 0\<rparr>]\<rparr>)
      else Fault)"

definition kiIdtLoad :: "cpu \<Rightarrow> cpu" where
  "kiIdtLoad st = st\<lparr>idtr_reg := Some (16 * 256 - 1, idtAddr st)\<rparr>"

text \<open>The entry points of \<^verbatim>\<open>trap.S\<close> and \<^verbatim>\<open>vector.S\<close>; their addresses are an argument.\<close>

datatype isr_label = arith_err | nmi | breakpoint_handler | overflow | bound_range | invl_op | double_fault
  | invl_tss | segnp | ss_fault | general_prot | page_fault | lapicTmrIsr | syscallHandler

definition LAPIC_TMR_VEC :: uchar where "LAPIC_TMR_VEC = 0x81"

fun setEntries :: "(isr_label \<Rightarrow> ulong_ptr) \<Rightarrow> (uchar \<times> uchar \<times> isr_label) list \<Rightarrow> cpu \<Rightarrow> cpu outcome" where
  "setEntries ISR [] st = Done st"
| "setEntries ISR ((vec, type, f) # es) st = andthen (kiIdtSetEntry vec type (ISR f) 0 st) (setEntries ISR es)"

definition halRegisterIntr :: "(isr_label \<Rightarrow> ulong_ptr) \<Rightarrow> cpu \<Rightarrow> cpu outcome" where
  "halRegisterIntr ISR st = setEntries ISR
     [(0x0, IDT_TRAP_GATE, arith_err), (0x2, IDT_TRAP_GATE, nmi), (0x3, IDT_TRAP_GATE, breakpoint_handler),
      (0x4, IDT_TRAP_GATE, overflow), (0x5, IDT_TRAP_GATE, bound_range), (0x6, IDT_TRAP_GATE, invl_op),
      (0x8, IDT_TRAP_GATE, double_fault), (0xA, IDT_TRAP_GATE, invl_tss), (0xB, IDT_TRAP_GATE, segnp),
      (0xC, IDT_TRAP_GATE, ss_fault), (0xD, IDT_TRAP_GATE, general_prot), (0xE, IDT_TRAP_GATE, page_fault),
      (LAPIC_TMR_VEC, IDT_INT_GATE, lapicTmrIsr)] st"

section \<open>Task state segment\<close>

definition STACK_SIZE_PAGES :: usize where "STACK_SIZE_PAGES = 1"

text \<open>\<open>sizeof(TSS_ENTRY)\<close>, the offset of \<^verbatim>\<open>iomap\<close> in it, and the offset of \<^verbatim>\<open>tss\<close> in a \<^verbatim>\<open>KPCR\<close>.\<close>

definition TSS_SIZE :: nat where "TSS_SIZE = 8296"
definition iomap_offset :: ushort where "iomap_offset = 104"
definition tss_offset :: ulong_ptr where "tss_offset = 107"

definition allocKernelStack :: "TSS_ENTRY \<Rightarrow> cpu \<Rightarrow> (TSS_ENTRY \<times> cpu) outcome" where
  "allocKernelStack entry st =
     andthen (mmAllocFrame STACK_SIZE_PAGES (pmem st)) (\<lambda>(rsp0, pm).
       if rsp0 = 0 then Panic ''failed to allocate TSS rsp0''
       else let r = rsp0 + STACK_SIZE_PAGES * PAGESIZE + kernelBase pm in
         Done (entry\<lparr>rsp0Lo := ucast (r AND 0xFFFFFFFF), rsp0Hi := ucast (drop_bit 32 r AND 0xFFFFFFFF)\<rparr>, st\<lparr>pmem := pm\<rparr>))"

definition IST_SCHED :: uchar where "IST_SCHED = 0x00"

text \<open>The result is the word written through the pointer, \<open>None\<close> when nothing is.\<close>

definition tssAllocateStack :: "bool \<Rightarrow> cpu \<Rightarrow> (ntstatus \<times> ulong_ptr option \<times> cpu) outcome" where
  "tssAllocateStack resultNull st =
     (if resultNull then Done (STATUS_INVALID_HANDLE, None, st)
      else andthen (mmAllocFrame STACK_SIZE_PAGES (pmem st)) (\<lambda>(base, pm).
        if base = 0 then Done (STATUS_NO_MEMORY, Some 0, st\<lparr>pmem := pm\<rparr>)
        else Done (STATUS_SUCCESS, Some (PHYS_TO_VIRT pm base), st\<lparr>pmem := pm\<rparr>)))"

definition tssSetIntrStack :: "ulong_ptr option \<Rightarrow> uchar \<Rightarrow> ulong_ptr option \<Rightarrow> cpu \<Rightarrow> (ntstatus \<times> cpu) outcome" where
  "tssSetIntrStack kpcr istNumber stack st =
     (case (kpcr, stack) of
        (Some a, Some s) \<Rightarrow>
          if istNumber < 7
          then andthen (modMcb a (\<lambda>m. m\<lparr>tss := (tss m)\<lparr>ists := (ists (tss m))[unat istNumber := (ucast s, ucast (drop_bit 32 s))]\<rparr>\<rparr>) st)
            (\<lambda>st1. Done (STATUS_SUCCESS, st1))
          else Done (STATUS_INVALID_PARAM, st)
      | _ \<Rightarrow> Done (STATUS_INVALID_HANDLE, st))"

text \<open>A descriptor of 16 bytes lies over two entries of the table.\<close>

definition descOf :: "GDT_ENTRY \<Rightarrow> GDT_ENTRY \<Rightarrow> TSS_DESC" where
  "descOf e f = \<lparr>td_seglimit = ge_limit e, td_baseLo16 = ge_baseLow e, td_baseMid8 = ge_baseMid e,
     td_type = ucast (ge_attributes e), td_zero = ucast (drop_bit 4 (ge_attributes e)),
     td_dpl = ucast (drop_bit 5 (ge_attributes e)), td_p = ucast (drop_bit 7 (ge_attributes e)),
     td_seglimitHi = ucast (drop_bit 8 (ge_attributes e)), td_avl = ucast (drop_bit 12 (ge_attributes e)),
     td_unused = ucast (drop_bit 13 (ge_attributes e)), td_g = ucast (drop_bit 15 (ge_attributes e)),
     td_baseHiMid8 = ge_baseHi e,
     td_baseHi32 = ucast (ge_limit f) OR push_bit 16 (ucast (ge_baseLow f)),
     td_reserved = ucast (ge_baseMid f) OR push_bit 8 (ucast (ge_attributes f)) OR push_bit 24 (ucast (ge_baseHi f))\<rparr>"

definition entriesOf :: "TSS_DESC \<Rightarrow> GDT_ENTRY \<times> GDT_ENTRY" where
  "entriesOf d =
     (\<lparr>ge_limit = td_seglimit d, ge_baseLow = td_baseLo16 d, ge_baseMid = td_baseMid8 d,
       ge_attributes = ucast (td_type d) OR push_bit 4 (ucast (td_zero d)) OR push_bit 5 (ucast (td_dpl d)) OR
         push_bit 7 (ucast (td_p d)) OR push_bit 8 (ucast (td_seglimitHi d)) OR push_bit 12 (ucast (td_avl d)) OR
         push_bit 13 (ucast (td_unused d)) OR push_bit 15 (ucast (td_g d)),
       ge_baseHi = td_baseHiMid8 d\<rparr>,
      \<lparr>ge_limit = ucast (td_baseHi32 d), ge_baseLow = ucast (drop_bit 16 (td_baseHi32 d)),
       ge_baseMid = ucast (td_reserved d), ge_attributes = ucast (drop_bit 8 (td_reserved d)),
       ge_baseHi = ucast (drop_bit 24 (td_reserved d))\<rparr>)"

definition tssDesc :: "ulong_ptr \<Rightarrow> TSS_DESC \<Rightarrow> TSS_DESC" where
  "tssDesc tssBase desc = desc\<lparr>td_seglimit := of_nat TSS_SIZE - 1, td_p := 1, td_g := 0, td_avl := 0, td_dpl := 0,
     td_type := 9, td_baseLo16 := ucast (tssBase AND 0xFFFF), td_baseMid8 := ucast (drop_bit 16 tssBase AND 0xFF),
     td_baseHiMid8 := ucast (drop_bit 24 tssBase AND 0xFF), td_baseHi32 := ucast (drop_bit 32 tssBase AND 0xFFFFFFFF)\<rparr>"

text \<open>\<^verbatim>\<open>tssWrite\<close>, with the descriptor at entry \<open>i\<close> of the core's own table.\<close>

definition tssWrite :: "ulong_ptr \<Rightarrow> nat \<Rightarrow> cpu \<Rightarrow> cpu outcome" where
  "tssWrite kpcr i st =
     andthen (getMcb kpcr st) (\<lambda>m.
     andthen (allocKernelStack (tss m) st) (\<lambda>(t, st1).
       if Suc i < length (gdt m)
       then let (e, f) = entriesOf (tssDesc (kpcr + tss_offset) (descOf (gdt m ! i) (gdt m ! Suc i)))
         in modMcb kpcr (\<lambda>m. m\<lparr>gdt := (gdt m)[i := e, Suc i := f],
              tss := t\<lparr>iomap := replicate 8192 0xFF, iobase := iomap_offset\<rparr>\<rparr>) st1
       else Fault))"

definition tssLoad :: "cpu \<Rightarrow> cpu" where
  "tssLoad st = st\<lparr>task_reg := Some 0x2B\<rparr>"

definition cpuInitTss :: "ulong_ptr option \<Rightarrow> cpu \<Rightarrow> cpu outcome" where
  "cpuInitTss kpcr st =
     (case kpcr of None \<Rightarrow> Done st
      | Some a \<Rightarrow> andthen (tssWrite a GDT_TSS_INDEX st) (\<lambda>st1. Done (tssLoad st1)))"

section \<open>Model-specific registers, core lookup and system call setup\<close>

definition IA32_EFER :: ulong where "IA32_EFER = 0xC0000080"
definition IA32_STAR :: ulong where "IA32_STAR = 0xC0000081"
definition IA32_LSTAR :: ulong where "IA32_LSTAR = 0xC0000082"
definition IA32_SFMASK :: ulong where "IA32_SFMASK = 0xC0000084"
definition IA32_GS_BASE :: ulong where "IA32_GS_BASE = 0xC0000101"
definition IA32_APIC_BASE_MSR :: ulong where "IA32_APIC_BASE_MSR = 0x1B"

definition rdmsr :: "ulong \<Rightarrow> cpu \<Rightarrow> uquad" where
  "rdmsr msrAddr st =
     (let lo = ucast (msr st msrAddr) :: ulong; hi = ucast (drop_bit 32 (msr st msrAddr)) :: ulong
      in push_bit 32 (ucast hi) OR ucast lo)"

definition wrmsr :: "ulong \<Rightarrow> uquad \<Rightarrow> cpu \<Rightarrow> cpu" where
  "wrmsr msrAddr value st =
     (let lo = ucast value :: ulong; hi = ucast (drop_bit 32 value) :: ulong
      in st\<lparr>msr := (msr st)(msrAddr := push_bit 32 (ucast hi) OR ucast lo)\<rparr>)"

definition keGetCore :: "cpu \<Rightarrow> ulong_ptr option outcome" where
  "keGetCore st =
     (if rdmsr IA32_GS_BASE st = 0 then Done None
      else case kpcrs st (rdmsr IA32_GS_BASE st) of None \<Rightarrow> Fault | Some k \<Rightarrow> Done (Some (self k)))"

definition halInitSyscall :: "(isr_label \<Rightarrow> ulong_ptr) \<Rightarrow> cpu \<Rightarrow> cpu outcome" where
  "halInitSyscall ISR st =
     (case cpuid st 0x80000001 of (_, _, _, edx) \<Rightarrow>
        if edx AND push_bit 11 1 = 0 then Panic ''SYSCALL/SYSRET not supported by CPU''
        else
          let st1 = wrmsr IA32_EFER (rdmsr IA32_EFER st OR 1) st;
              st2 = wrmsr IA32_STAR (push_bit 48 (ucast USER_CS) OR push_bit 32 (ucast KERNEL_CS)) st1;
              st3 = wrmsr IA32_LSTAR (ISR syscallHandler) st2
          in Done (wrmsr IA32_SFMASK (rdmsr IA32_SFMASK st3 OR push_bit 9 1) st3))"

section \<open>The priority level\<close>

lemma halSetIrql_get: "halGetIrql (halSetIrql l st) = l AND 0xF"
proof -
  have m: "(0xF :: ulong) = mask 4" by (simp add: mask_eq_exp_minus_1)
  show ?thesis
    unfolding halGetIrql_def halSetIrql_def readCr8_def writeCr8_def m
    by (rule bit_word_eqI) (auto simp: bit_simps)
qed

lemma isIrqlValid_levels: "isIrqlValid l \<Longrightarrow> (ucast l :: ulong) AND 0xF = ucast l"
  by (auto simp: isIrqlValid_def PASSIVE_LEVEL_def DISPATCH_LEVEL_def CLOCK_LEVEL_def IPI_LEVEL_def
      POWER_LEVEL_def HIGH_LEVEL_def)

lemma halGetIrql_small: "ucast (ucast (halGetIrql st) :: uchar) = halGetIrql st"
proof -
  have m: "(0xF :: ulong) = mask 4" by (simp add: mask_eq_exp_minus_1)
  show ?thesis unfolding halGetIrql_def m by (rule bit_word_eqI) (auto simp: bit_simps)
qed

text \<open>
  Raising and lowering the level. From a level the interface accepts, \<^verbatim>\<open>keIrqlRaise\<close> to a
  valid level that is not below it sets that level and returns the old one, and
  \<^verbatim>\<open>keIrqlLower\<close> with the returned value restores it; a valid level below the current one, and
  a value that is no level, is a bug check.
\<close>

theorem keIrqlRaise_lower:
  assumes "isIrqlValid (ucast (halGetIrql st))"
  shows "case keIrqlRaise irql st of
      Done (old, st') \<Rightarrow> isIrqlValid irql \<and> halGetIrql st \<le> ucast irql \<and> halGetIrql st' = ucast irql \<and>
        (\<exists>st''. keIrqlLower old st' = Done (irql, st'') \<and> halGetIrql st'' = halGetIrql st)
    | Panic s \<Rightarrow> \<not> isIrqlValid irql \<or> ucast irql < halGetIrql st
    | Fault \<Rightarrow> False"
proof (cases "isIrqlValid irql \<and> \<not> ucast irql < halGetIrql st")
  case False
  then show ?thesis by (auto simp: keIrqlRaise_def keGetIrql_def)
next
  case True
  let ?st = "halSetIrql (ucast irql) st" and ?old = "ucast (halGetIrql st) :: uchar"
  have new: "halGetIrql ?st = ucast irql" using True by (simp add: halSetIrql_get isIrqlValid_levels)
  have old: "halGetIrql (halSetIrql (ucast ?old) ?st) = halGetIrql st"
    using isIrqlValid_levels [OF assms] by (simp add: halSetIrql_get halGetIrql_small)
  have "ucast (ucast irql :: ulong) = irql" by (rule bit_word_eqI) (auto simp: bit_simps)
  moreover have "\<not> ucast irql < (ucast ?old :: ulong)" using True by (simp add: halGetIrql_small)
  ultimately have "keIrqlLower ?old ?st = Done (irql, halSetIrql (ucast ?old) ?st)"
    using assms by (simp add: keIrqlLower_def keGetIrql_def new)
  moreover have "keIrqlRaise irql st = Done (?old, ?st)"
    using True by (simp add: keIrqlRaise_def keGetIrql_def)
  ultimately show ?thesis using True new old by (auto simp: not_less)
qed

section \<open>Descriptors as the processor reads them\<close>

definition gate_offset :: "idtGate \<Rightarrow> uquad" where
  "gate_offset g = ucast (offsetLow g) OR push_bit 16 (ucast (offsetMid g)) OR push_bit 32 (ucast (offsetHigh g))"

definition seg_base :: "TSS_DESC \<Rightarrow> uquad" where
  "seg_base d = ucast (td_baseLo16 d) OR push_bit 16 (ucast (td_baseMid8 d)) OR push_bit 24 (ucast (td_baseHiMid8 d)) OR
     push_bit 32 (ucast (td_baseHi32 d))"

definition seg_limit :: "TSS_DESC \<Rightarrow> nat" where
  "seg_limit d = unat (td_seglimit d) + 2 ^ 16 * unat (td_seglimitHi d)"

lemma word_masks:
  "(0xFFFF :: uquad) = mask 16" "(0xFFFFFFFF :: uquad) = mask 32" "(0xFF :: uquad) = mask 8"
  by (simp_all add: mask_eq_exp_minus_1)

lemma ucast_down_up: "ucast (ucast x :: 'b::len word) = take_bit LENGTH('b) x" for x :: "'a::len word"
  by (rule bit_word_eqI) (auto simp: bit_simps)

lemma take_bit_and_mask: "take_bit n (x AND mask n) = take_bit n x" for x :: "'a::len word"
  by (simp add: take_bit_eq_mask)

lemma bits_join: "take_bit n x OR push_bit n (take_bit m (drop_bit n x)) = take_bit (n + m) x" for x :: "'a::len word"
  by (rule bit_word_eqI) (auto simp: bit_simps)

lemma take_bit_all: "LENGTH('a) \<le> n \<Longrightarrow> take_bit n x = x" for x :: "'a::len word"
  by (rule bit_word_eqI) (simp add: bit_simps)

lemma split_16_16_32:
  "ucast (ucast (x AND 0xFFFF) :: ushort) OR push_bit 16 (ucast (ucast (drop_bit 16 x AND 0xFFFF) :: ushort)) OR
    push_bit 32 (ucast (ucast (drop_bit 32 x AND 0xFFFFFFFF) :: ulong)) = x" for x :: uquad
  using bits_join [of 16 x 16] bits_join [of 32 x 32]
  by (simp add: word_masks ucast_down_up take_bit_and_mask take_bit_all or.assoc [symmetric] del: take_bit_and)

lemma split_16_8_8_32:
  "ucast (ucast (x AND 0xFFFF) :: ushort) OR push_bit 16 (ucast (ucast (drop_bit 16 x AND 0xFF) :: uchar)) OR
    push_bit 24 (ucast (ucast (drop_bit 24 x AND 0xFF) :: uchar)) OR
    push_bit 32 (ucast (ucast (drop_bit 32 x AND 0xFFFFFFFF) :: ulong)) = x" for x :: uquad
  using bits_join [of 16 x 8] bits_join [of 24 x 8] bits_join [of 32 x 32]
  by (simp add: word_masks ucast_down_up take_bit_and_mask take_bit_all or.assoc [symmetric] del: take_bit_and)

lemma seg_base_tssDesc: "seg_base (tssDesc b d) = b"
  by (simp add: seg_base_def tssDesc_def split_16_8_8_32 del: or.assoc)


lemma desc_roundtrip: "case entriesOf d of (e, f) \<Rightarrow> descOf e f = d"
proof -
  have 32: "ucast (ucast x :: ushort) OR push_bit 16 (ucast (ucast (drop_bit 16 x) :: ushort)) = x" for x :: ulong
    using bits_join [of 16 x 16] by (simp add: ucast_down_up take_bit_all)
  have res: "ucast (ucast x :: uchar) OR push_bit 8 (ucast (ucast (drop_bit 8 x) :: ushort)) OR
      push_bit 24 (ucast (ucast (drop_bit 24 x) :: uchar)) = x" for x :: ulong
    using bits_join [of 8 x 16] bits_join [of 24 x 8] by (simp add: ucast_down_up take_bit_all or.assoc [symmetric])
  have attr: "ucast a = (x :: 4 word)" "ucast (drop_bit 4 a) = (z :: 1 word)" "ucast (drop_bit 5 a) = (l :: 2 word)"
    "ucast (drop_bit 7 a) = (p :: 1 word)" "ucast (drop_bit 8 a) = (h :: 4 word)" "ucast (drop_bit 12 a) = (v :: 1 word)"
    "ucast (drop_bit 13 a) = (u :: 2 word)" "ucast (drop_bit 15 a) = (g :: 1 word)"
    if "a = ucast x OR push_bit 4 (ucast z) OR push_bit 5 (ucast l) OR push_bit 7 (ucast p) OR push_bit 8 (ucast h) OR
      push_bit 12 (ucast v) OR push_bit 13 (ucast u) OR push_bit 15 (ucast g)"
    for a :: ushort and x z l p h v u g
    unfolding that by (rule bit_word_eqI; auto simp: bit_simps less_Suc0 dest: bit_imp_le_length)+
  show ?thesis
    unfolding entriesOf_def descOf_def
    by (simp only: split GDT_ENTRY.select_convs 32 res attr [OF refl]) simp
qed


lemma desc_roundtrip': "entriesOf d = (e, f) \<Longrightarrow> descOf e f = d"
  using desc_roundtrip [of d] by simp

section \<open>Gates\<close>

text \<open>
  The vectors the kernel handles, from the processor's exception numbers, and their handlers.
  A gate leads to a handler when it is present, enters the kernel's code segment at the
  handler's address, and only the kernel can call it by software.
\<close>

definition handler_of :: "nat \<Rightarrow> isr_label option" where
  "handler_of = [0 \<mapsto> arith_err, 2 \<mapsto> nmi, 3 \<mapsto> breakpoint_handler, 4 \<mapsto> overflow, 5 \<mapsto> bound_range, 6 \<mapsto> invl_op,
     8 \<mapsto> double_fault, 10 \<mapsto> invl_tss, 11 \<mapsto> segnp, 12 \<mapsto> ss_fault, 13 \<mapsto> general_prot, 14 \<mapsto> page_fault,
     0x81 \<mapsto> lapicTmrIsr]"

definition leads_to :: "idtGate \<Rightarrow> uquad \<Rightarrow> bool" where
  "leads_to g a \<longleftrightarrow> present g = 1 \<and> codeSeg g = KERNEL_CS \<and> dpl g = 0 \<and> ist g = 0 \<and> gate_offset g = a"

definition gate :: "uchar \<Rightarrow> uquad \<Rightarrow> idtGate" where
  "gate type isr = \<lparr>offsetLow = ucast (isr AND 0xFFFF), codeSeg = KERNEL_CS, ist = 0, zero = 0, gtype = ucast type,
     zero1 = 0, dpl = (if type = IDT_USER_GATE then 3 else 0), present = 1,
     offsetMid = ucast (drop_bit 16 isr AND 0xFFFF), offsetHigh = ucast (drop_bit 32 isr AND 0xFFFFFFFF), reserved = 0\<rparr>"

lemma kiIdtSetEntry_run:
  "length (idt st) = 256 \<Longrightarrow> vec < 255 \<Longrightarrow>
    kiIdtSetEntry vec type isr 0 st = Done (st\<lparr>idt := (idt st)[unat vec := gate type isr]\<rparr>)"
  using unsigned_less [where 'a = nat, of vec] by (simp add: kiIdtSetEntry_def gate_def linorder_not_le)

lemma gate_leads_to: "type \<noteq> IDT_USER_GATE \<Longrightarrow> leads_to (gate type isr) isr"
  unfolding leads_to_def gate_def gate_offset_def by (simp add: split_16_16_32 del: or.assoc)

text \<open>
  \<^verbatim>\<open>halRegisterIntr\<close> makes each vector the kernel handles lead to its handler, through a gate that
  user code cannot call, and changes nothing else.
\<close>

definition gates_set :: "(isr_label \<Rightarrow> ulong_ptr) \<Rightarrow> idtGate list \<Rightarrow> idtGate list \<Rightarrow> bool" where
  "gates_set ISR I I' \<longleftrightarrow> length I' = 256 \<and>
    (\<forall>v < 256. case handler_of v of Some f \<Rightarrow> leads_to (I' ! v) (ISR f) | None \<Rightarrow> I' ! v = I ! v)"

lemma halRegisterIntr_gates:
  assumes "length (idt st) = 256"
  shows "\<exists>I. halRegisterIntr ISR st = Done (st\<lparr>idt := I\<rparr>) \<and> gates_set ISR (idt st) I"
proof -
  note gates = gate_leads_to [of IDT_TRAP_GATE] gate_leads_to [of IDT_INT_GATE]
  have g: "leads_to (gate IDT_TRAP_GATE a) a" "leads_to (gate IDT_INT_GATE a) a" for a
    using gates by (simp_all add: IDT_TRAP_GATE_def IDT_INT_GATE_def IDT_USER_GATE_def)
  let ?t = "\<lambda>f. gate IDT_TRAP_GATE (ISR f)"
  define I where "I = (idt st)[0 := ?t arith_err, 2 := ?t nmi, 3 := ?t breakpoint_handler, 4 := ?t overflow,
    5 := ?t bound_range, 6 := ?t invl_op, 8 := ?t double_fault, 10 := ?t invl_tss, 11 := ?t segnp, 12 := ?t ss_fault,
    13 := ?t general_prot, 14 := ?t page_fault, 0x81 := gate IDT_INT_GATE (ISR lapicTmrIsr)]"
  have "halRegisterIntr ISR st = Done (st\<lparr>idt := I\<rparr>)"
    using assms by (simp add: I_def halRegisterIntr_def kiIdtSetEntry_run LAPIC_TMR_VEC_def)
  moreover have "gates_set ISR (idt st) I"
    using assms unfolding gates_set_def by (simp add: I_def handler_of_def nth_list_update g)
  ultimately show ?thesis by blast
qed

definition demo_cpu :: cpu where
  "demo_cpu = \<lparr>cr8 = 1, msr = (\<lambda>_. 0), cpuid = (\<lambda>_. (0, 0, 0, 0x800)), gdtr_reg = None, idtr_reg = None, task_reg = None,
     kpcrs = (\<lambda>a. if a = 0x5000 then Some \<lparr>core = \<lparr>syscallStack = 0, syscallStackSave = 0, lapicBase = 0, hwId = 0,
       lapicTmrFreq = 0, hasX2Apic = False, gdt = replicate 7 (segment 0), gdtr = \<lparr>gr_limit = 0, gr_offset = 0\<rparr>,
       tss = \<lparr>rsp0Lo = 0, rsp0Hi = 0, ists = replicate 7 (0, 0), iobase = 0, iomap = []\<rparr>\<rparr>, vId = 0, self = 0\<rparr> else None),
     idt = replicate 256 (gate 0 0), idtAddr = 0x9000, pmem = demo_phys\<rparr>"

theorem keIrqlRaise_lower_witness:
  "\<exists>st st'. keIrqlRaise HIGH_LEVEL demo_cpu = Done (PASSIVE_LEVEL, st) \<and> keIrqlLower PASSIVE_LEVEL st = Done (HIGH_LEVEL, st')"
proof -
  have i: "halGetIrql demo_cpu = 1" by (simp add: halGetIrql_def readCr8_def demo_cpu_def)
  then have "isIrqlValid (ucast (halGetIrql demo_cpu))" by (simp add: isIrqlValid_def PASSIVE_LEVEL_def)
  from keIrqlRaise_lower [OF this, of HIGH_LEVEL] i show ?thesis
    by (auto simp: keIrqlRaise_def keGetIrql_def isIrqlValid_def HIGH_LEVEL_def PASSIVE_LEVEL_def)
qed


section \<open>The task state segment\<close>

lemma cpuInitGdt_run:
  "kpcrs st a = Some k \<Longrightarrow> cpuInitGdt (Some a) st =
    Done (st\<lparr>kpcrs := (kpcrs st)(a \<mapsto> k\<lparr>core := (core k)\<lparr>gdt := g_gdtData, gdtr := \<lparr>gr_limit = 55, gr_offset = a + gdt_offset\<rparr>\<rparr>\<rparr>),
      gdtr_reg := Some \<lparr>gr_limit = 55, gr_offset = a + gdt_offset\<rparr>\<rparr>)"
  by (simp add: cpuInitGdt_def modMcb_def modKpcr_def kiGdtLoad_def Let_def GDT_ENTRY_COUNT_def)

text \<open>
  The descriptor in entries 5 and 6 of a core's table is a present, available 64-bit task segment
  whose base is the core's \<^verbatim>\<open>tss\<close> and whose limit is its last byte; the kernel stack in it ends at \<open>sp\<close>.
\<close>

definition segments_set :: "ulong_ptr \<Rightarrow> uquad \<Rightarrow> MCB \<Rightarrow> bool" where
  "segments_set a sp m \<longleftrightarrow> length (gdt m) = 7 \<and> take 5 (gdt m) = take 5 g_gdtData \<and>
    (let d = descOf (gdt m ! 5) (gdt m ! 6)
     in seg_base d = a + tss_offset \<and> seg_limit d = TSS_SIZE - 1 \<and> td_type d = 9 \<and> td_p d = 1) \<and>
    push_bit 32 (ucast (rsp0Hi (tss m))) OR ucast (rsp0Lo (tss m)) = sp"

lemma cpuInitTss_run:
  assumes "kpcrs st a = Some k" "gdt (core k) = g_gdtData" "mmAllocFrame STACK_SIZE_PAGES (pmem st) = Done (f, pm)" "f \<noteq> 0"
  shows "\<exists>g t. cpuInitTss (Some a) st = Done (st\<lparr>pmem := pm, kpcrs := (kpcrs st)(a \<mapsto> k\<lparr>core := (core k)\<lparr>gdt := g, tss := t\<rparr>\<rparr>),
      task_reg := Some (of_nat (8 * GDT_TSS_INDEX) OR 3)\<rparr>) \<and> ists t = ists (tss (core k)) \<and>
    segments_set a (f + PAGESIZE + kernelBase pm) ((core k)\<lparr>gdt := g, tss := t\<rparr>)"
proof -
  let ?m = "core k"
  let ?s = "f + PAGESIZE + kernelBase pm"
  let ?t = "(tss ?m)\<lparr>rsp0Lo := ucast (?s AND 0xFFFFFFFF), rsp0Hi := ucast (drop_bit 32 ?s AND 0xFFFFFFFF)\<rparr>"
  have al: "allocKernelStack (tss ?m) st = Done (?t, st\<lparr>pmem := pm\<rparr>)"
    using assms(3,4) by (simp add: allocKernelStack_def Let_def STACK_SIZE_PAGES_def)
  let ?d = "tssDesc (a + tss_offset) (descOf (segment 0) (segment 0))"
  obtain e g where eg: "entriesOf ?d = (e, g)" by fastforce
  then have d: "descOf e g = ?d" by (rule desc_roundtrip')
  let ?m2 = "?m\<lparr>gdt := g_gdtData[5 := e, 6 := g], tss := ?t\<lparr>iomap := replicate 8192 0xFF, iobase := iomap_offset\<rparr>\<rparr>"
  have len: "length g_gdtData = 7" "g_gdtData ! 5 = segment 0" "g_gdtData ! 6 = segment 0"
    by (simp_all add: g_gdtData_def)
  have run: "cpuInitTss (Some a) st = Done (tssLoad (st\<lparr>pmem := pm, kpcrs := (kpcrs st)(a \<mapsto> k\<lparr>core := ?m2\<rparr>)\<rparr>))"
    using al eg len assms(1,2) by (simp add: cpuInitTss_def tssWrite_def getMcb_def GDT_TSS_INDEX_def modMcb_def modKpcr_def)
  have s: "push_bit 32 (ucast (ucast (drop_bit 32 x AND 0xFFFFFFFF) :: ulong)) OR ucast (ucast (x AND 0xFFFFFFFF) :: ulong) = x"
    for x :: uquad
    using bits_join [of 32 x 32]
    by (simp add: word_masks ucast_down_up take_bit_and_mask take_bit_all or.commute del: take_bit_and)
  have lim: "seg_limit ?d = TSS_SIZE - 1"
    by (simp add: seg_limit_def tssDesc_def TSS_SIZE_def descOf_def segment_def)
  have ty: "td_type ?d = 9" "td_p ?d = 1" by (simp_all add: tssDesc_def)
  have "segments_set a ?s ?m2"
    using len d lim ty seg_base_tssDesc [of "a + tss_offset"] s [of ?s] by (simp add: segments_set_def)
  then show ?thesis
    unfolding run tssLoad_def GDT_TSS_INDEX_def
    by (intro exI [of _ "gdt ?m2"] exI [of _ "tss ?m2"]) (simp add: )
qed

text \<open>
  Segment table and task segment. After \<^verbatim>\<open>cpuInitGdt\<close> and \<^verbatim>\<open>cpuInitTss\<close> of a core whose
  structure is at \<open>a\<close>, the processor's table register covers the core's own table of seven
  entries, the first five are those of \<^verbatim>\<open>g_gdtData\<close>, and the descriptor that the task register
  selects is a present, available 64-bit task segment whose base is the core's \<^verbatim>\<open>tss\<close> and whose
  limit is its last byte; the kernel stack in it is the end of the frame just allocated.
\<close>

theorem cpuInitTss_descriptor:
  assumes "kpcrs st a = Some k" "mmAllocFrame STACK_SIZE_PAGES (pmem st) = Done (f, pm)" "f \<noteq> 0"
  shows "\<exists>st1 st2 k2. cpuInitGdt (Some a) st = Done st1 \<and> cpuInitTss (Some a) st1 = Done st2 \<and> kpcrs st2 a = Some k2 \<and>
    gdtr_reg st2 = Some \<lparr>gr_limit = 55, gr_offset = a + gdt_offset\<rparr> \<and>
    task_reg st2 = Some (of_nat (8 * GDT_TSS_INDEX) OR 3) \<and>
    length (gdt (core k2)) = 7 \<and> take 5 (gdt (core k2)) = take 5 g_gdtData \<and>
    (let d = descOf (gdt (core k2) ! 5) (gdt (core k2) ! 6)
     in seg_base d = a + tss_offset \<and> seg_limit d = TSS_SIZE - 1 \<and> td_type d = 9 \<and> td_p d = 1) \<and>
    push_bit 32 (ucast (rsp0Hi (tss (core k2)))) OR ucast (rsp0Lo (tss (core k2))) = f + PAGESIZE + kernelBase pm"
proof -
  obtain st1 where 1: "cpuInitGdt (Some a) st = Done st1"
    "st1 = st\<lparr>kpcrs := (kpcrs st)(a \<mapsto> k\<lparr>core := (core k)\<lparr>gdt := g_gdtData, gdtr := \<lparr>gr_limit = 55, gr_offset = a + gdt_offset\<rparr>\<rparr>\<rparr>),
      gdtr_reg := Some \<lparr>gr_limit = 55, gr_offset = a + gdt_offset\<rparr>\<rparr>"
    using cpuInitGdt_run [OF assms(1)] by blast
  have "kpcrs st1 a = Some (k\<lparr>core := (core k)\<lparr>gdt := g_gdtData, gdtr := \<lparr>gr_limit = 55, gr_offset = a + gdt_offset\<rparr>\<rparr>\<rparr>)"
    "pmem st1 = pmem st" "gdtr_reg st1 = Some \<lparr>gr_limit = 55, gr_offset = a + gdt_offset\<rparr>" by (simp_all add: 1(2))
  with 1(1) cpuInitTss_run [of st1 a _ f pm] assms(2,3) show ?thesis
    by (fastforce simp: segments_set_def)
qed

lemma demo_frame: "\<exists>pm. mmAllocFrame 1 demo_phys = Done (12288, pm) \<and> pool_ready pm"
proof -
  have f: "firstRun demo_phys 1 = Some 3" by simp code_simp
  obtain a pm where al: "mmAllocFrame 1 demo_phys = Done (a, pm)" using mmAllocFrame_returns [OF demo_phys_ready] by blast
  from demo_phys_ready al f have "a = 12288" by (cases rule: mmAllocFrame_cases) (simp_all add: PAGESIZE_def)
  with al frames.al_inv [OF demo_phys_ready al] show ?thesis by blast
qed

theorem cpuInitTss_descriptor_witness:
  "\<exists>st1 st2 k2. cpuInitGdt (Some 0x5000) demo_cpu = Done st1 \<and> cpuInitTss (Some 0x5000) st1 = Done st2 \<and>
    kpcrs st2 0x5000 = Some k2 \<and> seg_base (descOf (gdt (core k2) ! 5) (gdt (core k2) ! 6)) = 0x5000 + tss_offset"
proof -
  obtain k where k: "kpcrs demo_cpu 0x5000 = Some k" by (simp add: demo_cpu_def)
  from demo_frame obtain pm where "mmAllocFrame STACK_SIZE_PAGES (pmem demo_cpu) = Done (12288, pm)"
    by (auto simp: demo_cpu_def STACK_SIZE_PAGES_def)
  moreover have "(12288 :: ulong_ptr) \<noteq> 0" by simp
  ultimately show ?thesis using cpuInitTss_descriptor [OF k, of 12288] unfolding Let_def by blast
qed


definition ist_pointer :: "TSS_ENTRY \<Rightarrow> nat \<Rightarrow> uquad" where
  "ist_pointer t n = push_bit 32 (ucast (snd (ists t ! n))) OR ucast (fst (ists t ! n))"

text \<open>
  The timer stack is entered at its wrong end. The stack that \<^verbatim>\<open>tssAllocateStack\<close> and
  \<^verbatim>\<open>tssSetIntrStack\<close> give the timer interrupt starts at the lowest address of the frame just
  allocated. The processor pushes downwards, so none of the first 512 words it pushes lies in
  that frame.
\<close>

theorem timer_stack_outside:
  assumes "kpcrs st a = Some k" "length (ists (tss (core k))) = 7"
    and "mmAllocFrame STACK_SIZE_PAGES (pmem st) = Done (f, pm)" "f \<noteq> 0"
  shows "\<exists>st1 st2 s k2. tssAllocateStack False st = Done (STATUS_SUCCESS, Some s, st1) \<and>
    tssSetIntrStack (Some a) IST_SCHED (Some s) st1 = Done (STATUS_SUCCESS, st2) \<and> kpcrs st2 a = Some k2 \<and>
    ist_pointer (tss (core k2)) 0 = PHYS_TO_VIRT pm f \<and>
    (\<forall>n. 1 \<le> n \<longrightarrow> n \<le> 512 \<longrightarrow>
      \<not> (ist_pointer (tss (core k2)) 0 - of_nat (8 * n)) - PHYS_TO_VIRT pm f < PAGESIZE)"
proof -
  let ?s = "PHYS_TO_VIRT pm f"
  let ?k2 = "k\<lparr>core := (core k)\<lparr>tss := (tss (core k))\<lparr>ists := (ists (tss (core k)))[0 := (ucast ?s, ucast (drop_bit 32 ?s))]\<rparr>\<rparr>\<rparr>"
  have al: "tssAllocateStack False st = Done (STATUS_SUCCESS, Some ?s, st\<lparr>pmem := pm\<rparr>)"
    using assms(3,4) by (simp add: tssAllocateStack_def)
  have set: "tssSetIntrStack (Some a) IST_SCHED (Some ?s) (st\<lparr>pmem := pm\<rparr>) =
      Done (STATUS_SUCCESS, st\<lparr>pmem := pm, kpcrs := (kpcrs st)(a \<mapsto> ?k2)\<rparr>)"
    using assms(1) by (simp add: tssSetIntrStack_def IST_SCHED_def modMcb_def modKpcr_def)
  have "push_bit 32 (ucast (ucast (drop_bit 32 x) :: ulong)) OR ucast (ucast x :: ulong) = x" for x :: uquad
    using bits_join [of 32 x 32] by (simp add: ucast_down_up take_bit_all or.commute)
  from this [of ?s] have p: "ist_pointer (tss (core ?k2)) 0 = ?s"
    using assms(2) by (simp add: ist_pointer_def)
  have out: "\<not> (?s - of_nat (8 * n)) - ?s < PAGESIZE" if "1 \<le> n" "n \<le> 512" for n
  proof -
    have "(of_nat (2 ^ 64 - 8 * n) :: uquad) = of_nat (2 ^ 64) - of_nat (8 * n)" using that by (intro of_nat_diff) simp
    moreover have "(of_nat (2 ^ 64) :: uquad) = 0" by (simp add: word_eq_iff_unsigned [where 'a = nat])
    ultimately have "- of_nat (8 * n) = (of_nat (2 ^ 64 - 8 * n) :: uquad)" by (simp del: of_nat_mult)
    moreover have "unat (of_nat (2 ^ 64 - 8 * n) :: uquad) = 2 ^ 64 - 8 * n" using that by (intro unat_of_nat_quad) simp
    ultimately have "unat (- of_nat (8 * n) :: uquad) = 2 ^ 64 - 8 * n" by simp
    then show ?thesis using that by (simp add: word_less_nat_alt PAGESIZE_def del: of_nat_mult)
  qed
  have "kpcrs (st\<lparr>pmem := pm, kpcrs := (kpcrs st)(a \<mapsto> ?k2)\<rparr>) a = Some ?k2" by simp
  with al set p out show ?thesis by metis
qed

theorem timer_stack_outside_witness:
  "\<exists>st1 st2 s k2. tssAllocateStack False demo_cpu = Done (STATUS_SUCCESS, Some s, st1) \<and>
    tssSetIntrStack (Some 0x5000) IST_SCHED (Some s) st1 = Done (STATUS_SUCCESS, st2) \<and> kpcrs st2 0x5000 = Some k2"
proof -
  obtain k where k: "kpcrs demo_cpu 0x5000 = Some k" "length (ists (tss (core k))) = 7" by (simp add: demo_cpu_def)
  from demo_frame obtain pm where "mmAllocFrame STACK_SIZE_PAGES (pmem demo_cpu) = Done (12288, pm)"
    by (auto simp: demo_cpu_def STACK_SIZE_PAGES_def)
  moreover have "(12288 :: ulong_ptr) \<noteq> 0" by simp
  ultimately show ?thesis using timer_stack_outside [OF k, of 12288] by blast
qed

end
