(* ===== verification/Process.thy ===== *)
theory Process
  imports PageKeep Sched RtlString Cpu
begin

text \<open>
  Processes: their creation in \<^verbatim>\<open>ex/process.c\<close> and \<^verbatim>\<open>ke/process.c\<close>, and the platform's part of
  it in \<^verbatim>\<open>platform/amd64/ke/process.c\<close> (register frame, address space and user stack), together
  with the jump to user mode. A process is named by the address of its structure, and what the
  pool answers, with the bytes found there, is an argument.
\<close>

section \<open>State\<close>

record PROCESS =
  proc_pid :: ulong
  proc_name :: "uchar list"
  proc_pcb :: PCB

record procs =
  nextPid :: usize
  procTab :: "elem \<Rightarrow> PROCESS option"
  pphys :: phys

definition PROCESS_NAMELEN :: usize where "PROCESS_NAMELEN = 32"
definition PROCESS_KERNEL :: ushort where "PROCESS_KERNEL = push_bit 0 1"
definition STACK_TOP :: ulong_ptr where "STACK_TOP = 0xBFFFFFFF"

section \<open>The control block\<close>

text \<open>
  The status of \<^verbatim>\<open>mmuCreateVas\<close> is ignored: when it fails, the mapping goes to whatever root
  the block held before.
\<close>

definition halInitPcb :: "PCB option \<Rightarrow> ushort \<Rightarrow> phys \<Rightarrow> (ntstatus \<times> PCB option \<times> phys) outcome" where
  "halInitPcb pcb flags st =
     (case pcb of None \<Rightarrow> Done (STATUS_INVALID_HANDLE, None, st)
      | Some p \<Rightarrow>
          let ds = (if flags AND PROCESS_KERNEL \<noteq> 0 then ucast KERNEL_DS else ucast USER_DS OR 3 :: uchar);
              cs = (if flags AND PROCESS_KERNEL \<noteq> 0 then ucast KERNEL_CS else ucast USER_CS OR 3 :: uchar)
          in andthen (mmAllocFrame 1 st) (\<lambda>(a, st1).
            let p1 = p\<lparr>stackPhysBase := a\<rparr> in
            if a = 0 then Done (STATUS_NO_MEMORY, Some p1, st1)
            else
              let p2 = p1\<lparr>pcb_tf := zero_frame\<lparr>tf_cs := ucast cs, tf_ss := ucast ds, tf_rflags := 0x202, tf_rsp := STACK_TOP\<rparr>\<rparr>
              in andthen (mmuCreateVas (mmAllocFrame 1) st1) (\<lambda>(_, vas, st2).
                let p3 = (case vas of None \<Rightarrow> p2 | Some r \<Rightarrow> p2\<lparr>vas_cr3 := r\<rparr>) in
                andthen (mmMapPages (mmAllocFrame 1) (Some (vas_cr3 p3))
                    (Some \<lparr>rgPBase = a, rgVBase = STACK_TOP, rgByteCount = PAGESIZE\<rparr>) PAGE_USER_READWRITE st2)
                  (\<lambda>(stackBase, _, st3).
                    if stackBase = 0 then andthen (mmFreeFrame a 1 st3) (\<lambda>st4. Done (STATUS_NO_MEMORY, Some p3, st4))
                    else Done (STATUS_SUCCESS, Some p3, st3)))))"

definition halProcSetIp :: "PCB option \<Rightarrow> ulong_ptr \<Rightarrow> PCB option" where
  "halProcSetIp pcb ip =
     (case pcb of None \<Rightarrow> None | Some p \<Rightarrow> Some (p\<lparr>pcb_tf := (pcb_tf p)\<lparr>tf_rip := ip\<rparr>\<rparr>))"

text \<open>
  What \<^verbatim>\<open>iretq\<close> finds on the stack, and the frame pointer. The operands of the assembly text are taken as the C expressions
  they name; the exchange of the segment bases by \<^verbatim>\<open>swapgs\<close> before \<^verbatim>\<open>iretq\<close> is not part of this state (\<open>Trap\<close> follows it for interrupts).
\<close>

record iret_frame =
  ir_rip :: uquad
  ir_cs :: uquad
  ir_rflags :: uquad
  ir_rsp :: uquad
  ir_ss :: uquad
  ir_rbp :: uquad

definition halProcKick :: "PCB \<Rightarrow> phys \<Rightarrow> iret_frame \<times> phys" where
  "halProcKick pcb st =
     (let tf = pcb_tf pcb in
      (\<lparr>ir_rip = tf_rip tf, ir_cs = tf_cs tf, ir_rflags = tf_rflags tf, ir_rsp = tf_rsp tf,
        ir_ss = ucast (USER_DS OR 3), ir_rbp = tf_rbp tf\<rparr>, snd (mmuWriteVas (vas_cr3 pcb) st)))"

section \<open>Creation\<close>

definition keInitProcess :: "PROCESS option \<Rightarrow> ushort \<Rightarrow> phys \<Rightarrow> (ntstatus \<times> PROCESS option \<times> phys) outcome" where
  "keInitProcess process flags st =
     (case process of None \<Rightarrow> Done (STATUS_INVALID_HANDLE, None, st)
      | Some p \<Rightarrow> andthen (halInitPcb (Some (proc_pcb p)) flags st) (\<lambda>(status, pcb, st1).
          Done (status, map_option (\<lambda>b. p\<lparr>proc_pcb := b\<rparr>) pcb, st1)))"

text \<open>
  \<open>pool\<close> is the structure's address with its former content. The second component of the result
  is what is stored through \<^verbatim>\<open>*result\<close>, \<open>None\<close> when nothing is.
\<close>

definition exCreateProcess :: "uchar list option \<Rightarrow> (elem \<times> PROCESS) option \<Rightarrow> ushort \<Rightarrow> procs \<Rightarrow>
    (ntstatus \<times> elem option \<times> procs) outcome" where
  "exCreateProcess name pool flags st =
     (case name of None \<Rightarrow> Done (STATUS_INVALID_HANDLE, None, st)
      | Some nm \<Rightarrow>
          andthen (rtlStrlen (Some nm)) (\<lambda>nameLen.
            case pool of None \<Rightarrow> Done (STATUS_NO_MEMORY, None, st)
            | Some (a, old) \<Rightarrow>
                andthen (rtlMemcpy (proc_name old) nm (min PROCESS_NAMELEN nameLen)) (\<lambda>buf.
                let p = old\<lparr>proc_name := buf, proc_pid := ucast (nextPid st)\<rparr> in
                andthen (keInitProcess (Some p) flags (pphys st)) (\<lambda>(status, p1, pm).
                  let st1 = st\<lparr>nextPid := nextPid st + 1, pphys := pm\<rparr> in
                  if status \<noteq> STATUS_SUCCESS then Done (status, None, st1\<lparr>procTab := (procTab st)(a := None)\<rparr>)
                  else Done (status, Some a, st1\<lparr>procTab := (procTab st)(a := p1)\<rparr>)))))"

section \<open>The user stack\<close>

text \<open>The allocator keeps the size of its bitmap: its contract again, with the size in the invariant.\<close>

lemma mmAllocFrame_length:
  "pool_ready st \<Longrightarrow> mmAllocFrame c st = Done (a, st') \<Longrightarrow> length (bitmap st') = length (bitmap st)"
  by (cases rule: mmAllocFrame_cases, assumption+) auto

lemma mmAllocFrame_tlb:
  "pool_ready st \<Longrightarrow> mmAllocFrame c st = Done (a, st') \<Longrightarrow> tlb st' = tlb st"
  by (cases rule: mmAllocFrame_cases, assumption+) auto

interpretation sized: frame_allocator "mmAllocFrame 1" "\<lambda>s. pool_ready s \<and> length (bitmap s) = n" frame_taken spare_frames for n
proof unfold_locales
  fix st a st' b x m t
  show "(pool_ready (st\<lparr>memory := m\<rparr>) \<and> length (bitmap (st\<lparr>memory := m\<rparr>)) = n) = (pool_ready st \<and> length (bitmap st) = n)"
    "(pool_ready (st\<lparr>tlb := t\<rparr>) \<and> length (bitmap (st\<lparr>tlb := t\<rparr>)) = n) = (pool_ready st \<and> length (bitmap st) = n)"
    by (simp_all add: frames.inv_memory frames.inv_tlb)
  show "frame_taken (st\<lparr>memory := m\<rparr>) = frame_taken st" by (rule frames.taken_memory)
  show "frame_taken (st\<lparr>tlb := t\<rparr>) = frame_taken st" by (rule frames.taken_tlb)
  fix k
  show "spare_frames (Suc k) st \<Longrightarrow> spare_frames k st" by (rule frames.spare_less)
  show "spare_frames k (st\<lparr>memory := m\<rparr>) = spare_frames k st" by (rule frames.spare_memory)
  show "spare_frames k (st\<lparr>tlb := t\<rparr>) = spare_frames k st" by (rule frames.spare_tlb)
  assume "pool_ready st \<and> length (bitmap st) = n"
  then have inv: "pool_ready st" "length (bitmap st) = n" by auto
  show "\<exists>a st'. mmAllocFrame 1 st = Done (a, st')" by (rule frames.al_returns [OF inv(1)])
  assume al: "mmAllocFrame 1 st = Done (a, st')"
  show "pool_ready st' \<and> length (bitmap st') = n"
    using frames.al_inv [OF inv(1) al] mmAllocFrame_length [OF inv(1) al] inv(2) by simp
  show "spare_frames (Suc k) st \<Longrightarrow> a \<noteq> 0 \<and> spare_frames k st'" by (rule frames.al_spare [OF inv(1) al])
  show "frame_taken st b \<Longrightarrow> frame_taken st' b" by (rule frames.al_grows [OF inv(1) al])
  show "a \<noteq> 0 \<Longrightarrow> \<not> frame_taken st a \<and> frame_taken st' a \<and> page_aligned a \<and> unat a < 2 ^ 52"
    by (rule frames.al_fresh [OF inv(1) al])
  show "a \<noteq> 0 \<Longrightarrow> x - PHYS_TO_VIRT st a < 4096 \<Longrightarrow> memory st' x = 0" by (rule frames.al_zeroed [OF inv(1) al])
  show "a = 0 \<or> \<not> x - PHYS_TO_VIRT st a < 4096 \<Longrightarrow> memory st' x = memory st x" by (rule frames.al_memory [OF inv(1) al])
  show "kernelBase st' = kernelBase st \<and> cr3 st' = cr3 st \<and> tlb st' = tlb st" by (rule frames.al_machine [OF inv(1) al])
qed

lemma stack_page: "ALIGN_DOWN STACK_TOP PAGESIZE = 0xBFFFF000" "ALIGN_UP PAGESIZE PAGESIZE = (4096 :: usize)"
  unfolding STACK_TOP_def by code_simp+

lemma stack_pfx: "pfx 4 (0xBFFFF000 + of_nat (4096 * 0)) = pfx 4 STACK_TOP"
  by (simp add: pfx_def STACK_TOP_def)

lemma free_stack:
  assumes "pool_ready st" "length (bitmap st) < 2 ^ 49" "page_aligned f" "f \<noteq> 0" "unat f div 4096 < 8 * length (bitmap st)"
  shows "\<exists>st'. mmFreeFrame f 1 st = Done st' \<and> pool_ready st' \<and> \<not> bitAt (bitmap st') (unat f div 4096)"
proof -
  have "8 * length (bitmap st) < 2 ^ 52" using assms(2) by simp
  moreover have "unat f div 4096 + unat (1 :: usize) \<le> 8 * length (bitmap st)" using assms(5) by simp
  ultimately obtain bm where bm: "mmFreeFrame f 1 st = Done (st\<lparr>bitmap := bm\<rparr>)" "length bm = length (bitmap st)"
    "\<forall>k. bitAt bm k \<longleftrightarrow> \<not> (unat f div 4096 \<le> k \<and> k < unat f div 4096 + 1) \<and> bitAt (bitmap st) k"
    using mmFreeFrame_spec [OF assms(3), of 1 st] by auto
  have "unat f div 4096 \<noteq> 0"
    using assms(3,4) by (auto simp: page_aligned_dvd word_unat_eq_iff)
  with bm assms(1) show ?thesis
    by (auto simp: pool_ready_def wf_phys_def frame0_reserved_def)
qed

lemma al_range:
  assumes "pool_ready st" "mmAllocFrame 1 st = Done (f, st')" "f \<noteq> 0"
  shows "unat f div 4096 < 8 * length (bitmap st)"
  using assms(1,2)
proof (cases rule: mmAllocFrame_cases)
  case (some s bm)
  with assms(1) show ?thesis by (simp add: pool_ready_def wf_phys_def)
qed (use assms(3) in simp)

text \<open>Mapping the one page of the stack into a new tree.\<close>

lemma map_stack:
  assumes "pool_ready st" "length (bitmap st) = n" "pt_inv frame_taken st root" "page_aligned f"
  shows "\<exists>ok r st'. mmMapPages (mmAllocFrame 1) (Some root) (Some \<lparr>rgPBase = f, rgVBase = STACK_TOP, rgByteCount = PAGESIZE\<rparr>)
      PAGE_USER_READWRITE st = Done (if ok then 0xBFFFF000 else 0, r, st') \<and>
    pool_ready st' \<and> length (bitmap st') = n \<and> pt_inv frame_taken st' root \<and> kernelBase st' = kernelBase st \<and>
    (\<forall>k. spare_frames (k + 3) st \<longrightarrow> ok \<and> spare_frames k st') \<and> access_kept st root st' \<and>
    (ok \<longrightarrow> (\<forall>va. translate st' root va =
      (if pfx 4 va = pfx 4 STACK_TOP then Some (f OR mmuGetTableFlags PAGE_USER_READWRITE) else translate st root va)))"
proof -
  have f: "ALIGN_DOWN f PAGESIZE = f" using assms(4) by (rule ALIGN_DOWN_page_id)
  have one: "(1 :: nat) \<le> 2 ^ 36" by simp
  from sized.mapPages_spec [OF conjI [OF assms(1,2)] assms(3,4) one, of "0xBFFFF000" PAGE_USER_READWRITE 0]
  obtain ok st' where m: "mapPages (mmAllocFrame 1) (Some root) 0xBFFFF000 f PAGE_USER_READWRITE 0 4096 st = Done (ok, st')"
    "pool_ready st'" "length (bitmap st') = n" "pt_inv frame_taken st' root" "\<forall>k. spare_frames (k + 3) st \<longrightarrow> ok \<and> spare_frames k st'"
    "ok \<Longrightarrow> \<forall>j va. 0 \<le> j \<and> j < 1 \<and> pfx 4 va = pfx 4 (0xBFFFF000 + of_nat (4096 * j)) \<longrightarrow>
       translate st' root va = Some ((f + of_nat (4096 * j)) OR mmuGetTableFlags PAGE_USER_READWRITE)"
    "ok \<Longrightarrow> \<forall>va. (\<forall>j. 0 \<le> j \<and> j < 1 \<longrightarrow> pfx 4 va \<noteq> pfx 4 (0xBFFFF000 + of_nat (4096 * j))) \<longrightarrow>
       translate st' root va = translate st root va"
    "access_kept st root st'"
    unfolding mult_0_right by auto
  have run: "mmMapPages (mmAllocFrame 1) (Some root) (Some \<lparr>rgPBase = f, rgVBase = STACK_TOP, rgByteCount = PAGESIZE\<rparr>)
      PAGE_USER_READWRITE st =
      Done (if ok then 0xBFFFF000 else 0, Some \<lparr>rgPBase = f, rgVBase = 0xBFFFF000, rgByteCount = 4096\<rparr>, st')"
    using m(1) by (simp add: mmMapPages_def Let_def stack_page f)
  moreover have "kernelBase st' = kernelBase st"
    using mmMapPages_keeps [OF assms(1,3) _ run, of 1] by (simp add: keeps_def stack_page)
  moreover have "translate st' root va =
      (if pfx 4 va = pfx 4 STACK_TOP then Some (f OR mmuGetTableFlags PAGE_USER_READWRITE) else translate st root va)"
    if ok for va
    using m(6) [OF that, rule_format, of 0 va] m(7) [OF that, rule_format, of va] stack_pfx by auto
  ultimately show ?thesis using m(2-5,8) by blast
qed

lemma stack_low:
  assumes "pfx 4 va = pfx 4 STACK_TOP"
  shows "hwIdx 0 va < 256"
proof -
  have "pfx 3 va = pfx 3 STACK_TOP" using assms pfx_Suc_eq_iff [of 3 va STACK_TOP] by simp
  then have "pfx 2 va = pfx 2 STACK_TOP" using pfx_Suc_eq_iff [of 2 va STACK_TOP] by simp
  then have "pfx (Suc 0) va = pfx (Suc 0) STACK_TOP"
    using pfx_Suc_eq_iff [of "Suc 0" va STACK_TOP] by (simp add: numeral_2_eq_2)
  then have "hwIdx 0 va = hwIdx 0 STACK_TOP" using pfx_Suc_eq_iff [of 0 va STACK_TOP] by simp
  then show ?thesis by (simp add: hwIdx_def STACK_TOP_def)
qed

lemma stack_flags: "f OR mmuGetTableFlags PAGE_USER_READWRITE = f OR PTE_P OR PTE_RW OR PTE_US OR PTE_NX"
proof -
  have "mmuGetTableFlags PAGE_USER_READWRITE = PTE_P OR PTE_RW OR PTE_US OR PTE_NX" by code_simp
  then show ?thesis by (simp add: ac_simps)
qed

definition user_cs :: uquad where "user_cs = 0x1B"
definition user_ss :: uquad where "user_ss = 0x23"

definition user_frame :: trapFrame where
  "user_frame = zero_frame\<lparr>tf_cs := user_cs, tf_ss := user_ss, tf_rflags := 0x202, tf_rsp := STACK_TOP\<rparr>"

text \<open>
  What \<^verbatim>\<open>halInitPcb\<close> does once a stack frame and a root table have been found: the new space
  maps the stack, or the stack's frame is given back.
\<close>

lemma halInitPcb_run:
  assumes "pool_ready st" "pt_inv frame_taken st (cr3 st AND PTE_ADDR_MASK)" "length (bitmap st) < 2 ^ 49"
    and "mmAllocFrame 1 st = Done (f, st1)" "f \<noteq> 0" "mmAllocFrame 1 st1 = Done (r, st2)" "r \<noteq> 0"
    and "flags AND PROCESS_KERNEL = 0"
  shows "\<exists>ok st'. halInitPcb (Some p) flags st = Done (if ok then STATUS_SUCCESS else STATUS_NO_MEMORY,
      Some (p\<lparr>stackPhysBase := f, pcb_tf := user_frame, vas_cr3 := r\<rparr>), st') \<and> pool_ready st' \<and>
    (\<forall>k. spare_frames (k + 5) st \<longrightarrow> ok \<and> spare_frames k st') \<and>
    (ok \<longrightarrow> kernelBase st' = kernelBase st \<and> pt_inv frame_taken st' r \<and> length (bitmap st') = length (bitmap st) \<and> (\<forall>va. hwIdx 0 va < 256 \<longrightarrow> open_path st' r va) \<and>
      (\<forall>va. translate st' r va =
      (if pfx 4 va = pfx 4 STACK_TOP then Some (f OR PTE_P OR PTE_RW OR PTE_US OR PTE_NX)
       else if hwIdx 0 va < 256 then None else translate st (cr3 st AND PTE_ADDR_MASK) va))) \<and>
    (\<not> ok \<longrightarrow> \<not> bitAt (bitmap st') (unat f div 4096))"
proof -
  let ?src = "cr3 st AND PTE_ADDR_MASK"
  have inv1: "pool_ready st1" "length (bitmap st1) = length (bitmap st)"
    using frames.al_inv [OF assms(1,4)] mmAllocFrame_length [OF assms(1,4)] by auto
  have cr3: "cr3 st1 = cr3 st" using frames.al_machine [OF assms(1,4)] by simp
  note tree = frames.al_tree [OF assms(1,4,2)]
  have f: "page_aligned f" using frames.al_fresh [OF assms(1,4,5)] by simp
  from sized.mmuCreateVas_spec [OF conjI [OF inv1], unfolded cr3, OF tree(3)] assms(6,7)
  obtain st3 where vas: "mmuCreateVas (mmAllocFrame 1) st1 = Done (STATUS_SUCCESS, Some r, st3)"
    "pool_ready st3" "length (bitmap st3) = length (bitmap st)" "pt_inv frame_taken st3 r"
    "\<And>va. translate st3 r va = (if hwIdx 0 va < 256 then None else translate st1 ?src va)"
    "\<And>k. spare_frames (Suc k) st1 \<Longrightarrow> spare_frames k st3" "\<And>va. hwIdx 0 va < 256 \<Longrightarrow> open_path st3 r va" by auto
  from map_stack [OF vas(2-4) f] obtain ok rg st4 where m:
    "mmMapPages (mmAllocFrame 1) (Some r) (Some \<lparr>rgPBase = f, rgVBase = STACK_TOP, rgByteCount = PAGESIZE\<rparr>)
      PAGE_USER_READWRITE st3 = Done (if ok then 0xBFFFF000 else 0, rg, st4)"
    "pool_ready st4" "length (bitmap st4) = length (bitmap st)" "pt_inv frame_taken st4 r"
    "kernelBase st4 = kernelBase st3" "\<forall>k. spare_frames (k + 3) st3 \<longrightarrow> ok \<and> spare_frames k st4"
    "ok \<longrightarrow> (\<forall>va. translate st4 r va = (if pfx 4 va = pfx 4 STACK_TOP then Some (f OR mmuGetTableFlags PAGE_USER_READWRITE)
       else translate st3 r va))" "access_kept st3 r st4" by blast
  have open_low: "\<forall>va. hwIdx 0 va < 256 \<longrightarrow> open_path st4 r va" using vas(7) m(8) by (simp add: access_kept_def)
  have enough: "ok \<and> spare_frames k st4" if "spare_frames (k + 5) st" for k
    using frames.al_spare [OF assms(1,4), of "k + 4"] vas(6) [of "k + 3"] m(6) that by (simp add: numeral_eq_Suc)
  have kb: "kernelBase st4 = kernelBase st"
    using m(5) mmuCreateVas_base [OF inv1(1) vas(1)] frames.al_machine [OF assms(1,4)] by simp
  have sel: "ucast (ucast USER_CS OR 3 :: uchar) = user_cs" "ucast (ucast USER_DS OR 3 :: uchar) = user_ss"
    by (simp_all add: USER_CS_def USER_DS_def user_cs_def user_ss_def)
  show ?thesis
  proof (cases ok)
    case True
    with m vas assms(4,5,8) tree(2) enough kb open_low show ?thesis
      by (intro exI [of _ True] exI [of _ st4]) (simp add: halInitPcb_def Let_def sel user_frame_def stack_flags)
  next
    case False
    obtain st5 where "mmFreeFrame f 1 st4 = Done st5" "pool_ready st5" "\<not> bitAt (bitmap st5) (unat f div 4096)"
      using free_stack [OF m(2) _ f assms(5)] al_range [OF assms(1,4,5)] m(3) assms(3) by auto
    with False m vas assms(4,5,8) enough show ?thesis
      by (intro exI [of _ False] exI [of _ st5]) (auto simp: halInitPcb_def Let_def sel user_frame_def)
  qed
qed

text \<open>
  With five frames to spare the block of a user process is complete: in a new address space its
  stack is the one user page.
\<close>

lemma halInitPcb_user_stack:
  assumes "pool_ready st" "pt_inv frame_taken st (cr3 st AND PTE_ADDR_MASK)" "length (bitmap st) < 2 ^ 49"
    and "spare_frames (k + 5) st" "flags AND PROCESS_KERNEL = 0"
  shows "\<exists>p' st'. halInitPcb (Some p) flags st = Done (STATUS_SUCCESS, Some p', st') \<and> pool_ready st' \<and>
    spare_frames k st' \<and> kernelBase st' = kernelBase st \<and>
    pt_inv frame_taken st' (vas_cr3 p') \<and> \<not> frame_taken st (vas_cr3 p') \<and> \<not> frame_taken st (stackPhysBase p') \<and>
    pcb_tf p' = zero_frame\<lparr>tf_cs := user_cs, tf_ss := user_ss, tf_rflags := 0x202, tf_rsp := STACK_TOP\<rparr> \<and>
    (\<forall>va. hwIdx 0 va < 256 \<longrightarrow> open_path st' (vas_cr3 p') va) \<and>
    (\<forall>va. translate st' (vas_cr3 p') va =
      (if pfx 4 va = pfx 4 STACK_TOP then Some (stackPhysBase p' OR PTE_P OR PTE_RW OR PTE_US OR PTE_NX)
       else if hwIdx 0 va < 256 then None else translate st (cr3 st AND PTE_ADDR_MASK) va))"
proof -
  obtain f st1 where f: "mmAllocFrame 1 st = Done (f, st1)" using frames.al_returns [OF assms(1)] by blast
  have inv1: "pool_ready st1" by (rule frames.al_inv [OF assms(1) f])
  obtain r st2 where r: "mmAllocFrame 1 st1 = Done (r, st2)" using frames.al_returns [OF inv1] by blast
  have f0: "f \<noteq> 0" "spare_frames (k + 4) st1" using frames.al_spare [OF assms(1) f, of "k + 4"] assms(4) by (simp_all add: add.commute)
  then have r0: "r \<noteq> 0" using frames.al_spare [OF inv1 r, of "k + 3"] by (simp add: numeral_eq_Suc)
  have "\<not> frame_taken st f" using frames.al_fresh [OF assms(1) f f0(1)] by simp
  moreover have "\<not> frame_taken st r"
    using frames.al_fresh [OF inv1 r r0] frames.al_grows [OF assms(1) f] by blast
  ultimately show ?thesis
    using halInitPcb_run [OF assms(1-3) f f0(1) r r0 assms(5), of p] assms(4) by (auto simp: user_frame_def)
qed

section \<open>The name\<close>

lemma copy_name:
  assumes "0 \<notin> set nm" "length nm < 2 ^ 64" "length old = 32"
  shows "rtlStrlen (Some (nm @ 0 # rest)) = Done (of_nat (length nm))"
    "rtlMemcpy old (nm @ 0 # rest) (min PROCESS_NAMELEN (of_nat (length nm))) =
       Done (take 32 nm @ drop (length nm) old)"
proof -
  show "rtlStrlen (Some (nm @ 0 # rest)) = Done (of_nat (length nm))"
    using strlenFrom_text [OF assms(1), of rest 0] by (simp add: rtlStrlen_def)
  have "unat (min PROCESS_NAMELEN (of_nat (length nm) :: usize)) = min 32 (length nm)"
    using assms(2) by (auto simp: min_def PROCESS_NAMELEN_def word_le_nat_alt unat_of_nat_quad)
  then show "rtlMemcpy old (nm @ 0 # rest) (min PROCESS_NAMELEN (of_nat (length nm))) =
      Done (take 32 nm @ drop (length nm) old)"
    using assms(3) by (cases "length nm \<le> 32") (simp_all add: rtlMemcpy_def memcpyFrom_spec min_def)
qed

lemma exCreateProcess_run:
  assumes "pool_ready (pphys st)" "pt_inv frame_taken (pphys st) (cr3 (pphys st) AND PTE_ADDR_MASK)"
    and "length (bitmap (pphys st)) < 2 ^ 49" "spare_frames (k + 5) (pphys st)" "flags AND PROCESS_KERNEL = 0"
    and "0 \<notin> set nm" "length nm < 2 ^ 64" "length (proc_name old) = 32"
  shows "\<exists>p pm. exCreateProcess (Some (nm @ 0 # rest)) (Some (a, old)) flags st =
      Done (STATUS_SUCCESS, Some a, st\<lparr>nextPid := nextPid st + 1, pphys := pm, procTab := (procTab st)(a \<mapsto> p)\<rparr>) \<and>
    proc_pid p = ucast (nextPid st) \<and> proc_name p = take 32 nm @ drop (length nm) (proc_name old) \<and>
    pool_ready pm \<and> spare_frames k pm \<and> kernelBase pm = kernelBase (pphys st) \<and> pt_inv frame_taken pm (vas_cr3 (proc_pcb p)) \<and>
    \<not> frame_taken (pphys st) (vas_cr3 (proc_pcb p)) \<and> \<not> frame_taken (pphys st) (stackPhysBase (proc_pcb p)) \<and>
    pcb_tf (proc_pcb p) = zero_frame\<lparr>tf_cs := user_cs, tf_ss := user_ss, tf_rflags := 0x202, tf_rsp := STACK_TOP\<rparr> \<and>
    (\<forall>va. hwIdx 0 va < 256 \<longrightarrow> open_path pm (vas_cr3 (proc_pcb p)) va) \<and>
    (\<forall>va. translate pm (vas_cr3 (proc_pcb p)) va =
      (if pfx 4 va = pfx 4 STACK_TOP then Some (stackPhysBase (proc_pcb p) OR PTE_P OR PTE_RW OR PTE_US OR PTE_NX)
       else if hwIdx 0 va < 256 then None else translate (pphys st) (cr3 (pphys st) AND PTE_ADDR_MASK) va))"
proof -
  obtain b pm where "halInitPcb (Some (proc_pcb old)) flags (pphys st) = Done (STATUS_SUCCESS, Some b, pm)"
    and "pool_ready pm" "spare_frames k pm" "kernelBase pm = kernelBase (pphys st)" "pt_inv frame_taken pm (vas_cr3 b)" "\<not> frame_taken (pphys st) (vas_cr3 b)"
      "\<not> frame_taken (pphys st) (stackPhysBase b)"
      "pcb_tf b = zero_frame\<lparr>tf_cs := user_cs, tf_ss := user_ss, tf_rflags := 0x202, tf_rsp := STACK_TOP\<rparr>"
      "\<forall>va. translate pm (vas_cr3 b) va =
        (if pfx 4 va = pfx 4 STACK_TOP then Some (stackPhysBase b OR PTE_P OR PTE_RW OR PTE_US OR PTE_NX)
         else if hwIdx 0 va < 256 then None else translate (pphys st) (cr3 (pphys st) AND PTE_ADDR_MASK) va)"
      "\<forall>va. hwIdx 0 va < 256 \<longrightarrow> open_path pm (vas_cr3 b) va"
    using halInitPcb_user_stack [OF assms(1-5), of "proc_pcb old"] by blast
  then show ?thesis
    by (intro exI [of _ "old\<lparr>proc_name := take 32 nm @ drop (length nm) (proc_name old),
          proc_pid := ucast (nextPid st), proc_pcb := b\<rparr>"] exI [of _ pm])
      (simp add: exCreateProcess_def keInitProcess_def copy_name [OF assms(6-8)] Let_def)
qed

text \<open>
  C25 (a new process). In a ready pool of less than 2 ^ 52 frames, with a proper current address
  space, five frames to spare in a row, and the pool's block at \<open>a\<close>, for a user process and a terminated name,
  \<^verbatim>\<open>exCreateProcess\<close> succeeds and returns that block. Its number is the counter's
  low half, and the counter has moved on. Its name is the first 32 characters of the caller's,
  with what the block held before them behind: no terminator is stored. Its new address space,
  whose root no one held, has exactly one page in the lower half, the one the stack pointer is in. With
  the rights of all four levels taken together, that page is the user's, writable, not executable, and backed by the frame
  recorded in the block. The rest of the lower half is empty and the upper half is the kernel's. The
  registers are those of user mode with interrupts enabled, all others zero.
\<close>

theorem exCreateProcess_user:
  assumes "pool_ready (pphys st)" "pt_inv frame_taken (pphys st) (cr3 (pphys st) AND PTE_ADDR_MASK)"
    and "length (bitmap (pphys st)) < 2 ^ 49" "spare_frames 5 (pphys st)" "flags AND PROCESS_KERNEL = 0"
    and "0 \<notin> set nm" "length nm < 2 ^ 64" "length (proc_name old) = 32"
  shows "\<exists>p pm. exCreateProcess (Some (nm @ 0 # rest)) (Some (a, old)) flags st =
      Done (STATUS_SUCCESS, Some a, st\<lparr>nextPid := nextPid st + 1, pphys := pm, procTab := (procTab st)(a \<mapsto> p)\<rparr>) \<and>
    proc_pid p = ucast (nextPid st) \<and> proc_name p = take 32 nm @ drop (length nm) (proc_name old) \<and>
    pool_ready pm \<and> pt_inv frame_taken pm (vas_cr3 (proc_pcb p)) \<and>
    \<not> frame_taken (pphys st) (vas_cr3 (proc_pcb p)) \<and> \<not> frame_taken (pphys st) (stackPhysBase (proc_pcb p)) \<and>
    pcb_tf (proc_pcb p) = zero_frame\<lparr>tf_cs := user_cs, tf_ss := user_ss, tf_rflags := 0x202, tf_rsp := STACK_TOP\<rparr> \<and>
    (\<forall>va. translate pm (vas_cr3 (proc_pcb p)) va =
      (if pfx 4 va = pfx 4 STACK_TOP then Some (stackPhysBase (proc_pcb p) OR PTE_P OR PTE_RW OR PTE_US OR PTE_NX)
       else if hwIdx 0 va < 256 then None else translate (pphys st) (cr3 (pphys st) AND PTE_ADDR_MASK) va)) \<and>
    (\<forall>va. pfx 4 va = pfx 4 STACK_TOP \<longrightarrow> effective pm (vas_cr3 (proc_pcb p)) va =
      Some (stackPhysBase (proc_pcb p) OR PTE_P OR PTE_RW OR PTE_US OR PTE_NX))"
proof -
  have "spare_frames (0 + 5) (pphys st)" using assms(4) by simp
  from exCreateProcess_run [OF assms(1-3) this assms(5-8), of rest a] show ?thesis
    using stack_low open_effective by metis
qed

text \<open>The machine of the page-table examples with 24 frames, the first three in use.\<close>

definition demo_proc :: phys where
  "demo_proc = demo_mmu\<lparr>bitmap := [0x07, 0, 0], highestFrameIdx := 24\<rparr>"

definition blank_pcb :: PCB where
  "blank_pcb = \<lparr>vas_cr3 = 0, stackPhysBase = 0, pcb_tf = zero_frame\<rparr>"

lemma demo_proc_ready: "pool_ready demo_proc" "length (bitmap demo_proc) < 2 ^ 49" "spare_frames 5 demo_proc"
proof -
  show "pool_ready demo_proc"
    by (simp add: demo_proc_def demo_mmu_def demo_phys_def pool_ready_def wf_phys_def frame0_reserved_def bitAt_def)
  show "length (bitmap demo_proc) < 2 ^ 49" by (simp add: demo_proc_def)
  have "is_run [0x07, 0, 0] 24 5 3" by code_simp
  then show "spare_frames 5 demo_proc"
    by (auto simp: demo_proc_def spare_frames_def intro!: exI [of _ 3])
qed

lemma demo_proc_tree: "pt_inv frame_taken demo_proc (cr3 demo_proc AND PTE_ADDR_MASK)"
proof -
  have root: "cr3 demo_proc AND PTE_ADDR_MASK = 0x2000" by (simp add: demo_proc_def demo_mmu_def PTE_ADDR_MASK_def)
  have taken: "frame_taken demo_proc 0x2000"
    by (simp add: frame_taken_def bitAt_def demo_proc_def)
  have zero: "entryAt demo_proc t i = 0" for t i by (simp add: entryAt_def demo_proc_def demo_mmu_def)
  have "tableAt demo_proc t va (Suc d) = None" for t va d
    by (induction d) (simp_all add: zero split: option.split)
  then have walk: "tableAt demo_proc 0x2000 va d = Some t \<longleftrightarrow> d = 0 \<and> t = 0x2000" for va d t
    by (cases d) (auto simp del: tableAt.simps(2))
  show ?thesis
    unfolding pt_inv_def walk root by (auto simp: taken zero page_aligned_def pfx_def)
qed

definition demo_procs :: procs where
  "demo_procs = \<lparr>nextPid = 2 ^ 32 + 1, procTab = Map.empty, pphys = demo_proc\<rparr>"

definition pool_block :: PROCESS where
  "pool_block = \<lparr>proc_pid = 0, proc_name = replicate 32 0xAA, proc_pcb = blank_pcb\<rparr>"

theorem exCreateProcess_user_witness:
  "\<exists>p pm. exCreateProcess (Some (replicate 40 0x41 @ [0])) (Some (0x1000, pool_block)) 0 demo_procs =
      Done (STATUS_SUCCESS, Some 0x1000, \<lparr>nextPid = 2 ^ 32 + 2, procTab = [0x1000 \<mapsto> p], pphys = pm\<rparr>) \<and>
    proc_pid p = 1 \<and> proc_name p = replicate 32 0x41 \<and>
    effective pm (vas_cr3 (proc_pcb p)) 0xBFFFFFF7 = Some (stackPhysBase (proc_pcb p) OR PTE_P OR PTE_RW OR PTE_US OR PTE_NX) \<and>
    translate pm (vas_cr3 (proc_pcb p)) 0x1000 = None"
proof -
  let ?nm = "replicate 40 (0x41 :: uchar)"
  have va: "pfx 4 0xBFFFFFF7 = pfx 4 STACK_TOP" "pfx 4 0x1000 \<noteq> pfx 4 STACK_TOP" "hwIdx 0 0x1000 < 256"
    by (simp_all add: pfx_def hwIdx_def STACK_TOP_def)
  have "(0 :: ushort) AND PROCESS_KERNEL = 0" "0 \<notin> set ?nm" "length ?nm < 2 ^ 64" "length (proc_name pool_block) = 32"
    by (simp_all add: pool_block_def)
  moreover have "pphys demo_procs = demo_proc" by (simp add: demo_procs_def)
  ultimately obtain p pm where "exCreateProcess (Some (?nm @ [0])) (Some (0x1000, pool_block)) 0 demo_procs =
      Done (STATUS_SUCCESS, Some 0x1000,
        demo_procs\<lparr>nextPid := nextPid demo_procs + 1, pphys := pm, procTab := (procTab demo_procs)(0x1000 \<mapsto> p)\<rparr>)"
    "proc_pid p = ucast (nextPid demo_procs)" "proc_name p = take 32 ?nm @ drop (length ?nm) (proc_name pool_block)"
    "\<forall>va. translate pm (vas_cr3 (proc_pcb p)) va =
      (if pfx 4 va = pfx 4 STACK_TOP then Some (stackPhysBase (proc_pcb p) OR PTE_P OR PTE_RW OR PTE_US OR PTE_NX)
       else if hwIdx 0 va < 256 then None else translate demo_proc (cr3 demo_proc AND PTE_ADDR_MASK) va)"
    "\<forall>va. pfx 4 va = pfx 4 STACK_TOP \<longrightarrow> effective pm (vas_cr3 (proc_pcb p)) va =
      Some (stackPhysBase (proc_pcb p) OR PTE_P OR PTE_RW OR PTE_US OR PTE_NX)"
    using exCreateProcess_user [of demo_procs 0 ?nm pool_block "[]" "0x1000"] demo_proc_ready demo_proc_tree by auto
  moreover have "ucast (0x100000001 :: uquad) = (1 :: ulong)" by code_simp
  ultimately show ?thesis
    using va by (intro exI [of _ p] exI [of _ pm]) (simp add: pool_block_def demo_procs_def)
qed

end
