(* ===== verification/BootPack.thy ===== *)
theory BootPack
  imports RtlString
begin

text \<open>
  What the boot loader hands to the kernel (\<^verbatim>\<open>ntos/ke/bootParam.c\<close>), the lookup of files in
  the boot pack (\<^verbatim>\<open>ntos/ke/bootPack.c\<close>) and the tool that writes and extracts such packs
  (\<^verbatim>\<open>tools/omar/omar.c\<close>). The boot loader's responses are an argument. The kernel reads the
  pack in memory: a pointer into it is the list of the bytes from there on, reading past its
  end is a fault. The tool's file system maps path names to files; its strings are texts
  without their terminating zero.
\<close>

section \<open>Boot parameters\<close>

record limine_file =
  lf_path :: "uchar list"
  lf_address :: "uchar list"

record limine_framebuffer =
  lfb_address :: ulong_ptr
  lfb_width :: usize
  lfb_height :: usize
  lfb_pitch :: usize
  lfb_bpp :: ushort

record boot_responses =
  frameBufResp :: "limine_framebuffer list option"
  hhdmResponse :: "ulong_ptr option"
  rsdpResp :: "ulong_ptr option"
  modResp :: "limine_file list option"

record fbParams =
  fb_io :: ulong_ptr
  fb_width :: ulong
  fb_height :: ulong
  fb_pitch :: ulong
  fb_bpp :: uchar

record bootParams =
  bp_fbParams :: fbParams
  acpiRsdp :: ulong_ptr

text \<open>The static variables of the two files.\<close>

record boot_vars =
  hhdmResp :: "ulong_ptr option"
  hhmOffset :: ulong_ptr
  bootPackBase :: "uchar list option"

definition getFbParams :: "boot_responses \<Rightarrow> fbParams outcome" where
  "getFbParams br =
     (case frameBufResp br of
        Some (fb # _) \<Rightarrow> Done \<lparr>fb_io = lfb_address fb, fb_width = ucast (lfb_width fb), fb_height = ucast (lfb_height fb),
           fb_pitch = ucast (lfb_pitch fb), fb_bpp = ucast (lfb_bpp fb)\<rparr>
      | _ \<Rightarrow> Fault)"

fun findModule :: "limine_file list \<Rightarrow> uchar list \<Rightarrow> uchar list option outcome" where
  "findModule [] path = Done None"
| "findModule (f # fs) path =
     andthen (rtlStrcmp (lf_path f) path) (\<lambda>r. if r = 0 then Done (Some (lf_address f)) else findModule fs path)"

definition keGetBootModule :: "boot_responses \<Rightarrow> uchar list \<Rightarrow> uchar list option outcome" where
  "keGetBootModule br path =
     (case modResp br of None \<Rightarrow> Panic ''unable to get the boot module'' | Some fs \<Rightarrow> findModule fs path)"

definition keGetKernelBase :: "boot_responses \<Rightarrow> boot_vars \<Rightarrow> (ulong_ptr \<times> boot_vars) outcome" where
  "keGetKernelBase br v =
     andthen (case hhdmResp v of Some x \<Rightarrow> Done v
        | None \<Rightarrow> (case hhdmResponse br of None \<Rightarrow> Panic ''bootvars: could not get HHDM''
           | Some r \<Rightarrow> Done (v\<lparr>hhdmResp := Some r\<rparr>))) (\<lambda>v1.
       let v2 = (if hhmOffset v1 = 0 then v1\<lparr>hhmOffset := the (hhdmResp v1)\<rparr> else v1)
       in Done (hhmOffset v2, v2))"

text \<open>\<open>None\<close> for the result is a NULL result pointer, answered with \<^verbatim>\<open>-1\<close>.\<close>

definition keGetBootParams :: "boot_responses \<Rightarrow> bootParams option \<Rightarrow> (ntstatus \<times> bootParams option) outcome" where
  "keGetBootParams br res =
     (case res of None \<Rightarrow> Done (- 1, None)
      | Some _ \<Rightarrow>
          andthen (getFbParams br) (\<lambda>fb.
            case rsdpResp br of None \<Rightarrow> Panic ''bootvars: could not get ACPI RSDP''
            | Some r \<Rightarrow> Done (STATUS_SUCCESS, Some \<lparr>bp_fbParams = fb, acpiRsdp = r\<rparr>)))"

section \<open>Boot pack lookup\<close>

definition OMAR_EOF :: "uchar list" where "OMAR_EOF = bytes ''RAMO''"
definition OMAR_MAGIC :: "uchar list" where "OMAR_MAGIC = bytes ''OMAR''"
definition OMAR_REG :: uchar where "OMAR_REG = 0"
definition OMAR_DIR :: uchar where "OMAR_DIR = 1"
definition BLOCK_SIZE :: usize where "BLOCK_SIZE = 512"

text \<open>
  The packed header \<^verbatim>\<open>OMAR_HDR\<close> is 15 bytes: magic at 0, type at 4, name length at 5, file
  length at 6 (little endian), revision at 10, mode at 11.
\<close>

definition HDR_SIZE :: nat where "HDR_SIZE = 15"

definition ulongAt :: "uchar list \<Rightarrow> nat \<Rightarrow> ulong outcome" where
  "ulongAt m i =
     andthen (get m i) (\<lambda>a. andthen (get m (i + 1)) (\<lambda>b. andthen (get m (i + 2)) (\<lambda>c. andthen (get m (i + 3)) (\<lambda>d.
       Done (ucast a OR push_bit 8 (ucast b) OR push_bit 16 (ucast c) OR push_bit 24 (ucast d))))))"

text \<open>The distance from a header to the next one.\<close>

definition packOff :: "uchar \<Rightarrow> uchar \<Rightarrow> ulong \<Rightarrow> usize" where
  "packOff type nameLen len =
     (if type = OMAR_DIR then 512 else ALIGN_UP (of_nat HDR_SIZE + ucast nameLen + ucast len) BLOCK_SIZE)"

lemma unat_ALIGN_UP_block:
  assumes "unat x + 511 < 2 ^ 64"
  shows "unat (ALIGN_UP x BLOCK_SIZE) = (unat x + 511) div 512 * 512"
proof -
  have m: "(511 :: usize) = mask 9" by (simp add: mask_eq_exp_minus_1)
  have "unat (x + 511) = unat x + 511" using assms by (simp add: unat_word_ariths)
  moreover have "x + 512 - 1 = x + 511" by simp
  moreover have "ALIGN_UP x BLOCK_SIZE = (x + 512 - 1) AND NOT (mask 9)"
    by (simp add: ALIGN_UP_def BLOCK_SIZE_def flip: m)
  ultimately show ?thesis by (simp only: unat_and_not_mask) simp
qed

lemma unat_ucast_quad: "unat (ucast (x :: ulong) :: usize) = unat x" "unat (ucast (c :: uchar) :: usize) = unat c"
  by (simp_all add: unsigned_ucast_eq take_bit_nat_eq_self
        order.strict_trans [OF unsigned_less [where 'a = nat]])

lemma packOff_value:
  "unat (packOff type nameLen len) =
    (if type = OMAR_DIR then 512 else (15 + unat nameLen + unat len + 511) div 512 * 512)"
proof -
  have b: "unat nameLen < 256" "unat len < 4294967296"
    using unsigned_less [where 'a = nat, of nameLen] unsigned_less [where 'a = nat, of len] by simp_all
  have "unat (of_nat HDR_SIZE + ucast nameLen + ucast len :: usize) = 15 + unat nameLen + unat len"
  proof -
    have "unat (of_nat HDR_SIZE :: usize) = 15" by (simp add: HDR_SIZE_def)
    moreover from this have "unat (of_nat HDR_SIZE + ucast nameLen :: usize) = 15 + unat nameLen"
      using b by (subst unat_plus_small) (simp_all add: unat_ucast_quad)
    ultimately show ?thesis using b by (subst unat_plus_small) (simp_all add: unat_ucast_quad)
  qed
  with b show ?thesis by (simp add: packOff_def unat_ALIGN_UP_block)
qed

lemma packOff_pos: "512 \<le> unat (packOff type nameLen len)"
  using div_le_mono [of 512 "526 + (unat nameLen + unat len)" 512] by (simp add: packOff_value)

lemma get_Done: "get m i = Done c \<longleftrightarrow> i < length m \<and> c = m ! i"
  by (auto simp: get_def)

lemma packOff_shrinks: "get m i = Done c \<Longrightarrow> length (drop (unat (packOff type nameLen len)) m) < length m"
  using packOff_pos [of type nameLen len] by (auto simp: get_Done)

text \<open>
  The loop of \<^verbatim>\<open>bootPackGetFile\<close>. \<open>m\<close> is the memory from the current header on and \<open>pos\<close> its
  distance from the base; the result is the entry's length and the offset of its data.
\<close>

function packLoop :: "uchar list \<Rightarrow> uchar list \<Rightarrow> uchar list \<Rightarrow> nat \<Rightarrow> (ntstatus \<times> (ulong \<times> nat) option) outcome" where
  "packLoop path nameBuf m pos =
     andthen (rtlMemcmp m (OMAR_EOF @ [0]) 5) (\<lambda>eof.
       if eof = 0 then Done (STATUS_FILE_UNAVL, None)
       else andthen (rtlMemcmp m OMAR_MAGIC 4) (\<lambda>bad.
         if bad \<noteq> 0 then Done (STATUS_INVALID_PARAM, None)
         else andthen (get m 5) (\<lambda>nameLen.
           if 256 - 1 < unat nameLen then Done (STATUS_INVALID_PARAM, None)
           else andthen (rtlMemcpy nameBuf (drop HDR_SIZE m) (ucast nameLen)) (\<lambda>nb1.
                andthen (put nb1 (unat nameLen) 0) (\<lambda>nb2.
                andthen (get m 4) (\<lambda>type. andthen (ulongAt m 6) (\<lambda>len.
                andthen (rtlStrcmp nb2 path) (\<lambda>r.
                  if r = 0 then Done (STATUS_SUCCESS, Some (len, pos + HDR_SIZE + unat nameLen))
                  else andthen (rtlMemset nb2 0 256) (\<lambda>nb3.
                         packLoop path nb3 (drop (unat (packOff type nameLen len)) m)
                           (pos + unat (packOff type nameLen len)))))))))))"
  by pat_completeness auto

termination
  by (relation "measure (\<lambda>(path, nameBuf, m, pos). length m)")
     (auto simp del: length_drop intro: packOff_shrinks)

declare packLoop.simps [simp del]

definition bootPackGetFile :: "boot_vars \<Rightarrow> uchar list \<Rightarrow> uchar list option \<Rightarrow> (ntstatus \<times> (ulong \<times> nat) option) outcome" where
  "bootPackGetFile v nameBuf path =
     (case path of None \<Rightarrow> Done (STATUS_INVALID_HANDLE, None)
      | Some p \<Rightarrow> (case bootPackBase v of None \<Rightarrow> Fault | Some m \<Rightarrow> packLoop p nameBuf m 0))"

definition keBootPackGet :: "boot_vars \<Rightarrow> uchar list \<Rightarrow> uchar list option \<Rightarrow> nat option outcome" where
  "keBootPackGet v nameBuf path =
     (case path of None \<Rightarrow> Done None
      | Some p \<Rightarrow>
          andthen (get p 0) (\<lambda>c.
            if c \<noteq> 47 then Done None
            else andthen (bootPackGetFile v nameBuf (Some (tl p))) (\<lambda>(status, node).
                   if status \<noteq> STATUS_SUCCESS then Done None else Done (map_option snd node))))"

definition kiBootPackInit :: "boot_responses \<Rightarrow> boot_vars \<Rightarrow> boot_vars outcome" where
  "kiBootPackInit br v =
     (if bootPackBase v \<noteq> None then Done v
      else andthen (keGetBootModule br (bytes ''/boot/bootpack.omar'' @ [0])) (\<lambda>m.
             case m of None \<Rightarrow> Panic ''failed to get bootpack base'' | Some b \<Rightarrow> Done (v\<lparr>bootPackBase := Some b\<rparr>)))"

section \<open>The archiver\<close>

text \<open>
  The files of the host, by path name. A directory lists its entries in the order
  \<^verbatim>\<open>readdir\<close> gives them, with their \<^verbatim>\<open>d_type\<close>. Regular files are read whole; the archiver's writes to its
  output are complete; \<open>os_malloc\<close> says which allocations succeed. Standard output is not modelled.
  The extractor's effects are listed in \<open>extracted\<close>: the calls of \<^verbatim>\<open>mkdir\<close>, whose results the tool ignores,
  and the data written at the start of a file. \<open>os_open\<close> and \<open>os_write\<close> are the results of \<^verbatim>\<open>open\<close> for writing and of
  \<^verbatim>\<open>write\<close> on that file, which may depend on what was extracted before.
\<close>

datatype extracted = Made_dir "uchar list" ulong | Wrote_file "uchar list" ulong "uchar list"

datatype d_type = DT_DIR | DT_REG | DT_OTHER

datatype fsnode = Reg_file ulong "uchar list" | Dir_file ulong uquad "(uchar list \<times> d_type) list"

record os =
  os_files :: "uchar list \<Rightarrow> fsnode option"
  os_malloc :: "nat \<Rightarrow> bool"
  os_open :: "extracted list \<Rightarrow> uchar list \<Rightarrow> ulong \<Rightarrow> int"
  os_write :: "extracted list \<Rightarrow> uchar list \<Rightarrow> uchar list \<Rightarrow> int"

definition OMAR_REV :: uchar where "OMAR_REV = 2"

definition bytesOf :: "ulong \<Rightarrow> uchar list" where
  "bytesOf w = [ucast w, ucast (drop_bit 8 w), ucast (drop_bit 16 w), ucast (drop_bit 24 w)]"

text \<open>The packed \<^verbatim>\<open>struct omar_hdr\<close> as it is written.\<close>

definition hdrBytes :: "uchar list \<Rightarrow> uchar \<Rightarrow> uchar \<Rightarrow> ulong \<Rightarrow> uchar \<Rightarrow> ulong \<Rightarrow> uchar list" where
  "hdrBytes magic type namelen len revision mode = magic @ [type, namelen] @ bytesOf len @ [revision] @ bytesOf mode"

text \<open>What follows the first slash, or NULL.\<close>

fun strip_root :: "uchar list \<Rightarrow> uchar list option" where
  "strip_root [] = None"
| "strip_root (c # p) = (if c = 47 then Some p else strip_root p)"

text \<open>The padding of a record that is \<open>len\<close> bytes long up to a multiple of the block size.\<close>

definition padTo :: "nat \<Rightarrow> uchar list" where
  "padTo len = replicate (512 - len mod 512) 0"

text \<open>
  \<^verbatim>\<open>file_push\<close>: the result and what was written to the output so far. The mode field of the
  end marker is uninitialised, the argument \<open>junk\<close>; \<^verbatim>\<open>ENOMEM\<close> is 12, \<^verbatim>\<open>EIO\<close> 5, \<^verbatim>\<open>ENOENT\<close> 2.
\<close>

definition file_push :: "os \<Rightarrow> ulong \<Rightarrow> uchar list option \<Rightarrow> uchar list \<Rightarrow> uchar list \<Rightarrow> (int \<times> uchar list) outcome" where
  "file_push s junk pathname name out =
     (let nl = of_nat (length name) :: uchar; nm = take (unat nl) name in
      case pathname of
        None \<Rightarrow> Done (0, out @ hdrBytes OMAR_EOF OMAR_REG nl 0 OMAR_REV junk @ nm)
      | Some path \<Rightarrow>
         (case os_files s path of
            None \<Rightarrow> Done (- 1, out)
          | Some (Dir_file mode sz ents) \<Rightarrow>
              let out1 = out @ hdrBytes OMAR_MAGIC OMAR_DIR nl (ucast sz) OMAR_REV mode @ nm;
                  pad = padTo (15 + unat nl)
              in if os_malloc s (length pad) then Done (0, out1 @ pad) else Fault
          | Some (Reg_file mode contents) \<Rightarrow>
              let len = of_nat (length contents) :: ulong;
                  out1 = out @ hdrBytes OMAR_MAGIC OMAR_REG nl len OMAR_REV mode @ nm;
                  rec = 15 + unat (ucast nl + len)
              in if \<not> os_malloc s (unat len) then Done (- 12, out1)
                 else if len = 0 then Done (- 5, out1)
                 else let out2 = out1 @ take (unat len) contents in
                      if rec mod 512 = 0 then Done (0, out2)
                      else if os_malloc s (length (padTo rec)) then Done (0, out2 @ padTo rec) else Fault))"

text \<open>
  \<^verbatim>\<open>archive_create\<close>: the loop over the entries, with the recursive call as an argument, and
  the recursion itself, bounded by \<open>fuel\<close>. Path buffers hold 255 characters.
\<close>

fun createEntries :: "(uchar list \<Rightarrow> uchar list \<Rightarrow> uchar list \<Rightarrow> (int \<times> uchar list) outcome) \<Rightarrow>
    os \<Rightarrow> ulong \<Rightarrow> uchar list \<Rightarrow> uchar list \<Rightarrow> (uchar list \<times> d_type) list \<Rightarrow> uchar list \<Rightarrow> uchar list outcome" where
  "createEntries rec s junk base dirname [] out = Done out"
| "createEntries rec s junk base dirname ((nm, ty) # ents) out =
     (if nm \<noteq> [] \<and> hd nm = 46 then createEntries rec s junk base dirname ents out
      else let pathbuf = take 255 (base @ 47 # nm); namebuf = take 255 (dirname @ 47 # nm) in
        (case ty of
           DT_OTHER \<Rightarrow> createEntries rec s junk base dirname ents out
         | DT_REG \<Rightarrow>
             (case strip_root namebuf of None \<Rightarrow> Fault
              | Some p1 \<Rightarrow> andthen (file_push s junk (Some pathbuf) p1 out) (\<lambda>(_, out1).
                  createEntries rec s junk base dirname ents out1))
         | DT_DIR \<Rightarrow>
             (case strip_root namebuf of None \<Rightarrow> Fault
              | Some p1 \<Rightarrow> andthen (file_push s junk (Some pathbuf) p1 out) (\<lambda>(_, out1).
                  andthen (rec pathbuf namebuf out1) (\<lambda>(_, out2).
                    createEntries rec s junk base dirname ents out2)))))"

fun archive_create :: "nat \<Rightarrow> os \<Rightarrow> ulong \<Rightarrow> uchar list \<Rightarrow> uchar list \<Rightarrow> uchar list \<Rightarrow> (int \<times> uchar list) outcome" where
  "archive_create 0 s junk base dirname out = Fault"
| "archive_create (Suc fuel) s junk base dirname out =
     (case os_files s base of
        Some (Dir_file mode sz ents) \<Rightarrow>
          andthen (createEntries (archive_create fuel s junk) s junk base dirname ents out) (\<lambda>out1. Done (0, out1))
      | _ \<Rightarrow> Done (- 2, out))"

text \<open>POSIX \<^verbatim>\<open>basename\<close>: the last component without trailing slashes.\<close>

definition basename :: "uchar list \<Rightarrow> uchar list" where
  "basename path =
     (if path = [] then [46]
      else let p = rev (dropWhile (\<lambda>c. c = 47) (rev path))
           in if p = [] then [47] else rev (takeWhile (\<lambda>c. c \<noteq> 47) (rev p)))"

text \<open>The archiving mode of \<^verbatim>\<open>main\<close>: the result and the output file.\<close>

definition omarArchive :: "nat \<Rightarrow> os \<Rightarrow> ulong \<Rightarrow> uchar list \<Rightarrow> (int \<times> uchar list) outcome" where
  "omarArchive fuel s junk inpath =
     andthen (archive_create fuel s junk inpath (basename inpath) []) (\<lambda>(retval, out).
     andthen (file_push s junk None (bytes ''EOF'') out) (\<lambda>(_, out1). Done (retval, out1)))"

section \<open>The extractor\<close>

text \<open>\<^verbatim>\<open>mkpath\<close>: the directories it makes, one per prefix of the path that ends before a slash.\<close>

fun prefixDirs :: "uchar list \<Rightarrow> uchar list \<Rightarrow> uchar list list" where
  "prefixDirs pre [] = []"
| "prefixDirs pre (c # p) = (if c = 47 then pre # prefixDirs (pre @ [c]) p else prefixDirs (pre @ [c]) p)"

definition mkpath :: "ulong \<Rightarrow> uchar list \<Rightarrow> extracted list outcome" where
  "mkpath mode path =
     (if path = [] then Fault
      else let buf = (if List.last path = 47 then butlast path else path)
           in if buf = [] then Fault
              else Done (List.map (\<lambda>d. Made_dir d mode) (prefixDirs [hd buf] (tl buf) @ [buf])))"

text \<open>
  \<^verbatim>\<open>extract_single\<close>: its result, with what has been extracted. A file that was opened exists, with as
  much of the data as was written.
\<close>

definition extract_single :: "os \<Rightarrow> extracted list \<Rightarrow> ulong \<Rightarrow> uchar list \<Rightarrow> uchar list \<Rightarrow> int \<times> extracted list" where
  "extract_single s made mode data path =
     (let fd = os_open s made path mode in
      if fd < 0 then (fd, made)
      else let n = os_write s made path data in
        (if n > 0 then 0 else - 1, made @ [Wrote_file path mode (take (nat n) data)]))"

text \<open>
  \<^verbatim>\<open>archive_extract\<close> on the archive in memory. The result of \<^verbatim>\<open>extract_single\<close> is ignored and a wrong
  revision is only reported; after a bad magic number the function ends without a return value (\<open>None\<close>).
\<close>

function extractLoop :: "os \<Rightarrow> uchar list \<Rightarrow> uchar list \<Rightarrow> extracted list \<Rightarrow> (int option \<times> extracted list) outcome" where
  "extractLoop s outpath m made =
     andthen (rtlMemcmp m (OMAR_EOF @ [0]) 5) (\<lambda>eof.
       if eof = 0 then Done (Some 0, made)
       else andthen (rtlMemcmp m OMAR_MAGIC 4) (\<lambda>bad.
         if bad \<noteq> 0 then Done (None, made)
         else andthen (get m 5) (\<lambda>nameLen. andthen (get m 4) (\<lambda>type.
              andthen (ulongAt m 6) (\<lambda>len. andthen (ulongAt m 11) (\<lambda>mode.
              if length (drop HDR_SIZE m) < unat nameLen then Fault
              else let pathbuf = take 255 (outpath @ 47 # cstr (take (unat nameLen) (drop HDR_SIZE m)));
                       data = drop (HDR_SIZE + unat nameLen) m;
                       m1 = drop (unat (packOff type nameLen len)) m
                   in if type = OMAR_DIR
                      then andthen (mkpath mode pathbuf) (\<lambda>dirs. extractLoop s outpath m1 (made @ dirs))
                      else if length data < unat len then Fault
                      else let (_, made1) = extract_single s made mode (take (unat len) data) pathbuf
                           in extractLoop s outpath m1 made1))))))"
  by pat_completeness auto
termination
  by (relation "measure (\<lambda>(s, outpath, m, made). length m)")
     (auto simp del: length_drop intro: packOff_shrinks)

declare extractLoop.simps [simp del]

definition archive_extract :: "os \<Rightarrow> uchar list \<Rightarrow> uchar list \<Rightarrow> (int option \<times> extracted list) outcome" where
  "archive_extract s inpath outpath =
     (case os_files s inpath of
        None \<Rightarrow> Done (Some (- 1), [])
      | Some (Dir_file mode sz ents) \<Rightarrow> Done (Some (if os_malloc s (unat sz) then - 5 else - 12), [])
      | Some (Reg_file mode c) \<Rightarrow>
          if \<not> os_malloc s (length c) then Done (Some (- 12), [])
          else if c = [] then Done (Some (- 5), [])
          else extractLoop s outpath c [])"

text \<open>
  \<^verbatim>\<open>main\<close>, with the options as \<^verbatim>\<open>getopt\<close> returns them. \<open>canCreate\<close> says whether the output file
  can be opened or the output directory made. The result is the exit value, what was written to
  the archive and what was extracted. The output is not truncated when it exists: an older,
  longer file keeps its tail behind the new archive.
\<close>

datatype omar_opt = Opt_x | Opt_h | Opt_i "uchar list" | Opt_o "uchar list" | Opt_bad

fun parseOpts :: "omar_opt list \<Rightarrow> bool \<Rightarrow> uchar list option \<Rightarrow> uchar list option \<Rightarrow>
    int + bool \<times> uchar list option \<times> uchar list option" where
  "parseOpts [] x i out = Inr (x, i, out)"
| "parseOpts (Opt_x # os) x i out = parseOpts os True i out"
| "parseOpts (Opt_i p # os) x i out = parseOpts os x (Some p) out"
| "parseOpts (Opt_o p # os) x i out = parseOpts os x i (Some p)"
| "parseOpts (Opt_h # os) x i out = Inl 0"
| "parseOpts (Opt_bad # os) x i out = Inl (- 1)"

definition omarMain :: "nat \<Rightarrow> os \<Rightarrow> ulong \<Rightarrow> (uchar list \<Rightarrow> bool) \<Rightarrow> nat \<Rightarrow> omar_opt list \<Rightarrow>
    (int option \<times> uchar list \<times> extracted list) outcome" where
  "omarMain fuel s junk canCreate argc opts =
     (if argc < 2 then Done (Some (- 1), [], [])
      else case parseOpts opts False None None of
        Inl r \<Rightarrow> Done (Some r, [], [])
      | Inr (x, None, out) \<Rightarrow> Done (Some (- 1), [], [])
      | Inr (x, Some i, None) \<Rightarrow> Done (Some (- 1), [], [])
      | Inr (False, Some i, Some p) \<Rightarrow>
          if \<not> canCreate p then Done (Some (- 1), [], [])
          else andthen (omarArchive fuel s junk i) (\<lambda>(retval, out). Done (Some retval, out, []))
      | Inr (True, Some i, Some p) \<Rightarrow>
          if \<not> canCreate p then Done (Some 1, [], [])
          else andthen (archive_extract s i p) (\<lambda>(retval, made). Done (retval, [], made)))"

section \<open>What an archive holds\<close>

text \<open>
  The reference: an archive is the records of its entries, a name with a file or directory
  each, followed by the end marker. An entry is well formed when its name fits its length
  byte and has no zero, and when a file is neither empty nor longer than a \<^verbatim>\<open>uint32_t\<close> counts.
\<close>

fun entry_ok :: "uchar list \<times> fsnode \<Rightarrow> bool" where
  "entry_ok (nm, Reg_file mode c) \<longleftrightarrow> length nm \<le> 255 \<and> 0 \<notin> set nm \<and> c \<noteq> [] \<and> length nm + length c < 2 ^ 32"
| "entry_ok (nm, Dir_file mode sz ents) \<longleftrightarrow> length nm \<le> 255 \<and> 0 \<notin> set nm"

definition endPad :: "nat \<Rightarrow> uchar list" where
  "endPad n = (if n mod 512 = 0 then [] else padTo n)"

fun record_of :: "uchar list \<times> fsnode \<Rightarrow> uchar list" where
  "record_of (nm, Reg_file mode c) =
     hdrBytes OMAR_MAGIC OMAR_REG (of_nat (length nm)) (of_nat (length c)) OMAR_REV mode @ nm @ c @ endPad (15 + length nm + length c)"
| "record_of (nm, Dir_file mode sz ents) =
     hdrBytes OMAR_MAGIC OMAR_DIR (of_nat (length nm)) (ucast sz) OMAR_REV mode @ nm @ padTo (15 + length nm)"

definition end_mark :: "ulong \<Rightarrow> uchar list" where
  "end_mark junk = hdrBytes OMAR_EOF OMAR_REG 3 0 OMAR_REV junk @ bytes ''EOF''"

definition archive :: "ulong \<Rightarrow> (uchar list \<times> fsnode) list \<Rightarrow> uchar list" where
  "archive junk es = concat (List.map record_of es) @ end_mark junk"

lemma bytesOf_len [simp]: "length (bytesOf w) = 4"
  by (simp add: bytesOf_def)

lemma magic_len [simp]: "length OMAR_MAGIC = 4" "length OMAR_EOF = 4"
  by (simp_all add: OMAR_MAGIC_def OMAR_EOF_def bytes_def)

lemma hdrBytes_len [simp]: "length magic = 4 \<Longrightarrow> length (hdrBytes magic t nl len v mode) = 15"
  by (simp add: hdrBytes_def)

lemma join_bytes:
  "ucast (ucast w :: uchar) OR push_bit 8 (ucast (ucast (drop_bit 8 w) :: uchar)) OR
   push_bit 16 (ucast (ucast (drop_bit 16 w) :: uchar)) OR push_bit 24 (ucast (ucast (drop_bit 24 w) :: uchar)) = w"
  for w :: ulong
proof (rule bit_word_eqI)
  fix n assume "n < LENGTH(32)"
  then show "bit (ucast (ucast w :: uchar) OR push_bit 8 (ucast (ucast (drop_bit 8 w) :: uchar)) OR
    push_bit 16 (ucast (ucast (drop_bit 16 w) :: uchar)) OR push_bit 24 (ucast (ucast (drop_bit 24 w) :: uchar)) :: ulong) n = bit w n"
    by (cases "n < 8"; cases "n < 16"; cases "n < 24"; auto simp: bit_simps)
qed

lemma ulongAt_bytesOf: "length pre = i \<Longrightarrow> ulongAt (pre @ bytesOf w @ post) i = Done w"
  using join_bytes [of w] by (simp add: ulongAt_def get_def bytesOf_def nth_append)

lemma header_fields:
  assumes "length magic = 4"
  shows "get (hdrBytes magic t nl len v mode @ rest) 4 = Done t"
    "get (hdrBytes magic t nl len v mode @ rest) 5 = Done nl"
    "ulongAt (hdrBytes magic t nl len v mode @ rest) 6 = Done len"
    "ulongAt (hdrBytes magic t nl len v mode @ rest) 11 = Done mode"
    "drop HDR_SIZE (hdrBytes magic t nl len v mode @ rest) = rest"
proof -
  show "ulongAt (hdrBytes magic t nl len v mode @ rest) 6 = Done len"
    using ulongAt_bytesOf [of "magic @ [t, nl]" 6 len "[v] @ bytesOf mode @ rest"] assms
    by (simp add: hdrBytes_def)
  show "ulongAt (hdrBytes magic t nl len v mode @ rest) 11 = Done mode"
    using ulongAt_bytesOf [of "magic @ [t, nl] @ bytesOf len @ [v]" 11 mode rest] assms
    by (simp add: hdrBytes_def)
qed (use assms in \<open>simp_all add: get_def hdrBytes_def nth_append HDR_SIZE_def\<close>)

lemma magic_checks:
  "\<exists>x. x \<noteq> 0 \<and> rtlMemcmp (hdrBytes OMAR_MAGIC t nl len v mode @ rest) (OMAR_EOF @ [0]) 5 = Done x"
  "rtlMemcmp (hdrBytes OMAR_MAGIC t nl len v mode @ rest) OMAR_MAGIC 4 = Done 0"
  "rtlMemcmp (hdrBytes OMAR_EOF OMAR_REG nl len v mode @ rest) (OMAR_EOF @ [0]) 5 = Done 0"
proof -
  have n: "unat (5 :: usize) = Suc (Suc (Suc (Suc (Suc 0))))" "unat (4 :: usize) = Suc (Suc (Suc (Suc 0)))"
    by simp_all
  show "\<exists>x. x \<noteq> 0 \<and> rtlMemcmp (hdrBytes OMAR_MAGIC t nl len v mode @ rest) (OMAR_EOF @ [0]) 5 = Done x"
    "rtlMemcmp (hdrBytes OMAR_MAGIC t nl len v mode @ rest) OMAR_MAGIC 4 = Done 0"
    "rtlMemcmp (hdrBytes OMAR_EOF OMAR_REG nl len v mode @ rest) (OMAR_EOF @ [0]) 5 = Done 0"
    unfolding rtlMemcmp_def n by (simp_all add: hdrBytes_def OMAR_MAGIC_def OMAR_EOF_def OMAR_REG_def bytes_def byte_def)
qed

lemma padTo_len: "length (padTo n) = 512 - n mod 512"
  by (simp add: padTo_def)

lemma round_up_block: "n mod 512 \<noteq> 0 \<Longrightarrow> (n + 511) div 512 * 512 = n + (512 - n mod 512)" for n :: nat
proof -
  assume "n mod 512 \<noteq> 0"
  define q c where "q = n div 512" and "c = n mod 512"
  have n: "n = 512 * q + c" by (simp add: q_def c_def)
  moreover have "(n + 511) div 512 = q + 1"
  proof -
    have "c \<noteq> 0" using \<open>n mod 512 \<noteq> 0\<close> unfolding c_def .
    then obtain c1 where c1: "c = Suc c1" by (cases c) auto
    then have "n + 511 = (c - 1) + 512 * (q + 1)" unfolding n c1 by simp
    moreover have "(c - 1) div 512 = 0" by (simp add: c_def less_imp_diff_less)
    ultimately show ?thesis using div_mult_self2 [of 512 "c - 1" "q + 1"] by linarith
  qed
  moreover have "c < 512" by (simp add: c_def)
  ultimately show ?thesis unfolding c_def [symmetric] by linarith
qed

lemma endPad_len: "n + length (endPad n) = (n + 511) div 512 * 512"
proof (cases "n mod 512 = 0")
  case True
  then obtain k where "n = 512 * k" by auto
  then show ?thesis by (simp add: endPad_def)
next
  case False
  then show ?thesis by (simp add: endPad_def padTo_len round_up_block)
qed

lemma small_of_nat: "n \<le> 255 \<Longrightarrow> unat (of_nat n :: uchar) = n" "n < 2 ^ 32 \<Longrightarrow> unat (of_nat n :: ulong) = n"
  by (simp_all add: unat_of_nat take_bit_nat_eq_self)

lemma record_of_len:
  "entry_ok (nm, Reg_file mode c) \<Longrightarrow> length (record_of (nm, Reg_file mode c)) =
    unat (packOff OMAR_REG (of_nat (length nm)) (of_nat (length c)))"
  "entry_ok (nm, Dir_file mode sz ents) \<Longrightarrow> length (record_of (nm, Dir_file mode sz ents)) = 512"
proof -
  assume "entry_ok (nm, Reg_file mode c)"
  then show "length (record_of (nm, Reg_file mode c)) = unat (packOff OMAR_REG (of_nat (length nm)) (of_nat (length c)))"
    using endPad_len [of "15 + length nm + length c"]
    by (simp add: packOff_value small_of_nat OMAR_REG_def OMAR_DIR_def)
next
  assume "entry_ok (nm, Dir_file mode sz ents)"
  then show "length (record_of (nm, Dir_file mode sz ents)) = 512" by (simp add: padTo_len)
qed


section \<open>Lookup in an archive\<close>

definition entry_data :: "uchar list \<times> fsnode \<Rightarrow> ulong \<times> uchar list" where
  "entry_data e = (case snd e of Reg_file mode c \<Rightarrow> (of_nat (length c), c)
     | Dir_file mode sz ents \<Rightarrow> (ucast sz, padTo (15 + length (fst e))))"

definition entry_type :: "uchar list \<times> fsnode \<Rightarrow> uchar" where
  "entry_type e = (case snd e of Reg_file mode c \<Rightarrow> OMAR_REG | Dir_file mode sz ents \<Rightarrow> OMAR_DIR)"

definition entry_mode :: "uchar list \<times> fsnode \<Rightarrow> ulong" where
  "entry_mode e = (case snd e of Reg_file mode c \<Rightarrow> mode | Dir_file mode sz ents \<Rightarrow> mode)"

lemma record_shape:
  assumes "entry_ok e"
  shows "\<exists>tail. record_of e = hdrBytes OMAR_MAGIC (entry_type e) (of_nat (length (fst e))) (fst (entry_data e)) OMAR_REV
      (entry_mode e) @ fst e @ snd (entry_data e) @ tail"
    "length (record_of e) = unat (packOff (entry_type e) (of_nat (length (fst e))) (fst (entry_data e)))"
    "length (fst e) \<le> 255" "0 \<notin> set (fst e)"
proof -
  obtain nm nd where e: "e = (nm, nd)" by (cases e)
  show "\<exists>tail. record_of e = hdrBytes OMAR_MAGIC (entry_type e) (of_nat (length (fst e))) (fst (entry_data e)) OMAR_REV
      (entry_mode e) @ fst e @ snd (entry_data e) @ tail"
    by (cases nd) (simp_all add: e entry_type_def entry_data_def entry_mode_def)
  show "length (record_of e) = unat (packOff (entry_type e) (of_nat (length (fst e))) (fst (entry_data e)))"
    using record_of_len assms unfolding e
    by (cases nd) (simp_all del: record_of.simps add: entry_type_def entry_data_def packOff_def OMAR_DIR_def OMAR_REG_def)
  show "length (fst e) \<le> 255" "0 \<notin> set (fst e)"
    using assms by (cases nd; simp add: e)+
qed

lemma copied_name:
  assumes "length nb = 256" "length nm \<le> 255" "0 \<notin> set nm" "drop HDR_SIZE m = nm @ rest"
  shows "\<exists>nb1 nb2. rtlMemcpy nb (drop HDR_SIZE m) (ucast (of_nat (length nm) :: uchar)) = Done nb1 \<and>
    put nb1 (length nm) 0 = Done nb2 \<and> cstr nb2 = nm \<and> terminated nb2 \<and> length nb2 = 256"
proof -
  have n: "unat (ucast (of_nat (length nm) :: uchar) :: usize) = length nm"
    using assms(2) by (simp add: unat_ucast_quad small_of_nat)
  have "memcpyFrom (length nm) 0 nb (nm @ rest) = Done (nm @ drop (length nm) nb)"
    using memcpyFrom_spec [of 0 "length nm" nb "nm @ rest"] assms(1,2) by simp
  then have "rtlMemcpy nb (drop HDR_SIZE m) (ucast (of_nat (length nm) :: uchar)) = Done (nm @ drop (length nm) nb)"
    by (simp only: rtlMemcpy_def n assms(4))
  moreover have "drop (length nm) nb \<noteq> []" using assms(1,2) by auto
  from put_end [OF this, of nm 0]
  have "put (nm @ drop (length nm) nb) (length nm) 0 = Done (nm @ 0 # tl (drop (length nm) nb))" .
  moreover have "length (nm @ 0 # tl (drop (length nm) nb)) = 256" using assms(1,2) by simp
  ultimately show ?thesis using cstr_zero [OF assms(3)] by (auto simp: terminated_def)
qed

lemma packLoop_header:
  assumes M: "M = hdrBytes OMAR_MAGIC t (of_nat (length nm)) len v mode @ nm @ rest"
    and nm: "length nm \<le> 255" "0 \<notin> set nm" and nb: "length nb = 256" and path: "0 \<notin> set path"
  shows "\<exists>nb3. length nb3 = 256 \<and> packLoop (path @ [0]) nb M pos =
    (if nm = path then Done (STATUS_SUCCESS, Some (len, pos + HDR_SIZE + length nm))
     else packLoop (path @ [0]) nb3 (drop (unat (packOff t (of_nat (length nm)) len)) M)
            (pos + unat (packOff t (of_nat (length nm)) len)))"
proof -
  note hd = header_fields [OF magic_len(1), of t "of_nat (length nm)" len v mode "nm @ rest", folded M]
  obtain x where x: "x \<noteq> 0" "rtlMemcmp M (OMAR_EOF @ [0]) 5 = Done x" unfolding M using magic_checks(1) by blast
  have magic: "rtlMemcmp M OMAR_MAGIC 4 = Done 0" unfolding M by (rule magic_checks(2))
  obtain nb1 nb2 where nb2: "rtlMemcpy nb (drop HDR_SIZE M) (ucast (of_nat (length nm) :: uchar)) = Done nb1"
      "put nb1 (length nm) 0 = Done nb2" "cstr nb2 = nm" "terminated nb2" "length nb2 = 256"
    using copied_name [OF nb nm hd(5)] by blast
  obtain r where r: "rtlStrcmp nb2 (path @ [0]) = Done r" "r = 0 \<longleftrightarrow> nm = path"
    using rtlStrcmp_zero [OF nb2(4), of "path @ [0]"] cstr_zero [OF path, of "[]"] nb2(3)
    by (auto simp: terminated_def)
  obtain nb3 where nb3: "rtlMemset nb2 0 256 = Done nb3" "length nb3 = 256"
    using memsetFrom_len [of 0 256 nb2 0] nb2(5) by (auto simp: rtlMemset_def)
  have len: "unat (of_nat (length nm) :: uchar) = length nm" using small_of_nat(1) [OF nm(1)] .
  have short: "\<not> 256 - 1 < length nm" using nm(1) by simp
  have "packLoop (path @ [0]) nb M pos =
    (if nm = path then Done (STATUS_SUCCESS, Some (len, pos + HDR_SIZE + length nm))
     else packLoop (path @ [0]) nb3 (drop (unat (packOff t (of_nat (length nm)) len)) M)
            (pos + unat (packOff t (of_nat (length nm)) len)))"
    by (subst packLoop.simps)
       (simp only: x magic hd(1-3) andthen.simps if_False if_True simp_thms len short nb2(1,2) r nb3)
  with nb3(2) show ?thesis by blast
qed

lemma packLoop_record:
  assumes e: "entry_ok e" and nb: "length nb = 256" and path: "0 \<notin> set path"
  shows "\<exists>nb3. length nb3 = 256 \<and> packLoop (path @ [0]) nb (record_of e @ m) pos =
    (if fst e = path then Done (STATUS_SUCCESS, Some (fst (entry_data e), pos + 15 + length path))
     else packLoop (path @ [0]) nb3 m (pos + length (record_of e)))"
proof -
  note sh = record_shape [OF e]
  obtain tail where "record_of e @ m = hdrBytes OMAR_MAGIC (entry_type e) (of_nat (length (fst e)))
      (fst (entry_data e)) OMAR_REV (entry_mode e) @ fst e @ (snd (entry_data e) @ tail @ m)"
    using sh(1) by auto
  from packLoop_header [OF this sh(3,4) nb path, of pos] show ?thesis
    unfolding sh(2) [symmetric] by (auto simp: HDR_SIZE_def)
qed

lemma packLoop_archive:
  assumes "list_all entry_ok es" "length nb = 256" "0 \<notin> set path"
  shows "packLoop (path @ [0]) nb (archive junk es @ rest) pos =
    (case List.find (\<lambda>e. fst e = path) es of
       None \<Rightarrow> Done (STATUS_FILE_UNAVL, None)
     | Some e \<Rightarrow> Done (STATUS_SUCCESS, Some (fst (entry_data e),
         pos + length (concat (List.map record_of (takeWhile (\<lambda>e. fst e \<noteq> path) es))) + 15 + length path)))"
  using assms
proof (induction es arbitrary: nb pos)
  case Nil
  have "packLoop (path @ [0]) nb (archive junk [] @ rest) pos = Done (STATUS_FILE_UNAVL, None)"
    by (subst packLoop.simps) (simp add: archive_def end_mark_def magic_checks(3))
  then show ?case by simp
next
  case (Cons e es)
  obtain nb3 where nb3: "length nb3 = 256" "packLoop (path @ [0]) nb (record_of e @ archive junk es @ rest) pos =
    (if fst e = path then Done (STATUS_SUCCESS, Some (fst (entry_data e), pos + 15 + length path))
     else packLoop (path @ [0]) nb3 (archive junk es @ rest) (pos + length (record_of e)))"
    using packLoop_record [of e nb path "archive junk es @ rest" pos] Cons.prems by auto
  have "archive junk (e # es) @ rest = record_of e @ archive junk es @ rest" by (simp add: archive_def)
  with nb3 Cons.IH [of nb3 "pos + length (record_of e)"] Cons.prems show ?case
    by (simp split: option.split)
qed

section \<open>What the archiver writes\<close>

text \<open>
  The reference for a directory tree of the host: the entries it contributes, each named by
  its path below the root, a directory before what it holds, names with a leading dot left out.
\<close>

datatype tree = File_tree ulong "uchar list" | Dir_tree ulong uquad "(uchar list \<times> tree) list"

primrec dtype_of :: "tree \<Rightarrow> d_type" where
  "dtype_of (File_tree mode c) = DT_REG"
| "dtype_of (Dir_tree mode sz ks) = DT_DIR"

definition node_of :: "tree \<Rightarrow> fsnode" where
  "node_of t = (case t of File_tree mode c \<Rightarrow> Reg_file mode c
     | Dir_tree mode sz ks \<Rightarrow> Dir_file mode sz (List.map (\<lambda>k. (fst k, dtype_of (snd k))) ks))"

definition hidden :: "uchar list \<Rightarrow> bool" where
  "hidden nm \<longleftrightarrow> nm \<noteq> [] \<and> hd nm = 46"

lemma tree_size: "k \<in> set ks \<Longrightarrow> size (snd k) < size (Dir_tree mode sz ks)"
  by (induction ks) (auto simp: prod.size_gen split_beta)

function entries :: "uchar list \<Rightarrow> tree \<Rightarrow> (uchar list \<times> fsnode) list" where
  "entries rel (File_tree mode c) = []"
| "entries rel (Dir_tree mode sz ks) =
     concat (List.map (\<lambda>k. if hidden (fst k) then []
       else (rel @ fst k, node_of (snd k)) # entries (rel @ fst k @ [47]) (snd k)) ks)"
  by pat_completeness auto
termination
  by (relation "measure (\<lambda>(rel, t). size t)") (use tree_size in auto)

text \<open>The tree is what the host's file system holds at \<open>base\<close>, and every path fits its buffer.\<close>

function packable :: "os \<Rightarrow> uchar list \<Rightarrow> uchar list \<Rightarrow> tree \<Rightarrow> bool" where
  "packable s base dirname (File_tree mode c) \<longleftrightarrow>
     os_files s base = Some (Reg_file mode c) \<and> c \<noteq> [] \<and> length c + 255 < 2 ^ 32"
| "packable s base dirname (Dir_tree mode sz ks) \<longleftrightarrow>
     os_files s base = Some (node_of (Dir_tree mode sz ks)) \<and>
     (\<forall>k \<in> set ks. \<not> hidden (fst k) \<longrightarrow> 0 \<notin> set (fst k) \<and>
        length (base @ 47 # fst k) \<le> 255 \<and> length (dirname @ 47 # fst k) \<le> 255 \<and>
        packable s (base @ 47 # fst k) (dirname @ 47 # fst k) (snd k))"
  by pat_completeness auto
termination
  by (relation "measure (\<lambda>(s, base, dirname, t). size t)") (use tree_size in auto)

function depth :: "tree \<Rightarrow> nat" where
  "depth (File_tree mode c) = 0"
| "depth (Dir_tree mode sz ks) = Suc (fold max (List.map (\<lambda>k. depth (snd k)) ks) 0)"
  by pat_completeness auto
termination
  by (relation "measure size") (use tree_size in auto)

lemma fold_max_ge: "n \<le> fold max xs (n :: nat) \<and> (x \<in> set xs \<longrightarrow> x \<le> fold max xs n)"
proof (induction xs arbitrary: n)
  case (Cons y ys)
  from Cons [of "max y n"] show ?case by auto
qed simp

lemma depth_child: "k \<in> set ks \<Longrightarrow> depth (snd k) < depth (Dir_tree mode sz ks)"
  using fold_max_ge [of 0 "List.map (\<lambda>k. depth (snd k)) ks" "depth (snd k)"] by auto

lemma strip_root_under: "47 \<notin> set root \<Longrightarrow> strip_root (root @ 47 # p) = Some p"
  by (induction root) auto

lemma file_push_record:
  assumes "os_files s path = Some node" "entry_ok (nm, node)" "\<And>n. os_malloc s n"
  shows "file_push s junk (Some path) nm out = Done (0, out @ record_of (nm, node))"
proof (cases node)
  case (Dir_file mode sz ents)
  with assms show ?thesis by (simp add: file_push_def Let_def small_of_nat)
next
  case (Reg_file mode c)
  with assms(2) have ok: "length nm \<le> 255" "c \<noteq> []" "length nm + length c < 2 ^ 32" by auto
  have c: "unat (of_nat (length c) :: ulong) = length c" using ok(3) by (intro small_of_nat) simp
  have nz: "(of_nat (length c) :: ulong) \<noteq> 0"
  proof
    assume "(of_nat (length c) :: ulong) = 0"
    with c have "length c = 0" by simp
    with ok(2) show False by simp
  qed
  have "unat (ucast (of_nat (length nm) :: uchar) :: ulong) = length nm"
    using ok(1) by (simp add: unsigned_ucast_eq take_bit_nat_eq_self unat_of_nat)
  then have "unat (ucast (of_nat (length nm) :: uchar) + of_nat (length c) :: ulong) = length nm + length c"
    using ok(3) c by (subst unat_plus_small) simp_all
  with assms(1,3) ok c nz Reg_file show ?thesis
    by (simp add: file_push_def Let_def small_of_nat endPad_def add.assoc)
qed

lemma packable_entry:
  assumes "packable s base dirname t" "length nm \<le> 255" "0 \<notin> set nm"
  shows "os_files s base = Some (node_of t)" "entry_ok (nm, node_of t)"
  using assms by (cases t; simp add: node_of_def)+

lemma createEntries_spec:
  assumes rec: "\<And>k out'. k \<in> set ks \<Longrightarrow> \<not> hidden (fst k) \<Longrightarrow> dtype_of (snd k) = DT_DIR \<Longrightarrow>
      rec (base @ 47 # fst k) (dirname @ 47 # fst k) out' =
        Done (0, out' @ concat (List.map record_of (entries (rel @ fst k @ [47]) (snd k))))"
    and ok: "\<And>k. k \<in> set ks \<Longrightarrow> \<not> hidden (fst k) \<Longrightarrow> 0 \<notin> set (fst k) \<and>
      length (base @ 47 # fst k) \<le> 255 \<and> length (dirname @ 47 # fst k) \<le> 255 \<and>
      packable s (base @ 47 # fst k) (dirname @ 47 # fst k) (snd k)"
    and dir: "dirname @ [47] = root @ 47 # rel" "47 \<notin> set root" "0 \<notin> set rel" and mem: "\<And>n. os_malloc s n"
  shows "createEntries rec s junk base dirname (List.map (\<lambda>k. (fst k, dtype_of (snd k))) ks) out =
    Done (out @ concat (List.map record_of (concat (List.map (\<lambda>k. if hidden (fst k) then []
       else (rel @ fst k, node_of (snd k)) # entries (rel @ fst k @ [47]) (snd k)) ks))))"
  using rec ok
proof (induction ks arbitrary: out)
  case (Cons k ks)
  have IH: "createEntries rec s junk base dirname (List.map (\<lambda>k. (fst k, dtype_of (snd k))) ks) out' =
    Done (out' @ concat (List.map record_of (concat (List.map (\<lambda>k. if hidden (fst k) then []
       else (rel @ fst k, node_of (snd k)) # entries (rel @ fst k @ [47]) (snd k)) ks))))" for out'
    using Cons.prems by (intro Cons.IH) simp_all
  show ?case
  proof (cases "hidden (fst k)")
    case True
    note hid = True [unfolded hidden_def]
    have "createEntries rec s junk base dirname (List.map (\<lambda>k. (fst k, dtype_of (snd k))) (k # ks)) out =
        createEntries rec s junk base dirname (List.map (\<lambda>k. (fst k, dtype_of (snd k))) ks) out"
      by (simp only: list.map createEntries.simps hid if_True simp_thms)
    with IH True show ?thesis by simp
  next
    case False
    from Cons.prems(2) [of k] False have k: "0 \<notin> set (fst k)" "length (base @ 47 # fst k) \<le> 255"
      "length (dirname @ 47 # fst k) \<le> 255" "packable s (base @ 47 # fst k) (dirname @ 47 # fst k) (snd k)"
      by auto
    have dn: "dirname @ 47 # fst k = root @ 47 # (rel @ fst k)"
      using arg_cong [OF dir(1), of "\<lambda>d. d @ fst k"] by simp
    have strip: "strip_root (dirname @ 47 # fst k) = Some (rel @ fst k)"
      unfolding dn using dir(2) by (rule strip_root_under)
    have nm: "length (rel @ fst k) \<le> 255" "0 \<notin> set (rel @ fst k)"
      using k(1,3) dir(3) unfolding dn by auto
    note push = file_push_record [OF packable_entry(1) [OF k(4) nm] packable_entry(2) [OF k(4) nm] mem]
    note buf = take_all [OF k(2)] take_all [OF k(3)]
    note hid = False [unfolded hidden_def]
    show ?thesis
    proof (cases "dtype_of (snd k)")
      case DT_DIR
      have "rec (base @ 47 # fst k) (dirname @ 47 # fst k) out' =
          Done (0, out' @ concat (List.map record_of (entries (rel @ fst k @ [47]) (snd k))))" for out'
        using Cons.prems(1) [of k] False DT_DIR by simp
      then have "createEntries rec s junk base dirname (List.map (\<lambda>k. (fst k, dtype_of (snd k))) (k # ks)) out =
          createEntries rec s junk base dirname (List.map (\<lambda>k. (fst k, dtype_of (snd k))) ks)
            ((out @ record_of (rel @ fst k, node_of (snd k))) @
              concat (List.map record_of (entries (rel @ fst k @ [47]) (snd k))))"
        by (simp only: list.map createEntries.simps hid if_False Let_def buf DT_DIR d_type.case strip
            option.case push andthen.simps prod.case)
      with IH False show ?thesis by simp
    next
      case DT_REG
      then obtain mode c where "snd k = File_tree mode c" by (cases "snd k") auto
      then have none: "entries (rel @ fst k @ [47]) (snd k) = []" by simp
      have "createEntries rec s junk base dirname (List.map (\<lambda>k. (fst k, dtype_of (snd k))) (k # ks)) out =
          createEntries rec s junk base dirname (List.map (\<lambda>k. (fst k, dtype_of (snd k))) ks)
            (out @ record_of (rel @ fst k, node_of (snd k)))"
        by (simp only: list.map createEntries.simps hid if_False Let_def buf DT_REG d_type.case strip
            option.case push andthen.simps prod.case)
      with IH False none show ?thesis by simp
    next
      case DT_OTHER
      then show ?thesis by (cases "snd k") auto
    qed
  qed
qed simp


lemma archive_create_spec:
  assumes mem: "\<And>n. os_malloc s n" and root: "47 \<notin> set root"
  shows "packable s base dirname (Dir_tree mode sz ks) \<Longrightarrow> depth (Dir_tree mode sz ks) \<le> fuel \<Longrightarrow>
    dirname @ [47] = root @ 47 # rel \<Longrightarrow> 0 \<notin> set rel \<Longrightarrow>
    archive_create fuel s junk base dirname out =
      Done (0, out @ concat (List.map record_of (entries rel (Dir_tree mode sz ks))))"
proof (induction fuel arbitrary: base dirname mode sz ks rel out)
  case 0
  then show ?case by simp
next
  case (Suc fuel)
  have ok: "0 \<notin> set (fst k) \<and> length (base @ 47 # fst k) \<le> 255 \<and> length (dirname @ 47 # fst k) \<le> 255 \<and>
      packable s (base @ 47 # fst k) (dirname @ 47 # fst k) (snd k)" if "k \<in> set ks" "\<not> hidden (fst k)" for k
    using Suc.prems(1) that by simp
  have rec: "archive_create fuel s junk (base @ 47 # fst k) (dirname @ 47 # fst k) out' =
      Done (0, out' @ concat (List.map record_of (entries (rel @ fst k @ [47]) (snd k))))"
    if k: "k \<in> set ks" "\<not> hidden (fst k)" "dtype_of (snd k) = DT_DIR" for k out'
  proof -
    obtain m z js where d: "snd k = Dir_tree m z js" using k(3) by (cases "snd k") auto
    have "depth (snd k) \<le> fuel" using depth_child [OF k(1), of mode sz] Suc.prems(2) by simp
    moreover have "(dirname @ 47 # fst k) @ [47] = root @ 47 # (rel @ fst k @ [47])"
      using arg_cong [OF Suc.prems(3), of "\<lambda>d. d @ fst k @ [47]"] by simp
    moreover have "0 \<notin> set (rel @ fst k @ [47])" using ok [OF k(1,2)] Suc.prems(4) by simp
    ultimately show ?thesis using Suc.IH ok [OF k(1,2)] unfolding d by blast
  qed
  have node: "os_files s base = Some (Dir_file mode sz (List.map (\<lambda>k. (fst k, dtype_of (snd k))) ks))"
    using Suc.prems(1) by (simp add: node_of_def)
  have "createEntries (archive_create fuel s junk) s junk base dirname
      (List.map (\<lambda>k. (fst k, dtype_of (snd k))) ks) out =
    Done (out @ concat (List.map record_of (entries rel (Dir_tree mode sz ks))))"
    unfolding entries.simps
    by (rule createEntries_spec [OF _ _ Suc.prems(3) root Suc.prems(4) mem]) (rule rec ok; assumption)+
  then show ?case by (simp add: node)
qed

lemma entries_ok:
  "packable s base dirname t \<Longrightarrow> dirname @ [47] = root @ 47 # rel \<Longrightarrow> 0 \<notin> set rel \<Longrightarrow> list_all entry_ok (entries rel t)"
proof (induction rel t arbitrary: base dirname rule: entries.induct)
  case (2 rel mode sz ks)
  have "list_all entry_ok ((rel @ fst k, node_of (snd k)) # entries (rel @ fst k @ [47]) (snd k))"
    if k: "k \<in> set ks" "\<not> hidden (fst k)" for k
  proof -
    from 2(2) k have c: "0 \<notin> set (fst k)" "length (dirname @ 47 # fst k) \<le> 255"
      "packable s (base @ 47 # fst k) (dirname @ 47 # fst k) (snd k)" by auto
    have dn: "dirname @ 47 # fst k = root @ 47 # (rel @ fst k)"
      using arg_cong [OF 2(3), of "\<lambda>d. d @ fst k"] by simp
    have "length (rel @ fst k) \<le> 255" "0 \<notin> set (rel @ fst k)" using c(1,2) 2(4) unfolding dn by auto
    note here = packable_entry(2) [OF c(3) this]
    have "(dirname @ 47 # fst k) @ [47] = root @ 47 # (rel @ fst k @ [47])"
      using arg_cong [OF 2(3), of "\<lambda>d. d @ fst k @ [47]"] by simp
    moreover have "0 \<notin> set (rel @ fst k @ [47])" using c(1) 2(4) by simp
    ultimately have "list_all entry_ok (entries (rel @ fst k @ [47]) (snd k))"
      using 2(1) [OF k c(3)] by blast
    with here show ?thesis by simp
  qed
  then show ?case by (auto simp: list_all_iff)
qed simp

lemma omarArchive_spec:
  assumes "packable s inpath (basename inpath) (Dir_tree mode sz ks)" "depth (Dir_tree mode sz ks) \<le> fuel"
    "47 \<notin> set (basename inpath)" "\<And>n. os_malloc s n"
  shows "omarArchive fuel s junk inpath = Done (0, archive junk (entries [] (Dir_tree mode sz ks)))"
  using archive_create_spec [OF assms(4,3,1,2), of "[]" junk "[]"]
  by (simp add: omarArchive_def file_push_def Let_def archive_def end_mark_def bytes_def)

lemma keBootPackGet_archive:
  assumes "list_all entry_ok es" "length nb = 256" "0 \<notin> set path" "bootPackBase v = Some (archive junk es @ rest)"
  shows "keBootPackGet v nb (Some (47 # path @ [0])) =
    Done (map_option (\<lambda>e. length (concat (List.map record_of (takeWhile (\<lambda>e. fst e \<noteq> path) es))) + 15 + length path)
      (List.find (\<lambda>e. fst e = path) es))"
  using packLoop_archive [OF assms(1-3), of junk rest 0] assms(4)
  by (cases "List.find (\<lambda>e. fst e = path) es")
     (simp_all add: keBootPackGet_def bootPackGetFile_def get_def status_simps del: andthen_Done_iff)

lemma found_data:
  assumes "list_all entry_ok es" "List.find (\<lambda>e. fst e = path) es = Some e"
  shows "take (length (snd (entry_data e)))
    (drop (length (concat (List.map record_of (takeWhile (\<lambda>e. fst e \<noteq> path) es))) + 15 + length path) (archive junk es @ rest)) =
    snd (entry_data e)"
  using assms
proof (induction es)
  case (Cons f es)
  show ?case
  proof (cases "fst f = path")
    case True
    then have f: "e = f" using Cons.prems(2) by simp
    obtain tail where "record_of e = hdrBytes OMAR_MAGIC (entry_type e) (of_nat (length (fst e))) (fst (entry_data e))
        OMAR_REV (entry_mode e) @ fst e @ snd (entry_data e) @ tail"
      using record_shape(1) [of e] Cons.prems(1) f by auto
    with True f show ?thesis by (simp add: archive_def)
  next
    case False
    with Cons show ?thesis by (simp add: archive_def add.assoc)
  qed
qed simp

section \<open>Properties\<close>

text \<open>
  C11 (archive round trip). Take a directory of files and directories in which, hidden names (with a leading dot) left out, every file is
  non-empty and below 4 GiB less 255 bytes and every path fits the tool's 256-byte buffers; let the input path's last component have no slash,
  let fuel cover the depth of the tree, and let all allocations succeed. Then the archiver succeeds, and its output is an archive from which the kernel finds every
  file that is not hidden: looking up \<^verbatim>\<open>/name\<close> answers a pointer at which the contents of the first file of
  that name stand, and NULL when there is no such entry, as for hidden files. Any bytes may follow the archive.
\<close>

theorem omar_pack_roundtrip:
  assumes "packable s inpath (basename inpath) (Dir_tree mode sz ks)" "depth (Dir_tree mode sz ks) \<le> fuel"
    and "47 \<notin> set (basename inpath)" "\<forall>n. os_malloc s n" "length nb = 256" "0 \<notin> set path"
  shows "\<exists>pack. omarArchive fuel s junk inpath = Done (0, pack) \<and>
    (\<forall>rest v. bootPackBase v = Some (pack @ rest) \<longrightarrow>
      (case List.find (\<lambda>e. fst e = path) (entries [] (Dir_tree mode sz ks)) of
         None \<Rightarrow> keBootPackGet v nb (Some (47 # path @ [0])) = Done None
       | Some e \<Rightarrow> \<exists>off. keBootPackGet v nb (Some (47 # path @ [0])) = Done (Some off) \<and>
           (\<forall>md c. snd e = Reg_file md c \<longrightarrow> take (length c) (drop off (pack @ rest)) = c)))"
proof -
  let ?es = "entries [] (Dir_tree mode sz ks)"
  have run: "omarArchive fuel s junk inpath = Done (0, archive junk ?es)"
    using assms(1-4) by (intro omarArchive_spec) auto
  have ok: "list_all entry_ok ?es" using entries_ok [OF assms(1), of "basename inpath" "[]"] by simp
  have "case List.find (\<lambda>e. fst e = path) ?es of
         None \<Rightarrow> keBootPackGet v nb (Some (47 # path @ [0])) = Done None
       | Some e \<Rightarrow> \<exists>off. keBootPackGet v nb (Some (47 # path @ [0])) = Done (Some off) \<and>
           (\<forall>md c. snd e = Reg_file md c \<longrightarrow> take (length c) (drop off (archive junk ?es @ rest)) = c)"
    if "bootPackBase v = Some (archive junk ?es @ rest)" for v rest
    using keBootPackGet_archive [OF ok assms(5,6) that] found_data [OF ok, of path _ junk rest]
    by (auto simp: entry_data_def split: option.split fsnode.splits)
  with run show ?thesis by blast
qed

definition demo_tree :: tree where
  "demo_tree = Dir_tree 0x41ED 4096 [(bytes ''a'', File_tree 0x81A4 [7]), (bytes ''.git'', File_tree 0x81A4 [1]),
     (bytes ''d'', Dir_tree 0x41ED 4096 [(bytes ''x'', File_tree 0x81A4 [8, 9])])]"

definition demo_os :: os where
  "demo_os = \<lparr>os_files = map_of [(bytes ''boot'', node_of demo_tree), (bytes ''boot/a'', Reg_file 0x81A4 [7]),
     (bytes ''boot/d'', Dir_file 0x41ED 4096 [(bytes ''x'', DT_REG)]), (bytes ''boot/d/x'', Reg_file 0x81A4 [8, 9])],
     os_malloc = (\<lambda>_. True), os_open = (\<lambda>_ _ _. 3), os_write = (\<lambda>_ _ d. int (length d))\<rparr>"

theorem omar_pack_roundtrip_witness:
  "\<exists>pack off. omarArchive 2 demo_os 0 (bytes ''boot'') = Done (0, pack) \<and>
     keBootPackGet \<lparr>hhdmResp = None, hhmOffset = 0, bootPackBase = Some pack\<rparr> (replicate 256 5)
       (Some (bytes ''/d/x'' @ [0])) = Done (Some off) \<and> take 2 (drop off pack) = [8, 9]"
proof -
  obtain mode sz ks where t: "demo_tree = Dir_tree mode sz ks" by (simp add: demo_tree_def)
  have p: "packable demo_os (bytes ''boot'') (basename (bytes ''boot'')) demo_tree"
    by (simp add: demo_tree_def demo_os_def node_of_def bytes_def byte_def basename_def hidden_def)
  have d: "depth demo_tree \<le> 2" "47 \<notin> set (basename (bytes ''boot''))" "0 \<notin> set (bytes ''d/x'')" by code_simp+
  have m: "\<forall>n. os_malloc demo_os n" by (simp add: demo_os_def)
  have e: "List.find (\<lambda>e. fst e = bytes ''d/x'') (entries [] demo_tree) = Some (bytes ''d/x'', Reg_file 0x81A4 [8, 9])"
    by code_simp
  have path: "47 # bytes ''d/x'' @ [0] = bytes ''/d/x'' @ [0]" by (simp add: bytes_def byte_def)
  obtain pack where pack: "omarArchive 2 demo_os 0 (bytes ''boot'') = Done (0, pack)"
    "\<forall>rest v. bootPackBase v = Some (pack @ rest) \<longrightarrow>
      (\<exists>off. keBootPackGet v (replicate 256 5) (Some (bytes ''/d/x'' @ [0])) = Done (Some off) \<and>
         take 2 (drop off (pack @ rest)) = [8, 9])"
    using omar_pack_roundtrip [OF p [unfolded t] d(1) [unfolded t] d(2) m, of "replicate 256 5" "bytes ''d/x''" 0] d(3)
      e [unfolded t] unfolding path
    by (auto simp: numeral_2_eq_2 simp del: take_append drop_append entries.simps)
  from pack(2) [rule_format, of "\<lparr>hhdmResp = None, hhmOffset = 0, bootPackBase = Some pack\<rparr>" "[]"] pack(1)
  show ?thesis by auto
qed

text \<open>
  An empty file spoils the archive. When the directory has an empty file, the archiver
  writes its header and then gives up on it without padding, ignores the error, and goes on.
  The kernel steps a whole block from that header, into the middle of the next entry: a file
  that follows is not found, although the archiver reported success.
\<close>

theorem omar_empty_file:
  assumes "os_files s base = Some (Dir_file mode sz [(na, DT_REG), (nb, DT_REG)])"
    and "os_files s (base @ 47 # na) = Some (Reg_file m1 [])"
    and "os_files s (base @ 47 # nb) = Some (Reg_file m2 c)"
    and "entry_ok (nb, Reg_file m2 c)" "0 \<notin> set na" "na \<noteq> nb" "\<not> hidden na" "\<not> hidden nb"
    and "length (base @ 47 # na) \<le> 255" "length (base @ 47 # nb) \<le> 255"
    and "length na + 15 + length nb + length c \<le> 497"
    and "47 \<notin> set (basename base)" "length (basename base) \<le> length base"
    and "\<forall>n. os_malloc s n" "length buf = 256"
  shows "\<exists>pack. omarArchive (Suc fuel) s junk base = Done (0, pack) \<and>
    (\<forall>rest v. bootPackBase v = Some (pack @ rest) \<longrightarrow> keBootPackGet v buf (Some (47 # nb @ [0])) = Done None)"
proof -
  let ?h = "hdrBytes OMAR_MAGIC OMAR_REG (of_nat (length na)) 0 OMAR_REV m1"
  let ?pack = "?h @ na @ record_of (nb, Reg_file m2 c) @ end_mark junk"
  let ?dn = "basename base"
  have len: "length na \<le> 255" "length (?dn @ 47 # na) \<le> 255" "length (?dn @ 47 # nb) \<le> 255"
    using assms(9,10,13) by auto
  have strip: "strip_root (?dn @ 47 # na) = Some na" "strip_root (?dn @ 47 # nb) = Some nb"
    using assms(12) by (auto intro: strip_root_under)
  have push_a: "file_push s junk (Some (base @ 47 # na)) na out = Done (- 5, out @ ?h @ na)" for out
    using assms(2,14) len(1) by (simp add: file_push_def Let_def small_of_nat)
  have push_b: "file_push s junk (Some (base @ 47 # nb)) nb out = Done (0, out @ record_of (nb, Reg_file m2 c))" for out
    using file_push_record [OF assms(3,4)] assms(14) by blast
  note buf = take_all [OF assms(9)] take_all [OF assms(10)] take_all [OF len(2)] take_all [OF len(3)]
  have "createEntries rec s junk base ?dn [(na, DT_REG), (nb, DT_REG)] [] =
      Done (([] @ ?h @ na) @ record_of (nb, Reg_file m2 c))" for rec
    by (simp only: createEntries.simps assms(7,8) [unfolded hidden_def] if_False simp_thms Let_def buf d_type.case strip
        option.case push_a push_b andthen.simps prod.case)
  then have run: "omarArchive (Suc fuel) s junk base = Done (0, ?pack)"
    using assms(1) by (simp add: omarArchive_def file_push_def Let_def end_mark_def bytes_def del: record_of.simps)
  have "keBootPackGet v buf (Some (47 # nb @ [0])) = Done None" if v: "bootPackBase v = Some (?pack @ rest)" for v rest
  proof -
    have nbok: "0 \<notin> set nb" using assms(4) by simp
    obtain b3 where b3: "packLoop (nb @ [0]) buf (?pack @ rest) 0 =
        packLoop (nb @ [0]) b3 (drop (unat (packOff OMAR_REG (of_nat (length na)) 0)) (?pack @ rest))
          (unat (packOff OMAR_REG (of_nat (length na)) 0))"
      using packLoop_header [of "?pack @ rest" OMAR_REG na 0 OMAR_REV m1 _ buf nb 0] len(1) assms(5,6,15) nbok
      by (auto simp del: record_of.simps)
    have off: "unat (packOff OMAR_REG (of_nat (length na)) 0) = 512"
      using assms(11) len(1) by (simp add: packOff_value small_of_nat OMAR_REG_def OMAR_DIR_def)
    have "\<exists>k post. 0 < k \<and> drop 512 (?pack @ rest) = replicate k 0 @ post"
    proof -
      define n where "n = 15 + length nb + length c"
      have n: "length na + n \<le> 497" "0 < n" using assms(11) by (auto simp: n_def)
      have "endPad n = replicate (512 - n) 0" using n by (simp add: endPad_def padTo_def)
      then have "drop 512 (?pack @ rest) =
          drop (497 - length na - n) (replicate (512 - n) 0) @ end_mark junk @ rest"
        using n by (simp add: n_def add.assoc)
      moreover have "drop (497 - length na - n) (replicate (512 - n) (0 :: uchar)) = replicate (15 + length na) 0"
        using n by simp
      ultimately show ?thesis by (metis zero_less_numeral trans_less_add1)
    qed
    then obtain k post where m: "drop 512 (?pack @ rest) = 0 # replicate k 0 @ post"
      by (metis replicate_Suc append_Cons gr0_implies_Suc)
    have u: "unat (5 :: usize) = Suc (Suc (Suc (Suc (Suc 0))))" "unat (4 :: usize) = Suc (Suc (Suc (Suc 0)))"
      by simp_all
    have zero: "rtlMemcmp (0 # x) (OMAR_EOF @ [0]) 5 = Done (- 82)" "rtlMemcmp (0 # x) OMAR_MAGIC 4 = Done (- 79)" for x
      unfolding rtlMemcmp_def u by (simp_all add: OMAR_EOF_def OMAR_MAGIC_def bytes_def byte_def)
    have "packLoop (nb @ [0]) b3 (0 # replicate k 0 @ post) 512 = Done (STATUS_INVALID_PARAM, None)"
      by (subst packLoop.simps) (simp add: zero del: andthen_Done_iff)
    with b3 m have "packLoop (nb @ [0]) buf (?pack @ rest) 0 = Done (STATUS_INVALID_PARAM, None)"
      unfolding off by simp
    then show ?thesis
      using v by (simp add: keBootPackGet_def bootPackGetFile_def get_def status_simps del: andthen_Done_iff)
  qed
  with run show ?thesis by blast
qed

theorem omar_empty_file_witness:
  "\<exists>pack. omarArchive 1 \<lparr>os_files = map_of [(bytes ''boot'', Dir_file 0x41ED 4096 [(bytes ''a'', DT_REG), (bytes ''b'', DT_REG)]),
       (bytes ''boot/a'', Reg_file 0x81A4 []), (bytes ''boot/b'', Reg_file 0x81A4 [8, 9])], os_malloc = (\<lambda>_. True), os_open = (\<lambda>_ _ _. 3), os_write = (\<lambda>_ _ d. int (length d))\<rparr>
     0 (bytes ''boot'') = Done (0, pack) \<and>
     keBootPackGet \<lparr>hhdmResp = None, hhmOffset = 0, bootPackBase = Some pack\<rparr> (replicate 256 5)
       (Some (bytes ''/b'' @ [0])) = Done None"
proof -
  let ?s = "\<lparr>os_files = map_of [(bytes ''boot'', Dir_file 0x41ED 4096 [(bytes ''a'', DT_REG), (bytes ''b'', DT_REG)]),
       (bytes ''boot/a'', Reg_file 0x81A4 []), (bytes ''boot/b'', Reg_file 0x81A4 [8, 9])], os_malloc = (\<lambda>_. True), os_open = (\<lambda>_ _ _. 3), os_write = (\<lambda>_ _ d. int (length d))\<rparr>"
  have fs: "os_files ?s (bytes ''boot'') = Some (Dir_file 0x41ED 4096 [(bytes ''a'', DT_REG), (bytes ''b'', DT_REG)])"
    "os_files ?s (bytes ''boot'' @ 47 # bytes ''a'') = Some (Reg_file 0x81A4 [])"
    "os_files ?s (bytes ''boot'' @ 47 # bytes ''b'') = Some (Reg_file 0x81A4 [8, 9])"
    by (simp_all add: bytes_def byte_def)
  have ok: "entry_ok (bytes ''b'', Reg_file 0x81A4 [8, 9])" "0 \<notin> set (bytes ''a'')" "bytes ''a'' \<noteq> bytes ''b''"
    "\<not> hidden (bytes ''a'')" "\<not> hidden (bytes ''b'')" "length (bytes ''boot'' @ 47 # bytes ''a'') \<le> 255"
    "length (bytes ''boot'' @ 47 # bytes ''b'') \<le> 255"
    "length (bytes ''a'') + 15 + length (bytes ''b'') + length [8, 9 :: uchar] \<le> 497"
    "47 \<notin> set (basename (bytes ''boot''))" "length (basename (bytes ''boot'')) \<le> length (bytes ''boot'')"
    "\<forall>n. os_malloc ?s n" "length (replicate 256 (5 :: uchar)) = 256"
    by (simp_all add: bytes_def byte_def hidden_def basename_def)
  have path: "47 # bytes ''b'' @ [0] = bytes ''/b'' @ [0]" by (simp add: bytes_def byte_def)
  obtain pack where pack: "omarArchive (Suc 0) ?s 0 (bytes ''boot'') = Done (0, pack)"
    "\<And>rest v. bootPackBase v = Some (pack @ rest) \<Longrightarrow>
       keBootPackGet v (replicate 256 5) (Some (bytes ''/b'' @ [0])) = Done None"
    using omar_empty_file [OF fs ok, of 0 0] unfolding path by blast
  from pack(2) [of "\<lparr>hhdmResp = None, hhmOffset = 0, bootPackBase = Some pack\<rparr>" "[]"] pack(1) show ?thesis
    by auto
qed

text \<open>What the extractor makes of one entry.\<close>

definition extracted_of :: "uchar list \<Rightarrow> uchar list \<times> fsnode \<Rightarrow> extracted list" where
  "extracted_of outpath e =
     (case snd e of Reg_file mode c \<Rightarrow> [Wrote_file (outpath @ 47 # fst e) mode c]
      | Dir_file mode sz ents \<Rightarrow>
          List.map (\<lambda>d. Made_dir d mode) (prefixDirs [hd outpath] (tl outpath @ 47 # fst e) @ [outpath @ 47 # fst e]))"

definition extractable :: "uchar list \<Rightarrow> uchar list \<times> fsnode \<Rightarrow> bool" where
  "extractable outpath e \<longleftrightarrow> entry_ok e \<and> length (outpath @ 47 # fst e) \<le> 255 \<and> fst e \<noteq> [] \<and> List.last (fst e) \<noteq> 47"

text \<open>A host on which every file can be opened for writing and is written completely.\<close>

definition writes_all :: "os \<Rightarrow> bool" where
  "writes_all s \<longleftrightarrow> (\<forall>made path mode. 0 \<le> os_open s made path mode) \<and>
     (\<forall>made path data. os_write s made path data = int (length data))"

lemma extract_single_all:
  "writes_all s \<Longrightarrow> data \<noteq> [] \<Longrightarrow> extract_single s made mode data path = (0, made @ [Wrote_file path mode data])"
  by (simp add: writes_all_def extract_single_def Let_def not_less)

text \<open>One entry on any host: a file that cannot be opened is passed over.\<close>

definition extract_entry :: "os \<Rightarrow> uchar list \<Rightarrow> extracted list \<Rightarrow> uchar list \<times> fsnode \<Rightarrow> extracted list" where
  "extract_entry s outpath made e =
     (case snd e of Reg_file mode c \<Rightarrow> snd (extract_single s made mode c (outpath @ 47 # fst e))
      | Dir_file mode sz ents \<Rightarrow> made @ extracted_of outpath e)"

lemma extract_entries_all:
  assumes "writes_all s" "list_all (extractable outpath) es"
  shows "foldl (extract_entry s outpath) made es = made @ concat (List.map (extracted_of outpath) es)"
  using assms(2)
proof (induction es arbitrary: made)
  case (Cons e es)
  have "extract_entry s outpath made e = made @ extracted_of outpath e"
    using Cons.prems extract_single_all [OF assms(1)]
    by (cases e) (auto simp: extract_entry_def extracted_of_def extractable_def split: fsnode.split)
  with Cons show ?case by simp
qed simp

lemma extractLoop_record:
  assumes e: "extractable outpath e" and out: "outpath \<noteq> []"
  shows "extractLoop s outpath (record_of e @ m) made = extractLoop s outpath m (extract_entry s outpath made e)"
proof -
  have ok: "entry_ok e" and len: "length (outpath @ 47 # fst e) \<le> 255" and nm: "fst e \<noteq> []" "List.last (fst e) \<noteq> 47"
    using e by (auto simp: extractable_def)
  note sh = record_shape [OF ok]
  define M where "M = record_of e @ m"
  obtain tail where rec: "M = hdrBytes OMAR_MAGIC (entry_type e) (of_nat (length (fst e)))
      (fst (entry_data e)) OMAR_REV (entry_mode e) @ (fst e @ snd (entry_data e) @ tail @ m)"
    using sh(1) by (auto simp: M_def)
  note hd = header_fields [OF magic_len(1), of "entry_type e" "of_nat (length (fst e))" "fst (entry_data e)"
    OMAR_REV "entry_mode e" "fst e @ snd (entry_data e) @ tail @ m", folded rec]
  obtain x where x: "x \<noteq> 0" "rtlMemcmp M (OMAR_EOF @ [0]) 5 = Done x" unfolding rec using magic_checks(1) by blast
  have magic: "rtlMemcmp M OMAR_MAGIC 4 = Done 0" unfolding rec by (rule magic_checks(2))
  have nl: "unat (of_nat (length (fst e)) :: uchar) = length (fst e)" using small_of_nat(1) [OF sh(3)] .
  have name: "\<not> length (drop HDR_SIZE M) < length (fst e)" "cstr (take (length (fst e)) (drop HDR_SIZE M)) = fst e"
    unfolding hd(5) using sh(4) by (auto simp: cstr_def takeWhile_eq_all_conv)
  have data: "drop (HDR_SIZE + length (fst e)) M = snd (entry_data e) @ tail @ m"
  proof -
    have "drop (HDR_SIZE + length (fst e)) M = drop (length (fst e)) (drop HDR_SIZE M)" by (simp add: add.commute)
    then show ?thesis unfolding hd(5) by simp
  qed
  have next_m: "drop (length (record_of e)) M = m" by (simp add: M_def)
  note go = x magic hd(1-4) andthen.simps if_False if_True simp_thms nl name data next_m Let_def
    take_all [OF len] sh(2) [symmetric]
  show ?thesis
  proof (cases "snd e")
    case (Reg_file mode c)
    have ty: "entry_type e \<noteq> OMAR_DIR" using Reg_file by (simp add: entry_type_def OMAR_REG_def OMAR_DIR_def)
    have c: "unat (fst (entry_data e)) = length c" "snd (entry_data e) = c"
      using ok Reg_file small_of_nat(2) [of "length c"] by (cases e; auto simp: entry_data_def)+
    have d: "\<not> length (snd (entry_data e) @ tail @ m) < unat (fst (entry_data e))"
      "take (unat (fst (entry_data e))) (snd (entry_data e) @ tail @ m) = c"
      using c by simp_all
    have "extractLoop s outpath M made = extractLoop s outpath m (snd (extract_single s made (entry_mode e) c (outpath @ 47 # fst e)))"
      by (subst extractLoop.simps) (simp only: go ty d case_prod_beta)
    then show ?thesis using Reg_file by (simp add: M_def extract_entry_def entry_mode_def)
  next
    case (Dir_file mode sz ents)
    have ty: "entry_type e = OMAR_DIR" using Dir_file by (simp add: entry_type_def)
    have mk: "mkpath mode (outpath @ 47 # fst e) = Done (extracted_of outpath e)"
      using out nm Dir_file by (cases outpath) (auto simp: mkpath_def extracted_of_def Let_def)
    have dm: "drop (unat (packOff OMAR_DIR (of_nat (length (fst e))) (fst (entry_data e)))) M = m"
      using next_m unfolding sh(2) ty .
    have "entry_mode e = mode" using Dir_file by (simp add: entry_mode_def)
    then have "extractLoop s outpath M made = extractLoop s outpath m (made @ extracted_of outpath e)"
      by (subst extractLoop.simps) (simp only: go ty mk dm)
    then show ?thesis using Dir_file by (simp add: M_def extract_entry_def)
  qed
qed

lemma extractLoop_archive:
  "list_all (extractable outpath) es \<Longrightarrow> outpath \<noteq> [] \<Longrightarrow>
    extractLoop s outpath (archive junk es @ rest) made = Done (Some 0, foldl (extract_entry s outpath) made es)"
proof (induction es arbitrary: made)
  case Nil
  show ?case by (subst extractLoop.simps) (simp add: archive_def end_mark_def magic_checks(3))
next
  case (Cons e es)
  have "archive junk (e # es) @ rest = record_of e @ archive junk es @ rest" by (simp add: archive_def)
  with Cons extractLoop_record [of outpath e s "archive junk es @ rest" made] show ?case by simp
qed

text \<open>
  C30 (extraction round trip). Take a directory of files and directories in which, hidden names (with a leading dot) left out, every file is
  non-empty and below 4 GiB less 255 bytes and every path fits the tool's 256-byte buffers, for input and output; let the input path's last component have no slash,
  let fuel cover the depth of the tree, and let all allocations succeed. Then the archiver succeeds, and extracting its archive into a directory reports success on every host, a file that cannot be opened being
  passed over. Where every file can be opened and written completely, it has then written every file that is not hidden, with
  its contents and mode, below that directory, and called \<^verbatim>\<open>mkdir\<close> for every subdirectory, in archive order.
\<close>

theorem omar_extract_roundtrip:
  assumes "packable s inpath (basename inpath) (Dir_tree mode sz ks)" "depth (Dir_tree mode sz ks) \<le> fuel"
    and "47 \<notin> set (basename inpath)" "\<forall>n. os_malloc s n" "outpath \<noteq> []"
    and "list_all (extractable outpath) (entries [] (Dir_tree mode sz ks))"
  shows "\<exists>pack. omarArchive fuel s junk inpath = Done (0, pack) \<and>
    (\<forall>s2 arc md. os_files s2 arc = Some (Reg_file md pack) \<longrightarrow> os_malloc s2 (length pack) \<longrightarrow>
       archive_extract s2 arc outpath = Done (Some 0, foldl (extract_entry s2 outpath) [] (entries [] (Dir_tree mode sz ks))) \<and>
       (writes_all s2 \<longrightarrow> archive_extract s2 arc outpath =
         Done (Some 0, concat (List.map (extracted_of outpath) (entries [] (Dir_tree mode sz ks))))))"
proof -
  let ?es = "entries [] (Dir_tree mode sz ks)"
  have run: "omarArchive fuel s junk inpath = Done (0, archive junk ?es)"
    using assms(1-4) by (intro omarArchive_spec) auto
  have "archive junk ?es \<noteq> []" by (simp add: archive_def end_mark_def hdrBytes_def del: entries.simps)
  then have go: "archive_extract s2 arc outpath = Done (Some 0, foldl (extract_entry s2 outpath) [] ?es)"
    if "os_files s2 arc = Some (Reg_file md (archive junk ?es))" "os_malloc s2 (length (archive junk ?es))" for s2 arc md
    using that extractLoop_archive [OF assms(6,5), of s2 junk "[]" "[]"]
    by (simp add: archive_extract_def del: entries.simps)
  moreover have "foldl (extract_entry s2 outpath) [] ?es = concat (List.map (extracted_of outpath) ?es)" if "writes_all s2" for s2
    using extract_entries_all [OF that assms(6), of "[]"] by (simp del: entries.simps)
  ultimately show ?thesis using run by (intro exI [of _ "archive junk ?es"]) (simp del: entries.simps)
qed

theorem omar_extract_roundtrip_witness:
  "\<exists>pack. omarArchive 2 demo_os 0 (bytes ''boot'') = Done (0, pack) \<and>
    archive_extract \<lparr>os_files = [bytes ''r.omar'' \<mapsto> Reg_file 0 pack], os_malloc = (\<lambda>_. True), os_open = (\<lambda>_ _ _. 3), os_write = (\<lambda>_ _ d. int (length d))\<rparr> (bytes ''r.omar'') (bytes ''out'') =
      Done (Some 0, [Wrote_file (bytes ''out/a'') 0x81A4 [7], Made_dir (bytes ''out'') 0x41ED, Made_dir (bytes ''out/d'') 0x41ED,
        Wrote_file (bytes ''out/d/x'') 0x81A4 [8, 9]])"
proof -
  obtain mode sz ks where t: "demo_tree = Dir_tree mode sz ks" by (simp add: demo_tree_def)
  have p: "packable demo_os (bytes ''boot'') (basename (bytes ''boot'')) demo_tree"
    by (simp add: demo_tree_def demo_os_def node_of_def bytes_def byte_def basename_def hidden_def)
  have d: "depth demo_tree \<le> 2" "47 \<notin> set (basename (bytes ''boot''))" by code_simp+
  have m: "\<forall>n. os_malloc demo_os n" by (simp add: demo_os_def)
  have o: "bytes ''out'' \<noteq> []" by (simp add: bytes_def)
  have e: "entries [] demo_tree = [(bytes ''a'', Reg_file 0x81A4 [7]), (bytes ''d'', Dir_file 0x41ED 4096 [(bytes ''x'', DT_REG)]),
      (bytes ''d/x'', Reg_file 0x81A4 [8, 9])]" by code_simp
  have x: "list_all (extractable (bytes ''out'')) (entries [] demo_tree)"
    unfolding e by (simp add: extractable_def bytes_def byte_def)
  have r: "concat (List.map (extracted_of (bytes ''out'')) (entries [] demo_tree)) =
      [Wrote_file (bytes ''out/a'') 0x81A4 [7], Made_dir (bytes ''out'') 0x41ED, Made_dir (bytes ''out/d'') 0x41ED,
        Wrote_file (bytes ''out/d/x'') 0x81A4 [8, 9]]"
    unfolding e by (simp add: extracted_of_def bytes_def byte_def)
  obtain pack where pack: "omarArchive 2 demo_os 0 (bytes ''boot'') = Done (0, pack)"
    "\<And>s2 arc md. os_files s2 arc = Some (Reg_file md pack) \<Longrightarrow> os_malloc s2 (length pack) \<Longrightarrow> writes_all s2 \<Longrightarrow>
       archive_extract s2 arc (bytes ''out'') = Done (Some 0, concat (List.map (extracted_of (bytes ''out'')) (entries [] demo_tree)))"
    using omar_extract_roundtrip [OF p [unfolded t] d(1) [unfolded t] d(2) m o x [unfolded t]] unfolding t by blast
  have "archive_extract \<lparr>os_files = [bytes ''r.omar'' \<mapsto> Reg_file 0 pack], os_malloc = (\<lambda>_. True), os_open = (\<lambda>_ _ _. 3), os_write = (\<lambda>_ _ d. int (length d))\<rparr> (bytes ''r.omar'') (bytes ''out'') =
      Done (Some 0, concat (List.map (extracted_of (bytes ''out'')) (entries [] demo_tree)))"
    by (rule pack(2)) (simp_all add: writes_all_def)
  with pack(1) r show ?thesis by auto
qed

end
