(* ===== verification/Acpi.thy ===== *)
theory Acpi
  imports BootPack
begin

text \<open>
  The firmware tables \<^verbatim>\<open>acpi/acpi.c\<close>: where the root table is, the search for a table by its
  signature, and the walk over the entries of the interrupt controller table (MADT). Memory
  is a map from addresses to bytes, and a field of a packed structure of
  \<^verbatim>\<open>include/acpi/tables.h\<close> is its bytes at its offset, least significant first. A loop that
  need not end has an \<open>option\<close> as its result: \<open>None\<close> when it does not end.
\<close>

section \<open>Runs\<close>

text \<open>What a piece of code that may loop for ever gives; \<open>thenR\<close> is sequencing.\<close>

type_synonym 'a run = "'a outcome option"

definition thenR :: "'a run \<Rightarrow> ('a \<Rightarrow> 'b run) \<Rightarrow> 'b run" where
  "thenR m f = (case m of None \<Rightarrow> None | Some r \<Rightarrow>
     (case r of Done x \<Rightarrow> f x | Panic s \<Rightarrow> Some (Panic s) | Fault \<Rightarrow> Some Fault))"

lemma thenR_simps [simp]:
  "thenR (Some (Done x)) f = f x" "thenR (Some (Panic s)) f = Some (Panic s)"
  "thenR (Some Fault) f = Some Fault" "thenR None f = None"
  by (simp_all add: thenR_def)

section \<open>Table fields\<close>

type_synonym mem = "uquad \<Rightarrow> uchar"

text \<open>A little-endian field of \<open>n\<close> bytes.\<close>

fun field :: "nat \<Rightarrow> mem \<Rightarrow> uquad \<Rightarrow> uquad" where
  "field 0 m a = 0"
| "field (Suc n) m a = ucast (m a) OR push_bit 8 (field n m (a + 1))"

definition bytesAt :: "nat \<Rightarrow> mem \<Rightarrow> uquad \<Rightarrow> uchar list" where
  "bytesAt n m a = map (\<lambda>i. m (a + of_nat i)) [0..<n]"

definition hdr_signature :: "mem \<Rightarrow> uquad \<Rightarrow> uchar list" where "hdr_signature m a = bytesAt 4 m a"
definition hdr_length :: "mem \<Rightarrow> uquad \<Rightarrow> ulong" where "hdr_length m a = ucast (field 4 m (a + 4))"
definition ACPI_HEADER_SIZE :: uquad where "ACPI_HEADER_SIZE = 36"

definition rsdp_revision :: "mem \<Rightarrow> uquad \<Rightarrow> uchar" where "rsdp_revision m a = m (a + 15)"
definition rsdtAddr :: "mem \<Rightarrow> uquad \<Rightarrow> ulong" where "rsdtAddr m a = ucast (field 4 m (a + 16))"
definition xsdtAddr :: "mem \<Rightarrow> uquad \<Rightarrow> uquad" where "xsdtAddr m a = field 8 m (a + 24)"

definition sdt_table :: "mem \<Rightarrow> uquad \<Rightarrow> usize \<Rightarrow> ulong" where
  "sdt_table m a i = ucast (field 4 m (a + ACPI_HEADER_SIZE + 4 * i))"

definition apic_type :: "mem \<Rightarrow> uquad \<Rightarrow> uchar" where "apic_type m a = m a"
definition apic_length :: "mem \<Rightarrow> uquad \<Rightarrow> uchar" where "apic_length m a = m (a + 1)"
definition MADT_SIZE :: uquad where "MADT_SIZE = 44"
definition madt_lapicAddr :: "mem \<Rightarrow> uquad \<Rightarrow> ulong" where "madt_lapicAddr m a = ucast (field 4 m (a + 36))"
definition local_apicId :: "mem \<Rightarrow> uquad \<Rightarrow> uchar" where "local_apicId m a = m (a + 3)"
definition ioapicAddr :: "mem \<Rightarrow> uquad \<Rightarrow> ulong" where "ioapicAddr m a = ucast (field 4 m (a + 4))"
definition hpet_gas_address :: "mem \<Rightarrow> uquad \<Rightarrow> uquad" where "hpet_gas_address m a = field 8 m (a + 44)"

definition APIC_TYPE_LOCAL_APIC :: ulong where "APIC_TYPE_LOCAL_APIC = 0"
definition APIC_TYPE_IO_APIC :: ulong where "APIC_TYPE_IO_APIC = 1"

section \<open>The root table\<close>

text \<open>The static variables; \<open>fw\<close> is the firmware's memory and \<open>hhdm\<close> the direct-map offset.\<close>

record acpi =
  fw :: mem
  hhdm :: ulong_ptr
  sdt :: uquad
  sdtLen :: usize

definition toVirt :: "acpi \<Rightarrow> uquad \<Rightarrow> uquad" where
  "toVirt s pa = pa + hhdm s"

definition acpiChecksum :: "mem \<Rightarrow> uquad \<Rightarrow> int" where
  "acpiChecksum m hdr =
     (let sum = fold (\<lambda>b acc. acc + b) (bytesAt (unat (hdr_length m hdr)) m hdr) 0
      in if sum = 0 then 0 else - 1)"

definition acpiInit :: "boot_responses \<Rightarrow> acpi \<Rightarrow> acpi outcome" where
  "acpiInit br s =
     andthen (keGetBootParams br (Some \<lparr>bp_fbParams = \<lparr>fb_io = 0, fb_width = 0, fb_height = 0, fb_pitch = 0, fb_bpp = 0\<rparr>,
         acpiRsdp = 0\<rparr>)) (\<lambda>(status, params).
       if status \<noteq> STATUS_SUCCESS then Panic ''acpi: failed to get boot params''
       else case params of None \<Rightarrow> Fault
       | Some bp \<Rightarrow>
           let rsdp = acpiRsdp bp;
               root = (if rsdp_revision (fw s) rsdp < 2 then toVirt s (ucast (rsdtAddr (fw s) rsdp))
                       else toVirt s (xsdtAddr (fw s) rsdp))
           in Done (s\<lparr>sdt := root, sdtLen := (ucast (hdr_length (fw s) root) - ACPI_HEADER_SIZE) div 4\<rparr>))"

function queryFrom :: "acpi \<Rightarrow> uchar list \<Rightarrow> nat \<Rightarrow> uquad option outcome" where
  "queryFrom s sig i =
     (if i < unat (sdtLen s)
      then let hdr = toVirt s (ucast (sdt_table (fw s) (sdt s) (of_nat i))) in
        andthen (rtlMemcmp (hdr_signature (fw s) hdr) sig 4) (\<lambda>r.
          if r = 0 then Done (Some hdr) else queryFrom s sig (i + 1))
      else Done None)"
  by pat_completeness auto
termination
  by (relation "measure (\<lambda>(s, sig, i). unat (sdtLen s) - i)") auto

declare queryFrom.simps [simp del]

definition acpiQueryTable :: "acpi \<Rightarrow> uchar list \<Rightarrow> uquad option outcome" where
  "acpiQueryTable s sig = queryFrom s sig 0"

section \<open>The interrupt controller table\<close>

text \<open>
  The loop of \<^verbatim>\<open>acpiReadMadt\<close>: \<open>retval\<close> keeps the last answer of the callback, which acts on
  the caller's state \<open>st\<close>.
\<close>

partial_function (option) madtLoop :: "mem \<Rightarrow> ulong \<Rightarrow> (uquad \<Rightarrow> 's \<Rightarrow> (int \<times> 's) run) \<Rightarrow> uquad \<Rightarrow> int \<Rightarrow>
    uquad \<Rightarrow> 's \<Rightarrow> (int \<times> 's) run" where
  "madtLoop m type cb stop retval cur st =
     (if cur < stop
      then case (if ucast (apic_type m cur) = type then cb cur st else Some (Done (retval, st))) of
          None \<Rightarrow> None
        | Some (Done (r, st1)) \<Rightarrow>
            if 0 \<le> r then Some (Done (r, st1))
            else madtLoop m type cb stop r (cur + ucast (apic_length m cur)) st1
        | Some (Panic s) \<Rightarrow> Some (Panic s)
        | Some Fault \<Rightarrow> Some Fault
      else Some (Done (- 1, st)))"

definition acpiReadMadt :: "acpi \<Rightarrow> ulong \<Rightarrow> (uquad \<Rightarrow> 's \<Rightarrow> (int \<times> 's) run) option \<Rightarrow> 's \<Rightarrow> (int \<times> 's) run" where
  "acpiReadMadt s type cb st =
     (case cb of None \<Rightarrow> Some (Done (- 1, st))
      | Some f \<Rightarrow>
          thenR (Some (acpiQueryTable s (bytes ''APIC''))) (\<lambda>madt.
            case madt of None \<Rightarrow> Some (Panic ''acpi: could not read MADT'')
            | Some a \<Rightarrow> madtLoop (fw s) type f (a + ucast (hdr_length (fw s) a)) (- 1) (a + MADT_SIZE) st))"

section \<open>Searching and walking\<close>

lemma memcmpFrom_eq:
  "length xs = n \<Longrightarrow> length ys = n \<Longrightarrow> \<exists>r. memcmpFrom n xs ys = Done r \<and> (r = 0 \<longleftrightarrow> xs = ys)"
proof (induction n arbitrary: xs ys)
  case 0
  then show ?case by simp
next
  case (Suc n)
  then obtain x xs' y ys' where c: "xs = x # xs'" "ys = y # ys'" by (metis length_Suc_conv)
  with Suc.prems have "\<exists>r. memcmpFrom n xs' ys' = Done r \<and> (r = 0 \<longleftrightarrow> xs' = ys')" by (intro Suc.IH) simp_all
  then show ?case by (auto simp: c dest: unsigned_word_eqI)
qed

lemma signature_eq:
  assumes "length sig = 4"
  shows "\<exists>r. rtlMemcmp (hdr_signature m a) sig 4 = Done r \<and> (r = 0 \<longleftrightarrow> hdr_signature m a = sig)"
  using memcmpFrom_eq [of "hdr_signature m a" 4 sig] assms
  by (simp add: rtlMemcmp_def hdr_signature_def bytesAt_def)

text \<open>The tables the root table lists, and the structurally recursive walk over a list of entries.\<close>

definition tables :: "acpi \<Rightarrow> uquad list" where
  "tables s = map (\<lambda>i. toVirt s (ucast (sdt_table (fw s) (sdt s) (of_nat i)))) [0..<unat (sdtLen s)]"

lemma queryFrom_find:
  assumes "length sig = 4"
  shows "i \<le> unat (sdtLen s) \<Longrightarrow> queryFrom s sig i = Done (find (\<lambda>a. hdr_signature (fw s) a = sig) (drop i (tables s)))"
proof (induction "unat (sdtLen s) - i" arbitrary: i)
  case 0
  then show ?case by (subst queryFrom.simps) (simp add: tables_def)
next
  case (Suc d)
  then have i: "i < unat (sdtLen s)" by simp
  let ?a = "toVirt s (ucast (sdt_table (fw s) (sdt s) (of_nat i)))"
  have d: "drop i (tables s) = ?a # drop (Suc i) (tables s)"
    using i using Cons_nth_drop_Suc [of i "tables s"] by (simp add: tables_def)
  obtain r where "rtlMemcmp (hdr_signature (fw s) ?a) sig 4 = Done r" "r = 0 \<longleftrightarrow> hdr_signature (fw s) ?a = sig"
    using signature_eq [OF assms] by blast
  then show ?case using Suc i by (subst queryFrom.simps) (simp add: Let_def d)
qed

text \<open>
  Table lookup. \<^verbatim>\<open>acpiQueryTable\<close> returns the first table listed by the root table whose
  four signature bytes are the given ones, and NULL when there is none.
\<close>

theorem acpiQueryTable_first:
  assumes "length sig = 4"
  shows "acpiQueryTable s sig = Done (find (\<lambda>a. hdr_signature (fw s) a = sig) (tables s))"
  using queryFrom_find [OF assms, of 0 s] by (simp add: acpiQueryTable_def)

text \<open>A firmware with two tables: \<^verbatim>\<open>FACP\<close> and an interrupt table with a local and an I/O APIC.\<close>

definition place :: "uquad \<Rightarrow> uchar list \<Rightarrow> mem \<Rightarrow> mem" where
  "place base bs m = (\<lambda>a. if unat (a - base) < length bs then bs ! unat (a - base) else m a)"

definition demo_acpi :: acpi where
  "demo_acpi = \<lparr>fw = place 0x124 [0, 2, 0, 0, 0, 3, 0, 0] (place 0x200 (bytes ''FACP'')
     (place 0x300 (bytes ''APIC'' @ [64, 0, 0, 0]) (place 0x32C [0, 8, 0, 7, 1, 0, 0, 0, 1, 12, 0, 0, 0, 0, 0xC0, 0xFE] (\<lambda>_. 0)))),
     hhdm = 0, sdt = 0x100, sdtLen = 2\<rparr>"

theorem acpiQueryTable_first_witness:
  "acpiQueryTable demo_acpi (bytes ''APIC'') = Done (Some 0x300)"
proof -
  have "length (bytes ''APIC'') = 4" by code_simp
  moreover have "find (\<lambda>a. hdr_signature (fw demo_acpi) a = bytes ''APIC'') (tables demo_acpi) = Some 0x300" by code_simp
  ultimately show ?thesis using acpiQueryTable_first [of "bytes ''APIC''" demo_acpi] by simp
qed

fun madt_entries :: "mem \<Rightarrow> uquad \<Rightarrow> uquad \<Rightarrow> uquad list \<Rightarrow> bool" where
  "madt_entries m stop cur [] \<longleftrightarrow> \<not> cur < stop"
| "madt_entries m stop cur (e # es) \<longleftrightarrow> e = cur \<and> cur < stop \<and> madt_entries m stop (cur + ucast (apic_length m cur)) es"

fun visit :: "mem \<Rightarrow> ulong \<Rightarrow> (uquad \<Rightarrow> 's \<Rightarrow> (int \<times> 's) run) \<Rightarrow> uquad list \<Rightarrow> 's \<Rightarrow> (int \<times> 's) run" where
  "visit m type cb [] st = Some (Done (- 1, st))"
| "visit m type cb (e # es) st =
     (if ucast (apic_type m e) = type
      then thenR (cb e st) (\<lambda>(r, st1). if 0 \<le> r then Some (Done (r, st1)) else visit m type cb es st1)
      else visit m type cb es st)"

lemma madtLoop_visit:
  "madt_entries m stop cur es \<Longrightarrow> retval < 0 \<Longrightarrow> madtLoop m type cb stop retval cur st = visit m type cb es st"
proof (induction es arbitrary: cur retval st)
  case Nil
  then show ?case by (subst madtLoop.simps) simp
next
  case (Cons e es)
  then show ?case
    by (subst madtLoop.simps) (auto simp: thenR_def split: option.splits outcome.splits)
qed

lemma madtLoop_stuck:
  "madtLoop m type cb stop retval cur st = Some y \<Longrightarrow>
    \<not> (cur < stop \<and> retval < 0 \<and> apic_length m cur = 0 \<and> ucast (apic_type m cur) \<noteq> type)"
proof (erule madtLoop.raw_induct [rotated])
  fix f :: "mem \<Rightarrow> ulong \<Rightarrow> (uquad \<Rightarrow> 'b \<Rightarrow> (int \<times> 'b) run) \<Rightarrow> uquad \<Rightarrow> int \<Rightarrow> uquad \<Rightarrow> 'b \<Rightarrow> (int \<times> 'b) run"
    and m type cb stop retval cur st y
  assume IH: "\<And>m type cb stop retval cur st y. f m type cb stop retval cur st = Some y \<Longrightarrow>
      \<not> (cur < stop \<and> retval < 0 \<and> apic_length m cur = 0 \<and> ucast (apic_type m cur) \<noteq> type)"
    and body: "(if cur < stop
      then case (if ucast (apic_type m cur) = type then cb cur st else Some (Done (retval, st))) of
          None \<Rightarrow> None
        | Some (Done (r, st1)) \<Rightarrow>
            if 0 \<le> r then Some (Done (r, st1)) else f m type cb stop r (cur + ucast (apic_length m cur)) st1
        | Some (Panic s) \<Rightarrow> Some (Panic s)
        | Some Fault \<Rightarrow> Some Fault
      else Some (Done (- 1, st))) = Some y"
  show "\<not> (cur < stop \<and> retval < 0 \<and> apic_length m cur = 0 \<and> ucast (apic_type m cur) \<noteq> type)"
  proof
    assume s: "cur < stop \<and> retval < 0 \<and> apic_length m cur = 0 \<and> ucast (apic_type m cur) \<noteq> type"
    with body have "f m type cb stop retval cur st = Some y" by simp
    with IH s show False by blast
  qed
qed

text \<open>
  Walking the interrupt controller table. On a table whose entries follow each other up
  to its end, \<^verbatim>\<open>acpiReadMadt\<close> calls back on the entries of the requested type in order, until
  an answer is not negative. An entry of another type whose length field is zero makes the
  walk loop for ever.
\<close>

theorem acpiReadMadt_walk:
  assumes "acpiQueryTable s (bytes ''APIC'') = Done (Some a)"
    and "stop = a + ucast (hdr_length (fw s) a)"
  shows "(madt_entries (fw s) stop (a + MADT_SIZE) es \<longrightarrow>
      acpiReadMadt s type (Some cb) st = visit (fw s) type cb es st) \<and>
    (a + MADT_SIZE < stop \<and> apic_length (fw s) (a + MADT_SIZE) = 0 \<and> ucast (apic_type (fw s) (a + MADT_SIZE)) \<noteq> type \<longrightarrow>
      acpiReadMadt s type (Some cb) st = None)"
proof -
  have run: "acpiReadMadt s type (Some cb) st = madtLoop (fw s) type cb stop (- 1) (a + MADT_SIZE) st"
    using assms by (simp add: acpiReadMadt_def)
  show ?thesis
    unfolding run
    using madtLoop_visit [of "fw s" stop "a + MADT_SIZE" es "- 1" type cb st]
      madtLoop_stuck [of "fw s" type cb stop "- 1" "a + MADT_SIZE" st]
    by fastforce
qed

lemma demo_table:
  "acpiQueryTable demo_acpi (bytes ''APIC'') = Done (Some 0x300)"
  "(0x340 :: uquad) = 0x300 + ucast (hdr_length (fw demo_acpi) 0x300)"
  "madt_entries (fw demo_acpi) 0x340 (0x300 + MADT_SIZE) [0x32C, 0x334]"
  by code_simp+

lemma demo_types:
  "ucast (apic_type (fw demo_acpi) 0x32C) \<noteq> APIC_TYPE_IO_APIC" "ucast (apic_type (fw demo_acpi) 0x334) = APIC_TYPE_IO_APIC"
  by code_simp+

lemma demo_madt:
  "acpiReadMadt demo_acpi ty (Some cb) st = visit (fw demo_acpi) ty cb [0x32C, 0x334] st"
  using madtLoop_visit [OF demo_table(3), of "- 1" ty cb st] demo_table(2)
  by (simp add: acpiReadMadt_def demo_table(1))

theorem acpiReadMadt_walk_witness:
  "acpiReadMadt demo_acpi APIC_TYPE_IO_APIC (Some (\<lambda>e n. Some (Done (- 1, n + e)))) 0 = Some (Done (- 1, 0x334))"
  unfolding acpiReadMadt_walk [OF demo_table(1,2), THEN conjunct1, THEN mp, OF demo_table(3)] by (simp add: demo_types)

end
