(* ===== verification/ObjectStore.thy ===== *)
theory ObjectStore
  imports Tailq RtlString
begin

text \<open>
  The object store, \<^verbatim>\<open>ntos/ob/obStore.c\<close>, and the per-process object table,
  \<^verbatim>\<open>ntos/ob/obTable.c\<close>. Objects are named by their addresses, as are directories; an
  address is that of a queue element or of a queue head of the tail-queue theory. What
  \<^verbatim>\<open>exAllocatePool\<close> answers is an argument of each operation that calls it (\<open>None\<close> is NULL);
  the properties assume that it does not answer an address in use. The name buffer of the
  path parser is uninitialised memory, the argument \<open>junk\<close>. A directory scan takes at most
  \<open>fuel\<close> steps, and the properties say how many are enough.
\<close>

section \<open>State\<close>

datatype NT_OBJECT_TYPE = NT_OB_DIRECTORY | NT_OB_TIMER | NT_OB_MAPPER | NT_OB_MAX

definition NT_OBTAB_ENTRIES :: nat where "NT_OBTAB_ENTRIES = 32"
definition NT_OBNAME_LEN :: nat where "NT_OBNAME_LEN = 32"

record NT_OBJECT =
  ob_type :: NT_OBJECT_TYPE
  ob_name :: "uchar list"
  ob_ref :: ushort
  ob_data :: "nat option"

record NT_OBJECT_CREATE =
  cr_parent :: "uchar list option"
  cr_name :: "uchar list option"
  cr_type :: NT_OBJECT_TYPE

record ob_store =
  objects :: "elem \<Rightarrow> NT_OBJECT option"
  ob_links :: links
  numEnt :: "head \<Rightarrow> usize"
  rootObject :: "elem option"

definition modObj :: "elem \<Rightarrow> (NT_OBJECT \<Rightarrow> NT_OBJECT) \<Rightarrow> ob_store \<Rightarrow> ob_store outcome" where
  "modObj a f st = (case objects st a of None \<Rightarrow> Fault
     | Some ob \<Rightarrow> Done (st\<lparr>objects := (objects st)(a \<mapsto> f ob)\<rparr>))"

definition getObj :: "elem \<Rightarrow> ob_store \<Rightarrow> NT_OBJECT outcome" where
  "getObj a st = (case objects st a of None \<Rightarrow> Fault | Some ob \<Rightarrow> Done ob)"

section \<open>Directories\<close>

definition obDirectoryAdd :: "elem option \<Rightarrow> elem option \<Rightarrow> ob_store \<Rightarrow> (ntstatus \<times> ob_store) outcome" where
  "obDirectoryAdd parent child st =
     (case (parent, child) of
        (Some p, Some c) \<Rightarrow>
          andthen (getObj p st) (\<lambda>ob.
            if ob_type ob \<noteq> NT_OB_DIRECTORY then Done (STATUS_NOT_DIRECTORY, st)
            else case ob_data ob of None \<Rightarrow> Done (STATUS_OBJECT_NOTFOUND, st)
                 | Some dir \<Rightarrow> Done (STATUS_SUCCESS,
                     st\<lparr>ob_links := TAILQ_INSERT_TAIL dir c (ob_links st),
                        numEnt := (numEnt st)(dir := numEnt st dir + 1)\<rparr>))
      | _ \<Rightarrow> Done (STATUS_INVALID_HANDLE, st))"

fun scanDir :: "nat \<Rightarrow> ob_store \<Rightarrow> elem option \<Rightarrow> uchar list \<Rightarrow> elem option outcome" where
  "scanDir fuel st None name = Done None"
| "scanDir 0 st (Some cur) name = Fault"
| "scanDir (Suc fuel) st (Some cur) name =
     andthen (getObj cur st) (\<lambda>ob. andthen (rtlStrcmp (ob_name ob) name) (\<lambda>r.
       if r = 0 then Done (Some cur) else scanDir fuel st (TAILQ_NEXT (ob_links st) cur) name))"

definition obDirectoryLookup :: "nat \<Rightarrow> elem option \<Rightarrow> uchar list option \<Rightarrow> ob_store \<Rightarrow>
    (ntstatus \<times> elem option) outcome" where
  "obDirectoryLookup fuel parent name st =
     (case (parent, name) of
        (Some p, Some nm) \<Rightarrow>
          andthen (getObj p st) (\<lambda>ob.
            if ob_type ob \<noteq> NT_OB_DIRECTORY then Done (STATUS_BAD_OBJ_TYPE, None)
            else case ob_data ob of None \<Rightarrow> Done (STATUS_OBJECT_NOTFOUND, None)
                 | Some dir \<Rightarrow>
                     andthen (scanDir fuel st (TAILQ_FIRST (ob_links st) dir) nm) (\<lambda>r.
                       case r of None \<Rightarrow> Done (STATUS_OBJECT_NOTFOUND, None)
                       | Some cur \<Rightarrow> Done (STATUS_SUCCESS, Some cur)))
      | _ \<Rightarrow> Done (STATUS_INVALID_HANDLE, None))"

section \<open>Paths\<close>

fun skipSlashes :: "uchar list \<Rightarrow> uchar list outcome" where
  "skipSlashes [] = Fault"
| "skipSlashes (c # tail) = (if c = 47 then skipSlashes tail else Done (c # tail))"

text \<open>One component into the buffer; \<open>None\<close> is the early return on a long component.\<close>

fun takeComponent :: "uchar list \<Rightarrow> uchar list \<Rightarrow> nat \<Rightarrow> (uchar list \<times> uchar list \<times> nat) option outcome" where
  "takeComponent [] buf i = Fault"
| "takeComponent (c # tail) buf i =
     (if c \<noteq> 47 \<and> c \<noteq> 0
      then andthen (put buf i c) (\<lambda>buf'.
             if NT_OBNAME_LEN - 1 \<le> i + 1 then Done None else takeComponent tail buf' (i + 1))
      else Done (Some (c # tail, buf, i)))"

lemma takeComponent_len:
  "takeComponent tail buf i = Done (Some (tail', buf', j)) \<Longrightarrow>
    length tail' \<le> length tail \<and> (hd tail \<noteq> 47 \<longrightarrow> hd tail \<noteq> 0 \<longrightarrow> length tail' < length tail) \<and>
    (hd tail = 47 \<longrightarrow> tail' = tail)"
  by (induction tail buf i rule: takeComponent.induct) (auto split: if_splits)

lemma skipSlashes_len:
  "skipSlashes tail = Done tail' \<Longrightarrow> length tail' \<le> length tail \<and> (hd tail = 47 \<longrightarrow> length tail' < length tail)"
  by (induction tail rule: skipSlashes.induct) (auto split: if_splits)

function pathLoop :: "nat \<Rightarrow> ob_store \<Rightarrow> elem option \<Rightarrow> uchar list \<Rightarrow> uchar list \<Rightarrow>
    (ntstatus \<times> elem option) outcome" where
  "pathLoop fuel st cur tail buf =
     (if tail = [] then Fault
      else if hd tail = 0 then Done (STATUS_SUCCESS, cur)
      else andthen (takeComponent tail buf 0) (\<lambda>r.
        case r of None \<Rightarrow> Done (STATUS_BAD_OBJNAME, None)
        | Some (tail1, buf1, i) \<Rightarrow>
            andthen (put buf1 i 0) (\<lambda>buf2.
            andthen (obDirectoryLookup fuel cur (Some buf2) st) (\<lambda>(status, found).
              if status \<noteq> STATUS_SUCCESS then Done (status, None)
              else andthen (rtlMemset buf2 0 (of_nat NT_OBNAME_LEN)) (\<lambda>buf3.
                   andthen (skipSlashes tail1) (\<lambda>tail2.
                     pathLoop fuel st found tail2 buf3))))))"
  by pat_completeness auto
termination
  by (relation "measure (\<lambda>(fuel, st, cur, tail, buf). length tail)")
     (auto dest!: takeComponent_len skipSlashes_len)

declare pathLoop.simps [simp del]

definition obLookupObject :: "nat \<Rightarrow> uchar list \<Rightarrow> uchar list option \<Rightarrow> ob_store \<Rightarrow>
    (ntstatus \<times> elem option) outcome" where
  "obLookupObject fuel junk path st =
     (case path of None \<Rightarrow> Done (STATUS_INVALID_HANDLE, None)
      | Some p \<Rightarrow>
          andthen (skipSlashes p) (\<lambda>tail.
            if hd tail = 0 then Done (STATUS_SUCCESS, rootObject st)
            else pathLoop fuel st (rootObject st) tail junk))"

section \<open>Creation and release\<close>

fun type_num :: "NT_OBJECT_TYPE \<Rightarrow> nat" where
  "type_num NT_OB_DIRECTORY = 0" | "type_num NT_OB_TIMER = 1"
| "type_num NT_OB_MAPPER = 2" | "type_num NT_OB_MAX = 3"

text \<open>The parent object, or the status with which the creation is refused.\<close>

definition findParent :: "nat \<Rightarrow> uchar list \<Rightarrow> uchar list option \<Rightarrow> ob_store \<Rightarrow>
    (ntstatus \<times> elem option) outcome" where
  "findParent fuel junk path st =
     (case path of None \<Rightarrow> Done (STATUS_SUCCESS, None)
      | Some p \<Rightarrow>
          andthen (obLookupObject fuel junk (Some p) st) (\<lambda>(status, parent).
            if status \<noteq> STATUS_SUCCESS then Done (STATUS_BAD_OBJNAME, None)
            else case parent of None \<Rightarrow> Fault
                 | Some q \<Rightarrow> andthen (getObj q st) (\<lambda>ob.
                     if ob_type ob \<noteq> NT_OB_DIRECTORY then Done (STATUS_NOT_DIRECTORY, None)
                     else Done (STATUS_SUCCESS, Some q))))"

definition obCreateObject :: "nat \<Rightarrow> uchar list \<Rightarrow> elem option \<Rightarrow> NT_OBJECT_CREATE option \<Rightarrow> ob_store \<Rightarrow>
    (ntstatus \<times> elem option \<times> ob_store) outcome" where
  "obCreateObject fuel junk pool params st =
     (case params of None \<Rightarrow> Done (STATUS_INVALID_HANDLE, None, st)
      | Some ps \<Rightarrow>
          if type_num NT_OB_MAX \<le> type_num (cr_type ps) then Done (STATUS_BAD_OBJ_TYPE, None, st)
          else case cr_name ps of None \<Rightarrow> Done (STATUS_BAD_OBJNAME, None, st)
          | Some name \<Rightarrow>
            andthen (findParent fuel junk (cr_parent ps) st) (\<lambda>(status, parent).
              if status \<noteq> STATUS_SUCCESS then Done (status, None, st)
              else andthen (rtlStrlen (Some name)) (\<lambda>nameLen.
                if nameLen = 0 \<or> of_nat NT_OBNAME_LEN - 1 \<le> nameLen
                then Done (STATUS_BAD_OBJNAME, None, st)
                else case pool of None \<Rightarrow> Done (STATUS_NO_MEMORY, None, st)
                | Some object \<Rightarrow>
                  andthen (rtlMemcpy (replicate NT_OBNAME_LEN 0) name nameLen) (\<lambda>nm.
                    let st1 = st\<lparr>objects := (objects st)(object \<mapsto>
                          \<lparr>ob_type = cr_type ps, ob_name = nm, ob_ref = 1, ob_data = None\<rparr>)\<rparr>
                    in case parent of None \<Rightarrow> Done (STATUS_SUCCESS, Some object, st1)
                       | Some q \<Rightarrow>
                           andthen (modObj object (\<lambda>ob. ob\<lparr>ob_ref := ob_ref ob + 1\<rparr>) st1) (\<lambda>st2.
                           andthen (obDirectoryAdd (Some q) (Some object) st2) (\<lambda>(_, st3).
                             Done (STATUS_SUCCESS, Some object, st3)))))))"

definition obFreeObject :: "elem option \<Rightarrow> ob_store \<Rightarrow> (ntstatus \<times> ob_store) outcome" where
  "obFreeObject object st =
     (case object of None \<Rightarrow> Done (STATUS_INVALID_HANDLE, st)
      | Some a \<Rightarrow>
          andthen (modObj a (\<lambda>ob. ob\<lparr>ob_ref := ob_ref ob - 1\<rparr>) st) (\<lambda>st1.
          andthen (getObj a st1) (\<lambda>ob.
            if ob_ref ob = 0 then Done (STATUS_SUCCESS, st1\<lparr>objects := (objects st1)(a := None)\<rparr>)
            else Done (STATUS_SUCCESS, st1))))"

definition initDir :: "head \<Rightarrow> ob_store \<Rightarrow> ob_store" where
  "initDir dir st = st\<lparr>ob_links := TAILQ_INIT dir (ob_links st), numEnt := (numEnt st)(dir := 0)\<rparr>"

definition obAllocateDir :: "head option \<Rightarrow> elem option \<Rightarrow> ob_store \<Rightarrow> (ntstatus \<times> ob_store) outcome" where
  "obAllocateDir pool dirObj st =
     (case dirObj of None \<Rightarrow> Done (STATUS_INVALID_HANDLE, st)
      | Some a \<Rightarrow>
          andthen (getObj a st) (\<lambda>ob.
            if ob_type ob \<noteq> NT_OB_DIRECTORY then Done (STATUS_NOT_DIRECTORY, st)
            else case pool of None \<Rightarrow> Done (STATUS_NO_MEMORY, st)
                 | Some dir \<Rightarrow>
                     andthen (modObj a (\<lambda>ob. ob\<lparr>ob_data := Some dir\<rparr>) (initDir dir st))
                       (\<lambda>st1. Done (STATUS_SUCCESS, st1))))"

definition kiObjStoreInit :: "elem option \<Rightarrow> head option \<Rightarrow> ob_store \<Rightarrow> ob_store outcome" where
  "kiObjStoreInit pool1 pool2 st =
     andthen (obCreateObject 0 [] pool1
         (Some \<lparr>cr_parent = None, cr_name = Some (bytes ''/'' @ [0]), cr_type = NT_OB_DIRECTORY\<rparr>) st)
       (\<lambda>(status, result, st1).
         if status \<noteq> STATUS_SUCCESS then Panic ''kiObjStoreInit: failed to init object broker''
         else case result of None \<Rightarrow> Fault
         | Some root \<Rightarrow>
             andthen (modObj root (\<lambda>ob. ob\<lparr>ob_data := pool2\<rparr>) (st1\<lparr>rootObject := Some root\<rparr>)) (\<lambda>st2.
               case pool2 of None \<Rightarrow> Panic ''kiObjStoreInit: failed to init root object''
               | Some dir \<Rightarrow> Done (initDir dir st2)))"

section \<open>Object tables\<close>

record NT_OBTAB =
  tab_ob :: "elem option list"
  openCount :: ushort

definition obInitTable :: "NT_OBTAB option \<Rightarrow> ntstatus \<times> NT_OBTAB option" where
  "obInitTable table =
     (case table of None \<Rightarrow> (STATUS_INVALID_HANDLE, None)
      | Some t \<Rightarrow> (STATUS_SUCCESS, Some (t\<lparr>openCount := 0, tab_ob := replicate NT_OBTAB_ENTRIES None\<rparr>)))"

function tableSlot :: "nat \<Rightarrow> elem option list \<Rightarrow> int outcome" where
  "tableSlot i ob =
     (if i < NT_OBTAB_ENTRIES
      then if i < length ob then if ob ! i \<noteq> None then tableSlot (Suc i) ob else Done (int i) else Fault
      else Done (- 1))"
  by pat_completeness auto
termination
  by (relation "measure (\<lambda>(i, ob). NT_OBTAB_ENTRIES - i)") auto

declare tableSlot.simps [simp del]

text \<open>The handle is the third component; the object's count is in the store.\<close>

definition obTableAdd :: "NT_OBTAB option \<Rightarrow> elem option \<Rightarrow> ob_store \<Rightarrow>
    (ntstatus \<times> NT_OBTAB option \<times> int option \<times> ob_store) outcome" where
  "obTableAdd table ob st =
     (case (table, ob) of
        (Some t, Some a) \<Rightarrow>
          andthen (tableSlot 0 (tab_ob t)) (\<lambda>handle.
            if handle < 0 then Done (STATUS_NO_SPACE, table, None, st)
            else andthen (modObj a (\<lambda>ob. ob\<lparr>ob_ref := ob_ref ob + 1\<rparr>) st) (\<lambda>st1.
              Done (STATUS_SUCCESS, Some (t\<lparr>tab_ob := (tab_ob t)[nat handle := Some a]\<rparr>), Some handle, st1)))
      | _ \<Rightarrow> Done (STATUS_INVALID_HANDLE, table, None, st))"

section \<open>What the store represents\<close>

text \<open>
  \<open>Q d\<close> lists the children of the directory structure at \<open>d\<close>. In a well-formed store every
  directory with a structure represents its list, no two share a structure or a child, every
  child is a live object and every name fits its array with its terminating zero.
\<close>

definition dir_of :: "ob_store \<Rightarrow> elem \<Rightarrow> head option" where
  "dir_of st a = (case objects st a of None \<Rightarrow> None
     | Some ob \<Rightarrow> if ob_type ob = NT_OB_DIRECTORY then ob_data ob else None)"

definition name_of :: "ob_store \<Rightarrow> elem \<Rightarrow> uchar list" where
  "name_of st a = (case objects st a of None \<Rightarrow> [] | Some ob \<Rightarrow> cstr (ob_name ob))"

definition wf_store :: "ob_store \<Rightarrow> (head \<Rightarrow> elem list) \<Rightarrow> bool" where
  "wf_store st Q \<longleftrightarrow>
     (\<forall>a d. dir_of st a = Some d \<longrightarrow> queue_rep (ob_links st) d (Q d)) \<and>
     (\<forall>a b d. dir_of st a = Some d \<longrightarrow> dir_of st b = Some d \<longrightarrow> a = b) \<and>
     (\<forall>a d x. dir_of st a = Some d \<longrightarrow> x \<in> set (Q d) \<longrightarrow> objects st x \<noteq> None) \<and>
     (\<forall>a b c d. dir_of st a = Some c \<longrightarrow> dir_of st b = Some d \<longrightarrow> c \<noteq> d \<longrightarrow> set (Q c) \<inter> set (Q d) = {}) \<and>
     (\<forall>a ob. objects st a = Some ob \<longrightarrow> terminated (ob_name ob)) \<and>
     (\<forall>r. rootObject st = Some r \<longrightarrow> objects st r \<noteq> None)"

lemma wf_storeD:
  assumes wf: "wf_store st Q"
  shows "dir_of st a = Some d \<Longrightarrow> queue_rep (ob_links st) d (Q d)"
    "dir_of st a = Some d \<Longrightarrow> dir_of st b = Some d \<Longrightarrow> a = b"
    "dir_of st a = Some d \<Longrightarrow> x \<in> set (Q d) \<Longrightarrow> objects st x \<noteq> None"
    "dir_of st a = Some c \<Longrightarrow> dir_of st b = Some d \<Longrightarrow> c \<noteq> d \<Longrightarrow> set (Q c) \<inter> set (Q d) = {}"
    "objects st a = Some ob \<Longrightarrow> terminated (ob_name ob)"
    "rootObject st = Some r \<Longrightarrow> objects st r \<noteq> None"
proof -
  note w = wf [unfolded wf_store_def]
  show "dir_of st a = Some d \<Longrightarrow> queue_rep (ob_links st) d (Q d)"
    using w [THEN conjunct1] by blast
  show "dir_of st a = Some d \<Longrightarrow> dir_of st b = Some d \<Longrightarrow> a = b"
    using w [THEN conjunct2, THEN conjunct1] by blast
  show "dir_of st a = Some d \<Longrightarrow> x \<in> set (Q d) \<Longrightarrow> objects st x \<noteq> None"
    using w [THEN conjunct2, THEN conjunct2, THEN conjunct1] by blast
  show "dir_of st a = Some c \<Longrightarrow> dir_of st b = Some d \<Longrightarrow> c \<noteq> d \<Longrightarrow> set (Q c) \<inter> set (Q d) = {}"
    using w [THEN conjunct2, THEN conjunct2, THEN conjunct2, THEN conjunct1] by blast
  show "objects st a = Some ob \<Longrightarrow> terminated (ob_name ob)"
    using w [THEN conjunct2, THEN conjunct2, THEN conjunct2, THEN conjunct2, THEN conjunct1] by blast
  show "rootObject st = Some r \<Longrightarrow> objects st r \<noteq> None"
    using w [THEN conjunct2, THEN conjunct2, THEN conjunct2, THEN conjunct2, THEN conjunct2] by blast
qed

text \<open>The reference: lookup of one name, of a list of names, and the names of a path.\<close>

definition dirLookup :: "ob_store \<Rightarrow> (head \<Rightarrow> elem list) \<Rightarrow> elem \<Rightarrow> uchar list \<Rightarrow> ntstatus \<times> elem option" where
  "dirLookup st Q p nm =
     (case objects st p of None \<Rightarrow> (STATUS_INVALID_HANDLE, None)
      | Some ob \<Rightarrow>
          if ob_type ob \<noteq> NT_OB_DIRECTORY then (STATUS_BAD_OBJ_TYPE, None)
          else case ob_data ob of None \<Rightarrow> (STATUS_OBJECT_NOTFOUND, None)
               | Some d \<Rightarrow> case List.find (\<lambda>x. name_of st x = nm) (Q d) of
                     None \<Rightarrow> (STATUS_OBJECT_NOTFOUND, None) | Some c \<Rightarrow> (STATUS_SUCCESS, Some c))"

fun resolve :: "ob_store \<Rightarrow> (head \<Rightarrow> elem list) \<Rightarrow> elem \<Rightarrow> uchar list list \<Rightarrow> ntstatus \<times> elem option" where
  "resolve st Q p [] = (STATUS_SUCCESS, Some p)"
| "resolve st Q p (nm # nms) =
     (if NT_OBNAME_LEN - 1 \<le> length nm then (STATUS_BAD_OBJNAME, None)
      else case dirLookup st Q p nm of (s, None) \<Rightarrow> (s, None) | (s, Some c) \<Rightarrow> resolve st Q c nms)"

lemma dropWhile_less: "xs \<noteq> [] \<Longrightarrow> P (hd xs) \<Longrightarrow> length (dropWhile P xs) < length xs"
  by (cases xs) (auto simp: le_imp_less_Suc length_dropWhile_le)

function components :: "uchar list \<Rightarrow> uchar list list" where
  "components t =
     (let t1 = dropWhile (\<lambda>c. c = 47) t in
      if t1 = [] then []
      else takeWhile (\<lambda>c. c \<noteq> 47) t1 # components (dropWhile (\<lambda>c. c \<noteq> 47) t1))"
  by pat_completeness auto

termination
proof (relation "measure length")
  fix t t1 :: "uchar list"
  assume t1: "t1 = dropWhile (\<lambda>c. c = 47) t" "t1 \<noteq> []"
  then have "hd t1 \<noteq> 47" using hd_dropWhile [of "\<lambda>c. c = 47" t] by simp
  with t1(2) have "length (dropWhile (\<lambda>c. c \<noteq> 47) t1) < length t1" by (rule dropWhile_less)
  also have "\<dots> \<le> length t" using t1(1) by (simp add: length_dropWhile_le)
  finally show "(dropWhile (\<lambda>c. c \<noteq> 47) t1, t) \<in> measure length" by simp
qed simp

declare components.simps [simp del]

section \<open>Lookup against the reference\<close>

lemma scanDir_seg:
  assumes "seg (ob_links st) c xs d" "readCell (ob_links st) d = None" "length xs \<le> fuel"
    and "\<And>x. x \<in> set xs \<Longrightarrow> objects st x \<noteq> None"
    and "\<And>a ob. objects st a = Some ob \<Longrightarrow> terminated (ob_name ob)" "terminated name"
  shows "scanDir fuel st (readCell (ob_links st) c) name =
    Done (List.find (\<lambda>x. name_of st x = cstr name) xs)"
  using assms(1-4)
proof (induction xs arbitrary: c fuel)
  case (Cons x xs)
  then obtain n where n: "fuel = Suc n" "length xs \<le> n" by (cases fuel) auto
  from Cons.prems(4) [of x] obtain ob where ob: "objects st x = Some ob" by auto
  obtain r where r: "rtlStrcmp (ob_name ob) name = Done r" "r = 0 \<longleftrightarrow> cstr (ob_name ob) = cstr name"
    using rtlStrcmp_zero [OF assms(5) [OF ob] assms(6)] by blast
  have "scanDir n st (readCell (ob_links st) (Next_of x)) name =
      Done (List.find (\<lambda>x. name_of st x = cstr name) xs)"
    using Cons n by (intro Cons.IH) auto
  with Cons.prems(1) n ob r show ?case
    by (simp add: getObj_def TAILQ_NEXT_def as_cells name_of_def)
qed simp

lemma obDirectoryLookup_spec:
  assumes wf: "wf_store st Q" and p: "objects st p \<noteq> None" and fuel: "\<And>d. length (Q d) \<le> fuel"
    and nm: "terminated nm"
  shows "obDirectoryLookup fuel (Some p) (Some nm) st = Done (dirLookup st Q p (cstr nm))"
proof -
  from p obtain ob where ob: "objects st p = Some ob" by auto
  show ?thesis
  proof (cases "dir_of st p")
    case None
    with ob show ?thesis
      by (auto simp: obDirectoryLookup_def getObj_def dirLookup_def dir_of_def split: if_splits)
  next
    case (Some d)
    with ob have d: "ob_type ob = NT_OB_DIRECTORY" "ob_data ob = Some d"
      by (auto simp: dir_of_def split: if_splits)
    from wf_storeD(1) [OF wf Some]
    have rep: "seg (ob_links st) (First_of d) (Q d) (tqh_last (ob_links st) d)"
      "readCell (ob_links st) (tqh_last (ob_links st) d) = None"
      by (auto simp: queue_rep_def chain_def)
    have "scanDir fuel st (readCell (ob_links st) (First_of d)) nm =
        Done (List.find (\<lambda>x. name_of st x = cstr nm) (Q d))"
      by (rule scanDir_seg [OF rep fuel wf_storeD(3) [OF wf Some] wf_storeD(5) [OF wf] nm])
    with ob d show ?thesis
      by (auto simp: obDirectoryLookup_def getObj_def dirLookup_def TAILQ_FIRST_def as_cells split: option.split)
  qed
qed

lemma dirLookup_live:
  assumes "wf_store st Q" "dirLookup st Q p nm = (s, Some c)"
  shows "s = STATUS_SUCCESS \<and> objects st c \<noteq> None"
proof -
  from assms(2) obtain ob d where p: "objects st p = Some ob" "ob_type ob = NT_OB_DIRECTORY"
      "ob_data ob = Some d" and f: "List.find (\<lambda>x. name_of st x = nm) (Q d) = Some c"
    and s: "s = STATUS_SUCCESS"
    by (auto simp: dirLookup_def split: option.splits if_splits)
  from f have "c \<in> set (Q d)" by (auto simp: find_Some_iff)
  moreover have "dir_of st p = Some d" using p by (simp add: dir_of_def)
  ultimately show ?thesis using wf_storeD(3) [OF assms(1)] s by blast
qed

lemma dirLookup_None: "dirLookup st Q p nm = (s, None) \<Longrightarrow> s \<noteq> STATUS_SUCCESS"
  by (auto simp: dirLookup_def status_simps split: option.splits if_splits)

lemma takeComponent_spec:
  "(\<And>c. c \<in> set w \<Longrightarrow> c \<noteq> 47 \<and> c \<noteq> 0) \<Longrightarrow> rest \<noteq> [] \<Longrightarrow> hd rest = 47 \<or> hd rest = 0 \<Longrightarrow>
    length pre + length post = 32 \<Longrightarrow> length pre < 31 \<Longrightarrow>
    takeComponent (w @ rest) (pre @ post) (length pre) =
      (if 31 \<le> length pre + length w then Done None
       else Done (Some (rest, pre @ w @ drop (length w) post, length pre + length w)))"
proof (induction w arbitrary: pre post)
  case Nil
  then show ?case by (cases rest) auto
next
  case (Cons c w)
  from Cons.prems(4,5) obtain p ps where post: "post = p # ps" by (cases post) auto
  have put: "put (pre @ post) (length pre) c = Done ((pre @ [c]) @ ps)" by (simp add: post put_at)
  show ?case
  proof (cases "31 \<le> length pre + 1")
    case True
    with Cons.prems(1) [of c] put show ?thesis by (simp add: NT_OBNAME_LEN_def)
  next
    case False
    have "takeComponent (w @ rest) ((pre @ [c]) @ ps) (length (pre @ [c])) =
      (if 31 \<le> length (pre @ [c]) + length w then Done None
       else Done (Some (rest, (pre @ [c]) @ w @ drop (length w) ps, length (pre @ [c]) + length w)))"
      using Cons.prems False post by (intro Cons.IH) auto
    with Cons.prems(1) [of c] put False show ?thesis by (simp add: NT_OBNAME_LEN_def post)
  qed
qed

lemma skipSlashes_text:
  "0 \<notin> set t \<Longrightarrow> skipSlashes (t @ 0 # rest) = Done (dropWhile (\<lambda>c. c = 47) t @ 0 # rest)"
  by (induction t) auto

lemma components_nonempty:
  assumes "t \<noteq> []" "hd t \<noteq> 47"
  shows "components t = takeWhile (\<lambda>c. c \<noteq> 47) t #
    components (dropWhile (\<lambda>c. c = 47) (dropWhile (\<lambda>c. c \<noteq> 47) t))"
proof -
  have t: "dropWhile (\<lambda>c. c = 47) t = t" using assms by (cases t) auto
  have "components (dropWhile (\<lambda>c. c = 47) u) = components u" for u
    by (subst (1 2) components.simps) simp
  then show ?thesis using assms t by (subst components.simps) simp
qed

lemma pathLoop_spec:
  assumes wf: "wf_store st Q" and fuel: "\<And>d. length (Q d) \<le> fuel"
  shows "objects st p \<noteq> None \<Longrightarrow> 0 \<notin> set t \<Longrightarrow> t = [] \<or> hd t \<noteq> 47 \<Longrightarrow> length buf = 32 \<Longrightarrow>
    pathLoop fuel st (Some p) (t @ 0 # rest) buf = Done (resolve st Q p (components t))"
proof (induction "length t" arbitrary: t p buf rule: less_induct)
  case less
  show ?case
  proof (cases "t = []")
    case True
    then show ?thesis by (simp add: pathLoop.simps [of fuel st "Some p" "0 # rest"] components.simps)
  next
    case False
    let ?w = "takeWhile (\<lambda>c. c \<noteq> 47) t" and ?t1 = "dropWhile (\<lambda>c. c \<noteq> 47) t"
    let ?t2 = "dropWhile (\<lambda>c. c = 47) ?t1"
    have hd: "hd t \<noteq> 47" "hd (t @ 0 # rest) \<noteq> 0" using less.prems(2,3) False by (cases t; auto)+
    have t: "t = ?w @ ?t1" by simp
    have w: "c \<noteq> 47 \<and> c \<noteq> 0" if "c \<in> set ?w" for c
      using that less.prems(2) by (auto dest: set_takeWhileD)
    have t1: "?t1 @ 0 # rest \<noteq> []" "hd (?t1 @ 0 # rest) = 47 \<or> hd (?t1 @ 0 # rest) = 0"
      using hd_dropWhile [of "\<lambda>c. c \<noteq> 47" t] by (cases "?t1 = []"; auto)+
    have len2: "length ?t2 < length t"
      using dropWhile_less [of t "\<lambda>c. c \<noteq> 47"] False hd(1) length_dropWhile_le [of "\<lambda>c. c = 47" ?t1] by simp
    have z2: "0 \<notin> set ?t2" using less.prems(2) by (auto dest!: set_dropWhileD)
    have sl2: "?t2 = [] \<or> hd ?t2 \<noteq> 47" using hd_dropWhile [of "\<lambda>c. c = 47" ?t1] by auto
    note comps = components_nonempty [OF False hd(1)]
    have tk: "takeComponent (t @ 0 # rest) buf 0 =
        (if 31 \<le> length ?w then Done None
         else Done (Some (?t1 @ 0 # rest, ?w @ drop (length ?w) buf, length ?w)))"
    proof -
      have split: "t @ 0 # rest = ?w @ ?t1 @ 0 # rest" by simp
      from takeComponent_spec [of ?w "?t1 @ 0 # rest" "[]" buf, OF w t1] less.prems(4)
      show ?thesis unfolding split by simp
    qed
    show ?thesis
    proof (cases "31 \<le> length ?w")
      case True
      with tk hd False show ?thesis
        by (subst pathLoop.simps) (simp add: comps NT_OBNAME_LEN_def)
    next
      case short: False
      define buf2 where "buf2 = ?w @ 0 # drop (length ?w + 1) buf"
      have "drop (length ?w) buf \<noteq> []" using short less.prems(4) by auto
      from put_end [OF this, of ?w 0]
      have put: "put (?w @ drop (length ?w) buf) (length ?w) 0 = Done buf2"
        by (simp add: buf2_def drop_Suc tl_drop)
      have nz: "0 \<notin> set ?w" using w by blast
      have buf2: "cstr buf2 = ?w" "terminated buf2" "length buf2 = 32"
        using short less.prems(4) cstr_zero [OF nz] by (auto simp: buf2_def terminated_def)
      obtain buf3 where buf3: "rtlMemset buf2 0 (of_nat NT_OBNAME_LEN) = Done buf3" "length buf3 = 32"
        using memsetFrom_len [of 0 32 buf2 0] buf2(3) by (auto simp: rtlMemset_def NT_OBNAME_LEN_def)
      note look = obDirectoryLookup_spec [OF wf less.prems(1) fuel buf2(2), unfolded buf2(1)]
      have skip: "skipSlashes (?t1 @ 0 # rest) = Done (?t2 @ 0 # rest)"
        using less.prems(2) by (intro skipSlashes_text) (auto dest!: set_dropWhileD)
      have step: "pathLoop fuel st (Some p) (t @ 0 # rest) buf =
          (case dirLookup st Q p ?w of (s, found) \<Rightarrow>
            if s \<noteq> STATUS_SUCCESS then Done (s, None)
            else pathLoop fuel st found (?t2 @ 0 # rest) buf3)"
        using tk short hd False put look buf3(1) skip
        by (subst pathLoop.simps) (simp split: prod.split)
      obtain s found where dl: "dirLookup st Q p ?w = (s, found)" by (cases "dirLookup st Q p ?w")
      show ?thesis
      proof (cases found)
        case None
        with dl dirLookup_None [of st Q p ?w s] step short show ?thesis
          by (simp add: comps NT_OBNAME_LEN_def)
      next
        case (Some c)
        from dirLookup_live [OF wf] dl Some have c: "s = STATUS_SUCCESS" "objects st c \<noteq> None" by auto
        from less.hyps [OF len2 c(2) z2 sl2 buf3(2)] c step dl Some short show ?thesis
          by (simp add: comps NT_OBNAME_LEN_def)
      qed
    qed
  qed
qed

lemma components_drop: "components (dropWhile (\<lambda>c. c = 47) t) = components t"
  by (subst (1 2) components.simps) simp

lemma obLookupObject_spec:
  assumes "wf_store st Q" "\<And>d. length (Q d) \<le> fuel" "rootObject st = Some r" "0 \<notin> set t" "length junk = 32"
  shows "obLookupObject fuel junk (Some (t @ 0 # rest)) st = Done (resolve st Q r (components t))"
proof -
  let ?t = "dropWhile (\<lambda>c. c = 47) t"
  have z: "0 \<notin> set ?t" using assms(4) by (auto dest!: set_dropWhileD)
  have h: "?t = [] \<or> hd ?t \<noteq> 47" using hd_dropWhile [of "\<lambda>c. c = 47" t] by auto
  have r: "objects st r \<noteq> None" using wf_storeD(6) [OF assms(1,3)] .
  show ?thesis
  proof (cases "?t = []")
    case True
    then have "components t = []" by (subst components.simps) simp
    moreover have "skipSlashes (t @ 0 # rest) = Done (0 # rest)"
      using skipSlashes_text [OF assms(4), of rest] unfolding True by simp
    ultimately show ?thesis using assms(3) by (simp add: obLookupObject_def)
  next
    case False
    then have "hd (?t @ 0 # rest) \<noteq> 0" using z by (cases ?t) auto
    with False skipSlashes_text [OF assms(4)] assms(3)
      pathLoop_spec [OF assms(1,2) r z h assms(5), of rest] show ?thesis
      by (simp add: obLookupObject_def components_drop)
  qed
qed

section \<open>Creation\<close>

lemma components_snoc:
  "47 \<notin> set n \<Longrightarrow> n \<noteq> [] \<Longrightarrow> components (t @ 47 # n) = components t @ [n]"
proof (induction t rule: components.induct)
  case (1 t)
  have base: "components (47 # n) = [n]"
  proof -
    have d: "dropWhile (\<lambda>c. c = 47) (47 # n) = n" using 1(2,3) by (cases n) auto
    have w: "takeWhile (\<lambda>c. c \<noteq> 47) n = n" "dropWhile (\<lambda>c. c \<noteq> 47) n = []"
      using 1(2) by auto
    have e: "components [] = []" by (simp add: components.simps)
    show ?thesis unfolding components.simps [of "47 # n"] d Let_def w e using 1(3) by simp
  qed
  let ?t1 = "dropWhile (\<lambda>c. c = 47) t"
  show ?case
  proof (cases "?t1 = []")
    case True
    then have all: "\<forall>c \<in> set t. c = 47" by simp
    then have "dropWhile (\<lambda>c. c = 47) (t @ 47 # n) = dropWhile (\<lambda>c. c = 47) (47 # n)"
      by (induction t) auto
    then have "components (t @ 47 # n) = components (47 # n)"
      by (subst (1 2) components.simps) simp
    moreover have "components t = []" using True by (subst components.simps) simp
    ultimately show ?thesis using base by simp
  next
    case False
    have d1: "dropWhile (\<lambda>c. c = 47) (t @ 47 # n) = ?t1 @ 47 # n"
      using False by (induction t) auto
    have w0: "takeWhile (\<lambda>c. c \<noteq> 47) (u @ 47 # n) = takeWhile (\<lambda>c. c \<noteq> 47) u \<and>
        dropWhile (\<lambda>c. c \<noteq> 47) (u @ 47 # n) = dropWhile (\<lambda>c. c \<noteq> 47) u @ 47 # n" for u :: "uchar list"
      by (induction u) auto
    have w: "takeWhile (\<lambda>c. c \<noteq> 47) (?t1 @ 47 # n) = takeWhile (\<lambda>c. c \<noteq> 47) ?t1"
      "dropWhile (\<lambda>c. c \<noteq> 47) (?t1 @ 47 # n) = dropWhile (\<lambda>c. c \<noteq> 47) ?t1 @ 47 # n"
      using w0 by blast+
    have "components (t @ 47 # n) = takeWhile (\<lambda>c. c \<noteq> 47) ?t1 # components (dropWhile (\<lambda>c. c \<noteq> 47) ?t1 @ 47 # n)"
      by (subst components.simps) (simp add: d1 w Let_def)
    also have "\<dots> = takeWhile (\<lambda>c. c \<noteq> 47) ?t1 # components (dropWhile (\<lambda>c. c \<noteq> 47) ?t1) @ [n]"
      using 1 False by simp
    also have "\<dots> = components t @ [n]" using False by (subst (2) components.simps) (simp add: Let_def)
    finally show ?thesis .
  qed
qed

lemma resolve_Some: "resolve st Q p cs = (s, Some x) \<Longrightarrow> s = STATUS_SUCCESS"
  by (induction cs arbitrary: p) (auto split: if_splits prod.splits option.splits)

lemma resolve_append:
  "resolve st Q p (cs @ ds) =
    (case resolve st Q p cs of (s, None) \<Rightarrow> (s, None) | (s, Some c) \<Rightarrow> resolve st Q c ds)"
  by (induction cs arbitrary: p) (auto split: prod.split option.split)

text \<open>The store after a child was added to directory structure \<open>d\<close>.\<close>

definition with_child :: "ob_store \<Rightarrow> head \<Rightarrow> elem \<Rightarrow> NT_OBJECT \<Rightarrow> ob_store" where
  "with_child st d a ob = st\<lparr>objects := (objects st)(a \<mapsto> ob),
     ob_links := TAILQ_INSERT_TAIL d a (ob_links st), numEnt := (numEnt st)(d := numEnt st d + 1)\<rparr>"

lemma with_child_wf:
  assumes wf: "wf_store st Q" and q: "dir_of st q = Some d" and fresh: "objects st a = None"
    and ob: "ob_data ob = None \<or> ob_type ob \<noteq> NT_OB_DIRECTORY" "terminated (ob_name ob)"
  shows "wf_store (with_child st d a ob) (Q(d := Q d @ [a]))"
proof -
  let ?st = "with_child st d a ob" and ?Q = "Q(d := Q d @ [a])"
  have dir: "dir_of ?st x = dir_of st x" for x
    using fresh ob(1) by (auto simp: dir_of_def with_child_def)
  have new: "a \<notin> set (Q e)" if "dir_of st x = Some e" for x e
    using wf_storeD(3) [OF wf that] fresh by blast
  have rep: "queue_rep (ob_links ?st) e (?Q e)" if "dir_of st x = Some e" for x e
  proof (cases "e = d")
    case True
    with tq.rep_put [OF wf_storeD(1) [OF wf q] new [OF q]] show ?thesis by (simp add: with_child_def)
  next
    case False
    have "set (Q d) \<inter> set (Q e) = {}" using wf_storeD(4) [OF wf q that] False by blast
    from tq.put_frame [OF wf_storeD(1) [OF wf q] new [OF q] wf_storeD(1) [OF wf that] False this new [OF that]]
    show ?thesis using False by (simp add: with_child_def)
  qed
  have dis: "set (?Q e) \<inter> set (?Q f) = {}" if e: "dir_of st x = Some e" and f: "dir_of st y = Some f"
    and "e \<noteq> f" for x y e f
    using wf_storeD(4) [OF wf e f that(3)] new [OF e] new [OF f] that(3) by auto
  have live: "objects ?st z \<noteq> None" if "dir_of st x = Some e" "z \<in> set (?Q e)" for x e z
    using that wf_storeD(3) [OF wf that(1), of z] by (auto simp: with_child_def split: if_splits)
  show ?thesis
    unfolding wf_store_def dir
  proof (intro conjI allI impI)
    show "dir_of st x = Some e \<Longrightarrow> queue_rep (ob_links ?st) e (?Q e)" for x e by (rule rep)
    show "dir_of st x = Some e \<Longrightarrow> z \<in> set (?Q e) \<Longrightarrow> objects ?st z \<noteq> None" for x e z by (rule live)
    show "dir_of st x = Some e \<Longrightarrow> dir_of st y = Some f \<Longrightarrow> e \<noteq> f \<Longrightarrow> set (?Q e) \<inter> set (?Q f) = {}"
      for x y e f by (rule dis)
    show "dir_of st x = Some e \<Longrightarrow> dir_of st y = Some e \<Longrightarrow> x = y" for x y e
      using wf_storeD(2) [OF wf] by blast
    show "terminated (ob_name ob')" if "objects ?st x = Some ob'" for x ob'
      using that ob(2) wf_storeD(5) [OF wf, of x ob'] by (auto simp: with_child_def split: if_splits)
    show "objects ?st r \<noteq> None" if "rootObject ?st = Some r" for r
      using that wf_storeD(6) [OF wf, of r] by (auto simp: with_child_def)
  qed
qed

lemma find_append_eq:
  "List.find P (xs @ ys) = (case List.find P xs of None \<Rightarrow> List.find P ys | Some x \<Rightarrow> Some x)"
  by (induction xs) auto

lemma find_same: "(\<And>x. x \<in> set xs \<Longrightarrow> P x = R x) \<Longrightarrow> List.find P xs = List.find R xs"
  by (induction xs) auto

lemma with_child_lookup:
  assumes wf: "wf_store st Q" and q: "dir_of st q = Some d" and fresh: "objects st a = None"
    and p: "objects st p \<noteq> None"
    and hit: "dirLookup st Q p nm = (s, Some c)"
  shows "dirLookup (with_child st d a ob) (Q(d := Q d @ [a])) p nm = (s, Some c)"
proof -
  let ?st = "with_child st d a ob" and ?Q = "Q(d := Q d @ [a])"
  from hit obtain obp e where obp: "objects st p = Some obp" "ob_type obp = NT_OB_DIRECTORY"
    "ob_data obp = Some e" and f: "List.find (\<lambda>x. name_of st x = nm) (Q e) = Some c" and s: "s = STATUS_SUCCESS"
    by (auto simp: dirLookup_def split: option.splits if_splits)
  then have pe: "dir_of st p = Some e" by (simp add: dir_of_def)
  have same: "name_of ?st x = name_of st x" if "x \<in> set (Q e)" for x
    using wf_storeD(3) [OF wf pe that] fresh by (auto simp: name_of_def with_child_def)
  have "List.find (\<lambda>x. name_of ?st x = nm) (Q e) = Some c"
    unfolding f [symmetric] by (rule find_same) (simp only: same)
  then have "List.find (\<lambda>x. name_of ?st x = nm) (?Q e) = Some c"
    by (auto simp: find_append_eq)
  moreover have "p \<noteq> a" using p fresh by auto
  ultimately show ?thesis using obp s by (simp add: dirLookup_def with_child_def)
qed

lemma with_child_resolve:
  assumes wf: "wf_store st Q" and q: "dir_of st q = Some d" and fresh: "objects st a = None"
  shows "objects st p \<noteq> None \<Longrightarrow> resolve st Q p cs = (s, Some x) \<Longrightarrow>
    resolve (with_child st d a ob) (Q(d := Q d @ [a])) p cs = (s, Some x) \<and> objects st x \<noteq> None"
proof (induction cs arbitrary: p)
  case (Cons nm cs)
  then obtain s' c where c: "dirLookup st Q p nm = (s', Some c)" "resolve st Q c cs = (s, Some x)"
    and len: "length nm < NT_OBNAME_LEN - 1"
    by (auto split: if_splits prod.splits option.splits)
  from dirLookup_live [OF wf c(1)] have "objects st c \<noteq> None" by simp
  with Cons.IH c(2) with_child_lookup [OF wf q fresh Cons.prems(1) c(1)] len show ?case by (simp del: fun_upd_apply)
qed simp

text \<open>The new child is found under its name when no earlier child has it.\<close>

lemma with_child_found:
  assumes wf: "wf_store st Q" and q: "dir_of st q = Some d" and fresh: "objects st a = None"
    and none: "dirLookup st Q q (cstr (ob_name ob)) = (STATUS_OBJECT_NOTFOUND, None)"
  shows "dirLookup (with_child st d a ob) (Q(d := Q d @ [a])) q (cstr (ob_name ob)) = (STATUS_SUCCESS, Some a)"
proof -
  let ?st = "with_child st d a ob" and ?nm = "cstr (ob_name ob)"
  from q obtain obq where obq: "objects st q = Some obq" "ob_type obq = NT_OB_DIRECTORY" "ob_data obq = Some d"
    by (auto simp: dir_of_def split: option.splits if_splits)
  with none have f: "List.find (\<lambda>x. name_of st x = ?nm) (Q d) = None"
    by (auto simp: dirLookup_def status_simps split: option.splits)
  have same: "name_of ?st x = name_of st x" if "x \<in> set (Q d)" for x
    using wf_storeD(3) [OF wf q that] fresh by (auto simp: name_of_def with_child_def)
  have "List.find (\<lambda>x. name_of ?st x = ?nm) (Q d) = None"
    using f same by (auto simp: find_None_iff)
  moreover have "name_of ?st a = ?nm" by (simp add: name_of_def with_child_def)
  ultimately have "List.find (\<lambda>x. name_of ?st x = ?nm) (Q d @ [a]) = Some a"
    by (simp add: find_append_eq)
  moreover have "q \<noteq> a" using obq fresh by auto
  ultimately show ?thesis using obq by (simp add: dirLookup_def with_child_def)
qed

lemma with_child_miss:
  assumes wf: "wf_store st Q" and q: "dir_of st q = Some d" and fresh: "objects st a = None"
    and none: "dirLookup st Q p nm = (STATUS_OBJECT_NOTFOUND, None)" "objects st p \<noteq> None"
    and other: "p \<noteq> q \<or> nm \<noteq> cstr (ob_name ob)"
  shows "dirLookup (with_child st d a ob) (Q(d := Q d @ [a])) p nm = (STATUS_OBJECT_NOTFOUND, None)"
proof -
  let ?st = "with_child st d a ob"
  have pa: "p \<noteq> a" using none(2) fresh by auto
  from none obtain obp where obp: "objects st p = Some obp" "ob_type obp = NT_OB_DIRECTORY"
    by (auto simp: dirLookup_def status_simps split: option.splits if_splits)
  show ?thesis
  proof (cases "ob_data obp")
    case None
    with obp pa show ?thesis by (simp add: dirLookup_def with_child_def)
  next
    case (Some e)
    then have pe: "dir_of st p = Some e" using obp by (simp add: dir_of_def)
    have same: "name_of ?st x = name_of st x" if "x \<in> set (Q e)" for x
      using wf_storeD(3) [OF wf pe that] fresh by (auto simp: name_of_def with_child_def)
    have "List.find (\<lambda>x. name_of st x = nm) (Q e) = None"
      using none(1) obp Some by (auto simp: dirLookup_def status_simps split: option.splits)
    then have f: "List.find (\<lambda>x. name_of ?st x = nm) (Q e) = None" using same by (auto simp: find_None_iff)
    have "e = d \<Longrightarrow> name_of ?st a \<noteq> nm"
      using other wf_storeD(2) [OF wf pe] q by (auto simp: name_of_def with_child_def)
    with f have "List.find (\<lambda>x. name_of ?st x = nm) ((Q(d := Q d @ [a])) e) = None"
      by (auto simp: find_append_eq)
    with obp Some pa show ?thesis by (simp add: dirLookup_def with_child_def del: fun_upd_apply) (simp add: with_child_def)
  qed
qed

definition new_object :: "NT_OBJECT_TYPE \<Rightarrow> uchar list \<Rightarrow> ushort \<Rightarrow> NT_OBJECT" where
  "new_object ty n refs = \<lparr>ob_type = ty, ob_name = n @ replicate (32 - length n) 0, ob_ref = refs, ob_data = None\<rparr>"

lemma name_checks:
  assumes "0 \<notin> set n" "0 < length n" "length n \<le> 30"
  shows "rtlStrlen (Some (n @ 0 # rest)) = Done (of_nat (length n))"
    "(of_nat (length n) :: usize) \<noteq> 0" "\<not> of_nat NT_OBNAME_LEN - 1 \<le> (of_nat (length n) :: usize)"
    "rtlMemcpy (replicate NT_OBNAME_LEN 0) (n @ 0 # rest) (of_nat (length n)) =
      Done (n @ replicate (32 - length n) 0)"
proof -
  have u: "unat (of_nat (length n) :: usize) = length n"
    using assms(3) by (intro unat_of_nat_quad) simp
  show "rtlStrlen (Some (n @ 0 # rest)) = Done (of_nat (length n))"
    using strlenFrom_text [OF assms(1), of rest 0] by (simp add: rtlStrlen_def)
  show "(of_nat (length n) :: usize) \<noteq> 0" using u assms(2) by (metis unat_0 less_irrefl)
  show "\<not> of_nat NT_OBNAME_LEN - 1 \<le> (of_nat (length n) :: usize)"
    using u assms(3) by (simp add: NT_OBNAME_LEN_def word_le_nat_alt)
  show "rtlMemcpy (replicate NT_OBNAME_LEN 0) (n @ 0 # rest) (of_nat (length n)) =
      Done (n @ replicate (32 - length n) 0)"
    unfolding rtlMemcpy_def u NT_OBNAME_LEN_def using assms(3) by (subst memcpyFrom_spec) auto
qed

lemma new_object_name: "0 \<notin> set n \<Longrightarrow> length n \<le> 30 \<Longrightarrow>
    cstr (ob_name (new_object ty n refs)) = n \<and> terminated (ob_name (new_object ty n refs))"
proof -
  assume h: "0 \<notin> set n" "length n \<le> 30"
  then obtain k where "32 - length n = Suc k" by (cases "32 - length n") auto
  with cstr_zero [OF h(1), of "replicate k 0"] show ?thesis
    by (simp add: new_object_def terminated_def)
qed

lemma obCreateObject_run:
  assumes "wf_store st Q" "\<And>d. length (Q d) \<le> fuel" "rootObject st = Some r" "length junk = 32"
    and "0 \<notin> set tp" "resolve st Q r (components tp) = (STATUS_SUCCESS, Some q)"
    and "dir_of st q = Some d" "objects st a = None" "ty \<noteq> NT_OB_MAX"
    and n: "0 \<notin> set n" "0 < length n" "length n \<le> 30"
  shows "obCreateObject fuel junk (Some a)
      (Some \<lparr>cr_parent = Some (tp @ 0 # rest), cr_name = Some (n @ 0 # rest2), cr_type = ty\<rparr>) st =
    Done (STATUS_SUCCESS, Some a, with_child st d a (new_object ty n 2))"
proof -
  have ty: "\<not> type_num NT_OB_MAX \<le> type_num ty" using assms(9) by (cases ty) auto
  from assms(7) obtain obq where obq: "objects st q = Some obq" "ob_type obq = NT_OB_DIRECTORY" "ob_data obq = Some d"
    by (auto simp: dir_of_def split: option.splits if_splits)
  have par: "findParent fuel junk (Some (tp @ 0 # rest)) st = Done (STATUS_SUCCESS, Some q)"
    using obLookupObject_spec [OF assms(1,2,3,5,4), of rest] assms(6) obq
    by (simp add: findParent_def getObj_def)
  have "q \<noteq> a" using obq assms(8) by auto
  then show ?thesis
    using ty par name_checks(1) [OF n, of rest2] name_checks(2,3) [OF n] name_checks(4) [OF n, of rest2] obq
    by (simp add: obCreateObject_def Let_def modObj_def getObj_def obDirectoryAdd_def with_child_def
        new_object_def status_simps)
qed

section \<open>Properties\<close>

text \<open>
  C8 (path lookup). On a well-formed store, for any terminated path and enough fuel for the
  longest directory, \<^verbatim>\<open>obLookupObject\<close> returns exactly what resolving the path's nonempty
  components one by one from the root gives: the object, or the status of the first component
  that is too long, not below a directory or not found.
\<close>

theorem obLookupObject_resolves:
  assumes "wf_store st Q" "\<forall>d. length (Q d) \<le> fuel" "rootObject st = Some r" "0 \<notin> set t" "length junk = 32"
  shows "obLookupObject fuel junk (Some (t @ 0 # rest)) st = Done (resolve st Q r (components t))"
  using obLookupObject_spec [of st Q fuel r t junk rest] assms by blast

text \<open>A store with the root directory, its directory \<^verbatim>\<open>clkdev\<close> and an empty list there.\<close>

definition demo_store :: ob_store where
  "demo_store = \<lparr>objects = [100 \<mapsto> \<lparr>ob_type = NT_OB_DIRECTORY, ob_name = bytes ''/'' @ replicate 31 0, ob_ref = 1, ob_data = Some 1\<rparr>,
       110 \<mapsto> \<lparr>ob_type = NT_OB_DIRECTORY, ob_name = bytes ''clkdev'' @ replicate 26 0, ob_ref = 2, ob_data = Some 2\<rparr>],
     ob_links = TAILQ_INSERT_TAIL 1 110 \<lparr>tqe_next = (\<lambda>_. None), tqe_prev = (\<lambda>_. First_of 0),
       tqh_first = (\<lambda>_. None), tqh_last = First_of, nelem = (\<lambda>_. 0)\<rparr>,
     numEnt = (\<lambda>_. 0)(1 := 1), rootObject = Some 100\<rparr>"

definition demo_children :: "head \<Rightarrow> elem list" where
  "demo_children = (\<lambda>_. [])(1 := [110])"

lemma demo_store_wf: "wf_store demo_store demo_children"
proof -
  let ?h = "\<lparr>tqe_next = (\<lambda>_. None), tqe_prev = (\<lambda>_. First_of 0), tqh_first = (\<lambda>_. None),
    tqh_last = First_of, nelem = (\<lambda>_. 0)\<rparr>"
  have e: "queue_rep ?h q []" for q by (simp add: queue_rep_def chain_def readCell.simps)
  have d: "dir_of demo_store a = (if a = 100 then Some 1 else if a = 110 then Some 2 else None)" for a
    by (simp add: dir_of_def demo_store_def)
  have "queue_rep (ob_links demo_store) 1 [110]" "queue_rep (ob_links demo_store) 2 []"
    using tq.rep_put [OF e [of 1], of 110] tq.put_frame [OF e [of 1] _ e [of 2], of 110]
    by (simp_all add: demo_store_def)
  moreover have "objects demo_store a = Some ob \<Longrightarrow> terminated (ob_name ob)" for a ob
    by (auto simp: demo_store_def terminated_def split: if_splits)
  moreover have "objects demo_store 110 \<noteq> None" "rootObject demo_store = Some 100" "objects demo_store 100 \<noteq> None"
    by (simp_all add: demo_store_def)
  ultimately show ?thesis
    unfolding wf_store_def d by (auto simp: demo_children_def split: if_splits)
qed

lemma demo_fuel: "length (demo_children d) \<le> 1"
  by (simp add: demo_children_def)

lemma demo_lookup:
  "resolve demo_store demo_children 100 (components (bytes ''/clkdev'')) = (STATUS_SUCCESS, Some 110)"
proof -
  have c: "components (bytes ''/clkdev'') = [bytes ''clkdev'']" by code_simp
  have n: "name_of demo_store 110 = bytes ''clkdev''"
    by (simp add: name_of_def demo_store_def cstr_def bytes_def byte_def)
  have "dirLookup demo_store demo_children 100 (bytes ''clkdev'') = (STATUS_SUCCESS, Some 110)"
    using n by (simp add: dirLookup_def demo_store_def demo_children_def)
  moreover have "length (bytes ''clkdev'') < 31" by (simp add: bytes_def)
  ultimately show ?thesis unfolding c by (simp add: NT_OBNAME_LEN_def)
qed

theorem obLookupObject_resolves_witness:
  "obLookupObject 1 (replicate 32 9) (Some (bytes ''/clkdev'' @ [0])) demo_store = Done (STATUS_SUCCESS, Some 110)"
proof -
  have r: "rootObject demo_store = Some 100" by (simp add: demo_store_def)
  have z: "0 \<notin> set (bytes ''/clkdev'')" by (simp add: bytes_def byte_def)
  show ?thesis
    using obLookupObject_resolves [OF demo_store_wf _ r z, of 1 "replicate 32 9" "[]"] demo_fuel demo_lookup
    by simp
qed

text \<open>
  C29 (create, then look up). In a well-formed store with a root, with fuel for its longest directory, creating an object of a
  proper type with a fresh address under a path that resolves to a directory whose directory structure has been allocated,
  with a name of 1 to 30 bytes that has no slash and no zero and is not yet in that directory, succeeds, keeps the store well formed, and the object is then found under the
  parent's path followed by its name; every path that resolved before still resolves to the
  same object.
\<close>

theorem obCreateObject_then_lookup:
  assumes "wf_store st Q" "\<forall>d. length (Q d) < fuel" "rootObject st = Some r" "length junk = 32"
    and "0 \<notin> set tp" "resolve st Q r (components tp) = (STATUS_SUCCESS, Some q)"
    and "dir_of st q = Some d" "objects st a = None" "ty \<noteq> NT_OB_MAX"
    and "0 \<notin> set n" "47 \<notin> set n" "0 < length n" "length n \<le> 30"
    and "dirLookup st Q q n = (STATUS_OBJECT_NOTFOUND, None)"
  shows "\<exists>st'. obCreateObject fuel junk (Some a)
      (Some \<lparr>cr_parent = Some (tp @ [0]), cr_name = Some (n @ [0]), cr_type = ty\<rparr>) st =
      Done (STATUS_SUCCESS, Some a, st') \<and>
    wf_store st' (Q(d := Q d @ [a])) \<and>
    obLookupObject fuel junk (Some (tp @ 47 # n @ [0])) st' = Done (STATUS_SUCCESS, Some a) \<and>
    (\<forall>t x. 0 \<notin> set t \<longrightarrow> obLookupObject fuel junk (Some (t @ [0])) st = Done (STATUS_SUCCESS, Some x) \<longrightarrow>
       obLookupObject fuel junk (Some (t @ [0])) st' = Done (STATUS_SUCCESS, Some x))"
proof -
  let ?ob = "new_object ty n 2" and ?Q = "Q(d := Q d @ [a])"
  let ?st = "with_child st d a ?ob"
  have fuel: "length (Q e) \<le> fuel" "length (?Q e) \<le> fuel" for e
    using assms(2) by (auto simp: less_imp_le Suc_le_eq)
  have nm: "cstr (ob_name ?ob) = n" "terminated (ob_name ?ob)"
    using new_object_name [OF assms(10,13)] by auto
  have run: "obCreateObject fuel junk (Some a)
      (Some \<lparr>cr_parent = Some (tp @ [0]), cr_name = Some (n @ [0]), cr_type = ty\<rparr>) st =
      Done (STATUS_SUCCESS, Some a, ?st)"
    by (rule obCreateObject_run [OF assms(1) fuel(1) assms(3-10,12,13)])
  have wf: "wf_store ?st ?Q"
    by (rule with_child_wf [OF assms(1,7,8) _ nm(2)]) (simp add: new_object_def)
  have root: "rootObject ?st = Some r" using assms(3) by (simp add: with_child_def)
  have r: "objects st r \<noteq> None" using wf_storeD(6) [OF assms(1,3)] .
  have "resolve ?st ?Q r (components tp @ [n]) = (STATUS_SUCCESS, Some a)"
    using with_child_resolve [OF assms(1,7,8) r assms(6), of ?ob]
      with_child_found [OF assms(1,7,8), of ?ob] nm(1) assms(13,14)
    by (simp add: resolve_append NT_OBNAME_LEN_def)
  moreover have "components (tp @ 47 # n) = components tp @ [n]"
    using assms(11,12) by (intro components_snoc) auto
  moreover have "0 \<notin> set (tp @ 47 # n)" using assms(5,10) by simp
  moreover note obLookupObject_spec [OF wf fuel(2) root _ assms(4), of "tp @ 47 # n" "[]"]
  ultimately have new: "obLookupObject fuel junk (Some (tp @ 47 # n @ [0])) ?st = Done (STATUS_SUCCESS, Some a)"
    by (simp del: fun_upd_apply)
  have "obLookupObject fuel junk (Some (t @ [0])) ?st = Done (STATUS_SUCCESS, Some x)"
    if "0 \<notin> set t" "obLookupObject fuel junk (Some (t @ [0])) st = Done (STATUS_SUCCESS, Some x)" for t x
  proof -
    have "resolve st Q r (components t) = (STATUS_SUCCESS, Some x)"
      using obLookupObject_spec [OF assms(1) fuel(1) assms(3) that(1) assms(4), of "[]"] that(2) by simp
    from with_child_resolve [OF assms(1,7,8) r this, of ?ob]
      obLookupObject_spec [OF wf fuel(2) root that(1) assms(4), of "[]"] show ?thesis
      by (simp del: fun_upd_apply)
  qed
  with run wf new show ?thesis by blast
qed

theorem obCreateObject_then_lookup_witness:
  "\<exists>st'. obCreateObject 2 (replicate 32 9) (Some 120)
      (Some \<lparr>cr_parent = Some (bytes ''/clkdev'' @ [0]), cr_name = Some (bytes ''hpet'' @ [0]), cr_type = NT_OB_TIMER\<rparr>)
      demo_store = Done (STATUS_SUCCESS, Some 120, st') \<and>
    obLookupObject 2 (replicate 32 9) (Some (bytes ''/clkdev/hpet'' @ [0])) st' = Done (STATUS_SUCCESS, Some 120)"
proof -
  have fuel: "\<forall>d. length (demo_children d) < 2" by (simp add: demo_children_def)
  have h: "rootObject demo_store = Some 100" "length (replicate 32 9) = 32" "0 \<notin> set (bytes ''/clkdev'')"
    "dir_of demo_store 110 = Some 2" "objects demo_store 120 = None" "NT_OB_TIMER \<noteq> NT_OB_MAX"
    "0 \<notin> set (bytes ''hpet'')" "47 \<notin> set (bytes ''hpet'')" "0 < length (bytes ''hpet'')" "length (bytes ''hpet'') \<le> 30"
    by (simp_all add: demo_store_def dir_of_def bytes_def byte_def)
  have nf: "dirLookup demo_store demo_children 110 (bytes ''hpet'') = (STATUS_OBJECT_NOTFOUND, None)"
    by (simp add: dirLookup_def demo_store_def demo_children_def)
  have path: "bytes ''/clkdev'' @ 47 # bytes ''hpet'' @ [0] = bytes ''/clkdev/hpet'' @ [0]"
    by (simp add: bytes_def byte_def)
  show ?thesis
    using obCreateObject_then_lookup [OF demo_store_wf fuel h(1-3) demo_lookup h(4-10) nf]
    unfolding path by blast
qed

text \<open>
  A created subdirectory loses its children. A directory object has no directory
  structure until \<^verbatim>\<open>obAllocateDir\<close> is called. Until then creating an object below it reports
  success and counts a reference for the parent, but the object is not entered and cannot be
  found: the result of \<^verbatim>\<open>obDirectoryAdd\<close> is ignored.
\<close>

theorem obCreateObject_lost_child:
  assumes "wf_store st Q" "\<forall>d. length (Q d) \<le> fuel" "rootObject st = Some r" "length junk = 32"
    and "0 \<notin> set tp" "resolve st Q r (components tp) = (STATUS_SUCCESS, Some q)"
    and "objects st q = Some obq" "ob_type obq = NT_OB_DIRECTORY" "ob_data obq = None"
    and "objects st a = None" "ty \<noteq> NT_OB_MAX" "0 \<notin> set n" "0 < length n" "length n \<le> 30"
  shows "\<exists>st'. obCreateObject fuel junk (Some a)
      (Some \<lparr>cr_parent = Some (tp @ [0]), cr_name = Some (n @ [0]), cr_type = ty\<rparr>) st =
      Done (STATUS_SUCCESS, Some a, st') \<and>
    map_option ob_ref (objects st' a) = Some 2 \<and> ob_links st' = ob_links st \<and>
    obDirectoryLookup fuel (Some q) (Some (n @ [0])) st' = Done (STATUS_OBJECT_NOTFOUND, None)"
proof -
  have ty: "\<not> type_num NT_OB_MAX \<le> type_num ty" using assms(11) by (cases ty) auto
  have fuel: "length (Q d) \<le> fuel" for d using assms(2) by blast
  have par: "findParent fuel junk (Some (tp @ [0])) st = Done (STATUS_SUCCESS, Some q)"
    using obLookupObject_spec [OF assms(1) fuel assms(3,5,4), of "[]"] assms(6-8)
    by (simp add: findParent_def getObj_def)
  have "q \<noteq> a" using assms(7,10) by auto
  then show ?thesis
    using ty par name_checks(1) [OF assms(12-14), of "[]"] name_checks(2,3) [OF assms(12-14)]
      name_checks(4) [OF assms(12-14), of "[]"] assms(7-9)
    by (simp add: obCreateObject_def Let_def modObj_def getObj_def obDirectoryAdd_def
        obDirectoryLookup_def status_simps)
qed

definition demo_store2 :: ob_store where
  "demo_store2 = with_child demo_store 2 120 (new_object NT_OB_DIRECTORY (bytes ''sub'') 2)"

lemma demo_store2_wf: "wf_store demo_store2 (demo_children(2 := [120]))"
proof -
  have d: "dir_of demo_store 110 = Some 2" "objects demo_store 120 = None"
    by (simp_all add: dir_of_def demo_store_def)
  have n: "terminated (ob_name (new_object NT_OB_DIRECTORY (bytes ''sub'') 2))"
    using new_object_name [of "bytes ''sub''"] by (simp add: bytes_def byte_def)
  show ?thesis
    using with_child_wf [OF demo_store_wf d _ n]
    by (simp add: demo_store2_def new_object_def demo_children_def)
qed

theorem obCreateObject_lost_child_witness:
  "\<exists>st'. obCreateObject 2 (replicate 32 9) (Some 130)
      (Some \<lparr>cr_parent = Some (bytes ''clkdev/sub'' @ [0]), cr_name = Some (bytes ''x'' @ [0]), cr_type = NT_OB_TIMER\<rparr>)
      demo_store2 = Done (STATUS_SUCCESS, Some 130, st') \<and>
    obDirectoryLookup 2 (Some 120) (Some (bytes ''x'' @ [0])) st' = Done (STATUS_OBJECT_NOTFOUND, None)"
proof -
  let ?Q = "demo_children(2 := [120])"
  have fuel: "\<forall>d. length (?Q d) \<le> 2" by (simp add: demo_children_def)
  have h: "rootObject demo_store2 = Some 100" "length (replicate 32 9) = 32" "0 \<notin> set (bytes ''clkdev/sub'')"
    by (simp_all add: demo_store2_def with_child_def demo_store_def bytes_def byte_def)
  have names: "name_of demo_store2 110 = bytes ''clkdev''" "name_of demo_store2 120 = bytes ''sub''"
    by (simp_all add: name_of_def demo_store2_def with_child_def demo_store_def new_object_def cstr_def
        bytes_def byte_def)
  have l1: "dirLookup demo_store2 ?Q 100 (bytes ''clkdev'') = (STATUS_SUCCESS, Some 110)"
    using names(1) by (simp add: dirLookup_def demo_children_def)
      (simp add: demo_store2_def with_child_def demo_store_def)
  have l2: "dirLookup demo_store2 ?Q 110 (bytes ''sub'') = (STATUS_SUCCESS, Some 120)"
    using names(2) by (simp add: dirLookup_def demo_children_def)
      (simp add: demo_store2_def with_child_def demo_store_def)
  have c: "components (bytes ''clkdev/sub'') = [bytes ''clkdev'', bytes ''sub'']" by code_simp
  have len: "length (bytes ''clkdev'') < 31" "length (bytes ''sub'') < 31" by (simp_all add: bytes_def)
  have res: "resolve demo_store2 ?Q 100 (components (bytes ''clkdev/sub'')) = (STATUS_SUCCESS, Some 120)"
    unfolding c using l1 l2 len by (simp add: NT_OBNAME_LEN_def)
  have ob: "objects demo_store2 120 = Some (new_object NT_OB_DIRECTORY (bytes ''sub'') 2)"
    "ob_type (new_object NT_OB_DIRECTORY (bytes ''sub'') 2) = NT_OB_DIRECTORY"
    "ob_data (new_object NT_OB_DIRECTORY (bytes ''sub'') 2) = None"
    by (simp_all add: demo_store2_def with_child_def new_object_def)
  have n: "objects demo_store2 130 = None" "NT_OB_TIMER \<noteq> NT_OB_MAX" "0 \<notin> set (bytes ''x'')"
    "0 < length (bytes ''x'')" "length (bytes ''x'') \<le> 30"
    by (simp_all add: demo_store2_def with_child_def demo_store_def bytes_def byte_def)
  show ?thesis
    using obCreateObject_lost_child [OF demo_store2_wf fuel h res ob n] by blast
qed

text \<open>
  C40 (freeing leaves a dangling entry). An object created below a directory has two
  references. When both are released with \<^verbatim>\<open>obFreeObject\<close> its memory is freed, but it stays in
  its parent's list: if it is the first child, the next scan of the directory reads freed memory.
\<close>

theorem obFreeObject_dangling:
  assumes "wf_store st Q" "dir_of st q = Some d" "Q d = a # xs" "objects st a = Some ob" "ob_ref ob = 2" "a \<noteq> q"
  shows "\<exists>st1 st2. obFreeObject (Some a) st = Done (STATUS_SUCCESS, st1) \<and>
    obFreeObject (Some a) st1 = Done (STATUS_SUCCESS, st2) \<and> objects st2 a = None \<and>
    queue_rep (ob_links st2) d (a # xs) \<and>
    obDirectoryLookup (Suc fuel) (Some q) (Some name) st2 = Fault"
proof -
  from assms(2) obtain obq where obq: "objects st q = Some obq" "ob_type obq = NT_OB_DIRECTORY" "ob_data obq = Some d"
    by (auto simp: dir_of_def split: option.splits if_splits)
  note rep = wf_storeD(1) [OF assms(1,2), unfolded assms(3)]
  have "TAILQ_FIRST (ob_links st) d = Some a" using tq.front_rep [OF rep] by simp
  with rep obq assms(4-6) show ?thesis
    by (simp add: obFreeObject_def modObj_def getObj_def obDirectoryLookup_def)
qed

theorem obFreeObject_dangling_witness:
  "\<exists>st1 st2. obFreeObject (Some 120) demo_store2 = Done (STATUS_SUCCESS, st1) \<and>
     obFreeObject (Some 120) st1 = Done (STATUS_SUCCESS, st2) \<and>
     obDirectoryLookup 5 (Some 110) (Some [0]) st2 = Fault"
proof -
  have d: "dir_of demo_store2 110 = Some 2" "(demo_children(2 := [120])) 2 = 120 # []"
    by (simp_all add: dir_of_def demo_store2_def with_child_def demo_store_def)
  have ob: "objects demo_store2 120 = Some (new_object NT_OB_DIRECTORY (bytes ''sub'') 2)"
    "ob_ref (new_object NT_OB_DIRECTORY (bytes ''sub'') 2) = 2" "(120 :: nat) \<noteq> 110"
    by (simp_all add: demo_store2_def with_child_def new_object_def)
  show ?thesis
    using obFreeObject_dangling [OF demo_store2_wf d ob, of 4 "[0]"] by auto
qed


text \<open>The first free slot from \<open>i\<close> on, or none.\<close>

definition slot_result :: "elem option list \<Rightarrow> nat \<Rightarrow> int outcome \<Rightarrow> bool" where
  "slot_result ob i r \<longleftrightarrow>
     (\<exists>k. i \<le> k \<and> k < NT_OBTAB_ENTRIES \<and> ob ! k = None \<and> (\<forall>j. i \<le> j \<longrightarrow> j < k \<longrightarrow> ob ! j \<noteq> None) \<and> r = Done (int k)) \<or>
     (\<forall>j. i \<le> j \<longrightarrow> j < NT_OBTAB_ENTRIES \<longrightarrow> ob ! j \<noteq> None) \<and> r = Done (- 1)"

lemma slot_result_Suc: "ob ! i \<noteq> None \<Longrightarrow> slot_result ob (Suc i) r \<Longrightarrow> slot_result ob i r"
proof -
  assume used: "ob ! i \<noteq> None" and rec: "slot_result ob (Suc i) r"
  have ext: "i \<le> j \<Longrightarrow> j = i \<or> Suc i \<le> j" for j by auto
  from rec consider k where "Suc i \<le> k" "k < NT_OBTAB_ENTRIES" "ob ! k = None"
      "\<forall>j. Suc i \<le> j \<longrightarrow> j < k \<longrightarrow> ob ! j \<noteq> None" "r = Done (int k)"
    | "\<forall>j. Suc i \<le> j \<longrightarrow> j < NT_OBTAB_ENTRIES \<longrightarrow> ob ! j \<noteq> None" "r = Done (- 1)"
    unfolding slot_result_def by blast
  then show ?thesis
  proof cases
    case 1
    have "\<forall>j. i \<le> j \<longrightarrow> j < k \<longrightarrow> ob ! j \<noteq> None" using 1(4) used ext by blast
    moreover have "i \<le> k" using 1(1) by simp
    ultimately show ?thesis unfolding slot_result_def using 1(2,3,5) by blast
  next
    case 2
    have "\<forall>j. i \<le> j \<longrightarrow> j < NT_OBTAB_ENTRIES \<longrightarrow> ob ! j \<noteq> None" using 2(1) used ext by blast
    then show ?thesis unfolding slot_result_def using 2(2) by blast
  qed
qed

lemma tableSlot_spec:
  "length ob = NT_OBTAB_ENTRIES \<Longrightarrow> slot_result ob i (tableSlot i ob)"
proof (induction i ob rule: tableSlot.induct)
  case (1 i ob)
  show ?case
  proof (cases "i < NT_OBTAB_ENTRIES \<and> ob ! i \<noteq> None")
    case True
    then have next_slot: "tableSlot i ob = tableSlot (Suc i) ob"
      using 1(2) by (subst tableSlot.simps) simp
    have "slot_result ob (Suc i) (tableSlot (Suc i) ob)" using True 1(2) by (intro 1(1)) simp_all
    with True show ?thesis unfolding next_slot by (blast intro: slot_result_Suc)
  next
    case False
    with 1(2) show ?thesis by (subst tableSlot.simps) (auto simp: slot_result_def)
  qed
qed

text \<open>
  Handles. Adding a live object to a full-length table answers the lowest free slot as
  the handle, stores the object there, leaves every other slot alone and counts one reference
  (modulo 2^16); with all 32 slots used it answers \<^verbatim>\<open>STATUS_NO_SPACE\<close> and changes nothing.
  The table's \<^verbatim>\<open>openCount\<close> stays as it was in both cases.
\<close>

theorem obTableAdd_lowest_slot:
  assumes "length (tab_ob t) = NT_OBTAB_ENTRIES" "objects st a = Some ob"
  shows "(\<exists>k t' st'. obTableAdd (Some t) (Some a) st = Done (STATUS_SUCCESS, Some t', Some (int k), st') \<and>
      k < NT_OBTAB_ENTRIES \<and> tab_ob t ! k = None \<and> (\<forall>j < k. tab_ob t ! j \<noteq> None) \<and>
      tab_ob t' = (tab_ob t)[k := Some a] \<and> openCount t' = openCount t \<and>
      objects st' = (objects st)(a \<mapsto> ob\<lparr>ob_ref := ob_ref ob + 1\<rparr>)) \<or>
    (\<forall>j < NT_OBTAB_ENTRIES. tab_ob t ! j \<noteq> None) \<and>
      obTableAdd (Some t) (Some a) st = Done (STATUS_NO_SPACE, Some t, None, st)"
proof -
  from tableSlot_spec [OF assms(1), of 0] consider k where "k < NT_OBTAB_ENTRIES" "tab_ob t ! k = None"
      "\<forall>j < k. tab_ob t ! j \<noteq> None" "tableSlot 0 (tab_ob t) = Done (int k)"
    | "\<forall>j < NT_OBTAB_ENTRIES. tab_ob t ! j \<noteq> None" "tableSlot 0 (tab_ob t) = Done (- 1)"
    unfolding slot_result_def by (elim disjE exE conjE) simp_all
  then show ?thesis
  proof cases
    case 1
    then have "obTableAdd (Some t) (Some a) st = Done (STATUS_SUCCESS, Some (t\<lparr>tab_ob := (tab_ob t)[k := Some a]\<rparr>),
        Some (int k), st\<lparr>objects := (objects st)(a \<mapsto> ob\<lparr>ob_ref := ob_ref ob + 1\<rparr>)\<rparr>)"
      using assms(2) by (simp add: obTableAdd_def modObj_def)
    with 1(1-3) show ?thesis by fastforce
  next
    case 2
    then show ?thesis by (simp add: obTableAdd_def)
  qed
qed

theorem obTableAdd_lowest_slot_witness:
  "\<exists>k t' st'. obTableAdd (Some \<lparr>tab_ob = Some 7 # replicate 31 None, openCount = 0\<rparr>) (Some 110) demo_store =
     Done (STATUS_SUCCESS, Some t', Some (int k), st') \<and> openCount t' = 0"
proof -
  let ?t = "\<lparr>tab_ob = Some 7 # replicate 31 None, openCount = 0\<rparr>"
  have t: "length (tab_ob ?t) = NT_OBTAB_ENTRIES" by (simp add: NT_OBTAB_ENTRIES_def)
  obtain ob where ob: "objects demo_store 110 = Some ob" by (simp add: demo_store_def)
  have free: "\<not> (\<forall>j < NT_OBTAB_ENTRIES. tab_ob ?t ! j \<noteq> None)"
  proof
    assume "\<forall>j < NT_OBTAB_ENTRIES. tab_ob ?t ! j \<noteq> None"
    then have "tab_ob ?t ! 1 \<noteq> None" unfolding NT_OBTAB_ENTRIES_def by (rule allE [of _ 1]) simp
    then show False by simp
  qed
  from obTableAdd_lowest_slot [OF t ob] free show ?thesis by fastforce
qed

end
