(* ===== verification/Devices.thy ===== *)
theory Devices
  imports Acpi Cpu ObjectStore
begin

text \<open>
  The device drivers: the interval timer \<^verbatim>\<open>isa/i8254.c\<close>, the event timer \<^verbatim>\<open>io/hpet.c\<close>, the
  serial port \<^verbatim>\<open>io/uart.c\<close>, the I/O interrupt controller \<^verbatim>\<open>mainbus/ioapic.c\<close> and the local
  one \<^verbatim>\<open>cpu/lapic.c\<close>, with \<^verbatim>\<open>io/timer.c\<close> and \<^verbatim>\<open>io/intrChip.c\<close>, which start them. The hardware
  is an arbitrary function: what a read returns may depend on every access made so far,
  which the bus records. A polling loop ends when the hardware lets it.
\<close>

section \<open>The bus\<close>

datatype access = Outb ushort uchar | Inb ushort | Read32 uquad | Write32 uquad ulong
  | Read64 uquad | Write64 uquad uquad | Rdmsr ulong | Wrmsr ulong uquad

record bus =
  trace :: "access list"
  device :: "access list \<Rightarrow> uquad"

definition ask :: "access \<Rightarrow> bus \<Rightarrow> uquad \<times> bus" where
  "ask a b = (device b (trace b @ [a]), b\<lparr>trace := trace b @ [a]\<rparr>)"

definition tell :: "access \<Rightarrow> bus \<Rightarrow> bus" where
  "tell a b = b\<lparr>trace := trace b @ [a]\<rparr>"

definition halBusOutb :: "ushort \<Rightarrow> uchar \<Rightarrow> bus \<Rightarrow> bus" where
  "halBusOutb port val b = tell (Outb port val) b"

definition halBusInb :: "ushort \<Rightarrow> bus \<Rightarrow> uchar \<times> bus" where
  "halBusInb port b = (case ask (Inb port) b of (x, b1) \<Rightarrow> (ucast x, b1))"

definition mmioRead32 :: "uquad \<Rightarrow> bus \<Rightarrow> ulong \<times> bus" where
  "mmioRead32 a b = (case ask (Read32 a) b of (x, b1) \<Rightarrow> (ucast x, b1))"

definition mmioWrite32 :: "uquad \<Rightarrow> ulong \<Rightarrow> bus \<Rightarrow> bus" where
  "mmioWrite32 a v b = tell (Write32 a v) b"

definition mmioRead64 :: "uquad \<Rightarrow> bus \<Rightarrow> uquad \<times> bus" where
  "mmioRead64 a b = ask (Read64 a) b"

definition mmioWrite64 :: "uquad \<Rightarrow> uquad \<Rightarrow> bus \<Rightarrow> bus" where
  "mmioWrite64 a v b = tell (Write64 a v) b"

text \<open>Repeat a step while its first result is true.\<close>

partial_function (option) poll :: "(bus \<Rightarrow> bool \<times> bus) \<Rightarrow> bus \<Rightarrow> bus option" where
  "poll go b = (let (again, b1) = go b in if again then poll go b1 else Some b1)"

section \<open>Interval timer\<close>

definition I8254_COMMAND :: ushort where "I8254_COMMAND = 0x43"
definition I8254_CHANNEL_0 :: ushort where "I8254_CHANNEL_0 = 0x40"
definition I8254_DIVIDEND :: uquad where "I8254_DIVIDEND = 1193182"

definition pitGetCount :: "bus \<Rightarrow> ushort \<times> bus" where
  "pitGetCount b =
     (let b1 = halBusOutb I8254_COMMAND 0x00 b;
          (lo, b2) = halBusInb I8254_CHANNEL_0 b1;
          (hi, b3) = halBusInb I8254_CHANNEL_0 b2
      in (push_bit 8 (ucast hi) OR ucast lo, b3))"

definition pitSetCount :: "ushort \<Rightarrow> bus \<Rightarrow> bus" where
  "pitSetCount count b =
     halBusOutb I8254_CHANNEL_0 (ucast (drop_bit 8 count AND 0xFF))
       (halBusOutb I8254_CHANNEL_0 (ucast (count AND 0xFF)) (halBusOutb I8254_COMMAND 0x34 b))"

definition pitSetFrequency :: "uquad \<Rightarrow> bus \<Rightarrow> bus outcome" where
  "pitSetFrequency frequencyHz b =
     (if frequencyHz = 0 then Fault
      else let divisor = I8254_DIVIDEND div frequencyHz;
               d = (if frequencyHz div 2 < I8254_DIVIDEND mod frequencyHz then divisor + 1 else divisor)
           in Done (pitSetCount (ucast d) b))"

text \<open>The operations of the \<^verbatim>\<open>isa-aux\<close> timer.\<close>

definition ktimerGetCount :: "bus \<Rightarrow> usize \<times> bus" where
  "ktimerGetCount b = (case pitGetCount b of (c, b1) \<Rightarrow> (ucast c, b1))"

definition ktimerSetCount :: "usize \<Rightarrow> bus \<Rightarrow> bus" where
  "ktimerSetCount count b = pitSetCount (ucast count) b"

section \<open>Serial port\<close>

definition UART_REG :: "ushort \<Rightarrow> ushort" where "UART_REG off = 0x3F8 + off"
definition UART_DIVISOR :: "nat \<Rightarrow> nat" where "UART_DIVISOR rate = 115200 div rate"

definition halUartWrite :: "uchar \<Rightarrow> bus \<Rightarrow> int \<times> bus" where
  "halUartWrite ch b = (sint ch, halBusOutb (UART_REG 0) ch b)"

text \<open>
  The test reads the port whose number is the truth value of \<^verbatim>\<open>UART_REG_RBR != 0xF0\<close>, that is
  port 1, and not the receive register.
\<close>

definition halUartInit :: "bus \<Rightarrow> int \<times> bus" where
  "halUartInit b =
     (let b1 = halBusOutb (UART_REG 3) (push_bit 7 1) (halBusOutb (UART_REG 1) 0x00 b);
          b2 = halBusOutb (UART_REG 1) 0x00 (halBusOutb (UART_REG 0) (of_nat (UART_DIVISOR 57600)) b1);
          b3 = halBusOutb (UART_REG 2) 0x00 (halBusOutb (UART_REG 3) (push_bit 0 1 OR push_bit 1 1) b2);
          b4 = halBusOutb (UART_REG 0) 0xF0 (halBusOutb (UART_REG 4) (push_bit 4 1) b3);
          (r, b5) = halBusInb (if UART_REG 0 \<noteq> 0xF0 then 1 else 0) b4
      in if r \<noteq> 0 then (- 1, b5) else (0, halBusOutb (UART_REG 4) (push_bit 0 1) b5))"

section \<open>I/O interrupt controller\<close>

definition REG_IOAPICID :: ushort where "REG_IOAPICID = 0x00"
definition REG_IOAPICVER :: ushort where "REG_IOAPICVER = 0x01"
definition REG_IOREDTBL :: ushort where "REG_IOREDTBL = 0x10"

definition ioApicRead32 :: "ulong_ptr \<Rightarrow> ushort \<Rightarrow> bus \<Rightarrow> ulong \<times> bus" where
  "ioApicRead32 base reg b = mmioRead32 (base + 0x10) (mmioWrite32 (base + 0x00) (ucast reg) b)"

definition ioApicWrite32 :: "ulong_ptr \<Rightarrow> ushort \<Rightarrow> ulong \<Rightarrow> bus \<Rightarrow> bus" where
  "ioApicWrite32 base reg val b = mmioWrite32 (base + 0x10) val (mmioWrite32 (base + 0x00) (ucast reg) b)"

definition ioApicReadRedentry :: "ulong_ptr \<Rightarrow> uchar \<Rightarrow> bus \<Rightarrow> uquad \<times> bus" where
  "ioApicReadRedentry base index b =
     (let (lo, b1) = ioApicRead32 base (REG_IOREDTBL + ucast index * 2) b;
          (hi, b2) = ioApicRead32 base (REG_IOREDTBL + ucast index * 2 + 1) b1
      in (push_bit 32 (ucast hi) OR ucast lo, b2))"

definition ioApicWriteRedentry :: "ulong_ptr \<Rightarrow> uquad \<Rightarrow> uchar \<Rightarrow> bus \<Rightarrow> bus" where
  "ioApicWriteRedentry base entry index b =
     ioApicWrite32 base (REG_IOREDTBL + ucast index * 2 + 1) (ucast (drop_bit 32 entry))
       (ioApicWrite32 base (REG_IOREDTBL + ucast index * 2) (ucast entry) b)"

text \<open>The field \<^verbatim>\<open>interruptMask\<close> is bit 16 of the redirection entry.\<close>

definition kiIoApicMaskGsi :: "ulong_ptr \<Rightarrow> uchar \<Rightarrow> bool \<Rightarrow> bus \<Rightarrow> bus" where
  "kiIoApicMaskGsi base gsi maskIt b =
     (let (entry, b1) = ioApicReadRedentry base gsi b
      in ioApicWriteRedentry base (if maskIt then set_bit 16 entry else unset_bit 16 entry) gsi b1)"

text \<open>The loop masks the inputs \<open>0, \<dots>, n - 1\<close>.\<close>

fun maskAll :: "ulong_ptr \<Rightarrow> nat \<Rightarrow> bus \<Rightarrow> bus" where
  "maskAll base 0 b = b"
| "maskAll base (Suc n) b = kiIoApicMaskGsi base (of_nat n) True (maskAll base n b)"

text \<open>The callback stores the address of the first I/O controller and ends the walk.\<close>

definition ioApicGetAddrCb :: "mem \<Rightarrow> uquad \<Rightarrow> ulong_ptr \<Rightarrow> (int \<times> ulong_ptr) run" where
  "ioApicGetAddrCb m e _ = Some (Done (0, ucast (ioapicAddr m e)))"

definition kiIoApicInit :: "acpi \<Rightarrow> bus \<Rightarrow> (ulong_ptr \<times> bus) run" where
  "kiIoApicInit s b =
     thenR (acpiReadMadt s APIC_TYPE_IO_APIC (Some (ioApicGetAddrCb (fw s))) 0) (\<lambda>(err, base).
       if err < 0 then Some (Panic ''failed to query I/O APIC base'')
       else let (idReg, b1) = ioApicRead32 base REG_IOAPICID b;
                (verReg, b2) = ioApicRead32 base REG_IOAPICVER b1;
                gsiCount = (drop_bit 16 verReg AND 0xFF) + 1
            in Some (Done (base, maskAll base (unat gsiCount) b2)))"

definition halInitIrqChip :: "acpi \<Rightarrow> bus \<Rightarrow> (int \<times> ulong_ptr \<times> bus) run" where
  "halInitIrqChip s b = thenR (kiIoApicInit s b) (\<lambda>(base, b1). Some (Done (0, base, b1)))"

section \<open>Event timer\<close>

definition HPET_REG_CAPS :: ushort where "HPET_REG_CAPS = 0x00"
definition HPET_GENERAL_CONFIG :: ushort where "HPET_GENERAL_CONFIG = 0x10"
definition HPET_REG_MAIN_COUNTER :: ushort where "HPET_REG_MAIN_COUNTER = 0xF0"
definition CAP_REV_ID :: "uquad \<Rightarrow> uquad" where "CAP_REV_ID caps = caps AND 0xFF"
definition CAP_CLK_PERIOD :: "uquad \<Rightarrow> uquad" where "CAP_CLK_PERIOD caps = drop_bit 32 caps"

definition hpetRead :: "ulong_ptr \<Rightarrow> ushort \<Rightarrow> bus \<Rightarrow> uquad \<times> bus" where
  "hpetRead base reg b = mmioRead64 (base + ucast reg) b"

definition hpetWrite :: "ulong_ptr \<Rightarrow> ushort \<Rightarrow> uquad \<Rightarrow> bus \<Rightarrow> bus" where
  "hpetWrite base reg val b = mmioWrite64 (base + ucast reg) val b"

definition hpetSleep :: "ulong_ptr \<Rightarrow> uquad \<Rightarrow> uquad \<Rightarrow> bus \<Rightarrow> (ntstatus \<times> bus) run" where
  "hpetSleep base n units b =
     (let (caps, b1) = hpetRead base HPET_REG_CAPS b;
          period = CAP_CLK_PERIOD caps;
          (counter, b2) = hpetRead base HPET_REG_MAIN_COUNTER b1
      in if period = 0 then Some Fault
         else let ticks = counter + n * (units div period)
           in case poll (\<lambda>x. case hpetRead base HPET_REG_MAIN_COUNTER x of (c, x1) \<Rightarrow> (c < ticks, x1)) b2 of
                None \<Rightarrow> None | Some b3 \<Rightarrow> Some (Done (STATUS_SUCCESS, b3)))"

definition hpetMsleep :: "ulong_ptr \<Rightarrow> usize \<Rightarrow> bus \<Rightarrow> (ntstatus \<times> bus) run" where
  "hpetMsleep base ms b = hpetSleep base ms 1000000000000 b"

definition ktimerMSleep :: "ulong_ptr \<Rightarrow> usize \<Rightarrow> bus \<Rightarrow> (ntstatus \<times> bus) run" where
  "ktimerMSleep base ms b = hpetMsleep base ms b"

section \<open>Local interrupt controller\<close>

definition LAPIC_ID :: ulong where "LAPIC_ID = 0x0020"
definition LAPIC_EOI :: ulong where "LAPIC_EOI = 0x00B0"
definition LAPIC_SVR :: ulong where "LAPIC_SVR = 0x00F0"
definition LAPIC_ICRLO :: ulong where "LAPIC_ICRLO = 0x0300"
definition LAPIC_ICRHI :: ulong where "LAPIC_ICRHI = 0x0310"
definition LAPIC_LVT_TMR :: ulong where "LAPIC_LVT_TMR = 0x0320"
definition LAPIC_DCR :: ulong where "LAPIC_DCR = 0x03E0"
definition LAPIC_INIT_CNT :: ulong where "LAPIC_INIT_CNT = 0x0380"
definition LAPIC_CUR_CNT :: ulong where "LAPIC_CUR_CNT = 0x0390"
definition LAPIC_TMR_SAMPLES :: uquad where "LAPIC_TMR_SAMPLES = 0xFFFF"
definition X2APIC_IPI_SELF :: ulong where "X2APIC_IPI_SELF = 0x3F0"
definition x2APIC_MSR_BASE :: ulong where "x2APIC_MSR_BASE = 0x800"
definition LAPIC_MMIO_BASE :: ulong where "LAPIC_MMIO_BASE = 0xFEE00000"

definition lapicRead :: "MCB \<Rightarrow> ulong \<Rightarrow> bus \<Rightarrow> uquad \<times> bus" where
  "lapicRead c reg b =
     (if hasX2Apic c then ask (Rdmsr (x2APIC_MSR_BASE + drop_bit 4 reg)) b
      else case mmioRead32 (lapicBase c + ucast reg) b of (v, b1) \<Rightarrow> (ucast v, b1))"

definition lapicWrite :: "MCB \<Rightarrow> ulong \<Rightarrow> uquad \<Rightarrow> bus \<Rightarrow> bus" where
  "lapicWrite c reg val b =
     (if hasX2Apic c then tell (Wrmsr (x2APIC_MSR_BASE + drop_bit 4 reg) val) b
      else mmioWrite32 (lapicBase c + ucast reg) (ucast val) b)"

definition lapicReadId :: "MCB \<Rightarrow> bus \<Rightarrow> ulong \<times> bus" where
  "lapicReadId c b =
     (let (v, b1) = lapicRead c LAPIC_ID b; idReg = ucast v :: ulong
      in if \<not> hasX2Apic c then (drop_bit 24 idReg AND 0xFF, b1)
         else case lapicRead c LAPIC_ID b1 of (w, b2) \<Rightarrow> (ucast w, b2))"

definition lapicStopTimer :: "MCB \<Rightarrow> bus \<Rightarrow> bus" where
  "lapicStopTimer c b = lapicWrite c LAPIC_INIT_CNT 0 (lapicWrite c LAPIC_LVT_TMR (push_bit 16 1) b)"

definition lapicTimerStart :: "MCB \<Rightarrow> bool \<Rightarrow> uchar \<Rightarrow> ulong \<Rightarrow> bus \<Rightarrow> bus" where
  "lapicTimerStart c maskIt mode count b =
     (let tmp = push_bit 17 (ucast mode) OR push_bit 16 (of_bool maskIt) OR ucast LAPIC_TMR_VEC :: ulong
      in lapicWrite c LAPIC_INIT_CNT (ucast count)
           (lapicWrite c LAPIC_DCR 0 (lapicWrite c LAPIC_LVT_TMR (ucast tmp) b)))"

text \<open>
  The difference of the two 16-bit counts is an \<^verbatim>\<open>int\<close>, converted to the 64-bit \<^verbatim>\<open>ticksTotal\<close>;
  the division by it faults when it is zero.
\<close>

definition lapicTimerInit :: "MCB \<Rightarrow> bus \<Rightarrow> (usize \<times> bus) run" where
  "lapicTimerInit c b =
     (let b1 = pitSetCount (ucast LAPIC_TMR_SAMPLES) (lapicStopTimer c b);
          (ticksStart, b2) = pitGetCount b1;
          b3 = lapicWrite c LAPIC_INIT_CNT LAPIC_TMR_SAMPLES b2
      in case poll (\<lambda>x. case lapicRead c LAPIC_CUR_CNT x of (n, x1) \<Rightarrow> (0 < n, x1)) b3 of
           None \<Rightarrow> None
         | Some b4 \<Rightarrow>
             (let (ticksEnd, b5) = pitGetCount b4;
                  ticksTotal = word_of_int (uint ticksStart - uint ticksEnd) :: usize
              in if ticksTotal = 0 then Some Fault
                 else Some (Done (LAPIC_TMR_SAMPLES div ticksTotal * I8254_DIVIDEND, lapicStopTimer c b5))))"

definition lapicTimerOneshot :: "MCB \<Rightarrow> bool \<Rightarrow> usize \<Rightarrow> bus \<Rightarrow> bus" where
  "lapicTimerOneshot c maskIt count b = lapicTimerStart c maskIt 0x00 (ucast count) b"

definition lapicIsPresent :: "cpu \<Rightarrow> bool" where
  "lapicIsPresent st = (case cpuid st 1 of (_, _, _, edx) \<Rightarrow> edx AND push_bit 9 1 \<noteq> 0)"

definition lapicHasX2Apic :: "cpu \<Rightarrow> bool" where
  "lapicHasX2Apic st = (case cpuid st 1 of (_, _, ecx, _) \<Rightarrow> ecx AND push_bit 21 1 \<noteq> 0)"


section \<open>The platform\<close>

text \<open>
  The processor, its bus, the object store, the firmware tables and the drivers' static
  variables. \<open>regs\<close> bundles what \<^verbatim>\<open>obCreateObject\<close> is given beyond its parameters: the scan
  fuel, the content of its uninitialised buffer and the allocator's answer.
\<close>

record regs =
  rg_fuel :: nat
  rg_junk :: "uchar list"
  rg_pool :: "elem option"

record plat =
  pcpu :: cpu
  pbus :: bus
  pstore :: ob_store
  pacpi :: acpi
  pitInitDone :: bool
  lapicTimerDone :: bool
  hpetBase :: ulong_ptr
  ioapicBase :: ulong_ptr

text \<open>The \<^verbatim>\<open>KTIMER\<close> structures of the three drivers, as the object data.\<close>

definition pit_timer :: nat where "pit_timer = 1"
definition hpet_timer :: nat where "hpet_timer = 2"
definition lapic_timer :: nat where "lapic_timer = 3"

definition timerObject :: "string \<Rightarrow> regs \<Rightarrow> ob_store \<Rightarrow> (ntstatus \<times> elem option \<times> ob_store) outcome" where
  "timerObject nm r st = obCreateObject (rg_fuel r) (rg_junk r) (rg_pool r)
     (Some \<lparr>cr_parent = Some (bytes ''/clkdev'' @ [0]), cr_name = Some (bytes nm @ [0]), cr_type = NT_OB_TIMER\<rparr>) st"

definition setData :: "elem option \<Rightarrow> nat \<Rightarrow> ob_store \<Rightarrow> ob_store outcome" where
  "setData a d st = (case a of None \<Rightarrow> Fault | Some x \<Rightarrow> modObj x (\<lambda>ob. ob\<lparr>ob_data := Some d\<rparr>) st)"

definition pitInit :: "regs \<Rightarrow> plat \<Rightarrow> (ntstatus \<times> plat) outcome" where
  "pitInit r p =
     (if pitInitDone p then Done (STATUS_SUCCESS, p)
      else andthen (timerObject ''isa-aux'' r (pstore p)) (\<lambda>(status, a, st).
        if status \<noteq> 0 then Done (status, p\<lparr>pstore := st\<rparr>)
        else andthen (setData a pit_timer st) (\<lambda>st1.
          Done (status, p\<lparr>pstore := st1, pitInitDone := True\<rparr>))))"

definition hpetRegister :: "regs \<Rightarrow> plat \<Rightarrow> (ntstatus \<times> plat) outcome" where
  "hpetRegister r p =
     andthen (timerObject ''aux'' r (pstore p)) (\<lambda>(status, a, st).
       if status \<noteq> STATUS_SUCCESS then Done (status, p\<lparr>pstore := st\<rparr>)
       else andthen (setData a hpet_timer st) (\<lambda>st1. Done (STATUS_SUCCESS, p\<lparr>pstore := st1\<rparr>)))"

definition kiHpetInit :: "regs \<Rightarrow> plat \<Rightarrow> plat outcome" where
  "kiHpetInit r p =
     andthen (acpiQueryTable (pacpi p) (bytes ''HPET'')) (\<lambda>hpet.
       case hpet of None \<Rightarrow> Panic ''board does not include HPET''
       | Some h \<Rightarrow>
           let base = toVirt (pacpi p) (hpet_gas_address (fw (pacpi p)) h);
               (val, b1) = hpetRead base HPET_REG_CAPS (pbus p);
               clkPeriod = ucast (CAP_CLK_PERIOD val) :: ulong;
               revId = ucast (CAP_REV_ID val) :: uchar
           in if clkPeriod = 0 \<or> 0x05F5E100 < clkPeriod then Panic ''bad HPET COUNTER_CLK_PERIOD''
              else if revId = 0 then Panic ''bad HPET revision ID''
              else let b2 = hpetWrite base HPET_GENERAL_CONFIG 1 (hpetWrite base HPET_REG_MAIN_COUNTER 0 b1)
                in andthen (hpetRegister r (p\<lparr>pbus := b2, hpetBase := base\<rparr>)) (\<lambda>(status, p1).
                  if status \<noteq> STATUS_SUCCESS then Panic ''could not register HPET'' else Done p1))"

definition kiLapicInitTimer :: "regs \<Rightarrow> plat \<Rightarrow> plat outcome" where
  "kiLapicInitTimer r p =
     (if lapicTimerDone p then Done p
      else andthen (timerObject ''sched'' r (pstore p)) (\<lambda>(status, a, st).
        if status \<noteq> STATUS_SUCCESS then Panic ''could not register sched timer''
        else andthen (setData a lapic_timer st) (\<lambda>st1. Done (p\<lparr>pstore := st1, lapicTimerDone := True\<rparr>))))"

text \<open>The three registrations get separate answers of the allocator.\<close>

definition halInitTimers :: "regs \<Rightarrow> regs \<Rightarrow> regs \<Rightarrow> plat \<Rightarrow> (ntstatus \<times> plat) outcome" where
  "halInitTimers r1 r2 r3 p =
     andthen (pitInit r1 p) (\<lambda>(_, p1). andthen (kiHpetInit r2 p1) (\<lambda>p2.
       andthen (kiLapicInitTimer r3 p2) (\<lambda>p3. Done (STATUS_SUCCESS, p3))))"

section \<open>Local interrupt controller operations\<close>

definition coreMcb :: "cpu \<Rightarrow> (ulong_ptr \<times> MCB) option outcome" where
  "coreMcb st =
     andthen (keGetCore st) (\<lambda>c. case c of None \<Rightarrow> Done None
       | Some a \<Rightarrow> andthen (getMcb a st) (\<lambda>m. Done (Some (a, m))))"

definition lapicTimerOneshotUsec :: "usize \<Rightarrow> plat \<Rightarrow> plat outcome" where
  "lapicTimerOneshotUsec usec p =
     andthen (coreMcb (pcpu p)) (\<lambda>c. case c of None \<Rightarrow> Panic ''could not get current core''
       | Some (_, m) \<Rightarrow> Done (p\<lparr>pbus := lapicTimerOneshot m False (usec * (lapicTmrFreq m div 1000000)) (pbus p)\<rparr>))"

datatype IPI_SHORTHAND = IPI_SHAND_NONE | IPI_SHAND_SELF | IPI_SHAND_AIS | IPI_SHAND_AXS

fun shand_num :: "IPI_SHORTHAND \<Rightarrow> ulong" where
  "shand_num IPI_SHAND_NONE = 0" | "shand_num IPI_SHAND_SELF = 1"
| "shand_num IPI_SHAND_AIS = 2" | "shand_num IPI_SHAND_AXS = 3"

definition IPI_DELMOD_INIT :: uchar where "IPI_DELMOD_INIT = 0x5"
definition IPI_DELMOD_STARTUP :: uchar where "IPI_DELMOD_STARTUP = 0x6"
definition IPI_DESTMODE_PHYSICAL :: uchar where "IPI_DESTMODE_PHYSICAL = 0"

record LAPIC_IPI =
  ipi_delmod :: uchar
  ipi_shand :: IPI_SHORTHAND
  ipi_vector :: uchar
  ipi_apicId :: uchar
  ipi_destMode :: uchar

definition icrLow :: "LAPIC_IPI \<Rightarrow> ulong" where
  "icrLow i = ucast (ipi_vector i) OR push_bit 8 (ucast (ipi_delmod i) AND 0x7) OR
     push_bit 11 (ucast (ipi_destMode i) AND 0x1) OR push_bit 18 (shand_num (ipi_shand i) AND 0x3)"

definition sendIpi :: "MCB \<Rightarrow> LAPIC_IPI \<Rightarrow> bus \<Rightarrow> bus option" where
  "sendIpi m i b =
     (if ipi_shand i = IPI_SHAND_SELF \<and> hasX2Apic m then Some (lapicWrite m X2APIC_IPI_SELF (ucast (ipi_vector i)) b)
      else if hasX2Apic m
      then Some (lapicWrite m LAPIC_ICRLO (push_bit 32 (ucast (ipi_apicId i)) OR ucast (icrLow i)) b)
      else poll (\<lambda>x. case lapicRead m LAPIC_ICRLO x of (v, x1) \<Rightarrow> ((ucast v :: ulong) AND push_bit 12 1 \<noteq> 0, x1))
             (lapicWrite m LAPIC_ICRLO (ucast (icrLow i))
               (lapicWrite m LAPIC_ICRHI (push_bit 24 (ucast (ipi_apicId i))) b)))"

definition kiLapicSendIpi :: "LAPIC_IPI \<Rightarrow> plat \<Rightarrow> (ntstatus \<times> plat) run" where
  "kiLapicSendIpi i p =
     thenR (Some (coreMcb (pcpu p))) (\<lambda>c. case c of None \<Rightarrow> Some (Panic ''could not get current core'')
       | Some (_, m) \<Rightarrow> (case sendIpi m i (pbus p) of None \<Rightarrow> None
           | Some b \<Rightarrow> Some (Done (STATUS_SUCCESS, p\<lparr>pbus := b\<rparr>))))"

definition kiLapicEoi :: "plat \<Rightarrow> plat outcome" where
  "kiLapicEoi p =
     andthen (coreMcb (pcpu p)) (\<lambda>c. case c of None \<Rightarrow> Panic ''assert kpcr != NULL failed''
       | Some (_, m) \<Rightarrow> Done (p\<lparr>pbus := lapicWrite m LAPIC_EOI 0 (pbus p)\<rparr>))"

definition lapicSetBase :: "ulong_ptr \<Rightarrow> plat \<Rightarrow> plat outcome" where
  "lapicSetBase kpcr p =
     andthen (acpiQueryTable (pacpi p) (bytes ''APIC'')) (\<lambda>madt.
       case madt of None \<Rightarrow> Panic ''lapicSetBase: could not query APIC tables''
       | Some a \<Rightarrow>
           let base = madt_lapicAddr (fw (pacpi p)) a
           in if base \<noteq> LAPIC_MMIO_BASE then Panic ''lapicSetBase: detected relocation of LAPIC base''
              else andthen (modMcb kpcr (\<lambda>m. m\<lparr>lapicBase := ucast base\<rparr>) (pcpu p)) (\<lambda>c. Done (p\<lparr>pcpu := c\<rparr>)))"

definition lapicEnable :: "ulong_ptr \<Rightarrow> plat \<Rightarrow> plat outcome" where
  "lapicEnable a p =
     (let x2 = lapicHasX2Apic (pcpu p) in
      andthen (modMcb a (\<lambda>m. m\<lparr>hasX2Apic := x2\<rparr>) (pcpu p)) (\<lambda>c1.
        let c2 = wrmsr IA32_APIC_BASE_MSR (rdmsr IA32_APIC_BASE_MSR c1 OR push_bit 11 1 OR push_bit 10 (of_bool x2)) c1
        in andthen (getMcb a c2) (\<lambda>m.
          let (svr, b1) = lapicRead m LAPIC_SVR (pbus p);
              b2 = lapicWrite m LAPIC_SVR (svr OR push_bit 8 1 OR 0xFF) b1;
              (i, b3) = lapicReadId m b2
          in andthen (modMcb a (\<lambda>m. m\<lparr>hwId := ucast i\<rparr>) c2) (\<lambda>c3. Done (p\<lparr>pcpu := c3, pbus := b3\<rparr>)))))"

definition kiLapicInit :: "plat \<Rightarrow> plat run" where
  "kiLapicInit p =
     thenR (Some (keGetCore (pcpu p))) (\<lambda>c.
       if \<not> lapicIsPresent (pcpu p) then Some (Panic ''CPU does not include on-board LAPIC unit'')
       else case c of None \<Rightarrow> Some Fault
       | Some a \<Rightarrow>
           thenR (Some (lapicEnable a p)) (\<lambda>p1.
           thenR (Some (getMcb a (pcpu p1))) (\<lambda>m.
           thenR (lapicTimerInit m (pbus p1)) (\<lambda>(freq, b).
           thenR (Some (modMcb a (\<lambda>m. m\<lparr>lapicTmrFreq := freq\<rparr>) (pcpu p1))) (\<lambda>c1.
           thenR (Some (tssAllocateStack False c1)) (\<lambda>(status, tmrStack, c2).
             if status \<noteq> STATUS_SUCCESS then Some (Panic ''could not allocate sched timer stack'')
             else thenR (Some (tssSetIntrStack (Some a) IST_SCHED tmrStack c2)) (\<lambda>(status2, c3).
               if status2 \<noteq> STATUS_SUCCESS then Some (Panic ''could not set sched timer stack'')
               else Some (Done (p1\<lparr>pcpu := c3, pbus := b\<rparr>)))))))))"


section \<open>Masking interrupts\<close>

text \<open>
  The I/O controller as its data sheet has it: a write to the window at \<open>base\<close> selects a
  register, an access to the window at \<open>base + 0x10\<close> reads or writes the selected one.
  \<open>ioapic_state\<close> replays a trace; \<open>ioapic_answers\<close> says that the hardware behaves so.
\<close>

fun ioapic_step :: "uquad \<Rightarrow> access \<Rightarrow> ulong \<times> (ulong \<Rightarrow> ulong) \<Rightarrow> ulong \<times> (ulong \<Rightarrow> ulong)" where
  "ioapic_step base (Write32 a v) (sel, R) =
     (if a = base then (v, R) else if a = base + 0x10 then (sel, R(sel := v)) else (sel, R))"
| "ioapic_step base _ s = s"

definition ioapic_state :: "uquad \<Rightarrow> (ulong \<Rightarrow> ulong) \<Rightarrow> access list \<Rightarrow> ulong \<times> (ulong \<Rightarrow> ulong)" where
  "ioapic_state base R0 tr = fold (ioapic_step base) tr (0, R0)"

definition ioapic_answers :: "uquad \<Rightarrow> (ulong \<Rightarrow> ulong) \<Rightarrow> (access list \<Rightarrow> uquad) \<Rightarrow> bool" where
  "ioapic_answers base R0 dev \<longleftrightarrow>
     (\<forall>tr. ucast (dev (tr @ [Read32 (base + 0x10)])) = (case ioapic_state base R0 tr of (sel, R) \<Rightarrow> R sel))"

abbreviation ioapic_regs :: "uquad \<Rightarrow> (ulong \<Rightarrow> ulong) \<Rightarrow> bus \<Rightarrow> ulong \<Rightarrow> ulong" where
  "ioapic_regs base R0 b \<equiv> snd (ioapic_state base R0 (trace b))"

lemma ioapic_state_append [simp]:
  "ioapic_state base R0 (tr @ as) = fold (ioapic_step base) as (ioapic_state base R0 tr)"
  by (simp add: ioapic_state_def)

lemma ioapic_write:
  "ioapic_regs base R0 (ioApicWrite32 base r v b) = (ioapic_regs base R0 b)(ucast r := v) \<and>
    device (ioApicWrite32 base r v b) = device b"
  by (cases "ioapic_state base R0 (trace b)") (simp add: ioApicWrite32_def mmioWrite32_def tell_def)

lemma ioapic_read:
  assumes "ioapic_answers base R0 (device b)"
  obtains b1 where "ioApicRead32 base r b = (ioapic_regs base R0 b (ucast r), b1)"
    "ioapic_regs base R0 b1 = ioapic_regs base R0 b" "device b1 = device b"
proof -
  obtain s R where sR: "ioapic_state base R0 (trace b) = (s, R)" by fastforce
  let ?tr = "trace b @ [Write32 base (ucast r)]"
  have "ucast (device b (?tr @ [Read32 (base + 0x10)])) = R (ucast r)"
    using assms [unfolded ioapic_answers_def, THEN spec, of ?tr] sR by simp
  then have "ioApicRead32 base r b = (R (ucast r), b\<lparr>trace := ?tr @ [Read32 (base + 0x10)]\<rparr>)"
    by (simp add: ioApicRead32_def mmioRead32_def mmioWrite32_def ask_def tell_def)
  with that sR show thesis by simp
qed

lemma low_half: "ucast (push_bit 32 (ucast hi) OR ucast (lo :: ulong) :: uquad) = lo" for hi :: ulong
  by (rule bit_word_eqI) (auto simp: bit_simps)

lemma high_half: "ucast (drop_bit 32 (push_bit 32 (ucast hi) OR ucast (lo :: ulong) :: uquad)) = hi" for hi :: ulong
  by (rule bit_word_eqI) (auto simp: bit_simps dest: bit_imp_le_length)

lemma mask_low: "ucast (set_bit 16 x) = set_bit 16 (ucast x :: ulong)" for x :: uquad
  by (rule bit_word_eqI) (auto simp: bit_simps)

lemma mask_high: "drop_bit 32 (set_bit 16 x) = drop_bit 32 x" for x :: uquad
  by (rule bit_word_eqI) (auto simp: bit_simps)

text \<open>The register of input \<open>i\<close>.\<close>

abbreviation redirection :: "nat \<Rightarrow> ulong" where
  "redirection i \<equiv> 0x10 + 2 * of_nat i"

lemma redirection_unat: "i < 256 \<Longrightarrow> unat (redirection i) = 16 + 2 * i"
  by (simp add: unat_word_ariths unat_of_nat take_bit_nat_eq_self)

lemma redirection_inj: "i < 256 \<Longrightarrow> j < 256 \<Longrightarrow> redirection i = redirection j \<longleftrightarrow> i = j"
proof
  assume "i < 256" "j < 256" "redirection i = redirection j"
  then have "16 + 2 * i = 16 + 2 * j" using redirection_unat [of i] redirection_unat [of j] by metis
  then show "i = j" by simp
qed simp

lemma redirection_index:
  assumes "i < 256"
  shows "ucast (REG_IOREDTBL + ucast (of_nat i :: uchar) * 2) = redirection i"
    and "ucast (REG_IOREDTBL + ucast (of_nat i :: uchar) * 2 + 1) = redirection i + 1"
proof -
  have "ucast (of_nat i :: uchar) = (of_nat i :: ushort)"
    using assms by (simp add: word_eq_iff_unsigned [where 'a = nat] unsigned_ucast_eq unat_of_nat take_bit_nat_eq_self)
  then have A: "ucast (of_nat i :: uchar) = (of_nat i :: ushort)" .
  have s: "unat (0x10 + of_nat i * 2 :: ushort) = 16 + 2 * i" "unat (0x10 + of_nat i * 2 + 1 :: ushort) = 17 + 2 * i"
    using assms by (simp_all add: unat_word_ariths unat_of_nat take_bit_nat_eq_self)
  have l: "unat (redirection i) = 16 + 2 * i" "unat (redirection i + 1) = 17 + 2 * i"
    using assms by (simp_all add: unat_word_ariths unat_of_nat take_bit_nat_eq_self)
  have t: "take_bit 32 (16 + 2 * i) = 16 + 2 * i" "take_bit 32 (17 + 2 * i) = 17 + 2 * i"
    using assms by (simp_all add: take_bit_nat_eq_self)
  show "ucast (REG_IOREDTBL + ucast (of_nat i :: uchar) * 2) = redirection i"
    unfolding A REG_IOREDTBL_def word_unat_eq_iff unsigned_ucast_eq s l t(1) by (simp add: t)
  show "ucast (REG_IOREDTBL + ucast (of_nat i :: uchar) * 2 + 1) = redirection i + 1"
    unfolding A REG_IOREDTBL_def word_unat_eq_iff unsigned_ucast_eq s l by (simp add: t)
qed

lemma kiIoApicMaskGsi_regs:
  assumes "ioapic_answers base R0 (device b)" "i < 256"
  shows "ioapic_regs base R0 (kiIoApicMaskGsi base (of_nat i) True b) =
      (ioapic_regs base R0 b)(redirection i := set_bit 16 (ioapic_regs base R0 b (redirection i)))"
    and "device (kiIoApicMaskGsi base (of_nat i) True b) = device b"
proof -
  let ?R = "ioapic_regs base R0 b" and ?g = "of_nat i :: uchar"
  obtain b1 where b1: "ioApicRead32 base (REG_IOREDTBL + ucast ?g * 2) b = (?R (redirection i), b1)"
    "ioapic_regs base R0 b1 = ?R" "device b1 = device b"
    using ioapic_read [OF assms(1)] redirection_index(1) [OF assms(2)] by metis
  from b1(3) assms(1) have "ioapic_answers base R0 (device b1)" by simp
  then obtain b2 where b2: "ioApicRead32 base (REG_IOREDTBL + ucast ?g * 2 + 1) b1 = (?R (redirection i + 1), b2)"
    "ioapic_regs base R0 b2 = ?R" "device b2 = device b1"
    using ioapic_read redirection_index(2) [OF assms(2)] b1(2) by metis
  show "ioapic_regs base R0 (kiIoApicMaskGsi base ?g True b) = ?R(redirection i := set_bit 16 (?R (redirection i)))"
    "device (kiIoApicMaskGsi base ?g True b) = device b"
    using b1 b2
    by (simp_all add: kiIoApicMaskGsi_def ioApicReadRedentry_def ioApicWriteRedentry_def ioapic_write redirection_index [OF assms(2)]
        mask_low mask_high low_half high_half fun_upd_idem del: drop_bit_or)
qed

lemma maskAll_regs:
  assumes "ioapic_answers base R0 (device b)"
  shows "n \<le> 256 \<Longrightarrow> device (maskAll base n b) = device b \<and>
    ioapic_regs base R0 (maskAll base n b) =
      (\<lambda>r. if \<exists>i < n. r = redirection i then set_bit 16 (ioapic_regs base R0 b r) else ioapic_regs base R0 b r)"
proof (induction n)
  case 0
  then show ?case by simp
next
  case (Suc n)
  then have IH: "device (maskAll base n b) = device b" "ioapic_regs base R0 (maskAll base n b) =
      (\<lambda>r. if \<exists>i < n. r = redirection i then set_bit 16 (ioapic_regs base R0 b r) else ioapic_regs base R0 b r)" by auto
  have "redirection n \<noteq> redirection i" if "i < n" for i
    using that Suc.prems redirection_inj [of n i] by simp
  then have new: "\<not> (\<exists>i < n. redirection n = redirection i)" by blast
  from IH(1) assms have ans: "ioapic_answers base R0 (device (maskAll base n b))" by simp
  have n: "n < 256" using Suc.prems by simp
  have "ioapic_regs base R0 (maskAll base (Suc n) b) r =
      (if \<exists>i < Suc n. r = redirection i then set_bit 16 (ioapic_regs base R0 b r) else ioapic_regs base R0 b r)" for r
    unfolding maskAll.simps kiIoApicMaskGsi_regs(1) [OF ans n] IH(2) using new less_Suc_eq by (cases "r = redirection n") auto
  moreover have "device (maskAll base (Suc n) b) = device b"
    using kiIoApicMaskGsi_regs(2) [OF ans n] IH(1) by simp
  ultimately show ?case by blast
qed


text \<open>
  Every interrupt input starts masked. When the walk over the firmware's table finds an
  I/O controller at \<open>base\<close> and the hardware there behaves as its data sheet says,
  \<^verbatim>\<open>kiIoApicInit\<close> sets the mask bit in the redirection register of each input the controller
  reports, and changes no other bit of any register.
\<close>

theorem kiIoApicInit_masks:
  assumes "acpiReadMadt s APIC_TYPE_IO_APIC (Some (ioApicGetAddrCb (fw s))) 0 = Some (Done (0, base))"
    and "ioapic_answers base R0 (device b)"
    and "n = unat (drop_bit 16 (ioapic_regs base R0 b 1) AND 0xFF) + 1"
  shows "\<exists>b'. kiIoApicInit s b = Some (Done (base, b')) \<and>
    ioapic_regs base R0 b' =
      (\<lambda>r. if \<exists>i < n. r = redirection i then set_bit 16 (ioapic_regs base R0 b r) else ioapic_regs base R0 b r)"
proof -
  let ?R = "ioapic_regs base R0 b"
  obtain b1 where b1: "ioApicRead32 base REG_IOAPICID b = (?R (ucast REG_IOAPICID), b1)"
    "ioapic_regs base R0 b1 = ?R" "device b1 = device b"
    by (rule ioapic_read [OF assms(2), of REG_IOAPICID])
  from b1(3) assms(2) have "ioapic_answers base R0 (device b1)" by simp
  then obtain b2 where b2: "ioApicRead32 base REG_IOAPICVER b1 = (ioapic_regs base R0 b1 (ucast REG_IOAPICVER), b2)"
    "ioapic_regs base R0 b2 = ioapic_regs base R0 b1" "device b2 = device b1"
    by (rule ioapic_read)
  have m: "(0xFF :: ulong) = mask 8" by (simp add: mask_eq_exp_minus_1)
  let ?c = "drop_bit 16 (?R 1) AND 0xFF"
  have "unat ?c < 2 ^ 8"
    unfolding m take_bit_eq_mask [symmetric] unsigned_take_bit_eq by (rule take_bit_nat_less_exp)
  then have n: "unat (?c + 1) = n" "n \<le> 256" using assms(3) by (simp_all add: unat_word_ariths)
  have v: "ucast REG_IOAPICVER = (1 :: ulong)" by (simp add: REG_IOAPICVER_def)
  have "kiIoApicInit s b = Some (Done (base, maskAll base n b2))"
    using assms(1) b1 b2 n(1) v by (simp add: kiIoApicInit_def)
  moreover have "ioapic_answers base R0 (device b2)" using assms(2) b1(3) b2(3) by simp
  ultimately show ?thesis using maskAll_regs [of base R0 b2 n] n(2) b1(2) b2(2) by (simp cong: if_cong)
qed

text \<open>A controller with four inputs, all unmasked, for the firmware of \<open>demo_acpi\<close>.\<close>

definition demo_regs :: "ulong \<Rightarrow> ulong" where
  "demo_regs r = (if r = 1 then 0x30011 else 0x20)"

definition demo_ioapic :: "access list \<Rightarrow> uquad" where
  "demo_ioapic tr = (case ioapic_state 0xFEC00000 demo_regs (butlast tr) of (sel, R) \<Rightarrow> ucast (R sel))"

theorem kiIoApicInit_masks_witness:
  "\<exists>b'. kiIoApicInit demo_acpi \<lparr>trace = [], device = demo_ioapic\<rparr> = Some (Done (0xFEC00000, b')) \<and>
    ioapic_regs 0xFEC00000 demo_regs b' 0x16 = 0x10020 \<and> ioapic_regs 0xFEC00000 demo_regs b' 0x18 = 0x20"
proof -
  let ?b = "\<lparr>trace = [], device = demo_ioapic\<rparr>"
  have dn: "ucast (ucast x :: uquad) = x" for x :: ulong by (rule bit_word_eqI) (auto simp: bit_simps)
  have ans: "ioapic_answers 0xFEC00000 demo_regs (device ?b)"
    by (auto simp: ioapic_answers_def demo_ioapic_def butlast_append dn split: prod.splits)
  have walk: "acpiReadMadt demo_acpi APIC_TYPE_IO_APIC (Some (ioApicGetAddrCb (fw demo_acpi))) 0 = Some (Done (0, 0xFEC00000))"
  proof -
    have "ioapicAddr (fw demo_acpi) 0x334 = 0xFEC00000" by code_simp
    then show ?thesis by (simp add: demo_madt demo_types ioApicGetAddrCb_def)
  qed
  have n: "4 = unat (drop_bit 16 (ioapic_regs 0xFEC00000 demo_regs ?b 1) AND 0xFF) + 1"
    by (simp add: ioapic_state_def demo_regs_def)
  have idx: "\<exists>i < (4 :: nat). (0x16 :: ulong) = redirection i" "\<not> (\<exists>i < (4 :: nat). (0x18 :: ulong) = redirection i)"
    using redirection_inj [of 4] by (force intro: exI [of _ 3], fastforce)
  have val: "ioapic_regs 0xFEC00000 demo_regs ?b 0x16 = 0x20" "ioapic_regs 0xFEC00000 demo_regs ?b 0x18 = 0x20"
    "set_bit 16 (0x20 :: ulong) = 0x10020"
    by (simp_all add: ioapic_state_def demo_regs_def set_bit_eq_or)
  from kiIoApicInit_masks [OF walk ans n] obtain b' where
    b': "kiIoApicInit demo_acpi ?b = Some (Done (0xFEC00000, b'))"
    "ioapic_regs 0xFEC00000 demo_regs b' = (\<lambda>r. if \<exists>i < (4 :: nat). r = redirection i
      then set_bit 16 (ioapic_regs 0xFEC00000 demo_regs ?b r) else ioapic_regs 0xFEC00000 demo_regs ?b r)"
    by blast
  have "ioapic_regs 0xFEC00000 demo_regs b' 0x16 = 0x10020" unfolding b'(2) val if_P [OF idx(1)] ..
  moreover have "ioapic_regs 0xFEC00000 demo_regs b' 0x18 = 0x20" unfolding b'(2) val if_not_P [OF idx(2)] ..
  ultimately show ?thesis using b'(1) by blast
qed

section \<open>Serial port test\<close>

text \<open>
  The serial port's loopback test. \<^verbatim>\<open>halUartInit\<close> never reads the receive register: its
  only read is of port 1, and it reports success exactly when that port reads zero.
\<close>

theorem halUartInit_reads_port_1:
  "\<exists>ws ws'. trace (snd (halUartInit b)) = trace b @ ws @ [Inb 1] @ ws' \<and> (\<forall>p. Inb p \<notin> set (ws @ ws')) \<and>
    (fst (halUartInit b) = 0 \<longleftrightarrow> ucast (device b (trace b @ ws @ [Inb 1])) = (0 :: uchar))"
proof -
  let ?ws = "[Outb 0x3F9 0, Outb 0x3FB 0x80, Outb 0x3F8 2, Outb 0x3F9 0, Outb 0x3FB 3, Outb 0x3FA 0, Outb 0x3FC 0x10, Outb 0x3F8 0xF0]"
  show ?thesis
  proof (cases "ucast (device b (trace b @ ?ws @ [Inb 1])) = (0 :: uchar)")
    case True
    then show ?thesis
      by (intro exI [of _ ?ws] exI [of _ "[Outb 0x3FC 1]"])
         (simp add: halUartInit_def halBusOutb_def halBusInb_def ask_def tell_def UART_REG_def UART_DIVISOR_def Let_def)
  next
    case False
    then show ?thesis
      by (intro exI [of _ ?ws] exI [of _ "[]"])
         (simp add: halUartInit_def halBusOutb_def halBusInb_def ask_def tell_def UART_REG_def UART_DIVISOR_def Let_def)
  qed
qed

end
