(* ===== verification/Trap.thy ===== *)
theory Trap
  imports Sched Devices Process
begin

text \<open>
  How the processor enters and leaves the kernel: the frame macros of
  \<^verbatim>\<open>include/platform/amd64/frameAsm.h\<close>, the entry points of \<^verbatim>\<open>cpu/trap.S\<close> and \<^verbatim>\<open>cpu/vector.S\<close>,
  the C side \<^verbatim>\<open>cpu/trap.c\<close> and \<^verbatim>\<open>ke/syscall.c\<close>, and the log on the serial port, \<^verbatim>\<open>ex/trace.c\<close> and
  \<^verbatim>\<open>ke/trace.c\<close>. The macros are lists of instructions; a C function called with the stack pointer
  as its argument works on the words found there as a \<^verbatim>\<open>struct trapFrame\<close>.
\<close>

section \<open>Instructions\<close>

datatype reg = RAX | RCX | RDX | RBX | RSI | RDI | RBP | R8 | R9 | R10 | R11 | R12 | R13 | R14 | R15

text \<open>
  \<open>AddRsp\<close> and \<open>SubRsp\<close> move the stack pointer by one word, \<open>TestJz n k\<close> is \<^verbatim>\<open>testq $3\<close> of the word
  \<open>n\<close> above the stack pointer with a jump over the next \<open>k\<close> instructions when it is zero. The last
  four are the accesses to the core block through the segment base.
\<close>

datatype instr = Push reg | PushI uquad | Pop reg | AddRsp | SubRsp | Lfence | Swapgs | Cli | Sti | TestJz nat nat
  | RspToGs8 | Gs0ToRsp | Gs8ToRsp | ZeroGs8

text \<open>
  \<open>stk\<close> are the words from the stack pointer upwards, as far as they belong to the frames at
  hand, and \<open>stale\<close> is what lies below. \<open>user_gs\<close> says whose segment base is in use. The first two
  words of the core block are \<open>gs_stack\<close> and \<open>gs_save\<close>.
\<close>

record mstate =
  gpr :: "reg \<Rightarrow> uquad"
  rsp :: uquad
  stk :: "uquad list"
  stale :: uquad
  user_gs :: bool
  intr_on :: bool
  gs_stack :: uquad
  gs_save :: uquad

fun exec :: "instr \<Rightarrow> mstate \<Rightarrow> mstate option" where
  "exec (Push r) s = Some (s\<lparr>rsp := rsp s - 8, stk := gpr s r # stk s\<rparr>)"
| "exec (PushI n) s = Some (s\<lparr>rsp := rsp s - 8, stk := n # stk s\<rparr>)"
| "exec (Pop r) s =
     (case stk s of [] \<Rightarrow> None | x # xs \<Rightarrow> Some (s\<lparr>gpr := (gpr s)(r := x), rsp := rsp s + 8, stk := xs\<rparr>))"
| "exec AddRsp s = (case stk s of [] \<Rightarrow> None | x # xs \<Rightarrow> Some (s\<lparr>rsp := rsp s + 8, stk := xs\<rparr>))"
| "exec SubRsp s = Some (s\<lparr>rsp := rsp s - 8, stk := stale s # stk s\<rparr>)"
| "exec Lfence s = Some s"
| "exec Swapgs s = Some (s\<lparr>user_gs := \<not> user_gs s\<rparr>)"
| "exec Cli s = Some (s\<lparr>intr_on := False\<rparr>)"
| "exec Sti s = Some (s\<lparr>intr_on := True\<rparr>)"
| "exec (TestJz n k) s = Some s"
| "exec RspToGs8 s = (if user_gs s then None else Some (s\<lparr>gs_save := rsp s\<rparr>))"
| "exec Gs0ToRsp s = (if user_gs s then None else Some (s\<lparr>rsp := gs_stack s, stk := []\<rparr>))"
| "exec Gs8ToRsp s = (if user_gs s then None else Some (s\<lparr>rsp := gs_save s, stk := []\<rparr>))"
| "exec ZeroGs8 s = (if user_gs s then None else Some (s\<lparr>gs_save := 0\<rparr>))"

function run_code :: "instr list \<Rightarrow> mstate \<Rightarrow> mstate option" where
  "run_code [] s = Some s"
| "run_code (i # is) s =
     (case i of
        TestJz n k \<Rightarrow>
          if n < length (stk s) then run_code (if stk s ! n AND 3 = 0 then drop k is else is) s else None
      | _ \<Rightarrow> (case exec i s of None \<Rightarrow> None | Some s1 \<Rightarrow> run_code is s1))"
  by pat_completeness auto
termination by (relation "measure (\<lambda>(is, s). length is)") auto

section \<open>Frames\<close>

definition PUSH_ALL :: "instr list" where
  "PUSH_ALL = map Push [R15, R14, R13, R12, R11, R10, R9, R8, RBP, RDI, RSI, RBX, RDX, RCX, RAX]"

definition POP_ALL :: "instr list" where
  "POP_ALL = map Pop [RAX, RCX, RDX, RBX, RSI, RDI, RBP, R8, R9, R10, R11, R12, R13, R14, R15]"

definition PUSH_TRAPFRAME_EC :: "uquad \<Rightarrow> instr list" where "PUSH_TRAPFRAME_EC trapno = PUSH_ALL @ [PushI trapno]"
definition POP_TRAPFRAME_EC :: "instr list" where "POP_TRAPFRAME_EC = AddRsp # POP_ALL"
definition PUSH_TRAPFRAME :: "uquad \<Rightarrow> instr list" where "PUSH_TRAPFRAME trapno = PushI 0 # PUSH_TRAPFRAME_EC trapno"
definition POP_TRAPFRAME :: "instr list" where "POP_TRAPFRAME = POP_TRAPFRAME_EC @ [AddRsp]"

definition INTR_ENTRY :: "instr list" where "INTR_ENTRY = [TestJz 1 2, Lfence, Swapgs] @ PUSH_TRAPFRAME 0"
definition INTR_EXIT :: "instr list" where "INTR_EXIT = POP_TRAPFRAME @ [TestJz 1 2, Lfence, Swapgs]"

definition TRAP_ENTRY_EC :: "uquad \<Rightarrow> instr list" where
  "TRAP_ENTRY_EC trapno = [Cli, TestJz 2 2, Lfence, Swapgs] @ PUSH_TRAPFRAME_EC trapno"
definition TRAP_EXIT_EC :: "instr list" where "TRAP_EXIT_EC = POP_TRAPFRAME_EC @ [TestJz 2 3, Lfence, Swapgs, Sti]"
definition TRAP_ENTRY :: "uquad \<Rightarrow> instr list" where
  "TRAP_ENTRY trapno = [Cli, TestJz 1 2, Lfence, Swapgs] @ PUSH_TRAPFRAME trapno"
definition TRAP_EXIT :: "instr list" where "TRAP_EXIT = POP_TRAPFRAME_EC @ [TestJz 2 3, Lfence, Swapgs, Sti]"

text \<open>The words of a \<^verbatim>\<open>struct trapFrame\<close>, and the structure found at the start of some words.\<close>

definition frameWords :: "trapFrame \<Rightarrow> uquad list" where
  "frameWords f =
     [tf_trapno f, tf_rax f, tf_rcx f, tf_rdx f, tf_rbx f, tf_rsi f, tf_rdi f, tf_rbp f, tf_r8 f, tf_r9 f, tf_r10 f,
      tf_r11 f, tf_r12 f, tf_r13 f, tf_r14 f, tf_r15 f, tf_error_code f, tf_rip f, tf_cs f, tf_rflags f, tf_rsp f, tf_ss f]"

definition frameOf :: "uquad list \<Rightarrow> trapFrame" where
  "frameOf w = \<lparr>tf_trapno = w ! 0, tf_rax = w ! 1, tf_rcx = w ! 2, tf_rdx = w ! 3, tf_rbx = w ! 4, tf_rsi = w ! 5,
     tf_rdi = w ! 6, tf_rbp = w ! 7, tf_r8 = w ! 8, tf_r9 = w ! 9, tf_r10 = w ! 10, tf_r11 = w ! 11, tf_r12 = w ! 12,
     tf_r13 = w ! 13, tf_r14 = w ! 14, tf_r15 = w ! 15, tf_error_code = w ! 16, tf_rip = w ! 17, tf_cs = w ! 18,
     tf_rflags = w ! 19, tf_rsp = w ! 20, tf_ss = w ! 21\<rparr>"

text \<open>A C function called with the stack pointer as a frame: the frame's words are replaced.\<close>

definition call_c :: "(trapFrame \<Rightarrow> (trapFrame \<times> 's) outcome) \<Rightarrow> mstate \<Rightarrow> (mstate \<times> 's) outcome" where
  "call_c f s =
     (if 22 \<le> length (stk s)
      then andthen (f (frameOf (stk s))) (\<lambda>(fr, x). Done (s\<lparr>stk := frameWords fr @ drop 22 (stk s)\<rparr>, x))
      else Fault)"

definition code :: "instr list \<Rightarrow> mstate \<Rightarrow> mstate outcome" where
  "code is s = (case run_code is s of None \<Rightarrow> Fault | Some s1 \<Rightarrow> Done s1)"

text \<open>What \<^verbatim>\<open>iretq\<close> takes from the stack: rip, cs, rflags, rsp, ss.\<close>

definition iretq :: "mstate \<Rightarrow> (uquad \<times> uquad \<times> uquad \<times> uquad \<times> uquad) option" where
  "iretq s = (case stk s of a # b # c # d # e # _ \<Rightarrow> Some (a, b, c, d, e) | _ \<Rightarrow> None)"

section \<open>Exceptions\<close>

definition TRAP_NONE :: uquad where "TRAP_NONE = 0"
definition TRAP_BREAKPOINT :: uquad where "TRAP_BREAKPOINT = 1"
definition TRAP_ARITH_ERR :: uquad where "TRAP_ARITH_ERR = 2"
definition TRAP_OVERFLOW :: uquad where "TRAP_OVERFLOW = 3"
definition TRAP_BOUND_RANGE :: uquad where "TRAP_BOUND_RANGE = 4"
definition TRAP_INVLOP :: uquad where "TRAP_INVLOP = 5"
definition TRAP_DOUBLE_FAULT :: uquad where "TRAP_DOUBLE_FAULT = 6"
definition TRAP_INVLTSS :: uquad where "TRAP_INVLTSS = 7"
definition TRAP_SEGNP :: uquad where "TRAP_SEGNP = 8"
definition TRAP_PROTFLT :: uquad where "TRAP_PROTFLT = 9"
definition TRAP_PAGEFLT :: uquad where "TRAP_PAGEFLT = 10"
definition TRAP_NMI :: uquad where "TRAP_NMI = 11"
definition TRAP_SS :: uquad where "TRAP_SS = 12"



text \<open>The entry and exit of each stub of \<^verbatim>\<open>trap.S\<close>; the other two labels belong to \<^verbatim>\<open>vector.S\<close>.\<close>

fun stub :: "isr_label \<Rightarrow> (instr list \<times> instr list) option" where
  "stub breakpoint_handler = Some (TRAP_ENTRY TRAP_BREAKPOINT, TRAP_EXIT)"
| "stub arith_err = Some (TRAP_ENTRY TRAP_ARITH_ERR, TRAP_EXIT)"
| "stub overflow = Some (TRAP_ENTRY TRAP_OVERFLOW, TRAP_EXIT)"
| "stub bound_range = Some (TRAP_ENTRY TRAP_BOUND_RANGE, TRAP_EXIT)"
| "stub invl_op = Some (TRAP_ENTRY TRAP_INVLOP, TRAP_EXIT)"
| "stub double_fault = Some (TRAP_ENTRY_EC TRAP_DOUBLE_FAULT, TRAP_EXIT_EC)"
| "stub invl_tss = Some (TRAP_ENTRY_EC TRAP_INVLTSS, TRAP_EXIT_EC)"
| "stub segnp = Some (TRAP_ENTRY_EC TRAP_SEGNP, TRAP_EXIT_EC)"
| "stub general_prot = Some (TRAP_ENTRY_EC TRAP_PROTFLT, TRAP_EXIT_EC)"
| "stub page_fault = Some (TRAP_ENTRY_EC TRAP_PAGEFLT, TRAP_EXIT_EC)"
| "stub nmi = Some (TRAP_ENTRY TRAP_NMI, TRAP_EXIT)"
| "stub ss_fault = Some (TRAP_ENTRY_EC TRAP_SS, TRAP_EXIT_EC)"
| "stub lapicTmrIsr = None"
| "stub syscallHandler = None"


section \<open>The timer interrupt\<close>

definition lapicTmrIsr_code :: "elem option \<Rightarrow> core option \<Rightarrow> mstate \<Rightarrow> sched \<Rightarrow> (mstate \<times> sched) outcome" where
  "lapicTmrIsr_code junk c s st =
     andthen (code INTR_ENTRY s) (\<lambda>s1.
     andthen (call_c (\<lambda>fr. halSchedSwitch junk c fr st) s1) (\<lambda>(s2, st2).
     andthen (code INTR_EXIT s2) (\<lambda>s3. Done (s3, st2))))"

section \<open>System calls\<close>

definition NT_SYS_NONE :: uquad where "NT_SYS_NONE = 0"

record SYSCALL_ARGS =
  sc_code :: uquad
  sc_arg :: "uquad list"

text \<open>A NULL entry of the table is \<open>None\<close>.\<close>

definition g_syscallTable :: "(SYSCALL_ARGS \<Rightarrow> uquad) option list" where "g_syscallTable = [None]"
definition g_syscallCount :: usize where "g_syscallCount = of_nat (length g_syscallTable)"

definition trap_syscall :: "trapFrame \<Rightarrow> (trapFrame \<times> unit) outcome" where
  "trap_syscall tf =
     (let args = \<lparr>sc_code = tf_rax tf, sc_arg = [tf_rdi tf, tf_rsi tf, tf_rdx tf, tf_r10 tf, tf_r9 tf, tf_r8 tf]\<rparr>
      in if g_syscallCount \<le> sc_code args then Done (tf, ())
         else case g_syscallTable ! unat (sc_code args) of
             None \<Rightarrow> Fault
           | Some f \<Rightarrow> Done (tf\<lparr>tf_rax := f args\<rparr>, ()))"

text \<open>
  The stub saves 16 words; what the structure has beyond them are the six words \<open>beyond\<close> the top of
  the system call stack.
\<close>

definition syscall_entry :: "instr list" where
  "syscall_entry = [Lfence, Swapgs, RspToGs8, Gs0ToRsp] @ PUSH_ALL @ [SubRsp]"

definition syscall_exit :: "instr list" where
  "syscall_exit = [AddRsp] @ POP_ALL @ [Gs8ToRsp, ZeroGs8, Lfence, Swapgs]"

definition syscallHandler_code :: "(trapFrame \<Rightarrow> (trapFrame \<times> unit) outcome) \<Rightarrow> uquad list \<Rightarrow> mstate \<Rightarrow> mstate outcome" where
  "syscallHandler_code handler beyond s =
     andthen (code syscall_entry s) (\<lambda>s1.
     andthen (call_c handler (s1\<lparr>stk := stk s1 @ beyond\<rparr>)) (\<lambda>(s2, _). code syscall_exit s2))"

section \<open>The log\<close>

definition EX_TRACE_INFO :: ushort where "EX_TRACE_INFO = 0x0000"
definition EX_TRACE_ERR :: ushort where "EX_TRACE_ERR = 0x0001"

fun serialFrom :: "uchar list \<Rightarrow> nat \<Rightarrow> nat \<Rightarrow> bus \<Rightarrow> bus outcome" where
  "serialFrom s i 0 b = Done b"
| "serialFrom s i (Suc n) b = andthen (get s i) (\<lambda>c. serialFrom s (Suc i) n (snd (halUartWrite c b)))"

definition keSerialTrace :: "uchar list \<Rightarrow> usize \<Rightarrow> bus \<Rightarrow> bus outcome" where
  "keSerialTrace s len b = serialFrom s 0 (unat len) b"

definition exTraceLn :: "ushort \<Rightarrow> uchar list option \<Rightarrow> bus \<Rightarrow> bus outcome" where
  "exTraceLn level ln b =
     (case ln of None \<Rightarrow> Done b
      | Some l \<Rightarrow> andthen (rtlStrlen (Some l)) (\<lambda>lnLen. keSerialTrace l lnLen b))"

text \<open>\<open>buf\<close> is the uninitialised local buffer of 256 bytes.\<close>

definition exTrace :: "uchar list \<Rightarrow> ushort \<Rightarrow> uchar list \<Rightarrow> va_value list \<Rightarrow> bus \<Rightarrow> bus outcome" where
  "exTrace buf level fmt ap b =
     andthen (rtlBufPrintfV buf 256 fmt ap) (\<lambda>(_, buf1). exTraceLn level (Some buf1) b)"

section \<open>What the frame macros do\<close>

fun regs_of :: "trapFrame \<Rightarrow> reg \<Rightarrow> uquad" where
  "regs_of f RAX = tf_rax f" | "regs_of f RCX = tf_rcx f" | "regs_of f RDX = tf_rdx f" | "regs_of f RBX = tf_rbx f"
| "regs_of f RSI = tf_rsi f" | "regs_of f RDI = tf_rdi f" | "regs_of f RBP = tf_rbp f" | "regs_of f R8 = tf_r8 f"
| "regs_of f R9 = tf_r9 f" | "regs_of f R10 = tf_r10 f" | "regs_of f R11 = tf_r11 f" | "regs_of f R12 = tf_r12 f"
| "regs_of f R13 = tf_r13 f" | "regs_of f R14 = tf_r14 f" | "regs_of f R15 = tf_r15 f"

text \<open>The frame of registers \<open>g\<close> with the given outer words.\<close>

definition frame_with :: "uquad \<Rightarrow> (reg \<Rightarrow> uquad) \<Rightarrow> uquad \<Rightarrow> uquad \<times> uquad \<times> uquad \<times> uquad \<times> uquad \<Rightarrow> trapFrame" where
  "frame_with no g ec ctx = (case ctx of (ip, cs, fl, sp, ss) \<Rightarrow>
     \<lparr>tf_trapno = no, tf_rax = g RAX, tf_rcx = g RCX, tf_rdx = g RDX, tf_rbx = g RBX, tf_rsi = g RSI, tf_rdi = g RDI,
      tf_rbp = g RBP, tf_r8 = g R8, tf_r9 = g R9, tf_r10 = g R10, tf_r11 = g R11, tf_r12 = g R12, tf_r13 = g R13,
      tf_r14 = g R14, tf_r15 = g R15, tf_error_code = ec, tf_rip = ip, tf_cs = cs, tf_rflags = fl, tf_rsp = sp, tf_ss = ss\<rparr>)"

definition resume_of :: "trapFrame \<Rightarrow> uquad \<times> uquad \<times> uquad \<times> uquad \<times> uquad" where
  "resume_of f = (tf_rip f, tf_cs f, tf_rflags f, tf_rsp f, tf_ss f)"

definition reg_words :: "(reg \<Rightarrow> uquad) \<Rightarrow> uquad list" where
  "reg_words g = map g [RAX, RCX, RDX, RBX, RSI, RDI, RBP, R8, R9, R10, R11, R12, R13, R14, R15]"

lemma length_reg_words [simp]: "length (reg_words g) = 15"
  by (simp add: reg_words_def)

lemma regs_of_frame_with: "regs_of (frame_with no g ec ctx) = g" "resume_of (frame_with no g ec ctx) = ctx"
proof -
  show "regs_of (frame_with no g ec ctx) = g"
  proof
    fix r show "regs_of (frame_with no g ec ctx) r = g r"
      by (cases r) (simp_all add: frame_with_def split: prod.split)
  qed
  show "resume_of (frame_with no g ec ctx) = ctx" by (simp add: resume_of_def frame_with_def split: prod.split)
qed

lemma frameWords_split:
  "frameWords f = tf_trapno f # reg_words (regs_of f) @
     [tf_error_code f, tf_rip f, tf_cs f, tf_rflags f, tf_rsp f, tf_ss f]"
  by (simp add: frameWords_def reg_words_def)

lemma length_frameWords [simp]: "length (frameWords f) = 22"
  by (simp add: frameWords_def)

lemma frameOf_words:
  "frameOf (no # reg_words g @ ec # ip # cs # fl # sp # ss # below) = frame_with no g ec (ip, cs, fl, sp, ss)"
  by (simp add: frameOf_def frame_with_def reg_words_def)

lemma code_Nil [simp]: "code [] s = Done s"
  by (simp add: code_def)

lemma run_code_append: "run_code (map Push rs @ is) s =
    run_code is (s\<lparr>rsp := rsp s - of_nat (8 * length rs), stk := rev (map (gpr s) rs) @ stk s\<rparr>)"
  by (induction rs arbitrary: s) (simp_all add: algebra_simps)

lemma code_PUSH_ALL: "code (PUSH_ALL @ is) s = code is (s\<lparr>rsp := rsp s - 120, stk := reg_words (gpr s) @ stk s\<rparr>)"
  unfolding PUSH_ALL_def code_def run_code_append by (simp add: reg_words_def)

lemma code_simps:
  "code (PushI n # is) s = code is (s\<lparr>rsp := rsp s - 8, stk := n # stk s\<rparr>)"
  "code (Lfence # is) s = code is s"
  "code (Swapgs # is) s = code is (s\<lparr>user_gs := \<not> user_gs s\<rparr>)"
  "code (Cli # is) s = code is (s\<lparr>intr_on := False\<rparr>)"
  "code (Sti # is) s = code is (s\<lparr>intr_on := True\<rparr>)"
  "m < length (stk s) \<Longrightarrow> code (TestJz m k # is) s = code (if stk s ! m AND 3 = 0 then drop k is else is) s"
  "stk s = x # xs \<Longrightarrow> code (AddRsp # is) s = code is (s\<lparr>rsp := rsp s + 8, stk := xs\<rparr>)"
  "code (SubRsp # is) s = code is (s\<lparr>rsp := rsp s - 8, stk := stale s # stk s\<rparr>)"
  "\<not> user_gs s \<Longrightarrow> code (RspToGs8 # is) s = code is (s\<lparr>gs_save := rsp s\<rparr>)"
  "\<not> user_gs s \<Longrightarrow> code (Gs0ToRsp # is) s = code is (s\<lparr>rsp := gs_stack s, stk := []\<rparr>)"
  "\<not> user_gs s \<Longrightarrow> code (Gs8ToRsp # is) s = code is (s\<lparr>rsp := gs_save s, stk := []\<rparr>)"
  "\<not> user_gs s \<Longrightarrow> code (ZeroGs8 # is) s = code is (s\<lparr>gs_save := 0\<rparr>)"
  by (simp_all add: code_def)

lemma run_code_pops: "length ws = length rs \<Longrightarrow> stk s = ws @ below \<Longrightarrow> run_code (map Pop rs @ is) s =
    run_code is (s\<lparr>gpr := fold (\<lambda>(r, w) g. g(r := w)) (zip rs ws) (gpr s), rsp := rsp s + of_nat (8 * length rs), stk := below\<rparr>)"
proof (induction rs arbitrary: s ws)
  case (Cons r rs)
  then obtain w ws' where "ws = w # ws'" by (cases ws) auto
  with Cons show ?case by (simp add: algebra_simps)
next
  case Nil
  then show ?case by (cases s) simp
qed

lemma code_POP_ALL:
  assumes "stk s = reg_words g @ below"
  shows "code (POP_ALL @ is) s = code is (s\<lparr>gpr := g, rsp := rsp s + 120, stk := below\<rparr>)"
proof -
  let ?rs = "[RAX, RCX, RDX, RBX, RSI, RDI, RBP, R8, R9, R10, R11, R12, R13, R14, R15]"
  have "fold (\<lambda>(r, w) h. h(r := w)) (zip ?rs (reg_words g)) (gpr s) = g"
  proof
    fix r show "fold (\<lambda>(r, w) h. h(r := w)) (zip ?rs (reg_words g)) (gpr s) r = g r"
      by (cases r) (simp_all add: reg_words_def)
  qed
  then show ?thesis
    using run_code_pops [of "reg_words g" ?rs s below "is"] assms by (simp add: POP_ALL_def code_def del: list.map)
qed

text \<open>
  Entry and exit in terms of frames. A context is consistent when the user's segment base is in
  use exactly while user code runs.
\<close>

definition from_user :: "uquad \<times> uquad \<times> uquad \<times> uquad \<times> uquad \<Rightarrow> bool" where
  "from_user ctx \<longleftrightarrow> fst (snd ctx) AND 3 \<noteq> 0"

definition ctx_words :: "uquad \<times> uquad \<times> uquad \<times> uquad \<times> uquad \<Rightarrow> uquad list" where
  "ctx_words ctx = (case ctx of (ip, cs, fl, sp, ss) \<Rightarrow> [ip, cs, fl, sp, ss])"

lemma frameWords_with:
  "frameWords f @ below = tf_trapno f # reg_words (regs_of f) @ tf_error_code f # ctx_words (resume_of f) @ below"
  by (simp add: frameWords_split ctx_words_def resume_of_def)

lemma frameOf_with: "frameOf (no # reg_words g @ ec # ctx_words ctx @ below) = frame_with no g ec ctx"
  by (cases ctx) (simp add: ctx_words_def frameOf_words)

lemma ctx_cs: "(ctx_words ctx @ below) ! 1 AND 3 = 0 \<longleftrightarrow> \<not> from_user ctx" "Suc 0 < length (ctx_words ctx @ below)"
  by (cases ctx; simp add: ctx_words_def from_user_def)+

text \<open>The test that swaps the segment base, at the distance \<open>n\<close> of the code segment.\<close>

lemma swap_run:
  assumes "n < length (stk s)"
  shows "code (TestJz n 2 # Lfence # Swapgs # is) s =
    code is (s\<lparr>user_gs := (if stk s ! n AND 3 = 0 then user_gs s else \<not> user_gs s)\<rparr>)"
  using assms by (simp add: code_simps)

lemma PUSH_TRAPFRAME_EC_run:
  assumes "stk s = ec # ctx_words ctx @ below"
  shows "code (PUSH_TRAPFRAME_EC no) s =
    Done (s\<lparr>rsp := rsp s - 128, stk := frameWords (frame_with no (gpr s) ec ctx) @ below\<rparr>)"
proof -
  have "tf_trapno (frame_with no (gpr s) ec ctx) = no" "tf_error_code (frame_with no (gpr s) ec ctx) = ec"
    by (simp_all add: frame_with_def split: prod.split)
  then show ?thesis
    by (simp add: PUSH_TRAPFRAME_EC_def code_PUSH_ALL code_simps frameWords_with regs_of_frame_with assms)
qed

lemma PUSH_TRAPFRAME_run:
  assumes "stk s = ctx_words ctx @ below"
  shows "code (PUSH_TRAPFRAME no) s =
    Done (s\<lparr>rsp := rsp s - 136, stk := frameWords (frame_with no (gpr s) 0 ctx) @ below\<rparr>)"
  using assms by (simp add: PUSH_TRAPFRAME_def code_simps PUSH_TRAPFRAME_EC_run)

lemma entry_run:
  assumes "user_gs s \<longleftrightarrow> from_user ctx"
  shows "stk s = ctx_words ctx @ below \<Longrightarrow> code INTR_ENTRY s =
      Done (s\<lparr>user_gs := False, rsp := rsp s - 136, stk := frameWords (frame_with 0 (gpr s) 0 ctx) @ below\<rparr>)"
    and "stk s = ctx_words ctx @ below \<Longrightarrow> code (TRAP_ENTRY no) s =
      Done (s\<lparr>intr_on := False, user_gs := False, rsp := rsp s - 136,
        stk := frameWords (frame_with no (gpr s) 0 ctx) @ below\<rparr>)"
    and "stk s = ec # ctx_words ctx @ below \<Longrightarrow> code (TRAP_ENTRY_EC no) s =
      Done (s\<lparr>intr_on := False, user_gs := False, rsp := rsp s - 128,
        stk := frameWords (frame_with no (gpr s) ec ctx) @ below\<rparr>)"
  using assms ctx_cs [of ctx below]
  by (simp_all add: INTR_ENTRY_def TRAP_ENTRY_def TRAP_ENTRY_EC_def code_simps(4) swap_run PUSH_TRAPFRAME_run
      PUSH_TRAPFRAME_EC_run)

lemma POP_TRAPFRAME_EC_run:
  assumes "stk s = frameWords f @ below"
  shows "code (POP_TRAPFRAME_EC @ is) s =
    code is (s\<lparr>gpr := regs_of f, rsp := rsp s + 128, stk := tf_error_code f # ctx_words (resume_of f) @ below\<rparr>)"
  using assms by (simp add: POP_TRAPFRAME_EC_def code_simps code_POP_ALL frameWords_with add.commute)

lemma INTR_EXIT_run:
  assumes "stk s = frameWords f @ below" "\<not> user_gs s"
  shows "code INTR_EXIT s = Done (s\<lparr>gpr := regs_of f, rsp := rsp s + 136, stk := ctx_words (resume_of f) @ below,
    user_gs := from_user (resume_of f)\<rparr>)"
  using assms ctx_cs [of "resume_of f" below]
  by (auto simp: INTR_EXIT_def POP_TRAPFRAME_def POP_TRAPFRAME_EC_run code_simps(7) swap_run)

lemma iretq_ctx: "stk s = ctx_words ctx @ below \<Longrightarrow> iretq s = Some ctx"
  by (cases ctx) (simp add: iretq_def ctx_words_def)

lemma call_c_frame:
  "stk s = frameWords f @ below \<Longrightarrow> call_c h s =
    andthen (h f) (\<lambda>(fr, x). Done (s\<lparr>stk := frameWords fr @ below\<rparr>, x))"
proof -
  have "frameOf (frameWords f @ below) = f" by (simp add: frameWords_def frameOf_def)
  then show "stk s = frameWords f @ below \<Longrightarrow> call_c h s =
    andthen (h f) (\<lambda>(fr, x). Done (s\<lparr>stk := frameWords fr @ below\<rparr>, x))"
    by (simp add: call_c_def)
qed

section \<open>Properties\<close>

text \<open>
  C22 (the timer interrupt switches contexts). Suppose the uninitialised local of \<^verbatim>\<open>keDequeueProc\<close>, which it tests
  against NULL, does not hold NULL by chance (\<open>junk\<close>; otherwise no switch takes place), and the run queues are well formed, this processor's with less than 2 ^ 62
  processes. When the timer interrupts a context whose five
  words the processor pushed, the user's segment base being loaded exactly if it was in user mode, and a process is ready, the stub \<^verbatim>\<open>lapicTmrIsr\<close> saves all its
  registers in the running process, and ends with the registers, the return context and the
  segment base of the process at the front of the queue, with the stack as it was.
\<close>

theorem lapicTmrIsr_switches:
  assumes "wf_sched st Q" "ready st Q c = p # ps" "junk \<noteq> None" "length (Q c) < 2 ^ 62"
    and "stk s = ctx_words ctx @ below" "user_gs s \<longleftrightarrow> from_user ctx"
  shows "\<exists>s' st'. lapicTmrIsr_code junk (Some c) s st = Done (s', st') \<and> curProc st' c = Some p \<and>
    (\<forall>q. pcb_tf (pcb_of st' q) =
      (if curProc st c = Some q then frame_with 0 (gpr s) 0 ctx else pcb_tf (pcb_of st q))) \<and>
    gpr s' = regs_of (pcb_tf (pcb_of st' p)) \<and> iretq s' = Some (resume_of (pcb_tf (pcb_of st' p))) \<and>
    (user_gs s' \<longleftrightarrow> from_user (resume_of (pcb_tf (pcb_of st' p)))) \<and> rsp s' = rsp s \<and> drop 5 (stk s') = below"
proof -
  let ?f = "frame_with 0 (gpr s) 0 ctx"
  obtain st' where st': "halSchedSwitch junk (Some c) ?f st = Done (pcb_tf (pcb_of st' p), st')"
    "curProc st' = (curProc st)(c := Some p)"
    "pcb_of st' = (case curProc st c of None \<Rightarrow> pcb_of st | Some s \<Rightarrow> (pcb_of st)(s := (pcb_of st s)\<lparr>pcb_tf := ?f\<rparr>))"
    using halSchedSwitch_next [OF assms(1-4), of ?f] by blast
  let ?g = "pcb_tf (pcb_of st' p)"
  have len: "drop 5 (ctx_words x @ below) = below" for x by (simp add: ctx_words_def split: prod.split)
  have "lapicTmrIsr_code junk (Some c) s st = Done (s\<lparr>user_gs := from_user (resume_of ?g), rsp := rsp s,
      stk := ctx_words (resume_of ?g) @ below, gpr := regs_of ?g\<rparr>, st')"
    by (simp add: lapicTmrIsr_code_def entry_run(1) [OF assms(6,5)] call_c_frame [where f = ?f and below = below]
        st'(1) INTR_EXIT_run [where f = ?g and below = below])
  then show ?thesis
    using st'(2,3) iretq_ctx [of _ "resume_of ?g" below] len
    by (auto split: option.split)
qed

text \<open>The example machine of the scheduler, interrupted in user mode.\<close>

definition demo_mstate :: mstate where
  "demo_mstate = \<lparr>gpr = (\<lambda>r. if r = RBX then 5 else 0), rsp = 0xFD8, stk = ctx_words (77, user_cs, 0x202, 0x7000, user_ss) @ [9],
     stale = 0, user_gs = True, intr_on = True, gs_stack = 0x8FFF, gs_save = 0\<rparr>"

theorem lapicTmrIsr_switches_witness:
  "\<exists>s' st'. lapicTmrIsr_code (Some 9) (Some 0) demo_mstate demo_sched = Done (s', st') \<and>
     curProc st' 0 = Some 1 \<and> tf_rip (pcb_tf (pcb_of st' 3)) = 77 \<and> tf_rbx (pcb_tf (pcb_of st' 3)) = 5 \<and>
     iretq s' = Some (1, 0, 0, 0, 0) \<and> \<not> user_gs s' \<and> drop 5 (stk s') = [9]"
proof -
  let ?ctx = "(77, user_cs, 0x202, 0x7000, user_ss)"
  have "ready demo_sched demo_ready 0 = 1 # [2, 3]" by (simp add: ready_def demo_sched_def demo_ready_def)
  moreover have "length (demo_ready 0) < 2 ^ 62" by (simp add: demo_ready_def)
  moreover have "stk demo_mstate = ctx_words ?ctx @ [9]" by (simp add: demo_mstate_def)
  moreover have "user_gs demo_mstate \<longleftrightarrow> from_user ?ctx" by (simp add: demo_mstate_def from_user_def user_cs_def)
  ultimately obtain s' st' where *: "lapicTmrIsr_code (Some 9) (Some 0) demo_mstate demo_sched = Done (s', st')"
    "curProc st' 0 = Some 1" "\<forall>q. pcb_tf (pcb_of st' q) = (if curProc demo_sched 0 = Some q then
        frame_with 0 (gpr demo_mstate) 0 ?ctx else pcb_tf (pcb_of demo_sched q))"
    "iretq s' = Some (resume_of (pcb_tf (pcb_of st' 1)))" "user_gs s' \<longleftrightarrow> from_user (resume_of (pcb_tf (pcb_of st' 1)))"
    "drop 5 (stk s') = [9]"
    using lapicTmrIsr_switches [OF demo_sched_wf, of 0 1 "[2, 3]" "Some 9" demo_mstate ?ctx "[9]"] by blast
  have "pcb_tf (pcb_of st' 1) = zero_frame\<lparr>tf_rip := 1\<rparr>" "pcb_tf (pcb_of st' 3) = frame_with 0 (gpr demo_mstate) 0 ?ctx"
    using *(3) by (simp_all add: demo_sched_def)
  with * show ?thesis
    by (intro exI [of _ s'] exI [of _ st'])
      (simp add: resume_of_def from_user_def zero_frame_def frame_with_def demo_mstate_def)
qed




lemma frame_with_trapno [simp]: "tf_trapno (frame_with no g ec ctx) = no"
  by (simp add: frame_with_def split: prod.split)








text \<open>
  Leaving a trap. Whatever frame the handler leaves, the exits of the trap stubs restore the
  registers but stop at the error code: the interrupted address would be taken for the code
  segment and the error code for the address to return to. The stubs with an error code do not
  drop it, the others use the same exit. A handler that returned would never get back; the
  kernel's bug check does not return.
\<close>

theorem trap_exit_at_error_code:
  "\<exists>s'. code ex (s\<lparr>stk := frameWords f @ below\<rparr>) = Done s' \<and> gpr s' = regs_of f \<and>
    iretq s' = Some (tf_error_code f, tf_rip f, tf_cs f, tf_rflags f, tf_rsp f)"
  if "stub l = Some (ent, ex)"
proof -
  have "ex = POP_TRAPFRAME_EC @ [TestJz 2 3, Lfence, Swapgs, Sti]"
    using that by (cases l) (auto simp: TRAP_EXIT_def TRAP_EXIT_EC_def)
  moreover have "2 < length (tf_error_code f # ctx_words (resume_of f) @ below)" for f
    using ctx_cs(2) [of "resume_of f" below] by simp
  ultimately show ?thesis
    by (simp add: POP_TRAPFRAME_EC_run [where f = f and below = below] code_simps)
      (simp add: iretq_def ctx_words_def resume_of_def)
qed

theorem trap_exit_at_error_code_witness:
  "\<exists>s'. code TRAP_EXIT_EC (demo_mstate\<lparr>stk := frameWords (zero_frame\<lparr>tf_error_code := 6, tf_rip := 77\<rparr>) @ []\<rparr>) = Done s' \<and>
     iretq s' = Some (6, 77, 0, 0, 0)"
  using trap_exit_at_error_code [of page_fault "TRAP_ENTRY_EC TRAP_PAGEFLT" TRAP_EXIT_EC,
      where s = demo_mstate and f = "zero_frame\<lparr>tf_error_code := 6, tf_rip := 77\<rparr>" and below = "[]"]
  by (auto simp: zero_frame_def)

lemma syscall_entry_run:
  assumes "user_gs s"
  shows "code syscall_entry s = Done (s\<lparr>user_gs := False, gs_save := rsp s, rsp := gs_stack s - 128,
    stk := stale s # reg_words (gpr s)\<rparr>)"
  using assms by (simp add: syscall_entry_def code_simps code_PUSH_ALL)

lemma syscall_exit_run:
  assumes "stk s = w # reg_words g @ below" "\<not> user_gs s"
  shows "code syscall_exit s = Done (s\<lparr>gpr := g, rsp := gs_save s, stk := [], gs_save := 0, user_gs := True\<rparr>)"
  using assms by (simp add: syscall_exit_def code_simps code_POP_ALL)

text \<open>
  C37 (system calls). A system call from user mode with a code the table does not have returns
  with every register, the stack pointer and the segment base unchanged, and clears the saved
  stack pointer. Code 0 is in the table, with a NULL handler: any program can make the kernel
  call address zero.
\<close>

theorem syscall_unchanged_or_null:
  assumes "user_gs s" "6 \<le> length beyond"
  shows "if gpr s RAX = 0 then syscallHandler_code trap_syscall beyond s = Fault
    else syscallHandler_code trap_syscall beyond s =
      Done (s\<lparr>user_gs := True, rsp := rsp s, stk := [], gs_save := 0\<rparr>)"
proof -
  obtain ec ctx rest where beyond: "beyond = ec # ctx_words ctx @ rest"
  proof -
    obtain a b c d e f r where "beyond = a # b # c # d # e # f # r"
      using assms(2) by (auto simp: numeral_eq_Suc Suc_le_length_iff)
    then have "beyond = a # ctx_words (b, c, d, e, f) @ r" by (simp add: ctx_words_def)
    then show ?thesis using that by blast
  qed
  let ?f = "frame_with (stale s) (gpr s) ec ctx"
  let ?s1 = "s\<lparr>user_gs := False, gs_save := rsp s, rsp := gs_stack s - 128, stk := (stale s # reg_words (gpr s)) @ beyond\<rparr>"
  have ec: "tf_error_code ?f = ec" by (simp add: frame_with_def split: prod.split)
  have stk: "stk ?s1 = frameWords ?f @ rest"
    by (simp add: beyond frameWords_with regs_of_frame_with ec)
  have rax: "tf_rax ?f = gpr s RAX" by (simp add: frame_with_def split: prod.split)
  have "1 \<le> gpr s RAX \<longleftrightarrow> gpr s RAX \<noteq> 0" by (simp add: word_le_nat_alt Suc_le_eq unat_gt_0)
  then have handler: "trap_syscall ?f = (if gpr s RAX = 0 then Fault else Done (?f, ()))"
    using rax by (auto simp: trap_syscall_def g_syscallTable_def g_syscallCount_def)
  have run: "syscallHandler_code trap_syscall beyond s =
      andthen (andthen (trap_syscall ?f) (\<lambda>(fr, x). Done (?s1\<lparr>stk := frameWords fr @ rest\<rparr>, x))) (\<lambda>(s2, _). code syscall_exit s2)"
    unfolding syscallHandler_code_def syscall_entry_run [OF assms(1)]
    using call_c_frame [OF stk, of trap_syscall] by simp
  show ?thesis
    unfolding run handler
    by (simp add: frameWords_with regs_of_frame_with syscall_exit_run [where g = "gpr s"] assms(1))
qed

theorem syscall_unchanged_or_null_witness:
  "syscallHandler_code trap_syscall (replicate 6 0) (demo_mstate\<lparr>gpr := (\<lambda>_. 3)\<rparr>) =
     Done (demo_mstate\<lparr>gpr := (\<lambda>_. 3), stk := []\<rparr>) \<and>
   syscallHandler_code trap_syscall (replicate 6 0) (demo_mstate\<lparr>gpr := (\<lambda>_. 0)\<rparr>) = Fault"
  using syscall_unchanged_or_null [of "demo_mstate\<lparr>gpr := (\<lambda>_. 3)\<rparr>" "replicate 6 0"]
    syscall_unchanged_or_null [of "demo_mstate\<lparr>gpr := (\<lambda>_. 0)\<rparr>" "replicate 6 0"]
  by (simp add: demo_mstate_def)

section \<open>What the log writes\<close>

lemma serialFrom_trace:
  "i + n \<le> length s \<Longrightarrow> serialFrom s i n b =
    Done (b\<lparr>trace := trace b @ map (Outb (UART_REG 0)) (take n (drop i s))\<rparr>)"
proof (induction n arbitrary: i b)
  case (Suc n)
  then have "take (Suc n) (drop i s) = s ! i # take n (drop (Suc i) s)"
    by (simp add: Cons_nth_drop_Suc [symmetric])
  with Suc show ?case by (simp add: get_def halUartWrite_def halBusOutb_def tell_def)
next
  case 0
  then show ?case by (cases b) simp
qed

lemma terminated_split: "terminated l \<Longrightarrow> \<exists>rest. l = cstr l @ 0 # rest"
proof (induction l)
  case (Cons a l)
  then show ?case by (cases "a = 0") (auto simp: terminated_def cstr_def)
qed (simp add: terminated_def)

text \<open>
  The log. A terminated line is written to the serial port's data register byte by byte,
  without its terminator. A formatted message is the line the formatter leaves in the buffer. An
  empty format leaves the uninitialised buffer as it is, and the line's length is then searched
  for behind the buffer.
\<close>

theorem exTraceLn_writes:
  assumes "terminated l" "length l < 2 ^ 64"
  shows "exTraceLn level (Some l) b = Done (b\<lparr>trace := trace b @ map (Outb (UART_REG 0)) (cstr l)\<rparr>) \<and>
    (length buf = 256 \<and> \<not> terminated buf \<longrightarrow> exTrace buf level [0] ap b = Fault)"
proof
  obtain rest where l: "l = cstr l @ 0 # rest" using terminated_split [OF assms(1)] by blast
  have nz: "0 \<notin> set (cstr l)" by (auto simp: cstr_def dest: set_takeWhileD)
  have "length (cstr l) < 2 ^ 64" "length (cstr l) \<le> length l"
    using assms(2) length_takeWhile_le [of "\<lambda>c. c \<noteq> 0" l] by (auto simp: cstr_def)
  moreover have "rtlStrlen (Some l) = Done (of_nat (length (cstr l)))"
    by (subst l) (simp add: rtlStrlen_def strlenFrom_text [OF nz])
  moreover have "take (length (cstr l)) l = cstr l" by (subst (2) l) simp
  ultimately show "exTraceLn level (Some l) b = Done (b\<lparr>trace := trace b @ map (Outb (UART_REG 0)) (cstr l)\<rparr>)"
    by (simp add: exTraceLn_def keSerialTrace_def serialFrom_trace unat_of_nat_quad)
next
  have "strlenFrom buf i = Fault" if "0 \<notin> set buf" for i
    using that by (induction buf arbitrary: i) auto
  moreover have "rtlBufPrintfV buf 256 [0] ap = Done (0, buf)"
    by (simp add: rtlBufPrintfV_def, subst printfLoop.simps, simp add: get_def)
  ultimately show "length buf = 256 \<and> \<not> terminated buf \<longrightarrow> exTrace buf level [0] ap b = Fault"
    by (auto simp: exTrace_def exTraceLn_def rtlStrlen_def terminated_def)
qed

theorem exTraceLn_writes_witness:
  "exTraceLn EX_TRACE_INFO (Some [104, 105, 0, 7]) \<lparr>trace = [], device = (\<lambda>_. 0)\<rparr> =
     Done \<lparr>trace = [Outb 0x3F8 104, Outb 0x3F8 105], device = (\<lambda>_. 0)\<rparr> \<and>
   exTrace (replicate 256 1) EX_TRACE_INFO [0] [] \<lparr>trace = [], device = (\<lambda>_. 0)\<rparr> = Fault"
  using exTraceLn_writes [of "[104, 105, 0, 7]" EX_TRACE_INFO "\<lparr>trace = [], device = (\<lambda>_. 0)\<rparr>" "replicate 256 1" "[]"]
  by (simp add: terminated_def cstr_def UART_REG_def)

end
