(* ===== verification/Tlsf.thy ===== *)
theory Tlsf
  imports Prelude
begin

text \<open>
  The two-level segregated-fit allocator \<^verbatim>\<open>ntos/mm/tlsf.c\<close>, as it is built for a 64-bit target
  with gcc or clang, and its generic bit scans, which other compilers use. Memory is a map from
  the addresses of its 8-byte words; a word that is not mapped, or not aligned, faults. The
  control structure is the state record, apart from its first field \<^verbatim>\<open>block_null\<close>, whose
  words lie in memory at the address \<open>control\<close>, so that the list operations can write them
  as they write any block. A failed \<^verbatim>\<open>tlsf_assert\<close> is a bug check.
\<close>

section \<open>Bit scans\<close>

text \<open>The compiler's \<^verbatim>\<open>__builtin_clz\<close> and \<^verbatim>\<open>__builtin_ffs\<close>.\<close>

definition builtin_clz :: "ulong \<Rightarrow> int" where
  "builtin_clz w = int (length (takeWhile (\<lambda>i. \<not> bit w (31 - i)) [0..<32]))"

definition builtin_ffs :: "ulong \<Rightarrow> int" where
  "builtin_ffs w = (if w = 0 then 0 else int (length (takeWhile (\<lambda>i. \<not> bit w i) [0..<32])) + 1)"

definition tlsf_ffs :: "ulong \<Rightarrow> int" where
  "tlsf_ffs w = builtin_ffs w - 1"

definition tlsf_fls :: "ulong \<Rightarrow> int" where
  "tlsf_fls w = (if w \<noteq> 0 then 32 - builtin_clz w else 0) - 1"

definition tlsf_fls_generic :: "ulong \<Rightarrow> int" where
  "tlsf_fls_generic w0 =
     (let b0 = (if w0 = 0 then 32 - 1 else 32);
          (w1, b1) = (if w0 AND 0xffff0000 = 0 then (push_bit 16 w0, b0 - 16) else (w0, b0));
          (w2, b2) = (if w1 AND 0xff000000 = 0 then (push_bit 8 w1, b1 - 8) else (w1, b1));
          (w3, b3) = (if w2 AND 0xf0000000 = 0 then (push_bit 4 w2, b2 - 4) else (w2, b2));
          (w4, b4) = (if w3 AND 0xc0000000 = 0 then (push_bit 2 w3, b3 - 2) else (w3, b3))
      in if w4 AND 0x80000000 = 0 then b4 - 1 else b4)"

definition tlsf_ffs_generic :: "ulong \<Rightarrow> int" where
  "tlsf_ffs_generic w = tlsf_fls_generic (w AND (NOT w + 1)) - 1"

definition tlsf_fls_sizet :: "usize \<Rightarrow> int" where
  "tlsf_fls_sizet sz =
     (let high = ucast (drop_bit 32 sz) :: ulong
      in if high \<noteq> 0 then 32 + tlsf_fls high else tlsf_fls (ucast sz AND 0xffffffff))"

section \<open>Constants\<close>

definition SL_INDEX_COUNT_LOG2 :: nat where "SL_INDEX_COUNT_LOG2 = 5"
definition ALIGN_SIZE_LOG2 :: nat where "ALIGN_SIZE_LOG2 = 3"
definition ALIGN_SIZE :: usize where "ALIGN_SIZE = 8"
definition FL_INDEX_MAX :: nat where "FL_INDEX_MAX = 32"
definition SL_INDEX_COUNT :: nat where "SL_INDEX_COUNT = 32"
definition FL_INDEX_SHIFT :: nat where "FL_INDEX_SHIFT = SL_INDEX_COUNT_LOG2 + ALIGN_SIZE_LOG2"
definition FL_INDEX_COUNT :: nat where "FL_INDEX_COUNT = FL_INDEX_MAX - FL_INDEX_SHIFT + 1"
definition SMALL_BLOCK_SIZE :: usize where "SMALL_BLOCK_SIZE = 256"
definition block_header_overhead :: usize where "block_header_overhead = 8"
definition block_start_offset :: usize where "block_start_offset = 16"
definition block_size_min :: usize where "block_size_min = 24"
definition block_size_max :: usize where "block_size_max = push_bit FL_INDEX_MAX 1"
definition block_header_size :: usize where "block_header_size = 32"
definition control_size :: usize where "control_size = 6536"

lemmas tlsf_consts = SL_INDEX_COUNT_LOG2_def ALIGN_SIZE_LOG2_def ALIGN_SIZE_def FL_INDEX_MAX_def SL_INDEX_COUNT_def
  FL_INDEX_SHIFT_def FL_INDEX_COUNT_def SMALL_BLOCK_SIZE_def block_header_overhead_def block_start_offset_def
  block_size_min_def block_size_max_def block_header_size_def control_size_def

section \<open>State and block headers\<close>

record tlsf =
  tmem :: "uquad \<Rightarrow> uquad option"
  control :: uquad
  fl_bitmap :: ulong
  sl_bitmap :: "ulong list"
  blocks :: "uquad list list"

definition load :: "uquad \<Rightarrow> tlsf \<Rightarrow> uquad outcome" where
  "load a st = (case tmem st a of None \<Rightarrow> Fault | Some v \<Rightarrow> Done v)"

definition store :: "uquad \<Rightarrow> uquad \<Rightarrow> tlsf \<Rightarrow> tlsf outcome" where
  "store a v st = (if tmem st a = None then Fault else Done (st\<lparr>tmem := (tmem st)(a \<mapsto> v)\<rparr>))"

definition tlsf_assert :: "bool \<Rightarrow> 'a outcome \<Rightarrow> 'a outcome" where
  "tlsf_assert c k = (if c then k else Panic ''assert'')"

text \<open>The words of \<^verbatim>\<open>block_header_t\<close>.\<close>

definition f_prev_phys :: "uquad \<Rightarrow> uquad" where "f_prev_phys b = b"
definition f_size :: "uquad \<Rightarrow> uquad" where "f_size b = b + 8"
definition f_next :: "uquad \<Rightarrow> uquad" where "f_next b = b + 16"
definition f_prev :: "uquad \<Rightarrow> uquad" where "f_prev b = b + 24"

lemmas field_defs = f_prev_phys_def f_size_def f_next_def f_prev_def

definition block_size :: "uquad \<Rightarrow> tlsf \<Rightarrow> usize outcome" where
  "block_size b st = andthen (load (f_size b) st) (\<lambda>v. Done (v AND NOT 3))"

definition block_set_size :: "uquad \<Rightarrow> usize \<Rightarrow> tlsf \<Rightarrow> tlsf outcome" where
  "block_set_size b sz st = andthen (load (f_size b) st) (\<lambda>oldsize. store (f_size b) (sz OR (oldsize AND 3)) st)"

definition block_is_last :: "uquad \<Rightarrow> tlsf \<Rightarrow> bool outcome" where
  "block_is_last b st = andthen (block_size b st) (\<lambda>s. Done (s = 0))"

definition block_is_free :: "uquad \<Rightarrow> tlsf \<Rightarrow> bool outcome" where
  "block_is_free b st = andthen (load (f_size b) st) (\<lambda>v. Done (v AND 1 \<noteq> 0))"

definition block_set_free :: "uquad \<Rightarrow> tlsf \<Rightarrow> tlsf outcome" where
  "block_set_free b st = andthen (load (f_size b) st) (\<lambda>v. store (f_size b) (v OR 1) st)"

definition block_set_used :: "uquad \<Rightarrow> tlsf \<Rightarrow> tlsf outcome" where
  "block_set_used b st = andthen (load (f_size b) st) (\<lambda>v. store (f_size b) (v AND NOT 1) st)"

definition block_is_prev_free :: "uquad \<Rightarrow> tlsf \<Rightarrow> bool outcome" where
  "block_is_prev_free b st = andthen (load (f_size b) st) (\<lambda>v. Done (v AND 2 \<noteq> 0))"

definition block_set_prev_free :: "uquad \<Rightarrow> tlsf \<Rightarrow> tlsf outcome" where
  "block_set_prev_free b st = andthen (load (f_size b) st) (\<lambda>v. store (f_size b) (v OR 2) st)"

definition block_set_prev_used :: "uquad \<Rightarrow> tlsf \<Rightarrow> tlsf outcome" where
  "block_set_prev_used b st = andthen (load (f_size b) st) (\<lambda>v. store (f_size b) (v AND NOT 2) st)"

definition block_from_ptr :: "uquad \<Rightarrow> uquad" where "block_from_ptr p = p - block_start_offset"
definition block_to_ptr :: "uquad \<Rightarrow> uquad" where "block_to_ptr b = b + block_start_offset"
definition offset_to_block :: "uquad \<Rightarrow> usize \<Rightarrow> uquad" where "offset_to_block p sz = p + sz"

definition block_prev :: "uquad \<Rightarrow> tlsf \<Rightarrow> uquad outcome" where
  "block_prev b st = andthen (block_is_prev_free b st) (\<lambda>pf. tlsf_assert pf (load (f_prev_phys b) st))"

definition block_next :: "uquad \<Rightarrow> tlsf \<Rightarrow> uquad outcome" where
  "block_next b st =
     andthen (block_size b st) (\<lambda>sz. andthen (block_is_last b st) (\<lambda>l.
       tlsf_assert (\<not> l) (Done (offset_to_block (block_to_ptr b) (sz - block_header_overhead)))))"

definition block_link_next :: "uquad \<Rightarrow> tlsf \<Rightarrow> (uquad \<times> tlsf) outcome" where
  "block_link_next b st =
     andthen (block_next b st) (\<lambda>nxt. andthen (store (f_prev_phys nxt) b st) (\<lambda>st1. Done (nxt, st1)))"

definition block_mark_as_free :: "uquad \<Rightarrow> tlsf \<Rightarrow> tlsf outcome" where
  "block_mark_as_free b st =
     andthen (block_link_next b st) (\<lambda>(nxt, st1). andthen (block_set_prev_free nxt st1) (block_set_free b))"

definition block_mark_as_used :: "uquad \<Rightarrow> tlsf \<Rightarrow> tlsf outcome" where
  "block_mark_as_used b st =
     andthen (block_next b st) (\<lambda>nxt. andthen (block_set_prev_used nxt st) (block_set_used b))"

definition align_up :: "usize \<Rightarrow> usize \<Rightarrow> usize outcome" where
  "align_up x align = tlsf_assert (align AND (align - 1) = 0) (Done ((x + (align - 1)) AND NOT (align - 1)))"

definition align_down :: "usize \<Rightarrow> usize \<Rightarrow> usize outcome" where
  "align_down x align = tlsf_assert (align AND (align - 1) = 0) (Done (x - (x AND (align - 1))))"

definition align_ptr :: "uquad \<Rightarrow> usize \<Rightarrow> uquad outcome" where
  "align_ptr p align = tlsf_assert (align AND (align - 1) = 0) (Done ((p + (align - 1)) AND NOT (align - 1)))"

definition adjust_request_size :: "usize \<Rightarrow> usize \<Rightarrow> usize outcome" where
  "adjust_request_size sz align =
     (if sz = 0 then Done 0
      else andthen (align_up sz align) (\<lambda>aligned.
             Done (if aligned < block_size_max then max aligned block_size_min else 0)))"

section \<open>Size classes\<close>

definition mapping_insert :: "usize \<Rightarrow> nat \<times> nat" where
  "mapping_insert sz =
     (if sz < SMALL_BLOCK_SIZE then (0, unat sz div 8)
      else let fl = nat (tlsf_fls_sizet sz)
           in (fl - (FL_INDEX_SHIFT - 1), unat (drop_bit (fl - SL_INDEX_COUNT_LOG2) sz XOR push_bit SL_INDEX_COUNT_LOG2 1)))"

text \<open>Shifting an \<^verbatim>\<open>int\<close> one by 31 or more is undefined.\<close>

definition mapping_search :: "usize \<Rightarrow> (nat \<times> nat) outcome" where
  "mapping_search sz =
     (if SMALL_BLOCK_SIZE \<le> sz
      then let k = nat (tlsf_fls_sizet sz) - SL_INDEX_COUNT_LOG2
           in if 31 \<le> k then Fault else Done (mapping_insert (sz + (push_bit k 1 - 1)))
      else Done (mapping_insert sz))"

section \<open>Free lists\<close>

definition getSl :: "nat \<Rightarrow> tlsf \<Rightarrow> ulong outcome" where
  "getSl fl st = (if fl < length (sl_bitmap st) then Done (sl_bitmap st ! fl) else Fault)"

definition getHead :: "nat \<Rightarrow> nat \<Rightarrow> tlsf \<Rightarrow> uquad outcome" where
  "getHead fl sl st =
     (if fl < length (blocks st) \<and> sl < length (blocks st ! fl) then Done (blocks st ! fl ! sl) else Fault)"

definition setHead :: "nat \<Rightarrow> nat \<Rightarrow> uquad \<Rightarrow> tlsf \<Rightarrow> tlsf" where
  "setHead fl sl b st = st\<lparr>blocks := (blocks st)[fl := (blocks st ! fl)[sl := b]]\<rparr>"

definition search_suitable_block :: "nat \<Rightarrow> nat \<Rightarrow> tlsf \<Rightarrow> (uquad \<times> nat \<times> nat) option outcome" where
  "search_suitable_block fl sl st =
     andthen (getSl fl st) (\<lambda>m0.
       let sl_map = m0 AND push_bit sl (NOT 0) in
       if sl_map \<noteq> 0
       then (let sl1 = nat (tlsf_ffs sl_map) in andthen (getHead fl sl1 st) (\<lambda>b. Done (Some (b, fl, sl1))))
       else (let fl_map = fl_bitmap st AND push_bit (fl + 1) (NOT 0) in
         if fl_map = 0 then Done None
         else let fl1 = nat (tlsf_ffs fl_map) in
           andthen (getSl fl1 st) (\<lambda>m1. tlsf_assert (m1 \<noteq> 0)
             (let sl1 = nat (tlsf_ffs m1) in andthen (getHead fl1 sl1 st) (\<lambda>b. Done (Some (b, fl1, sl1)))))))"

definition remove_free_block :: "uquad \<Rightarrow> nat \<Rightarrow> nat \<Rightarrow> tlsf \<Rightarrow> tlsf outcome" where
  "remove_free_block b fl sl st =
     andthen (load (f_prev b) st) (\<lambda>prv. andthen (load (f_next b) st) (\<lambda>nxt.
     tlsf_assert (prv \<noteq> 0) (tlsf_assert (nxt \<noteq> 0)
       (andthen (store (f_prev nxt) prv st) (\<lambda>st1. andthen (store (f_next prv) nxt st1) (\<lambda>st2.
        andthen (getHead fl sl st2) (\<lambda>h.
          if h \<noteq> b then Done st2
          else let st3 = setHead fl sl nxt st2 in
            if nxt \<noteq> control st3 then Done st3
            else andthen (getSl fl st3) (\<lambda>m.
              let m1 = m AND NOT (push_bit sl 1); st4 = st3\<lparr>sl_bitmap := (sl_bitmap st3)[fl := m1]\<rparr>
              in Done (if m1 = 0 then st4\<lparr>fl_bitmap := fl_bitmap st4 AND NOT (push_bit fl 1)\<rparr> else st4)))))))))"

definition insert_free_block :: "uquad \<Rightarrow> nat \<Rightarrow> nat \<Rightarrow> tlsf \<Rightarrow> tlsf outcome" where
  "insert_free_block b fl sl st =
     andthen (getHead fl sl st) (\<lambda>current.
     tlsf_assert (current \<noteq> 0) (tlsf_assert (b \<noteq> 0)
       (andthen (store (f_next b) current st) (\<lambda>st1. andthen (store (f_prev b) (control st) st1) (\<lambda>st2.
        andthen (store (f_prev current) b st2) (\<lambda>st3.
        andthen (align_ptr (block_to_ptr b) ALIGN_SIZE) (\<lambda>p. tlsf_assert (block_to_ptr b = p)
          (andthen (getSl fl st3) (\<lambda>m.
            Done ((setHead fl sl b st3)\<lparr>fl_bitmap := fl_bitmap st3 OR push_bit fl 1,
                sl_bitmap := (sl_bitmap st3)[fl := m OR push_bit sl 1]\<rparr>))))))))))"

definition block_remove :: "uquad \<Rightarrow> tlsf \<Rightarrow> tlsf outcome" where
  "block_remove b st =
     andthen (block_size b st) (\<lambda>sz. let (fl, sl) = mapping_insert sz in remove_free_block b fl sl st)"

definition block_insert :: "uquad \<Rightarrow> tlsf \<Rightarrow> tlsf outcome" where
  "block_insert b st =
     andthen (block_size b st) (\<lambda>sz. let (fl, sl) = mapping_insert sz in insert_free_block b fl sl st)"

section \<open>Splitting and merging\<close>

definition block_can_split :: "uquad \<Rightarrow> usize \<Rightarrow> tlsf \<Rightarrow> bool outcome" where
  "block_can_split b sz st = andthen (block_size b st) (\<lambda>bs. Done (block_header_size + sz \<le> bs))"

definition block_split :: "uquad \<Rightarrow> usize \<Rightarrow> tlsf \<Rightarrow> (uquad \<times> tlsf) outcome" where
  "block_split b sz st =
     (let remaining = offset_to_block (block_to_ptr b) (sz - block_header_overhead) in
      andthen (block_size b st) (\<lambda>bs.
      let remain_size = bs - (sz + block_header_overhead) in
      andthen (align_ptr (block_to_ptr remaining) ALIGN_SIZE) (\<lambda>p.
      tlsf_assert (block_to_ptr remaining = p)
     (tlsf_assert (bs = remain_size + sz + block_header_overhead)
      (andthen (block_set_size remaining remain_size st) (\<lambda>st1.
       andthen (block_size remaining st1) (\<lambda>rs. tlsf_assert (block_size_min \<le> rs)
        (andthen (block_set_size b sz st1) (\<lambda>st2.
         andthen (block_mark_as_free remaining st2) (\<lambda>st3. Done (remaining, st3))))))))))) "

definition block_absorb :: "uquad \<Rightarrow> uquad \<Rightarrow> tlsf \<Rightarrow> (uquad \<times> tlsf) outcome" where
  "block_absorb prv b st =
     andthen (block_is_last prv st) (\<lambda>l. tlsf_assert (\<not> l)
       (andthen (block_size b st) (\<lambda>bs. andthen (load (f_size prv) st) (\<lambda>v.
        andthen (store (f_size prv) (v + (bs + block_header_overhead)) st) (\<lambda>st1.
        andthen (block_link_next prv st1) (\<lambda>(_, st2). Done (prv, st2)))))))"

definition block_merge_prev :: "uquad \<Rightarrow> tlsf \<Rightarrow> (uquad \<times> tlsf) outcome" where
  "block_merge_prev b st =
     andthen (block_is_prev_free b st) (\<lambda>pf.
       if pf
       then andthen (block_prev b st) (\<lambda>prv. tlsf_assert (prv \<noteq> 0)
              (andthen (block_is_free prv st) (\<lambda>f. tlsf_assert f
                (andthen (block_remove prv st) (block_absorb prv b)))))
       else Done (b, st))"

definition block_merge_next :: "uquad \<Rightarrow> tlsf \<Rightarrow> (uquad \<times> tlsf) outcome" where
  "block_merge_next b st =
     andthen (block_next b st) (\<lambda>nxt. tlsf_assert (nxt \<noteq> 0)
       (andthen (block_is_free nxt st) (\<lambda>f.
         if f
         then andthen (block_is_last b st) (\<lambda>l. tlsf_assert (\<not> l)
                (andthen (block_remove nxt st) (block_absorb b nxt)))
         else Done (b, st))))"

definition block_trim_free :: "uquad \<Rightarrow> usize \<Rightarrow> tlsf \<Rightarrow> tlsf outcome" where
  "block_trim_free b sz st =
     andthen (block_is_free b st) (\<lambda>f. tlsf_assert f
       (andthen (block_can_split b sz st) (\<lambda>c.
         if c
         then andthen (block_split b sz st) (\<lambda>(remaining, st1). andthen (block_link_next b st1) (\<lambda>(_, st2).
                andthen (block_set_prev_free remaining st2) (block_insert remaining)))
         else Done st)))"

definition block_trim_used :: "uquad \<Rightarrow> usize \<Rightarrow> tlsf \<Rightarrow> tlsf outcome" where
  "block_trim_used b sz st =
     andthen (block_is_free b st) (\<lambda>f. tlsf_assert (\<not> f)
       (andthen (block_can_split b sz st) (\<lambda>c.
         if c
         then andthen (block_split b sz st) (\<lambda>(remaining, st1). andthen (block_set_prev_used remaining st1) (\<lambda>st2.
                andthen (block_merge_next remaining st2) (\<lambda>(r, st3). block_insert r st3)))
         else Done st)))"

definition block_trim_free_leading :: "uquad \<Rightarrow> usize \<Rightarrow> tlsf \<Rightarrow> (uquad \<times> tlsf) outcome" where
  "block_trim_free_leading b sz st =
     andthen (block_can_split b sz st) (\<lambda>c.
       if c
       then andthen (block_split b (sz - block_header_overhead) st) (\<lambda>(remaining, st1).
              andthen (block_set_prev_free remaining st1) (\<lambda>st2. andthen (block_link_next b st2) (\<lambda>(_, st3).
              andthen (block_insert b st3) (\<lambda>st4. Done (remaining, st4)))))
       else Done (b, st))"

definition block_locate_free :: "usize \<Rightarrow> tlsf \<Rightarrow> (uquad option \<times> tlsf) outcome" where
  "block_locate_free sz st =
     andthen (if sz = 0 then Done None
        else andthen (mapping_search sz) (\<lambda>(fl, sl).
          if fl < FL_INDEX_COUNT then search_suitable_block fl sl st else Done None)) (\<lambda>r.
       case r of None \<Rightarrow> Done (None, st)
       | Some (b, fl, sl) \<Rightarrow>
           if b = 0 then Done (None, st)
           else andthen (block_size b st) (\<lambda>bs. tlsf_assert (sz \<le> bs)
             (andthen (remove_free_block b fl sl st) (\<lambda>st1. Done (Some b, st1)))))"

definition block_prepare_used :: "uquad option \<Rightarrow> usize \<Rightarrow> tlsf \<Rightarrow> (uquad option \<times> tlsf) outcome" where
  "block_prepare_used blk sz st =
     (case blk of None \<Rightarrow> Done (None, st)
      | Some b \<Rightarrow> tlsf_assert (sz \<noteq> 0) (andthen (block_trim_free b sz st) (\<lambda>st1.
          andthen (block_mark_as_used b st1) (\<lambda>st2. Done (Some (block_to_ptr b), st2)))))"

section \<open>Creation and pools\<close>

definition control_construct :: "tlsf \<Rightarrow> tlsf outcome" where
  "control_construct st =
     andthen (store (f_next (control st)) (control st) st) (\<lambda>st1.
     andthen (store (f_prev (control st)) (control st) st1) (\<lambda>st2.
       Done (st2\<lparr>fl_bitmap := 0, sl_bitmap := replicate FL_INDEX_COUNT 0,
         blocks := replicate FL_INDEX_COUNT (replicate SL_INDEX_COUNT (control st))\<rparr>)))"

definition tlsf_size :: usize where "tlsf_size = control_size"
definition tlsf_align_size :: usize where "tlsf_align_size = ALIGN_SIZE"
definition tlsf_block_size_min :: usize where "tlsf_block_size_min = block_size_min"
definition tlsf_block_size_max :: usize where "tlsf_block_size_max = block_size_max"
definition tlsf_pool_overhead :: usize where "tlsf_pool_overhead = 2 * block_header_overhead"
definition tlsf_alloc_overhead :: usize where "tlsf_alloc_overhead = block_header_overhead"

definition tlsf_add_pool :: "uquad \<Rightarrow> usize \<Rightarrow> tlsf \<Rightarrow> (uquad option \<times> tlsf) outcome" where
  "tlsf_add_pool m sz st =
     andthen (align_down (sz - tlsf_pool_overhead) ALIGN_SIZE) (\<lambda>pool_bytes.
       if m mod ALIGN_SIZE \<noteq> 0 then Done (None, st)
       else if pool_bytes < block_size_min \<or> block_size_max < pool_bytes then Done (None, st)
       else let b = offset_to_block m (- block_header_overhead) in
         andthen (block_set_size b pool_bytes st) (\<lambda>st1. andthen (block_set_free b st1) (\<lambda>st2.
         andthen (block_set_prev_used b st2) (\<lambda>st3. andthen (block_insert b st3) (\<lambda>st4.
         andthen (block_link_next b st4) (\<lambda>(nxt, st5). andthen (block_set_size nxt 0 st5) (\<lambda>st6.
         andthen (block_set_used nxt st6) (\<lambda>st7. andthen (block_set_prev_free nxt st7) (\<lambda>st8.
           Done (Some m, st8))))))))))"

definition tlsf_remove_pool :: "uquad \<Rightarrow> tlsf \<Rightarrow> tlsf outcome" where
  "tlsf_remove_pool pool st =
     (let b = offset_to_block pool (- block_header_overhead) in
      andthen (block_is_free b st) (\<lambda>f. tlsf_assert f
       (andthen (block_next b st) (\<lambda>nxt. andthen (block_is_free nxt st) (\<lambda>nf. tlsf_assert (\<not> nf)
       (andthen (block_size nxt st) (\<lambda>ns. tlsf_assert (ns = 0)
       (andthen (block_size b st) (\<lambda>sz. let (fl, sl) = mapping_insert sz in remove_free_block b fl sl st))))))))) "

text \<open>The state whose control structure is at \<open>m\<close>; a misaligned \<open>m\<close> gives NULL.\<close>

text \<open>The self-test that a debug build runs at creation; release builds leave it out.\<close>

definition test_ffs_fls :: int where
  "test_ffs_fls =
     (if tlsf_ffs 0 = -1 then 0 else 0x1) + (if tlsf_fls 0 = -1 then 0 else 0x2) +
     (if tlsf_ffs 1 = 0 then 0 else 0x4) + (if tlsf_fls 1 = 0 then 0 else 0x8) +
     (if tlsf_ffs 0x80000000 = 31 then 0 else 0x10) + (if tlsf_ffs 0x80008000 = 15 then 0 else 0x20) +
     (if tlsf_fls 0x80000008 = 31 then 0 else 0x40) + (if tlsf_fls 0x7FFFFFFF = 30 then 0 else 0x80) +
     (if tlsf_fls_sizet 0x80000000 = 31 then 0 else 0x100) + (if tlsf_fls_sizet 0x100000000 = 32 then 0 else 0x200) +
     (if tlsf_fls_sizet 0xffffffffffffffff = 63 then 0 else 0x400)"

lemma test_ffs_fls_passes: "test_ffs_fls = 0"
  by code_simp

definition tlsf_create :: "uquad \<Rightarrow> tlsf \<Rightarrow> (uquad option \<times> tlsf) outcome" where
  "tlsf_create m st =
     (if m mod ALIGN_SIZE \<noteq> 0 then Done (None, st)
      else andthen (control_construct (st\<lparr>control := m\<rparr>)) (\<lambda>st1. Done (Some m, st1)))"

definition tlsf_create_with_pool :: "uquad \<Rightarrow> usize \<Rightarrow> tlsf \<Rightarrow> (uquad option \<times> tlsf) outcome" where
  "tlsf_create_with_pool m sz st =
     andthen (tlsf_create m st) (\<lambda>(t, st1).
     andthen (tlsf_add_pool (m + tlsf_size) (sz - tlsf_size) st1) (\<lambda>(_, st2). Done (t, st2)))"

definition tlsf_destroy :: "tlsf \<Rightarrow> tlsf" where "tlsf_destroy st = st"

definition tlsf_get_pool :: "uquad \<Rightarrow> uquad" where "tlsf_get_pool t = t + tlsf_size"

section \<open>Allocation\<close>

definition tlsf_malloc :: "usize \<Rightarrow> tlsf \<Rightarrow> (uquad option \<times> tlsf) outcome" where
  "tlsf_malloc sz st =
     andthen (adjust_request_size sz ALIGN_SIZE) (\<lambda>adjust.
     andthen (block_locate_free adjust st) (\<lambda>(blk, st1). block_prepare_used blk adjust st1))"

definition tlsf_memalign :: "usize \<Rightarrow> usize \<Rightarrow> tlsf \<Rightarrow> (uquad option \<times> tlsf) outcome" where
  "tlsf_memalign align sz st =
     andthen (adjust_request_size sz ALIGN_SIZE) (\<lambda>adjust.
     let gap_minimum = block_header_size in
     andthen (adjust_request_size (adjust + align + gap_minimum) align) (\<lambda>size_with_gap.
     let aligned_size = (if adjust \<noteq> 0 \<and> ALIGN_SIZE < align then size_with_gap else adjust) in
     andthen (block_locate_free aligned_size st) (\<lambda>(blk, st1).
     tlsf_assert (block_header_size = block_size_min + block_header_overhead)
      (case blk of None \<Rightarrow> block_prepare_used None adjust st1
       | Some b \<Rightarrow>
          let ptr = block_to_ptr b in
          andthen (align_ptr ptr align) (\<lambda>al0. let gap0 = al0 - ptr in
          andthen (if gap0 \<noteq> 0 \<and> gap0 < gap_minimum
                   then andthen (align_ptr (al0 + max (gap_minimum - gap0) align) align) (\<lambda>al1. Done (al1 - ptr))
                   else Done gap0) (\<lambda>gap.
          andthen (if gap \<noteq> 0 then tlsf_assert (gap_minimum \<le> gap) (block_trim_free_leading b gap st1) else Done (b, st1))
            (\<lambda>(b1, st2). block_prepare_used (Some b1) adjust st2)))))))"

definition tlsf_free :: "uquad option \<Rightarrow> tlsf \<Rightarrow> tlsf outcome" where
  "tlsf_free ptr st =
     (case ptr of None \<Rightarrow> Done st
      | Some p \<Rightarrow>
          let b = block_from_ptr p in
          andthen (block_is_free b st) (\<lambda>f. tlsf_assert (\<not> f)
            (andthen (block_mark_as_free b st) (\<lambda>st1. andthen (block_merge_prev b st1) (\<lambda>(b1, st2).
             andthen (block_merge_next b1 st2) (\<lambda>(b2, st3). block_insert b2 st3))))))"

text \<open>\<^verbatim>\<open>rtlMemcpy\<close> on the allocator's memory, byte by byte in little-endian words.\<close>

definition byteAt :: "uquad \<Rightarrow> tlsf \<Rightarrow> uchar outcome" where
  "byteAt a st = andthen (load (a AND NOT 7) st) (\<lambda>v. Done (ucast (drop_bit (8 * unat (a AND 7)) v)))"

definition setByte :: "uquad \<Rightarrow> uchar \<Rightarrow> tlsf \<Rightarrow> tlsf outcome" where
  "setByte a c st =
     (let k = 8 * unat (a AND 7) in
      andthen (load (a AND NOT 7) st) (\<lambda>v.
        store (a AND NOT 7) ((v AND NOT (push_bit k 0xff)) OR push_bit k (ucast c)) st))"

fun copyBytes :: "nat \<Rightarrow> uquad \<Rightarrow> uquad \<Rightarrow> tlsf \<Rightarrow> tlsf outcome" where
  "copyBytes 0 d s st = Done st"
| "copyBytes (Suc n) d s st =
     andthen (byteAt s st) (\<lambda>c. andthen (setByte d c st) (\<lambda>st1. copyBytes n (d + 1) (s + 1) st1))"

definition tlsf_realloc :: "uquad option \<Rightarrow> usize \<Rightarrow> tlsf \<Rightarrow> (uquad option \<times> tlsf) outcome" where
  "tlsf_realloc ptr sz st =
     (case ptr of
        None \<Rightarrow> tlsf_malloc sz st
      | Some p \<Rightarrow>
          if sz = 0 then andthen (tlsf_free (Some p) st) (\<lambda>st1. Done (None, st1))
          else let b = block_from_ptr p in
            andthen (block_next b st) (\<lambda>nxt. andthen (block_size b st) (\<lambda>cursize. andthen (block_size nxt st) (\<lambda>ns.
            let combined = cursize + ns + block_header_overhead in
            andthen (adjust_request_size sz ALIGN_SIZE) (\<lambda>adjust. andthen (block_is_free b st) (\<lambda>f. tlsf_assert (\<not> f)
            (andthen (block_is_free nxt st) (\<lambda>nf.
              if cursize < adjust \<and> (\<not> nf \<or> combined < adjust)
              then andthen (tlsf_malloc sz st) (\<lambda>(q, st1).
                     case q of None \<Rightarrow> Done (None, st1)
                     | Some q1 \<Rightarrow> andthen (copyBytes (unat (min cursize sz)) q1 p st1) (\<lambda>st2.
                         andthen (tlsf_free (Some p) st2) (\<lambda>st3. Done (Some q1, st3))))
              else andthen (if cursize < adjust
                     then andthen (block_merge_next b st) (\<lambda>(_, st1). block_mark_as_used b st1) else Done st) (\<lambda>st2.
                   andthen (block_trim_used b adjust st2) (\<lambda>st3. Done (Some p, st3)))))))))))"

definition tlsf_block_size :: "uquad option \<Rightarrow> tlsf \<Rightarrow> usize outcome" where
  "tlsf_block_size ptr st = (case ptr of None \<Rightarrow> Done 0 | Some p \<Rightarrow> block_size (block_from_ptr p) st)"

section \<open>Consistency checks\<close>

text \<open>
  The walk over a pool, with at most \<open>fuel\<close> blocks; the walker is a function on an accumulator.
  \<^verbatim>\<open>tlsf_insist\<close> asserts first, so a check that fails is a bug check and the status
  stays zero.
\<close>

fun walkBlocks :: "nat \<Rightarrow> (uquad \<Rightarrow> usize \<Rightarrow> bool \<Rightarrow> 'u \<Rightarrow> 'u outcome) \<Rightarrow> uquad \<Rightarrow> 'u \<Rightarrow> tlsf \<Rightarrow> 'u outcome" where
  "walkBlocks 0 walker b user st = Fault"
| "walkBlocks (Suc fuel) walker b user st =
     (if b = 0 then Done user
      else andthen (block_is_last b st) (\<lambda>l. if l then Done user
        else andthen (block_size b st) (\<lambda>sz. andthen (block_is_free b st) (\<lambda>f.
             andthen (walker (block_to_ptr b) sz (\<not> f) user) (\<lambda>user1.
             andthen (block_next b st) (\<lambda>nxt. walkBlocks fuel walker nxt user1 st))))))"

definition tlsf_walk_pool :: "nat \<Rightarrow> uquad \<Rightarrow> (uquad \<Rightarrow> usize \<Rightarrow> bool \<Rightarrow> 'u \<Rightarrow> 'u outcome) \<Rightarrow> 'u \<Rightarrow> tlsf \<Rightarrow> 'u outcome" where
  "tlsf_walk_pool fuel pool walker user st =
     walkBlocks fuel walker (offset_to_block pool (- block_header_overhead)) user st"

definition integrity_walker :: "tlsf \<Rightarrow> uquad \<Rightarrow> usize \<Rightarrow> bool \<Rightarrow> bool \<times> int \<Rightarrow> (bool \<times> int) outcome" where
  "integrity_walker st ptr sz used = (\<lambda>(prev_status, status).
     let b = block_from_ptr ptr in
     andthen (block_is_prev_free b st) (\<lambda>this_prev_status. andthen (block_is_free b st) (\<lambda>this_status.
     andthen (block_size b st) (\<lambda>this_size.
       tlsf_assert (prev_status = this_prev_status) (tlsf_assert (sz = this_size)
         (Done (this_status, status)))))))"

definition tlsf_check_pool :: "nat \<Rightarrow> uquad \<Rightarrow> tlsf \<Rightarrow> int outcome" where
  "tlsf_check_pool fuel pool st =
     andthen (tlsf_walk_pool fuel pool (integrity_walker st) (False, 0) st) (\<lambda>(_, status). Done status)"

fun checkList :: "nat \<Rightarrow> nat \<Rightarrow> nat \<Rightarrow> uquad \<Rightarrow> tlsf \<Rightarrow> unit outcome" where
  "checkList 0 i j b st = Fault"
| "checkList (Suc fuel) i j b st =
     (if b = control st then Done ()
      else andthen (block_is_free b st) (\<lambda>f. tlsf_assert f
        (andthen (block_is_prev_free b st) (\<lambda>pf. tlsf_assert (\<not> pf)
        (andthen (block_next b st) (\<lambda>nxt. andthen (block_is_free nxt st) (\<lambda>nf. tlsf_assert (\<not> nf)
        (andthen (block_is_prev_free nxt st) (\<lambda>npf. tlsf_assert npf
        (andthen (block_size b st) (\<lambda>sz. tlsf_assert (block_size_min \<le> sz)
        (tlsf_assert (mapping_insert sz = (i, j))
        (andthen (load (f_next b) st) (\<lambda>b1. checkList fuel i j b1 st))))))))))))))"

definition checkClass :: "nat \<Rightarrow> nat \<Rightarrow> nat \<Rightarrow> tlsf \<Rightarrow> unit outcome" where
  "checkClass fuel i j st =
     andthen (getSl i st) (\<lambda>sl_list. andthen (getHead i j st) (\<lambda>b.
       let fl_map = fl_bitmap st AND push_bit i 1; sl_map = sl_list AND push_bit j 1 in
       tlsf_assert (fl_map = 0 \<longrightarrow> sl_map = 0)
        (if sl_map = 0 then tlsf_assert (b = control st) (Done ())
         else tlsf_assert (sl_list \<noteq> 0) (tlsf_assert (b \<noteq> control st) (checkList fuel i j b st)))))"

fun checkAll :: "nat \<Rightarrow> (nat \<times> nat) list \<Rightarrow> tlsf \<Rightarrow> int outcome" where
  "checkAll fuel [] st = Done 0"
| "checkAll fuel ((i, j) # ijs) st = andthen (checkClass fuel i j st) (\<lambda>_. checkAll fuel ijs st)"

definition tlsf_check :: "nat \<Rightarrow> tlsf \<Rightarrow> int outcome" where
  "tlsf_check fuel st = checkAll fuel (List.product [0..<FL_INDEX_COUNT] [0..<SL_INDEX_COUNT]) st"

end
