(* ===== verification/TlsfMap.thy ===== *)
theory TlsfMap
  imports Tlsf
begin

text \<open>
  The bit scans and size classes of the allocator of theory \<^verbatim>\<open>Tlsf\<close>: what the scans compute, that
  the generic ones agree with the built-in ones, and that a search class holds only blocks
  large enough for the request.
\<close>

section \<open>Highest and lowest bits\<close>

definition is_top :: "'a::len word \<Rightarrow> nat \<Rightarrow> bool" where
  "is_top w n \<longleftrightarrow> bit w n \<and> (\<forall>m. bit w m \<longrightarrow> m \<le> n)"

definition is_low :: "'a::len word \<Rightarrow> nat \<Rightarrow> bool" where
  "is_low w n \<longleftrightarrow> bit w n \<and> (\<forall>m < n. \<not> bit w m)"

lemma takeWhile_upt:
  "i < n \<Longrightarrow> \<not> P i \<Longrightarrow> length (takeWhile P [0..<n]) < n \<and> \<not> P (length (takeWhile P [0..<n])) \<and>
    (\<forall>j < length (takeWhile P [0..<n]). P j)"
proof -
  assume i: "i < n" "\<not> P i"
  let ?k = "length (takeWhile P [0..<n])"
  have k: "?k < n"
  proof (rule ccontr)
    assume "\<not> ?k < n"
    then have "takeWhile P [0..<n] = [0..<n]"
      using takeWhile_eq_take [of P "[0..<n]"] by simp
    then have "\<forall>x \<in> set [0..<n]. P x" by (simp only: takeWhile_eq_all_conv)
    with i show False by simp
  qed
  moreover have "\<not> P ?k" using nth_length_takeWhile [of P "[0..<n]"] k by simp
  moreover have "P j" if "j < ?k" for j
  proof -
    have "takeWhile P [0..<n] ! j = j" using that k by (simp add: takeWhile_nth)
    with nth_mem [OF that] show ?thesis using set_takeWhileD by metis
  qed
  ultimately show ?thesis by blast
qed

lemma bit_below: "bit w n \<Longrightarrow> n < LENGTH('a)" for w :: "'a::len word"
  by (rule bit_imp_le_length)

lemma is_topD: "is_top w n \<Longrightarrow> bit w m \<Longrightarrow> m \<le> n"
  by (simp add: is_top_def)

lemma is_top_ex: "w \<noteq> 0 \<Longrightarrow> \<exists>n. is_top w n \<and> n < LENGTH('a)" for w :: "'a::len word"
proof -
  assume "w \<noteq> 0"
  then obtain i where "bit w i" using bit_eq_iff [of w 0] by auto
  moreover have "m < LENGTH('a)" if "bit w m" for m using that by (rule bit_below)
  ultimately obtain n where "bit w n" "\<forall>m. bit w m \<longrightarrow> m \<le> n"
    using ex_has_greatest_nat [of "bit w" i "\<lambda>x. x" "LENGTH('a)"] by (metis less_imp_le)
  then show ?thesis using bit_below by (metis is_top_def)
qed

lemma is_top_unique: "is_top w n \<Longrightarrow> is_top w m \<Longrightarrow> n = m"
  unfolding is_top_def by (simp add: le_antisym)

lemma is_top_bounds:
  assumes "is_top w n"
  shows "2 ^ n \<le> unat w" "unat w < 2 ^ Suc n"
proof -
  have b: "bit (unat w) n" using assms bit_below by (simp add: is_top_def bit_unsigned_iff)
  show "2 ^ n \<le> unat w"
  proof (rule ccontr)
    assume "\<not> 2 ^ n \<le> unat w"
    then have "take_bit n (unat w) = unat w" by (simp add: take_bit_nat_eq_self)
    with b show False by (metis bit_take_bit_iff less_irrefl)
  qed
  have "take_bit (Suc n) w = w" using assms by (intro bit_word_eqI) (auto simp: is_top_def bit_take_bit_iff less_Suc_eq_le)
  then have "take_bit (Suc n) (unat w) = unat w" by (metis unsigned_take_bit_eq)
  then show "unat w < 2 ^ Suc n" by (metis take_bit_nat_less_exp)
qed

lemma is_top_iff_bounds: "is_top w n \<longleftrightarrow> 2 ^ n \<le> unat w \<and> unat w < 2 ^ Suc n"
proof
  assume b: "2 ^ n \<le> unat w \<and> unat w < 2 ^ Suc n"
  then have "w \<noteq> 0" by auto
  then obtain m where m: "is_top w m" using is_top_ex by blast
  note mb = is_top_bounds [OF m]
  have "m = n"
  proof (rule ccontr)
    assume "m \<noteq> n"
    then consider "Suc m \<le> n" | "Suc n \<le> m" by linarith
    then show False
    proof cases
      case 1
      then have "(2 :: nat) ^ Suc m \<le> 2 ^ n" by (rule power_increasing) simp
      with b mb show False by linarith
    next
      case 2
      then have "(2 :: nat) ^ Suc n \<le> 2 ^ m" by (rule power_increasing) simp
      with b mb show False by linarith
    qed
  qed
  with m show "is_top w n" by simp
qed (use is_top_bounds in blast)

lemma builtin_scans:
  "is_top w n \<Longrightarrow> tlsf_fls w = int n"
  "is_low w n \<Longrightarrow> tlsf_ffs w = int n"
proof -
  assume t: "is_top w n"
  then have n: "n < 32" "bit w n" "w \<noteq> 0" using bit_below [of w n] by (auto simp: is_top_def)
  let ?k = "length (takeWhile (\<lambda>i. \<not> bit w (31 - i)) [0..<32])"
  have "31 - n < 32" "\<not> \<not> bit w (31 - (31 - n))" using n by auto
  from takeWhile_upt [of "31 - n" 32 "\<lambda>i. \<not> bit w (31 - i)", OF this]
  have k: "?k < 32" "bit w (31 - ?k)" "\<forall>j < ?k. \<not> bit w (31 - j)" by auto
  have "31 - ?k = n"
  proof (rule ccontr)
    assume "31 - ?k \<noteq> n"
    moreover have "31 - ?k \<le> n" using t k(2) by (simp add: is_top_def)
    ultimately have "31 - n < ?k" using n(1) k(1) by linarith
    with k(3) have "\<not> bit w (31 - (31 - n))" by blast
    with n show False by simp
  qed
  with k(1) n show "tlsf_fls w = int n" by (simp add: tlsf_fls_def builtin_clz_def)
next
  assume t: "is_low w n"
  then have n: "n < 32" "bit w n" "w \<noteq> 0" using bit_below [of w n] by (auto simp: is_low_def)
  let ?k = "length (takeWhile (\<lambda>i. \<not> bit w i) [0..<32])"
  have "n < 32" "\<not> \<not> bit w n" using n by auto
  from takeWhile_upt [of n 32 "\<lambda>i. \<not> bit w i", OF this] have k: "bit w ?k" "\<forall>j < ?k. \<not> bit w j" by auto
  have "?k = n"
  proof (rule ccontr)
    assume "?k \<noteq> n"
    then consider "?k < n" | "n < ?k" by linarith
    then show False using t k n(2) by cases (auto simp: is_low_def)
  qed
  with n show "tlsf_ffs w = int n" by (simp add: tlsf_ffs_def builtin_ffs_def)
qed

section \<open>The generic scans\<close>

lemma top_mask_test: "is_top w n \<Longrightarrow> w AND NOT (mask k) = 0 \<longleftrightarrow> n < k" for w :: "'a::len word"
proof
  assume t: "is_top w n" and z: "w AND NOT (mask k) = 0"
  have n: "bit w n" "n < LENGTH('a)" using t bit_below by (auto simp: is_top_def)
  show "n < k"
  proof (rule ccontr)
    assume "\<not> n < k"
    then have "bit (w AND NOT (mask k)) n" using n by (simp add: bit_simps)
    then show False unfolding z by simp
  qed
next
  assume t: "is_top w n" and "n < k"
  then show "w AND NOT (mask k) = 0"
    by (intro bit_word_eqI) (auto simp: bit_simps dest: is_topD [OF t])
qed

lemma top_push: "is_top w n \<Longrightarrow> n + s < LENGTH('a) \<Longrightarrow> is_top (push_bit s w) (n + s)" for w :: "'a::len word"
  unfolding is_top_def bit_push_bit_iff by (auto simp: le_diff_conv)

lemma generic_step:
  fixes w :: ulong
  assumes t: "is_top w n" and n: "32 - 2 * s \<le> n" and s: "2 * s \<le> 32"
    and k: "k = int s" and m: "m = 32 - s"
  shows "\<exists>w' b' n'. (if w AND NOT (mask m) = 0 then (push_bit s w, b - k) else (w, b)) = (w', b') \<and>
    is_top w' n' \<and> 32 - s \<le> n' \<and> b' + int n' = b + int n"
proof (cases "n < 32 - s")
  case True
  then have "w AND NOT (mask (32 - s)) = 0" using top_mask_test [OF t] by simp
  moreover have "is_top (push_bit s w) (n + s)" using top_push [OF t] True s by simp
  ultimately show ?thesis using n s k m True by (intro exI [of _ "push_bit s w"] exI [of _ "b - int s"] exI [of _ "n + s"]) auto
next
  case False
  then show ?thesis using top_mask_test [OF t] t m by auto
qed


lemma fls_generic_top:
  assumes t: "is_top w0 n"
  shows "tlsf_fls_generic w0 = int n + 1"
proof -
  have m: "0xffff0000 = NOT (mask 16 :: ulong)" "0xff000000 = NOT (mask 24 :: ulong)" "0xf0000000 = NOT (mask 28 :: ulong)"
    "0xc0000000 = NOT (mask 30 :: ulong)" "0x80000000 = NOT (mask 31 :: ulong)"
    by (simp_all add: mask_eq_exp_minus_1)
  have nz: "w0 \<noteq> 0" using t by (auto simp: is_top_def)
  have "\<exists>w' b' n'. (if w0 AND NOT (mask 16) = 0 then (push_bit 16 w0, (32 :: int) - 16) else (w0, (32 :: int))) = (w', b') \<and>
      is_top w' n' \<and> 32 - 16 \<le> n' \<and> b' + int n' = (32 :: int) + int n"
    by (intro generic_step [OF t]) simp_all
  then obtain w1 b1 n1 where 1: "(if w0 AND NOT (mask 16) = 0 then (push_bit 16 w0, (32 :: int) - 16) else (w0, (32 :: int))) = (w1, b1)"
      "is_top w1 n1" "32 - 16 \<le> n1" "b1 + int n1 = (32 :: int) + int n" by blast
  have "\<exists>w' b' n'. (if w1 AND NOT (mask 24) = 0 then (push_bit 8 w1, b1 - 8) else (w1, b1)) = (w', b') \<and>
      is_top w' n' \<and> 32 - 8 \<le> n' \<and> b' + int n' = b1 + int n1"
    using 1(3) by (intro generic_step [OF 1(2)]) simp_all
  then obtain w2 b2 n2 where 2: "(if w1 AND NOT (mask 24) = 0 then (push_bit 8 w1, b1 - 8) else (w1, b1)) = (w2, b2)"
      "is_top w2 n2" "32 - 8 \<le> n2" "b2 + int n2 = b1 + int n1" by blast
  have "\<exists>w' b' n'. (if w2 AND NOT (mask 28) = 0 then (push_bit 4 w2, b2 - 4) else (w2, b2)) = (w', b') \<and>
      is_top w' n' \<and> 32 - 4 \<le> n' \<and> b' + int n' = b2 + int n2"
    using 2(3) by (intro generic_step [OF 2(2)]) simp_all
  then obtain w3 b3 n3 where 3: "(if w2 AND NOT (mask 28) = 0 then (push_bit 4 w2, b2 - 4) else (w2, b2)) = (w3, b3)"
      "is_top w3 n3" "32 - 4 \<le> n3" "b3 + int n3 = b2 + int n2" by blast
  have "\<exists>w' b' n'. (if w3 AND NOT (mask 30) = 0 then (push_bit 2 w3, b3 - 2) else (w3, b3)) = (w', b') \<and>
      is_top w' n' \<and> 32 - 2 \<le> n' \<and> b' + int n' = b3 + int n3"
    using 3(3) by (intro generic_step [OF 3(2)]) simp_all
  then obtain w4 b4 n4 where 4: "(if w3 AND NOT (mask 30) = 0 then (push_bit 2 w3, b3 - 2) else (w3, b3)) = (w4, b4)"
      "is_top w4 n4" "32 - 2 \<le> n4" "b4 + int n4 = b3 + int n3" by blast
  have n4: "n4 < 32" using 4(2) bit_below [of w4 n4] by (simp add: is_top_def)
  have "tlsf_fls_generic w0 = (if w4 AND NOT (mask 31) = 0 then b4 - 1 else b4)"
    unfolding tlsf_fls_generic_def m using nz 1(1) 2(1) 3(1) 4(1) by (simp add: Let_def)
  moreover have "w4 AND NOT (mask 31) = 0 \<longleftrightarrow> n4 = 30"
    using top_mask_test [OF 4(2), of 31] 4(3) by auto
  ultimately show ?thesis using 1(4) 2(4) 3(4) 4(3,4) n4 by auto
qed

lemma is_low_ex: "w \<noteq> 0 \<Longrightarrow> \<exists>n. is_low w n" for w :: "'a::len word"
proof -
  assume "w \<noteq> 0"
  then obtain i where "bit w i" using bit_eq_iff [of w 0] by auto
  then show ?thesis using exists_least_iff [of "bit w"] by (auto simp: is_low_def)
qed

text \<open>\<open>w AND - w\<close> is the lowest bit of \<open>w\<close>.\<close>

lemma lowest_bit:
  assumes l: "is_low w n"
  shows "w AND (NOT w + 1) = push_bit n 1"
proof -
  have n: "bit w n" "n < LENGTH('a)" using l bit_below by (auto simp: is_low_def)
  have eq: "NOT w + 1 = - w" by (simp add: minus_eq_not_plus_1)
  have sub: "w - 1 = (w AND NOT (push_bit n 1)) OR mask n"
  proof -
    have a: "w = (w AND NOT (push_bit n 1)) + push_bit n 1"
      using n by (subst disjunctive_add) (auto intro!: bit_word_eqI simp: bit_simps)
    have "(w AND NOT (push_bit n 1)) OR mask n = (w AND NOT (push_bit n 1)) + mask n"
      using l by (subst disjunctive_add) (auto simp: bit_simps is_low_def)
    also have "\<dots> = (w AND NOT (push_bit n 1)) + push_bit n 1 - 1"
      by (simp add: mask_eq_exp_minus_1 push_bit_of_1)
    also have "\<dots> = w - 1" using a by simp
    finally show ?thesis by simp
  qed
  have "- w = NOT (w - 1)" by (simp add: minus_eq_not_minus_1)
  then have "NOT w + 1 = NOT ((w AND NOT (push_bit n 1)) OR mask n)" unfolding eq sub by simp
  then show ?thesis
    using l n by (auto intro!: bit_word_eqI simp: bit_simps is_low_def)
qed

lemma top_of_power: "n < LENGTH('a) \<Longrightarrow> is_top (push_bit n 1 :: 'a::len word) n"
  by (auto simp: is_top_def bit_simps)

section \<open>Properties of the scans\<close>

text \<open>
  Bit scans. The generic bit scans of the allocator, used with compilers that have no
  built-in ones, agree with the built-in ones on every 32-bit word, zero included; and for a
  nonzero 64-bit size \<^verbatim>\<open>tlsf_fls_sizet\<close> is its binary logarithm.
\<close>

theorem tlsf_scans_agree:
  "tlsf_fls_generic w - 1 = tlsf_fls w \<and> tlsf_ffs_generic w = tlsf_ffs w"
proof (cases "w = 0")
  case True
  then show ?thesis
    by (simp add: tlsf_fls_generic_def tlsf_ffs_generic_def tlsf_fls_def tlsf_ffs_def builtin_ffs_def)
next
  case False
  obtain n where t: "is_top w n" using is_top_ex [OF False] by blast
  obtain l where l: "is_low w l" using is_low_ex [OF False] by blast
  have "l < 32" using l bit_below [of w l] by (simp add: is_low_def)
  then have "is_top (w AND (NOT w + 1)) l" unfolding lowest_bit [OF l] by (intro top_of_power) simp
  with t l show ?thesis
    by (simp add: fls_generic_top builtin_scans tlsf_ffs_generic_def)
qed

lemma fls_sizet_top:
  assumes t: "is_top sz n"
  shows "tlsf_fls_sizet sz = int n"
proof (cases "32 \<le> n")
  case True
  have n: "n < 64" "bit sz n" using t bit_below [of sz n] by (auto simp: is_top_def)
  have "is_top (ucast (drop_bit 32 sz) :: ulong) (n - 32)"
    using True n by (auto simp: is_top_def bit_simps dest: is_topD [OF t])
  moreover from this have "(ucast (drop_bit 32 sz) :: ulong) \<noteq> 0" by (auto simp: is_top_def)
  ultimately show ?thesis using True by (simp add: tlsf_fls_sizet_def builtin_scans)
next
  case False
  have "(ucast (drop_bit 32 sz) :: ulong) = 0"
    using False by (intro bit_word_eqI) (auto simp: bit_simps dest: is_topD [OF t])
  moreover have "is_top (ucast sz :: ulong) n" using t False by (auto simp: is_top_def bit_simps)
  moreover have "(ucast sz :: ulong) AND 0xffffffff = ucast sz"
  proof -
    have "(0xffffffff :: ulong) = - 1" by simp
    then show ?thesis by (simp only: and.right_neutral)
  qed
  ultimately show ?thesis by (simp add: tlsf_fls_sizet_def builtin_scans)
qed

section \<open>Size classes\<close>

text \<open>The position of a class in the order in which the search goes through them.\<close>

definition class_index :: "nat \<times> nat \<Rightarrow> nat" where
  "class_index c = fst c * 32 + snd c"

text \<open>The class of a size by arithmetic: small sizes in steps of 8, larger ones in 32 steps per power of two.\<close>

lemma mapping_insert_small: "unat sz < 256 \<Longrightarrow> mapping_insert sz = (0, unat sz div 8)"
  by (simp add: mapping_insert_def SMALL_BLOCK_SIZE_def word_less_nat_alt)

lemma top_five:
  fixes d :: usize
  assumes t: "is_top d 5"
  shows "unat (d XOR push_bit 5 1) = unat d - 32"
proof -
  define x where "x = d XOR push_bit 5 1"
  have b5: "bit (push_bit 5 1 :: usize) m \<longleftrightarrow> m = 5" for m
    by (simp only: bit_push_bit_iff) (auto simp: bit_1_iff)
  have d5: "bit d 5" using t by (simp add: is_top_def)
  have bx: "bit x m \<longleftrightarrow> bit d m \<and> m \<noteq> 5" for m
    unfolding x_def bit_xor_iff b5 using d5 by blast
  have "bit d m \<longleftrightarrow> bit (x OR push_bit 5 1) m" for m
    unfolding bit_or_iff b5 bx using d5 by blast
  then have "d = x OR push_bit 5 1" by (intro bit_eqI) blast
  also have "\<dots> = x + push_bit 5 1" by (rule disjunctive_add [symmetric]) (simp only: bx b5, blast)
  finally have d: "d = x + push_bit 5 1" .
  have "take_bit 5 x = x"
    using is_topD [OF t] by (intro bit_eqI) (force simp: bit_take_bit_iff bx order.strict_iff_order)
  then have "take_bit 5 (unat x) = unat x" by (metis unsigned_take_bit_eq)
  moreover have "take_bit 5 (unat x) < 2 ^ 5" by (rule take_bit_nat_less_exp)
  ultimately have "unat x < 32" by simp
  moreover have "unat (push_bit 5 1 :: usize) = 32" by simp
  ultimately have "unat d = unat x + 32" using unat_plus_small [of x "push_bit 5 1"] d by simp
  then show ?thesis by (simp add: x_def)
qed

lemma mapping_insert_large:
  assumes n: "2 ^ n \<le> unat sz" "unat sz < 2 ^ Suc n" and l: "8 \<le> n"
  shows "mapping_insert sz = (n - 7, unat sz div 2 ^ (n - 5) - 32)" "32 \<le> unat sz div 2 ^ (n - 5)"
    "unat sz div 2 ^ (n - 5) < 64"
proof -
  have t: "is_top sz n" using n by (simp add: is_top_iff_bounds)
  have n64: "n < 64" using t bit_below [of sz n] by (simp add: is_top_def)
  have p: "(2 :: nat) ^ n = 32 * 2 ^ (n - 5)"
  proof -
    from l obtain k where "n = 5 + k" using le_Suc_ex [of 5 n] by auto
    then show ?thesis by (simp add: power_add)
  qed
  show q: "32 \<le> unat sz div 2 ^ (n - 5)" "unat sz div 2 ^ (n - 5) < 64"
    using n p by (auto simp: less_eq_div_iff_mult_less_eq div_less_iff_less_mult)
  have "(2 :: nat) ^ 8 \<le> 2 ^ n" using l by (rule power_increasing) simp
  then have big: "\<not> sz < SMALL_BLOCK_SIZE" using n(1) by (simp add: SMALL_BLOCK_SIZE_def word_less_nat_alt)
  let ?d = "drop_bit (n - 5) sz"
  have ud: "unat ?d = unat sz div 2 ^ (n - 5)" by (rule trans [OF unat_drop_bit_eq drop_bit_eq_div])
  have pw: "(2 :: nat) ^ 5 = 32" "(2 :: nat) ^ Suc 5 = 64" by simp_all
  have "is_top ?d 5" unfolding is_top_iff_bounds ud pw using q by (rule conjI)
  from top_five [OF this] have "unat (?d XOR push_bit 5 1) = unat sz div 2 ^ (n - 5) - 32" unfolding ud .
  then show "mapping_insert sz = (n - 7, unat sz div 2 ^ (n - 5) - 32)"
    using big by (simp add: mapping_insert_def fls_sizet_top [OF t] FL_INDEX_SHIFT_def SL_INDEX_COUNT_LOG2_def
        ALIGN_SIZE_LOG2_def Let_def)
qed


lemma size_cases:
  obtains (small) "unat sz < 256"
  | (large) n where "8 \<le> n" "2 ^ n \<le> unat sz" "unat sz < 2 ^ Suc n"
proof (cases "unat sz < 256")
  case False
  then have "sz \<noteq> 0" by auto
  then obtain n where t: "is_top sz n" using is_top_ex by blast
  note b = is_top_bounds [OF t]
  have "8 \<le> n"
  proof (rule ccontr)
    assume "\<not> 8 \<le> n"
    then have "(2 :: nat) ^ Suc n \<le> 2 ^ 8" by (intro power_increasing) auto
    with b False show False by simp
  qed
  with b large show ?thesis by blast
qed (use small in blast)

lemma class_index_small: "unat sz < 256 \<Longrightarrow> class_index (mapping_insert sz) = unat sz div 8"
  by (simp add: mapping_insert_small class_index_def)

lemma class_index_large:
  assumes "2 ^ n \<le> unat sz" "unat sz < 2 ^ Suc n" "8 \<le> n"
  shows "class_index (mapping_insert sz) = (n - 8) * 32 + unat sz div 2 ^ (n - 5)"
proof -
  note m = mapping_insert_large [OF assms]
  have "n - 7 = Suc (n - 8)" using assms(3) by simp
  then show ?thesis using m(2) by (simp add: m(1) class_index_def)
qed

text \<open>A larger size never has a smaller class, and a bound on the sizes of one class.\<close>

lemma class_index_mono:
  assumes "unat s \<le> unat t"
  shows "class_index (mapping_insert s) \<le> class_index (mapping_insert t)"
proof (cases t rule: size_cases)
  case small
  with assms show ?thesis by (simp add: class_index_small div_le_mono)
next
  case t: (large n)
  note T = class_index_large [OF t(2,3,1)] mapping_insert_large(2) [OF t(2,3,1)]
  show ?thesis
  proof (cases s rule: size_cases)
    case small
    then have "unat s div 8 < 32" by simp
    with small T show ?thesis by (simp add: class_index_small)
  next
    case s: (large m)
    note S = class_index_large [OF s(2,3,1)] mapping_insert_large(3) [OF s(2,3,1)]
    show ?thesis
    proof (cases "m = n")
      case True
      with S(1) T(1) assms show ?thesis by (simp add: div_le_mono)
    next
      case False
      have "m < n"
      proof (rule ccontr)
        assume "\<not> m < n"
        with False have "(2 :: nat) ^ Suc n \<le> 2 ^ m" by (intro power_increasing) auto
        with s(2) t(3) assms show False by linarith
      qed
      then have "(m - 8) * 32 + 32 \<le> (n - 8) * 32" using s(1) by simp
      with S T show ?thesis by linarith
    qed
  qed
qed

text \<open>Rounding up by one step less one moves a size into a class beyond those of smaller sizes.\<close>

lemma class_index_round:
  fixes r m s :: usize
  assumes r: "2 ^ n \<le> unat r" "unat r < 2 ^ Suc n" "8 \<le> n"
    and m: "unat m = unat r + (2 ^ (n - 5) - 1)" and s: "unat s < unat r"
  shows "class_index (mapping_insert s) < class_index (mapping_insert m)"
proof -
  let ?q = "(2 :: nat) ^ (n - 5)"
  have q: "0 < ?q" by simp
  have pq: "(2 :: nat) ^ n = 32 * ?q"
  proof -
    from r(3) obtain k where "n = 5 + k" using le_Suc_ex [of 5 n] by auto
    then show ?thesis by (simp add: power_add)
  qed
  obtain r1 where r1: "unat r = Suc r1" using s by (cases "unat r") auto
  have mq: "unat m div ?q = Suc (r1 div ?q)"
  proof -
    have "unat m = r1 + ?q" using m r1 q by simp
    then show ?thesis using q div_add_self2 [of ?q r1] by simp
  qed
  have le: "class_index (mapping_insert s) \<le> class_index (mapping_insert (r - 1))"
  proof -
    have "unat (r - 1) = r1" using r1 by (metis Suc_eq_plus1 add_diff_cancel_right' unat_minus_one unsigned_0 nat.distinct(1))
    then show ?thesis using s r1 by (intro class_index_mono) simp
  qed
  have u: "unat (r - 1) = r1" using r1 by (metis Suc_eq_plus1 add_diff_cancel_right' unat_minus_one unsigned_0 nat.distinct(1))
  have less: "class_index (mapping_insert (r - 1)) \<le> (n - 8) * 32 + r1 div ?q"
  proof (cases "2 ^ n \<le> r1")
    case True
    with r(2,3) r1 u show ?thesis by (subst class_index_large [of n]) auto
  next
    case False
    then have r1n: "r1 = 2 ^ n - 1" using r(1) r1 by linarith
    show ?thesis
    proof (cases "r - 1" rule: size_cases)
      case small
      then have "class_index (mapping_insert (r - 1)) \<le> 31" by (simp add: class_index_small)
      moreover have "31 \<le> r1 div ?q" unfolding r1n pq by (simp add: less_eq_div_iff_mult_less_eq)
      ultimately show ?thesis by linarith
    next
      case (large k)
      have "k < n"
      proof (rule ccontr)
        assume "\<not> k < n"
        then have "(2 :: nat) ^ n \<le> 2 ^ k" by (intro power_increasing) auto
        with large(2) u False show False by linarith
      qed
      have "class_index (mapping_insert (r - 1)) < (k - 8) * 32 + 64"
        using class_index_large [OF large(2,3,1)] mapping_insert_large(3) [OF large(2,3,1)] by simp
      moreover have "(k - 8) * 32 + 32 \<le> (n - 8) * 32" using \<open>k < n\<close> large(1) by simp
      moreover have "31 \<le> r1 div ?q" unfolding r1n pq by (simp add: less_eq_div_iff_mult_less_eq)
      ultimately show ?thesis by linarith
    qed
  qed
  have more: "(n - 8) * 32 + Suc (r1 div ?q) \<le> class_index (mapping_insert m)"
  proof (cases "unat m < 2 ^ Suc n")
    case True
    have "2 ^ n \<le> unat m" using m r(1) by linarith
    with True r(3) mq show ?thesis by (simp add: class_index_large [of n])
  next
    case False
    have "unat m < 2 ^ Suc (Suc n)" using m r(2) pq q by simp
    with False r(3) have c: "class_index (mapping_insert m) = (Suc n - 8) * 32 + unat m div 2 ^ (Suc n - 5)"
      by (intro class_index_large) auto
    have "32 \<le> unat m div 2 ^ (Suc n - 5)"
      using mapping_insert_large(2) [of "Suc n" m] False \<open>unat m < 2 ^ Suc (Suc n)\<close> r(3) by simp
    moreover have "r1 div ?q < 64"
      using r(2) r1 pq by (auto simp: div_less_iff_less_mult)
    moreover have "Suc n - 8 = Suc (n - 8)" using r(3) by simp
    ultimately show ?thesis unfolding c by simp
  qed
  from le less more show ?thesis by linarith
qed

lemma mapping_insert_range:
  "(unat sz < 2 ^ 32 \<longrightarrow> fst (mapping_insert sz) < FL_INDEX_COUNT) \<and> snd (mapping_insert sz) < SL_INDEX_COUNT \<and>
   (unat sz \<le> unat sz2 \<longrightarrow> class_index (mapping_insert sz) \<le> class_index (mapping_insert sz2)) \<and>
   mapping_insert block_size_max = (FL_INDEX_COUNT, 0)"
proof -
  have max: "mapping_insert block_size_max = (FL_INDEX_COUNT, 0)" by code_simp
  have "(unat sz < 2 ^ 32 \<longrightarrow> fst (mapping_insert sz) < 25) \<and> snd (mapping_insert sz) < 32"
  proof (cases sz rule: size_cases)
    case small
    then show ?thesis by (simp add: mapping_insert_small)
  next
    case (large n)
    note m = mapping_insert_large [OF large(2,3,1)]
    have "n < 32" if "unat sz < 2 ^ 32"
    proof (rule ccontr)
      assume "\<not> n < 32"
      then have "(2 :: nat) ^ 32 \<le> 2 ^ n" by (intro power_increasing) auto
      with that large(2) show False by linarith
    qed
    with m large(1) show ?thesis by auto
  qed
  with max class_index_mono show ?thesis
    by (simp add: FL_INDEX_COUNT_def FL_INDEX_MAX_def FL_INDEX_SHIFT_def SL_INDEX_COUNT_LOG2_def ALIGN_SIZE_LOG2_def SL_INDEX_COUNT_def)
qed

text \<open>
  Size classes. For every size below 2^32 the class lies within the 25 by 32 free lists,
  and the classes are ordered like the sizes. The largest size the allocator admits for a
  pool, 2^32 itself, is given first-level index 25: one past the end of the arrays.
\<close>

theorem mapping_insert_bounds:
  "(unat sz < 2 ^ 32 \<longrightarrow> fst (mapping_insert sz) < FL_INDEX_COUNT) \<and> snd (mapping_insert sz) < SL_INDEX_COUNT \<and>
   (unat sz \<le> unat sz2 \<longrightarrow> class_index (mapping_insert sz) \<le> class_index (mapping_insert sz2)) \<and>
   mapping_insert block_size_max = (FL_INDEX_COUNT, 0)"
  by (rule mapping_insert_range)

theorem mapping_insert_bounds_witness:
  "fst (mapping_insert 4096) < FL_INDEX_COUNT \<and> class_index (mapping_insert 100) \<le> class_index (mapping_insert 4096)"
  using mapping_insert_bounds [of 4096 0] mapping_insert_bounds [of 100 4096] by simp

lemma align_up_8:
  assumes "unat sz + 7 < 2 ^ 64"
  shows "align_up sz ALIGN_SIZE = Done ((sz + 7) AND NOT 7)" "unat ((sz + 7) AND NOT 7) = (unat sz + 7) div 8 * 8"
proof -
  have m: "(7 :: usize) = mask 3" by (simp add: mask_eq_exp_minus_1)
  show "align_up sz ALIGN_SIZE = Done ((sz + 7) AND NOT 7)"
    by (simp add: align_up_def ALIGN_SIZE_def tlsf_assert_def)
  have "unat (sz + 7) = unat sz + 7" using assms by (simp add: unat_word_ariths)
  then show "unat ((sz + 7) AND NOT 7) = (unat sz + 7) div 8 * 8"
    using unat_and_not_mask [of "sz + 7" 3] unfolding m by simp
qed

lemma adjust_request_size_spec:
  assumes "unat sz + 7 < 2 ^ 64"
  shows "\<exists>r. adjust_request_size sz ALIGN_SIZE = Done r \<and> unat r < 2 ^ 32 \<and> 8 dvd unat r \<and>
    (r = 0 \<longleftrightarrow> sz = 0 \<or> 2 ^ 32 \<le> (unat sz + 7) div 8 * 8) \<and> (r \<noteq> 0 \<longrightarrow> unat sz \<le> unat r \<and> 24 \<le> unat r)"
proof (cases "sz = 0")
  case True
  then show ?thesis by (simp add: adjust_request_size_def)
next
  case False
  define a where "a = (sz + 7) AND NOT 7"
  have al: "align_up sz ALIGN_SIZE = Done a" and ua: "unat a = (unat sz + 7) div 8 * 8"
    using align_up_8 [OF assms] unfolding a_def by blast+
  have mx: "unat block_size_max = 2 ^ 32" by (simp add: block_size_max_def FL_INDEX_MAX_def)
  have up: "unat sz \<le> unat a" unfolding ua by linarith
  have dv: "8 dvd unat a" unfolding ua by simp
  show ?thesis
  proof (cases "a < block_size_max")
    case True
    then have lt: "unat a < 2 ^ 32" unfolding word_less_nat_alt mx .
    have r: "unat (max a block_size_min) = max (unat a) 24"
      by (simp add: max_def word_le_nat_alt block_size_min_def)
    have "adjust_request_size sz ALIGN_SIZE = Done (max a block_size_min)"
      using False True al by (simp add: adjust_request_size_def)
    moreover have "unat (max a block_size_min) < 2 ^ 32 \<and> 8 dvd unat (max a block_size_min) \<and>
        unat sz \<le> unat (max a block_size_min) \<and> 24 \<le> unat (max a block_size_min)"
      unfolding r using lt up dv by (auto simp: max_def)
    moreover from this have "max a block_size_min \<noteq> 0" by auto
    moreover have "\<not> (sz = 0 \<or> 2 ^ 32 \<le> (unat sz + 7) div 8 * 8)" using False lt ua by simp
    ultimately show ?thesis by blast
  next
    case no: False
    then have "2 ^ 32 \<le> (unat sz + 7) div 8 * 8" unfolding word_less_nat_alt mx ua by simp
    with False no al show ?thesis by (simp add: adjust_request_size_def)
  qed
qed

lemma mapping_search_fit:
  assumes "unat sz + 7 < 2 ^ 64" "adjust_request_size sz ALIGN_SIZE = Done r" "r \<noteq> 0"
  shows "\<exists>c. mapping_search r = Done c \<and> snd c < SL_INDEX_COUNT \<and> unat sz \<le> unat r \<and>
    (\<forall>s. class_index c \<le> class_index (mapping_insert s) \<longrightarrow> r \<le> s)"
proof -
  from adjust_request_size_spec [OF assms(1)] assms(2,3)
  have r: "unat r < 2 ^ 32" "8 dvd unat r" "unat sz \<le> unat r" by auto
  show ?thesis
  proof (cases r rule: size_cases)
    case small
    have "r \<le> s" if "unat r div 8 \<le> class_index (mapping_insert s)" for s
    proof (rule ccontr)
      assume "\<not> r \<le> s"
      then have s: "unat s < unat r" by (simp add: word_le_nat_alt)
      then have "unat s div 8 < unat r div 8" using r(2) by (auto simp: dvd_def div_less_iff_less_mult)
      with that s small show False by (simp add: class_index_small)
    qed
    moreover have "mapping_search r = Done (mapping_insert r)"
      using small by (simp add: mapping_search_def SMALL_BLOCK_SIZE_def word_le_nat_alt)
    ultimately show ?thesis
      using r(3) small mapping_insert_range [of r] by (intro exI [of _ "mapping_insert r"]) (simp add: class_index_small)
  next
    case (large n)
    have t: "is_top r n" using large by (simp add: is_top_iff_bounds)
    have n: "n < 32"
    proof (rule ccontr)
      assume "\<not> n < 32"
      then have "(2 :: nat) ^ 32 \<le> 2 ^ n" by (intro power_increasing) auto
      with r(1) large(2) show False by linarith
    qed
    have "(2 :: nat) ^ 8 \<le> 2 ^ n" using large(1) by (rule power_increasing) simp
    then have big: "SMALL_BLOCK_SIZE \<le> r" using large(2) by (simp add: SMALL_BLOCK_SIZE_def word_le_nat_alt)
    have e: "unat (push_bit (n - 5) 1 :: usize) = 2 ^ (n - 5)"
    proof -
      have "(2 :: nat) ^ (n - 5) < 2 ^ 64" using n by (intro power_strict_increasing) auto
      with n show ?thesis
        by (simp only: unsigned_push_bit_eq) (simp add: push_bit_eq_mult take_bit_nat_eq_self)
    qed
    have small_q: "(2 :: nat) ^ (n - 5) \<le> 2 ^ 26" using n by (intro power_increasing) auto
    let ?m = "r + (push_bit (n - 5) 1 - 1)"
    have "unat (push_bit (n - 5) 1 - 1 :: usize) = 2 ^ (n - 5) - 1"
      using e by (subst unat_minus_one) (metis e power_not_zero unat_0 zero_neq_numeral, simp)
    then have m: "unat ?m = unat r + (2 ^ (n - 5) - 1)"
      using r(1) small_q by (subst unat_plus_small) simp_all
    have search: "mapping_search r = Done (mapping_insert ?m)"
      using big n by (simp add: mapping_search_def fls_sizet_top [OF t] SL_INDEX_COUNT_LOG2_def Let_def)
    have "r \<le> s" if "class_index (mapping_insert ?m) \<le> class_index (mapping_insert s)" for s
      using class_index_round [OF large(2,3,1) m, of s] that by (metis not_less word_le_nat_alt)
    with search r(3) mapping_insert_range [of ?m] show ?thesis by blast
  qed
qed

text \<open>
  Good fit. For every request that is not rejected, the search class is computed without
  undefined shifts, and every block whose own class comes at or after the search class is at
  least as large as the request: the first block of any such free list will do.
\<close>

theorem mapping_search_good_fit:
  assumes "unat sz + 7 < 2 ^ 64" "adjust_request_size sz ALIGN_SIZE = Done r" "r \<noteq> 0"
  shows "\<exists>c. mapping_search r = Done c \<and> snd c < SL_INDEX_COUNT \<and> unat sz \<le> unat r \<and>
    (\<forall>s. class_index c \<le> class_index (mapping_insert s) \<longrightarrow> r \<le> s)"
  using assms by (rule mapping_search_fit)

theorem mapping_search_good_fit_witness:
  "mapping_search 1000 = Done (2, 31) \<and> mapping_insert 1008 = (2, 31) \<and> (1000 :: usize) \<le> 1008"
proof -
  have a: "adjust_request_size 1000 ALIGN_SIZE = Done 1000" by code_simp
  have m: "mapping_search 1000 = Done (2, 31)" "mapping_insert 1008 = (2, 31)" by code_simp+
  obtain c where "mapping_search 1000 = Done c" "\<forall>s. class_index c \<le> class_index (mapping_insert s) \<longrightarrow> 1000 \<le> s"
    using mapping_search_good_fit [OF _ a] by auto
  then have "class_index (2, 31) \<le> class_index (mapping_insert (1008 :: usize)) \<longrightarrow> (1000 :: usize) \<le> 1008"
    using m by auto
  with m show ?thesis by simp
qed

end
