(* ===== verification/TlsfLists.thy ===== *)
theory TlsfLists
  imports TlsfMap
begin

text \<open>
  The free lists of the allocator: what the control structure and the link words of the free
  blocks represent, namely a list of block addresses per size class, and that inserting,
  removing and searching implement the obvious operations on these lists, with both levels of
  bitmaps in step.
\<close>

section \<open>Doubly linked lists in memory\<close>

text \<open>
  \<open>dl m e p xs\<close>: the blocks \<open>xs\<close> are linked in this order, the first one's predecessor is \<open>p\<close>
  and the last one's successor is \<open>e\<close>.
\<close>

fun dl :: "(uquad \<Rightarrow> uquad option) \<Rightarrow> uquad \<Rightarrow> uquad \<Rightarrow> uquad list \<Rightarrow> bool" where
  "dl m e p [] \<longleftrightarrow> True"
| "dl m e p (x # xs) \<longleftrightarrow> m (f_prev x) = Some p \<and> m (f_next x) = Some (hd (xs @ [e])) \<and> dl m e x xs"

text \<open>Two headers whose words do not overlap.\<close>

definition apart :: "uquad \<Rightarrow> uquad \<Rightarrow> bool" where
  "apart a b \<longleftrightarrow> a \<noteq> b \<and> a \<noteq> b + 8 \<and> b \<noteq> a + 8 \<and> a \<noteq> b + 16 \<and> b \<noteq> a + 16"

lemma apart_sym: "apart a b \<Longrightarrow> apart b a"
  by (auto simp: apart_def)

lemma apart_fields:
  assumes "apart a b"
  shows "f_next a \<noteq> f_next b" "f_prev a \<noteq> f_prev b" "f_next a \<noteq> f_prev b" "f_prev a \<noteq> f_next b"
    "f_size a \<noteq> f_next b" "f_size a \<noteq> f_prev b" "f_next a \<noteq> f_size b" "f_prev a \<noteq> f_size b"
proof -
  have shift: "x + k + d = y + d \<longleftrightarrow> x + k = y" for x y k d :: uquad by simp
  have e: "a + 24 = (a + 8) + 16" "b + 24 = (b + 8) + 16" "a + 24 = (a + 16) + 8" "b + 24 = (b + 16) + 8"
    "a + 16 = (a + 8) + 8" "b + 16 = (b + 8) + 8" by simp_all
  note n = assms [unfolded apart_def]
  show "f_next a \<noteq> f_next b" "f_prev a \<noteq> f_prev b" using n by (auto simp: field_defs)
  show "f_next a \<noteq> f_prev b" "f_prev a \<noteq> f_next b" unfolding field_defs e(1,2) using n by (metis add_right_cancel)+
  show "f_size a \<noteq> f_next b" "f_next a \<noteq> f_size b" unfolding field_defs e(5,6) using n by (metis add_right_cancel)+
  show "f_size a \<noteq> f_prev b" "f_prev a \<noteq> f_size b" unfolding field_defs e(3,4) using n by (metis add_right_cancel)+
qed

lemma own_fields: "f_next a \<noteq> f_prev a" "f_prev a \<noteq> f_next a" "f_size a \<noteq> f_next a" "f_size a \<noteq> f_prev a"
  by (simp_all add: field_defs)

lemma dl_frame:
  "dl m e p xs \<Longrightarrow> (\<And>x. x \<in> set xs \<Longrightarrow> m' (f_prev x) = m (f_prev x) \<and> m' (f_next x) = m (f_next x)) \<Longrightarrow> dl m' e p xs"
  by (induction xs arbitrary: p) auto

lemma dl_append: "dl m e p (xs @ ys) \<longleftrightarrow> dl m (hd (ys @ [e])) p xs \<and> dl m e (last (p # xs)) ys"
  by (induction xs arbitrary: p) (auto simp: hd_append)

lemma dl_mapped: "dl m e p xs \<Longrightarrow> x \<in> set xs \<Longrightarrow> m (f_prev x) \<noteq> None \<and> m (f_next x) \<noteq> None"
  by (induction xs arbitrary: p) auto

lemma dl_retarget:
  "dl m e p xs \<Longrightarrow> (\<And>x. x \<in> set xs \<Longrightarrow> m' (f_prev x) = m (f_prev x)) \<Longrightarrow>
    (\<And>x. x \<in> set xs \<Longrightarrow> x \<noteq> last xs \<Longrightarrow> m' (f_next x) = m (f_next x)) \<Longrightarrow> distinct xs \<Longrightarrow>
    (xs \<noteq> [] \<Longrightarrow> m' (f_next (last xs)) = Some e') \<Longrightarrow> dl m' e' p xs"
proof (induction xs arbitrary: p)
  case (Cons x xs)
  show ?case
  proof (cases "xs = []")
    case True
    with Cons.prems show ?thesis by simp
  next
    case False
    then have l: "last xs \<in> set xs" "x \<noteq> last (x # xs)" using Cons.prems(4) by (auto dest: last_in_set)
    have "dl m' e' x xs"
      using Cons.prems False by (intro Cons.IH) (auto split: if_splits)
    with Cons.prems(1,2) Cons.prems(3) [of x] l False show ?thesis by (cases xs) auto
  qed
qed simp

section \<open>What the free lists represent\<close>

definition members :: "(nat \<Rightarrow> nat \<Rightarrow> uquad list) \<Rightarrow> uquad set" where
  "members L = {b. \<exists>i < 25. \<exists>j < 32. b \<in> set (L i j)}"

definition lists_rep :: "tlsf \<Rightarrow> (nat \<Rightarrow> nat \<Rightarrow> uquad list) \<Rightarrow> bool" where
  "lists_rep st L \<longleftrightarrow>
     (control st \<noteq> 0 \<and> tmem st (f_prev (control st)) \<noteq> None \<and> tmem st (f_next (control st)) \<noteq> None) \<and>
     (length (sl_bitmap st) = 25 \<and> length (blocks st) = 25 \<and> (\<forall>i < 25. length (blocks st ! i) = 32)) \<and>
     (\<forall>i < 25. \<forall>j < 32. blocks st ! i ! j = hd (L i j @ [control st])) \<and>
     (\<forall>i < 25. \<forall>j < 32. dl (tmem st) (control st) (control st) (L i j) \<and> distinct (L i j)) \<and>
     (\<forall>i < 25. \<forall>j < 32. bit (sl_bitmap st ! i) j \<longleftrightarrow> L i j \<noteq> []) \<and>
     (\<forall>i. bit (fl_bitmap st) i \<longleftrightarrow> i < 25 \<and> sl_bitmap st ! i \<noteq> 0) \<and>
     (\<forall>i < 25. \<forall>j < 32. \<forall>i' < 25. \<forall>j' < 32. (i, j) \<noteq> (i', j') \<longrightarrow> set (L i j) \<inter> set (L i' j') = {}) \<and>
     (\<forall>b \<in> members L. b \<noteq> 0 \<and> b AND 7 = 0 \<and> apart b (control st)) \<and>
     (\<forall>b \<in> members L. \<forall>c \<in> members L. b \<noteq> c \<longrightarrow> apart b c)"

lemma lists_repD:
  assumes rep: "lists_rep st L"
  shows "control st \<noteq> 0" "tmem st (f_prev (control st)) \<noteq> None" "tmem st (f_next (control st)) \<noteq> None"
    "length (sl_bitmap st) = 25" "length (blocks st) = 25" "i < 25 \<Longrightarrow> length (blocks st ! i) = 32"
    "i < 25 \<Longrightarrow> j < 32 \<Longrightarrow> blocks st ! i ! j = hd (L i j @ [control st])"
    "i < 25 \<Longrightarrow> j < 32 \<Longrightarrow> dl (tmem st) (control st) (control st) (L i j)" "i < 25 \<Longrightarrow> j < 32 \<Longrightarrow> distinct (L i j)"
    "i < 25 \<Longrightarrow> j < 32 \<Longrightarrow> bit (sl_bitmap st ! i) j \<longleftrightarrow> L i j \<noteq> []"
    "bit (fl_bitmap st) i \<longleftrightarrow> i < 25 \<and> sl_bitmap st ! i \<noteq> 0"
    "i < 25 \<Longrightarrow> j < 32 \<Longrightarrow> i' < 25 \<Longrightarrow> j' < 32 \<Longrightarrow> (i, j) \<noteq> (i', j') \<Longrightarrow> set (L i j) \<inter> set (L i' j') = {}"
    "b \<in> members L \<Longrightarrow> b \<noteq> 0" "b \<in> members L \<Longrightarrow> b AND 7 = 0" "b \<in> members L \<Longrightarrow> apart b (control st)"
    "b \<in> members L \<Longrightarrow> c \<in> members L \<Longrightarrow> b \<noteq> c \<Longrightarrow> apart b c"
proof -
  note w = rep [unfolded lists_rep_def]
  note w1 = w [THEN conjunct1] and w2 = w [THEN conjunct2, THEN conjunct1]
    and w3 = w [THEN conjunct2, THEN conjunct2, THEN conjunct1]
    and w4 = w [THEN conjunct2, THEN conjunct2, THEN conjunct2, THEN conjunct1]
    and w5 = w [THEN conjunct2, THEN conjunct2, THEN conjunct2, THEN conjunct2, THEN conjunct1]
    and w6 = w [THEN conjunct2, THEN conjunct2, THEN conjunct2, THEN conjunct2, THEN conjunct2, THEN conjunct1]
    and w7 = w [THEN conjunct2, THEN conjunct2, THEN conjunct2, THEN conjunct2, THEN conjunct2, THEN conjunct2, THEN conjunct1]
    and w8 = w [THEN conjunct2, THEN conjunct2, THEN conjunct2, THEN conjunct2, THEN conjunct2, THEN conjunct2,
      THEN conjunct2, THEN conjunct1]
    and w9 = w [THEN conjunct2, THEN conjunct2, THEN conjunct2, THEN conjunct2, THEN conjunct2, THEN conjunct2,
      THEN conjunct2, THEN conjunct2]
  show "control st \<noteq> 0" "tmem st (f_prev (control st)) \<noteq> None" "tmem st (f_next (control st)) \<noteq> None" using w1 by blast+
  show "length (sl_bitmap st) = 25" "length (blocks st) = 25" "i < 25 \<Longrightarrow> length (blocks st ! i) = 32" using w2 by blast+
  show "i < 25 \<Longrightarrow> j < 32 \<Longrightarrow> blocks st ! i ! j = hd (L i j @ [control st])" using w3 by blast
  show "i < 25 \<Longrightarrow> j < 32 \<Longrightarrow> dl (tmem st) (control st) (control st) (L i j)" "i < 25 \<Longrightarrow> j < 32 \<Longrightarrow> distinct (L i j)"
    using w4 by blast+
  show "i < 25 \<Longrightarrow> j < 32 \<Longrightarrow> bit (sl_bitmap st ! i) j \<longleftrightarrow> L i j \<noteq> []" using w5 by blast
  show "bit (fl_bitmap st) i \<longleftrightarrow> i < 25 \<and> sl_bitmap st ! i \<noteq> 0" using w6 by blast
  show "i < 25 \<Longrightarrow> j < 32 \<Longrightarrow> i' < 25 \<Longrightarrow> j' < 32 \<Longrightarrow> (i, j) \<noteq> (i', j') \<Longrightarrow> set (L i j) \<inter> set (L i' j') = {}"
    using w7 by blast
  show "b \<in> members L \<Longrightarrow> b \<noteq> 0" "b \<in> members L \<Longrightarrow> b AND 7 = 0" "b \<in> members L \<Longrightarrow> apart b (control st)"
    using w8 by blast+
  show "b \<in> members L \<Longrightarrow> c \<in> members L \<Longrightarrow> b \<noteq> c \<Longrightarrow> apart b c" using w9 by blast
qed

definition upd :: "(nat \<Rightarrow> nat \<Rightarrow> uquad list) \<Rightarrow> nat \<Rightarrow> nat \<Rightarrow> uquad list \<Rightarrow> nat \<Rightarrow> nat \<Rightarrow> uquad list" where
  "upd L i j xs = (\<lambda>i' j'. if i' = i \<and> j' = j then xs else L i' j')"

lemma upd_simps [simp]: "upd L i j xs i j = xs" "(i', j') \<noteq> (i, j) \<Longrightarrow> upd L i j xs i' j' = L i' j'"
  by (auto simp: upd_def)

lemma in_members: "i < 25 \<Longrightarrow> j < 32 \<Longrightarrow> b \<in> set (L i j) \<Longrightarrow> b \<in> members L"
  by (auto simp: members_def)

lemma members_upd: "members (upd L i j xs) \<subseteq> members L \<union> set xs"
  by (auto simp: members_def upd_def split: if_splits)

section \<open>Insertion\<close>

lemma aligned_ptr: "b AND 7 = 0 \<Longrightarrow> align_ptr (block_to_ptr b) ALIGN_SIZE = Done (block_to_ptr b)"
proof -
  assume a: "b AND 7 = 0"
  have m: "(7 :: usize) = mask 3" by (simp add: mask_eq_exp_minus_1)
  have low0: "\<not> bit b n" if "n < 3" for n
  proof -
    have "\<not> bit (b AND 7) n" unfolding a by simp
    then show ?thesis using that bit_below [of b n] unfolding m by (auto simp: bit_and_iff bit_mask_iff)
  qed
  have "bit b n = bit (push_bit 3 (drop_bit 3 b)) n" if "n < LENGTH(64)" for n
    using that by (cases "n < 3") (auto simp: low0 bit_push_bit_iff bit_drop_bit_eq)
  then have "b = push_bit 3 (drop_bit 3 b)" by (rule bit_word_eqI)
  then have "b + 16 = push_bit 3 (drop_bit 3 b) + push_bit 3 2" by simp
  also have "\<dots> = push_bit 3 (drop_bit 3 b + 2)" by (rule push_bit_add [symmetric])
  finally have x: "b + 16 = push_bit 3 (drop_bit 3 b + 2)" .
  define x where "x = b + 16"
  have low: "\<not> bit x n" if "n < 3" for n using that unfolding x_def x by (simp add: bit_push_bit_iff)
  have b7: "bit (7 :: usize) n \<longleftrightarrow> n < 3" for n unfolding m by (auto simp: bit_mask_iff)
  have "x + 7 = x OR 7" by (rule disjunctive_add) (use low b7 in blast)
  moreover have "(x OR 7) AND NOT 7 = x"
    by (rule bit_word_eqI) (simp only: bit_and_iff bit_or_iff bit_not_iff b7, use low in auto)
  ultimately show ?thesis
    by (simp add: align_ptr_def ALIGN_SIZE_def tlsf_assert_def block_to_ptr_def block_start_offset_def x_def)
qed

lemma bit_one_at: "j < 32 \<Longrightarrow> bit (push_bit j 1 :: ulong) k \<longleftrightarrow> k = j"
  by (simp only: bit_push_bit_iff bit_1_iff) auto

lemma bit_insert_sl: "j < 32 \<Longrightarrow> bit (m OR push_bit j 1) k \<longleftrightarrow> bit m k \<or> k = j" for m :: ulong
  unfolding bit_or_iff by (simp only: bit_one_at)

lemma bit_remove_sl: "j < 32 \<Longrightarrow> bit (m AND NOT (push_bit j 1)) k \<longleftrightarrow> bit m k \<and> k \<noteq> j" for m :: ulong
  unfolding bit_and_iff bit_not_iff using bit_one_at [of j k] bit_below [of m k] by auto

text \<open>\<open>b\<close> is a block that can be entered: mapped, aligned and apart from the blocks of the lists.\<close>

definition enterable :: "tlsf \<Rightarrow> (nat \<Rightarrow> nat \<Rightarrow> uquad list) \<Rightarrow> uquad \<Rightarrow> bool" where
  "enterable st L b \<longleftrightarrow> b \<noteq> 0 \<and> b AND 7 = 0 \<and> apart b (control st) \<and> (\<forall>c \<in> members L. apart b c) \<and>
     tmem st (f_prev b) \<noteq> None \<and> tmem st (f_next b) \<noteq> None"

definition inserted :: "tlsf \<Rightarrow> uquad \<Rightarrow> nat \<Rightarrow> nat \<Rightarrow> tlsf" where
  "inserted st b i j =
     (let cur = blocks st ! i ! j in
      st\<lparr>tmem := (tmem st)(f_next b \<mapsto> cur, f_prev b \<mapsto> control st, f_prev cur \<mapsto> b),
         blocks := (blocks st)[i := (blocks st ! i)[j := b]],
         fl_bitmap := fl_bitmap st OR push_bit i 1,
         sl_bitmap := (sl_bitmap st)[i := sl_bitmap st ! i OR push_bit j 1]\<rparr>)"

lemma insert_free_block_run:
  assumes rep: "lists_rep st L" and ij: "i < 25" "j < 32" and b: "enterable st L b"
  shows "insert_free_block b i j st = Done (inserted st b i j)"
proof -
  note D = lists_repD [OF rep]
  let ?cur = "hd (L i j @ [control st])"
  have cur: "blocks st ! i ! j = ?cur" using D(7) ij by blast
  have "?cur \<noteq> 0 \<and> (\<exists>v. tmem st (f_prev ?cur) = Some v)"
  proof (cases "L i j")
    case Nil
    then show ?thesis using D(1,2) by auto
  next
    case (Cons x xs)
    then have "x \<in> members L" "dl (tmem st) (control st) (control st) (x # xs)"
      using in_members [OF ij, of x L] D(8) [OF ij] by auto
    with Cons D(13) [of x] show ?thesis by simp
  qed
  then obtain v where "?cur \<noteq> 0" "tmem st (f_prev ?cur) = Some v" by blast
  with ij D(4,5) D(6) [OF ij(1)] cur b aligned_ptr [of b] show ?thesis
    by (simp add: insert_free_block_def getHead_def getSl_def store_def tlsf_assert_def enterable_def inserted_def
        setHead_def Let_def)
qed

lemma inserted_rep:
  assumes rep: "lists_rep st L" and ij: "i < 25" "j < 32" and b: "enterable st L b"
  shows "lists_rep (inserted st b i j) (upd L i j (b # L i j))"
proof -
  note D = lists_repD [OF rep]
  let ?L = "upd L i j (b # L i j)" and ?c = "control st"
  let ?cur = "hd (L i j @ [?c])"
  define m where "m = (tmem st)(f_next b \<mapsto> ?cur, f_prev b \<mapsto> ?c, f_prev ?cur \<mapsto> b)"
  have cur: "blocks st ! i ! j = ?cur" using D(7) ij by blast
  have new: "b \<notin> members L" using b by (auto simp: enterable_def apart_def)
  have bc: "apart b ?c" "b \<noteq> 0" "b AND 7 = 0" and bm: "\<And>x. x \<in> members L \<Longrightarrow> apart b x"
    using b by (auto simp: enterable_def)
  have cur_cases: "?cur = ?c \<and> L i j = [] \<or> ?cur \<in> set (L i j)" by (cases "L i j") auto
  have cur_apart: "apart b ?cur" using cur_cases bc(1) bm in_members [OF ij] by metis
  have frame: "m (f_prev x) = tmem st (f_prev x) \<and> m (f_next x) = tmem st (f_next x)"
    if x: "x \<in> members L" "x \<noteq> ?cur" for x
  proof -
    have xb: "apart x b" using apart_sym [OF bm [OF x(1)]] .
    have xc: "apart x ?cur"
      using cur_cases D(15) [OF x(1)] D(16) [OF x(1)] in_members [OF ij] x(2) by metis
    show ?thesis using apart_fields [OF xb] apart_fields [OF xc] by (simp add: m_def)
  qed
  have dl_other: "dl m ?c ?c (L k l)" if "k < 25" "l < 32" "(k, l) \<noteq> (i, j)" for k l
  proof (rule dl_frame [OF D(8) [OF that(1,2)]])
    fix x assume x: "x \<in> set (L k l)"
    have xm: "x \<in> members L" using in_members that x by blast
    have "x \<noteq> ?cur"
      using cur_cases D(12) [OF that(1,2) ij that(3)] x D(15) [OF xm] by (auto simp: apart_def)
    then show "m (f_prev x) = tmem st (f_prev x) \<and> m (f_next x) = tmem st (f_next x)" by (rule frame [OF xm])
  qed
  have dl_here: "dl m ?c ?c (b # L i j)"
  proof (cases "L i j")
    case Nil
    then show ?thesis using apart_fields [OF cur_apart] own_fields by (simp add: m_def)
  next
    case (Cons x xs)
    have d: "dl (tmem st) ?c ?c (x # xs)" "distinct (x # xs)" using D(8,9) [OF ij] Cons by auto
    have xb: "apart x b" using apart_sym cur_apart Cons by simp
    have "dl m ?c x xs"
    proof (rule dl_frame)
      show "dl (tmem st) ?c x xs" using d(1) by simp
      fix y assume y: "y \<in> set xs"
      then have "y \<in> members L" using in_members [OF ij, of y L] Cons by simp
      moreover have "y \<noteq> ?cur" using y d(2) Cons by auto
      ultimately show "m (f_prev y) = tmem st (f_prev y) \<and> m (f_next y) = tmem st (f_next y)" by (rule frame)
    qed
    moreover have "m (f_next x) = tmem st (f_next x)" "m (f_prev x) = Some b"
      using apart_fields [OF xb] own_fields Cons by (simp_all add: m_def)
    moreover have "m (f_prev b) = Some ?c" "m (f_next b) = Some x"
      using apart_fields [OF cur_apart] own_fields Cons by (simp_all add: m_def)
    ultimately show ?thesis using d(1) Cons by simp
  qed
  have st': "tmem (inserted st b i j) = m" "control (inserted st b i j) = ?c"
    "blocks (inserted st b i j) = (blocks st)[i := (blocks st ! i)[j := b]]"
    "fl_bitmap (inserted st b i j) = fl_bitmap st OR push_bit i 1"
    "sl_bitmap (inserted st b i j) = (sl_bitmap st)[i := sl_bitmap st ! i OR push_bit j 1]"
    by (simp_all add: inserted_def Let_def cur m_def)
  have sub: "members ?L \<subseteq> insert b (members L)"
    using members_upd [of L i j "b # L i j"] in_members [OF ij, of _ L] by auto
  have slnz: "sl_bitmap st ! i OR push_bit j 1 \<noteq> 0"
  proof
    assume "sl_bitmap st ! i OR push_bit j 1 = 0"
    then have "\<not> bit (sl_bitmap st ! i OR push_bit j 1) j" by simp
    with ij show False by (simp add: bit_insert_sl del: push_bit_of_1)
  qed
  show ?thesis
    unfolding lists_rep_def st'
  proof (intro conjI)
    show "control st \<noteq> 0" by (rule D(1))
    show "m (f_prev ?c) \<noteq> None" "m (f_next ?c) \<noteq> None" using D(2,3) by (simp_all add: m_def)
    show "length ((sl_bitmap st)[i := sl_bitmap st ! i OR push_bit j 1]) = 25"
      "length ((blocks st)[i := (blocks st ! i)[j := b]]) = 25" using D(4,5) by simp_all
    show "\<forall>k < 25. length ((blocks st)[i := (blocks st ! i)[j := b]] ! k) = 32"
    proof (intro allI impI)
      fix k :: nat assume "k < 25"
      then show "length ((blocks st)[i := (blocks st ! i)[j := b]] ! k) = 32"
        using D(5) D(6) [of k] D(6) [OF ij(1)] by (cases "k = i") auto
    qed
    show "\<forall>k < 25. \<forall>l < 32. (blocks st)[i := (blocks st ! i)[j := b]] ! k ! l = hd (?L k l @ [?c])"
    proof (intro allI impI)
      fix k l :: nat assume kl: "k < 25" "l < 32"
      show "(blocks st)[i := (blocks st ! i)[j := b]] ! k ! l = hd (?L k l @ [?c])"
        using kl D(5) D(6) [OF kl(1)] D(7) [OF kl] ij by (cases "k = i"; cases "l = j") (auto simp: upd_def)
    qed
    show "\<forall>k < 25. \<forall>l < 32. dl m ?c ?c (?L k l) \<and> distinct (?L k l)"
    proof (intro allI impI)
      fix k l :: nat assume kl: "k < 25" "l < 32"
      show "dl m ?c ?c (?L k l) \<and> distinct (?L k l)"
      proof (cases "(k, l) = (i, j)")
        case True
        then show ?thesis using dl_here D(9) [OF ij] new in_members [OF ij, of b L] by auto
      next
        case False
        then show ?thesis using dl_other [OF kl False] D(9) [OF kl] by simp
      qed
    qed
    show "\<forall>k < 25. \<forall>l < 32. bit ((sl_bitmap st)[i := sl_bitmap st ! i OR push_bit j 1] ! k) l \<longleftrightarrow> ?L k l \<noteq> []"
    proof (intro allI impI)
      fix k l :: nat assume kl: "k < 25" "l < 32"
      show "bit ((sl_bitmap st)[i := sl_bitmap st ! i OR push_bit j 1] ! k) l \<longleftrightarrow> ?L k l \<noteq> []"
        using kl D(4) D(10) [OF kl] ij by (cases "k = i"; cases "l = j") (auto simp: upd_def bit_insert_sl simp del: push_bit_of_1)
    qed
    show "\<forall>k. bit (fl_bitmap st OR push_bit i 1) k \<longleftrightarrow>
        k < 25 \<and> (sl_bitmap st)[i := sl_bitmap st ! i OR push_bit j 1] ! k \<noteq> 0"
    proof
      fix k
      have "bit (fl_bitmap st OR push_bit i 1) k \<longleftrightarrow> bit (fl_bitmap st) k \<or> k = i"
        using ij(1) by (intro bit_insert_sl) simp
      then show "bit (fl_bitmap st OR push_bit i 1) k \<longleftrightarrow>
          k < 25 \<and> (sl_bitmap st)[i := sl_bitmap st ! i OR push_bit j 1] ! k \<noteq> 0"
        using D(4) D(11) [of k] ij slnz by (cases "k = i") (auto simp del: push_bit_of_1)
    qed
    show "\<forall>k < 25. \<forall>l < 32. \<forall>k' < 25. \<forall>l' < 32. (k, l) \<noteq> (k', l') \<longrightarrow> set (?L k l) \<inter> set (?L k' l') = {}"
    proof (intro allI impI)
      fix k l k' l' :: nat assume kl: "k < 25" "l < 32" "k' < 25" "l' < 32" "(k, l) \<noteq> (k', l')"
      have nb: "b \<notin> set (L k l)" "b \<notin> set (L k' l')" using new in_members kl by blast+
      show "set (?L k l) \<inter> set (?L k' l') = {}"
        using D(12) [OF kl] nb kl(5) by (cases "(k, l) = (i, j)"; cases "(k', l') = (i, j)") auto
    qed
    show "\<forall>x \<in> members ?L. x \<noteq> 0 \<and> x AND 7 = 0 \<and> apart x ?c" using sub bc D(13,14,15) by blast
    show "\<forall>x \<in> members ?L. \<forall>y \<in> members ?L. x \<noteq> y \<longrightarrow> apart x y" using sub D(16) bm apart_sym by blast
  qed
qed

section \<open>Removal\<close>

definition removed :: "tlsf \<Rightarrow> nat \<Rightarrow> nat \<Rightarrow> uquad list \<Rightarrow> uquad list \<Rightarrow> tlsf" where
  "removed st i j xs ys =
     (let c = control st; prv = last (c # xs); nxt = hd (ys @ [c]); m = sl_bitmap st ! i AND NOT (push_bit j 1) in
      st\<lparr>tmem := (tmem st)(f_prev nxt \<mapsto> prv, f_next prv \<mapsto> nxt),
         blocks := (if xs = [] then (blocks st)[i := (blocks st ! i)[j := nxt]] else blocks st),
         fl_bitmap := (if xs = [] \<and> ys = [] \<and> m = 0 then fl_bitmap st AND NOT (push_bit i 1) else fl_bitmap st),
         sl_bitmap := (if xs = [] \<and> ys = [] then (sl_bitmap st)[i := m] else sl_bitmap st)\<rparr>)"

lemma remove_free_block_run:
  assumes rep: "lists_rep st L" and ij: "i < 25" "j < 32" and L: "L i j = xs @ b # ys"
  shows "remove_free_block b i j st = Done (removed st i j xs ys)"
proof -
  note D = lists_repD [OF rep]
  let ?c = "control st"
  let ?prv = "last (?c # xs)" and ?nxt = "hd (ys @ [?c])"
  have dl: "dl (tmem st) ?c ?c (xs @ b # ys)" and dis: "distinct (xs @ b # ys)" using D(8,9) [OF ij] L by auto
  have fb: "tmem st (f_prev b) = Some ?prv" "tmem st (f_next b) = Some ?nxt"
    using dl by (auto simp: dl_append)
  have mem: "x \<in> members L" if "x \<in> set (xs @ b # ys)" for x using in_members [OF ij, of x L] that L by simp
  have neq: "x \<noteq> ?c" if "x \<in> set (xs @ b # ys)" for x using D(15) [OF mem [OF that]] by (auto simp: apart_def)
  have p: "?prv = ?c \<and> xs = [] \<or> ?prv \<in> set xs" by (cases xs) auto
  have n: "?nxt = ?c \<and> ys = [] \<or> ?nxt \<in> set ys" by (cases ys) auto
  have nz: "?prv \<noteq> 0" "?nxt \<noteq> 0" using p n D(1) D(13) mem by (metis in_set_conv_decomp append_Cons append_assoc)+
  have map: "\<exists>v. tmem st (f_prev ?nxt) = Some v" "\<exists>v. tmem st (f_next ?prv) = Some v"
    using p n D(2,3) dl_mapped [OF dl, of ?nxt] dl_mapped [OF dl, of ?prv] by auto
  have head: "blocks st ! i ! j = hd ((xs @ b # ys) @ [?c])" using D(7) [OF ij] L by simp
  have hb: "blocks st ! i ! j \<noteq> b \<longleftrightarrow> xs \<noteq> []" unfolding head using dis by (cases xs) auto
  have nc: "?nxt \<noteq> ?c \<longleftrightarrow> ys \<noteq> []" using neq by (cases ys) auto
  obtain v1 v2 where v: "tmem st (f_prev ?nxt) = Some v1" "tmem st (f_next ?prv) = Some v2" using map by blast
  show ?thesis
    using fb nz v hb nc ij D(4,5) D(6) [OF ij(1)]
    by (cases "xs = []"; cases "ys = []")
       (simp_all add: remove_free_block_def load_def store_def tlsf_assert_def getHead_def getSl_def setHead_def
         removed_def Let_def del: push_bit_of_1)
qed

lemma removed_rep:
  assumes rep: "lists_rep st L" and ij: "i < 25" "j < 32" and L: "L i j = xs @ b # ys"
  shows "lists_rep (removed st i j xs ys) (upd L i j (xs @ ys))"
proof -
  note D = lists_repD [OF rep]
  let ?c = "control st" and ?L = "upd L i j (xs @ ys)"
  let ?prv = "last (?c # xs)" and ?nxt = "hd (ys @ [?c])" and ?m0 = "sl_bitmap st ! i AND NOT (push_bit j 1)"
  define m where "m = (tmem st)(f_prev ?nxt \<mapsto> ?prv, f_next ?prv \<mapsto> ?nxt)"
  have dl: "dl (tmem st) ?c ?c (xs @ b # ys)" and dis: "distinct (xs @ b # ys)" using D(8,9) [OF ij] L by auto
  have mem: "x \<in> members L" if "x \<in> set (xs @ b # ys)" for x using in_members [OF ij, of x L] that L by simp
  have p: "?prv = ?c \<and> xs = [] \<or> ?prv \<in> set xs" by (cases xs) auto
  have n: "?nxt = ?c \<and> ys = [] \<or> ?nxt \<in> set ys" by (cases ys) auto
  have far: "apart x y" if "x \<in> members L" "y = ?c \<or> y \<in> members L" "x \<noteq> y" for x y
    using that D(15) [OF that(1)] D(16) [OF that(1)] by blast
  have pm: "?prv = ?c \<or> ?prv \<in> members L" "?nxt = ?c \<or> ?nxt \<in> members L" using p n mem by auto
  have fprev: "m (f_prev x) = tmem st (f_prev x)" if "x \<in> members L" "x \<noteq> ?nxt" for x
    using apart_fields [OF far [OF that(1) pm(2) that(2)]] own_fields [of x]
      apart_fields [OF far [OF that(1) pm(1)]] by (cases "x = ?prv") (auto simp: m_def)
  have fnext: "m (f_next x) = tmem st (f_next x)" if "x \<in> members L" "x \<noteq> ?prv" for x
    using apart_fields [OF far [OF that(1) pm(1) that(2)]] own_fields [of x]
      apart_fields [OF far [OF that(1) pm(2)]] by (cases "x = ?nxt") (auto simp: m_def)
  have set_p: "m (f_next ?prv) = Some ?nxt" by (simp add: m_def)
  have set_n: "m (f_prev ?nxt) = Some ?prv"
  proof (cases "?nxt = ?prv")
    case True
    then show ?thesis using own_fields by (simp add: m_def)
  next
    case False
    have "apart ?nxt ?prv" using pm far False apart_sym by metis
    then show ?thesis using apart_fields by (simp add: m_def)
  qed
  have sets: "set xs \<inter> set ys = {}" "b \<notin> set xs" "b \<notin> set ys" using dis by auto
  have nc: "x \<noteq> ?c" if "x \<in> members L" for x using D(15) [OF that] by (auto simp: apart_def)
  have dl_here: "dl m ?c ?c (xs @ ys)"
    unfolding dl_append
  proof
    have d1: "dl (tmem st) b ?c xs" using dl by (simp add: dl_append)
    show "dl m ?nxt ?c xs"
    proof (rule dl_retarget [OF d1])
      show "m (f_prev x) = tmem st (f_prev x)" if "x \<in> set xs" for x
        using fprev [of x] mem [of x] that n sets(1) nc by auto
      show "m (f_next x) = tmem st (f_next x)" if "x \<in> set xs" "x \<noteq> last xs" for x
        using fnext [of x] mem [of x] that by (cases "xs = []") auto
      show "distinct xs" using dis by simp
      show "xs \<noteq> [] \<Longrightarrow> m (f_next (last xs)) = Some ?nxt" using set_p by simp
    qed
    show "dl m ?c ?prv ys"
    proof (cases ys)
      case (Cons y zs)
      have d2: "dl (tmem st) ?c b (y # zs)" using dl Cons by (simp add: dl_append)
      have "dl m ?c y zs"
      proof (rule dl_frame)
        show "dl (tmem st) ?c y zs" using d2 by simp
        fix x assume x: "x \<in> set zs"
        have "x \<noteq> ?nxt" "x \<noteq> ?prv" using x Cons dis p sets nc [OF mem [of x]] by auto
        then show "m (f_prev x) = tmem st (f_prev x) \<and> m (f_next x) = tmem st (f_next x)"
          using fprev [of x] fnext [of x] mem [of x] x Cons by simp
      qed
      moreover have "y \<noteq> ?prv" using Cons p sets nc [OF mem [of y]] by auto
      then have "m (f_next y) = tmem st (f_next y)" using fnext [of y] mem [of y] Cons by simp
      moreover have "m (f_prev y) = Some ?prv" using set_n Cons by simp
      ultimately show ?thesis using d2 Cons by simp
    qed simp
  qed
  have dl_other: "dl m ?c ?c (L k l)" if "k < 25" "l < 32" "(k, l) \<noteq> (i, j)" for k l
  proof (rule dl_frame [OF D(8) [OF that(1,2)]])
    fix x assume x: "x \<in> set (L k l)"
    have xm: "x \<in> members L" using in_members that x by blast
    have "x \<notin> set (xs @ b # ys)" using D(12) [OF that(1,2) ij that(3)] x L by auto
    then have "x \<noteq> ?prv" "x \<noteq> ?nxt" using p n nc [OF xm] by auto
    then show "m (f_prev x) = tmem st (f_prev x) \<and> m (f_next x) = tmem st (f_next x)"
      using fprev [OF xm] fnext [OF xm] by simp
  qed
  have st': "tmem (removed st i j xs ys) = m" "control (removed st i j xs ys) = ?c"
    "blocks (removed st i j xs ys) = (if xs = [] then (blocks st)[i := (blocks st ! i)[j := ?nxt]] else blocks st)"
    "fl_bitmap (removed st i j xs ys) =
       (if xs = [] \<and> ys = [] \<and> ?m0 = 0 then fl_bitmap st AND NOT (push_bit i 1) else fl_bitmap st)"
    "sl_bitmap (removed st i j xs ys) = (if xs = [] \<and> ys = [] then (sl_bitmap st)[i := ?m0] else sl_bitmap st)"
    by (simp_all add: removed_def Let_def m_def del: push_bit_of_1)
  have sub: "members ?L \<subseteq> members L" using members_upd [of L i j "xs @ ys"] mem by auto
  have old_nz: "sl_bitmap st ! i \<noteq> 0"
  proof
    assume "sl_bitmap st ! i = 0"
    with D(10) [OF ij] L show False by simp
  qed
  show ?thesis
    unfolding lists_rep_def st'
  proof (intro conjI)
    show "?c \<noteq> 0" by (rule D(1))
    show "m (f_prev ?c) \<noteq> None" "m (f_next ?c) \<noteq> None" using D(2,3) by (simp_all add: m_def)
    show "length (if xs = [] \<and> ys = [] then (sl_bitmap st)[i := ?m0] else sl_bitmap st) = 25"
      "length (if xs = [] then (blocks st)[i := (blocks st ! i)[j := ?nxt]] else blocks st) = 25" using D(4,5) by simp_all
    show "\<forall>k < 25. length ((if xs = [] then (blocks st)[i := (blocks st ! i)[j := ?nxt]] else blocks st) ! k) = 32"
    proof (intro allI impI)
      fix k :: nat assume "k < 25"
      then show "length ((if xs = [] then (blocks st)[i := (blocks st ! i)[j := ?nxt]] else blocks st) ! k) = 32"
        using D(5) D(6) [of k] D(6) [OF ij(1)] by (cases "k = i") auto
    qed
    show "\<forall>k < 25. \<forall>l < 32. (if xs = [] then (blocks st)[i := (blocks st ! i)[j := ?nxt]] else blocks st) ! k ! l =
        hd (?L k l @ [?c])"
    proof (intro allI impI)
      fix k l :: nat assume kl: "k < 25" "l < 32"
      show "(if xs = [] then (blocks st)[i := (blocks st ! i)[j := ?nxt]] else blocks st) ! k ! l = hd (?L k l @ [?c])"
        using kl D(5) D(6) [OF kl(1)] D(7) [OF kl] ij L by (cases "k = i"; cases "l = j"; cases xs) (auto simp: upd_def)
    qed
    show "\<forall>k < 25. \<forall>l < 32. dl m ?c ?c (?L k l) \<and> distinct (?L k l)"
    proof (intro allI impI)
      fix k l :: nat assume kl: "k < 25" "l < 32"
      show "dl m ?c ?c (?L k l) \<and> distinct (?L k l)"
      proof (cases "(k, l) = (i, j)")
        case True
        then show ?thesis using dl_here dis by simp
      next
        case False
        then show ?thesis using dl_other [OF kl False] D(9) [OF kl] by simp
      qed
    qed
    show "\<forall>k < 25. \<forall>l < 32. bit ((if xs = [] \<and> ys = [] then (sl_bitmap st)[i := ?m0] else sl_bitmap st) ! k) l \<longleftrightarrow> ?L k l \<noteq> []"
    proof (intro allI impI)
      fix k l :: nat assume kl: "k < 25" "l < 32"
      show "bit ((if xs = [] \<and> ys = [] then (sl_bitmap st)[i := ?m0] else sl_bitmap st) ! k) l \<longleftrightarrow> ?L k l \<noteq> []"
        using kl D(4) D(10) [OF kl] ij L
        by (cases "k = i"; cases "l = j") (auto simp: upd_def bit_remove_sl simp del: push_bit_of_1)
    qed
    show "\<forall>k. bit (if xs = [] \<and> ys = [] \<and> ?m0 = 0 then fl_bitmap st AND NOT (push_bit i 1) else fl_bitmap st) k \<longleftrightarrow>
        k < 25 \<and> (if xs = [] \<and> ys = [] then (sl_bitmap st)[i := ?m0] else sl_bitmap st) ! k \<noteq> 0"
    proof
      fix k
      have "bit (fl_bitmap st AND NOT (push_bit i 1)) k \<longleftrightarrow> bit (fl_bitmap st) k \<and> k \<noteq> i"
        using ij(1) by (intro bit_remove_sl) simp
      then show "bit (if xs = [] \<and> ys = [] \<and> ?m0 = 0 then fl_bitmap st AND NOT (push_bit i 1) else fl_bitmap st) k \<longleftrightarrow>
        k < 25 \<and> (if xs = [] \<and> ys = [] then (sl_bitmap st)[i := ?m0] else sl_bitmap st) ! k \<noteq> 0"
        using D(4) D(11) [of k] ij old_nz by (cases "k = i") (auto simp del: push_bit_of_1)
    qed
    show "\<forall>k < 25. \<forall>l < 32. \<forall>k' < 25. \<forall>l' < 32. (k, l) \<noteq> (k', l') \<longrightarrow> set (?L k l) \<inter> set (?L k' l') = {}"
    proof (intro allI impI)
      fix k l k' l' :: nat assume kl: "k < 25" "l < 32" "k' < 25" "l' < 32" "(k, l) \<noteq> (k', l')"
      show "set (?L k l) \<inter> set (?L k' l') = {}"
        using D(12) [OF kl] kl(5) L by (cases "(k, l) = (i, j)"; cases "(k', l') = (i, j)") auto
    qed
    show "\<forall>x \<in> members ?L. x \<noteq> 0 \<and> x AND 7 = 0 \<and> apart x ?c" using sub D(13,14,15) by blast
    show "\<forall>x \<in> members ?L. \<forall>y \<in> members ?L. x \<noteq> y \<longrightarrow> apart x y" using sub D(16) by blast
  qed
qed

section \<open>Search\<close>

lemma shifted_ones: "bit (m AND push_bit j (NOT 0)) l \<longleftrightarrow> bit m l \<and> j \<le> l" for m :: ulong
  using bit_below [of m l] by (auto simp: bit_and_iff bit_push_bit_iff bit_not_iff bit_mask_iff)

lemma low_found: "w \<noteq> 0 \<Longrightarrow> \<exists>l. nat (tlsf_ffs w) = l \<and> l < 32 \<and> bit w l \<and> (\<forall>k < l. \<not> bit w k)" for w :: ulong
proof -
  assume "w \<noteq> 0"
  then obtain l where l: "is_low w l" using is_low_ex by blast
  then show ?thesis using builtin_scans(2) [OF l] bit_below [of w l] by (auto simp: is_low_def)
qed

lemma search_suitable_block_spec:
  assumes rep: "lists_rep st L" and ij: "i < 25" "j < 32"
  shows "search_suitable_block i j st = Done None \<and>
      (\<forall>k < 25. \<forall>l < 32. class_index (i, j) \<le> class_index (k, l) \<longrightarrow> L k l = []) \<or>
    (\<exists>k l b bs. k < 25 \<and> l < 32 \<and> L k l = b # bs \<and> class_index (i, j) \<le> class_index (k, l) \<and>
      search_suitable_block i j st = Done (Some (b, k, l)) \<and>
      (\<forall>k' < 25. \<forall>l' < 32. class_index (i, j) \<le> class_index (k', l') \<longrightarrow> class_index (k', l') < class_index (k, l) \<longrightarrow> L k' l' = []))"
proof -
  note D = lists_repD [OF rep]
  let ?m = "sl_bitmap st ! i AND push_bit j (NOT 0)" and ?f = "fl_bitmap st AND push_bit (i + 1) (NOT 0)"
  have head: "getHead k l st = Done b" if "k < 25" "l < 32" "L k l = b # bs" for k l b bs
    using that D(5) D(6) [OF that(1)] D(7) [OF that(1,2)] by (simp add: getHead_def)
  have row: "\<not> bit (sl_bitmap st ! k) l \<Longrightarrow> L k l = []" if "k < 25" "l < 32" for k l using D(10) [OF that] by blast
  show ?thesis
  proof (cases "?m = 0")
    case False
    obtain l where l: "nat (tlsf_ffs ?m) = l" "l < 32" "bit ?m l" "\<forall>k < l. \<not> bit ?m k"
      using low_found [OF False] by blast
    then have "j \<le> l" "bit (sl_bitmap st ! i) l" unfolding shifted_ones by auto
    then obtain b bs where b: "L i l = b # bs" using D(10) [OF ij(1) l(2)] by (cases "L i l") auto
    have run: "search_suitable_block i j st = Done (Some (b, i, l))"
      using False l(1) head [OF ij(1) l(2) b] D(4) ij(1)
      by (simp add: search_suitable_block_def getSl_def Let_def del: push_bit_minus_one push_bit_of_1 bit.compl_zero)
    have "L k' l' = []" if "k' < 25" "l' < 32" "class_index (i, j) \<le> class_index (k', l')" "class_index (k', l') < class_index (i, l)" for k' l'
    proof -
      note c = that(3,4) [unfolded class_index_def fst_conv snd_conv]
      have "k' = i" by (rule order.antisym) (use c that(2) l(2) in linarith)+
      moreover from this have "j \<le> l'" "l' < l" using c by simp_all
      ultimately have "k' = i" "j \<le> l'" "l' < l" by blast+
      with l(4) have "\<not> bit (sl_bitmap st ! i) l'" unfolding shifted_ones by blast
      with row [OF ij(1) that(2)] \<open>k' = i\<close> show ?thesis by simp
    qed
    moreover have "class_index (i, j) \<le> class_index (i, l)" using \<open>j \<le> l\<close> by (simp add: class_index_def)
    ultimately show ?thesis using run b ij(1) l(2) by blast
  next
    case True
    have here: "L i l' = []" if "l' < 32" "j \<le> l'" for l'
    proof -
      have "\<not> bit ?m l'" unfolding True by simp
      then show ?thesis using that row [OF ij(1) that(1)] unfolding shifted_ones by blast
    qed
    show ?thesis
    proof (cases "?f = 0")
      case none: True
      have "L k l = []" if "k < 25" "l < 32" "class_index (i, j) \<le> class_index (k, l)" for k l
      proof (cases "k = i")
        case True
        with that here [of l] show ?thesis by (simp add: class_index_def)
      next
        case False
        then have "i + 1 \<le> k" using that(2,3) ij(2) by (auto simp: class_index_def)
        moreover have "\<not> bit ?f k" unfolding none by simp
        ultimately have "sl_bitmap st ! k = 0" using D(11) [of k] that(1) unfolding shifted_ones by blast
        then show ?thesis using row [OF that(1,2)] by simp
      qed
      moreover have "search_suitable_block i j st = Done None"
        using True none D(4) ij(1)
        by (simp add: search_suitable_block_def getSl_def Let_def del: push_bit_minus_one push_bit_of_1 bit.compl_zero)
      ultimately show ?thesis by blast
    next
      case False
      obtain k where k: "nat (tlsf_ffs ?f) = k" "k < 32" "bit ?f k" "\<forall>k' < k. \<not> bit ?f k'"
        using low_found [OF False] by blast
      then have k25: "i + 1 \<le> k" "k < 25" "sl_bitmap st ! k \<noteq> 0" using D(11) [of k] unfolding shifted_ones by auto
      obtain l where l: "nat (tlsf_ffs (sl_bitmap st ! k)) = l" "l < 32" "bit (sl_bitmap st ! k) l"
        "\<forall>l' < l. \<not> bit (sl_bitmap st ! k) l'" using low_found [OF k25(3)] by blast
      then obtain b bs where b: "L k l = b # bs" using D(10) [OF k25(2) l(2)] by (cases "L k l") auto
      have run: "search_suitable_block i j st = Done (Some (b, k, l))"
        using True False k(1) l(1) head [OF k25(2) l(2) b] D(4) ij(1) k25
        by (simp add: search_suitable_block_def getSl_def tlsf_assert_def Let_def del: push_bit_minus_one push_bit_of_1 bit.compl_zero)
      have "L k' l' = []" if "k' < 25" "l' < 32" "class_index (i, j) \<le> class_index (k', l')" "class_index (k', l') < class_index (k, l)" for k' l'
      proof -
        note c = that(2) that(3,4) [unfolded class_index_def fst_conv snd_conv]
        have "i \<le> k'" "k' \<le> k" using c ij(2) l(2) by linarith+
        moreover have "k' = i \<Longrightarrow> j \<le> l'" "k' = k \<Longrightarrow> l' < l" using c by simp_all
        ultimately consider "k' = i" "j \<le> l'" | "i + 1 \<le> k'" "k' < k" | "k' = k" "l' < l" by linarith
        then show ?thesis
        proof cases
          case 1
          with here c(1) show ?thesis by simp
        next
          case 2
          with k(4) D(11) [of k'] that(1) have "sl_bitmap st ! k' = 0" unfolding shifted_ones by blast
          then show ?thesis using row [OF that(1,2)] by simp
        next
          case 3
          with l(4) row [OF that(1,2)] show ?thesis by simp
        qed
      qed
      moreover have "class_index (i, j) \<le> class_index (k, l)" using k25(1) ij(2) by (simp add: class_index_def)
      ultimately show ?thesis using run b k25(2) l(2) by blast
    qed
  qed
qed

section \<open>Block sizes and the lists\<close>

text \<open>Every block stands in the list of its own size class.\<close>

definition sized :: "tlsf \<Rightarrow> (nat \<Rightarrow> nat \<Rightarrow> uquad list) \<Rightarrow> bool" where
  "sized st L \<longleftrightarrow> (\<forall>k < 25. \<forall>l < 32. \<forall>b \<in> set (L k l). \<exists>s. block_size b st = Done s \<and> mapping_insert s = (k, l))"

lemma sizedD: "sized st L \<Longrightarrow> k < 25 \<Longrightarrow> l < 32 \<Longrightarrow> b \<in> set (L k l) \<Longrightarrow> \<exists>s. block_size b st = Done s \<and> mapping_insert s = (k, l)"
  by (auto simp: sized_def)

lemma block_size_cong: "tmem st' (f_size b) = tmem st (f_size b) \<Longrightarrow> block_size b st' = block_size b st"
  by (simp add: block_size_def load_def)

lemma inserted_size:
  assumes rep: "lists_rep st L" and ij: "i < 25" "j < 32" and b: "enterable st L b" and x: "x = b \<or> x \<in> members L"
  shows "block_size x (inserted st b i j) = block_size x st"
proof (rule block_size_cong)
  note D = lists_repD [OF rep]
  let ?cur = "blocks st ! i ! j"
  have cur: "?cur = control st \<or> ?cur \<in> members L"
    using D(7) [OF ij] in_members [OF ij, of ?cur L] by (cases "L i j") auto
  have a: "x = y \<or> apart x y" if "y = b \<or> y = control st \<or> y \<in> members L" for y
    using that x b D(15,16) apart_sym unfolding enterable_def by metis
  have "f_size x \<noteq> f_next b" "f_size x \<noteq> f_prev b" "f_size x \<noteq> f_prev ?cur"
    using a [of b] a [of ?cur] cur apart_fields own_fields by metis+
  then show "tmem (inserted st b i j) (f_size x) = tmem st (f_size x)"
    by (simp add: inserted_def Let_def)
qed

lemma inserted_sized:
  assumes "lists_rep st L" "sized st L" "i < 25" "j < 32" "enterable st L b" "block_size b st = Done s" "mapping_insert s = (i, j)"
  shows "sized (inserted st b i j) (upd L i j (b # L i j))"
  unfolding sized_def
proof (intro allI impI ballI)
  fix k l x assume kl: "k < 25" "l < 32" and x: "x \<in> set (upd L i j (b # L i j) k l)"
  consider "x = b" "k = i" "l = j" | "x \<in> set (L k l)" using x by (cases "(k, l) = (i, j)") auto
  then show "\<exists>s. block_size x (inserted st b i j) = Done s \<and> mapping_insert s = (k, l)"
  proof cases
    case 1
    then show ?thesis using inserted_size [OF assms(1,3,4,5), of b] assms(6,7) by simp
  next
    case 2
    then show ?thesis
      using inserted_size [OF assms(1,3,4,5), of x] in_members [where L = L, OF kl 2] sizedD [OF assms(2) kl 2] by simp
  qed
qed

lemma removed_sized:
  assumes rep: "lists_rep st L" and sz: "sized st L" and ij: "i < 25" "j < 32" and L: "L i j = xs @ b # ys"
  shows "sized (removed st i j xs ys) (upd L i j (xs @ ys))" "block_size b (removed st i j xs ys) = block_size b st"
proof -
  note D = lists_repD [OF rep]
  let ?c = "control st"
  let ?prv = "last (?c # xs)" and ?nxt = "hd (ys @ [?c])"
  have mem: "x \<in> members L" if "x \<in> set (xs @ b # ys)" for x using in_members [OF ij, of x L] that L by simp
  have p: "?prv = ?c \<or> ?prv \<in> members L" "?nxt = ?c \<or> ?nxt \<in> members L"
  proof -
    show "?prv = ?c \<or> ?prv \<in> members L" using mem by (cases xs) auto
    show "?nxt = ?c \<or> ?nxt \<in> members L" using mem [of ?nxt] by (cases ys) auto
  qed
  have same: "block_size x (removed st i j xs ys) = block_size x st" if x: "x \<in> members L" for x
  proof (rule block_size_cong)
    have a: "x = y \<or> apart x y" if "y = ?c \<or> y \<in> members L" for y using that x D(15,16) by metis
    have "f_size x \<noteq> f_prev ?nxt" "f_size x \<noteq> f_next ?prv"
      using a [of ?prv] a [of ?nxt] p apart_fields own_fields by metis+
    then show "tmem (removed st i j xs ys) (f_size x) = tmem st (f_size x)"
      by (simp add: removed_def Let_def)
  qed
  show "block_size b (removed st i j xs ys) = block_size b st" using same mem by simp
  show "sized (removed st i j xs ys) (upd L i j (xs @ ys))"
    unfolding sized_def
  proof (intro allI impI ballI)
    fix k l x assume kl: "k < 25" "l < 32" and x: "x \<in> set (upd L i j (xs @ ys) k l)"
    have "x \<in> set (L k l)" using x L by (cases "(k, l) = (i, j)") auto
    then show "\<exists>s. block_size x (removed st i j xs ys) = Done s \<and> mapping_insert s = (k, l)"
      using same [OF in_members [where L = L, OF kl]] sizedD [OF sz kl] by simp
  qed
qed

section \<open>Properties\<close>

text \<open>
  C9 (freeing into the lists). When the free lists and their two levels of bitmaps are
  consistent, \<^verbatim>\<open>block_insert\<close> puts a block of admissible size at the head of the list of its
  size class and nowhere else, and they are consistent again; \<^verbatim>\<open>block_remove\<close> of a listed
  block takes exactly it out, wherever it stands in its list.
\<close>

theorem free_lists_refine:
  assumes "lists_rep st L" "sized st L"
  shows "(enterable st L b \<and> block_size b st = Done s \<and> unat s < 2 ^ 32 \<and> mapping_insert s = (i, j) \<longrightarrow>
      (\<exists>st'. block_insert b st = Done st' \<and> lists_rep st' (upd L i j (b # L i j)) \<and> sized st' (upd L i j (b # L i j)))) \<and>
    (k < 25 \<and> l < 32 \<and> c \<in> set (L k l) \<longrightarrow>
      (\<exists>st'. block_remove c st = Done st' \<and> lists_rep st' (upd L k l (remove1 c (L k l))) \<and>
        sized st' (upd L k l (remove1 c (L k l)))))"
proof (intro conjI impI)
  assume b: "enterable st L b \<and> block_size b st = Done s \<and> unat s < 2 ^ 32 \<and> mapping_insert s = (i, j)"
  then have ij: "i < 25" "j < 32"
    using mapping_insert_range [of s 0] by (simp_all add: tlsf_consts)
  have "block_insert b st = Done (inserted st b i j)"
    using b insert_free_block_run [OF assms(1) ij] by (simp add: block_insert_def)
  with inserted_rep [OF assms(1) ij] inserted_sized [OF assms ij] b
  show "\<exists>st'. block_insert b st = Done st' \<and> lists_rep st' (upd L i j (b # L i j)) \<and> sized st' (upd L i j (b # L i j))"
    by blast
next
  assume c: "k < 25 \<and> l < 32 \<and> c \<in> set (L k l)"
  then have kl: "k < 25" "l < 32" by auto
  obtain xs ys where L: "L k l = xs @ c # ys" "c \<notin> set xs" using split_list_first c by metis
  obtain s where s: "block_size c st = Done s" "mapping_insert s = (k, l)" using sizedD [OF assms(2)] c by blast
  have r: "remove1 c (L k l) = xs @ ys" using L by (simp add: remove1_append)
  have "block_remove c st = Done (removed st k l xs ys)"
    using s remove_free_block_run [OF assms(1) kl L(1)] by (simp add: block_remove_def)
  with removed_rep [OF assms(1) kl L(1)] removed_sized(1) [OF assms kl L(1)]
  show "\<exists>st'. block_remove c st = Done st' \<and> lists_rep st' (upd L k l (remove1 c (L k l))) \<and>
      sized st' (upd L k l (remove1 c (L k l)))"
    unfolding r by blast
qed


lemma control_construct_rep:
  assumes "control st \<noteq> 0" "tmem st (f_prev (control st)) \<noteq> None" "tmem st (f_next (control st)) \<noteq> None"
  shows "\<exists>st'. control_construct st = Done st' \<and> control st' = control st \<and>
    tmem st' = (tmem st)(f_next (control st) \<mapsto> control st, f_prev (control st) \<mapsto> control st) \<and>
    lists_rep st' (\<lambda>_ _. []) \<and> sized st' (\<lambda>_ _. [])"
  using assms by (auto simp: control_construct_def store_def lists_rep_def members_def sized_def tlsf_consts)

definition demo_heap :: tlsf where
  "demo_heap = \<lparr>tmem = (\<lambda>a. if a = 0x2008 then Some 4097 else if a = 0x3008 then Some 97 else Some 0), control = 0x1000,
     fl_bitmap = 0, sl_bitmap = [], blocks = []\<rparr>"

lemma demo_heap_lists:
  "\<exists>st. control_construct demo_heap = Done st \<and> lists_rep st (\<lambda>_ _. []) \<and> sized st (\<lambda>_ _. []) \<and> control st = 0x1000 \<and>
    block_size 0x2000 st = Done 4096 \<and> block_size 0x3000 st = Done 96 \<and> enterable st (\<lambda>_ _. []) 0x2000 \<and>
    (\<forall>a. tmem st a \<noteq> None)"
proof -
  have "control demo_heap \<noteq> 0" "tmem demo_heap (f_prev (control demo_heap)) \<noteq> None" "tmem demo_heap (f_next (control demo_heap)) \<noteq> None"
    and c: "control demo_heap = 0x1000"
    by (simp_all add: demo_heap_def)
  from control_construct_rep [OF this(1,2,3)]
  obtain st where st: "control_construct demo_heap = Done st" "control st = control demo_heap"
    "tmem st = (tmem demo_heap)(f_next 0x1000 \<mapsto> 0x1000, f_prev 0x1000 \<mapsto> 0x1000)"
    "lists_rep st (\<lambda>_ _. [])" "sized st (\<lambda>_ _. [])"
    unfolding c by blast
  show ?thesis
  proof (intro exI conjI allI)
    show "control st = 0x1000" using st(2) by (simp add: demo_heap_def)
    show "block_size 0x2000 st = Done 4096" "block_size 0x3000 st = Done 96"
      using st(3) by (simp_all add: block_size_def load_def field_defs demo_heap_def)
    show "tmem st a \<noteq> None" for a using st(3) by (simp add: demo_heap_def)
    then show "enterable st (\<lambda>_ _. []) 0x2000"
      using st(2) by (simp add: enterable_def demo_heap_def apart_def members_def)
  qed (use st in \<open>simp_all\<close>)
qed

theorem free_lists_refine_witness:
  "\<exists>st st'. control_construct demo_heap = Done st \<and> block_insert 0x2000 st = Done st' \<and>
    lists_rep st' (upd (\<lambda>_ _. []) 5 0 [0x2000])"
proof -
  obtain st where st: "control_construct demo_heap = Done st" "lists_rep st (\<lambda>_ _. [])" "sized st (\<lambda>_ _. [])" "control st = 0x1000"
    "block_size 0x2000 st = Done 4096" "block_size 0x3000 st = Done 96" "enterable st (\<lambda>_ _. []) 0x2000"
    "\<forall>a. tmem st a \<noteq> None"
    using demo_heap_lists by blast
  have m: "mapping_insert 4096 = (5, 0)" by code_simp
  obtain st' where "block_insert 0x2000 st = Done st'" "lists_rep st' (upd (\<lambda>_ _. []) 5 0 [0x2000])"
    using free_lists_refine [OF st(2,3), of "0x2000" 4096 5 0] st(5,7) m by auto
  with st(1) show ?thesis by blast
qed

lemma block_locate_free_run:
  assumes "lists_rep st L" "sized st L" "unat sz + 7 < 2 ^ 64" "adjust_request_size sz ALIGN_SIZE = Done r" "r \<noteq> 0"
    and "mapping_search r = Done c"
  shows "(\<exists>k l b bs s st'. k < 25 \<and> l < 32 \<and> L k l = b # bs \<and> block_locate_free r st = Done (Some b, st') \<and> st' = removed st k l [] bs \<and>
      lists_rep st' (upd L k l bs) \<and> sized st' (upd L k l bs) \<and> block_size b st' = Done s \<and> r \<le> s \<and> unat sz \<le> unat s \<and>
      (\<forall>k' < 25. \<forall>l' < 32. class_index c \<le> class_index (k', l') \<longrightarrow> class_index (k', l') < class_index (k, l) \<longrightarrow> L k' l' = [])) \<or>
    block_locate_free r st = Done (None, st) \<and>
      (\<forall>b \<in> members L. \<exists>s. block_size b st = Done s \<and> class_index (mapping_insert s) < class_index c)"
proof -
  obtain i j where c: "c = (i, j)" by (cases c)
  from mapping_search_fit [OF assms(3,4,5)] assms(6)
  have fit: "j < 32" "unat sz \<le> unat r" "\<And>s. class_index c \<le> class_index (mapping_insert s) \<Longrightarrow> r \<le> s"
    by (auto simp: c tlsf_consts)
  have below: "\<forall>b \<in> members L. \<exists>s. block_size b st = Done s \<and> class_index (mapping_insert s) < class_index c"
    if empty: "\<And>k l. k < 25 \<Longrightarrow> l < 32 \<Longrightarrow> class_index c \<le> class_index (k, l) \<Longrightarrow> L k l = []"
  proof
    fix b assume "b \<in> members L"
    then obtain k l where kl: "k < 25" "l < 32" "b \<in> set (L k l)" by (auto simp: members_def)
    then have "\<not> class_index c \<le> class_index (k, l)" using empty by fastforce
    with sizedD [OF assms(2) kl] show "\<exists>s. block_size b st = Done s \<and> class_index (mapping_insert s) < class_index c" by auto
  qed
  show ?thesis
  proof (cases "i < 25")
    case False
    have "L k l = []" if "k < 25" "l < 32" "class_index c \<le> class_index (k, l)" for k l
      using that False by (simp add: c class_index_def)
    moreover have "block_locate_free r st = Done (None, st)"
      using assms(5,6) False by (simp add: block_locate_free_def c tlsf_consts)
    ultimately show ?thesis using below by blast
  next
    case True
    have loc: "block_locate_free r st = andthen (search_suitable_block i j st) (\<lambda>x.
       case x of None \<Rightarrow> Done (None, st)
       | Some (b, fl, sl) \<Rightarrow> if b = 0 then Done (None, st)
           else andthen (block_size b st) (\<lambda>bs. tlsf_assert (r \<le> bs)
             (andthen (remove_free_block b fl sl st) (\<lambda>st1. Done (Some b, st1)))))"
      using assms(5,6) True by (simp add: block_locate_free_def c tlsf_consts)
    from search_suitable_block_spec [OF assms(1) True fit(1)] consider
      (none) "search_suitable_block i j st = Done None"
        "\<forall>k < 25. \<forall>l < 32. class_index (i, j) \<le> class_index (k, l) \<longrightarrow> L k l = []"
      | (some) k l b bs where "k < 25" "l < 32" "L k l = b # bs" "class_index (i, j) \<le> class_index (k, l)"
        "search_suitable_block i j st = Done (Some (b, k, l))"
        "\<forall>k' < 25. \<forall>l' < 32. class_index (i, j) \<le> class_index (k', l') \<longrightarrow> class_index (k', l') < class_index (k, l) \<longrightarrow> L k' l' = []"
      by blast
    then show ?thesis
    proof cases
      case none
      then have "block_locate_free r st = Done (None, st)" by (simp add: loc)
      with below none(2) show ?thesis unfolding c by blast
    next
      case some
      have b: "b \<in> set (L k l)" using some(3) by simp
      obtain s where s: "block_size b st = Done s" "mapping_insert s = (k, l)" using sizedD [OF assms(2) some(1,2) b] by blast
      have rs: "r \<le> s" using fit(3) some(4) s(2) unfolding c by simp
      have b0: "b \<noteq> 0" using lists_repD(13) [OF assms(1) in_members [where L = L, OF some(1,2) b]] .
      have L: "L k l = [] @ b # bs" using some(3) by simp
      have run: "block_locate_free r st = Done (Some b, removed st k l [] bs)"
        using b0 s(1) rs remove_free_block_run [OF assms(1) some(1,2) L]
        by (simp add: loc some(5) tlsf_assert_def)
      have "block_size b (removed st k l [] bs) = Done s" using removed_sized(2) [OF assms(1,2) some(1,2) L] s(1) by simp
      moreover have "unat sz \<le> unat s" using fit(2) rs by (simp add: word_le_nat_alt)
      ultimately show ?thesis
        using run some(1,2,3,6) rs removed_rep [OF assms(1) some(1,2) L] removed_sized(1) [OF assms(1,2) some(1,2) L]
        unfolding c by (metis append_Nil)
    qed
  qed
qed

text \<open>
  Allocation finds a block. For a request that is not rejected, on consistent free lists,
  \<^verbatim>\<open>block_locate_free\<close> runs without an assertion failure. Either it returns the head of a
  free list, a block at least as large as the request, which is then out of the lists, and no
  list between the search class and that one has a block; or it returns NULL and changes
  nothing, and then every free block lies in a class below the search class.
\<close>

theorem block_locate_free_good_fit:
  assumes "lists_rep st L" "sized st L" "unat sz + 7 < 2 ^ 64" "adjust_request_size sz ALIGN_SIZE = Done r" "r \<noteq> 0"
    and "mapping_search r = Done c"
  shows "(\<exists>k l b bs s st'. L k l = b # bs \<and> block_locate_free r st = Done (Some b, st') \<and>
      lists_rep st' (upd L k l bs) \<and> sized st' (upd L k l bs) \<and> block_size b st' = Done s \<and> r \<le> s \<and> unat sz \<le> unat s \<and>
      (\<forall>k' < 25. \<forall>l' < 32. class_index c \<le> class_index (k', l') \<longrightarrow> class_index (k', l') < class_index (k, l) \<longrightarrow> L k' l' = [])) \<or>
    block_locate_free r st = Done (None, st) \<and>
      (\<forall>b \<in> members L. \<exists>s. block_size b st = Done s \<and> class_index (mapping_insert s) < class_index c)"
  using block_locate_free_run [OF assms] by (rule disj_forward) blast+

theorem block_locate_free_good_fit_witness:
  "\<exists>st st' st''. control_construct demo_heap = Done st \<and> block_insert 0x2000 st = Done st' \<and>
    block_locate_free 1000 st' = Done (Some 0x2000, st'')"
proof -
  obtain st where st: "control_construct demo_heap = Done st" "lists_rep st (\<lambda>_ _. [])" "sized st (\<lambda>_ _. [])" "control st = 0x1000"
    "block_size 0x2000 st = Done 4096" "block_size 0x3000 st = Done 96" "enterable st (\<lambda>_ _. []) 0x2000"
    "\<forall>a. tmem st a \<noteq> None"
    using demo_heap_lists by blast
  let ?L = "upd (\<lambda>_ _. []) 5 0 [0x2000]"
  have m: "mapping_insert 4096 = (5, 0)" "mapping_search 1000 = Done (2, 31)" "adjust_request_size 1000 ALIGN_SIZE = Done 1000"
    by code_simp+
  have run: "block_insert 0x2000 st = Done (inserted st 0x2000 5 0)"
    using st(5) m(1) insert_free_block_run [OF st(2) _ _ st(7), of 5 0] by (simp add: block_insert_def)
  have rep: "lists_rep (inserted st 0x2000 5 0) ?L" "sized (inserted st 0x2000 5 0) ?L"
    using inserted_rep [OF st(2) _ _ st(7), of 5 0] inserted_sized [OF st(2,3) _ _ st(7,5) m(1)] by simp_all
  have mem: "0x2000 \<in> members ?L" by (simp add: members_def upd_def)
  have "block_size 0x2000 (inserted st 0x2000 5 0) = Done 4096"
    using inserted_size [OF st(2) _ _ st(7), of 5 0 "0x2000"] st(5) by simp
  then have "\<not> (\<forall>b \<in> members ?L. \<exists>s. block_size b (inserted st 0x2000 5 0) = Done s \<and>
      class_index (mapping_insert s) < class_index (2, 31))"
    using m(1) by (intro notI) (drule bspec [OF _ mem], simp add: class_index_def)
  with block_locate_free_good_fit [OF rep _ m(3) _ m(2)] obtain k l b bs st'' where
    "?L k l = b # bs" "block_locate_free 1000 (inserted st 0x2000 5 0) = Done (Some b, st'')" by auto
  moreover from this have "b = 0x2000" by (auto simp: upd_def split: if_splits)
  ultimately show ?thesis using st(1) run by blast
qed

text \<open>
  A pool of exactly 4 GiB. \<^verbatim>\<open>tlsf_add_pool\<close> admits a pool whose only block has the maximal
  size 2^32, but the size class of that block is past the end of the free-list arrays: adding it
  reads and writes out of bounds.
\<close>

theorem tlsf_add_pool_4GiB:
  assumes "m mod ALIGN_SIZE = 0" "tmem st m \<noteq> None" "length (blocks st) = FL_INDEX_COUNT"
  shows "tlsf_add_pool m (block_size_max + tlsf_pool_overhead) st = Fault"
proof -
  let ?b = "offset_to_block m (- block_header_overhead)"
  have mx: "block_size_max = 0x100000000" by (simp add: block_size_max_def FL_INDEX_MAX_def)
  have bs: "f_size ?b = m" by (simp add: f_size_def offset_to_block_def block_header_overhead_def)
  have "align_down block_size_max ALIGN_SIZE = Done block_size_max"
    by (simp add: mx align_down_def ALIGN_SIZE_def tlsf_assert_def)
  moreover obtain v where v: "tmem st m = Some v" using assms(2) by auto
  have sz: "((((block_size_max OR (v AND 3)) OR 1) AND NOT 2) AND NOT 3) = block_size_max"
  proof (rule bit_word_eqI)
    fix n
    have b1: "bit (1 :: usize) n \<longleftrightarrow> n = 0" by (simp add: bit_1_iff)
    have b3: "bit (3 :: usize) n \<longleftrightarrow> n < 2" and b2: "bit (2 :: usize) n \<longleftrightarrow> n = 1"
    proof -
      have m: "(3 :: usize) = mask 2" by (simp add: mask_eq_exp_minus_1)
      show "bit (3 :: usize) n \<longleftrightarrow> n < 2" unfolding m by (auto simp: bit_mask_iff)
      have p: "(2 :: usize) = push_bit 1 1" by simp
      show "bit (2 :: usize) n \<longleftrightarrow> n = 1" unfolding p by (simp only: bit_push_bit_iff bit_1_iff) auto
    qed
    have bm: "bit block_size_max n \<longleftrightarrow> n = 32"
      unfolding block_size_max_def FL_INDEX_MAX_def by (simp only: bit_push_bit_iff bit_1_iff) auto
    assume "n < LENGTH(64)"
    then show "bit ((((block_size_max OR (v AND 3)) OR 1) AND NOT 2) AND NOT 3) n = bit block_size_max n"
      unfolding bit_and_iff bit_or_iff bit_not_iff b1 b2 b3 bm by auto
  qed
  have "mapping_insert block_size_max = (FL_INDEX_COUNT, 0)" using mapping_insert_range by blast
  ultimately show ?thesis
    using assms(1,3) v sz
    by (simp add: tlsf_add_pool_def Let_def block_set_size_def block_set_free_def block_set_prev_used_def block_insert_def
        block_size_def load_def store_def bs insert_free_block_def getHead_def block_size_min_def mx)
qed

theorem tlsf_add_pool_4GiB_witness:
  "\<exists>st. control_construct demo_heap = Done st \<and> tlsf_add_pool 0x10000 (block_size_max + tlsf_pool_overhead) st = Fault"
proof -
  obtain st where st: "control_construct demo_heap = Done st" "lists_rep st (\<lambda>_ _. [])" "sized st (\<lambda>_ _. [])" "control st = 0x1000"
    "block_size 0x2000 st = Done 4096" "block_size 0x3000 st = Done 96" "enterable st (\<lambda>_ _. []) 0x2000"
    "\<forall>a. tmem st a \<noteq> None"
    using demo_heap_lists by blast
  have "length (blocks st) = FL_INDEX_COUNT" using lists_repD(5) [OF st(2)] by (simp add: tlsf_consts)
  moreover have "(0x10000 :: usize) mod ALIGN_SIZE = 0" by (simp add: ALIGN_SIZE_def)
  ultimately have "tlsf_add_pool 0x10000 (block_size_max + tlsf_pool_overhead) st = Fault"
    using tlsf_add_pool_4GiB [of "0x10000" st] st(8) by simp
  with st(1) show ?thesis by blast
qed

end
