(* ===== verification/Spinlock.thy ===== *)
theory Spinlock
  imports Prelude
begin

text \<open>
  The spin lock \<^verbatim>\<open>ke/spinlock.c\<close>, which guards the frame bitmap, the pool, the run queues and
  the arbiter. One processor alone is modelled by functions of what its tests of the lock
  see; all processors together by a step relation, in which a processor calls
  \<^verbatim>\<open>keAcquireSpinLock\<close>, spins on the atomic test-and-set, runs the steps of its critical
  section and calls \<^verbatim>\<open>keReleaseSpinLock\<close>, its steps interleaved with those of the others.
\<close>

section \<open>One processor\<close>

record KSPIN_LOCK =
  lock_flag :: bool

text \<open>The compiler's \<^verbatim>\<open>__atomic_test_and_set\<close> (old value and new state) and \<^verbatim>\<open>__atomic_clear\<close>.\<close>

definition atomic_test_and_set :: "KSPIN_LOCK \<Rightarrow> bool \<times> KSPIN_LOCK" where
  "atomic_test_and_set l = (lock_flag l, l\<lparr>lock_flag := True\<rparr>)"

definition atomic_clear :: "KSPIN_LOCK \<Rightarrow> KSPIN_LOCK" where
  "atomic_clear l = l\<lparr>lock_flag := False\<rparr>"

text \<open>
  \<^verbatim>\<open>keAcquireSpinLock\<close> on a lock that other processors may write between the tests:
  \<open>env n\<close> is the lock as the test number \<open>n\<close> finds it. The result is the number of the
  successful test and the lock after it; a loop that never ends has no result.
\<close>

partial_function (option) spinFrom :: "(nat \<Rightarrow> KSPIN_LOCK) \<Rightarrow> nat \<Rightarrow> (nat \<times> KSPIN_LOCK) option" where
  "spinFrom env n =
     (let (old, l) = atomic_test_and_set (env n) in if old then spinFrom env (n + 1) else Some (n, l))"

definition keAcquireSpinLock :: "(nat \<Rightarrow> KSPIN_LOCK) \<Rightarrow> (nat \<times> KSPIN_LOCK) option" where
  "keAcquireSpinLock env = spinFrom env 0"

definition keReleaseSpinLock :: "KSPIN_LOCK \<Rightarrow> KSPIN_LOCK" where
  "keReleaseSpinLock l = atomic_clear l"

lemma spinFrom_step:
  "spinFrom env n = (if lock_flag (env n) then spinFrom env (n + 1) else Some (n, (env n)\<lparr>lock_flag := True\<rparr>))"
  by (subst spinFrom.simps) (simp del: spinFrom.simps add: atomic_test_and_set_def)

lemma spinFrom_first:
  assumes "\<not> lock_flag (env k)" "n \<le> k" "\<And>i. n \<le> i \<Longrightarrow> i < k \<Longrightarrow> lock_flag (env i)"
  shows "spinFrom env n = Some (k, (env k)\<lparr>lock_flag := True\<rparr>)"
  using assms(2,3)
proof (induction n rule: inc_induct)
  case base
  show ?case unfolding spinFrom_step [of env k] if_not_P [OF assms(1)] ..
next
  case (step n)
  have "lock_flag (env n)" by (rule step.prems) (use step.hyps in \<open>simp_all\<close>)
  then have "spinFrom env n = spinFrom env (Suc n)" unfolding spinFrom_step [of env n] by simp
  also have "\<dots> = Some (k, (env k)\<lparr>lock_flag := True\<rparr>)" by (rule step.IH) (use step.prems in \<open>simp\<close>)
  finally show ?case .
qed

lemma spinFrom_result:
  "spinFrom env n = Some r \<Longrightarrow> \<exists>k. r = (k, (env k)\<lparr>lock_flag := True\<rparr>) \<and> n \<le> k \<and> \<not> lock_flag (env k) \<and>
    (\<forall>i. n \<le> i \<longrightarrow> i < k \<longrightarrow> lock_flag (env i))"
proof (erule spinFrom.raw_induct [rotated])
  fix f :: "(nat \<Rightarrow> KSPIN_LOCK) \<Rightarrow> nat \<Rightarrow> (nat \<times> KSPIN_LOCK) option" and env n r
  assume IH: "\<And>env n r. f env n = Some r \<Longrightarrow> \<exists>k. r = (k, (env k)\<lparr>lock_flag := True\<rparr>) \<and> n \<le> k \<and> \<not> lock_flag (env k) \<and>
      (\<forall>i. n \<le> i \<longrightarrow> i < k \<longrightarrow> lock_flag (env i))"
    and body: "(let (old, l) = atomic_test_and_set (env n) in if old then f env (n + 1) else Some (n, l)) = Some r"
  show "\<exists>k. r = (k, (env k)\<lparr>lock_flag := True\<rparr>) \<and> n \<le> k \<and> \<not> lock_flag (env k) \<and>
      (\<forall>i. n \<le> i \<longrightarrow> i < k \<longrightarrow> lock_flag (env i))"
  proof (cases "lock_flag (env n)")
    case True
    with body have "f env (Suc n) = Some r" by (simp add: atomic_test_and_set_def)
    from IH [OF this] obtain k where "r = (k, (env k)\<lparr>lock_flag := True\<rparr>)" "Suc n \<le> k" "\<not> lock_flag (env k)"
      "\<forall>i. Suc n \<le> i \<longrightarrow> i < k \<longrightarrow> lock_flag (env i)" by blast
    moreover from this True have "\<forall>i. n \<le> i \<longrightarrow> i < k \<longrightarrow> lock_flag (env i)" by (metis Suc_leI le_neq_implies_less)
    ultimately show ?thesis by (intro exI [of _ k]) auto
  next
    case False
    with body show ?thesis by (auto simp: atomic_test_and_set_def)
  qed
qed

text \<open>
  C35 (acquiring terminates when the lock is released). \<^verbatim>\<open>keAcquireSpinLock\<close> returns exactly
  when some test finds the lock clear; it returns at the first such test and leaves the lock
  set. When every test finds it set, for instance because the holder never leaves, the loop
  does not end.
\<close>

theorem keAcquireSpinLock_returns_iff:
  "keAcquireSpinLock env = Some (n, l) \<longleftrightarrow>
    \<not> lock_flag (env n) \<and> (\<forall>i < n. lock_flag (env i)) \<and> l = (env n)\<lparr>lock_flag := True\<rparr>"
proof
  assume "keAcquireSpinLock env = Some (n, l)"
  then show "\<not> lock_flag (env n) \<and> (\<forall>i < n. lock_flag (env i)) \<and> l = (env n)\<lparr>lock_flag := True\<rparr>"
    using spinFrom_result [of env 0] by (auto simp: keAcquireSpinLock_def)
next
  assume "\<not> lock_flag (env n) \<and> (\<forall>i < n. lock_flag (env i)) \<and> l = (env n)\<lparr>lock_flag := True\<rparr>"
  then show "keAcquireSpinLock env = Some (n, l)"
    using spinFrom_first [of env n 0] by (simp add: keAcquireSpinLock_def)
qed

theorem keAcquireSpinLock_returns_iff_witness:
  "keAcquireSpinLock (\<lambda>i. \<lparr>lock_flag = i < 3\<rparr>) = Some (3, \<lparr>lock_flag = True\<rparr>)"
  by (simp add: keAcquireSpinLock_returns_iff)

section \<open>All processors\<close>

text \<open>
  Where a processor is. A critical section is the list of its steps on the shared data;
  \<open>Inside xs ys\<close> has run \<open>xs\<close> and has still to run \<open>ys\<close>. \<open>history\<close> lists the sections
  that were left, in that order.
\<close>

datatype 'd site = Outside | Spinning "('d \<Rightarrow> 'd) list" | Inside "('d \<Rightarrow> 'd) list" "('d \<Rightarrow> 'd) list"

record 'd machine =
  klock :: KSPIN_LOCK
  shared :: 'd
  site_of :: "nat \<Rightarrow> 'd site"
  history :: "(nat \<times> ('d \<Rightarrow> 'd) list) list"

definition boot :: "'d \<Rightarrow> 'd machine" where
  "boot d = \<lparr>klock = \<lparr>lock_flag = False\<rparr>, shared = d, site_of = (\<lambda>_. Outside), history = []\<rparr>"

inductive step :: "'d machine \<Rightarrow> 'd machine \<Rightarrow> bool" where
  call: "site_of m p = Outside \<Longrightarrow> step m (m\<lparr>site_of := (site_of m)(p := Spinning cs)\<rparr>)"
| spin: "site_of m p = Spinning cs \<Longrightarrow> atomic_test_and_set (klock m) = (True, l) \<Longrightarrow>
    step m (m\<lparr>klock := l\<rparr>)"
| enter: "site_of m p = Spinning cs \<Longrightarrow> atomic_test_and_set (klock m) = (False, l) \<Longrightarrow>
    step m (m\<lparr>klock := l, site_of := (site_of m)(p := Inside [] cs)\<rparr>)"
| work: "site_of m p = Inside xs (f # ys) \<Longrightarrow>
    step m (m\<lparr>shared := f (shared m), site_of := (site_of m)(p := Inside (xs @ [f]) ys)\<rparr>)"
| leave: "site_of m p = Inside xs [] \<Longrightarrow>
    step m (m\<lparr>klock := keReleaseSpinLock (klock m), site_of := (site_of m)(p := Outside),
      history := history m @ [(p, xs)]\<rparr>)"

inductive reachable :: "'d \<Rightarrow> 'd machine \<Rightarrow> bool" for d where
  boot: "reachable d (boot d)"
| step: "reachable d m \<Longrightarrow> step m m' \<Longrightarrow> reachable d m'"

definition inside :: "'d machine \<Rightarrow> nat \<Rightarrow> bool" where
  "inside m p \<longleftrightarrow> (\<exists>xs ys. site_of m p = Inside xs ys)"

text \<open>The effect of the sections of a history run one after the other.\<close>

definition run :: "('d \<Rightarrow> 'd) list \<Rightarrow> 'd \<Rightarrow> 'd" where
  "run fs d = fold (\<lambda>f. f) fs d"

definition serial :: "(nat \<times> ('d \<Rightarrow> 'd) list) list \<Rightarrow> 'd \<Rightarrow> 'd" where
  "serial h d = fold (\<lambda>(p, fs). run fs) h d"

lemma run_append [simp]: "run (xs @ [f]) d = f (run xs d)" "run [] d = d"
  by (simp_all add: run_def)

lemma serial_append [simp]: "serial (h @ [(p, fs)]) d = run fs (serial h d)" "serial [] d = d"
  by (simp_all add: serial_def)

definition exclusive :: "'d \<Rightarrow> 'd machine \<Rightarrow> bool" where
  "exclusive d m \<longleftrightarrow>
     (if lock_flag (klock m)
      then \<exists>p xs ys. site_of m p = Inside xs ys \<and> (\<forall>q. inside m q \<longrightarrow> q = p) \<and>
        shared m = run xs (serial (history m) d)
      else (\<forall>q. \<not> inside m q) \<and> shared m = serial (history m) d)"

lemma exclusive_boot: "exclusive d (boot d)"
  by (simp add: exclusive_def boot_def inside_def)

lemma exclusive_site: "exclusive d m \<Longrightarrow> site_of m p = Inside xs ys \<Longrightarrow>
    lock_flag (klock m) \<and> (\<forall>q. inside m q \<longrightarrow> q = p) \<and> shared m = run xs (serial (history m) d)"
proof -
  assume h: "exclusive d m" "site_of m p = Inside xs ys"
  then have i: "inside m p" by (auto simp: inside_def)
  with h(1) have l: "lock_flag (klock m)" by (auto simp: exclusive_def split: if_splits)
  with h(1) obtain q as bs where q: "site_of m q = Inside as bs" "\<forall>r. inside m r \<longrightarrow> r = q"
    "shared m = run as (serial (history m) d)" by (auto simp: exclusive_def)
  moreover have "p = q" using q(2) i by blast
  ultimately show ?thesis using l h(2) by simp
qed

lemma exclusive_step:
  assumes "exclusive d m" "step m m'"
  shows "exclusive d m'"
  using assms(2)
proof (cases rule: step.cases)
  case (call p cs)
  have s: "site_of m' q = Inside xs ys \<longleftrightarrow> site_of m q = Inside xs ys" for q xs ys
    using call by auto
  have i: "inside m' q = inside m q" for q by (simp add: inside_def s)
  have e: "klock m' = klock m" "shared m' = shared m" "history m' = history m" using call(1) by simp_all
  show ?thesis using assms(1) unfolding exclusive_def i s e .
next
  case (spin p cs l)
  then have "m' = m" using assms(1) by (cases m, cases "klock m") (auto simp: atomic_test_and_set_def)
  with assms(1) show ?thesis by simp
next
  case (enter p cs l)
  then show ?thesis using assms(1) by (auto simp: exclusive_def atomic_test_and_set_def inside_def)
next
  case (work p xs f ys)
  with exclusive_site [OF assms(1)] show ?thesis by (auto simp: exclusive_def inside_def)
next
  case (leave p xs)
  with exclusive_site [OF assms(1)] show ?thesis
    by (auto simp: exclusive_def inside_def keReleaseSpinLock_def atomic_clear_def)
qed

lemma reachable_exclusive: "reachable d m \<Longrightarrow> exclusive d m"
  by (induction rule: reachable.induct) (simp_all add: exclusive_boot exclusive_step)

section \<open>Properties\<close>

text \<open>
  C12 (mutual exclusion and serialisation). In every reachable state at most one processor is
  between acquire and release, and the data the lock guards is what the completed critical
  sections make of it when they run one after the other in the order of their release,
  followed by the steps the holder has made so far.
\<close>

theorem spinlock_serialises:
  assumes "reachable d m"
  shows "(\<forall>p q. inside m p \<and> inside m q \<longrightarrow> p = q) \<and>
    (\<forall>p xs ys. site_of m p = Inside xs ys \<longrightarrow> shared m = run xs (serial (history m) d)) \<and>
    ((\<forall>p. \<not> inside m p) \<longrightarrow> shared m = serial (history m) d \<and> \<not> lock_flag (klock m))"
proof (intro conjI allI impI)
  note ex = reachable_exclusive [OF assms]
  show "p = q" if "inside m p \<and> inside m q" for p q
    using that exclusive_site [OF ex, of p] unfolding inside_def [of m p] by metis
  show "shared m = run xs (serial (history m) d)" if "site_of m p = Inside xs ys" for p xs ys
    using exclusive_site [OF ex that] by simp
  show "shared m = serial (history m) d" "\<not> lock_flag (klock m)" if "\<forall>p. \<not> inside m p"
    using that ex unfolding exclusive_def inside_def by (metis (no_types, lifting))+
qed

text \<open>Two processors add to a counter; the second one spins while the first is inside.\<close>

definition demo_machine :: "nat machine" where
  "demo_machine = \<lparr>klock = \<lparr>lock_flag = True\<rparr>, shared = 5,
     site_of = (\<lambda>p. if p = 1 then Spinning [(*) 2] else if p = 0 then Inside [(+) 5] [(+) 1] else Outside), history = []\<rparr>"

definition at_step :: "bool \<Rightarrow> nat \<Rightarrow> nat site \<Rightarrow> nat machine" where
  "at_step l n s = \<lparr>klock = \<lparr>lock_flag = l\<rparr>, shared = n, site_of = (\<lambda>p. if p = 0 then s else Outside), history = []\<rparr>"

lemma demo_machine_reachable: "reachable 0 demo_machine"
proof -
  let ?a = "(+) (5 :: nat)" and ?b = "(+) (1 :: nat)"
  note upd = at_step_def fun_eq_iff
  have "at_step False 0 Outside = boot 0" by (simp add: at_step_def boot_def)
  then have 0: "reachable 0 (at_step False 0 Outside)" using reachable.boot by metis
  have "step (at_step False 0 Outside) (at_step False 0 (Spinning [?a, ?b]))"
    using step.call [of "at_step False 0 Outside" 0 "[?a, ?b]"] by (simp add: upd fun_upd_def cong: if_cong)
  with 0 have 1: "reachable 0 (at_step False 0 (Spinning [?a, ?b]))" by (rule reachable.step)
  have "step (at_step False 0 (Spinning [?a, ?b])) (at_step True 0 (Inside [] [?a, ?b]))"
    using step.enter [of "at_step False 0 (Spinning [?a, ?b])" 0 "[?a, ?b]" "\<lparr>lock_flag = True\<rparr>"]
    by (simp add: upd fun_upd_def atomic_test_and_set_def cong: if_cong)
  with 1 have 2: "reachable 0 (at_step True 0 (Inside [] [?a, ?b]))" by (rule reachable.step)
  have "step (at_step True 0 (Inside [] [?a, ?b])) (at_step True 5 (Inside [?a] [?b]))"
    using step.work [of "at_step True 0 (Inside [] [?a, ?b])" 0 "[]" ?a "[?b]"]
    by (simp add: upd fun_upd_def cong: if_cong)
  with 2 have 3: "reachable 0 (at_step True 5 (Inside [?a] [?b]))" by (rule reachable.step)
  have "step (at_step True 5 (Inside [?a] [?b])) demo_machine"
    using step.call [of "at_step True 5 (Inside [?a] [?b])" 1 "[(*) 2]"]
    by (simp add: at_step_def demo_machine_def fun_upd_def cong: if_cong)
  with 3 show ?thesis by (rule reachable.step)
qed

theorem spinlock_serialises_witness:
  "reachable 0 demo_machine \<and> inside demo_machine 0 \<and> shared demo_machine = run [(+) 5] (serial (history demo_machine) 0) \<and>
    \<not> inside demo_machine 1"
proof -
  have i: "site_of demo_machine 0 = Inside [(+) 5] [(+) 1]" "inside demo_machine 0"
    by (simp_all add: demo_machine_def inside_def)
  with spinlock_serialises [OF demo_machine_reachable] have
    "shared demo_machine = run [(+) 5] (serial (history demo_machine) 0)" "\<not> inside demo_machine 1" by fastforce+
  with demo_machine_reachable i show ?thesis by blast
qed

end
