(* ===== verification/Executive.thy ===== *)
theory Executive
  imports Mmu ObjectStore BootPack Tlsf
begin

text \<open>
  The executive: the kernel pool \<^verbatim>\<open>ex/pool.c\<close>, pointer boxes \<^verbatim>\<open>ex/box.c\<close>, mapper objects
  \<^verbatim>\<open>ex/mapper.c\<close>, timer descriptors \<^verbatim>\<open>ke/timer.c\<close>, kernel modules \<^verbatim>\<open>ke/module.c\<close> and the
  program loader \<^verbatim>\<open>ke/loader.c\<close>. The trace output of the loader is left out.
\<close>

section \<open>The kernel pool\<close>

definition POOLSIZE_BYTES :: usize where "POOLSIZE_BYTES = 0x2000000"
definition POOLSIZE_PAGES :: usize where "POOLSIZE_PAGES = POOLSIZE_BYTES div PAGESIZE"

record pool =
  pool_isInit :: bool
  poolPhysBase :: ulong_ptr
  poolVirtBase :: ulong_ptr
  tlsfCtx :: "ulong_ptr option"
  heap :: tlsf
  frames :: phys

text \<open>The words of the pool's own pages, as the allocator's memory.\<close>

definition poolWords :: "ulong_ptr \<Rightarrow> phys \<Rightarrow> uquad \<Rightarrow> uquad option" where
  "poolWords base pm a = (if a - base < POOLSIZE_BYTES \<and> a AND 7 = 0 then Some (memory pm a) else None)"

definition exFreePool :: "uquad option \<Rightarrow> pool \<Rightarrow> pool outcome" where
  "exFreePool p s = andthen (tlsf_free p (heap s)) (\<lambda>h. Done (s\<lparr>heap := h\<rparr>))"

definition exAllocatePool :: "usize \<Rightarrow> pool \<Rightarrow> (uquad option \<times> pool) outcome" where
  "exAllocatePool len s =
     (if \<not> pool_isInit s then Done (None, s)
      else andthen (tlsf_malloc len (heap s)) (\<lambda>(tmp, h). Done (tmp, s\<lparr>heap := h\<rparr>)))"

definition kiPoolInit :: "pool \<Rightarrow> pool outcome" where
  "kiPoolInit s =
     (if pool_isInit s then Done s
      else andthen (mmAllocFrame POOLSIZE_PAGES (frames s)) (\<lambda>(base, pm).
        if base = 0 then Panic ''could not initialize root pool''
        else let v = PHYS_TO_VIRT pm base in
          andthen (tlsf_create_with_pool v POOLSIZE_BYTES ((heap s)\<lparr>tmem := poolWords v pm\<rparr>)) (\<lambda>(ctx, h).
            Done (s\<lparr>poolPhysBase := base, poolVirtBase := v, frames := pm, heap := h, tlsfCtx := ctx, pool_isInit := True\<rparr>))))"

section \<open>Pointer boxes\<close>

datatype PTRBOX_TYPE = PTRBOX_PAGES | PTRBOX_HEAP | PTRBOX_ANY

definition PTRBOX_MAGIC :: ulong where "PTRBOX_MAGIC = 0xCAFA17E"

record PTRBOX_ELEMENT =
  be_magic :: ulong
  be_type :: PTRBOX_TYPE
  be_address :: ulong_ptr
  be_len :: usize

text \<open>
  The elements by address (\<open>None\<close> once freed), their queue links, the boxes' counts by the
  number of their queue head, the data blocks handed back to the pool, the frame allocator,
  and what the pool will answer: element addresses and data addresses, NULL when exhausted.
\<close>

record boxes =
  belems :: "elem \<Rightarrow> PTRBOX_ELEMENT option"
  blinks :: links
  ptrCount :: "head \<Rightarrow> usize"
  freedData :: "ulong_ptr list"
  bphys :: phys
  elemAnswers :: "elem list"
  dataAnswers :: "ulong_ptr list"

definition getElem :: "elem \<Rightarrow> boxes \<Rightarrow> PTRBOX_ELEMENT outcome" where
  "getElem e s = (case belems s e of None \<Rightarrow> Fault | Some x \<Rightarrow> Done x)"

definition freeElem :: "elem \<Rightarrow> boxes \<Rightarrow> boxes" where
  "freeElem e s = s\<lparr>belems := (belems s)(e := None)\<rparr>"

definition boxFreeSingle :: "head option \<Rightarrow> elem option \<Rightarrow> boxes \<Rightarrow> boxes outcome" where
  "boxFreeSingle box el s =
     (case (box, el) of
        (Some b, Some e) \<Rightarrow>
          andthen (getElem e s) (\<lambda>x.
            let s1 = s\<lparr>blinks := TAILQ_REMOVE b e (blinks s)\<rparr> in
            if be_magic x \<noteq> PTRBOX_MAGIC then Done (freeElem e s1)
            else andthen (case be_type x of
                  PTRBOX_PAGES \<Rightarrow> andthen (mmFreeFrame (be_address x) (be_len x div PAGESIZE) (bphys s1)) (\<lambda>pm. Done (s1\<lparr>bphys := pm\<rparr>))
                | PTRBOX_HEAP \<Rightarrow> Done (s1\<lparr>freedData := freedData s1 @ [be_address x]\<rparr>)
                | PTRBOX_ANY \<Rightarrow> Done s1) (\<lambda>s2.
              Done (freeElem e (s2\<lparr>ptrCount := (ptrCount s2)(b := ptrCount s2 b - 1)\<rparr>))))
      | _ \<Rightarrow> Done s)"

text \<open>The result pointer's new content is the second component, \<open>None\<close> when nothing is written.\<close>

definition boxInsert :: "head \<Rightarrow> elem \<Rightarrow> PTRBOX_TYPE \<Rightarrow> ulong_ptr \<Rightarrow> usize \<Rightarrow> boxes \<Rightarrow> (ntstatus \<times> ulong_ptr option \<times> boxes) outcome" where
  "boxInsert b e type a len s =
     Done (STATUS_SUCCESS, Some a, s\<lparr>belems := (belems s)(e \<mapsto> \<lparr>be_magic = PTRBOX_MAGIC, be_type = type, be_address = a, be_len = len\<rparr>),
       blinks := TAILQ_INSERT_TAIL b e (blinks s), ptrCount := (ptrCount s)(b := ptrCount s b + 1)\<rparr>)"

definition exBoxAllocate :: "head option \<Rightarrow> usize \<Rightarrow> PTRBOX_TYPE \<Rightarrow> bool \<Rightarrow> boxes \<Rightarrow>
    (ntstatus \<times> ulong_ptr option \<times> boxes) outcome" where
  "exBoxAllocate box count type resultNull s =
     (case box of None \<Rightarrow> Done (STATUS_INVALID_HANDLE, None, s)
      | Some b \<Rightarrow>
          if resultNull then Done (STATUS_INVALID_HANDLE, None, s)
          else if count = 0 then Done (STATUS_INVALID_PARAM, None, s)
          else case elemAnswers s of [] \<Rightarrow> Done (STATUS_NO_MEMORY, None, s)
          | e # es \<Rightarrow>
              let s1 = s\<lparr>elemAnswers := es\<rparr> in
              case type of
                PTRBOX_PAGES \<Rightarrow>
                  let cnt = ALIGN_UP count PAGESIZE in
                  andthen (mmAllocPage (cnt div PAGESIZE) (bphys s1)) (\<lambda>(a, pm).
                    if a = 0 then Done (STATUS_NO_MEMORY, None, freeElem e (s1\<lparr>bphys := pm\<rparr>))
                    else boxInsert b e PTRBOX_PAGES a cnt (s1\<lparr>bphys := pm\<rparr>))
              | PTRBOX_HEAP \<Rightarrow>
                  (case dataAnswers s1 of [] \<Rightarrow> Done (STATUS_NO_MEMORY, None, freeElem e s1)
                   | a # as \<Rightarrow> boxInsert b e PTRBOX_HEAP a count (s1\<lparr>dataAnswers := as\<rparr>))
              | PTRBOX_ANY \<Rightarrow> Done (STATUS_INVALID_HANDLE, None, freeElem e s1))"

definition exInitPtrBox :: "head option \<Rightarrow> boxes \<Rightarrow> ntstatus \<times> boxes" where
  "exInitPtrBox box s =
     (case box of None \<Rightarrow> (STATUS_INVALID_HANDLE, s)
      | Some b \<Rightarrow> (STATUS_SUCCESS, s\<lparr>blinks := TAILQ_INIT b (blinks s), ptrCount := (ptrCount s)(b := 0)\<rparr>))"

text \<open>
  The loop reads the link of the element it has just released; \<open>fuel\<close> bounds the number of
  elements, and \<open>None\<close> says that there were more.
\<close>

fun releaseLoop :: "nat \<Rightarrow> head \<Rightarrow> PTRBOX_TYPE \<Rightarrow> elem option \<Rightarrow> boxes \<Rightarrow> boxes outcome option" where
  "releaseLoop fuel b type None s = Some (Done s)"
| "releaseLoop 0 b type (Some e) s = None"
| "releaseLoop (Suc fuel) b type (Some e) s =
     (case andthen (getElem e s) (\<lambda>x.
             if be_type x = type \<or> type = PTRBOX_ANY then boxFreeSingle (Some b) (Some e) s else Done s) of
        Done s1 \<Rightarrow>
          (case getElem e s1 of
             Done _ \<Rightarrow> releaseLoop fuel b type (TAILQ_NEXT (blinks s1) e) s1
           | Panic m \<Rightarrow> Some (Panic m) | Fault \<Rightarrow> Some Fault)
      | Panic m \<Rightarrow> Some (Panic m) | Fault \<Rightarrow> Some Fault)"

definition exBoxRelease :: "nat \<Rightarrow> head option \<Rightarrow> PTRBOX_TYPE \<Rightarrow> boxes \<Rightarrow> boxes outcome option" where
  "exBoxRelease fuel box type s =
     (case box of None \<Rightarrow> Some (Done s) | Some b \<Rightarrow> releaseLoop fuel b type (TAILQ_FIRST (blinks s) b) s)"

section \<open>Mapper objects\<close>

datatype MAPPER_TYPE = MAPPER_FIXED | MAPPER_DYNAMIC

record MAPPER_REGION =
  mr_vBase :: ulong_ptr
  mr_pBase :: ulong_ptr
  mr_length :: usize
  mr_prot :: ushort

record MAPPER_OBJECT =
  mo_type :: MAPPER_TYPE
  mo_region :: MAPPER_REGION

definition mapperMapFixed :: "MAPPER_REGION \<Rightarrow> phys \<Rightarrow> (ntstatus \<times> phys) outcome" where
  "mapperMapFixed r st =
     andthen (mmMapPages (mmAllocFrame 1) (Some (mmGetCurrentVas st))
         (Some \<lparr>rgPBase = mr_pBase r, rgVBase = mr_vBase r, rgByteCount = mr_length r\<rparr>) (mr_prot r) st) (\<lambda>(ret, _, st1).
       Done (if ret = 0 then STATUS_NO_MEMORY else STATUS_SUCCESS, st1))"

definition exMapperGet :: "nat \<Rightarrow> uchar list \<Rightarrow> uchar list option \<Rightarrow> bool \<Rightarrow> ob_store \<Rightarrow> (ntstatus \<times> nat option) outcome" where
  "exMapperGet fuel junk path resultNull st =
     (if path = None \<or> resultNull then Done (STATUS_INVALID_HANDLE, None)
      else andthen (obLookupObject fuel junk path st) (\<lambda>(status, object).
        if status \<noteq> STATUS_SUCCESS then Done (status, None)
        else case object of None \<Rightarrow> Fault
        | Some a \<Rightarrow> andthen (getObj a st) (\<lambda>ob.
            if ob_type ob \<noteq> NT_OB_MAPPER then Done (STATUS_BAD_OBJ_TYPE, None)
            else if ob_data ob = None then Done (STATUS_NOT_SUPPORTED, None)
            else Done (STATUS_SUCCESS, ob_data ob))))"

definition exMapperMap :: "MAPPER_OBJECT option \<Rightarrow> phys \<Rightarrow> (ntstatus \<times> phys) outcome" where
  "exMapperMap m st =
     (case m of None \<Rightarrow> Done (STATUS_INVALID_HANDLE, st)
      | Some ob \<Rightarrow> (case mo_type ob of
            MAPPER_FIXED \<Rightarrow> mapperMapFixed (mo_region ob) st
          | MAPPER_DYNAMIC \<Rightarrow> Done (STATUS_NOT_SUPPORTED, st)))"

text \<open>The directory \<^verbatim>\<open>/mapper\<close>; \<open>pool1\<close> and \<open>pool2\<close> answer its two allocations.\<close>

definition mapperInit :: "nat \<Rightarrow> uchar list \<Rightarrow> elem option \<Rightarrow> head option \<Rightarrow> ob_store \<Rightarrow> (ntstatus \<times> ob_store) outcome" where
  "mapperInit fuel junk pool1 pool2 st =
     andthen (obCreateObject fuel junk pool1 (Some \<lparr>cr_parent = Some (bytes ''/'' @ [0]), cr_name = Some (bytes ''mapper'' @ [0]),
         cr_type = NT_OB_DIRECTORY\<rparr>) st) (\<lambda>(status, mapper, st1).
       if status \<noteq> STATUS_SUCCESS then Panic ''could not initialize mapper''
       else andthen (obAllocateDir pool2 mapper st1) (\<lambda>(status2, st2).
         if status2 \<noteq> STATUS_SUCCESS then Panic ''could not allocate mapper directory'' else Done (STATUS_SUCCESS, st2)))"

text \<open>
  The framebuffer's mapper object of \<^verbatim>\<open>drv/bootvid/vidCore.c\<close>. Its region's length is not
  assigned: the static object's zero stays.
\<close>

definition bootVidGetBase :: "boot_responses \<Rightarrow> boot_vars \<Rightarrow> (ulong_ptr \<times> boot_vars) outcome" where
  "bootVidGetBase br v =
     andthen (keGetBootParams br (Some \<lparr>bp_fbParams = \<lparr>fb_io = 0, fb_width = 0, fb_height = 0, fb_pitch = 0, fb_bpp = 0\<rparr>,
         acpiRsdp = 0\<rparr>)) (\<lambda>(status, params).
       if status \<noteq> STATUS_SUCCESS then Done (0, v)
       else case params of None \<Rightarrow> Fault
       | Some bp \<Rightarrow> andthen (keGetKernelBase br v) (\<lambda>(kb, v1). Done (fb_io (bp_fbParams bp) - kb, v1)))"

definition bootVidInit :: "nat \<Rightarrow> uchar list \<Rightarrow> elem option \<Rightarrow> nat \<Rightarrow> boot_responses \<Rightarrow> boot_vars \<Rightarrow> ob_store \<Rightarrow>
    (ntstatus \<times> MAPPER_OBJECT \<times> boot_vars \<times> ob_store) outcome" where
  "bootVidInit fuel junk pool mapperAddr br v st =
     andthen (bootVidGetBase br v) (\<lambda>(fbBase, v1).
       if fbBase = 0 then Panic ''failed to initialize fb mapper region''
       else andthen (bootVidGetBase br v1) (\<lambda>(vb, v2).
         let obj = \<lparr>mo_type = MAPPER_FIXED,
               mo_region = \<lparr>mr_vBase = vb, mr_pBase = vb, mr_length = 0, mr_prot = PAGE_USER_READWRITE\<rparr>\<rparr>
         in andthen (obCreateObject fuel junk pool (Some \<lparr>cr_parent = Some (bytes ''/mapper'' @ [0]), cr_name = Some (bytes ''video0'' @ [0]),
               cr_type = NT_OB_MAPPER\<rparr>) st) (\<lambda>(status, fbMapper, st1).
           if status \<noteq> STATUS_SUCCESS then Panic ''failed to register framebuffer''
           else case fbMapper of None \<Rightarrow> Fault
           | Some a \<Rightarrow> andthen (modObj a (\<lambda>ob. ob\<lparr>ob_data := Some mapperAddr\<rparr>) st1) (\<lambda>st2.
               Done (STATUS_SUCCESS, obj, v2, st2)))))"

section \<open>Timer descriptors\<close>

text \<open>A \<^verbatim>\<open>KTIMER\<close>: optional operations on the hardware's state \<open>'s\<close>. \<^verbatim>\<open>usleep\<close> is never called.\<close>

record 's KTIMER =
  kt_msleep :: "(usize \<Rightarrow> 's \<Rightarrow> 's outcome option) option"
  kt_oneshotUsec :: "(usize \<Rightarrow> 's \<Rightarrow> 's outcome option) option"
  kt_getCount :: "('s \<Rightarrow> usize \<times> 's) option"
  kt_setCount :: "(usize \<Rightarrow> 's \<Rightarrow> 's) option"

definition keTimerGetDescriptor :: "nat \<Rightarrow> uchar list \<Rightarrow> uchar list option \<Rightarrow> bool \<Rightarrow> ob_store \<Rightarrow> (ntstatus \<times> nat option) outcome" where
  "keTimerGetDescriptor fuel junk path resultNull st =
     (if path = None \<or> resultNull then Done (STATUS_INVALID_HANDLE, None)
      else andthen (obLookupObject fuel junk path st) (\<lambda>(status, ob).
        if status \<noteq> 0 then Done (STATUS_OBJECT_NOTFOUND, None)
        else case ob of None \<Rightarrow> Fault
        | Some a \<Rightarrow> andthen (getObj a st) (\<lambda>x.
            if ob_type x \<noteq> NT_OB_TIMER then Done (STATUS_BAD_OBJ_TYPE, None) else Done (STATUS_SUCCESS, ob_data x))))"

definition keTimerGetCount :: "'s KTIMER option \<Rightarrow> bool \<Rightarrow> 's \<Rightarrow> ntstatus \<times> usize option \<times> 's" where
  "keTimerGetCount timer resultNull s =
     (case timer of None \<Rightarrow> (STATUS_INVALID_HANDLE, None, s)
      | Some t \<Rightarrow> if resultNull then (STATUS_INVALID_HANDLE, None, s)
          else case kt_getCount t of None \<Rightarrow> (STATUS_NOT_SUPPORTED, None, s)
          | Some f \<Rightarrow> (case f s of (count, s1) \<Rightarrow> (STATUS_SUCCESS, Some count, s1)))"

definition keTimerSetCount :: "'s KTIMER option \<Rightarrow> usize \<Rightarrow> 's \<Rightarrow> ntstatus \<times> 's" where
  "keTimerSetCount timer count s =
     (case timer of None \<Rightarrow> (STATUS_INVALID_HANDLE, s)
      | Some t \<Rightarrow> (case kt_setCount t of None \<Rightarrow> (STATUS_NOT_SUPPORTED, s) | Some f \<Rightarrow> (STATUS_SUCCESS, f count s)))"

definition keTimerMsleep :: "'s KTIMER option \<Rightarrow> usize \<Rightarrow> 's \<Rightarrow> (ntstatus \<times> 's) outcome option" where
  "keTimerMsleep timer n s =
     (case timer of None \<Rightarrow> Some (Done (STATUS_INVALID_HANDLE, s))
      | Some t \<Rightarrow> (case kt_msleep t of None \<Rightarrow> Some (Done (STATUS_NOT_SUPPORTED, s))
          | Some f \<Rightarrow> map_option (\<lambda>r. andthen r (\<lambda>s1. Done (STATUS_SUCCESS, s1))) (f n s)))"

definition keTimerOneshotUsec :: "'s KTIMER option \<Rightarrow> usize \<Rightarrow> 's \<Rightarrow> (ntstatus \<times> 's) outcome option" where
  "keTimerOneshotUsec timer n s =
     (case timer of None \<Rightarrow> Some (Done (STATUS_INVALID_HANDLE, s))
      | Some t \<Rightarrow> (case kt_oneshotUsec t of None \<Rightarrow> Some (Done (STATUS_NOT_SUPPORTED, s))
          | Some f \<Rightarrow> map_option (\<lambda>r. andthen r (\<lambda>s1. Done (STATUS_SUCCESS, s1))) (f n s)))"

definition timerCreateStore :: "nat \<Rightarrow> uchar list \<Rightarrow> elem option \<Rightarrow> head option \<Rightarrow> ob_store \<Rightarrow> (ntstatus \<times> ob_store) outcome" where
  "timerCreateStore fuel junk pool1 pool2 st =
     andthen (obCreateObject fuel junk pool1 (Some \<lparr>cr_parent = Some (bytes ''/'' @ [0]), cr_name = Some (bytes ''clkdev'' @ [0]),
         cr_type = NT_OB_DIRECTORY\<rparr>) st) (\<lambda>(status, clkdevDir, st1).
       if status \<noteq> 0 then Done (status, st1)
       else andthen (obAllocateDir pool2 clkdevDir st1) (\<lambda>(status2, st2).
         if status2 \<noteq> STATUS_SUCCESS
         then andthen (obFreeObject clkdevDir st2) (\<lambda>(_, st3). Done (status2, st3))
         else Done (status2, st2)))"

text \<open>\<^verbatim>\<open>halInitTimers\<close> of the platform is the argument \<open>hal\<close>, acting on the store and its own state.\<close>

definition kiTimersInit :: "nat \<Rightarrow> uchar list \<Rightarrow> elem option \<Rightarrow> head option \<Rightarrow> (ob_store \<times> 's \<Rightarrow> (ntstatus \<times> ob_store \<times> 's) outcome) \<Rightarrow>
    bool \<times> ob_store \<times> 's \<Rightarrow> (ntstatus \<times> bool \<times> ob_store \<times> 's) outcome" where
  "kiTimersInit fuel junk pool1 pool2 hal st =
     (case st of (isInit, obs, s) \<Rightarrow>
        if isInit then Done (STATUS_SUCCESS, st)
        else andthen (timerCreateStore fuel junk pool1 pool2 obs) (\<lambda>(status, obs1).
          if status \<noteq> STATUS_SUCCESS then Panic ''kiTimersInit: failed to create clkdev dir''
          else andthen (hal (obs1, s)) (\<lambda>(status2, obs2, s2).
            if status2 \<noteq> STATUS_SUCCESS then Panic ''kiTimersInit: failed to initialize timers''
            else Done (STATUS_SUCCESS, True, obs2, s2))))"

section \<open>Kernel modules\<close>

datatype MODULE_TYPE = MODULE_GENERIC | MODULE_OBJECT

record 's KERNEL_MODULE =
  mod_type :: MODULE_TYPE
  mod_init :: "('s \<Rightarrow> (ntstatus \<times> 's) outcome) option"

text \<open>The list is the section between \<^verbatim>\<open>__modules_init_start\<close> and \<^verbatim>\<open>__modules_init_end\<close>.\<close>

fun kiModuleInit :: "MODULE_TYPE \<Rightarrow> 's KERNEL_MODULE list \<Rightarrow> 's \<Rightarrow> 's outcome" where
  "kiModuleInit type [] s = Done s"
| "kiModuleInit type (m # ms) s =
     (if mod_type m \<noteq> type then kiModuleInit type ms s
      else case mod_init m of None \<Rightarrow> kiModuleInit type ms s
      | Some f \<Rightarrow> andthen (f s) (\<lambda>(_, s1). kiModuleInit type ms s1))"


section \<open>The program loader\<close>

definition IMAGE_FILE_MACHINE_AMD64 :: ushort where "IMAGE_FILE_MACHINE_AMD64 = 0x8664"
definition SECT_HDR_LEN :: nat where "SECT_HDR_LEN = 40"
definition PE_HEADER_SIZE :: nat where "PE_HEADER_SIZE = 24"

text \<open>Fields of the image's headers, little endian, at their offsets in \<^verbatim>\<open>rtl/pe.h\<close>.\<close>

definition ushortAt :: "uchar list \<Rightarrow> nat \<Rightarrow> ushort outcome" where
  "ushortAt m i = andthen (get m i) (\<lambda>a. andthen (get m (i + 1)) (\<lambda>b. Done (ucast a OR push_bit 8 (ucast b))))"

record IMAGE_SECTION_HEADER =
  sh_virtualSize :: ulong
  sh_virtualAddr :: ulong
  sh_rawDataSize :: ulong
  sh_rawDataPtr :: ulong

definition sectionAt :: "uchar list \<Rightarrow> nat \<Rightarrow> IMAGE_SECTION_HEADER outcome" where
  "sectionAt img i =
     andthen (ulongAt img (i + 8)) (\<lambda>vs. andthen (ulongAt img (i + 12)) (\<lambda>va.
     andthen (ulongAt img (i + 16)) (\<lambda>rs. andthen (ulongAt img (i + 20)) (\<lambda>rp.
       Done \<lparr>sh_virtualSize = vs, sh_virtualAddr = va, sh_rawDataSize = rs, sh_rawDataPtr = rp\<rparr>))))"

definition peGetMachineType :: ushort where
  "peGetMachineType = IMAGE_FILE_MACHINE_AMD64"

text \<open>The image starts at offset 0 of \<open>img\<close>; the result is the offset of the PE header.\<close>

definition peVerifyHeader :: "uchar list \<Rightarrow> nat option outcome" where
  "peVerifyHeader img =
     andthen (ushortAt img 0) (\<lambda>magic.
       if magic \<noteq> 0x5A4D then Done None
       else andthen (ulongAt img 60) (\<lambda>lfanew.
         let pe = unat lfanew in
         andthen (rtlMemcmp (drop pe img) (bytes ''PE'' @ [0, 0]) 4) (\<lambda>r.
           if r \<noteq> 0 then Done None
           else andthen (ushortAt img (pe + 4)) (\<lambda>machine.
             if machine \<noteq> peGetMachineType then Done None else Done (Some pe)))))"

text \<open>\<^verbatim>\<open>rtlMemcpy\<close> into the direct map: one byte of a memory word, and a run of bytes.\<close>

definition putByte :: "ulong_ptr \<Rightarrow> uchar \<Rightarrow> (uquad \<Rightarrow> uquad) \<Rightarrow> uquad \<Rightarrow> uquad" where
  "putByte a v m =
     (let c = a AND NOT 7; k = 8 * unat (a AND 7)
      in m(c := (m c AND NOT (push_bit k 0xFF)) OR push_bit k (ucast v)))"

fun putBytes :: "ulong_ptr \<Rightarrow> uchar list \<Rightarrow> (uquad \<Rightarrow> uquad) \<Rightarrow> uquad \<Rightarrow> uquad" where
  "putBytes a [] m = m"
| "putBytes a (b # bs) m = putBytes (a + 1) bs (putByte a b m)"

record LOADER_PROGRAM =
  lp_entry :: ulong_ptr
  lp_runTimeInfo :: head

text \<open>
  The section loop of \<^verbatim>\<open>loadPe64\<close>, from the section header at \<open>sect\<close> with \<open>n\<close> left. Reading the
  raw data past the end of the image is a fault; the result of the mapping is ignored.
\<close>

fun loadSections :: "nat \<Rightarrow> uchar list \<Rightarrow> head \<Rightarrow> uquad \<Rightarrow> nat \<Rightarrow> nat \<Rightarrow> boxes \<Rightarrow> (ntstatus \<times> boxes) outcome option" where
  "loadSections fuel img box vas 0 sect s = Some (Done (STATUS_SUCCESS, s))"
| "loadSections fuel img box vas (Suc n) sect s =
     (case andthen (sectionAt img sect) (\<lambda>h.
        andthen (exBoxAllocate (Some box) (ucast (sh_virtualSize h)) PTRBOX_PAGES False s) (\<lambda>r. Done (h, r))) of
        Panic m \<Rightarrow> Some (Panic m)
      | Fault \<Rightarrow> Some Fault
      | Done (h, status, window, s1) \<Rightarrow>
          if status \<noteq> STATUS_SUCCESS
          then (case exBoxRelease fuel (Some box) PTRBOX_ANY s1 of
                  None \<Rightarrow> None
                | Some r \<Rightarrow> Some (andthen r (\<lambda>s2. Done (status, s2))))
          else case window of None \<Rightarrow> Some Fault
          | Some w \<Rightarrow>
              let pm = bphys s1;
                  start = unat (sh_rawDataPtr h); len = unat (sh_rawDataSize h)
              in if length img < start + len then Some Fault
                 else
                   let pm1 = pm\<lparr>memory := putBytes w (take len (drop start img)) (memory pm)\<rparr>;
                       region = \<lparr>rgPBase = VIRT_TO_PHYS pm w, rgVBase = ucast (sh_virtualAddr h),
                         rgByteCount = ucast (ALIGN_UP (sh_virtualSize h) (ucast PAGESIZE))\<rparr>
                   in case mmMapPages (mmAllocFrame 1) (Some vas) (Some region) PAGE_USER_EXEC_READ pm1 of
                        Done (_, _, pm2) \<Rightarrow> loadSections fuel img box vas n (sect + SECT_HDR_LEN) (s1\<lparr>bphys := pm2\<rparr>)
                      | Panic m \<Rightarrow> Some (Panic m) | Fault \<Rightarrow> Some Fault)"

definition loadPe64 :: "nat \<Rightarrow> uchar list \<Rightarrow> nat \<Rightarrow> head \<Rightarrow> boxes \<Rightarrow> (ntstatus \<times> boxes) outcome option" where
  "loadPe64 fuel img pe box s =
     (case andthen (ushortAt img (pe + 20)) (\<lambda>osz. andthen (ushortAt img (pe + 6)) (\<lambda>n. Done (osz, n))) of
        Panic m \<Rightarrow> Some (Panic m) | Fault \<Rightarrow> Some Fault
      | Done (opthdr_sz, numsect) \<Rightarrow>
          loadSections fuel img box (mmGetCurrentVas (bphys s)) (unat numsect) (pe + PE_HEADER_SIZE + unat opthdr_sz)
            (snd (exInitPtrBox (Some box) s)))"

text \<open>\<open>result\<close> is the program structure, with the queue head of its box.\<close>

definition keLoadFromBootPack :: "nat \<Rightarrow> boot_vars \<Rightarrow> uchar list \<Rightarrow> uchar list option \<Rightarrow> LOADER_PROGRAM option \<Rightarrow> boxes \<Rightarrow>
    (ntstatus \<times> LOADER_PROGRAM option \<times> boxes) outcome option" where
  "keLoadFromBootPack fuel v nameBuf path result s =
     (case result of None \<Rightarrow> Some (Done (STATUS_INVALID_HANDLE, None, s))
      | Some prog \<Rightarrow>
          if path = None then Some (Done (STATUS_INVALID_HANDLE, Some prog, s))
          else case keBootPackGet v nameBuf path of
            Panic m \<Rightarrow> Some (Panic m) | Fault \<Rightarrow> Some Fault
          | Done None \<Rightarrow> Some (Done (STATUS_FILE_UNAVL, Some prog, s))
          | Done (Some off) \<Rightarrow>
              let img = drop off (the (bootPackBase v)) in
              (case peVerifyHeader img of
                 Panic m \<Rightarrow> Some (Panic m) | Fault \<Rightarrow> Some Fault
               | Done None \<Rightarrow> Some (Done (STATUS_PROC_NOEXEC, Some prog, s))
               | Done (Some pe) \<Rightarrow>
                   (case loadPe64 fuel img pe (lp_runTimeInfo prog) s of
                      None \<Rightarrow> None
                    | Some r \<Rightarrow> Some (andthen r (\<lambda>(_, s1).
                        andthen (ulongAt img (pe + PE_HEADER_SIZE + 16)) (\<lambda>ep.
                          Done (STATUS_SUCCESS, Some (prog\<lparr>lp_entry := ucast ep\<rparr>), s1)))))))"

end
