(* ===== verification/Smp.thy ===== *)
theory Smp
  imports Executive Devices Sched Process
begin

text \<open>
  Bringing up processors: the common platform set-up \<^verbatim>\<open>ke/platformInit.c\<close>, the set-up of one
  processor \<^verbatim>\<open>halCpuInit\<close> of \<^verbatim>\<open>cpu/cpuInit.c\<close>, and the start of the application processors in
  \<^verbatim>\<open>cpu/mp.c\<close>. The processor at hand is the one in the platform record; what an application
  processor does after its start-up interrupt is a run of its own, \<open>mpApEntry\<close>, serialised by the
  lock \<^verbatim>\<open>apLock\<close>. The trace output is left out.
\<close>

section \<open>State\<close>

record kern =
  kplat :: plat
  ksched :: sched

abbreviation setMem :: "phys \<Rightarrow> plat \<Rightarrow> plat" where
  "setMem pm p \<equiv> p\<lparr>pcpu := (pcpu p)\<lparr>pmem := pm\<rparr>\<rparr>"

section \<open>One processor\<close>

text \<open>The run queue of a core has the number of its \<^verbatim>\<open>KPCR\<close>'s address.\<close>

definition initQueue :: "ulong_ptr \<Rightarrow> kern \<Rightarrow> kern" where
  "initQueue a k = k\<lparr>ksched := (ksched k)\<lparr>links := TAILQ_INIT (unat a) (links (ksched k))\<rparr>\<rparr>"

definition halCpuInit :: "(isr_label \<Rightarrow> ulong_ptr) \<Rightarrow> ulong_ptr \<Rightarrow> kern \<Rightarrow> kern run" where
  "halCpuInit ISR a k =
     thenR (Some (cpuInitGdt (Some a) (pcpu (kplat k)))) (\<lambda>c1.
     let k1 = initQueue a k in
     thenR (Some (halRegisterIntr ISR (kiIdtLoad c1))) (\<lambda>c2.
     thenR (Some (cpuInitTss (Some a) c2)) (\<lambda>c3.
     thenR (Some (modKpcr a (\<lambda>x. x\<lparr>self := a\<rparr>) c3)) (\<lambda>c4.
     thenR (kiLapicInit ((kplat k1)\<lparr>pcpu := wrmsr IA32_GS_BASE a c4\<rparr>)) (\<lambda>p1.
     let c5 = halSetIrql (ucast PASSIVE_LEVEL) (pcpu p1) in
     thenR (Some (mmAllocFrame 1 (pmem c5))) (\<lambda>(stack, pm).
       if stack = 0 then Some (Panic ''failed to allocate system call stack'')
       else thenR (Some (modMcb a (\<lambda>m. m\<lparr>syscallStack := stack + (kernelBase pm + (PAGESIZE - 1))\<rparr>) (c5\<lparr>pmem := pm\<rparr>)))
         (\<lambda>c6. Some (Done (k1\<lparr>kplat := p1\<lparr>pcpu := c6\<rparr>\<rparr>)))))))))"

definition kiProcessorInit :: "(isr_label \<Rightarrow> ulong_ptr) \<Rightarrow> ulong_ptr \<Rightarrow> kern \<Rightarrow> (int \<times> kern) run" where
  "kiProcessorInit ISR a k = thenR (halCpuInit ISR a k) (\<lambda>k1. Some (Done (0, k1)))"

text \<open>\<open>junk\<close> is the uninitialised variable of the frame allocator's set-up, \<open>es\<close> the boot memory map.\<close>

definition kiPlatformInit :: "(isr_label \<Rightarrow> ulong_ptr) \<Rightarrow> boot_responses \<Rightarrow> ulong_ptr \<Rightarrow> memmap_entry list \<Rightarrow> plat \<Rightarrow> (int \<times> plat) run" where
  "kiPlatformInit ISR br junk es p =
     (let b1 = snd (halUartInit (pbus p)) in
      thenR (Some (mmPhysInit junk es (pmem (pcpu p)))) (\<lambda>pm.
      thenR (Some (acpiInit br (pacpi p))) (\<lambda>ac.
      thenR (halInitIrqChip ac b1) (\<lambda>(_, base, b2).
      thenR (Some (halInitSyscall ISR ((pcpu p)\<lparr>pmem := pm\<rparr>))) (\<lambda>c.
        Some (Done (0, p\<lparr>pcpu := c, pbus := b2, pacpi := ac, ioapicBase := base\<rparr>)))))))"

section \<open>Application processors\<close>

definition TRAMPOLINE_PBASE :: ulong_ptr where "TRAMPOLINE_PBASE = 0x1000"
definition BOOTSTRAP_DESC_BASE :: ulong_ptr where "BOOTSTRAP_DESC_BASE = 0x2000"

text \<open>
  The code a started processor runs. \<open>pool\<close> is what the pool answers: the address of the block and
  what the block held as a \<^verbatim>\<open>KPCR\<close>; neither \<^verbatim>\<open>vId\<close> nor \<^verbatim>\<open>curProc\<close> is assigned.
\<close>

definition mpApEntry :: "(isr_label \<Rightarrow> ulong_ptr) \<Rightarrow> regs \<Rightarrow> (ulong_ptr \<times> KPCR \<times> elem option) option \<Rightarrow> kern \<Rightarrow> kern run" where
  "mpApEntry ISR r pool k =
     (case pool of None \<Rightarrow> Some (Panic ''assert kpcr != NULL failed'')
      | Some (a, old, oldProc) \<Rightarrow>
          let p = kplat k; c = pcpu p; s = ksched k in
          thenR (Some (registerAp (unat a) (cpus s))) (\<lambda>tab.
          let k1 = \<lparr>kplat = p\<lparr>pcpu := c\<lparr>kpcrs := (kpcrs c)(a \<mapsto> old)\<rparr>\<rparr>,
                    ksched = s\<lparr>cpus := tab, curProc := (curProc s)(unat a := oldProc)\<rparr>\<rparr> in
          thenR (kiProcessorInit ISR a (initQueue a k1)) (\<lambda>(_, k2).
          thenR (Some (kiLapicInitTimer r (kplat k2))) (\<lambda>p2.
            Some (Done \<lparr>kplat = p2, ksched = halSchedEnter (unat a) (ksched k2)\<rparr>)))))"

text \<open>The operations of the three \<^verbatim>\<open>KTIMER\<close> structures.\<close>

definition pit_ops :: "plat KTIMER" where
  "pit_ops = \<lparr>kt_msleep = None, kt_oneshotUsec = None,
     kt_getCount = Some (\<lambda>p. case ktimerGetCount (pbus p) of (n, b) \<Rightarrow> (n, p\<lparr>pbus := b\<rparr>)),
     kt_setCount = Some (\<lambda>n p. p\<lparr>pbus := ktimerSetCount n (pbus p)\<rparr>)\<rparr>"

definition hpet_ops :: "plat KTIMER" where
  "hpet_ops = \<lparr>kt_msleep = Some (\<lambda>n p. map_option (\<lambda>r. andthen r (\<lambda>(_, b). Done (p\<lparr>pbus := b\<rparr>)))
       (ktimerMSleep (hpetBase p) n (pbus p))),
     kt_oneshotUsec = None, kt_getCount = None, kt_setCount = None\<rparr>"

definition lapic_ops :: "plat KTIMER" where
  "lapic_ops = \<lparr>kt_msleep = None, kt_oneshotUsec = Some (\<lambda>n p. Some (lapicTimerOneshotUsec n p)),
     kt_getCount = None, kt_setCount = None\<rparr>"

definition ktimerAt :: "nat option \<Rightarrow> plat KTIMER option" where
  "ktimerAt d = (case d of None \<Rightarrow> None | Some i \<Rightarrow>
     if i = pit_timer then Some pit_ops else if i = hpet_timer then Some hpet_ops
     else if i = lapic_timer then Some lapic_ops else None)"

definition ap_ipi :: "uchar \<Rightarrow> uchar \<Rightarrow> uchar \<Rightarrow> LAPIC_IPI" where
  "ap_ipi delmod vector apicId = \<lparr>ipi_delmod = delmod, ipi_shand = IPI_SHAND_NONE, ipi_vector = vector,
     ipi_apicId = apicId, ipi_destMode = IPI_DESTMODE_PHYSICAL\<rparr>"

fun startupIpis :: "plat KTIMER option \<Rightarrow> LAPIC_IPI \<Rightarrow> nat \<Rightarrow> plat \<Rightarrow> plat run" where
  "startupIpis timer i 0 p = Some (Done p)"
| "startupIpis timer i (Suc n) p =
     thenR (kiLapicSendIpi i p) (\<lambda>(status, p1).
       if status \<noteq> STATUS_SUCCESS then Some (Panic ''could not send STARTUP IPI'')
       else thenR (keTimerMsleep timer 5 p1) (\<lambda>(_, p2). startupIpis timer i n p2))"

text \<open>
  The callback for an entry of the interrupt controller table: \<open>entryPa\<close> is the address of
  \<^verbatim>\<open>mpApEntry\<close>. The frame for the stack is allocated after the descriptor's first two words have
  been written.
\<close>

definition localApicLookup :: "uquad \<Rightarrow> plat KTIMER option \<Rightarrow> usize \<Rightarrow> uquad \<Rightarrow> plat \<Rightarrow> (int \<times> plat) run" where
  "localApicLookup entryPa timer arg hdr p =
     (let apicId = local_apicId (fw (pacpi p)) hdr in
      if ucast apicId = arg then Some (Done (- 1, p))
      else
        let pm = pmem (pcpu p);
            bootstrap = PHYS_TO_VIRT pm BOOTSTRAP_DESC_BASE;
            pm1 = Mmu.store (bootstrap + 8) entryPa (Mmu.store bootstrap (snd (mmuReadVas pm)) pm)
        in thenR (Some (mmAllocFrame 1 pm1)) (\<lambda>(stackBase, pm2).
          if stackBase = 0 then Some (Panic ''assert bootstrap->stackBase != 0 failed'')
          else
            thenR (kiLapicSendIpi (ap_ipi IPI_DELMOD_INIT 0 apicId) (setMem (Mmu.store (bootstrap + 16) stackBase pm2) p))
              (\<lambda>(status, p1).
              if status \<noteq> STATUS_SUCCESS then Some (Panic ''could not send INIT IPI'')
              else thenR (keTimerMsleep timer 10 p1) (\<lambda>(_, p2).
                thenR (startupIpis timer (ap_ipi IPI_DELMOD_STARTUP (ucast (drop_bit 12 TRAMPOLINE_PBASE)) apicId) 2 p2) (\<lambda>p3.
                  Some (Done (- 1, p3)))))))"

text \<open>
  \<open>tramp\<close> is the page \<^verbatim>\<open>trampolineData\<close> of the linker section. The result of the lookup in the
  object store is the timer's data.
\<close>

definition kiMpInit :: "uquad \<Rightarrow> uchar list \<Rightarrow> nat \<Rightarrow> uchar list \<Rightarrow> kern \<Rightarrow> kern run" where
  "kiMpInit entryPa tramp fuel junk k =
     thenR (Some (coreMcb (pcpu (kplat k)))) (\<lambda>core. case core of
       None \<Rightarrow> Some (Panic ''assert core != NULL failed'')
     | Some (a, mcb) \<Rightarrow>
         let p = kplat k; pm = pmem (pcpu p);
             p1 = setMem (pm\<lparr>memory := putBytes (PHYS_TO_VIRT pm TRAMPOLINE_PBASE) tramp (memory pm)\<rparr>) p;
             s = ksched k; s1 = s\<lparr>cpus := (cpus s)\<lparr>bspKpcr := Some (unat a)\<rparr>\<rparr>
         in thenR (Some (keTimerGetDescriptor fuel junk (Some (bytes ''/clkdev/aux'' @ [0])) False (pstore p1))) (\<lambda>(status, d).
           if status \<noteq> STATUS_SUCCESS then Some (Panic ''could not acquire aux timer object'')
           else thenR (acpiReadMadt (pacpi p1) APIC_TYPE_LOCAL_APIC
               (Some (localApicLookup entryPa (ktimerAt d) (ucast (hwId mcb)))) p1) (\<lambda>(_, p2).
             Some (Done \<lparr>kplat = p2, ksched = s1\<rparr>))))"

section \<open>What the other processors are sent\<close>

text \<open>The writes to the interrupt command register of the x2APIC, in order.\<close>

definition icr_writes :: "access list \<Rightarrow> uquad list" where
  "icr_writes tr = concat (map (\<lambda>x. case x of Wrmsr r v \<Rightarrow> if r = x2APIC_MSR_BASE + 0x30 then [v] else [] | _ \<Rightarrow> []) tr)"

lemma icr_writes_simps [simp]:
  "icr_writes (xs @ ys) = icr_writes xs @ icr_writes ys" "icr_writes [] = []"
  "icr_writes [Read64 a] = []" "icr_writes [Wrmsr (x2APIC_MSR_BASE + 0x30) v] = [v]"
  by (simp_all add: icr_writes_def)

lemma poll_keeps:
  "poll go b = Some b' \<Longrightarrow> (\<forall>b. J b \<longrightarrow> J (snd (go b))) \<longrightarrow> J b \<longrightarrow> J b'"
proof (erule poll.raw_induct [rotated])
  fix f :: "(bus \<Rightarrow> bool \<times> bus) \<Rightarrow> bus \<Rightarrow> bus option" and go b b'
  assume IH: "\<And>go b b'. f go b = Some b' \<Longrightarrow> (\<forall>b. J b \<longrightarrow> J (snd (go b))) \<longrightarrow> J b \<longrightarrow> J b'"
    and body: "(let (again, b1) = go b in if again then f go b1 else Some b1) = Some b'"
  obtain again b1 where go: "go b = (again, b1)" by fastforce
  show "(\<forall>b. J b \<longrightarrow> J (snd (go b))) \<longrightarrow> J b \<longrightarrow> J b'"
  proof (intro impI)
    assume step: "\<forall>b. J b \<longrightarrow> J (snd (go b))" and b: "J b"
    then have b1: "J b1" using go by (metis snd_conv)
    show "J b'"
      using body go IH [of go b1 b'] step b1 by (cases again) auto
  qed
qed

text \<open>Sleeping only reads the timer.\<close>

definition quiet :: "bus \<Rightarrow> bus \<Rightarrow> bool" where
  "quiet b b' \<longleftrightarrow> device b' = device b \<and> icr_writes (trace b') = icr_writes (trace b)"

lemma hpetRead_quiet: "quiet b (snd (hpetRead base r x)) \<longleftrightarrow> quiet b x"
  by (simp add: quiet_def hpetRead_def mmioRead64_def ask_def)

lemma ktimerMSleep_eq:
  assumes "hpetRead base HPET_REG_CAPS b = (caps, b1)" "hpetRead base HPET_REG_MAIN_COUNTER b1 = (c, b2)"
  shows "ktimerMSleep base n b = (if CAP_CLK_PERIOD caps = 0 then Some Fault
      else case poll (\<lambda>x. case hpetRead base HPET_REG_MAIN_COUNTER x of (c', x1) \<Rightarrow>
          (c' < c + n * (1000000000000 div CAP_CLK_PERIOD caps), x1)) b2 of
        None \<Rightarrow> None | Some b3 \<Rightarrow> Some (Done (STATUS_SUCCESS, b3)))"
  unfolding ktimerMSleep_def hpetMsleep_def hpetSleep_def Let_def assms prod.case ..

lemma poll_quiet:
  assumes "\<And>x. quiet x (snd (go x))" "poll go b = Some b'"
  shows "quiet b b'"
  using poll_keeps [OF assms(2), of "quiet b"] assms(1) by (simp add: quiet_def)

lemma ktimerMSleep_quiet:
  assumes "ktimerMSleep base n b = Some (Done (st, b'))"
  shows "quiet b b' \<and> st = STATUS_SUCCESS"
proof -
  obtain caps b1 where 1: "hpetRead base HPET_REG_CAPS b = (caps, b1)" by fastforce
  obtain c b2 where 2: "hpetRead base HPET_REG_MAIN_COUNTER b1 = (c, b2)" by fastforce
  define go where "go = (\<lambda>x. case hpetRead base HPET_REG_MAIN_COUNTER x of (c', x1) \<Rightarrow>
      (c' < c + n * (1000000000000 div CAP_CLK_PERIOD caps), x1))"
  have go: "quiet x (snd (go x))" for x
    using hpetRead_quiet [of x base HPET_REG_MAIN_COUNTER x] by (simp add: go_def quiet_def case_prod_beta)
  have "quiet b b2"
    using hpetRead_quiet [of b base HPET_REG_CAPS b] hpetRead_quiet [of b base HPET_REG_MAIN_COUNTER b1] 1 2
    by (simp add: quiet_def)
  moreover have "poll go b2 = Some b' \<and> st = STATUS_SUCCESS"
    using assms unfolding ktimerMSleep_eq [OF 1 2] go_def [symmetric]
    by (cases "CAP_CLK_PERIOD caps = 0"; cases "poll go b2") simp_all
  ultimately show ?thesis using poll_quiet [OF go] by (auto simp: quiet_def)
qed

text \<open>
  The states a processor passes through while it starts the others: it is core \<open>a\<close> with block
  \<open>m\<close> in x2APIC mode, and sleeping on its timer returns.
\<close>

definition sleeps :: "plat \<Rightarrow> bool" where
  "sleeps p \<longleftrightarrow> (\<forall>n b. device b = device (pbus p) \<longrightarrow>
     (\<exists>st b'. ktimerMSleep (hpetBase p) n b = Some (Done (st, b'))))"

definition same_core :: "plat \<Rightarrow> plat \<Rightarrow> bool" where
  "same_core p p' \<longleftrightarrow> (\<exists>pm b. p' = p\<lparr>pcpu := (pcpu p)\<lparr>pmem := pm\<rparr>, pbus := b\<rparr> \<and> device b = device (pbus p))"

lemma same_core_trans:
  assumes "same_core p q" "same_core q r"
  shows "same_core p r"
proof -
  obtain pm b where q: "q = p\<lparr>pcpu := (pcpu p)\<lparr>pmem := pm\<rparr>, pbus := b\<rparr>" "device b = device (pbus p)"
    using assms(1) unfolding same_core_def by blast
  obtain pm' b' where "r = q\<lparr>pcpu := (pcpu q)\<lparr>pmem := pm'\<rparr>, pbus := b'\<rparr>" "device b' = device (pbus q)"
    using assms(2) unfolding same_core_def by blast
  then show ?thesis unfolding same_core_def using q by (intro exI [of _ pm'] exI [of _ b']) simp
qed

lemma same_core_mem [simp]: "same_core p (setMem pm p)"
  unfolding same_core_def by (intro exI [of _ pm] exI [of _ "pbus p"]) simp

lemma same_core_bus: "device b = device (pbus p) \<Longrightarrow> same_core p (p\<lparr>pbus := b\<rparr>)"
  unfolding same_core_def by (intro exI [of _ "pmem (pcpu p)"] exI [of _ b]) simp

lemma same_coreD:
  assumes "same_core p p'"
  shows "coreMcb (pcpu p') = coreMcb (pcpu p)" "sleeps p' = sleeps p" "pacpi p' = pacpi p" "hpetBase p' = hpetBase p"
proof -
  obtain pm b where p': "p' = p\<lparr>pcpu := (pcpu p)\<lparr>pmem := pm\<rparr>, pbus := b\<rparr>" "device b = device (pbus p)"
    using assms unfolding same_core_def by blast
  have "getMcb a (c\<lparr>pmem := pm\<rparr>) = getMcb a c" "keGetCore (c\<lparr>pmem := pm\<rparr>) = keGetCore c" for a c
    by (simp_all add: getMcb_def keGetCore_def rdmsr_def)
  then show "coreMcb (pcpu p') = coreMcb (pcpu p)"
    unfolding coreMcb_def p' by (intro andthen_cong) (simp_all split: option.split)
  show "sleeps p' = sleeps p" "pacpi p' = pacpi p" "hpetBase p' = hpetBase p"
    by (simp_all add: p' sleeps_def)
qed

lemma sleep_run:
  assumes "sleeps p"
  shows "\<exists>p'. keTimerMsleep (Some hpet_ops) n p = Some (Done (STATUS_SUCCESS, p')) \<and> same_core p p' \<and>
    pmem (pcpu p') = pmem (pcpu p) \<and> icr_writes (trace (pbus p')) = icr_writes (trace (pbus p))"
proof -
  obtain st b where b: "ktimerMSleep (hpetBase p) n (pbus p) = Some (Done (st, b))"
    using assms [unfolded sleeps_def, rule_format, OF refl, of n] by blast
  with ktimerMSleep_quiet [OF b] show ?thesis
    by (intro exI [of _ "p\<lparr>pbus := b\<rparr>"]) (simp add: keTimerMsleep_def hpet_ops_def quiet_def same_core_bus)
qed

definition icr_value :: "LAPIC_IPI \<Rightarrow> uquad" where
  "icr_value i = push_bit 32 (ucast (ipi_apicId i)) OR ucast (icrLow i)"

lemma send_run:
  assumes "coreMcb (pcpu p) = Done (Some (a, m))" "hasX2Apic m" "ipi_shand i = IPI_SHAND_NONE"
  shows "\<exists>p'. kiLapicSendIpi i p = Some (Done (STATUS_SUCCESS, p')) \<and> same_core p p' \<and>
    pmem (pcpu p') = pmem (pcpu p) \<and> icr_writes (trace (pbus p')) = icr_writes (trace (pbus p)) @ [icr_value i]"
proof -
  have "x2APIC_MSR_BASE + drop_bit 4 LAPIC_ICRLO = x2APIC_MSR_BASE + 0x30" unfolding LAPIC_ICRLO_def by code_simp
  then show ?thesis
    using assms
    by (intro exI [of _ "p\<lparr>pbus := tell (Wrmsr (x2APIC_MSR_BASE + 0x30) (icr_value i)) (pbus p)\<rparr>"])
      (simp add: kiLapicSendIpi_def sendIpi_def lapicWrite_def tell_def same_core_bus icr_value_def)
qed

lemma startupIpis_run:
  assumes "coreMcb (pcpu p) = Done (Some (a, m))" "hasX2Apic m" "sleeps p" "ipi_shand i = IPI_SHAND_NONE"
  shows "\<exists>p'. startupIpis (Some hpet_ops) i n p = Some (Done p') \<and> same_core p p' \<and> pmem (pcpu p') = pmem (pcpu p) \<and>
    icr_writes (trace (pbus p')) = icr_writes (trace (pbus p)) @ replicate n (icr_value i)"
  using assms
proof (induction n arbitrary: p)
  case 0
  show ?case using same_core_bus [of "pbus p" p] by simp
next
  case (Suc n)
  obtain p1 where p1: "kiLapicSendIpi i p = Some (Done (STATUS_SUCCESS, p1))" "same_core p p1" "pmem (pcpu p1) = pmem (pcpu p)"
    "icr_writes (trace (pbus p1)) = icr_writes (trace (pbus p)) @ [icr_value i]"
    using send_run [OF Suc.prems(1,2,4)] by blast
  obtain p2 where p2: "keTimerMsleep (Some hpet_ops) 5 p1 = Some (Done (STATUS_SUCCESS, p2))" "same_core p1 p2"
    "pmem (pcpu p2) = pmem (pcpu p1)" "icr_writes (trace (pbus p2)) = icr_writes (trace (pbus p1))"
    using sleep_run [of p1 5] same_coreD(2) [OF p1(2)] Suc.prems(3) by blast
  have p: "same_core p p2" by (rule same_core_trans [OF p1(2) p2(2)])
  then obtain p' where "startupIpis (Some hpet_ops) i n p2 = Some (Done p')" "same_core p2 p'"
    "pmem (pcpu p') = pmem (pcpu p2)" "icr_writes (trace (pbus p')) = icr_writes (trace (pbus p2)) @ replicate n (icr_value i)"
    using Suc.IH [of p2] Suc.prems same_coreD(1,2) [OF p] by auto
  then show ?case using p1 p2 same_core_trans [OF p] by (intro exI [of _ p']) simp
qed

text \<open>What one processor is sent: INIT, then twice the start-up interrupt with the page 0x1000.\<close>

definition wake :: "uchar \<Rightarrow> uquad list" where
  "wake i = (let dest = push_bit 32 (ucast i) in [dest OR 0x500, dest OR 0x601, dest OR 0x601])"

lemma wake_values:
  "wake i = icr_value (ap_ipi IPI_DELMOD_INIT 0 i) #
     replicate 2 (icr_value (ap_ipi IPI_DELMOD_STARTUP (ucast (drop_bit 12 TRAMPOLINE_PBASE)) i))"
proof -
  have "icrLow (ap_ipi IPI_DELMOD_INIT 0 i) = 0x500"
    unfolding icrLow_def ap_ipi_def LAPIC_IPI.simps by code_simp
  moreover have "icrLow (ap_ipi IPI_DELMOD_STARTUP (ucast (drop_bit 12 TRAMPOLINE_PBASE)) i) = 0x601"
    unfolding icrLow_def ap_ipi_def LAPIC_IPI.simps by code_simp
  moreover have "ipi_apicId (ap_ipi d v i) = i" for d v by (simp add: ap_ipi_def)
  moreover have "ucast (0x500 :: ulong) = (0x500 :: uquad)" "ucast (0x601 :: ulong) = (0x601 :: uquad)" by simp_all
  ultimately show ?thesis by (simp only: wake_def icr_value_def numeral_2_eq_2 Let_def replicate.simps)
qed

text \<open>The memory with the first two words of the descriptor written.\<close>

definition with_desc :: "uquad \<Rightarrow> phys \<Rightarrow> phys" where
  "with_desc entryPa pm = Mmu.store (PHYS_TO_VIRT pm BOOTSTRAP_DESC_BASE + 8) entryPa
     (Mmu.store (PHYS_TO_VIRT pm BOOTSTRAP_DESC_BASE) (cr3 pm) pm)"

lemma lookup_run:
  assumes core: "coreMcb (pcpu p) = Done (Some (a, m))" "hasX2Apic m" "sleeps p"
    and other: "ucast (local_apicId (fw (pacpi p)) hdr) \<noteq> arg"
    and al: "mmAllocFrame 1 (with_desc entryPa (pmem (pcpu p))) = Done (s, pm2)" "s \<noteq> 0"
  shows "\<exists>p'. localApicLookup entryPa (Some hpet_ops) arg hdr p = Some (Done (- 1, p')) \<and> same_core p p' \<and>
    pmem (pcpu p') = Mmu.store (PHYS_TO_VIRT (pmem (pcpu p)) BOOTSTRAP_DESC_BASE + 16) s pm2 \<and>
    icr_writes (trace (pbus p')) = icr_writes (trace (pbus p)) @ wake (local_apicId (fw (pacpi p)) hdr)"
proof -
  let ?id = "local_apicId (fw (pacpi p)) hdr"
  let ?p0 = "setMem (Mmu.store (PHYS_TO_VIRT (pmem (pcpu p)) BOOTSTRAP_DESC_BASE + 16) s pm2) p"
  have shand: "ipi_shand (ap_ipi d v i) = IPI_SHAND_NONE" for d v i by (simp add: ap_ipi_def)
  have p0: "same_core p ?p0" by (rule same_core_mem)
  note core0 = core(1) [folded same_coreD(1) [OF p0]]
  from send_run [OF core0 core(2) shand] obtain p1 where
    p1: "kiLapicSendIpi (ap_ipi IPI_DELMOD_INIT 0 ?id) ?p0 = Some (Done (STATUS_SUCCESS, p1))" "same_core ?p0 p1"
      "pmem (pcpu p1) = pmem (pcpu ?p0)"
      "icr_writes (trace (pbus p1)) = icr_writes (trace (pbus ?p0)) @ [icr_value (ap_ipi IPI_DELMOD_INIT 0 ?id)]" by blast
  have c1: "same_core p p1" by (rule same_core_trans [OF p0 p1(2)])
  from sleep_run [of p1 10] same_coreD(2) [OF c1] core(3) obtain p2 where
    p2: "keTimerMsleep (Some hpet_ops) 10 p1 = Some (Done (STATUS_SUCCESS, p2))" "same_core p1 p2"
      "pmem (pcpu p2) = pmem (pcpu p1)" "icr_writes (trace (pbus p2)) = icr_writes (trace (pbus p1))" by blast
  have c2: "same_core p p2" by (rule same_core_trans [OF c1 p2(2)])
  let ?i = "ap_ipi IPI_DELMOD_STARTUP (ucast (drop_bit 12 TRAMPOLINE_PBASE)) ?id"
  have "sleeps p2" using same_coreD(2) [OF c2] core(3) by blast
  from startupIpis_run [OF core(1) [folded same_coreD(1) [OF c2]] core(2) this shand] obtain p3 where
    p3: "startupIpis (Some hpet_ops) ?i 2 p2 = Some (Done p3)" "same_core p2 p3" "pmem (pcpu p3) = pmem (pcpu p2)"
      "icr_writes (trace (pbus p3)) = icr_writes (trace (pbus p2)) @ replicate 2 (icr_value ?i)" by blast
  have "localApicLookup entryPa (Some hpet_ops) arg hdr p = Some (Done (- 1, p3))"
    using other al p1(1) p2(1) p3(1)
    by (simp add: localApicLookup_def Let_def with_desc_def mmuReadVas_def del: startupIpis.simps)
  then show ?thesis
    using same_core_trans [OF c2 p3(2)] p1(3,4) p2(3,4) p3(3,4) by (intro exI [of _ p3]) (simp add: wake_values)
qed

definition woken :: "mem \<Rightarrow> usize \<Rightarrow> uquad list \<Rightarrow> uchar list" where
  "woken m arg es = map (local_apicId m)
     (filter (\<lambda>e. ucast (apic_type m e) = APIC_TYPE_LOCAL_APIC \<and> ucast (local_apicId m e) \<noteq> arg) es)"

lemma store_frames: "pool_ready (Mmu.store x v pm) = pool_ready pm" "spare_frames k (Mmu.store x v pm) = spare_frames k pm"
  by (simp_all add: Mmu.store_def frames.inv_memory frames.spare_memory)

lemma visit_wakes:
  assumes "coreMcb (pcpu p) = Done (Some (a, m))" "hasX2Apic m" "sleeps p" "pool_ready (pmem (pcpu p))"
    and "spare_frames (length (woken (fw (pacpi p)) arg es)) (pmem (pcpu p))"
  shows "\<exists>p'. visit (fw (pacpi p)) APIC_TYPE_LOCAL_APIC (localApicLookup entryPa (Some hpet_ops) arg) es p =
      Some (Done (- 1, p')) \<and> same_core p p' \<and>
    icr_writes (trace (pbus p')) = icr_writes (trace (pbus p)) @ concat (map wake (woken (fw (pacpi p)) arg es))"
  using assms
proof (induction es arbitrary: p)
  case Nil
  show ?case using same_core_bus [of "pbus p" p] by (simp add: woken_def)
next
  case (Cons e es)
  let ?m = "fw (pacpi p)" and ?pm = "with_desc entryPa (pmem (pcpu p))"
  show ?case
  proof (cases "ucast (apic_type ?m e) = APIC_TYPE_LOCAL_APIC")
    case False
    with Cons show ?thesis by (simp add: woken_def)
  next
    case local_apic: True
    show ?thesis
    proof (cases "ucast (local_apicId ?m e) = arg")
      case True
      then have "localApicLookup entryPa (Some hpet_ops) arg e p = Some (Done (- 1, p))"
        by (simp add: localApicLookup_def Let_def)
      moreover have "woken ?m arg (e # es) = woken ?m arg es" using True by (simp add: woken_def)
      ultimately show ?thesis using Cons local_apic by simp
    next
      case False
      then have w: "woken ?m arg (e # es) = local_apicId ?m e # woken ?m arg es"
        using local_apic by (simp add: woken_def)
      have pm: "pool_ready ?pm" "spare_frames (Suc (length (woken ?m arg es))) ?pm"
        using Cons.prems(4,5) by (simp_all add: w with_desc_def store_frames)
      obtain s pm2 where al: "mmAllocFrame 1 ?pm = Done (s, pm2)" using frames.al_returns [OF pm(1)] by blast
      have s: "s \<noteq> 0" "spare_frames (length (woken ?m arg es)) pm2" "pool_ready pm2"
        using frames.al_spare [OF pm(1) al pm(2)] frames.al_inv [OF pm(1) al] by simp_all
      from lookup_run [OF Cons.prems(1-3) False al s(1)] obtain p1 where
        p1: "localApicLookup entryPa (Some hpet_ops) arg e p = Some (Done (- 1, p1))" "same_core p p1"
          "pmem (pcpu p1) = Mmu.store (PHYS_TO_VIRT (pmem (pcpu p)) BOOTSTRAP_DESC_BASE + 16) s pm2"
          "icr_writes (trace (pbus p1)) = icr_writes (trace (pbus p)) @ wake (local_apicId ?m e)" by blast
      note same = same_coreD [OF p1(2)]
      from Cons.IH [of p1] Cons.prems(1-3) s(2,3) p1(3) obtain p' where
        "visit ?m APIC_TYPE_LOCAL_APIC (localApicLookup entryPa (Some hpet_ops) arg) es p1 = Some (Done (- 1, p'))"
        "same_core p1 p'"
        "icr_writes (trace (pbus p')) = icr_writes (trace (pbus p1)) @ concat (map wake (woken ?m arg es))"
        by (auto simp: same store_frames)
      then show ?thesis
        using p1(1,4) local_apic same_core_trans [OF p1(2)] by (intro exI [of _ p']) (simp add: w)
    qed
  qed
qed

text \<open>
  The first of two cores: its block is at 0x5000 and uses the x2APIC. The event timer counts in
  the largest units, so that its counter has always run out when it is read a second time, and
  \<^verbatim>\<open>/clkdev/aux\<close> is a timer object for it.
\<close>

definition demo_hpet :: "access list \<Rightarrow> uquad" where
  "demo_hpet tr = (case rev tr of Read64 a # Read64 a' # _ \<Rightarrow> if a = a' then - 1 else 0x100000000 | _ \<Rightarrow> 0x100000000)"

lemma demo_hpet_sleeps:
  assumes "device b = demo_hpet"
  shows "\<exists>st b'. ktimerMSleep base n b = Some (Done (st, b'))"
proof -
  obtain caps b1 where 1: "hpetRead base HPET_REG_CAPS b = (caps, b1)" by fastforce
  obtain c b2 where 2: "hpetRead base HPET_REG_MAIN_COUNTER b1 = (c, b2)" by fastforce
  have caps: "device b1 = demo_hpet" "caps = - 1 \<or> caps = 0x100000000"
    using 1 assms by (auto simp: hpetRead_def mmioRead64_def ask_def demo_hpet_def split: list.split access.split)
  have b2: "device b2 = demo_hpet" "\<exists>t. trace b2 = t @ [Read64 (base + ucast HPET_REG_MAIN_COUNTER)]"
    using 2 caps(1) by (auto simp: hpetRead_def mmioRead64_def ask_def)
  obtain b3 where b3: "hpetRead base HPET_REG_MAIN_COUNTER b2 = (- 1, b3)"
    using b2 by (auto simp: hpetRead_def mmioRead64_def ask_def demo_hpet_def)
  have "CAP_CLK_PERIOD (- 1) \<noteq> 0" "CAP_CLK_PERIOD 0x100000000 \<noteq> 0" by code_simp+
  then have "CAP_CLK_PERIOD caps \<noteq> 0" using caps(2) by auto
  moreover have "poll (\<lambda>x. case hpetRead base HPET_REG_MAIN_COUNTER x of (c', x1) \<Rightarrow>
      (c' < c + n * (1000000000000 div CAP_CLK_PERIOD caps), x1)) b2 = Some b3"
    by (subst poll.simps) (simp add: b3)
  ultimately show ?thesis unfolding ktimerMSleep_eq [OF 1 2] by simp
qed

definition demo_core :: "phys \<Rightarrow> kern" where
  "demo_core pm = \<lparr>kplat = \<lparr>pcpu = demo_cpu\<lparr>msr := (\<lambda>_. 0)(IA32_GS_BASE := 0x5000), pmem := pm,
       kpcrs := map_option (\<lambda>x. x\<lparr>self := 0x5000, core := (core x)\<lparr>hasX2Apic := True\<rparr>\<rparr>) \<circ> kpcrs demo_cpu\<rparr>,
     pbus = \<lparr>trace = [], device = demo_hpet\<rparr>,
     pstore = with_child demo_store 2 120 ((new_object NT_OB_TIMER (bytes ''aux'') 2)\<lparr>ob_data := Some hpet_timer\<rparr>),
     pacpi = demo_acpi, pitInitDone = False, lapicTimerDone = False, hpetBase = 0, ioapicBase = 0\<rparr>, ksched = demo_sched\<rparr>"

lemma demo_core_ready:
  "\<exists>m. coreMcb (pcpu (kplat (demo_core pm))) = Done (Some (0x5000, m)) \<and> hasX2Apic m \<and> hwId m = 0"
  "sleeps (kplat (demo_core pm))"
  by (simp_all add: demo_core_def demo_cpu_def coreMcb_def keGetCore_def getMcb_def rdmsr_def
      sleeps_def demo_hpet_sleeps)

lemma demo_core_timer:
  "keTimerGetDescriptor 3 (replicate 32 9) (Some (bytes ''/clkdev/aux'' @ [0])) False (pstore (kplat (demo_core pm))) =
    Done (STATUS_SUCCESS, Some hpet_timer)"
proof -
  have "keTimerGetDescriptor 3 (replicate 32 9) (Some (bytes ''/clkdev/aux'' @ [0])) False
      (with_child demo_store 2 120 ((new_object NT_OB_TIMER (bytes ''aux'') 2)\<lparr>ob_data := Some hpet_timer\<rparr>)) =
    Done (STATUS_SUCCESS, Some hpet_timer)" by code_simp
  then show ?thesis by (simp add: demo_core_def)
qed

text \<open>
  C26 (starting the other processors). On a processor in x2APIC mode whose timer sleeps return,
  with a well-formed interrupt controller table and a frame to spare for each processor to start,
  \<^verbatim>\<open>kiMpInit\<close> returns, records the core as the first, and sends exactly the following: for each
  local interrupt controller the table lists, in order and except the core itself, one INIT and
  two start-up interrupts naming the trampoline's page.
\<close>

theorem kiMpInit_wakes_others:
  assumes "coreMcb (pcpu (kplat k)) = Done (Some (a, m))" "hasX2Apic m" "sleeps (kplat k)"
    and "keTimerGetDescriptor fuel junk (Some (bytes ''/clkdev/aux'' @ [0])) False (pstore (kplat k)) =
      Done (STATUS_SUCCESS, Some hpet_timer)"
    and "acpiQueryTable (pacpi (kplat k)) (bytes ''APIC'') = Done (Some t)"
    and "madt_entries (fw (pacpi (kplat k))) (t + ucast (hdr_length (fw (pacpi (kplat k))) t)) (t + MADT_SIZE) es"
    and "ids = woken (fw (pacpi (kplat k))) (ucast (hwId m)) es"
    and "pool_ready (pmem (pcpu (kplat k)))" "spare_frames (length ids) (pmem (pcpu (kplat k)))"
  shows "\<exists>k'. kiMpInit entryPa tramp fuel junk k = Some (Done k') \<and> bspKpcr (cpus (ksched k')) = Some (unat a) \<and>
    icr_writes (trace (pbus (kplat k'))) = icr_writes (trace (pbus (kplat k))) @ concat (map wake ids)"
proof -
  let ?p = "kplat k" and ?s = "ksched k"
  let ?pm = "(pmem (pcpu ?p))\<lparr>memory := putBytes (PHYS_TO_VIRT (pmem (pcpu ?p)) TRAMPOLINE_PBASE) tramp (memory (pmem (pcpu ?p)))\<rparr>"
  let ?p1 = "setMem ?pm ?p" and ?s1 = "?s\<lparr>cpus := (cpus ?s)\<lparr>bspKpcr := Some (unat a)\<rparr>\<rparr>"
  have same: "same_core ?p ?p1" by (rule same_core_mem)
  note d = same_coreD [OF same]
  have timer: "ktimerAt (Some hpet_timer) = Some hpet_ops"
    by (simp add: ktimerAt_def hpet_timer_def pit_timer_def)
  have "pool_ready (pmem (pcpu ?p1))" "spare_frames (length ids) (pmem (pcpu ?p1))"
    using assms(8,9) by (simp_all add: frames.inv_memory frames.spare_memory)
  with visit_wakes [OF assms(1) [folded d(1)] assms(2), of "ucast (hwId m)" es entryPa] assms(3,7)
  obtain p' where p': "visit (fw (pacpi ?p)) APIC_TYPE_LOCAL_APIC (localApicLookup entryPa (Some hpet_ops) (ucast (hwId m))) es ?p1 =
      Some (Done (- 1, p'))" "icr_writes (trace (pbus p')) = icr_writes (trace (pbus ?p)) @ concat (map wake ids)"
    unfolding d by auto
  have "acpiReadMadt (pacpi ?p1) APIC_TYPE_LOCAL_APIC (Some (localApicLookup entryPa (Some hpet_ops) (ucast (hwId m)))) ?p1 =
      Some (Done (- 1, p'))"
    using p'(1) by (simp add: acpiReadMadt_def assms(5) madtLoop_visit [OF assms(6)])
  then have "kiMpInit entryPa tramp fuel junk k = Some (Done \<lparr>kplat = p', ksched = ?s1\<rparr>)"
    using assms(1,4) by (simp add: kiMpInit_def Let_def timer)
  then show ?thesis using p'(2) by simp
qed

theorem kiMpInit_wakes_others_witness:
  "\<exists>k'. kiMpInit 0x7000 (replicate 4096 0) 3 (replicate 32 9) (demo_core demo_proc) = Some (Done k') \<and>
    bspKpcr (cpus (ksched k')) = Some 0x5000 \<and>
    icr_writes (trace (pbus (kplat k'))) = [0x700000500, 0x700000601, 0x700000601]"
proof -
  let ?k = "demo_core demo_proc"
  obtain m where m: "coreMcb (pcpu (kplat ?k)) = Done (Some (0x5000, m))" "hasX2Apic m" "hwId m = 0"
    using demo_core_ready(1) [of demo_proc] by blast
  have fields: "pacpi (kplat ?k) = demo_acpi" "pmem (pcpu (kplat ?k)) = demo_proc" "trace (pbus (kplat ?k)) = []"
    by (simp_all add: demo_core_def)
  have "woken (fw demo_acpi) 0 [0x32C, 0x334] = [7]" by code_simp
  then have ids: "[7] = woken (fw (pacpi (kplat ?k))) (ucast (hwId m)) [0x32C, 0x334]" by (simp add: fields m(3))
  have sp: "spare_frames (length [7 :: uchar]) (pmem (pcpu (kplat ?k)))"
    using frames.spare_less [of 4 demo_proc] frames.spare_less [of 3 demo_proc] frames.spare_less [of 2 demo_proc]
      frames.spare_less [of 1 demo_proc] demo_proc_ready(3) by (simp add: fields eval_nat_numeral)
  have tab: "acpiQueryTable (pacpi (kplat ?k)) (bytes ''APIC'') = Done (Some 0x300)"
    "madt_entries (fw (pacpi (kplat ?k))) (0x300 + ucast (hdr_length (fw (pacpi (kplat ?k))) 0x300)) (0x300 + MADT_SIZE) [0x32C, 0x334]"
    "pool_ready (pmem (pcpu (kplat ?k)))"
    unfolding fields demo_table(2) [symmetric] by (rule demo_table demo_proc_ready)+
  have "concat (map wake [7]) = [0x700000500, 0x700000601, 0x700000601]" by code_simp
  with kiMpInit_wakes_others [OF m(1,2) demo_core_ready(2) demo_core_timer tab(1,2) ids tab(3) sp, of "0x7000" "replicate 4096 0"] fields(3)
  show ?thesis by simp
qed

text \<open>
  The bootstrap descriptor is in a frame the allocator owns. The descriptor is written to the
  fixed physical page 0x2000 without reserving it. While that frame is free and the next to be
  handed out, it becomes the new processor's stack, and clearing it wipes the page-table root
  and the entry point that were just written. For any other frame the descriptor holds them and
  the lowest address of that frame as the stack pointer.
\<close>

theorem bootstrap_descriptor:
  assumes "coreMcb (pcpu p) = Done (Some (a, m))" "hasX2Apic m" "sleeps p"
    and "ucast (local_apicId (fw (pacpi p)) hdr) \<noteq> arg" "pool_ready (pmem (pcpu p))"
    and "mmAllocFrame 1 (with_desc entryPa (pmem (pcpu p))) = Done (s, pm2)" "s \<noteq> 0"
    and "d = PHYS_TO_VIRT (pmem (pcpu p)) BOOTSTRAP_DESC_BASE"
  shows "\<exists>p'. localApicLookup entryPa (Some hpet_ops) arg hdr p = Some (Done (- 1, p')) \<and>
    (let mem = memory (pmem (pcpu p')) in
     mem (d + 16) = s \<and>
     (if s = BOOTSTRAP_DESC_BASE then mem d = 0 \<and> mem (d + 8) = 0
      else mem d = cr3 (pmem (pcpu p)) \<and> mem (d + 8) = entryPa))"
proof -
  let ?pm = "pmem (pcpu p)"
  have pr: "pool_ready (with_desc entryPa ?pm)" using assms(5) by (simp add: with_desc_def store_frames)
  have kb: "kernelBase (with_desc entryPa ?pm) = kernelBase ?pm"
    by (simp add: with_desc_def Mmu.store_def)
  have desc: "memory (with_desc entryPa ?pm) d = cr3 ?pm" "memory (with_desc entryPa ?pm) (d + 8) = entryPa"
    by (simp_all add: with_desc_def Mmu.store_def PHYS_TO_VIRT_def assms(8))
  have page: "d + off - PHYS_TO_VIRT (with_desc entryPa ?pm) s < 4096 \<longleftrightarrow> s = BOOTSTRAP_DESC_BASE" if "off < 4096" for off
  proof
    have eq: "d + off - PHYS_TO_VIRT (with_desc entryPa ?pm) s = 0x2000 + off - s"
      by (simp add: kb assms(8) PHYS_TO_VIRT_def BOOTSTRAP_DESC_BASE_def)
    show "s = BOOTSTRAP_DESC_BASE" if lt: "d + off - PHYS_TO_VIRT (with_desc entryPa ?pm) s < 4096"
    proof -
      define t where "t = 0x2000 + off - s"
      have t: "unat t < 4096" using lt by (simp add: eq t_def word_less_nat_alt)
      have off: "unat off < 4096" using \<open>off < 4096\<close> by (simp add: word_less_nat_alt)
      have "s = 0x2000 + off - t" by (simp add: t_def)
      moreover have "unat (0x2000 + off) = 8192 + unat off" using off by (simp add: unat_plus_small)
      ultimately have "unat s = 8192 + unat off - unat t"
        using t by (simp add: unat_sub word_le_nat_alt)
      moreover have "4096 dvd unat s"
        using frames.al_fresh [OF pr assms(6,7)] by (simp add: page_aligned_dvd)
      ultimately have "unat s = 8192" using t off by (auto elim!: dvdE)
      then show ?thesis by (simp add: BOOTSTRAP_DESC_BASE_def word_unat_eq_iff)
    qed
    show "d + off - PHYS_TO_VIRT (with_desc entryPa ?pm) s < 4096" if "s = BOOTSTRAP_DESC_BASE"
      unfolding eq using that \<open>off < 4096\<close> by (simp add: BOOTSTRAP_DESC_BASE_def)
  qed
  have mem: "memory pm2 (d + off) = (if s = BOOTSTRAP_DESC_BASE then 0 else memory (with_desc entryPa ?pm) (d + off))" if "off < 4096" for off
    using frames.al_zeroed [OF pr assms(6,7)] frames.al_memory [OF pr assms(6)] page [OF that] assms(7) by auto
  from lookup_run [OF assms(1-4,6,7)] obtain p' where
    "localApicLookup entryPa (Some hpet_ops) arg hdr p = Some (Done (- 1, p'))"
    "pmem (pcpu p') = Mmu.store (d + 16) s pm2" unfolding assms(8) by blast
  then show ?thesis
    using mem [of 0] mem [of 8] by (intro exI [of _ p']) (simp add: Mmu.store_def desc)
qed

text \<open>A machine in which only the first two frames are in use.\<close>

definition demo_low :: phys where
  "demo_low = demo_mmu\<lparr>bitmap := [0x03, 0, 0], highestFrameIdx := 24\<rparr>"

theorem bootstrap_descriptor_witness:
  "\<exists>p'. localApicLookup 0x7000 (Some hpet_ops) 0 0x32C (kplat (demo_core demo_low)) = Some (Done (- 1, p')) \<and>
    memory (pmem (pcpu p')) 0xFFFF800000002000 = 0 \<and> memory (pmem (pcpu p')) 0xFFFF800000002008 = 0"
proof -
  let ?p = "kplat (demo_core demo_low)"
  let ?pm = "with_desc 0x7000 (pmem (pcpu ?p))"
  obtain m where m: "coreMcb (pcpu ?p) = Done (Some (0x5000, m))" "hasX2Apic m"
    using demo_core_ready(1) [of demo_low] by blast
  have fields: "pacpi ?p = demo_acpi" "pmem (pcpu ?p) = demo_low" by (simp_all add: demo_core_def)
  have "local_apicId (fw demo_acpi) 0x32C = 7" by code_simp
  then have other: "ucast (local_apicId (fw (pacpi ?p)) 0x32C) \<noteq> (0 :: usize)" by (simp add: fields)
  have "pool_ready demo_low"
    by (simp add: demo_low_def demo_mmu_def demo_phys_def pool_ready_def wf_phys_def frame0_reserved_def bitAt_def)
  then have ready: "pool_ready (pmem (pcpu ?p))" by (simp add: fields)
  obtain s pm2 where al: "mmAllocFrame 1 ?pm = Done (s, pm2)"
    using frames.al_returns [of ?pm] ready by (auto simp: with_desc_def store_frames)
  have "first_run [0x03, 0, 0] 24 1 = Some 2" by code_simp
  then have "first_run (bitmap ?pm) (unat (highestFrameIdx ?pm)) (unat 1) = Some 2"
    unfolding with_desc_def Mmu.store_def fields by (simp add: demo_low_def)
  then have s: "s = BOOTSTRAP_DESC_BASE"
    using mmAllocFrame_cases [OF _ al] ready
    by (auto simp: with_desc_def store_frames BOOTSTRAP_DESC_BASE_def PAGESIZE_def)
  have d: "0xFFFF800000002000 = PHYS_TO_VIRT (pmem (pcpu ?p)) BOOTSTRAP_DESC_BASE"
    unfolding fields by (simp add: PHYS_TO_VIRT_def demo_low_def demo_mmu_def BOOTSTRAP_DESC_BASE_def)
  from bootstrap_descriptor [OF m demo_core_ready(2) other ready al _ d] s show ?thesis
    by (auto simp: Let_def BOOTSTRAP_DESC_BASE_def)
qed

end
