(* ===== verification/CoreInit.thy ===== *)
theory CoreInit
  imports Smp Process
begin

text \<open>
  What \<^verbatim>\<open>halCpuInit\<close> leaves behind: the lemmas on its steps, from the descriptor tables to the
  calibration of the local timer, and the state of the processor at the end.
\<close>

section \<open>Model-specific registers\<close>

lemma halves_join: "push_bit 32 (ucast (ucast (drop_bit 32 x) :: ulong)) OR ucast (ucast x :: ulong) = x" for x :: uquad
  using bits_join [of 32 x 32] by (simp add: ucast_down_up take_bit_all or.commute)

lemma msr_eqs:
  "rdmsr r c = msr c r"
  "wrmsr r v c = c\<lparr>msr := (msr c)(r := v)\<rparr>"
  unfolding rdmsr_def wrmsr_def Let_def halves_join by (rule refl)+

section \<open>The descriptor tables\<close>

text \<open>Up to the call of \<^verbatim>\<open>kiLapicInit\<close>: the core's block \<open>x\<close> and the processor's registers.\<close>

lemma tables_run:
  assumes "kpcrs c a = Some x" "length (idt c) = 256" "mmAllocFrame 1 (pmem c) = Done (f, pm)" "f \<noteq> 0"
  shows "\<exists>c1 c2 c3 y I. cpuInitGdt (Some a) c = Done c1 \<and> halRegisterIntr ISR (kiIdtLoad c1) = Done c2 \<and>
    cpuInitTss (Some a) c2 = Done c3 \<and> modKpcr a (\<lambda>x. x\<lparr>self := a\<rparr>) c3 = Done (c\<lparr>gdtr_reg := Some \<lparr>gr_limit = 55, gr_offset = a + gdt_offset\<rparr>,
      idtr_reg := Some (16 * 256 - 1, idtAddr c), idt := I, pmem := pm,
      task_reg := Some (of_nat (8 * GDT_TSS_INDEX) OR 3), kpcrs := (kpcrs c)(a \<mapsto> y)\<rparr>) \<and>
    gates_set ISR (idt c) I \<and> self y = a \<and> segments_set a (f + PAGESIZE + kernelBase pm) (core y) \<and>
    lapicBase (core y) = lapicBase (core x) \<and> ists (tss (core y)) = ists (tss (core x))"
proof -
  let ?r = "\<lparr>gr_limit = 55, gr_offset = a + gdt_offset\<rparr>"
  let ?x1 = "x\<lparr>core := (core x)\<lparr>gdt := g_gdtData, gdtr := ?r\<rparr>\<rparr>"
  let ?c1 = "c\<lparr>kpcrs := (kpcrs c)(a \<mapsto> ?x1), gdtr_reg := Some ?r\<rparr>"
  have 1: "cpuInitGdt (Some a) c = Done ?c1" using cpuInitGdt_run [OF assms(1)] by simp
  have "length (idt (kiIdtLoad ?c1)) = 256" using assms(2) by (simp add: kiIdtLoad_def)
  from halRegisterIntr_gates [OF this, of ISR] obtain I where
    2: "halRegisterIntr ISR (kiIdtLoad ?c1) = Done ((kiIdtLoad ?c1)\<lparr>idt := I\<rparr>)" "gates_set ISR (idt c) I"
    by (auto simp: kiIdtLoad_def)
  let ?c2 = "(kiIdtLoad ?c1)\<lparr>idt := I\<rparr>"
  have "kpcrs ?c2 a = Some ?x1" "gdt (core ?x1) = g_gdtData" "mmAllocFrame STACK_SIZE_PAGES (pmem ?c2) = Done (f, pm)"
    using assms(3) by (simp_all add: kiIdtLoad_def STACK_SIZE_PAGES_def)
  from cpuInitTss_run [OF this assms(4)] obtain g t where
    3: "cpuInitTss (Some a) ?c2 = Done (?c2\<lparr>pmem := pm, kpcrs := (kpcrs ?c2)(a \<mapsto> ?x1\<lparr>core := (core ?x1)\<lparr>gdt := g, tss := t\<rparr>\<rparr>),
        task_reg := Some (of_nat (8 * GDT_TSS_INDEX) OR 3)\<rparr>)"
      "ists t = ists (tss (core ?x1))" "segments_set a (f + PAGESIZE + kernelBase pm) ((core ?x1)\<lparr>gdt := g, tss := t\<rparr>)"
    by blast
  let ?y = "x\<lparr>core := (core x)\<lparr>gdtr := ?r, gdt := g, tss := t\<rparr>, self := a\<rparr>"
  let ?c3 = "?c2\<lparr>pmem := pm, kpcrs := (kpcrs ?c2)(a \<mapsto> ?x1\<lparr>core := (core ?x1)\<lparr>gdt := g, tss := t\<rparr>\<rparr>),
        task_reg := Some (of_nat (8 * GDT_TSS_INDEX) OR 3)\<rparr>"
  have 4: "modKpcr a (\<lambda>x. x\<lparr>self := a\<rparr>) ?c3 = Done (c\<lparr>gdtr_reg := Some ?r, idtr_reg := Some (16 * 256 - 1, idtAddr c), idt := I, pmem := pm,
      task_reg := Some (of_nat (8 * GDT_TSS_INDEX) OR 3), kpcrs := (kpcrs c)(a \<mapsto> ?y)\<rparr>)"
    by (simp add: modKpcr_def kiIdtLoad_def)
  have "segments_set a (f + PAGESIZE + kernelBase pm) (core ?y)" using 3(3) by (simp add: segments_set_def)
  then show ?thesis using 1 2 3(1,2) 4
    by (intro exI [of _ ?c1] exI [of _ ?c2] exI [of _ ?c3] exI [of _ ?y] exI [of _ I]) simp
qed

section \<open>The local interrupt controller\<close>

text \<open>
  Everything in \<^verbatim>\<open>kiLapicInit\<close> but the calibration loop is straight-line code. The calibration is
  done by a block \<open>m\<close> whose mode is the processor's, and whose MMIO base is the one the block had
  before: no code sets it.
\<close>

lemma lapic_devices:
  "device (snd (lapicRead c r b)) = device b" "device (lapicWrite c r v b) = device b"
  "device (snd (lapicReadId c b)) = device b"
proof -
  have read: "device (snd (lapicRead c r b)) = device b" for r b
    by (simp add: lapicRead_def ask_def mmioRead32_def)
  then show "device (snd (lapicRead c r b)) = device b" .
  show "device (lapicWrite c r v b) = device b" by (simp add: lapicWrite_def tell_def mmioWrite32_def)
  show "device (snd (lapicReadId c b)) = device b"
    using read [of LAPIC_ID b] read [of LAPIC_ID "snd (lapicRead c LAPIC_ID b)"]
    by (simp add: lapicReadId_def Let_def case_prod_beta)
qed

lemma lapicEnable_run:
  assumes "kpcrs (pcpu p) a = Some x"
  shows "\<exists>m b v. lapicEnable a p = Done (p\<lparr>pcpu := (wrmsr IA32_APIC_BASE_MSR v (pcpu p))\<lparr>
      kpcrs := (kpcrs (pcpu p))(a \<mapsto> x\<lparr>core := m\<rparr>)\<rparr>, pbus := b\<rparr>) \<and>
    hasX2Apic m = lapicHasX2Apic (pcpu p) \<and> lapicBase m = lapicBase (core x) \<and> gdt m = gdt (core x) \<and> tss m = tss (core x) \<and>
    device b = device (pbus p)"
proof -
  let ?m1 = "(core x)\<lparr>hasX2Apic := lapicHasX2Apic (pcpu p)\<rparr>"
  let ?c1 = "(pcpu p)\<lparr>kpcrs := (kpcrs (pcpu p))(a \<mapsto> x\<lparr>core := ?m1\<rparr>)\<rparr>"
  let ?v = "msr (pcpu p) IA32_APIC_BASE_MSR OR push_bit 11 1 OR push_bit 10 (of_bool (lapicHasX2Apic (pcpu p)))"
  obtain svr b1 where svr: "lapicRead ?m1 LAPIC_SVR (pbus p) = (svr, b1)" by fastforce
  obtain i b2 where i: "lapicReadId ?m1 (lapicWrite ?m1 LAPIC_SVR (svr OR push_bit 8 1 OR 0xFF) b1) = (i, b2)" by fastforce
  have "lapicEnable a p = Done (p\<lparr>pcpu := (wrmsr IA32_APIC_BASE_MSR ?v (pcpu p))\<lparr>
      kpcrs := (kpcrs (pcpu p))(a \<mapsto> x\<lparr>core := ?m1\<lparr>hwId := ucast i\<rparr>\<rparr>)\<rparr>, pbus := b2\<rparr>)"
    using assms svr i
    by (simp add: lapicEnable_def modMcb_def modKpcr_def getMcb_def msr_eqs Let_def del: push_bit_of_1 of_bool_eq_iff split del: if_split)
  moreover have "device b2 = device (pbus p)"
    using lapic_devices [of ?m1] svr i by (metis snd_conv)
  ultimately show ?thesis by (intro exI [of _ "?m1\<lparr>hwId := ucast i\<rparr>"] exI [of _ b2] exI [of _ ?v]) simp
qed

text \<open>The block after \<^verbatim>\<open>kiLapicInit\<close>: the measured frequency, and the timer's stack in the first slot.\<close>

definition lapic_block :: "ulong_ptr \<Rightarrow> usize \<Rightarrow> MCB \<Rightarrow> MCB" where
  "lapic_block stack freq m = m\<lparr>lapicTmrFreq := freq,
     tss := (tss m)\<lparr>ists := (ists (tss m))[0 := (ucast stack, ucast (drop_bit 32 stack))]\<rparr>\<rparr>"

lemma lapic_block_props:
  assumes "length (ists (tss m)) = 7"
  shows "segments_set a sp (lapic_block stack freq m) = segments_set a sp m" "lapicTmrFreq (lapic_block stack freq m) = freq"
    "ist_pointer (tss (lapic_block stack freq m)) 0 = stack"
  using assms by (simp_all add: lapic_block_def segments_set_def ist_pointer_def halves_join)

lemma kiLapicInit_run:
  assumes core: "kpcrs (pcpu p) a = Some x" "self x = a" "msr (pcpu p) IA32_GS_BASE = a" "a \<noteq> 0"
    and present: "lapicIsPresent (pcpu p)"
    and al: "mmAllocFrame 1 (pmem (pcpu p)) = Done (f, pm)" "f \<noteq> 0"
  shows "\<exists>m b v. hasX2Apic m = lapicHasX2Apic (pcpu p) \<and> lapicBase m = lapicBase (core x) \<and> gdt m = gdt (core x) \<and>
    tss m = tss (core x) \<and> device b = device (pbus p) \<and>
    kiLapicInit p = thenR (lapicTimerInit m b) (\<lambda>(freq, b'). Some (Done (p\<lparr>pcpu := (pcpu p)\<lparr>
      msr := (msr (pcpu p))(IA32_APIC_BASE_MSR := v), pmem := pm,
      kpcrs := (kpcrs (pcpu p))(a \<mapsto> x\<lparr>core := lapic_block (PHYS_TO_VIRT pm f) freq m\<rparr>)\<rparr>, pbus := b'\<rparr>)))"
proof -
  obtain m b v where en: "lapicEnable a p = Done (p\<lparr>pcpu := (wrmsr IA32_APIC_BASE_MSR v (pcpu p))\<lparr>
      kpcrs := (kpcrs (pcpu p))(a \<mapsto> x\<lparr>core := m\<rparr>)\<rparr>, pbus := b\<rparr>)"
    and m: "hasX2Apic m = lapicHasX2Apic (pcpu p)" "lapicBase m = lapicBase (core x)" "gdt m = gdt (core x)" "tss m = tss (core x)"
      "device b = device (pbus p)"
    using lapicEnable_run [OF core(1)] by blast
  have get: "keGetCore (pcpu p) = Done (Some a)"
    using core by (simp add: keGetCore_def msr_eqs)
  have rest: "thenR (Some (modMcb a (\<lambda>m. m\<lparr>lapicTmrFreq := freq\<rparr>) c)) (\<lambda>c1.
      thenR (Some (tssAllocateStack False c1)) (\<lambda>(status, tmrStack, c2).
        if status \<noteq> STATUS_SUCCESS then Some (Panic ''could not allocate sched timer stack'')
        else thenR (Some (tssSetIntrStack (Some a) IST_SCHED tmrStack c2)) (\<lambda>(status2, c3).
          if status2 \<noteq> STATUS_SUCCESS then Some (Panic ''could not set sched timer stack'') else Some (Done (g c3))))) =
      Some (Done (g (c\<lparr>pmem := pm, kpcrs := (kpcrs c)(a \<mapsto> y\<lparr>core := lapic_block (PHYS_TO_VIRT pm f) freq (core y)\<rparr>)\<rparr>)))"
    if "kpcrs c a = Some y" "mmAllocFrame 1 (pmem c) = Done (f, pm)" for freq c y and g :: "cpu \<Rightarrow> plat"
    using that al(2)
    by (simp add: modMcb_def modKpcr_def tssAllocateStack_def STACK_SIZE_PAGES_def tssSetIntrStack_def IST_SCHED_def
        lapic_block_def)
  have "kiLapicInit p = thenR (lapicTimerInit m b) (\<lambda>(freq, b'). Some (Done (p\<lparr>pcpu := (pcpu p)\<lparr>
      msr := (msr (pcpu p))(IA32_APIC_BASE_MSR := v), pmem := pm,
      kpcrs := (kpcrs (pcpu p))(a \<mapsto> x\<lparr>core := lapic_block (PHYS_TO_VIRT pm f) freq m\<rparr>)\<rparr>, pbus := b'\<rparr>)))"
    unfolding kiLapicInit_def get
    using al(1) present
    by (simp add: en getMcb_def msr_eqs rest [where y = "x\<lparr>core := m\<rparr>"] cong: if_cong)
  with m show ?thesis by blast
qed

section \<open>The whole set-up\<close>

text \<open>The state of a core after its set-up: \<open>sp\<close>, \<open>tmr\<close> and \<open>sys\<close> are its three stacks.\<close>

definition core_ready :: "(isr_label \<Rightarrow> ulong_ptr) \<Rightarrow> ulong_ptr \<Rightarrow> idtGate list \<Rightarrow> uquad \<times> uquad \<times> uquad \<Rightarrow> usize \<Rightarrow> cpu \<Rightarrow> bool" where
  "core_ready ISR a I stacks freq c \<longleftrightarrow> keGetCore c = Done (Some a) \<and> halGetIrql c = ucast PASSIVE_LEVEL \<and>
     gates_set ISR I (idt c) \<and> idtr_reg c = Some (4095, idtAddr c) \<and>
     gdtr_reg c = Some \<lparr>gr_limit = 55, gr_offset = a + gdt_offset\<rparr> \<and> task_reg c = Some (of_nat (8 * GDT_TSS_INDEX) OR 3) \<and>
     (\<exists>k. kpcrs c a = Some k \<and> segments_set a (fst stacks) (core k) \<and> ist_pointer (tss (core k)) 0 = fst (snd stacks) \<and>
        syscallStack (core k) = snd (snd stacks) \<and> lapicTmrFreq (core k) = freq)"

lemma three_frames:
  assumes "pool_ready pm" "spare_frames 3 pm"
  obtains f1 pm1 f2 pm2 f3 pm3 where
    "mmAllocFrame 1 pm = Done (f1, pm1)" "mmAllocFrame 1 pm1 = Done (f2, pm2)" "mmAllocFrame 1 pm2 = Done (f3, pm3)"
    "f1 \<noteq> 0" "f2 \<noteq> 0" "f3 \<noteq> 0" "distinct [f1, f2, f3]"
    "\<not> frame_taken pm f1 \<and> \<not> frame_taken pm f2 \<and> \<not> frame_taken pm f3"
    "frame_taken pm3 f1 \<and> frame_taken pm3 f2 \<and> frame_taken pm3 f3"
    "kernelBase pm1 = kernelBase pm" "kernelBase pm2 = kernelBase pm" "kernelBase pm3 = kernelBase pm"
proof -
  obtain f1 pm1 where 1: "mmAllocFrame 1 pm = Done (f1, pm1)" using frames.al_returns [OF assms(1)] by blast
  note i1 = frames.al_inv [OF assms(1) 1] and g1 = frames.al_grows [OF assms(1) 1]
  obtain f2 pm2 where 2: "mmAllocFrame 1 pm1 = Done (f2, pm2)" using frames.al_returns [OF i1] by blast
  note i2 = frames.al_inv [OF i1 2] and g2 = frames.al_grows [OF i1 2]
  obtain f3 pm3 where 3: "mmAllocFrame 1 pm2 = Done (f3, pm3)" using frames.al_returns [OF i2] by blast
  have s1: "f1 \<noteq> 0" "spare_frames 2 pm1" using frames.al_spare [OF assms(1) 1, of 2] assms(2) by simp_all
  have s2: "f2 \<noteq> 0" "spare_frames 1 pm2" using frames.al_spare [OF i1 2, of 1] s1(2) by (simp_all add: numeral_2_eq_2)
  have s3: "f3 \<noteq> 0" using frames.al_spare [OF i2 3, of 0] s2(2) by simp
  note fresh1 = frames.al_fresh [OF assms(1) 1 s1(1)] and fresh2 = frames.al_fresh [OF i1 2 s2(1)]
    and fresh3 = frames.al_fresh [OF i2 3 s3] and g3 = frames.al_grows [OF i2 3]
  show ?thesis
    by (rule that [OF 1 2 3 s1(1) s2(1) s3])
      (use fresh1 fresh2 fresh3 g1 g2 g3 frames.al_machine [OF assms(1) 1] frames.al_machine [OF i1 2]
        frames.al_machine [OF i2 3] in auto)
qed

lemma halSetIrql_fields:
  "pmem (halSetIrql l c) = pmem c" "kpcrs (halSetIrql l c) = kpcrs c" "msr (halSetIrql l c) = msr c"
  "idt (halSetIrql l c) = idt c" "idtAddr (halSetIrql l c) = idtAddr c" "idtr_reg (halSetIrql l c) = idtr_reg c"
  "gdtr_reg (halSetIrql l c) = gdtr_reg c" "task_reg (halSetIrql l c) = task_reg c"
  by (simp_all add: halSetIrql_def writeCr8_def)

lemma passive_level:
  "halGetIrql ((halSetIrql (ucast PASSIVE_LEVEL) c)\<lparr>pmem := pm, kpcrs := ks\<rparr>) = ucast PASSIVE_LEVEL"
proof -
  have "halGetIrql (c'\<lparr>pmem := pm, kpcrs := ks\<rparr>) = halGetIrql c'" for c'
    by (simp add: halGetIrql_def readCr8_def)
  then show ?thesis by (simp add: halSetIrql_get PASSIVE_LEVEL_def)
qed

lemma core_ready_done:
  assumes "msr c IA32_GS_BASE = a" "a \<noteq> 0" "self z = a" "gates_set ISR I (idt c)" "idtr_reg c = Some (4095, idtAddr c)"
    and "gdtr_reg c = Some \<lparr>gr_limit = 55, gr_offset = a + gdt_offset\<rparr>" "task_reg c = Some (of_nat (8 * GDT_TSS_INDEX) OR 3)"
    and "segments_set a sp (core z)" "ist_pointer (tss (core z)) 0 = tmr" "lapicTmrFreq (core z) = freq"
  shows "core_ready ISR a I (sp, tmr, sys) freq ((halSetIrql (ucast PASSIVE_LEVEL) c)\<lparr>pmem := pm,
    kpcrs := (kpcrs (halSetIrql (ucast PASSIVE_LEVEL) c))(a \<mapsto> z\<lparr>core := (core z)\<lparr>syscallStack := sys\<rparr>\<rparr>)\<rparr>)"
  unfolding core_ready_def
  using assms passive_level
  by (simp add: keGetCore_def msr_eqs halSetIrql_fields segments_set_def)

text \<open>
  C17 (a core is set up). For a core block in memory, with a ready pool, three frames to spare and an on-board interrupt controller,
  \<^verbatim>\<open>halCpuInit\<close> returns exactly when the calibration of the local timer does, and it then leaves
  the processor able to find its core block, at the passive level, with every handled vector
  leading to its handler, its own segment table and task segment loaded, an empty run queue, and
  three stacks in frames no one held, all different. The controller's memory-mapped registers are
  used at the address the block happened to hold: nothing sets it.
\<close>

theorem halCpuInit_core:
  assumes "kpcrs (pcpu (kplat k)) a = Some x" "a \<noteq> 0" "length (idt (pcpu (kplat k))) = 256"
    and "length (ists (tss (core x))) = 7" "lapicIsPresent (pcpu (kplat k))"
    and "pool_ready (pmem (pcpu (kplat k)))" "spare_frames 3 (pmem (pcpu (kplat k)))"
  shows "\<exists>m b f1 f2 f3. hasX2Apic m = lapicHasX2Apic (pcpu (kplat k)) \<and> lapicBase m = lapicBase (core x) \<and>
    device b = device (pbus (kplat k)) \<and> distinct [f1, f2, f3] \<and>
    \<not> frame_taken (pmem (pcpu (kplat k))) f1 \<and> \<not> frame_taken (pmem (pcpu (kplat k))) f2 \<and> \<not> frame_taken (pmem (pcpu (kplat k))) f3 \<and>
    (case lapicTimerInit m b of
       None \<Rightarrow> halCpuInit ISR a k = None
     | Some (Panic s) \<Rightarrow> halCpuInit ISR a k = Some (Panic s)
     | Some Fault \<Rightarrow> halCpuInit ISR a k = Some Fault
     | Some (Done (freq, b')) \<Rightarrow> \<exists>k'. halCpuInit ISR a k = Some (Done k') \<and>
         queue_rep (links (ksched k')) (unat a) [] \<and>
         frame_taken (pmem (pcpu (kplat k'))) f1 \<and> frame_taken (pmem (pcpu (kplat k'))) f2 \<and> frame_taken (pmem (pcpu (kplat k'))) f3 \<and>
         core_ready ISR a (idt (pcpu (kplat k)))
           (let base = kernelBase (pmem (pcpu (kplat k))) in (f1 + PAGESIZE + base, f2 + base, f3 + (base + (PAGESIZE - 1))))
           freq (pcpu (kplat k')))"
proof -
  let ?c = "pcpu (kplat k)" and ?base = "kernelBase (pmem (pcpu (kplat k)))"
  obtain f1 pm1 f2 pm2 f3 pm3 where f: "mmAllocFrame 1 (pmem ?c) = Done (f1, pm1)" "mmAllocFrame 1 pm1 = Done (f2, pm2)"
      "mmAllocFrame 1 pm2 = Done (f3, pm3)" "f1 \<noteq> 0" "f2 \<noteq> 0" "f3 \<noteq> 0" and dist: "distinct [f1, f2, f3]"
    and fresh: "\<not> frame_taken (pmem ?c) f1 \<and> \<not> frame_taken (pmem ?c) f2 \<and> \<not> frame_taken (pmem ?c) f3"
    and taken: "frame_taken pm3 f1 \<and> frame_taken pm3 f2 \<and> frame_taken pm3 f3"
    and kb: "kernelBase pm1 = ?base" "kernelBase pm2 = ?base" "kernelBase pm3 = ?base"
    by (rule three_frames [OF assms(6,7)])
  obtain c1 c2 c3 y I where tab: "cpuInitGdt (Some a) ?c = Done c1" "halRegisterIntr ISR (kiIdtLoad c1) = Done c2"
      "cpuInitTss (Some a) c2 = Done c3" "modKpcr a (\<lambda>x. x\<lparr>self := a\<rparr>) c3 = Done (?c\<lparr>
        gdtr_reg := Some \<lparr>gr_limit = 55, gr_offset = a + gdt_offset\<rparr>, idtr_reg := Some (16 * 256 - 1, idtAddr ?c),
        idt := I, pmem := pm1, task_reg := Some (of_nat (8 * GDT_TSS_INDEX) OR 3), kpcrs := (kpcrs ?c)(a \<mapsto> y)\<rparr>)"
    and y: "gates_set ISR (idt ?c) I" "self y = a" "segments_set a (f1 + PAGESIZE + ?base) (core y)"
      "lapicBase (core y) = lapicBase (core x)" "ists (tss (core y)) = ists (tss (core x))"
    using tables_run [OF assms(1,3) f(1,4), of ISR] unfolding kb by blast
  let ?c4 = "?c\<lparr>gdtr_reg := Some \<lparr>gr_limit = 55, gr_offset = a + gdt_offset\<rparr>, idtr_reg := Some (16 * 256 - 1, idtAddr ?c),
      idt := I, pmem := pm1, task_reg := Some (of_nat (8 * GDT_TSS_INDEX) OR 3), kpcrs := (kpcrs ?c)(a \<mapsto> y)\<rparr>"
  let ?p4 = "(kplat (initQueue a k))\<lparr>pcpu := wrmsr IA32_GS_BASE a ?c4\<rparr>"
  have p4: "kpcrs (pcpu ?p4) a = Some y" "msr (pcpu ?p4) IA32_GS_BASE = a" "lapicIsPresent (pcpu ?p4)"
    "mmAllocFrame 1 (pmem (pcpu ?p4)) = Done (f2, pm2)" "lapicHasX2Apic (pcpu ?p4) = lapicHasX2Apic ?c"
    "pbus ?p4 = pbus (kplat k)"
    using assms(5) f(2) by (simp_all add: msr_eqs lapicIsPresent_def lapicHasX2Apic_def initQueue_def)
  obtain m b v where m: "hasX2Apic m = lapicHasX2Apic ?c" "lapicBase m = lapicBase (core x)" "gdt m = gdt (core y)" "tss m = tss (core y)"
      and dev: "device b = device (pbus (kplat k))"
    and run: "kiLapicInit ?p4 = thenR (lapicTimerInit m b) (\<lambda>(freq, b'). Some (Done (?p4\<lparr>pcpu := (pcpu ?p4)\<lparr>
      msr := (msr (pcpu ?p4))(IA32_APIC_BASE_MSR := v), pmem := pm2,
      kpcrs := (kpcrs (pcpu ?p4))(a \<mapsto> y\<lparr>core := lapic_block (PHYS_TO_VIRT pm2 f2) freq m\<rparr>)\<rparr>, pbus := b'\<rparr>)))"
    using kiLapicInit_run [OF p4(1) y(2) p4(2) assms(2) p4(3,4) f(5)] y(4) unfolding p4(5,6) by metis
  have init: "halCpuInit ISR a k = thenR (kiLapicInit ?p4) (\<lambda>p1.
     let c5 = halSetIrql (ucast PASSIVE_LEVEL) (pcpu p1) in
     thenR (Some (mmAllocFrame 1 (pmem c5))) (\<lambda>(stack, pm).
       if stack = 0 then Some (Panic ''failed to allocate system call stack'')
       else thenR (Some (modMcb a (\<lambda>m. m\<lparr>syscallStack := stack + (kernelBase pm + (PAGESIZE - 1))\<rparr>) (c5\<lparr>pmem := pm\<rparr>)))
         (\<lambda>c6. Some (Done ((initQueue a k)\<lparr>kplat := p1\<lparr>pcpu := c6\<rparr>\<rparr>)))))"
    unfolding halCpuInit_def Let_def by (simp only: tab thenR_simps)
  have done_run: "\<exists>k'. halCpuInit ISR a k = Some (Done k') \<and> queue_rep (links (ksched k')) (unat a) [] \<and>
      pmem (pcpu (kplat k')) = pm3 \<and>
      core_ready ISR a (idt ?c) (f1 + PAGESIZE + ?base, f2 + ?base, f3 + (?base + (PAGESIZE - 1))) freq (pcpu (kplat k'))"
    if t: "lapicTimerInit m b = Some (Done (freq, b'))" for freq b'
  proof -
    let ?z = "y\<lparr>core := lapic_block (PHYS_TO_VIRT pm2 f2) freq m\<rparr>"
    let ?c5 = "halSetIrql (ucast PASSIVE_LEVEL) ((pcpu ?p4)\<lparr>msr := (msr (pcpu ?p4))(IA32_APIC_BASE_MSR := v), pmem := pm2,
        kpcrs := (kpcrs (pcpu ?p4))(a \<mapsto> ?z)\<rparr>)"
    let ?z' = "?z\<lparr>core := (core ?z)\<lparr>syscallStack := f3 + (?base + (PAGESIZE - 1))\<rparr>\<rparr>"
    let ?c6 = "?c5\<lparr>pmem := pm3, kpcrs := (kpcrs ?c5)(a \<mapsto> ?z')\<rparr>"
    let ?k' = "(initQueue a k)\<lparr>kplat := ?p4\<lparr>pcpu := ?c6, pbus := b'\<rparr>\<rparr>"
    have c5: "pmem ?c5 = pm2" "kpcrs ?c5 a = Some ?z" by (simp_all add: halSetIrql_fields)
    have "halCpuInit ISR a k = Some (Done ?k')"
      unfolding init run t Let_def using f(3,6) c5
      by (simp add: modMcb_def modKpcr_def kb)
    moreover have "core_ready ISR a (idt ?c) (f1 + PAGESIZE + ?base, f2 + ?base, f3 + (?base + (PAGESIZE - 1))) freq ?c6"
    proof (rule core_ready_done)
      have "length (ists (tss m)) = 7" using m(4) y(5) assms(4) by simp
      note blk = lapic_block_props [OF this, where stack = "PHYS_TO_VIRT pm2 f2" and freq = freq]
      have "segments_set a (f1 + PAGESIZE + ?base) m" using y(3) m(3,4) by (simp add: segments_set_def)
      then show "segments_set a (f1 + PAGESIZE + ?base) (core ?z)" by (simp add: blk(1))
      show "ist_pointer (tss (core ?z)) 0 = f2 + ?base" "lapicTmrFreq (core ?z) = freq"
        using blk(2,3) by (simp_all add: PHYS_TO_VIRT_def kb)
    qed (use y(1,2) assms(2) in \<open>simp_all add: msr_eqs IA32_GS_BASE_def IA32_APIC_BASE_MSR_def\<close>)
    moreover have "queue_rep (links (ksched ?k')) (unat a) []"
      by (simp add: initQueue_def tq.rep_init)
    ultimately show ?thesis by (intro exI [of _ ?k']) simp
  qed
  have "case lapicTimerInit m b of
       None \<Rightarrow> halCpuInit ISR a k = None
     | Some (Panic s) \<Rightarrow> halCpuInit ISR a k = Some (Panic s)
     | Some Fault \<Rightarrow> halCpuInit ISR a k = Some Fault
     | Some (Done (freq, b')) \<Rightarrow> \<exists>k'. halCpuInit ISR a k = Some (Done k') \<and>
         queue_rep (links (ksched k')) (unat a) [] \<and>
         frame_taken (pmem (pcpu (kplat k'))) f1 \<and> frame_taken (pmem (pcpu (kplat k'))) f2 \<and> frame_taken (pmem (pcpu (kplat k'))) f3 \<and>
         core_ready ISR a (idt ?c)
           (let base = ?base in (f1 + PAGESIZE + base, f2 + base, f3 + (base + (PAGESIZE - 1)))) freq (pcpu (kplat k'))"
  proof (cases "lapicTimerInit m b")
    case None
    then show ?thesis unfolding init run by simp
  next
    case (Some r)
    show ?thesis
    proof (cases r)
      case (Done z)
      obtain freq b' where "z = (freq, b')" by fastforce
      with Some Done done_run [of freq b'] taken show ?thesis by (auto simp: Let_def)
    qed (unfold Some init run, simp_all)
  qed
  with m(1,2) dev dist fresh show ?thesis by blast
qed

section \<open>A machine whose timer calibrates\<close>

text \<open>
  The hardware answers zero, but for the interval timer's low byte when it is read after the local
  timer: one tick has passed.
\<close>

definition demo_device :: "access list \<Rightarrow> uquad" where
  "demo_device tr = (case rev tr of
       Inb p # Outb q v # Rdmsr r # _ \<Rightarrow> 1
     | Inb p # Outb q v # Read32 a # _ \<Rightarrow> 1
     | _ \<Rightarrow> 0)"

lemma demo_calibrates:
  assumes "device b = demo_device"
  shows "\<exists>freq b'. lapicTimerInit m b = Some (Done (freq, b'))"
proof -
  define b1 where "b1 = pitSetCount (ucast LAPIC_TMR_SAMPLES) (lapicStopTimer m b)"
  have b1: "device b1 = demo_device" "\<exists>t p v. trace b1 = t @ [Outb p v]"
    using assms by (simp_all add: b1_def pitSetCount_def halBusOutb_def tell_def lapicStopTimer_def lapicWrite_def mmioWrite32_def)
  then obtain t p v where t: "trace b1 = t @ [Outb p v]" by blast
  define b2 where "b2 = snd (pitGetCount b1)"
  have start: "pitGetCount b1 = (0, b2)" and d2: "device b2 = demo_device"
    using b1(1) t
    by (simp_all add: b2_def pitGetCount_def halBusOutb_def halBusInb_def tell_def ask_def demo_device_def)
  define b3 where "b3 = lapicWrite m LAPIC_INIT_CNT LAPIC_TMR_SAMPLES b2"
  have d3: "device b3 = demo_device" by (simp add: b3_def lapic_devices d2)
  define b4 where "b4 = snd (lapicRead m LAPIC_CUR_CNT b3)"
  have read: "lapicRead m LAPIC_CUR_CNT b3 = (0, b4)"
    using d3 by (simp add: b4_def lapicRead_def ask_def mmioRead32_def demo_device_def)
  have b4: "device b4 = demo_device" "\<exists>t x. trace b4 = t @ [x] \<and> (\<exists>r. x = Rdmsr r \<or> (\<exists>a. x = Read32 a))"
    using d3 by (auto simp: b4_def lapicRead_def ask_def mmioRead32_def)
  have poll: "poll (\<lambda>x. case lapicRead m LAPIC_CUR_CNT x of (n, x1) \<Rightarrow> (0 < n, x1)) b3 = Some b4"
    by (subst poll.simps) (simp add: read)
  obtain b5 where finish: "pitGetCount b4 = (1, b5)"
    using b4 by (auto simp: pitGetCount_def halBusOutb_def halBusInb_def tell_def ask_def demo_device_def)
  show ?thesis
    unfolding lapicTimerInit_def Let_def b1_def [symmetric]
    by (simp add: start b3_def [symmetric] poll finish)
qed

definition demo_kern :: kern where
  "demo_kern = \<lparr>kplat = \<lparr>pcpu = demo_cpu\<lparr>cpuid := (\<lambda>_. (0, 0, 0x200000, 0xA00)), pmem := demo_proc\<rparr>,
     pbus = \<lparr>trace = [], device = demo_device\<rparr>, pstore = demo_store, pacpi = demo_acpi, pitInitDone = False,
     lapicTimerDone = False, hpetBase = 0, ioapicBase = 0\<rparr>, ksched = demo_sched\<rparr>"

theorem halCpuInit_core_witness:
  "\<exists>k'. halCpuInit (\<lambda>_. 0x8000) 0x5000 demo_kern = Some (Done k') \<and> keGetCore (pcpu (kplat k')) = Done (Some 0x5000) \<and>
    halGetIrql (pcpu (kplat k')) = 1"
proof -
  obtain x where x: "kpcrs (pcpu (kplat demo_kern)) 0x5000 = Some x" "length (ists (tss (core x))) = 7"
    by (simp add: demo_kern_def demo_cpu_def)
  have h: "(0x5000 :: ulong_ptr) \<noteq> 0" "length (idt (pcpu (kplat demo_kern))) = 256" "lapicIsPresent (pcpu (kplat demo_kern))"
    "pool_ready (pmem (pcpu (kplat demo_kern)))"
    by (simp_all add: demo_kern_def demo_cpu_def lapicIsPresent_def demo_proc_ready)
  have "spare_frames 4 demo_proc" "spare_frames 3 demo_proc"
    using frames.spare_less [of 4 demo_proc] frames.spare_less [of 3 demo_proc] demo_proc_ready(3)
    by simp_all
  then have sp: "spare_frames 3 (pmem (pcpu (kplat demo_kern)))" by (simp add: demo_kern_def)
  have dev: "device (pbus (kplat demo_kern)) = demo_device" by (simp add: demo_kern_def)
  from halCpuInit_core [OF x(1) h(1,2) x(2) h(3,4) sp, of "\<lambda>_. 0x8000"] show ?thesis
    unfolding dev
    apply (elim exE conjE)
    subgoal for m b f1 f2 f3
      using demo_calibrates [of b m] by (auto simp: core_ready_def PASSIVE_LEVEL_def)
    done
qed

end
