(* ===== verification/ConsFont.thy ===== *)
theory ConsFont
  imports Prelude
begin

text \<open>
  The console font \<^verbatim>\<open>g_consFont\<close> of \<^verbatim>\<open>drv/bootvid/vidFont.c\<close>, row by row: twelve bytes a row.
  The four bytes of the PC screen font header are followed by 14 bytes a character. The table is
  cut into pieces of 24 rows, which \<open>g_consFont\<close> joins.
\<close>

definition consFont1 :: "uchar list" where
  "consFont1 =
    [0x36, 0x04, 0x03, 0x0E, 0x2B, 0xBF, 0x18, 0xDE, 0x93, 0xC9, 0xB1, 0x5E,
     0xDF, 0xBE, 0x72, 0x5A, 0xBB, 0x42, 0x64, 0xC6, 0xD8, 0x93, 0xB7, 0x15,
     0x74, 0x1C, 0x8B, 0x64, 0x91, 0xF5, 0xDE, 0x29, 0x46, 0x42, 0xEC, 0x6F,
     0xCA, 0x20, 0x15, 0xF0, 0x06, 0x27, 0x61, 0x27, 0x87, 0xE0, 0x6E, 0x43,
     0x50, 0xC5, 0x1B, 0xC5, 0xB4, 0x37, 0xC3, 0x69, 0xA6, 0xEE, 0x80, 0xAF,
     0x6F, 0x9B, 0x93, 0xA1, 0x76, 0xA1, 0x23, 0xF5, 0x24, 0x72, 0x53, 0xF3,
     0x5B, 0x65, 0x19, 0xF4, 0xFC, 0x93, 0xDD, 0x26, 0xE8, 0xA6, 0x10, 0xF4,
     0xF7, 0xC9, 0xCE, 0x92, 0x48, 0xF6, 0x94, 0x6F, 0x60, 0xEC, 0x07, 0xC4,
     0xB9, 0x97, 0x6D, 0xA4, 0xBF, 0x11, 0x0D, 0xC6, 0xB4, 0x1F, 0x4D, 0x13,
     0xB0, 0x5D, 0xBA, 0x31, 0x27, 0x29, 0xD5, 0x8D, 0x51, 0x87, 0x6E, 0x36,
     0xBA, 0x00, 0x96, 0x7A, 0xF0, 0xC3, 0x20, 0x03, 0x7F, 0xD8, 0xDA, 0x17,
     0xDB, 0xC9, 0x94, 0x19, 0xD4, 0xBF, 0xE8, 0x83, 0xE2, 0xF6, 0x91, 0x79,
     0x6A, 0xA6, 0xE1, 0x95, 0x38, 0xFF, 0x28, 0xB2, 0xB3, 0xFC, 0xA6, 0xA7,
     0xD8, 0xAE, 0xF8, 0x54, 0xCC, 0x28, 0xDC, 0x9A, 0x6B, 0xFB, 0xDE, 0x76,
     0x3F, 0xD8, 0xD7, 0xBC, 0x21, 0x7A, 0xC8, 0x7F, 0x91, 0x71, 0x09, 0x54,
     0x6D, 0x95, 0x16, 0xAC, 0x96, 0x3C, 0xBE, 0xF5, 0xDD, 0x13, 0x8A, 0x62,
     0x00, 0xB7, 0x0D, 0x05, 0xC2, 0xA1, 0xEE, 0x8C, 0x69, 0x64, 0x32, 0x4E,
     0x35, 0x9C, 0x5F, 0x29, 0x75, 0xCD, 0x2E, 0xB7, 0x7A, 0x24, 0xA2, 0x3E,
     0x1F, 0xDF, 0x1A, 0xC1, 0x61, 0x8E, 0x14, 0x60, 0xA0, 0xCA, 0x6B, 0xD3,
     0x8D, 0xBA, 0x7D, 0x43, 0x7F, 0x7D, 0x7D, 0xD9, 0xEB, 0x5C, 0x8B, 0x9A,
     0x9C, 0x70, 0xB4, 0x37, 0xC4, 0x4E, 0xC9, 0x16, 0xE6, 0xEE, 0xF7, 0x9E,
     0x11, 0x1C, 0xA1, 0x12, 0x8E, 0x3B, 0x9C, 0xEF, 0x92, 0x93, 0x76, 0x1E,
     0x3C, 0xFF, 0x8E, 0xDD, 0x49, 0xBA, 0xD2, 0x7D, 0x97, 0x1C, 0x28, 0xB2,
     0x98, 0xE2, 0x6E, 0x35, 0x2E, 0xAF, 0x37, 0x43, 0x39, 0x7E, 0x44, 0x72]"

definition consFont2 :: "uchar list" where
  "consFont2 =
    [0x3C, 0x4B, 0xA6, 0xBF, 0xB1, 0x6C, 0xC2, 0x65, 0x5F, 0xA4, 0x88, 0xE6,
     0xA7, 0xEE, 0x02, 0x2C, 0xA4, 0xC4, 0xAD, 0xC5, 0xC1, 0xE5, 0x37, 0xA2,
     0x98, 0x9F, 0x5D, 0x12, 0x40, 0x5C, 0x7B, 0x80, 0x4A, 0x3D, 0xA9, 0xE5,
     0xAB, 0x0B, 0xD6, 0x92, 0x2F, 0x06, 0x79, 0x90, 0x2A, 0x9C, 0xA4, 0x4E,
     0xF4, 0xC4, 0xA2, 0x11, 0x21, 0xC1, 0x7A, 0xB6, 0x1D, 0xA4, 0x65, 0xB4,
     0xC8, 0xB4, 0x44, 0xC7, 0x22, 0x46, 0x14, 0x36, 0x32, 0x9E, 0x9B, 0x8C,
     0x91, 0x20, 0x12, 0xE2, 0x27, 0x90, 0x51, 0x55, 0x34, 0xAD, 0x0A, 0x0A,
     0xD0, 0x10, 0xB5, 0x68, 0xE3, 0xF0, 0x00, 0x59, 0xF0, 0xFD, 0x5B, 0xFA,
     0x06, 0x57, 0xD8, 0x70, 0xB4, 0x92, 0x1A, 0x2E, 0x3D, 0xAF, 0xFC, 0x83,
     0xE6, 0x77, 0x79, 0x68, 0xC2, 0x1D, 0x25, 0xB2, 0x42, 0x87, 0x10, 0x26,
     0x68, 0x15, 0xA3, 0x04, 0x3D, 0x94, 0x29, 0x43, 0x13, 0x25, 0x16, 0x24,
     0x77, 0xB8, 0x7A, 0x8E, 0x7F, 0x14, 0x4B, 0x4B, 0x54, 0x15, 0x19, 0x33,
     0x1B, 0x2C, 0xD5, 0xD3, 0xEC, 0x89, 0x78, 0xB3, 0x82, 0xC4, 0xFB, 0x76,
     0xAB, 0xE4, 0xDA, 0xC0, 0xB7, 0x16, 0xCC, 0x5F, 0x00, 0x00, 0x00, 0x00,
     0x00, 0x00, 0x00, 0x00, 0x00, 0x00, 0x00, 0x00, 0x00, 0x00, 0x00, 0x10,
     0x10, 0x10, 0x10, 0x10, 0x10, 0x10, 0x00, 0x10, 0x10, 0x00, 0x00, 0x00,
     0x00, 0x24, 0x24, 0x24, 0x00, 0x00, 0x00, 0x00, 0x00, 0x00, 0x00, 0x00,
     0x00, 0x00, 0x00, 0x28, 0x28, 0x28, 0xFE, 0x28, 0x28, 0xFE, 0x28, 0x28,
     0x28, 0x00, 0x00, 0x00, 0x10, 0x10, 0x7C, 0x92, 0x90, 0x90, 0x7C, 0x12,
     0x12, 0x92, 0x7C, 0x10, 0x10, 0x00, 0x00, 0x00, 0x64, 0x94, 0x68, 0x08,
     0x10, 0x10, 0x20, 0x2C, 0x52, 0x4C, 0x00, 0x00, 0x00, 0x18, 0x24, 0x24,
     0x18, 0x30, 0x4A, 0x44, 0x44, 0x44, 0x3A, 0x00, 0x00, 0x00, 0x00, 0x10,
     0x10, 0x10, 0x10, 0x00, 0x00, 0x00, 0x00, 0x00, 0x00, 0x00, 0x00, 0x00,
     0x00, 0x08, 0x10, 0x20, 0x20, 0x40, 0x40, 0x40, 0x40, 0x20, 0x20, 0x10]"

definition consFont3 :: "uchar list" where
  "consFont3 =
    [0x08, 0x00, 0x00, 0x20, 0x10, 0x08, 0x08, 0x04, 0x04, 0x04, 0x04, 0x08,
     0x08, 0x10, 0x20, 0x00, 0x00, 0x00, 0x00, 0x10, 0x92, 0x54, 0x38, 0x54,
     0x92, 0x10, 0x00, 0x00, 0x00, 0x00, 0x00, 0x00, 0x00, 0x10, 0x10, 0x10,
     0xFE, 0x10, 0x10, 0x10, 0x00, 0x00, 0x00, 0x00, 0x00, 0x00, 0x00, 0x00,
     0x00, 0x00, 0x00, 0x00, 0x00, 0x30, 0x30, 0x10, 0x20, 0x00, 0x00, 0x00,
     0x00, 0x00, 0x00, 0x00, 0x7E, 0x00, 0x00, 0x00, 0x00, 0x00, 0x00, 0x00,
     0x00, 0x00, 0x00, 0x00, 0x00, 0x00, 0x00, 0x00, 0x00, 0x30, 0x30, 0x00,
     0x00, 0x00, 0x02, 0x02, 0x04, 0x04, 0x08, 0x08, 0x10, 0x10, 0x20, 0x20,
     0x40, 0x40, 0x00, 0x00, 0x00, 0x00, 0x3C, 0x42, 0x46, 0x4A, 0x52, 0x62,
     0x42, 0x42, 0x3C, 0x00, 0x00, 0x00, 0x00, 0x00, 0x08, 0x18, 0x28, 0x48,
     0x08, 0x08, 0x08, 0x08, 0x08, 0x00, 0x00, 0x00, 0x00, 0x00, 0x3C, 0x42,
     0x42, 0x04, 0x08, 0x10, 0x20, 0x40, 0x7E, 0x00, 0x00, 0x00, 0x00, 0x00,
     0x3C, 0x42, 0x02, 0x02, 0x1C, 0x02, 0x02, 0x42, 0x3C, 0x00, 0x00, 0x00,
     0x00, 0x00, 0x04, 0x0C, 0x14, 0x24, 0x44, 0x7E, 0x04, 0x04, 0x04, 0x00,
     0x00, 0x00, 0x00, 0x00, 0x7E, 0x40, 0x40, 0x7C, 0x02, 0x02, 0x02, 0x42,
     0x3C, 0x00, 0x00, 0x00, 0x00, 0x00, 0x3C, 0x40, 0x40, 0x7C, 0x42, 0x42,
     0x42, 0x42, 0x3C, 0x00, 0x00, 0x00, 0x00, 0x00, 0x7E, 0x02, 0x04, 0x04,
     0x08, 0x08, 0x10, 0x10, 0x10, 0x00, 0x00, 0x00, 0x00, 0x00, 0x3C, 0x42,
     0x42, 0x42, 0x3C, 0x42, 0x42, 0x42, 0x3C, 0x00, 0x00, 0x00, 0x00, 0x00,
     0x3C, 0x42, 0x42, 0x42, 0x3E, 0x02, 0x02, 0x04, 0x38, 0x00, 0x00, 0x00,
     0x00, 0x00, 0x00, 0x00, 0x18, 0x18, 0x00, 0x00, 0x00, 0x18, 0x18, 0x00,
     0x00, 0x00, 0x00, 0x00, 0x00, 0x00, 0x30, 0x30, 0x00, 0x00, 0x00, 0x30,
     0x30, 0x10, 0x20, 0x00, 0x00, 0x00, 0x04, 0x08, 0x10, 0x20, 0x40, 0x20,
     0x10, 0x08, 0x04, 0x00, 0x00, 0x00, 0x00, 0x00, 0x00, 0x00, 0x7E, 0x00]"

definition consFont4 :: "uchar list" where
  "consFont4 =
    [0x00, 0x00, 0x7E, 0x00, 0x00, 0x00, 0x00, 0x00, 0x00, 0x00, 0x40, 0x20,
     0x10, 0x08, 0x04, 0x08, 0x10, 0x20, 0x40, 0x00, 0x00, 0x00, 0x00, 0x3C,
     0x42, 0x02, 0x02, 0x04, 0x08, 0x10, 0x00, 0x10, 0x10, 0x00, 0x00, 0x00,
     0x00, 0x7C, 0x82, 0x9E, 0xA2, 0xA2, 0xA2, 0xA6, 0x9A, 0x80, 0x7E, 0x00,
     0x00, 0x00, 0x00, 0x00, 0x3C, 0x42, 0x42, 0x42, 0x7E, 0x42, 0x42, 0x42,
     0x42, 0x00, 0x00, 0x00, 0x00, 0x00, 0x7C, 0x42, 0x42, 0x42, 0x7C, 0x42,
     0x42, 0x42, 0x7C, 0x00, 0x00, 0x00, 0x00, 0x00, 0x3C, 0x42, 0x40, 0x40,
     0x40, 0x40, 0x40, 0x42, 0x3C, 0x00, 0x00, 0x00, 0x00, 0x00, 0x78, 0x44,
     0x42, 0x42, 0x42, 0x42, 0x42, 0x44, 0x78, 0x00, 0x00, 0x00, 0x00, 0x00,
     0x7E, 0x40, 0x40, 0x40, 0x78, 0x40, 0x40, 0x40, 0x7E, 0x00, 0x00, 0x00,
     0x00, 0x00, 0x7E, 0x40, 0x40, 0x40, 0x78, 0x40, 0x40, 0x40, 0x40, 0x00,
     0x00, 0x00, 0x00, 0x00, 0x3C, 0x42, 0x40, 0x40, 0x4E, 0x42, 0x42, 0x42,
     0x3C, 0x00, 0x00, 0x00, 0x00, 0x00, 0x42, 0x42, 0x42, 0x42, 0x7E, 0x42,
     0x42, 0x42, 0x42, 0x00, 0x00, 0x00, 0x00, 0x00, 0x38, 0x10, 0x10, 0x10,
     0x10, 0x10, 0x10, 0x10, 0x38, 0x00, 0x00, 0x00, 0x00, 0x00, 0x02, 0x02,
     0x02, 0x02, 0x02, 0x02, 0x42, 0x42, 0x3C, 0x00, 0x00, 0x00, 0x00, 0x00,
     0x42, 0x44, 0x48, 0x50, 0x60, 0x50, 0x48, 0x44, 0x42, 0x00, 0x00, 0x00,
     0x00, 0x00, 0x40, 0x40, 0x40, 0x40, 0x40, 0x40, 0x40, 0x40, 0x7E, 0x00,
     0x00, 0x00, 0x00, 0x00, 0x82, 0xC6, 0xAA, 0x92, 0x92, 0x82, 0x82, 0x82,
     0x82, 0x00, 0x00, 0x00, 0x00, 0x00, 0x42, 0x62, 0x62, 0x52, 0x52, 0x4A,
     0x4A, 0x46, 0x46, 0x00, 0x00, 0x00, 0x00, 0x00, 0x3C, 0x42, 0x42, 0x42,
     0x42, 0x42, 0x42, 0x42, 0x3C, 0x00, 0x00, 0x00, 0x00, 0x00, 0x7C, 0x42,
     0x42, 0x42, 0x7C, 0x40, 0x40, 0x40, 0x40, 0x00, 0x00, 0x00, 0x00, 0x00,
     0x3C, 0x42, 0x42, 0x42, 0x42, 0x4A, 0x4A, 0x44, 0x3A, 0x02, 0x00, 0x00]"

definition consFont5 :: "uchar list" where
  "consFont5 =
    [0x00, 0x00, 0x7C, 0x42, 0x42, 0x42, 0x7C, 0x48, 0x44, 0x42, 0x42, 0x00,
     0x00, 0x00, 0x00, 0x00, 0x3C, 0x42, 0x40, 0x40, 0x3C, 0x02, 0x02, 0x42,
     0x3C, 0x00, 0x00, 0x00, 0x00, 0x00, 0xFE, 0x10, 0x10, 0x10, 0x10, 0x10,
     0x10, 0x10, 0x10, 0x00, 0x00, 0x00, 0x00, 0x00, 0x42, 0x42, 0x42, 0x42,
     0x42, 0x42, 0x42, 0x42, 0x3C, 0x00, 0x00, 0x00, 0x00, 0x00, 0x42, 0x42,
     0x42, 0x42, 0x24, 0x24, 0x24, 0x18, 0x18, 0x00, 0x00, 0x00, 0x00, 0x00,
     0x82, 0x82, 0x92, 0x92, 0x92, 0xAA, 0x44, 0x44, 0x44, 0x00, 0x00, 0x00,
     0x00, 0x00, 0x42, 0x42, 0x24, 0x24, 0x18, 0x24, 0x24, 0x42, 0x42, 0x00,
     0x00, 0x00, 0x00, 0x00, 0x82, 0x82, 0x44, 0x44, 0x28, 0x10, 0x10, 0x10,
     0x10, 0x00, 0x00, 0x00, 0x00, 0x00, 0x7E, 0x02, 0x04, 0x08, 0x10, 0x20,
     0x40, 0x40, 0x7E, 0x00, 0x00, 0x00, 0x00, 0x1C, 0x10, 0x10, 0x10, 0x10,
     0x10, 0x10, 0x10, 0x10, 0x10, 0x1C, 0x00, 0x00, 0x40, 0x40, 0x20, 0x20,
     0x10, 0x10, 0x08, 0x08, 0x04, 0x04, 0x02, 0x02, 0x00, 0x00, 0x00, 0x38,
     0x08, 0x08, 0x08, 0x08, 0x08, 0x08, 0x08, 0x08, 0x08, 0x38, 0x00, 0x00,
     0x00, 0x10, 0x28, 0x44, 0x00, 0x00, 0x00, 0x00, 0x00, 0x00, 0x00, 0x00,
     0x00, 0x00, 0x00, 0x00, 0x00, 0x00, 0x00, 0x00, 0x00, 0x00, 0x00, 0x00,
     0x00, 0xFF, 0x00, 0x00, 0x00, 0x40, 0x20, 0x10, 0x00, 0x00, 0x00, 0x00,
     0x00, 0x00, 0x00, 0x00, 0x00, 0x00, 0x00, 0x00, 0x00, 0x00, 0x3C, 0x02,
     0x3E, 0x42, 0x42, 0x46, 0x3A, 0x00, 0x00, 0x00, 0x00, 0x40, 0x40, 0x40,
     0x5C, 0x62, 0x42, 0x42, 0x42, 0x42, 0x7C, 0x00, 0x00, 0x00, 0x00, 0x00,
     0x00, 0x00, 0x3C, 0x42, 0x40, 0x40, 0x40, 0x42, 0x3C, 0x00, 0x00, 0x00,
     0x00, 0x02, 0x02, 0x02, 0x3E, 0x42, 0x42, 0x42, 0x42, 0x46, 0x3A, 0x00,
     0x00, 0x00, 0x00, 0x00, 0x00, 0x00, 0x3C, 0x42, 0x42, 0x7E, 0x40, 0x40,
     0x3E, 0x00, 0x00, 0x00, 0x00, 0x1C, 0x20, 0x20, 0x20, 0x3C, 0x20, 0x20]"

definition consFont6 :: "uchar list" where
  "consFont6 =
    [0x20, 0x20, 0x20, 0x00, 0x00, 0x00, 0x00, 0x00, 0x00, 0x00, 0x3E, 0x42,
     0x42, 0x42, 0x42, 0x46, 0x3A, 0x02, 0x02, 0x3C, 0x00, 0x40, 0x40, 0x40,
     0x5C, 0x62, 0x42, 0x42, 0x42, 0x42, 0x42, 0x00, 0x00, 0x00, 0x00, 0x10,
     0x10, 0x00, 0x70, 0x10, 0x10, 0x10, 0x10, 0x10, 0x1C, 0x00, 0x00, 0x00,
     0x00, 0x08, 0x08, 0x00, 0x18, 0x08, 0x08, 0x08, 0x08, 0x08, 0x08, 0x08,
     0x08, 0x70, 0x00, 0x40, 0x40, 0x40, 0x40, 0x44, 0x48, 0x70, 0x48, 0x44,
     0x42, 0x00, 0x00, 0x00, 0x00, 0x30, 0x10, 0x10, 0x10, 0x10, 0x10, 0x10,
     0x10, 0x10, 0x0E, 0x00, 0x00, 0x00, 0x00, 0x00, 0x00, 0x00, 0xFC, 0x92,
     0x92, 0x92, 0x92, 0x92, 0x92, 0x00, 0x00, 0x00, 0x00, 0x00, 0x00, 0x00,
     0x7C, 0x42, 0x42, 0x42, 0x42, 0x42, 0x42, 0x00, 0x00, 0x00, 0x00, 0x00,
     0x00, 0x00, 0x3C, 0x42, 0x42, 0x42, 0x42, 0x42, 0x3C, 0x00, 0x00, 0x00,
     0x00, 0x00, 0x00, 0x00, 0x5C, 0x62, 0x42, 0x42, 0x42, 0x42, 0x7C, 0x40,
     0x40, 0x40, 0x00, 0x00, 0x00, 0x00, 0x3E, 0x42, 0x42, 0x42, 0x42, 0x46,
     0x3A, 0x02, 0x02, 0x02, 0x00, 0x00, 0x00, 0x00, 0x5C, 0x62, 0x40, 0x40,
     0x40, 0x40, 0x40, 0x00, 0x00, 0x00, 0x00, 0x00, 0x00, 0x00, 0x3C, 0x40,
     0x40, 0x3C, 0x02, 0x02, 0x7C, 0x00, 0x00, 0x00, 0x00, 0x10, 0x10, 0x10,
     0x3C, 0x10, 0x10, 0x10, 0x10, 0x10, 0x0C, 0x00, 0x00, 0x00, 0x00, 0x00,
     0x00, 0x00, 0x42, 0x42, 0x42, 0x42, 0x42, 0x46, 0x3A, 0x00, 0x00, 0x00,
     0x00, 0x00, 0x00, 0x00, 0x42, 0x42, 0x42, 0x24, 0x24, 0x18, 0x18, 0x00,
     0x00, 0x00, 0x00, 0x00, 0x00, 0x00, 0x82, 0x82, 0x92, 0x92, 0xAA, 0x44,
     0x44, 0x00, 0x00, 0x00, 0x00, 0x00, 0x00, 0x00, 0x42, 0x42, 0x24, 0x18,
     0x24, 0x42, 0x42, 0x00, 0x00, 0x00, 0x00, 0x00, 0x00, 0x00, 0x42, 0x42,
     0x42, 0x42, 0x42, 0x46, 0x3A, 0x02, 0x02, 0x3C, 0x00, 0x00, 0x00, 0x00,
     0x7E, 0x04, 0x08, 0x10, 0x20, 0x40, 0x7E, 0x00, 0x00, 0x00, 0x00, 0x0E]"

definition consFont7 :: "uchar list" where
  "consFont7 =
    [0x10, 0x10, 0x10, 0x10, 0x10, 0xE0, 0x10, 0x10, 0x10, 0x10, 0x0E, 0x00,
     0x00, 0x10, 0x10, 0x10, 0x10, 0x10, 0x10, 0x10, 0x10, 0x10, 0x10, 0x10,
     0x10, 0x00, 0x00, 0x70, 0x08, 0x08, 0x08, 0x08, 0x08, 0x07, 0x08, 0x08,
     0x08, 0x08, 0x70, 0x00, 0x00, 0x00, 0x00, 0x00, 0x00, 0x62, 0x92, 0x8C,
     0x00, 0x00, 0x00, 0x00, 0x00, 0x00, 0x75, 0x5D, 0xC6, 0x98, 0x0E, 0x1F,
     0x8F, 0xA7, 0x10, 0x85, 0xD7, 0x28, 0x00, 0xE6, 0x37, 0x2F, 0xF7, 0xD1,
     0xB5, 0x96, 0xAE, 0xC6, 0x3B, 0x37, 0x5F, 0xD2, 0x29, 0x9C, 0x1F, 0x6F,
     0x00, 0x84, 0x76, 0xB0, 0x08, 0x67, 0x80, 0x47, 0xFF, 0x5D, 0x5E, 0xF3,
     0x14, 0x9D, 0xCB, 0x5B, 0xF8, 0x2E, 0x6E, 0xC9, 0x1E, 0x88, 0x3E, 0x9D,
     0xC6, 0x2E, 0x7D, 0xEF, 0x50, 0x5C, 0x19, 0x5F, 0xE3, 0xE5, 0xFC, 0x1B,
     0x26, 0xEF, 0xC8, 0xE0, 0x43, 0x20, 0x89, 0x58, 0x62, 0x5E, 0x79, 0xBA,
     0xEE, 0x7E, 0x79, 0xF4, 0x4C, 0x72, 0xD2, 0x61, 0xBA, 0x59, 0xA9, 0xDC,
     0xAA, 0xCE, 0xED, 0x52, 0x7A, 0x91, 0x6C, 0xF2, 0x16, 0x6C, 0x4F, 0xB3,
     0x5A, 0x88, 0x1D, 0xBC, 0xED, 0x23, 0xF1, 0x06, 0x66, 0x33, 0x1A, 0x09,
     0x68, 0x71, 0xAE, 0x42, 0xCF, 0x19, 0xA5, 0x82, 0x7F, 0x27, 0xA2, 0x1B,
     0x36, 0xE2, 0xFC, 0x04, 0xDC, 0x1E, 0x22, 0x91, 0x21, 0xDD, 0x8B, 0x71,
     0x51, 0x6E, 0xF7, 0xCE, 0xB8, 0xD8, 0xEE, 0x1D, 0x77, 0x64, 0x61, 0x40,
     0x22, 0x9F, 0x9E, 0x7D, 0x84, 0xC8, 0x47, 0x6C, 0x1B, 0x3B, 0xE6, 0x94,
     0xD0, 0xC8, 0xB5, 0x57, 0xEF, 0x34, 0xB9, 0xD5, 0x57, 0x53, 0x56, 0x87,
     0x8D, 0x04, 0x74, 0x7F, 0x40, 0x82, 0x3E, 0x9C, 0x4B, 0xEA, 0x91, 0x4B,
     0x7C, 0x24, 0xA4, 0x21, 0xD3, 0x83, 0x67, 0x28, 0xB7, 0x7B, 0xB8, 0xDA,
     0xD6, 0x79, 0xE9, 0x15, 0x2A, 0xAD, 0xC4, 0xE9, 0x6D, 0xDB, 0x59, 0xAB,
     0x37, 0x7C, 0x33, 0x69, 0x62, 0xDE, 0x63, 0xC4, 0x91, 0x60, 0xE7, 0xD9,
     0x48, 0xDC, 0xF8, 0xC3, 0x29, 0x2E, 0x84, 0x4F, 0xFB, 0xB7, 0x94, 0x6B]"

definition consFont8 :: "uchar list" where
  "consFont8 =
    [0x6A, 0x34, 0xF4, 0xE1, 0x01, 0x14, 0x4B, 0xDE, 0xF9, 0xA4, 0x6B, 0xDE,
     0x50, 0xFE, 0x13, 0x46, 0xD4, 0x08, 0xC3, 0x62, 0x3B, 0x0C, 0x54, 0xF9,
     0xBF, 0x98, 0x9F, 0x9C, 0x92, 0x55, 0x9D, 0x65, 0xBC, 0x05, 0x63, 0x9D,
     0x99, 0xF0, 0xC9, 0xD2, 0xD2, 0x9D, 0x4F, 0xD1, 0x0B, 0x31, 0x95, 0x2D,
     0x70, 0x80, 0x82, 0x77, 0x50, 0x2A, 0xC0, 0x6C, 0x92, 0xD8, 0xCA, 0x1F,
     0xED, 0x94, 0x71, 0xA9, 0x39, 0x0A, 0x54, 0x18, 0x69, 0xAD, 0x88, 0x11,
     0xD1, 0x1B, 0x4F, 0xE5, 0x25, 0x2A, 0xD7, 0x05, 0xFE, 0x8F, 0x96, 0x4E,
     0x21, 0xF3, 0x19, 0x20, 0x89, 0x63, 0x37, 0x64, 0x32, 0xF5, 0x8A, 0xB5,
     0x55, 0xD3, 0x8A, 0xC6, 0x09, 0xF0, 0xC7, 0x74, 0xEC, 0x20, 0x0F, 0xE5,
     0x42, 0xE5, 0x60, 0x04, 0x94, 0x9A, 0x10, 0x75, 0xC8, 0x6E, 0x25, 0x34,
     0xEA, 0xBC, 0x40, 0x4A, 0x27, 0xF6, 0xD8, 0x2E, 0xAD, 0x52, 0x2A, 0xCB,
     0xAD, 0xAE, 0x3F, 0x3A, 0xAE, 0x4F, 0x5D, 0xD8, 0xDD, 0xC1, 0x1E, 0x39,
     0xFA, 0x0A, 0x99, 0x85, 0x67, 0x32, 0xAC, 0x84, 0xC8, 0x77, 0x41, 0x1E,
     0xA2, 0x9D, 0x88, 0x1E, 0x40, 0x07, 0x60, 0x40, 0x9B, 0x05, 0x06, 0x45,
     0xF1, 0xBE, 0x83, 0x42, 0xF9, 0xAA, 0xD5, 0x0C, 0x89, 0x54, 0x5A, 0x1D,
     0x2D, 0xF7, 0xD4, 0x9C, 0xAC, 0x03, 0xFF, 0x22, 0x0A, 0x6E, 0xBF, 0xC5,
     0x9E, 0x09, 0x2F, 0x11, 0x63, 0x95, 0xFF, 0xF5, 0x27, 0xD6, 0x69, 0x0F,
     0x26, 0xE7, 0xB2, 0x72, 0x41, 0x31, 0x57, 0xBC, 0x59, 0xD9, 0x43, 0x9E,
     0x1D, 0xBA, 0x2C, 0x08, 0x84, 0x2A, 0xA8, 0x5A, 0x79, 0x87, 0xF8, 0xE3,
     0x4A, 0xD1, 0x52, 0x26, 0xAF, 0xBA, 0x12, 0xBF, 0x64, 0xFA, 0x84, 0x67,
     0x80, 0x7A, 0xC6, 0xDC, 0xBA, 0xCF, 0x85, 0x77, 0x63, 0xC3, 0x75, 0xDB,
     0x32, 0xF0, 0x74, 0x5C, 0x2D, 0x25, 0x3C, 0x91, 0x7E, 0xC3, 0x5E, 0xCF,
     0xBC, 0xB9, 0xE9, 0x30, 0x64, 0x1A, 0x1E, 0x2A, 0xEF, 0x31, 0xD3, 0xEB,
     0x2B, 0xE6, 0x35, 0x05, 0x2A, 0x32, 0xAF, 0xE1, 0x15, 0x32, 0xBB, 0xD6]"

definition consFont9 :: "uchar list" where
  "consFont9 =
    [0xAB, 0xCC, 0x09, 0xBC, 0x7B, 0xD3, 0xC0, 0xC1, 0x3E, 0x47, 0x62, 0xAC,
     0xAA, 0xC8, 0x53, 0xB9, 0x16, 0x2F, 0x60, 0x8D, 0x8D, 0xAC, 0x72, 0x93,
     0x5D, 0xF8, 0x96, 0xDE, 0x06, 0x09, 0xBF, 0x34, 0x5B, 0x5A, 0xA6, 0xDF,
     0x37, 0xFC, 0xCC, 0x09, 0x61, 0xFF, 0x78, 0x96, 0x04, 0xFD, 0x26, 0x0C,
     0x25, 0xFE, 0x35, 0xB5, 0xBA, 0x58, 0x13, 0x3C, 0xE2, 0x1C, 0x9B, 0x5E,
     0x53, 0x5D, 0x1B, 0x09, 0x64, 0xC4, 0xED, 0x89, 0x87, 0x06, 0x1D, 0x6E,
     0x19, 0x31, 0x76, 0x56, 0xE2, 0x6D, 0x92, 0x93, 0x5F, 0x5C, 0x27, 0x06,
     0xFE, 0x2A, 0x1E, 0xAB, 0x96, 0xBA, 0x51, 0x5A, 0x73, 0x66, 0x4E, 0x60,
     0xE5, 0x18, 0xDB, 0x12, 0x3F, 0x2F, 0x9E, 0x95, 0x36, 0x75, 0x9B, 0xEE,
     0x0F, 0x68, 0x7F, 0x76, 0xBB, 0xE4, 0xB4, 0x11, 0x83, 0x83, 0x0E, 0xC0,
     0x1A, 0x4A, 0xE9, 0xDD, 0x5F, 0x06, 0xB3, 0x0C, 0x95, 0xF1, 0xDA, 0x72,
     0x91, 0xCE, 0x9E, 0x48, 0x88, 0xC7, 0x14, 0xC6, 0x3F, 0xD1, 0x57, 0x14,
     0x2E, 0x63, 0x96, 0xDC, 0x40, 0x39, 0x50, 0x93, 0xF0, 0xB7, 0x42, 0x15,
     0xFA, 0x84, 0x59, 0x76, 0x5A, 0xCC, 0x38, 0xA0, 0x29, 0x78, 0x63, 0x55,
     0x8F, 0xB3, 0xC3, 0x20, 0x02, 0xB0, 0xC3, 0x43, 0x23, 0x54, 0xC5, 0x3A,
     0xE5, 0xA2, 0x92, 0x58, 0x5D, 0xB5, 0x13, 0x55, 0x26, 0x11, 0x44, 0x6F,
     0x44, 0xCB, 0x5D, 0x05, 0x89, 0x13, 0xCB, 0x96, 0x3B, 0xFF, 0x68, 0xC7,
     0x8C, 0xDB, 0x0F, 0xD2, 0xA0, 0x0A, 0x74, 0x76, 0x3E, 0xD7, 0x51, 0xA7,
     0xA1, 0xEA, 0xA5, 0x84, 0xED, 0xB6, 0x8C, 0x83, 0x79, 0x60, 0x2B, 0x7C,
     0x19, 0x67, 0x6C, 0x98, 0x33, 0x69, 0x91, 0x6A, 0xE3, 0x38, 0xAB, 0xCE,
     0x96, 0xF8, 0x80, 0xD2, 0x9C, 0xB0, 0x28, 0xA2, 0xF8, 0x58, 0xA6, 0x88,
     0x46, 0x0C, 0xEC, 0x4E, 0x8C, 0x60, 0x1A, 0x6C, 0x80, 0xAA, 0xB6, 0x60,
     0x2F, 0xE4, 0xE9, 0x27, 0xE0, 0x1B, 0x5C, 0x01, 0xE2, 0xB0, 0xD8, 0x4F,
     0xB4, 0xFF, 0x6F, 0x7A, 0xE5, 0x95, 0x8D, 0x15, 0xFC, 0x5C, 0x2B, 0x4A]"

definition consFont10 :: "uchar list" where
  "consFont10 =
    [0xC5, 0xFD, 0x88, 0x69, 0xAF, 0x82, 0xA2, 0xD8, 0xDB, 0xE4, 0x58, 0xC9,
     0x96, 0x38, 0x87, 0x3B, 0x79, 0x00, 0x52, 0x4F, 0x7F, 0x79, 0x94, 0xDF,
     0x51, 0x4A, 0x14, 0x77, 0x30, 0x8A, 0xF0, 0xAA, 0xD0, 0x31, 0xBF, 0xED,
     0x33, 0xFC, 0x62, 0x52, 0xCB, 0x37, 0x78, 0x38, 0x90, 0xB6, 0x2A, 0xD7,
     0x3F, 0xBD, 0x7C, 0x84, 0x93, 0xE3, 0xBD, 0xC2, 0xEF, 0x79, 0x4F, 0xC8,
     0xF5, 0x63, 0x7B, 0xAF, 0x61, 0x08, 0x29, 0x9B, 0x39, 0x09, 0x93, 0xB9,
     0xF8, 0xD9, 0xE1, 0x96, 0x71, 0xCE, 0xF2, 0xFE, 0x0C, 0xB5, 0xE1, 0xAA,
     0x7E, 0xEE, 0x32, 0x07, 0x75, 0x11, 0xC8, 0x16, 0x8F, 0xBE, 0xC1, 0xFE,
     0x3A, 0x59, 0x46, 0x9F, 0xD9, 0xE4, 0x78, 0xD9, 0x48, 0x5F, 0xC6, 0x93,
     0x6A, 0x93, 0x01, 0x34, 0x64, 0x4F, 0x41, 0x9F, 0x99, 0x59, 0x0B, 0x89,
     0x19, 0x4A, 0x3F, 0xFE, 0xCB, 0xFC, 0x6C, 0x78, 0x2A, 0x65, 0xC7, 0x8E,
     0x19, 0xFD, 0xBD, 0x49, 0xAF, 0x68, 0x6E, 0x6B, 0x14, 0x46, 0xCC, 0x9C,
     0x50, 0x48, 0x3E, 0x41, 0xDD, 0xBB, 0x9B, 0x11, 0xE8, 0x41, 0x78, 0x37,
     0xF1, 0x59, 0x44, 0x15, 0x70, 0xE4, 0x6D, 0x69, 0x2F, 0xD6, 0x35, 0x80,
     0x4B, 0x8D, 0xF8, 0x1A, 0x23, 0xC9, 0xA6, 0x87, 0xEE, 0x2C, 0x01, 0xA0,
     0x30, 0x97, 0x2D, 0x9A, 0x58, 0x6D, 0x9D, 0x8C, 0xDC, 0x9E, 0x7A, 0x3B,
     0x0E, 0xF5, 0x14, 0x21, 0x7B, 0x60, 0x25, 0x7C, 0x1E, 0x6B, 0xFE, 0x43,
     0x7A, 0xAB, 0x70, 0xB9, 0x2E, 0xE1, 0x4E, 0x06, 0xB4, 0x1A, 0x7D, 0x86,
     0xBB, 0x4F, 0xBB, 0xC6, 0xA5, 0xA5, 0x59, 0x1F, 0x8E, 0x79, 0x74, 0x38,
     0xC6, 0x45, 0x95, 0x93, 0xCA, 0x24, 0x87, 0x3D, 0x13, 0x48, 0xEA, 0xF7,
     0x30, 0xF3, 0x95, 0x48, 0x8D, 0x21, 0x78, 0x2D, 0xEB, 0xEF, 0xCA, 0x0D,
     0x74, 0x3D, 0xDA, 0x99, 0xA7, 0x59, 0x1B, 0xED, 0x39, 0xBD, 0x20, 0xE8,
     0xDD, 0xF8, 0xD0, 0xE1, 0x52, 0x8D, 0x2C, 0x56, 0xE4, 0xF3, 0x72, 0xEB,
     0xAB, 0xE8, 0xC1, 0x4D, 0xD8, 0xAA, 0xD8, 0x33, 0xE6, 0xE1, 0xA2, 0x09]"

definition consFont11 :: "uchar list" where
  "consFont11 =
    [0x61, 0x32, 0x15, 0x7C, 0x90, 0x46, 0xCA, 0xF7, 0x2D, 0x61, 0x69, 0x78,
     0x27, 0xC7, 0xC4, 0xC5, 0x3E, 0x8D, 0x23, 0xA0, 0x0A, 0x01, 0x7F, 0xDB,
     0x4E, 0xBA, 0xBB, 0x74, 0x96, 0xCB, 0xDF, 0xB1, 0x14, 0xEF, 0xD4, 0xE8,
     0x10, 0xEA, 0x64, 0xCA, 0xBD, 0x31, 0x27, 0x6B, 0x94, 0x16, 0xF7, 0x5E,
     0xAE, 0xC6, 0x76, 0x87, 0xF5, 0xF9, 0xE6, 0xB8, 0x97, 0x17, 0xDF, 0x29,
     0x3E, 0xDF, 0x8D, 0x15, 0xE1, 0xC3, 0xC1, 0xE1, 0xAF, 0x72, 0xE6, 0x4C,
     0xAF, 0x46, 0x6D, 0x17, 0x14, 0xF1, 0xA9, 0xF5, 0x34, 0xDA, 0xA8, 0xCA,
     0xC4, 0x3A, 0x14, 0xC5, 0x67, 0x11, 0xAC, 0xE1, 0xFC, 0xF1, 0xA0, 0xDB,
     0x12, 0x16, 0x08, 0x33, 0x09, 0x10, 0x5A, 0x3E, 0xCA, 0x42, 0x49, 0x55,
     0x55, 0x4C, 0x6A, 0x69, 0xAD, 0x4E, 0xBD, 0x05, 0x92, 0xAB, 0xA2, 0xD6,
     0x8E, 0x44, 0xF8, 0x7E, 0x2C, 0xE0, 0x95, 0xAC, 0xE6, 0xD4, 0x1A, 0x4A,
     0x7F, 0x0D, 0xC8, 0x4B, 0x00, 0xC2, 0xE4, 0x39, 0xD4, 0xCE, 0x24, 0x34,
     0xC3, 0xA3, 0xC6, 0x03, 0x7B, 0x7D, 0x88, 0x09, 0xFF, 0x45, 0x15, 0xAF,
     0x62, 0x0D, 0xE1, 0x98, 0x52, 0xAA, 0x63, 0x40, 0x27, 0xE8, 0xA8, 0xC0,
     0x8F, 0xB2, 0xC8, 0x7A, 0xDA, 0xA5, 0xF5, 0xC2, 0x12, 0x38, 0xA7, 0x4A,
     0xC9, 0xBD, 0xC0, 0xFD, 0xA1, 0xA5, 0xF5, 0x68, 0x07, 0xAD, 0xD0, 0x77,
     0x25, 0xA7, 0xB1, 0x0A, 0xE6, 0x6B, 0x54, 0x62, 0x24, 0x15, 0x80, 0x11,
     0x50, 0x73, 0xAA, 0xFE, 0xF6, 0xCD, 0xC9, 0xF5, 0xAC, 0x19, 0x2A, 0x6B,
     0x6C, 0xB1, 0xDB, 0xC7, 0x07, 0x6D, 0x3B, 0xCE, 0x1B, 0xC9, 0xD7, 0x25,
     0x56, 0x46, 0x06, 0xE9, 0x92, 0xE7, 0x03, 0x85, 0xF3, 0xD1, 0x5B, 0xAE,
     0x87, 0x39, 0x42, 0x65, 0xE5, 0x60, 0x3F, 0x9D, 0x56, 0x88, 0x2B, 0xEA,
     0x27, 0xF7, 0xB2, 0xB4, 0x66, 0xF4, 0xFF, 0x61, 0xDF, 0x92, 0xD8, 0x96,
     0x95, 0x7C, 0x7D, 0x6A, 0x61, 0xED, 0xB4, 0x03, 0x3F, 0xC3, 0xF9, 0x3C,
     0xF1, 0x38, 0x02, 0x48, 0x86, 0xEF, 0xC5, 0x36, 0x73, 0xCC, 0x80, 0x3A]"

definition consFont12 :: "uchar list" where
  "consFont12 =
    [0x19, 0xCE, 0x34, 0x37, 0x95, 0xDB, 0x48, 0x70, 0x1C, 0xEF, 0xE8, 0x92,
     0x8B, 0xC4, 0x61, 0xF3, 0xD6, 0xA2, 0x34, 0x32, 0x33, 0x90, 0xB5, 0x49,
     0x62, 0x72, 0x7F, 0x8E, 0x49, 0xF4, 0x17, 0xCE, 0x04, 0x0A, 0xA0, 0x32,
     0x4B, 0x1C, 0xC2, 0x9E, 0xA9, 0x19, 0xFD, 0x69, 0xFC, 0x6D, 0x17, 0xD0,
     0xBE, 0x2C, 0x23, 0x31, 0x9A, 0x4A, 0xD9, 0xBF, 0xD7, 0x51, 0x2D, 0xFD,
     0x7F, 0x0E, 0x65, 0x29, 0x7D, 0x96, 0x01, 0xE7, 0x67, 0x38, 0xB1, 0x65,
     0x34, 0x8B, 0xF8, 0x0C, 0x80, 0x06, 0xCD, 0x9F, 0xD7, 0x2C, 0xE2, 0x4B,
     0x42, 0xA1, 0xEA, 0x09, 0x7F, 0xB1, 0xBE, 0x4F, 0x30, 0x35, 0x88, 0x31,
     0x9B, 0x33, 0xCF, 0x01, 0xF8, 0x64, 0x8F, 0x42, 0x2A, 0x1A, 0xB1, 0x8A,
     0xAC, 0xB4, 0x96, 0xB3, 0xCB, 0xDA, 0x63, 0xF8, 0x91, 0xC0, 0x6E, 0x23,
     0x0B, 0x9A, 0xF6, 0x20, 0x97, 0x3C, 0x6A, 0x6C, 0x54, 0xFD, 0x9B, 0xDB,
     0x7D, 0x15, 0x81, 0xAF, 0xE4, 0x70, 0x8B, 0xD6, 0xB8, 0x3D, 0x9B, 0x09,
     0x96, 0x0B, 0xE0, 0x2E, 0x5A, 0x1B, 0xB9, 0xE6, 0x7B, 0x3A, 0x2F, 0xD1,
     0x92, 0xC9, 0xC3, 0x63, 0x0E, 0x4F, 0x22, 0x2D, 0xF5, 0xDF, 0xF5, 0xFB,
     0x3F, 0x23, 0xB9, 0xED, 0x46, 0xBE, 0xC1, 0xE2, 0xBE, 0xF8, 0x2F, 0xC4,
     0x70, 0xFB, 0xFF, 0xA8, 0xA5, 0xF7, 0xBD, 0xFD, 0x40, 0xC2, 0xFD, 0x92,
     0x1F, 0xA0, 0x91, 0x47, 0xA5, 0xD1, 0xC4, 0xCF, 0xB7, 0xD9, 0x54, 0xA9,
     0x75, 0xF8, 0x71, 0x1F, 0xBA, 0x3E, 0x9B, 0xA9, 0x3F, 0xC8, 0x2E, 0xBC,
     0x89, 0xC0, 0x62, 0xD1, 0x37, 0x97, 0x82, 0x55, 0xB6, 0xB8, 0x84, 0x66,
     0x1C, 0xC8, 0x59, 0xCE, 0x8C, 0xF4, 0xCA, 0xCC, 0xDF, 0xB3, 0x05, 0xE0,
     0xFC, 0x7B, 0xA5, 0x68, 0xE2, 0x84, 0x01, 0x53, 0xEE, 0x34, 0x4F, 0xDE,
     0xDE, 0xE8, 0xE7, 0x58, 0xB1, 0xDC, 0x39, 0x8A, 0xF6, 0x3C, 0x60, 0xD8,
     0x7F, 0x47, 0x20, 0xB5, 0xEB, 0xC0, 0x5A, 0xE5, 0x34, 0x1E, 0x43, 0x83,
     0x2D, 0x0C, 0xE7, 0x43, 0xD2, 0x09, 0x49, 0xD7, 0x5F, 0xFA, 0x85, 0x02]"

definition consFont13 :: "uchar list" where
  "consFont13 =
    [0xE1, 0x5E, 0x71, 0x6D, 0xDD, 0x04, 0x79, 0x6E, 0x90, 0x52, 0x8C, 0x47,
     0x00, 0x0E, 0x09, 0x28, 0x3A, 0xD5, 0x13, 0x1B, 0x41, 0x81, 0x22, 0x25,
     0x24, 0x3A, 0x58, 0xC7, 0xBA, 0x91, 0xEF, 0x67, 0x40, 0x11, 0x92, 0x03,
     0x41, 0x96, 0x69, 0xB3, 0x52, 0x8D, 0xDF, 0x87, 0x15, 0x5D, 0xBE, 0x41,
     0x23, 0x2F, 0xF9, 0x69, 0x12, 0x79, 0xB3, 0x60, 0x49, 0x89, 0x8B, 0x2A,
     0x6C, 0x9B, 0xD4, 0x3C, 0x89, 0x2F, 0x71, 0x0B, 0x51, 0x3F, 0x5E, 0x97,
     0x47, 0x31, 0x46, 0x61, 0x1D, 0x0A, 0x41, 0x0A, 0x0C, 0xE1, 0xC5, 0x88,
     0x72, 0x63, 0x88, 0x8B, 0xF0, 0xC0, 0x5A, 0x8C, 0x44, 0x36, 0xC1, 0x44,
     0xC7, 0x1F, 0x5C, 0x32, 0xB7, 0xD5, 0xA9, 0x98, 0xCD, 0x18, 0xE4, 0x29,
     0xCC, 0x6B, 0x94, 0xFE, 0x03, 0x32, 0x37, 0x14, 0x10, 0xA1, 0x70, 0xB5,
     0xB6, 0x3C, 0x13, 0x00, 0xC2, 0x91, 0x4A, 0xC8, 0x4E, 0xAD, 0xD2, 0x4B,
     0x83, 0x5C, 0x8A, 0xAE, 0x10, 0x1A, 0xB9, 0x44, 0x46, 0x52, 0xC7, 0xDD,
     0xAC, 0x17, 0x0E, 0x13, 0x01, 0xE2, 0x51, 0x0C, 0x13, 0x48, 0xE0, 0x22,
     0x9E, 0x23, 0x19, 0x88, 0x9B, 0x25, 0x74, 0x0F, 0xDE, 0x2C, 0x76, 0xD0,
     0x95, 0x78, 0x67, 0x86, 0x1A, 0x1D, 0xDF, 0x12, 0x0D, 0x71, 0x7B, 0xB6,
     0x37, 0x2D, 0x2B, 0x6A, 0x10, 0xB9, 0xE4, 0xF2, 0xEC, 0xBC, 0x5D, 0xB2,
     0xAE, 0xD8, 0xA6, 0xF6, 0xFB, 0x0D, 0x6A, 0xA0, 0xC8, 0xD3, 0x45, 0xC2,
     0x24, 0xE9, 0x74, 0x5A, 0x04, 0xF9, 0x95, 0x66, 0x81, 0x2D, 0x53, 0x3A,
     0x59, 0x57, 0xED, 0x33, 0x59, 0xF2, 0x26, 0x58, 0x43, 0x88, 0x6E, 0xA1,
     0xBB, 0xCA, 0xBE, 0xB3, 0x1A, 0x26, 0x4C, 0x09, 0xCE, 0x52, 0x62, 0x27,
     0xEC, 0x53, 0x38, 0xA5, 0x82, 0x2F, 0x80, 0x43, 0x07, 0x8F, 0x32, 0xAE,
     0x07, 0x61, 0x21, 0xE6, 0x82, 0x46, 0xFD, 0x4D, 0x94, 0xC0, 0x00, 0xFE,
     0x2F, 0x4C, 0x52, 0x19, 0x26, 0x5A, 0x33, 0x4B, 0xF5, 0xC8, 0xE0, 0x3D,
     0x27, 0x5F, 0x16, 0xDA, 0xCC, 0xED, 0xB6, 0xED, 0x84, 0x4A, 0x37, 0x1A]"

definition consFont14 :: "uchar list" where
  "consFont14 =
    [0x94, 0x2D, 0x74, 0xE0, 0x3C, 0xE4, 0x55, 0xE2, 0x94, 0x8E, 0x24, 0x82,
     0x56, 0xDB, 0x98, 0x5F, 0x9C, 0x2C, 0xF9, 0x44, 0x17, 0xB7, 0x38, 0xE7,
     0xD9, 0xDD, 0xAE, 0xE6, 0x61, 0x06, 0x95, 0x00, 0xB1, 0x8B, 0x5E, 0x01,
     0x80, 0xC1, 0xD8, 0x5C, 0x87, 0xBF, 0xEB, 0xF5, 0xFB, 0x20, 0x9C, 0x6C,
     0xE2, 0x6D, 0x1E, 0x6D, 0xA8, 0x32, 0x1B, 0x58, 0x22, 0x3A, 0x8F, 0x16,
     0xE8, 0xD7, 0x99, 0x6A, 0x0A, 0xF9, 0x5B, 0xC6, 0xEB, 0xF3, 0x87, 0xCD,
     0x47, 0x57, 0x6F, 0x49, 0xD1, 0x09, 0xEC, 0x59, 0x9A, 0x4A, 0xD3, 0x2C,
     0xC3, 0xA9, 0x28, 0x70, 0x61, 0x24, 0x1E, 0x8A, 0x63, 0x8D, 0x23, 0x6A,
     0x2F, 0xD2, 0x86, 0x70, 0x99, 0x9A, 0x32, 0xF1, 0x78, 0x20, 0xA7, 0xB1,
     0x47, 0x55, 0xCB, 0x94, 0x7A, 0xB1, 0x33, 0x2D, 0x56, 0xF6, 0x55, 0x73,
     0x6F, 0x9C, 0x23, 0x5F, 0x93, 0x89, 0xC9, 0x52, 0x5D, 0x98, 0x06, 0xB3,
     0xD7, 0x3F, 0xE8, 0x69, 0x07, 0xEA, 0x22, 0x9E, 0x64, 0x7B, 0x2D, 0x7D,
     0x49, 0x49, 0x0D, 0x99, 0xB5, 0xCC, 0x52, 0x3D, 0x69, 0x6A, 0x2C, 0x31,
     0xB2, 0x94, 0x70, 0xAE, 0x34, 0xC3, 0x60, 0x1D, 0xF1, 0xBD, 0x75, 0x73,
     0x2F, 0xC2, 0xC9, 0xD9, 0x96, 0xA0, 0x74, 0x18, 0xC0, 0xA7, 0x03, 0xA8,
     0x7F, 0xC4, 0xEC, 0x2C, 0x1A, 0xD2, 0xE3, 0xF6, 0x9D, 0x11, 0xD2, 0xC2,
     0x61, 0x76, 0xF8, 0xFE, 0xC6, 0x9D, 0x5D, 0x34, 0xF4, 0x3C, 0x6A, 0x4A,
     0xD1, 0x27, 0x4D, 0x7A, 0x9D, 0xA2, 0x0D, 0x11, 0x7E, 0x27, 0x43, 0xFC,
     0x3E, 0x88, 0x7E, 0xD2, 0x96, 0x0D, 0x5C, 0x0B, 0xB4, 0x9F, 0x44, 0x6D,
     0x99, 0x67, 0xDE, 0x36, 0xBF, 0x3D, 0xA6, 0xEE, 0x94, 0x5B, 0x3D, 0x76,
     0x55, 0x60, 0xFF, 0xBD, 0x07, 0xF1, 0x3A, 0xF3, 0x09, 0x77, 0xBF, 0x56,
     0x29, 0x9C, 0xFB, 0x3F, 0x1C, 0x01, 0x39, 0xD7, 0x9A, 0x78, 0x75, 0x71,
     0x7C, 0xD5, 0xAC, 0x86, 0x49, 0xAB, 0x4D, 0x13, 0x05, 0x7B, 0x7E, 0x52,
     0x4F, 0x8C, 0xB3, 0xFB, 0x7D, 0xC9, 0x08, 0xB3, 0xA3, 0x1D, 0x4C, 0x4F]"

definition consFont15 :: "uchar list" where
  "consFont15 =
    [0x1B, 0xA3, 0x6D, 0x9F, 0xB3, 0xC2, 0x6D, 0x8B, 0xC6, 0x9C, 0x48, 0x69,
     0x7F, 0x08, 0x57, 0x38, 0x00, 0xDB, 0xED, 0x10, 0x48, 0xC3, 0x0B, 0x15,
     0x13, 0xBB, 0x11, 0x5C, 0xB1, 0xCE, 0xAB, 0xE4, 0x1D, 0x2C, 0x6B, 0x59,
     0x08, 0x12, 0xEF, 0xA6, 0xA1, 0x1B, 0xCC, 0x19, 0x86, 0xD4, 0x7F, 0x22,
     0x94, 0xB6, 0xC6, 0x79, 0x72, 0x72, 0x62, 0xB4, 0x27, 0xBE, 0x9C, 0x9B,
     0x97, 0x39, 0xB1, 0xEA, 0x44, 0xA7, 0xBA, 0x07, 0xC0, 0x49, 0x16, 0x5D,
     0x47, 0xBF, 0x4C, 0xF8, 0xE0, 0xF4, 0x50, 0x19, 0x79, 0x34, 0xF6, 0x53,
     0x2F, 0x68, 0x1E, 0x6E, 0xB7, 0x58, 0xD8, 0x98, 0x85, 0x00, 0x8F, 0x8E,
     0x19, 0x2E, 0x25, 0xEF, 0x7F, 0x0B, 0x8E, 0x5A, 0x76, 0xD3, 0xAD, 0xBC,
     0x1C, 0x6E, 0xF7, 0xE0, 0x69, 0x43, 0xA4, 0x6F, 0x0D, 0x09, 0x3B, 0x9C,
     0xF0, 0x59, 0xC1, 0x49, 0x85, 0x7D, 0xD1, 0x47, 0xB3, 0x00, 0xA5, 0x86,
     0x28, 0x70, 0x30, 0x11, 0xD5, 0x07, 0x0D, 0x07, 0x7F, 0x2A, 0x2E, 0x70,
     0x70, 0x13, 0xF0, 0xCF, 0x96, 0x24, 0xE0, 0x51, 0x05, 0xCE, 0x28, 0xDF,
     0x92, 0xBD, 0x05, 0x59, 0xC2, 0x80, 0x93, 0xE3, 0x56, 0x24, 0x29, 0x17,
     0xE1, 0xF4, 0xFA, 0xBD, 0x13, 0x4C, 0x43, 0x6A, 0x59, 0xB2, 0x27, 0x90,
     0x18, 0x89, 0xB0, 0x33, 0xD3, 0x44, 0xC4, 0x1E, 0x39, 0x50, 0xCB, 0x60,
     0x0E, 0x9C, 0x80, 0x4A, 0x0E, 0x86, 0x24, 0xA2, 0xEA, 0x3D, 0x03, 0x7F,
     0x94, 0x9E, 0xC7, 0xD1, 0xD8, 0x5F, 0xEB, 0x2F, 0xE7, 0xCD, 0x6F, 0xBC,
     0xD5, 0xD7, 0xDD, 0x20, 0x69, 0x7B, 0xC1, 0x53, 0xE1, 0x1F, 0x4D, 0x41,
     0x3A, 0x40, 0xF7, 0xA2, 0x9C, 0xA6, 0x20, 0xDF, 0xB5, 0x9C, 0x64, 0x85,
     0xD7, 0xFD, 0xD1, 0x99, 0xA3, 0xD0, 0x5C, 0x50, 0xE1, 0x7B, 0x0C, 0x17,
     0xD9, 0x3A, 0xE0, 0x94, 0xD8, 0x68, 0xF0, 0xC2, 0x55, 0xD7, 0x5B, 0x00,
     0x91, 0xBD, 0x66, 0xC5, 0x43, 0x97, 0x54, 0xF8, 0x72, 0x2E, 0xF7, 0x8B,
     0xF4, 0x78, 0xDA, 0xC3, 0x37, 0x23, 0x8E, 0x71, 0x85, 0x9C, 0xB3, 0x75]"

definition consFont16 :: "uchar list" where
  "consFont16 =
    [0xAE, 0x0D, 0x73, 0xEC, 0xDD, 0xB0, 0x21, 0x7D, 0x77, 0x8E, 0x9A, 0x7F,
     0xAA, 0x6B, 0x04, 0xAB, 0x21, 0x9F, 0x08, 0xCE, 0x4B, 0x2A, 0xDD, 0xB0,
     0x55, 0x20, 0xAE, 0xFA, 0xD3, 0x02, 0xFB, 0xC2, 0x67, 0xEB, 0xA7, 0xDB,
     0xF7, 0x15, 0x71, 0xB1, 0x40, 0xD9, 0x13, 0x05, 0x4F, 0x5B, 0x4E, 0xEB,
     0x91, 0xF4, 0x38, 0xB1, 0x17, 0x73, 0x9B, 0x40, 0x22, 0x51, 0xC2, 0x66,
     0xCC, 0xA6, 0x32, 0xD4, 0x6D, 0x12, 0x0A, 0xFB, 0xE0, 0xAF, 0x8F, 0xA8,
     0xDB, 0x58, 0x70, 0xF3, 0x4C, 0x75, 0xED, 0x4B, 0xA5, 0xE2, 0xBB, 0x68,
     0xFD, 0x71, 0xFC, 0xC5, 0xE0, 0x99, 0x40, 0xCD, 0xF8, 0x0B, 0x78, 0x98,
     0x1F, 0x2A, 0x63, 0x7C, 0x8B, 0xF8, 0xA0, 0xAA, 0x00, 0x86, 0xAD, 0xAB,
     0x0B, 0x1F, 0x81, 0x63, 0x29, 0xF3, 0x28, 0xAE, 0x8E, 0x75, 0x5C, 0xC0,
     0x6A, 0x21, 0x62, 0xA0, 0x56, 0xBF, 0x60, 0x1F, 0x43, 0xB7, 0x96, 0x51,
     0x04, 0x2B, 0xF9, 0x98, 0x86, 0x7A, 0xFB, 0x2F, 0x37, 0x32, 0xC3, 0x4F,
     0xAD, 0x6D, 0x55, 0x3E, 0xF1, 0x58, 0x04, 0xC3, 0x41, 0xE2, 0xEA, 0x83,
     0xEB, 0xF3, 0x28, 0x2E, 0xEE, 0xC7, 0x26, 0x3D, 0x13, 0x25, 0x71, 0x72,
     0xC8, 0x40, 0x03, 0x29, 0x94, 0x31, 0x62, 0x71, 0x12, 0xEC, 0x2A, 0x9C,
     0x19, 0x14, 0xF4, 0xB2, 0xEA, 0xF5, 0x6C, 0xA3, 0x76, 0x6F, 0xD1, 0x4D,
     0x52, 0x8C, 0xF4, 0x7A, 0x93, 0xC8, 0x37, 0x7A, 0x93, 0x42, 0xE8, 0xA6,
     0x27, 0x1F, 0xF8, 0xEA, 0x44, 0x17, 0xE2, 0xAF, 0xE7, 0x07, 0x66, 0xEE,
     0x11, 0x2D, 0xBD, 0xF3, 0xBE, 0x67, 0x9D, 0xDB, 0xFF, 0x5F, 0xAF, 0x63,
     0x0D, 0x50, 0xAD, 0x7D, 0x24, 0x37, 0xB2, 0xFD, 0x47, 0x63, 0xAD, 0x65,
     0x9A, 0x0F, 0x4E, 0xAA, 0xD8, 0x7C, 0xA3, 0xD4, 0xFE, 0x80, 0xE7, 0xE3,
     0xFA, 0x96, 0x75, 0x9A, 0x0E, 0xA8, 0x78, 0xC1, 0x0F, 0x25, 0xCC, 0xB4,
     0xB5, 0x1C, 0x7C, 0x6D, 0x05, 0x4F, 0x02, 0x93, 0x68, 0xF6, 0x7C, 0xCB,
     0xA4, 0xE7, 0x95, 0x2A, 0xD6, 0xB1, 0x43, 0x05, 0xDD, 0x48, 0xAF, 0x4B]"

definition consFont17 :: "uchar list" where
  "consFont17 =
    [0xB8, 0x30, 0x3C, 0x19, 0xBD, 0xA3, 0x88, 0xCE, 0x11, 0xB4, 0x07, 0xEB,
     0x71, 0xBA, 0x35, 0xF4, 0x44, 0x2D, 0x63, 0x66, 0x66, 0x5D, 0x9A, 0xE3,
     0x2C, 0xC7, 0x16, 0x1D, 0xB4, 0xAA, 0xBE, 0xBA, 0xDD, 0x64, 0x46, 0x92,
     0x22, 0x5F, 0xBB, 0x9B, 0xBC, 0x17, 0x15, 0x9D, 0x40, 0x34, 0xD7, 0x55,
     0x6A, 0xB0, 0xF8, 0xC1, 0xB2, 0xBE, 0x28, 0xCA, 0x56, 0xCB, 0x54, 0x2B,
     0x2F, 0x02, 0x43, 0xD8, 0xF4, 0xF3, 0x80, 0xEC, 0xBB, 0x61, 0x15, 0xD0,
     0x22, 0xC2, 0x24, 0x89, 0x4A, 0x56, 0xFF, 0x9E, 0xD9, 0x24, 0x40, 0x47,
     0x37, 0x24, 0xAE, 0x89, 0x1B, 0x52, 0xEB, 0xE1, 0x3B, 0x35, 0x06, 0x4F,
     0xEB, 0x61, 0xF0, 0x0A, 0xC6, 0xD7, 0x92, 0x78, 0x57, 0xB5, 0xF2, 0xF4,
     0x65, 0xAA, 0xA3, 0x50, 0x9A, 0x09, 0xD0, 0x84, 0x57, 0xFF, 0x39, 0x99,
     0x24, 0x4F, 0x29, 0x0D, 0x7F, 0x2D, 0x53, 0x1B, 0x77, 0xFE, 0xE0, 0x85,
     0xC2, 0xC7, 0xF2, 0x7A, 0xE0, 0x17, 0x62, 0xF7, 0x25, 0xA5, 0x98, 0x55,
     0xAF, 0x94, 0x4A, 0x79, 0x39, 0x71, 0x63, 0x8A, 0xC2, 0xAB, 0xB9, 0x6D,
     0xF5, 0x91, 0x39, 0xA0, 0x46, 0xC6, 0x4C, 0xD9, 0xB8, 0x32, 0xBB, 0xC6,
     0x11, 0xEA, 0x30, 0xB9, 0xEE, 0x46, 0xBA, 0x80, 0x35, 0xB7, 0x4B, 0xBB,
     0xDC, 0x5F, 0x03, 0x2F, 0x77, 0x27, 0xAF, 0x7F, 0x20, 0x61, 0x34, 0xC6,
     0xAD, 0xA8, 0xEE, 0xA0, 0xBA, 0x36, 0x39, 0xA7, 0x6B, 0x3B, 0xF7, 0xE9,
     0xEB, 0xC7, 0xAF, 0x61, 0x30, 0xCD, 0x49, 0xE6, 0xAA, 0xC3, 0x24, 0x31,
     0xD9, 0x0E, 0x2D, 0xB8, 0x5B, 0xE0, 0xB7, 0x90, 0x35, 0xBE, 0x95, 0x5B,
     0x21, 0xA4, 0x0B, 0xAC, 0x95, 0x6B, 0x13, 0xDD, 0x5D, 0xE4, 0xD8, 0xC5,
     0x87, 0x70, 0xF0, 0xE5, 0x01, 0xA9, 0xC1, 0x7A, 0x36, 0x25, 0x1B, 0xB2,
     0xD0, 0x5C, 0x1E, 0xBA, 0xA0, 0xE4, 0x23, 0x4D, 0x08, 0x94, 0xAE, 0xBB,
     0x5A, 0xF1, 0xD4, 0xE8, 0xCA, 0x42, 0xE6, 0x8A, 0xA7, 0xFE, 0x6C, 0x80,
     0x3D, 0x75, 0xC5, 0x05, 0x8B, 0x6B, 0x78, 0xC8, 0x7C, 0x50, 0x83, 0xD3]"

definition consFont18 :: "uchar list" where
  "consFont18 =
    [0xD3, 0x3D, 0xC4, 0xED, 0x84, 0x6E, 0x91, 0xBF, 0x32, 0x33, 0x86, 0x5F,
     0x8B, 0x6D, 0x90, 0x27, 0x5A, 0x3B, 0x2A, 0xC9, 0xBE, 0xD4, 0xCF, 0x90,
     0x4B, 0x1F, 0xBB, 0xA5, 0xE0, 0x59, 0xF7, 0x5B, 0x32, 0x24, 0xDC, 0x62,
     0x19, 0xF0, 0x2E, 0x7C, 0xE0, 0xDE, 0xCF, 0xD0, 0x30, 0xEA, 0xF1, 0x7B,
     0x46, 0xA8, 0x94, 0xCD, 0x70, 0xEF, 0x40, 0xAE, 0x68, 0x95, 0xCA, 0x44,
     0xC3, 0x8E, 0xA3, 0x64, 0xE7, 0xFD, 0x29, 0x90, 0xEC, 0xA7, 0xA6, 0xFF,
     0x96, 0x4D, 0xDF, 0xEB, 0x46, 0xE8, 0x09, 0x5D, 0x9B, 0xFD, 0x36, 0x1E,
     0x42, 0x54, 0x07, 0xBA, 0x36, 0x47, 0x0B, 0xDC, 0x99, 0xA9, 0x51, 0x2B,
     0x96, 0x7A, 0x97, 0x3C, 0x32, 0x68, 0x61, 0x33, 0x29, 0x75, 0xFE, 0x97,
     0xFB, 0x0B, 0xE7, 0x6A, 0x70, 0x4C, 0xE5, 0xAD, 0x2F, 0x18, 0xB7, 0x29,
     0x93, 0xC0, 0x02, 0x46, 0x00, 0x8B, 0xCC, 0x3D, 0xFE, 0xBE, 0x4C, 0xBB,
     0x5A, 0x3D, 0x3A, 0x14, 0xD3, 0xDC, 0xE2, 0xC0, 0x1D, 0xC7, 0xF2, 0x95,
     0x48, 0x4F, 0x4F, 0x73, 0x2D, 0xB1, 0x62, 0xC4, 0xDE, 0xC1, 0x0A, 0x4B,
     0xE0, 0x99, 0xBA, 0x99, 0x09, 0xF5, 0x69, 0xB6, 0x7A, 0x4C, 0xA6, 0x08,
     0xFF, 0x1A, 0x63, 0x4D, 0xF4, 0xDD, 0xDD, 0xFD, 0x46, 0x5D, 0x8C, 0x6B,
     0xAF, 0x0D, 0xB4, 0x37, 0x38, 0x39, 0xA1, 0x6B, 0xA6, 0x73, 0x47, 0x4D,
     0xC6, 0xC8, 0x00, 0x7A, 0x71, 0x39, 0x67, 0xD0, 0xA3, 0x61, 0x04, 0xD0,
     0x7D, 0x6F, 0xBB, 0x78, 0x93, 0x8A, 0x19, 0x5D, 0x0F, 0x5C, 0xD9, 0x8D,
     0x9D, 0x7F, 0xCA, 0x8E, 0x1A, 0x85, 0x41, 0x1E, 0xCE, 0x46, 0xBD, 0x62,
     0x4C, 0x81, 0x44, 0xA3, 0xA8, 0x8F, 0xCA, 0x5F, 0x7F, 0x28, 0xBB, 0x71,
     0x69, 0x6F, 0xCD, 0x00, 0x8A, 0x16, 0xA4, 0x06, 0x39, 0x5B, 0xFF, 0x2A,
     0x57, 0xEB, 0x18, 0xAC, 0xA2, 0xAB, 0xC6, 0xC8, 0x64, 0x47, 0x3E, 0xE7,
     0xE2, 0x47, 0xF0, 0x23, 0x00, 0x07, 0x0A, 0x71, 0x51, 0x19, 0x48, 0xE0,
     0x25, 0xBF, 0x7E, 0xD1, 0x99, 0x54, 0x43, 0x5A, 0x57, 0x37, 0x3B, 0x91]"

definition consFont19 :: "uchar list" where
  "consFont19 =
    [0x63, 0x9B, 0x50, 0x0A, 0xBE, 0x28, 0xD7, 0x09, 0x0A, 0x98, 0xEC, 0x17,
     0x93, 0x36, 0x55, 0x00, 0x0B, 0xA7, 0x4C, 0xA3, 0x1F, 0xD8, 0x98, 0x25,
     0x21, 0xCA, 0xBC, 0x62, 0xA7, 0x8A, 0x66, 0x12, 0x8A, 0x3D, 0x65, 0x26,
     0x21, 0x77, 0xD4, 0xF6, 0x55, 0xA8, 0x49, 0x78, 0x06, 0x85, 0x76, 0x34,
     0xA1, 0x09, 0x94, 0x16, 0x56, 0x96, 0xE1, 0x3B, 0x51, 0x53, 0x6B, 0x2C,
     0xB1, 0x87, 0x4C, 0xBB, 0xFD, 0xC4, 0x68, 0x5F, 0x72, 0x81, 0x05, 0xB9,
     0x09, 0xE7, 0xD6, 0x63, 0xEE, 0xFA, 0xC1, 0x8A, 0x31, 0x6D, 0x9B, 0x8F,
     0x2D, 0xC8, 0x47, 0xAD, 0x57, 0xEA, 0x76, 0x2D, 0x21, 0x9D, 0x25, 0x90,
     0x1F, 0xDE, 0xC4, 0x79, 0xC3, 0x41, 0x96, 0xB8, 0xA9, 0x55, 0xAB, 0x2A,
     0x8A, 0xF9, 0x7B, 0x81, 0xD5, 0xD7, 0xDB, 0x1F, 0x71, 0x7F, 0xB0, 0xB1,
     0x6E, 0x60, 0x85, 0x41, 0xF2, 0x31, 0xAC, 0x31, 0x40, 0x90, 0x55, 0xFF,
     0xA5, 0x0F, 0x65, 0x0D, 0x2B, 0x43, 0x86, 0xD3, 0x8B, 0x83, 0xF0, 0x74,
     0x43, 0x5B, 0x02, 0x12, 0xB2, 0xE5, 0x49, 0xB6, 0x8B, 0x99, 0xB8, 0xF4,
     0x8A, 0x1A, 0xF7, 0x84, 0x06, 0xF5, 0x07, 0x23, 0x39, 0xCC, 0xD7, 0x8A,
     0xB7, 0x24, 0xF4, 0x4F, 0x35, 0x17, 0xB2, 0x31, 0x99, 0x85, 0x94, 0x48,
     0xA8, 0xD4, 0x8F, 0xE4, 0xD5, 0x0F, 0xB2, 0xC2, 0x7D, 0xF7, 0xB4, 0x66,
     0x3A, 0x6E, 0x27, 0xA7, 0x77, 0xFD, 0xB6, 0xD4, 0x7A, 0xED, 0xD7, 0xDD,
     0x59, 0xA2, 0x81, 0xD7, 0xD1, 0x6C, 0x8E, 0xD3, 0x06, 0xA5, 0x9C, 0xFC,
     0x6B, 0x23, 0x33, 0xC1, 0x6A, 0xE2, 0x58, 0xCF, 0x83, 0xB2, 0xEB, 0x5C,
     0x3A, 0x6F, 0x9A, 0x28, 0x01, 0x70, 0xC1, 0x1D, 0xB6, 0x0A, 0x4A, 0x74,
     0x63, 0xE7, 0x74, 0x73, 0x51, 0xB7, 0x3F, 0x1C, 0xF9, 0xB6, 0xCD, 0x3D,
     0x72, 0xF9, 0x9F, 0x06, 0x98, 0x4E, 0xAD, 0xB0, 0x7F, 0xC2, 0x49, 0x37,
     0xA2, 0x4E, 0x9C, 0x5D, 0x2D, 0xD9, 0xDE, 0xE0, 0x9C, 0x70, 0x59, 0x5B,
     0x39, 0x2F, 0x5A, 0xD8, 0x95, 0x82, 0x2D, 0xCD, 0xD1, 0x3E, 0x05, 0x4B]"

definition consFont20 :: "uchar list" where
  "consFont20 =
    [0x50, 0x0C, 0x5E, 0xCE, 0x6C, 0x79, 0xA9, 0xAB, 0x75, 0xE8, 0x34, 0x8A,
     0x56, 0x78, 0xBC, 0x5E, 0x15, 0x32, 0x5B, 0xC7, 0xE1, 0x6F, 0xFB, 0x48,
     0x6D, 0xCB, 0x76, 0x50, 0x10, 0x54, 0x93, 0x88, 0x27, 0xC1, 0xAD, 0xCC,
     0x8F, 0x02, 0xB1, 0xCE, 0x54, 0xDC, 0x08, 0x5C, 0xF7, 0x89, 0x8F, 0x79,
     0xE2, 0xB8, 0x16, 0xE7, 0xB3, 0xCC, 0xC4, 0x65, 0xC2, 0xCC, 0x35, 0x5B,
     0x59, 0x95, 0xA1, 0x82, 0xB5, 0x06, 0x5F, 0x6E, 0xD7, 0x31, 0xE0, 0xC8,
     0x70, 0x91, 0xFA, 0x30, 0xCD, 0xD4, 0xC6, 0xA9, 0xEA, 0xCF, 0x85, 0x96,
     0x28, 0xF6, 0x14, 0x4E, 0xB0, 0x77, 0x67, 0xA0, 0x5E, 0xFC, 0xEB, 0x08,
     0x86, 0x59, 0x62, 0xFA, 0xCC, 0xB9, 0xB7, 0x08, 0xE8, 0x42, 0x4F, 0x0F,
     0x3B, 0x59, 0xD4, 0x30, 0xE7, 0x09, 0xE0, 0x69, 0x0E, 0x9E, 0x76, 0xF2,
     0x3F, 0xF5, 0x16, 0xC0, 0x6C, 0x6F, 0x9E, 0xA6, 0xE6, 0x2A, 0x13, 0x97,
     0x8C, 0x1D, 0xBC, 0x4B, 0xFC, 0x16, 0x89, 0x6D, 0x56, 0xE8, 0x9E, 0xBE,
     0x9E, 0x6C, 0xEB, 0x87, 0xD0, 0xD0, 0xD4, 0x93, 0x46, 0x74, 0x0A, 0x0C,
     0x0E, 0xDC, 0xBA, 0x59, 0x1F, 0x4A, 0x37, 0xC6, 0xF4, 0x99, 0x81, 0xC2,
     0x3D, 0xC7, 0x8C, 0x17, 0xC5, 0xE8, 0x7A, 0x58, 0xBA, 0xCB, 0x3D, 0xD9,
     0x34, 0x8F, 0xEF, 0xB2, 0x99, 0xC0, 0x0E, 0xBE, 0xCF, 0xAF, 0x64, 0xC4,
     0x98, 0x4C, 0x28, 0x65, 0x98, 0x86, 0x2C, 0xDB, 0x55, 0x49, 0xA6, 0xCA,
     0x09, 0xA2, 0x6D, 0xF9, 0xD9, 0x47, 0xF7, 0x03, 0x1B, 0x1F, 0x9C, 0xD2,
     0x04, 0x1F, 0x4B, 0x1B, 0xA3, 0x2C, 0x96, 0x61, 0x69, 0x47, 0xC0, 0xC2,
     0xEC, 0xB3, 0x09, 0x29, 0xD9, 0xFD, 0xDF, 0x09, 0x9A, 0xB6, 0xF4, 0x79,
     0x43, 0x79, 0x73, 0xBA, 0xBC, 0x8D, 0x49, 0xA7, 0x91, 0xFC, 0x3A, 0x10,
     0x5E, 0x0E, 0xB8, 0x3C, 0xDC, 0x89, 0x6A, 0x4B, 0x2F, 0x3C, 0x9F, 0xF2,
     0xA7, 0xEF, 0x28, 0x97, 0x69, 0x1E, 0x05, 0x31, 0xD5, 0xC5, 0x6A, 0xDE,
     0xDE, 0xF5, 0x43, 0x21, 0xA1, 0xD5, 0xA8, 0xB2, 0xD7, 0x13, 0x9C, 0xA8]"

definition consFont21 :: "uchar list" where
  "consFont21 =
    [0x56, 0xA9, 0xF7, 0x3E, 0x91, 0x57, 0xC8, 0xD7, 0x50, 0x9F, 0xD7, 0x2B,
     0x34, 0x50, 0xAF, 0xEA, 0x8C, 0x54, 0x0B, 0xEB, 0x8A, 0xF8, 0x41, 0xD4,
     0x4B, 0xF9, 0x51, 0x3F, 0x19, 0xD6, 0x63, 0x77, 0x36, 0x8A, 0x9E, 0xF5,
     0x17, 0x99, 0x54, 0x21, 0x12, 0xC9, 0xFD, 0xD1, 0x42, 0xF7, 0xD8, 0x7E,
     0x4C, 0x3D, 0x8B, 0x3F, 0xC0, 0xED, 0xB6, 0x47, 0x8C, 0x88, 0x8B, 0x03,
     0x3F, 0x82, 0xBC, 0x34, 0x15, 0xC7, 0xB8, 0x43, 0xBF, 0x3A, 0xA7, 0x30,
     0xDE, 0xC2, 0x11, 0x7A, 0xF3, 0xC0, 0xAF, 0xC4, 0x47, 0x4F, 0xA3, 0xAA,
     0xA7, 0x56, 0x6B, 0xA5, 0xC3, 0x43, 0x91, 0xB6, 0x64, 0xE4, 0x19, 0xDD,
     0xFC, 0x01, 0xA5, 0x5B, 0x5A, 0xC8, 0xE8, 0x89, 0xE8, 0xD8, 0x6A, 0x44,
     0xB5, 0xCE, 0x30, 0x3C, 0x9C, 0x0C, 0x8E, 0xCF, 0xB7, 0xFB, 0xD6, 0x46,
     0xF8, 0x9C, 0xD7, 0xC4, 0x33, 0x4E, 0x39, 0x9E, 0x05, 0x9D, 0x7A, 0xCF,
     0xA7, 0xDC, 0x2C, 0x04, 0x4B, 0x39, 0x1A, 0xEA, 0xD1, 0x34, 0x60, 0xFC,
     0x99, 0x43, 0xF3, 0xE1, 0x64, 0x4F, 0xBC, 0xA5, 0x77, 0x99, 0xF8, 0x0F,
     0x91, 0xDE, 0xA2, 0x0D, 0xE8, 0x69, 0xCE, 0x1D, 0x2E, 0x46, 0x28, 0x9E,
     0x31, 0xE9, 0x8F, 0xED, 0x95, 0x1A, 0xA3, 0x59, 0x33, 0xE1, 0x45, 0x20,
     0xC4, 0x82, 0x98, 0x2B, 0x30, 0xF8, 0xBD, 0x9B, 0xED, 0x8F, 0x78, 0x67,
     0xF4, 0xA9, 0x4C, 0x4E, 0x53, 0x2B, 0xEC, 0x6A, 0x0F, 0x3D, 0x97, 0xE9,
     0x5C, 0xEE, 0xB4, 0xD4, 0x24, 0x5C, 0x1D, 0xB4, 0xB3, 0xD6, 0x44, 0x66,
     0x63, 0x23, 0xB1, 0xAC, 0xA0, 0xB2, 0x3F, 0x50, 0xF7, 0x0B, 0x74, 0x21,
     0x27, 0xA9, 0x1D, 0x22, 0x6B, 0x5F, 0x2D, 0x9C, 0xF6, 0x33, 0xCF, 0xD1,
     0x39, 0x53, 0x05, 0x55, 0xF2, 0xA6, 0x66, 0x19, 0x26, 0x66, 0xD1, 0xD6,
     0xF5, 0x38, 0x01, 0x8E, 0x92, 0x0A, 0x10, 0x54, 0x79, 0x65, 0x39, 0xDD,
     0xB0, 0x59, 0xA5, 0x21, 0xE8, 0x6D, 0x73, 0x7A, 0x4F, 0xCD, 0x37, 0x44,
     0xC6, 0xA8, 0x2B, 0xB3, 0x28, 0xF0, 0xCD, 0x82, 0x48, 0x54, 0x54, 0x50]"

definition consFont22 :: "uchar list" where
  "consFont22 =
    [0x7D, 0x37, 0xDF, 0x6A, 0xA0, 0xA2, 0x5D, 0x63, 0x8D, 0x34, 0xA6, 0xD6,
     0x09, 0x9D, 0x4F, 0x7D, 0x78, 0xAC, 0xD5, 0x13, 0x92, 0xE6, 0xBA, 0x9E,
     0x49, 0x24, 0x5D, 0x5B, 0xC4, 0xFB, 0xCB, 0x69, 0x31, 0xE6, 0xF7, 0x97,
     0x87, 0x40, 0x10, 0xA0, 0x63, 0x8D, 0x7C, 0x7A, 0x04, 0xDE, 0xD6, 0xF1,
     0xD1, 0xBC, 0x14, 0xC0, 0xED, 0xF7, 0xF6, 0xFC, 0x82, 0xA7, 0x31, 0x33,
     0x3C, 0xB7, 0x4A, 0x13, 0x85, 0xCC, 0x57, 0x30, 0x6D, 0x43, 0x99, 0xBD,
     0x44, 0x48, 0x41, 0xF6, 0x2B, 0x97, 0xF2, 0x14, 0x85, 0xFA, 0xD9, 0xA5,
     0xB8, 0xE9, 0x00, 0x3A, 0x92, 0xC2, 0xF0, 0xD8, 0xA7, 0x5C, 0xBF, 0xB6,
     0xB8, 0x02, 0x37, 0x2D, 0xF0, 0x4A, 0x4D, 0x56, 0xF1, 0xBA, 0x54, 0x5D,
     0x31, 0xC5, 0x60, 0x37, 0x79, 0x76, 0x52, 0xAC, 0xB0, 0x66, 0x02, 0x07,
     0xFB, 0x86, 0xCF, 0x58, 0xAF, 0x0A, 0xBD, 0x2A, 0x63, 0xF2, 0x83, 0x41,
     0xC4, 0x83, 0x6F, 0x54, 0x79, 0xE8, 0xAF, 0x94, 0x3C, 0xE3, 0x32, 0x75,
     0x2A, 0x65, 0xFC, 0x68, 0xFB, 0x96, 0xB7, 0x31, 0xD4, 0x39, 0x39, 0x39,
     0xE8, 0x14, 0x83, 0xF9, 0xE0, 0xAA, 0x10, 0xFF, 0xB9, 0x94, 0x12, 0xE4,
     0xD3, 0x49, 0x88, 0x36, 0xD6, 0xE7, 0xF2, 0xAB, 0x36, 0xDC, 0xA4, 0x6B,
     0x32, 0x37, 0x45, 0xDB, 0xD8, 0x94, 0x13, 0x1C, 0x1A, 0x36, 0xE0, 0x2C,
     0x93, 0x1D, 0x06, 0x93, 0x6C, 0x02, 0x77, 0x15, 0x10, 0x94, 0xCD, 0x21,
     0x37, 0xD8, 0xED, 0x2A, 0x0F, 0xB5, 0xDC, 0x79, 0x6D, 0x6B, 0xCD, 0x99,
     0x52, 0x40, 0x11, 0x58, 0x30, 0xAA, 0x80, 0x0B, 0xAC, 0xCB, 0xFE, 0x8A,
     0x45, 0x8E, 0x7E, 0x8E, 0x97, 0x13, 0xF5, 0x37, 0x75, 0x7D, 0x23, 0xB3,
     0x62, 0x17, 0x5F, 0x0A, 0xC8, 0xC5, 0x4D, 0xEE, 0x4C, 0x20, 0x9D, 0x05,
     0x3F, 0x97, 0x22, 0x6B, 0xCE, 0x4E, 0x57, 0x27, 0x29, 0x0B, 0x92, 0xF2,
     0xEA, 0x08, 0xA5, 0xCF, 0x05, 0xA9, 0x5A, 0x2F, 0xA2, 0x2D, 0xF6, 0x99,
     0xE0, 0x0B, 0x3F, 0xA8, 0x8E, 0xE7, 0xD8, 0xF1, 0x2D, 0x52, 0x28, 0xF4]"

definition consFont23 :: "uchar list" where
  "consFont23 =
    [0x24, 0x58, 0x3A, 0xD5, 0x68, 0x30, 0x9A, 0x56, 0x80, 0x8B, 0xA7, 0x58,
     0x23, 0x99, 0xD8, 0xA5, 0x4B, 0x84, 0x42, 0x49, 0xD9, 0x33, 0x80, 0x9A,
     0xEB, 0x73, 0x2E, 0x0E, 0x72, 0xFE, 0x18, 0xEB, 0x66, 0x92, 0xDD, 0x1C,
     0x6D, 0xDE, 0x79, 0x63, 0x25, 0x85, 0xB8, 0xAE, 0x92, 0xF4, 0x41, 0xFA,
     0x44, 0x93, 0x0E, 0x5A, 0x59, 0x16, 0xFA, 0x41, 0x59, 0x71, 0xFF, 0xD0,
     0x7A, 0x04, 0x7D, 0xFF, 0x4A, 0xE9, 0x71, 0xAF, 0xAB, 0x60, 0x86, 0x97,
     0x69, 0x23, 0xB0, 0x9C, 0x3A, 0xD8, 0x1C, 0xE8, 0xFD, 0xE9, 0x84, 0xEA,
     0xFE, 0x62, 0x98, 0xC0, 0x58, 0xCC, 0xDE, 0xF6, 0x1D, 0xE5, 0xA7, 0x95,
     0xE0, 0xC2, 0x4C, 0x0B, 0x40, 0x2C, 0x90, 0x23, 0x9F, 0x5A, 0x77, 0x12,
     0x22, 0x8E, 0x76, 0xBF, 0xAE, 0x86, 0xE1, 0x8D, 0xD8, 0x3E, 0xF8, 0xC4,
     0x26, 0x67, 0xE2, 0x4B, 0xC0, 0xDF, 0xDB, 0x14, 0x5A, 0x98, 0xC4, 0x24,
     0xE0, 0x91, 0xE9, 0xEA, 0xE2, 0xF6, 0x55, 0x90, 0x4D, 0x4A, 0x35, 0x5F,
     0x4A, 0xE0, 0x1D, 0x35, 0x5A, 0x29, 0x67, 0xC2, 0x3B, 0x97, 0x91, 0xD2,
     0x84, 0xF4, 0x63, 0xB3, 0xC8, 0x83, 0x3F, 0xA5, 0x72, 0xE4, 0xEF, 0x2B,
     0xB4, 0xAB, 0x11, 0x35, 0xE9, 0x8E, 0x87, 0xF8, 0x9C, 0x0A, 0x07, 0xE6,
     0x4D, 0x98, 0xA0, 0x1C, 0x9A, 0xF4, 0xD9, 0xEB, 0x1F, 0xC1, 0xFF, 0x4B,
     0x3A, 0x26, 0xFE, 0x3F, 0xF0, 0xAA, 0xA3, 0x3D, 0x97, 0xB4, 0x6D, 0x10,
     0x64, 0xA0, 0xFC, 0x0C, 0x12, 0x8B, 0x54, 0xC4, 0x3A, 0xC2, 0xD2, 0xA7,
     0x6B, 0xE6, 0xA7, 0xE0, 0xCA, 0xB7, 0x40, 0xA1, 0xD2, 0x88, 0x13, 0x8A,
     0x04, 0x32, 0xB8, 0xF7, 0x45, 0x79, 0x6F, 0x16, 0xDC, 0x9C, 0xBF, 0x2B,
     0xB6, 0x5A, 0x27, 0xE9, 0xD9, 0x33, 0x66, 0x0D, 0x5F, 0x80, 0x8A, 0x67,
     0xCF, 0x24, 0x49, 0xC1, 0x3E, 0x58, 0x15, 0xFA, 0xE2, 0x2D, 0xB9, 0x35,
     0xEA, 0xC1, 0x05, 0x4A, 0x6A, 0x9A, 0x77, 0xF9, 0xD0, 0x83, 0x89, 0x91,
     0xF4, 0x86, 0x13, 0x92, 0x67, 0x27, 0xF1, 0x97, 0x37, 0x9C, 0x70, 0xC6]"

definition consFont24 :: "uchar list" where
  "consFont24 =
    [0x2B, 0x12, 0x03, 0x61, 0xDA, 0xC2, 0xA1, 0xFE, 0xF3, 0xEA, 0x79, 0x9F,
     0xCA, 0x78, 0x52, 0xEF, 0xBA, 0xF9, 0x5C, 0x15, 0x4C, 0xEC, 0xAA, 0xC1,
     0x33, 0x7F, 0x7D, 0xCD, 0x0C, 0x39, 0x4A, 0xB3, 0x18, 0x99, 0xE0, 0x82,
     0x2E, 0x95, 0x87, 0xCD, 0xDD, 0xA8, 0x41, 0xFD, 0xE5, 0xB0, 0xAC, 0x5D,
     0x60, 0x09, 0x3E, 0x3B, 0xFF, 0xDC, 0x37, 0x6A, 0x02, 0x20, 0xE4, 0xFF,
     0xC1, 0x31, 0x94, 0xC8, 0x1B, 0xAD, 0x82, 0x38, 0xA2, 0x4A, 0xC5, 0x75,
     0xA4, 0xD3, 0x9B, 0x06, 0xB0, 0xCE, 0xDF, 0x32, 0xE6, 0x01, 0xE3, 0x4F,
     0xE0, 0x82, 0xD7, 0x97, 0x3B, 0x94, 0xF1, 0xFF, 0x33, 0x48, 0x88, 0xD1,
     0x16, 0xD8, 0x16, 0xAC, 0x48, 0x00, 0x2C, 0x30, 0x2C, 0xBA, 0x85, 0xFD,
     0xED, 0x00, 0xBA, 0x00, 0x08, 0x76, 0x66, 0x95, 0x57, 0x6D, 0xDF, 0xCB,
     0x57, 0x24, 0x0D, 0x3B, 0xC9, 0x9C, 0x18, 0x05, 0xD6, 0x36, 0xD9, 0x1B,
     0x08, 0x48, 0xB4, 0x48, 0x44, 0x80, 0x87, 0x6E, 0x4C, 0x3A, 0x1C, 0xC3,
     0x9D, 0xB6, 0x08, 0x88, 0x36, 0xE8, 0xC2, 0x34, 0x94, 0xE3, 0xEC, 0x5C,
     0x2D, 0x49, 0x86, 0xD5, 0x9C, 0xAD, 0x86, 0xB0, 0x6D, 0x10, 0x3C, 0xDF,
     0xB1, 0xFE, 0xD2, 0xF6, 0x5F, 0x7A, 0x32, 0xE6, 0xC6, 0xE8, 0xEE, 0x6C,
     0x14, 0x9C, 0x3D, 0x33, 0xF8, 0x8C, 0xC2, 0x64, 0x28, 0x5F, 0xE6, 0x49,
     0x9A, 0x14, 0xFD, 0xEC, 0x20, 0x0B, 0xC3, 0x5E, 0xC5, 0xB9, 0x37, 0xCB,
     0xF7, 0x9B, 0xD9, 0x13, 0x55, 0x50, 0x4D, 0xAC, 0x98, 0xDD, 0x49, 0xCC,
     0x22, 0xA8, 0x92, 0xB7, 0x13, 0xC0, 0x09, 0x57, 0xD8, 0xB4, 0x96, 0x23,
     0xB0, 0x11, 0xAF, 0x05, 0x06, 0x54, 0x6D, 0x6C, 0x53, 0x4C, 0xAB, 0x33,
     0xD3, 0x39, 0x8A, 0x93, 0x4C, 0x3A, 0x52, 0x71, 0x62, 0x72, 0x16, 0x95,
     0x70, 0x4A, 0x44, 0xC1, 0x08, 0xBF, 0xB1, 0x84, 0x10, 0xF5, 0x96, 0x14,
     0x61, 0x10, 0x32, 0x04, 0xB5, 0x9A, 0x2D, 0x3F, 0xBF, 0x12, 0xD7, 0xCA,
     0x6D, 0xBE, 0x33, 0xB4, 0xA5, 0x14, 0xB5, 0x87, 0x12, 0xDE, 0xA3, 0xE9]"

definition consFont25 :: "uchar list" where
  "consFont25 =
    [0xC3, 0x2E, 0xF9, 0x35, 0x4C, 0x5B, 0x0D, 0x1E, 0x66, 0xDD, 0xC0, 0x00,
     0xD0, 0x90, 0x9D, 0x4D, 0x71, 0x29, 0xBD, 0x30, 0x2E, 0x74, 0x73, 0x55,
     0xAB, 0xA3, 0x11, 0x3E, 0x72, 0xC1, 0xFF, 0x34, 0xBB, 0x7E, 0xDC, 0x04,
     0x05, 0xFF, 0xF8, 0xF9, 0x1A, 0x64, 0x10, 0x54, 0x8F, 0x7A, 0xF3, 0x56,
     0x2F, 0x98, 0x1C, 0x7E, 0x02, 0x99, 0x50, 0x32, 0x09, 0x65, 0xAB, 0x5C,
     0x92, 0xD5, 0x78, 0x66, 0x52, 0xE5, 0xB2, 0x23, 0x27, 0xFA, 0xE4, 0xD1,
     0xCC, 0xA8, 0x7F, 0xF0, 0xC3, 0x35, 0x75, 0x4A, 0xEF, 0xD2, 0x27, 0x41,
     0x5F, 0x10, 0x03, 0x9B, 0x77, 0xE0, 0x1B, 0xB9, 0x06, 0x30, 0xD4, 0x7B,
     0x24, 0x64, 0x26, 0x78, 0x59, 0x7E, 0xE2, 0xD4, 0x7E, 0xAB, 0x3B, 0xEC,
     0x24, 0x22, 0x80, 0xDC, 0x45, 0x64, 0xCA, 0x9D, 0x7D, 0x86, 0xD5, 0x84,
     0xF3, 0x38, 0x5D, 0x8F, 0x99, 0x7D, 0x45, 0x8E, 0xF7, 0x49, 0x47, 0xFC,
     0xAB, 0x8E, 0x6E, 0x0F, 0x57, 0x97, 0x0C, 0xDB, 0x35, 0x2E, 0xEC, 0x92,
     0xFB, 0x55, 0x10, 0x6A, 0x97, 0xDA, 0x72, 0x1A, 0x26, 0x4D, 0xB4, 0x1C,
     0x0C, 0xCD, 0x13, 0x33, 0xA0, 0x95, 0xD5, 0xAC, 0x04, 0x28, 0xD0, 0xD9,
     0xA5, 0xFA, 0xF3, 0xD9, 0x82, 0x6D, 0x9A, 0x94, 0xD9, 0xB4, 0xF5, 0x1C,
     0x21, 0x35, 0x01, 0x36, 0x9A, 0x28, 0xA0, 0x34, 0x73, 0x2A, 0xA9, 0xDA,
     0x53, 0xD1, 0x41, 0x90, 0xCA, 0x71, 0x8A, 0x71, 0xE9, 0x85, 0x17, 0xC2,
     0xBD, 0xDC, 0xA2, 0xC3, 0x20, 0xCE, 0x32, 0xFE, 0x81, 0x5E, 0x82, 0x34,
     0x45, 0x30, 0x6A, 0x46, 0xB3, 0x93, 0x8A, 0xB4, 0xD6, 0xC4, 0xE5, 0x49,
     0x48, 0x55, 0x4B, 0x2D, 0x75, 0xD1, 0x91, 0x21, 0x38, 0xAF, 0xAF, 0x85,
     0x22, 0x8E, 0x80, 0x3E, 0xC5, 0xC8, 0xF5, 0xAB, 0xD3, 0xA4, 0xC4, 0x4E,
     0x95, 0xCA, 0xA9, 0x92, 0x35, 0x9C, 0xE8, 0xB5, 0xFF, 0xFF, 0xFF, 0xFF,
     0xFF, 0xFF, 0xFF, 0xFF, 0xFF, 0xFF, 0xFF, 0xFF, 0xFF, 0xFF, 0xFF, 0xFF,
     0xFF, 0xFF, 0xFF, 0xFF, 0xFF, 0xFF, 0xFF, 0xFF, 0xFF, 0xFF, 0xFF, 0xFF]"

definition consFont26 :: "uchar list" where
  "consFont26 =
    [0xFF, 0xFF, 0xFF, 0xFF, 0xFF, 0xFF, 0xFF, 0xFF, 0xFF, 0xFF, 0xFF, 0xFF,
     0xFF, 0xFF, 0xFF, 0xFF, 0xFF, 0xFF, 0xFF, 0xFF, 0xFF, 0xFF, 0xFF, 0xFF,
     0xFF, 0xFF, 0xFF, 0xFF, 0xFF, 0xFF, 0xFF, 0xFF, 0xFF, 0xFF, 0xFF, 0xFF,
     0x20, 0x00, 0xA0, 0x00, 0x00, 0x20, 0x01, 0x20, 0x02, 0x20, 0x03, 0x20,
     0x04, 0x20, 0x05, 0x20, 0x06, 0x20, 0x07, 0x20, 0x08, 0x20, 0x09, 0x20,
     0x0A, 0x20, 0x2F, 0x20, 0xFF, 0xFF, 0x21, 0x00, 0xFF, 0xFF, 0x22, 0x00,
     0xFF, 0xFF, 0x23, 0x00, 0xFF, 0xFF, 0x24, 0x00, 0xFF, 0xFF, 0x25, 0x00,
     0x95, 0x22, 0xFF, 0xFF, 0x26, 0x00, 0xFF, 0xFF, 0x27, 0x00, 0xFF, 0xFF,
     0x28, 0x00, 0xFF, 0xFF, 0x29, 0x00, 0xFF, 0xFF, 0x2A, 0x00, 0x9B, 0x22,
     0xFF, 0xFF, 0x2B, 0x00, 0xFF, 0xFF, 0x2C, 0x00, 0xFF, 0xFF, 0x2D, 0x00,
     0x12, 0x20, 0x13, 0x20, 0x12, 0x22, 0xAD, 0x00, 0x10, 0x20, 0x11, 0x20,
     0x96, 0x22, 0xFF, 0xFF, 0x2E, 0x00, 0x99, 0x22, 0xFF, 0xFF, 0x2F, 0x00,
     0x98, 0x22, 0xFF, 0xFF, 0x30, 0x00, 0xEA, 0x24, 0xFF, 0xFF, 0x31, 0x00,
     0x60, 0x24, 0xFF, 0xFF, 0x32, 0x00, 0x61, 0x24, 0xFF, 0xFF, 0x33, 0x00,
     0x62, 0x24, 0xFF, 0xFF, 0x34, 0x00, 0x63, 0x24, 0xFF, 0xFF, 0x35, 0x00,
     0x64, 0x24, 0xFF, 0xFF, 0x36, 0x00, 0x65, 0x24, 0xFF, 0xFF, 0x37, 0x00,
     0x66, 0x24, 0xFF, 0xFF, 0x38, 0x00, 0x67, 0x24, 0xFF, 0xFF, 0x39, 0x00,
     0x68, 0x24, 0xFF, 0xFF, 0x3A, 0x00, 0xFF, 0xFF, 0x3B, 0x00, 0xFF, 0xFF,
     0x3C, 0x00, 0xFF, 0xFF, 0x3D, 0x00, 0x9C, 0x22, 0xFF, 0xFF, 0x3E, 0x00,
     0xFF, 0xFF, 0x3F, 0x00, 0xFF, 0xFF, 0x40, 0x00, 0xFF, 0xFF, 0x41, 0x00,
     0x10, 0x04, 0x91, 0x03, 0xB6, 0x24, 0xFF, 0xFF, 0x42, 0x00, 0x12, 0x04,
     0x92, 0x03, 0xB7, 0x24, 0xFF, 0xFF, 0x43, 0x00, 0x21, 0x04, 0xB8, 0x24,
     0xFF, 0xFF, 0x44, 0x00, 0xB9, 0x24, 0xFF, 0xFF, 0x45, 0x00, 0x15, 0x04,
     0x95, 0x03, 0xBA, 0x24, 0xFF, 0xFF, 0x46, 0x00, 0xBB, 0x24, 0xFF, 0xFF]"

definition consFont27 :: "uchar list" where
  "consFont27 =
    [0x47, 0x00, 0xBC, 0x24, 0xFF, 0xFF, 0x48, 0x00, 0x1D, 0x04, 0x97, 0x03,
     0xBD, 0x24, 0xFF, 0xFF, 0x49, 0x00, 0x06, 0x04, 0x99, 0x03, 0xBE, 0x24,
     0xFF, 0xFF, 0x4A, 0x00, 0x08, 0x04, 0xBF, 0x24, 0xFF, 0xFF, 0x4B, 0x00,
     0x1A, 0x04, 0x9A, 0x03, 0x2A, 0x21, 0xC0, 0x24, 0xFF, 0xFF, 0x4C, 0x00,
     0xC1, 0x24, 0xFF, 0xFF, 0x4D, 0x00, 0x1C, 0x04, 0x9C, 0x03, 0xC2, 0x24,
     0xFF, 0xFF, 0x4E, 0x00, 0x9D, 0x03, 0xC3, 0x24, 0xFF, 0xFF, 0x4F, 0x00,
     0x1E, 0x04, 0x9F, 0x03, 0xC4, 0x24, 0xFF, 0xFF, 0x50, 0x00, 0x20, 0x04,
     0xA1, 0x03, 0xC5, 0x24, 0xFF, 0xFF, 0x51, 0x00, 0xC6, 0x24, 0xFF, 0xFF,
     0x52, 0x00, 0xC7, 0x24, 0xFF, 0xFF, 0x53, 0x00, 0x05, 0x04, 0xC8, 0x24,
     0xFF, 0xFF, 0x54, 0x00, 0x22, 0x04, 0xA4, 0x03, 0xC9, 0x24, 0xFF, 0xFF,
     0x55, 0x00, 0xCA, 0x24, 0xFF, 0xFF, 0x56, 0x00, 0xCB, 0x24, 0xFF, 0xFF,
     0x57, 0x00, 0xCC, 0x24, 0xFF, 0xFF, 0x58, 0x00, 0x25, 0x04, 0xA7, 0x03,
     0xCD, 0x24, 0xFF, 0xFF, 0x59, 0x00, 0xAE, 0x04, 0xCE, 0x24, 0xFF, 0xFF,
     0x5A, 0x00, 0x96, 0x03, 0xCF, 0x24, 0xFF, 0xFF, 0x5B, 0x00, 0xFF, 0xFF,
     0x5C, 0x00, 0xFF, 0xFF, 0x5D, 0x00, 0xFF, 0xFF, 0x5E, 0x00, 0xFF, 0xFF,
     0x5F, 0x00, 0xFF, 0xFF, 0x60, 0x00, 0xFF, 0xFF, 0x61, 0x00, 0x30, 0x04,
     0xD0, 0x24, 0xFF, 0xFF, 0x62, 0x00, 0xD1, 0x24, 0xFF, 0xFF, 0x63, 0x00,
     0x41, 0x04, 0xD2, 0x24, 0xFF, 0xFF, 0x64, 0x00, 0xD3, 0x24, 0xFF, 0xFF,
     0x65, 0x00, 0x35, 0x04, 0xD4, 0x24, 0xFF, 0xFF, 0x66, 0x00, 0xD5, 0x24,
     0xFF, 0xFF, 0x67, 0x00, 0xD6, 0x24, 0xFF, 0xFF, 0x68, 0x00, 0xD7, 0x24,
     0xFF, 0xFF, 0x69, 0x00, 0x56, 0x04, 0xD8, 0x24, 0xFF, 0xFF, 0x6A, 0x00,
     0x58, 0x04, 0xD9, 0x24, 0xFF, 0xFF, 0x6B, 0x00, 0xDA, 0x24, 0xFF, 0xFF,
     0x6C, 0x00, 0xDB, 0x24, 0xFF, 0xFF, 0x6D, 0x00, 0xDC, 0x24, 0xFF, 0xFF,
     0x6E, 0x00, 0xDD, 0x24, 0xFF, 0xFF, 0x6F, 0x00, 0x3E, 0x04, 0xDE, 0x24]"

definition consFont28 :: "uchar list" where
  "consFont28 =
    [0xFF, 0xFF, 0x70, 0x00, 0x40, 0x04, 0xDF, 0x24, 0xFF, 0xFF, 0x71, 0x00,
     0xE0, 0x24, 0xFF, 0xFF, 0x72, 0x00, 0xE1, 0x24, 0xFF, 0xFF, 0x73, 0x00,
     0x55, 0x04, 0x73, 0x00, 0xE2, 0x24, 0xFF, 0xFF, 0x74, 0x00, 0xE3, 0x24,
     0xFF, 0xFF, 0x75, 0x00, 0xE4, 0x24, 0xFF, 0xFF, 0x76, 0x00, 0xE5, 0x24,
     0xFF, 0xFF, 0x77, 0x00, 0xE6, 0x24, 0xFF, 0xFF, 0x78, 0x00, 0x45, 0x04,
     0xE7, 0x24, 0xFF, 0xFF, 0x79, 0x00, 0x43, 0x04, 0xE8, 0x24, 0xFF, 0xFF,
     0x7A, 0x00, 0xE9, 0x24, 0xFF, 0xFF, 0x7B, 0x00, 0xFF, 0xFF, 0x7C, 0x00,
     0xFF, 0xFF, 0x7D, 0x00, 0xFF, 0xFF, 0x7E, 0x00, 0xFF, 0xFF, 0xFF, 0xFF,
     0xFF, 0xFF, 0xFF, 0xFF, 0xFF, 0xFF, 0xFF, 0xFF, 0xFF, 0xFF, 0xFF, 0xFF,
     0xFF, 0xFF, 0xFF, 0xFF, 0xFF, 0xFF, 0xFF, 0xFF, 0xFF, 0xFF, 0xFF, 0xFF,
     0xFF, 0xFF, 0xFF, 0xFF, 0xFF, 0xFF, 0xFF, 0xFF, 0xFF, 0xFF, 0xFF, 0xFF,
     0xFF, 0xFF, 0xFF, 0xFF, 0xFF, 0xFF, 0xFF, 0xFF, 0xFF, 0xFF, 0xFF, 0xFF,
     0xFF, 0xFF, 0xFF, 0xFF, 0xFF, 0xFF, 0xFF, 0xFF, 0xFF, 0xFF, 0xFF, 0xFF,
     0xFF, 0xFF, 0xFF, 0xFF, 0xFF, 0xFF, 0xFF, 0xFF, 0xFF, 0xFF, 0xFF, 0xFF,
     0xFF, 0xFF, 0xFF, 0xFF, 0xFF, 0xFF, 0xFF, 0xFF, 0xFF, 0xFF, 0xFF, 0xFF,
     0xFF, 0xFF, 0xFF, 0xFF, 0xFF, 0xFF, 0xFF, 0xFF, 0xFF, 0xFF, 0xFF, 0xFF,
     0xFF, 0xFF, 0xFF, 0xFF, 0xFF, 0xFF, 0xFF, 0xFF, 0xFF, 0xFF, 0xFF, 0xFF,
     0xFF, 0xFF, 0xFF, 0xFF, 0xFF, 0xFF, 0xFF, 0xFF, 0xFF, 0xFF, 0xFF, 0xFF,
     0xFF, 0xFF, 0xFF, 0xFF, 0xFF, 0xFF, 0xFF, 0xFF, 0xFF, 0xFF, 0xFF, 0xFF,
     0xFF, 0xFF, 0xFF, 0xFF, 0xFF, 0xFF, 0xFF, 0xFF, 0xFF, 0xFF, 0xFF, 0xFF,
     0xFF, 0xFF, 0xFF, 0xFF, 0xFF, 0xFF, 0xFF, 0xFF, 0xFF, 0xFF, 0xFF, 0xFF,
     0xFF, 0xFF, 0xFF, 0xFF, 0xFF, 0xFF, 0xFF, 0xFF, 0xFF, 0xFF, 0xFF, 0xFF,
     0xFF, 0xFF, 0xFF, 0xFF, 0xFF, 0xFF, 0xFF, 0xFF, 0xFF, 0xFF, 0xFF, 0xFF,
     0xFF, 0xFF, 0xFF, 0xFF, 0xFF, 0xFF, 0xFF, 0xFF, 0xFF, 0xFF, 0xFF, 0xFF]"

definition consFont29 :: "uchar list" where
  "consFont29 =
    [0xFF, 0xFF, 0xFF, 0xFF, 0xFF, 0xFF, 0xFF, 0xFF, 0xFF, 0xFF, 0xFF, 0xFF,
     0xFF, 0xFF, 0xFF, 0xFF, 0xFF, 0xFF, 0xFF, 0xFF, 0xFF, 0xFF, 0xFF, 0xFF,
     0xFF, 0xFF, 0xFF, 0xFF, 0xFF, 0xFF, 0xFF, 0xFF, 0xFF, 0xFF, 0xFF, 0xFF,
     0xFF, 0xFF, 0xFF, 0xFF, 0xFF, 0xFF, 0xFF, 0xFF, 0xFF, 0xFF, 0xFF, 0xFF,
     0xFF, 0xFF, 0xFF, 0xFF, 0xFF, 0xFF, 0xFF, 0xFF, 0xFF, 0xFF, 0xFF, 0xFF,
     0xFF, 0xFF, 0xFF, 0xFF, 0xFF, 0xFF, 0xFF, 0xFF, 0xFF, 0xFF, 0xFF, 0xFF,
     0xFF, 0xFF, 0xFF, 0xFF, 0xFF, 0xFF, 0xFF, 0xFF, 0xFF, 0xFF, 0xFF, 0xFF,
     0xFF, 0xFF, 0xFF, 0xFF, 0xFF, 0xFF, 0xFF, 0xFF, 0xFF, 0xFF, 0xFF, 0xFF,
     0xFF, 0xFF, 0xFF, 0xFF, 0xFF, 0xFF, 0xFF, 0xFF, 0xFF, 0xFF, 0xFF, 0xFF,
     0xFF, 0xFF, 0xFF, 0xFF, 0xFF, 0xFF, 0xFF, 0xFF, 0xFF, 0xFF, 0xFF, 0xFF,
     0xFF, 0xFF, 0xFF, 0xFF, 0xFF, 0xFF, 0xFF, 0xFF, 0xFF, 0xFF, 0xFF, 0xFF,
     0xFF, 0xFF, 0xFF, 0xFF, 0xFF, 0xFF, 0xFF, 0xFF, 0xFF, 0xFF, 0xFF, 0xFF,
     0xFF, 0xFF, 0xFF, 0xFF, 0xFF, 0xFF, 0xFF, 0xFF, 0xFF, 0xFF, 0xFF, 0xFF,
     0xFF, 0xFF, 0xFF, 0xFF, 0xFF, 0xFF, 0xFF, 0xFF, 0xFF, 0xFF, 0xFF, 0xFF,
     0xFF, 0xFF, 0xFF, 0xFF, 0xFF, 0xFF, 0xFF, 0xFF, 0xFF, 0xFF, 0xFF, 0xFF,
     0xFF, 0xFF, 0xFF, 0xFF, 0xFF, 0xFF, 0xFF, 0xFF, 0xFF, 0xFF, 0xFF, 0xFF,
     0xFF, 0xFF, 0xFF, 0xFF, 0xFF, 0xFF, 0xFF, 0xFF, 0xFF, 0xFF, 0xFF, 0xFF,
     0xFF, 0xFF, 0xFF, 0xFF, 0xFF, 0xFF, 0xFF, 0xFF, 0xFF, 0xFF, 0xFF, 0xFF,
     0xFF, 0xFF, 0xFF, 0xFF, 0xFF, 0xFF, 0xFF, 0xFF, 0xFF, 0xFF, 0xFF, 0xFF,
     0xFF, 0xFF, 0xFF, 0xFF, 0xFF, 0xFF, 0xFF, 0xFF, 0xFF, 0xFF, 0xFF, 0xFF,
     0xFF, 0xFF, 0xFF, 0xFF, 0xFF, 0xFF, 0xFF, 0xFF, 0xFF, 0xFF, 0xFF, 0xFF,
     0xFF, 0xFF, 0xFF, 0xFF, 0xFF, 0xFF, 0xFF, 0xFF, 0xFF, 0xFF, 0xFF, 0xFF,
     0xFF, 0xFF, 0xFF, 0xFF, 0xFF, 0xFF, 0xFF, 0xFF, 0xFF, 0xFF, 0xFF, 0xFF,
     0xFF, 0xFF, 0xFF, 0xFF, 0xFF, 0xFF, 0xFF, 0xFF, 0xFF, 0xFF, 0xFF, 0xFF]"

definition consFont30 :: "uchar list" where
  "consFont30 =
    [0xFF, 0xFF, 0xFF, 0xFF, 0xFF, 0xFF, 0xFF, 0xFF, 0xFF, 0xFF, 0xFF, 0xFF,
     0xFF, 0xFF, 0xFF, 0xFF, 0xFF, 0xFF, 0xFF, 0xFF, 0xFF, 0xFF, 0xFF, 0xFF,
     0xFF, 0xFF, 0xFF, 0xFF, 0xFF, 0xFF, 0xFF, 0xFF, 0xFF, 0xFF, 0xFF, 0xFF,
     0xFF, 0xFF, 0xFF, 0xFF, 0xFF, 0xFF, 0xFF, 0xFF, 0xFF, 0xFF, 0xFF, 0xFF,
     0xFF, 0xFF, 0xFF, 0xFF, 0xFF, 0xFF, 0xFF, 0xFF, 0xFF, 0xFF, 0xFF, 0xFF,
     0xFF, 0xFF, 0xFF, 0xFF, 0xFF, 0xFF, 0xFF, 0xFF, 0xFF, 0xFF, 0xFF, 0xFF,
     0xFF, 0xFF, 0xFF, 0xFF, 0xFF, 0xFF, 0xFF, 0xFF, 0xFF, 0xFF, 0xFF, 0xFF,
     0xFF, 0xFF, 0xFF, 0xFF, 0xFF, 0xFF, 0xFF, 0xFF, 0xFF, 0xFF, 0xFF, 0xFF,
     0xFF, 0xFF, 0xFF, 0xFF, 0xFF, 0xFF, 0xFF, 0xFF, 0xFF, 0xFF, 0xFF, 0xFF,
     0xFF, 0xFF, 0xFF, 0xFF, 0xFF, 0xFF, 0xFF, 0xFF, 0xFF, 0xFF, 0xFF, 0xFF,
     0xFF, 0xFF, 0xFF, 0xFF, 0xFF, 0xFF, 0xFF, 0xFF, 0xFF, 0xFF, 0xFF, 0xFF,
     0xFF, 0xFF, 0xFF, 0xFF, 0xFF, 0xFF, 0xFF, 0xFF, 0xFF, 0xFF, 0xFF, 0xFF,
     0xFF, 0xFF, 0xFF, 0xFF, 0xFF, 0xFF, 0xFF, 0xFF, 0xFF, 0xFF, 0xFF, 0xFF,
     0xFF, 0xFF, 0xFF, 0xFF, 0xFF, 0xFF, 0xFF, 0xFF, 0xFF, 0xFF, 0xFF, 0xFF,
     0xFF, 0xFF, 0xFF, 0xFF, 0xFF, 0xFF, 0xFF, 0xFF, 0xFF, 0xFF, 0xFF, 0xFF,
     0xFF, 0xFF, 0xFF, 0xFF, 0xFF, 0xFF, 0xFF, 0xFF, 0xFF, 0xFF, 0xFF, 0xFF,
     0xFF, 0xFF, 0xFF, 0xFF, 0xFF, 0xFF, 0xFF, 0xFF, 0xFF, 0xFF, 0xFF, 0xFF,
     0xFF, 0xFF, 0xFF, 0xFF, 0xFF, 0xFF, 0xFF, 0xFF, 0xFF, 0xFF, 0xFF, 0xFF,
     0xFF, 0xFF, 0xFF, 0xFF, 0xFF, 0xFF, 0xFF, 0xFF, 0xFF, 0xFF, 0xFF, 0xFF,
     0xFF, 0xFF, 0xFF, 0xFF, 0xFF, 0xFF, 0xFF, 0xFF, 0xFF, 0xFF, 0xFF, 0xFF,
     0xFF, 0xFF, 0xFF, 0xFF, 0xFF, 0xFF, 0xFF, 0xFF, 0xFF, 0xFF, 0xFF, 0xFF,
     0xFF, 0xFF, 0xFF, 0xFF, 0xFF, 0xFF, 0xFF, 0xFF, 0xFF, 0xFF, 0xFF, 0xFF,
     0xFF, 0xFF, 0xFF, 0xFF, 0xFF, 0xFF, 0xFF, 0xFF, 0xFF, 0xFF, 0xFF, 0xFF,
     0xFF, 0xFF, 0xFF, 0xFF, 0xFF, 0xFF, 0xFF, 0xFF, 0xFF, 0xFF, 0xFF, 0xFF]"

definition g_consFont :: "uchar list" where
  "g_consFont =
     concat [consFont1, consFont2, consFont3, consFont4, consFont5, consFont6,
       consFont7, consFont8, consFont9, consFont10, consFont11, consFont12,
       consFont13, consFont14, consFont15, consFont16, consFont17, consFont18,
       consFont19, consFont20, consFont21, consFont22, consFont23, consFont24,
       consFont25, consFont26, consFont27, consFont28, consFont29, consFont30]"

lemma consFont_lengths:
  "length consFont1 = 288" "length consFont2 = 288" "length consFont3 = 288" "length consFont4 = 288" "length consFont5 = 288" "length consFont6 = 288"
  "length consFont7 = 288" "length consFont8 = 288" "length consFont9 = 288" "length consFont10 = 288" "length consFont11 = 288" "length consFont12 = 288"
  "length consFont13 = 288" "length consFont14 = 288" "length consFont15 = 288" "length consFont16 = 288" "length consFont17 = 288" "length consFont18 = 288"
  "length consFont19 = 288" "length consFont20 = 288" "length consFont21 = 288" "length consFont22 = 288" "length consFont23 = 288" "length consFont24 = 288"
  "length consFont25 = 288" "length consFont26 = 288" "length consFont27 = 288" "length consFont28 = 288" "length consFont29 = 288" "length consFont30 = 288"
  by (simp_all add: consFont1_def consFont2_def consFont3_def consFont4_def consFont5_def consFont6_def
    consFont7_def consFont8_def consFont9_def consFont10_def consFont11_def consFont12_def
    consFont13_def consFont14_def consFont15_def consFont16_def consFont17_def consFont18_def
    consFont19_def consFont20_def consFont21_def consFont22_def consFont23_def consFont24_def
    consFont25_def consFont26_def consFont27_def consFont28_def consFont29_def consFont30_def)

lemma g_consFont_length: "length g_consFont = 8640"
  by (simp add: g_consFont_def consFont_lengths)

lemma g_consFont_header: "take 4 g_consFont = [0x36, 0x04, 0x03, 0x0E]"
  by (simp add: g_consFont_def consFont1_def)

end
