(* ===== verification/BootVid.thy ===== *)
theory BootVid
  imports BootPack ObjectStore ConsFont
begin

text \<open>
  The boot console \<^verbatim>\<open>drv/bootvid/vidCore.c\<close> and its two users: the boot screen
  \<^verbatim>\<open>ke/bootScreen.c\<close> and the printing of a bug check \<^verbatim>\<open>ke/bugCheck.c\<close>. The framebuffer is the
  list of its pixels, a write past its end faults. The drawing code reads the font through a
  pointer to a font file, the argument \<open>font\<close>; \<open>font_table\<close> says what the proofs need of that
  file, and the kernel's \<^verbatim>\<open>g_consFont\<close> has it.
\<close>

section \<open>Drawing\<close>

definition FONT_HDRLEN :: nat where "FONT_HDRLEN = 4"
definition FONT_WIDTH :: ulong where "FONT_WIDTH = 8"
definition FONT_HEIGHT :: ulong where "FONT_HEIGHT = 20"

definition font_table :: "uchar list \<Rightarrow> bool" where
  "font_table font \<longleftrightarrow> take FONT_HDRLEN font = [0x36, 0x04, 0x03, 0x0E] \<and> length font = 8640"

definition chSize :: "uchar list \<Rightarrow> usize outcome" where
  "chSize font = andthen (get font 3) (\<lambda>c. Done (ucast c))"

record BOOTVID_CHAR =
  bv_x :: ulong
  bv_y :: ulong
  bv_fg :: ulong
  bv_bg :: ulong
  bv_ch :: uchar

definition fbGetIdx :: "ulong \<Rightarrow> ulong \<Rightarrow> ulong \<Rightarrow> ulong" where
  "fbGetIdx pitch x y = x + y * (pitch div 4)"

definition setPixel :: "ulong \<Rightarrow> ulong \<Rightarrow> ulong list \<Rightarrow> ulong list outcome" where
  "setPixel idx color fb = (if unat idx < length fb then Done (fb[unat idx := color]) else Fault)"

text \<open>
  A glyph byte at the signed offset \<open>o\<close> from the start of the font. \<^verbatim>\<open>BIT(8 - cx)\<close> is one of the
  bits 8 to 1: the mask of the first column is always clear.
\<close>

definition fontByte :: "uchar list \<Rightarrow> int \<Rightarrow> uchar outcome" where
  "fontByte font i = (if 0 \<le> i then get font (nat i) else Fault)"

fun drawCols :: "ulong \<Rightarrow> BOOTVID_CHAR \<Rightarrow> uchar \<Rightarrow> nat \<Rightarrow> nat \<Rightarrow> ulong list \<Rightarrow> ulong list outcome" where
  "drawCols pitch chp row cy 0 fb = Done fb"
| "drawCols pitch chp row cy (Suc cx) fb =
     andthen (drawCols pitch chp row cy cx fb) (\<lambda>fb1.
       let color = (if (ucast row :: uquad) AND push_bit (8 - cx) 1 \<noteq> 0 then bv_fg chp else bv_bg chp)
       in setPixel (fbGetIdx pitch (bv_x chp + of_nat cx) (bv_y chp + of_nat cy)) color fb1)"

fun drawRows :: "uchar list \<Rightarrow> usize \<Rightarrow> ulong \<Rightarrow> BOOTVID_CHAR \<Rightarrow> nat \<Rightarrow> ulong list \<Rightarrow> ulong list outcome" where
  "drawRows font sz pitch chp 0 fb = Done fb"
| "drawRows font sz pitch chp (Suc cy) fb =
     andthen (drawRows font sz pitch chp cy fb) (\<lambda>fb1.
     andthen (fontByte font (int FONT_HDRLEN + sint (bv_ch chp) * uint sz + int cy)) (\<lambda>row.
       drawCols pitch chp row cy 8 fb1))"

definition params0 :: bootParams where
  "params0 = \<lparr>bp_fbParams = \<lparr>fb_io = 0, fb_width = 0, fb_height = 0, fb_pitch = 0, fb_bpp = 0\<rparr>, acpiRsdp = 0\<rparr>"

definition withParams :: "boot_responses \<Rightarrow> (ntstatus \<Rightarrow> fbParams \<Rightarrow> 'a outcome) \<Rightarrow> 'a outcome" where
  "withParams br f =
     andthen (keGetBootParams br (Some params0)) (\<lambda>(status, params).
       case params of None \<Rightarrow> Fault | Some bp \<Rightarrow> f status (bp_fbParams bp))"

definition bootVidDrawCh :: "uchar list \<Rightarrow> boot_responses \<Rightarrow> BOOTVID_CHAR option \<Rightarrow> ulong list \<Rightarrow>
    (int \<times> ulong list) outcome" where
  "bootVidDrawCh font br chp fb =
     (case chp of None \<Rightarrow> Done (- 1, fb)
      | Some c \<Rightarrow>
          withParams br (\<lambda>status p.
            if status \<noteq> STATUS_SUCCESS then Done (sint status, fb)
            else andthen (chSize font) (\<lambda>sz.
              andthen (drawRows font sz (fb_pitch p) c (unat sz) fb) (\<lambda>fb1. Done (0, fb1)))))"

fun printChars :: "uchar list \<Rightarrow> boot_responses \<Rightarrow> ulong \<Rightarrow> uchar list \<Rightarrow> BOOTVID_CHAR \<Rightarrow> ulong list \<Rightarrow>
    ulong list outcome" where
  "printChars font br x [] ch fb = Done fb"
| "printChars font br x (c # cs) ch fb =
     (if c = 10 then printChars font br x cs (ch\<lparr>bv_ch := c, bv_y := bv_y ch + FONT_HEIGHT, bv_x := x\<rparr>) fb
      else andthen (bootVidDrawCh font br (Some (ch\<lparr>bv_ch := c\<rparr>)) fb) (\<lambda>(_, fb1).
        printChars font br x cs (ch\<lparr>bv_ch := c, bv_x := bv_x ch + FONT_WIDTH\<rparr>) fb1))"

definition bootVidPrint :: "uchar list \<Rightarrow> boot_responses \<Rightarrow> ulong \<Rightarrow> ulong \<Rightarrow> ulong \<Rightarrow> ulong \<Rightarrow> uchar list option \<Rightarrow>
    ulong list \<Rightarrow> (int \<times> ulong list) outcome" where
  "bootVidPrint font br x y fg bg str fb =
     (case str of None \<Rightarrow> Done (- 1, fb)
      | Some s \<Rightarrow>
          andthen (rtlStrlen (Some s)) (\<lambda>n.
            andthen (printChars font br x (take (unat (ucast n :: ulong)) s)
                \<lparr>bv_x = x, bv_y = y, bv_fg = fg, bv_bg = bg, bv_ch = 0\<rparr> fb)
              (\<lambda>fb1. Done (0, fb1))))"

fun clearPixels :: "ulong \<Rightarrow> nat \<Rightarrow> ulong list \<Rightarrow> ulong list outcome" where
  "clearPixels rgb 0 fb = Done fb"
| "clearPixels rgb (Suc i) fb =
     andthen (clearPixels rgb i fb) (\<lambda>fb1. if i < length fb1 then Done (fb1[i := rgb]) else Fault)"

definition bootVidClear :: "boot_responses \<Rightarrow> ulong \<Rightarrow> ulong list \<Rightarrow> ulong list outcome" where
  "bootVidClear br rgb fb =
     withParams br (\<lambda>status p.
       if sint status < 0 then Done fb
       else let fbSize = ucast (fb_height p * fb_pitch p) :: usize
            in clearPixels rgb (unat fbSize div 4) fb)"

section \<open>The boot screen\<close>

text \<open>The macro \<^verbatim>\<open>CENTER_XPOS\<close>, converted to the parameter's 32 bits.\<close>

definition CENTER_XPOS :: "fbParams \<Rightarrow> uchar list \<Rightarrow> ulong outcome" where
  "CENTER_XPOS p str =
     andthen (rtlStrlen (Some str)) (\<lambda>n. Done (ucast (ucast (fb_width p div 2) - n * ucast FONT_WIDTH div 2)))"

definition kiBootScreen :: "uchar list \<Rightarrow> boot_responses \<Rightarrow> ulong list \<Rightarrow> ulong list outcome" where
  "kiBootScreen font br fb =
     (let bootMsg = bytes ''Starting ALGAE...'' @ [0];
          footMsg = bytes ''Copyright (c) 2025 Ian Moffett and the Algae team'' @ [0]
      in withParams br (\<lambda>status p.
        if status \<noteq> 0 then Panic ''assert error == 0 failed''
        else
          andthen (CENTER_XPOS p bootMsg) (\<lambda>x.
          andthen (bootVidPrint font br x (fb_height p div 2) 0xFFFFFF 0x000000 (Some bootMsg) fb) (\<lambda>(_, fb1).
          andthen (CENTER_XPOS p footMsg) (\<lambda>x2.
          andthen (bootVidPrint font br x2 (fb_height p - FONT_HEIGHT) 0xFFFFFF 0x000000 (Some footMsg) fb1) (\<lambda>(_, fb2).
            Done fb2))))))"

section \<open>Bug checks\<close>

definition BUG_CHECK_BG :: ulong where "BUG_CHECK_BG = 0x021AE1"
definition BUG_CHECK_FG :: ulong where "BUG_CHECK_FG = 0xFFFFFF"

text \<open>
  What a bug check leaves on the machine: the lock it took and never releases, the line it
  prints on next, and the screen. The message buffer is static, with its old content.
\<close>

record crash =
  cr_locked :: bool
  curLogLine :: ulong
  screen :: "ulong list"
  msgBuf :: "uchar list"

definition kiBugCheckPrint :: "uchar list \<Rightarrow> boot_responses \<Rightarrow> fbParams \<Rightarrow> ulong \<Rightarrow> ulong \<Rightarrow> uchar list \<Rightarrow>
    va_value list \<Rightarrow> crash \<Rightarrow> crash outcome" where
  "kiBugCheckPrint font br p fg bg fmt ap s =
     andthen (rtlBufPrintfV (msgBuf s) 256 fmt ap) (\<lambda>(_, msg).
     andthen (CENTER_XPOS p msg) (\<lambda>x.
     andthen (bootVidPrint font br x (curLogLine s * FONT_HEIGHT) fg bg (Some msg) (screen s)) (\<lambda>(_, fb).
       Done (s\<lparr>msgBuf := msg, screen := fb, curLogLine := curLogLine s + 1\<rparr>))))"

definition nextLine :: "crash \<Rightarrow> crash" where
  "nextLine s = s\<lparr>curLogLine := curLogLine s + 1\<rparr>"

text \<open>The stack walk \<^verbatim>\<open>halDumpStack\<close> over the frames \<open>(saved rbp, return address)\<close> that it meets.\<close>

function stackAddrToName :: "(uquad \<times> uchar list) list \<Rightarrow> uquad \<Rightarrow> uchar list \<Rightarrow> nat \<Rightarrow> uchar list outcome" where
  "stackAddrToName tbl addr name i =
     (if i < length tbl
      then case tbl ! i of (a, n) \<Rightarrow>
        if addr < a then Done name
        else if a = - 1 then Done (bytes ''???'' @ [0])
        else stackAddrToName tbl addr n (i + 1)
      else Fault)"
  by pat_completeness auto
termination
  by (relation "measure (\<lambda>(tbl, addr, name, i). length tbl - i)") auto

declare stackAddrToName.simps [simp del]

fun dumpFrames :: "uchar list \<Rightarrow> boot_responses \<Rightarrow> fbParams \<Rightarrow> (uquad \<times> uchar list) list \<Rightarrow> (uquad \<Rightarrow> (uquad \<times> uquad) option) \<Rightarrow>
    nat \<Rightarrow> uquad \<Rightarrow> uquad \<Rightarrow> crash \<Rightarrow> crash outcome" where
  "dumpFrames font br p tbl stk 0 i rbp s = Done s"
| "dumpFrames font br p tbl stk (Suc left) i rbp s =
     (case stk rbp of None \<Rightarrow> Fault
      | Some (rbp', rip) \<Rightarrow>
          andthen (stackAddrToName tbl rip (bytes ''???'' @ [0]) 0) (\<lambda>name.
          andthen (kiBugCheckPrint font br p BUG_CHECK_FG BUG_CHECK_BG (bytes ''[%d] %p - [%s]'' @ [0])
              [Int_arg i, Int_arg rip, Str_arg name] s) (\<lambda>s1.
            if rbp' = 0 \<or> rip = 0 then Done s1
            else dumpFrames font br p tbl stk left (i + 1) rbp' s1)))"

definition halDumpStack :: "uchar list \<Rightarrow> boot_responses \<Rightarrow> fbParams \<Rightarrow> (uquad \<times> uchar list) list \<Rightarrow>
    (uquad \<Rightarrow> (uquad \<times> uquad) option) \<Rightarrow> uquad \<Rightarrow> crash \<Rightarrow> crash outcome" where
  "halDumpStack font br p tbl stk rbp s = dumpFrames font br p tbl stk 8 0 rbp s"

text \<open>\<^verbatim>\<open>vId\<close> is the core's number, \<open>None\<close> when there is no core structure yet; \<open>fmtbuf\<close> is static.\<close>

definition bugCheckDump :: "uchar list \<Rightarrow> boot_responses \<Rightarrow> fbParams \<Rightarrow> ushort option \<Rightarrow> uchar list \<Rightarrow>
    (crash \<Rightarrow> crash outcome) \<Rightarrow> uchar list \<Rightarrow> va_value list \<Rightarrow> crash \<Rightarrow> crash outcome" where
  "bugCheckDump font br p vId fmtbuf dump fmt ap s =
     andthen (kiBugCheckPrint font br p BUG_CHECK_BG 0xAAAAAA (bytes ''ALGAE BUGCHECK'' @ [0]) [] s) (\<lambda>s1.
     andthen (kiBugCheckPrint font br p BUG_CHECK_FG BUG_CHECK_BG
         (bytes ''A fatal error has occured and the system has been halted to prevent data loss or corruption'' @ [0]) []
         (nextLine s1)) (\<lambda>s2.
     andthen (kiBugCheckPrint font br p BUG_CHECK_FG BUG_CHECK_BG
         (bytes ''Please report this bug to ian@osmora.org'' @ [0]) [] s2) (\<lambda>s3.
     andthen (rtlBufPrintfV fmtbuf 256 fmt ap) (\<lambda>(_, txt).
     andthen (kiBugCheckPrint font br p BUG_CHECK_FG BUG_CHECK_BG txt [] (nextLine s3)) (\<lambda>s4.
     andthen (case vId of None \<Rightarrow> Done s4
        | Some v \<Rightarrow> kiBugCheckPrint font br p BUG_CHECK_FG BUG_CHECK_BG (bytes ''occured on cpu%d'' @ [10, 0]) [Int_arg (ucast v)] s4) (\<lambda>s5.
       dump (nextLine s5)))))))"

text \<open>
  \<^verbatim>\<open>keBugCheck\<close> up to the halt: \<open>None\<close> when its lock is taken already, in which case it spins
  for ever.
\<close>

definition keBugCheck :: "uchar list \<Rightarrow> boot_responses \<Rightarrow> ushort option \<Rightarrow> uchar list \<Rightarrow>
    (fbParams \<Rightarrow> crash \<Rightarrow> crash outcome) \<Rightarrow> uchar list \<Rightarrow> va_value list \<Rightarrow> crash \<Rightarrow> crash outcome option" where
  "keBugCheck font br vId fmtbuf dump fmt ap s =
     (if cr_locked s then None
      else Some (withParams br (\<lambda>_ p.
        andthen (bootVidClear br BUG_CHECK_BG (screen s)) (\<lambda>fb.
          bugCheckDump font br p vId fmtbuf (dump p) fmt ap (s\<lparr>cr_locked := True, screen := fb\<rparr>)))))"


section \<open>What a drawn character looks like\<close>

text \<open>
  The box of a character at \<open>(x, y)\<close> in a framebuffer of width \<open>W\<close>, and the colour of one of its
  pixels as the code draws it.
\<close>

definition in_box :: "nat \<Rightarrow> nat \<Rightarrow> nat \<Rightarrow> nat \<Rightarrow> nat \<Rightarrow> nat \<Rightarrow> bool" where
  "in_box W x y h w k \<longleftrightarrow> y \<le> k div W \<and> k div W < y + h \<and> x \<le> k mod W \<and> k mod W < x + w"

definition glyph_pixel :: "uchar list \<Rightarrow> BOOTVID_CHAR \<Rightarrow> nat \<Rightarrow> nat \<Rightarrow> ulong" where
  "glyph_pixel font c row col =
     (if col \<noteq> 0 \<and> bit (font ! (FONT_HDRLEN + unat (bv_ch c) * 14 + row)) (8 - col) then bv_fg c else bv_bg c)"

text \<open>The width in pixels, and where the character fits.\<close>

definition fits :: "ulong \<Rightarrow> BOOTVID_CHAR \<Rightarrow> ulong list \<Rightarrow> bool" where
  "fits pitch c fb \<longleftrightarrow> unat (bv_x c) + 8 \<le> unat (pitch div 4) \<and>
     (unat (bv_y c) + 14) * unat (pitch div 4) \<le> length fb \<and> length fb < 2 ^ 32"

lemma column_bit: "(ucast (row :: uchar) :: uquad) AND push_bit (8 - cx) 1 \<noteq> 0 \<longleftrightarrow> cx \<noteq> 0 \<and> bit row (8 - cx)"
proof -
  have "bit (ucast row :: uquad) (8 - cx) \<longleftrightarrow> bit row (8 - cx)"
    by (auto simp: bit_ucast_iff dest: bit_imp_le_length)
  moreover have "\<not> bit row 8" using bit_imp_le_length [of row 8] by auto
  ultimately show ?thesis unfolding and_push_bit_1 by (cases "cx = 0") auto
qed

lemma box_index:
  fixes W :: nat
  assumes "x + cx < W"
  shows "k = x + cx + (y + cy) * W \<longleftrightarrow> k div W = y + cy \<and> k mod W = x + cx"
proof
  assume "k = x + cx + (y + cy) * W"
  then show "k div W = y + cy \<and> k mod W = x + cx" using assms by simp
next
  assume "k div W = y + cy \<and> k mod W = x + cx"
  then show "k = x + cx + (y + cy) * W" using div_mult_mod_eq [of k W] by simp
qed

lemma fbGetIdx_unat:
  assumes "fits pitch c fb" "cx < 8" "cy < 14"
  shows "unat (fbGetIdx pitch (bv_x c + of_nat cx) (bv_y c + of_nat cy)) =
      unat (bv_x c) + cx + (unat (bv_y c) + cy) * unat (pitch div 4)"
    and "unat (bv_x c) + cx + (unat (bv_y c) + cy) * unat (pitch div 4) < length fb"
proof -
  let ?W = "unat (pitch div 4)" and ?x = "unat (bv_x c)" and ?y = "unat (bv_y c)"
  have f: "?x + 8 \<le> ?W" "(?y + 14) * ?W \<le> length fb" "length fb < 2 ^ 32" using assms(1) by (auto simp: fits_def)
  have "(?y + cy + 1) * ?W \<le> (?y + 14) * ?W" using assms(3) by (intro mult_le_mono1) simp
  then have "(?y + cy + 1) * ?W \<le> length fb" using f(2) by (rule le_trans)
  moreover have "(?y + cy + 1) * ?W = (?y + cy) * ?W + ?W" by simp
  ultimately show lt: "?x + cx + (?y + cy) * ?W < length fb" using f(1) assms(2) by linarith
  have "?y + cy < 2 ^ 32"
  proof -
    have "?y + cy \<le> (?y + cy) * ?W" using f(1) by simp
    then show ?thesis using lt f(3) by linarith
  qed
  then have y: "unat (bv_y c + of_nat cy) = ?y + cy"
    using assms(3) by (simp add: unat_plus_small unat_of_nat take_bit_nat_eq_self)
  have x: "unat (bv_x c + of_nat cx) = ?x + cx"
    using lt f(3) assms(2) by (simp add: unat_plus_small unat_of_nat take_bit_nat_eq_self)
  have m: "unat ((bv_y c + of_nat cy) * (pitch div 4)) = (?y + cy) * ?W"
    using y lt f(3) by (simp add: unat_mult_small)
  show "unat (fbGetIdx pitch (bv_x c + of_nat cx) (bv_y c + of_nat cy)) = ?x + cx + (?y + cy) * ?W"
    unfolding fbGetIdx_def using x m lt f(3) by (subst unat_plus_small) simp_all
qed

lemma drawCols_Suc:
  "drawCols pitch c row cy (Suc cx) fb = andthen (drawCols pitch c row cy cx fb)
     (setPixel (fbGetIdx pitch (bv_x c + of_nat cx) (bv_y c + of_nat cy))
       (if cx \<noteq> 0 \<and> bit row (8 - cx) then bv_fg c else bv_bg c))"
  by (simp only: drawCols.simps column_bit Let_def)

lemma drawCols_pixels:
  assumes "fits pitch c fb" "cy < 14"
  shows "cx \<le> 8 \<Longrightarrow> \<exists>fb'. drawCols pitch c row cy cx fb = Done fb' \<and> length fb' = length fb \<and>
    (\<forall>k < length fb. fb' ! k =
      (if k div unat (pitch div 4) = unat (bv_y c) + cy \<and> unat (bv_x c) \<le> k mod unat (pitch div 4) \<and>
          k mod unat (pitch div 4) < unat (bv_x c) + cx
       then if k mod unat (pitch div 4) \<noteq> unat (bv_x c) \<and> bit row (8 - (k mod unat (pitch div 4) - unat (bv_x c)))
         then bv_fg c else bv_bg c
       else fb ! k))"
proof (induction cx)
  case 0
  then show ?case by auto
next
  case (Suc cx)
  let ?W = "unat (pitch div 4)" and ?x = "unat (bv_x c)" and ?y = "unat (bv_y c)"
  from Suc obtain fb1 where fb1: "drawCols pitch c row cy cx fb = Done fb1" "length fb1 = length fb"
    "\<forall>k < length fb. fb1 ! k = (if k div ?W = ?y + cy \<and> ?x \<le> k mod ?W \<and> k mod ?W < ?x + cx
       then if k mod ?W \<noteq> ?x \<and> bit row (8 - (k mod ?W - ?x)) then bv_fg c else bv_bg c else fb ! k)" by auto
  have cx: "cx < 8" using Suc.prems by simp
  let ?i = "?x + cx + (?y + cy) * ?W"
  let ?col = "if cx \<noteq> 0 \<and> bit row (8 - cx) then bv_fg c else bv_bg c"
  have run: "drawCols pitch c row cy (Suc cx) fb = Done (fb1[?i := ?col])"
    using fb1 fbGetIdx_unat [OF assms(1) cx assms(2)] by (simp add: setPixel_def drawCols_Suc del: drawCols.simps)
  have "?x + cx < ?W" using assms(1) cx by (simp add: fits_def)
  note idx = box_index [OF this, of _ ?y cy]
  have "fb1[?i := ?col] ! k = (if k div ?W = ?y + cy \<and> ?x \<le> k mod ?W \<and> k mod ?W < ?x + Suc cx
       then if k mod ?W \<noteq> ?x \<and> bit row (8 - (k mod ?W - ?x)) then bv_fg c else bv_bg c else fb ! k)"
    if k: "k < length fb" for k
  proof (cases "k = ?i")
    case True
    with idx [of k] have "k div ?W = ?y + cy" "k mod ?W = ?x + cx" by blast+
    moreover have "fb1[?i := ?col] ! k = ?col" using True k fb1(2) by simp
    ultimately show ?thesis by simp
  next
    case False
    then have "fb1[?i := ?col] ! k = fb1 ! k" by simp
    moreover have "\<not> (k div ?W = ?y + cy \<and> k mod ?W = ?x + cx)" using False idx [of k] by blast
    ultimately show ?thesis using fb1(3) k by (auto simp: less_Suc_eq)
  qed
  with run fb1(2) show ?case by auto
qed


lemma fontByte_glyph:
  assumes "font_table font" "bv_ch c < 0x80" "cy < 14"
  shows "fontByte font (int FONT_HDRLEN + sint (bv_ch c) * uint (0x0E :: usize) + int cy) =
    Done (font ! (FONT_HDRLEN + unat (bv_ch c) * 14 + cy))"
proof -
  have u: "unat (bv_ch c) < 128" using assms(2) by (simp add: word_less_nat_alt)
  have i: "uint (bv_ch c) < 2 ^ 7" using assms(2) by (simp add: word_less_def)
  have "- (2 ^ 7) \<le> uint (bv_ch c)" by (rule order_trans [of _ 0]) simp_all
  then have "signed_take_bit 7 (uint (bv_ch c)) = uint (bv_ch c)" using i by (rule signed_take_bit_int_eq_self)
  then have "sint (bv_ch c) = uint (bv_ch c)" by (simp add: sint_uint)
  then have "sint (bv_ch c) = int (unat (bv_ch c))" by (simp only: uint_nat)
  then have "int FONT_HDRLEN + sint (bv_ch c) * uint (0x0E :: usize) + int cy = int (FONT_HDRLEN + unat (bv_ch c) * 14 + cy)"
    by simp
  moreover have "FONT_HDRLEN + unat (bv_ch c) * 14 + cy < length font"
    using assms(1,3) u by (simp add: font_table_def FONT_HDRLEN_def)
  ultimately show ?thesis by (simp only: fontByte_def get_def nat_int of_nat_0_le_iff if_True)
qed

lemma drawRows_pixels:
  assumes "font_table font" "bv_ch c < 0x80" "fits pitch c fb"
  shows "cy \<le> 14 \<Longrightarrow> \<exists>fb'. drawRows font 0x0E pitch c cy fb = Done fb' \<and> length fb' = length fb \<and>
    (\<forall>k < length fb. fb' ! k =
      (if in_box (unat (pitch div 4)) (unat (bv_x c)) (unat (bv_y c)) cy 8 k
       then glyph_pixel font c (k div unat (pitch div 4) - unat (bv_y c)) (k mod unat (pitch div 4) - unat (bv_x c))
       else fb ! k))"
proof (induction cy)
  case 0
  have "\<not> in_box W x y 0 8 k" for W x y k by (auto simp: in_box_def)
  then show ?case by simp
next
  case (Suc cy)
  let ?W = "unat (pitch div 4)" and ?x = "unat (bv_x c)" and ?y = "unat (bv_y c)"
  from Suc obtain fb1 where fb1: "drawRows font 0x0E pitch c cy fb = Done fb1" "length fb1 = length fb"
    "\<forall>k < length fb. fb1 ! k = (if in_box ?W ?x ?y cy 8 k then glyph_pixel font c (k div ?W - ?y) (k mod ?W - ?x) else fb ! k)"
    by auto
  have cy: "cy < 14" using Suc.prems by simp
  let ?row = "font ! (FONT_HDRLEN + unat (bv_ch c) * 14 + cy)"
  have "fits pitch c fb1" using assms(3) fb1(2) by (simp add: fits_def)
  from drawCols_pixels [OF this cy, of 8 ?row] obtain fb2 where fb2: "drawCols pitch c ?row cy 8 fb1 = Done fb2" "length fb2 = length fb"
    "\<forall>k < length fb. fb2 ! k = (if k div ?W = ?y + cy \<and> ?x \<le> k mod ?W \<and> k mod ?W < ?x + 8
       then if k mod ?W \<noteq> ?x \<and> bit ?row (8 - (k mod ?W - ?x)) then bv_fg c else bv_bg c else fb1 ! k)"
    using fb1(2) by auto
  have run: "drawRows font 0x0E pitch c (Suc cy) fb = Done fb2"
    using fb1(1) fb2(1) fontByte_glyph [OF assms(1,2) cy] by (simp del: drawCols.simps)
  have "fb2 ! k = (if in_box ?W ?x ?y (Suc cy) 8 k then glyph_pixel font c (k div ?W - ?y) (k mod ?W - ?x) else fb ! k)"
    if k: "k < length fb" for k
  proof (cases "k div ?W = ?y + cy \<and> ?x \<le> k mod ?W \<and> k mod ?W < ?x + 8")
    case True
    then have "in_box ?W ?x ?y (Suc cy) 8 k" by (simp add: in_box_def)
    moreover have "fb2 ! k = glyph_pixel font c (k div ?W - ?y) (k mod ?W - ?x)"
      using True fb2(3) k by (auto simp: glyph_pixel_def)
    ultimately show ?thesis by simp
  next
    case False
    then have "in_box ?W ?x ?y (Suc cy) 8 k = in_box ?W ?x ?y cy 8 k" by (auto simp: in_box_def)
    then show ?thesis using False fb2(3) fb1(3) k by auto
  qed
  with run fb2(2) show ?case by blast
qed

lemma bootVidDrawCh_box:
  assumes "font_table font" "bv_ch c < 0x80" "frameBufResp br = Some (f # fs)" "rsdpResp br = Some r"
    and "fits (ucast (lfb_pitch f)) c fb" "W = unat (ucast (lfb_pitch f) div (4 :: ulong))"
  shows "\<exists>fb'. bootVidDrawCh font br (Some c) fb = Done (0, fb') \<and> length fb' = length fb \<and>
    (\<forall>k < length fb. fb' ! k =
      (if in_box W (unat (bv_x c)) (unat (bv_y c)) 14 8 k
       then glyph_pixel font c (k div W - unat (bv_y c)) (k mod W - unat (bv_x c)) else fb ! k))"
proof -
  have "font ! 3 = take FONT_HDRLEN font ! 3" by (simp add: FONT_HDRLEN_def)
  also have "\<dots> = 0x0E" using assms(1) by (simp only: font_table_def) simp
  finally have "chSize font = Done 0x0E"
    using assms(1) by (simp add: chSize_def get_def font_table_def)
  then have run: "bootVidDrawCh font br (Some c) fb =
      andthen (drawRows font 0x0E (ucast (lfb_pitch f)) c 14 fb) (\<lambda>fb1. Done (0, fb1))"
    using assms(3,4)
    by (simp add: bootVidDrawCh_def withParams_def keGetBootParams_def getFbParams_def params0_def del: drawRows.simps)
  obtain fb' where "drawRows font 0x0E (ucast (lfb_pitch f)) c 14 fb = Done fb'" "length fb' = length fb"
    "\<forall>k < length fb. fb' ! k = (if in_box W (unat (bv_x c)) (unat (bv_y c)) 14 8 k
       then glyph_pixel font c (k div W - unat (bv_y c)) (k mod W - unat (bv_x c)) else fb ! k)"
    using drawRows_pixels [OF assms(1,2,5), of 14] unfolding assms(6) by blast
  then show ?thesis unfolding run by (intro exI [of _ fb']) simp
qed

lemma g_consFont_table: "font_table g_consFont"
  by (simp add: font_table_def FONT_HDRLEN_def g_consFont_length g_consFont_header)

text \<open>
  C38 (drawing a character). With a framebuffer and firmware tables in the loader's responses, for a 7-bit character of the console font that fits on the screen, \<^verbatim>\<open>bootVidDrawCh\<close>
  stays inside the framebuffer and the font, writes exactly the 8 by 14 box at the given
  position and leaves every other pixel. The glyph appears one column to the right: the first
  column is always background, and bit 0 of each glyph row is never shown.
\<close>

theorem bootVidDrawCh_pixels:
  assumes "bv_ch c < 0x80" "frameBufResp br = Some (f # fs)" "rsdpResp br = Some r"
    and "fits (ucast (lfb_pitch f)) c fb" "W = unat (ucast (lfb_pitch f) div (4 :: ulong))"
  shows "\<exists>fb'. bootVidDrawCh g_consFont br (Some c) fb = Done (0, fb') \<and> length fb' = length fb \<and>
    (\<forall>k < length fb. fb' ! k =
      (if in_box W (unat (bv_x c)) (unat (bv_y c)) 14 8 k
       then glyph_pixel g_consFont c (k div W - unat (bv_y c)) (k mod W - unat (bv_x c)) else fb ! k))"
  using bootVidDrawCh_box [OF g_consFont_table assms] .

text \<open>The third row of the letter A.\<close>

lemma g_consFont_A: "g_consFont ! (FONT_HDRLEN + 65 * 14 + 2) = 0x3C"
proof -
  have "g_consFont ! 916 = consFont4 ! 52"
    by (simp add: g_consFont_def nth_append consFont_lengths)
  then show ?thesis by (simp add: FONT_HDRLEN_def consFont4_def)
qed

definition demo_screen :: boot_responses where
  "demo_screen = \<lparr>frameBufResp = Some [\<lparr>lfb_address = 0, lfb_width = 10, lfb_height = 14, lfb_pitch = 40, lfb_bpp = 32\<rparr>],
     hhdmResponse = None, rsdpResp = Some 0, modResp = None\<rparr>"

theorem bootVidDrawCh_pixels_witness:
  "\<exists>fb'. bootVidDrawCh g_consFont demo_screen (Some \<lparr>bv_x = 1, bv_y = 0, bv_fg = 7, bv_bg = 3, bv_ch = 65\<rparr>) (replicate 140 0) =
      Done (0, fb') \<and> fb' ! 24 = 7 \<and> fb' ! 23 = 3 \<and> fb' ! 20 = 0"
proof -
  let ?c = "\<lparr>bv_x = 1, bv_y = 0, bv_fg = 7, bv_bg = 3, bv_ch = 65\<rparr>" and ?f = "hd (the (frameBufResp demo_screen))"
  have "frameBufResp demo_screen = Some (?f # [])" "rsdpResp demo_screen = Some 0" by (simp_all add: demo_screen_def)
  moreover have "fits (ucast (lfb_pitch ?f)) ?c (replicate 140 0)" by (simp add: fits_def demo_screen_def)
  moreover have "10 = unat (ucast (lfb_pitch ?f) div (4 :: ulong))" by (simp add: demo_screen_def)
  ultimately obtain fb' where fb': "bootVidDrawCh g_consFont demo_screen (Some ?c) (replicate 140 0) = Done (0, fb')"
    "\<forall>k < 140. fb' ! k = (if in_box 10 1 0 14 8 k then glyph_pixel g_consFont ?c (k div 10) (k mod 10 - 1) else 0)"
    using bootVidDrawCh_pixels [of ?c demo_screen ?f "[]" 0 "replicate 140 0" 10] by (auto simp: word_less_nat_alt)
  have "glyph_pixel g_consFont ?c 2 3 = 7" "glyph_pixel g_consFont ?c 2 2 = 3"
    using g_consFont_A by (simp_all add: glyph_pixel_def bit_numeral_rec)
  moreover have "in_box 10 1 0 14 8 24" "in_box 10 1 0 14 8 23" "\<not> in_box 10 1 0 14 8 20" by (simp_all add: in_box_def)
  ultimately show ?thesis using fb' by auto
qed

end
