(* ===== verification/Lists.thy ===== *)
theory Lists
  imports Tailq
begin

text \<open>
  The rest of \<^verbatim>\<open>ntos/include/rtl/queue.h\<close>: the doubly linked lists (\<^verbatim>\<open>LIST_\<close> macros, whose head has
  no tail pointer) and the loops that visit a queue backwards or allow the visited element to be
  removed. Heads and elements are named as in the tail queues, and \<^verbatim>\<open>le_prev\<close> holds the address of a
  cell in the same way. The build does not define \<^verbatim>\<open>QUEUEDEBUG\<close>, so its checks are empty.
\<close>

section \<open>The macros\<close>

record lists =
  le_next :: "elem \<Rightarrow> elem option"
  le_prev :: "elem \<Rightarrow> cell"
  lh_first :: "head \<Rightarrow> elem option"

fun putCell :: "cell \<Rightarrow> elem option \<Rightarrow> lists \<Rightarrow> lists" where
  "putCell (First_of q) v h = h\<lparr>lh_first := (lh_first h)(q := v)\<rparr>"
| "putCell (Next_of e) v h = h\<lparr>le_next := (le_next h)(e := v)\<rparr>"

definition put_prev :: "elem \<Rightarrow> cell \<Rightarrow> lists \<Rightarrow> lists" where
  "put_prev e c h = h\<lparr>le_prev := (le_prev h)(e := c)\<rparr>"

definition LIST_FIRST :: "lists \<Rightarrow> head \<Rightarrow> elem option" where
  "LIST_FIRST h q = lh_first h q"

definition LIST_NEXT :: "lists \<Rightarrow> elem \<Rightarrow> elem option" where
  "LIST_NEXT h e = le_next h e"

definition LIST_EMPTY :: "lists \<Rightarrow> head \<Rightarrow> bool" where
  "LIST_EMPTY h q \<longleftrightarrow> lh_first h q = None"

definition LIST_INIT :: "head \<Rightarrow> lists \<Rightarrow> lists" where
  "LIST_INIT q h = putCell (First_of q) None h"

definition LIST_INSERT_AFTER :: "elem \<Rightarrow> elem \<Rightarrow> lists \<Rightarrow> lists" where
  "LIST_INSERT_AFTER l e h =
     (let h1 = putCell (Next_of e) (le_next h l) h;
          h2 = (case le_next h l of Some n \<Rightarrow> put_prev n (Next_of e) h1 | None \<Rightarrow> h1);
          h3 = putCell (Next_of l) (Some e) h2
      in put_prev e (Next_of l) h3)"

definition LIST_INSERT_BEFORE :: "elem \<Rightarrow> elem \<Rightarrow> lists \<Rightarrow> lists" where
  "LIST_INSERT_BEFORE l e h =
     (let h1 = put_prev e (le_prev h l) h;
          h2 = putCell (Next_of e) (Some l) h1;
          h3 = putCell (le_prev h2 l) (Some e) h2
      in put_prev l (Next_of e) h3)"

definition LIST_INSERT_HEAD :: "head \<Rightarrow> elem \<Rightarrow> lists \<Rightarrow> lists" where
  "LIST_INSERT_HEAD q e h =
     (let h1 = putCell (Next_of e) (lh_first h q) h;
          h2 = (case lh_first h q of Some f \<Rightarrow> put_prev f (Next_of e) h1 | None \<Rightarrow> h1);
          h3 = putCell (First_of q) (Some e) h2
      in put_prev e (First_of q) h3)"

definition LIST_REMOVE :: "elem \<Rightarrow> lists \<Rightarrow> lists" where
  "LIST_REMOVE e h =
     (let h1 = (case le_next h e of Some n \<Rightarrow> put_prev n (le_prev h e) h | None \<Rightarrow> h)
      in putCell (le_prev h1 e) (le_next h1 e) h1)"

definition LIST_REPLACE :: "elem \<Rightarrow> elem \<Rightarrow> lists \<Rightarrow> lists" where
  "LIST_REPLACE e e2 h =
     (let h1 = putCell (Next_of e2) (le_next h e) h;
          h2 = (case le_next h e of Some n \<Rightarrow> put_prev n (Next_of e2) h1 | None \<Rightarrow> h1);
          h3 = put_prev e2 (le_prev h2 e) h2
      in putCell (le_prev h3 e2) (Some e2) h3)"

definition LIST_MOVE :: "head \<Rightarrow> head \<Rightarrow> lists \<Rightarrow> lists" where
  "LIST_MOVE q1 q2 h =
     (let h1 = LIST_INIT q2 h in
      case LIST_FIRST h1 q1 of None \<Rightarrow> h1
      | Some f \<Rightarrow>
          let h2 = putCell (First_of q2) (Some f) h1;
              h3 = put_prev f (First_of q2) h2
          in LIST_INIT q1 h3)"

text \<open>
  The loops carry the state \<open>'s\<close> that their body changes, of which \<open>lnk\<close> are the links. The safe
  form fetches the next element before the body runs. \<open>None\<close>: still going after \<open>fuel\<close> rounds.
\<close>

fun LIST_FOREACH :: "nat \<Rightarrow> ('s \<Rightarrow> lists) \<Rightarrow> (elem \<Rightarrow> 's \<Rightarrow> 's) \<Rightarrow> elem option \<Rightarrow> 's \<Rightarrow> 's option" where
  "LIST_FOREACH fuel lnk body None s = Some s"
| "LIST_FOREACH 0 lnk body (Some e) s = None"
| "LIST_FOREACH (Suc fuel) lnk body (Some e) s =
     (let s1 = body e s in LIST_FOREACH fuel lnk body (LIST_NEXT (lnk s1) e) s1)"

fun LIST_FOREACH_SAFE :: "nat \<Rightarrow> ('s \<Rightarrow> lists) \<Rightarrow> (elem \<Rightarrow> 's \<Rightarrow> 's) \<Rightarrow> elem option \<Rightarrow> 's \<Rightarrow> 's option" where
  "LIST_FOREACH_SAFE fuel lnk body None s = Some s"
| "LIST_FOREACH_SAFE 0 lnk body (Some e) s = None"
| "LIST_FOREACH_SAFE (Suc fuel) lnk body (Some e) s =
     (let tvar = LIST_NEXT (lnk s) e in LIST_FOREACH_SAFE fuel lnk body tvar (body e s))"

fun TAILQ_FOREACH_SAFE :: "nat \<Rightarrow> ('s \<Rightarrow> links) \<Rightarrow> (elem \<Rightarrow> 's \<Rightarrow> 's) \<Rightarrow> elem option \<Rightarrow> 's \<Rightarrow> 's option" where
  "TAILQ_FOREACH_SAFE fuel lnk body None s = Some s"
| "TAILQ_FOREACH_SAFE 0 lnk body (Some e) s = None"
| "TAILQ_FOREACH_SAFE (Suc fuel) lnk body (Some e) s =
     (let tvar = TAILQ_NEXT (lnk s) e in TAILQ_FOREACH_SAFE fuel lnk body tvar (body e s))"

fun TAILQ_FOREACH_REVERSE :: "nat \<Rightarrow> ('s \<Rightarrow> links) \<Rightarrow> (elem \<Rightarrow> 's \<Rightarrow> 's) \<Rightarrow> elem option \<Rightarrow> 's \<Rightarrow> 's option" where
  "TAILQ_FOREACH_REVERSE fuel lnk body None s = Some s"
| "TAILQ_FOREACH_REVERSE 0 lnk body (Some e) s = None"
| "TAILQ_FOREACH_REVERSE (Suc fuel) lnk body (Some e) s =
     (let s1 = body e s in TAILQ_FOREACH_REVERSE fuel lnk body (TAILQ_PREV (lnk s1) e) s1)"

fun TAILQ_FOREACH_REVERSE_SAFE :: "nat \<Rightarrow> ('s \<Rightarrow> links) \<Rightarrow> (elem \<Rightarrow> 's \<Rightarrow> 's) \<Rightarrow> elem option \<Rightarrow> 's \<Rightarrow> 's option" where
  "TAILQ_FOREACH_REVERSE_SAFE fuel lnk body None s = Some s"
| "TAILQ_FOREACH_REVERSE_SAFE 0 lnk body (Some e) s = None"
| "TAILQ_FOREACH_REVERSE_SAFE (Suc fuel) lnk body (Some e) s =
     (let tvar = TAILQ_PREV (lnk s) e in TAILQ_FOREACH_REVERSE_SAFE fuel lnk body tvar (body e s))"

section \<open>What a list represents\<close>

text \<open>The cells of a list are those of a tail queue without the fields of its head's tail.\<close>

definition cells :: "lists \<Rightarrow> links" where
  "cells h = \<lparr>tqe_next = le_next h, tqe_prev = le_prev h, tqh_first = lh_first h, tqh_last = First_of, nelem = (\<lambda>_. 0)\<rparr>"

definition list_rep :: "lists \<Rightarrow> head \<Rightarrow> elem list \<Rightarrow> bool" where
  "list_rep h q xs \<longleftrightarrow> distinct xs \<and> seg (cells h) (First_of q) xs (end_cell (First_of q) xs) \<and>
     readCell (cells h) (end_cell (First_of q) xs) = None"

lemma cells_putCell [simp]: "readCell (cells (putCell c v h)) d = (if d = c then v else readCell (cells h) d)"
  by (cases c; cases d) (auto simp: cells_def readCell.simps)

lemma cells_put_prev [simp]: "readCell (cells (put_prev e c h)) d = readCell (cells h) d"
  by (cases d) (auto simp: cells_def put_prev_def readCell.simps)

lemma prev_simps [simp]:
  "le_next (put_prev e c h) = le_next h" "lh_first (put_prev e c h) = lh_first h"
  "tqe_prev (cells h) = le_prev h" "le_prev (putCell c v h) = le_prev h" "le_prev (put_prev e c h) = (le_prev h)(e := c)"
  by (cases c; simp add: cells_def put_prev_def)+

lemma le_next_cells: "le_next h e = readCell (cells h) (Next_of e)" by (simp add: cells_def readCell.simps)
lemma lh_first_cells: "lh_first h q = readCell (cells h) (First_of q)" by (simp add: cells_def readCell.simps)

lemmas as_list_cells = le_next_cells lh_first_cells

declare putCell.simps [simp del]

text \<open>Both sides of an element.\<close>

lemma list_at:
  "list_rep h q (xs @ e # ys) \<longleftrightarrow> distinct (xs @ e # ys) \<and>
     seg (cells h) (First_of q) xs (end_cell (First_of q) xs) \<and>
     readCell (cells h) (end_cell (First_of q) xs) = Some e \<and> le_prev h e = end_cell (First_of q) xs \<and>
     seg (cells h) (Next_of e) ys (end_cell (Next_of e) ys) \<and> readCell (cells h) (end_cell (Next_of e) ys) = None"
  by (auto simp: list_rep_def seg_append)

lemma list_suffix:
  assumes "seg (cells h) (Next_of e) ys (end_cell (Next_of e) ys)" "distinct (e # ys)"
    and "\<And>x. x \<in> set ys \<Longrightarrow> le_prev h' x = le_prev h x"
    and "\<And>b. b \<in> insert (Next_of e) (Next_of ` set ys) \<Longrightarrow> readCell (cells h') b = readCell (cells h) b"
  shows "seg (cells h') (Next_of e) ys (end_cell (Next_of e) ys)"
    "readCell (cells h') (end_cell (Next_of e) ys) = readCell (cells h) (end_cell (Next_of e) ys)"
  using suffix_frame [OF assms(1,2), of "cells h'"] assms(3,4) end_cell_cases [of "Next_of e" ys] by auto

lemma list_prefix:
  assumes "seg (cells h) (First_of q) xs (end_cell (First_of q) xs)" "distinct xs"
    and "\<And>x. x \<in> set xs \<Longrightarrow> le_prev h' x = le_prev h x"
    and "\<And>b. b \<noteq> end_cell (First_of q) xs \<Longrightarrow> b \<in> insert (First_of q) (Next_of ` set xs) \<Longrightarrow>
      readCell (cells h') b = readCell (cells h) b"
  shows "seg (cells h') (First_of q) xs (end_cell (First_of q) xs)"
  using prefix_frame [OF assms(1,2), of "cells h'"] assms(3,4) by auto

lemma LIST_INIT_rep: "list_rep (LIST_INIT q h) q []"
  by (simp add: list_rep_def LIST_INIT_def)

lemma LIST_INSERT_HEAD_rep:
  assumes "list_rep h q xs" "e \<notin> set xs"
  shows "list_rep (LIST_INSERT_HEAD q e h) q (e # xs)"
proof (cases xs)
  case Nil
  with assms show ?thesis by (simp add: list_rep_def LIST_INSERT_HEAD_def Let_def as_list_cells)
next
  case (Cons x ys)
  let ?h = "LIST_INSERT_HEAD q e h"
  have first: "readCell (cells h) (First_of q) = Some x" and suf: "seg (cells h) (Next_of x) ys (end_cell (Next_of x) ys)"
    "readCell (cells h) (end_cell (Next_of x) ys) = None" "distinct (x # ys)"
    using assms(1) Cons by (auto simp: list_rep_def)
  have c: "readCell (cells ?h) b = (if b = First_of q then Some e else if b = Next_of e then Some x else readCell (cells h) b)"
    "le_prev ?h = (le_prev h)(x := Next_of e, e := First_of q)" for b
    by (auto simp: LIST_INSERT_HEAD_def Let_def as_list_cells first)
  have "seg (cells ?h) (Next_of x) ys (end_cell (Next_of x) ys)"
    "readCell (cells ?h) (end_cell (Next_of x) ys) = readCell (cells h) (end_cell (Next_of x) ys)"
    by (rule list_suffix [OF suf(1,3)]; use assms(2) suf(3) Cons in \<open>auto simp: c\<close>)+
  with suf assms(2) Cons show ?thesis by (auto simp: list_rep_def c)
qed

text \<open>The cells on both sides of an element, for the macros that change the middle of a list.\<close>

lemma end_cell_sides:
  assumes "distinct (xs @ e # ys)"
  shows "end_cell (First_of q) xs \<noteq> Next_of e" "end_cell (First_of q) xs \<notin> Next_of ` set ys"
    "end_cell (Next_of e) ys \<noteq> end_cell (First_of q) xs"
  using assms end_cell_cases [of "First_of q" xs] end_cell_cases [of "Next_of e" ys] by auto

lemma fresh_cells:
  assumes "e2 \<notin> set (xs @ e # ys)"
  shows "end_cell (First_of q) xs \<noteq> Next_of e2" "Next_of e2 \<noteq> end_cell (First_of q) xs" "end_cell (Next_of e) ys \<noteq> Next_of e2"
  using assms end_cell_cases [of "First_of q" xs] end_cell_cases [of "Next_of e" ys] by auto

lemma LIST_REMOVE_rep:
  assumes "list_rep h q (xs @ e # ys)"
  shows "list_rep (LIST_REMOVE e h) q (xs @ ys)"
proof -
  let ?h = "LIST_REMOVE e h" and ?c = "end_cell (First_of q) xs"
  note at = assms [unfolded list_at]
  note sides = end_cell_sides [OF at [THEN conjunct1], of q]
  have next_e: "le_next h e = (case ys of [] \<Rightarrow> None | y # _ \<Rightarrow> Some y)"
    using at by (auto simp: as_list_cells split: list.split)
  have c: "readCell (cells ?h) b = (if b = ?c then le_next h e else readCell (cells h) b)"
    "le_prev ?h = (case ys of [] \<Rightarrow> le_prev h | y # _ \<Rightarrow> (le_prev h)(y := ?c))" for b
    using at by (auto simp: LIST_REMOVE_def Let_def next_e split: list.split)
  have pre: "seg (cells ?h) (First_of q) xs ?c"
    by (rule list_prefix [where h = h]) (use at in \<open>auto simp: c split: list.splits\<close>)
  show ?thesis
  proof (cases ys)
    case Nil
    with pre at show ?thesis by (simp add: list_rep_def c next_e)
  next
    case (Cons y zs)
    have d: "seg (cells h) (Next_of y) zs (end_cell (Next_of y) zs)" "distinct (y # zs)" "Next_of y \<noteq> ?c" "?c \<notin> Next_of ` set zs"
      using at Cons sides by auto
    have "seg (cells ?h) (Next_of y) zs (end_cell (Next_of y) zs)"
      "readCell (cells ?h) (end_cell (Next_of y) zs) = readCell (cells h) (end_cell (Next_of y) zs)"
      by (rule list_suffix [OF d(1,2)]; use d at Cons in \<open>auto simp: c\<close>)+
    with pre at Cons show ?thesis by (simp add: list_at c next_e)
  qed
qed

lemma LIST_INSERT_AFTER_rep:
  assumes "list_rep h q (xs @ l # ys)" "e \<notin> set (xs @ l # ys)"
  shows "list_rep (LIST_INSERT_AFTER l e h) q (xs @ l # e # ys)"
proof -
  let ?h = "LIST_INSERT_AFTER l e h" and ?c = "end_cell (First_of q) xs"
  note at = assms(1) [unfolded list_at]
  note sides = end_cell_sides [OF at [THEN conjunct1], of q]
  note fresh = fresh_cells [OF assms(2)]
  have next_l: "le_next h l = (case ys of [] \<Rightarrow> None | y # _ \<Rightarrow> Some y)"
    using at by (auto simp: as_list_cells split: list.split)
  have c: "readCell (cells ?h) b = (if b = Next_of l then Some e else if b = Next_of e then le_next h l else readCell (cells h) b)"
    "le_prev ?h = (case ys of [] \<Rightarrow> (le_prev h)(e := Next_of l) | y # _ \<Rightarrow> (le_prev h)(y := Next_of e, e := Next_of l))" for b
    by (auto simp: LIST_INSERT_AFTER_def Let_def next_l split: list.split)
  have pre: "seg (cells ?h) (First_of q) xs ?c"
    by (rule list_prefix [where h = h]) (use at assms(2) in \<open>auto simp: c split: list.splits\<close>)
  show ?thesis
  proof (cases ys)
    case Nil
    with pre at assms(2) sides fresh show ?thesis by (auto simp: list_at c next_l)
  next
    case (Cons y zs)
    have d: "seg (cells h) (Next_of y) zs (end_cell (Next_of y) zs)" "distinct (y # zs)" using at Cons by auto
    have "seg (cells ?h) (Next_of y) zs (end_cell (Next_of y) zs)"
      "readCell (cells ?h) (end_cell (Next_of y) zs) = readCell (cells h) (end_cell (Next_of y) zs)"
      by (rule list_suffix [OF d]; use at assms(2) Cons in \<open>auto simp: c\<close>)+
    with pre at Cons assms(2) sides fresh show ?thesis by (auto simp: list_at c next_l)
  qed
qed

lemma LIST_INSERT_BEFORE_rep:
  assumes "list_rep h q (xs @ l # ys)" "e \<notin> set (xs @ l # ys)"
  shows "list_rep (LIST_INSERT_BEFORE l e h) q (xs @ e # l # ys)"
proof -
  let ?h = "LIST_INSERT_BEFORE l e h" and ?c = "end_cell (First_of q) xs"
  note at = assms(1) [unfolded list_at]
  note sides = end_cell_sides [OF at [THEN conjunct1], of q]
  note fresh = fresh_cells [OF assms(2)]
  have le: "l \<noteq> e" using assms(2) by auto
  have c: "readCell (cells ?h) b = (if b = ?c then Some e else if b = Next_of e then Some l else readCell (cells h) b)"
    "le_prev ?h = (le_prev h)(e := ?c, l := Next_of e)" for b
    using at le by (auto simp: LIST_INSERT_BEFORE_def Let_def)
  have "seg (cells ?h) (First_of q) xs ?c"
    by (rule list_prefix [where h = h]) (use at assms(2) in \<open>auto simp: c\<close>)
  moreover have "seg (cells ?h) (Next_of l) ys (end_cell (Next_of l) ys)"
    "readCell (cells ?h) (end_cell (Next_of l) ys) = readCell (cells h) (end_cell (Next_of l) ys)"
    by (rule list_suffix [where h = h]; use at assms(2) sides in \<open>auto simp: c image_iff\<close>)+
  ultimately show ?thesis using at assms(2) sides fresh by (auto simp: list_at c)
qed

lemma LIST_REPLACE_rep:
  assumes "list_rep h q (xs @ e # ys)" "e2 \<notin> set (xs @ e # ys)"
  shows "list_rep (LIST_REPLACE e e2 h) q (xs @ e2 # ys)"
proof -
  let ?h = "LIST_REPLACE e e2 h" and ?c = "end_cell (First_of q) xs"
  note at = assms(1) [unfolded list_at]
  note sides = end_cell_sides [OF at [THEN conjunct1], of q]
  note fresh = fresh_cells [OF assms(2)]
  have next_e: "le_next h e = (case ys of [] \<Rightarrow> None | y # _ \<Rightarrow> Some y)"
    using at by (auto simp: as_list_cells split: list.split)
  have c: "readCell (cells ?h) b = (if b = ?c then Some e2 else if b = Next_of e2 then le_next h e else readCell (cells h) b)"
    "le_prev ?h = (case ys of [] \<Rightarrow> (le_prev h)(e2 := ?c) | y # _ \<Rightarrow> (le_prev h)(y := Next_of e2, e2 := ?c))" for b
    using at assms(2) by (auto simp: LIST_REPLACE_def Let_def next_e split: list.split)
  have pre: "seg (cells ?h) (First_of q) xs ?c"
    by (rule list_prefix [where h = h]) (use at assms(2) in \<open>auto simp: c split: list.splits\<close>)
  show ?thesis
  proof (cases ys)
    case Nil
    with pre at assms(2) fresh show ?thesis by (auto simp: list_at c next_e)
  next
    case (Cons y zs)
    have d: "seg (cells h) (Next_of y) zs (end_cell (Next_of y) zs)" "distinct (y # zs)" using at Cons by auto
    have "seg (cells ?h) (Next_of y) zs (end_cell (Next_of y) zs)"
      "readCell (cells ?h) (end_cell (Next_of y) zs) = readCell (cells h) (end_cell (Next_of y) zs)"
      by (rule list_suffix [OF d]; use at assms(2) Cons sides in \<open>auto simp: c image_iff\<close>)+
    with pre at Cons assms(2) fresh sides show ?thesis by (auto simp: list_at c next_e)
  qed
qed

lemma LIST_FIRST_rep: "list_rep h q xs \<Longrightarrow> LIST_FIRST h q = (case xs of [] \<Rightarrow> None | x # _ \<Rightarrow> Some x)"
  by (auto simp: list_rep_def LIST_FIRST_def as_list_cells split: list.split)

lemma LIST_MOVE_rep:
  assumes "list_rep h q1 xs" "q1 \<noteq> q2"
  shows "list_rep (LIST_MOVE q1 q2 h) q2 xs \<and> list_rep (LIST_MOVE q1 q2 h) q1 []"
proof (cases xs)
  case Nil
  with assms show ?thesis
    by (simp add: LIST_MOVE_def LIST_INIT_def LIST_FIRST_def list_rep_def as_list_cells)
next
  case (Cons x ys)
  let ?h = "LIST_MOVE q1 q2 h"
  have first: "readCell (cells h) (First_of q1) = Some x" and suf: "seg (cells h) (Next_of x) ys (end_cell (Next_of x) ys)"
    "readCell (cells h) (end_cell (Next_of x) ys) = None" "distinct (x # ys)"
    using assms(1) Cons by (auto simp: list_rep_def)
  have c: "readCell (cells ?h) b = (if b = First_of q1 then None else if b = First_of q2 then Some x else readCell (cells h) b)"
    "le_prev ?h = (le_prev h)(x := First_of q2)" for b
    using assms(2) first by (auto simp: LIST_MOVE_def LIST_INIT_def LIST_FIRST_def as_list_cells Let_def)
  have "seg (cells ?h) (Next_of x) ys (end_cell (Next_of x) ys)"
    "readCell (cells ?h) (end_cell (Next_of x) ys) = readCell (cells h) (end_cell (Next_of x) ys)"
    by (rule list_suffix [OF suf(1,3)]; use suf(3) in \<open>auto simp: c\<close>)+
  with suf assms(2) Cons show ?thesis by (auto simp: list_rep_def c)
qed

section \<open>The loops\<close>

text \<open>
  A loop that only looks at the elements folds its body over the represented list. The body must
  keep the links of the queue.
\<close>

lemma LIST_FOREACH_seg:
  assumes "seg g c xs d" "readCell g d = None" "length xs \<le> fuel" "cells (lnk s) = g"
    and "\<And>e s. cells (lnk s) = g \<Longrightarrow> cells (lnk (body e s)) = g"
  shows "LIST_FOREACH fuel lnk body (readCell g c) s = Some (fold body xs s)"
  using assms(1,3,4)
proof (induction xs arbitrary: c fuel s)
  case Nil
  with assms(2) show ?case by simp
next
  case (Cons x xs)
  obtain n where n: "fuel = Suc n" "length xs \<le> n" using Cons.prems(2) by (cases fuel) auto
  have g: "cells (lnk (body x s)) = g" using assms(5) Cons.prems(3) by blast
  then have "LIST_NEXT (lnk (body x s)) x = readCell g (Next_of x)"
    by (simp add: LIST_NEXT_def le_next_cells)
  with Cons.IH [OF _ n(2) g, of "Next_of x"] Cons.prems(1) n(1) show ?case by simp
qed

text \<open>The safe loop may remove the element it visits.\<close>

lemma LIST_FOREACH_SAFE_removes:
  assumes "list_rep h q xs" "length xs \<le> fuel"
  shows "\<exists>h'. LIST_FOREACH_SAFE fuel fst (\<lambda>e (l, es). (LIST_REMOVE e l, es @ [e])) (LIST_FIRST h q) (h, es) =
    Some (h', es @ xs) \<and> list_rep h' q []"
  using assms
proof (induction xs arbitrary: h fuel es)
  case Nil
  then show ?case by (simp add: LIST_FIRST_rep)
next
  case (Cons x xs)
  obtain n where n: "fuel = Suc n" "length xs \<le> n" using Cons.prems(2) by (cases fuel) auto
  have rep: "list_rep (LIST_REMOVE x h) q xs" using LIST_REMOVE_rep [of h q "[]" x xs] Cons.prems(1) by simp
  have next_x: "LIST_NEXT h x = LIST_FIRST (LIST_REMOVE x h) q"
    unfolding LIST_FIRST_rep [OF rep]
    using Cons.prems(1) by (cases xs) (auto simp: list_rep_def LIST_NEXT_def as_list_cells)
  from Cons.IH [OF rep n(2), of "es @ [x]"] show ?case
    by (simp add: n(1) LIST_FIRST_rep [OF Cons.prems(1)] next_x)
qed

lemma TAILQ_FOREACH_SAFE_removes:
  assumes "queue_rep h q xs" "length xs \<le> fuel"
  shows "\<exists>h'. TAILQ_FOREACH_SAFE fuel fst (\<lambda>e (l, es). (TAILQ_REMOVE q e l, es @ [e])) (TAILQ_FIRST h q) (h, es) =
    Some (h', es @ xs) \<and> queue_rep h' q []"
  using assms
proof (induction xs arbitrary: h fuel es)
  case Nil
  then show ?case by (simp add: TAILQ_FIRST_rep)
next
  case (Cons x xs)
  obtain n where n: "fuel = Suc n" "length xs \<le> n" using Cons.prems(2) by (cases fuel) auto
  note rep = tq.take_front [OF Cons.prems(1), THEN conjunct2]
  have next_x: "TAILQ_NEXT h x = TAILQ_FIRST (TAILQ_REMOVE q x h) q"
    unfolding TAILQ_FIRST_rep [OF rep]
    using Cons.prems(1) by (cases xs) (auto simp: queue_rep_def chain_def TAILQ_NEXT_def as_cells)
  from Cons.IH [OF rep n(2), of "es @ [x]"] show ?case
    by (simp add: n(1) TAILQ_FIRST_rep [OF Cons.prems(1)] next_x)
qed

lemma TAILQ_PREV_rep:
  assumes "queue_rep h q (xs @ e # ys)"
  shows "TAILQ_PREV h e = (if xs = [] then None else Some (last xs))"
proof (cases xs rule: rev_cases)
  case Nil
  moreover from Nil assms have "chain h q ([] @ e # ys)" by (simp add: queue_rep_def)
  then have "tqe_prev h e = First_of q" "readCell h (tqh_last h q) = None"
    unfolding chain_at by auto
  ultimately show ?thesis by (simp add: TAILQ_PREV_def)
next
  case (snoc zs z)
  from assms have "chain h q (zs @ z # e # ys)" by (simp add: queue_rep_def snoc)
  then have "tqe_prev h e = Next_of z" "tqe_prev h z = end_cell (First_of q) zs"
    "readCell h (end_cell (First_of q) zs) = Some z" by (auto simp: chain_at)
  with snoc show ?thesis by (simp add: TAILQ_PREV_def)
qed

lemma TAILQ_FOREACH_REVERSE_visits:
  assumes "queue_rep h q (xs @ ys)" "length xs \<le> fuel"
  shows "TAILQ_FOREACH_REVERSE fuel fst (\<lambda>e (l, es). (l, es @ [e])) (if xs = [] then None else Some (last xs)) (h, es) =
    Some (h, es @ rev xs)"
  using assms
proof (induction xs arbitrary: ys fuel es rule: rev_induct)
  case Nil
  show ?case by simp
next
  case (snoc x xs)
  obtain n where n: "fuel = Suc n" "length xs \<le> n" using snoc.prems(2) by (cases fuel) auto
  from snoc.prems(1) have "queue_rep h q (xs @ x # ys)" by simp
  from snoc.IH [OF this n(2), of "es @ [x]"] TAILQ_PREV_rep [OF this] show ?case by (simp add: n(1))
qed

lemma TAILQ_FOREACH_REVERSE_SAFE_removes:
  assumes "queue_rep h q xs" "length xs \<le> fuel"
  shows "\<exists>h'. TAILQ_FOREACH_REVERSE_SAFE fuel fst (\<lambda>e (l, es). (TAILQ_REMOVE q e l, es @ [e])) (TAILQ_LAST h q) (h, es) =
    Some (h', es @ rev xs) \<and> queue_rep h' q []"
  using assms
proof (induction xs arbitrary: h fuel es rule: rev_induct)
  case Nil
  then show ?case by (simp add: TAILQ_LAST_rep)
next
  case (snoc x xs)
  obtain n where n: "fuel = Suc n" "length xs \<le> n" using snoc.prems(2) by (cases fuel) auto
  have rep: "queue_rep (TAILQ_REMOVE q x h) q xs" using tq.rep_drop [of h q xs x "[]"] snoc.prems(1) by simp
  have "TAILQ_PREV h x = TAILQ_LAST (TAILQ_REMOVE q x h) q"
    using TAILQ_PREV_rep [of h q xs x "[]"] snoc.prems(1) by (simp add: TAILQ_LAST_rep [OF rep])
  with snoc.IH [OF rep n(2), of "es @ [x]"] show ?case
    by (simp add: n(1) TAILQ_LAST_rep [OF snoc.prems(1)])
qed

section \<open>Properties\<close>

text \<open>
  The \<^verbatim>\<open>LIST_\<close> macros implement the list operations. On a list that represents
  \<open>xs @ l # ys\<close> with a new element \<open>e\<close>, each macro leaves a list that represents the list with
  the corresponding change; moving a list to another head leaves the first empty.
\<close>

theorem LIST_refines_lists:
  assumes "list_rep h q (xs @ l # ys)" "e \<notin> set (xs @ l # ys)" "q \<noteq> p"
  shows "list_rep (LIST_INSERT_HEAD q e h) q (e # xs @ l # ys) \<and>
    list_rep (LIST_INSERT_AFTER l e h) q (xs @ l # e # ys) \<and>
    list_rep (LIST_INSERT_BEFORE l e h) q (xs @ e # l # ys) \<and>
    list_rep (LIST_REMOVE l h) q (xs @ ys) \<and>
    list_rep (LIST_REPLACE l e h) q (xs @ e # ys) \<and>
    list_rep (LIST_MOVE q p h) p (xs @ l # ys) \<and> list_rep (LIST_MOVE q p h) q []"
  using LIST_INSERT_HEAD_rep [OF assms(1,2)] LIST_INSERT_AFTER_rep [OF assms(1,2)] LIST_INSERT_BEFORE_rep [OF assms(1,2)]
    LIST_REMOVE_rep [OF assms(1)] LIST_REPLACE_rep [OF assms(1,2)] LIST_MOVE_rep [OF assms(1,3)]
  by simp

definition demo_list :: lists where
  "demo_list = LIST_INSERT_HEAD 0 10 (LIST_INSERT_HEAD 0 20 (LIST_INIT 0
     \<lparr>le_next = (\<lambda>_. Some 9), le_prev = (\<lambda>_. First_of 9), lh_first = (\<lambda>_. Some 9)\<rparr>))"

lemma demo_list_rep: "list_rep demo_list 0 ([] @ 10 # [20])"
  unfolding demo_list_def append_Nil by (intro LIST_INSERT_HEAD_rep LIST_INIT_rep) simp_all

theorem LIST_refines_lists_witness:
  "list_rep (LIST_INSERT_BEFORE 10 30 demo_list) 0 [30, 10, 20] \<and> list_rep (LIST_MOVE 0 1 demo_list) 1 [10, 20]"
  using LIST_refines_lists [OF demo_list_rep, of 30 1] by simp

text \<open>
  Loops that remove what they visit. With as many rounds as elements, the safe loops end;
  removing each visited element they visit every element once, in order or, for the reverse loop,
  backwards, and leave the queue empty.
\<close>

theorem FOREACH_SAFE_removes_all:
  assumes "list_rep l q xs" "queue_rep h q xs"
  shows "(\<exists>l'. LIST_FOREACH_SAFE (length xs) fst (\<lambda>e (l, es). (LIST_REMOVE e l, es @ [e])) (LIST_FIRST l q) (l, []) =
      Some (l', xs) \<and> LIST_EMPTY l' q) \<and>
    (\<exists>h'. TAILQ_FOREACH_SAFE (length xs) fst (\<lambda>e (l, es). (TAILQ_REMOVE q e l, es @ [e])) (TAILQ_FIRST h q) (h, []) =
      Some (h', xs) \<and> TAILQ_EMPTY h' q) \<and>
    (\<exists>h'. TAILQ_FOREACH_REVERSE_SAFE (length xs) fst (\<lambda>e (l, es). (TAILQ_REMOVE q e l, es @ [e])) (TAILQ_LAST h q) (h, []) =
      Some (h', rev xs) \<and> TAILQ_EMPTY h' q)"
proof -
  have "LIST_EMPTY l' q" if "list_rep l' q []" for l'
    using LIST_FIRST_rep [OF that] by (simp add: LIST_EMPTY_def LIST_FIRST_def)
  moreover have "TAILQ_EMPTY h' q" if "queue_rep h' q []" for h'
    using TAILQ_FIRST_rep [OF that] by (simp add: TAILQ_EMPTY_def)
  ultimately show ?thesis
    using LIST_FOREACH_SAFE_removes [OF assms(1) order_refl, of "[]"]
      TAILQ_FOREACH_SAFE_removes [OF assms(2) order_refl, of "[]"]
      TAILQ_FOREACH_REVERSE_SAFE_removes [OF assms(2) order_refl, of "[]"]
    by (metis append_Nil)
qed

theorem FOREACH_SAFE_removes_all_witness:
  "\<exists>h'. TAILQ_FOREACH_REVERSE_SAFE 2 fst (\<lambda>e (l, es). (TAILQ_REMOVE 0 e l, es @ [e])) (TAILQ_LAST demo_queue 0) (demo_queue, []) =
     Some (h', [20, 10]) \<and> TAILQ_EMPTY h' 0"
  using FOREACH_SAFE_removes_all [OF _ demo_queue_rep, of demo_list] demo_list_rep by (simp add: numeral_2_eq_2)

end
