(* ===== verification/Boxes.thy ===== *)
theory Boxes
  imports Executive
begin

text \<open>
  Properties of the pointer boxes of \<^verbatim>\<open>ex/box.c\<close>: what a box holds, that allocation keeps it
  well formed in every case, and that releasing a box reads the link of an element it has freed.
\<close>

section \<open>What a box holds\<close>

text \<open>The elements of box \<open>b\<close> in order; all are live and carry the magic number.\<close>

definition box_rep :: "boxes \<Rightarrow> head \<Rightarrow> elem list \<Rightarrow> bool" where
  "box_rep s b es \<longleftrightarrow> queue_rep (blinks s) b es \<and> ptrCount s b = of_nat (length es) \<and>
     (\<forall>e \<in> set es. \<exists>x. belems s e = Some x \<and> be_magic x = PTRBOX_MAGIC \<and> be_type x \<noteq> PTRBOX_ANY)"

lemma exInitPtrBox_rep: "box_rep (snd (exInitPtrBox (Some b) s)) b []"
  by (simp add: exInitPtrBox_def box_rep_def tq.rep_init)

lemma boxInsert_rep:
  assumes "box_rep s b es" "e \<notin> set es" "ty \<noteq> PTRBOX_ANY"
  shows "\<exists>s'. boxInsert b e ty a len s = Done (STATUS_SUCCESS, Some a, s') \<and> box_rep s' b (es @ [e]) \<and>
    belems s' e = Some \<lparr>be_magic = PTRBOX_MAGIC, be_type = ty, be_address = a, be_len = len\<rparr> \<and>
    bphys s' = bphys s \<and> elemAnswers s' = elemAnswers s"
  using assms tq.rep_put [of "blinks s" b es e] by (auto simp: boxInsert_def box_rep_def)

lemma box_rep_freeElem: "box_rep s b es \<Longrightarrow> e \<notin> set es \<Longrightarrow> box_rep (freeElem e s) b es"
  by (auto simp: box_rep_def freeElem_def)

lemma box_rep_fields [simp]:
  "box_rep (s\<lparr>bphys := pm\<rparr>) b es = box_rep s b es" "box_rep (s\<lparr>elemAnswers := as\<rparr>) b es = box_rep s b es"
  "box_rep (s\<lparr>dataAnswers := ds\<rparr>) b es = box_rep s b es"
  by (simp_all add: box_rep_def)

lemma mmAllocPage_returns: "pool_ready st \<Longrightarrow> \<exists>a st'. mmAllocPage count st = Done (a, st')"
  using mmAllocFrame_returns [of st count] by (auto simp: mmAllocPage_def split: if_splits) (metis surj_pair)

section \<open>Releasing\<close>

lemma mmFreeFrame_not_Panic: "mmFreeFrame a n pm \<noteq> Panic m"
proof -
  have "releaseFrames p stop bm \<noteq> Panic m" for p stop bm
  proof (induction p stop bm rule: releaseFrames.induct)
    case (1 p stop bm)
    have "clrBit bm i \<noteq> Panic m" for i by (simp add: clrBit_def split: option.split)
    then show ?case
      using 1 by (subst releaseFrames.simps) (cases "clrBit bm (p div 4096)"; auto)
  qed
  then show ?thesis
    unfolding mmFreeFrame_def Let_def by (cases "releaseFrames (unat (ALIGN_UP a PAGESIZE))
      (unat (ALIGN_UP a PAGESIZE + n * PAGESIZE)) (bitmap pm)") auto
qed

text \<open>After an element is released, reading its link is a fault.\<close>

lemma free_then_read:
  assumes "belems s e = Some x"
  shows "(case boxFreeSingle (Some b) (Some e) s of Done s1 \<Rightarrow> getElem e s1 = Fault | Fault \<Rightarrow> True | Panic m \<Rightarrow> False)"
proof -
  have freed: "getElem e (freeElem e t) = Fault" for t by (simp add: getElem_def freeElem_def)
  show ?thesis
  proof (cases "be_type x")
    case PTRBOX_PAGES
    then show ?thesis
      using assms freed mmFreeFrame_not_Panic [of "be_address x" "be_len x div PAGESIZE" "bphys s"]
      by (cases "mmFreeFrame (be_address x) (be_len x div PAGESIZE) (bphys s)")
        (auto simp: boxFreeSingle_def getElem_def [of e s] Let_def)
  qed (use assms freed in \<open>simp_all add: boxFreeSingle_def getElem_def [of e s] Let_def\<close>)
qed

lemma releaseLoop_seg:
  assumes "seg (blinks s) c xs d" "readCell (blinks s) d = None" "length xs \<le> fuel"
    and "\<And>e. e \<in> set xs \<Longrightarrow> \<exists>x. belems s e = Some x"
  shows "releaseLoop fuel b ty (readCell (blinks s) c) s =
    (if \<exists>e \<in> set xs. ty = PTRBOX_ANY \<or> map_option be_type (belems s e) = Some ty then Some Fault else Some (Done s))"
  using assms(1,3,4)
proof (induction xs arbitrary: c fuel)
  case Nil
  with assms(2) show ?case by simp
next
  case (Cons e xs)
  obtain n where n: "fuel = Suc n" "length xs \<le> n" using Cons.prems(2) by (cases fuel) auto
  obtain x where x: "belems s e = Some x" using Cons.prems(3) by auto
  then have getx: "getElem e s = Done x" by (simp add: getElem_def)
  have c: "readCell (blinks s) c = Some e" and suf: "seg (blinks s) (Next_of e) xs d" using Cons.prems(1) by auto
  show ?case
  proof (cases "be_type x = ty \<or> ty = PTRBOX_ANY")
    case True
    then show ?thesis
      using free_then_read [OF x, of b] x unfolding c n(1) releaseLoop.simps getx
      by (auto split: outcome.splits)
  next
    case False
    have "TAILQ_NEXT (blinks s) e = readCell (blinks s) (Next_of e)" by (simp add: TAILQ_NEXT_def as_cells)
    with Cons.IH [OF suf n(2)] Cons.prems(3) False x show ?thesis
      unfolding c n(1) releaseLoop.simps getx by (simp add: getx)
  qed
qed

section \<open>Properties\<close>

text \<open>
  Allocation keeps the box. With a ready frame allocator and an unused element address next,
  \<^verbatim>\<open>exBoxAllocate\<close> returns for every size and type. On success the new element is the last of the
  box, live and with the type asked for, and its address is the result; in every other case the box
  holds what it held and the element's memory has been given back.
\<close>

theorem exBoxAllocate_keeps_box:
  assumes "box_rep s b es" "elemAnswers s = e # as" "e \<notin> set es" "belems s e = None" "pool_ready (bphys s)"
  shows "\<exists>status a s'. exBoxAllocate (Some b) count ty False s = Done (status, a, s') \<and>
    (if status = STATUS_SUCCESS
     then box_rep s' b (es @ [e]) \<and> (\<exists>x. belems s' e = Some x \<and> be_type x = ty \<and> a = Some (be_address x))
     else a = None \<and> box_rep s' b es \<and> belems s' e = None)"
proof (cases "count = 0")
  case True
  with assms show ?thesis by (simp add: exBoxAllocate_def status_simps)
next
  case False
  let ?s1 = "s\<lparr>elemAnswers := as\<rparr>"
  have rep: "box_rep ?s1 b es" using assms(1) by simp
  have freed: "box_rep (freeElem e t) b es" "belems (freeElem e t) e = None" if "box_rep t b es" for t
    using that box_rep_freeElem [OF _ assms(3)] by (simp_all add: freeElem_def)
  show ?thesis
  proof (cases ty)
    case PTRBOX_PAGES
    let ?n = "ALIGN_UP count PAGESIZE"
    obtain a pm where a: "mmAllocPage (?n div PAGESIZE) (bphys s) = Done (a, pm)"
      using mmAllocPage_returns [OF assms(5)] by blast
    have rep2: "box_rep (?s1\<lparr>bphys := pm\<rparr>) b es" using rep by simp
    show ?thesis
    proof (cases "a = 0")
      case True
      with False PTRBOX_PAGES a assms(2) freed [OF rep2] show ?thesis
        by (simp add: exBoxAllocate_def Let_def status_simps)
    next
      case nz: False
      from boxInsert_rep [OF rep2 assms(3), of PTRBOX_PAGES a ?n] False PTRBOX_PAGES a assms(2) nz show ?thesis
        by (auto simp: exBoxAllocate_def Let_def)
    qed
  next
    case PTRBOX_HEAP
    show ?thesis
    proof (cases "dataAnswers s")
      case Nil
      with False PTRBOX_HEAP assms(2) freed [OF rep] show ?thesis
        by (simp add: exBoxAllocate_def Let_def status_simps)
    next
      case (Cons a ds)
      have "box_rep (?s1\<lparr>dataAnswers := ds\<rparr>) b es" using rep by simp
      from boxInsert_rep [OF this assms(3), of PTRBOX_HEAP a count] False PTRBOX_HEAP Cons assms(2) show ?thesis
        by (auto simp: exBoxAllocate_def Let_def)
    qed
  next
    case PTRBOX_ANY
    with False assms(2) freed [OF rep] show ?thesis
      by (simp add: exBoxAllocate_def Let_def status_simps)
  qed
qed

definition demo_box :: boxes where
  "demo_box = snd (exInitPtrBox (Some 7) \<lparr>belems = (\<lambda>_. None), blinks = demo_queue, ptrCount = (\<lambda>_. 9), freedData = [],
     bphys = demo_phys, elemAnswers = [60, 61], dataAnswers = [0x900, 0xA00]\<rparr>)"

lemma demo_box_fields:
  "box_rep demo_box 7 []" "elemAnswers demo_box = [60, 61]" "belems demo_box = (\<lambda>_. None)" "bphys demo_box = demo_phys"
  unfolding demo_box_def by (rule exInitPtrBox_rep) (simp_all add: exInitPtrBox_def)

theorem exBoxAllocate_keeps_box_witness:
  "\<exists>status a s'. exBoxAllocate (Some 7) 100 PTRBOX_HEAP False demo_box = Done (status, a, s') \<and>
     box_rep s' 7 (if status = STATUS_SUCCESS then [60] else [])"
  using exBoxAllocate_keeps_box [of demo_box 7 "[]" 60 "[61]" 100 PTRBOX_HEAP] demo_box_fields demo_phys_ready
  by (auto split: if_splits)

text \<open>
  C39 (releasing a box reads freed memory). \<^verbatim>\<open>exBoxRelease\<close> of a well-formed box returns only when
  no element has the type to release, and then it has done nothing: the loop takes the link to the
  next element out of the element it has just given back.
\<close>

theorem exBoxRelease_use_after_free:
  assumes "box_rep s b es" "length es \<le> fuel"
  shows "exBoxRelease fuel (Some b) ty s =
    (if \<exists>e \<in> set es. ty = PTRBOX_ANY \<or> map_option be_type (belems s e) = Some ty then Some Fault else Some (Done s))"
proof -
  have q: "seg (blinks s) (First_of b) es (tqh_last (blinks s) b)" "readCell (blinks s) (tqh_last (blinks s) b) = None"
    using assms(1) by (simp_all add: box_rep_def queue_rep_def chain_def)
  have "\<exists>x. belems s e = Some x" if "e \<in> set es" for e using assms(1) that by (auto simp: box_rep_def)
  from releaseLoop_seg [OF q assms(2) this] show ?thesis
    by (simp add: exBoxRelease_def TAILQ_FIRST_def as_cells)
qed

theorem exBoxRelease_use_after_free_witness:
  "\<exists>s'. boxInsert 7 60 PTRBOX_HEAP 0x900 100 demo_box = Done (STATUS_SUCCESS, Some 0x900, s') \<and>
     exBoxRelease 5 (Some 7) PTRBOX_HEAP s' = Some Fault \<and> exBoxRelease 5 (Some 7) PTRBOX_PAGES s' = Some (Done s')"
proof -
  obtain s' where s': "boxInsert 7 60 PTRBOX_HEAP 0x900 100 demo_box = Done (STATUS_SUCCESS, Some 0x900, s')"
    "box_rep s' 7 [60]" "map_option be_type (belems s' 60) = Some PTRBOX_HEAP"
    using boxInsert_rep [OF demo_box_fields(1), of 60 PTRBOX_HEAP "0x900" 100] by auto
  from exBoxRelease_use_after_free [OF s'(2), of 5 PTRBOX_HEAP] exBoxRelease_use_after_free [OF s'(2), of 5 PTRBOX_PAGES] s'(1,3)
  show ?thesis by simp
qed

end
