(* ===== verification/Loader.thy ===== *)
theory Loader
  imports Boxes PageKeep
begin

text \<open>
  The bytes of memory words and of an image's sections, for the program loader \<^verbatim>\<open>ke/loader.c\<close>: what
  copying a section's data into a run of pages leaves there, and the sizes of a section.
\<close>

section \<open>Bytes in memory\<close>

definition memByte :: "(uquad \<Rightarrow> uquad) \<Rightarrow> ulong_ptr \<Rightarrow> uchar" where
  "memByte m a = ucast (drop_bit (8 * unat (a AND 7)) (m (a AND NOT 7)))"

lemma seven_mask: "(7 :: uquad) = mask 3"
  by (simp add: mask_eq_exp_minus_1)

lemma low3: "unat (a AND 7) = unat a mod 8" "unat (a AND NOT 7) = unat a div 8 * 8" for a :: uquad
proof -
  have "a AND 7 = take_bit 3 a" by (simp only: seven_mask take_bit_eq_mask)
  then show "unat (a AND 7) = unat a mod 8" by (simp only: unsigned_take_bit_eq) (simp add: take_bit_eq_mod)
  show "unat (a AND NOT 7) = unat a div 8 * 8" by (simp only: seven_mask unat_and_not_mask) simp
qed

lemma same_cell: "a AND NOT 7 = x AND NOT 7 \<Longrightarrow> a AND 7 = x AND 7 \<Longrightarrow> a = x" for a x :: uquad
  by (metis (no_types) bit.conj_disj_distrib bit.conj_one_right bit.disj_cancel_right)

lemma byte_in_word:
  fixes w :: uquad and v :: uchar
  assumes "i < 8" "j < 8"
  shows "(ucast (drop_bit (8 * j) ((w AND NOT (push_bit (8 * i) 0xFF)) OR push_bit (8 * i) (ucast v))) :: uchar) =
    (if i = j then v else ucast (drop_bit (8 * j) w))"
proof (rule bit_word_eqI)
  fix n assume n: "n < LENGTH(8)"
  have ff: "bit (0xFF :: int) k \<longleftrightarrow> k < 8" for k
  proof -
    have "bit (mask 8 :: int) k \<longleftrightarrow> k < 8" by (simp only: bit_mask_iff) simp
    then show ?thesis by (simp add: mask_eq_exp_minus_1)
  qed
  have "8 * j + n < 64" using n assms by simp
  moreover have "\<not> bit v k" if "8 \<le> k" for k using that bit_imp_le_length [of v k] by auto
  moreover have "i = j \<longleftrightarrow> 8 * i \<le> 8 * j + n \<and> 8 * j + n - 8 * i < 8"
    using n by auto
  ultimately show "bit (ucast (drop_bit (8 * j) ((w AND NOT (push_bit (8 * i) 0xFF)) OR push_bit (8 * i) (ucast v))) :: uchar) n =
      bit (if i = j then v else ucast (drop_bit (8 * j) w)) n"
    using n by (auto simp: bit_simps ff not_le)
qed

lemma memByte_putByte: "memByte (putByte a v m) x = (if x = a then v else memByte m x)"
proof (cases "x AND NOT 7 = a AND NOT 7")
  case False
  then show ?thesis by (auto simp: memByte_def putByte_def Let_def)
next
  case True
  have "x = a \<longleftrightarrow> unat (a AND 7) = unat (x AND 7)"
    using True same_cell [of x a] by (metis word_unat_eq_iff)
  moreover have "unat (a AND 7) < 8" "unat (x AND 7) < 8" by (simp_all add: low3)
  ultimately show ?thesis
    using True byte_in_word [of "unat (a AND 7)" "unat (x AND 7)" "m (a AND NOT 7)" v]
    by (simp add: memByte_def putByte_def Let_def)
qed

lemma memByte_putBytes:
  "length bs \<le> 2 ^ 64 \<Longrightarrow> memByte (putBytes a bs m) x = (if unat (x - a) < length bs then bs ! unat (x - a) else memByte m x)"
proof (induction bs arbitrary: a m)
  case (Cons b bs)
  show ?case
  proof (cases "x = a")
    case True
    have "unat (- 1 :: uquad) = 2 ^ 64 - 1" by (simp add: unsigned_minus_1_eq_mask mask_eq_exp_minus_1)
    then have "unat (x - (a + 1)) = 2 ^ 64 - 1" using True by simp
    with Cons.prems True show ?thesis
      using Cons.IH [of "a + 1" "putByte a b m"] by (simp add: memByte_putByte)
  next
    case False
    then have "x - a \<noteq> 0" by simp
    then have "unat (x - a) = Suc (unat (x - a - 1))"
      by (metis Suc_pred' unat_eq_zero unat_minus_one zero_less_iff_neq_zero)
    moreover have "x - a - 1 = x - (a + 1)" by simp
    ultimately show ?thesis
      using Cons.IH [of "a + 1" "putByte a b m"] Cons.prems False by (simp add: memByte_putByte)
  qed
qed simp

text \<open>Where the word of byte \<open>i\<close> of a page-aligned block lies.\<close>

lemma block_cell:
  assumes "page_aligned w" "i < 2 ^ 64"
  shows "(w + of_nat i) AND NOT 7 = w + of_nat (i - i mod 8)" "(w + of_nat i :: uquad) AND 7 = of_nat (i mod 8)"
proof -
  let ?y = "w + of_nat i"
  obtain k where k: "unat w = 4096 * k" using assms(1) by (auto simp: page_aligned_dvd elim!: dvdE)
  have "unat ?y mod 8 = i mod 8"
  proof -
    have "unat (of_nat i :: uquad) = i" using assms(2) by (rule unat_of_nat_quad)
    then have "unat ?y = (unat w + i) mod 2 ^ 64" by (simp add: unat_word_ariths)
    moreover have "(8 :: nat) dvd 2 ^ 64" using le_imp_power_dvd [of 3 64 "2 :: nat"] by simp
    ultimately have "unat ?y mod 8 = (unat w + i) mod 8" by (simp only: mod_mod_cancel)
    also have "unat w + i = i + 8 * (512 * k)" by (simp add: k)
    also have "\<dots> mod 8 = i mod 8" by (rule mod_mult_self2)
    finally show ?thesis .
  qed
  then have m: "unat (?y AND 7) = i mod 8" by (simp only: low3)
  then show low: "?y AND 7 = of_nat (i mod 8)" 
    using unat_of_nat_quad [of "i mod 8"] by (simp add: word_unat_eq_iff)
  have "unat ((?y AND NOT 7) + (?y AND 7)) = unat ?y div 8 * 8 + unat ?y mod 8"
    unfolding low3 [symmetric] by (rule unat_plus_small) (simp only: low3 div_mult_mod_eq unsigned_less)
  then have "(?y AND NOT 7) + (?y AND 7) = ?y" by (simp add: word_unat_eq_iff)
  then have "?y AND NOT 7 = ?y - (?y AND 7)" by (metis add_diff_cancel_right')
  also have "\<dots> = w + of_nat (i - i mod 8)"
    unfolding low by (simp add: of_nat_diff)
  finally show "?y AND NOT 7 = w + of_nat (i - i mod 8)" .
qed

lemma page_aligned_add: "page_aligned a \<Longrightarrow> page_aligned b \<Longrightarrow> page_aligned (a + b)"
  by (simp add: page_aligned_dvd unat_word_ariths dvd_mod_iff)

lemma putBytes_outside:
  assumes "page_aligned w" "n < 2 ^ 64" "\<not> x - w < of_nat n"
  shows "k + length bs \<le> n \<Longrightarrow> putBytes (w + of_nat k) bs m x = m x"
proof (induction bs arbitrary: k m)
  case (Cons b bs)
  have k: "k < 2 ^ 64" "k - k mod 8 < n" "n < 2 ^ 64" using Cons.prems assms(2) by auto
  have "x \<noteq> (w + of_nat k) AND NOT 7"
  proof
    assume "x = (w + of_nat k) AND NOT 7"
    then have "x - w = of_nat (k - k mod 8)" by (simp only: block_cell [OF assms(1) k(1)]) simp
    moreover have "(of_nat (k - k mod 8) :: uquad) < of_nat n"
      using k unat_of_nat_quad [of n] unat_of_nat_quad [of "k - k mod 8"] by (simp add: word_less_nat_alt)
    ultimately show False using assms(3) by simp
  qed
  then have "putByte (w + of_nat k) b m x = m x" by (simp add: putByte_def Let_def)
  moreover have step: "w + of_nat (Suc k) = w + of_nat k + 1" by simp
  moreover note Cons.IH [of "Suc k" "putByte (w + of_nat k) b m", unfolded step]
  ultimately show ?case using Cons.prems by simp
qed simp

lemma memByte_zeroRange:
  assumes "page_aligned w" "n < 2 ^ 64" "i < n"
  shows "memByte (zeroRange w (of_nat n) m) (w + of_nat i) = 0"
proof -
  have i: "i < 2 ^ 64" "i - i mod 8 < n" using assms(2,3) by auto
  have "(of_nat (i - i mod 8) :: uquad) < of_nat n"
    using i assms(2) unat_of_nat_quad [of n] unat_of_nat_quad [of "i - i mod 8"] by (simp add: word_less_nat_alt)
  then show ?thesis
    by (simp only: memByte_def block_cell [OF assms(1) i(1)] zeroRange_def add_diff_cancel_left') simp
qed

lemma memByte_keeps:
  assumes "keeps taken root st st'" "data_page taken st root (a + of_nat (4096 * (i div 4096)))"
    and "page_aligned a" "page_aligned (kernelBase st)" "i < 2 ^ 52"
  shows "memByte (memory st') (PHYS_TO_VIRT st a + of_nat i) = memByte (memory st) (PHYS_TO_VIRT st a + of_nat i)"
proof -
  let ?w = "PHYS_TO_VIRT st a" and ?q = "i div 4096"
  have w: "page_aligned ?w" using page_aligned_add [OF assms(3,4)] by (simp add: PHYS_TO_VIRT_def)
  have i: "i < 2 ^ 64" using assms(5) by simp
  define r where "r = i mod 4096"
  have ir: "i = r + 8 * (512 * ?q)" "r < 4096" by (simp_all add: r_def)
  then have "i mod 8 = r mod 8" by (metis mod_mult_self2)
  then have le: "4096 * ?q \<le> i - i mod 8" "i - i mod 8 - 4096 * ?q < 4096"
    using ir mod_less_eq_dividend [of r 8] by linarith+
  have "?w + of_nat (i - i mod 8) - PHYS_TO_VIRT st (a + of_nat (4096 * ?q)) = of_nat (i - i mod 8) - of_nat (4096 * ?q)"
    by (simp add: PHYS_TO_VIRT_def)
  also have "\<dots> = of_nat (i - i mod 8 - 4096 * ?q)" using le(1) by (simp only: of_nat_diff)
  also have "\<dots> < 4096" using le(2) unat_of_nat_quad [of "i - i mod 8 - 4096 * ?q"] by (simp add: word_less_nat_alt)
  finally show ?thesis
    using assms(1,2) unfolding memByte_def block_cell [OF w i] by (auto simp: keeps_def)
qed

section \<open>Sections of an image\<close>

definition sect_pages :: "IMAGE_SECTION_HEADER \<Rightarrow> nat" where
  "sect_pages h = (unat (sh_virtualSize h) + 4095) div 4096"

abbreviation sect_base :: "IMAGE_SECTION_HEADER \<Rightarrow> ulong_ptr" where
  "sect_base h \<equiv> ucast (sh_virtualAddr h)"

definition sect_ok :: "uchar list \<Rightarrow> IMAGE_SECTION_HEADER \<Rightarrow> bool" where
  "sect_ok img h \<longleftrightarrow> 0 < unat (sh_virtualSize h) \<and> unat (sh_virtualSize h) + 4096 \<le> 2 ^ 32 \<and>
     unat (sh_virtualAddr h) mod 4096 = 0 \<and>
     unat (sh_rawDataPtr h) + unat (sh_rawDataSize h) \<le> length img \<and> unat (sh_rawDataSize h) \<le> 4096 * sect_pages h"

text \<open>The section's \<open>i\<close>th byte: the file's, and zero after the raw data.\<close>

definition sect_byte :: "uchar list \<Rightarrow> IMAGE_SECTION_HEADER \<Rightarrow> nat \<Rightarrow> uchar" where
  "sect_byte img h i = (if i < unat (sh_rawDataSize h) then img ! (unat (sh_rawDataPtr h) + i) else 0)"

lemma sect_sizes:
  assumes "sect_ok img h"
  shows "unat (ALIGN_UP (ucast (sh_virtualSize h) :: usize) PAGESIZE) = 4096 * sect_pages h"
    "ALIGN_UP (sh_virtualSize h) (ucast PAGESIZE) = of_nat (4096 * sect_pages h)"
    "0 < sect_pages h" "sect_pages h < 2 ^ 20"
proof -
  let ?v = "sh_virtualSize h"
  have v: "0 < unat ?v" "unat ?v + 4096 \<le> 2 ^ 32" using assms by (simp_all add: sect_ok_def)
  then show p: "0 < sect_pages h" "sect_pages h < 2 ^ 20" by (simp_all add: sect_pages_def)
  have "unat ?v < 2 ^ 64" by (rule less_le_trans [OF unsigned_less]) simp
  then have "unat (ucast ?v :: usize) = unat ?v" by (simp add: unsigned_ucast_eq take_bit_nat_eq_self)
  moreover from this have "unat (ucast ?v :: usize) + 4095 < 2 ^ 64" using v by simp
  ultimately show "unat (ALIGN_UP (ucast ?v :: usize) PAGESIZE) = 4096 * sect_pages h"
    by (simp add: unat_ALIGN_UP_page sect_pages_def)
  have up: "ALIGN_UP ?v (ucast PAGESIZE) = (?v + 4095) AND NOT (mask 12)"
  proof -
    have "ucast PAGESIZE = (4096 :: ulong)" "(4096 :: ulong) - 1 = mask 12" "?v + 4096 - 1 = ?v + 4095"
      by (simp_all add: PAGESIZE_def mask_eq_exp_minus_1)
    then show ?thesis by (simp only: ALIGN_UP_def)
  qed
  have down: "unat ((?v + 4095) AND NOT (mask 12)) = 4096 * sect_pages h"
  proof -
    have "unat (?v + 4095) = unat ?v + 4095" using v by (subst unat_plus_small) simp_all
    then show ?thesis by (simp only: unat_and_not_mask) (simp add: sect_pages_def)
  qed
  show "ALIGN_UP ?v (ucast PAGESIZE) = of_nat (4096 * sect_pages h)"
    unfolding up down [symmetric] by (simp only: of_nat_unat ucast_id)
qed

end
