(* ===== verification/LoadPe.thy ===== *)
theory LoadPe
  imports Loader Process
begin

text \<open>
  The contract of \<^verbatim>\<open>loadPe64\<close> in \<^verbatim>\<open>ke/loader.c\<close>: each section of a well-formed image gets pages
  of its own, which hold the bytes of the file and zeros behind them, and the user finds them at
  the section's virtual address.
\<close>

section \<open>The window of a section\<close>

text \<open>The direct map covers all frames and does not wrap around.\<close>

lemma unat_wide: "unat (ucast x :: uquad) = unat x" for x :: ulong
proof -
  have "unat x < 2 ^ 64" by (rule less_le_trans [OF unsigned_less]) simp
  then show ?thesis by (simp add: unsigned_ucast_eq take_bit_nat_eq_self)
qed

definition direct_map :: "phys \<Rightarrow> bool" where
  "direct_map st \<longleftrightarrow> page_aligned (kernelBase st) \<and> kernelBase st \<noteq> 0 \<and> unat (kernelBase st) + 2 ^ 43 \<le> 2 ^ 64"

lemma direct_map_room:
  assumes "direct_map st" "unat a < 2 ^ 43"
  shows "unat (PHYS_TO_VIRT st a) = unat a + unat (kernelBase st)" "PHYS_TO_VIRT st a \<noteq> 0"
proof -
  have "unat a + unat (kernelBase st) < 2 ^ 64" using assms by (simp add: direct_map_def)
  then show eq: "unat (PHYS_TO_VIRT st a) = unat a + unat (kernelBase st)"
    unfolding PHYS_TO_VIRT_def by (rule unat_plus_small [OF less_le_trans]) simp
  have "0 < unat (kernelBase st)" using assms(1) by (simp add: direct_map_def unat_gt_0)
  with eq show "PHYS_TO_VIRT st a \<noteq> 0" by (metis add_gr_0 less_numeral_extra(3) unat_0)
qed

text \<open>A page that is none of a run's pages has no address in the run.\<close>

lemma outside_run:
  assumes "page_aligned a" "page_aligned g" "\<And>j. j < p \<Longrightarrow> g \<noteq> a + of_nat (4096 * j)"
    and "p < 2 ^ 20" "x - (g + kb) < 4096"
  shows "\<not> x - (a + kb) < of_nat (4096 * p)"
proof
  assume in_run: "x - (a + kb) < of_nat (4096 * p)"
  define i where "i = unat (x - (a + kb))"
  have "unat (of_nat (4096 * p) :: uquad) = 4096 * p" using assms(4) by (intro unat_of_nat_quad) simp
  with in_run have i: "i < 4096 * p" unfolding i_def word_less_nat_alt by simp
  define j where "j = i div 4096"
  have j: "j < p" using i by (simp add: j_def)
  have al: "page_aligned (a + of_nat (4096 * j))"
  proof (rule page_aligned_add [OF assms(1)])
    have "unat (of_nat (4096 * j) :: uquad) = 4096 * j" using j assms(4) by (intro unat_of_nat_quad) simp
    then show "page_aligned (of_nat (4096 * j))" by (simp add: page_aligned_dvd)
  qed
  have le: "4096 * j \<le> i" by (simp add: j_def)
  have "x - (a + of_nat (4096 * j) + kb) = of_nat i - of_nat (4096 * j)"
    by (simp only: i_def of_nat_unat ucast_id) (simp add: algebra_simps)
  also have "\<dots> = of_nat (i - 4096 * j)" using le by (simp only: of_nat_diff)
  also have "\<dots> < 4096"
  proof -
    have "i - 4096 * j = i mod 4096" by (simp only: j_def minus_mult_div_eq_mod)
    moreover have "unat (of_nat (i mod 4096) :: uquad) = i mod 4096"
      by (intro unat_of_nat_quad) (rule less_trans [of _ 4096], simp_all)
    ultimately show ?thesis by (simp add: word_less_nat_alt)
  qed
  finally have "g = a + of_nat (4096 * j)" by (intro pages_apart [OF assms(2) al assms(5)])
  with assms(3) [OF j] show False by simp
qed

definition wrote_section :: "uchar list \<Rightarrow> IMAGE_SECTION_HEADER \<Rightarrow> uquad \<Rightarrow> ulong_ptr \<Rightarrow> phys \<Rightarrow> bool" where
  "wrote_section img h root a st' \<longleftrightarrow>
     page_aligned a \<and> unat a + 4096 * sect_pages h < 2 ^ 43 \<and>
     (\<forall>j < sect_pages h. data_page frame_taken st' root (a + of_nat (4096 * j))) \<and>
     (\<forall>i < 4096 * sect_pages h. memByte (memory st') (PHYS_TO_VIRT st' a + of_nat i) = sect_byte img h i)"

lemma section_window:
  assumes "pool_ready st" "pt_inv frame_taken st root" "direct_map st" "sect_ok img h"
    and "spare_frames (sect_pages h + k) st"
  shows "\<exists>a st1. mmAllocPage (of_nat (sect_pages h)) st = Done (PHYS_TO_VIRT st a, st1) \<and> kernelBase st1 = kernelBase st \<and>
    PHYS_TO_VIRT st a \<noteq> 0 \<and>
    (\<forall>st2. st2 = st1\<lparr>memory := putBytes (PHYS_TO_VIRT st a) (take (unat (sh_rawDataSize h))
         (drop (unat (sh_rawDataPtr h)) img)) (memory st1)\<rparr> \<longrightarrow>
      pool_ready st2 \<and> pt_inv frame_taken st2 root \<and> spare_frames k st2 \<and> cr3 st2 = cr3 st \<and>
      keeps frame_taken root st st2 \<and> (\<forall>va. translate st2 root va = translate st root va) \<and> access_kept st root st2 \<and>
      wrote_section img h root a st2)"
proof -
  let ?p = "sect_pages h" and ?raw = "take (unat (sh_rawDataSize h)) (drop (unat (sh_rawDataPtr h)) img)"
  note p = sect_sizes(3,4) [OF assms(4)]
  have c: "unat (of_nat ?p :: usize) = ?p" using p by (intro unat_of_nat_quad) simp
  from mmAllocFrame_run [of st "of_nat ?p", unfolded c, OF assms(1,5) p(1)]
  obtain a st1 where al: "mmAllocFrame (of_nat ?p) st = Done (a, st1)" and a: "a \<noteq> 0" "page_aligned a"
      "unat a + 4096 * ?p < 2 ^ 43"
    and st1: "pool_ready st1" "spare_frames k st1" "kernelBase st1 = kernelBase st" "cr3 st1 = cr3 st"
    and grows: "\<And>b. frame_taken st b \<Longrightarrow> frame_taken st1 b"
    and run: "\<And>j. j < ?p \<Longrightarrow> \<not> frame_taken st (a + of_nat (4096 * j)) \<and> frame_taken st1 (a + of_nat (4096 * j))"
    and mem: "memory st1 = zeroRange (PHYS_TO_VIRT st a) (of_nat ?p * PAGESIZE) (memory st)"
    by blast
  let ?w = "PHYS_TO_VIRT st a"
  have w: "page_aligned ?w" using page_aligned_add [OF a(2)] assms(3) by (simp add: PHYS_TO_VIRT_def direct_map_def)
  have n: "4096 * ?p < 2 ^ 64" using p by simp
  have mem: "memory st1 = zeroRange ?w (of_nat (4096 * ?p)) (memory st)"
    unfolding mem by (simp add: PAGESIZE_def mult.commute)
  define st2 where "st2 = st1\<lparr>memory := putBytes ?w ?raw (memory st1)\<rparr>"
  have raw: "length ?raw = unat (sh_rawDataSize h)" "length ?raw \<le> 4096 * ?p"
    using assms(4) by (auto simp: sect_ok_def)
  have out: "memory st2 x = memory st x" if "page_aligned g" "frame_taken st g" "x - PHYS_TO_VIRT st g < 4096" for g x
  proof -
    have x: "\<not> x - ?w < of_nat (4096 * ?p)"
      unfolding PHYS_TO_VIRT_def by (rule outside_run [OF a(2) that(1) _ p(2)]) (use run that in \<open>auto simp: PHYS_TO_VIRT_def\<close>)
    then have "memory st2 x = memory st1 x"
      using putBytes_outside [OF w n x, of 0 ?raw "memory st1"] raw(2) by (simp add: st2_def)
    with x show ?thesis by (simp add: mem zeroRange_def)
  qed
  have ent: "entryAt st2 t i = entryAt st t i" if "frame_taken st t" "page_aligned t" "i < 512" for t i
  proof -
    have "t + kernelBase st + 8 * of_nat i - PHYS_TO_VIRT st t < 4096"
      using slot_in_page [OF that(2,2,3)] by (simp add: PHYS_TO_VIRT_def)
    from out [OF that(2,1) this] show ?thesis by (simp add: entryAt_def st2_def st1)
  qed
  have walk: "tableAt st2 root va d = tableAt st root va d" if "d \<le> 3" for va d
    using assms(2) _ ent that by (rule tableAt_cong) (simp add: st2_def st1)
  have kb: "kernelBase st2 = kernelBase st" and taken: "frame_taken st2 = frame_taken st1"
    and ready: "pool_ready st2" "spare_frames k st2" "cr3 st2 = cr3 st"
    using st1 frames.inv_memory frames.taken_memory frames.spare_memory by (simp_all add: st2_def)
  have "keeps frame_taken root st st2"
    unfolding keeps_def
  proof (intro conjI allI impI kb)
    fix g assume g: "data_page frame_taken st root g"
    then show "data_page frame_taken st2 root g"
      using grows by (simp add: data_page_def taken walk)
    show "memory st2 x = memory st x" if "x - PHYS_TO_VIRT st g < 4096" for x
      by (rule out [OF data_pageD(2,1) [OF g] that])
  qed
  moreover have "pt_inv frame_taken st2 root"
    by (rule pt_inv_cong [OF assms(2) kb ent]) (simp_all add: taken grows)
  moreover have "translate st2 root va = translate st root va" for va
    using assms(2) kb ent by (rule translate_cong)
  moreover have "access_kept st root st2"
  proof -
    have "levelEntry st2 root va d = levelEntry st root va d" if "d \<le> 3" for va d
      using assms(2) kb ent that by (rule levelEntry_cong)
    then show ?thesis using mmAllocFrame_tlb [OF assms(1) al] by (simp add: access_kept_def open_path_def st2_def)
  qed
  moreover have "data_page frame_taken st2 root (a + of_nat (4096 * j))" if j: "j < ?p" for j
  proof -
    have "unat (of_nat (4096 * j) :: uquad) = 4096 * j" using j p by (intro unat_of_nat_quad) simp
    then have "page_aligned (a + of_nat (4096 * j))" by (intro page_aligned_add [OF a(2)]) (simp add: page_aligned_dvd)
    moreover have "tableAt st root va d \<noteq> Some (a + of_nat (4096 * j))" if "d \<le> 3" for va d
      using pt_invD(2) [OF assms(2) that] run [OF j] by blast
    ultimately show ?thesis using run [OF j] by (simp add: data_page_def taken walk)
  qed
  moreover have "memByte (memory st2) (?w + of_nat i) = sect_byte img h i" if i: "i < 4096 * ?p" for i
  proof -
    have "unat (of_nat i :: uquad) = i" using i n by (intro unat_of_nat_quad) simp
    moreover have "length ?raw \<le> 2 ^ 64" using raw(2) n by linarith
    ultimately have "memByte (memory st2) (?w + of_nat i) =
        (if i < length ?raw then ?raw ! i else memByte (memory st1) (?w + of_nat i))"
      unfolding st2_def by (simp add: memByte_putBytes)
    then show ?thesis
      using memByte_zeroRange [OF w n i, of "memory st"] raw(1) assms(4) by (auto simp: sect_byte_def mem sect_ok_def)
  qed
  ultimately have "pool_ready st2 \<and> pt_inv frame_taken st2 root \<and> spare_frames k st2 \<and> cr3 st2 = cr3 st \<and>
      keeps frame_taken root st st2 \<and> (\<forall>va. translate st2 root va = translate st root va) \<and> access_kept st root st2 \<and>
      wrote_section img h root a st2"
    using ready a by (simp add: wrote_section_def PHYS_TO_VIRT_def kb)
  moreover have "?w \<noteq> 0" using direct_map_room(2) [OF assms(3)] a(3) by simp
  moreover have "mmAllocPage (of_nat ?p) st = Done (?w, st1)"
    using al a(1) st1(3) by (simp add: mmAllocPage_def PHYS_TO_VIRT_def)
  ultimately show ?thesis using st1(3) by (simp add: st2_def) blast
qed

lemma wrote_section_keeps:
  assumes "wrote_section img h root a st" "keeps frame_taken root st st'" "direct_map st" "sect_ok img h"
  shows "wrote_section img h root a st'"
proof -
  have kb: "kernelBase st' = kernelBase st" "PHYS_TO_VIRT st' a = PHYS_TO_VIRT st a"
    using assms(2) by (simp_all add: keeps_def PHYS_TO_VIRT_def)
  have "memByte (memory st') (PHYS_TO_VIRT st a + of_nat i) = memByte (memory st) (PHYS_TO_VIRT st a + of_nat i)"
    if i: "i < 4096 * sect_pages h" for i
  proof (rule memByte_keeps [OF assms(2)])
    have "i div 4096 < sect_pages h" using i by simp
    then show "data_page frame_taken st root (a + of_nat (4096 * (i div 4096)))"
      using assms(1) by (simp add: wrote_section_def)
    show "page_aligned a" "page_aligned (kernelBase st)" "i < 2 ^ 52"
      using assms(1,3) i sect_sizes(4) [OF assms(4)] by (simp_all add: wrote_section_def direct_map_def)
  qed
  then show ?thesis
    using assms(1,2) by (simp add: wrote_section_def kb keeps_def)
qed

section \<open>One section\<close>

definition user_exec :: "ulong_ptr \<Rightarrow> uquad" where
  "user_exec a = a OR mmuGetTableFlags PAGE_USER_EXEC_READ"

definition placed :: "uchar list \<Rightarrow> IMAGE_SECTION_HEADER \<Rightarrow> uquad \<Rightarrow> ulong_ptr \<Rightarrow> phys \<Rightarrow> bool" where
  "placed img h root a st \<longleftrightarrow> wrote_section img h root a st \<and>
     (\<forall>j < sect_pages h. \<forall>va. pfx 4 va = pfx 4 (sect_base h + of_nat (4096 * j)) \<longrightarrow>
       translate st root va = Some (user_exec (a + of_nat (4096 * j)))) \<and>
     (\<forall>j < sect_pages h. tlb st (ALIGN_DOWN (sect_base h + of_nat (4096 * j)) PAGESIZE) = None)"

text \<open>The addresses of a section's pages.\<close>

definition sect_has :: "IMAGE_SECTION_HEADER \<Rightarrow> ulong_ptr \<Rightarrow> bool" where
  "sect_has h va \<longleftrightarrow> (\<exists>j < sect_pages h. pfx 4 va = pfx 4 (sect_base h + of_nat (4096 * j)))"

lemma section_mapped:
  assumes "pool_ready st" "pt_inv frame_taken st root" "direct_map st" "sect_ok img h" "wrote_section img h root a st"
    and "spare_frames (3 * sect_pages h + k) st"
  shows "\<exists>v rg st'. mmMapPages (mmAllocFrame 1) (Some root) (Some \<lparr>rgPBase = a, rgVBase = sect_base h,
      rgByteCount = ucast (ALIGN_UP (sh_virtualSize h) (ucast PAGESIZE))\<rparr>) PAGE_USER_EXEC_READ st = Done (v, rg, st') \<and>
    pool_ready st' \<and> pt_inv frame_taken st' root \<and> spare_frames k st' \<and> keeps frame_taken root st st' \<and> access_kept st root st' \<and>
    placed img h root a st' \<and> (\<forall>va. \<not> sect_has h va \<longrightarrow> translate st' root va = translate st root va)"
proof -
  let ?p = "sect_pages h"
  note p = sect_sizes(3,4) [OF assms(4)]
  let ?r = "\<lparr>rgPBase = a, rgVBase = sect_base h, rgByteCount = ucast (ALIGN_UP (sh_virtualSize h) (ucast PAGESIZE))\<rparr>"
  have n: "unat (ucast (ALIGN_UP (sh_virtualSize h) (ucast PAGESIZE)) :: usize) = 4096 * ?p"
  proof -
    have "unat (of_nat (4096 * ?p) :: ulong) = 4096 * ?p"
      using p by (simp add: unat_of_nat take_bit_nat_eq_self del: of_nat_mult)
    moreover have "4096 * ?p < 2 ^ 64" using p by simp
    ultimately show ?thesis
      unfolding sect_sizes(2) [OF assms(4)] by (simp add: unsigned_ucast_eq take_bit_nat_eq_self del: of_nat_mult)
  qed
  have "4096 * ?p + 4095 < 2 ^ 64" using p by simp
  then have up: "unat (ALIGN_UP (rgByteCount ?r) PAGESIZE) = 4096 * ?p"
    using n by (simp add: unat_ALIGN_UP_page)
  have al: "ALIGN_DOWN (rgPBase ?r) PAGESIZE = a"
    using assms(5) by (simp add: wrote_section_def ALIGN_DOWN_page_id)
  have vb: "ALIGN_DOWN (rgVBase ?r) PAGESIZE = sect_base h"
  proof -
    have "page_aligned (sect_base h)" using assms(4) by (auto simp: page_aligned_dvd sect_ok_def unat_wide)
    then show ?thesis by (simp add: ALIGN_DOWN_page_id)
  qed
  have m: "?p \<le> 2 ^ 36" using p by simp
  from mmMapPages_run [OF assms(1,2) up m, of PAGE_USER_EXEC_READ, unfolded al vb]
  obtain ok st' where run: "mmMapPages (mmAllocFrame 1) (Some root) (Some ?r) PAGE_USER_EXEC_READ st =
      Done (if ok then sect_base h else 0, Some \<lparr>rgPBase = a, rgVBase = sect_base h, rgByteCount = ALIGN_UP (rgByteCount ?r) PAGESIZE\<rparr>, st')"
    and inv: "pool_ready st'" "pt_inv frame_taken st' root"
    and spare: "\<forall>n. spare_frames (n + 3 * ?p) st \<longrightarrow> ok \<and> spare_frames n st'"
    and kept: "access_kept st root st'"
    and tr: "ok \<longrightarrow> (\<forall>j < ?p. tlb st' (ALIGN_DOWN (sect_base h + of_nat (4096 * j)) PAGESIZE) = None) \<and>
      (\<forall>j < ?p. \<forall>va. pfx 4 va = pfx 4 (sect_base h + of_nat (4096 * j)) \<longrightarrow>
         translate st' root va = Some ((a + of_nat (4096 * j)) OR mmuGetTableFlags PAGE_USER_EXEC_READ)) \<and>
      (\<forall>va. (\<forall>j < ?p. pfx 4 va \<noteq> pfx 4 (sect_base h + of_nat (4096 * j))) \<longrightarrow> translate st' root va = translate st root va)"
    by blast
  have ok: ok "spare_frames k st'" using spare [rule_format, of k] assms(6) by (simp_all add: add.commute)
  have k: "keeps frame_taken root st st'" by (rule mmMapPages_keeps [OF assms(1,2) up run])
  have "placed img h root a st'"
    using wrote_section_keeps [OF assms(5) k assms(3,4)] ok(1) tr by (simp add: placed_def user_exec_def)
  moreover have "\<forall>va. \<not> sect_has h va \<longrightarrow> translate st' root va = translate st root va"
    using ok(1) tr by (auto simp: sect_has_def)
  ultimately show ?thesis using run inv ok(2) k kept by blast
qed

lemma keeps_direct_map: "keeps taken root st st' \<Longrightarrow> direct_map st \<Longrightarrow> direct_map st'"
  by (simp add: keeps_def direct_map_def)

text \<open>One round of the loop.\<close>

lemma loadSections_step:
  assumes "pool_ready (bphys s)" "pt_inv frame_taken (bphys s) root" "direct_map (bphys s)"
    and "sectionAt img sect = Done h" "sect_ok img h" "spare_frames (4 * sect_pages h + k) (bphys s)" "elemAnswers s = e # es"
  shows "\<exists>s' a. loadSections fuel img box root (Suc n) sect s = loadSections fuel img box root n (sect + SECT_HDR_LEN) s' \<and>
    pool_ready (bphys s') \<and> pt_inv frame_taken (bphys s') root \<and> spare_frames k (bphys s') \<and> elemAnswers s' = es \<and>
    keeps frame_taken root (bphys s) (bphys s') \<and> placed img h root a (bphys s') \<and> access_kept (bphys s) root (bphys s') \<and>
    (\<forall>va. \<not> sect_has h va \<longrightarrow> translate (bphys s') root va = translate (bphys s) root va)"
proof -
  let ?p = "sect_pages h" and ?pm = "bphys s" and ?v = "ucast (sh_virtualSize h) :: usize"
  let ?raw = "take (unat (sh_rawDataSize h)) (drop (unat (sh_rawDataPtr h)) img)"
  have "?p + (3 * ?p + k) = 4 * ?p + k" by simp
  with assms(6) have "spare_frames (?p + (3 * ?p + k)) ?pm" by (simp only:)
  from section_window [OF assms(1-3,5) this] obtain a st1 where al: "mmAllocPage (of_nat ?p) ?pm = Done (PHYS_TO_VIRT ?pm a, st1)"
    and kb: "kernelBase st1 = kernelBase ?pm" and nz: "PHYS_TO_VIRT ?pm a \<noteq> 0"
    and win: "\<forall>st2. st2 = st1\<lparr>memory := putBytes (PHYS_TO_VIRT ?pm a) ?raw (memory st1)\<rparr> \<longrightarrow>
      pool_ready st2 \<and> pt_inv frame_taken st2 root \<and> spare_frames (3 * ?p + k) st2 \<and> cr3 st2 = cr3 ?pm \<and>
      keeps frame_taken root ?pm st2 \<and> (\<forall>va. translate st2 root va = translate ?pm root va) \<and> access_kept ?pm root st2 \<and>
      wrote_section img h root a st2"
    by blast
  define st2 where "st2 = st1\<lparr>memory := putBytes (PHYS_TO_VIRT ?pm a) ?raw (memory st1)\<rparr>"
  have st2: "pool_ready st2" "pt_inv frame_taken st2 root" "spare_frames (3 * ?p + k) st2" "keeps frame_taken root ?pm st2"
    "\<And>va. translate st2 root va = translate ?pm root va" "wrote_section img h root a st2" "access_kept ?pm root st2"
    using win st2_def by blast+
  from section_mapped [OF st2(1,2) keeps_direct_map [OF st2(4) assms(3)] assms(5) st2(6,3)]
  obtain v rg st3 where map: "mmMapPages (mmAllocFrame 1) (Some root) (Some \<lparr>rgPBase = a, rgVBase = sect_base h,
      rgByteCount = ucast (ALIGN_UP (sh_virtualSize h) (ucast PAGESIZE))\<rparr>) PAGE_USER_EXEC_READ st2 = Done (v, rg, st3)"
    and st3: "pool_ready st3" "pt_inv frame_taken st3 root" "spare_frames k st3" "keeps frame_taken root st2 st3"
    "placed img h root a st3" "\<forall>va. \<not> sect_has h va \<longrightarrow> translate st3 root va = translate st2 root va" "access_kept st2 root st3"
    by blast
  have p: "0 < unat (sh_virtualSize h)" using assms(5) by (simp add: sect_ok_def)
  have v0: "?v \<noteq> 0"
    using p unat_wide [of "sh_virtualSize h"] by (metis less_numeral_extra(3) unat_0)
  have cnt: "ALIGN_UP ?v PAGESIZE div PAGESIZE = of_nat ?p"
  proof -
    have "unat (ALIGN_UP ?v PAGESIZE div PAGESIZE) = ?p"
      using sect_sizes(1) [OF assms(5)] by (simp add: unat_div PAGESIZE_def)
    then show ?thesis by (metis of_nat_unat ucast_id)
  qed
  have len: "\<not> length img < unat (sh_rawDataPtr h) + unat (sh_rawDataSize h)" using assms(5) by (simp add: sect_ok_def)
  define s1 where "s1 = s\<lparr>belems := (belems s)(e \<mapsto> \<lparr>be_magic = PTRBOX_MAGIC, be_type = PTRBOX_PAGES,
      be_address = PHYS_TO_VIRT ?pm a, be_len = ALIGN_UP ?v PAGESIZE\<rparr>), blinks := TAILQ_INSERT_TAIL box e (blinks s),
      ptrCount := (ptrCount s)(box := ptrCount s box + 1), bphys := st1, elemAnswers := es\<rparr>"
  have box: "exBoxAllocate (Some box) ?v PTRBOX_PAGES False s = Done (STATUS_SUCCESS, Some (PHYS_TO_VIRT ?pm a), s1)"
    using v0 cnt nz al assms(7) by (simp add: exBoxAllocate_def boxInsert_def Let_def s1_def)
  have s1: "bphys s1 = st1" "elemAnswers s1 = es" by (simp_all add: s1_def)
  have vp: "VIRT_TO_PHYS st1 (PHYS_TO_VIRT ?pm a) = a" by (simp add: VIRT_TO_PHYS_def PHYS_TO_VIRT_def kb)
  have "loadSections fuel img box root (Suc n) sect s =
      loadSections fuel img box root n (sect + SECT_HDR_LEN) (s1\<lparr>bphys := st3\<rparr>)"
    using len by (simp add: assms(4) box Let_def s1 vp map flip: st2_def)
  moreover have "keeps frame_taken root ?pm st3" by (rule keeps_trans [OF st2(4) st3(4)])
  moreover have "access_kept ?pm root st3" by (rule access_kept_trans [OF st2(7) st3(7)])
  ultimately show ?thesis
    using st3 st2(5) s1(2) by (intro exI [of _ "s1\<lparr>bphys := st3\<rparr>"] exI [of _ a]) simp
qed

section \<open>All sections\<close>

fun headersAt :: "uchar list \<Rightarrow> nat \<Rightarrow> IMAGE_SECTION_HEADER list \<Rightarrow> bool" where
  "headersAt img sect [] \<longleftrightarrow> True"
| "headersAt img sect (h # hs) \<longleftrightarrow> sectionAt img sect = Done h \<and> headersAt img (sect + SECT_HDR_LEN) hs"

definition sects_apart :: "IMAGE_SECTION_HEADER list \<Rightarrow> bool" where
  "sects_apart hs \<longleftrightarrow> sorted_wrt (\<lambda>h h'. unat (sh_virtualAddr h) + 4096 * sect_pages h \<le> unat (sh_virtualAddr h') \<or>
     unat (sh_virtualAddr h') + 4096 * sect_pages h' \<le> unat (sh_virtualAddr h)) hs"

lemma sect_page_pfx:
  assumes "sect_ok img h" "i < 4096 * sect_pages h"
  shows "pfx 4 (sect_base h + of_nat i) = unat (sh_virtualAddr h) div 4096 + i div 4096"
    "unat (sect_base h + of_nat i) = unat (sh_virtualAddr h) + i"
proof -
  have i: "i < 2 ^ 32" using assms(2) sect_sizes(4) [OF assms(1)] by simp
  then have "unat (of_nat i :: uquad) = i" by (intro unat_of_nat_quad) simp
  moreover have v: "unat (sh_virtualAddr h) < 2 ^ 32" by (rule unsigned_less [THEN less_le_trans]) simp
  ultimately show u: "unat (sect_base h + of_nat i) = unat (sh_virtualAddr h) + i"
    using i by (subst unat_plus_small) (simp_all add: unat_wide)
  obtain k where k: "unat (sh_virtualAddr h) = 4096 * k" using assms(1) by (auto simp: sect_ok_def elim: dvdE [OF mod_0_imp_dvd])
  have "unat (sh_virtualAddr h) + i < 2 ^ 48" using i v by simp
  then show "pfx 4 (sect_base h + of_nat i) = unat (sh_virtualAddr h) div 4096 + i div 4096"
    by (simp only: pfx_def u) (simp add: k)
qed

lemma sect_has_disjoint:
  assumes "sect_ok img h" "sect_ok img h'" "sect_has h va" "sect_has h' va"
    and "unat (sh_virtualAddr h) + 4096 * sect_pages h \<le> unat (sh_virtualAddr h') \<or>
     unat (sh_virtualAddr h') + 4096 * sect_pages h' \<le> unat (sh_virtualAddr h)"
  shows False
proof -
  obtain j j' where j: "j < sect_pages h" "j' < sect_pages h'"
    "pfx 4 (sect_base h + of_nat (4096 * j)) = pfx 4 (sect_base h' + of_nat (4096 * j'))"
    using assms(3,4) by (metis sect_has_def)
  have less: "4096 * j < 4096 * sect_pages h" "4096 * j' < 4096 * sect_pages h'" using j by auto
  obtain k k' where k: "unat (sh_virtualAddr h) = 4096 * k" "unat (sh_virtualAddr h') = 4096 * k'"
    using assms(1,2) by (auto simp: sect_ok_def elim!: dvdE [OF mod_0_imp_dvd])
  have "k + j = k' + j'"
    using j(3) sect_page_pfx(1) [OF assms(1) less(1)] sect_page_pfx(1) [OF assms(2) less(2)]
    by (simp add: k del: of_nat_mult)
  then show False using assms(5) j(1,2) k by linarith
qed

lemma placed_keeps:
  assumes "placed img h root a st" "keeps frame_taken root st st'" "direct_map st" "sect_ok img h"
    and "\<And>va. sect_has h va \<Longrightarrow> translate st' root va = translate st root va" "access_kept st root st'"
  shows "placed img h root a st'"
  unfolding placed_def
proof (intro conjI allI impI)
  show "wrote_section img h root a st'"
    using wrote_section_keeps [OF _ assms(2-4)] assms(1) by (simp add: placed_def)
  fix j va assume j: "j < sect_pages h" "pfx 4 va = pfx 4 (sect_base h + of_nat (4096 * j))"
  then have "sect_has h va" by (auto simp: sect_has_def)
  then have "translate st' root va = translate st root va" by (rule assms(5))
  also have "\<dots> = Some (user_exec (a + of_nat (4096 * j)))" using assms(1) j by (simp add: placed_def)
  finally show "translate st' root va = Some (user_exec (a + of_nat (4096 * j)))" .
next
  fix j assume "j < sect_pages h"
  then show "tlb st' (ALIGN_DOWN (sect_base h + of_nat (4096 * j)) PAGESIZE) = None"
    using assms(1,6) by (simp add: placed_def access_kept_def)
qed

lemma loadSections_places:
  assumes "pool_ready (bphys s)" "pt_inv frame_taken (bphys s) root" "direct_map (bphys s)"
    and "headersAt img sect hs" "\<forall>h \<in> set hs. sect_ok img h" "sects_apart hs"
    and "spare_frames (4 * sum_list (map sect_pages hs)) (bphys s)" "length hs \<le> length (elemAnswers s)"
  shows "\<exists>s'. loadSections fuel img box root (length hs) sect s = Some (Done (STATUS_SUCCESS, s')) \<and>
    pool_ready (bphys s') \<and> pt_inv frame_taken (bphys s') root \<and> keeps frame_taken root (bphys s) (bphys s') \<and>
    (\<forall>h \<in> set hs. \<exists>a. placed img h root a (bphys s')) \<and> access_kept (bphys s) root (bphys s') \<and>
    (\<forall>va. (\<forall>h \<in> set hs. \<not> sect_has h va) \<longrightarrow> translate (bphys s') root va = translate (bphys s) root va)"
  using assms
proof (induction hs arbitrary: s sect)
  case Nil
  then show ?case by (simp add: keeps_refl access_kept_refl)
next
  case (Cons h hs)
  obtain e es where es: "elemAnswers s = e # es" "length hs \<le> length es"
    using Cons.prems(8) by (cases "elemAnswers s") auto
  have h: "sectionAt img sect = Done h" "sect_ok img h" "headersAt img (sect + SECT_HDR_LEN) hs"
    "\<forall>h \<in> set hs. sect_ok img h" "sects_apart hs"
    using Cons.prems(4-6) by (simp_all add: sects_apart_def)
  have "spare_frames (4 * sect_pages h + 4 * sum_list (map sect_pages hs)) (bphys s)" using Cons.prems(7) by simp
  from loadSections_step [OF Cons.prems(1-3) h(1,2) this es(1), of fuel box "length hs"]
  obtain s1 a where run: "loadSections fuel img box root (Suc (length hs)) sect s =
      loadSections fuel img box root (length hs) (sect + SECT_HDR_LEN) s1"
    and s1: "pool_ready (bphys s1)" "pt_inv frame_taken (bphys s1) root" "spare_frames (4 * sum_list (map sect_pages hs)) (bphys s1)"
    "elemAnswers s1 = es" "keeps frame_taken root (bphys s) (bphys s1)" "placed img h root a (bphys s1)"
    "\<forall>va. \<not> sect_has h va \<longrightarrow> translate (bphys s1) root va = translate (bphys s) root va"
    "access_kept (bphys s) root (bphys s1)"
    by blast
  have dm: "direct_map (bphys s1)" by (rule keeps_direct_map [OF s1(5) Cons.prems(3)])
  from Cons.IH [OF s1(1,2) dm h(3-5) s1(3)] es(2) s1(4)
  obtain s2 where s2: "loadSections fuel img box root (length hs) (sect + SECT_HDR_LEN) s1 = Some (Done (STATUS_SUCCESS, s2))"
    "pool_ready (bphys s2)" "pt_inv frame_taken (bphys s2) root" "keeps frame_taken root (bphys s1) (bphys s2)"
    "\<forall>h \<in> set hs. \<exists>a. placed img h root a (bphys s2)"
    "\<forall>va. (\<forall>h \<in> set hs. \<not> sect_has h va) \<longrightarrow> translate (bphys s2) root va = translate (bphys s1) root va"
    "access_kept (bphys s1) root (bphys s2)"
    by auto
  have "translate (bphys s2) root va = translate (bphys s1) root va" if va: "sect_has h va" for va
  proof -
    have "\<not> sect_has h' va" if "h' \<in> set hs" for h'
      using sect_has_disjoint [OF h(2) _ va] h(4) that Cons.prems(6) by (auto simp: sects_apart_def)
    with s2(6) show ?thesis by blast
  qed
  then have "placed img h root a (bphys s2)" by (rule placed_keeps [OF s1(6) s2(4) dm h(2) _ s2(7)])
  with s2 s1(7) run keeps_trans [OF s1(5) s2(4)] access_kept_trans [OF s1(8) s2(7)] show ?case by (intro exI [of _ s2]) auto
qed

section \<open>What the user reads\<close>

text \<open>
  The byte at an address for code in user mode: the entry the processor uses, from its cache or with
  the rights of all levels of the walk, says that the page is the user's, may be executed and may
  not be written; the byte is in the direct map.
\<close>

definition userCode :: "phys \<Rightarrow> uquad \<Rightarrow> ulong_ptr \<Rightarrow> uchar option" where
  "userCode st root va =
     (case procEntry st root va of None \<Rightarrow> None
      | Some e \<Rightarrow> if e AND PTE_US \<noteq> 0 \<and> e AND PTE_RW = 0 \<and> e AND PTE_NX = 0
          then Some (memByte (memory st) (PHYS_TO_VIRT st ((e AND PTE_ADDR_MASK) + of_nat (unat va mod 4096)))) else None)"

lemma user_exec_bits:
  assumes "page_aligned a" "unat a < 2 ^ 52"
  shows "user_exec a AND PTE_US \<noteq> 0" "user_exec a AND PTE_RW = 0" "user_exec a AND PTE_NX = 0"
    "user_exec a AND PTE_ADDR_MASK = a"
proof -
  have e: "user_exec a = a OR (PTE_P OR PTE_US)"
  proof -
    have "mmuGetTableFlags PAGE_USER_EXEC_READ = PTE_P OR PTE_US" by code_simp
    then show ?thesis by (simp add: user_exec_def)
  qed
  have US: "(PTE_P OR PTE_US) AND PTE_US = PTE_US" "PTE_US \<noteq> 0" by (simp_all add: pte_defs)
  then show "user_exec a AND PTE_US \<noteq> 0" by (simp add: e bit.conj_disj_distrib2 or_eq_0_iff)
  have "a AND PTE_RW = (a AND 4095) AND PTE_RW" by (simp add: and.assoc pte_defs)
  then have "a AND PTE_RW = 0" using assms(1) by (simp add: page_aligned_def)
  then show "user_exec a AND PTE_RW = 0" by (simp add: e bit.conj_disj_distrib2) (simp add: pte_defs)
  have "take_bit 52 a = a" using assms(2) by (simp add: word_unat_eq_iff unsigned_take_bit_eq take_bit_nat_eq_self)
  then have "a AND PTE_NX = a AND (mask 52 AND PTE_NX)" by (simp add: take_bit_eq_mask flip: and.assoc)
  moreover have "mask 52 AND PTE_NX = 0" by (simp add: PTE_NX_def mask_eq_exp_minus_1)
  ultimately have "a AND PTE_NX = 0" by simp
  then show "user_exec a AND PTE_NX = 0" by (simp add: e bit.conj_disj_distrib2) (simp add: pte_defs)
  have "a AND PTE_ADDR_MASK = a"
  proof -
    have "(PTE_P OR PTE_RW OR PTE_US) AND PTE_ADDR_MASK = 0" by (simp add: pte_defs)
    with new_entry(1) [OF assms] show ?thesis by (simp add: bit.conj_disj_distrib2)
  qed
  then show "user_exec a AND PTE_ADDR_MASK = a" by (simp add: e bit.conj_disj_distrib2) (simp add: pte_defs)
qed

text \<open>The addresses of a section are canonical, in the lower half.\<close>

lemma sect_address_low:
  assumes "sect_ok img h" "i < 4096 * sect_pages h"
  shows "canonical (sect_base h + of_nat i)" "hwIdx 0 (sect_base h + of_nat i) < 256"
proof -
  have "unat (sh_virtualAddr h) < 2 ^ 32" by (rule unsigned_less [THEN less_le_trans]) simp
  then have u: "unat (sect_base h + of_nat i) < 2 ^ 33"
    using sect_page_pfx(2) [OF assms] assms(2) sect_sizes(4) [OF assms(1)] by simp
  then show "canonical (sect_base h + of_nat i)" by (simp add: canonical_def)
  from u show "hwIdx 0 (sect_base h + of_nat i) < 256" by (simp add: hwIdx_def)
qed

lemma placed_userCode:
  assumes "placed img h root a st" "sect_ok img h" "i < 4096 * sect_pages h" "open_path st root (sect_base h + of_nat i)"
  shows "userCode st root (sect_base h + of_nat i) = Some (sect_byte img h i)"
proof -
  let ?va = "sect_base h + of_nat i" and ?j = "i div 4096" and ?w = "a + of_nat (4096 * (i div 4096))"
  have j: "?j < sect_pages h" "4096 * ?j < 4096 * sect_pages h" using assms(3) by simp_all
  have page: "pfx 4 ?va = pfx 4 (sect_base h + of_nat (4096 * ?j))"
    using sect_page_pfx(1) [OF assms(2,3)] sect_page_pfx(1) [OF assms(2) j(2)] by (simp del: of_nat_mult)
  then have tr: "translate st root ?va = Some (user_exec ?w)" using assms(1) j(1) unfolding placed_def by blast
  have "ALIGN_DOWN ?va PAGESIZE = ALIGN_DOWN (sect_base h + of_nat (4096 * ?j)) PAGESIZE"
    using sect_address_low(1) [OF assms(2,3)] sect_address_low(1) [OF assms(2) j(2)] page by (rule canonical_same_page)
  then have "tlb st (ALIGN_DOWN ?va PAGESIZE) = None" using assms(1) j(1) by (simp add: placed_def)
  then have pe: "procEntry st root ?va = Some (user_exec ?w)"
    using procEntry_effective [OF sect_address_low(1) [OF assms(2,3)], of st root] open_effective [OF assms(4)] tr by simp
  have "wrote_section img h root a st" using assms(1) by (simp add: placed_def)
  with j(1) assms(3) have w: "page_aligned ?w" "unat a + 4096 * sect_pages h < 2 ^ 43"
    "memByte (memory st) (PHYS_TO_VIRT st a + of_nat i) = sect_byte img h i"
    by (auto simp: wrote_section_def data_page_def)
  have "unat ?w < 2 ^ 52"
  proof -
    have o: "unat (of_nat (4096 * ?j) :: uquad) = 4096 * ?j" using w(2) j by (intro unat_of_nat_quad) simp
    have "unat a + 4096 * ?j < 2 ^ 43" using w(2) j by simp
    then have "unat ?w = unat a + 4096 * ?j" using o by (subst unat_plus_small) (simp_all del: of_nat_mult)
    with \<open>unat a + 4096 * ?j < 2 ^ 43\<close> show ?thesis by simp
  qed
  note bits = user_exec_bits [OF w(1) this]
  have "unat ?va mod 4096 = i mod 4096"
  proof -
    obtain k where "unat (sh_virtualAddr h) = 4096 * k" using assms(2) by (auto simp: sect_ok_def elim!: dvdE [OF mod_0_imp_dvd])
    then show ?thesis unfolding sect_page_pfx(2) [OF assms(2,3)] by simp
  qed
  moreover have "?w + of_nat (i mod 4096) = a + of_nat i"
  proof -
    have "of_nat (4096 * ?j) + of_nat (i mod 4096) = (of_nat (4096 * ?j + i mod 4096) :: uquad)" by (simp only: of_nat_add)
    also have "\<dots> = of_nat i" by (simp only: mult_div_mod_eq)
    finally show ?thesis by (simp only: add.assoc)
  qed
  moreover have "PHYS_TO_VIRT st (a + of_nat i) = PHYS_TO_VIRT st a + of_nat i" by (simp add: PHYS_TO_VIRT_def)
  ultimately show ?thesis using w(3) by (simp only: userCode_def pe bits option.case) simp
qed

lemma loadPe64_run:
  assumes "pool_ready (bphys s)" "pt_inv frame_taken (bphys s) (mmGetCurrentVas (bphys s))" "direct_map (bphys s)"
    and "ushortAt img (pe + 20) = Done osz" "ushortAt img (pe + 6) = Done n" "unat n = length hs"
    and "headersAt img (pe + PE_HEADER_SIZE + unat osz) hs" "\<forall>h \<in> set hs. sect_ok img h" "sects_apart hs"
    and "spare_frames (4 * sum_list (map sect_pages hs)) (bphys s)" "length hs \<le> length (elemAnswers s)"
    and "\<forall>h \<in> set hs. \<forall>i < 4096 * sect_pages h. open_path (bphys s) (mmGetCurrentVas (bphys s)) (sect_base h + of_nat i)"
  shows "\<exists>s'. loadPe64 fuel img pe box s = Some (Done (STATUS_SUCCESS, s')) \<and>
    pool_ready (bphys s') \<and> kernelBase (bphys s') = kernelBase (bphys s) \<and> pt_inv frame_taken (bphys s') (mmGetCurrentVas (bphys s)) \<and>
    access_kept (bphys s) (mmGetCurrentVas (bphys s)) (bphys s') \<and>
    (\<forall>h \<in> set hs. \<forall>i < 4096 * sect_pages h.
       userCode (bphys s') (mmGetCurrentVas (bphys s)) (sect_base h + of_nat i) = Some (sect_byte img h i)) \<and>
    (\<forall>va. (\<forall>h \<in> set hs. \<not> sect_has h va) \<longrightarrow>
       translate (bphys s') (mmGetCurrentVas (bphys s)) va = translate (bphys s) (mmGetCurrentVas (bphys s)) va)"
proof -
  let ?s = "snd (exInitPtrBox (Some box) s)"
  have s: "bphys ?s = bphys s" "elemAnswers ?s = elemAnswers s" by (simp_all add: exInitPtrBox_def)
  from loadSections_places [of ?s "mmGetCurrentVas (bphys s)", unfolded s, OF assms(1-3,7-11), of fuel box]
  obtain s' where "loadSections fuel img box (mmGetCurrentVas (bphys s)) (length hs) (pe + PE_HEADER_SIZE + unat osz) ?s =
      Some (Done (STATUS_SUCCESS, s'))" "pool_ready (bphys s')" "pt_inv frame_taken (bphys s') (mmGetCurrentVas (bphys s))"
    and keeps: "keeps frame_taken (mmGetCurrentVas (bphys s)) (bphys s) (bphys s')"
    and placed: "\<forall>h \<in> set hs. \<exists>a. placed img h (mmGetCurrentVas (bphys s)) a (bphys s')"
    and kept: "access_kept (bphys s) (mmGetCurrentVas (bphys s)) (bphys s')"
    and "\<forall>va. (\<forall>h \<in> set hs. \<not> sect_has h va) \<longrightarrow>
       translate (bphys s') (mmGetCurrentVas (bphys s)) va = translate (bphys s) (mmGetCurrentVas (bphys s)) va"
    by blast
  moreover have "kernelBase (bphys s') = kernelBase (bphys s)" using keeps by (simp add: keeps_def)
  moreover have "\<forall>h \<in> set hs. \<forall>i < 4096 * sect_pages h.
       userCode (bphys s') (mmGetCurrentVas (bphys s)) (sect_base h + of_nat i) = Some (sect_byte img h i)"
    using placed placed_userCode assms(8,12) kept unfolding access_kept_def by blast
  ultimately show ?thesis using assms(4-6) kept by (intro exI [of _ s']) (simp add: loadPe64_def)
qed

text \<open>
  C5 (loading a program). In a ready pool with a direct map of all frames and a proper address space in which the tables already
  present above the sections' addresses grant user access, with an image whose sections are well formed
  and disjoint, four spare frames in a row for each page of them and enough pool elements, \<^verbatim>\<open>loadPe64\<close>
  succeeds. Every byte of every section can then be read and executed, and not written, in user
  mode at the section's virtual address, by the rights of all four levels and whatever the translation cache
  held before: the file's bytes and zeros up to the end of the last page.
  The translation of all other addresses is what it was, and the tables are well formed.
\<close>

theorem loadPe64_loads:
  assumes "pool_ready (bphys s)" "pt_inv frame_taken (bphys s) (mmGetCurrentVas (bphys s))" "direct_map (bphys s)"
    and "ushortAt img (pe + 20) = Done osz" "ushortAt img (pe + 6) = Done n" "unat n = length hs"
    and "headersAt img (pe + PE_HEADER_SIZE + unat osz) hs" "\<forall>h \<in> set hs. sect_ok img h" "sects_apart hs"
    and "spare_frames (4 * sum_list (map sect_pages hs)) (bphys s)" "length hs \<le> length (elemAnswers s)"
    and "\<forall>h \<in> set hs. \<forall>i < 4096 * sect_pages h. open_path (bphys s) (mmGetCurrentVas (bphys s)) (sect_base h + of_nat i)"
  shows "\<exists>s'. loadPe64 fuel img pe box s = Some (Done (STATUS_SUCCESS, s')) \<and>
    pool_ready (bphys s') \<and> pt_inv frame_taken (bphys s') (mmGetCurrentVas (bphys s)) \<and>
    (\<forall>h \<in> set hs. \<forall>i < 4096 * sect_pages h.
       userCode (bphys s') (mmGetCurrentVas (bphys s)) (sect_base h + of_nat i) = Some (sect_byte img h i)) \<and>
    (\<forall>va. (\<forall>h \<in> set hs. \<not> sect_has h va) \<longrightarrow>
       translate (bphys s') (mmGetCurrentVas (bphys s)) va = translate (bphys s) (mmGetCurrentVas (bphys s)) va)"
  using loadPe64_run [OF assms, of fuel box] by blast

text \<open>An image of two sections: two bytes of code, and a page of zeros.\<close>

definition demo_image :: "uchar list" where
  "demo_image = [0x50, 0x45, 0, 0, 0x64, 0x86, 2, 0] @ replicate 16 0 @
     replicate 8 0 @ [2, 0, 0, 0, 0, 0, 0x40, 0, 2, 0, 0, 0, 104, 0, 0, 0] @ replicate 16 0 @
     replicate 8 0 @ [0, 0x10, 0, 0, 0, 0x10, 0x40, 0, 0, 0, 0, 0, 0, 0, 0, 0] @ replicate 16 0 @ [0x90, 0xC3]"

definition demo_sects :: "IMAGE_SECTION_HEADER list" where
  "demo_sects = [\<lparr>sh_virtualSize = 2, sh_virtualAddr = 0x400000, sh_rawDataSize = 2, sh_rawDataPtr = 104\<rparr>,
     \<lparr>sh_virtualSize = 0x1000, sh_virtualAddr = 0x401000, sh_rawDataSize = 0, sh_rawDataPtr = 0\<rparr>]"

definition demo_loader :: boxes where
  "demo_loader = demo_box\<lparr>bphys := demo_proc\<rparr>"

theorem loadPe64_loads_witness:
  "\<exists>s'. loadPe64 9 demo_image 0 7 demo_loader = Some (Done (STATUS_SUCCESS, s')) \<and>
     userCode (bphys s') 0x2000 0x400001 = Some 0xC3 \<and> userCode (bphys s') 0x2000 0x401FFF = Some 0"
proof -
  have s: "bphys demo_loader = demo_proc" "length (elemAnswers demo_loader) = 2"
    by (simp_all add: demo_loader_def demo_box_fields)
  have root: "mmGetCurrentVas demo_proc = cr3 demo_proc AND PTE_ADDR_MASK" "mmGetCurrentVas demo_proc = 0x2000"
    unfolding demo_proc_def demo_mmu_def demo_phys_def by code_simp+
  have pages: "map sect_pages demo_sects = [1, 1]" unfolding demo_sects_def sect_pages_def by code_simp
  have "is_run [0x07, 0, 0] 24 8 3" by code_simp
  then have spare: "spare_frames (4 * sum_list (map sect_pages demo_sects)) demo_proc"
    unfolding pages by (auto simp: demo_proc_def spare_frames_def intro!: exI [of _ 3])
  have ok: "\<forall>h \<in> set demo_sects. sect_ok demo_image h" "sects_apart demo_sects"
    using pages by (auto simp: demo_sects_def sect_ok_def sects_apart_def demo_image_def)
  have hdr: "ushortAt demo_image (0 + 20) = Done 0" "ushortAt demo_image (0 + 6) = Done 2" by code_simp+
  have hs: "headersAt demo_image (0 + PE_HEADER_SIZE + unat (0 :: ushort)) demo_sects"
    unfolding demo_sects_def by code_simp
  have dm: "direct_map demo_proc"
    by (simp add: direct_map_def demo_proc_def demo_mmu_def demo_phys_def page_aligned_def)
  have op: "\<forall>h \<in> set demo_sects. \<forall>i < 4096 * sect_pages h. open_path demo_proc (mmGetCurrentVas demo_proc) (sect_base h + of_nat i)"
  proof -
    have "levelEntry demo_proc t va d = 0" for t va d
      by (simp add: levelEntry_def split: option.split) (simp add: entryAt_def demo_proc_def demo_mmu_def)
    then show ?thesis by (simp add: open_path_def)
  qed
  have "\<exists>s'. loadPe64 9 demo_image 0 7 demo_loader = Some (Done (STATUS_SUCCESS, s')) \<and>
    (\<forall>h \<in> set demo_sects. \<forall>i < 4096 * sect_pages h. userCode (bphys s') 0x2000 (sect_base h + of_nat i) = Some (sect_byte demo_image h i))"
    using loadPe64_loads [of demo_loader demo_image 0 0 2 demo_sects 9 7, unfolded s, OF demo_proc_ready(1)
        demo_proc_tree [folded root(1)] dm hdr _ hs ok spare _ op] by (auto simp: root(2) demo_sects_def)
  then obtain s' where run: "loadPe64 9 demo_image 0 7 demo_loader = Some (Done (STATUS_SUCCESS, s'))"
    and read: "\<And>h i. h \<in> set demo_sects \<Longrightarrow> i < 4096 * sect_pages h \<Longrightarrow>
      userCode (bphys s') 0x2000 (sect_base h + of_nat i) = Some (sect_byte demo_image h i)" by blast
  have "demo_image ! 105 = 0xC3" by code_simp
  then have "userCode (bphys s') 0x2000 0x400001 = Some 0xC3" "userCode (bphys s') 0x2000 0x401FFF = Some 0"
    using read [of "demo_sects ! 0" 1] read [of "demo_sects ! 1" "0xFFF"] pages
    by (simp_all add: demo_sects_def sect_byte_def)
  with run show ?thesis by blast
qed

end
