(* ===== verification/FirstProcess.thy ===== *)
theory FirstProcess
  imports LoadPe Acpi
begin

text \<open>
  The end of the kernel's entry point \<^verbatim>\<open>kMain\<close> in \<^verbatim>\<open>ke/entry.c\<close>: the first process is created, its
  program loaded from the boot pack into its address space, and the processor sent to user mode.
  The process table and the boxes share the machine's memory, so it is handed from one to the other.
\<close>

section \<open>Starting the first process\<close>

definition PROCESS_UNAMED :: "uchar list" where
  "PROCESS_UNAMED = bytes ''unamed'' @ [0]"

text \<open>
  \<open>pool\<close> is the block the pool answers for the process with its former content, \<open>prog\<close> the
  uninitialised program structure on the stack.
\<close>

definition kMain_start :: "nat \<Rightarrow> boot_vars \<Rightarrow> uchar list \<Rightarrow> (elem \<times> PROCESS) option \<Rightarrow> LOADER_PROGRAM \<Rightarrow> procs \<Rightarrow> boxes \<Rightarrow>
    (iret_frame \<times> procs \<times> boxes) run" where
  "kMain_start fuel v nameBuf pool prog st bx =
     thenR (Some (exCreateProcess (Some PROCESS_UNAMED) pool 0 st)) (\<lambda>(status, proc, st1).
       if status \<noteq> STATUS_SUCCESS then Some (Panic ''failed to create startup process'')
       else case proc of None \<Rightarrow> Some Fault
       | Some a \<Rightarrow> (case procTab st1 a of None \<Rightarrow> Some Fault
       | Some p \<Rightarrow>
           let (_, pm) = mmuWriteVas (vas_cr3 (proc_pcb p)) (pphys st1) in
           thenR (keLoadFromBootPack fuel v nameBuf (Some (bytes ''/system64/csrs.exe'' @ [0])) (Some prog) (bx\<lparr>bphys := pm\<rparr>))
             (\<lambda>(status, prog1, bx1).
               if status \<noteq> STATUS_SUCCESS then Some (Panic ''failed to load csrs.exe from system64'')
               else case prog1 of None \<Rightarrow> Some Fault
               | Some pr \<Rightarrow> (case halProcSetIp (Some (proc_pcb p)) (lp_entry pr) of None \<Rightarrow> Some Fault
                 | Some pcb \<Rightarrow>
                     let (fr, pm1) = halProcKick pcb (bphys bx1)
                     in Some (Done (fr, st1\<lparr>pphys := pm1, procTab := (procTab st1)(a \<mapsto> p\<lparr>proc_pcb := pcb\<rparr>)\<rparr>,
                          bx1\<lparr>bphys := pm1\<rparr>))))))"

section \<open>Switching to an address space\<close>

definition with_vas :: "uquad \<Rightarrow> phys \<Rightarrow> phys" where
  "with_vas c st = st\<lparr>cr3 := c, tlb := (\<lambda>_. None)\<rparr>"

lemma mmuWriteVas_vas: "mmuWriteVas c st = (STATUS_SUCCESS, with_vas c st)"
  by (simp add: mmuWriteVas_def with_vas_def)

lemma with_vas_simps [simp]:
  "memory (with_vas c st) = memory st" "kernelBase (with_vas c st) = kernelBase st" "cr3 (with_vas c st) = c"
  "pool_ready (with_vas c st) = pool_ready st" "frame_taken (with_vas c st) = frame_taken st"
  "spare_frames k (with_vas c st) = spare_frames k st" "mmGetCurrentVas (with_vas c st) = c"
  by (simp_all add: with_vas_def pool_ready_def wf_phys_def frame0_reserved_def frame_taken_def spare_frames_def
      mmGetCurrentVas_def mmuReadVas_def fun_eq_iff)

lemmas with_vas_walk [simp] = same_walks(1-6) [OF with_vas_simps(1,2)]

text \<open>The switch empties the translation cache; the walks are the same.\<close>

lemma with_vas_views [simp]:
  "pt_inv frame_taken (with_vas c st) root = pt_inv frame_taken st root" "direct_map (with_vas c st) = direct_map st"
  "tlb (with_vas c st) v = None"
  by (rule same_walks(7), simp_all) (simp_all add: direct_map_def with_vas_def)

lemma with_vas_procEntry:
  "canonical va \<Longrightarrow> procEntry (with_vas c st) root va = effective st root va"
  by (simp add: procEntry_effective)

lemma userCode_with_vas:
  assumes "\<And>v. tlb st v = None"
  shows "userCode (with_vas c st) root va = userCode st root va"
  by (simp add: userCode_def procEntry_def assms PHYS_TO_VIRT_def split: option.split)

section \<open>Executable images\<close>

text \<open>An image the loader accepts, with its entry point and section headers.\<close>

definition executable :: "uchar list \<Rightarrow> ulong \<Rightarrow> IMAGE_SECTION_HEADER list \<Rightarrow> bool" where
  "executable img ep hs \<longleftrightarrow> (\<exists>pe osz n. peVerifyHeader img = Done (Some pe) \<and>
     ushortAt img (pe + 20) = Done osz \<and> ushortAt img (pe + 6) = Done n \<and> unat n = length hs \<and>
     headersAt img (pe + PE_HEADER_SIZE + unat osz) hs \<and> ulongAt img (pe + PE_HEADER_SIZE + 16) = Done ep) \<and>
     (\<forall>h \<in> set hs. sect_ok img h) \<and> sects_apart hs"

lemma keLoadFromBootPack_run:
  assumes "pool_ready (bphys s)" "pt_inv frame_taken (bphys s) (mmGetCurrentVas (bphys s))" "direct_map (bphys s)"
    and "bootPackBase v = Some base" "keBootPackGet v nb (Some path) = Done (Some off)" "executable (drop off base) ep hs"
    and "spare_frames (4 * sum_list (map sect_pages hs)) (bphys s)" "length hs \<le> length (elemAnswers s)"
    and "\<forall>h \<in> set hs. \<forall>i < 4096 * sect_pages h. open_path (bphys s) (mmGetCurrentVas (bphys s)) (sect_base h + of_nat i)"
  shows "\<exists>s'. keLoadFromBootPack fuel v nb (Some path) (Some prog) s =
      Some (Done (STATUS_SUCCESS, Some (prog\<lparr>lp_entry := ucast ep\<rparr>), s')) \<and>
    pool_ready (bphys s') \<and> pt_inv frame_taken (bphys s') (mmGetCurrentVas (bphys s)) \<and>
    access_kept (bphys s) (mmGetCurrentVas (bphys s)) (bphys s') \<and>
    (\<forall>h \<in> set hs. \<forall>i < 4096 * sect_pages h.
       userCode (bphys s') (mmGetCurrentVas (bphys s)) (sect_base h + of_nat i) = Some (sect_byte (drop off base) h i)) \<and>
    (\<forall>va. (\<forall>h \<in> set hs. \<not> sect_has h va) \<longrightarrow>
       translate (bphys s') (mmGetCurrentVas (bphys s)) va = translate (bphys s) (mmGetCurrentVas (bphys s)) va)"
proof -
  obtain pe osz n where pe: "peVerifyHeader (drop off base) = Done (Some pe)" "ulongAt (drop off base) (pe + PE_HEADER_SIZE + 16) = Done ep"
    and img: "ushortAt (drop off base) (pe + 20) = Done osz" "ushortAt (drop off base) (pe + 6) = Done n" "unat n = length hs"
      "headersAt (drop off base) (pe + PE_HEADER_SIZE + unat osz) hs" "\<forall>h \<in> set hs. sect_ok (drop off base) h" "sects_apart hs"
    using assms(6) unfolding executable_def by blast
  from loadPe64_run [OF assms(1-3) img assms(7-9), of fuel "lp_runTimeInfo prog"] pe assms(4,5)
  show ?thesis by (auto simp: keLoadFromBootPack_def)
qed

section \<open>Properties\<close>

text \<open>
  C1 (the first process). Suppose the pool is ready, with a direct map of all frames and less than 2 ^ 52 of them, the current
  address space is proper, there are frames in a row for the process, four for each page of the program, and enough pool elements;
  and the boot pack holds a well-formed executable under
  \<^verbatim>\<open>/system64/csrs.exe\<close> whose sections do not cover the stack's page. Then the end of \<^verbatim>\<open>kMain\<close> arrives in user mode:
  the processor is given the program's entry
  point, the user segments, enabled interrupts and the top of the user stack, and the new address
  space is loaded. There, by the entries the processor uses with the rights of all four levels, user mode can read and execute
  and cannot write the whole image; the stack's page is the user's, writable
  and not executable; all else of the lower half is unmapped, and the upper half is
  the kernel's.
\<close>

theorem kMain_starts_first_process:
  assumes "pool_ready (pphys st)" "pt_inv frame_taken (pphys st) (cr3 (pphys st) AND PTE_ADDR_MASK)" "direct_map (pphys st)"
    and "length (bitmap (pphys st)) < 2 ^ 49" "spare_frames (4 * sum_list (map sect_pages hs) + 5) (pphys st)"
    and "length (proc_name old) = 32" "length hs \<le> length (elemAnswers bx)"
    and "bootPackBase v = Some base" "keBootPackGet v nb (Some (bytes ''/system64/csrs.exe'' @ [0])) = Done (Some off)"
    and "executable (drop off base) ep hs" "\<forall>h \<in> set hs. \<not> sect_has h STACK_TOP"
  shows "\<exists>fr st' bx' root f. kMain_start fuel v nb (Some (a, old)) prog st bx = Some (Done (fr, st', bx')) \<and>
    ir_rip fr = ucast ep \<and> ir_cs fr = user_cs \<and> ir_ss fr = user_ss \<and> ir_rsp fr = STACK_TOP \<and> ir_rflags fr = 0x202 \<and>
    cr3 (pphys st') = root \<and> pool_ready (pphys st') \<and> pt_inv frame_taken (pphys st') root \<and>
    (\<forall>h \<in> set hs. \<forall>i < 4096 * sect_pages h.
       userCode (pphys st') root (sect_base h + of_nat i) = Some (sect_byte (drop off base) h i)) \<and>
    (\<forall>va. (\<forall>h \<in> set hs. \<not> sect_has h va) \<longrightarrow> translate (pphys st') root va =
      (if pfx 4 va = pfx 4 STACK_TOP then Some (f OR PTE_P OR PTE_RW OR PTE_US OR PTE_NX)
       else if hwIdx 0 va < 256 then None else translate (pphys st) (cr3 (pphys st) AND PTE_ADDR_MASK) va)) \<and>
    (\<forall>va. canonical va \<longrightarrow> pfx 4 va = pfx 4 STACK_TOP \<longrightarrow>
      procEntry (pphys st') root va = Some (f OR PTE_P OR PTE_RW OR PTE_US OR PTE_NX))"
proof -
  have nm: "(0 :: uchar) \<notin> set (bytes ''unamed'')" "length (bytes ''unamed'') < 2 ^ 64"
    by (simp_all add: bytes_def byte_def)
  have fl: "(0 :: ushort) AND PROCESS_KERNEL = 0" by simp
  from exCreateProcess_run [OF assms(1,2,4,5) fl nm assms(6), of "[]" a]
  obtain p pm where run: "exCreateProcess (Some PROCESS_UNAMED) (Some (a, old)) 0 st =
      Done (STATUS_SUCCESS, Some a, st\<lparr>nextPid := nextPid st + 1, pphys := pm, procTab := (procTab st)(a \<mapsto> p)\<rparr>)"
    and pm: "pool_ready pm" "spare_frames (4 * sum_list (map sect_pages hs)) pm" "kernelBase pm = kernelBase (pphys st)"
      "pt_inv frame_taken pm (vas_cr3 (proc_pcb p))"
    and tf: "pcb_tf (proc_pcb p) = zero_frame\<lparr>tf_cs := user_cs, tf_ss := user_ss, tf_rflags := 0x202, tf_rsp := STACK_TOP\<rparr>"
    and tr: "\<And>va. translate pm (vas_cr3 (proc_pcb p)) va =
      (if pfx 4 va = pfx 4 STACK_TOP then Some (stackPhysBase (proc_pcb p) OR PTE_P OR PTE_RW OR PTE_US OR PTE_NX)
       else if hwIdx 0 va < 256 then None else translate (pphys st) (cr3 (pphys st) AND PTE_ADDR_MASK) va)"
    and low: "\<And>va. hwIdx 0 va < 256 \<Longrightarrow> open_path pm (vas_cr3 (proc_pcb p)) va"
    unfolding PROCESS_UNAMED_def by blast
  let ?root = "vas_cr3 (proc_pcb p)"
  let ?bx = "bx\<lparr>bphys := with_vas ?root pm\<rparr>"
  have bx: "pool_ready (bphys ?bx)" "pt_inv frame_taken (bphys ?bx) (mmGetCurrentVas (bphys ?bx))" "direct_map (bphys ?bx)"
    "spare_frames (4 * sum_list (map sect_pages hs)) (bphys ?bx)" "length hs \<le> length (elemAnswers ?bx)"
    using pm assms(3,7) by (simp_all add: direct_map_def)
  have op: "\<forall>h \<in> set hs. \<forall>i < 4096 * sect_pages h. open_path (bphys ?bx) (mmGetCurrentVas (bphys ?bx)) (sect_base h + of_nat i)"
  proof (intro ballI allI impI)
    fix h i assume "h \<in> set hs" "i < 4096 * sect_pages h"
    then have "hwIdx 0 (sect_base h + of_nat i) < 256"
      using sect_address_low(2) [of "drop off base" h i] assms(10) by (simp add: executable_def)
    then show "open_path (bphys ?bx) (mmGetCurrentVas (bphys ?bx)) (sect_base h + of_nat i)" using low by simp
  qed
  from keLoadFromBootPack_run [OF bx(1-3) assms(8-10) bx(4,5) op, of fuel prog]
  obtain s' where load: "keLoadFromBootPack fuel v nb (Some (bytes ''/system64/csrs.exe'' @ [0])) (Some prog) ?bx =
      Some (Done (STATUS_SUCCESS, Some (prog\<lparr>lp_entry := ucast ep\<rparr>), s'))"
    and s': "pool_ready (bphys s')" "pt_inv frame_taken (bphys s') ?root"
      "\<forall>h \<in> set hs. \<forall>i < 4096 * sect_pages h.
         userCode (bphys s') ?root (sect_base h + of_nat i) = Some (sect_byte (drop off base) h i)"
      "\<forall>va. (\<forall>h \<in> set hs. \<not> sect_has h va) \<longrightarrow> translate (bphys s') ?root va = translate pm ?root va"
    and kept: "access_kept (with_vas ?root pm) ?root (bphys s')"
    by auto
  have no_tlb: "tlb (bphys s') w = None" for w using kept by (simp add: access_kept_def)
  have stack: "procEntry (with_vas ?root (bphys s')) ?root va = Some (stackPhysBase (proc_pcb p) OR PTE_P OR PTE_RW OR PTE_US OR PTE_NX)"
    if va: "canonical va" "pfx 4 va = pfx 4 STACK_TOP" for va
  proof -
    have "\<forall>h \<in> set hs. \<not> sect_has h va" using assms(11) va(2) by (simp add: sect_has_def)
    with s'(4) tr va(2) have "translate (bphys s') ?root va = Some (stackPhysBase (proc_pcb p) OR PTE_P OR PTE_RW OR PTE_US OR PTE_NX)"
      by simp
    moreover have "open_path (bphys s') ?root va" using kept low [OF stack_low [OF va(2)]] by (simp add: access_kept_def)
    ultimately show ?thesis by (simp add: with_vas_procEntry [OF va(1)] open_effective)
  qed
  have ss: "ucast (USER_DS OR 3) = user_ss" by (simp add: USER_DS_def user_ss_def)
  let ?pcb = "(proc_pcb p)\<lparr>pcb_tf := (pcb_tf (proc_pcb p))\<lparr>tf_rip := ucast ep\<rparr>\<rparr>"
  let ?st = "st\<lparr>nextPid := nextPid st + 1, pphys := with_vas ?root (bphys s'), procTab := (procTab st)(a \<mapsto> p\<lparr>proc_pcb := ?pcb\<rparr>)\<rparr>"
  have "kMain_start fuel v nb (Some (a, old)) prog st bx =
      Some (Done (fst (halProcKick ?pcb (bphys s')), ?st, s'\<lparr>bphys := with_vas ?root (bphys s')\<rparr>))"
    by (simp add: kMain_start_def run mmuWriteVas_vas load halProcSetIp_def halProcKick_def Let_def)
  with s' tr stack show ?thesis
    by (intro exI [of _ "fst (halProcKick ?pcb (bphys s'))"] exI [of _ ?st] exI [of _ "s'\<lparr>bphys := with_vas ?root (bphys s')\<rparr>"]
        exI [of _ ?root] exI [of _ "stackPhysBase (proc_pcb p)"]) (simp add: halProcKick_def Let_def tf ss userCode_with_vas [OF no_tlb])
qed

text \<open>A boot pack with an executable of two sections, and a machine with enough frames.\<close>

definition demo_exe :: "uchar list" where
  "demo_exe = [0x4D, 0x5A] @ replicate 58 0 @ [64, 0, 0, 0] @
     [0x50, 0x45, 0, 0, 0x64, 0x86, 2, 0] @ replicate 12 0 @ [20, 0, 0, 0] @ replicate 16 0 @ [1, 0, 0x40, 0] @
     replicate 8 0 @ [2, 0, 0, 0, 0, 0, 0x40, 0, 2, 0, 0, 0, 188, 0, 0, 0] @ replicate 16 0 @
     replicate 8 0 @ [0, 0x10, 0, 0, 0, 0x10, 0x40, 0, 0, 0, 0, 0, 0, 0, 0, 0] @ replicate 16 0 @ [0x90, 0xC3]"

definition demo_exe_sects :: "IMAGE_SECTION_HEADER list" where
  "demo_exe_sects = [\<lparr>sh_virtualSize = 2, sh_virtualAddr = 0x400000, sh_rawDataSize = 2, sh_rawDataPtr = 188\<rparr>,
     \<lparr>sh_virtualSize = 0x1000, sh_virtualAddr = 0x401000, sh_rawDataSize = 0, sh_rawDataPtr = 0\<rparr>]"

definition demo_pack :: "uchar list" where
  "demo_pack = archive 0 [(bytes ''system64/csrs.exe'', Reg_file 0x81A4 demo_exe)]"

definition demo_first :: procs where
  "demo_first = \<lparr>nextPid = 1, procTab = Map.empty, pphys = demo_proc\<rparr>"

lemma demo_pack_finds:
  "keBootPackGet \<lparr>hhdmResp = None, hhmOffset = 0, bootPackBase = Some demo_pack\<rparr> (replicate 256 5)
     (Some (bytes ''/system64/csrs.exe'' @ [0])) = Done (Some 32)"
proof -
  have ok: "list_all entry_ok [(bytes ''system64/csrs.exe'', Reg_file 0x81A4 demo_exe)]"
    by (simp add: bytes_def byte_def demo_exe_def)
  have z: "0 \<notin> set (bytes ''system64/csrs.exe'')" by (simp add: bytes_def byte_def)
  have path: "47 # bytes ''system64/csrs.exe'' @ [0] = bytes ''/system64/csrs.exe'' @ [0]" by (simp add: bytes_def byte_def)
  have len: "length (bytes ''system64/csrs.exe'') = 17" by (simp add: bytes_def)
  from keBootPackGet_archive [OF ok _ z, of "replicate 256 5" "\<lparr>hhdmResp = None, hhmOffset = 0, bootPackBase = Some demo_pack\<rparr>" 0 "[]"]
  show ?thesis unfolding path by (simp add: demo_pack_def len del: record_of.simps)
qed

lemma demo_pack_executable: "executable (drop 32 demo_pack) 0x400001 demo_exe_sects"
proof -
  have "peVerifyHeader (drop 32 demo_pack) = Done (Some 64)" by code_simp
  moreover have "ushortAt (drop 32 demo_pack) (64 + 20) = Done 20" "ushortAt (drop 32 demo_pack) (64 + 6) = Done 2"
    by code_simp+
  moreover have "headersAt (drop 32 demo_pack) (64 + PE_HEADER_SIZE + unat (20 :: ushort)) demo_exe_sects"
    unfolding demo_exe_sects_def by code_simp
  moreover have "ulongAt (drop 32 demo_pack) (64 + PE_HEADER_SIZE + 16) = Done 0x400001" by code_simp
  moreover have "length (drop 32 demo_pack) = 498" by code_simp
  then have "\<forall>h \<in> set demo_exe_sects. sect_ok (drop 32 demo_pack) h"
    by (simp add: demo_exe_sects_def sect_ok_def sect_pages_def)
  moreover have "sects_apart demo_exe_sects" by (simp add: demo_exe_sects_def sects_apart_def sect_pages_def)
  moreover have "unat (2 :: ushort) = length demo_exe_sects" by (simp add: demo_exe_sects_def)
  ultimately show ?thesis unfolding executable_def by blast
qed

theorem kMain_starts_first_process_witness:
  "\<exists>fr st' bx' root. kMain_start 9 \<lparr>hhdmResp = None, hhmOffset = 0, bootPackBase = Some demo_pack\<rparr> (replicate 256 5)
      (Some (0x1000, pool_block)) \<lparr>lp_entry = 0, lp_runTimeInfo = 7\<rparr> demo_first demo_box = Some (Done (fr, st', bx')) \<and>
     ir_rip fr = 0x400001 \<and> userCode (pphys st') root 0x400001 = Some 0xC3 \<and> translate (pphys st') root 0x1000 = None \<and>
     (\<exists>f. procEntry (pphys st') root 0xBFFFFFF0 = Some (f OR PTE_P OR PTE_RW OR PTE_US OR PTE_NX))"
proof -
  have s: "pphys demo_first = demo_proc" by (simp add: demo_first_def)
  have pages: "map sect_pages demo_exe_sects = [1, 1]" unfolding demo_exe_sects_def sect_pages_def by code_simp
  have "is_run [0x07, 0, 0] 24 13 3" by code_simp
  then have spare: "spare_frames (4 * sum_list (map sect_pages demo_exe_sects) + 5) demo_proc"
    unfolding pages by (auto simp: demo_proc_def spare_frames_def intro!: exI [of _ 3])
  have dm: "direct_map demo_proc"
    by (simp add: direct_map_def demo_proc_def demo_mmu_def demo_phys_def page_aligned_def)
  have nm: "length (proc_name pool_block) = 32" by (simp add: pool_block_def)
  have el: "length demo_exe_sects \<le> length (elemAnswers demo_box)" by (simp add: demo_box_fields demo_exe_sects_def)
  have base: "bootPackBase \<lparr>hhdmResp = None, hhmOffset = 0, bootPackBase = Some demo_pack\<rparr> = Some demo_pack" by simp
  have far: "\<forall>h \<in> set demo_exe_sects. \<not> sect_has h STACK_TOP"
    using pages by (auto simp: demo_exe_sects_def sect_has_def pfx_def STACK_TOP_def)
  obtain fr st' bx' root f where run: "kMain_start 9 \<lparr>hhdmResp = None, hhmOffset = 0, bootPackBase = Some demo_pack\<rparr> (replicate 256 5)
      (Some (0x1000, pool_block)) \<lparr>lp_entry = 0, lp_runTimeInfo = 7\<rparr> demo_first demo_box = Some (Done (fr, st', bx'))"
    and rip: "ir_rip fr = ucast (0x400001 :: ulong)"
    and read: "\<And>h i. h \<in> set demo_exe_sects \<Longrightarrow> i < 4096 * sect_pages h \<Longrightarrow>
       userCode (pphys st') root (sect_base h + of_nat i) = Some (sect_byte (drop 32 demo_pack) h i)"
    and tr: "\<And>va. (\<forall>h \<in> set demo_exe_sects. \<not> sect_has h va) \<Longrightarrow> translate (pphys st') root va =
      (if pfx 4 va = pfx 4 STACK_TOP then Some (f OR PTE_P OR PTE_RW OR PTE_US OR PTE_NX)
       else if hwIdx 0 va < 256 then None else translate demo_proc (cr3 demo_proc AND PTE_ADDR_MASK) va)"
    and stack: "\<And>va. canonical va \<Longrightarrow> pfx 4 va = pfx 4 STACK_TOP \<Longrightarrow>
      procEntry (pphys st') root va = Some (f OR PTE_P OR PTE_RW OR PTE_US OR PTE_NX)"
    using kMain_starts_first_process [of demo_first demo_exe_sects pool_block demo_box
        "\<lparr>hhdmResp = None, hhmOffset = 0, bootPackBase = Some demo_pack\<rparr>" demo_pack "replicate 256 5" 32 "0x400001" 9
        "0x1000" "\<lparr>lp_entry = 0, lp_runTimeInfo = 7\<rparr>",
        unfolded s, OF demo_proc_ready(1) demo_proc_tree dm demo_proc_ready(2) spare nm el base demo_pack_finds demo_pack_executable far]
    by blast
  have "drop 32 demo_pack ! 189 = 0xC3" by code_simp
  then have "userCode (pphys st') root 0x400001 = Some 0xC3"
    using read [of "demo_exe_sects ! 0" 1] pages by (simp add: demo_exe_sects_def sect_byte_def)
  moreover have "\<forall>h \<in> set demo_exe_sects. \<not> sect_has h 0x1000"
    using pages by (auto simp: demo_exe_sects_def sect_has_def pfx_def)
  then have "translate (pphys st') root 0x1000 = None"
    using tr [of "0x1000"] by (simp add: pfx_def hwIdx_def STACK_TOP_def)
  moreover have "procEntry (pphys st') root 0xBFFFFFF0 = Some (f OR PTE_P OR PTE_RW OR PTE_US OR PTE_NX)"
    by (rule stack) (simp_all add: canonical_def pfx_def STACK_TOP_def)
  ultimately show ?thesis using run rip by auto
qed

end
