(* ===== verification/StoreBoot.thy ===== *)
theory StoreBoot
  imports Devices Executive
begin

text \<open>
  The object store at boot: its root (\<^verbatim>\<open>kiObjStoreInit\<close>), the timers' directory and the three timers
  the platform registers in it (\<^verbatim>\<open>kiTimersInit\<close> of \<^verbatim>\<open>ke/timer.c\<close> with \<^verbatim>\<open>halInitTimers\<close> of
  \<^verbatim>\<open>amd64/io/timer.c\<close>), and the typing of the untyped data pointers of its objects.
\<close>

section \<open>A directory gets its structure\<close>

definition with_dir :: "ob_store \<Rightarrow> elem \<Rightarrow> NT_OBJECT \<Rightarrow> head \<Rightarrow> ob_store" where
  "with_dir st a ob h = (initDir h st)\<lparr>objects := (objects st)(a \<mapsto> ob\<lparr>ob_data := Some h\<rparr>)\<rparr>"

lemma obAllocateDir_run:
  "objects st a = Some ob \<Longrightarrow> ob_type ob = NT_OB_DIRECTORY \<Longrightarrow>
    obAllocateDir (Some h) (Some a) st = Done (STATUS_SUCCESS, with_dir st a ob h)"
  by (simp add: obAllocateDir_def getObj_def modObj_def with_dir_def initDir_def)

lemma TAILQ_INIT_frame: "queue_rep l p xs \<Longrightarrow> p \<noteq> q \<Longrightarrow> queue_rep (TAILQ_INIT q l) p xs"
proof -
  assume r: "queue_rep l p xs" and ne: "p \<noteq> q"
  have "chain (TAILQ_INIT q l) p xs"
    by (rule chain_frame [of l]) (use r ne in \<open>auto simp: queue_rep_def TAILQ_INIT_def readCell.simps\<close>)
  then show ?thesis using r ne by (simp add: queue_rep_def TAILQ_INIT_def)
qed

lemma with_dir_dirs:
  "ob_type ob = NT_OB_DIRECTORY \<Longrightarrow> dir_of (with_dir st a ob h) x = (if x = a then Some h else dir_of st x)"
  by (simp add: dir_of_def with_dir_def)

lemma with_dir_name: "objects st a = Some ob \<Longrightarrow> name_of (with_dir st a ob h) x = name_of st x"
  by (simp add: name_of_def with_dir_def)

lemma with_dir_wf:
  assumes wf: "wf_store st Q" and a: "objects st a = Some ob" "ob_type ob = NT_OB_DIRECTORY" "ob_data ob = None"
    and h: "\<And>x. dir_of st x \<noteq> Some h"
  shows "wf_store (with_dir st a ob h) (Q(h := []))"
proof -
  let ?st = "with_dir st a ob h" and ?Q = "Q(h := [])"
  note dir = with_dir_dirs [OF a(2)]
  have links: "ob_links ?st = TAILQ_INIT h (ob_links st)" "rootObject ?st = rootObject st"
    by (simp_all add: with_dir_def initDir_def)
  show ?thesis
    unfolding wf_store_def dir
  proof (intro conjI allI impI)
    show "queue_rep (ob_links ?st) d (?Q d)" if "(if x = a then Some h else dir_of st x) = Some d" for x d
    proof (cases "d = h")
      case True
      then show ?thesis by (simp add: links tq.rep_init)
    next
      case False
      with that have "dir_of st x = Some d" by (simp split: if_splits)
      from TAILQ_INIT_frame [OF wf_storeD(1) [OF wf this] False] False show ?thesis by (simp add: links)
    qed
    show "x = y" if "(if x = a then Some h else dir_of st x) = Some d" "(if y = a then Some h else dir_of st y) = Some d" for x y d
      using that h [of x] h [of y] wf_storeD(2) [OF wf, of x d y] by (auto split: if_splits)
    show "objects ?st z \<noteq> None" if "(if x = a then Some h else dir_of st x) = Some d" "z \<in> set (?Q d)" for x z d
      using that wf_storeD(3) [OF wf, of x d z] by (auto simp: with_dir_def split: if_splits)
    show "set (?Q c) \<inter> set (?Q d) = {}" if "(if x = a then Some h else dir_of st x) = Some c"
      "(if y = a then Some h else dir_of st y) = Some d" "c \<noteq> d" for x y c d
      using that wf_storeD(4) [OF wf, of x c y d] by (auto split: if_splits)
    show "terminated (ob_name ob')" if "objects ?st x = Some ob'" for x ob'
      using that wf_storeD(5) [OF wf, of x] wf_storeD(5) [OF wf a(1)] by (auto simp: with_dir_def split: if_splits)
    show "objects ?st r \<noteq> None" if "rootObject ?st = Some r" for r
      using that wf_storeD(6) [OF wf, of r] by (auto simp: with_dir_def initDir_def)
  qed
qed

lemma with_dir_lookup:
  assumes a: "objects st a = Some ob" "ob_data ob = None" and h: "\<And>x. dir_of st x \<noteq> Some h" and pa: "p \<noteq> a"
  shows "dirLookup (with_dir st a ob h) (Q(h := [])) p nm = dirLookup st Q p nm"
proof -
  have "ob_type x = NT_OB_DIRECTORY \<Longrightarrow> ob_data x \<noteq> Some h" if "objects st p = Some x" for x
    using h [of p] that by (simp add: dir_of_def)
  moreover have "objects (with_dir st a ob h) p = objects st p" using pa by (simp add: with_dir_def)
  ultimately show ?thesis
    by (auto simp: dirLookup_def with_dir_name [OF a(1)] split: option.split)
qed

lemma with_dir_new:
  "ob_type ob = NT_OB_DIRECTORY \<Longrightarrow> dirLookup (with_dir st a ob h) (Q(h := [])) a nm = (STATUS_OBJECT_NOTFOUND, None)"
  by (simp add: dirLookup_def with_dir_def)

section \<open>A store grows\<close>

text \<open>All objects stay, with their types and, if they are no directories, their data; all lookups stay.\<close>

definition grows :: "ob_store \<Rightarrow> (head \<Rightarrow> elem list) \<Rightarrow> ob_store \<Rightarrow> (head \<Rightarrow> elem list) \<Rightarrow> bool" where
  "grows st Q st' Q' \<longleftrightarrow> wf_store st' Q' \<and> rootObject st' = rootObject st \<and>
     (\<forall>x. objects st x \<noteq> None \<longrightarrow> objects st' x \<noteq> None) \<and>
     (\<forall>x ob. objects st x = Some ob \<longrightarrow> ob_type ob \<noteq> NT_OB_DIRECTORY \<longrightarrow> objects st' x = Some ob) \<and>
     (\<forall>x d. dir_of st x = Some d \<longrightarrow> dir_of st' x = Some d) \<and>
     (\<forall>p nm c. objects st p \<noteq> None \<longrightarrow> dirLookup st Q p nm = (STATUS_SUCCESS, Some c) \<longrightarrow>
        dirLookup st' Q' p nm = (STATUS_SUCCESS, Some c))"

lemma growsD:
  assumes "grows st Q st' Q'"
  shows "wf_store st' Q'" "rootObject st' = rootObject st" "objects st x \<noteq> None \<Longrightarrow> objects st' x \<noteq> None"
    "objects st x = Some ob \<Longrightarrow> ob_type ob \<noteq> NT_OB_DIRECTORY \<Longrightarrow> objects st' x = Some ob"
    "dir_of st x = Some d \<Longrightarrow> dir_of st' x = Some d"
    "objects st p \<noteq> None \<Longrightarrow> dirLookup st Q p nm = (STATUS_SUCCESS, Some c) \<Longrightarrow> dirLookup st' Q' p nm = (STATUS_SUCCESS, Some c)"
  using assms unfolding grows_def by blast+

lemma grows_trans:
  assumes "grows st Q st1 Q1" "grows st1 Q1 st2 Q2"
  shows "grows st Q st2 Q2"
proof -
  note a = growsD [OF assms(1)] and b = growsD [OF assms(2)]
  show ?thesis
    unfolding grows_def
  proof (intro conjI allI impI)
    show "wf_store st2 Q2" by (rule b(1))
    show "rootObject st2 = rootObject st" using a(2) b(2) by simp
    show "objects st2 x \<noteq> None" if "objects st x \<noteq> None" for x by (rule b(3) [OF a(3) [OF that]])
    show "objects st2 x = Some ob" if "objects st x = Some ob" "ob_type ob \<noteq> NT_OB_DIRECTORY" for x ob
      by (rule b(4) [OF a(4) [OF that] that(2)])
    show "dir_of st2 x = Some d" if "dir_of st x = Some d" for x d by (rule b(5) [OF a(5) [OF that]])
    show "dirLookup st2 Q2 p nm = (STATUS_SUCCESS, Some c)"
      if "objects st p \<noteq> None" "dirLookup st Q p nm = (STATUS_SUCCESS, Some c)" for p nm c
      by (rule b(6) [OF a(3) [OF that(1)] a(6) [OF that]])
  qed
qed

lemma grows_resolve:
  assumes "grows st Q st' Q'" "wf_store st Q"
  shows "objects st p \<noteq> None \<Longrightarrow> resolve st Q p cs = (STATUS_SUCCESS, Some x) \<Longrightarrow> resolve st' Q' p cs = (STATUS_SUCCESS, Some x)"
proof (induction cs arbitrary: p)
  case (Cons nm cs)
  then obtain s c where c: "dirLookup st Q p nm = (s, Some c)" "resolve st Q c cs = (STATUS_SUCCESS, Some x)" "length nm < NT_OBNAME_LEN - 1"
    by (auto split: if_splits prod.splits option.splits)
  from dirLookup_live [OF assms(2) c(1)] have live: "objects st c \<noteq> None" "s = STATUS_SUCCESS" by auto
  with growsD(6) [OF assms(1) Cons.prems(1)] c(1) have "dirLookup st' Q' p nm = (STATUS_SUCCESS, Some c)" by simp
  with Cons.IH [OF live(1) c(2)] c(3) show ?case by simp
qed simp

lemma grows_child:
  assumes "wf_store st Q" "dir_of st q = Some d" "objects st a = None"
    and "ob_data ob = None \<or> ob_type ob \<noteq> NT_OB_DIRECTORY" "terminated (ob_name ob)"
  shows "grows st Q (with_child st d a ob) (Q(d := Q d @ [a]))"
proof -
  have "dir_of (with_child st d a ob) x = Some e" if "dir_of st x = Some e" for x e
    using that assms(3) by (auto simp: dir_of_def with_child_def split: option.splits)
  then show ?thesis
    using with_child_wf [OF assms] with_child_lookup [OF assms(1-3)] assms(3)
    unfolding grows_def by (auto simp: with_child_def)
qed

lemma grows_dir:
  assumes "wf_store st Q" "objects st a = Some ob" "ob_type ob = NT_OB_DIRECTORY" "ob_data ob = None" "\<And>x. dir_of st x \<noteq> Some h"
  shows "grows st Q (with_dir st a ob h) (Q(h := []))"
proof -
  have "dir_of st a = None" using assms(2,4) by (simp add: dir_of_def)
  moreover have "dirLookup (with_dir st a ob h) (Q(h := [])) p nm = (STATUS_SUCCESS, Some c)"
    if "dirLookup st Q p nm = (STATUS_SUCCESS, Some c)" for p nm c
  proof -
    have "p \<noteq> a" using that assms(2-4) by (auto simp: dirLookup_def)
    from with_dir_lookup [OF assms(2,4,5) this] that show ?thesis by simp
  qed
  ultimately show ?thesis
    using with_dir_wf [OF assms] with_dir_dirs [OF assms(3)] assms(2,3)
    unfolding grows_def by (auto simp: with_dir_def initDir_def)
qed

section \<open>The root\<close>

lemma kiObjStoreInit_run:
  assumes "objects st = (\<lambda>_. None)"
  shows "\<exists>st'. kiObjStoreInit (Some a) (Some h) st = Done st' \<and> wf_store st' (\<lambda>_. []) \<and> rootObject st' = Some a \<and>
    dir_of st' = (\<lambda>x. if x = a then Some h else None) \<and> (\<forall>x. x \<noteq> a \<longrightarrow> objects st' x = None)"
proof -
  let ?nm = "bytes ''/''"
  have n: "0 \<notin> set ?nm" "0 < length ?nm" "length ?nm \<le> 30" by (simp_all add: bytes_def byte_def)
  have ty: "\<not> type_num NT_OB_MAX \<le> type_num NT_OB_DIRECTORY" by simp
  let ?ob = "new_object NT_OB_DIRECTORY ?nm 1\<lparr>ob_data := Some h\<rparr>"
  let ?st = "initDir h (st\<lparr>rootObject := Some a, objects := [a \<mapsto> ?ob]\<rparr>)"
  have run: "kiObjStoreInit (Some a) (Some h) st = Done ?st"
    using ty name_checks(1) [OF n, of "[]"] name_checks(2,3) [OF n] name_checks(4) [OF n, of "[]"] assms
    by (simp add: kiObjStoreInit_def obCreateObject_def findParent_def Let_def modObj_def new_object_def status_simps)
  have d: "dir_of ?st = (\<lambda>x. if x = a then Some h else None)"
    by (auto simp: fun_eq_iff dir_of_def initDir_def new_object_def)
  have "terminated (ob_name ?ob)" using new_object_name [OF n(1,3)] by (simp add: new_object_def)
  then have "wf_store ?st (\<lambda>_. [])"
    unfolding wf_store_def d by (auto simp: initDir_def tq.rep_init split: if_splits)
  then show ?thesis using run d by (intro exI [of _ ?st]) (simp add: initDir_def)
qed

section \<open>Registering timers\<close>

text \<open>A timer object with its data, as a new child of the timers' directory.\<close>

definition timer_ob :: "uchar list \<Rightarrow> nat \<Rightarrow> NT_OBJECT" where
  "timer_ob n x = (new_object NT_OB_TIMER n 2)\<lparr>ob_data := Some x\<rparr>"

definition has_clkdev :: "ob_store \<Rightarrow> (head \<Rightarrow> elem list) \<Rightarrow> elem \<Rightarrow> elem \<Rightarrow> head \<Rightarrow> bool" where
  "has_clkdev st Q r q h \<longleftrightarrow> wf_store st Q \<and> rootObject st = Some r \<and>
     dirLookup st Q r (bytes ''clkdev'') = (STATUS_SUCCESS, Some q) \<and> dir_of st q = Some h"

lemma clkdev_path: "components (bytes ''/clkdev'') = [bytes ''clkdev'']" "0 \<notin> set (bytes ''/clkdev'')"
  "length (bytes ''clkdev'') < NT_OBNAME_LEN - 1"
  by code_simp (simp_all add: bytes_def byte_def NT_OBNAME_LEN_def)

lemma timer_registered:
  assumes "has_clkdev st Q r q h" "\<And>d. length (Q d) \<le> rg_fuel rg" "length (rg_junk rg) = 32" "rg_pool rg = Some a"
    and "objects st a = None" "0 \<notin> set (bytes nm)" "0 < length nm" "length nm \<le> 30"
  shows "\<exists>st1. timerObject nm rg st = Done (STATUS_SUCCESS, Some a, st1) \<and>
      setData (Some a) x st1 = Done (with_child st h a (timer_ob (bytes nm) x))"
    "grows st Q (with_child st h a (timer_ob (bytes nm) x)) (Q(h := Q h @ [a]))"
    "has_clkdev (with_child st h a (timer_ob (bytes nm) x)) (Q(h := Q h @ [a])) r q h"
    "dirLookup st Q q (bytes nm) = (STATUS_OBJECT_NOTFOUND, None) \<Longrightarrow>
      dirLookup (with_child st h a (timer_ob (bytes nm) x)) (Q(h := Q h @ [a])) q (bytes nm) = (STATUS_SUCCESS, Some a)"
    "dirLookup st Q q nm' = (STATUS_OBJECT_NOTFOUND, None) \<Longrightarrow> nm' \<noteq> bytes nm \<Longrightarrow>
      dirLookup (with_child st h a (timer_ob (bytes nm) x)) (Q(h := Q h @ [a])) q nm' = (STATUS_OBJECT_NOTFOUND, None)"
proof -
  let ?st = "with_child st h a (timer_ob (bytes nm) x)"
  have wf: "wf_store st Q" and root: "rootObject st = Some r" and q: "dir_of st q = Some h"
    and look: "dirLookup st Q r (bytes ''clkdev'') = (STATUS_SUCCESS, Some q)"
    using assms(1) by (simp_all add: has_clkdev_def)
  have len: "0 < length (bytes nm)" "length (bytes nm) \<le> 30" using assms(7,8) by (simp_all add: bytes_def)
  have ob: "cstr (ob_name (timer_ob (bytes nm) x)) = bytes nm" "terminated (ob_name (timer_ob (bytes nm) x))"
    "ob_type (timer_ob (bytes nm) x) \<noteq> NT_OB_DIRECTORY"
    using new_object_name [OF assms(6) len(2)] by (simp_all add: timer_ob_def new_object_def)
  have res: "resolve st Q r (components (bytes ''/clkdev'')) = (STATUS_SUCCESS, Some q)"
    using look clkdev_path(3) by (simp add: clkdev_path(1))
  have "timerObject nm rg st = Done (STATUS_SUCCESS, Some a, with_child st h a (new_object NT_OB_TIMER (bytes nm) 2))"
    using obCreateObject_run [OF wf assms(2) root assms(3) clkdev_path(2) res q assms(5) _ assms(6) len, of NT_OB_TIMER "[]" "[]"] assms(4)
    by (simp add: timerObject_def)
  then show "\<exists>st1. timerObject nm rg st = Done (STATUS_SUCCESS, Some a, st1) \<and> setData (Some a) x st1 = Done ?st"
    by (auto simp: setData_def modObj_def with_child_def timer_ob_def)
  show g: "grows st Q ?st (Q(h := Q h @ [a]))" using grows_child [OF wf q assms(5)] ob(2,3) by blast
  have r: "objects st r \<noteq> None" by (rule wf_storeD(6) [OF wf root])
  show "has_clkdev ?st (Q(h := Q h @ [a])) r q h"
    using growsD(1,2) [OF g] growsD(5) [OF g q] growsD(6) [OF g r look] root by (simp add: has_clkdev_def)
  show "dirLookup ?st (Q(h := Q h @ [a])) q (bytes nm) = (STATUS_SUCCESS, Some a)"
    if "dirLookup st Q q (bytes nm) = (STATUS_OBJECT_NOTFOUND, None)"
    using with_child_found [OF wf q assms(5), of "timer_ob (bytes nm) x"] that ob(1) by simp
  have "objects st q \<noteq> None" using q by (auto simp: dir_of_def split: option.splits)
  then show "dirLookup ?st (Q(h := Q h @ [a])) q nm' = (STATUS_OBJECT_NOTFOUND, None)"
    if "dirLookup st Q q nm' = (STATUS_OBJECT_NOTFOUND, None)" "nm' \<noteq> bytes nm"
    using with_child_miss [OF wf q assms(5) that(1), of "timer_ob (bytes nm) x"] that(2) ob(1) by simp
qed

lemma keTimerGetDescriptor_finds:
  assumes "wf_store st Q" "\<And>d. length (Q d) \<le> fuel" "rootObject st = Some r" "length junk = 32" "0 \<notin> set t"
    and "resolve st Q r (components t) = (STATUS_SUCCESS, Some a)" "objects st a = Some ob"
  shows "keTimerGetDescriptor fuel junk (Some (t @ [0])) False st =
    Done (if ob_type ob = NT_OB_TIMER then (STATUS_SUCCESS, ob_data ob) else (STATUS_BAD_OBJ_TYPE, None))"
  using obLookupObject_spec [OF assms(1,2,3,5,4), of "[]"] assms(6,7)
  by (simp add: keTimerGetDescriptor_def getObj_def status_simps)

text \<open>\<^verbatim>\<open>halInitTimers\<close> as the platform part of \<^verbatim>\<open>kiTimersInit\<close>: the store is the platform's.\<close>

definition halOnStore :: "regs \<Rightarrow> regs \<Rightarrow> regs \<Rightarrow> ob_store \<times> plat \<Rightarrow> (ntstatus \<times> ob_store \<times> plat) outcome" where
  "halOnStore r1 r2 r3 s =
     (case s of (obs, p) \<Rightarrow> andthen (halInitTimers r1 r2 r3 (p\<lparr>pstore := obs\<rparr>)) (\<lambda>(status, p1). Done (status, pstore p1, p1)))"

text \<open>The firmware describes a high-precision timer whose capabilities \<^verbatim>\<open>kiHpetInit\<close> accepts.\<close>

definition hpet_usable :: "plat \<Rightarrow> bool" where
  "hpet_usable p \<longleftrightarrow> (case acpiQueryTable (pacpi p) (bytes ''HPET'') of
     Done (Some hp) \<Rightarrow>
       let caps = fst (hpetRead (toVirt (pacpi p) (hpet_gas_address (fw (pacpi p)) hp)) HPET_REG_CAPS (pbus p));
           period = ucast (CAP_CLK_PERIOD caps) :: ulong
       in period \<noteq> 0 \<and> period \<le> 0x05F5E100 \<and> (ucast (CAP_REV_ID caps) :: uchar) \<noteq> 0
   | _ \<Rightarrow> False)"

lemma hpet_usable_cong: "pacpi p' = pacpi p \<Longrightarrow> pbus p' = pbus p \<Longrightarrow> hpet_usable p' = hpet_usable p"
  unfolding hpet_usable_def by (simp only:)

lemma pitInit_run:
  assumes "\<not> pitInitDone p" "timerObject ''isa-aux'' rg (pstore p) = Done (STATUS_SUCCESS, Some a, st1)" "setData (Some a) pit_timer st1 = Done st2"
  shows "pitInit rg p = Done (STATUS_SUCCESS, p\<lparr>pstore := st2, pitInitDone := True\<rparr>)"
  using assms by (simp add: pitInit_def status_simps)

lemma kiHpetInit_run:
  assumes "hpet_usable p" "timerObject ''aux'' rg (pstore p) = Done (STATUS_SUCCESS, Some a, st1)" "setData (Some a) hpet_timer st1 = Done st2"
  shows "\<exists>b base. kiHpetInit rg p = Done (p\<lparr>pbus := b, hpetBase := base, pstore := st2\<rparr>)"
proof -
  obtain hp where hp: "acpiQueryTable (pacpi p) (bytes ''HPET'') = Done (Some hp)"
    using assms(1) by (auto simp: hpet_usable_def split: outcome.splits option.splits)
  obtain val b1 where val: "hpetRead (toVirt (pacpi p) (hpet_gas_address (fw (pacpi p)) hp)) HPET_REG_CAPS (pbus p) = (val, b1)"
    by fastforce
  with assms(1) hp have "(ucast (CAP_CLK_PERIOD val) :: ulong) \<noteq> 0" "\<not> 0x05F5E100 < (ucast (CAP_CLK_PERIOD val) :: ulong)"
    "(ucast (CAP_REV_ID val) :: uchar) \<noteq> 0"
    by (simp_all add: hpet_usable_def Let_def not_less)
  with hp val assms(2,3) show ?thesis by (auto simp: kiHpetInit_def hpetRegister_def Let_def)
qed

lemma kiLapicInitTimer_run:
  assumes "\<not> lapicTimerDone p" "timerObject ''sched'' rg (pstore p) = Done (STATUS_SUCCESS, Some a, st1)" "setData (Some a) lapic_timer st1 = Done st2"
  shows "kiLapicInitTimer rg p = Done (p\<lparr>pstore := st2, lapicTimerDone := True\<rparr>)"
  using assms by (simp add: kiLapicInitTimer_def)

lemma timer_texts:
  "0 \<notin> set (bytes ''isa-aux'')" "0 \<notin> set (bytes ''aux'')" "0 \<notin> set (bytes ''sched'')" "0 \<notin> set (bytes ''clkdev'')"
  "bytes ''aux'' \<noteq> bytes ''isa-aux''" "bytes ''sched'' \<noteq> bytes ''isa-aux''" "bytes ''sched'' \<noteq> bytes ''aux''"
  by (simp_all add: bytes_def byte_def)

lemma timer_paths:
  "components (bytes ''/clkdev/isa-aux'') = [bytes ''clkdev'', bytes ''isa-aux'']"
  "components (bytes ''/clkdev/aux'') = [bytes ''clkdev'', bytes ''aux'']"
  "components (bytes ''/clkdev/sched'') = [bytes ''clkdev'', bytes ''sched'']"
  "0 \<notin> set (bytes ''/clkdev/isa-aux'')" "0 \<notin> set (bytes ''/clkdev/aux'')" "0 \<notin> set (bytes ''/clkdev/sched'')"
  by (code_simp, code_simp, code_simp) (simp_all add: bytes_def byte_def)

definition registered :: "ob_store \<Rightarrow> (head \<Rightarrow> elem list) \<Rightarrow> elem \<Rightarrow> string \<Rightarrow> nat \<Rightarrow> bool" where
  "registered st Q q n x \<longleftrightarrow> (\<exists>a. dirLookup st Q q (bytes n) = (STATUS_SUCCESS, Some a) \<and> objects st a = Some (timer_ob (bytes n) x))"

lemma registered_grows:
  assumes "registered st Q q n x" "grows st Q st' Q'" "objects st q \<noteq> None"
  shows "registered st' Q' q n x"
proof -
  obtain a where a: "dirLookup st Q q (bytes n) = (STATUS_SUCCESS, Some a)" "objects st a = Some (timer_ob (bytes n) x)"
    using assms(1) by (auto simp: registered_def)
  have "ob_type (timer_ob (bytes n) x) \<noteq> NT_OB_DIRECTORY" by (simp add: timer_ob_def new_object_def)
  with growsD(4) [OF assms(2) a(2)] growsD(6) [OF assms(2,3) a(1)] show ?thesis by (auto simp: registered_def)
qed

lemma timer_step:
  assumes "has_clkdev st Q r q h" "\<And>d. length (Q d) \<le> fuel" "length junk = 32"
    and "objects st a = None" "0 \<notin> set (bytes nm)" "0 < length nm" "length nm \<le> 30"
    and "dirLookup st Q q (bytes nm) = (STATUS_OBJECT_NOTFOUND, None)"
  shows "\<exists>st1 st2. timerObject nm \<lparr>rg_fuel = fuel, rg_junk = junk, rg_pool = Some a\<rparr> st = Done (STATUS_SUCCESS, Some a, st1) \<and>
    setData (Some a) x st1 = Done st2 \<and> grows st Q st2 (Q(h := Q h @ [a])) \<and> has_clkdev st2 (Q(h := Q h @ [a])) r q h \<and>
    registered st2 (Q(h := Q h @ [a])) q nm x \<and> (\<forall>b. b \<noteq> a \<longrightarrow> objects st2 b = objects st b) \<and>
    (\<forall>nm'. dirLookup st Q q nm' = (STATUS_OBJECT_NOTFOUND, None) \<longrightarrow> nm' \<noteq> bytes nm \<longrightarrow>
       dirLookup st2 (Q(h := Q h @ [a])) q nm' = (STATUS_OBJECT_NOTFOUND, None))"
proof -
  let ?st2 = "with_child st h a (timer_ob (bytes nm) x)"
  let ?rg = "\<lparr>rg_fuel = fuel, rg_junk = junk, rg_pool = Some a\<rparr>"
  have rg: "\<And>d. length (Q d) \<le> rg_fuel ?rg" "length (rg_junk ?rg) = 32" "rg_pool ?rg = Some a" using assms(2,3) by simp_all
  note reg = timer_registered [OF assms(1) rg assms(4-7), where x = x]
  obtain st1 where st1: "timerObject nm ?rg st = Done (STATUS_SUCCESS, Some a, st1)" "setData (Some a) x st1 = Done ?st2"
    using reg(1) by blast
  have "registered ?st2 (Q(h := Q h @ [a])) q nm x"
    using reg(4) [OF assms(8)] by (auto simp: registered_def with_child_def)
  moreover have "\<forall>b. b \<noteq> a \<longrightarrow> objects ?st2 b = objects st b" by (simp add: with_child_def)
  ultimately show ?thesis using st1 reg(2,3,5) by blast
qed

text \<open>Three registrations in a store that has the directory.\<close>

lemma halInitTimers_run:
  assumes dir: "has_clkdev (pstore p) Q r q h" "Q h = []" and fuel: "\<And>d. length (Q d) \<le> fuel" "3 \<le> fuel" and junk: "length junk = 32"
    and fresh: "distinct [a1, a2, a3]" "\<forall>a \<in> set [a1, a2, a3]. objects (pstore p) a = None"
    and p: "hpet_usable p" "\<not> pitInitDone p" "\<not> lapicTimerDone p"
  shows "\<exists>p' Q'. halInitTimers \<lparr>rg_fuel = fuel, rg_junk = junk, rg_pool = Some a1\<rparr> \<lparr>rg_fuel = fuel, rg_junk = junk, rg_pool = Some a2\<rparr>
      \<lparr>rg_fuel = fuel, rg_junk = junk, rg_pool = Some a3\<rparr> p = Done (STATUS_SUCCESS, p') \<and>
    grows (pstore p) Q (pstore p') Q' \<and> has_clkdev (pstore p') Q' r q h \<and> (\<forall>d. length (Q' d) \<le> fuel) \<and>
    registered (pstore p') Q' q ''isa-aux'' pit_timer \<and> registered (pstore p') Q' q ''aux'' hpet_timer \<and>
    registered (pstore p') Q' q ''sched'' lapic_timer"
proof -
  let ?rg = "\<lambda>a. \<lparr>rg_fuel = fuel, rg_junk = junk, rg_pool = Some a\<rparr>"
  have miss: "dirLookup (pstore p) Q q nm = (STATUS_OBJECT_NOTFOUND, None)" for nm
    using dir by (auto simp: has_clkdev_def dir_of_def dirLookup_def split: option.splits if_splits)
  have q: "objects st q \<noteq> None" if "has_clkdev st Q' r q h" for st Q'
    using that by (auto simp: has_clkdev_def dir_of_def split: option.splits)
  let ?Q1 = "Q(h := Q h @ [a1])"
  from timer_step [OF dir(1) fuel(1) junk _ timer_texts(1) _ _ miss, of a1 pit_timer] fresh
  obtain s1 s1' where s1: "timerObject ''isa-aux'' (?rg a1) (pstore p) = Done (STATUS_SUCCESS, Some a1, s1')" "setData (Some a1) pit_timer s1' = Done s1"
    "grows (pstore p) Q s1 ?Q1" "has_clkdev s1 ?Q1 r q h" "registered s1 ?Q1 q ''isa-aux'' pit_timer"
    "\<And>b. b \<noteq> a1 \<Longrightarrow> objects s1 b = objects (pstore p) b"
    "\<And>nm'. nm' \<noteq> bytes ''isa-aux'' \<Longrightarrow> dirLookup s1 ?Q1 q nm' = (STATUS_OBJECT_NOTFOUND, None)"
    using miss by auto
  let ?Q2 = "?Q1(h := ?Q1 h @ [a2])"
  have len1: "length (?Q1 d) \<le> fuel" for d using fuel dir(2) by simp
  have free1: "objects s1 a2 = None" using s1(6) fresh by auto
  from timer_step [OF s1(4) len1 junk free1 timer_texts(2) _ _ s1(7) [OF timer_texts(5)], of hpet_timer]
  obtain s2 s2' where s2: "timerObject ''aux'' (?rg a2) s1 = Done (STATUS_SUCCESS, Some a2, s2')" "setData (Some a2) hpet_timer s2' = Done s2"
    "grows s1 ?Q1 s2 ?Q2" "has_clkdev s2 ?Q2 r q h" "registered s2 ?Q2 q ''aux'' hpet_timer"
    "\<And>b. b \<noteq> a2 \<Longrightarrow> objects s2 b = objects s1 b"
    "\<And>nm'. nm' \<noteq> bytes ''isa-aux'' \<Longrightarrow> nm' \<noteq> bytes ''aux'' \<Longrightarrow> dirLookup s2 ?Q2 q nm' = (STATUS_OBJECT_NOTFOUND, None)"
    using s1(7) by auto
  let ?Q3 = "?Q2(h := ?Q2 h @ [a3])"
  have len2: "length (?Q2 d) \<le> fuel" for d using fuel dir(2) by simp
  have free2: "objects s2 a3 = None" using s2(6) s1(6) fresh by auto
  from timer_step [OF s2(4) len2 junk free2 timer_texts(3) _ _ s2(7) [OF timer_texts(6,7)], of lapic_timer]
  obtain s3 s3' where s3: "timerObject ''sched'' (?rg a3) s2 = Done (STATUS_SUCCESS, Some a3, s3')" "setData (Some a3) lapic_timer s3' = Done s3"
    "grows s2 ?Q2 s3 ?Q3" "has_clkdev s3 ?Q3 r q h" "registered s3 ?Q3 q ''sched'' lapic_timer"
    by auto
  have reg2: "registered s2 ?Q2 q ''isa-aux'' pit_timer" by (rule registered_grows [OF s1(5) s2(3) q [OF s1(4)]])
  note reg3 = registered_grows [OF reg2 s3(3) q [OF s2(4)]] registered_grows [OF s2(5) s3(3) q [OF s2(4)]]
  note g = grows_trans [OF grows_trans [OF s1(3) s2(3)] s3(3)]
  have len3: "length (?Q3 d) \<le> fuel" for d using fuel dir(2) by simp
  have "pitInit (?rg a1) p = Done (STATUS_SUCCESS, p\<lparr>pstore := s1, pitInitDone := True\<rparr>)"
    by (rule pitInit_run [OF p(2) s1(1,2)])
  moreover obtain b base where "kiHpetInit (?rg a2) (p\<lparr>pstore := s1, pitInitDone := True\<rparr>) =
      Done (p\<lparr>pstore := s1, pitInitDone := True, pbus := b, hpetBase := base, pstore := s2\<rparr>)"
    using kiHpetInit_run [of "p\<lparr>pstore := s1, pitInitDone := True\<rparr>" "?rg a2" a2 s2' s2] s2(1,2) p(1)
      hpet_usable_cong [of "p\<lparr>pstore := s1, pitInitDone := True\<rparr>" p] by auto
  moreover have "kiLapicInitTimer (?rg a3) (p\<lparr>pstore := s1, pitInitDone := True, pbus := b, hpetBase := base, pstore := s2\<rparr>) =
      Done (p\<lparr>pstore := s1, pitInitDone := True, pbus := b, hpetBase := base, pstore := s2, pstore := s3, lapicTimerDone := True\<rparr>)"
    by (rule kiLapicInitTimer_run) (use p(3) s3(1,2) in simp_all)
  ultimately have run: "halInitTimers (?rg a1) (?rg a2) (?rg a3) p =
      Done (STATUS_SUCCESS, p\<lparr>pstore := s1, pitInitDone := True, pbus := b, hpetBase := base, pstore := s2, pstore := s3, lapicTimerDone := True\<rparr>)"
    by (simp add: halInitTimers_def)
  show ?thesis
    by (rule exI, rule exI [of _ ?Q3], intro conjI, rule run)
      (use g s3(4,5) reg3 len3 in \<open>simp_all del: fun_upd_apply fun_upd_upd\<close>)
qed

lemma timerCreateStore_run:
  assumes "wf_store st Q" "\<And>d. length (Q d) < fuel" "rootObject st = Some r" "length junk = 32" "dir_of st r = Some d"
    and "objects st a = None" "dirLookup st Q r (bytes ''clkdev'') = (STATUS_OBJECT_NOTFOUND, None)" "\<And>x. dir_of st x \<noteq> Some h"
  shows "\<exists>st'. timerCreateStore fuel junk (Some a) (Some h) st = Done (STATUS_SUCCESS, st') \<and>
    grows st Q st' (Q(d := Q d @ [a], h := [])) \<and> has_clkdev st' (Q(d := Q d @ [a], h := [])) r a h \<and>
    (\<forall>b. b \<noteq> a \<longrightarrow> objects st' b = objects st b)"
proof -
  let ?n = "bytes ''clkdev''" and ?Q1 = "Q(d := Q d @ [a])"
  let ?ob = "new_object NT_OB_DIRECTORY ?n 2"
  let ?st1 = "with_child st d a ?ob" and ?Q2 = "(Q(d := Q d @ [a]))(h := [])"
  let ?st2 = "with_dir ?st1 a ?ob h"
  have n: "0 \<notin> set ?n" "0 < length ?n" "length ?n \<le> 30" by (simp_all add: bytes_def byte_def)
  have root: "components (bytes ''/'') = []" "0 \<notin> set (bytes ''/'')" by code_simp (simp add: bytes_def byte_def)
  have fuel: "length (Q e) \<le> fuel" for e using assms(2) [of e] by simp
  have ob: "ob_type ?ob = NT_OB_DIRECTORY" "ob_data ?ob = None" "cstr (ob_name ?ob) = ?n" "terminated (ob_name ?ob)"
    using new_object_name [OF n(1,3)] by (simp_all add: new_object_def)
  have create: "obCreateObject fuel junk (Some a) (Some \<lparr>cr_parent = Some (bytes ''/'' @ [0]), cr_name = Some (?n @ [0]),
      cr_type = NT_OB_DIRECTORY\<rparr>) st = Done (STATUS_SUCCESS, Some a, ?st1)"
    by (rule obCreateObject_run [OF assms(1) fuel assms(3,4) root(2) _ assms(5,6) _ n]) (simp_all add: root(1))
  have a: "objects ?st1 a = Some ?ob" by (simp add: with_child_def)
  have h: "dir_of ?st1 x \<noteq> Some h" for x
    using assms(8) [of x] by (auto simp: dir_of_def with_child_def new_object_def)
  have wf1: "wf_store ?st1 ?Q1" by (rule with_child_wf [OF assms(1,5,6) _ ob(4)]) (simp add: ob)
  have g1: "grows st Q ?st1 ?Q1" by (rule grows_child [OF assms(1,5,6) _ ob(4)]) (simp add: ob)
  have g2: "grows ?st1 ?Q1 ?st2 ?Q2" by (rule grows_dir [OF wf1 a ob(1,2) h])
  have live: "objects ?st1 r \<noteq> None" using growsD(3) [OF g1 wf_storeD(6) [OF assms(1,3)]] .
  have "dirLookup ?st1 ?Q1 r ?n = (STATUS_SUCCESS, Some a)"
    using with_child_found [OF assms(1,5,6), of ?ob] assms(7) by (simp add: ob(3))
  from growsD(6) [OF g2 live this] have look: "dirLookup ?st2 ?Q2 r ?n = (STATUS_SUCCESS, Some a)" .
  have "has_clkdev ?st2 ?Q2 r a h"
    using look growsD(1) [OF g2] growsD(2) [OF g1] growsD(2) [OF g2] assms(3) with_dir_dirs [OF ob(1)] by (simp add: has_clkdev_def)
  moreover have "timerCreateStore fuel junk (Some a) (Some h) st = Done (STATUS_SUCCESS, ?st2)"
    using create obAllocateDir_run [OF a ob(1)] by (simp add: timerCreateStore_def status_simps)
  moreover have "\<forall>b. b \<noteq> a \<longrightarrow> objects ?st2 b = objects st b" by (simp add: with_dir_def initDir_def with_child_def)
  ultimately show ?thesis using grows_trans [OF g1 g2] by blast
qed

lemma kiTimersInit_run:
  assumes "wf_store st Q" "\<forall>d. length (Q d) < fuel" "3 \<le> fuel" "rootObject st = Some r" "dir_of st r = Some d" "length junk = 32"
    and "dirLookup st Q r (bytes ''clkdev'') = (STATUS_OBJECT_NOTFOUND, None)" "\<forall>x. dir_of st x \<noteq> Some h"
    and "distinct [a, a1, a2, a3]" "\<forall>b \<in> set [a, a1, a2, a3]. objects st b = None"
    and "hpet_usable p" "\<not> pitInitDone p" "\<not> lapicTimerDone p"
  shows "\<exists>st' Q' p'. kiTimersInit fuel junk (Some a) (Some h) (halOnStore \<lparr>rg_fuel = fuel, rg_junk = junk, rg_pool = Some a1\<rparr>
      \<lparr>rg_fuel = fuel, rg_junk = junk, rg_pool = Some a2\<rparr> \<lparr>rg_fuel = fuel, rg_junk = junk, rg_pool = Some a3\<rparr>) (False, st, p) =
      Done (STATUS_SUCCESS, True, st', p') \<and> wf_store st' Q' \<and>
    keTimerGetDescriptor fuel junk (Some (bytes ''/clkdev/isa-aux'' @ [0])) False st' = Done (STATUS_SUCCESS, Some pit_timer) \<and>
    keTimerGetDescriptor fuel junk (Some (bytes ''/clkdev/aux'' @ [0])) False st' = Done (STATUS_SUCCESS, Some hpet_timer) \<and>
    keTimerGetDescriptor fuel junk (Some (bytes ''/clkdev/sched'' @ [0])) False st' = Done (STATUS_SUCCESS, Some lapic_timer) \<and>
    keTimerGetDescriptor fuel junk (Some (bytes ''/clkdev'' @ [0])) False st' = Done (STATUS_BAD_OBJ_TYPE, None) \<and>
    (\<forall>t x. 0 \<notin> set t \<longrightarrow> obLookupObject fuel junk (Some (t @ [0])) st = Done (STATUS_SUCCESS, Some x) \<longrightarrow>
       obLookupObject fuel junk (Some (t @ [0])) st' = Done (STATUS_SUCCESS, Some x))"
proof -
  let ?Q1 = "Q(d := Q d @ [a], h := [])"
  have len: "length (Q e) < fuel" for e using assms(2) by blast
  obtain s1 where s1: "timerCreateStore fuel junk (Some a) (Some h) st = Done (STATUS_SUCCESS, s1)" "grows st Q s1 ?Q1"
    "has_clkdev s1 ?Q1 r a h" "\<And>b. b \<noteq> a \<Longrightarrow> objects s1 b = objects st b"
    using timerCreateStore_run [OF assms(1) len assms(4,6,5) _ assms(7), of a h] assms(8,10) by auto
  let ?p = "p\<lparr>pstore := s1\<rparr>"
  have p: "has_clkdev (pstore ?p) ?Q1 r a h" "?Q1 h = []" "distinct [a1, a2, a3]" "\<forall>b \<in> set [a1, a2, a3]. objects (pstore ?p) b = None"
    "hpet_usable ?p" "\<not> pitInitDone ?p" "\<not> lapicTimerDone ?p"
    using s1(3,4) assms(9-13) hpet_usable_cong [of ?p p] by auto
  have len1: "length (?Q1 e) \<le> fuel" for e using len [of e] len [of d] by (simp add: Suc_le_eq)
  from halInitTimers_run [OF p(1,2) len1 assms(3,6) p(3-7)] obtain p' Q' where
    p': "halInitTimers \<lparr>rg_fuel = fuel, rg_junk = junk, rg_pool = Some a1\<rparr> \<lparr>rg_fuel = fuel, rg_junk = junk, rg_pool = Some a2\<rparr>
      \<lparr>rg_fuel = fuel, rg_junk = junk, rg_pool = Some a3\<rparr> ?p = Done (STATUS_SUCCESS, p')"
    and g: "grows s1 ?Q1 (pstore p') Q'" and clk: "has_clkdev (pstore p') Q' r a h" and len2: "\<And>e. length (Q' e) \<le> fuel"
    and reg: "registered (pstore p') Q' a ''isa-aux'' pit_timer" "registered (pstore p') Q' a ''aux'' hpet_timer"
      "registered (pstore p') Q' a ''sched'' lapic_timer" by (auto simp del: fun_upd_apply)
  let ?st = "pstore p'"
  have run: "kiTimersInit fuel junk (Some a) (Some h) (halOnStore \<lparr>rg_fuel = fuel, rg_junk = junk, rg_pool = Some a1\<rparr>
      \<lparr>rg_fuel = fuel, rg_junk = junk, rg_pool = Some a2\<rparr> \<lparr>rg_fuel = fuel, rg_junk = junk, rg_pool = Some a3\<rparr>) (False, st, p) =
      Done (STATUS_SUCCESS, True, ?st, p')"
    by (simp add: kiTimersInit_def s1(1) halOnStore_def p')
  have wf: "wf_store ?st Q'" "rootObject ?st = Some r" and look: "dirLookup ?st Q' r (bytes ''clkdev'') = (STATUS_SUCCESS, Some a)"
    using clk by (simp_all add: has_clkdev_def)
  have short: "length (bytes n) < NT_OBNAME_LEN - 1" if "length n \<le> 30" for n
    using that by (simp add: bytes_def NT_OBNAME_LEN_def)
  have found: "keTimerGetDescriptor fuel junk (Some (path @ [0])) False ?st = Done (STATUS_SUCCESS, Some x)"
    if at: "registered ?st Q' a n x" "components path = [bytes ''clkdev'', bytes n]" "0 \<notin> set path" "length n \<le> 30" for path n x
  proof -
    obtain b where b: "dirLookup ?st Q' a (bytes n) = (STATUS_SUCCESS, Some b)" "objects ?st b = Some (timer_ob (bytes n) x)"
      using at(1) by (auto simp: registered_def)
    have "resolve ?st Q' r (components path) = (STATUS_SUCCESS, Some b)"
      using look b(1) short [OF at(4)] clkdev_path(3) at(2) by simp
    from keTimerGetDescriptor_finds [OF wf(1) len2 wf(2) assms(6) at(3) this b(2)] show ?thesis
      by (simp add: timer_ob_def new_object_def)
  qed
  have old: "obLookupObject fuel junk (Some (t @ [0])) ?st = Done (STATUS_SUCCESS, Some x)"
    if "0 \<notin> set t" "obLookupObject fuel junk (Some (t @ [0])) st = Done (STATUS_SUCCESS, Some x)" for t x
  proof -
    have "resolve st Q r (components t) = (STATUS_SUCCESS, Some x)"
      using obLookupObject_spec [OF assms(1) less_imp_le [OF len] assms(4) that(1) assms(6), of "[]"] that(2) by simp
    from grows_resolve [OF grows_trans [OF s1(2) g] assms(1) wf_storeD(6) [OF assms(1,4)] this]
    show ?thesis using obLookupObject_spec [OF wf(1) len2 wf(2) that(1) assms(6), of "[]"] by simp
  qed
  obtain ob where ob: "objects ?st a = Some ob" "ob_type ob = NT_OB_DIRECTORY"
    using clk by (auto simp: has_clkdev_def dir_of_def split: option.splits if_splits)
  have "resolve ?st Q' r (components (bytes ''/clkdev'')) = (STATUS_SUCCESS, Some a)"
    using look clkdev_path(1,3) by simp
  from keTimerGetDescriptor_finds [OF wf(1) len2 wf(2) assms(6) clkdev_path(2) this ob(1)] ob(2)
  have "keTimerGetDescriptor fuel junk (Some (bytes ''/clkdev'' @ [0])) False ?st = Done (STATUS_BAD_OBJ_TYPE, None)" by simp
  with run wf(1) old found [OF reg(1) timer_paths(1,4)] found [OF reg(2) timer_paths(2,5)] found [OF reg(3) timer_paths(3,6)]
  show ?thesis by (intro exI [of _ ?st] exI [of _ Q'] exI [of _ p']) simp
qed

text \<open>A boot of the store: an empty one, and firmware tables with a timer of period \<open>10\<^sup>7\<close> femtoseconds.\<close>

definition demo_empty :: ob_store where
  "demo_empty = \<lparr>objects = Map.empty, ob_links = demo_queue, numEnt = (\<lambda>_. 9), rootObject = None\<rparr>"

definition demo_hpet_acpi :: acpi where
  "demo_hpet_acpi = \<lparr>fw = place 0x124 [0, 2, 0, 0] (place 0x200 (bytes ''HPET'') (\<lambda>_. 0)), hhdm = 0, sdt = 0x100, sdtLen = 1\<rparr>"

definition demo_plat :: plat where
  "demo_plat = \<lparr>pcpu = demo_cpu, pbus = \<lparr>trace = [], device = (\<lambda>_. 0x0098968000000001)\<rparr>, pstore = demo_empty,
     pacpi = demo_hpet_acpi, pitInitDone = False, lapicTimerDone = False,
     hpetBase = 0, ioapicBase = 0\<rparr>"

lemma demo_hpet_usable: "hpet_usable demo_plat" "\<not> pitInitDone demo_plat" "\<not> lapicTimerDone demo_plat"
proof -
  have "length (bytes ''HPET'') = 4" by code_simp
  moreover have "find (\<lambda>a. hdr_signature (fw demo_hpet_acpi) a = bytes ''HPET'') (tables demo_hpet_acpi) = Some 0x200" by code_simp
  ultimately have "acpiQueryTable (pacpi demo_plat) (bytes ''HPET'') = Done (Some 0x200)"
    using queryFrom_find [of "bytes ''HPET''" 0 demo_hpet_acpi] by (simp add: acpiQueryTable_def demo_plat_def)
  moreover have "fst (hpetRead x y (pbus demo_plat)) = 0x0098968000000001" for x y
    by (simp add: demo_plat_def hpetRead_def mmioRead64_def ask_def)
  ultimately show "hpet_usable demo_plat"
    by (simp add: hpet_usable_def CAP_CLK_PERIOD_def CAP_REV_ID_def Let_def)
  show "\<not> pitInitDone demo_plat" "\<not> lapicTimerDone demo_plat" by (simp_all add: demo_plat_def)
qed

lemma demo_boot_store:
  obtains st where "kiObjStoreInit (Some 100) (Some 1) demo_empty = Done st" "wf_store st (\<lambda>_. [])" "rootObject st = Some 100"
    "dir_of st 100 = Some 1" "dirLookup st (\<lambda>_. []) 100 (bytes ''clkdev'') = (STATUS_OBJECT_NOTFOUND, None)"
    "\<forall>x. dir_of st x \<noteq> Some 2" "\<forall>b \<in> set [110, 120, 130, 140]. objects st b = None"
proof -
  have "objects demo_empty = (\<lambda>_. None)" by (simp add: demo_empty_def)
  from kiObjStoreInit_run [OF this, of 100 1] obtain st where st: "kiObjStoreInit (Some 100) (Some 1) demo_empty = Done st"
    "wf_store st (\<lambda>_. [])" "rootObject st = Some 100" "dir_of st = (\<lambda>x. if x = 100 then Some 1 else None)"
    "\<forall>x. x \<noteq> 100 \<longrightarrow> objects st x = None" by blast
  have "dir_of st 100 = Some 1" using st(4) by simp
  then have "dirLookup st (\<lambda>_. []) 100 (bytes ''clkdev'') = (STATUS_OBJECT_NOTFOUND, None)"
    by (auto simp: dir_of_def dirLookup_def split: option.splits if_splits)
  with st show ?thesis using that [of st] by simp
qed

section \<open>Properties\<close>

text \<open>
  C21 (the timers can be found). In a well-formed store whose root has no \<^verbatim>\<open>clkdev\<close> yet, with unused
  addresses from the pool and a usable high-precision timer in the firmware's tables, the interval and local timers not being registered yet, \<^verbatim>\<open>kiTimersInit\<close>
  succeeds, and \<^verbatim>\<open>keTimerGetDescriptor\<close> then answers, for the three paths, the descriptors of the
  interval timer, the high-precision timer and the local timer; the directory itself is refused for
  its type. Every path that resolved before still does, to the same object.
\<close>

theorem kiTimersInit_registers:
  assumes "wf_store st Q" "\<forall>d. length (Q d) < fuel" "3 \<le> fuel" "rootObject st = Some r" "dir_of st r = Some d" "length junk = 32"
    and "dirLookup st Q r (bytes ''clkdev'') = (STATUS_OBJECT_NOTFOUND, None)" "\<forall>x. dir_of st x \<noteq> Some h"
    and "distinct [a, a1, a2, a3]" "\<forall>b \<in> set [a, a1, a2, a3]. objects st b = None"
    and "hpet_usable p" "\<not> pitInitDone p" "\<not> lapicTimerDone p"
  shows "\<exists>st' Q' p'. kiTimersInit fuel junk (Some a) (Some h) (halOnStore \<lparr>rg_fuel = fuel, rg_junk = junk, rg_pool = Some a1\<rparr>
      \<lparr>rg_fuel = fuel, rg_junk = junk, rg_pool = Some a2\<rparr> \<lparr>rg_fuel = fuel, rg_junk = junk, rg_pool = Some a3\<rparr>) (False, st, p) =
      Done (STATUS_SUCCESS, True, st', p') \<and> wf_store st' Q' \<and>
    keTimerGetDescriptor fuel junk (Some (bytes ''/clkdev/isa-aux'' @ [0])) False st' = Done (STATUS_SUCCESS, Some pit_timer) \<and>
    keTimerGetDescriptor fuel junk (Some (bytes ''/clkdev/aux'' @ [0])) False st' = Done (STATUS_SUCCESS, Some hpet_timer) \<and>
    keTimerGetDescriptor fuel junk (Some (bytes ''/clkdev/sched'' @ [0])) False st' = Done (STATUS_SUCCESS, Some lapic_timer) \<and>
    keTimerGetDescriptor fuel junk (Some (bytes ''/clkdev'' @ [0])) False st' = Done (STATUS_BAD_OBJ_TYPE, None) \<and>
    (\<forall>t x. 0 \<notin> set t \<longrightarrow> obLookupObject fuel junk (Some (t @ [0])) st = Done (STATUS_SUCCESS, Some x) \<longrightarrow>
       obLookupObject fuel junk (Some (t @ [0])) st' = Done (STATUS_SUCCESS, Some x))"
  by (rule kiTimersInit_run [OF assms])

theorem kiTimersInit_registers_witness:
  "\<exists>st st' p'. kiObjStoreInit (Some 100) (Some 1) demo_empty = Done st \<and>
    kiTimersInit 4 (replicate 32 9) (Some 110) (Some 2) (halOnStore \<lparr>rg_fuel = 4, rg_junk = replicate 32 9, rg_pool = Some 120\<rparr>
      \<lparr>rg_fuel = 4, rg_junk = replicate 32 9, rg_pool = Some 130\<rparr> \<lparr>rg_fuel = 4, rg_junk = replicate 32 9, rg_pool = Some 140\<rparr>)
      (False, st, demo_plat) = Done (STATUS_SUCCESS, True, st', p') \<and>
    keTimerGetDescriptor 4 (replicate 32 9) (Some (bytes ''/clkdev/aux'' @ [0])) False st' = Done (STATUS_SUCCESS, Some 2)"
proof -
  obtain st where st: "kiObjStoreInit (Some 100) (Some 1) demo_empty = Done st" "wf_store st (\<lambda>_. [])" "rootObject st = Some 100"
    "dir_of st 100 = Some 1" "dirLookup st (\<lambda>_. []) 100 (bytes ''clkdev'') = (STATUS_OBJECT_NOTFOUND, None)"
    "\<forall>x. dir_of st x \<noteq> Some 2" "\<forall>b \<in> set [110, 120, 130, 140]. objects st b = None" by (rule demo_boot_store)
  have "\<forall>d. length ((\<lambda>_. []) d :: elem list) < 4" "(3 :: nat) \<le> 4" "length (replicate 32 (9 :: uchar)) = 32"
    "distinct [110, 120, 130, 140 :: elem]" by simp_all
  from kiTimersInit_registers [OF st(2) this(1,2) st(3,4) this(3) st(5,6) this(4) st(7) demo_hpet_usable] st(1)
  show ?thesis by (auto simp: hpet_timer_def)
qed

end
