(* ===== verification/StoreTypes.thy ===== *)
theory StoreTypes
  imports StoreBoot
begin

text \<open>
  The typing of the object store: the data pointer of an object is untyped, and its readers
  (\<^verbatim>\<open>keTimerGetDescriptor\<close> of \<^verbatim>\<open>ke/timer.c\<close>, \<^verbatim>\<open>exMapperGet\<close> of \<^verbatim>\<open>ex/mapper.c\<close>) trust the object's type. The
  stores the kernel can reach by its own operations, and what such a pointer can be in them.
\<close>

section \<open>What the data pointers point to\<close>

text \<open>
  The data pointer of an object is untyped; its readers cast it by the object's type. In a well-typed
  store a timer object has no data or one of the drivers' descriptors, and a mapper object no data
  or the mapper structure at \<open>M\<close>.
\<close>

definition ob_typed :: "nat \<Rightarrow> NT_OBJECT \<Rightarrow> bool" where
  "ob_typed M ob \<longleftrightarrow> (case ob_type ob of
     NT_OB_TIMER \<Rightarrow> ob_data ob \<in> {None, Some pit_timer, Some hpet_timer, Some lapic_timer}
   | NT_OB_MAPPER \<Rightarrow> ob_data ob \<in> {None, Some M} | _ \<Rightarrow> True)"

definition store_typed :: "nat \<Rightarrow> ob_store \<Rightarrow> bool" where
  "store_typed M st \<longleftrightarrow> (\<forall>a ob. objects st a = Some ob \<longrightarrow> ob_typed M ob)"

lemma typed_modObj:
  assumes "store_typed M st" "modObj a f st = Done st'" "\<And>ob. objects st a = Some ob \<Longrightarrow> ob_typed M ob \<Longrightarrow> ob_typed M (f ob)"
  shows "store_typed M st'"
  using assms by (auto simp: store_typed_def modObj_def split: option.splits if_splits)

lemma typed_refs: "ob_typed M (ob\<lparr>ob_ref := n\<rparr>) = ob_typed M ob"
  by (cases "ob_type ob") (simp_all add: ob_typed_def)

lemma obCreateObject_effect:
  assumes "obCreateObject fuel junk pool params st = Done (s, r, st')"
  shows "r = None \<and> st' = st \<or> (\<exists>ps a nm n. params = Some ps \<and> r = Some a \<and>
    objects st' = (objects st)(a \<mapsto> \<lparr>ob_type = cr_type ps, ob_name = nm, ob_ref = n, ob_data = None\<rparr>))"
proof (cases params)
  case None
  with assms show ?thesis by (simp add: obCreateObject_def)
next
  case (Some ps)
  show ?thesis
  proof (cases "type_num NT_OB_MAX \<le> type_num (cr_type ps) \<or> cr_name ps = None")
    case True
    with assms Some show ?thesis by (auto simp: obCreateObject_def split: if_splits)
  next
    case False
    then obtain name where name: "cr_name ps = Some name" "\<not> type_num NT_OB_MAX \<le> type_num (cr_type ps)" by auto
    obtain status parent where par: "findParent fuel junk (cr_parent ps) st = Done (status, parent)"
      using assms Some name by (auto simp: obCreateObject_def)
    show ?thesis
    proof (cases "status = STATUS_SUCCESS")
      case False
      with assms Some name par show ?thesis by (simp add: obCreateObject_def)
    next
      case ok: True
      obtain n where n: "rtlStrlen (Some name) = Done n" using assms Some name par ok by (auto simp: obCreateObject_def)
      show ?thesis
      proof (cases "(n = 0 \<or> of_nat NT_OBNAME_LEN - 1 \<le> n) \<or> pool = None")
        case True
        with assms Some name par ok n show ?thesis by (auto simp: obCreateObject_def split: if_splits)
      next
        case fits: False
        then obtain a where a: "pool = Some a" by auto
        obtain nm where nm: "rtlMemcpy (replicate NT_OBNAME_LEN 0) name n = Done nm"
          using assms Some name par ok n fits a by (auto simp: obCreateObject_def)
        have add: "objects st2 = objects st1" if "obDirectoryAdd q x st1 = Done (s', st2)" for q x st1 s' st2
          using that by (auto simp: obDirectoryAdd_def getObj_def split: option.splits prod.splits if_splits)
        let ?new = "\<lambda>k. (objects st)(a \<mapsto> \<lparr>ob_type = cr_type ps, ob_name = nm, ob_ref = k, ob_data = None\<rparr>)"
        have "r = Some a \<and> (objects st' = ?new 1 \<or> objects st' = ?new 2)"
          using assms Some name par ok n fits a nm
          by (cases parent) (auto simp: obCreateObject_def Let_def modObj_def dest!: add)
        with Some show ?thesis by blast
      qed
    qed
  qed
qed

lemma typed_create:
  assumes "store_typed M st" "obCreateObject fuel junk pool params st = Done (s, r, st')"
  shows "store_typed M st'" "r = Some a \<Longrightarrow> \<exists>ob ps. objects st' a = Some ob \<and> params = Some ps \<and> ob_type ob = cr_type ps \<and> ob_data ob = None"
proof -
  have new: "ob_typed M \<lparr>ob_type = ty, ob_name = nm, ob_ref = n, ob_data = None\<rparr>" for ty nm n
    by (simp add: ob_typed_def split: NT_OBJECT_TYPE.split)
  show "store_typed M st'"
    using obCreateObject_effect [OF assms(2)] assms(1) new by (auto simp: store_typed_def split: if_splits)
  show "r = Some a \<Longrightarrow> \<exists>ob ps. objects st' a = Some ob \<and> params = Some ps \<and> ob_type ob = cr_type ps \<and> ob_data ob = None"
    using obCreateObject_effect [OF assms(2)] by auto
qed

lemma typed_count: "store_typed M st \<Longrightarrow> modObj a (\<lambda>ob. ob\<lparr>ob_ref := f ob\<rparr>) st = Done st' \<Longrightarrow> store_typed M st'"
  by (rule typed_modObj [where f = "\<lambda>ob. ob\<lparr>ob_ref := f ob\<rparr>"]) (simp_all add: typed_refs)

lemma typed_obTableAdd: "store_typed M st \<Longrightarrow> obTableAdd t a st = Done (s, t', k, st') \<Longrightarrow> store_typed M st'"
  by (auto simp: obTableAdd_def split: option.splits if_splits dest: typed_count)

lemma typed_obFreeObject:
  assumes "store_typed M st" "obFreeObject a st = Done (s, st')"
  shows "store_typed M st'"
proof -
  consider x st1 where "modObj x (\<lambda>ob. ob\<lparr>ob_ref := ob_ref ob - 1\<rparr>) st = Done st1" "st' = st1 \<or> st' = st1\<lparr>objects := (objects st1)(x := None)\<rparr>"
    | "st' = st"
    using assms(2) by (auto simp: obFreeObject_def split: option.splits if_splits)
  then show ?thesis
  proof cases
    case 1
    from typed_count [OF assms(1) 1(1)] 1(2) show ?thesis by (auto simp: store_typed_def split: if_splits)
  qed (simp add: assms(1))
qed

lemma typed_initDir: "store_typed M (initDir d st) = store_typed M st" "objects (initDir d st) = objects st"
  by (simp_all add: store_typed_def initDir_def)

lemma typed_obAllocateDir:
  assumes "store_typed M st" "obAllocateDir h a st = Done (s, st')"
  shows "store_typed M st'"
proof -
  consider x ob d where "objects st x = Some ob" "ob_type ob = NT_OB_DIRECTORY"
      "modObj x (\<lambda>ob. ob\<lparr>ob_data := Some d\<rparr>) (initDir d st) = Done st'"
    | "st' = st"
    using assms(2) by (auto simp: obAllocateDir_def getObj_def split: option.splits if_splits)
  then show ?thesis
  proof cases
    case 1
    have "store_typed M (initDir d st)" using assms(1) by (simp add: typed_initDir)
    from typed_modObj [OF this 1(3)] 1(1,2) show ?thesis by (simp add: typed_initDir ob_typed_def)
  qed (simp add: assms(1))
qed

lemma typed_setData:
  assumes "store_typed M st" "setData (Some a) x st = Done st'" "objects st a = Some ob" "ob_typed M (ob\<lparr>ob_data := Some x\<rparr>)"
  shows "store_typed M st'"
  using assms by (auto simp: setData_def elim!: typed_modObj)

lemma typed_timer:
  assumes "store_typed M st" "timerObject nm rg st = Done (s, a, st1)" "setData a x st1 = Done st2" "x \<in> {pit_timer, hpet_timer, lapic_timer}"
  shows "store_typed M st2"
proof -
  obtain b where b: "a = Some b" using assms(3) by (cases a) (simp_all add: setData_def)
  note create = assms(2) [unfolded timerObject_def]
  from typed_create(2) [OF assms(1) create b] obtain ob where ob: "objects st1 b = Some ob" "ob_type ob = NT_OB_TIMER" by auto
  show ?thesis
    by (rule typed_setData [OF typed_create(1) [OF assms(1) create] assms(3) [unfolded b] ob(1)])
      (use ob(2) assms(4) in \<open>auto simp: ob_typed_def\<close>)
qed

text \<open>What a timer driver's registration can do to the store.\<close>

definition registers :: "nat \<Rightarrow> ob_store \<Rightarrow> ob_store \<Rightarrow> bool" where
  "registers x st st' \<longleftrightarrow> st' = st \<or> (\<exists>nm rg s a st1. timerObject nm rg st = Done (s, a, st1) \<and> (st' = st1 \<or> setData a x st1 = Done st'))"

lemma typed_registers:
  assumes "store_typed M st" "registers x st st'" "x \<in> {pit_timer, hpet_timer, lapic_timer}"
  shows "store_typed M st'"
proof -
  consider "st' = st" | nm rg s a st1 where "timerObject nm rg st = Done (s, a, st1)" "st' = st1 \<or> setData a x st1 = Done st'"
    using assms(2) by (auto simp: registers_def)
  then show ?thesis
  proof cases
    case 2
    from typed_create(1) [OF assms(1) 2(1) [unfolded timerObject_def]] typed_timer [OF assms(1) 2(1) _ assms(3)] 2(2) show ?thesis by blast
  qed (simp add: assms(1))
qed

lemma pitInit_registers: "pitInit rg p = Done (s, p') \<Longrightarrow> registers pit_timer (pstore p) (pstore p')"
  by (fastforce simp: pitInit_def registers_def split: if_splits)

lemma hpetRegister_registers: "hpetRegister rg p = Done (s, p') \<Longrightarrow> registers hpet_timer (pstore p) (pstore p')"
  by (fastforce simp: hpetRegister_def registers_def split: if_splits)

lemma kiLapicInitTimer_registers: "kiLapicInitTimer rg p = Done p' \<Longrightarrow> registers lapic_timer (pstore p) (pstore p')"
  by (fastforce simp: kiLapicInitTimer_def registers_def split: if_splits)

lemma kiHpetInit_registers:
  assumes "kiHpetInit rg p = Done p'"
  shows "registers hpet_timer (pstore p) (pstore p')"
proof -
  obtain hp where hp: "acpiQueryTable (pacpi p) (bytes ''HPET'') = Done (Some hp)"
    using assms by (auto simp: kiHpetInit_def split: option.splits)
  let ?base = "toVirt (pacpi p) (hpet_gas_address (fw (pacpi p)) hp)"
  obtain val b1 where "hpetRead ?base HPET_REG_CAPS (pbus p) = (val, b1)" by fastforce
  with assms hp have "\<exists>b s. hpetRegister rg (p\<lparr>pbus := b, hpetBase := ?base\<rparr>) = Done (s, p')"
    by (simp add: kiHpetInit_def Let_def split: if_split_asm) blast
  then show ?thesis by (auto dest: hpetRegister_registers)
qed

lemma typed_halOnStore:
  assumes "store_typed M st" "halOnStore r1 r2 r3 (st, p) = Done (s, st', p')"
  shows "store_typed M st'"
proof -
  obtain s1 p1 p2 where p: "pitInit r1 (p\<lparr>pstore := st\<rparr>) = Done (s1, p1)" "kiHpetInit r2 p1 = Done p2" "kiLapicInitTimer r3 p2 = Done p'"
    "st' = pstore p'"
    using assms(2) by (auto simp: halOnStore_def halInitTimers_def)
  have "store_typed M (pstore p1)" by (rule typed_registers [OF _ pitInit_registers [OF p(1)]]) (simp_all add: assms(1))
  from typed_registers [OF this kiHpetInit_registers [OF p(2)]] have "store_typed M (pstore p2)" by simp
  from typed_registers [OF this kiLapicInitTimer_registers [OF p(3)]] p(4) show ?thesis by simp
qed

lemma typed_timerCreateStore:
  assumes "store_typed M st" "timerCreateStore fuel junk a h st = Done (s, st')"
  shows "store_typed M st'"
proof -
  obtain s1 d st1 ps where c: "obCreateObject fuel junk a ps st = Done (s1, d, st1)"
    "st' = st1 \<or> (\<exists>s2 st2. obAllocateDir h d st1 = Done (s2, st2) \<and> (st' = st2 \<or> (\<exists>s3. obFreeObject d st2 = Done (s3, st'))))"
    using assms(2) by (auto simp: timerCreateStore_def split: if_splits)
  from typed_create(1) [OF assms(1) c(1)] c(2) typed_obAllocateDir typed_obFreeObject show ?thesis by metis
qed

lemma typed_kiTimersInit:
  assumes "store_typed M st" "kiTimersInit fuel junk a h (halOnStore r1 r2 r3) (b, st, p) = Done (s, b', st', p')"
  shows "store_typed M st'"
proof -
  consider "st' = st" | s1 st1 s2 where "timerCreateStore fuel junk a h st = Done (s1, st1)" "halOnStore r1 r2 r3 (st1, p) = Done (s2, st', p')"
    using assms(2) by (auto simp: kiTimersInit_def split: if_splits)
  then show ?thesis
  proof cases
    case 2
    from typed_halOnStore [OF typed_timerCreateStore [OF assms(1) 2(1)] 2(2)] show ?thesis .
  qed (simp add: assms(1))
qed

lemma typed_mapperInit:
  assumes "store_typed M st" "mapperInit fuel junk a h st = Done (s, st')"
  shows "store_typed M st'"
proof -
  obtain ps s1 d st1 s2 where c: "obCreateObject fuel junk a ps st = Done (s1, d, st1)" "obAllocateDir h d st1 = Done (s2, st')"
    using assms(2) by (auto simp: mapperInit_def split: if_splits)
  show ?thesis by (rule typed_obAllocateDir [OF typed_create(1) [OF assms(1) c(1)] c(2)])
qed

lemma typed_bootVidInit:
  assumes "store_typed M st" "bootVidInit fuel junk pool M br v st = Done (s, ob, v', st')"
  shows "store_typed M st'"
proof -
  obtain s1 a st1 ps where c: "obCreateObject fuel junk pool (Some ps) st = Done (s1, Some a, st1)" "cr_type ps = NT_OB_MAPPER"
    "modObj a (\<lambda>ob. ob\<lparr>ob_data := Some M\<rparr>) st1 = Done st'"
    using assms(2) by (auto simp: bootVidInit_def Let_def split: if_splits option.splits)
  from typed_create(2) [OF assms(1) c(1) refl] c(2) obtain ob where ob: "objects st1 a = Some ob" "ob_type ob = NT_OB_MAPPER" by auto
  show ?thesis
    by (rule typed_modObj [OF typed_create(1) [OF assms(1) c(1)] c(3)]) (use ob in \<open>simp add: ob_typed_def\<close>)
qed

lemma typed_kiObjStoreInit:
  assumes "objects st = (\<lambda>_. None)" "kiObjStoreInit a h st = Done st'"
  shows "store_typed M st'"
proof -
  have "store_typed M st" using assms(1) by (simp add: store_typed_def)
  moreover obtain s1 b st1 st2 d ps where c: "obCreateObject 0 [] a (Some ps) st = Done (s1, Some b, st1)" "cr_type ps = NT_OB_DIRECTORY"
    "modObj b (\<lambda>ob. ob\<lparr>ob_data := h\<rparr>) (st1\<lparr>rootObject := Some b\<rparr>) = Done st2" "st' = initDir d st2"
    using assms(2) by (auto simp: kiObjStoreInit_def split: if_splits option.splits)
  ultimately obtain ob where ob: "objects st1 b = Some ob" "ob_type ob = NT_OB_DIRECTORY" "store_typed M st1"
    using typed_create [of M st 0 "[]" a "Some ps" s1 "Some b" st1] by fastforce
  have "store_typed M (st1\<lparr>rootObject := Some b\<rparr>)" using ob(3) by (simp add: store_typed_def)
  from typed_modObj [OF this c(3)] ob(1,2) have "store_typed M st2" by (simp add: ob_typed_def)
  then show ?thesis using c(4) by (simp add: typed_initDir)
qed

section \<open>The stores the kernel reaches\<close>

text \<open>
  \<open>kernel_store M st\<close>: the kernel, with its framebuffer's mapper structure at \<open>M\<close>, can have the object
  store \<open>st\<close>. The allocator's answers, the devices, the firmware and the paths are arbitrary, and the
  operations come in any order and any number.
\<close>

inductive kernel_store :: "nat \<Rightarrow> ob_store \<Rightarrow> bool" for M :: nat where
  boot: "objects st = (\<lambda>_. None) \<Longrightarrow> kiObjStoreInit a h st = Done st' \<Longrightarrow> kernel_store M st'"
| mapper: "kernel_store M st \<Longrightarrow> mapperInit fuel junk a h st = Done (s, st') \<Longrightarrow> kernel_store M st'"
| video: "kernel_store M st \<Longrightarrow> bootVidInit fuel junk a M br v st = Done (s, ob, v', st') \<Longrightarrow> kernel_store M st'"
| timers: "kernel_store M st \<Longrightarrow> kiTimersInit fuel junk a h (halOnStore r1 r2 r3) (b, st, p) = Done (s, b', st', p') \<Longrightarrow> kernel_store M st'"
| create: "kernel_store M st \<Longrightarrow> obCreateObject fuel junk a params st = Done (s, r, st') \<Longrightarrow> kernel_store M st'"
| directory: "kernel_store M st \<Longrightarrow> obAllocateDir h x st = Done (s, st') \<Longrightarrow> kernel_store M st'"
| release: "kernel_store M st \<Longrightarrow> obFreeObject x st = Done (s, st') \<Longrightarrow> kernel_store M st'"
| table: "kernel_store M st \<Longrightarrow> obTableAdd t x st = Done (s, t', k, st') \<Longrightarrow> kernel_store M st'"

lemma kernel_store_typed: "kernel_store M st \<Longrightarrow> store_typed M st"
proof (induction rule: kernel_store.induct)
  case (create st fuel junk a params s r st')
  from typed_create(1) [OF create.IH create.hyps(2)] show ?case .
qed (blast intro: typed_kiObjStoreInit typed_mapperInit typed_bootVidInit typed_kiTimersInit typed_obAllocateDir
  typed_obFreeObject typed_obTableAdd)+

lemma typed_keTimerGetDescriptor:
  "store_typed M st \<Longrightarrow> keTimerGetDescriptor fuel junk path nores st = Done (STATUS_SUCCESS, Some x) \<Longrightarrow>
    x \<in> {pit_timer, hpet_timer, lapic_timer}"
  by (auto simp: keTimerGetDescriptor_def getObj_def store_typed_def ob_typed_def status_simps split: if_splits option.splits) fastforce

lemma typed_exMapperGet:
  "store_typed M st \<Longrightarrow> exMapperGet fuel junk path nores st = Done (STATUS_SUCCESS, Some x) \<Longrightarrow> x = M"
  by (auto simp: exMapperGet_def getObj_def store_typed_def ob_typed_def status_simps split: if_splits option.splits) fastforce

section \<open>Properties\<close>

text \<open>
  C20 (descriptors have their readers' types). In every store the kernel reaches, after any sequence of
  its operations on objects, a descriptor that \<^verbatim>\<open>keTimerGetDescriptor\<close> answers is one of the three timer
  drivers' structures, and a pointer that \<^verbatim>\<open>exMapperGet\<close> answers is the framebuffer's mapper structure,
  whatever path they are given: no object's data is read as a type it does not have.
\<close>

theorem descriptors_typed:
  assumes "kernel_store M st"
  shows "(\<nexists>x. keTimerGetDescriptor fuel junk path nores st = Done (STATUS_SUCCESS, Some x) \<and> x \<notin> {pit_timer, hpet_timer, lapic_timer}) \<and>
    (\<nexists>x. exMapperGet fuel junk path nores st = Done (STATUS_SUCCESS, Some x) \<and> x \<noteq> M)"
  using typed_keTimerGetDescriptor typed_exMapperGet kernel_store_typed [OF assms] by blast

theorem descriptors_typed_witness:
  "\<exists>st. kernel_store 77 st \<and> keTimerGetDescriptor 4 (replicate 32 9) (Some (bytes ''/clkdev/aux'' @ [0])) False st = Done (STATUS_SUCCESS, Some 2) \<and>
    (\<nexists>x. exMapperGet 4 (replicate 32 9) (Some (bytes ''/clkdev/aux'' @ [0])) False st = Done (STATUS_SUCCESS, Some x) \<and> x \<noteq> 77)"
proof -
  obtain st where st: "kiObjStoreInit (Some 100) (Some 1) demo_empty = Done st" "wf_store st (\<lambda>_. [])" "rootObject st = Some 100"
    "dir_of st 100 = Some 1" "dirLookup st (\<lambda>_. []) 100 (bytes ''clkdev'') = (STATUS_OBJECT_NOTFOUND, None)"
    "\<forall>x. dir_of st x \<noteq> Some 2" "\<forall>b \<in> set [110, 120, 130, 140]. objects st b = None" by (rule demo_boot_store)
  have "\<forall>d. length ((\<lambda>_. []) d :: elem list) < 4" "(3 :: nat) \<le> 4" "length (replicate 32 (9 :: uchar)) = 32"
    "distinct [110, 120, 130, 140 :: elem]" by simp_all
  from kiTimersInit_run [OF st(2) this(1,2) st(3,4) this(3) st(5,6) this(4) st(7) demo_hpet_usable] obtain st' p' where
    run: "kiTimersInit 4 (replicate 32 9) (Some 110) (Some 2) (halOnStore \<lparr>rg_fuel = 4, rg_junk = replicate 32 9, rg_pool = Some 120\<rparr>
      \<lparr>rg_fuel = 4, rg_junk = replicate 32 9, rg_pool = Some 130\<rparr> \<lparr>rg_fuel = 4, rg_junk = replicate 32 9, rg_pool = Some 140\<rparr>)
      (False, st, demo_plat) = Done (STATUS_SUCCESS, True, st', p')"
    and aux: "keTimerGetDescriptor 4 (replicate 32 9) (Some (bytes ''/clkdev/aux'' @ [0])) False st' = Done (STATUS_SUCCESS, Some hpet_timer)"
    by blast
  have "objects demo_empty = (\<lambda>_. None)" by (simp add: demo_empty_def)
  from kernel_store.timers [OF kernel_store.boot [OF this st(1)] run] have k: "kernel_store 77 st'" .
  from descriptors_typed [OF k, of 4 "replicate 32 9" "Some (bytes ''/clkdev/aux'' @ [0])" False] k aux
  show ?thesis by (auto simp: hpet_timer_def)
qed

end
