(* ===== verification/TlsfHeap.thy ===== *)
theory TlsfHeap
  imports TlsfLists
begin

text \<open>
  The heap of the allocator \<^verbatim>\<open>ntos/mm/tlsf.c\<close> as a whole: the blocks of a pool in the order of their
  addresses, with the boundary tags in memory, together with the free lists. Allocation and release
  are followed through splitting, merging and marking, down to each word they write.
\<close>

section \<open>Addresses and header words\<close>

text \<open>Addresses are natural numbers here; \<open>wd\<close> gives the word.\<close>

definition wd :: "nat \<Rightarrow> uquad" where "wd n = of_nat n"

lemma unat_wd: "n < 2 ^ 64 \<Longrightarrow> unat (wd n) = n"
  by (simp add: wd_def unat_of_nat_quad)

lemma wd_eq: "m < 2 ^ 64 \<Longrightarrow> n < 2 ^ 64 \<Longrightarrow> wd m = wd n \<longleftrightarrow> m = n"
  by (metis unat_wd)

lemma wd_neq: "m < 2 ^ 64 \<Longrightarrow> n < 2 ^ 64 \<Longrightarrow> m \<noteq> n \<Longrightarrow> wd m \<noteq> wd n"
  by (simp add: wd_eq)

lemma wd_add: "wd m + wd n = wd (m + n)"
  by (simp add: wd_def)

lemma wd_diff: "n \<le> m \<Longrightarrow> wd m - wd n = wd (m - n)"
  by (simp add: wd_def of_nat_diff)

lemma wd_num: "8 = wd 8" "16 = wd 16" "24 = wd 24" "32 = wd 32"
  by (simp_all add: wd_def)

lemma wd_unat: "wd (unat x) = x"
  by (simp add: wd_def)

lemma wd_fields [simp]: "f_prev_phys (wd a) = wd a" "f_size (wd a) = wd (a + 8)" "f_next (wd a) = wd (a + 16)" "f_prev (wd a) = wd (a + 24)"
  by (simp_all add: field_defs wd_def)

lemma wd_ptr [simp]: "block_to_ptr (wd a) = wd (a + 16)" "block_from_ptr (wd (a + 16)) = wd a"
  by (simp_all add: block_to_ptr_def block_from_ptr_def block_start_offset_def wd_def)

lemma wd_offset: "offset_to_block (wd (a + 16)) (wd s - block_header_overhead) = wd (a + 8 + s)"
  by (simp add: offset_to_block_def block_header_overhead_def wd_def algebra_simps)

lemma wd_low:
  assumes "8 dvd s" "n < 3"
  shows "\<not> bit (wd s) n"
proof -
  obtain k where k: "s = 8 * k" using assms(1) by auto
  have "wd s = push_bit 3 (of_nat k)" by (simp add: k wd_def push_bit_eq_mult)
  then show ?thesis using assms(2) by (simp add: bit_push_bit_iff)
qed

lemma wd_aligned: "8 dvd a \<Longrightarrow> wd a AND 7 = 0"
proof (rule bit_word_eqI)
  fix n
  have m: "(7 :: usize) = mask 3" by (simp add: mask_eq_exp_minus_1)
  show "8 dvd a \<Longrightarrow> bit (wd a AND 7) n \<longleftrightarrow> bit 0 n"
    using wd_low [of a n] unfolding m by (auto simp: bit_and_iff bit_mask_iff)
qed

text \<open>The size word: a size with the block's and its predecessor's free bit.\<close>

definition hdr :: "nat \<Rightarrow> bool \<Rightarrow> bool \<Rightarrow> uquad" where
  "hdr s f pf = wd s OR (if f then 1 else 0) OR (if pf then 2 else 0)"

lemma bits123: "bit (1 :: usize) n \<longleftrightarrow> n = 0" "bit (2 :: usize) n \<longleftrightarrow> n = 1" "bit (3 :: usize) n \<longleftrightarrow> n < 2"
proof -
  show "bit (1 :: usize) n \<longleftrightarrow> n = 0" by (simp add: bit_1_iff)
  have p: "(2 :: usize) = push_bit 1 1" by simp
  show "bit (2 :: usize) n \<longleftrightarrow> n = 1" unfolding p by (simp only: bit_push_bit_iff bit_1_iff) auto
  have m: "(3 :: usize) = mask 2" by (simp add: mask_eq_exp_minus_1)
  show "bit (3 :: usize) n \<longleftrightarrow> n < 2" unfolding m by (auto simp: bit_mask_iff)
qed

lemma bit_hdr:
  assumes "8 dvd s"
  shows "bit (hdr s f pf) n \<longleftrightarrow> (if n = 0 then f else if n = 1 then pf else bit (wd s) n)"
  using wd_low [OF assms, of n] by (auto simp: hdr_def bit_or_iff bits123 simp del: bit_numeral_word_iff)

lemma hdr_simps:
  assumes "8 dvd s"
  shows "hdr s f pf AND NOT 3 = wd s" "hdr s f pf AND 1 \<noteq> 0 \<longleftrightarrow> f" "hdr s f pf AND 2 \<noteq> 0 \<longleftrightarrow> pf"
    "hdr s f pf OR 1 = hdr s True pf" "hdr s f pf AND NOT 1 = hdr s False pf"
    "hdr s f pf OR 2 = hdr s f True" "hdr s f pf AND NOT 2 = hdr s f False"
proof -
  note b = bit_hdr [OF assms] and low = wd_low [OF assms]
  have below: "bit x n \<Longrightarrow> n < 64" for x :: uquad and n using bit_below [of x n] by simp
  show "hdr s f pf AND NOT 3 = wd s" using low by (intro bit_word_eqI) (simp only: bit_and_iff bit_not_iff bits123 b, auto)
  have "hdr s f pf AND 1 = (if f then 1 else 0)" by (rule bit_word_eqI) (auto simp: bit_and_iff bits123 b)
  then show "hdr s f pf AND 1 \<noteq> 0 \<longleftrightarrow> f" by simp
  have "hdr s f pf AND 2 = (if pf then 2 else 0)" by (rule bit_word_eqI) (auto simp: bit_and_iff bits123 b simp del: bit_numeral_word_iff)
  then show "hdr s f pf AND 2 \<noteq> 0 \<longleftrightarrow> pf" by simp
  have nb: "bit (x AND NOT y) n \<longleftrightarrow> bit x n \<and> \<not> bit y n" for x y :: uquad and n
    using below [of x n] by (auto simp: bit_and_iff bit_not_iff)
  show "hdr s f pf OR 1 = hdr s True pf" by (rule bit_word_eqI, unfold bit_or_iff bits123 b, auto)
  show "hdr s f pf OR 2 = hdr s f True" by (rule bit_word_eqI, unfold bit_or_iff bits123 b, auto)
  show "hdr s f pf AND NOT 1 = hdr s False pf" by (rule bit_word_eqI, unfold nb bits123 b, auto)
  show "hdr s f pf AND NOT 2 = hdr s f False" by (rule bit_word_eqI, unfold nb bits123 b, auto)
qed

lemmas hdr_masks = hdr_simps hdr_simps(1,5,7) [simplified]

lemma hdr_resize: "8 dvd r \<Longrightarrow> wd r OR (v AND 3) = hdr r (bit v 0) (bit v 1)"
proof (rule bit_word_eqI)
  fix n assume r: "8 dvd r"
  show "bit (wd r OR (v AND 3)) n \<longleftrightarrow> bit (hdr r (bit v 0) (bit v 1)) n"
    using wd_low [OF r, of n] by (auto simp: bit_or_iff bit_and_iff bits123 bit_hdr [OF r] less_Suc_eq numeral_2_eq_2)
qed

lemma hdr_keep: "8 dvd s \<Longrightarrow> 8 dvd r \<Longrightarrow> wd r OR (hdr s f pf AND 3) = hdr r f pf"
  by (simp add: hdr_resize bit_hdr)

lemma hdr_sum: "8 dvd s \<Longrightarrow> hdr s f pf = wd s + (if f then 1 else 0) + (if pf then 2 else 0)"
proof -
  assume s: "8 dvd s"
  have "wd s OR (if f then 1 else 0) = wd s + (if f then 1 else 0)"
    using wd_low [OF s, of 0] by (intro disjunctive_add [symmetric]) (auto simp: bits123 intro: gr0I simp del: bit_numeral_word_iff)
  moreover have "(wd s OR (if f then 1 else 0)) OR (if pf then 2 else 0) = (wd s OR (if f then 1 else 0)) + (if pf then 2 else 0)"
    using wd_low [OF s, of 1] by (intro disjunctive_add [symmetric]) (auto simp: bits123 bit_or_iff simp del: bit_numeral_word_iff)
  moreover have "hdr s f pf = (wd s OR (if f then 1 else 0)) OR (if pf then 2 else 0)" by (simp only: hdr_def or.assoc)
  ultimately show ?thesis by (simp only:)
qed

lemma hdr_absorb:
  assumes "8 dvd s" "8 dvd t"
  shows "hdr s f pf + (wd t + block_header_overhead) = hdr (s + 8 + t) f pf"
proof -
  have "8 dvd s + 8 + t" using assms by simp
  then show ?thesis using assms by (simp add: hdr_sum block_header_overhead_def wd_def algebra_simps)
qed

section \<open>Operations on one header\<close>

definition putw :: "nat \<Rightarrow> uquad \<Rightarrow> tlsf \<Rightarrow> tlsf" where
  "putw x v st = st\<lparr>tmem := (tmem st)(wd x \<mapsto> v)\<rparr>"

lemma putw_simps [simp]:
  "tmem (putw x v st) = (tmem st)(wd x \<mapsto> v)" "control (putw x v st) = control st" "fl_bitmap (putw x v st) = fl_bitmap st"
  "sl_bitmap (putw x v st) = sl_bitmap st" "blocks (putw x v st) = blocks st"
  by (simp_all add: putw_def)

lemma store_putw: "tmem st (wd x) \<noteq> None \<Longrightarrow> store (wd x) v st = Done (putw x v st)"
  by (simp add: store_def putw_def)

lemma load_word: "tmem st (wd x) = Some v \<Longrightarrow> load (wd x) st = Done v"
  by (simp add: load_def)

lemma header_ops:
  assumes "tmem st (wd (a + 8)) = Some (hdr s f pf)" "8 dvd s"
  shows "block_size (wd a) st = Done (wd s)" "block_is_free (wd a) st = Done f" "block_is_prev_free (wd a) st = Done pf"
    "block_set_free (wd a) st = Done (putw (a + 8) (hdr s True pf) st)"
    "block_set_used (wd a) st = Done (putw (a + 8) (hdr s False pf) st)"
    "block_set_prev_free (wd a) st = Done (putw (a + 8) (hdr s f True) st)"
    "block_set_prev_used (wd a) st = Done (putw (a + 8) (hdr s f False) st)"
    "8 dvd r \<Longrightarrow> block_set_size (wd a) (wd r) st = Done (putw (a + 8) (hdr r f pf) st)"
  using assms hdr_keep [OF assms(2), of r f pf]
  by (simp_all add: block_size_def block_is_free_def block_is_prev_free_def block_set_free_def block_set_used_def
      block_set_prev_free_def block_set_prev_used_def block_set_size_def load_word store_putw hdr_masks)

lemma next_ops:
  assumes "tmem st (wd (a + 8)) = Some (hdr s f pf)" "8 dvd s" "0 < s" "s < 2 ^ 64"
  shows "block_is_last (wd a) st = Done False" "block_next (wd a) st = Done (wd (a + 8 + s))"
    "tmem st (wd (a + 8 + s)) \<noteq> None \<Longrightarrow> block_link_next (wd a) st = Done (wd (a + 8 + s), putw (a + 8 + s) (wd a) st)"
proof -
  have "wd s \<noteq> 0" using assms(3,4) wd_eq [of s 0] by (simp add: wd_def)
  then show last: "block_is_last (wd a) st = Done False" by (simp add: block_is_last_def header_ops [OF assms(1,2)])
  show nxt: "block_next (wd a) st = Done (wd (a + 8 + s))"
    by (simp add: block_next_def last header_ops [OF assms(1,2)] tlsf_assert_def wd_offset)
  show "tmem st (wd (a + 8 + s)) \<noteq> None \<Longrightarrow> block_link_next (wd a) st = Done (wd (a + 8 + s), putw (a + 8 + s) (wd a) st)"
    by (simp add: block_link_next_def nxt store_putw)
qed

section \<open>The blocks of a pool\<close>

text \<open>A block is its size and whether it is free; the first one's address is \<open>a\<close>.\<close>

type_synonym pblock = "nat \<times> bool"

fun end_of :: "nat \<Rightarrow> pblock list \<Rightarrow> nat" where
  "end_of a [] = a"
| "end_of a ((s, f) # bs) = end_of (a + 8 + s) bs"

fun last_free :: "bool \<Rightarrow> pblock list \<Rightarrow> bool" where
  "last_free pf [] = pf"
| "last_free pf ((s, f) # bs) = last_free f bs"

fun fblocks :: "nat \<Rightarrow> pblock list \<Rightarrow> (nat \<times> nat) set" where
  "fblocks a [] = {}"
| "fblocks a ((s, f) # bs) = (if f then {(a, s)} else {}) \<union> fblocks (a + 8 + s) bs"

fun ublocks :: "nat \<Rightarrow> pblock list \<Rightarrow> (nat \<times> nat) set" where
  "ublocks a [] = {}"
| "ublocks a ((s, f) # bs) = (if f then {} else {(a, s)}) \<union> ublocks (a + 8 + s) bs"

text \<open>
  The words in memory: each block's header with the two free bits, and behind a free block its
  address, which is the last word of the block. Sizes are admissible. At the end is a used block of
  size zero.
\<close>

fun pre :: "(uquad \<Rightarrow> uquad option) \<Rightarrow> nat \<Rightarrow> bool \<Rightarrow> pblock list \<Rightarrow> bool" where
  "pre m a pf [] \<longleftrightarrow> True"
| "pre m a pf ((s, f) # bs) \<longleftrightarrow> m (wd (a + 8)) = Some (hdr s f pf) \<and> 24 \<le> s \<and> 8 dvd s \<and> s < 2 ^ 32 \<and>
     (f \<longrightarrow> m (wd (a + 8 + s)) = Some (wd a)) \<and> pre m (a + 8 + s) f bs"

definition phys_rep :: "(uquad \<Rightarrow> uquad option) \<Rightarrow> nat \<Rightarrow> bool \<Rightarrow> pblock list \<Rightarrow> bool" where
  "phys_rep m a pf bs \<longleftrightarrow> pre m a pf bs \<and> m (wd (end_of a bs + 8)) = Some (hdr 0 False (last_free pf bs))"

lemma end_of_append [simp]: "end_of a (xs @ ys) = end_of (end_of a xs) ys"
  by (induction xs arbitrary: a) auto

lemma last_free_append [simp]: "last_free pf (xs @ ys) = last_free (last_free pf xs) ys"
  by (induction xs arbitrary: pf) auto

lemma fblocks_append [simp]: "fblocks a (xs @ ys) = fblocks a xs \<union> fblocks (end_of a xs) ys"
  by (induction xs arbitrary: a) auto

lemma ublocks_append [simp]: "ublocks a (xs @ ys) = ublocks a xs \<union> ublocks (end_of a xs) ys"
  by (induction xs arbitrary: a) auto

lemma pre_append [simp]: "pre m a pf (xs @ ys) \<longleftrightarrow> pre m a pf xs \<and> pre m (end_of a xs) (last_free pf xs) ys"
  by (induction xs arbitrary: a pf) auto

lemma phys_rep_append: "phys_rep m a pf (xs @ ys) \<longleftrightarrow> pre m a pf xs \<and> phys_rep m (end_of a xs) (last_free pf xs) ys"
  by (auto simp: phys_rep_def)

lemma phys_rep_Cons: "phys_rep m a pf ((s, f) # ys) \<longleftrightarrow> m (wd (a + 8)) = Some (hdr s f pf) \<and> 24 \<le> s \<and> 8 dvd s \<and> s < 2 ^ 32 \<and>
    (f \<longrightarrow> m (wd (a + 8 + s)) = Some (wd a)) \<and> phys_rep m (a + 8 + s) f ys"
  by (auto simp: phys_rep_def)

lemma end_of_ge: "a \<le> end_of a xs"
  by (induction a xs rule: end_of.induct) auto

lemma fblocks_range: "(y, s) \<in> fblocks a xs \<Longrightarrow> a \<le> y \<and> y + 8 + s \<le> end_of a xs"
  by (induction a xs rule: fblocks.induct) (auto split: if_splits dest: order_trans [OF _ end_of_ge] intro: end_of_ge order_trans [OF _ end_of_ge])

lemma ublocks_range: "(y, s) \<in> ublocks a xs \<Longrightarrow> a \<le> y \<and> y + 8 + s \<le> end_of a xs"
  by (induction a xs rule: ublocks.induct) (auto split: if_splits intro: end_of_ge)

text \<open>The words that belong to the layout, and the words of the used blocks.\<close>

fun layout :: "nat \<Rightarrow> pblock list \<Rightarrow> nat set" where
  "layout a [] = {a + 8}"
| "layout a ((s, f) # bs) = {a + 8} \<union> (if f then {a + 8 + s} else {}) \<union> layout (a + 8 + s) bs"

definition payload :: "nat \<Rightarrow> pblock list \<Rightarrow> nat set" where
  "payload a bs = {x. \<exists>(y, s) \<in> ublocks a bs. y + 16 \<le> x \<and> x \<le> y + 8 + s}"

lemma layout_range: "x \<in> layout a bs \<Longrightarrow> a + 8 \<le> x \<and> x \<le> end_of a bs + 8"
proof (induction a bs rule: layout.induct)
  case (2 a s f bs)
  then show ?case using end_of_ge [of "a + 8 + s" bs] by (auto split: if_splits)
qed simp

lemma pre_sizes: "pre m a pf bs \<Longrightarrow> (s, f) \<in> set bs \<Longrightarrow> 24 \<le> s \<and> 8 dvd s \<and> s < 2 ^ 32"
  by (induction m a pf bs rule: pre.induct) auto

lemma fblocks_layout:
  assumes "pre m a pf bs" "(y, s) \<in> fblocks a bs" "x \<in> layout a bs"
  shows "x \<noteq> y + 16" "x \<noteq> y + 24"
proof -
  have "x \<noteq> y + 16 \<and> x \<noteq> y + 24"
    using assms
  proof (induction m a pf bs rule: pre.induct)
    case (2 m a pf t f bs)
    then show ?case
      using fblocks_range [of y s "a + 8 + t" bs] layout_range [of x "a + 8 + t" bs]
      by (auto split: if_splits)
  qed simp
  then show "x \<noteq> y + 16" "x \<noteq> y + 24" by simp_all
qed

lemma payload_layout:
  assumes "pre m a pf bs" "x \<in> layout a bs"
  shows "x \<notin> payload a bs"
proof -
  have "\<not> (y + 16 \<le> x \<and> x \<le> y + 8 + s)" if "(y, s) \<in> ublocks a bs" for y s
    using assms that
  proof (induction m a pf bs rule: pre.induct)
    case (2 m a pf t f bs)
    then show ?case
      using ublocks_range [of y s "a + 8 + t" bs] layout_range [of x "a + 8 + t" bs]
      by (auto split: if_splits)
  qed simp
  then show ?thesis by (auto simp: payload_def)
qed

lemma blocks_apart:
  assumes "(y, s) \<in> fblocks a bs \<union> ublocks a bs" "(z, t) \<in> fblocks a bs \<union> ublocks a bs"
  shows "(y, s) = (z, t) \<or> y + 8 + s \<le> z \<or> z + 8 + t \<le> y"
  using assms
proof (induction a bs rule: fblocks.induct)
  case (2 a u f bs)
  have r: "a + 8 + u \<le> y" if "(y, s) \<in> fblocks (a + 8 + u) bs \<union> ublocks (a + 8 + u) bs" for y s
    using that fblocks_range ublocks_range by blast
  show ?case using 2 r [of y s] r [of z t] by (auto split: if_splits)
qed simp

lemma used_and_free: "pre m a pf bs \<Longrightarrow> fblocks a bs \<inter> ublocks a bs = {}"
proof (induction m a pf bs rule: pre.induct)
  case (2 m a pf s f bs)
  have "(a, s) \<notin> fblocks (a + 8 + s) bs \<union> ublocks (a + 8 + s) bs"
    using fblocks_range [of a s "a + 8 + s" bs] ublocks_range [of a s "a + 8 + s" bs] by auto
  with 2 show ?case by auto
qed simp

lemma payload_range: "x \<in> payload a bs \<Longrightarrow> a + 16 \<le> x \<and> x \<le> end_of a bs"
  by (auto simp: payload_def dest!: ublocks_range)

lemma pre_frame:
  "pre m a pf xs \<Longrightarrow> (\<And>x. a + 8 \<le> x \<Longrightarrow> x \<le> end_of a xs \<Longrightarrow> m' (wd x) = m (wd x)) \<Longrightarrow> pre m' a pf xs"
proof (induction m a pf xs rule: pre.induct)
  case (2 m a pf s f xs)
  show ?case using 2 end_of_ge [of "a + 8 + s" xs] by (auto intro: order_trans)
qed simp

lemma phys_rep_frame:
  "phys_rep m a pf bs \<Longrightarrow> (\<And>x. x \<in> layout a bs \<Longrightarrow> m' (wd x) = m (wd x)) \<Longrightarrow> phys_rep m' a pf bs"
proof (induction a bs arbitrary: pf rule: layout.induct)
  case (2 a s f bs)
  then have "phys_rep m' (a + 8 + s) f bs" by (auto simp: phys_rep_Cons)
  with 2 show ?case by (auto simp: phys_rep_Cons)
qed (simp add: phys_rep_def)

text \<open>The header behind a block: only its bit for the predecessor changes.\<close>

lemma head_flag:
  assumes "phys_rep m n pf ys" "end_of n ys + 8 < 2 ^ 64"
  shows "\<exists>s f. m (wd (n + 8)) = Some (hdr s f pf) \<and> 8 dvd s \<and> (\<forall>q. phys_rep (m(wd (n + 8) \<mapsto> hdr s f q)) n q ys)"
proof (cases ys)
  case Nil
  with assms(1) show ?thesis by (intro exI [of _ 0] exI [of _ False]) (simp add: phys_rep_def)
next
  case (Cons b zs)
  obtain s f where b: "b = (s, f)" by (cases b)
  have w: "m (wd (n + 8)) = Some (hdr s f pf)" "24 \<le> s" "8 dvd s" "s < 2 ^ 32" "f \<longrightarrow> m (wd (n + 8 + s)) = Some (wd n)"
    "phys_rep m (n + 8 + s) f zs"
    using assms(1) by (simp_all add: Cons b phys_rep_Cons)
  have lim: "end_of (n + 8 + s) zs + 8 < 2 ^ 64" using assms(2) by (simp add: Cons b)
  have far: "wd x \<noteq> wd (n + 8)" if "n + 8 < x" "x \<le> end_of (n + 8 + s) zs + 8" for x
    using that lim wd_eq [of x "n + 8"] by auto
  have rest: "phys_rep (m(wd (n + 8) \<mapsto> v)) (n + 8 + s) f zs" for v
    by (rule phys_rep_frame [OF w(6)]) (use far layout_range in \<open>fastforce\<close>)
  have "wd (n + 8 + s) \<noteq> wd (n + 8)" using far [of "n + 8 + s"] w(2) end_of_ge [of "n + 8 + s" zs] by auto
  then show ?thesis
    using w rest by (intro exI [of _ s] exI [of _ f]) (simp add: Cons b phys_rep_Cons)
qed

section \<open>Free lists and blocks together\<close>

text \<open>
  \<open>F\<close> are the free blocks that stand in the lists: each in the list of its size class and nowhere
  else. Between operations these are all free blocks of the pool.
\<close>

definition held :: "(nat \<Rightarrow> nat \<Rightarrow> uquad list) \<Rightarrow> (nat \<times> nat) set \<Rightarrow> bool" where
  "held L F \<longleftrightarrow> (\<forall>k < 25. \<forall>l < 32. set (L k l) = {wd y | y. \<exists>s. (y, s) \<in> F \<and> mapping_insert (wd s) = (k, l)})"

text \<open>Where the control structure is, and that the pool's words exist.\<close>

definition placed_pool :: "tlsf \<Rightarrow> nat \<Rightarrow> nat \<Rightarrow> bool" where
  "placed_pool st lo e \<longleftrightarrow> 8 dvd lo \<and> 0 < lo \<and> e < lo + 8 + 2 ^ 32 \<and> e + 32 < 2 ^ 64 \<and>
     (\<forall>x. 8 dvd x \<and> lo + 8 \<le> x \<and> x \<le> e + 8 \<longrightarrow> tmem st (wd x) \<noteq> None) \<and>
     unat (control st) + 32 < 2 ^ 64 \<and> (unat (control st) + 24 \<le> lo \<or> e + 16 \<le> unat (control st))"

definition heap_rep :: "tlsf \<Rightarrow> (nat \<Rightarrow> nat \<Rightarrow> uquad list) \<Rightarrow> nat \<Rightarrow> pblock list \<Rightarrow> (nat \<times> nat) set \<Rightarrow> bool" where
  "heap_rep st L lo bs F \<longleftrightarrow> lists_rep st L \<and> held L F \<and> F \<subseteq> fblocks lo bs \<and> phys_rep (tmem st) lo False bs \<and>
     placed_pool st lo (end_of lo bs)"

lemma heap_repD:
  assumes "heap_rep st L lo bs F"
  shows "lists_rep st L" "held L F" "F \<subseteq> fblocks lo bs" "phys_rep (tmem st) lo False bs" "pre (tmem st) lo False bs"
    "placed_pool st lo (end_of lo bs)" "8 dvd lo" "end_of lo bs + 32 < 2 ^ 64"
    "8 dvd x \<Longrightarrow> lo + 8 \<le> x \<Longrightarrow> x \<le> end_of lo bs + 8 \<Longrightarrow> tmem st (wd x) \<noteq> None"
    "unat (control st) + 32 < 2 ^ 64" "unat (control st) + 24 \<le> lo \<or> end_of lo bs + 16 \<le> unat (control st)"
  using assms by (auto simp: heap_rep_def placed_pool_def phys_rep_def)

text \<open>What an operation must not write: the words of used blocks, and all outside the pool and the lists' anchor.\<close>

definition safe :: "nat \<Rightarrow> nat \<Rightarrow> pblock list \<Rightarrow> nat set" where
  "safe c lo bs = payload lo bs \<union> {x. x < 2 ^ 64 \<and> (x < lo + 8 \<or> end_of lo bs + 8 < x) \<and> x \<noteq> c + 16 \<and> x \<noteq> c + 24}"

definition untouched :: "nat set \<Rightarrow> tlsf \<Rightarrow> tlsf \<Rightarrow> bool" where
  "untouched S st st' \<longleftrightarrow> control st' = control st \<and> (\<forall>x \<in> S. tmem st' (wd x) = tmem st (wd x))"

lemma untouched_refl: "untouched S st st"
  by (simp add: untouched_def)

lemma untouched_trans: "untouched S st st1 \<Longrightarrow> untouched S st1 st2 \<Longrightarrow> untouched S st st2"
  by (simp add: untouched_def)

lemma untouched_mono: "untouched S st st' \<Longrightarrow> T \<subseteq> S \<Longrightarrow> untouched T st st'"
  by (auto simp: untouched_def)

text \<open>The link words of a set of listed blocks and of the anchor.\<close>

definition links_of :: "nat \<Rightarrow> (nat \<times> nat) set \<Rightarrow> nat set" where
  "links_of c F = {c + 16, c + 24} \<union> (\<Union>(y, s) \<in> F. {y + 16, y + 24})"

lemma links_outside:
  assumes "placed_pool st lo (end_of lo bs)" "pre m lo False bs" "F \<subseteq> fblocks lo bs" "x \<in> links_of (unat (control st)) F"
  shows "x \<notin> layout lo bs" "x \<notin> safe (unat (control st)) lo bs" "x < 2 ^ 64"
proof -
  note p = assms(1) [unfolded placed_pool_def]
  let ?c = "unat (control st)"
  have c: "?c + 24 \<le> lo \<or> end_of lo bs + 16 \<le> ?c" "?c + 32 < 2 ^ 64" "end_of lo bs + 32 < 2 ^ 64" using p by auto
  consider "x = ?c + 16 \<or> x = ?c + 24" | y s where "(y, s) \<in> fblocks lo bs" "x = y + 16 \<or> x = y + 24"
    using assms(3,4) by (auto simp: links_of_def)
  then have "x \<notin> layout lo bs \<and> x \<notin> safe ?c lo bs \<and> x < 2 ^ 64"
  proof cases
    case 1
    have "x \<notin> layout lo bs" using 1 c(1) layout_range [of x lo bs] end_of_ge [of lo bs] by auto
    moreover have "x \<notin> payload lo bs" using 1 c(1) payload_range [of x lo bs] end_of_ge [of lo bs] by auto
    ultimately show ?thesis using 1 c(2) by (auto simp: safe_def)
  next
    case 2
    note r = fblocks_range [OF 2(1)]
    have s: "24 \<le> s"
    proof -
      have "\<exists>f. (s, f) \<in> set bs" if "(y, s) \<in> fblocks a bs" for a
        using that by (induction a bs rule: fblocks.induct) (auto split: if_splits)
      with 2(1) pre_sizes [OF assms(2)] show ?thesis by blast
    qed
    have "x \<notin> payload lo bs"
    proof
      assume "x \<in> payload lo bs"
      then obtain z u where z: "(z, u) \<in> ublocks lo bs" "z + 16 \<le> x" "x \<le> z + 8 + u" by (auto simp: payload_def)
      have "(y, s) \<noteq> (z, u)" using used_and_free [OF assms(2)] 2(1) z(1) by blast
      with blocks_apart [of y s lo bs z u] 2 z s show False by auto
    qed
    moreover have "x \<notin> layout lo bs" using fblocks_layout [OF assms(2) 2(1)] 2(2) by blast
    ultimately show ?thesis using 2(2) r s c(3) by (auto simp: safe_def)
  qed
  then show "x \<notin> layout lo bs" "x \<notin> safe ?c lo bs" "x < 2 ^ 64" by auto
qed

text \<open>An operation on the lists only.\<close>

lemma lists_step:
  assumes heap: "heap_rep st L lo bs F" and rep: "lists_rep st' L'" "held L' F'" and F: "F' \<subseteq> fblocks lo bs" "G \<subseteq> fblocks lo bs"
    and c: "control st' = control st" and m: "\<And>x. tmem st x \<noteq> None \<Longrightarrow> tmem st' x \<noteq> None"
    and same: "\<And>x. x < 2 ^ 64 \<Longrightarrow> x \<notin> links_of (unat (control st)) G \<Longrightarrow> tmem st' (wd x) = tmem st (wd x)"
  shows "heap_rep st' L' lo bs F'" "untouched (safe (unat (control st)) lo bs) st st'"
proof -
  note H = heap_repD [OF heap]
  have "phys_rep (tmem st') lo False bs"
  proof (rule phys_rep_frame [OF H(4)])
    fix x assume x: "x \<in> layout lo bs"
    have "x < 2 ^ 64" using layout_range [OF x] H(8) by simp
    moreover have "x \<notin> links_of (unat (control st)) G" using links_outside(1) [OF H(6,5) F(2)] x by blast
    ultimately show "tmem st' (wd x) = tmem st (wd x)" by (rule same)
  qed
  moreover have "placed_pool st' lo (end_of lo bs)" using H(6) c m by (simp add: placed_pool_def)
  ultimately show "heap_rep st' L' lo bs F'" using rep F(1) by (simp add: heap_rep_def)
  have "tmem st' (wd x) = tmem st (wd x)" if x: "x \<in> safe (unat (control st)) lo bs" for x
  proof (rule same)
    show "x < 2 ^ 64" using x payload_range [of x lo bs] H(8) by (auto simp: safe_def)
    show "x \<notin> links_of (unat (control st)) G" using links_outside(2) [OF H(6,5) F(2)] x by blast
  qed
  with c show "untouched (safe (unat (control st)) lo bs) st st'" by (simp add: untouched_def)
qed

lemma member_addr: "held L F \<Longrightarrow> b \<in> members L \<Longrightarrow> \<exists>y s. b = wd y \<and> (y, s) \<in> F"
  unfolding held_def members_def by fastforce

lemma link_word:
  assumes "held L F" "placed_pool st lo (end_of lo bs)" "F \<subseteq> fblocks lo bs" "b = control st \<or> b \<in> members L"
    and "x < 2 ^ 64" "x \<notin> links_of (unat (control st)) F"
  shows "wd x \<noteq> f_next b" "wd x \<noteq> f_prev b"
proof -
  obtain y where y: "b = wd y" "y + 16 \<in> links_of (unat (control st)) F" "y + 24 \<in> links_of (unat (control st)) F" "y + 24 < 2 ^ 64"
  proof (cases "b = control st")
    case True
    have c: "unat (control st) + 32 < 2 ^ 64" using assms(2) by (simp add: placed_pool_def)
    show ?thesis
    proof (rule that)
      show "b = wd (unat (control st))" unfolding wd_unat by (rule True)
    qed (use c in \<open>simp_all add: links_of_def\<close>)
  next
    case False
    then obtain y s where y: "b = wd y" "(y, s) \<in> F" using assms(1,4) member_addr by blast
    have "(y, s) \<in> fblocks lo bs" using y(2) assms(3) by blast
    moreover have "end_of lo bs + 32 < 2 ^ 64" using assms(2) by (simp add: placed_pool_def)
    ultimately have lim: "y + 24 < 2 ^ 64" using fblocks_range [of y s lo bs] by linarith
    have "y + 16 \<in> links_of (unat (control st)) F" "y + 24 \<in> links_of (unat (control st)) F"
      using y(2) unfolding links_of_def by blast+
    then show ?thesis using that [OF y(1)] lim by blast
  qed
  have ne: "x \<noteq> y + 16" "x \<noteq> y + 24" using y(2,3) assms(6) by blast+
  have lim: "y + 16 < 2 ^ 64" using y(4) by linarith
  show "wd x \<noteq> f_next b" unfolding y(1) wd_fields by (rule wd_neq [OF assms(5) lim ne(1)])
  show "wd x \<noteq> f_prev b" unfolding y(1) wd_fields by (rule wd_neq [OF assms(5) y(4) ne(2)])
qed

lemma same_address:
  assumes "F \<subseteq> fblocks lo bs" "end_of lo bs < 2 ^ 64" "(y, s) \<in> F" "(z, t) \<in> F" "wd y = wd z"
  shows "(y, s) = (z, t)"
proof -
  have in_f: "(y, s) \<in> fblocks lo bs" "(z, t) \<in> fblocks lo bs" using assms by auto
  note rng = fblocks_range [OF in_f(1)] fblocks_range [OF in_f(2)]
  have "y = z" using assms(2,5) wd_eq [of y z] rng by simp
  then show ?thesis using blocks_apart [of y s lo bs z t] in_f by auto
qed

lemma leave_list:
  assumes heap: "heap_rep st L lo bs F" and kl: "k < 25" "l < 32" and L: "L k l = xs @ b # ys"
  shows "\<exists>a s. b = wd a \<and> (a, s) \<in> F \<and> mapping_insert (wd s) = (k, l) \<and>
    heap_rep (removed st k l xs ys) (upd L k l (xs @ ys)) lo bs (F - {(a, s)}) \<and>
    untouched (safe (unat (control st)) lo bs) st (removed st k l xs ys)"
proof -
  note H = heap_repD [OF heap]
  note D = lists_repD [OF H(1)]
  have set_L: "set (L k' l') = {wd y | y. \<exists>s. (y, s) \<in> F \<and> mapping_insert (wd s) = (k', l')}" if "k' < 25" "l' < 32" for k' l'
    using H(2) that by (simp add: held_def)
  have "b \<in> set (L k l)" using L by simp
  then obtain a s where a: "b = wd a" "(a, s) \<in> F" "mapping_insert (wd s) = (k, l)" using set_L [OF kl] by auto
  have lim: "end_of lo bs < 2 ^ 64" using H(8) by simp
  have one: "(y, t) = (a, s)" if "(y, t) \<in> F" "wd y = wd a" for y t
    by (rule same_address [OF H(3) lim that(1) a(2) that(2)])
  have dis: "set (xs @ ys) = set (L k l) - {wd a}" using D(9) [OF kl] L a(1) by auto
  have held: "held (upd L k l (xs @ ys)) (F - {(a, s)})"
    unfolding held_def
  proof (intro allI impI)
    fix k' l' :: nat assume kl': "k' < 25" "l' < 32"
    show "set (upd L k l (xs @ ys) k' l') = {wd y | y. \<exists>t. (y, t) \<in> F - {(a, s)} \<and> mapping_insert (wd t) = (k', l')}"
    proof (cases "(k', l') = (k, l)")
      case True
      then show ?thesis using dis set_L [OF kl] one by auto
    next
      case False
      then have "(y, t) \<in> F - {(a, s)} \<and> mapping_insert (wd t) = (k', l') \<longleftrightarrow> (y, t) \<in> F \<and> mapping_insert (wd t) = (k', l')" for y t
        using a(3) by auto
      with False show ?thesis using set_L [OF kl'] by simp
    qed
  qed
  have mem: "x \<in> members L" if "x \<in> set (xs @ b # ys)" for x using in_members [OF kl, of x L] that L by simp
  let ?prv = "last (control st # xs)" and ?nxt = "hd (ys @ [control st])"
  have p: "?prv = control st \<or> ?prv \<in> members L" using mem by (cases xs) auto
  have n: "?nxt = control st \<or> ?nxt \<in> members L" using mem [of ?nxt] by (cases ys) auto
  have same: "tmem (removed st k l xs ys) (wd x) = tmem st (wd x)" if x: "x < 2 ^ 64" "x \<notin> links_of (unat (control st)) F" for x
    using link_word(2) [OF H(2,6,3) n x] link_word(1) [OF H(2,6,3) p x] by (simp add: removed_def Let_def)
  have "control (removed st k l xs ys) = control st" "tmem st x \<noteq> None \<Longrightarrow> tmem (removed st k l xs ys) x \<noteq> None" for x
    by (simp_all add: removed_def Let_def)
  moreover have "F - {(a, s)} \<subseteq> fblocks lo bs" using H(3) by auto
  ultimately show ?thesis
    using lists_step [OF heap removed_rep [OF H(1) kl L] held _ H(3)] same a by metis
qed

lemma fblock_header:
  "pre m a pf bs \<Longrightarrow> 8 dvd a \<Longrightarrow> (y, s) \<in> fblocks a bs \<Longrightarrow>
    (\<exists>q. m (wd (y + 8)) = Some (hdr s True q)) \<and> 8 dvd s \<and> 24 \<le> s \<and> s < 2 ^ 32 \<and> 8 dvd y"
proof (induction m a pf bs rule: pre.induct)
  case (2 m a pf t f bs)
  have "8 dvd a + 8 + t" using 2 by auto
  with 2 show ?case by (auto split: if_splits)
qed simp

lemma apart_wd:
  assumes "a + 24 \<le> b \<or> b + 24 \<le> a" "a + 16 < 2 ^ 64" "b + 16 < 2 ^ 64"
  shows "apart (wd a) (wd b)"
  unfolding apart_def wd_num wd_add by (intro conjI wd_neq) (use assms in linarith)+

lemma enter_list:
  assumes heap: "heap_rep st L lo bs F" and a: "(a, s) \<in> fblocks lo bs" "(a, s) \<notin> F"
  shows "\<exists>st' L'. block_insert (wd a) st = Done st' \<and> heap_rep st' L' lo bs (insert (a, s) F) \<and>
    untouched (safe (unat (control st)) lo bs) st st'"
proof -
  note H = heap_repD [OF heap]
  note D = lists_repD [OF H(1)]
  let ?c = "unat (control st)"
  from fblock_header [OF H(5,7) a(1)] obtain q where q: "tmem st (wd (a + 8)) = Some (hdr s True q)" "8 dvd s" "24 \<le> s" "s < 2 ^ 32" "8 dvd a"
    by auto
  note rng = fblocks_range [OF a(1)]
  have pos: "0 < lo" using H(6) by (simp add: placed_pool_def)
  have lim: "end_of lo bs < 2 ^ 64" using H(8) by simp
  have size: "block_size (wd a) st = Done (wd s)" by (rule header_ops [OF q(1,2)])
  have us: "unat (wd s) < 2 ^ 32" using q(4) unat_wd [of s] by simp
  obtain k l where kl: "mapping_insert (wd s) = (k, l)" "k < 25" "l < 32"
    using mapping_insert_range [of "wd s" 0] us by (cases "mapping_insert (wd s)") (auto simp: tlsf_consts)
  have enter: "enterable st L (wd a)"
    unfolding enterable_def
  proof (intro conjI ballI)
    show "wd a \<noteq> 0" using wd_eq [of a 0] rng pos lim by (simp add: wd_def)
    show "wd a AND 7 = 0" by (rule wd_aligned [OF q(5)])
    have "apart (wd a) (wd ?c)" using H(10,11,8) rng q(3) by (intro apart_wd) auto
    then show "apart (wd a) (control st)" by (simp add: wd_unat)
    show "apart (wd a) x" if x: "x \<in> members L" for x
    proof -
      obtain z t where z: "x = wd z" "(z, t) \<in> F" using member_addr [OF H(2) x] by auto
      have zf: "(z, t) \<in> fblocks lo bs" using z(2) H(3) by auto
      have "24 \<le> t" using fblock_header [OF H(5,7) zf] by simp
      then have "a + 24 \<le> z \<or> z + 24 \<le> a" using blocks_apart [of a s lo bs z t] a zf z(2) q(3) by auto
      then show ?thesis unfolding z(1) using rng fblocks_range [OF zf] H(8) q(3) \<open>24 \<le> t\<close> by (intro apart_wd) auto
    qed
    show "tmem st (f_prev (wd a)) \<noteq> None" "tmem st (f_next (wd a)) \<noteq> None"
      using H(9) [of "a + 24"] H(9) [of "a + 16"] rng q(3,5) by auto
  qed
  let ?st = "inserted st (wd a) k l" and ?L = "upd L k l (wd a # L k l)"
  have run: "block_insert (wd a) st = Done ?st"
    using insert_free_block_run [OF H(1) kl(2,3) enter] by (simp add: block_insert_def size kl(1))
  have held: "held ?L (insert (a, s) F)"
    using H(2) kl unfolding held_def
    by (intro allI impI) (rename_tac k' l', case_tac "(k', l') = (k, l)", auto)
  let ?cur = "blocks st ! k ! l"
  have cur: "?cur = control st \<or> ?cur \<in> members L"
    using D(7) [OF kl(2,3)] in_members [OF kl(2,3), of ?cur L] by (cases "L k l") auto
  have F: "insert (a, s) F \<subseteq> fblocks lo bs" using H(3) a(1) by auto
  have same: "tmem ?st (wd x) = tmem st (wd x)" if x: "x < 2 ^ 64" "x \<notin> links_of ?c (insert (a, s) F)" for x
  proof -
    have x': "x \<notin> links_of ?c F" "x \<noteq> a + 16" "x \<noteq> a + 24" using x(2) by (auto simp: links_of_def)
    then have "wd x \<noteq> wd (a + 16)" "wd x \<noteq> wd (a + 24)" using x(1) wd_eq [of x "a + 16"] wd_eq [of x "a + 24"] rng q(3) H(8) by auto
    then show ?thesis using link_word(2) [OF H(2,6,3) cur x(1) x'(1)] by (simp add: inserted_def Let_def)
  qed
  have "control ?st = control st" "tmem st x \<noteq> None \<Longrightarrow> tmem ?st x \<noteq> None" for x
    by (simp_all add: inserted_def Let_def)
  then show ?thesis
    using lists_step [OF heap inserted_rep [OF H(1) kl(2,3) enter] held F F] same run by metis
qed

lemma leave_block:
  assumes heap: "heap_rep st L lo bs F" and a: "(a, s) \<in> F"
  shows "\<exists>st' L'. block_remove (wd a) st = Done st' \<and> heap_rep st' L' lo bs (F - {(a, s)}) \<and>
    untouched (safe (unat (control st)) lo bs) st st'"
proof -
  note H = heap_repD [OF heap]
  have af: "(a, s) \<in> fblocks lo bs" using a H(3) by auto
  from fblock_header [OF H(5,7) af] obtain q where q: "tmem st (wd (a + 8)) = Some (hdr s True q)" "8 dvd s" "s < 2 ^ 32"
    by auto
  obtain k l where kl: "mapping_insert (wd s) = (k, l)" "k < 25" "l < 32"
    using mapping_insert_range [of "wd s" 0] q(3) unat_wd [of s] by (cases "mapping_insert (wd s)") (auto simp: tlsf_consts)
  have "wd a \<in> set (L k l)" using H(2) kl a by (auto simp: held_def)
  then obtain xs ys where L: "L k l = xs @ wd a # ys" by (auto dest: split_list)
  have run: "block_remove (wd a) st = Done (removed st k l xs ys)"
    using remove_free_block_run [OF H(1) kl(2,3) L] header_ops(1) [OF q(1,2)] by (simp add: block_remove_def kl(1))
  from leave_list [OF heap kl(2,3) L] obtain b t where b: "wd a = wd b" "(b, t) \<in> F"
    "heap_rep (removed st k l xs ys) (upd L k l (xs @ ys)) lo bs (F - {(b, t)})"
    "untouched (safe (unat (control st)) lo bs) st (removed st k l xs ys)" by auto
  have "end_of lo bs < 2 ^ 64" using H(8) by simp
  from same_address [OF H(3) this a b(2,1)] b(3,4) run show ?thesis by auto
qed

section \<open>Writing boundary tags\<close>

lemma end_of_aligned: "pre m a pf xs \<Longrightarrow> 8 dvd a \<Longrightarrow> 8 dvd end_of a xs"
  by (induction m a pf xs rule: pre.induct) auto

lemma split_heap:
  assumes "heap_rep st L lo (xs @ (s, f) # ys) F" "a = end_of lo xs" "n = a + 8 + s"
  shows "tmem st (wd (a + 8)) = Some (hdr s f (last_free False xs))" "24 \<le> s" "8 dvd s" "s < 2 ^ 32" "s < 2 ^ 64" "8 dvd a" "lo \<le> a"
    "n \<le> end_of n ys" "end_of n ys + 32 < 2 ^ 64" "end_of n ys < lo + 8 + 2 ^ 32" "pre (tmem st) lo False xs" "phys_rep (tmem st) n f ys"
    "f \<Longrightarrow> tmem st (wd n) = Some (wd a)" "tmem st (wd n) \<noteq> None" "8 dvd n" "tmem st (wd (n + 8)) \<noteq> None"
proof -
  note H = heap_repD [OF assms(1)]
  have p: "pre (tmem st) lo False xs" "phys_rep (tmem st) a (last_free False xs) ((s, f) # ys)"
    using H(4) by (simp_all add: phys_rep_append assms(2))
  then show "pre (tmem st) lo False xs" by simp
  show w: "tmem st (wd (a + 8)) = Some (hdr s f (last_free False xs))" "24 \<le> s" "8 dvd s" "s < 2 ^ 32" "phys_rep (tmem st) n f ys"
    "f \<Longrightarrow> tmem st (wd n) = Some (wd a)"
    using p(2) by (simp_all add: phys_rep_Cons assms(3))
  show "s < 2 ^ 64" using w(4) by simp
  show a: "8 dvd a" using end_of_aligned [OF p(1) H(7)] assms(2) by simp
  show lo: "lo \<le> a" by (simp add: assms(2) end_of_ge)
  show n: "n \<le> end_of n ys" by (rule end_of_ge)
  show e: "end_of n ys + 32 < 2 ^ 64" "end_of n ys < lo + 8 + 2 ^ 32"
    using H(6) by (simp_all add: placed_pool_def assms(2,3))
  show "8 dvd n" using a w(3) by (simp add: assms(3))
  moreover from this have "8 dvd n + 8" by simp
  moreover have "end_of lo (xs @ (s, f) # ys) = end_of n ys" by (simp add: assms(2,3))
  ultimately show "tmem st (wd n) \<noteq> None" "tmem st (wd (n + 8)) \<noteq> None"
    using H(9) [of n] H(9) [of "n + 8"] n lo by (simp_all add: assms(3))
qed

lemma lists_putw:
  assumes "lists_rep st L" "held L F" "placed_pool st lo (end_of lo bs)" "F \<subseteq> fblocks lo bs"
    and "control st' = control st" "fl_bitmap st' = fl_bitmap st" "sl_bitmap st' = sl_bitmap st" "blocks st' = blocks st"
    and same: "\<And>x. x \<in> links_of (unat (control st)) F \<Longrightarrow> tmem st' (wd x) = tmem st (wd x)"
  shows "lists_rep st' L"
proof -
  note D = lists_repD [OF assms(1)]
  have m: "tmem st' (f_prev b) = tmem st (f_prev b) \<and> tmem st' (f_next b) = tmem st (f_next b)"
    if b: "b = control st \<or> b \<in> members L" for b
  proof (cases "b = control st")
    case True
    then have "b = wd (unat (control st))" by (simp add: wd_unat)
    then show ?thesis using same [of "unat (control st) + 16"] same [of "unat (control st) + 24"] by (simp add: links_of_def)
  next
    case False
    then obtain y s where y: "b = wd y" "(y, s) \<in> F" using b member_addr [OF assms(2)] by blast
    have "y + 16 \<in> links_of (unat (control st)) F" "y + 24 \<in> links_of (unat (control st)) F"
      using y(2) unfolding links_of_def by blast+
    then show ?thesis using same y(1) by simp
  qed
  have dl: "dl (tmem st') (control st) (control st) (L i j)" if "i < 25" "j < 32" for i j
    by (rule dl_frame [OF D(8) [OF that]]) (use m in_members [OF that] in blast)
  show ?thesis
    using assms(1) m [of "control st"] dl unfolding lists_rep_def assms(5-8) by simp
qed

text \<open>An operation that writes the words \<open>W\<close> of the layout and leaves the lists alone.\<close>

lemma tags_step:
  assumes heap: "heap_rep st L lo bs F" and st': "st' = st\<lparr>tmem := m'\<rparr>"
    and same: "\<And>x. x < 2 ^ 64 \<Longrightarrow> x \<notin> W \<Longrightarrow> m' (wd x) = tmem st (wd x)" and ex: "\<And>x. tmem st x \<noteq> None \<Longrightarrow> m' x \<noteq> None"
    and new: "phys_rep m' lo False bs'" "end_of lo bs' = end_of lo bs" "F \<subseteq> fblocks lo bs'"
    and W: "W \<inter> links_of (unat (control st)) F = {}"
  shows "heap_rep st' L lo bs' F" "S \<inter> W = {} \<Longrightarrow> (\<And>x. x \<in> S \<Longrightarrow> x < 2 ^ 64) \<Longrightarrow> untouched S st st'"
proof -
  note H = heap_repD [OF heap]
  have f: "control st' = control st" "fl_bitmap st' = fl_bitmap st" "sl_bitmap st' = sl_bitmap st" "blocks st' = blocks st" "tmem st' = m'"
    by (simp_all add: st')
  have "lists_rep st' L"
  proof (rule lists_putw [OF H(1,2,6,3) f(1-4)])
    fix x assume x: "x \<in> links_of (unat (control st)) F"
    have "x < 2 ^ 64" by (rule links_outside(3) [OF H(6,5,3) x])
    moreover have "x \<notin> W" using x W by blast
    ultimately show "tmem st' (wd x) = tmem st (wd x)" using same by (simp add: st')
  qed
  moreover have "placed_pool st' lo (end_of lo bs')" using H(6) ex by (simp add: placed_pool_def f new(2))
  ultimately show "heap_rep st' L lo bs' F" using H(2) new by (simp add: heap_rep_def f)
  show "S \<inter> W = {} \<Longrightarrow> (\<And>x. x \<in> S \<Longrightarrow> x < 2 ^ 64) \<Longrightarrow> untouched S st st'"
    using same by (auto simp: untouched_def f)
qed

lemma safe_less: "x \<in> safe c lo bs \<Longrightarrow> end_of lo bs < 2 ^ 64 \<Longrightarrow> x < 2 ^ 64"
  using payload_range [of x lo bs] by (auto simp: safe_def)

lemma safe_disjoint:
  assumes "pre m lo pf bs" "W \<subseteq> layout lo bs" "W \<subseteq> {lo + 8 .. end_of lo bs + 8}"
  shows "safe c lo bs \<inter> W = {}"
  using payload_layout [OF assms(1)] assms(2,3) by (fastforce simp: safe_def)

lemma layout_append: "layout (end_of lo xs) zs \<subseteq> layout lo (xs @ zs)"
  by (induction lo xs rule: end_of.induct) auto

lemma head_layout: "n + 8 \<in> layout n ys"
  by (cases ys) auto

text \<open>The words written belong to the layout of \<open>bz\<close>, the blocks before or after the step.\<close>

lemma tags_done:
  assumes heap: "heap_rep st L lo bs F" and st': "st' = st\<lparr>tmem := m'\<rparr>"
    and same: "\<And>x. x < 2 ^ 64 \<Longrightarrow> x \<notin> W \<Longrightarrow> m' (wd x) = tmem st (wd x)" and ex: "\<And>x. tmem st x \<noteq> None \<Longrightarrow> m' x \<noteq> None"
    and new: "phys_rep m' lo False bs'" "end_of lo bs' = end_of lo bs" "F \<subseteq> fblocks lo bs'"
    and bz: "bz = bs \<or> bz = bs'" and W: "W \<subseteq> layout (end_of lo xs) zs" "bz = xs @ zs"
  shows "heap_rep st' L lo bs' F" "untouched (safe (unat (control st)) lo bz) st st'"
proof -
  note H = heap_repD [OF heap]
  have z: "\<exists>mz. pre mz lo False bz" "end_of lo bz = end_of lo bs" "F \<subseteq> fblocks lo bz"
    using bz H(3,5) new by (auto simp: phys_rep_def)
  then obtain mz where mz: "pre mz lo False bz" by blast
  have lay: "W \<subseteq> layout lo bz" using W layout_append by blast
  have links: "W \<inter> links_of (unat (control st)) F = {}"
    using links_outside(1) [OF _ mz z(3), of st] H(6) z(2) lay by auto
  note step = tags_step [OF heap st' same ex new links]
  show "heap_rep st' L lo bs' F" by (rule step(1))
  show "untouched (safe (unat (control st)) lo bz) st st'"
  proof (rule step(2))
    have "W \<subseteq> {lo + 8 .. end_of lo bz + 8}" using lay layout_range by fastforce
    then show "safe (unat (control st)) lo bz \<inter> W = {}" by (rule safe_disjoint [OF mz lay])
    show "x < 2 ^ 64" if "x \<in> safe (unat (control st)) lo bz" for x
      using safe_less [OF that] z(2) H(8) by simp
  qed
qed

lemma mark_used:
  assumes heap: "heap_rep st L lo (xs @ (s, True) # ys) F" and a: "a = end_of lo xs" "(a, s) \<notin> F"
  shows "\<exists>st'. block_mark_as_used (wd a) st = Done st' \<and> heap_rep st' L lo (xs @ (s, False) # ys) F \<and>
    untouched (safe (unat (control st)) lo (xs @ (s, True) # ys)) st st'"
proof -
  define n where "n = a + 8 + s"
  let ?bs = "xs @ (s, True) # ys" and ?c = "unat (control st)"
  note H = heap_repD [OF heap]
  note B = split_heap [OF heap a(1) n_def]
  have e: "end_of n ys + 8 < 2 ^ 64" using B(9) by linarith
  obtain t g where nx: "tmem st (wd (n + 8)) = Some (hdr t g True)" "8 dvd t"
    "\<And>q. phys_rep ((tmem st)(wd (n + 8) \<mapsto> hdr t g q)) n q ys"
    using head_flag [OF B(12) e] by blast
  let ?q = "last_free False xs"
  define m' where "m' = (tmem st)(wd (n + 8) \<mapsto> hdr t g False, wd (a + 8) \<mapsto> hdr s False ?q)"
  define st' where "st' = st\<lparr>tmem := m'\<rparr>"
  have ne: "wd (a + 8) \<noteq> wd (n + 8)" by (rule wd_neq) (use B(2,8,9) n_def in linarith)+
  have "block_next (wd a) st = Done (wd n)" using next_ops(2) [OF B(1,3) _ B(5)] B(2) by (simp add: n_def)
  then have run: "block_mark_as_used (wd a) st = Done st'"
    using header_ops(7) [OF nx(1,2)] header_ops(5) [of "putw (n + 8) (hdr t g False) st" a s True ?q] B(1,3) ne
    by (simp add: block_mark_as_used_def st'_def m'_def putw_def)
  have same: "m' (wd x) = tmem st (wd x)" if "x < 2 ^ 64" "x \<notin> {a + 8, n + 8}" for x
    using that wd_neq [of x "a + 8"] wd_neq [of x "n + 8"] B(8,9) n_def by (simp add: m'_def)
  have far: "x < 2 ^ 64" if "x \<le> end_of n ys + 8" for x using that e by linarith
  have "pre m' lo False xs"
    by (rule pre_frame [OF B(11)]) (use a(1) n_def far B(8) in \<open>intro same; auto\<close>)
  moreover have "phys_rep m' n False ys"
  proof (rule phys_rep_frame [OF nx(3) [of False]])
    fix x assume x: "x \<in> layout n ys"
    have "wd x \<noteq> wd (a + 8)" by (rule wd_neq) (use layout_range [OF x] far B(2,8,9) n_def in auto)
    then show "m' (wd x) = ((tmem st)(wd (n + 8) \<mapsto> hdr t g False)) (wd x)" by (simp add: m'_def)
  qed
  ultimately have phys: "phys_rep m' lo False (xs @ (s, False) # ys)"
    using B(2-4) by (simp add: phys_rep_append phys_rep_Cons n_def [symmetric] a(1) [symmetric]) (simp add: m'_def)
  have F: "F \<subseteq> fblocks lo (xs @ (s, False) # ys)" using H(3) a by auto
  have W: "{a + 8, n + 8} \<subseteq> layout (end_of lo xs) ((s, True) # ys)"
    using head_layout [of n ys] by (simp add: a(1) [symmetric] n_def)
  have "end_of lo (xs @ (s, False) # ys) = end_of lo ?bs" "\<And>x. tmem st x \<noteq> None \<Longrightarrow> m' x \<noteq> None" by (simp_all add: m'_def)
  from tags_done [OF heap st'_def same this(2) phys this(1) F disjI1 [OF refl] W refl] run show ?thesis by blast
qed

lemma mark_free:
  assumes heap: "heap_rep st L lo (xs @ (s, False) # ys) F" and a: "a = end_of lo xs"
  shows "\<exists>st'. block_mark_as_free (wd a) st = Done st' \<and> heap_rep st' L lo (xs @ (s, True) # ys) F \<and>
    untouched (safe (unat (control st)) lo (xs @ (s, True) # ys)) st st'"
proof -
  define n where "n = a + 8 + s"
  let ?bs = "xs @ (s, True) # ys"
  note H = heap_repD [OF heap]
  note B = split_heap [OF heap a n_def]
  have e: "end_of n ys + 8 < 2 ^ 64" using B(9) by linarith
  obtain t g where nx: "tmem st (wd (n + 8)) = Some (hdr t g False)" "8 dvd t"
    "\<And>q. phys_rep ((tmem st)(wd (n + 8) \<mapsto> hdr t g q)) n q ys"
    using head_flag [OF B(12) e] by blast
  let ?q = "last_free False xs"
  define m' where "m' = (tmem st)(wd n \<mapsto> wd a, wd (n + 8) \<mapsto> hdr t g True, wd (a + 8) \<mapsto> hdr s True ?q)"
  define st' where "st' = st\<lparr>tmem := m'\<rparr>"
  have ne: "wd (a + 8) \<noteq> wd (n + 8)" "wd (a + 8) \<noteq> wd n" "wd (n + 8) \<noteq> wd n"
    by (rule wd_neq; use B(2,8,9) n_def in linarith)+
  note ne = ne ne [symmetric]
  have "block_link_next (wd a) st = Done (wd n, putw n (wd a) st)"
    using next_ops(3) [OF B(1,3) _ B(5)] B(2,14) by (simp add: n_def)
  then have run: "block_mark_as_free (wd a) st = Done st'"
    using header_ops(6) [of "putw n (wd a) st" n t g False] nx(1,2)
      header_ops(4) [of "putw (n + 8) (hdr t g True) (putw n (wd a) st)" a s False ?q] B(1,3) ne
    by (simp add: block_mark_as_free_def st'_def m'_def putw_def)
  have same: "m' (wd x) = tmem st (wd x)" if "x < 2 ^ 64" "x \<notin> {a + 8, n, n + 8}" for x
    using that wd_neq [of x "a + 8"] wd_neq [of x n] wd_neq [of x "n + 8"] B(8,9) n_def by (simp add: m'_def)
  have far: "x < 2 ^ 64" if "x \<le> end_of n ys + 8" for x using that e by linarith
  have "pre m' lo False xs"
    by (rule pre_frame [OF B(11)]) (use a n_def far B(8) in \<open>intro same; auto\<close>)
  moreover have "phys_rep m' n True ys"
  proof (rule phys_rep_frame [OF nx(3) [of True]])
    fix x assume x: "x \<in> layout n ys"
    have "wd x \<noteq> wd (a + 8)" "wd x \<noteq> wd n" by (rule wd_neq; use layout_range [OF x] far B(2,8,9) n_def in auto)+
    then show "m' (wd x) = ((tmem st)(wd (n + 8) \<mapsto> hdr t g True)) (wd x)" by (simp add: m'_def)
  qed
  ultimately have phys: "phys_rep m' lo False ?bs"
    using B(2-4) ne by (simp add: phys_rep_append phys_rep_Cons n_def [symmetric] a(1) [symmetric]) (simp add: m'_def)
  have F: "F \<subseteq> fblocks lo ?bs" using H(3) by auto
  have W: "{a + 8, n, n + 8} \<subseteq> layout (end_of lo xs) ((s, True) # ys)"
    using head_layout [of n ys] by (simp add: a(1) [symmetric] n_def)
  have "end_of lo ?bs = end_of lo (xs @ (s, False) # ys)" "\<And>x. tmem st x \<noteq> None \<Longrightarrow> m' x \<noteq> None" by (simp_all add: m'_def)
  from tags_done [OF heap st'_def same this(2) phys this(1) F disjI2 [OF refl] W refl] run show ?thesis by blast
qed

lemma absorb:
  assumes heap: "heap_rep st L lo (xs @ (s, True) # (t, True) # ys) F" and a: "a = end_of lo xs" "(a, s) \<notin> F" "(a + 8 + s, t) \<notin> F"
  shows "\<exists>st'. block_absorb (wd a) (wd (a + 8 + s)) st = Done (wd a, st') \<and> heap_rep st' L lo (xs @ (s + 8 + t, True) # ys) F \<and>
    untouched (safe (unat (control st)) lo (xs @ (s + 8 + t, True) # ys)) st st'"
proof -
  define b n where "b = a + 8 + s" and "n = b + 8 + t"
  let ?bs = "xs @ (s + 8 + t, True) # ys" and ?q = "last_free False xs"
  note H = heap_repD [OF heap]
  note B = split_heap [OF heap a(1) b_def]
  have heap2: "heap_rep st L lo ((xs @ [(s, True)]) @ (t, True) # ys) F" using heap by simp
  have b2: "b = end_of lo (xs @ [(s, True)])" by (simp add: b_def a(1))
  note C = split_heap [OF heap2 b2 n_def]
  define m' where "m' = (tmem st)(wd (a + 8) \<mapsto> hdr (s + 8 + t) True ?q, wd n \<mapsto> wd a)"
  define st' where "st' = st\<lparr>tmem := m'\<rparr>"
  have big: "8 dvd s + 8 + t" "0 < s + 8 + t" "s + 8 + t < 2 ^ 64" "s + 8 + t < 2 ^ 32"
    using B(3,7) C(3,8,9,10) n_def b_def by auto
  have ne: "wd (a + 8) \<noteq> wd n" by (rule wd_neq) (use B(2) C(8,9) b_def n_def in linarith)+
  let ?st1 = "putw (a + 8) (hdr (s + 8 + t) True ?q) st"
  have "block_size (wd b) st = Done (wd t)" by (rule header_ops [OF C(1,3)])
  moreover have "block_is_last (wd a) st = Done False" using next_ops(1) [OF B(1,3) _ B(5)] B(2) by simp
  moreover have "load (f_size (wd a)) st = Done (hdr s True ?q)" using load_word [OF B(1)] by simp
  moreover have "store (f_size (wd a)) (hdr s True ?q + (wd t + block_header_overhead)) st = Done ?st1"
    unfolding hdr_absorb [OF B(3) C(3)] wd_fields by (rule store_putw) (simp add: B(1))
  moreover have "block_link_next (wd a) ?st1 = Done (wd n, st')"
    using next_ops(3) [of ?st1 a "s + 8 + t" True ?q, OF _ big(1-3)] C(14) ne
    by (simp add: n_def b_def algebra_simps st'_def m'_def putw_def)
  ultimately have run: "block_absorb (wd a) (wd b) st = Done (wd a, st')"
    by (simp add: block_absorb_def tlsf_assert_def)
  have same: "m' (wd x) = tmem st (wd x)" if "x < 2 ^ 64" "x \<notin> {a + 8, n}" for x
    using that wd_neq [of x "a + 8"] wd_neq [of x n] C(8,9) n_def b_def by (simp add: m'_def)
  have far: "x < 2 ^ 64" if "x \<le> end_of n ys + 8" for x using that C(9) by linarith
  have "pre m' lo False xs"
    by (rule pre_frame [OF B(11)]) (use a(1) n_def b_def far C(8) in \<open>intro same; auto\<close>)
  moreover have "phys_rep m' n True ys"
    by (rule phys_rep_frame [OF C(12)]) (use n_def b_def far layout_range in \<open>intro same; fastforce\<close>)
  moreover have n': "a + 8 + (s + 8 + t) = n" by (simp add: n_def b_def)
  ultimately have phys: "phys_rep m' lo False ?bs"
    using B(2,3) C(2,3) ne big by (simp add: phys_rep_append phys_rep_Cons n' a(1) [symmetric] del: add.assoc) (simp add: m'_def)
  have F: "F \<subseteq> fblocks lo ?bs" using H(3) a by (auto simp: algebra_simps)
  have W: "{a + 8, n} \<subseteq> layout (end_of lo xs) ((s + 8 + t, True) # ys)" by (simp add: a(1) [symmetric] n')
  have "end_of lo ?bs = end_of lo (xs @ (s, True) # (t, True) # ys)" "\<And>x. tmem st x \<noteq> None \<Longrightarrow> m' x \<noteq> None"
    by (simp_all add: m'_def algebra_simps)
  from tags_done [OF heap st'_def same this(2) phys this(1) F disjI2 [OF refl] W refl] run show ?thesis unfolding b_def by blast
qed

text \<open>Splitting a free block that is in no list: the part behind the first \<open>r\<close> bytes is entered.\<close>

lemma split_block:
  assumes heap: "heap_rep st L lo (xs @ (s, True) # ys) F" and a: "a = end_of lo xs" "(a, s) \<notin> F"
    and r: "24 \<le> r" "8 dvd r" "32 + r \<le> s" and b: "b = a + 8 + r" and u: "u = s - 8 - r"
  shows "\<exists>st1 st2 st3. block_split (wd a) (wd r) st = Done (wd b, st1) \<and> block_link_next (wd a) st1 = Done (wd b, st2) \<and>
    block_set_prev_free (wd b) st2 = Done st3 \<and> heap_rep st3 L lo (xs @ (r, True) # (u, True) # ys) F \<and>
    untouched (safe (unat (control st)) lo (xs @ (r, True) # (u, True) # ys)) st st3"
proof -
  define n where "n = a + 8 + s"
  let ?bs = "xs @ (r, True) # (u, True) # ys" and ?q = "last_free False xs"
  note H = heap_repD [OF heap]
  note B = split_heap [OF heap a(1) n_def]
  have e: "end_of n ys + 8 < 2 ^ 64" using B(9) by linarith
  have n: "n = b + 8 + u" "24 \<le> u" using r(3) b u n_def by auto
  have u8: "8 dvd u" "u < 2 ^ 32" "8 dvd b" "r < 2 ^ 32" "r < 2 ^ 64" "u < 2 ^ 64"
  proof -
    have "8 dvd s - 8" using B(3) by (rule dvd_diff_nat) simp
    then show "8 dvd u" unfolding u using r(2) by (rule dvd_diff_nat)
    show "8 dvd b" using B(6) r(2) by (simp add: b)
  qed (use u r(3) B(4,5) in linarith)+
  obtain t g where nx: "tmem st (wd (n + 8)) = Some (hdr t g True)" "8 dvd t"
    "\<And>q. phys_rep ((tmem st)(wd (n + 8) \<mapsto> hdr t g q)) n q ys"
    using head_flag [OF B(12) e] by blast
  have en0: "end_of lo (xs @ (s, True) # ys) = end_of n ys" by (simp add: a(1) [symmetric] n_def)
  have "8 dvd b + 8" using u8(3) by simp
  moreover have "lo + 8 \<le> b + 8" "b + 8 \<le> end_of lo (xs @ (s, True) # ys) + 8"
    unfolding en0 using B(7,8) b n by linarith+
  ultimately obtain v where v: "tmem st (wd (b + 8)) = Some v" using H(9) by blast
  have "lo + 8 \<le> b" "b \<le> end_of lo (xs @ (s, True) # ys) + 8"
    unfolding en0 using B(7,8) b n r(1) by linarith+
  with u8(3) have vb: "tmem st (wd b) \<noteq> None" using H(9) by blast
  have ne: "wd (a + 8) \<noteq> wd b" "wd (a + 8) \<noteq> wd (b + 8)" "wd (a + 8) \<noteq> wd n" "wd (a + 8) \<noteq> wd (n + 8)"
    "wd b \<noteq> wd (b + 8)" "wd b \<noteq> wd n" "wd b \<noteq> wd (n + 8)" "wd (b + 8) \<noteq> wd n" "wd (b + 8) \<noteq> wd (n + 8)" "wd n \<noteq> wd (n + 8)"
    by (rule wd_neq; use B(8,9) b n r(1) in linarith)+
  note ne = ne ne [symmetric]
  define s1 where "s1 = putw (b + 8) (hdr u (bit v 0) (bit v 1)) st"
  define s2 where "s2 = putw (a + 8) (hdr r True ?q) s1"
  define s3 where "s3 = putw (n + 8) (hdr t g True) (putw n (wd b) s2)"
  define s4 where "s4 = putw (b + 8) (hdr u True (bit v 1)) s3"
  define s5 where "s5 = putw b (wd a) s4"
  define s6 where "s6 = putw (b + 8) (hdr u True True) s5"
  note mem = s1_def s2_def s3_def s4_def s5_def s6_def
  have remaining: "offset_to_block (block_to_ptr (wd a)) (wd r - block_header_overhead) = wd b"
    using wd_offset [of a r] by (simp add: b)
  have size: "wd s - (wd r + block_header_overhead) = wd u" "wd s = wd u + wd r + block_header_overhead"
  proof -
    have "wd s = wd u + wd r + block_header_overhead" using r(3) u by (simp add: wd_def block_header_overhead_def of_nat_diff)
    then show "wd s = wd u + wd r + block_header_overhead" "wd s - (wd r + block_header_overhead) = wd u" by simp_all
  qed
  have set1: "block_set_size (wd b) (wd u) st = Done s1"
    using v hdr_resize [OF u8(1), of v] by (simp add: block_set_size_def load_word store_putw s1_def)
  have "tmem s1 (wd (b + 8)) = Some (hdr u (bit v 0) (bit v 1))" by (simp add: s1_def)
  then have size1: "block_size (wd b) s1 = Done (wd u)" using u8(1) by (rule header_ops)
  have "block_size_min \<le> wd u" using n(2) u8(6) by (simp add: block_size_min_def word_le_nat_alt unat_wd)
  moreover have "tmem s1 (wd (a + 8)) = Some (hdr s True ?q)" using B(1) ne by (simp add: s1_def)
  from header_ops(8) [OF this B(3) r(2)] have "block_set_size (wd a) (wd r) s1 = Done s2" by (simp add: s2_def)
  moreover have "block_mark_as_free (wd b) s2 = Done s4"
  proof -
    have h: "tmem s2 (wd (b + 8)) = Some (hdr u (bit v 0) (bit v 1))" using ne by (simp add: s2_def s1_def)
    have "tmem s2 (wd n) \<noteq> None" using B(14) ne by (simp add: s2_def s1_def)
    then have "block_link_next (wd b) s2 = Done (wd n, putw n (wd b) s2)"
      using next_ops(3) [OF h u8(1) _ u8(6)] n by simp
    moreover have "tmem (putw n (wd b) s2) (wd (n + 8)) = Some (hdr t g True)" using nx(1) ne by (simp add: s2_def s1_def)
    from header_ops(6) [OF this nx(2)] have "block_set_prev_free (wd n) (putw n (wd b) s2) = Done s3" by (simp add: s3_def)
    moreover have "tmem s3 (wd (b + 8)) = Some (hdr u (bit v 0) (bit v 1))" using ne h by (simp add: s3_def)
    from header_ops(4) [OF this u8(1)] have "block_set_free (wd b) s3 = Done s4" by (simp add: s4_def)
    ultimately show ?thesis by (simp add: block_mark_as_free_def)
  qed
  ultimately have split: "block_split (wd a) (wd r) st = Done (wd b, s4)"
    using header_ops(1) [OF B(1,3)] aligned_ptr [OF wd_aligned [OF u8(3)]] size set1 size1
    unfolding block_split_def remaining by (simp add: tlsf_assert_def)
  have ha: "tmem s4 (wd (a + 8)) = Some (hdr r True ?q)" using ne by (simp add: s4_def s3_def s2_def)
  have link: "block_link_next (wd a) s4 = Done (wd b, s5)"
    using next_ops(3) [OF ha r(2) _ u8(5)] r(1) vb ne by (simp add: b [symmetric] s5_def mem)
  have "tmem s5 (wd (b + 8)) = Some (hdr u True (bit v 1))" using ne by (simp add: s5_def s4_def)
  from header_ops(6) [OF this u8(1)] have flag: "block_set_prev_free (wd b) s5 = Done s6" by (simp add: s6_def)
  define m' where "m' = tmem s6"
  have s6: "s6 = st\<lparr>tmem := m'\<rparr>" by (simp add: m'_def mem putw_def)
  have m: "m' (wd (a + 8)) = Some (hdr r True ?q)" "m' (wd b) = Some (wd a)" "m' (wd (b + 8)) = Some (hdr u True True)"
    "m' (wd n) = Some (wd b)" "m' (wd (n + 8)) = Some (hdr t g True)"
    using ne by (simp_all add: m'_def mem)
  have same: "m' (wd x) = tmem st (wd x)" if "x < 2 ^ 64" "x \<notin> {a + 8, b, b + 8, n, n + 8}" for x
    using that wd_neq [of x "a + 8"] wd_neq [of x b] wd_neq [of x "b + 8"] wd_neq [of x n] wd_neq [of x "n + 8"] B(8,9) b n
    by (simp add: m'_def mem)
  have far: "x < 2 ^ 64" if "x \<le> end_of n ys + 8" for x using that e by linarith
  have "pre m' lo False xs"
    by (rule pre_frame [OF B(11)]) (use a(1) b n far B(8) in \<open>intro same; auto\<close>)
  moreover have "phys_rep m' n True ys"
  proof (rule phys_rep_frame [OF nx(3) [of True]])
    fix x assume x: "x \<in> layout n ys"
    show "m' (wd x) = ((tmem st)(wd (n + 8) \<mapsto> hdr t g True)) (wd x)"
    proof (cases "x = n + 8")
      case False
      then have "wd x \<noteq> wd (n + 8)" by (rule wd_neq [rotated 2]) (use layout_range [OF x] far in auto)
      with False show ?thesis using same [of x] layout_range [OF x] far b n by simp
    qed (simp add: m)
  qed
  ultimately have phys: "phys_rep m' lo False ?bs"
    using m r(1,2) n(2) u8 by (simp add: phys_rep_append phys_rep_Cons a(1) [symmetric] b [symmetric] n(1) [symmetric])
  have en: "end_of lo ?bs = end_of n ys" by (simp add: a(1) [symmetric] b [symmetric] n(1) [symmetric])
  have "fblocks lo (xs @ (s, True) # ys) = fblocks lo xs \<union> {(a, s)} \<union> fblocks n ys"
    by (simp add: a(1) [symmetric] n_def)
  moreover have "fblocks lo ?bs = fblocks lo xs \<union> {(a, r), (b, u)} \<union> fblocks n ys"
    by (auto simp: a(1) [symmetric] b [symmetric] n(1) [symmetric])
  ultimately have F: "F \<subseteq> fblocks lo ?bs" using H(3) a(2) by blast
  have W: "{a + 8, b, b + 8, n, n + 8} \<subseteq> layout (end_of lo xs) ((r, True) # (u, True) # ys)"
    using head_layout [of n ys] by (simp add: a(1) [symmetric] b [symmetric] n(1) [symmetric])
  have "end_of lo ?bs = end_of lo (xs @ (s, True) # ys)" unfolding en by (simp add: a(1) [symmetric] n_def)
  moreover have "\<And>x. tmem st x \<noteq> None \<Longrightarrow> m' x \<noteq> None" by (simp add: m'_def mem)
  ultimately show ?thesis
    using tags_done [OF heap s6 same _ phys _ F disjI2 [OF refl] W refl] split link flag by blast
qed

section \<open>Taking a block\<close>

abbreviation coalesced :: "pblock list \<Rightarrow> bool" where
  "coalesced \<equiv> successively (\<lambda>x y. \<not> (snd x \<and> snd y))"

lemma safe_cong: "ublocks lo bs = ublocks lo bs' \<Longrightarrow> end_of lo bs = end_of lo bs' \<Longrightarrow> safe c lo bs = safe c lo bs'"
  by (simp add: safe_def payload_def)

lemma fblocks_split: "(a, s) \<in> fblocks lo bs \<Longrightarrow> \<exists>xs ys. bs = xs @ (s, True) # ys \<and> a = end_of lo xs"
proof (induction lo bs rule: fblocks.induct)
  case (2 b t f bs)
  consider "f" "a = b" "s = t" | "(a, s) \<in> fblocks (b + 8 + t) bs" using 2(2) by (auto split: if_splits)
  then show ?case
  proof cases
    case 1
    then have "(t, f) # bs = [] @ (s, True) # bs \<and> a = end_of b []" by simp
    then show ?thesis by blast
  next
    case rest: 2
    from 2(1) [OF rest] obtain xs ys where "bs = xs @ (s, True) # ys" "a = end_of (b + 8 + t) xs" by blast
    then have "(t, f) # bs = ((t, f) # xs) @ (s, True) # ys \<and> a = end_of b ((t, f) # xs)" by simp
    then show ?thesis by blast
  qed
qed simp

lemma ublocks_split: "(a, s) \<in> ublocks lo bs \<Longrightarrow> \<exists>xs ys. bs = xs @ (s, False) # ys \<and> a = end_of lo xs"
proof (induction lo bs rule: ublocks.induct)
  case (2 b t f bs)
  consider "\<not> f" "a = b" "s = t" | "(a, s) \<in> ublocks (b + 8 + t) bs" using 2(2) by (auto split: if_splits)
  then show ?case
  proof cases
    case 1
    then have "(t, f) # bs = [] @ (s, False) # bs \<and> a = end_of b []" by simp
    then show ?thesis by blast
  next
    case rest: 2
    from 2(1) [OF rest] obtain xs ys where "bs = xs @ (s, False) # ys" "a = end_of (b + 8 + t) xs" by blast
    then have "(t, f) # bs = ((t, f) # xs) @ (s, False) # ys \<and> a = end_of b ((t, f) # xs)" by simp
    then show ?thesis by blast
  qed
qed simp

lemma not_before: "(end_of lo xs, s) \<notin> fblocks lo xs" "(end_of lo xs, s) \<notin> ublocks lo xs"
  using fblocks_range [of "end_of lo xs" s lo xs] ublocks_range [of "end_of lo xs" s lo xs] by auto

lemma not_behind: "a < n \<Longrightarrow> (a, s) \<notin> fblocks n ys" "a < n \<Longrightarrow> (a, s) \<notin> ublocks n ys"
  using fblocks_range [of a s n ys] ublocks_range [of a s n ys] by auto

lemma heap_sized:
  assumes heap: "heap_rep st L lo bs F"
  shows "sized st L"
  unfolding sized_def
proof (intro allI impI ballI)
  fix k l b assume kl: "k < 25" "l < 32" "b \<in> set (L k l)"
  note H = heap_repD [OF heap]
  obtain y s where y: "b = wd y" "(y, s) \<in> F" "mapping_insert (wd s) = (k, l)" using H(2) kl by (auto simp: held_def)
  have "(y, s) \<in> fblocks lo bs" using y(2) H(3) by blast
  from fblock_header [OF H(5,7) this] show "\<exists>s. block_size b st = Done s \<and> mapping_insert s = (k, l)"
    using header_ops(1) y by blast
qed

lemma can_split_iff:
  assumes "tmem st (wd (a + 8)) = Some (hdr s f q)" "8 dvd s" "s < 2 ^ 32" "r \<le> s"
  shows "block_can_split (wd a) (wd r) st = Done (32 + r \<le> s)"
proof -
  have "block_header_size + wd r = wd (32 + r)" by (simp add: block_header_size_def wd_def)
  then show ?thesis
    using header_ops(1) [OF assms(1,2)] assms(3,4) by (simp add: block_can_split_def word_le_nat_alt unat_wd)
qed

lemma prepare_used:
  assumes heap: "heap_rep st L lo (xs @ (s, True) # ys) F" and a: "a = end_of lo xs" and F: "F = fblocks lo xs \<union> fblocks (a + 8 + s) ys"
    and r: "24 \<le> r" "8 dvd r" "r \<le> s" and c: "coalesced (xs @ (s, True) # ys)"
  shows "\<exists>st' L' zs t. block_prepare_used (Some (wd a)) (wd r) st = Done (Some (wd (a + 16)), st') \<and>
    heap_rep st' L' lo (xs @ (t, False) # zs) (fblocks lo (xs @ (t, False) # zs)) \<and> t = (if 32 + r \<le> s then r else s) \<and>
    ublocks (a + 8 + t) zs = ublocks (a + 8 + s) ys \<and> end_of (a + 8 + t) zs = end_of (a + 8 + s) ys \<and>
    coalesced (xs @ (t, False) # zs) \<and> untouched (safe (unat (control st)) lo (xs @ (s, True) # ys)) st st'"
proof -
  note B = split_heap [OF heap a refl]
  have r0: "wd r \<noteq> 0" using wd_eq [of r 0] r(1,3) B(5) by (simp add: wd_def)
  have out: "(a, t) \<notin> F" for t using not_before [of lo xs t] not_behind [of a "a + 8 + s" t ys] by (simp add: F a)
  have split_eq: "block_can_split (wd a) (wd r) st = Done (32 + r \<le> s)" by (rule can_split_iff [OF B(1,3,4) r(3)])
  have free: "block_is_free (wd a) st = Done True" by (rule header_ops [OF B(1,3)])
  show ?thesis
  proof (cases "32 + r \<le> s")
    case False
    then have trim: "block_trim_free (wd a) (wd r) st = Done st"
      using split_eq free by (simp add: block_trim_free_def tlsf_assert_def)
    from mark_used [OF heap a out] obtain st' where st': "block_mark_as_used (wd a) st = Done st'"
      "heap_rep st' L lo (xs @ (s, False) # ys) F" "untouched (safe (unat (control st)) lo (xs @ (s, True) # ys)) st st'" by blast
    have "coalesced (xs @ (s, False) # ys)" using c by (auto simp: successively_append_iff successively_Cons)
    moreover have "fblocks lo (xs @ (s, False) # ys) = F" by (simp add: F a)
    ultimately show ?thesis
      using st' trim r r0 False by (intro exI [of _ st'] exI [of _ L] exI [of _ ys] exI [of _ s]) (simp add: block_prepare_used_def tlsf_assert_def)
  next
    case True
    define b u where "b = a + 8 + r" and "u = s - 8 - r"
    let ?mid = "xs @ (r, True) # (u, True) # ys" and ?c = "unat (control st)"
    from split_block [OF heap a out r(1,2) True b_def u_def] obtain st1 st2 st3 where st3:
      "block_split (wd a) (wd r) st = Done (wd b, st1)" "block_link_next (wd a) st1 = Done (wd b, st2)"
      "block_set_prev_free (wd b) st2 = Done st3" "heap_rep st3 L lo ?mid F" "untouched (safe ?c lo ?mid) st st3" by blast
    have n: "b + 8 + u = a + 8 + s" using True by (simp add: b_def u_def)
    have bu: "(b, u) \<in> fblocks lo ?mid" by (simp add: a [symmetric] b_def)
    have ne: "(b, u) \<notin> F"
      using not_behind [of b "a + 8 + s" u ys] fblocks_range [of b u lo xs] r True by (auto simp: F a [symmetric] b_def)
    from enter_list [OF st3(4) bu ne] obtain st4 L' where st4: "block_insert (wd b) st3 = Done st4"
      "heap_rep st4 L' lo ?mid (insert (b, u) F)" "untouched (safe (unat (control st3)) lo ?mid) st3 st4" by blast
    have "(a, r) \<notin> insert (b, u) F" using out by (simp add: b_def)
    from mark_used [OF st4(2) a this] obtain st5 where st5: "block_mark_as_used (wd a) st4 = Done st5"
      "heap_rep st5 L' lo (xs @ (r, False) # (u, True) # ys) (insert (b, u) F)" "untouched (safe (unat (control st4)) lo ?mid) st4 st5" by blast
    have trim: "block_trim_free (wd a) (wd r) st = Done st4"
      using split_eq free True st3(1-3) st4(1) by (simp add: block_trim_free_def tlsf_assert_def)
    have "safe ?c lo ?mid = safe ?c lo (xs @ (s, True) # ys)"
      by (rule safe_cong) (simp_all add: a [symmetric] b_def [symmetric] n)
    moreover have "control st3 = control st" "control st4 = control st" using st3(5) st4(3) by (simp_all add: untouched_def)
    ultimately have un: "untouched (safe ?c lo (xs @ (s, True) # ys)) st st5"
      using untouched_trans [OF untouched_trans [OF st3(5)]] st4(3) st5(3) by auto
    have fb: "fblocks lo (xs @ (r, False) # (u, True) # ys) = insert (b, u) F"
      by (simp add: F a [symmetric] b_def [symmetric] n)
    have "coalesced (xs @ (r, False) # (u, True) # ys)" using c by (auto simp: successively_append_iff successively_Cons)
    then show ?thesis
      using st5 trim r r0 un fb True
      by (intro exI [of _ st5] exI [of _ L'] exI [of _ "(u, True) # ys"] exI [of _ r])
         (simp add: block_prepare_used_def tlsf_assert_def b_def [symmetric] n)
  qed
qed

end
