(* ===== verification/TlsfAlloc.thy ===== *)
theory TlsfAlloc
  imports TlsfHeap
begin

text \<open>
  Allocation and release in the heap of theory \<open>TlsfHeap\<close>: merging with the neighbours, and what
  \<^verbatim>\<open>tlsf_malloc\<close> and \<^verbatim>\<open>tlsf_free\<close> of \<^verbatim>\<open>mm/tlsf.c\<close> promise their callers.
\<close>

section \<open>Merging\<close>

definition head_free :: "pblock list \<Rightarrow> bool" where
  "head_free ys = (case ys of [] \<Rightarrow> False | (t, f) # _ \<Rightarrow> f)"

lemma head_free_simps [simp]: "\<not> head_free []" "head_free ((t, f) # ys) = f"
  by (simp_all add: head_free_def)

lemma last_free_cases: "last_free False xs \<Longrightarrow> \<exists>zs t. xs = zs @ [(t, True)]"
proof (cases xs rule: rev_cases)
  case (snoc zs b)
  moreover assume "last_free False xs"
  ultimately show ?thesis by (cases b) auto
qed simp

lemma next_header:
  assumes "phys_rep m n pf ys"
  shows "\<exists>t. m (wd (n + 8)) = Some (hdr t (head_free ys) pf) \<and> 8 dvd t"
proof (cases ys)
  case Nil
  with assms show ?thesis by (intro exI [of _ 0]) (simp add: phys_rep_def)
next
  case (Cons b zs)
  with assms show ?thesis by (cases b) (auto simp: phys_rep_Cons)
qed

lemma wd_nonzero: "0 < a \<Longrightarrow> a < 2 ^ 64 \<Longrightarrow> wd a \<noteq> 0"
  using wd_eq [of a 0] by (simp add: wd_def)

lemma merge_prev:
  assumes heap: "heap_rep st L lo (xs @ (s, True) # ys) F" and a: "a = end_of lo xs" and n: "n = a + 8 + s"
    and F: "F = fblocks lo xs \<union> fblocks n ys" and c: "coalesced xs"
  shows "\<exists>st' L' zs t. block_merge_prev (wd a) st = Done (wd (end_of lo zs), st') \<and>
    heap_rep st' L' lo (zs @ (t, True) # ys) (fblocks lo zs \<union> fblocks n ys) \<and> end_of lo zs + 8 + t = n \<and>
    \<not> last_free False zs \<and> coalesced zs \<and> ublocks lo zs = ublocks lo xs \<and>
    untouched (safe (unat (control st)) lo (xs @ (s, True) # ys)) st st'"
proof -
  note H = heap_repD [OF heap]
  note B = split_heap [OF heap a n]
  have pf: "block_is_prev_free (wd a) st = Done (last_free False xs)" by (rule header_ops [OF B(1,3)])
  show ?thesis
  proof (cases "last_free False xs")
    case False
    then show ?thesis
      using heap pf F c n by (intro exI [of _ st] exI [of _ L] exI [of _ xs] exI [of _ s])
        (simp add: block_merge_prev_def a untouched_refl)
  next
    case True
    then obtain zs t where xs: "xs = zs @ [(t, True)]" using last_free_cases by blast
    define p where "p = end_of lo zs"
    let ?c = "unat (control st)"
    have heap2: "heap_rep st L lo (zs @ (t, True) # (s, True) # ys) F" using heap xs by simp
    have a2: "a = p + 8 + t" by (simp add: a xs p_def)
    note C = split_heap [OF heap2 p_def a2]
    have "0 < lo" using H(6) by (simp add: placed_pool_def)
    then have p0: "wd p \<noteq> 0" using C(7,8,9) a2 by (intro wd_nonzero) linarith+
    have "block_prev (wd a) st = Done (wd p)"
      using pf True C(13) by (simp add: block_prev_def tlsf_assert_def load_word)
    moreover have "block_is_free (wd p) st = Done True" by (rule header_ops [OF C(1,3)])
    ultimately have run: "block_merge_prev (wd a) st = andthen (block_remove (wd p) st) (block_absorb (wd p) (wd a))"
      using pf True p0 by (simp add: block_merge_prev_def tlsf_assert_def)
    have pt: "(p, t) \<in> F" by (simp add: F xs p_def)
    have Feq: "F - {(p, t)} = fblocks lo zs \<union> fblocks n ys"
      using not_before [of lo zs t] not_behind [of p n t ys] n a2 by (auto simp: F xs p_def)
    from leave_block [OF heap2 pt] obtain st1 L1 where st1: "block_remove (wd p) st = Done st1"
      "heap_rep st1 L1 lo (zs @ (t, True) # (s, True) # ys) (fblocks lo zs \<union> fblocks n ys)"
      "untouched (safe ?c lo (zs @ (t, True) # (s, True) # ys)) st st1" unfolding Feq by blast
    have out: "(p, t) \<notin> fblocks lo zs \<union> fblocks n ys" "(p + 8 + t, s) \<notin> fblocks lo zs \<union> fblocks n ys"
      using not_before [of lo zs t] not_behind [of p n t ys] not_behind [of a n s ys] fblocks_range [of a s lo zs] n a2
      by (auto simp: p_def [symmetric])
    from absorb [OF st1(2) p_def out] obtain st2 where st2: "block_absorb (wd p) (wd a) st1 = Done (wd p, st2)"
      "heap_rep st2 L1 lo (zs @ (t + 8 + s, True) # ys) (fblocks lo zs \<union> fblocks n ys)"
      "untouched (safe (unat (control st1)) lo (zs @ (t + 8 + s, True) # ys)) st1 st2" unfolding a2 [symmetric] by blast
    have n': "p + 8 + (t + 8 + s) = n" by (simp add: n a2)
    have "safe ?c lo (zs @ (t, True) # (s, True) # ys) = safe ?c lo (xs @ (s, True) # ys)" by (simp add: xs)
    moreover have "safe ?c lo (zs @ (t + 8 + s, True) # ys) = safe ?c lo (xs @ (s, True) # ys)"
      by (rule safe_cong) (simp_all add: xs p_def [symmetric] n' n a2 algebra_simps)
    moreover have "control st1 = control st" using st1(3) by (simp add: untouched_def)
    ultimately have un: "untouched (safe ?c lo (xs @ (s, True) # ys)) st st2"
      using untouched_trans [of _ st st1 st2] st1(3) st2(3) by simp
    have "\<not> last_free False zs" "coalesced zs"
      using c last_free_cases [of zs] by (auto simp: xs successively_append_iff)
    moreover have "ublocks lo zs = ublocks lo xs" by (simp add: xs)
    ultimately show ?thesis
      using run st1(1) st2(1,2) un n'
      by (intro exI [of _ st2] exI [of _ L1] exI [of _ zs] exI [of _ "t + 8 + s"]) (simp add: p_def [symmetric])
  qed
qed

lemma merge_next:
  assumes heap: "heap_rep st L lo (xs @ (s, True) # ys) F" and a: "a = end_of lo xs"
    and F: "F = fblocks lo xs \<union> fblocks (a + 8 + s) ys" and c: "coalesced ys"
  shows "\<exists>st' L' t zs. block_merge_next (wd a) st = Done (wd a, st') \<and>
    heap_rep st' L' lo (xs @ (t, True) # zs) (fblocks lo xs \<union> fblocks (a + 8 + t) zs) \<and> s \<le> t \<and>
    \<not> head_free zs \<and> coalesced zs \<and> ublocks (a + 8 + t) zs = ublocks (a + 8 + s) ys \<and> end_of (a + 8 + t) zs = end_of (a + 8 + s) ys \<and>
    untouched (safe (unat (control st)) lo (xs @ (s, True) # ys)) st st'"
proof -
  define n where "n = a + 8 + s"
  note H = heap_repD [OF heap]
  note B = split_heap [OF heap a n_def]
  have nxt: "block_next (wd a) st = Done (wd n)" "block_is_last (wd a) st = Done False"
    using next_ops(1,2) [OF B(1,3) _ B(5)] B(2) by (simp_all add: n_def)
  have n0: "wd n \<noteq> 0" using B(8,9) by (intro wd_nonzero) (simp_all add: n_def)
  obtain t0 where "tmem st (wd (n + 8)) = Some (hdr t0 (head_free ys) True)" "8 dvd t0" using next_header [OF B(12)] by blast
  then have nf: "block_is_free (wd n) st = Done (head_free ys)" by (rule header_ops)
  show ?thesis
  proof (cases "head_free ys")
    case False
    then show ?thesis
      using heap nxt n0 nf F c by (intro exI [of _ st] exI [of _ L] exI [of _ s] exI [of _ ys])
        (simp add: block_merge_next_def tlsf_assert_def a untouched_refl n_def)
  next
    case True
    then obtain t zs where ys: "ys = (t, True) # zs" by (cases ys) auto
    let ?c = "unat (control st)"
    define e where "e = n + 8 + t"
    have run: "block_merge_next (wd a) st = andthen (block_remove (wd n) st) (block_absorb (wd a) (wd n))"
      using nxt n0 nf True by (simp add: block_merge_next_def tlsf_assert_def)
    have heap2: "heap_rep st L lo (xs @ (s, True) # (t, True) # zs) F" using heap ys by simp
    have nt: "(n, t) \<in> F" by (simp add: F ys n_def)
    have Feq: "F - {(n, t)} = fblocks lo xs \<union> fblocks e zs"
      using not_behind [of n e t zs] fblocks_range [of n t lo xs] by (auto simp: F ys n_def e_def a)
    from leave_block [OF heap2 nt] obtain st1 L1 where st1: "block_remove (wd n) st = Done st1"
      "heap_rep st1 L1 lo (xs @ (s, True) # (t, True) # zs) (fblocks lo xs \<union> fblocks e zs)"
      "untouched (safe ?c lo (xs @ (s, True) # (t, True) # zs)) st st1" unfolding Feq by blast
    have out: "(a, s) \<notin> fblocks lo xs \<union> fblocks e zs" "(a + 8 + s, t) \<notin> fblocks lo xs \<union> fblocks e zs"
      using not_before [of lo xs s] not_behind [of a e s zs] not_behind [of n e t zs] fblocks_range [of n t lo xs]
      by (auto simp: a [symmetric] e_def n_def)
    from absorb [OF st1(2) a out] obtain st2 where st2: "block_absorb (wd a) (wd n) st1 = Done (wd a, st2)"
      "heap_rep st2 L1 lo (xs @ (s + 8 + t, True) # zs) (fblocks lo xs \<union> fblocks e zs)"
      "untouched (safe (unat (control st1)) lo (xs @ (s + 8 + t, True) # zs)) st1 st2" unfolding n_def by blast
    have e: "a + 8 + (s + 8 + t) = e" by (simp add: e_def n_def)
    have "safe ?c lo (xs @ (s, True) # (t, True) # zs) = safe ?c lo (xs @ (s, True) # ys)" by (simp add: ys)
    moreover have "safe ?c lo (xs @ (s + 8 + t, True) # zs) = safe ?c lo (xs @ (s, True) # ys)"
      by (rule safe_cong) (simp_all add: ys a [symmetric] e n_def [symmetric] e_def [symmetric])
    moreover have "control st1 = control st" using st1(3) by (simp add: untouched_def)
    ultimately have un: "untouched (safe ?c lo (xs @ (s, True) # ys)) st st2"
      using untouched_trans [of _ st st1 st2] st1(3) st2(3) by simp
    have "\<not> head_free zs" "coalesced zs" using c by (cases zs; auto simp: ys)+
    then show ?thesis
      using run st1(1) st2(1,2) un e
      by (intro exI [of _ st2] exI [of _ L1] exI [of _ "s + 8 + t"] exI [of _ zs]) (simp add: ys n_def [symmetric] e_def [symmetric])
  qed
qed

section \<open>Allocation and release\<close>

text \<open>The heap between operations: all free blocks stand in the lists, and no two are neighbours.\<close>

definition tlsf_heap :: "tlsf \<Rightarrow> nat \<Rightarrow> pblock list \<Rightarrow> bool" where
  "tlsf_heap st lo bs \<longleftrightarrow> (\<exists>L. heap_rep st L lo bs (fblocks lo bs)) \<and> coalesced bs"

lemma tlsf_free_run:
  assumes "tlsf_heap st lo bs" and u: "(a, s) \<in> ublocks lo bs"
  shows "\<exists>st' bs'. tlsf_free (Some (wd (a + 16))) st = Done st' \<and> tlsf_heap st' lo bs' \<and> ublocks lo bs' = ublocks lo bs - {(a, s)} \<and>
    end_of lo bs' = end_of lo bs \<and> untouched (safe (unat (control st)) lo bs') st st'"
proof -
  obtain L where heap0: "heap_rep st L lo bs (fblocks lo bs)" and c0: "coalesced bs" using assms(1) by (auto simp: tlsf_heap_def)
  obtain xs ys where bs: "bs = xs @ (s, False) # ys" and a: "a = end_of lo xs" using ublocks_split [OF u] by blast
  define n where "n = a + 8 + s"
  let ?c = "unat (control st)"
  have heap: "heap_rep st L lo (xs @ (s, False) # ys) (fblocks lo xs \<union> fblocks n ys)"
    using heap0 by (simp add: bs a [symmetric] n_def)
  have c: "coalesced xs" "coalesced ys" using c0 by (auto simp: bs successively_append_iff successively_Cons)
  note B = split_heap [OF heap a n_def]
  have used: "block_is_free (wd a) st = Done False" by (rule header_ops [OF B(1,3)])
  from mark_free [OF heap a] obtain st1 where st1: "block_mark_as_free (wd a) st = Done st1"
    "heap_rep st1 L lo (xs @ (s, True) # ys) (fblocks lo xs \<union> fblocks n ys)" "untouched (safe ?c lo (xs @ (s, True) # ys)) st st1" by blast
  from merge_prev [OF st1(2) a n_def refl c(1)] obtain st2 L2 zs t where st2: "block_merge_prev (wd a) st1 = Done (wd (end_of lo zs), st2)"
    "heap_rep st2 L2 lo (zs @ (t, True) # ys) (fblocks lo zs \<union> fblocks n ys)" "end_of lo zs + 8 + t = n"
    "\<not> last_free False zs" "coalesced zs" "ublocks lo zs = ublocks lo xs"
    "untouched (safe (unat (control st1)) lo (xs @ (s, True) # ys)) st1 st2" by blast
  let ?b = "end_of lo zs"
  from merge_next [OF st2(2) refl _ c(2)] st2(3) obtain st3 L3 w vs where st3: "block_merge_next (wd ?b) st2 = Done (wd ?b, st3)"
    "heap_rep st3 L3 lo (zs @ (w, True) # vs) (fblocks lo zs \<union> fblocks (?b + 8 + w) vs)" "\<not> head_free vs" "coalesced vs"
    "ublocks (?b + 8 + w) vs = ublocks n ys" "end_of (?b + 8 + w) vs = end_of n ys"
    "untouched (safe (unat (control st2)) lo (zs @ (t, True) # ys)) st2 st3" by auto
  let ?bs = "zs @ (w, True) # vs"
  have bw: "(?b, w) \<in> fblocks lo ?bs" "(?b, w) \<notin> fblocks lo zs \<union> fblocks (?b + 8 + w) vs"
    using not_before [of lo zs w] not_behind [of ?b "?b + 8 + w" w vs] by auto
  from enter_list [OF st3(2) bw] obtain st4 L4 where st4: "block_insert (wd ?b) st3 = Done st4"
    "heap_rep st4 L4 lo ?bs (insert (?b, w) (fblocks lo zs \<union> fblocks (?b + 8 + w) vs))"
    "untouched (safe (unat (control st3)) lo ?bs) st3 st4" by blast
  have run: "tlsf_free (Some (wd (a + 16))) st = Done st4"
    using used st1(1) st2(1) st3(1) st4(1) by (simp add: tlsf_free_def tlsf_assert_def)
  have fb: "insert (?b, w) (fblocks lo zs \<union> fblocks (?b + 8 + w) vs) = fblocks lo ?bs" by auto
  have co: "coalesced ?bs"
  proof -
    have "\<not> snd (last zs)" if "zs \<noteq> []" using that st2(4) by (cases zs rule: rev_cases) auto
    moreover have "\<not> snd (hd vs)" if "vs \<noteq> []" using that st3(3) by (cases vs) auto
    ultimately show ?thesis using st2(5) st3(4) by (cases vs) (auto simp: successively_append_iff successively_Cons)
  qed
  have ub: "ublocks lo ?bs = ublocks lo xs \<union> ublocks n ys" using st2(6) st3(5) by simp
  moreover have "ublocks lo bs - {(a, s)} = ublocks lo xs \<union> ublocks n ys"
    using not_before [of lo xs s] not_behind [of a n s ys] by (auto simp: bs a [symmetric] n_def)
  moreover have en: "end_of lo ?bs = end_of n ys" "end_of lo bs = end_of n ys" using st3(6) by (simp_all add: bs a [symmetric] n_def)
  moreover have "untouched (safe ?c lo ?bs) st st4"
  proof -
    have "safe ?c lo (xs @ (s, True) # ys) = safe ?c lo ?bs" "safe ?c lo (zs @ (t, True) # ys) = safe ?c lo ?bs"
      by (rule safe_cong; use ub en st2(3,6) in \<open>simp add: a [symmetric] n_def [symmetric]\<close>)+
    moreover have "control st1 = control st" "control st2 = control st" "control st3 = control st"
      using st1(3) st2(7) st3(7) by (simp_all add: untouched_def)
    ultimately have "untouched (safe ?c lo ?bs) st st1" "untouched (safe ?c lo ?bs) st1 st2"
      "untouched (safe ?c lo ?bs) st2 st3" "untouched (safe ?c lo ?bs) st3 st4" using st1(3) st2(7) st3(7) st4(3) by simp_all
    then show ?thesis by (blast intro: untouched_trans)
  qed
  moreover have "tlsf_heap st4 lo ?bs" using st4(2) co unfolding fb tlsf_heap_def by blast
  ultimately show ?thesis using run by auto
qed

lemma tlsf_malloc_run:
  assumes "tlsf_heap st lo bs" and sz: "unat sz + 7 < 2 ^ 64"
  shows "(\<exists>a s st' bs'. tlsf_malloc sz st = Done (Some (wd (a + 16)), st') \<and> tlsf_heap st' lo bs' \<and> unat sz \<le> s \<and>
      (\<exists>r s0. adjust_request_size sz ALIGN_SIZE = Done r \<and> (a, s0) \<in> fblocks lo bs \<and> unat r \<le> s0 \<and>
        s = (if 32 + unat r \<le> s0 then unat r else s0)) \<and>
      (a, s) \<notin> ublocks lo bs \<and> ublocks lo bs' = insert (a, s) (ublocks lo bs) \<and> end_of lo bs' = end_of lo bs \<and>
      untouched (safe (unat (control st)) lo bs) st st') \<or>
    (tlsf_malloc sz st = Done (None, st) \<and> (\<exists>r. adjust_request_size sz ALIGN_SIZE = Done r \<and>
      (r = 0 \<or> (\<exists>c. mapping_search r = Done c \<and> (\<forall>(y, t) \<in> fblocks lo bs. class_index (mapping_insert (wd t)) < class_index c)))))"
proof -
  obtain L where heap: "heap_rep st L lo bs (fblocks lo bs)" and c0: "coalesced bs" using assms(1) by (auto simp: tlsf_heap_def)
  note H = heap_repD [OF heap]
  from adjust_request_size_spec [OF sz] obtain r where r: "adjust_request_size sz ALIGN_SIZE = Done r" "unat r < 2 ^ 32" "8 dvd unat r"
    "r \<noteq> 0 \<Longrightarrow> unat sz \<le> unat r" "r \<noteq> 0 \<Longrightarrow> 24 \<le> unat r" by blast
  have run: "tlsf_malloc sz st = andthen (block_locate_free r st) (\<lambda>(blk, st1). block_prepare_used blk r st1)"
    by (simp add: tlsf_malloc_def r(1))
  show ?thesis
  proof (cases "r = 0")
    case True
    then have "tlsf_malloc sz st = Done (None, st)" by (simp add: run block_locate_free_def block_prepare_used_def)
    with True r(1) show ?thesis by blast
  next
    case False
    obtain c where c: "mapping_search r = Done c" using mapping_search_fit [OF sz r(1) False] by blast
    from block_locate_free_run [OF H(1) heap_sized [OF heap] sz r(1) False c] show ?thesis
    proof (elim disjE exE conjE)
      fix k l b bl w st1
      assume kl: "k < 25" "l < 32" "L k l = b # bl" and loc: "block_locate_free r st = Done (Some b, st1)" "st1 = removed st k l [] bl"
        and fit: "block_size b st1 = Done w" "r \<le> w" "unat sz \<le> unat w"
      have "L k l = [] @ b # bl" using kl(3) by simp
      from leave_list [OF heap kl(1,2) this] obtain a s where a: "b = wd a" "(a, s) \<in> fblocks lo bs"
        "heap_rep st1 (upd L k l bl) lo bs (fblocks lo bs - {(a, s)})" "untouched (safe (unat (control st)) lo bs) st st1"
        unfolding loc(2) by auto
      obtain xs ys where bs: "bs = xs @ (s, True) # ys" "a = end_of lo xs" using fblocks_split [OF a(2)] by blast
      have F: "fblocks lo bs - {(a, s)} = fblocks lo xs \<union> fblocks (a + 8 + s) ys"
        using not_before [of lo xs s] not_behind [of a "a + 8 + s" s ys] by (auto simp: bs)
      note B = split_heap [OF a(3) [unfolded bs(1)] bs(2) refl]
      have "w = wd s" using header_ops(1) [OF B(1,3)] fit(1) by (simp add: a(1))
      then have rs: "unat r \<le> s" using fit(2) B(5) by (simp add: word_le_nat_alt unat_wd)
      from prepare_used [OF a(3) [unfolded bs(1)] bs(2) F [unfolded bs(1)] r(5) [OF False] r(3) rs c0 [unfolded bs(1)]]
      obtain st' L' zs t where st': "block_prepare_used (Some (wd a)) r st1 = Done (Some (wd (a + 16)), st')"
        "heap_rep st' L' lo (xs @ (t, False) # zs) (fblocks lo (xs @ (t, False) # zs))" "t = (if 32 + unat r \<le> s then unat r else s)"
        "ublocks (a + 8 + t) zs = ublocks (a + 8 + s) ys" "end_of (a + 8 + t) zs = end_of (a + 8 + s) ys"
        "coalesced (xs @ (t, False) # zs)" "untouched (safe (unat (control st1)) lo (xs @ (s, True) # ys)) st1 st'"
        unfolding wd_unat by blast
      let ?bs = "xs @ (t, False) # zs"
      have "(a, t) \<notin> ublocks lo bs" "ublocks lo ?bs = insert (a, t) (ublocks lo bs)" "end_of lo ?bs = end_of lo bs"
        using not_before [of lo xs t] not_behind [of a "a + 8 + s" t ys] st'(4,5) by (auto simp: bs)
      moreover have "untouched (safe (unat (control st)) lo bs) st st'"
      proof -
        have "control st1 = control st" using a(4) by (simp add: untouched_def)
        then show ?thesis using untouched_trans [OF a(4)] st'(7) by (simp add: bs)
      qed
      moreover have "tlsf_malloc sz st = Done (Some (wd (a + 16)), st')" by (simp add: run loc(1) a(1) st'(1))
      moreover have "unat sz \<le> t" using r(4) [OF False] st'(3) rs by (auto split: if_splits)
      moreover have "\<exists>r s0. adjust_request_size sz ALIGN_SIZE = Done r \<and> (a, s0) \<in> fblocks lo bs \<and> unat r \<le> s0 \<and>
          t = (if 32 + unat r \<le> s0 then unat r else s0)"
        using r(1) a(2) rs st'(3) by blast
      moreover have "tlsf_heap st' lo ?bs" using st'(2,6) unfolding tlsf_heap_def by blast
      ultimately show ?thesis by blast
    next
      assume loc: "block_locate_free r st = Done (None, st)"
        and small: "\<forall>b \<in> members L. \<exists>s. block_size b st = Done s \<and> class_index (mapping_insert s) < class_index c"
      have "class_index (mapping_insert (wd t)) < class_index c" if yt: "(y, t) \<in> fblocks lo bs" for y t
      proof -
        from fblock_header [OF H(5,7) yt] obtain q where q: "tmem st (wd (y + 8)) = Some (hdr t True q)" "8 dvd t" "t < 2 ^ 32" by auto
        obtain k l where kl: "mapping_insert (wd t) = (k, l)" "k < 25" "l < 32"
          using mapping_insert_range [of "wd t" 0] q(3) unat_wd [of t] by (cases "mapping_insert (wd t)") (auto simp: tlsf_consts)
        have "wd y \<in> set (L k l)" using H(2) kl yt by (auto simp: held_def)
        then have "wd y \<in> members L" using in_members [OF kl(2,3)] by blast
        with small header_ops(1) [OF q(1,2)] show ?thesis by fastforce
      qed
      moreover have "tlsf_malloc sz st = Done (None, st)" by (simp add: run loc block_prepare_used_def)
      ultimately show ?thesis using r(1) c by blast
    qed
  qed
qed

section \<open>A new heap\<close>

text \<open>The words of a pool at \<open>m\<close> of \<open>s + 16\<close> bytes exist, and so does the anchor of the lists below it.\<close>

definition pool_space :: "tlsf \<Rightarrow> nat \<Rightarrow> nat \<Rightarrow> bool" where
  "pool_space st m s \<longleftrightarrow> 8 dvd m \<and> 8 < m \<and> m + s + 64 < 2 ^ 64 \<and> 8 dvd s \<and> 24 \<le> s \<and> s < 2 ^ 32 \<and>
     (\<forall>x. 8 dvd x \<and> m \<le> x \<and> x < m + s + 16 \<longrightarrow> tmem st (wd x) \<noteq> None) \<and>
     unat (control st) + 32 \<le> m"

lemma new_block:
  assumes rep: "lists_rep st (\<lambda>_ _. [])" and sp: "pool_space st m s"
  shows "\<exists>st4 L. andthen (block_set_size (wd (m - 8)) (wd s) st) (\<lambda>st1. andthen (block_set_free (wd (m - 8)) st1) (\<lambda>st2.
      andthen (block_set_prev_used (wd (m - 8)) st2) (block_insert (wd (m - 8))))) = Done st4 \<and>
    lists_rep st4 L \<and> held L {(m - 8, s)} \<and> control st4 = control st \<and> tmem st4 (wd m) = Some (hdr s True False) \<and>
    (\<forall>x. tmem st x \<noteq> None \<longrightarrow> tmem st4 x \<noteq> None) \<and>
    (\<forall>x < 2 ^ 64. x \<notin> {m} \<union> links_of (unat (control st)) {(m - 8, s)} \<longrightarrow> tmem st4 (wd x) = tmem st (wd x))"
proof -
  define a where "a = m - 8"
  let ?c = "unat (control st)"
  note D = lists_repD [OF rep]
  have S: "8 dvd m" "8 < m" "m + s + 64 < 2 ^ 64" "8 dvd s" "24 \<le> s" "s < 2 ^ 32" "?c + 32 \<le> m"
    and ex: "8 dvd x \<Longrightarrow> m \<le> x \<Longrightarrow> x < m + s + 16 \<Longrightarrow> tmem st (wd x) \<noteq> None" for x
    using sp by (auto simp: pool_space_def)
  have am: "a + 8 = m" "0 < a" using S(2) by (simp_all add: a_def)
  have a8: "8 dvd a" using S(1) by (simp add: a_def)
  obtain v where v: "tmem st (wd m) = Some v" using ex [of m] S(1,5) by auto
  define s1 where "s1 = putw m (hdr s (bit v 0) (bit v 1)) st"
  define s3 where "s3 = putw m (hdr s True False) (putw m (hdr s True (bit v 1)) s1)"
  have r1: "block_set_size (wd a) (wd s) st = Done s1"
    using v hdr_resize [OF S(4), of v] by (simp add: block_set_size_def load_word store_putw s1_def am)
  have r2: "block_set_free (wd a) s1 = Done (putw m (hdr s True (bit v 1)) s1)"
    using header_ops(4) [of s1 a s "bit v 0" "bit v 1"] S(4) by (simp add: s1_def am)
  have r3: "block_set_prev_used (wd a) (putw m (hdr s True (bit v 1)) s1) = Done s3"
    using header_ops(7) [of "putw m (hdr s True (bit v 1)) s1" a s True "bit v 1"] S(4) by (simp add: s3_def am)
  have head3: "tmem s3 (wd (a + 8)) = Some (hdr s True False)" by (simp add: s3_def am)
  have other: "tmem s3 (wd x) = tmem st (wd x)" if "x < 2 ^ 64" "x \<noteq> m" for x
    using that wd_eq [of x m] S(3) by (simp add: s3_def s1_def)
  have st3: "control s3 = control st" "fl_bitmap s3 = fl_bitmap st" "sl_bitmap s3 = sl_bitmap st" "blocks s3 = blocks st"
    by (simp_all add: s3_def s1_def)
  have cw: "control st = wd ?c" by (simp add: wd_unat)
  have anchor: "tmem s3 (f_prev (control st)) = tmem st (f_prev (control st))" "tmem s3 (f_next (control st)) = tmem st (f_next (control st))"
    using other [of "?c + 24"] other [of "?c + 16"] S(3,7) by (subst (1 2) cw, simp)+
  have rep3: "lists_rep s3 (\<lambda>_ _. [])"
    using rep unfolding lists_rep_def st3 by (simp add: anchor)
  obtain k l where kl: "mapping_insert (wd s) = (k, l)" "k < 25" "l < 32"
    using mapping_insert_range [of "wd s" 0] S(6) unat_wd [of s] by (cases "mapping_insert (wd s)") (auto simp: tlsf_consts)
  have enter: "enterable s3 (\<lambda>_ _. []) (wd a)"
    unfolding enterable_def st3
  proof (intro conjI ballI)
    show "wd a \<noteq> 0" using am S(3) by (intro wd_nonzero) linarith+
    show "wd a AND 7 = 0" by (rule wd_aligned [OF a8])
    have "apart (wd a) (wd ?c)" by (rule apart_wd) (use S(3,7) am in linarith)+
    then show "apart (wd a) (control st)" by (simp add: wd_unat)
    have "tmem st (wd (a + 16)) \<noteq> None" "tmem st (wd (a + 24)) \<noteq> None"
      using ex [of "a + 16"] ex [of "a + 24"] a8 am S(5) by auto
    then show "tmem s3 (f_prev (wd a)) \<noteq> None" "tmem s3 (f_next (wd a)) \<noteq> None"
      using other [of "a + 16"] other [of "a + 24"] am S(3) by simp_all
  qed (auto simp: members_def)
  let ?st = "inserted s3 (wd a) k l" and ?L = "upd (\<lambda>_ _. []) k l [wd a]"
  have run: "block_insert (wd a) s3 = Done ?st"
    using insert_free_block_run [OF rep3 kl(2,3) enter] header_ops(1) [OF head3 S(4)] by (simp add: block_insert_def kl(1))
  have cur: "blocks s3 ! k ! l = control st" using D(7) [OF kl(2,3)] by (simp add: st3)
  have mem: "tmem ?st (wd x) = tmem s3 (wd x)" if "x < 2 ^ 64" "x \<notin> links_of ?c {(a, s)}" for x
    using that wd_eq [of x "a + 16"] wd_eq [of x "a + 24"] wd_eq [of x "?c + 24"] am S(3,5,7) cur
    by (auto simp: inserted_def Let_def links_of_def) (subst (asm) cw, simp)+
  have m_out: "m \<notin> links_of ?c {(a, s)}" using am S(7) by (auto simp: links_of_def)
  have "lists_rep ?st ?L" using inserted_rep [OF rep3 kl(2,3) enter] by simp
  moreover have "held ?L {(a, s)}" using kl by (auto simp: held_def upd_def)
  moreover have "tmem ?st (wd m) = Some (hdr s True False)" using mem [OF _ m_out] head3 S(3) am by simp
  moreover have "\<forall>x. tmem st x \<noteq> None \<longrightarrow> tmem ?st x \<noteq> None" by (simp add: inserted_def Let_def s3_def s1_def)
  moreover have "control ?st = control st" by (simp add: inserted_def Let_def st3)
  ultimately show ?thesis
    unfolding a_def [symmetric] using r1 r2 r3 run mem other
    by (intro exI [of _ ?st] exI [of _ ?L]) auto
qed

lemma tlsf_add_pool_run:
  assumes rep: "lists_rep st (\<lambda>_ _. [])" and sp: "pool_space st m s"
  shows "\<exists>st'. tlsf_add_pool (wd m) (wd (s + 16)) st = Done (Some (wd m), st') \<and> tlsf_heap st' (m - 8) [(s, True)] \<and> control st' = control st"
proof -
  define a n where "a = m - 8" and "n = m + s"
  let ?c = "unat (control st)" and ?F = "{(a, s)}"
  have S: "8 dvd m" "8 < m" "m + s + 64 < 2 ^ 64" "8 dvd s" "24 \<le> s" "s < 2 ^ 32" "?c + 32 \<le> m"
    and ex: "8 dvd x \<Longrightarrow> m \<le> x \<Longrightarrow> x < m + s + 16 \<Longrightarrow> tmem st (wd x) \<noteq> None" for x
    using sp by (auto simp: pool_space_def)
  have am: "a + 8 = m" "a + 8 + s = n" using S(2) by (simp_all add: a_def n_def)
  have n8: "8 dvd n" "8 dvd n + 8" using S(1,4) by (simp_all add: n_def)
  have "align_down (wd (s + 16) - tlsf_pool_overhead) ALIGN_SIZE = Done (wd s)"
  proof -
    have "wd (s + 16) - tlsf_pool_overhead = wd s" by (simp add: tlsf_pool_overhead_def block_header_overhead_def wd_def)
    moreover have "wd s AND 7 = 0" by (rule wd_aligned [OF S(4)])
    ultimately show ?thesis by (simp add: align_down_def ALIGN_SIZE_def tlsf_assert_def)
  qed
  moreover have "wd m mod ALIGN_SIZE = 0"
  proof -
    have "wd m mod 8 = wd m AND 7" using take_bit_eq_mod [of 3 "wd m"] take_bit_eq_mask [of 3 "wd m"] by (simp add: mask_eq_exp_minus_1)
    then show ?thesis using wd_aligned [OF S(1)] by (simp add: ALIGN_SIZE_def)
  qed
  moreover have "\<not> (wd s < block_size_min \<or> block_size_max < wd s)"
    using S(5,6) by (simp add: block_size_min_def block_size_max_def FL_INDEX_MAX_def word_less_nat_alt unat_wd not_less)
  moreover have "offset_to_block (wd m) (- block_header_overhead) = wd a"
    using am(1) by (simp add: offset_to_block_def block_header_overhead_def wd_def flip: am(1))
  moreover from new_block [OF rep sp] obtain st4 L where st4:
    "andthen (block_set_size (wd a) (wd s) st) (\<lambda>st1. andthen (block_set_free (wd a) st1) (\<lambda>st2.
      andthen (block_set_prev_used (wd a) st2) (block_insert (wd a)))) = Done st4"
    "lists_rep st4 L" "held L ?F" "control st4 = control st" "tmem st4 (wd m) = Some (hdr s True False)"
    "\<And>x. tmem st x \<noteq> None \<Longrightarrow> tmem st4 x \<noteq> None" unfolding a_def [symmetric] by blast
  define v where "v = the (tmem st4 (wd (n + 8)))"
  have "tmem st4 (wd (n + 8)) \<noteq> None" by (rule st4(6)) (rule ex, use n8 n_def in auto)
  then have v: "tmem st4 (wd (n + 8)) = Some v" by (auto simp: v_def)
  have nm: "tmem st4 (wd n) \<noteq> None" by (rule st4(6)) (rule ex, use n8 n_def in auto)
  have ne: "wd n \<noteq> wd (n + 8)" "wd m \<noteq> wd n" "wd m \<noteq> wd (n + 8)"
    by (rule wd_neq; use S(3,5) n_def in linarith)+
  note ne = ne ne [symmetric]
  define s5 where "s5 = putw n (wd a) st4"
  define s6 where "s6 = putw (n + 8) (hdr 0 (bit v 0) (bit v 1)) s5"
  define s7 where "s7 = putw (n + 8) (hdr 0 False (bit v 1)) s6"
  define s8 where "s8 = putw (n + 8) (hdr 0 False True) s7"
  have link: "block_link_next (wd a) st4 = Done (wd n, s5)"
    using next_ops(3) [of st4 a s True False] st4(5) nm S(4-6) by (simp add: am s5_def n_def)
  have z: "wd 0 = 0" by (simp add: wd_def)
  have "tmem s5 (wd (n + 8)) = Some v" using v ne by (simp add: s5_def)
  then have f6: "block_set_size (wd n) 0 s5 = Done s6"
    using hdr_resize [of 0 v] z by (simp add: block_set_size_def load_word store_putw s6_def)
  have f7: "block_set_used (wd n) s6 = Done s7"
    using header_ops(5) [of s6 n 0 "bit v 0" "bit v 1"] by (simp add: s6_def s7_def)
  have f8: "block_set_prev_free (wd n) s7 = Done s8"
    using header_ops(6) [of s7 n 0 False "bit v 1"] by (simp add: s7_def s8_def)
  from st4(1) obtain t1 t2 t3 where "block_set_size (wd a) (wd s) st = Done t1" "block_set_free (wd a) t1 = Done t2"
    "block_set_prev_used (wd a) t2 = Done t3" "block_insert (wd a) t3 = Done st4" by auto
  ultimately have run: "tlsf_add_pool (wd m) (wd (s + 16)) st = Done (Some (wd m), s8)"
    using link f6 f7 f8 by (simp add: tlsf_add_pool_def Let_def)
  have placed: "placed_pool st4 a (end_of a [(s, True)])"
    unfolding placed_pool_def st4(4)
  proof (intro conjI allI impI)
    show "8 dvd a" using S(1) by (simp add: a_def)
    show "tmem st4 (wd x) \<noteq> None" if x: "8 dvd x \<and> a + 8 \<le> x \<and> x \<le> end_of a [(s, True)] + 8" for x
      by (rule st4(6)) (rule ex, use x am n_def in auto)
  qed (use S am n_def in auto)
  have fb: "?F \<subseteq> fblocks a [(s, True)]" by simp
  have m8: "tmem s8 (wd x) = tmem st4 (wd x)" if "x < 2 ^ 64" "x \<noteq> n" "x \<noteq> n + 8" for x
    using that wd_eq [of x n] wd_eq [of x "n + 8"] S(3,5) by (simp add: s8_def s7_def s6_def s5_def n_def)
  have "lists_rep s8 L"
  proof (rule lists_putw [OF st4(2,3) placed fb])
    fix x assume "x \<in> links_of (unat (control st4)) ?F"
    then have "x < n" using S(3,5,7) am by (auto simp: links_of_def st4(4) n_def)
    then show "tmem s8 (wd x) = tmem st4 (wd x)" using S(3,5) n_def by (intro m8) auto
  qed (simp_all add: s8_def s7_def s6_def s5_def)
  moreover have "tmem s8 (wd m) = Some (hdr s True False)" "tmem s8 (wd n) = Some (wd a)" "tmem s8 (wd (n + 8)) = Some (hdr 0 False True)"
    using st4(5) ne by (simp_all add: s8_def s7_def s6_def s5_def)
  then have "phys_rep (tmem s8) a False [(s, True)]" using S(4-6) by (simp add: phys_rep_def am n_def)
  moreover have "placed_pool s8 a (end_of a [(s, True)])"
    using placed unfolding placed_pool_def by (simp add: s8_def s7_def s6_def s5_def)
  ultimately have "heap_rep s8 L a [(s, True)] (fblocks a [(s, True)])" using st4(3) by (simp add: heap_rep_def)
  then have "tlsf_heap s8 a [(s, True)]" unfolding tlsf_heap_def by auto
  moreover have "control s8 = control st" by (simp add: s8_def s7_def s6_def s5_def st4(4))
  ultimately show ?thesis using run unfolding a_def by blast
qed

lemma tlsf_create_with_pool_run:
  assumes c: "8 dvd c" "0 < c" and s: "8 dvd s" "24 \<le> s" "s < 2 ^ 32" "c + s + 8192 < 2 ^ 64"
    and ex: "\<forall>x. 8 dvd x \<and> c \<le> x \<and> x < c + s + 6552 \<longrightarrow> tmem st (wd x) \<noteq> None"
  shows "\<exists>st'. tlsf_create_with_pool (wd c) (wd (s + 6552)) st = Done (Some (wd c), st') \<and> control st' = wd c \<and>
    tlsf_heap st' (c + 6528) [(s, True)]"
proof -
  let ?st = "st\<lparr>control := wd c\<rparr>"
  have uc: "unat (wd c) = c" using s(4) by (intro unat_wd) linarith
  have "control ?st \<noteq> 0" using c(2) s(4) wd_nonzero [of c] by simp
  moreover have "tmem ?st (f_prev (control ?st)) \<noteq> None" "tmem ?st (f_next (control ?st)) \<noteq> None"
    using ex [rule_format, of "c + 24"] ex [rule_format, of "c + 16"] c(1) by simp_all
  ultimately obtain st1 where st1: "control_construct ?st = Done st1" "control st1 = wd c"
    "tmem st1 = (tmem ?st)(f_next (control ?st) \<mapsto> control ?st, f_prev (control ?st) \<mapsto> control ?st)" "lists_rep st1 (\<lambda>_ _. [])"
    using control_construct_rep [of ?st] by auto
  have "wd c mod ALIGN_SIZE = 0"
  proof -
    have "wd c mod 8 = wd c AND 7" using take_bit_eq_mod [of 3 "wd c"] take_bit_eq_mask [of 3 "wd c"] by (simp add: mask_eq_exp_minus_1)
    then show ?thesis using wd_aligned [OF c(1)] by (simp add: ALIGN_SIZE_def)
  qed
  with st1(1) have create: "tlsf_create (wd c) st = Done (Some (wd c), st1)" by (simp add: tlsf_create_def)
  have sp: "pool_space st1 (c + 6536) s"
    unfolding pool_space_def st1(2) uc
  proof (intro conjI allI impI)
    show "tmem st1 (wd x) \<noteq> None" if "8 dvd x \<and> c + 6536 \<le> x \<and> x < c + 6536 + s + 16" for x
      using that ex [rule_format, of x] unfolding st1(3) by simp
  qed (use c s in simp_all)
  have lo: "c + 6536 - 8 = c + 6528" by simp
  from tlsf_add_pool_run [OF st1(4) sp] obtain st2 where st2:
    "tlsf_add_pool (wd (c + 6536)) (wd (s + 16)) st1 = Done (Some (wd (c + 6536)), st2)" "tlsf_heap st2 (c + 6528) [(s, True)]"
    "control st2 = control st1" unfolding lo by blast
  have "wd c + tlsf_size = wd (c + 6536)" "wd (s + 6552) - tlsf_size = wd (s + 16)"
    by (simp_all add: tlsf_size_def control_size_def wd_def)
  with create st2 st1(2) show ?thesis by (simp add: tlsf_create_with_pool_def)
qed

section \<open>The contracts\<close>

lemma ublock_bounds:
  assumes "tlsf_heap st lo bs" "(a, s) \<in> ublocks lo bs"
  shows "8 dvd a" "lo \<le> a" "a + 8 + s \<le> end_of lo bs" "end_of lo bs + 32 < 2 ^ 64"
proof -
  obtain L where heap: "heap_rep st L lo bs (fblocks lo bs)" using assms(1) by (auto simp: tlsf_heap_def)
  note H = heap_repD [OF heap]
  obtain xs ys where bs: "bs = xs @ (s, False) # ys" "a = end_of lo xs" using ublocks_split [OF assms(2)] by blast
  have "pre (tmem st) lo False xs" using H(5) by (simp add: bs(1))
  from end_of_aligned [OF this H(7)] show "8 dvd a" by (simp add: bs(2))
  show "lo \<le> a" "a + 8 + s \<le> end_of lo bs" using ublocks_range [OF assms(2)] by simp_all
  show "end_of lo bs + 32 < 2 ^ 64" by (rule H(8))
qed

text \<open>
  C6 (functional). From a well-formed heap, for a request of less than 2 ^ 64 - 7 bytes (from there on the rounding
  of \<^verbatim>\<open>adjust_request_size\<close> wraps around to a small block), \<^verbatim>\<open>tlsf_malloc\<close> returns in every case. Either it hands out a
  block of the pool that holds the request, is aligned, and meets no block in use; it begins where a
  free block began, and what that block had over the adjusted request is cut off when it is worth a block of its own; the
  heap stays well-formed, the blocks in use are the old ones and the new one, and no word of a block in use or
  outside the pool is written. Or it answers NULL and changes nothing: the request is empty or too large, or
  every free block is of a smaller size class than the one searched.
\<close>

theorem tlsf_malloc_allocates:
  assumes heap: "tlsf_heap st lo bs" and sz: "unat sz + 7 < 2 ^ 64"
  shows "(\<exists>a s st' bs'. tlsf_malloc sz st = Done (Some (wd (a + 16)), st') \<and> tlsf_heap st' lo bs' \<and>
      unat sz \<le> s \<and> 8 dvd a \<and> lo \<le> a \<and> a + 8 + s \<le> end_of lo bs \<and>
      (\<exists>r s0. adjust_request_size sz ALIGN_SIZE = Done r \<and> (a, s0) \<in> fblocks lo bs \<and> unat r \<le> s0 \<and>
        s = (if 32 + unat r \<le> s0 then unat r else s0)) \<and>
      (\<forall>z t. (z, t) \<in> ublocks lo bs \<longrightarrow> a + 8 + s \<le> z \<or> z + 8 + t \<le> a) \<and>
      ublocks lo bs' = insert (a, s) (ublocks lo bs) \<and> end_of lo bs' = end_of lo bs \<and>
      untouched (safe (unat (control st)) lo bs) st st') \<or>
    (tlsf_malloc sz st = Done (None, st) \<and> (\<exists>r. adjust_request_size sz ALIGN_SIZE = Done r \<and>
      (r = 0 \<or> (\<exists>c. mapping_search r = Done c \<and> (\<forall>(y, t) \<in> fblocks lo bs. class_index (mapping_insert (wd t)) < class_index c)))))"
proof (rule disj_forward [OF tlsf_malloc_run [OF assms]], elim exE conjE)
  fix a s st' bs' r s0
  assume new: "tlsf_malloc sz st = Done (Some (wd (a + 16)), st')" "tlsf_heap st' lo bs'" "unat sz \<le> s"
    and cut: "adjust_request_size sz ALIGN_SIZE = Done r" "(a, s0) \<in> fblocks lo bs" "unat r \<le> s0"
        "s = (if 32 + unat r \<le> s0 then unat r else s0)"
    and rest: "(a, s) \<notin> ublocks lo bs" "ublocks lo bs' = insert (a, s) (ublocks lo bs)" "end_of lo bs' = end_of lo bs"
      "untouched (safe (unat (control st)) lo bs) st st'"
  have in': "(a, s) \<in> ublocks lo bs'" by (simp add: rest(2))
  have apart: "\<forall>z t. (z, t) \<in> ublocks lo bs \<longrightarrow> a + 8 + s \<le> z \<or> z + 8 + t \<le> a"
    using blocks_apart [of a s lo bs'] rest(1,2) by auto
  have cut: "\<exists>r s0. adjust_request_size sz ALIGN_SIZE = Done r \<and> (a, s0) \<in> fblocks lo bs \<and> unat r \<le> s0 \<and>
      s = (if 32 + unat r \<le> s0 then unat r else s0)" using cut by blast
  show "\<exists>a s st' bs'. tlsf_malloc sz st = Done (Some (wd (a + 16)), st') \<and> tlsf_heap st' lo bs' \<and>
      unat sz \<le> s \<and> 8 dvd a \<and> lo \<le> a \<and> a + 8 + s \<le> end_of lo bs \<and>
      (\<exists>r s0. adjust_request_size sz ALIGN_SIZE = Done r \<and> (a, s0) \<in> fblocks lo bs \<and> unat r \<le> s0 \<and>
        s = (if 32 + unat r \<le> s0 then unat r else s0)) \<and>
      (\<forall>z t. (z, t) \<in> ublocks lo bs \<longrightarrow> a + 8 + s \<le> z \<or> z + 8 + t \<le> a) \<and>
      ublocks lo bs' = insert (a, s) (ublocks lo bs) \<and> end_of lo bs' = end_of lo bs \<and>
      untouched (safe (unat (control st)) lo bs) st st'"
    by (rule exI [of _ a], rule exI [of _ s], rule exI [of _ st'], rule exI [of _ bs'])
      (use new rest apart cut ublock_bounds [OF new(2) in'] in simp)
qed

text \<open>A heap of one free block of 4096 bytes.\<close>

lemma demo_pool:
  "\<exists>st. tlsf_create_with_pool (wd 4096) (wd 10648) demo_heap = Done (Some (wd 4096), st) \<and> control st = wd 4096 \<and>
    tlsf_heap st 10624 [(4096, True)]"
proof -
  have "\<forall>x. tmem demo_heap (wd x) \<noteq> None" by (simp add: demo_heap_def)
  then show ?thesis using tlsf_create_with_pool_run [of 4096 4096 demo_heap] by simp
qed

lemma demo_request:
  "unat (100 :: usize) + 7 < 2 ^ 64" "adjust_request_size 100 ALIGN_SIZE = Done 104" "mapping_search 104 = Done (0, 13)"
  "mapping_insert (wd 4096) = (5, 0)" "mapping_insert (wd 3984) = (4, 30)"
  by (simp, code_simp, code_simp, simp add: wd_def, code_simp, simp add: wd_def, code_simp)

lemma no_used_blocks: "coalesced bs \<Longrightarrow> ublocks a bs = {} \<Longrightarrow> bs = [] \<or> (\<exists>s. bs = [(s, True)] \<and> end_of a bs = a + 8 + s)"
proof -
  assume c: "coalesced bs" and u: "ublocks a bs = {}"
  have "\<forall>x \<in> set bs. snd x" using u by (induction a bs rule: ublocks.induct) (auto split: if_splits)
  with c show ?thesis by (cases bs rule: remdups_adj.cases) (auto simp: successively_Cons)
qed

text \<open>A request of 100 bytes to a heap that is one block, and a second one.\<close>

lemma first_request:
  assumes heap: "tlsf_heap st lo [(S, True)]" and S: "class_index (0, 13) \<le> class_index (mapping_insert (wd S))" "136 \<le> S"
  shows "\<exists>st'. tlsf_malloc 100 st = Done (Some (wd (lo + 16)), st') \<and> tlsf_heap st' lo [(104, False), (S - 112, True)]"
proof -
  from tlsf_malloc_run [OF heap demo_request(1)] S obtain st' bs' where st': "tlsf_malloc 100 st = Done (Some (wd (lo + 16)), st')"
    "tlsf_heap st' lo bs'" "ublocks lo bs' = {(lo, 104)}" "end_of lo bs' = lo + 8 + S"
    by (elim disjE exE conjE) (auto simp: demo_request)
  have co: "coalesced bs'" using st'(2) by (simp add: tlsf_heap_def)
  obtain t f ys where bs: "bs' = (t, f) # ys" using st'(3) by (cases bs') auto
  define m where "m = lo + 8 + t"
  have "ublocks lo bs' = (if f then {} else {(lo, t)}) \<union> ublocks m ys" by (simp add: bs m_def)
  moreover have "(lo, u) \<notin> ublocks m ys" for u using ublocks_range [of lo u m ys] by (auto simp: m_def)
  ultimately have t: "\<not> f" "t = 104" "ublocks m ys = {}" using st'(3) by (auto split: if_splits)
  have e: "end_of m ys = lo + 8 + S" using st'(4) by (simp add: bs m_def)
  have "coalesced ys" using co by (auto simp: bs successively_Cons)
  from no_used_blocks [OF this t(3)] e S(2) have "ys = [(S - 112, True)]" by (auto simp: m_def t)
  with st' t show ?thesis by (auto simp: bs)
qed

lemma second_request:
  assumes "tlsf_heap st lo [(104, False), (S, True)]" "class_index (0, 13) \<le> class_index (mapping_insert (wd S))"
  shows "\<exists>st'. tlsf_malloc 100 st = Done (Some (wd (lo + 128)), st')"
  using tlsf_malloc_run [OF assms(1) demo_request(1)] assms(2)
  by (elim disjE exE conjE) (auto simp: demo_request add.commute [of lo])

lemma demo_allocated:
  assumes "tlsf_heap st 10624 [(4096, True)]"
  shows "\<exists>st'. tlsf_malloc 100 st = Done (Some (wd 10640), st') \<and> tlsf_heap st' 10624 [(104, False), (3984, True)]"
  using first_request [OF assms] by (simp add: demo_request class_index_def)

theorem tlsf_malloc_allocates_witness:
  "\<exists>st st' bs'. tlsf_create_with_pool (wd 4096) (wd 10648) demo_heap = Done (Some (wd 4096), st) \<and>
    tlsf_malloc 100 st = Done (Some (wd 10640), st') \<and> tlsf_heap st' 10624 bs' \<and> ublocks 10624 bs' = {(10624, 104)}"
proof -
  obtain st where st: "tlsf_create_with_pool (wd 4096) (wd 10648) demo_heap = Done (Some (wd 4096), st)" "tlsf_heap st 10624 [(4096, True)]"
    using demo_pool by blast
  from tlsf_malloc_allocates [OF st(2) demo_request(1)] show ?thesis
    using st(1) by (elim disjE exE conjE) (auto simp: demo_request class_index_def)
qed

text \<open>
  C7 (functional). From a well-formed heap \<^verbatim>\<open>tlsf_free\<close> of a block in use returns: no assertion fails. The heap
  is well-formed again, so the block has been joined with its free neighbours and no two free blocks
  are adjacent; exactly this block has left the blocks in use, and no word of the remaining ones or outside the pool is written.
\<close>

theorem tlsf_free_releases:
  assumes "tlsf_heap st lo bs" "(a, s) \<in> ublocks lo bs"
  shows "\<exists>st' bs'. tlsf_free (Some (wd (a + 16))) st = Done st' \<and> tlsf_heap st' lo bs' \<and> ublocks lo bs' = ublocks lo bs - {(a, s)} \<and>
    end_of lo bs' = end_of lo bs \<and> untouched (safe (unat (control st)) lo bs') st st'"
  by (rule tlsf_free_run [OF assms])

theorem tlsf_free_releases_witness:
  "\<exists>st p st1 st2 bs. tlsf_create_with_pool (wd 4096) (wd 10648) demo_heap = Done (Some (wd 4096), st) \<and>
    tlsf_malloc 100 st = Done (Some p, st1) \<and> tlsf_free (Some p) st1 = Done st2 \<and> tlsf_heap st2 10624 bs \<and> ublocks 10624 bs = {}"
proof -
  obtain st where st: "tlsf_create_with_pool (wd 4096) (wd 10648) demo_heap = Done (Some (wd 4096), st)" "tlsf_heap st 10624 [(4096, True)]"
    using demo_pool by blast
  from demo_allocated [OF st(2)] obtain st' where a: "tlsf_malloc 100 st = Done (Some (wd 10640), st')"
    "tlsf_heap st' 10624 [(104, False), (3984, True)]" by blast
  from tlsf_free_releases [OF a(2), of 10624 104] obtain st2 bs2 where "tlsf_free (Some (wd 10640)) st' = Done st2"
    "tlsf_heap st2 10624 bs2" "ublocks 10624 bs2 = {}" by auto
  with st(1) a(1) show ?thesis by blast
qed

end
