(* ===== verification/TlsfRun.thy ===== *)
theory TlsfRun
  imports TlsfAlloc
begin

text \<open>
  The life of a heap (\<^verbatim>\<open>mm/tlsf.c\<close>), and the contract \<open>block_allocator\<close> its clients rely on. The states reached from \<^verbatim>\<open>tlsf_create_with_pool\<close> by any sequence of
  \<^verbatim>\<open>tlsf_malloc\<close>, \<^verbatim>\<open>tlsf_free\<close> of a pointer in use, and words the clients store in what they were given, are \<open>heap_run\<close>;
  \<open>U\<close> maps each pointer in use to the size that was asked for. No such state lets an operation
  fail an assertion or read a word outside the heap; the allocations stay apart, keep their contents,
  and when all are freed the heap is one free block again.
\<close>

section \<open>Reachable heaps\<close>

text \<open>The memory given to the allocator: \<open>s + 6552\<close> bytes at \<open>c\<close>, of which the control structure takes 6536.\<close>

definition pool_at :: "nat \<Rightarrow> nat \<Rightarrow> tlsf \<Rightarrow> bool" where
  "pool_at c s st \<longleftrightarrow> 8 dvd c \<and> 0 < c \<and> 8 dvd s \<and> 24 \<le> s \<and> s < 2 ^ 32 \<and> c + s + 8192 < 2 ^ 64 \<and>
     (\<forall>x. 8 dvd x \<and> c \<le> x \<and> x < c + s + 6552 \<longrightarrow> tmem st (wd x) \<noteq> None)"

inductive heap_run :: "nat \<Rightarrow> nat \<Rightarrow> tlsf \<Rightarrow> (uquad \<rightharpoonup> usize) \<Rightarrow> bool" for c s where
  created: "pool_at c s st \<Longrightarrow> tlsf_create_with_pool (wd c) (wd (s + 6552)) st = Done (t, st') \<Longrightarrow> heap_run c s st' Map.empty"
| allocated: "heap_run c s st U \<Longrightarrow> unat sz + 7 < 2 ^ 64 \<Longrightarrow> tlsf_malloc sz st = Done (Some p, st') \<Longrightarrow> heap_run c s st' (U(p \<mapsto> sz))"
| refused: "heap_run c s st U \<Longrightarrow> unat sz + 7 < 2 ^ 64 \<Longrightarrow> tlsf_malloc sz st = Done (None, st') \<Longrightarrow> heap_run c s st' U"
| freed: "heap_run c s st U \<Longrightarrow> U p = Some n \<Longrightarrow> tlsf_free (Some p) st = Done st' \<Longrightarrow> heap_run c s st' (U(p := None))"
| written: "heap_run c s st U \<Longrightarrow> U p = Some n \<Longrightarrow> 8 dvd k \<Longrightarrow> k + 8 \<le> unat n \<Longrightarrow> store (p + wd k) v st = Done st' \<Longrightarrow>
    heap_run c s st' U"

text \<open>The invariant: a well-formed heap whose blocks in use are those of the clients.\<close>

definition owns :: "nat \<Rightarrow> pblock list \<Rightarrow> (uquad \<rightharpoonup> usize) \<Rightarrow> bool" where
  "owns lo bs U \<longleftrightarrow> (\<forall>p n. U p = Some n \<longrightarrow> (\<exists>a z. p = wd (a + 16) \<and> (a, z) \<in> ublocks lo bs \<and> unat n \<le> z)) \<and>
     (\<forall>a z. (a, z) \<in> ublocks lo bs \<longrightarrow> U (wd (a + 16)) \<noteq> None)"

definition heap_ok :: "nat \<Rightarrow> nat \<Rightarrow> tlsf \<Rightarrow> (uquad \<rightharpoonup> usize) \<Rightarrow> pblock list \<Rightarrow> bool" where
  "heap_ok c s st U bs \<longleftrightarrow> tlsf_heap st (c + 6528) bs \<and> end_of (c + 6528) bs = c + 6536 + s \<and> control st = wd c \<and>
     c < 2 ^ 64 \<and> owns (c + 6528) bs U"

lemma heap_okD:
  assumes "heap_ok c s st U bs"
  shows "tlsf_heap st (c + 6528) bs" "end_of (c + 6528) bs = c + 6536 + s" "control st = wd c" "c < 2 ^ 64"
    "U p = Some n \<Longrightarrow> \<exists>a z. p = wd (a + 16) \<and> (a, z) \<in> ublocks (c + 6528) bs \<and> unat n \<le> z"
    "(a, z) \<in> ublocks (c + 6528) bs \<Longrightarrow> \<exists>n. U (wd (a + 16)) = Some n"
  using assms by (auto simp: heap_ok_def owns_def)

text \<open>Two blocks in use are given out under different pointers.\<close>

lemma same_pointer:
  assumes heap: "tlsf_heap st lo bs" and "(a, z) \<in> ublocks lo bs" "(b, y) \<in> ublocks lo bs" "wd (a + 16) = wd (b + 16)"
  shows "a = b" "z = y"
proof -
  note ba = ublock_bounds [OF heap assms(2)] and bb = ublock_bounds [OF heap assms(3)]
  have "a + 16 = b + 16" using wd_neq [of "a + 16" "b + 16"] assms(4) ba bb by linarith
  then show "a = b" by simp
  then show "z = y" using blocks_apart [of a z lo bs b y] assms(2,3) by auto
qed

lemma owns_insert:
  assumes heap: "tlsf_heap st lo bs'" and own: "owns lo bs U" and new: "ublocks lo bs' = insert (a, z) (ublocks lo bs)" "unat sz \<le> z"
  shows "owns lo bs' (U(wd (a + 16) \<mapsto> sz))"
  unfolding owns_def
proof (intro conjI allI impI)
  fix p n assume p: "(U(wd (a + 16) \<mapsto> sz)) p = Some n"
  show "\<exists>a z. p = wd (a + 16) \<and> (a, z) \<in> ublocks lo bs' \<and> unat n \<le> z"
  proof (cases "p = wd (a + 16)")
    case True
    with p new show ?thesis by auto
  next
    case False
    with p own show ?thesis unfolding owns_def new(1) by fastforce
  qed
next
  fix b y assume "(b, y) \<in> ublocks lo bs'"
  with own new(1) show "(U(wd (a + 16) \<mapsto> sz)) (wd (b + 16)) \<noteq> None" by (auto simp: owns_def)
qed

lemma owns_remove:
  assumes heap: "tlsf_heap st lo bs" and own: "owns lo bs U" and a: "(a, z) \<in> ublocks lo bs"
    and new: "ublocks lo bs' = ublocks lo bs - {(a, z)}"
  shows "owns lo bs' (U(wd (a + 16) := None))"
  unfolding owns_def
proof (intro conjI allI impI)
  fix p n assume p: "(U(wd (a + 16) := None)) p = Some n"
  then have "p \<noteq> wd (a + 16)" "U p = Some n" by (auto split: if_splits)
  with own obtain b y where "p = wd (b + 16)" "(b, y) \<in> ublocks lo bs" "unat n \<le> y" "b \<noteq> a" by (fastforce simp: owns_def)
  with new show "\<exists>a z. p = wd (a + 16) \<and> (a, z) \<in> ublocks lo bs' \<and> unat n \<le> z" by auto
next
  fix b y assume b: "(b, y) \<in> ublocks lo bs'"
  then have "wd (b + 16) \<noteq> wd (a + 16)" using same_pointer [OF heap _ a, of b y] new by auto
  with own b new show "(U(wd (a + 16) := None)) (wd (b + 16)) \<noteq> None" by (auto simp: owns_def)
qed

text \<open>A client's store.\<close>

lemma heap_write:
  assumes heap: "tlsf_heap st lo bs" and x: "x \<in> payload lo bs"
  shows "tlsf_heap (putw x v st) lo bs"
proof -
  obtain L where rep: "heap_rep st L lo bs (fblocks lo bs)" and co: "coalesced bs" using heap by (auto simp: tlsf_heap_def)
  note H = heap_repD [OF rep]
  let ?c = "unat (control st)" and ?m = "(tmem st)(wd x \<mapsto> v)"
  have sx: "x \<in> safe ?c lo bs" using x by (simp add: safe_def)
  have x64: "x < 2 ^ 64" using payload_range [OF x] H(8) by linarith
  have same: "?m (wd y) = tmem st (wd y)" if "y < 2 ^ 64" "y \<notin> {x}" for y
    using that x64 wd_neq [of y x] by simp
  have "phys_rep ?m lo False bs"
  proof (rule phys_rep_frame [OF H(4)])
    fix y assume y: "y \<in> layout lo bs"
    have "y < 2 ^ 64" using layout_range [OF y] H(8) by linarith
    moreover have "y \<notin> {x}" using payload_layout [OF H(5) y] x by auto
    ultimately show "?m (wd y) = tmem st (wd y)" by (rule same)
  qed
  moreover have "{x} \<inter> links_of ?c (fblocks lo bs) = {}"
    using links_outside(2) [OF H(6,5) subset_refl] sx by blast
  moreover have "putw x v st = st\<lparr>tmem := ?m\<rparr>" "\<And>y. tmem st y \<noteq> None \<Longrightarrow> ?m y \<noteq> None" by (simp_all add: putw_def)
  ultimately have "heap_rep (putw x v st) L lo bs (fblocks lo bs)"
    by (intro tags_step(1) [OF rep, where W = "{x}" and m' = ?m]) (use same in blast)+
  with co show ?thesis unfolding tlsf_heap_def by blast
qed

text \<open>The word at offset \<open>k\<close> of an allocation.\<close>

lemma owned_word:
  assumes ok: "heap_ok c s st U bs" and u: "U p = Some n" and k: "k + 8 \<le> unat n"
  shows "unat p + k \<in> payload (c + 6528) bs" "p + wd k = wd (unat p + k)"
proof -
  obtain a z where a: "p = wd (a + 16)" "(a, z) \<in> ublocks (c + 6528) bs" "unat n \<le> z" using heap_okD(5) [OF ok u] by blast
  note b = ublock_bounds [OF heap_okD(1) [OF ok] a(2)]
  have "unat p = a + 16" unfolding a(1) by (rule unat_wd) (use b in linarith)
  then show "unat p + k \<in> payload (c + 6528) bs"
    using a(2,3) k unfolding payload_def by (intro CollectI bexI [of _ "(a, z)"]) auto
  show "p + wd k = wd (unat p + k)" using wd_add [of "unat p" k] by (simp add: wd_unat)
qed

section \<open>The invariant\<close>

lemma heap_ok_created:
  assumes at: "pool_at c s st"
  shows "\<exists>st'. tlsf_create_with_pool (wd c) (wd (s + 6552)) st = Done (Some (wd c), st') \<and> heap_ok c s st' Map.empty [(s, True)]"
proof -
  have p: "8 dvd c" "0 < c" "8 dvd s" "24 \<le> s" "s < 2 ^ 32" "c + s + 8192 < 2 ^ 64"
    "\<forall>x. 8 dvd x \<and> c \<le> x \<and> x < c + s + 6552 \<longrightarrow> tmem st (wd x) \<noteq> None"
    using at unfolding pool_at_def by blast+
  from tlsf_create_with_pool_run [OF p] show ?thesis
    using p(6) by (auto simp: heap_ok_def owns_def)
qed

lemma heap_ok_malloc:
  assumes ok: "heap_ok c s st U bs" and sz: "unat sz + 7 < 2 ^ 64" and run: "tlsf_malloc sz st = Done (Some p, st')"
  shows "\<exists>bs'. heap_ok c s st' (U(p \<mapsto> sz)) bs'" "untouched (safe c (c + 6528) bs) st st'" "U p = None"
proof -
  note I = heap_okD [OF ok]
  have c: "unat (control st) = c" unfolding I(3) by (rule unat_wd [OF I(4)])
  have "\<exists>a z bs'. p = wd (a + 16) \<and> tlsf_heap st' (c + 6528) bs' \<and> unat sz \<le> z \<and>
    ublocks (c + 6528) bs' = insert (a, z) (ublocks (c + 6528) bs) \<and> end_of (c + 6528) bs' = end_of (c + 6528) bs \<and>
    untouched (safe c (c + 6528) bs) st st' \<and> (a, z) \<notin> ublocks (c + 6528) bs"
    using tlsf_malloc_run [OF I(1) sz, unfolded c]
  proof (elim disjE exE conjE)
    fix a z st1 bs'
    assume "tlsf_malloc sz st = Done (Some (wd (a + 16)), st1)" "tlsf_heap st1 (c + 6528) bs'" "unat sz \<le> z"
      "(a, z) \<notin> ublocks (c + 6528) bs" "ublocks (c + 6528) bs' = insert (a, z) (ublocks (c + 6528) bs)"
      "end_of (c + 6528) bs' = end_of (c + 6528) bs" "untouched (safe c (c + 6528) bs) st st1"
    moreover from this(1) run have "p = wd (a + 16)" "st' = st1" by simp_all
    ultimately show ?thesis by blast
  qed (use run in simp_all)
  then obtain a z bs' where new: "p = wd (a + 16)" "tlsf_heap st' (c + 6528) bs'" "unat sz \<le> z"
    "ublocks (c + 6528) bs' = insert (a, z) (ublocks (c + 6528) bs)" "end_of (c + 6528) bs' = end_of (c + 6528) bs"
    "untouched (safe c (c + 6528) bs) st st'" "(a, z) \<notin> ublocks (c + 6528) bs"
    by (elim exE conjE)
  show "U p = None"
  proof (rule ccontr)
    assume "U p \<noteq> None"
    then obtain n where "U p = Some n" by blast
    from I(5) [OF this] obtain b y where b: "p = wd (b + 16)" "(b, y) \<in> ublocks (c + 6528) bs" by blast
    have "(a, z) \<in> ublocks (c + 6528) bs'" "(b, y) \<in> ublocks (c + 6528) bs'"
      unfolding new(4) by (rule insertI1, rule insertI2 [OF b(2)])
    from same_pointer [OF new(2) this] new(1) b(1) have "a = b" "z = y" by blast+
    with new(7) b(2) show False by simp
  qed
  have "owns (c + 6528) bs U" using ok by (simp add: heap_ok_def)
  from owns_insert [OF new(2) this new(4,3)] have "owns (c + 6528) bs' (U(p \<mapsto> sz))" unfolding new(1) .
  with new(2,5,6) I(2-4) show "\<exists>bs'. heap_ok c s st' (U(p \<mapsto> sz)) bs'"
    unfolding heap_ok_def untouched_def by metis
  show "untouched (safe c (c + 6528) bs) st st'" by (rule new(6))
qed

lemma heap_ok_free:
  assumes ok: "heap_ok c s st U bs" and u: "U p = Some n"
  shows "\<exists>st' bs'. tlsf_free (Some p) st = Done st' \<and> heap_ok c s st' (U(p := None)) bs' \<and> untouched (safe c (c + 6528) bs') st st'"
proof -
  note I = heap_okD [OF ok]
  have c: "unat (control st) = c" unfolding I(3) by (rule unat_wd [OF I(4)])
  obtain a z where a: "p = wd (a + 16)" "(a, z) \<in> ublocks (c + 6528) bs" using I(5) [OF u] by blast
  from tlsf_free_run [OF I(1) a(2)] obtain st' bs' where new: "tlsf_free (Some p) st = Done st'" "tlsf_heap st' (c + 6528) bs'"
    "ublocks (c + 6528) bs' = ublocks (c + 6528) bs - {(a, z)}" "end_of (c + 6528) bs' = end_of (c + 6528) bs"
    "untouched (safe c (c + 6528) bs') st st'"
    unfolding a(1) c by blast
  have "owns (c + 6528) bs U" using ok by (simp add: heap_ok_def)
  from owns_remove [OF I(1) this a(2) new(3)] have "owns (c + 6528) bs' (U(p := None))" by (simp add: a(1))
  with new I(2-4) show ?thesis by (auto simp: heap_ok_def untouched_def)
qed

lemma heap_ok_store:
  assumes ok: "heap_ok c s st U bs" and u: "U p = Some n" and k: "k + 8 \<le> unat n" and run: "store (p + wd k) v st = Done st'"
  shows "heap_ok c s st' U bs"
proof -
  note w = owned_word [OF ok u k]
  have "st' = putw (unat p + k) v st" using run w(2) by (auto simp: store_def putw_def split: if_splits)
  with ok heap_write [OF heap_okD(1) [OF ok] w(1)] show ?thesis by (simp add: heap_ok_def)
qed

lemma heap_run_ok: "heap_run c s st U \<Longrightarrow> \<exists>bs. heap_ok c s st U bs"
proof (induction rule: heap_run.induct)
  case (created st t st')
  then show ?case using heap_ok_created [of c s st] by auto
next
  case (allocated st U sz p st')
  then show ?case using heap_ok_malloc(1) by blast
next
  case (refused st U sz st')
  then obtain bs where ok: "heap_ok c s st U bs" by blast
  have "st' = st" using tlsf_malloc_run [OF heap_okD(1) [OF ok] refused(2)] refused(3) by (elim disjE exE conjE) auto
  with ok show ?case by blast
next
  case (freed st U p n st')
  then obtain bs where "heap_ok c s st U bs" by blast
  from heap_ok_free [OF this freed(2)] freed(3) show ?case by (auto simp del: fun_upd_apply)
next
  case (written st U p n k v st')
  then show ?case using heap_ok_store by blast
qed

section \<open>The contract of an allocator\<close>

text \<open>
  What the clients of a heap rely on. \<open>inv st U\<close> says that the heap is sound and that the pointers of \<open>U\<close> are in
  use. A client's life is a list of requests; it releases only what it holds.
\<close>

datatype request = Allocate usize | Release uquad

definition small :: "request \<Rightarrow> bool" where
  "small r \<longleftrightarrow> (case r of Allocate sz \<Rightarrow> unat sz + 7 < 2 ^ 64 | Release p \<Rightarrow> True)"

fun serve :: "(usize \<Rightarrow> 's \<Rightarrow> (uquad option \<times> 's) outcome) \<Rightarrow> (uquad option \<Rightarrow> 's \<Rightarrow> 's outcome) \<Rightarrow> request list \<Rightarrow>
    's \<Rightarrow> (uquad \<rightharpoonup> usize) \<Rightarrow> ('s \<times> (uquad \<rightharpoonup> usize)) outcome" where
  "serve malloc free [] st U = Done (st, U)"
| "serve malloc free (Allocate sz # rs) st U =
     andthen (malloc sz st) (\<lambda>(p, st1). serve malloc free rs st1 (case p of None \<Rightarrow> U | Some q \<Rightarrow> U(q \<mapsto> sz)))"
| "serve malloc free (Release p # rs) st U =
     (if U p = None then serve malloc free rs st U
      else andthen (free (Some p) st) (\<lambda>st1. serve malloc free rs st1 (U(p := None))))"

locale block_allocator =
  fixes malloc :: "usize \<Rightarrow> 's \<Rightarrow> (uquad option \<times> 's) outcome"
    and free :: "uquad option \<Rightarrow> 's \<Rightarrow> 's outcome"
    and inv :: "'s \<Rightarrow> (uquad \<rightharpoonup> usize) \<Rightarrow> bool"
  assumes malloc_returns: "inv st U \<Longrightarrow> unat sz + 7 < 2 ^ 64 \<Longrightarrow> \<exists>r st'. malloc sz st = Done (r, st')"
    and malloc_fresh: "inv st U \<Longrightarrow> unat sz + 7 < 2 ^ 64 \<Longrightarrow> malloc sz st = Done (Some p, st') \<Longrightarrow> U p = None \<and> inv st' (U(p \<mapsto> sz))"
    and malloc_null: "inv st U \<Longrightarrow> unat sz + 7 < 2 ^ 64 \<Longrightarrow> malloc sz st = Done (None, st') \<Longrightarrow> inv st' U"
    and free_returns: "inv st U \<Longrightarrow> U p = Some n \<Longrightarrow> \<exists>st'. free (Some p) st = Done st' \<and> inv st' (U(p := None))"
    and in_use_apart: "inv st U \<Longrightarrow> U p = Some n \<Longrightarrow> U q = Some m \<Longrightarrow> p \<noteq> q \<Longrightarrow>
      unat p + unat n + 8 \<le> unat q \<or> unat q + unat m + 8 \<le> unat p"
begin

lemma malloc_then_free:
  assumes "inv st U" "unat sz + 7 < 2 ^ 64" "malloc sz st = Done (Some p, st1)"
  shows "\<exists>st2. free (Some p) st1 = Done st2 \<and> inv st2 U"
proof -
  have f: "U p = None" "inv st1 (U(p \<mapsto> sz))" using malloc_fresh [OF assms] by auto
  have "(U(p \<mapsto> sz))(p := None) = U" using f(1) by auto
  with free_returns [OF f(2), of p sz] show ?thesis by auto
qed

lemma serves:
  assumes "inv st U" "\<forall>r \<in> set rs. small r"
  shows "\<exists>st' U'. serve malloc free rs st U = Done (st', U') \<and> inv st' U'"
  using assms
proof (induction rs arbitrary: st U)
  case (Cons r rs)
  show ?case
  proof (cases r)
    case (Allocate sz)
    then have sz: "unat sz + 7 < 2 ^ 64" using Cons.prems(2) by (simp add: small_def)
    from malloc_returns [OF Cons.prems(1) sz] obtain p st1 where m: "malloc sz st = Done (p, st1)" by blast
    have "inv st1 (case p of None \<Rightarrow> U | Some q \<Rightarrow> U(q \<mapsto> sz))"
      using malloc_fresh [OF Cons.prems(1) sz] malloc_null [OF Cons.prems(1) sz] m by (cases p) auto
    from Cons.IH [OF this] Cons.prems(2) m Allocate show ?thesis by simp
  next
    case (Release p)
    show ?thesis
    proof (cases "U p")
      case None
      with Cons Release show ?thesis by simp
    next
      case (Some n)
      from free_returns [OF Cons.prems(1) this] obtain st1 where f: "free (Some p) st = Done st1" "inv st1 (U(p := None))" by blast
      from Cons.IH [OF f(2)] Cons.prems(2) f(1) Some Release show ?thesis by (simp del: fun_upd_apply)
    qed
  qed
qed simp

end

section \<open>What every reachable heap keeps\<close>

text \<open>A run with two allocations of 100 bytes.\<close>

lemma demo_at: "pool_at 4096 4096 demo_heap"
  by (simp add: pool_at_def demo_heap_def)

lemma demo_allocated_twice:
  assumes "tlsf_heap st 10624 [(104, False), (3984, True)]"
  shows "\<exists>st'. tlsf_malloc 100 st = Done (Some (wd 10752), st')"
  using second_request [OF assms] by (simp add: demo_request class_index_def)

lemma demo_run:
  "\<exists>st. heap_run 4096 4096 st [wd 10640 \<mapsto> 100, wd 10752 \<mapsto> 100]"
proof -
  obtain st where st: "tlsf_create_with_pool (wd 4096) (wd 10648) demo_heap = Done (Some (wd 4096), st)" "tlsf_heap st 10624 [(4096, True)]"
    using demo_pool by blast
  have run: "heap_run 4096 4096 st Map.empty" by (rule heap_run.created [OF demo_at]) (simp add: st(1))
  obtain st1 where st1: "tlsf_malloc 100 st = Done (Some (wd 10640), st1)" "tlsf_heap st1 10624 [(104, False), (3984, True)]"
    using demo_allocated [OF st(2)] by blast
  obtain st2 where st2: "tlsf_malloc 100 st1 = Done (Some (wd 10752), st2)" using demo_allocated_twice [OF st1(2)] by blast
  from heap_run.allocated [OF heap_run.allocated [OF run demo_request(1) st1(1)] demo_request(1) st2] show ?thesis by blast
qed

lemma demo_pointers: "(wd 10640 :: uquad) \<noteq> wd 10752" "unat (wd 10640) = 10640" "unat (wd 10752) = 10752"
  by (simp_all add: wd_def)

lemma run_total:
  assumes "heap_run c s st U" "unat sz + 7 < 2 ^ 64"
  shows "\<exists>r st'. tlsf_malloc sz st = Done (r, st')" "U p = Some n \<Longrightarrow> \<exists>st'. tlsf_free (Some p) st = Done st'"
proof -
  obtain bs where ok: "heap_ok c s st U bs" using heap_run_ok [OF assms(1)] by blast
  show "\<exists>r st'. tlsf_malloc sz st = Done (r, st')" using tlsf_malloc_run [OF heap_okD(1) [OF ok] assms(2)] by blast
  show "\<exists>st'. tlsf_free (Some p) st = Done st'" if "U p = Some n" using heap_ok_free [OF ok that] by blast
qed

lemma run_within:
  assumes "heap_run c s st U" "U p = Some n"
  shows "8 dvd unat p \<and> c + 6544 \<le> unat p \<and> unat p + unat n \<le> c + s + 6552"
proof -
  obtain bs where ok: "heap_ok c s st U bs" using heap_run_ok [OF assms(1)] by blast
  note I = heap_okD [OF ok]
  obtain a z where a: "p = wd (a + 16)" "(a, z) \<in> ublocks (c + 6528) bs" "unat n \<le> z" using I(5) [OF assms(2)] by blast
  note b = ublock_bounds [OF I(1) a(2)]
  have "unat p = a + 16" unfolding a(1) by (rule unat_wd) (use b in linarith)
  moreover have "8 dvd a + 16" using b(1) by (simp add: dvd_add)
  ultimately show ?thesis using a(3) b I(2) by auto
qed

lemma run_apart:
  assumes "heap_run c s st U" "U p = Some n" "U q = Some m" "p \<noteq> q"
  shows "unat p + unat n + 8 \<le> unat q \<or> unat q + unat m + 8 \<le> unat p"
proof -
  obtain bs where ok: "heap_ok c s st U bs" using heap_run_ok [OF assms(1)] by blast
  note I = heap_okD [OF ok]
  obtain a z where a: "p = wd (a + 16)" "(a, z) \<in> ublocks (c + 6528) bs" "unat n \<le> z" using I(5) [OF assms(2)] by blast
  obtain b y where b: "q = wd (b + 16)" "(b, y) \<in> ublocks (c + 6528) bs" "unat m \<le> y" using I(5) [OF assms(3)] by blast
  note ba = ublock_bounds [OF I(1) a(2)] and bb = ublock_bounds [OF I(1) b(2)]
  have "unat p = a + 16" "unat q = b + 16" unfolding a(1) b(1) by (rule unat_wd; use ba bb in linarith)+
  moreover have "a \<noteq> b" using assms(4) a(1) b(1) by auto
  moreover have "(a, z) = (b, y) \<or> a + 8 + z \<le> b \<or> b + 8 + y \<le> a" by (rule blocks_apart) (use a(2) b(2) in auto)
  ultimately show ?thesis using a(3) b(3) by auto
qed

text \<open>The block allocator satisfies the contract on its runs.\<close>

interpretation tl: block_allocator tlsf_malloc tlsf_free "heap_run c s" for c s
proof
  fix st :: tlsf and U sz p n
  assume run: "heap_run c s st U"
  show "\<exists>r st'. tlsf_malloc sz st = Done (r, st')" if "unat sz + 7 < 2 ^ 64" by (rule run_total(1) [OF run that])
  show "U p = None \<and> heap_run c s st' (U(p \<mapsto> sz))" if "unat sz + 7 < 2 ^ 64" "tlsf_malloc sz st = Done (Some p, st')" for st'
    using heap_run_ok [OF run] heap_ok_malloc(3) that heap_run.allocated [OF run that] by blast
  show "heap_run c s st' U" if "unat sz + 7 < 2 ^ 64" "tlsf_malloc sz st = Done (None, st')" for st'
    by (rule heap_run.refused [OF run that])
  show "\<exists>st'. tlsf_free (Some p) st = Done st' \<and> heap_run c s st' (U(p := None))" if "U p = Some n"
    using run_total(2) [OF run _ that, of 0] heap_run.freed [OF run that] by auto
  show "unat p + unat n + 8 \<le> unat q \<or> unat q + unat m + 8 \<le> unat p" if "U p = Some n" "U q = Some m" "p \<noteq> q" for q m
    using run_apart [OF run that] by blast
qed

text \<open>
  C14 (safety). On every heap reached by clients with requests below 2 ^ 64 - 7 bytes, neither an allocation, again below that size, nor the release
  of another pointer changes a word that lies within what a client was given; both return.
\<close>

theorem heap_keeps_contents:
  assumes "heap_run c s st U" "U p = Some n" "k + 8 \<le> unat n"
  shows "(unat sz + 7 < 2 ^ 64 \<longrightarrow>
      (\<exists>r st1. tlsf_malloc sz st = Done (r, st1) \<and> tmem st1 (p + wd k) = tmem st (p + wd k))) \<and>
    (\<forall>q m. U q = Some m \<longrightarrow> p \<noteq> q \<longrightarrow>
      (\<exists>st2. tlsf_free (Some q) st = Done st2 \<and> tmem st2 (p + wd k) = tmem st (p + wd k)))"
proof (intro conjI impI allI)
  obtain bs where ok: "heap_ok c s st U bs" using heap_run_ok [OF assms(1)] by blast
  note w = owned_word [OF ok assms(2,3)]
  {
    assume sz: "unat sz + 7 < 2 ^ 64"
    obtain r st1 where run: "tlsf_malloc sz st = Done (r, st1)" using tlsf_malloc_run [OF heap_okD(1) [OF ok] sz] by blast
    have "tmem st1 (p + wd k) = tmem st (p + wd k)"
    proof (cases r)
      case None
      with run show ?thesis using tlsf_malloc_run [OF heap_okD(1) [OF ok] sz] by (elim disjE exE conjE) auto
    next
      case (Some x)
      from heap_ok_malloc(2) [OF ok sz run [unfolded Some]] w show ?thesis by (simp add: untouched_def safe_def)
    qed
    with run show "\<exists>r st1. tlsf_malloc sz st = Done (r, st1) \<and> tmem st1 (p + wd k) = tmem st (p + wd k)" by blast
  }
  fix q m assume q: "U q = Some m" "p \<noteq> q"
  from heap_ok_free [OF ok q(1)] obtain st2 bs' where f: "tlsf_free (Some q) st = Done st2" "heap_ok c s st2 (U(q := None)) bs'"
    "untouched (safe c (c + 6528) bs') st st2" by blast
  have "(U(q := None)) p = Some n" using assms(2) q(2) by simp
  from owned_word(1) [OF f(2) this assms(3)] f(3) w(2) have "tmem st2 (p + wd k) = tmem st (p + wd k)"
    by (simp add: untouched_def safe_def)
  with f(1) show "\<exists>st2. tlsf_free (Some q) st = Done st2 \<and> tmem st2 (p + wd k) = tmem st (p + wd k)" by blast
qed

theorem heap_keeps_contents_witness:
  "\<exists>st st1 st2 r. heap_run 4096 4096 st [wd 10640 \<mapsto> 100, wd 10752 \<mapsto> 100] \<and>
    tlsf_malloc 100 st = Done (r, st1) \<and> tmem st1 (wd 10640 + wd 8) = tmem st (wd 10640 + wd 8) \<and>
    tlsf_free (Some (wd 10752)) st = Done st2 \<and> tmem st2 (wd 10640 + wd 8) = tmem st (wd 10640 + wd 8)"
proof -
  obtain st where st: "heap_run 4096 4096 st [wd 10640 \<mapsto> 100, wd 10752 \<mapsto> 100]" using demo_run by blast
  from heap_keeps_contents [OF st, of "wd 10640" 100 8 100] demo_pointers st show ?thesis by auto
qed

text \<open>
  C13 (invariant). Nothing leaks and nothing stays fragmented: whatever was allocated (in requests below 2 ^ 64 - 7 bytes), written and freed before, a reachable
  heap without a pointer in use is one free block of the pool's size again.
\<close>

theorem heap_restored:
  assumes "heap_run c s st Map.empty"
  shows "tlsf_heap st (c + 6528) [(s, True)]"
proof -
  obtain bs where ok: "heap_ok c s st Map.empty bs" using heap_run_ok [OF assms(1)] by blast
  note I = heap_okD [OF ok]
  have "ublocks (c + 6528) bs = {}" using I(6) by auto
  moreover have "coalesced bs" using I(1) by (simp add: tlsf_heap_def)
  ultimately have "bs = [(s, True)]" using no_used_blocks [of bs "c + 6528"] I(2) by auto
  with I(1) show ?thesis by simp
qed

theorem heap_restored_witness:
  "\<exists>st st1 st2. heap_run 4096 4096 st [wd 10640 \<mapsto> 100, wd 10752 \<mapsto> 100] \<and> tlsf_free (Some (wd 10640)) st = Done st1 \<and>
    tlsf_free (Some (wd 10752)) st1 = Done st2 \<and> tlsf_heap st2 10624 [(4096, True)]"
proof -
  let ?U = "[wd 10640 \<mapsto> 100, wd 10752 \<mapsto> 100]"
  have U: "?U (wd 10640) = Some 100" "(?U(wd 10640 := None)) (wd 10752) = Some 100" "?U(wd 10640 := None, wd 10752 := None) = Map.empty"
    using demo_pointers(1) by auto
  obtain st where st: "heap_run 4096 4096 st ?U" using demo_run by blast
  obtain st1 where st1: "tlsf_free (Some (wd 10640)) st = Done st1" using heap_run_ok [OF st] heap_ok_free U(1) by blast
  have run1: "heap_run 4096 4096 st1 (?U(wd 10640 := None))" by (rule heap_run.freed [OF st U(1) st1])
  obtain st2 where st2: "tlsf_free (Some (wd 10752)) st1 = Done st2" using heap_run_ok [OF run1] heap_ok_free U(2) by blast
  have "heap_run 4096 4096 st2 Map.empty" using heap_run.freed [OF run1 U(2) st2] by (simp only: U(3))
  from heap_restored [OF this] st st1 st2 show ?thesis by auto
qed

end
