(* ===== verification/TlsfCheck.thy ===== *)
theory TlsfCheck
  imports TlsfRun
begin

text \<open>
  The allocator's own consistency checks (\<^verbatim>\<open>tlsf_check\<close> and \<^verbatim>\<open>tlsf_check_pool\<close> of \<^verbatim>\<open>mm/tlsf.c\<close>) against
  the invariant: on a well-formed heap no assertion of theirs fails, and they end. A walk over a pool of
  \<open>s\<close> bytes meets at most \<open>(s + 8) div 32\<close> blocks, and no free list is longer.
\<close>

section \<open>The walk over the pool\<close>

lemma block_count: "pre m a pf bs \<Longrightarrow> a + 32 * length bs \<le> end_of a bs"
proof (induction m a pf bs rule: pre.induct)
  case (2 m a pf s f bs)
  then have "a + 8 + s + 32 * length bs \<le> end_of (a + 8 + s) bs" "24 \<le> s" by simp_all
  then show ?case by simp
qed simp

lemma walk_integrity:
  assumes "phys_rep (tmem st) a pf bs" "0 < a" "end_of a bs + 32 < 2 ^ 64" "length bs < fuel"
  shows "walkBlocks fuel (integrity_walker st) (wd a) (pf, 0) st = Done (last_free pf bs, 0)"
  using assms
proof (induction bs arbitrary: fuel a pf)
  case Nil
  then obtain n where fuel: "fuel = Suc n" by (cases fuel) auto
  have h: "tmem st (wd (a + 8)) = Some (hdr 0 False pf)" using Nil.prems(1) by (simp add: phys_rep_def)
  have "wd a \<noteq> 0" using Nil.prems(2,3) by (intro wd_nonzero) auto
  moreover have "block_is_last (wd a) st = Done True" using header_ops(1) [OF h] by (simp add: block_is_last_def wd_def)
  ultimately show ?case by (simp add: fuel)
next
  case (Cons b bs)
  obtain s f where b: "b = (s, f)" by (cases b)
  obtain n where fuel: "fuel = Suc n" "length bs < n" using Cons.prems(4) by (cases fuel) auto
  have h: "tmem st (wd (a + 8)) = Some (hdr s f pf)" "24 \<le> s" "8 dvd s" "s < 2 ^ 32" "phys_rep (tmem st) (a + 8 + s) f bs"
    using Cons.prems(1) by (simp_all add: b phys_rep_Cons)
  have e: "end_of (a + 8 + s) bs + 32 < 2 ^ 64" using Cons.prems(3) by (simp add: b)
  have "a < 2 ^ 64" using e end_of_ge [of "a + 8 + s" bs] by linarith
  then have nz: "wd a \<noteq> 0" by (rule wd_nonzero [OF Cons.prems(2)])
  have s: "0 < s" "s < 2 ^ 64" using h(2,4) by simp_all
  note ops = header_ops(1-3) [OF h(1,3)] next_ops(1,2) [OF h(1,3) s]
  have "integrity_walker st (block_to_ptr (wd a)) (wd s) (\<not> f) (pf, 0) = Done (f, 0)"
    by (simp add: integrity_walker_def ops tlsf_assert_def)
  moreover have "walkBlocks n (integrity_walker st) (wd (a + 8 + s)) (f, 0) st = Done (last_free f bs, 0)"
    by (rule Cons.IH [OF h(5) _ e fuel(2)]) simp
  ultimately show ?case by (simp add: fuel(1) b nz ops)
qed

lemma check_pool_passes:
  assumes heap: "tlsf_heap st lo bs" and fuel: "length bs < fuel"
  shows "tlsf_check_pool fuel (wd (lo + 8)) st = Done 0"
proof -
  obtain L where "heap_rep st L lo bs (fblocks lo bs)" using heap by (auto simp: tlsf_heap_def)
  note H = heap_repD [OF this]
  have lo: "0 < lo" using H(6) by (simp add: placed_pool_def)
  have "offset_to_block (wd (lo + 8)) (- block_header_overhead) = wd lo"
    by (simp add: offset_to_block_def block_header_overhead_def wd_def)
  with walk_integrity [OF H(4) lo H(8) fuel] show ?thesis by (simp add: tlsf_check_pool_def tlsf_walk_pool_def)
qed

section \<open>The walk over the lists\<close>

text \<open>What \<^verbatim>\<open>tlsf_check\<close> asks of a free block: it is free, and its neighbours are used and know of it.\<close>

lemma free_block_checks:
  assumes heap: "tlsf_heap st lo bs" and y: "(y, s) \<in> fblocks lo bs"
  shows "block_size (wd y) st = Done (wd s)" "24 \<le> s" "s < 2 ^ 32" "block_is_free (wd y) st = Done True"
    "block_is_prev_free (wd y) st = Done False"
    "\<exists>n. block_next (wd y) st = Done n \<and> block_is_free n st = Done False \<and> block_is_prev_free n st = Done True"
proof -
  obtain L where rep: "heap_rep st L lo bs (fblocks lo bs)" and co: "coalesced bs" using heap by (auto simp: tlsf_heap_def)
  obtain xs ys where bs: "bs = xs @ (s, True) # ys" "y = end_of lo xs" using fblocks_split [OF y] by blast
  note B = split_heap [OF rep [unfolded bs(1)] bs(2) refl]
  have prev: "\<not> last_free False xs"
  proof
    assume "last_free False xs"
    then obtain zs t where "xs = zs @ [(t, True)]" using last_free_cases by blast
    with co show False by (simp add: bs(1) successively_append_iff successively_Cons)
  qed
  have nxt: "\<not> head_free ys" using co by (cases ys) (auto simp: bs(1) successively_append_iff successively_Cons)
  have s: "0 < s" using B(2) by simp
  note ops = header_ops(1-3) [OF B(1,3)] next_ops(2) [OF B(1,3) s B(5)]
  show "block_size (wd y) st = Done (wd s)" "24 \<le> s" "s < 2 ^ 32" "block_is_free (wd y) st = Done True"
    "block_is_prev_free (wd y) st = Done False"
    using ops B(2,4) prev by simp_all
  obtain t where t: "tmem st (wd (y + 8 + s + 8)) = Some (hdr t False True)" "8 dvd t"
    using next_header [OF B(12)] nxt by auto
  show "\<exists>n. block_next (wd y) st = Done n \<and> block_is_free n st = Done False \<and> block_is_prev_free n st = Done True"
    using ops(4) header_ops(2,3) [OF t] by blast
qed

lemma check_list_passes:
  assumes heap: "tlsf_heap st lo bs" and dl: "dl (tmem st) (control st) p xs" and fuel: "length xs < fuel"
    and held: "\<And>b. b \<in> set xs \<Longrightarrow> b \<noteq> control st \<and> (\<exists>y s. b = wd y \<and> (y, s) \<in> fblocks lo bs \<and> mapping_insert (wd s) = (i, j))"
  shows "checkList fuel i j (hd (xs @ [control st])) st = Done ()"
  using dl fuel held
proof (induction xs arbitrary: fuel p)
  case Nil
  then show ?case by (cases fuel) auto
next
  case (Cons b xs)
  obtain n where n: "fuel = Suc n" "length xs < n" using Cons.prems(2) by (cases fuel) auto
  obtain y s where b: "b \<noteq> control st" "b = wd y" "(y, s) \<in> fblocks lo bs" "mapping_insert (wd s) = (i, j)" using Cons.prems(3) [of b] by auto
  note F = free_block_checks [OF heap b(3)]
  obtain nx where nx: "block_next (wd y) st = Done nx" "block_is_free nx st = Done False" "block_is_prev_free nx st = Done True"
    using F(6) by blast
  have "block_size_min \<le> wd s" using F(2,3) by (simp add: block_size_min_def word_le_nat_alt unat_wd)
  moreover have "load (f_next b) st = Done (hd (xs @ [control st]))" "dl (tmem st) (control st) b xs"
    using Cons.prems(1) by (simp_all add: load_def)
  moreover from this(2) have "checkList n i j (hd (xs @ [control st])) st = Done ()"
    using Cons.IH [OF _ n(2)] Cons.prems(3) by simp
  ultimately show ?case using b(1,4) F(1,4,5) nx unfolding b(2) by (simp add: n(1) tlsf_assert_def)
qed

lemma list_length:
  assumes rep: "lists_rep st L" and held: "held L (fblocks lo bs)" and k: "k < 25" "l < 32"
  shows "length (L k l) \<le> length bs"
proof -
  have fin: "finite (fblocks a bs) \<and> card (fblocks a bs) \<le> length bs" for a
  proof (induction a bs rule: fblocks.induct)
    case (2 a s f bs)
    then show ?case by (auto simp: card_insert_if)
  qed simp
  have "length (L k l) = card (set (L k l))" using lists_repD(9) [OF rep k] by (simp add: distinct_card)
  also have "\<dots> \<le> card ((\<lambda>(y, s). wd y) ` fblocks lo bs)"
    using held k fin [of lo] by (intro card_mono) (auto simp: held_def image_iff)
  also have "\<dots> \<le> length bs" using card_image_le [of "fblocks lo bs"] fin [of lo] le_trans by blast
  finally show ?thesis .
qed

lemma check_class_passes:
  assumes heap: "tlsf_heap st lo bs" and fuel: "length bs < fuel" and k: "k < 25" "l < 32"
  shows "checkClass fuel k l st = Done ()"
proof -
  obtain L where rep: "heap_rep st L lo bs (fblocks lo bs)" using heap by (auto simp: tlsf_heap_def)
  note H = heap_repD [OF rep] and D = lists_repD [OF heap_repD(1) [OF rep]]
  have slm: "sl_bitmap st ! k AND push_bit l 1 = 0 \<longleftrightarrow> L k l = []" and
    flm: "fl_bitmap st AND push_bit k 1 = 0 \<longleftrightarrow> sl_bitmap st ! k = 0"
    using D(10) [OF k] D(11) [of k] k(1) by (simp_all add: push_bit_eq_mult and_exp_eq_0_iff_not_bit)
  have get: "getSl k st = Done (sl_bitmap st ! k)" "getHead k l st = Done (hd (L k l @ [control st]))"
    using D(4-7) k by (simp_all add: getSl_def getHead_def)
  have fl: "fl_bitmap st AND push_bit k 1 = 0 \<longrightarrow> L k l = []" using flm slm by auto
  have mem: "b \<noteq> control st \<and> (\<exists>y s. b = wd y \<and> (y, s) \<in> fblocks lo bs \<and> mapping_insert (wd s) = (k, l))" if "b \<in> set (L k l)" for b
  proof -
    have "b \<in> members L" using that in_members [OF k] by blast
    from D(15) [OF this] have "b \<noteq> control st" by (simp add: apart_def)
    with H(2) that k show ?thesis by (auto simp: held_def)
  qed
  show ?thesis
  proof (cases "L k l = []")
    case True
    then show ?thesis using slm by (simp add: checkClass_def get tlsf_assert_def Let_def)
  next
    case False
    have "length (L k l) < fuel" using list_length [OF H(1,2) k] fuel by simp
    from check_list_passes [OF heap D(8) [OF k] this mem]
    have run: "checkList fuel k l (hd (L k l @ [control st])) st = Done ()" by simp
    have "hd (L k l @ [control st]) \<noteq> control st" using False mem [of "hd (L k l)"] by (cases "L k l") auto
    moreover have "sl_bitmap st ! k \<noteq> 0" using False slm by auto
    ultimately show ?thesis using False slm fl run by (simp add: checkClass_def get tlsf_assert_def Let_def)
  qed
qed

lemma check_passes:
  assumes heap: "tlsf_heap st lo bs" and fuel: "length bs < fuel"
  shows "tlsf_check fuel st = Done 0"
proof -
  have "checkAll fuel ps st = Done 0" if "\<forall>(i, j) \<in> set ps. i < 25 \<and> j < 32" for ps
    using that
  proof (induction ps)
    case (Cons p ps)
    then show ?case using check_class_passes [OF heap fuel] by (cases p) simp
  qed simp
  then show ?thesis by (simp add: tlsf_check_def tlsf_consts)
qed

section \<open>Properties\<close>

text \<open>
  C19 (the allocator's own checks pass). On every heap reached by clients that allocate (below 2 ^ 64 - 7 bytes), write into what they own, and free,
  \<^verbatim>\<open>tlsf_check\<close> and \<^verbatim>\<open>tlsf_check_pool\<close> end after at most one round per 32 bytes and report no error:
  the bitmaps and lists agree, every listed block is free, coalesced and in the list of its size, and the free bits of
  neighbours agree.
\<close>

theorem reachable_heaps_pass_checks:
  assumes "heap_run c s st U" "s + 8 < 32 * fuel"
  shows "tlsf_check fuel st = Done 0 \<and> tlsf_check_pool fuel (wd (c + 6536)) st = Done 0"
proof -
  obtain bs where ok: "heap_ok c s st U bs" using heap_run_ok [OF assms(1)] by blast
  note I = heap_okD [OF ok]
  obtain L where rep: "heap_rep st L (c + 6528) bs (fblocks (c + 6528) bs)" using I(1) by (auto simp: tlsf_heap_def)
  have "c + 6528 + 32 * length bs \<le> c + 6536 + s" using block_count [OF heap_repD(5) [OF rep]] I(2) by simp
  then have fuel: "length bs < fuel" using assms(2) by simp
  have "c + 6528 + 8 = c + 6536" by simp
  with check_passes [OF I(1) fuel] check_pool_passes [OF I(1) fuel] show ?thesis by metis
qed

theorem reachable_heaps_pass_checks_witness:
  "\<exists>st. heap_run 4096 4096 st [wd 10640 \<mapsto> 100, wd 10752 \<mapsto> 100] \<and> tlsf_check 129 st = Done 0"
proof -
  obtain st where st: "heap_run 4096 4096 st [wd 10640 \<mapsto> 100, wd 10752 \<mapsto> 100]" using demo_run by blast
  with reachable_heaps_pass_checks [OF st, of 129] show ?thesis by auto
qed

end
