(* ===== verification/PoolHeap.thy ===== *)
theory PoolHeap
  imports TlsfRun Executive
begin

text \<open>
  The kernel pool (\<^verbatim>\<open>ex/pool.c\<close>) on top of the frame allocator (\<^verbatim>\<open>mm/phys.c\<close>) and the block
  allocator (\<^verbatim>\<open>mm/tlsf.c\<close>): what \<^verbatim>\<open>kiPoolInit\<close> sets up is a heap in the sense of \<^verbatim>\<open>TlsfRun\<close>, and the
  pool's operations stay on its runs. \<open>U\<close> maps each pointer handed out to the length asked for.
\<close>

section \<open>Reachable pools\<close>

text \<open>
  Before the initialisation: the frame allocator is set up, and the direct map of physical memory, whose base is
  word-aligned, ends below the top of the address space.
\<close>

definition pool_start :: "pool \<Rightarrow> bool" where
  "pool_start s \<longleftrightarrow> \<not> pool_isInit s \<and> pool_ready (frames s) \<and> 8 dvd unat (kernelBase (frames s)) \<and>
     unat (highestFrameIdx (frames s)) * 4096 + unat (kernelBase (frames s)) + 2 ^ 14 < 2 ^ 64"

inductive pool_run :: "pool \<Rightarrow> (uquad \<rightharpoonup> usize) \<Rightarrow> bool" where
  initialised: "pool_start s \<Longrightarrow> kiPoolInit s = Done s' \<Longrightarrow> pool_run s' Map.empty"
| again: "pool_run s U \<Longrightarrow> kiPoolInit s = Done s' \<Longrightarrow> pool_run s' U"
| allocated: "pool_run s U \<Longrightarrow> unat len + 7 < 2 ^ 64 \<Longrightarrow> exAllocatePool len s = Done (Some p, s') \<Longrightarrow> pool_run s' (U(p \<mapsto> len))"
| refused: "pool_run s U \<Longrightarrow> unat len + 7 < 2 ^ 64 \<Longrightarrow> exAllocatePool len s = Done (None, s') \<Longrightarrow> pool_run s' U"
| freed: "pool_run s U \<Longrightarrow> U p = Some n \<Longrightarrow> exFreePool (Some p) s = Done s' \<Longrightarrow> pool_run s' (U(p := None))"
| written: "pool_run s U \<Longrightarrow> U p = Some n \<Longrightarrow> 8 dvd k \<Longrightarrow> k + 8 \<le> unat n \<Longrightarrow> Tlsf.store (p + wd k) v (heap s) = Done h \<Longrightarrow>
    pool_run (s\<lparr>heap := h\<rparr>) U"

text \<open>The heap begins at the pool's base; 6552 of its bytes go to the control structure, a header and the end mark.\<close>

definition pool_heap :: "pool \<Rightarrow> (uquad \<rightharpoonup> usize) \<Rightarrow> bool" where
  "pool_heap s U \<longleftrightarrow> pool_isInit s \<and> heap_run (unat (poolVirtBase s)) 33547880 (heap s) U"

lemma pool_words_at:
  assumes "8 dvd c" "c + 2 ^ 25 + 2048 < 2 ^ 64" "0 < c"
  shows "pool_at c 33547880 (h\<lparr>tmem := poolWords (wd c) pm\<rparr>)"
  unfolding pool_at_def
proof (intro conjI allI impI)
  fix x assume x: "8 dvd x \<and> c \<le> x \<and> x < c + 33547880 + 6552"
  have "wd x - wd c = wd (x - c)" by (rule wd_diff) (use x in simp)
  moreover have y: "unat (wd (x - c)) = x - c" by (rule unat_wd) (use x in auto)
  have "wd (x - c) < POOLSIZE_BYTES" using x by (auto simp: POOLSIZE_BYTES_def word_less_nat_alt y)
  moreover have "wd x AND 7 = 0" by (rule wd_aligned) (use x in simp)
  ultimately show "tmem (h\<lparr>tmem := poolWords (wd c) pm\<rparr>) (wd x) \<noteq> None" by (simp add: poolWords_def)
qed (use assms in simp_all)

lemma pool_base:
  assumes start: "pool_start s" and al: "mmAllocFrame POOLSIZE_PAGES (frames s) = Done (base, pm)" "base \<noteq> 0"
  shows "kernelBase pm = kernelBase (frames s)" "8 dvd unat (PHYS_TO_VIRT pm base)"
    "unat (PHYS_TO_VIRT pm base) + 2 ^ 25 + 2048 < 2 ^ 64" "0 < unat (PHYS_TO_VIRT pm base)"
proof -
  have S: "pool_ready (frames s)" "8 dvd unat (kernelBase (frames s))"
    "unat (highestFrameIdx (frames s)) * 4096 + unat (kernelBase (frames s)) + 2 ^ 14 < 2 ^ 64"
    using start by (simp_all add: pool_start_def)
  from S(1) al(1) obtain f bm where f: "pm = allocated (accounted POOLSIZE_PAGES (frames s)) POOLSIZE_PAGES f bm" "unat base = f * 4096"
    "f + unat POOLSIZE_PAGES < unat (highestFrameIdx (frames s))"
    by (cases rule: mmAllocFrame_cases) (use al(2) in auto)
  show kb: "kernelBase pm = kernelBase (frames s)" by (simp add: f(1))
  have pages: "unat POOLSIZE_PAGES = 8192" by (simp add: POOLSIZE_PAGES_def POOLSIZE_BYTES_def PAGESIZE_def)
  have b: "unat base + 2 ^ 25 + unat (kernelBase (frames s)) + 2 ^ 14 < 2 ^ 64" using f(2,3) S(3) by (simp add: pages)
  then have v: "unat (PHYS_TO_VIRT pm base) = unat base + unat (kernelBase (frames s))"
    unfolding PHYS_TO_VIRT_def kb by (intro unat_plus_small) simp
  have "8 dvd unat base" by (simp add: f(2))
  then show "8 dvd unat (PHYS_TO_VIRT pm base)" using S(2) by (simp add: v)
  show "unat (PHYS_TO_VIRT pm base) + 2 ^ 25 + 2048 < 2 ^ 64" using b by (simp add: v)
  show "0 < unat (PHYS_TO_VIRT pm base)" using al(2) by (simp add: v unat_gt_0)
qed

lemma pool_address:
  assumes start: "pool_start s" and al: "mmAllocFrame POOLSIZE_PAGES (frames s) = Done (base, pm)" "base \<noteq> 0"
  shows "unat (PHYS_TO_VIRT pm base) = unat base + unat (kernelBase (frames s))"
proof -
  have S: "pool_ready (frames s)" "unat (highestFrameIdx (frames s)) * 4096 + unat (kernelBase (frames s)) + 2 ^ 14 < 2 ^ 64"
    using start by (simp_all add: pool_start_def)
  from S(1) al(1) have "unat base \<le> unat (highestFrameIdx (frames s)) * 4096"
    by (cases rule: mmAllocFrame_cases) (use al(2) in auto)
  with S(2) have "unat base + unat (kernelBase (frames s)) < 2 ^ 64" by linarith
  then show ?thesis unfolding PHYS_TO_VIRT_def pool_base(1) [OF assms] by (simp add: unat_plus_small)
qed

lemma pool_created:
  assumes start: "pool_start s" and al: "mmAllocFrame POOLSIZE_PAGES (frames s) = Done (base, pm)" "base \<noteq> 0"
  shows "\<exists>s'. kiPoolInit s = Done s' \<and> pool_heap s' Map.empty \<and> poolVirtBase s' = PHYS_TO_VIRT pm base \<and> frames s' = pm \<and>
    tlsfCtx s' = Some (PHYS_TO_VIRT pm base)"
proof -
  let ?v = "PHYS_TO_VIRT pm base" and ?h = "(heap s)\<lparr>tmem := poolWords (PHYS_TO_VIRT pm base) pm\<rparr>"
  note b = pool_base [OF assms]
  have at: "pool_at (unat ?v) 33547880 ?h" using pool_words_at [OF b(2-4)] by (simp add: wd_unat)
  from heap_ok_created [OF this] obtain h where h: "tlsf_create_with_pool ?v (wd (33547880 + 6552)) ?h = Done (Some ?v, h)"
    unfolding wd_unat by blast
  have sz: "POOLSIZE_BYTES = wd (33547880 + 6552)" by (simp add: POOLSIZE_BYTES_def wd_def)
  have run: "heap_run (unat ?v) 33547880 h Map.empty"
    by (rule heap_run.created [OF at]) (simp only: wd_unat h)
  have "\<not> pool_isInit s" using start by (simp add: pool_start_def)
  with al h run show ?thesis by (simp add: kiPoolInit_def Let_def sz pool_heap_def)
qed

lemma pool_run_heap: "pool_run s U \<Longrightarrow> pool_heap s U"
proof (induction rule: pool_run.induct)
  case (initialised s s')
  have n: "\<not> pool_isInit s" using initialised(1) by (simp add: pool_start_def)
  with initialised(2) obtain base pm where "mmAllocFrame POOLSIZE_PAGES (frames s) = Done (base, pm)" "base \<noteq> 0"
    by (auto simp: kiPoolInit_def split: if_splits)
  from pool_created [OF initialised(1) this] initialised(2) show ?case by auto
next
  case (again s U s')
  then show ?case by (auto simp: kiPoolInit_def pool_heap_def)
next
  case (allocated s U len p s')
  then show ?case by (auto simp: exAllocatePool_def pool_heap_def simp del: fun_upd_apply intro: heap_run.allocated)
next
  case (refused s U len s')
  then show ?case by (auto simp: exAllocatePool_def pool_heap_def intro: heap_run.refused)
next
  case (freed s U p n s')
  then show ?case by (auto simp: exFreePool_def pool_heap_def simp del: fun_upd_apply intro: heap_run.freed)
next
  case (written s U p n k v h)
  then show ?case by (auto simp: pool_heap_def intro: heap_run.written)
qed

text \<open>The pool satisfies its clients' contract because the block allocator does.\<close>

interpretation kp: block_allocator exAllocatePool exFreePool pool_run
proof
  fix s :: pool and U len p n
  assume run: "pool_run s U"
  then have init: "pool_isInit s" and heap: "heap_run (unat (poolVirtBase s)) 33547880 (heap s) U"
    using pool_run_heap by (simp_all add: pool_heap_def)
  show "\<exists>r s'. exAllocatePool len s = Done (r, s')" if "unat len + 7 < 2 ^ 64"
    using tl.malloc_returns [OF heap that] init by (auto simp: exAllocatePool_def)
  show "U p = None \<and> pool_run s' (U(p \<mapsto> len))" if a: "unat len + 7 < 2 ^ 64" "exAllocatePool len s = Done (Some p, s')" for s'
  proof -
    obtain h where "tlsf_malloc len (heap s) = Done (Some p, h)" using a(2) init by (auto simp: exAllocatePool_def)
    from tl.malloc_fresh [OF heap a(1) this] pool_run.allocated [OF run a] show ?thesis by blast
  qed
  show "pool_run s' U" if "unat len + 7 < 2 ^ 64" "exAllocatePool len s = Done (None, s')" for s'
    by (rule pool_run.refused [OF run that])
  show "\<exists>s'. exFreePool (Some p) s = Done s' \<and> pool_run s' (U(p := None))" if u: "U p = Some n"
  proof -
    from tl.free_returns [OF heap u] obtain h where "tlsf_free (Some p) (heap s) = Done h" by blast
    then have "exFreePool (Some p) s = Done (s\<lparr>heap := h\<rparr>)" by (simp add: exFreePool_def)
    with pool_run.freed [OF run u] show ?thesis by blast
  qed
  show "unat p + unat n + 8 \<le> unat q \<or> unat q + unat m + 8 \<le> unat p" if "U p = Some n" "U q = Some m" "p \<noteq> q" for q m
    by (rule tl.in_use_apart [OF heap that])
qed

section \<open>Properties\<close>

text \<open>A machine of 8240 frames, the first of them taken.\<close>

definition demo_frames :: phys where
  "demo_frames = \<lparr>memory = (\<lambda>_. 7), kernelBase = 0x8000000000000000, cr3 = 0, tlb = (\<lambda>_. None),
     highestFrameIdx = 8240, bitmapSize = 4096, framesUsed = 1, framesFree = 8239,
     bitmapFreeStart = 1, lastIdx = 0, bitmap = 1 # replicate 1029 0, entries = []\<rparr>"

definition demo_start :: pool where
  "demo_start = \<lparr>pool_isInit = False, poolPhysBase = 0, poolVirtBase = 0, tlsfCtx = None, heap = demo_heap, frames = demo_frames\<rparr>"

lemma demo_bits: "k < 8240 \<Longrightarrow> bitAt (1 # replicate 1029 0) k \<longleftrightarrow> k = 0"
proof -
  assume "k < 8240"
  then have "k div 8 < 1030" by (intro less_mult_imp_div_less) simp
  then have "(1 # replicate 1029 0 :: uchar list) ! (k div 8) = (if k div 8 = 0 then 1 else 0)"
    by (cases "k div 8") auto
  then show ?thesis by (auto simp: bitAt_def bit_1_iff)
qed

lemma demo_start_ready: "pool_start demo_start" "first_run (bitmap demo_frames) 8240 8192 = Some 1"
proof -
  have "bitAt (1 # replicate 1029 0) 0" using demo_bits [of 0] by simp
  then show "pool_start demo_start"
    by (simp add: pool_start_def demo_start_def demo_frames_def pool_ready_def wf_phys_def frame0_reserved_def)
  show "first_run (bitmap demo_frames) 8240 8192 = Some 1"
    unfolding first_run_Some_iff is_run_iff by (simp add: demo_frames_def demo_bits)
qed

text \<open>
  C16 (functional). \<^verbatim>\<open>kiPoolInit\<close> on a set-up frame allocator: without a run of 8193 free frames it is a bug check;
  otherwise it takes the lowest such run's first 8192 frames and no others, and what lies there is a fresh heap.
\<close>

theorem kiPoolInit_creates_pool:
  assumes start: "pool_start s"
  shows "case first_run (bitmap (frames s)) (unat (highestFrameIdx (frames s))) 8192 of
      None \<Rightarrow> kiPoolInit s = Panic ''could not initialize root pool''
    | Some f \<Rightarrow> \<exists>s'. kiPoolInit s = Done s' \<and> pool_run s' Map.empty \<and>
        unat (poolVirtBase s') = f * 4096 + unat (kernelBase (frames s)) \<and>
        (\<forall>k. bitAt (bitmap (frames s')) k = (f \<le> k \<and> k < f + 8192 \<or> bitAt (bitmap (frames s)) k))"
proof -
  have ready: "pool_ready (frames s)" and n: "\<not> pool_isInit s" using start by (simp_all add: pool_start_def)
  have pages: "unat POOLSIZE_PAGES = 8192" by (simp add: POOLSIZE_PAGES_def POOLSIZE_BYTES_def PAGESIZE_def)
  obtain base pm where al: "mmAllocFrame POOLSIZE_PAGES (frames s) = Done (base, pm)" using mmAllocFrame_returns [OF ready] by blast
  from ready al show ?thesis
  proof (cases rule: mmAllocFrame_cases)
    case none
    with al n show ?thesis by (simp add: pages kiPoolInit_def)
  next
    case (some f bm)
    from pool_created [OF start al some(3)] obtain s' where s': "kiPoolInit s = Done s'" "poolVirtBase s' = PHYS_TO_VIRT pm base" "frames s' = pm"
      by blast
    have "unat (PHYS_TO_VIRT pm base) = f * 4096 + unat (kernelBase (frames s))"
      using pool_address [OF start al some(3)] some(8) by simp
    moreover have "pool_run s' Map.empty" by (rule pool_run.initialised [OF start s'(1)])
    ultimately show ?thesis using some(1,4,6) s' by (simp add: pages)
  qed
qed

theorem kiPoolInit_creates_pool_witness:
  "\<exists>s'. kiPoolInit demo_start = Done s' \<and> pool_run s' Map.empty \<and> unat (poolVirtBase s') = 4096 + 0x8000000000000000"
  using kiPoolInit_creates_pool [OF demo_start_ready(1)] demo_start_ready(2)
  by (auto simp: demo_start_def demo_frames_def)

lemma demo_pool_run: "\<exists>s p q. pool_run s [p \<mapsto> 100, q \<mapsto> 100] \<and> p \<noteq> q"
proof -
  have S: "class_index (0, 13) \<le> class_index (mapping_insert (wd 33547880))" "class_index (0, 13) \<le> class_index (mapping_insert (wd 33547768))"
  proof -
    have m: "mapping_insert 33547880 = (17, 31)" "mapping_insert 33547768 = (17, 31)" by code_simp+
    have w: "wd 33547880 = 33547880" "wd 33547768 = 33547768" by (simp_all add: wd_def)
    show "class_index (0, 13) \<le> class_index (mapping_insert (wd 33547880))" "class_index (0, 13) \<le> class_index (mapping_insert (wd 33547768))"
      unfolding w m by (simp_all add: class_index_def)
  qed
  obtain base pm where al: "mmAllocFrame POOLSIZE_PAGES demo_frames = Done (base, pm)" "base \<noteq> 0"
  proof -
    have "pool_ready demo_frames" using demo_start_ready(1) by (simp add: pool_start_def demo_start_def)
    moreover have "firstRun demo_frames POOLSIZE_PAGES = Some 1"
      using demo_start_ready(2) by (simp add: demo_frames_def POOLSIZE_PAGES_def POOLSIZE_BYTES_def PAGESIZE_def)
    ultimately show thesis
      using that mmAllocFrame_Some [of demo_frames POOLSIZE_PAGES 1] run_address_nonzero [of demo_frames POOLSIZE_PAGES 1]
      by (auto simp: pool_ready_def)
  qed
  have al': "mmAllocFrame POOLSIZE_PAGES (frames demo_start) = Done (base, pm)" using al(1) by (simp add: demo_start_def)
  let ?v = "PHYS_TO_VIRT pm base" and ?h = "(heap demo_start)\<lparr>tmem := poolWords (PHYS_TO_VIRT pm base) pm\<rparr>"
  note b = pool_base [OF demo_start_ready(1) al' al(2)]
  have at: "pool_at (unat ?v) 33547880 ?h" using pool_words_at [OF b(2-4)] by (simp add: wd_unat)
  from heap_ok_created [OF this] obtain h where h: "tlsf_create_with_pool ?v (wd (33547880 + 6552)) ?h = Done (Some ?v, h)"
    "heap_ok (unat ?v) 33547880 h Map.empty [(33547880, True)]"
    unfolding wd_unat by blast
  have sz: "POOLSIZE_BYTES = wd (33547880 + 6552)" by (simp add: POOLSIZE_BYTES_def wd_def)
  obtain s where s: "kiPoolInit demo_start = Done s" "heap s = h" "pool_isInit s"
    using al al' h(1) by (simp add: kiPoolInit_def Let_def sz demo_start_def)
  have run: "pool_run s Map.empty" by (rule pool_run.initialised [OF demo_start_ready(1) s(1)])
  let ?lo = "unat ?v + 6528"
  from first_request [OF heap_okD(1) [OF h(2)] S(1)] obtain h1 where h1: "tlsf_malloc 100 h = Done (Some (wd (?lo + 16)), h1)"
    "tlsf_heap h1 ?lo [(104, False), (33547768, True)]" by auto
  from second_request [OF h1(2) S(2)] obtain h2 where h2: "tlsf_malloc 100 h1 = Done (Some (wd (?lo + 128)), h2)" by blast
  have a1: "exAllocatePool 100 s = Done (Some (wd (?lo + 16)), s\<lparr>heap := h1\<rparr>)" using s h1(1) by (simp add: exAllocatePool_def)
  have a2: "exAllocatePool 100 (s\<lparr>heap := h1\<rparr>) = Done (Some (wd (?lo + 128)), s\<lparr>heap := h2\<rparr>)"
    using s(3) h2 by (simp add: exAllocatePool_def)
  have "wd (?lo + 16) \<noteq> wd (?lo + 128)" by (rule wd_neq) (use b(3) in auto)
  with pool_run.allocated [OF pool_run.allocated [OF run demo_request(1) a1] demo_request(1) a2] show ?thesis by blast
qed

text \<open>
  C4 (safety). Every sequence of requests that releases only what it holds, and in which each allocation asks for
  less than 2 ^ 64 - 7 bytes (from there on the code's rounding wraps around to a small block), is served to the end by the kernel pool,
  from every state it reaches by such requests:
  no assertion fails and no access leaves the pool. Afterwards the memory of the pointers in use is disjoint and
  lies within the 32 MiB of the pool.
\<close>

theorem kernel_pool_serves:
  assumes "pool_run s U" "\<forall>r \<in> set rs. small r"
  shows "\<exists>s' U'. serve exAllocatePool exFreePool rs s U = Done (s', U') \<and> pool_run s' U' \<and>
    (\<forall>p n q m. U' p = Some n \<longrightarrow> U' q = Some m \<longrightarrow> p \<noteq> q \<longrightarrow> unat p + unat n \<le> unat q \<or> unat q + unat m \<le> unat p) \<and>
    (\<forall>p n. U' p = Some n \<longrightarrow> unat (poolVirtBase s') \<le> unat p \<and> unat p + unat n \<le> unat (poolVirtBase s') + 0x2000000)"
proof -
  obtain s' U' where s': "serve exAllocatePool exFreePool rs s U = Done (s', U')" "pool_run s' U'" using kp.serves [OF assms] by blast
  have "unat p + unat n \<le> unat q \<or> unat q + unat m \<le> unat p" if "U' p = Some n" "U' q = Some m" "p \<noteq> q" for p n q m
    using kp.in_use_apart [OF s'(2) that] by linarith
  moreover have heap: "heap_run (unat (poolVirtBase s')) 33547880 (heap s') U'"
    using pool_run_heap [OF s'(2)] by (simp add: pool_heap_def)
  have "unat (poolVirtBase s') \<le> unat p \<and> unat p + unat n \<le> unat (poolVirtBase s') + 0x2000000" if "U' p = Some n" for p n
    using run_within [OF heap that] by simp
  ultimately show ?thesis using s' by blast
qed

theorem kernel_pool_serves_witness:
  "\<exists>s p q s' U'. pool_run s [p \<mapsto> 100, q \<mapsto> 100] \<and> p \<noteq> q \<and>
    serve exAllocatePool exFreePool [Release p, Allocate 5000] s [p \<mapsto> 100, q \<mapsto> 100] = Done (s', U') \<and> pool_run s' U'"
proof -
  obtain s p q where s: "pool_run s [p \<mapsto> 100, q \<mapsto> 100]" "p \<noteq> q" using demo_pool_run by blast
  have "\<forall>r \<in> set [Release p, Allocate 5000]. small r" by (simp add: small_def)
  from kernel_pool_serves [OF s(1) this] s show ?thesis by blast
qed

text \<open>
  C15 (the kernel's memory comes up). Let \<open>junk\<close> be what the uninitialised local of \<^verbatim>\<open>mmInitBitmap\<close> holds; the highest
  frame is the larger one of the map's and that of \<open>junk\<close>. Let there be less than 2 ^ 31 frames, and let the bitmap's size, which the code rounds
  down to whole bytes before it rounds it up to pages, cover them all. Let the direct map be aligned to 8 bytes and
  hold all frames. With a page-aligned memory map in which frame 0 is not usable and that, with the bitmap's pages
  taken away, still has a usable entry of 8193 frames, and with no pool yet, \<^verbatim>\<open>mmPhysInit\<close> followed by \<^verbatim>\<open>kiPoolInit\<close> gives a
  fresh pool whose pages all lie in usable entries, and a frame allocator that is ready for the page tables.
\<close>

theorem kernel_memory_boots:
  assumes map: "list_all PhysMem.entry_ok es" "carveBitmap (bitmap_bytes junk es) es = Some es'"
    "unat (frame_count junk es) \<le> 8 * unat (bitmap_bytes junk es)" "unat (frame_count junk es) < 2 ^ 31" "\<forall>e \<in> set es. \<not> entry_has e 0"
    and room: "e \<in> set es'" "entry_usable e" "0x2001000 \<le> unat (meLength e)"
    and base: "8 dvd unat (kernelBase (frames s))" "unat (frame_count junk es) * 4096 + unat (kernelBase (frames s)) + 2 ^ 14 < 2 ^ 64"
    and first: "\<not> pool_isInit s"
  shows "\<exists>pm s' f. mmPhysInit junk es (frames s) = Done pm \<and> kiPoolInit (s\<lparr>frames := pm\<rparr>) = Done s' \<and> pool_run s' Map.empty \<and>
    pool_ready (frames s') \<and> unat (poolVirtBase s') = f * 4096 + unat (kernelBase (frames s)) \<and>
    (\<forall>k. f \<le> k \<and> k < f + 8192 \<longrightarrow> (\<exists>e \<in> set es'. entry_has e k))"
proof -
  have pages: "unat POOLSIZE_PAGES = 8192" by (simp add: POOLSIZE_PAGES_def POOLSIZE_BYTES_def PAGESIZE_def)
  from mmPhysInit_frames [OF map(1-4), of "frames s"] obtain pm where pm: "mmPhysInit junk es (frames s) = Done pm" "wf_phys pm"
    "highestFrameIdx pm = frame_count junk es" "kernelBase pm = kernelBase (frames s)"
    "\<And>k. k < unat (frame_count junk es) \<Longrightarrow> \<not> bitAt (bitmap pm) k \<longleftrightarrow> (\<exists>e \<in> set es'. entry_has e k)"
    "\<And>e k. e \<in> set es' \<Longrightarrow> entry_has e k \<Longrightarrow> k < unat (frame_count junk es) \<and> (\<exists>x \<in> set es. entry_has x k)" by blast
  define g where "g = unat (meBase e) div 4096"
  have has: "entry_has e k" if "g \<le> k" "k \<le> g + 8192" for k
    using that room(2,3) by (simp add: entry_has_def g_def)
  have "bitAt (bitmap pm) 0" using pm(5) [of 0] pm(6) [OF room(1) has [of g]] pm(6) map(5) by fastforce
  then have start: "pool_start (s\<lparr>frames := pm\<rparr>)"
    using pm(2,3,4) base first by (simp add: pool_start_def pool_ready_def frame0_reserved_def)
  have "is_run (bitmap pm) (unat (highestFrameIdx pm)) 8192 g"
    unfolding is_run_iff pm(3) using pm(5,6) has room(1) by (metis le_add1 order_refl)
  then have some_run: "first_run (bitmap pm) (unat (highestFrameIdx pm)) 8192 \<noteq> None"
    by (auto simp: first_run_None_iff)
  have ready: "pool_ready pm" using start by (simp add: pool_start_def)
  obtain a pm' where al: "mmAllocFrame POOLSIZE_PAGES pm = Done (a, pm')" using mmAllocFrame_returns [OF ready] by blast
  from ready al show ?thesis
  proof (cases rule: mmAllocFrame_cases)
    case none
    with some_run show ?thesis by (simp add: pages)
  next
    case (some f bm)
    have al': "mmAllocFrame POOLSIZE_PAGES (frames (s\<lparr>frames := pm\<rparr>)) = Done (a, pm')" using al by simp
    from pool_created [OF start al' some(3)] obtain s' where s': "kiPoolInit (s\<lparr>frames := pm\<rparr>) = Done s'"
      "poolVirtBase s' = PHYS_TO_VIRT pm' a" "frames s' = pm'" by blast
    have "unat (poolVirtBase s') = f * 4096 + unat (kernelBase (frames s))"
      using pool_address [OF start al' some(3)] some(8) pm(4) by (simp add: s'(2))
    moreover have "pool_ready (frames s')"
      unfolding s'(3) some(4) by (rule pool_ready_allocated) (use ready some in \<open>auto simp: pool_ready_def frame0_reserved_def\<close>)
    moreover have "\<exists>e \<in> set es'. entry_has e k" if "f \<le> k \<and> k < f + 8192" for k
      using pm(5) [of k] some(7,9) that by (auto simp: pages pm(3))
    moreover have "pool_run s' Map.empty" by (rule pool_run.initialised [OF start s'(1)])
    ultimately show ?thesis using pm(1) s'(1) by blast
  qed
qed

definition demo_memory :: "memmap_entry list" where
  "demo_memory = [\<lparr>meBase = 0, meLength = 0x1000, meType = 1\<rparr>, \<lparr>meBase = 0x1000, meLength = 0x2004000, meType = 0\<rparr>]"

lemma demo_memory_values:
  "frame_count 0 demo_memory = 8197" "bitmap_bytes 0 demo_memory = 4096"
  "carveBitmap 4096 demo_memory = Some [\<lparr>meBase = 0, meLength = 0x1000, meType = 1\<rparr>,
     \<lparr>meBase = 0x2000, meLength = 0x2003000, meType = 0\<rparr>]"
  "list_all PhysMem.entry_ok demo_memory" "\<forall>e \<in> set demo_memory. \<not> entry_has e 0"
proof -
  show "frame_count 0 demo_memory = 8197" "bitmap_bytes 0 demo_memory = 4096" by code_simp+
  show "carveBitmap 4096 demo_memory = Some [\<lparr>meBase = 0, meLength = 0x1000, meType = 1\<rparr>,
     \<lparr>meBase = 0x2000, meLength = 0x2003000, meType = 0\<rparr>]"
    by (simp add: demo_memory_def LIMINE_MEMMAP_USABLE_def)
  show "list_all PhysMem.entry_ok demo_memory"
    by (simp add: demo_memory_def PhysMem.entry_ok_def entry_usable_def LIMINE_MEMMAP_USABLE_def page_aligned_def)
  show "\<forall>e \<in> set demo_memory. \<not> entry_has e 0"
    by (simp add: demo_memory_def entry_has_def entry_usable_def LIMINE_MEMMAP_USABLE_def)
qed

theorem kernel_memory_boots_witness:
  "\<exists>pm s'. mmPhysInit 0 demo_memory demo_frames = Done pm \<and> kiPoolInit (demo_start\<lparr>frames := pm\<rparr>) = Done s' \<and>
    pool_run s' Map.empty \<and> pool_ready (frames s')"
proof -
  let ?e = "\<lparr>meBase = 0x2000, meLength = 0x2003000, meType = 0\<rparr>"
  have carve: "carveBitmap (bitmap_bytes 0 demo_memory) demo_memory = Some [\<lparr>meBase = 0, meLength = 0x1000, meType = 1\<rparr>, ?e]"
    by (simp only: demo_memory_values)
  have frames: "frames demo_start = demo_frames" "\<not> pool_isInit demo_start" by (simp_all add: demo_start_def)
  from kernel_memory_boots [OF demo_memory_values(4) carve _ _ demo_memory_values(5), of ?e demo_start] show ?thesis
    by (simp add: demo_memory_values frames entry_usable_def LIMINE_MEMMAP_USABLE_def) (auto simp: demo_frames_def)
qed

end
