(* ===== verification/Spec2Isabelle.thy ===== *)
theory Spec2Isabelle
  imports PhysMem Mmu Process Tailq Sched Trap RtlString ObjectStore BootPack TlsfLists Spinlock Cpu Acpi Devices Smp CoreInit BootVid Executive
    Lists Boxes FirstProcess StoreBoot StoreTypes TlsfRun TlsfCheck PoolHeap
begin

text \<open>
  A verification library for the ALGAE kernel: the kernel proper in \<^verbatim>\<open>src/ntos\<close>, the status codes and
  helper macros it takes from \<^verbatim>\<open>src/sdk/include\<close>, and the tool \<^verbatim>\<open>src/tools/omar\<close> that writes its boot pack.

  \<^bold>\<open>How the program works.\<close> The boot loader enters \<^verbatim>\<open>kMain\<close> (\<^verbatim>\<open>ke/entry.c\<close>) with its responses in memory.
  \<^verbatim>\<open>kiPlatformInit\<close> builds the frame bitmap (\<^verbatim>\<open>mm/phys.c\<close>), reads the firmware tables (\<^verbatim>\<open>acpi/acpi.c\<close>) and
  starts the serial port; \<^verbatim>\<open>halCpuInit\<close> fills the descriptor tables, the interrupt table, the task state
  segment and the local interrupt controller of a processor (\<^verbatim>\<open>platform/amd64/cpu\<close>). The kernel pool
  (\<^verbatim>\<open>ex/pool.c\<close>) is a TLSF heap (\<^verbatim>\<open>mm/tlsf.c\<close>) on frames of its own. Objects with names live in directories
  (\<^verbatim>\<open>ob/obStore.c\<close>), which are tail queues (\<^verbatim>\<open>rtl/queue.h\<close>): the timers (\<^verbatim>\<open>ke/timer.c\<close>, drivers in
  \<^verbatim>\<open>platform/amd64/io\<close> and \<^verbatim>\<open>isa\<close>) and the mapper objects of drivers (\<^verbatim>\<open>ex/mapper.c\<close>, \<^verbatim>\<open>drv/bootvid\<close>).
  \<^verbatim>\<open>kiMpInit\<close> starts the other processors, and \<^verbatim>\<open>kMain\<close> ends by creating a process (\<^verbatim>\<open>ex/process.c\<close>), loading
  its program from the boot pack (\<^verbatim>\<open>ke/loader.c\<close>, \<^verbatim>\<open>ke/bootPack.c\<close>) and jumping to user mode. From there
  on the timer interrupt switches processes (\<^verbatim>\<open>ke/sched.c\<close>, \<^verbatim>\<open>platform/amd64/ke/process.c\<close>), and traps and
  system calls enter through \<^verbatim>\<open>platform/amd64/cpu/trap.S\<close> and \<^verbatim>\<open>vector.S\<close>.

  \<^bold>\<open>Conventions.\<close> A C structure is a record, the static variables of a file are fields of a state record
  that the operations take and return, integers are words of their width. A result is an \<open>outcome\<close>
  (theory \<open>Prelude\<close>): \<open>Done\<close> with the value, \<open>Panic\<close> for a bug check or failed assertion, \<open>Fault\<close> for an
  access outside of what is mapped or a call through NULL; \<open>andthen\<close> sequences them. An NTSTATUS is a
  word in the value. NULL is \<open>None\<close>. A loop that the hardware or the input can keep going has fuel or an
  \<open>option\<close> result (\<open>'a run\<close>, \<open>thenR\<close>), and the properties state how much fuel is enough or when the loop
  ends. What a call into a component outside the theory at hand answers (the pool's addresses, the
  devices, uninitialised memory) is an argument.

  \<^bold>\<open>Memory.\<close>
  \<^item> \<open>PhysMem\<close>: the bitmap, the search for free frames and their release: the search on all
    branches (first fit), the bitmap made from the loader's map, and release as the inverse of allocation. The locale \<open>frame_allocator\<close> is the contract the page
    tables rely on, interpreted by \<open>mmAllocFrame 1\<close>.
  \<^item> \<open>Mmu\<close>: the four-level tables of \<^verbatim>\<open>cpu/mmu.c\<close> against the processor's walk (\<open>translate\<close>, with the rights of
    all levels \<open>effective\<close>, with the translation cache \<open>procEntry\<close>), for mapping,
    unmapping and new address spaces, and regions (\<^verbatim>\<open>mm/page.c\<close>). New tables grant all rights (\<open>open_path\<close>), so what a process may do is
    decided by the leaf; unmapping leaves no cached entry behind (\<open>tlb_coherent\<close>). The invariant \<open>pt_inv\<close> says that the tables
    of a root form a tree of frames in use. \<open>PageKeep\<close>: mapping keeps the contents of all other pages.
  \<^item> \<open>Tlsf\<close>, \<open>TlsfMap\<close>, \<open>TlsfLists\<close>: the allocator; its size classes and bit scans, and the refinement of the
    segregated free lists and bitmaps to one list of addresses per class. \<open>TlsfHeap\<close>: the pool as a list of
    blocks with boundary tags (\<open>phys_rep\<close>), what the block operations do to it and which words they leave
    alone. \<open>TlsfAlloc\<close>: \<^verbatim>\<open>tlsf_malloc\<close>, \<^verbatim>\<open>tlsf_free\<close> and \<^verbatim>\<open>tlsf_create_with_pool\<close> on such a heap (\<open>tlsf_heap\<close>),
    on all branches. \<open>TlsfRun\<close>: all heaps reached by clients that allocate, write and free (\<open>heap_run\<close>), and the locale
    \<open>block_allocator\<close>, the contract of these operations. Requests are below \<open>2 ^ 64 - 7\<close> bytes, where the
    rounding in \<^verbatim>\<open>adjust_request_size\<close> does not wrap; \<^verbatim>\<open>tlsf_memalign\<close> and \<^verbatim>\<open>tlsf_realloc\<close>, which the kernel does not
    call, are defined but not part of the runs. \<open>TlsfCheck\<close>: the allocator's own consistency checks pass on all these heaps,
    with one unit of fuel per 32 bytes of the pool.
  \<^item> \<open>PoolHeap\<close>: the kernel pool set up by \<^verbatim>\<open>kiPoolInit\<close> on frames of its own is such a heap and meets the same contract,
    and it comes up from any memory map with enough usable frames.
  \<^item> \<open>Executive\<close>, \<open>Boxes\<close>: the pool on top, pointer boxes, mapper objects, timer descriptors, modules and the
    program loader's definitions; what a box holds and its release.

  \<^bold>\<open>Data structures and text.\<close>
  \<^item> \<open>Tailq\<close>, \<open>Lists\<close>: the queue macros on pointer cells, refined to lists (\<open>queue_rep\<close>, \<open>list_rep\<close>). The
    locale \<open>fifo\<close> is the contract of the run queues, directories and boxes.
  \<^item> \<open>RtlString\<close>: strings, number formatting and \<^verbatim>\<open>rtlBufPrintfV\<close>, byte by byte with faults out of range.

  \<^bold>\<open>Objects.\<close>
  \<^item> \<open>ObjectStore\<close>: \<open>wf_store\<close> relates the store to the children of each directory, \<open>resolve\<close> is the
    specification of the path lookup, which \<^verbatim>\<open>obLookupObject\<close> implements; creation, release, tables.
  \<^item> \<open>StoreBoot\<close>: the root, the timers' directory and the registration of the three timers, whose
    descriptors are found afterwards. \<open>StoreTypes\<close>: in every store the kernel reaches (\<open>kernel_store\<close>, an
    inductive predicate over the operations) the untyped data pointers have their readers' types.

  \<^bold>\<open>Processors and devices.\<close>
  \<^item> \<open>Spinlock\<close>: the lock alone and under all interleavings of any number of processors.
  \<^item> \<open>Cpu\<close>, \<open>CoreInit\<close>, \<open>Smp\<close>: descriptor tables, interrupt levels, the task state; what \<^verbatim>\<open>halCpuInit\<close> leaves;
    the start of the application processors by inter-processor interrupts.
  \<^item> \<open>Acpi\<close>: firmware tables as bytes in memory. \<open>Devices\<close>: timers, serial port and interrupt controllers
    over a bus whose answers are an arbitrary function of the accesses so far.
  \<^item> \<open>Trap\<close>: the entry macros as instruction lists, their C handlers, the timer interrupt as a whole,
    and the trace output. \<open>Sched\<close>: the arbiter, run queues and the switch, with
    what it preserves and that no process waits for ever.
  \<^item> \<open>BootVid\<close>, \<open>ConsFont\<close>: pixels of the boot console, the boot screen and the bug check's text.

  \<^bold>\<open>Programs.\<close>
  \<^item> \<open>BootPack\<close>: the loader's responses, the lookup in the boot pack, and the archiver on both sides: what
    it writes the kernel finds, and it extracts again, on hosts where files may also fail to open.
  \<^item> \<open>Process\<close>: creation of a process with its address space and stack. \<open>Loader\<close>, \<open>LoadPe\<close>: the sections of a
    program, byte by byte, at their addresses in the user's address space. \<open>FirstProcess\<close>: the end of
    \<^verbatim>\<open>kMain\<close>, composed of these, up to user mode.

  \<^bold>\<open>Bounds and fuel.\<close> Directory scans have fuel at least the number of children, the traversals of queues
  as many rounds as elements, path components are shorter than 31 bytes as the code enforces; the walks
  over firmware tables and polling loops have their own termination conditions in the statements.
  Searches over the bitmap recurse on the distance to the last frame, the text functions on the rest of
  the buffer; TLSF's list walks are over the represented lists.

  \<^bold>\<open>Not modelled.\<close> The boot loader's hand-over, the real-mode trampoline and linker scripts (assembly
  and layout before any C code); \<^verbatim>\<open>rtl/limine.h\<close> except for the responses that are read (third party);
  the user-space stubs \<^verbatim>\<open>sdk/core/crt.c\<close> and \<^verbatim>\<open>rts/csrs\<close>, which do nothing but return; the composition of
  the first half of \<^verbatim>\<open>kMain\<close> on one machine state, whose calls are each modelled in their component;
  caches, the memory model of the hardware beyond the translation buffer, and the timing of devices.
  The compilers' variants of the bit scans that this build does not select are left out, as are the
  debugging variants of the queue macros. The spin locks around operations of single components are left
  out of those operations: \<open>Spinlock\<close> shows that they serialise the critical sections.
\<close>

end
